(* ===== verification/Xrdp_Prelude.thy ===== *)
theory Xrdp_Prelude
  imports Main "HOL-Library.Word" "HOL-Library.Monad_Syntax"
begin

unbundle bit_operations_syntax

text \<open>
  Shared vocabulary of the development: bytes, C integer conversions, little-endian
  encodings, and the collections of simplification rules the component theories feed.
  Undefined behaviour of the C code (an access outside a buffer, a dereferenced NULL, a
  mistyped variadic argument) is the value \<^term>\<open>None\<close> of a partial operation, so that
  absence of undefined behaviour is a theorem and never an assumption of the model.
\<close>

named_theorems stream_simps \<open>facts on stream positions and contents\<close>
named_theorems wf_intros \<open>well-formedness of results\<close>

type_synonym byte = "8 word"

subsection \<open>C integer conversions\<close>

text \<open>Conversion to \<^verbatim>\<open>int\<close>, \<^verbatim>\<open>unsigned int\<close>, \<^verbatim>\<open>unsigned short\<close> and \<^verbatim>\<open>size_t\<close>.\<close>

definition c_int :: "int \<Rightarrow> int" where
  "c_int x = (x + 2 ^ 31) mod 2 ^ 32 - 2 ^ 31"

definition c_uint :: "int \<Rightarrow> int" where
  "c_uint x = x mod 2 ^ 32"

definition c_ushort :: "int \<Rightarrow> int" where
  "c_ushort x = x mod 2 ^ 16"

definition c_short :: "int \<Rightarrow> int" where
  "c_short x = (x + 2 ^ 15) mod 2 ^ 16 - 2 ^ 15"

definition c_size_t :: "int \<Rightarrow> int" where
  "c_size_t x = x mod 2 ^ 64"

lemma c_int_id [simp]: "- (2 ^ 31) \<le> x \<Longrightarrow> x < 2 ^ 31 \<Longrightarrow> c_int x = x"
  by (simp add: c_int_def)

lemma c_uint_id [simp]: "0 \<le> x \<Longrightarrow> x < 2 ^ 32 \<Longrightarrow> c_uint x = x"
  by (simp add: c_uint_def)

lemma c_ushort_id [simp]: "0 \<le> x \<Longrightarrow> x < 2 ^ 16 \<Longrightarrow> c_ushort x = x"
  by (simp add: c_ushort_def)

lemma c_size_t_id [simp]: "0 \<le> x \<Longrightarrow> x < 2 ^ 64 \<Longrightarrow> c_size_t x = x"
  by (simp add: c_size_t_def)

lemma c_int_range: "- (2 ^ 31) \<le> c_int x" "c_int x < 2 ^ 31"
  by (simp_all add: c_int_def)

lemma c_uint_range: "0 \<le> c_uint x" "c_uint x < 2 ^ 32"
  by (simp_all add: c_uint_def)

lemma c_ushort_range: "0 \<le> c_ushort x" "c_ushort x < 2 ^ 16"
  by (simp_all add: c_ushort_def)

lemma c_short_of_ushort: "- (2 ^ 15) \<le> x \<Longrightarrow> x < 2 ^ 15 \<Longrightarrow> c_short (c_ushort x) = x"
  by (simp add: c_short_def c_ushort_def mod_simps)

lemma c_int_of_uint: "- (2 ^ 31) \<le> x \<Longrightarrow> x < 2 ^ 31 \<Longrightarrow> c_int (c_uint x) = x"
  by (simp add: c_int_def c_uint_def mod_simps)

lemma and_not_id: "(a :: 'a::len word) AND b = 0 \<Longrightarrow> a AND NOT b = a"
  by (auto simp: bit_eq_iff bit_simps)

subsection \<open>Little-endian encodings\<close>

fun le_bytes :: "nat \<Rightarrow> int \<Rightarrow> byte list" where
  "le_bytes 0 v = []"
| "le_bytes (Suc n) v = word_of_int v # le_bytes n (v div 256)"

fun le_val :: "byte list \<Rightarrow> int" where
  "le_val [] = 0"
| "le_val (b # bs) = uint b + 256 * le_val bs"

lemma uint_byte_of_int [simp]: "0 \<le> v \<Longrightarrow> v \<le> 255 \<Longrightarrow> uint (word_of_int v :: byte) = v"
  by (simp add: uint_word_of_int)

lemma length_le_bytes [simp]: "length (le_bytes n v) = n"
  by (induction n v rule: le_bytes.induct) auto

lemma le_val_nonneg: "0 \<le> le_val bs"
  by (induction bs) auto

lemma le_val_less: "le_val bs < 256 ^ length bs"
proof (induction bs)
  case (Cons b bs)
  have "uint b \<le> 255"
    using uint_lt2p [of b] by simp
  with Cons.IH show ?case by simp
qed simp

lemma mod_mult_div_int: "(v :: int) mod 256 + 256 * ((v div 256) mod m) = v mod (256 * m)" if "0 < m"
  using that by (simp add: zmod_zmult2_eq)

lemma le_val_le_bytes [simp]: "le_val (le_bytes n v) = v mod 256 ^ n"
proof (induction n v rule: le_bytes.induct)
  case (2 n v)
  then show ?case
    by (simp add: uint_word_of_int mod_mult_div_int)
qed simp

lemma le_bytes_le_val [simp]: "le_bytes (length bs) (le_val bs) = bs"
proof (induction bs)
  case (Cons b bs)
  have "uint b div 256 = 0"
    using uint_lt2p [of b] by simp
  moreover have "(word_of_int (uint b + 256 * le_val bs) :: byte) = b"
  proof -
    have "uint (word_of_int (uint b + 256 * le_val bs) :: byte) = (uint b + 256 * le_val bs) mod 256"
      by (subst uint_word_of_int) simp
    also have "\<dots> = uint b"
      using uint_lt2p [of b] by simp
    finally show ?thesis by (rule word_uint_eqI)
  qed
  ultimately show ?case using Cons.IH by simp
qed simp

subsection \<open>Lists and partial results\<close>

lemma take_drop_append_eq:
  "drop n xs = ys @ zs \<Longrightarrow> take (length ys) (drop n xs) = ys"
  by simp

definition list_get :: "'a list \<Rightarrow> nat \<Rightarrow> 'a option" where
  "list_get xs i = (if i < length xs then Some (xs ! i) else None)"

definition list_set :: "'a list \<Rightarrow> nat \<Rightarrow> 'a \<Rightarrow> 'a list option" where
  "list_set xs i x = (if i < length xs then Some (xs[i := x]) else None)"

lemma list_get_Some [simp]: "i < length xs \<Longrightarrow> list_get xs i = Some (xs ! i)"
  by (simp add: list_get_def)

lemma list_set_Some [simp]: "i < length xs \<Longrightarrow> list_set xs i x = Some (xs[i := x])"
  by (simp add: list_set_def)

lemma list_set_eq_Some: "list_set xs i x = Some ys \<longleftrightarrow> i < length xs \<and> ys = xs[i := x]"
  by (auto simp: list_set_def)

lemma list_get_eq_Some: "list_get xs i = Some x \<longleftrightarrow> i < length xs \<and> x = xs ! i"
  by (auto simp: list_get_def)

text \<open>Appending to the used part of an array: what \<^verbatim>\<open>a[n++] = x\<close> does.\<close>

lemma take_Suc_update: "n < length xs \<Longrightarrow> take (Suc n) (xs[n := x]) = take n xs @ [x]"
  by (simp add: take_Suc_conv_app_nth)

end
