(* ===== verification/Rc4.thy ===== *)
theory Rc4
  imports Xrdp_Prelude "HOL-Library.Multiset"
begin

text \<open>
  \<^verbatim>\<open>common/ssl_calls.c\<close>, the RC4 cipher that is used with OpenSSL 3: key schedule and encryption, with the
  round unrolled eight times. The indices, which the code masks with 0xff, are bytes, which wrap; a key that is
  shorter than its length, or a length of 0 (the code then divides by 0), is \<^term>\<open>None\<close>.
\<close>

record rc4_data =
  rc4_S :: "byte list"
  rc4_i :: byte
  rc4_j :: byte

definition swap_at :: "nat \<Rightarrow> nat \<Rightarrow> byte list \<Rightarrow> byte list" where
  "swap_at a b S = S[a := S ! b, b := S ! a]"

definition rc4_schedule_step :: "byte list \<Rightarrow> nat \<Rightarrow> byte list \<times> byte \<Rightarrow> byte list \<times> byte" where
  "rc4_schedule_step key i = (\<lambda>(S, j). let j = j + S ! i + key ! (i mod length key) in (swap_at i (unat j) S, j))"

definition ssl_rc4_set_key :: "byte list \<Rightarrow> nat \<Rightarrow> rc4_data option" where
  "ssl_rc4_set_key key len =
     (if len = 0 \<or> length key < len then None
      else Some \<lparr>rc4_S = fst (fold (rc4_schedule_step (take len key)) [0..<256] (map of_nat [0..<256], 0)), rc4_i = 0, rc4_j = 0\<rparr>)"

definition rc4_round :: "rc4_data \<Rightarrow> byte \<Rightarrow> byte \<times> rc4_data" where
  "rc4_round d p =
     (let i = rc4_i d + 1;
          j = rc4_j d + rc4_S d ! unat i;
          S = swap_at (unat i) (unat j) (rc4_S d);
          k = S ! unat (S ! unat i + S ! unat j)
      in (p XOR k, \<lparr>rc4_S = S, rc4_i = i, rc4_j = j\<rparr>))"

fun rc4_rounds :: "rc4_data \<Rightarrow> byte list \<Rightarrow> byte list \<times> rc4_data" where
  "rc4_rounds d [] = ([], d)"
| "rc4_rounds d (p # ps) = (let (c, d) = rc4_round d p; (cs, d) = rc4_rounds d ps in (c # cs, d))"

text \<open>Eight rounds at a time, and then one by one.\<close>

function ssl_rc4_crypt :: "rc4_data \<Rightarrow> byte list \<Rightarrow> byte list \<times> rc4_data" where
  "ssl_rc4_crypt d data =
     (if 8 \<le> length data
      then let (cs, d) = rc4_rounds d (take 8 data); (cs', d) = ssl_rc4_crypt d (drop 8 data) in (cs @ cs', d)
      else rc4_rounds d data)"
  by pat_completeness auto
termination by (relation "measure (\<lambda>(d, data). length data)") auto

declare ssl_rc4_crypt.simps [simp del]

subsection \<open>The unrolled loop is a stream cipher\<close>

lemma rc4_rounds_append:
  "rc4_rounds d (xs @ ys) = (let (cs, d) = rc4_rounds d xs; (cs', d) = rc4_rounds d ys in (cs @ cs', d))"
  by (induction xs arbitrary: d) (auto simp: split: prod.splits)

lemma ssl_rc4_crypt_rounds: "ssl_rc4_crypt d data = rc4_rounds d data"
proof (induction d data rule: ssl_rc4_crypt.induct)
  case (1 d data)
  show ?case
  proof (cases "8 \<le> length data")
    case True
    have "rc4_rounds d data = rc4_rounds d (take 8 data @ drop 8 data)" by simp
    with True 1 show ?thesis
      by (subst ssl_rc4_crypt.simps) (simp only: rc4_rounds_append if_True, auto split: prod.splits)
  qed (subst ssl_rc4_crypt.simps, simp)
qed

lemma length_rc4 [simp]: "length (fst (ssl_rc4_crypt d data)) = length data"
  unfolding ssl_rc4_crypt_rounds by (induction data arbitrary: d) (simp_all add: case_prod_beta Let_def)

text \<open>The key stream does not depend on the data, so that a second run from the same state gives the data back.\<close>

lemma rc4_round_again: "rc4_round d (fst (rc4_round d p)) = (p, snd (rc4_round d p))"
  by (simp add: rc4_round_def Let_def xor.assoc)

lemma rc4_crypt_twice: "ssl_rc4_crypt d (fst (ssl_rc4_crypt d data)) = (data, snd (ssl_rc4_crypt d data))"
  unfolding ssl_rc4_crypt_rounds
proof (induction data arbitrary: d)
  case (Cons p ps)
  show ?case using Cons.IH [of "snd (rc4_round d p)"] rc4_round_again [of d p]
    by (auto simp: case_prod_beta Let_def)
qed simp

lemma rc4_crypt_append:
  "ssl_rc4_crypt d (xs @ ys) = (fst (ssl_rc4_crypt d xs) @ fst (ssl_rc4_crypt (snd (ssl_rc4_crypt d xs)) ys),
     snd (ssl_rc4_crypt (snd (ssl_rc4_crypt d xs)) ys))"
  unfolding ssl_rc4_crypt_rounds rc4_rounds_append by (simp add: case_prod_beta Let_def)

subsection \<open>The state is a permutation\<close>

text \<open>Every byte occurs once; every index is then inside.\<close>

definition rc4_ok :: "byte list \<Rightarrow> bool" where
  "rc4_ok S \<longleftrightarrow> mset S = mset (map of_nat [0..<256])"

lemma rc4_ok_length: "rc4_ok S \<Longrightarrow> length S = 256"
  using mset_eq_length [of S "map of_nat [0..<256]"] by (simp add: rc4_ok_def)

lemma byte_index: "unat (b :: byte) < 256"
  using unsigned_less [of b, where 'a = nat] by simp

lemma swap_ok: "rc4_ok S \<Longrightarrow> a < 256 \<Longrightarrow> b < 256 \<Longrightarrow> rc4_ok (swap_at a b S)"
  using rc4_ok_length [of S] by (simp add: rc4_ok_def swap_at_def mset_swap)

lemma schedule_ok: "rc4_ok S \<Longrightarrow> set ks \<subseteq> {..<256} \<Longrightarrow> rc4_ok (fst (fold (rc4_schedule_step key) ks (S, j)))"
  by (induction ks arbitrary: S j) (simp_all add: rc4_schedule_step_def Let_def byte_index swap_ok)

lemma round_ok: "rc4_ok (rc4_S d) \<Longrightarrow> rc4_ok (rc4_S (snd (rc4_round d p)))"
  by (simp add: rc4_round_def Let_def swap_ok byte_index)

lemma rc4_crypt_ok: "rc4_ok (rc4_S d) \<Longrightarrow> rc4_ok (rc4_S (snd (ssl_rc4_crypt d data)))"
  unfolding ssl_rc4_crypt_rounds
proof (induction data arbitrary: d)
  case (Cons p ps)
  show ?case using Cons.IH [OF round_ok [OF Cons.prems]] by (simp add: case_prod_beta Let_def)
qed simp

end
