(* ===== verification/Parse_Stream.thy ===== *)
theory Parse_Stream
  imports Xrdp_Prelude
begin

text \<open>
  \<^verbatim>\<open>common/parse.h\<close>: the stream every protocol layer reads and writes. The record
  models \<^verbatim>\<open>struct stream\<close>; the pointers into the buffer are offsets from
  \<^verbatim>\<open>data\<close>, and the field \<^verbatim>\<open>size\<close> is the length of the buffer. Each macro is one
  definition. A macro that would touch memory outside the buffer has the result
  \<^term>\<open>None\<close>. The macros that read or write integers use the unchecked variants (the
  build without \<^verbatim>\<open>USE_DEVEL_STREAMCHECK\<close>).
\<close>

record stream =
  s_data :: "byte list"
  s_p :: nat
  s_end :: nat
  s_iso_hdr :: nat
  s_mcs_hdr :: nat
  s_sec_hdr :: nat
  s_rdp_hdr :: nat
  s_channel_hdr :: nat
  s_next_packet :: "nat option"

text \<open>A stream over a buffer whose layer headers are not in use.\<close>

abbreviation (input) buf :: "byte list \<Rightarrow> nat \<Rightarrow> nat \<Rightarrow> stream" where
  "buf data p end_of \<equiv>
     \<lparr>s_data = data, s_p = p, s_end = end_of, s_iso_hdr = 0, s_mcs_hdr = 0, s_sec_hdr = 0, s_rdp_hdr = 0, s_channel_hdr = 0,
      s_next_packet = None\<rparr>"

abbreviation s_size :: "stream \<Rightarrow> nat" where
  "s_size s \<equiv> length (s_data s)"

subsection \<open>Room checks\<close>

definition s_check_rem :: "stream \<Rightarrow> int \<Rightarrow> bool" where
  "s_check_rem s n \<longleftrightarrow> c_size_t n \<le> c_size_t (int (s_end s) - int (s_p s))"

definition s_check_rem_out :: "stream \<Rightarrow> int \<Rightarrow> bool" where
  "s_check_rem_out s n \<longleftrightarrow> c_size_t n \<le> c_size_t (int (s_size s) - int (s_p s))"

definition s_check_end :: "stream \<Rightarrow> bool" where
  "s_check_end s \<longleftrightarrow> s_p s = s_end s"

definition s_rem :: "stream \<Rightarrow> int" where
  "s_rem s = c_int (int (s_end s) - int (s_p s))"

definition s_rem_out :: "stream \<Rightarrow> int" where
  "s_rem_out s = c_int (int (s_size s) - int (s_p s))"

subsection \<open>Allocation, layers, end mark\<close>

definition make_stream :: stream where
  "make_stream = (buf [] 0 0)"

text \<open>
  The bytes a fresh \<^verbatim>\<open>malloc\<close> block holds are arbitrary: they are read from the
  parameter \<^term>\<open>junk\<close>.
\<close>

definition init_stream :: "(nat \<Rightarrow> byte) \<Rightarrow> nat \<Rightarrow> stream \<Rightarrow> stream" where
  "init_stream junk v s =
     (let s' = (if v > s_size s then s\<lparr>s_data := map junk [0..<v]\<rparr> else s)
      in s'\<lparr>s_p := 0, s_end := 0\<rparr>)"

definition s_push_layer_iso :: "nat \<Rightarrow> stream \<Rightarrow> stream" where
  "s_push_layer_iso n s = s\<lparr>s_iso_hdr := s_p s, s_p := s_p s + n\<rparr>"

definition s_pop_layer_iso :: "stream \<Rightarrow> stream" where
  "s_pop_layer_iso s = s\<lparr>s_p := s_iso_hdr s\<rparr>"

definition s_push_layer_mcs :: "nat \<Rightarrow> stream \<Rightarrow> stream" where
  "s_push_layer_mcs n s = s\<lparr>s_mcs_hdr := s_p s, s_p := s_p s + n\<rparr>"

definition s_pop_layer_mcs :: "stream \<Rightarrow> stream" where
  "s_pop_layer_mcs s = s\<lparr>s_p := s_mcs_hdr s\<rparr>"

definition s_mark_end :: "stream \<Rightarrow> stream" where
  "s_mark_end s = s\<lparr>s_end := s_p s\<rparr>"

subsection \<open>Reading\<close>

definition in_bytes :: "nat \<Rightarrow> stream \<Rightarrow> (byte list \<times> stream) option" where
  "in_bytes n s =
     (if s_p s + n \<le> s_size s
      then Some (take n (drop (s_p s) (s_data s)), s\<lparr>s_p := s_p s + n\<rparr>)
      else None)"

definition in_uint8 :: "stream \<Rightarrow> (int \<times> stream) option" where
  "in_uint8 s = do { (bs, s) \<leftarrow> in_bytes 1 s; Some (le_val bs, s) }"

definition in_uint8_peek :: "stream \<Rightarrow> byte option" where
  "in_uint8_peek s = list_get (s_data s) (s_p s)"

definition in_uint16_le :: "stream \<Rightarrow> (int \<times> stream) option" where
  "in_uint16_le s = do { (bs, s) \<leftarrow> in_bytes 2 s; Some (le_val bs, s) }"

definition in_uint32_le :: "stream \<Rightarrow> (int \<times> stream) option" where
  "in_uint32_le s = do { (bs, s) \<leftarrow> in_bytes 4 s; Some (le_val bs, s) }"

definition in_uint64_le :: "stream \<Rightarrow> (int \<times> stream) option" where
  "in_uint64_le s = do { (bs, s) \<leftarrow> in_bytes 8 s; Some (le_val bs, s) }"

definition in_uint16_be :: "stream \<Rightarrow> (int \<times> stream) option" where
  "in_uint16_be s = do { (bs, s) \<leftarrow> in_bytes 2 s; Some (le_val (rev bs), s) }"

definition in_uint32_be :: "stream \<Rightarrow> (int \<times> stream) option" where
  "in_uint32_be s = do { (bs, s) \<leftarrow> in_bytes 4 s; Some (le_val (rev bs), s) }"

definition in_uint8a :: "nat \<Rightarrow> stream \<Rightarrow> (byte list \<times> stream) option" where
  "in_uint8a n s = in_bytes n s"

definition in_uint8s :: "nat \<Rightarrow> stream \<Rightarrow> stream" where
  "in_uint8s n s = s\<lparr>s_p := s_p s + n\<rparr>"

subsection \<open>Writing\<close>

definition out_bytes :: "byte list \<Rightarrow> stream \<Rightarrow> stream option" where
  "out_bytes bs s =
     (if s_p s + length bs \<le> s_size s
      then Some (s\<lparr>s_data := take (s_p s) (s_data s) @ bs @ drop (s_p s + length bs) (s_data s),
                   s_p := s_p s + length bs\<rparr>)
      else None)"

definition out_uint8 :: "int \<Rightarrow> stream \<Rightarrow> stream option" where
  "out_uint8 v s = out_bytes (le_bytes 1 v) s"

definition out_uint16_le :: "int \<Rightarrow> stream \<Rightarrow> stream option" where
  "out_uint16_le v s = out_bytes (le_bytes 2 v) s"

definition out_uint32_le :: "int \<Rightarrow> stream \<Rightarrow> stream option" where
  "out_uint32_le v s = out_bytes (le_bytes 4 v) s"

definition out_uint64_le :: "int \<Rightarrow> stream \<Rightarrow> stream option" where
  "out_uint64_le v s = out_bytes (le_bytes 8 v) s"

definition out_uint16_be :: "int \<Rightarrow> stream \<Rightarrow> stream option" where
  "out_uint16_be v s = out_bytes (rev (le_bytes 2 v)) s"

definition out_uint32_be :: "int \<Rightarrow> stream \<Rightarrow> stream option" where
  "out_uint32_be v s = out_bytes (rev (le_bytes 4 v)) s"

text \<open>\<^verbatim>\<open>out_uint8p\<close> copies the first \<^term>\<open>n\<close> bytes at \<^term>\<open>v\<close>; \<^verbatim>\<open>out_uint8a\<close> is the same macro.\<close>

definition out_uint8p :: "byte list \<Rightarrow> nat \<Rightarrow> stream \<Rightarrow> stream option" where
  "out_uint8p v n s = (if n \<le> length v then out_bytes (take n v) s else None)"

definition out_uint8s :: "nat \<Rightarrow> stream \<Rightarrow> stream option" where
  "out_uint8s n s = out_bytes (replicate n 0) s"

text \<open>\<^verbatim>\<open>g_memset(s->data, 0, n)\<close>, used to erase sensitive messages.\<close>

definition memset_start :: "nat \<Rightarrow> stream \<Rightarrow> stream option" where
  "memset_start n s =
     (if n \<le> s_size s then Some (s\<lparr>s_data := replicate n 0 @ drop n (s_data s)\<rparr>) else None)"

subsection \<open>Well-formed streams and their contents\<close>

text \<open>
  A stream being read has its position before its end mark, inside the buffer; a stream
  being written has its position inside the buffer. Sizes are C \<^verbatim>\<open>int\<close>s.
\<close>

definition in_wf :: "stream \<Rightarrow> bool" where
  "in_wf s \<longleftrightarrow> s_p s \<le> s_end s \<and> s_end s \<le> s_size s \<and> s_size s < 2 ^ 31"

definition out_wf :: "stream \<Rightarrow> bool" where
  "out_wf s \<longleftrightarrow> s_p s \<le> s_size s \<and> s_size s < 2 ^ 31"

text \<open>The bytes still to be read, the bytes written so far, and all bytes up to the end mark.\<close>

definition unread :: "stream \<Rightarrow> byte list" where
  "unread s = drop (s_p s) (take (s_end s) (s_data s))"

definition written :: "stream \<Rightarrow> byte list" where
  "written s = take (s_p s) (s_data s)"

definition contents :: "stream \<Rightarrow> byte list" where
  "contents s = take (s_end s) (s_data s)"

lemma length_unread: "in_wf s \<Longrightarrow> length (unread s) = s_end s - s_p s"
  by (simp add: in_wf_def unread_def)

lemma length_written [simp]: "out_wf s \<Longrightarrow> length (written s) = s_p s"
  by (simp add: out_wf_def written_def)

lemma s_check_rem_wf [stream_simps]:
  "in_wf s \<Longrightarrow> 0 \<le> n \<Longrightarrow> n < 2 ^ 63 \<Longrightarrow> s_check_rem s n \<longleftrightarrow> nat n \<le> length (unread s)"
  by (auto simp: s_check_rem_def length_unread in_wf_def)

lemma s_check_rem_out_wf [stream_simps]:
  "out_wf s \<Longrightarrow> 0 \<le> n \<Longrightarrow> n < 2 ^ 63 \<Longrightarrow> s_check_rem_out s n \<longleftrightarrow> s_p s + nat n \<le> s_size s"
  by (auto simp: s_check_rem_out_def out_wf_def)

lemma s_rem_wf [stream_simps]: "in_wf s \<Longrightarrow> s_rem s = int (length (unread s))"
  by (auto simp: s_rem_def length_unread in_wf_def)

lemma s_rem_out_wf [stream_simps]: "out_wf s \<Longrightarrow> s_rem_out s = int (s_size s) - int (s_p s)"
  by (auto simp: s_rem_out_def out_wf_def)

lemma init_stream_size [simp]: "s_size (init_stream junk v s) = max v (s_size s)"
  by (simp add: init_stream_def Let_def)

lemma init_stream_p [simp]: "s_p (init_stream junk v s) = 0" "s_end (init_stream junk v s) = 0"
  by (simp_all add: init_stream_def Let_def)

lemma layer_simps [simp]:
  "s_p (s_pop_layer_iso s) = s_iso_hdr s" "s_end (s_pop_layer_iso s) = s_end s"
  "s_data (s_pop_layer_iso s) = s_data s"
  "s_p (s_mark_end s) = s_p s" "s_end (s_mark_end s) = s_p s" "s_data (s_mark_end s) = s_data s"
  "s_iso_hdr (s_mark_end s) = s_iso_hdr s"
  "s_p (s_push_layer_iso n s) = s_p s + n" "s_iso_hdr (s_push_layer_iso n s) = s_p s"
  "s_data (s_push_layer_iso n s) = s_data s"
  "s_p (s_pop_layer_mcs s) = s_mcs_hdr s" "s_end (s_pop_layer_mcs s) = s_end s"
  "s_data (s_pop_layer_mcs s) = s_data s" "s_iso_hdr (s_pop_layer_mcs s) = s_iso_hdr s"
  "s_mcs_hdr (s_mark_end s) = s_mcs_hdr s"
  "s_p (s_push_layer_mcs n s) = s_p s + n" "s_mcs_hdr (s_push_layer_mcs n s) = s_p s"
  "s_iso_hdr (s_push_layer_mcs n s) = s_iso_hdr s" "s_data (s_push_layer_mcs n s) = s_data s"
  by (simp_all add: s_pop_layer_iso_def s_mark_end_def s_push_layer_iso_def s_pop_layer_mcs_def s_push_layer_mcs_def)

lemma in_bytes_unread:
  assumes "in_wf s" and "n \<le> length (unread s)"
  shows "\<exists>s'. in_bytes n s = Some (take n (unread s), s') \<and> in_wf s' \<and>
           unread s' = drop n (unread s) \<and> s_data s' = s_data s \<and> s_end s' = s_end s \<and>
           s' = s\<lparr>s_p := s_p s + n\<rparr>"
proof -
  let ?s' = "s\<lparr>s_p := s_p s + n\<rparr>"
  have le: "s_p s + n \<le> s_end s" "s_end s \<le> s_size s" "s_size s < 2 ^ 31"
    using assms by (auto simp: length_unread in_wf_def)
  have "take n (drop (s_p s) (s_data s)) = take n (unread s)"
    using le by (simp add: unread_def drop_take)
  then have "in_bytes n s = Some (take n (unread s), ?s')"
    using le by (simp add: in_bytes_def)
  moreover have "in_wf ?s'" "unread ?s' = drop n (unread s)"
    using le by (simp_all add: in_wf_def unread_def add.commute)
  ultimately show ?thesis by simp
qed

lemma out_bytes_written:
  assumes "out_wf s" and "s_p s + length bs \<le> s_size s"
  shows "\<exists>s'. out_bytes bs s = Some s' \<and> out_wf s' \<and> written s' = written s @ bs \<and>
           s_size s' = s_size s \<and> s_p s' = s_p s + length bs \<and> s_end s' = s_end s \<and>
           s_iso_hdr s' = s_iso_hdr s"
  using assms by (auto simp: out_bytes_def out_wf_def written_def)

lemma out_bytes_SomeD:
  assumes "out_bytes bs s = Some s'" and "out_wf s"
  shows "out_wf s'" "written s' = written s @ bs" "s_size s' = s_size s"
    "s_p s' = s_p s + length bs" "s_end s' = s_end s" "s_iso_hdr s' = s_iso_hdr s"
  using assms by (auto simp: out_bytes_def out_wf_def written_def split: if_splits)

lemma out_bytes_append:
  "out_bytes (bs @ cs) s = Option.bind (out_bytes bs s) (out_bytes cs)"
proof (cases "s_p s + length bs + length cs \<le> s_size s")
  case True
  then show ?thesis
    by (simp add: out_bytes_def add.assoc) (simp add: add.commute add.left_commute)
next
  case False
  then show ?thesis by (auto simp: out_bytes_def)
qed

text \<open>Consecutive writes are one write of the concatenation.\<close>

lemma out_merge:
  "Option.bind (out_bytes bs s) (\<lambda>s. Option.bind (out_bytes cs s) f) =
     Option.bind (out_bytes (bs @ cs) s) f"
  by (cases "out_bytes bs s") (simp_all add: out_bytes_append)

lemmas out_defs =
  out_uint8_def out_uint16_le_def out_uint32_le_def out_uint64_le_def
  out_uint16_be_def out_uint32_be_def

lemmas in_defs =
  in_uint8_def in_uint16_le_def in_uint32_le_def in_uint64_le_def
  in_uint16_be_def in_uint32_be_def in_uint8a_def

lemma out_bytes_Some:
  "s_p s + length bs \<le> s_size s \<Longrightarrow>
     out_bytes bs s = Some (s\<lparr>s_data := take (s_p s) (s_data s) @ bs @ drop (s_p s + length bs) (s_data s),
                              s_p := s_p s + length bs\<rparr>)"
  by (simp add: out_bytes_def)

text \<open>Moving the read position.\<close>

definition advance :: "nat \<Rightarrow> stream \<Rightarrow> stream" where
  "advance n s = s\<lparr>s_p := s_p s + n\<rparr>"

lemma advance_simps [simp]:
  "advance 0 s = s" "advance m (advance n s) = advance (n + m) s"
  "s_data (advance n s) = s_data s" "s_end (advance n s) = s_end s"
  "s_p (advance n s) = s_p s + n"
  by (simp_all add: advance_def)

lemma in_bytes_unread_eq:
  "in_wf s \<Longrightarrow> n \<le> length (unread s) \<Longrightarrow> in_bytes n s = Some (take n (unread s), advance n s)"
  using in_bytes_unread [of s n] by (auto simp: advance_def)

lemma in_bytes_prefix:
  "in_wf s \<Longrightarrow> unread s = bs @ rest \<Longrightarrow> length bs = n \<Longrightarrow> in_bytes n s = Some (bs, advance n s)"
  by (simp add: in_bytes_unread_eq)

lemma advance_wf [wf_intros]:
  "in_wf s \<Longrightarrow> n \<le> length (unread s) \<Longrightarrow> in_wf (advance n s)"
  using in_bytes_unread [of s n] by (auto simp: advance_def)

lemma unread_advance [stream_simps]:
  "in_wf s \<Longrightarrow> n \<le> length (unread s) \<Longrightarrow> unread (advance n s) = drop n (unread s)"
  using in_bytes_unread [of s n] by (auto simp: advance_def)

lemma unread_in_data:
  "in_wf s \<Longrightarrow> k \<le> length (unread s) \<Longrightarrow> take k (drop (s_p s) (s_data s)) = take k (unread s)"
  using in_bytes_unread [of s k] by (auto simp: in_bytes_def split: if_splits)

end
