(* ===== verification/Trans_State.thy ===== *)
theory Trans_State
  imports Parse_Stream
begin

text \<open>
  The data of \<^verbatim>\<open>common/trans.h\<close>: \<^verbatim>\<open>struct trans\<close> and \<^verbatim>\<open>struct source_info\<close>. The
  linked list of waiting output streams (\<^verbatim>\<open>wait_s\<close>) is a list, each with the index its
  \<^verbatim>\<open>source\<close> pointer designates in the \<^verbatim>\<open>source\<close> array. \<^verbatim>\<open>extra_data\<close> is the class data
  of a sub-classed transport, so the record is polymorphic in it.
\<close>

abbreviation (input) TRANS_STATUS_DOWN :: int where "TRANS_STATUS_DOWN \<equiv> 0"
abbreviation (input) TRANS_STATUS_UP :: int where "TRANS_STATUS_UP \<equiv> 1"
abbreviation (input) TRANS_TYPE_LISTENER :: int where "TRANS_TYPE_LISTENER \<equiv> 1"
abbreviation (input) TRANS_TYPE_SERVER :: int where "TRANS_TYPE_SERVER \<equiv> 2"
abbreviation (input) TRANS_TYPE_CLIENT :: int where "TRANS_TYPE_CLIENT \<equiv> 3"
abbreviation (input) XRDP_SOURCE_NONE :: nat where "XRDP_SOURCE_NONE \<equiv> 0"
abbreviation (input) XRDP_SOURCE_MAX_COUNT :: nat where "XRDP_SOURCE_MAX_COUNT \<equiv> 7"

record source_info =
  cur_source :: nat
  source :: "int list"

record wait_stream =
  w_s :: stream
  w_source :: "nat option"

record 'x trans =
  t_sck :: int
  t_mode :: int
  t_status :: int
  t_type1 :: int
  t_header_size :: int
  t_in_s :: stream
  t_out_s :: stream
  t_wait_s :: "wait_stream list"
  t_no_stream_init_on_data_in :: int
  t_extra_flags :: int
  t_extra_data :: "'x option"
  t_si :: "source_info option"
  t_my_source :: nat

text \<open>
  The buffer effect of a successful \<^verbatim>\<open>trans_recv\<close> in \<^verbatim>\<open>trans_check_wait_objs\<close>: the bytes are
  stored at the end mark, which then moves past them.
\<close>

definition in_s_append :: "byte list \<Rightarrow> 'x trans \<Rightarrow> 'x trans option" where
  "in_s_append bs tr =
     (let s = t_in_s tr in
      if s_end s + length bs \<le> s_size s
      then Some (tr\<lparr>t_in_s := s\<lparr>s_data := take (s_end s) (s_data s) @ bs @ drop (s_end s + length bs) (s_data s),
                                s_end := s_end s + length bs\<rparr>\<rparr>)
      else None)"

lemma in_s_append_wf:
  assumes "in_wf (t_in_s tr)" and "s_end (t_in_s tr) + length bs \<le> s_size (t_in_s tr)"
  shows "\<exists>s. in_s_append bs tr = Some (tr\<lparr>t_in_s := s\<rparr>) \<and> in_wf s \<and>
           unread s = unread (t_in_s tr) @ bs \<and> s_end s = s_end (t_in_s tr) + length bs \<and>
           s_p s = s_p (t_in_s tr) \<and> s_size s = s_size (t_in_s tr)"
proof -
  let ?s = "t_in_s tr"
  let ?s' = "?s\<lparr>s_data := take (s_end ?s) (s_data ?s) @ bs @ drop (s_end ?s + length bs) (s_data ?s),
               s_end := s_end ?s + length bs\<rparr>"
  have "in_s_append bs tr = Some (tr\<lparr>t_in_s := ?s'\<rparr>)"
    using assms(2) by (simp add: in_s_append_def Let_def)
  moreover have "in_wf ?s'" "unread ?s' = unread ?s @ bs"
    using assms by (cases "bs = []"; auto simp: in_wf_def unread_def)+
  moreover have "s_size ?s' = s_size ?s"
    using assms(2) by simp
  ultimately show ?thesis by (intro exI [of _ ?s']) simp
qed

end
