(* ===== verification/Trans_IO.thy ===== *)
theory Trans_IO
  imports Trans_State
begin

text \<open>
  \<^verbatim>\<open>common/trans.c\<close>: reading and writing over a transport. The answers of the system (may the
  socket be written to, how much did it take, was the error a would-block, is the program
  terminating) are inputs: every round of a loop consumes one record of answers, of which it uses
  those it asks for. A loop that uses up the answers given has not returned yet (result
  \<^term>\<open>None\<close> inside the outcome); an access outside a buffer or outside the \<^verbatim>\<open>source\<close> array is the
  undefined outcome. The bytes the socket has taken are part of every outcome.
\<close>

record attempt =
  a_can :: bool
  a_sent :: int
  a_would_block :: bool
  a_term :: bool

record recv_attempt =
  r_can :: bool
  r_fail :: bool
  r_data :: "byte list"
  r_would_block :: bool
  r_term :: bool

text \<open>
  The sockets (\<^verbatim>\<open>trans_send\<close>, \<^verbatim>\<open>trans_recv\<close>, plain or TLS): a send takes at most what it is offered,
  from the front; a receive delivers at most what it is asked for, and nothing when the peer has
  closed. Results are the return value and the bytes moved.
\<close>

definition trans_send :: "attempt \<Rightarrow> byte list \<Rightarrow> int \<times> byte list" where
  "trans_send a data =
     (if a_sent a > 0
      then let n = min (nat (a_sent a)) (length data) in (int n, take n data)
      else (a_sent a, []))"

definition trans_recv :: "recv_attempt \<Rightarrow> nat \<Rightarrow> int \<times> byte list" where
  "trans_recv r n = (if r_fail r then (-1, []) else (int (length (take n (r_data r))), take n (r_data r)))"

abbreviation (input) MAX_SBYTES :: int where "MAX_SBYTES \<equiv> 0"

subsection \<open>Creation and buffers\<close>

definition trans_create :: "(nat \<Rightarrow> byte) \<Rightarrow> int \<Rightarrow> nat \<Rightarrow> nat \<Rightarrow> 'x trans" where
  "trans_create junk mode in_size out_size =
     \<lparr>t_sck = -1, t_mode = mode, t_status = TRANS_STATUS_DOWN, t_type1 = 0, t_header_size = 0,
      t_in_s = init_stream junk in_size make_stream, t_out_s = init_stream junk out_size make_stream,
      t_wait_s = [], t_no_stream_init_on_data_in = 0, t_extra_flags = 0, t_extra_data = None,
      t_si = None, t_my_source = XRDP_SOURCE_NONE\<rparr>"

definition trans_get_in_s :: "'x trans option \<Rightarrow> stream option" where
  "trans_get_in_s self = map_option t_in_s self"

definition trans_get_out_s :: "(nat \<Rightarrow> byte) \<Rightarrow> nat \<Rightarrow> 'x trans option \<Rightarrow> (stream \<times> 'x trans) option" where
  "trans_get_out_s junk sz self =
     map_option (\<lambda>t. let s = init_stream junk sz (t_out_s t) in (s, t\<lparr>t_out_s := s\<rparr>)) self"

subsection \<open>Waiting output\<close>

text \<open>\<^verbatim>\<open>temp_s->source[0] -= sent\<close> and \<^verbatim>\<open>si->source[cur_source] += size\<close>.\<close>

definition add_source :: "nat \<Rightarrow> int \<Rightarrow> source_info \<Rightarrow> source_info option" where
  "add_source k d si =
     do { v \<leftarrow> list_get (source si) k;
          xs \<leftarrow> list_set (source si) k (v + d);
          Some (si\<lparr>source := xs\<rparr>) }"

text \<open>
  One call of \<^verbatim>\<open>trans_send\<close> for the head of the queue, and what follows it: an error (\<^term>\<open>True\<close>),
  the bytes taken, the transport.
\<close>

definition send_head :: "attempt \<Rightarrow> 'x trans \<Rightarrow> (bool \<times> byte list \<times> 'x trans) option" where
  "send_head a self =
     (case t_wait_s self of
        [] \<Rightarrow> None
      | temp_s # rest \<Rightarrow>
          let s = w_s temp_s; (sent, taken) = trans_send a (unread s)
          in if sent > 0
             then (let s' = s\<lparr>s_p := s_p s + nat sent\<rparr>;
                       self' = self\<lparr>t_wait_s := (if s_p s' \<ge> s_end s' then rest else temp_s\<lparr>w_s := s'\<rparr> # rest)\<rparr>
                   in case w_source temp_s of
                        None \<Rightarrow> Some (False, taken, self')
                      | Some k \<Rightarrow> do { si \<leftarrow> t_si self; si \<leftarrow> add_source k (- sent) si;
                                       Some (False, taken, self'\<lparr>t_si := Some si\<rparr>) })
             else if sent = 0 then Some (True, [], self)
             else Some (\<not> a_would_block a, [], self))"

fun trans_send_waiting ::
  "bool \<Rightarrow> attempt list \<Rightarrow> 'x trans \<Rightarrow> (int option \<times> byte list \<times> 'x trans \<times> attempt list) option" where
  "trans_send_waiting block answers self =
     (if t_wait_s self = [] then Some (Some 0, [], self, answers)
      else case answers of
             [] \<Rightarrow> Some (None, [], self, [])
           | a # answers \<Rightarrow>
               do { (err, taken, self) \<leftarrow>
                      (if a_can a then send_head a self else Some (block \<and> a_term a, [], self));
                    if err then Some (Some 1, taken, self, answers)
                    else if \<not> block then Some (Some 0, taken, self, answers)
                    else do { (rv, taken', self, answers) \<leftarrow> trans_send_waiting block answers self;
                              Some (rv, taken @ taken', self, answers) } })"

declare trans_send_waiting.simps [simp del]

text \<open>The copy of unsent bytes, with the charge to the source whose input is being processed.\<close>

definition queue_copy :: "(nat \<Rightarrow> byte) \<Rightarrow> byte list \<Rightarrow> 'x trans \<Rightarrow> 'x trans option" where
  "queue_copy junk out_data self =
     do { let size = length out_data;
          let wait_s = init_stream junk size make_stream;
          (src, self) \<leftarrow>
            (case t_si self of
               None \<Rightarrow> Some (None, self)
             | Some si \<Rightarrow>
                 if cur_source si \<noteq> XRDP_SOURCE_NONE \<and> cur_source si \<noteq> t_my_source self
                 then do { si' \<leftarrow> add_source (cur_source si) (int size) si;
                           Some (Some (cur_source si), self\<lparr>t_si := Some si'\<rparr>) }
                 else Some (None, self));
          wait_s \<leftarrow> out_uint8p out_data size wait_s;
          let wait_s = (s_mark_end wait_s)\<lparr>s_p := 0\<rparr>;
          Some (self\<lparr>t_wait_s := t_wait_s self @ [\<lparr>w_s = wait_s, w_source = src\<rparr>]\<rparr>) }"

text \<open>Sending new data at once when nothing waits: the return value, if the function returns here, and the bytes taken.\<close>

definition send_new :: "attempt \<Rightarrow> byte list \<Rightarrow> int option \<times> byte list" where
  "send_new a out_data =
     (if a_can a
      then let (sent, taken) = trans_send a out_data
           in if sent > 0 then (None, taken)
              else if sent = 0 then (Some 1, [])
              else (if a_would_block a then None else Some 1, [])
      else (None, []))"

definition trans_write_copy_s ::
  "(nat \<Rightarrow> byte) \<Rightarrow> attempt list \<Rightarrow> attempt \<Rightarrow> stream \<Rightarrow> 'x trans \<Rightarrow> (int option \<times> byte list \<times> 'x trans) option" where
  "trans_write_copy_s junk answers a out_s self =
     (if t_status self \<noteq> TRANS_STATUS_UP then Some (Some 1, [], self)
      else do { (rv, taken, self, answers) \<leftarrow> trans_send_waiting False answers self;
                if rv = None then Some (None, taken, self)
                else if rv \<noteq> Some 0 then Some (Some 1, taken, self\<lparr>t_status := TRANS_STATUS_DOWN\<rparr>)
                else do { let out_data = contents out_s;
                          let (rv, sent) = (if t_wait_s self = [] then send_new a out_data else (None, []));
                          if rv \<noteq> None then Some (rv, taken, self)
                          else if length out_data - length sent < 1 then Some (Some 0, taken @ sent, self)
                          else do { self \<leftarrow> queue_copy junk (drop (length sent) out_data) self;
                                    Some (Some 0, taken @ sent, self) } } })"

definition trans_write_copy ::
  "(nat \<Rightarrow> byte) \<Rightarrow> attempt list \<Rightarrow> attempt \<Rightarrow> 'x trans \<Rightarrow> (int option \<times> byte list \<times> 'x trans) option" where
  "trans_write_copy junk answers a self = trans_write_copy_s junk answers a (t_out_s self) self"

subsection \<open>Blocking writes and reads\<close>

text \<open>A return value below \<^verbatim>\<open>-1\<close>, which no send function has, would move back before the buffer.\<close>

fun force_write_loop ::
  "attempt list \<Rightarrow> byte list \<Rightarrow> 'x trans \<Rightarrow> (int option \<times> byte list \<times> 'x trans) option" where
  "force_write_loop answers out self =
     (if out = [] then Some (Some 0, [], self)
      else case answers of
             [] \<Rightarrow> Some (None, [], self)
           | a # answers \<Rightarrow>
               let (sent, taken) = trans_send a out
               in if sent = -1
               then if a_would_block a
                    then if \<not> a_can a \<and> a_term a
                         then Some (Some 1, [], self\<lparr>t_status := TRANS_STATUS_DOWN\<rparr>)
                         else force_write_loop answers out self
                    else Some (Some 1, [], self\<lparr>t_status := TRANS_STATUS_DOWN\<rparr>)
               else if sent = 0 then Some (Some 1, [], self\<lparr>t_status := TRANS_STATUS_DOWN\<rparr>)
               else if sent < 0 then None
               else do { (rv, taken', self) \<leftarrow> force_write_loop answers (drop (nat sent) out) self;
                         Some (rv, taken @ taken', self) })"

declare force_write_loop.simps [simp del]

definition trans_force_write_s ::
  "attempt list \<Rightarrow> stream \<Rightarrow> 'x trans \<Rightarrow> (int option \<times> byte list \<times> 'x trans) option" where
  "trans_force_write_s answers out_s self =
     (if t_status self \<noteq> TRANS_STATUS_UP then Some (Some 1, [], self)
      else do { (rv, taken, self, answers) \<leftarrow> trans_send_waiting True answers self;
                if rv = None then Some (None, taken, self)
                else if rv \<noteq> Some 0 then Some (Some 1, taken, self\<lparr>t_status := TRANS_STATUS_DOWN\<rparr>)
                else do { (rv, taken', self) \<leftarrow> force_write_loop answers (contents out_s) self;
                          Some (rv, taken @ taken', self) } })"

definition trans_force_write :: "attempt list \<Rightarrow> 'x trans \<Rightarrow> (int option \<times> byte list \<times> 'x trans) option" where
  "trans_force_write answers self = trans_force_write_s answers (t_out_s self) self"

text \<open>What \<^verbatim>\<open>trans_recv(self, s->end, n)\<close> stores, and \<^verbatim>\<open>s->end += rcvd\<close>.\<close>

definition store_recv :: "byte list \<Rightarrow> stream \<Rightarrow> stream option" where
  "store_recv bs s =
     (if s_end s + length bs \<le> s_size s
      then Some (s\<lparr>s_data := take (s_end s) (s_data s) @ bs @ drop (s_end s + length bs) (s_data s),
                   s_end := s_end s + length bs\<rparr>)
      else None)"

fun force_read_loop ::
  "recv_attempt list \<Rightarrow> int \<Rightarrow> stream \<Rightarrow> 'x trans \<Rightarrow> (int option \<times> stream \<times> 'x trans) option" where
  "force_read_loop answers sz in_s self =
     (if \<not> sz > 0 then Some (Some 0, in_s, self)
      else case answers of
             [] \<Rightarrow> Some (None, in_s, self)
           | r # answers \<Rightarrow>
               let (rcvd, bs) = trans_recv r (nat sz)
               in if rcvd = -1
               then if r_would_block r
                    then if \<not> r_can r \<and> r_term r
                         then Some (Some 1, in_s, self\<lparr>t_status := TRANS_STATUS_DOWN\<rparr>)
                         else force_read_loop answers sz in_s self
                    else Some (Some 1, in_s, self\<lparr>t_status := TRANS_STATUS_DOWN\<rparr>)
               else if rcvd = 0 then Some (Some 1, in_s, self\<lparr>t_status := TRANS_STATUS_DOWN\<rparr>)
               else do { in_s \<leftarrow> store_recv bs in_s; force_read_loop answers (sz - rcvd) in_s self })"

declare force_read_loop.simps [simp del]

definition trans_force_read_s ::
  "recv_attempt list \<Rightarrow> stream \<Rightarrow> int \<Rightarrow> 'x trans \<Rightarrow> (int option \<times> stream \<times> 'x trans) option" where
  "trans_force_read_s answers in_s sz self =
     (if t_status self \<noteq> TRANS_STATUS_UP \<or> sz < 0 \<or> sz > int (s_size in_s) - int (s_end in_s)
      then Some (Some 1, in_s, self)
      else force_read_loop answers sz in_s self)"

definition trans_force_read ::
  "recv_attempt list \<Rightarrow> int \<Rightarrow> 'x trans \<Rightarrow> (int option \<times> 'x trans) option" where
  "trans_force_read answers sz self =
     do { (rv, in_s, self) \<leftarrow> trans_force_read_s answers (t_in_s self) sz self;
          Some (rv, self\<lparr>t_in_s := in_s\<rparr>) }"

subsection \<open>The transports of a program\<close>

text \<open>
  The transports a program has, by handle. Those that take part in flow control share one
  \<^verbatim>\<open>source_info\<close>: their field \<^term>\<open>t_si\<close> is the shared record whenever they are looked at.
  \<^term>\<open>n_sent\<close> keeps the bytes each socket has taken, \<^term>\<open>n_closed\<close> the sockets closed, \<^term>\<open>n_leaked\<close> the
  waiting streams whose transport is gone: \<^verbatim>\<open>trans_delete\<close> neither frees them nor takes back their charge.
\<close>

record 'x net =
  n_si :: source_info
  n_trans :: "nat \<Rightarrow> 'x trans option"
  n_sent :: "nat \<Rightarrow> byte list"
  n_closed :: "int list"
  n_leaked :: "wait_stream list"

definition net_get :: "nat \<Rightarrow> 'x net \<Rightarrow> 'x trans option" where
  "net_get i w = map_option (\<lambda>t. if t_si t = None then t else t\<lparr>t_si := Some (n_si w)\<rparr>) (n_trans w i)"

definition net_put :: "nat \<Rightarrow> byte list \<Rightarrow> 'x trans \<Rightarrow> 'x net \<Rightarrow> 'x net" where
  "net_put i taken t w =
     w\<lparr>n_si := (case t_si t of None \<Rightarrow> n_si w | Some si \<Rightarrow> si),
       n_trans := (n_trans w)(i := Some t),
       n_sent := (n_sent w)(i := n_sent w i @ taken)\<rparr>"

text \<open>\<^verbatim>\<open>trans_delete\<close>; the destructor of a sub-class gets its say first and is passed in.\<close>

definition trans_delete :: "('x trans \<Rightarrow> 'x trans) \<Rightarrow> nat \<Rightarrow> 'x net \<Rightarrow> 'x net" where
  "trans_delete destructor i w =
     (case net_get i w of
        None \<Rightarrow> w
      | Some self \<Rightarrow>
          let self = destructor self
          in w\<lparr>n_trans := (n_trans w)(i := None),
               n_closed := n_closed w @ (if t_sck self \<ge> 0 then [t_sck self] else []),
               n_leaked := n_leaked w @ t_wait_s self\<rparr>)"

text \<open>The sockets to wait for: those to be readable, and those to be writable. TLS transports add a second object, which is not modelled.\<close>

definition trans_get_wait_objs :: "'x trans option \<Rightarrow> int list \<Rightarrow> int \<times> int list" where
  "trans_get_wait_objs self objs =
     (case self of
        None \<Rightarrow> (1, objs)
      | Some self \<Rightarrow> if t_status self \<noteq> TRANS_STATUS_UP then (1, objs) else (0, objs @ [t_sck self]))"

definition source_blocked :: "'x trans \<Rightarrow> bool option" where
  "source_blocked self =
     (case t_si self of
        None \<Rightarrow> Some False
      | Some si \<Rightarrow> map_option (\<lambda>v. v > MAX_SBYTES) (list_get (source si) (t_my_source self)))"

definition trans_get_wait_objs_rw ::
  "'x trans option \<Rightarrow> int list \<Rightarrow> int list \<Rightarrow> (int \<times> int list \<times> int list) option" where
  "trans_get_wait_objs_rw self robjs wobjs =
     (case self of
        None \<Rightarrow> Some (1, robjs, wobjs)
      | Some tr \<Rightarrow>
          if t_status tr \<noteq> TRANS_STATUS_UP then Some (1, robjs, wobjs)
          else do { blocked \<leftarrow> source_blocked tr;
                    let (rv, robjs) = (if blocked then (0, robjs) else trans_get_wait_objs self robjs);
                    Some (if rv \<noteq> 0 then (1, robjs, wobjs)
                          else (0, robjs, if t_wait_s tr \<noteq> [] then wobjs @ [t_sck tr] else wobjs)) })"

subsection \<open>One round of the main loop\<close>

record poll =
  p_can :: bool
  p_accept :: int
  p_recv :: recv_attempt
  p_answers :: "attempt list"

text \<open>
  The two branches of \<^verbatim>\<open>trans_check_wait_objs\<close>. Each returns the value to return at once, if there
  is one. The callbacks act on all transports of the program; a callback that is not assigned is
  \<^term>\<open>None\<close>. A callback that deletes its own transport makes the rest undefined.
\<close>

definition check_listener ::
  "(nat \<Rightarrow> byte) \<Rightarrow> (nat \<Rightarrow> nat \<Rightarrow> 'x net \<Rightarrow> (int \<times> 'x net) option) option \<Rightarrow> ('x trans \<Rightarrow> 'x trans) \<Rightarrow> nat \<Rightarrow> nat \<Rightarrow>
   poll \<Rightarrow> 'x net \<Rightarrow> (int option \<times> 'x net) option" where
  "check_listener junk conn_in destructor self new a w =
     do { t \<leftarrow> net_get self w;
          if \<not> p_can a then Some (None, w)
          else if p_accept a = -1
          then if r_would_block (p_recv a) then Some (None, w)
               else Some (Some 1, net_put self [] (t\<lparr>t_status := TRANS_STATUS_DOWN\<rparr>) w)
          else case conn_in of
                 None \<Rightarrow> Some (None, w\<lparr>n_closed := n_closed w @ [p_accept a]\<rparr>)
               | Some f \<Rightarrow>
                   do { let in_trans = (trans_create junk (t_mode t) (s_size (t_in_s t)) (s_size (t_out_s t)))
                          \<lparr>t_sck := p_accept a, t_type1 := TRANS_TYPE_SERVER, t_status := TRANS_STATUS_UP\<rparr>;
                        (rv, w) \<leftarrow> f self new (net_put new [] in_trans w);
                        Some (None, if rv \<noteq> 0 then trans_delete destructor new w else w) } }"

text \<open>
  The reading branch up to the callback: \<^term>\<open>Inl\<close> is a value to return, \<^term>\<open>Inr\<close> the current
  source to restore. \<^verbatim>\<open>header_size\<close> and the lengths computed from it are unsigned.
\<close>

definition set_cur_source :: "nat \<Rightarrow> 'x trans \<Rightarrow> 'x trans" where
  "set_cur_source k t = t\<lparr>t_si := map_option (\<lambda>si. si\<lparr>cur_source := k\<rparr>) (t_si t)\<rparr>"

definition read_part :: "recv_attempt \<Rightarrow> 'x trans \<Rightarrow> ((int + nat) \<times> 'x trans) option" where
  "read_part r t =
     (if t_header_size t > c_uint (int (s_size (t_in_s t)))
      then Some (Inl 1, t\<lparr>t_status := TRANS_STATUS_DOWN\<rparr>)
      else let cur = (case t_si t of None \<Rightarrow> XRDP_SOURCE_NONE | Some si \<Rightarrow> cur_source si);
               t = set_cur_source (t_my_source t) t;
               to_read = c_uint (t_header_size t - int (s_end (t_in_s t)))
           in if to_read > 0
              then let (rcvd, bs) = trans_recv r (nat to_read)
                   in if rcvd = -1
                   then if r_would_block r then Some (Inr cur, t)
                        else Some (Inl 1, set_cur_source cur (t\<lparr>t_status := TRANS_STATUS_DOWN\<rparr>))
                   else if rcvd = 0
                   then Some (Inl 1, set_cur_source cur (t\<lparr>t_status := TRANS_STATUS_DOWN\<rparr>))
                   else do { s \<leftarrow> store_recv bs (t_in_s t); Some (Inr cur, t\<lparr>t_in_s := s\<rparr>) }
              else Some (Inr cur, t))"

definition call_data_in ::
  "(nat \<Rightarrow> byte) \<Rightarrow> (nat \<Rightarrow> 'x net \<Rightarrow> (int \<times> 'x net) option) option \<Rightarrow> nat \<Rightarrow> 'x net \<Rightarrow> (int \<times> 'x net) option" where
  "call_data_in junk data_in self w =
     do { t \<leftarrow> net_get self w;
          if c_uint (int (s_end (t_in_s t))) = t_header_size t
          then (case data_in of
                  None \<Rightarrow> Some (0, w)
                | Some f \<Rightarrow>
                    do { (rv, w) \<leftarrow> f self w;
                         t \<leftarrow> net_get self w;
                         let t = (if t_no_stream_init_on_data_in t = 0
                                  then t\<lparr>t_in_s := init_stream junk 0 (t_in_s t)\<rparr> else t);
                         Some (rv, net_put self [] t w) })
          else Some (0, w) }"

definition check_input ::
  "(nat \<Rightarrow> byte) \<Rightarrow> (nat \<Rightarrow> 'x net \<Rightarrow> (int \<times> 'x net) option) option \<Rightarrow> nat \<Rightarrow> poll \<Rightarrow> 'x net \<Rightarrow>
   ((int + int) \<times> 'x net) option" where
  "check_input junk data_in self a w =
     do { t \<leftarrow> net_get self w;
          blocked \<leftarrow> source_blocked t;
          if blocked \<or> \<not> p_can a then Some (Inr 0, w)
          else do { (r, t) \<leftarrow> read_part (p_recv a) t;
                    let w = net_put self [] t w;
                    case r of
                      Inl rv \<Rightarrow> Some (Inl rv, w)
                    | Inr cur \<Rightarrow> do { (rv, w) \<leftarrow> call_data_in junk data_in self w;
                                     t \<leftarrow> net_get self w;
                                     Some (Inr rv, net_put self [] (set_cur_source cur t) w) } } }"

definition flush_waiting :: "nat \<Rightarrow> int \<Rightarrow> attempt list \<Rightarrow> 'x net \<Rightarrow> (int option \<times> 'x net) option" where
  "flush_waiting self ok answers w =
     do { t \<leftarrow> net_get self w;
          (rv, taken, t, answers) \<leftarrow> trans_send_waiting False answers t;
          Some (case rv of
                  None \<Rightarrow> (None, net_put self taken t w)
                | Some v \<Rightarrow> if v \<noteq> 0 then (Some 1, net_put self taken (t\<lparr>t_status := TRANS_STATUS_DOWN\<rparr>) w)
                            else (Some ok, net_put self taken t w)) }"

definition trans_check_wait_objs ::
  "(nat \<Rightarrow> byte) \<Rightarrow> (nat \<Rightarrow> 'x net \<Rightarrow> (int \<times> 'x net) option) option \<Rightarrow>
   (nat \<Rightarrow> nat \<Rightarrow> 'x net \<Rightarrow> (int \<times> 'x net) option) option \<Rightarrow> ('x trans \<Rightarrow> 'x trans) \<Rightarrow> nat \<Rightarrow> nat \<Rightarrow>
   poll \<Rightarrow> 'x net \<Rightarrow> (int option \<times> 'x net) option" where
  "trans_check_wait_objs junk data_in conn_in destructor self new a w =
     (case net_get self w of
        None \<Rightarrow> Some (Some 1, w)
      | Some t \<Rightarrow>
          if t_status t \<noteq> TRANS_STATUS_UP then Some (Some 1, w)
          else if t_type1 t = TRANS_TYPE_LISTENER
          then do { (rv, w) \<leftarrow> check_listener junk conn_in destructor self new a w;
                    Some (Some (case rv of None \<Rightarrow> 0 | Some v \<Rightarrow> v), w) }
          else do { (rv, w) \<leftarrow> check_input junk data_in self a w;
                    case rv of Inl v \<Rightarrow> Some (Some v, w) | Inr v \<Rightarrow> flush_waiting self v (p_answers a) w })"

end
