(* ===== verification/Trans_Queue.thy ===== *)
theory Trans_Queue
  imports Trans_IO
begin

text \<open>
  What the queue of waiting output guarantees: bytes leave in the order they were accepted, and
  the charge of every source moves with them.
\<close>

definition wait_ok :: "wait_stream \<Rightarrow> bool" where
  "wait_ok ws \<longleftrightarrow> in_wf (w_s ws) \<and> unread (w_s ws) \<noteq> []"

definition queued :: "'x trans \<Rightarrow> byte list" where
  "queued t = concat (map (\<lambda>ws. unread (w_s ws)) (t_wait_s t))"

definition charge :: "nat \<Rightarrow> wait_stream list \<Rightarrow> int" where
  "charge k wss = (\<Sum>ws\<leftarrow>wss. if w_source ws = Some k then int (length (unread (w_s ws))) else 0)"

definition si_ok :: "source_info \<Rightarrow> bool" where
  "si_ok si \<longleftrightarrow> length (source si) = XRDP_SOURCE_MAX_COUNT \<and> cur_source si < XRDP_SOURCE_MAX_COUNT"

definition trans_ok :: "'x trans \<Rightarrow> bool" where
  "trans_ok t \<longleftrightarrow>
     (\<forall>ws \<in> set (t_wait_s t). wait_ok ws \<and> (\<forall>k. w_source ws = Some k \<longrightarrow> k < XRDP_SOURCE_MAX_COUNT \<and> t_si t \<noteq> None)) \<and>
     t_my_source t < XRDP_SOURCE_MAX_COUNT \<and> (\<forall>si. t_si t = Some si \<longrightarrow> si_ok si)"

text \<open>What a source is charged beyond the bytes it has in this queue.\<close>

definition balance :: "nat \<Rightarrow> 'x trans \<Rightarrow> int" where
  "balance k t = (case t_si t of None \<Rightarrow> 0 | Some si \<Rightarrow> source si ! k) - charge k (t_wait_s t)"

definition same_trans :: "'x trans \<Rightarrow> 'x trans \<Rightarrow> bool" where
  "same_trans t t' \<longleftrightarrow> t' = t\<lparr>t_wait_s := t_wait_s t', t_si := t_si t'\<rparr> \<and>
     map_option cur_source (t_si t') = map_option cur_source (t_si t)"

definition accounted :: "'x trans \<Rightarrow> 'x trans \<Rightarrow> bool" where
  "accounted t t' \<longleftrightarrow> trans_ok t' \<and> same_trans t t' \<and> (\<forall>k < XRDP_SOURCE_MAX_COUNT. balance k t' = balance k t)"

lemma charge_simps [simp]:
  "charge k [] = 0"
  "charge k (ws # wss) = (if w_source ws = Some k then int (length (unread (w_s ws))) else 0) + charge k wss"
  "charge k (xs @ ys) = charge k xs + charge k ys"
  by (simp_all add: charge_def)

lemma charge_nonneg [simp]: "0 \<le> charge k wss"
  by (induction wss) auto

lemma same_trans_refl [simp]: "same_trans t t"
  by (simp add: same_trans_def)

lemma same_trans_trans: "same_trans t t' \<Longrightarrow> same_trans t' t'' \<Longrightarrow> same_trans t t''"
  unfolding same_trans_def by (cases t; cases t'; cases t'') simp

lemma accounted_refl [simp]: "accounted t t \<longleftrightarrow> trans_ok t"
  by (simp add: accounted_def)

lemma accounted_trans: "accounted t t' \<Longrightarrow> accounted t' t'' \<Longrightarrow> accounted t t''"
  unfolding accounted_def using same_trans_trans by (metis (no_types, lifting))

lemma add_source_ok:
  "si_ok si \<Longrightarrow> k < XRDP_SOURCE_MAX_COUNT \<Longrightarrow>
     \<exists>si'. add_source k d si = Some si' \<and> si_ok si' \<and> cur_source si' = cur_source si \<and>
       (\<forall>j < XRDP_SOURCE_MAX_COUNT. source si' ! j = source si ! j + (if j = k then d else 0))"
  by (auto simp: add_source_def si_ok_def nth_list_update)

lemma trans_send_cases:
  obtains (taken) n where "0 < n" "n \<le> length data" "trans_send a data = (int n, take n data)"
  | (nothing) "fst (trans_send a data) \<le> 0" "snd (trans_send a data) = []"
proof (cases "a_sent a > 0 \<and> data \<noteq> []")
  case True
  then show ?thesis
    by (intro taken [of "min (nat (a_sent a)) (length data)"]) (auto simp: trans_send_def Let_def)
next
  case False
  show ?thesis by (rule nothing; use False in \<open>auto simp: trans_send_def Let_def\<close>)
qed

lemma send_head_ok:
  assumes ok: "trans_ok t" and ne: "t_wait_s t \<noteq> []"
  shows "\<exists>err taken t'. send_head a t = Some (err, taken, t') \<and> accounted t t' \<and> queued t = taken @ queued t' \<and> (err \<longrightarrow> taken = [])"
proof -
  obtain temp_s rest where w: "t_wait_s t = temp_s # rest" using ne by (cases "t_wait_s t") auto
  let ?s = "w_s temp_s"
  have wf: "in_wf ?s" "unread ?s \<noteq> []" using ok w by (auto simp: trans_ok_def wait_ok_def)
  show ?thesis
  proof (cases rule: trans_send_cases [of "unread ?s" a])
    case nothing
    then show ?thesis using w ok by (cases "trans_send a (unread ?s)") (auto simp: send_head_def Let_def)
  next
    case (taken n)
    let ?s' = "advance n ?s"
    let ?ws = "if s_p ?s' \<ge> s_end ?s' then rest else temp_s\<lparr>w_s := ?s'\<rparr> # rest"
    have un: "unread ?s' = drop n (unread ?s)" and wf': "in_wf ?s'"
      using wf(1) taken(2) by (simp_all add: unread_advance advance_wf)
    have done_iff: "s_p ?s' \<ge> s_end ?s' \<longleftrightarrow> n = length (unread ?s)"
      using wf(1) taken(2) by (auto simp: length_unread in_wf_def)
    have q: "queued t = take n (unread ?s) @ concat (map (\<lambda>ws. unread (w_s ws)) ?ws)"
      using w un done_iff taken(2) by (auto simp: queued_def)
    have ch: "charge k ?ws = charge k (t_wait_s t) - (if w_source temp_s = Some k then int n else 0)" for k
      using w un done_iff taken(2) by auto
    have wok: "\<forall>ws \<in> set ?ws. wait_ok ws \<and> (\<forall>k. w_source ws = Some k \<longrightarrow> k < XRDP_SOURCE_MAX_COUNT \<and> t_si t \<noteq> None)"
      using ok w un wf' done_iff taken(2) by (auto simp: trans_ok_def wait_ok_def)
    have my: "t_my_source t < XRDP_SOURCE_MAX_COUNT" "\<And>si. t_si t = Some si \<Longrightarrow> si_ok si"
      using ok by (auto simp: trans_ok_def)
    show ?thesis
    proof (cases "w_source temp_s")
      case None
      let ?t = "t\<lparr>t_wait_s := ?ws\<rparr>"
      have "send_head a t = Some (False, take n (unread ?s), ?t)"
        using w taken None by (simp add: send_head_def Let_def advance_def)
      moreover have "accounted t ?t"
        using wok my ch None by (simp add: accounted_def trans_ok_def same_trans_def balance_def split: option.splits)
      moreover have "queued t = take n (unread ?s) @ queued ?t"
        using q by (simp add: queued_def)
      ultimately show ?thesis by (intro exI [of _ False] exI [of _ "take n (unread ?s)"] exI [of _ ?t]) simp
    next
      case (Some k)
      then obtain si where si: "t_si t = Some si" "si_ok si" "k < XRDP_SOURCE_MAX_COUNT"
        using ok w by (auto simp: trans_ok_def)
      obtain si' where si': "add_source k (- int n) si = Some si'" "si_ok si'" "cur_source si' = cur_source si"
        "\<forall>j < XRDP_SOURCE_MAX_COUNT. source si' ! j = source si ! j + (if j = k then - int n else 0)"
        using add_source_ok [OF si(2,3), of "- int n"] by auto
      let ?t = "t\<lparr>t_wait_s := ?ws, t_si := Some si'\<rparr>"
      have "send_head a t = Some (False, take n (unread ?s), ?t)"
        using w taken Some si si' by (simp add: send_head_def Let_def advance_def)
      moreover have "accounted t ?t"
        using wok my ch Some si si' by (simp add: accounted_def trans_ok_def same_trans_def balance_def)
      moreover have "queued t = take n (unread ?s) @ queued ?t"
        using q by (simp add: queued_def)
      ultimately show ?thesis by (intro exI [of _ False] exI [of _ "take n (unread ?s)"] exI [of _ ?t]) simp
    qed
  qed
qed

lemma accountedD: "accounted t t' \<Longrightarrow> trans_ok t'" "accounted t t' \<Longrightarrow> t_status t' = t_status t"
  by (auto simp: accounted_def same_trans_def) (metis trans.select_convs(3) trans.surjective trans.update_convs(8) trans.update_convs(12))

lemma send_waiting_ok:
  "trans_ok t \<Longrightarrow>
     \<exists>rv taken t' answers'. trans_send_waiting block answers t = Some (rv, taken, t', answers') \<and> accounted t t' \<and>
       queued t = taken @ queued t' \<and> rv \<in> {Some 0, Some 1, None} \<and>
       (rv = Some 0 \<and> block \<longrightarrow> t_wait_s t' = []) \<and> (rv = None \<longrightarrow> block \<or> answers = []) \<and>
       set answers' \<subseteq> set answers"
proof (induction answers arbitrary: t)
  case Nil
  then show ?case by (simp add: trans_send_waiting.simps)
next
  case (Cons a answers)
  show ?case
  proof (cases "t_wait_s t = []")
    case True
    then show ?thesis using Cons.prems by (simp add: trans_send_waiting.simps)
  next
    case False
    obtain err taken t1 where one: "(if a_can a then send_head a t else Some (block \<and> a_term a, [], t)) = Some (err, taken, t1)"
      "accounted t t1" "queued t = taken @ queued t1"
      using send_head_ok [OF Cons.prems False, of a] Cons.prems by (cases "a_can a") auto
    show ?thesis
    proof (cases "block \<and> \<not> err")
      case True
      obtain rv taken' t' answers' where rest: "trans_send_waiting block answers t1 = Some (rv, taken', t', answers')"
        "accounted t1 t'" "queued t1 = taken' @ queued t'" "rv \<in> {Some 0, Some 1, None}" "rv = Some 0 \<and> block \<longrightarrow> t_wait_s t' = []"
        "set answers' \<subseteq> set answers"
        using Cons.IH [OF accountedD(1) [OF one(2)]] by blast
      have "trans_send_waiting block (a # answers) t = Some (rv, taken @ taken', t', answers')"
        using False one(1) True rest(1) by (subst trans_send_waiting.simps) simp
      then show ?thesis using rest one accounted_trans [OF one(2) rest(2)] True by auto
    next
      case False': False
      have "trans_send_waiting block (a # answers) t = Some (Some (if err then 1 else 0), taken, t1, answers)"
        using False one(1) False' by (subst trans_send_waiting.simps) auto
      then show ?thesis using one(2,3) False' by auto
    qed
  qed
qed

lemma queue_copy_ok:
  assumes ok: "trans_ok t" and data: "data \<noteq> []" "length data < 2 ^ 31"
  shows "\<exists>t'. queue_copy junk data t = Some t' \<and> accounted t t' \<and> queued t' = queued t @ data"
proof -
  let ?ws = "\<lambda>src. \<lparr>w_s = (buf data 0 (length data)), w_source = src\<rparr>"
  have new: "\<exists>s. out_uint8p data (length data) (init_stream junk (length data) make_stream) = Some s \<and>
      (s_mark_end s)\<lparr>s_p := 0\<rparr> = w_s (?ws None)"
    by (simp add: out_uint8p_def out_bytes_def init_stream_def make_stream_def s_mark_end_def)
  have un: "unread (w_s (?ws src)) = data" "wait_ok (?ws src)" for src
    using data by (simp_all add: unread_def wait_ok_def in_wf_def)
  have my: "t_my_source t < XRDP_SOURCE_MAX_COUNT" "\<And>si. t_si t = Some si \<Longrightarrow> si_ok si"
    using ok by (auto simp: trans_ok_def)
  have q: "queued (t\<lparr>t_wait_s := t_wait_s t @ [?ws src], t_si := si\<rparr>) = queued t @ data" for src si
    using un by (simp add: queued_def)
  show ?thesis
  proof (cases "\<exists>si. t_si t = Some si \<and> cur_source si \<noteq> XRDP_SOURCE_NONE \<and> cur_source si \<noteq> t_my_source t")
    case True
    then obtain si where si: "t_si t = Some si" "cur_source si \<noteq> XRDP_SOURCE_NONE" "cur_source si \<noteq> t_my_source t" by blast
    have k: "cur_source si < XRDP_SOURCE_MAX_COUNT" "si_ok si" using my(2) si(1) by (auto simp: si_ok_def)
    obtain si' where si': "add_source (cur_source si) (int (length data)) si = Some si'" "si_ok si'" "cur_source si' = cur_source si"
      "\<forall>j < XRDP_SOURCE_MAX_COUNT. source si' ! j = source si ! j + (if j = cur_source si then int (length data) else 0)"
      using add_source_ok [OF k(2,1)] by blast
    let ?t = "t\<lparr>t_wait_s := t_wait_s t @ [?ws (Some (cur_source si))], t_si := Some si'\<rparr>"
    have "queue_copy junk data t = Some ?t"
      using new si si' by (auto simp: queue_copy_def Let_def)
    moreover have "accounted t ?t"
      using ok un si si' k my by (auto simp: accounted_def trans_ok_def same_trans_def balance_def)
    ultimately show ?thesis using q by blast
  next
    case False
    let ?t = "t\<lparr>t_wait_s := t_wait_s t @ [?ws None]\<rparr>"
    have "queue_copy junk data t = Some ?t"
      using new False by (auto simp: queue_copy_def Let_def split: option.splits)
    moreover have "accounted t ?t"
      using ok un my by (auto simp: accounted_def trans_ok_def same_trans_def balance_def split: option.splits)
    moreover have "queued ?t = queued t @ data"
      using un by (simp add: queued_def)
    ultimately show ?thesis by blast
  qed
qed

definition marked :: "stream \<Rightarrow> bool" where
  "marked s \<longleftrightarrow> s_end s \<le> s_size s \<and> s_size s < 2 ^ 31"

lemma send_new_cases:
  obtains (all) rv n where "send_new a data = (rv, take n data)" "n \<le> length data" "rv \<in> {None, Some 1}" "rv = Some 1 \<longrightarrow> n = 0"
proof (cases rule: trans_send_cases [of data a])
  case (taken n)
  show ?thesis
    by (rule all [of "None" "if a_can a then n else 0"]; use taken in \<open>auto simp: send_new_def\<close>)
next
  case nothing
  then have neg: "\<not> 0 < fst (trans_send a data)" by simp
  show ?thesis
  proof (rule all [of "fst (send_new a data)" 0])
    show "send_new a data = (fst (send_new a data), take 0 data)"
      using neg by (simp add: send_new_def case_prod_beta Let_def)
    show "fst (send_new a data) \<in> {None, Some 1}"
      using neg by (simp add: send_new_def case_prod_beta Let_def)
  qed simp_all
qed

lemma status_id: "t_status t = v \<Longrightarrow> t\<lparr>t_status := v\<rparr> = t"
  by simp

lemma write_copy_ok:
  assumes ok: "trans_ok t" and out: "marked out_s"
  shows "\<exists>rv taken t'. trans_write_copy_s junk answers a out_s t = Some (rv, taken, t') \<and>
     accounted (t\<lparr>t_status := t_status t'\<rparr>) t' \<and>
     queued t @ (if rv = Some 0 then contents out_s else []) = taken @ queued t' \<and>
     rv \<in> {Some 0, Some 1, None} \<and> (rv = None \<longrightarrow> answers = []) \<and> (t_status t' \<noteq> t_status t \<longrightarrow> rv = Some 1 \<and> t_status t' = TRANS_STATUS_DOWN) \<and>
     (rv = Some 0 \<longrightarrow> t_status t = TRANS_STATUS_UP)"
proof (cases "t_status t = TRANS_STATUS_UP")
  case False
  then show ?thesis using ok by (simp add: trans_write_copy_s_def)
next
  case up: True
  obtain rv taken t1 as1 where w: "trans_send_waiting False answers t = Some (rv, taken, t1, as1)" "accounted t t1"
    "queued t = taken @ queued t1" "rv \<in> {Some 0, Some 1, None}" "rv = None \<longrightarrow> answers = []"
    using send_waiting_ok [OF ok, of False answers] by auto
  have st: "t_status t1 = t_status t" using accountedD(2) [OF w(2)] by simp
  show ?thesis
  proof (cases "rv = Some 0")
    case False
    show ?thesis
    proof (cases rv)
      case None
      then show ?thesis using up w st by (simp add: trans_write_copy_s_def status_id)
    next
      case (Some v)
      let ?t = "t1\<lparr>t_status := TRANS_STATUS_DOWN\<rparr>"
      have "accounted (t\<lparr>t_status := TRANS_STATUS_DOWN\<rparr>) ?t"
        using w(2) by (auto simp: accounted_def trans_ok_def same_trans_def balance_def) (metis trans.surjective trans.update_convs(3,8,12))
      then show ?thesis using up w False Some by (auto simp: trans_write_copy_s_def queued_def)
    qed
  next
    case True
    let ?data = "contents out_s"
    obtain rv2 n where n: "(if t_wait_s t1 = [] then send_new a ?data else (None, [])) = (rv2, take n ?data)"
      "n \<le> length ?data" "rv2 \<in> {None, Some 1}" "rv2 = Some 1 \<longrightarrow> n = 0" "0 < n \<longrightarrow> t_wait_s t1 = []"
    proof (cases "t_wait_s t1 = []")
      case True
      show ?thesis by (cases rule: send_new_cases [of a ?data]; rule that; use True in auto)
    next
      case False
      show ?thesis by (rule that [of None 0]; use False in auto)
    qed
    have sent0: "0 < n \<longrightarrow> queued t1 = []" using n(5) by (simp add: queued_def)
    show ?thesis
    proof (cases "rv2 = None")
      case False
      then show ?thesis using up w n st True by (auto simp: trans_write_copy_s_def Let_def status_id)
    next
      case new: True
      show ?thesis
      proof (cases "n < length ?data")
        case False
        then show ?thesis using up w n st True new sent0 by (cases "n = 0") (auto simp: trans_write_copy_s_def Let_def status_id)
      next
        case less: True
        have rest: "drop n ?data \<noteq> []" "length (drop n ?data) < 2 ^ 31"
          using less out by (auto simp: contents_def marked_def)
        obtain t2 where t2: "queue_copy junk (drop n ?data) t1 = Some t2" "accounted t1 t2" "queued t2 = queued t1 @ drop n ?data"
          using queue_copy_ok [OF accountedD(1) [OF w(2)] rest] by blast
        have "trans_write_copy_s junk answers a out_s t = Some (Some 0, taken @ take n ?data, t2)"
          using up w n True new less t2(1) by (auto simp: trans_write_copy_s_def Let_def min_def)
        then show ?thesis
          using accounted_trans [OF w(2) t2(2)] t2(3) w(3) sent0 up accountedD(2) [OF t2(2)] st
          by (cases "n = 0") (auto simp: status_id)
      qed
    qed
  qed
qed

text \<open>No send function returns less than \<^verbatim>\<open>-1\<close>.\<close>

definition sane :: "attempt list \<Rightarrow> bool" where
  "sane answers \<longleftrightarrow> (\<forall>a \<in> set answers. -1 \<le> a_sent a)"

lemma force_write_loop_ok:
  "sane answers \<Longrightarrow>
     \<exists>rv taken rest st. force_write_loop answers out t = Some (rv, taken, t\<lparr>t_status := st\<rparr>) \<and> out = taken @ rest \<and>
       rv \<in> {Some 0, Some 1, None} \<and> (rv = Some 0 \<longrightarrow> rest = []) \<and>
       (if rv = Some 1 then st = TRANS_STATUS_DOWN else st = t_status t)"
proof (induction answers arbitrary: out)
  case Nil
  show ?case by (simp add: force_write_loop.simps status_id)
next
  case (Cons a answers)
  have prems: "sane answers" "-1 \<le> a_sent a" using Cons.prems by (auto simp: sane_def)
  show ?case
  proof (cases "out = []")
    case True
    then show ?thesis by (simp add: force_write_loop.simps status_id)
  next
    case False
    show ?thesis
    proof (cases rule: trans_send_cases [of out a])
      case (taken n)
      obtain rv tk rest st where r: "force_write_loop answers (drop n out) t = Some (rv, tk, t\<lparr>t_status := st\<rparr>)"
        "drop n out = tk @ rest" "rv \<in> {Some 0, Some 1, None}" "rv = Some 0 \<longrightarrow> rest = []"
        "if rv = Some 1 then st = TRANS_STATUS_DOWN else st = t_status t"
        using Cons.IH [OF prems(1), of "drop n out"] by blast
      have "force_write_loop (a # answers) out t = Some (rv, take n out @ tk, t\<lparr>t_status := st\<rparr>)"
        using False taken r(1) by (subst force_write_loop.simps) (simp add: Let_def)
      moreover have "out = (take n out @ tk) @ rest"
        using r(2) by (metis append_take_drop_id append.assoc)
      ultimately show ?thesis using r(3-5) by blast
    next
      case nothing
      then have s: "fst (trans_send a out) = -1 \<or> fst (trans_send a out) = 0"
        using prems(2) by (auto simp: trans_send_def Let_def split: if_splits)
      show ?thesis
      proof (cases "fst (trans_send a out) = -1 \<and> a_would_block a \<and> \<not> (\<not> a_can a \<and> a_term a)")
        case True
        then have "force_write_loop (a # answers) out t = force_write_loop answers out t"
          using False by (subst force_write_loop.simps) (auto simp: Let_def case_prod_beta)
        then show ?thesis using Cons.IH [OF prems(1), of out] by simp
      next
        case stop: False
        then have "force_write_loop (a # answers) out t = Some (Some 1, [], t\<lparr>t_status := TRANS_STATUS_DOWN\<rparr>)"
          using False s by (subst force_write_loop.simps) (auto simp: Let_def case_prod_beta)
        then show ?thesis by simp
      qed
    qed
  qed
qed

lemma accounted_status: "accounted t t' \<Longrightarrow> accounted (t\<lparr>t_status := v\<rparr>) (t'\<lparr>t_status := v\<rparr>)"
  by (auto simp: accounted_def trans_ok_def same_trans_def balance_def) (metis trans.surjective trans.update_convs(3,8,12))

lemma queued_status [simp]: "queued (t\<lparr>t_status := v\<rparr>) = queued t"
  by (simp add: queued_def)

lemma force_write_ok:
  assumes ok: "trans_ok t" and answers: "sane answers"
  shows "\<exists>rv taken t' part rest. trans_force_write_s answers out_s t = Some (rv, taken, t') \<and>
     accounted (t\<lparr>t_status := t_status t'\<rparr>) t' \<and> queued t @ part = taken @ queued t' \<and> contents out_s = part @ rest \<and>
     rv \<in> {Some 0, Some 1, None} \<and> (rv = Some 0 \<longrightarrow> rest = [] \<and> t_wait_s t' = [] \<and> t_status t = TRANS_STATUS_UP) \<and>
     (if rv = Some 1 then t_status t' \<noteq> TRANS_STATUS_UP else t_status t' = t_status t)"
proof (cases "t_status t = TRANS_STATUS_UP")
  case False
  then show ?thesis using ok by (simp add: trans_force_write_s_def status_id)
next
  case up: True
  obtain rv taken t1 as1 where w: "trans_send_waiting True answers t = Some (rv, taken, t1, as1)" "accounted t t1"
    "queued t = taken @ queued t1" "rv \<in> {Some 0, Some 1, None}" "rv = Some 0 \<longrightarrow> t_wait_s t1 = []"
    "set as1 \<subseteq> set answers"
    using send_waiting_ok [OF ok, of True answers] by blast
  have st: "t_status t1 = t_status t" using accountedD(2) [OF w(2)] by simp
  show ?thesis
  proof (cases "rv = Some 0")
    case False
    then show ?thesis
      using up w st accounted_status [OF w(2), of TRANS_STATUS_DOWN]
      by (cases rv) (auto simp: trans_force_write_s_def status_id)
  next
    case True
    have sane: "sane as1" using answers w(6) by (auto simp: sane_def)
    obtain rv2 tk rest st2 where l: "force_write_loop as1 (contents out_s) t1 = Some (rv2, tk, t1\<lparr>t_status := st2\<rparr>)"
      "contents out_s = tk @ rest" "rv2 \<in> {Some 0, Some 1, None}" "rv2 = Some 0 \<longrightarrow> rest = []"
      "if rv2 = Some 1 then st2 = TRANS_STATUS_DOWN else st2 = t_status t1"
      using force_write_loop_ok [OF sane] by blast
    have "trans_force_write_s answers out_s t = Some (rv2, taken @ tk, t1\<lparr>t_status := st2\<rparr>)"
      using up w(1) True l(1) by (simp add: trans_force_write_s_def)
    moreover have "queued t1 = []" "t_wait_s t1 = []" using w(5) True by (simp_all add: queued_def)
    ultimately show ?thesis
      using w(3) l(2-5) st up accounted_status [OF w(2), of st2]
      by (intro exI [of _ rv2] exI [of _ "taken @ tk"] exI [of _ "t1\<lparr>t_status := st2\<rparr>"] exI [of _ tk] exI [of _ rest])
        (simp split: if_split_asm)
  qed
qed

subsection \<open>Sequences of output\<close>

datatype output_op =
    Copy "attempt list" attempt stream
  | Force "attempt list" stream
  | Flush bool "attempt list"

fun op_stream :: "output_op \<Rightarrow> byte list" where
  "op_stream (Copy answers a s) = contents s"
| "op_stream (Force answers s) = contents s"
| "op_stream (Flush block answers) = []"

fun op_admissible :: "output_op \<Rightarrow> bool" where
  "op_admissible (Copy answers a s) \<longleftrightarrow> marked s"
| "op_admissible (Force answers s) \<longleftrightarrow> sane answers"
| "op_admissible (Flush block answers) \<longleftrightarrow> True"

fun do_output :: "(nat \<Rightarrow> byte) \<Rightarrow> output_op \<Rightarrow> 'x trans \<Rightarrow> (int option \<times> byte list \<times> 'x trans) option" where
  "do_output junk (Copy answers a s) t = trans_write_copy_s junk answers a s t"
| "do_output junk (Force answers s) t = trans_force_write_s answers s t"
| "do_output junk (Flush block answers) t =
     do { (rv, taken, t, answers) \<leftarrow> trans_send_waiting block answers t; Some (rv, taken, t) }"

text \<open>A caller goes on as long as the operations succeed: the number of successes, the bytes taken, the transport.\<close>

fun run_output :: "(nat \<Rightarrow> byte) \<Rightarrow> output_op list \<Rightarrow> 'x trans \<Rightarrow> (nat \<times> byte list \<times> 'x trans) option" where
  "run_output junk [] t = Some (0, [], t)"
| "run_output junk (op # ops) t =
     do { (rv, taken, t) \<leftarrow> do_output junk op t;
          if rv = Some 0
          then do { (k, taken', t) \<leftarrow> run_output junk ops t; Some (Suc k, taken @ taken', t) }
          else Some (0, taken, t) }"

lemma accounted_ok: "accounted (t\<lparr>t_status := v\<rparr>) t' \<Longrightarrow> trans_ok t'"
  by (simp add: accounted_def)

lemma do_output_ok:
  assumes "trans_ok t" "op_admissible op"
  shows "\<exists>rv taken t' part rest. do_output junk op t = Some (rv, taken, t') \<and>
     accounted (t\<lparr>t_status := t_status t'\<rparr>) t' \<and> queued t @ part = taken @ queued t' \<and> op_stream op = part @ rest \<and>
     (rv = Some 0 \<longrightarrow> rest = [])"
proof (cases op)
  case (Copy answers a s)
  then obtain rv taken t' where "trans_write_copy_s junk answers a s t = Some (rv, taken, t')"
    "accounted (t\<lparr>t_status := t_status t'\<rparr>) t'" "queued t @ (if rv = Some 0 then contents s else []) = taken @ queued t'"
    using write_copy_ok [OF assms(1), of s junk answers a] assms(2) by auto
  then show ?thesis
    using Copy by (intro exI [of _ rv] exI [of _ taken] exI [of _ t']
        exI [of _ "if rv = Some 0 then contents s else []"] exI [of _ "if rv = Some 0 then [] else contents s"]) auto
next
  case (Force answers s)
  then obtain rv taken t' part rest where "trans_force_write_s answers s t = Some (rv, taken, t')"
    "accounted (t\<lparr>t_status := t_status t'\<rparr>) t'" "queued t @ part = taken @ queued t'" "contents s = part @ rest" "rv = Some 0 \<longrightarrow> rest = []"
    using force_write_ok [OF assms(1), of answers s] assms(2) by (metis op_admissible.simps(2))
  then show ?thesis using Force by auto
next
  case (Flush block answers)
  obtain rv taken t' as' where "trans_send_waiting block answers t = Some (rv, taken, t', as')" "accounted t t'"
    "queued t = taken @ queued t'"
    using send_waiting_ok [OF assms(1), of block answers] by auto
  then show ?thesis using Flush accountedD(2) [of t t'] by (auto simp: status_id)
qed

lemma run_output_ok:
  "trans_ok t \<Longrightarrow> list_all op_admissible ops \<Longrightarrow>
     \<exists>k taken t' part rest. run_output junk ops t = Some (k, taken, t') \<and> trans_ok t' \<and> k \<le> length ops \<and>
       queued t @ concat (map op_stream (take k ops)) @ part = taken @ queued t' \<and>
       (if k < length ops then op_stream (ops ! k) = part @ rest else part = [])"
proof (induction ops arbitrary: t)
  case (Cons op ops)
  obtain rv taken t1 part rest where o: "do_output junk op t = Some (rv, taken, t1)"
    "accounted (t\<lparr>t_status := t_status t1\<rparr>) t1" "queued t @ part = taken @ queued t1" "op_stream op = part @ rest" "rv = Some 0 \<longrightarrow> rest = []"
    using do_output_ok [OF Cons.prems(1), of op junk] Cons.prems(2) by auto
  show ?case
  proof (cases "rv = Some 0")
    case True
    obtain k tk t' part' rest' where r: "run_output junk ops t1 = Some (k, tk, t')" "trans_ok t'" "k \<le> length ops"
      "queued t1 @ concat (map op_stream (take k ops)) @ part' = tk @ queued t'"
      "if k < length ops then op_stream (ops ! k) = part' @ rest' else part' = []"
      using Cons.IH [OF accounted_ok [OF o(2)]] Cons.prems(2) by auto
    have "queued t @ op_stream op @ concat (map op_stream (take k ops)) @ part' = taken @ tk @ queued t'"
      using o(3-5) r(4) True by (metis append.assoc append.right_neutral)
    then show ?thesis
      using o(1) r True by (intro exI [of _ "Suc k"] exI [of _ "taken @ tk"] exI [of _ t'] exI [of _ part'] exI [of _ rest']) simp
  next
    case False
    then show ?thesis
      using o accounted_ok [OF o(2)]
      by (intro exI [of _ 0] exI [of _ taken] exI [of _ t1] exI [of _ part] exI [of _ rest]) simp
  qed
qed simp

text \<open>
  C11. Output of a transport leaves in order and complete: whatever the socket does (partial
  sends, would-block, errors) and however long data has to wait, the bytes the socket has taken
  followed by those still waiting are the bytes that waited before followed by everything the
  successful operations were given. Of the first operation that fails, only a front part is added.
\<close>

theorem trans_output_in_order:
  assumes "trans_ok t" and "list_all op_admissible ops"
  shows "\<exists>k taken t' part rest. run_output junk ops t = Some (k, taken, t') \<and> trans_ok t' \<and> k \<le> length ops \<and>
       queued t @ concat (map op_stream (take k ops)) @ part = taken @ queued t' \<and>
       (if k < length ops then op_stream (ops ! k) = part @ rest else part = [])"
  by (rule run_output_ok [OF assms])

definition ex_trans :: "unit trans" where
  "ex_trans = (trans_create (\<lambda>_. 0) 1 16 16)
     \<lparr>t_status := TRANS_STATUS_UP,
      t_wait_s := [\<lparr>w_s = (buf [1, 2, 3] 1 3), w_source = Some 4\<rparr>],
      t_si := Some \<lparr>cur_source = 4, source = [0, 0, 0, 0, 2, 0, 0]\<rparr>, t_my_source := 1\<rparr>"

lemma trans_output_in_order_witness:
  "\<exists>k taken t' part.
     run_output (\<lambda>_. 0) [Copy [\<lparr>a_can = True, a_sent = 1, a_would_block = False, a_term = False\<rparr>] \<lparr>a_can = True, a_sent = 1, a_would_block = False, a_term = False\<rparr> (buf [7, 8] 0 2)] ex_trans = Some (k, taken, t') \<and>
     [2, 3] @ concat (map op_stream (take k [Copy [\<lparr>a_can = True, a_sent = 1, a_would_block = False, a_term = False\<rparr>] \<lparr>a_can = True, a_sent = 1, a_would_block = False, a_term = False\<rparr> (buf [7, 8] 0 2)])) @ part = taken @ queued t'"
proof -
  have ok: "trans_ok ex_trans"
    by (auto simp: trans_ok_def ex_trans_def trans_create_def wait_ok_def in_wf_def unread_def si_ok_def)
  have q: "queued ex_trans = [2, 3]"
    by (simp add: queued_def ex_trans_def unread_def trans_create_def)
  have adm: "list_all op_admissible [Copy [\<lparr>a_can = True, a_sent = 1, a_would_block = False, a_term = False\<rparr>] \<lparr>a_can = True, a_sent = 1, a_would_block = False, a_term = False\<rparr> (buf [7, 8] 0 2)]"
    by (simp add: marked_def)
  show ?thesis
    using trans_output_in_order [OF ok adm, of "\<lambda>_. 0"] unfolding q by (elim exE conjE) (intro exI conjI)
qed

end
