(* ===== verification/Trans_Read.thy ===== *)
theory Trans_Read
  imports Trans_Queue
begin

text \<open>
  What arrives: input is stored inside the stream, in order, and never more than was asked for.
\<close>

lemma trans_recv_cases:
  obtains (failed) "trans_recv r n = (-1, [])" | (closed) "trans_recv r n = (0, [])"
  | (got) bs where "bs \<noteq> []" "length bs \<le> n" "bs = take (length bs) (r_data r)" "trans_recv r n = (int (length bs), bs)"
proof (cases "r_fail r \<or> take n (r_data r) = []")
  case True
  then show ?thesis by (cases "r_fail r") (auto simp: trans_recv_def intro: failed closed)
next
  case False
  show ?thesis by (rule got [of "take n (r_data r)"]) (use False in \<open>auto simp: trans_recv_def min_def\<close>)
qed

lemma store_recv_ok:
  assumes "marked s" "s_end s + length bs \<le> s_size s"
  shows "\<exists>s'. store_recv bs s = Some s' \<and> marked s' \<and> contents s' = contents s @ bs \<and> s_size s' = s_size s \<and>
     s_end s' = s_end s + length bs \<and> s_p s' = s_p s"
  using assms by (auto simp: store_recv_def marked_def contents_def)

lemma force_read_loop_ok:
  "marked s \<Longrightarrow> int (s_end s) + n \<le> int (s_size s) \<Longrightarrow>
     \<exists>rv s' st got. force_read_loop answers n s t = Some (rv, s', t\<lparr>t_status := st\<rparr>) \<and> marked s' \<and> s_size s' = s_size s \<and>
       s_p s' = s_p s \<and> contents s' = contents s @ got \<and> int (length got) \<le> max 0 n \<and>
       rv \<in> {Some 0, Some 1, None} \<and> (rv = Some 0 \<longrightarrow> int (length got) = max 0 n) \<and>
       (if rv = Some 1 then st = TRANS_STATUS_DOWN else st = t_status t)"
proof (induction answers arbitrary: n s)
  case Nil
  then show ?case by (auto simp: force_read_loop.simps status_id intro!: exI [of _ "[]"])
next
  case (Cons r answers)
  show ?case
  proof (cases "n > 0")
    case False
    then show ?thesis using Cons.prems by (simp add: force_read_loop.simps status_id)
  next
    case True
    have stop: ?thesis
      if "force_read_loop (r # answers) n s t = Some (Some 1, s, t\<lparr>t_status := TRANS_STATUS_DOWN\<rparr>)"
      using that Cons.prems(1) True by auto
    show ?thesis
    proof (cases rule: trans_recv_cases [of r "nat n"])
      case failed
      show ?thesis
      proof (cases "r_would_block r \<and> \<not> (\<not> r_can r \<and> r_term r)")
        case True
        then have "force_read_loop (r # answers) n s t = force_read_loop answers n s t"
          using \<open>n > 0\<close> failed by (subst force_read_loop.simps) auto
        then show ?thesis using Cons.IH [OF Cons.prems] by simp
      next
        case False
        then show ?thesis using True failed by (intro stop) (subst force_read_loop.simps, auto)
      qed
    next
      case closed
      then show ?thesis using True by (intro stop) (subst force_read_loop.simps, auto)
    next
      case (got bs)
      have room: "s_end s + length bs \<le> s_size s" using got(2) True Cons.prems(2) by linarith
      obtain s1 where s1: "store_recv bs s = Some s1" "marked s1" "contents s1 = contents s @ bs" "s_size s1 = s_size s"
        "s_end s1 = s_end s + length bs" "s_p s1 = s_p s"
        using store_recv_ok [OF Cons.prems(1) room] by blast
      have "int (s_end s1) + (n - int (length bs)) \<le> int (s_size s1)" using s1 Cons.prems(2) by simp
      from Cons.IH [OF s1(2) this] obtain rv s' st more where r: "force_read_loop answers (n - int (length bs)) s1 t = Some (rv, s', t\<lparr>t_status := st\<rparr>)"
        "marked s'" "s_size s' = s_size s1" "s_p s' = s_p s1" "contents s' = contents s1 @ more" "int (length more) \<le> max 0 (n - int (length bs))"
        "rv \<in> {Some 0, Some 1, None}" "rv = Some 0 \<longrightarrow> int (length more) = max 0 (n - int (length bs))"
        "if rv = Some 1 then st = TRANS_STATUS_DOWN else st = t_status t" by blast
      have "force_read_loop (r # answers) n s t = Some (rv, s', t\<lparr>t_status := st\<rparr>)"
        using True got s1(1) r(1) by (subst force_read_loop.simps) simp
      moreover have "int (length bs) \<le> n" using got(2) True by linarith
      ultimately show ?thesis
        using r s1 by (intro exI [of _ rv] exI [of _ s'] exI [of _ st] exI [of _ "bs @ more"]) auto
    qed
  qed
qed

lemma c_uint_32 [simp]: "0 \<le> x \<Longrightarrow> x < 2 ^ 32 \<Longrightarrow> c_uint x = x"
  by (simp add: c_uint_def)

lemma read_part_bounded:
  assumes s: "marked (t_in_s t)" and h: "t_header_size t \<le> int (s_size (t_in_s t))" "int (s_end (t_in_s t)) \<le> t_header_size t"
  shows "\<exists>res t' got. read_part r t = Some (res, t') \<and> marked (t_in_s t') \<and> contents (t_in_s t') = contents (t_in_s t) @ got \<and>
     got = take (length got) (r_data r) \<and> t_header_size t' = t_header_size t \<and> int (s_end (t_in_s t')) \<le> t_header_size t'"
proof -
  let ?s = "t_in_s t" and ?n = "t_header_size t - int (s_end (t_in_s t))"
  have m: "s_end ?s \<le> s_size ?s" "s_size ?s < 2 ^ 31" using s by (auto simp: marked_def)
  then have size: "c_uint (int (s_size ?s)) = int (s_size ?s)" "c_uint ?n = ?n" using h by simp_all
  have quiet: ?thesis if q: "\<exists>res t'. read_part r t = Some (res, t') \<and> t_in_s t' = ?s \<and> t_header_size t' = t_header_size t"
  proof -
    obtain res t' where "read_part r t = Some (res, t')" "t_in_s t' = ?s" "t_header_size t' = t_header_size t" using q by blast
    then show ?thesis using s h by (intro exI [of _ res] exI [of _ t'] exI [of _ "[]"]) auto
  qed
  show ?thesis
  proof (cases "?n > 0")
    case False
    then show ?thesis using size h by (intro quiet) (auto simp: read_part_def Let_def set_cur_source_def)
  next
    case True
    show ?thesis
    proof (cases rule: trans_recv_cases [of r "nat ?n"])
      case (got bs)
      have room: "int (s_end ?s + length bs) \<le> t_header_size t" "s_end ?s + length bs \<le> s_size ?s"
        using got(2) True h by linarith+
      obtain s1 where s1: "store_recv bs ?s = Some s1" "marked s1" "contents s1 = contents ?s @ bs" "s_end s1 = s_end ?s + length bs"
        using store_recv_ok [OF s room(2)] by blast
      have "\<exists>res t'. read_part r t = Some (res, t') \<and> t_in_s t' = s1 \<and> t_header_size t' = t_header_size t"
        using True got s1(1) size h by (auto simp: read_part_def Let_def set_cur_source_def)
      then show ?thesis using s1 got(3) room(1) by auto
    qed (use True size h in \<open>intro quiet; auto simp: read_part_def Let_def set_cur_source_def\<close>)+
  qed
qed

lemma read_part_overrun:
  assumes s: "marked (t_in_s t)" and h: "0 \<le> t_header_size t" "t_header_size t \<le> int (s_size (t_in_s t))" "t_header_size t < int (s_end (t_in_s t))"
  shows "\<exists>r. read_part r t = None"
proof -
  let ?s = "t_in_s t"
  define d where "d = c_uint (t_header_size t - int (s_end ?s))"
  have m: "s_end ?s \<le> s_size ?s" "s_size ?s < 2 ^ 31" using s by (auto simp: marked_def)
  have d: "d = t_header_size t - int (s_end ?s) + 2 ^ 32"
    using h m mod_pos_pos_trivial [of "t_header_size t - int (s_end ?s) + 2 ^ 32" "2 ^ 32"]
    by (simp add: d_def c_uint_def)
  let ?n = "Suc (s_size ?s)"
  let ?r = "\<lparr>r_can = True, r_fail = False, r_data = replicate ?n 0, r_would_block = False, r_term = False\<rparr>"
  have "int ?n \<le> d" using d h m by simp
  then have big: "?n \<le> nat d" "d > 0" by linarith+
  have "trans_recv ?r (nat d) = (int ?n, replicate ?n 0)" using big(1) by (simp add: trans_recv_def min_def)
  then have "read_part ?r t = None"
    using big(2) m h d_def by (simp add: read_part_def Let_def set_cur_source_def store_recv_def)
  then show ?thesis by blast
qed

lemma force_read_ok:
  assumes "marked s"
  shows "\<exists>rv s' t' got. trans_force_read_s answers s n t = Some (rv, s', t') \<and> marked s' \<and>
     contents s' = contents s @ got \<and> int (length got) \<le> max 0 n \<and> (rv = Some 0 \<longrightarrow> int (length got) = n) \<and>
     (n < 0 \<or> n > int (s_size s) - int (s_end s) \<longrightarrow> rv = Some 1 \<and> got = []) \<and> s_p s' = s_p s \<and> s_size s' = s_size s \<and>
     t' = t\<lparr>t_status := t_status t'\<rparr>"
proof (cases "t_status t \<noteq> TRANS_STATUS_UP \<or> n < 0 \<or> n > int (s_size s) - int (s_end s)")
  case True
  then show ?thesis using assms by (auto simp: trans_force_read_s_def)
next
  case False
  then have fits: "int (s_end s) + n \<le> int (s_size s)" "0 \<le> n" by simp_all
  obtain rv s' st got where "force_read_loop answers n s t = Some (rv, s', t\<lparr>t_status := st\<rparr>)" "marked s'"
    "contents s' = contents s @ got" "int (length got) \<le> max 0 n" "rv = Some 0 \<longrightarrow> int (length got) = max 0 n" "s_p s' = s_p s" "s_size s' = s_size s"
    using force_read_loop_ok [OF assms fits(1), of answers t] by blast
  then show ?thesis using False fits(2) by (auto simp: trans_force_read_s_def)
qed

lemma trans_force_read_got:
  assumes "marked (t_in_s t)" and "trans_force_read answers n t = Some (Some 0, t')"
  shows "\<exists>got. int (length got) = n \<and> contents (t_in_s t') = contents (t_in_s t) @ got \<and> marked (t_in_s t') \<and>
     s_p (t_in_s t') = s_p (t_in_s t) \<and> s_size (t_in_s t') = s_size (t_in_s t)"
  using force_read_ok [OF assms(1), of answers n t] assms(2) by (auto simp: trans_force_read_def)

lemma trans_force_read_ok:
  assumes "marked (t_in_s t)"
  shows "\<exists>rv t'. trans_force_read answers n t = Some (rv, t') \<and> marked (t_in_s t') \<and> s_p (t_in_s t') = s_p (t_in_s t) \<and>
     t' = t\<lparr>t_in_s := t_in_s t', t_status := t_status t'\<rparr>"
proof -
  obtain rv s' t' where r: "trans_force_read_s answers (t_in_s t) n t = Some (rv, s', t')" "marked s'" "s_p s' = s_p (t_in_s t)"
    "t' = t\<lparr>t_status := t_status t'\<rparr>"
    using force_read_ok [OF assms, of answers n t] by blast
  have "t'\<lparr>t_in_s := s'\<rparr> = t\<lparr>t_in_s := s', t_status := t_status t'\<rparr>" by (subst r(4)) simp
  then show ?thesis using r(1-3) by (simp add: trans_force_read_def)
qed

lemma marked_length: "marked s \<Longrightarrow> length (contents s) = s_end s"
  by (simp add: marked_def contents_def)

lemma unread_contents: "unread s = drop (s_p s) (contents s)"
  by (simp add: unread_def contents_def)

text \<open>
  C14. As long as a transport has collected no more than its header size asks for, input never leaves its buffer: a
  poll that finds a header size beyond the buffer takes the transport down; any other adds a front part of what the
  peer delivered and still holds no more than the unchanged header size asks for. A blocking read, from any state, adds exactly the
  bytes asked for or fails, and refuses a request that does not fit.

  Nothing in the code of the poll enforces the condition: once more has been collected than the header size asks
  for, the length computed wraps around and a large enough delivery runs out of the buffer (\<open>read_part_overrun\<close>).
\<close>

theorem trans_input_bounded:
  assumes "marked (t_in_s t)" and "0 \<le> t_header_size t" and "t_header_size t < 2 ^ 32"
    and collected: "int (s_end (t_in_s t)) \<le> t_header_size t"
  shows "(t_header_size t > int (s_size (t_in_s t)) \<longrightarrow> read_part r t = Some (Inl 1, t\<lparr>t_status := TRANS_STATUS_DOWN\<rparr>)) \<and>
     (t_header_size t \<le> int (s_size (t_in_s t)) \<longrightarrow>
        (\<exists>res t' got. read_part r t = Some (res, t') \<and> marked (t_in_s t') \<and> contents (t_in_s t') = contents (t_in_s t) @ got \<and>
           got = take (length got) (r_data r) \<and> t_header_size t' = t_header_size t \<and>
           int (s_end (t_in_s t')) \<le> t_header_size t')) \<and>
     (\<exists>rv s' t' got. trans_force_read_s answers (t_in_s t) n t = Some (rv, s', t') \<and> marked s' \<and>
        contents s' = contents (t_in_s t) @ got \<and> int (length got) \<le> max 0 n \<and> (rv = Some 0 \<longrightarrow> int (length got) = n) \<and>
        (n < 0 \<or> n > int (s_size (t_in_s t)) - int (s_end (t_in_s t)) \<longrightarrow> rv = Some 1 \<and> got = []))"
proof -
  have "c_uint (int (s_size (t_in_s t))) = int (s_size (t_in_s t))" using assms(1) by (simp add: marked_def)
  moreover have "\<exists>rv s' t' got. trans_force_read_s answers (t_in_s t) n t = Some (rv, s', t') \<and> marked s' \<and>
      contents s' = contents (t_in_s t) @ got \<and> int (length got) \<le> max 0 n \<and> (rv = Some 0 \<longrightarrow> int (length got) = n) \<and>
      (n < 0 \<or> n > int (s_size (t_in_s t)) - int (s_end (t_in_s t)) \<longrightarrow> rv = Some 1 \<and> got = [])"
    using force_read_ok [OF assms(1), of answers n t] by blast
  ultimately show ?thesis
    using read_part_bounded [OF assms(1) _ collected, of r] by (intro conjI impI) (auto simp: read_part_def)
qed

lemma trans_input_bounded_witness:
  "\<exists>res t' got. read_part \<lparr>r_can = True, r_fail = False, r_data = [5, 6, 7], r_would_block = False, r_term = False\<rparr>
       ((trans_create (\<lambda>_. 0) 1 8 8 :: unit trans)\<lparr>t_header_size := 2\<rparr>) = Some (res, t') \<and>
     contents (t_in_s t') = got \<and> got = take (length got) [5, 6, 7]"
proof -
  let ?t = "(trans_create (\<lambda>_. 0) 1 8 8 :: unit trans)\<lparr>t_header_size := 2\<rparr>"
  have s: "s_size (t_in_s ?t) = 8" "s_end (t_in_s ?t) = 0" "t_header_size ?t = 2" "contents (t_in_s ?t) = []"
    by (simp_all add: trans_create_def make_stream_def contents_def)
  then have "marked (t_in_s ?t)" "0 \<le> t_header_size ?t" "t_header_size ?t < 2 ^ 32" "int (s_end (t_in_s ?t)) \<le> t_header_size ?t"
    by (simp_all only: marked_def) simp_all
  from trans_input_bounded [OF this, of "\<lparr>r_can = True, r_fail = False, r_data = [5, 6, 7], r_would_block = False, r_term = False\<rparr>" "[]" 0] s
  show ?thesis by auto
qed

end
