(* ===== verification/Xrdp_Iso.thy ===== *)
theory Xrdp_Iso
  imports Trans_Queue Trans_Read
begin

text \<open>
  \<^verbatim>\<open>libxrdp/xrdp_iso.c\<close> and the framing functions of \<^verbatim>\<open>libxrdp/libxrdp.c\<close>: TPKT packets, the X.224
  connection request and confirm, and the negotiation of the security protocol. A function that
  reads the stream returns its error code, its results and the stream; \<^term>\<open>None\<close> is a read or a
  write outside the buffer. The transport's answers are inputs, as in \<^verbatim>\<open>Trans_IO\<close>.
\<close>

abbreviation (input) ISO_PDU_CR :: int where "ISO_PDU_CR \<equiv> 0xe0"
abbreviation (input) ISO_PDU_CC :: int where "ISO_PDU_CC \<equiv> 0xd0"
abbreviation (input) ISO_PDU_DT :: int where "ISO_PDU_DT \<equiv> 0xf0"
abbreviation (input) RDP_NEG_REQ :: int where "RDP_NEG_REQ \<equiv> 1"
abbreviation (input) RDP_NEG_RSP :: int where "RDP_NEG_RSP \<equiv> 2"
abbreviation (input) RDP_NEG_FAILURE :: int where "RDP_NEG_FAILURE \<equiv> 3"
abbreviation (input) RDP_CORRELATION_INFO :: int where "RDP_CORRELATION_INFO \<equiv> 6"
abbreviation (input) PROTOCOL_RDP :: int where "PROTOCOL_RDP \<equiv> 0"
abbreviation (input) PROTOCOL_SSL :: int where "PROTOCOL_SSL \<equiv> 1"
abbreviation (input) PROTOCOL_HYBRID :: int where "PROTOCOL_HYBRID \<equiv> 2"
abbreviation (input) PROTOCOL_HYBRID_EX :: int where "PROTOCOL_HYBRID_EX \<equiv> 8"
abbreviation (input) SECURITY_LAYER_RDP :: int where "SECURITY_LAYER_RDP \<equiv> 1"
abbreviation (input) SECURITY_LAYER_TLS :: int where "SECURITY_LAYER_TLS \<equiv> 2"
abbreviation (input) SSL_REQUIRED_BY_SERVER :: int where "SSL_REQUIRED_BY_SERVER \<equiv> 1"
abbreviation (input) SSL_CERT_NOT_ON_SERVER :: int where "SSL_CERT_NOT_ON_SERVER \<equiv> 3"

record xrdp_iso =
  rdpNegData :: bool
  requestedProtocol :: int
  selectedProtocol :: int
  failureCode :: int

text \<open>What the layer reads of \<^verbatim>\<open>client_info\<close> and of the system.\<close>

record iso_config =
  security_layer :: int
  vmconnect :: bool
  certificate_readable :: bool
  key_file_readable :: bool
  fips_mode :: bool

definition xrdp_iso_create :: "int \<Rightarrow> iso_config \<Rightarrow> xrdp_iso \<times> iso_config" where
  "xrdp_iso_create trans_mode cfg =
     (\<lparr>rdpNegData = False, requestedProtocol = 0, selectedProtocol = 0, failureCode = 0\<rparr>,
      if vmconnect cfg \<and> trans_mode \<noteq> 3 then cfg\<lparr>vmconnect := False\<rparr> else cfg)"

subsection \<open>Framing\<close>

definition libxrdp_get_pdu_bytes :: "byte list \<Rightarrow> int option" where
  "libxrdp_get_pdu_bytes header =
     do { h0 \<leftarrow> list_get header 0;
          if h0 = 3
          then do { h2 \<leftarrow> list_get header 2; h3 \<leftarrow> list_get header 3; Some (push_bit 8 (uint h2) OR uint h3) }
          else do { h1 \<leftarrow> list_get header 1;
                    if h1 AND 0x80 \<noteq> 0
                    then do { h2 \<leftarrow> list_get header 2; Some (push_bit 8 (uint (h1 AND 0x7f)) OR uint h2) }
                    else Some (uint h1) } }"

text \<open>The result is \<^term>\<open>Some 0\<close> when the transport's input stream holds the PDU, \<^term>\<open>Some 1\<close> for \<^verbatim>\<open>NULL\<close>.\<close>

definition libxrdp_force_read ::
  "(nat \<Rightarrow> byte) \<Rightarrow> recv_attempt list \<Rightarrow> recv_attempt list \<Rightarrow> 'x trans \<Rightarrow> (int option \<times> 'x trans) option" where
  "libxrdp_force_read junk answers answers' tr =
     do { let tr = tr\<lparr>t_in_s := init_stream junk (32 * 1024) (t_in_s tr)\<rparr>;
          (rv, tr) \<leftarrow> trans_force_read answers 4 tr;
          if rv \<noteq> Some 0 then Some (rv, tr)
          else do { bytes \<leftarrow> libxrdp_get_pdu_bytes (s_data (t_in_s tr));
                    if bytes < 4 \<or> bytes > int (s_size (t_in_s tr)) then Some (Some 1, tr)
                    else trans_force_read answers' (bytes - 4) tr } }"

subsection \<open>Receiving\<close>

definition xrdp_iso_recv_msg :: "stream \<Rightarrow> (int \<times> int \<times> int \<times> stream) option" where
  "xrdp_iso_recv_msg s =
     (if \<not> s_check_rem s 6 then Some (1, 0, 0, s)
      else do { (ver, s) \<leftarrow> in_uint8 s;
                let s = in_uint8s 3 s;
                (len, s) \<leftarrow> in_uint8 s;
                (code, s) \<leftarrow> in_uint8 s;
                if ver \<noteq> 3 then Some (1, code, len, s)
                else if len = 255 then Some (1, code, len, s)
                else if code = ISO_PDU_DT
                then Some (if s_check_rem s 1 then (0, code, len, in_uint8s 1 s) else (1, code, len, s))
                else Some (if s_check_rem s 5 then (0, code, len, in_uint8s 5 s) else (1, code, len, s)) })"

definition xrdp_iso_recv :: "stream \<Rightarrow> (int \<times> stream) option" where
  "xrdp_iso_recv s =
     do { (rv, code, len, s) \<leftarrow> xrdp_iso_recv_msg s;
          Some (if rv \<noteq> 0 then 1 else if code \<noteq> ISO_PDU_DT \<or> len \<noteq> 2 then 1 else 0, s) }"

definition xrdp_iso_process_rdp_neg_req :: "xrdp_iso \<Rightarrow> stream \<Rightarrow> (int \<times> xrdp_iso \<times> stream) option" where
  "xrdp_iso_process_rdp_neg_req self s =
     (if \<not> s_check_rem s 7 then Some (1, self, s)
      else do { (flags, s) \<leftarrow> in_uint8 s;
                if flags AND 0x0000000b \<noteq> flags then Some (1, self, s)
                else if flags AND 2 \<noteq> 0 \<and> flags AND 1 = 0 then Some (1, self, s)
                else do { (len, s) \<leftarrow> in_uint16_le s;
                          if len \<noteq> 8 then Some (1, self, s)
                          else do { (v, s) \<leftarrow> in_uint32_le s;
                                    let self = self\<lparr>requestedProtocol := c_int v\<rparr>;
                                    Some (if requestedProtocol self > 0xb then 1 else 0, self, s) } } })"

text \<open>The cookie, up to and including its line end.\<close>

function skip_cookie :: "stream \<Rightarrow> stream option" where
  "skip_cookie s =
     (if s_check_rem s 1
      then (case in_uint8 s of
              None \<Rightarrow> None
            | Some (c, s) \<Rightarrow>
                if c = 0x0D \<and> s_check_rem s 1
                then (case in_uint8 s of
                        None \<Rightarrow> None
                      | Some (c, s) \<Rightarrow> if c = 0x0A then Some s else skip_cookie s)
                else skip_cookie s)
      else Some s)"
  by pat_completeness auto

lemma in_uint8_SomeD: "in_uint8 s = Some (v, s') \<Longrightarrow> s' = advance 1 s \<and> s_p s < s_size s"
  by (auto simp: in_uint8_def in_bytes_def advance_def split: if_split_asm)

termination skip_cookie
  by (relation "measure (\<lambda>s. s_size s - s_p s)") (auto dest!: in_uint8_SomeD)

declare skip_cookie.simps [simp del]

lemma skip_cookie_advances: "skip_cookie s = Some s' \<Longrightarrow> s_size s' = s_size s \<and> s_p s \<le> s_p s'"
proof (induction s rule: skip_cookie.induct)
  case (1 s)
  show ?case
    using "1.prems" [unfolded skip_cookie.simps [of s]] "1.IH"
    by (fastforce split: if_split_asm option.split_asm prod.split_asm dest!: in_uint8_SomeD)
qed

text \<open>The variable part of a connection request.\<close>

function incoming_loop :: "xrdp_iso \<Rightarrow> stream \<Rightarrow> (int \<times> xrdp_iso \<times> stream) option" where
  "incoming_loop self s =
     (if s_check_rem s 1
      then (case in_uint8 s of
              None \<Rightarrow> None
            | Some (cc_type, s) \<Rightarrow>
                if cc_type = RDP_NEG_REQ
                then (case xrdp_iso_process_rdp_neg_req (self\<lparr>rdpNegData := True\<rparr>) s of
                        None \<Rightarrow> None
                      | Some (rv, self, s) \<Rightarrow> if rv \<noteq> 0 then Some (1, self, s) else incoming_loop self s)
                else if cc_type = RDP_CORRELATION_INFO
                then if \<not> s_check_rem s (1 + 2 + 16 + 16) then Some (1, self, s)
                     else incoming_loop self (in_uint8s (1 + 2 + 16 + 16) s)
                else if cc_type = 0x43
                then (case skip_cookie s of None \<Rightarrow> None | Some s \<Rightarrow> incoming_loop self s)
                else incoming_loop self s)
      else Some (0, self, s))"
  by pat_completeness auto

lemma neg_req_advances:
  assumes "xrdp_iso_process_rdp_neg_req self s = Some (rv, self', s')"
  shows "s_size s' = s_size s \<and> s_p s \<le> s_p s'"
proof -
  have b: "in_bytes n s = Some (bs, s1) \<Longrightarrow> s1 = advance n s" for n s bs s1
    by (auto simp: in_bytes_def advance_def split: if_split_asm)
  show ?thesis
    using assms by (auto simp: xrdp_iso_process_rdp_neg_req_def Let_def in_defs Option.bind_eq_Some_conv dest!: b split: if_split_asm)
qed

termination incoming_loop
  by (relation "measure (\<lambda>(self, s). s_size s - s_p s)")
    (auto simp: in_uint8s_def dest!: in_uint8_SomeD neg_req_advances skip_cookie_advances)

declare incoming_loop.simps [simp del]

subsection \<open>Negotiating security\<close>

definition xrdp_iso_negotiate_security :: "iso_config \<Rightarrow> xrdp_iso \<Rightarrow> int \<times> xrdp_iso" where
  "xrdp_iso_negotiate_security cfg self =
     (let mask = (if security_layer cfg = SECURITY_LAYER_RDP then PROTOCOL_RDP else PROTOCOL_SSL);
          mask = (if vmconnect cfg then mask OR (PROTOCOL_HYBRID OR PROTOCOL_HYBRID_EX) else mask);
          mask = mask AND requestedProtocol self;
          (got, rv, self) =
            (if mask AND PROTOCOL_HYBRID_EX \<noteq> 0 then (True, 0, self\<lparr>selectedProtocol := PROTOCOL_HYBRID_EX\<rparr>)
             else if mask AND PROTOCOL_HYBRID \<noteq> 0 then (True, 0, self\<lparr>selectedProtocol := PROTOCOL_HYBRID\<rparr>)
             else if mask AND PROTOCOL_SSL \<noteq> 0
             then if certificate_readable cfg \<and> key_file_readable cfg \<or> vmconnect cfg
                  then (True, 0, self\<lparr>selectedProtocol := PROTOCOL_SSL\<rparr>)
                  else if security_layer cfg = SECURITY_LAYER_TLS
                  then (False, 1, self\<lparr>failureCode := SSL_CERT_NOT_ON_SERVER\<rparr>)
                  else (False, 0, self)
             else if security_layer cfg = SECURITY_LAYER_TLS
             then (False, 1, self\<lparr>failureCode := SSL_REQUIRED_BY_SERVER\<rparr>)
             else (False, 0 :: int, self))
      in if \<not> got \<and> rv = 0
         then if fips_mode cfg then (1, self\<lparr>failureCode := SSL_REQUIRED_BY_SERVER\<rparr>)
              else (0, self\<lparr>selectedProtocol := PROTOCOL_RDP\<rparr>)
         else (rv, self))"

subsection \<open>Sending\<close>

text \<open>Storing one byte at a saved position.\<close>

definition poke :: "nat \<Rightarrow> int \<Rightarrow> stream \<Rightarrow> stream option" where
  "poke i v s = do { xs \<leftarrow> list_set (s_data s) i (word_of_int v); Some (s\<lparr>s_data := xs\<rparr>) }"

definition cc_stream :: "(nat \<Rightarrow> byte) \<Rightarrow> iso_config \<Rightarrow> xrdp_iso \<Rightarrow> stream option" where
  "cc_stream junk cfg self =
     do { let s = init_stream junk 8192 make_stream;
          let holdp = s_p s;
          s \<leftarrow> out_uint8 3 s;
          s \<leftarrow> out_uint8 0 s;
          let len_ptr = s_p s;
          s \<leftarrow> out_uint16_be 0 s;
          let len_indicator_ptr = s_p s;
          s \<leftarrow> out_uint8 0 s;
          s \<leftarrow> out_uint8 ISO_PDU_CC s;
          s \<leftarrow> out_uint16_be 0 s;
          s \<leftarrow> out_uint16_be 0x1234 s;
          s \<leftarrow> out_uint8 0 s;
          s \<leftarrow> (if rdpNegData self
               then if failureCode self \<noteq> 0
                    then do { s \<leftarrow> out_uint8 RDP_NEG_FAILURE s;
                              s \<leftarrow> out_uint8 0 s;
                              s \<leftarrow> out_uint16_le 8 s;
                              out_uint32_le (failureCode self) s }
                    else do { let flags = (if vmconnect cfg then 1 OR 8 else 1);
                              s \<leftarrow> out_uint8 RDP_NEG_RSP s;
                              s \<leftarrow> out_uint8 flags s;
                              s \<leftarrow> out_uint16_le 8 s;
                              out_uint32_le (selectedProtocol self) s }
               else Some s);
          let s = s_mark_end s;
          let len = int (s_end s) - int holdp;
          let len_indicator = int (s_end s) - int len_indicator_ptr - 1;
          s \<leftarrow> poke len_ptr (drop_bit 8 len) s;
          s \<leftarrow> poke (len_ptr + 1) len s;
          poke len_indicator_ptr len_indicator s }"

text \<open>Sending goes through \<^verbatim>\<open>trans_write_copy_s\<close>; the bytes the socket takes at once are part of the result.\<close>

definition xrdp_iso_send_cc ::
  "(nat \<Rightarrow> byte) \<Rightarrow> iso_config \<Rightarrow> attempt list \<Rightarrow> attempt \<Rightarrow> xrdp_iso \<Rightarrow> 'x trans \<Rightarrow> (int option \<times> byte list \<times> 'x trans) option" where
  "xrdp_iso_send_cc junk cfg answers a self tr =
     do { s \<leftarrow> cc_stream junk cfg self;
          (rv, taken, tr) \<leftarrow> trans_write_copy_s junk answers a s tr;
          Some (map_option (\<lambda>v. if v \<noteq> 0 then 1 else 0) rv, taken, tr) }"

definition xrdp_iso_incoming ::
  "(nat \<Rightarrow> byte) \<Rightarrow> iso_config \<Rightarrow> recv_attempt list \<Rightarrow> recv_attempt list \<Rightarrow> attempt list \<Rightarrow> attempt \<Rightarrow> xrdp_iso \<Rightarrow> 'x trans \<Rightarrow>
   (int option \<times> xrdp_iso \<times> byte list \<times> 'x trans) option" where
  "xrdp_iso_incoming junk cfg r r' answers a self tr =
     do { (rv, tr) \<leftarrow> libxrdp_force_read junk r r' tr;
          if rv \<noteq> Some 0 then Some (rv, self, [], tr)
          else do { (rv, code, len, s) \<leftarrow> xrdp_iso_recv_msg (t_in_s tr);
                    if rv \<noteq> 0 \<or> code \<noteq> ISO_PDU_CR then Some (Some 1, self, [], tr\<lparr>t_in_s := s\<rparr>)
                    else let expected_pdu_len = c_int (int (s_end s) - int (s_p s) + 6)
                         in if len \<noteq> expected_pdu_len then Some (Some 1, self, [], tr\<lparr>t_in_s := s\<rparr>)
                            else do { (rv, self, s) \<leftarrow> incoming_loop self s;
                                      let tr = tr\<lparr>t_in_s := s\<rparr>;
                                      if rv \<noteq> 0 then Some (Some 1, self, [], tr)
                                      else do { let (rv, self) = xrdp_iso_negotiate_security cfg self;
                                                (sent, taken, tr) \<leftarrow> xrdp_iso_send_cc junk cfg answers a self tr;
                                                Some (case sent of None \<Rightarrow> None | Some v \<Rightarrow> if v \<noteq> 0 then Some 1 else Some rv,
                                                      self, taken, tr) } } } }"

definition xrdp_iso_init :: "(nat \<Rightarrow> byte) \<Rightarrow> stream \<Rightarrow> stream" where
  "xrdp_iso_init junk s = s_push_layer_iso 7 (init_stream junk (8192 * 4) s)"

definition iso_send_stream :: "stream \<Rightarrow> stream option" where
  "iso_send_stream s =
     do { let s = s_pop_layer_iso s;
          let len = int (s_end s) - int (s_p s);
          s \<leftarrow> out_uint8 3 s;
          s \<leftarrow> out_uint8 0 s;
          s \<leftarrow> out_uint16_be len s;
          s \<leftarrow> out_uint8 2 s;
          s \<leftarrow> out_uint8 ISO_PDU_DT s;
          out_uint8 0x80 s }"

definition xrdp_iso_send ::
  "(nat \<Rightarrow> byte) \<Rightarrow> attempt list \<Rightarrow> attempt \<Rightarrow> stream \<Rightarrow> 'x trans \<Rightarrow> (int option \<times> byte list \<times> stream \<times> 'x trans) option" where
  "xrdp_iso_send junk answers a s tr =
     do { s \<leftarrow> iso_send_stream s;
          (rv, taken, tr) \<leftarrow> trans_write_copy_s junk answers a s tr;
          Some (map_option (\<lambda>v. if v \<noteq> 0 then 1 else 0) rv, taken, s, tr) }"

end
