(* ===== verification/Stream_At.thy ===== *)
theory Stream_At
  imports Parse_Stream
begin

text \<open>
  Reading at known offsets. A parser that starts at a well-formed stream only ever sees that stream
  advanced by some number of bytes, so every read is determined by the unread bytes it started
  with. The facts rewrite a fixed-format parser to conditions on those bytes.
\<close>

named_theorems at_simps \<open>reads of a stream advanced by a known amount\<close>

lemma in_bytes_at:
  assumes "in_wf s" "k + n \<le> length (unread s)"
  shows "in_bytes n (advance k s) = Some (take n (drop k (unread s)), advance (k + n) s)"
  using in_bytes_unread_eq [OF advance_wf [OF assms(1), of k], of n] assms by (simp add: unread_advance)

lemma take_2_at: "k + 2 \<le> length xs \<Longrightarrow> take 2 (drop k xs) = [xs ! k, xs ! Suc k]"
  by (simp add: numeral_2_eq_2 Cons_nth_drop_Suc [symmetric])

lemma take_4_at: "k + 4 \<le> length xs \<Longrightarrow> take 4 (drop k xs) = [xs ! k, xs ! (k + 1), xs ! (k + 2), xs ! (k + 3)]"
  by (simp add: eval_nat_numeral Cons_nth_drop_Suc [symmetric])

lemma in_uint8_at [at_simps]:
  "in_wf s \<Longrightarrow> k + 1 \<le> length (unread s) \<Longrightarrow> in_uint8 (advance k s) = Some (uint (unread s ! k), advance (k + 1) s)"
  by (simp add: in_uint8_def in_bytes_at Cons_nth_drop_Suc [symmetric])

lemma in_uint16_le_at [at_simps]:
  "in_wf s \<Longrightarrow> k + 2 \<le> length (unread s) \<Longrightarrow>
     in_uint16_le (advance k s) = Some (uint (unread s ! k) + 256 * uint (unread s ! Suc k), advance (k + 2) s)"
  by (simp add: in_uint16_le_def in_bytes_at take_2_at)

lemma in_uint16_be_at [at_simps]:
  "in_wf s \<Longrightarrow> k + 2 \<le> length (unread s) \<Longrightarrow>
     in_uint16_be (advance k s) = Some (256 * uint (unread s ! k) + uint (unread s ! Suc k), advance (k + 2) s)"
  by (simp add: in_uint16_be_def in_bytes_at take_2_at)

lemma in_uint32_le_at [at_simps]:
  "in_wf s \<Longrightarrow> k + 4 \<le> length (unread s) \<Longrightarrow>
     in_uint32_le (advance k s) = Some (le_val (take 4 (drop k (unread s))), advance (k + 4) s)"
  by (simp add: in_uint32_le_def in_bytes_at)

lemma in_uint8a_at [at_simps]:
  "in_wf s \<Longrightarrow> k + n \<le> length (unread s) \<Longrightarrow> in_uint8a n (advance k s) = Some (take n (drop k (unread s)), advance (k + n) s)"
  by (simp add: in_uint8a_def in_bytes_at)

lemma in_uint8s_at [at_simps]: "in_uint8s n (advance k s) = advance (k + n) s"
  by (simp add: in_uint8s_def advance_def)

lemma s_check_rem_at [at_simps]:
  "in_wf s \<Longrightarrow> k \<le> length (unread s) \<Longrightarrow> 0 \<le> n \<Longrightarrow> n < 2 ^ 63 \<Longrightarrow>
     s_check_rem (advance k s) n \<longleftrightarrow> k + nat n \<le> length (unread s)"
  using s_check_rem_wf [OF advance_wf [of s k], of n] by (auto simp: unread_advance)

lemma s_check_end_at [at_simps]:
  "in_wf s \<Longrightarrow> k \<le> length (unread s) \<Longrightarrow> s_check_end (advance k s) \<longleftrightarrow> k = length (unread s)"
  by (auto simp: s_check_end_def length_unread in_wf_def)

lemma s_rem_at [at_simps]:
  "in_wf s \<Longrightarrow> k \<le> length (unread s) \<Longrightarrow> s_rem (advance k s) = int (length (unread s) - k)"
  using s_rem_wf [OF advance_wf [of s k]] by (simp add: unread_advance)

text \<open>Two bytes put together.\<close>

lemma high_or_low: "0 \<le> b \<Longrightarrow> b < 256 \<Longrightarrow> push_bit 8 a OR b = 256 * a + (b :: int)"
proof -
  assume b: "0 \<le> b" "b < 256"
  then have "take_bit 8 b = b" by (simp add: take_bit_eq_mod)
  then have small: "bit b n \<Longrightarrow> n < 8" for n by (metis bit_take_bit_iff)
  have "push_bit 8 a + b = push_bit 8 a OR b"
    by (intro disjunctive_add) (auto simp: bit_push_bit_iff_int dest: small)
  then show ?thesis by (simp add: push_bit_eq_mult)
qed

text \<open>The start of a parser is an advance by nothing.\<close>

lemma advance_0_fold: "s = advance 0 s"
  by simp

text \<open>What a parser may do: move forward inside the unread bytes.\<close>

definition parsed :: "stream \<Rightarrow> stream \<Rightarrow> bool" where
  "parsed s s' \<longleftrightarrow> (\<exists>k \<le> length (unread s). s' = advance k s)"

lemma parsed_refl [simp]: "parsed s s"
  by (auto simp: parsed_def intro: exI [of _ 0])

lemma parsed_advance: "k \<le> length (unread s) \<Longrightarrow> parsed s (advance k s)"
  by (auto simp: parsed_def)

lemma parsed_wf: "in_wf s \<Longrightarrow> parsed s s' \<Longrightarrow> in_wf s'"
  by (auto simp: parsed_def intro: advance_wf)

lemma parsed_trans: "in_wf s \<Longrightarrow> parsed s s' \<Longrightarrow> parsed s' s'' \<Longrightarrow> parsed s s''"
  by (auto simp: parsed_def unread_advance) (metis add_le_imp_le_diff le_add_diff_inverse add.commute add_le_cancel_left)

lemma parsed_fields: "parsed s s' \<Longrightarrow> s_data s' = s_data s \<and> s_end s' = s_end s \<and> s_p s \<le> s_p s'"
  by (auto simp: parsed_def)

end
