(* ===== verification/Iso_Props.thy ===== *)
theory Iso_Props
  imports Xrdp_Iso Stream_At
begin

text \<open>
  The X.224 layer: a data packet survives the way from \<^verbatim>\<open>xrdp_iso_send\<close> through two transports to
  \<^verbatim>\<open>xrdp_iso_recv\<close>, any connection request is handled without leaving the buffer, and the protocol
  selected is the strongest one both sides offer.
\<close>

subsection \<open>Headers\<close>

lemma recv_msg_cases:
  assumes "in_wf s"
  obtains rv code len k where "xrdp_iso_recv_msg s = Some (rv, code, len, advance k s)" "k \<le> length (unread s)"
    "rv = 0 \<longleftrightarrow> 6 \<le> length (unread s) \<and> unread s ! 0 = 3 \<and> unread s ! 4 \<noteq> 255 \<and> (if unread s ! 5 = 0xf0 then 7 else 11) \<le> length (unread s)"
    "rv = 0 \<Longrightarrow> code = uint (unread s ! 5) \<and> len = uint (unread s ! 4) \<and> k = (if unread s ! 5 = 0xf0 then 7 else 11)"
proof -
  have u: "uint (b :: byte) = 3 \<longleftrightarrow> b = 3" "uint b = 255 \<longleftrightarrow> b = 255" "uint b = 0xf0 \<longleftrightarrow> b = 0xf0" for b
    by (simp_all add: word_uint_eq_iff)
  let ?r = "xrdp_iso_recv_msg s"
  have "?r = xrdp_iso_recv_msg (advance 0 s)" by simp
  show thesis
  proof (cases "6 \<le> length (unread s)")
    case False
    then show thesis using assms by (intro that [of 1 0 0 0]) (simp_all add: xrdp_iso_recv_msg_def s_check_rem_wf)
  next
    case True
    have "\<exists>rv code len k. xrdp_iso_recv_msg (advance 0 s) = Some (rv, code, len, advance k s) \<and> k \<le> length (unread s) \<and>
       (rv = 0 \<longleftrightarrow> 6 \<le> length (unread s) \<and> unread s ! 0 = 3 \<and> unread s ! 4 \<noteq> 255 \<and> (if unread s ! 5 = 0xf0 then 7 else 11) \<le> length (unread s)) \<and>
       (rv = 0 \<longrightarrow> code = uint (unread s ! 5) \<and> len = uint (unread s ! 4) \<and> k = (if unread s ! 5 = 0xf0 then 7 else 11))"
      using assms True by (simp add: xrdp_iso_recv_msg_def at_simps u del: advance_simps(1)) (auto intro!: exI [of _ 6])
    then show thesis using that by auto
  qed
qed

definition tpkt :: "byte list \<Rightarrow> byte list" where
  "tpkt payload = [3, 0] @ rev (le_bytes 2 (int (length payload) + 7)) @ [2, 0xf0, 0x80] @ payload"

lemma length_tpkt [simp]: "length (tpkt payload) = length payload + 7"
  by (simp add: tpkt_def)

lemma tpkt_nth: "tpkt payload ! 0 = 3" "tpkt payload ! 4 = 2" "tpkt payload ! 5 = 0xf0" "drop 7 (tpkt payload) = payload"
  by (simp_all add: tpkt_def numeral_2_eq_2)

lemma xrdp_iso_recv_tpkt:
  assumes "in_wf s" "unread s = tpkt payload"
  shows "xrdp_iso_recv s = Some (0, advance 7 s) \<and> unread (advance 7 s) = payload"
proof -
  have u: "xrdp_iso_recv_msg s = Some (0, 0xf0, 2, advance 7 s)"
  proof (rule recv_msg_cases [OF assms(1)])
    fix rv code len k
    assume r: "xrdp_iso_recv_msg s = Some (rv, code, len, advance k s)"
      "rv = 0 \<longleftrightarrow> 6 \<le> length (unread s) \<and> unread s ! 0 = 3 \<and> unread s ! 4 \<noteq> 255 \<and> (if unread s ! 5 = 0xf0 then 7 else 11) \<le> length (unread s)"
      "rv = 0 \<Longrightarrow> code = uint (unread s ! 5) \<and> len = uint (unread s ! 4) \<and> k = (if unread s ! 5 = 0xf0 then 7 else 11)"
    have "rv = 0" using r(2) assms(2) by (simp add: tpkt_nth)
    then show ?thesis using r(1,3) assms(2) by (simp add: tpkt_nth)
  qed
  then show ?thesis using assms by (simp add: xrdp_iso_recv_def unread_advance tpkt_nth)
qed

lemma iso_send_stream_ok:
  assumes s: "s_iso_hdr s + 7 \<le> s_end s" "s_end s \<le> s_size s" "s_iso_hdr s = 0"
  shows "\<exists>s'. iso_send_stream s = Some s' \<and> contents s' = tpkt (drop 7 (contents s)) \<and> s_size s' = s_size s \<and> s_end s' = s_end s"
proof -
  let ?len = "int (s_end s) - int (s_iso_hdr s)"
  let ?h = "[3, 0] @ rev (le_bytes 2 ?len) @ [2, 0xf0, 0x80] :: byte list"
  have len: "length ?h = 7" by simp
  have b: "le_bytes 1 3 = [3]" "le_bytes 1 0 = [0]" "le_bytes 1 2 = [2]" "le_bytes 1 0xf0 = [0xf0]" "le_bytes 1 0x80 = [0x80]" by simp_all
  have "iso_send_stream s = out_bytes ?h (s_pop_layer_iso s)"
    unfolding iso_send_stream_def Let_def out_defs b
    by (simp add: out_merge out_bytes_append [symmetric] del: le_bytes.simps)
  moreover have "\<dots> = Some ((s_pop_layer_iso s)\<lparr>s_data := ?h @ drop 7 (s_data s), s_p := 7\<rparr>)"
    using s len by (simp add: out_bytes_def)
  moreover have "take (s_end s) (?h @ drop 7 (s_data s)) = ?h @ drop 7 (take (s_end s) (s_data s))"
    unfolding take_append len drop_take using s len by (simp del: length_append append.simps)
  ultimately show ?thesis
    using s by (simp add: contents_def tpkt_def)
qed

subsection \<open>From one end to the other\<close>

lemma pdu_bytes_tpkt:
  assumes "take 4 d = take 4 (tpkt payload)" "length payload + 7 < 65536"
  shows "libxrdp_get_pdu_bytes d = Some (int (length payload) + 7)"
proof -
  let ?n = "int (length payload) + 7"
  have le: "le_bytes 2 ?n = [word_of_int ?n, word_of_int (?n div 256)]" by (simp add: numeral_2_eq_2)
  have "take 4 d = [3, 0, word_of_int (?n div 256), word_of_int ?n]"
    using assms(1) le by (simp add: tpkt_def)
  then have "d = 3 # 0 # word_of_int (?n div 256) # word_of_int ?n # drop 4 d"
    by (metis append_Cons append_Nil append_take_drop_id)
  then have d: "list_get d 0 = Some 3" "list_get d 2 = Some (word_of_int (?n div 256))" "list_get d 3 = Some (word_of_int ?n)"
    by (metis list_get_def length_Cons nth_Cons_0 zero_less_Suc, (metis list_get_def length_Cons nth_Cons_0 nth_Cons_Suc numeral_2_eq_2 Suc_less_eq zero_less_Suc), metis list_get_def length_Cons nth_Cons_0 nth_Cons_Suc numeral_3_eq_3 Suc_less_eq zero_less_Suc)
  have small: "0 \<le> ?n div 256" "?n div 256 < 256" using assms(2) by auto
  have u: "uint (word_of_int (?n div 256) :: byte) = ?n div 256" "uint (word_of_int ?n :: byte) = ?n mod 256"
    unfolding uint_word_of_int using small by simp_all
  have "push_bit 8 (?n div 256) OR (?n mod 256) = 256 * (?n div 256) + ?n mod 256"
    by (rule high_or_low) simp_all
  then show ?thesis using d u by (simp add: libxrdp_get_pdu_bytes_def)
qed

lemma force_read_tpkt:
  assumes m: "marked (t_in_s tr)" and r: "libxrdp_force_read junk r1 r2 tr = Some (Some 0, tr')"
    and wire: "contents (t_in_s tr') = take (length (contents (t_in_s tr'))) (tpkt payload @ later)" and len: "length payload + 7 < 65536"
  shows "in_wf (t_in_s tr') \<and> unread (t_in_s tr') = tpkt payload"
proof -
  let ?tr = "tr\<lparr>t_in_s := init_stream junk (32 * 1024) (t_in_s tr)\<rparr>"
  have m0: "marked (t_in_s ?tr)" "contents (t_in_s ?tr) = []" "s_p (t_in_s ?tr) = 0" using m by (auto simp: marked_def contents_def)
  obtain tr1 bytes where one: "trans_force_read r1 4 ?tr = Some (Some 0, tr1)" "libxrdp_get_pdu_bytes (s_data (t_in_s tr1)) = Some bytes"
    "trans_force_read r2 (bytes - 4) tr1 = Some (Some 0, tr')"
    using r by (auto simp: libxrdp_force_read_def Let_def Option.bind_eq_Some_conv split: if_split_asm)
  obtain got1 where g1: "int (length got1) = 4" "contents (t_in_s tr1) = got1" "marked (t_in_s tr1)" "s_p (t_in_s tr1) = 0"
    using trans_force_read_got [OF m0(1) one(1)] m0 by auto
  obtain got2 where g2: "int (length got2) = bytes - 4" "contents (t_in_s tr') = got1 @ got2" "marked (t_in_s tr')" "s_p (t_in_s tr') = 0"
    using trans_force_read_got [OF g1(3) one(3)] g1 by auto
  have "take 4 (s_data (t_in_s tr1)) = got1"
    using g1 marked_length [OF g1(3)] by (simp add: contents_def)
  also have "got1 = take 4 (contents (t_in_s tr'))" using g1(1) g2(2) by simp
  also have "\<dots> = take 4 (take (length (contents (t_in_s tr'))) (tpkt payload @ later))" using wire by simp
  also have "\<dots> = take 4 (tpkt payload)" using g1(1) g2(2) by simp
  finally have "bytes = int (length payload) + 7" using pdu_bytes_tpkt [OF _ len] one(2) by simp
  then have "length (contents (t_in_s tr')) = length (tpkt payload)" using g1(1) g2(1,2) by simp
  then have "contents (t_in_s tr') = tpkt payload" using wire by simp
  then show ?thesis using g2(3,4) by (simp add: unread_contents in_wf_def marked_def)
qed

lemma xrdp_iso_send_ok:
  assumes s0: "s_size s0 < 2 ^ 31" and out: "out_bytes payload (xrdp_iso_init junk s0) = Some s1" and t: "trans_ok t"
    and sent: "xrdp_iso_send junk answers a (s_mark_end s1) t = Some (Some 0, taken, s', t')"
  shows "queued t @ tpkt payload = taken @ queued t'"
proof -
  let ?s = "s_mark_end s1"
  have s: "s_iso_hdr ?s = 0" "s_end ?s = 7 + length payload" "s_end ?s \<le> s_size ?s" "s_size ?s < 2 ^ 31" "drop 7 (contents ?s) = payload"
    using s0 out by (auto simp: xrdp_iso_init_def out_bytes_def contents_def split: if_split_asm)
  obtain s2 where s2: "iso_send_stream ?s = Some s2" "contents s2 = tpkt payload" "s_size s2 = s_size ?s" "s_end s2 = s_end ?s"
    using iso_send_stream_ok [of ?s] s by auto
  have m: "marked s2" using s s2 by (simp add: marked_def)
  obtain rv where rv: "trans_write_copy_s junk answers a s2 t = Some (rv, taken, t')" "map_option (\<lambda>v. if v \<noteq> 0 then 1 else 0 :: int) rv = Some 0"
    using sent s2(1) by (auto simp: xrdp_iso_send_def Option.bind_eq_Some_conv)
  then have "rv = Some 0" by (auto split: if_split_asm)
  then show ?thesis using write_copy_ok [OF t m, of junk answers a] rv(1) s2(2) by auto
qed

text \<open>
  C15. A data packet arrives as it was sent: the bytes \<^verbatim>\<open>xrdp_iso_send\<close> hands over for a payload
  follow what was waiting before, and a peer that gets them at the front of its input, in pieces of
  any size, reads exactly this packet and finds exactly the payload behind its header.
\<close>

theorem iso_end_to_end:
  assumes "s_size s0 < 2 ^ 31" and "out_bytes payload (xrdp_iso_init junk s0) = Some s1" and "length payload + 7 < 65536"
    and "trans_ok t" and "xrdp_iso_send junk answers a (s_mark_end s1) t = Some (Some 0, taken, s', t')"
  shows "\<exists>packet. queued t @ packet = taken @ queued t' \<and>
     (\<forall>tr junk' r1 r2 tr' later. marked (t_in_s tr) \<and> libxrdp_force_read junk' r1 r2 tr = Some (Some 0, tr') \<and>
        contents (t_in_s tr') = take (length (contents (t_in_s tr'))) (packet @ later) \<longrightarrow>
        (\<exists>s. xrdp_iso_recv (t_in_s tr') = Some (0, s) \<and> unread s = payload))"
  using xrdp_iso_send_ok [OF assms(1,2,4,5)] force_read_tpkt [OF _ _ _ assms(3)] xrdp_iso_recv_tpkt
  by (intro exI [of _ "tpkt payload"]) blast

subsection \<open>Negotiation\<close>

definition offered :: "iso_config \<Rightarrow> int \<Rightarrow> bool" where
  "offered cfg p \<longleftrightarrow>
     p = PROTOCOL_SSL \<and> security_layer cfg \<noteq> SECURITY_LAYER_RDP \<and> (certificate_readable cfg \<and> key_file_readable cfg \<or> vmconnect cfg) \<or>
     (p = PROTOCOL_HYBRID \<or> p = PROTOCOL_HYBRID_EX) \<and> vmconnect cfg"

lemma and_bits: "(x :: int) AND 1 = 0 \<longleftrightarrow> \<not> bit x 0" "x AND 2 = 0 \<longleftrightarrow> \<not> bit x 1" "x AND 8 = 0 \<longleftrightarrow> \<not> bit x 3"
  using and_exp_eq_0_iff_not_bit [of x 0] and_exp_eq_0_iff_not_bit [of x 1] and_exp_eq_0_iff_not_bit [of x 3] by simp_all

lemma mask_bits: "bit (8 :: int) 0 = False" "bit (8 :: int) 1 = False" "bit (8 :: int) 3 = True" "bit (10 :: int) 0 = False" "bit (10 :: int) 1 = True"
  "bit (10 :: int) 3 = True" "bit (11 :: int) 0 = True" "bit (11 :: int) 1 = True" "bit (11 :: int) 3 = True" "bit (1 :: int) 0 = True"
  "bit (1 :: int) 1 = False" "bit (1 :: int) 3 = False"
  by (simp_all add: bit_iff_odd)

text \<open>
  C16. Security is negotiated exactly: it succeeds if and only if the client asked for a protocol
  the server offers, or classic RDP security is acceptable (TLS is not demanded and the machine is
  not in FIPS mode); then the protocol selected is the strongest of those asked for and offered,
  classic RDP security only if there is none. A failure is reported with a reason, and success
  leaves none behind.
\<close>

theorem iso_negotiation_exact:
  assumes "xrdp_iso_negotiate_security cfg self = (rv, self')"
  shows "(rv = 0 \<longleftrightarrow> (\<exists>p. offered cfg p \<and> requestedProtocol self AND p \<noteq> 0) \<or>
                    security_layer cfg \<noteq> SECURITY_LAYER_TLS \<and> \<not> fips_mode cfg) \<and>
     (rv = 0 \<longrightarrow> failureCode self' = failureCode self \<and>
        (\<forall>p. offered cfg p \<and> requestedProtocol self AND p \<noteq> 0 \<longrightarrow> p \<le> selectedProtocol self') \<and>
        (selectedProtocol self' = PROTOCOL_RDP \<or>
         offered cfg (selectedProtocol self') \<and> requestedProtocol self AND selectedProtocol self' \<noteq> 0)) \<and>
     (rv \<noteq> 0 \<longrightarrow> failureCode self' \<noteq> 0 \<and> selectedProtocol self' = selectedProtocol self)"
proof -
  let ?r = "requestedProtocol self"
  have ex: "(\<exists>p. offered cfg p \<and> P p) \<longleftrightarrow> offered cfg 1 \<and> P 1 \<or> offered cfg 2 \<and> P 2 \<or> offered cfg 8 \<and> P 8" for P
    by (auto simp: offered_def)
  have all: "(\<forall>p. offered cfg p \<and> P p \<longrightarrow> Q p) \<longleftrightarrow> (offered cfg 1 \<and> P 1 \<longrightarrow> Q 1) \<and> (offered cfg 2 \<and> P 2 \<longrightarrow> Q 2) \<and> (offered cfg 8 \<and> P 8 \<longrightarrow> Q 8)" for P Q
    by (auto simp: offered_def)
  show ?thesis
    using assms unfolding ex all
    by (cases "vmconnect cfg"; cases "bit ?r 0"; cases "bit ?r 1"; cases "bit ?r 3")
      (auto simp: xrdp_iso_negotiate_security_def Let_def and_bits bit_and_iff mask_bits offered_def split: if_split_asm)
qed

subsection \<open>Connection requests\<close>

lemma in_uint8_ok: "in_wf s \<Longrightarrow> s_check_rem s 1 \<Longrightarrow> \<exists>v. in_uint8 s = Some (v, advance 1 s) \<and> in_wf (advance 1 s) \<and> parsed s (advance 1 s)"
  using in_uint8_at [of s 0] by (auto simp: s_check_rem_wf intro: advance_wf parsed_advance)

lemma skip_cookie_ok: "in_wf s \<Longrightarrow> \<exists>s'. skip_cookie s = Some s' \<and> parsed s s'"
proof (induction s rule: skip_cookie.induct)
  case (1 s)
  show ?case
  proof (cases "s_check_rem s 1")
    case False
    then show ?thesis by (subst skip_cookie.simps) simp
  next
    case True
    obtain v where v: "in_uint8 s = Some (v, advance 1 s)" "in_wf (advance 1 s)" "parsed s (advance 1 s)"
      using in_uint8_ok [OF "1.prems" True] by blast
    show ?thesis
    proof (cases "v = 0x0D \<and> s_check_rem (advance 1 s) 1")
      case False
      obtain s' where "skip_cookie (advance 1 s) = Some s'" "parsed (advance 1 s) s'"
        using "1.IH"(2) [OF True v(1) refl False v(2)] by blast
      then show ?thesis
        using True v(1) False parsed_trans [OF "1.prems" v(3)] by (subst skip_cookie.simps) auto
    next
      case cr: True
      obtain w where w: "in_uint8 (advance 1 s) = Some (w, advance 1 (advance 1 s))" "in_wf (advance 1 (advance 1 s))"
        "parsed (advance 1 s) (advance 1 (advance 1 s))"
        using in_uint8_ok [OF v(2)] cr by blast
      have p: "parsed s (advance 1 (advance 1 s))" by (rule parsed_trans [OF "1.prems" v(3) w(3)])
      show ?thesis
      proof (cases "w = 0x0A")
        case True
        then show ?thesis using \<open>s_check_rem s 1\<close> v(1) cr w(1) p by (subst skip_cookie.simps) auto
      next
        case False
        obtain s' where "skip_cookie (advance 1 (advance 1 s)) = Some s'" "parsed (advance 1 (advance 1 s)) s'"
          using "1.IH"(1) [OF True v(1) refl cr w(1) refl False w(2)] by blast
        then show ?thesis
          using True v(1) cr w(1) False parsed_trans [OF "1.prems" p] by (subst skip_cookie.simps) auto
      qed
    qed
  qed
qed

lemma neg_req_ok:
  assumes "in_wf s"
  shows "\<exists>rv self' s'. xrdp_iso_process_rdp_neg_req self s = Some (rv, self', s') \<and> parsed s s' \<and>
     self' = self\<lparr>requestedProtocol := requestedProtocol self'\<rparr>"
proof (cases "7 \<le> length (unread s)")
  case False
  then show ?thesis using assms by (simp add: xrdp_iso_process_rdp_neg_req_def s_check_rem_wf)
next
  case True
  have "\<exists>rv self' s'. xrdp_iso_process_rdp_neg_req self (advance 0 s) = Some (rv, self', s') \<and> parsed s s' \<and>
     self' = self\<lparr>requestedProtocol := requestedProtocol self'\<rparr>"
    using assms True by (simp add: xrdp_iso_process_rdp_neg_req_def at_simps Let_def parsed_advance del: advance_simps(1))
  then show ?thesis by simp
qed

lemma incoming_loop_ok:
  "in_wf s \<Longrightarrow> \<exists>rv self' s'. incoming_loop self s = Some (rv, self', s') \<and> parsed s s' \<and> rv \<in> {0, 1} \<and>
     failureCode self' = failureCode self"
proof (induction self s rule: incoming_loop.induct)
  case (1 self s)
  show ?case
  proof (cases "s_check_rem s 1")
    case False
    then show ?thesis by (subst incoming_loop.simps) simp
  next
    case True
    obtain v where v: "in_uint8 s = Some (v, advance 1 s)" "in_wf (advance 1 s)" "parsed s (advance 1 s)"
      using in_uint8_ok [OF "1.prems" True] by blast
    let ?s = "advance 1 s"
    have go_on: ?thesis
      if "incoming_loop self s = incoming_loop self' s2" "parsed ?s s2" "failureCode self' = failureCode self"
        "in_wf s2 \<Longrightarrow> \<exists>rv self'' s'. incoming_loop self' s2 = Some (rv, self'', s') \<and> parsed s2 s' \<and> rv \<in> {0, 1} \<and> failureCode self'' = failureCode self'"
      for self' s2
      using that parsed_wf [OF v(2) that(2)] parsed_trans [OF "1.prems" parsed_trans [OF "1.prems" v(3) that(2)]] by auto
    consider (neg) "v = 1" | (corr) "v = 6" | (cookie) "v = 0x43" | (other) "v \<noteq> 1" "v \<noteq> 6" "v \<noteq> 0x43" by blast
    then show ?thesis
    proof cases
      case neg
      obtain rv self' s2 where n: "xrdp_iso_process_rdp_neg_req (self\<lparr>rdpNegData := True\<rparr>) ?s = Some (rv, self', s2)" "parsed ?s s2"
        "self' = self\<lparr>rdpNegData := True, requestedProtocol := requestedProtocol self'\<rparr>"
        using neg_req_ok [OF v(2), of "self\<lparr>rdpNegData := True\<rparr>"] by blast
      have f: "failureCode self' = failureCode self" by (subst n(3)) simp
      show ?thesis
      proof (cases "rv = 0")
        case True
        then have "incoming_loop self s = incoming_loop self' s2"
          using \<open>s_check_rem s 1\<close> v(1) neg n(1) by (subst incoming_loop.simps) simp
        then show ?thesis using "1.IH"(1) [OF \<open>s_check_rem s 1\<close> v(1) refl neg n(1) refl refl] True n(2) f by (intro go_on [of self' s2]) auto
      next
        case False
        then have "incoming_loop self s = Some (1, self', s2)"
          using \<open>s_check_rem s 1\<close> v(1) neg n(1) by (subst incoming_loop.simps) simp
        then show ?thesis using parsed_trans [OF "1.prems" v(3) n(2)] f by simp
      qed
    next
      case corr
      show ?thesis
      proof (cases "s_check_rem ?s (1 + 2 + 16 + 16)")
        case True
        have a: "parsed ?s (in_uint8s (1 + 2 + 16 + 16) ?s)"
          using True s_check_rem_wf [OF v(2), of "1 + 2 + 16 + 16"] parsed_advance [of 35 ?s]
          by (simp add: in_uint8s_def advance_def)
        have "incoming_loop self s = incoming_loop self (in_uint8s (1 + 2 + 16 + 16) ?s)"
          using \<open>s_check_rem s 1\<close> v(1) corr True by (subst incoming_loop.simps) simp
        then show ?thesis
          using "1.IH"(2) [OF \<open>s_check_rem s 1\<close> v(1) refl _ corr] corr True a by (intro go_on [of self "in_uint8s (1 + 2 + 16 + 16) ?s"]) simp_all
      next
        case False
        then have "incoming_loop self s = Some (1, self, ?s)"
          using \<open>s_check_rem s 1\<close> v(1) corr by (subst incoming_loop.simps) simp
        then show ?thesis using v(3) by simp
      qed
    next
      case cookie
      obtain s2 where c: "skip_cookie ?s = Some s2" "parsed ?s s2" using skip_cookie_ok [OF v(2)] by blast
      have "incoming_loop self s = incoming_loop self s2"
        using \<open>s_check_rem s 1\<close> v(1) cookie c(1) by (subst incoming_loop.simps) simp
      then show ?thesis
        using "1.IH"(3) [OF \<open>s_check_rem s 1\<close> v(1) refl _ _ cookie c(1)] cookie c(2) by (intro go_on [of self s2]) simp_all
    next
      case other
      have "incoming_loop self s = incoming_loop self ?s"
        using \<open>s_check_rem s 1\<close> v(1) other by (subst incoming_loop.simps) simp
      then show ?thesis using "1.IH"(4) [OF \<open>s_check_rem s 1\<close> v(1) refl other] by (intro go_on [of self ?s]) simp_all
    qed
  qed
qed

text \<open>The connection confirm, byte by byte.\<close>

definition cc_bytes :: "iso_config \<Rightarrow> xrdp_iso \<Rightarrow> byte list" where
  "cc_bytes cfg self =
     (let neg = (if rdpNegData self
                 then if failureCode self \<noteq> 0 then [3, 0, 8, 0] @ le_bytes 4 (failureCode self)
                      else [2, if vmconnect cfg then 9 else 1, 8, 0] @ le_bytes 4 (selectedProtocol self)
                 else [])
      in [3, 0, 0, of_nat (11 + length neg), of_nat (6 + length neg), 0xd0, 0, 0, 0x12, 0x34, 0] @ neg)"

lemma cc_stream_ok: "\<exists>s. cc_stream junk cfg self = Some s \<and> contents s = cc_bytes cfg self \<and> marked s"
proof -
  have le: "le_bytes 1 v = [word_of_int v]" "le_bytes 2 v = [word_of_int v, word_of_int (v div 256)]" for v
    by (simp_all add: numeral_2_eq_2)
  have flags: "(1 :: int) OR 8 = 9" by simp
  let ?s0 = "init_stream junk 8192 make_stream"
  have s0: "s_p ?s0 = 0" "s_size ?s0 = 8192" by (simp_all add: make_stream_def)
  show ?thesis
    using s0
    by (cases "rdpNegData self"; cases "failureCode self = 0")
      (simp_all add: cc_stream_def cc_bytes_def Let_def out_defs le flags out_bytes_def poke_def list_set_def contents_def marked_def
        list_update_append nth_append)
qed


lemma trans_ok_input [simp]: "trans_ok (tr\<lparr>t_in_s := s\<rparr>) = trans_ok tr" "trans_ok (tr\<lparr>t_status := st\<rparr>) = trans_ok tr"
  "queued (tr\<lparr>t_in_s := s\<rparr>) = queued tr"
  by (simp_all add: trans_ok_def queued_def)

lemma trans_force_read_keeps:
  assumes "marked (t_in_s t)" "trans_force_read answers n t = Some (rv, t')"
  shows "marked (t_in_s t') \<and> s_p (t_in_s t') = s_p (t_in_s t) \<and> trans_ok t' = trans_ok t \<and> queued t' = queued t"
proof -
  have "marked (t_in_s t')" "s_p (t_in_s t') = s_p (t_in_s t)" and q: "t' = t\<lparr>t_in_s := t_in_s t', t_status := t_status t'\<rparr>"
    using trans_force_read_ok [OF assms(1), of answers n] assms(2) by auto
  moreover have "trans_ok t' = trans_ok t" "queued t' = queued t" by (subst q; simp add: trans_ok_def queued_def)+
  ultimately show ?thesis by simp
qed

lemma get_pdu_bytes_ok: "4 \<le> length d \<Longrightarrow> \<exists>n. libxrdp_get_pdu_bytes d = Some n"
  by (auto simp: libxrdp_get_pdu_bytes_def list_get_def)

lemma force_read_pdu_ok:
  assumes "marked (t_in_s tr)"
  shows "\<exists>rv tr'. libxrdp_force_read junk r1 r2 tr = Some (rv, tr') \<and> in_wf (t_in_s tr') \<and> trans_ok tr' = trans_ok tr \<and> queued tr' = queued tr"
proof -
  let ?tr = "tr\<lparr>t_in_s := init_stream junk (32 * 1024) (t_in_s tr)\<rparr>"
  have m: "marked (t_in_s ?tr)" "s_p (t_in_s ?tr) = 0" "trans_ok ?tr = trans_ok tr" "queued ?tr = queued tr" using assms by (auto simp: marked_def)
  have wf: "marked s \<Longrightarrow> s_p s = 0 \<Longrightarrow> in_wf s" for s by (simp add: in_wf_def marked_def)
  obtain rv1 tr1 where one: "trans_force_read r1 4 ?tr = Some (rv1, tr1)"
    using trans_force_read_ok [OF m(1), of r1 4] by blast
  note k1 = trans_force_read_keeps [OF m(1) one]
  show ?thesis
  proof (cases "rv1 = Some 0")
    case False
    then show ?thesis using one k1 m wf by (simp add: libxrdp_force_read_def Let_def)
  next
    case True
    have "4 \<le> length (s_data (t_in_s tr1))"
      using trans_force_read_got [OF m(1), of r1 4 tr1] one True by (auto simp: contents_def)
    then obtain n where n: "libxrdp_get_pdu_bytes (s_data (t_in_s tr1)) = Some n" using get_pdu_bytes_ok by blast
    obtain rv2 tr2 where two: "trans_force_read r2 (n - 4) tr1 = Some (rv2, tr2)"
      using trans_force_read_ok k1 by blast
    note k2 = trans_force_read_keeps [OF _ two]
    show ?thesis using one True n two k1 k2 m wf by (auto simp: libxrdp_force_read_def Let_def)
  qed
qed

lemma negotiate_success: "xrdp_iso_negotiate_security cfg self = (0, self') \<Longrightarrow> failureCode self' = failureCode self"
  by (auto simp: xrdp_iso_negotiate_security_def Let_def split: if_split_asm)

lemma send_cc_ok:
  assumes "trans_ok tr"
  shows "\<exists>rv taken tr'. xrdp_iso_send_cc junk cfg answers a self tr = Some (rv, taken, tr') \<and> trans_ok tr' \<and>
     queued tr @ (if rv = Some 0 then cc_bytes cfg self else []) = taken @ queued tr'"
proof -
  obtain s where s: "cc_stream junk cfg self = Some s" "contents s = cc_bytes cfg self" "marked s" using cc_stream_ok by blast
  obtain rv taken tr' where w: "trans_write_copy_s junk answers a s tr = Some (rv, taken, tr')" "accounted (tr\<lparr>t_status := t_status tr'\<rparr>) tr'"
    "queued tr @ (if rv = Some 0 then contents s else []) = taken @ queued tr'"
    using write_copy_ok [OF assms s(3)] by blast
  then show ?thesis using s accountedD(1) [OF w(2)] by (auto simp: xrdp_iso_send_cc_def)
qed

text \<open>
  C17. Any connection request is handled without an access outside a buffer, whatever the peer sent
  and however it was cut up. If the request is accepted, no failure is recorded and the confirm is
  handed to the transport complete, behind what was waiting; if it is refused for its security
  protocol, the transport gets the refusal with its reason or nothing.
\<close>

theorem iso_incoming_correct:
  assumes "trans_ok tr" and "marked (t_in_s tr)" and "failureCode self = 0"
  shows "\<exists>rv self' taken tr' sent. xrdp_iso_incoming junk cfg r1 r2 answers a self tr = Some (rv, self', taken, tr') \<and> trans_ok tr' \<and>
     queued tr @ sent = taken @ queued tr' \<and> (sent = [] \<or> sent = cc_bytes cfg self') \<and>
     (rv = Some 0 \<longrightarrow> sent = cc_bytes cfg self' \<and> failureCode self' = 0)"
proof -
  obtain rv1 tr1 where one: "libxrdp_force_read junk r1 r2 tr = Some (rv1, tr1)" "in_wf (t_in_s tr1)" "trans_ok tr1" "queued tr1 = queued tr"
    using force_read_pdu_ok [OF assms(2), of junk r1 r2] assms(1) by auto
  let ?s = "t_in_s tr1"
  obtain rv2 code len k where msg: "xrdp_iso_recv_msg ?s = Some (rv2, code, len, advance k ?s)" "k \<le> length (unread ?s)"
    by (rule recv_msg_cases [OF one(2)]) blast
  let ?s2 = "advance k ?s"
  show ?thesis
  proof (cases "rv1 = Some 0 \<and> rv2 = 0 \<and> code = ISO_PDU_CR \<and> len = c_int (int (s_end ?s2) - int (s_p ?s2) + 6)")
    case False
    then show ?thesis using one msg by (auto simp: xrdp_iso_incoming_def Let_def)
  next
    case True
    then have go: "rv1 = Some 0" "rv2 = 0" "code = ISO_PDU_CR" "len = c_int (int (s_end ?s2) - int (s_p ?s2) + 6)" by simp_all
    obtain rv3 self3 s3 where loop: "incoming_loop self ?s2 = Some (rv3, self3, s3)" "failureCode self3 = 0"
      using incoming_loop_ok [OF advance_wf [OF one(2) msg(2)], of self] assms(3) by auto
    obtain rv4 self4 where neg: "xrdp_iso_negotiate_security cfg self3 = (rv4, self4)" by (cases "xrdp_iso_negotiate_security cfg self3")
    obtain rv5 taken tr5 where cc: "xrdp_iso_send_cc junk cfg answers a self4 (tr1\<lparr>t_in_s := s3\<rparr>) = Some (rv5, taken, tr5)" "trans_ok tr5"
      "queued tr1 @ (if rv5 = Some 0 then cc_bytes cfg self4 else []) = taken @ queued tr5"
      using send_cc_ok [of "tr1\<lparr>t_in_s := s3\<rparr>" junk cfg answers a self4] one(3) by auto
    have step: "xrdp_iso_incoming junk cfg r1 r2 answers a self tr =
        (if rv3 \<noteq> 0 then Some (Some 1, self3, [], tr1\<lparr>t_in_s := s3\<rparr>)
         else Some (case rv5 of None \<Rightarrow> None | Some v \<Rightarrow> if v \<noteq> 0 then Some 1 else Some rv4, self4, taken, tr5))"
      using one(1) msg(1) go loop(1) neg cc(1) by (simp add: xrdp_iso_incoming_def Let_def)
    have f: "rv4 = 0 \<Longrightarrow> failureCode self4 = 0" using negotiate_success [of cfg self3 self4] neg loop(2) by simp
    show ?thesis
      unfolding step using cc one(3,4) f
      by (cases "rv3 = 0"; cases "rv5 = Some 0") (auto split: option.split)
  qed
qed

subsection \<open>Witnesses\<close>

lemma write_at_once:
  assumes "t_status t = TRANS_STATUS_UP" "t_wait_s t = []" "contents s \<noteq> []"
  shows "trans_write_copy_s junk [] \<lparr>a_can = True, a_sent = int (length (contents s)), a_would_block = False, a_term = False\<rparr> s t =
     Some (Some 0, contents s, t)"
  using assms by (simp add: trans_write_copy_s_def trans_send_waiting.simps send_new_def trans_send_def Let_def)

lemma iso_end_to_end_witness:
  "\<exists>s1 t s' t' packet taken.
     xrdp_iso_send (\<lambda>_. 0) [] \<lparr>a_can = True, a_sent = 10, a_would_block = False, a_term = False\<rparr> s1 (t :: unit trans) = Some (Some 0, taken, s', t') \<and>
     queued t @ packet = taken @ queued t' \<and>
     (\<forall>(tr :: unit trans) junk' r1 r2 tr' later. marked (t_in_s tr) \<and> libxrdp_force_read junk' r1 r2 tr = Some (Some 0, tr') \<and>
        contents (t_in_s tr') = take (length (contents (t_in_s tr'))) (packet @ later) \<longrightarrow>
        (\<exists>s. xrdp_iso_recv (t_in_s tr') = Some (0, s) \<and> unread s = [10, 20, 30]))"
proof -
  let ?t = "ex_trans\<lparr>t_wait_s := []\<rparr>"
  let ?a = "\<lparr>a_can = True, a_sent = 10, a_would_block = False, a_term = False\<rparr>"
  have ok: "trans_ok ?t" "t_status ?t = TRANS_STATUS_UP" "t_wait_s ?t = []"
    by (auto simp: trans_ok_def ex_trans_def trans_create_def si_ok_def)
  have s0: "s_size make_stream < 2 ^ 31" by (simp add: make_stream_def)
  have init: "s_p (xrdp_iso_init (\<lambda>_. 0) make_stream) = 7" "s_size (xrdp_iso_init (\<lambda>_. 0) make_stream) = 32768"
    by (simp_all add: xrdp_iso_init_def make_stream_def)
  obtain s1 where s1: "out_bytes [10, 20, 30] (xrdp_iso_init (\<lambda>_. 0) make_stream) = Some s1" using init by (simp add: out_bytes_def)
  have e: "s_iso_hdr (s_mark_end s1) = 0" "s_end (s_mark_end s1) = 10" "s_size (s_mark_end s1) = 32768" "drop 7 (contents (s_mark_end s1)) = [10, 20, 30]"
    using s1 init s0 by (auto simp: xrdp_iso_init_def out_bytes_def contents_def split: if_split_asm)
  obtain s2 where s2: "iso_send_stream (s_mark_end s1) = Some s2" "contents s2 = tpkt [10, 20, 30]"
    using iso_send_stream_ok [of "s_mark_end s1"] e by auto
  have ten: "int (length (contents s2)) = 10" "contents s2 \<noteq> []" by (simp_all add: s2(2) tpkt_def)
  have sent: "xrdp_iso_send (\<lambda>_. 0) [] ?a (s_mark_end s1) ?t = Some (Some 0, contents s2, s2, ?t)"
    using write_at_once [OF ok(2,3) ten(2), of "\<lambda>_. 0"] ten(1) s2(1) by (simp add: xrdp_iso_send_def)
  have "length [10, 20, 30 :: byte] + 7 < 65536" by simp
  from iso_end_to_end [OF s0 s1 this ok(1) sent, where ?'b = unit] show ?thesis
    using sent by blast
qed

lemma iso_negotiation_exact_witness:
  "\<exists>rv self'. xrdp_iso_negotiate_security \<lparr>security_layer = SECURITY_LAYER_TLS, vmconnect = False, certificate_readable = True, key_file_readable = True, fips_mode = False\<rparr>
     \<lparr>rdpNegData = True, requestedProtocol = 3, selectedProtocol = 0, failureCode = 0\<rparr> = (rv, self') \<and> rv = 0 \<and> selectedProtocol self' = PROTOCOL_SSL"
proof -
  let ?cfg = "\<lparr>security_layer = SECURITY_LAYER_TLS, vmconnect = False, certificate_readable = True, key_file_readable = True, fips_mode = False\<rparr>"
  let ?self = "\<lparr>rdpNegData = True, requestedProtocol = 3, selectedProtocol = 0, failureCode = 0\<rparr>"
  obtain rv self' where r: "xrdp_iso_negotiate_security ?cfg ?self = (rv, self')" by (cases "xrdp_iso_negotiate_security ?cfg ?self")
  have "offered ?cfg PROTOCOL_SSL" "requestedProtocol ?self AND PROTOCOL_SSL \<noteq> 0" by (simp_all add: offered_def)
  then have rv: "rv = 0" "PROTOCOL_SSL \<le> selectedProtocol self'" using iso_negotiation_exact [OF r] by blast+
  then have "offered ?cfg (selectedProtocol self')" using iso_negotiation_exact [OF r] by auto
  then have "selectedProtocol self' = PROTOCOL_SSL" by (simp add: offered_def)
  then show ?thesis using r rv by blast
qed

lemma iso_incoming_correct_witness:
  "\<exists>rv self' taken tr' sent. xrdp_iso_incoming (\<lambda>_. 0)
       \<lparr>security_layer = SECURITY_LAYER_TLS, vmconnect = False, certificate_readable = True, key_file_readable = True, fips_mode = False\<rparr>
       [\<lparr>r_can = True, r_fail = False, r_data = [3, 0, 0, 11], r_would_block = False, r_term = False\<rparr>]
       [\<lparr>r_can = True, r_fail = False, r_data = [6, 0xe0, 0, 0, 0, 0, 0], r_would_block = False, r_term = False\<rparr>]
       [] \<lparr>a_can = True, a_sent = 11, a_would_block = False, a_term = False\<rparr>
       \<lparr>rdpNegData = False, requestedProtocol = 0, selectedProtocol = 0, failureCode = 0\<rparr> ex_trans = Some (rv, self', taken, tr') \<and>
     [2, 3] @ sent = taken @ queued tr'"
proof -
  have ok: "trans_ok ex_trans" by (auto simp: trans_ok_def ex_trans_def trans_create_def wait_ok_def in_wf_def unread_def si_ok_def)
  have q: "queued ex_trans = [2, 3]" by (simp add: queued_def ex_trans_def unread_def trans_create_def)
  have m: "marked (t_in_s ex_trans)" by (simp add: ex_trans_def trans_create_def marked_def make_stream_def)
  let ?cfg = "\<lparr>security_layer = SECURITY_LAYER_TLS, vmconnect = False, certificate_readable = True, key_file_readable = True, fips_mode = False\<rparr>"
  let ?r1 = "[\<lparr>r_can = True, r_fail = False, r_data = [3, 0, 0, 11], r_would_block = False, r_term = False\<rparr>]"
  let ?r2 = "[\<lparr>r_can = True, r_fail = False, r_data = [6, 0xe0, 0, 0, 0, 0, 0], r_would_block = False, r_term = False\<rparr>]"
  let ?a = "\<lparr>a_can = True, a_sent = 11, a_would_block = False, a_term = False\<rparr>"
  have f: "failureCode \<lparr>rdpNegData = False, requestedProtocol = 0, selectedProtocol = 0, failureCode = 0\<rparr> = 0" by simp
  show ?thesis
    using iso_incoming_correct [OF ok m f, of "\<lambda>_. 0" ?cfg ?r1 ?r2 "[]" ?a] unfolding q by (elim exE conjE) (intro exI conjI)
qed

end
