(* ===== verification/Xrdp_Mcs.thy ===== *)
theory Xrdp_Mcs
  imports Iso_Props
begin

text \<open>
  \<^verbatim>\<open>libxrdp/xrdp_mcs.c\<close>: the Multipoint Communication Service layer. Connect-Initial and the domain
  PDUs of the connection sequence, BER headers, the server's GCC data, and the data PDUs of a running
  connection. The stream an operation receives is the transport's input stream. An operation that
  reads and writes over the transport takes the answers of the socket and returns the bytes taken.
\<close>

abbreviation (input) MCS_EDRQ :: int where "MCS_EDRQ \<equiv> 1"
abbreviation (input) MCS_DPUM :: int where "MCS_DPUM \<equiv> 8"
abbreviation (input) MCS_AURQ :: int where "MCS_AURQ \<equiv> 10"
abbreviation (input) MCS_AUCF :: int where "MCS_AUCF \<equiv> 11"
abbreviation (input) MCS_CJRQ :: int where "MCS_CJRQ \<equiv> 14"
abbreviation (input) MCS_CJCF :: int where "MCS_CJCF \<equiv> 15"
abbreviation (input) MCS_SDRQ :: int where "MCS_SDRQ \<equiv> 25"
abbreviation (input) MCS_SDIN :: int where "MCS_SDIN \<equiv> 26"
abbreviation (input) MCS_CONNECT_INITIAL :: int where "MCS_CONNECT_INITIAL \<equiv> 0x7f65"
abbreviation (input) MCS_CONNECT_RESPONSE :: int where "MCS_CONNECT_RESPONSE \<equiv> 0x7f66"
abbreviation (input) BER_TAG_BOOLEAN :: int where "BER_TAG_BOOLEAN \<equiv> 1"
abbreviation (input) BER_TAG_INTEGER :: int where "BER_TAG_INTEGER \<equiv> 2"
abbreviation (input) BER_TAG_OCTET_STRING :: int where "BER_TAG_OCTET_STRING \<equiv> 4"
abbreviation (input) BER_TAG_RESULT :: int where "BER_TAG_RESULT \<equiv> 10"
abbreviation (input) MCS_TAG_DOMAIN_PARAMS :: int where "MCS_TAG_DOMAIN_PARAMS \<equiv> 0x30"
abbreviation (input) MCS_GLOBAL_CHANNEL :: int where "MCS_GLOBAL_CHANNEL \<equiv> 1003"
abbreviation (input) SEC_TAG_SRV_INFO :: int where "SEC_TAG_SRV_INFO \<equiv> 0x0c01"
abbreviation (input) SEC_TAG_SRV_CRYPT :: int where "SEC_TAG_SRV_CRYPT \<equiv> 0x0c02"
abbreviation (input) SEC_TAG_SRV_CHANNELS :: int where "SEC_TAG_SRV_CHANNELS \<equiv> 0x0c03"
abbreviation (input) SEC_TAG_PUBKEY :: int where "SEC_TAG_PUBKEY \<equiv> 6"
abbreviation (input) SEC_TAG_KEYSIG :: int where "SEC_TAG_KEYSIG \<equiv> 8"
abbreviation (input) SEC_RSA_MAGIC :: int where "SEC_RSA_MAGIC \<equiv> 0x31415352"

record mcs_channel_item =
  ch_name :: "byte list"
  ch_flags :: int
  ch_chanid :: int
  ch_disabled :: bool

record xrdp_mcs =
  m_userid :: int
  m_chanid :: int
  m_client_mcs_data :: stream
  m_server_mcs_data :: stream
  m_channel_list :: "mcs_channel_item list"
  m_expecting_channel_join_requests :: bool

definition xrdp_mcs_create :: "stream \<Rightarrow> stream \<Rightarrow> xrdp_mcs" where
  "xrdp_mcs_create client_mcs_data server_mcs_data =
     \<lparr>m_userid = 1, m_chanid = 1001, m_client_mcs_data = client_mcs_data, m_server_mcs_data = server_mcs_data,
      m_channel_list = [], m_expecting_channel_join_requests = False\<rparr>"

text \<open>The keys of \<^verbatim>\<open>struct xrdp_sec\<close> that the server's GCC data shows to the client.\<close>

record sec_keys =
  rsa_key_bytes :: int
  crypt_method :: int
  crypt_level :: int
  server_random :: "byte list"
  pub_exp :: "byte list"
  pub_mod :: "byte list"
  pub_sig :: "byte list"

text \<open>The answers of the socket to one read of a PDU and to one write.\<close>

record socket_answers =
  read_header :: "recv_attempt list"
  read_body :: "recv_attempt list"
  write_waiting :: "attempt list"
  write_new :: attempt

subsection \<open>BER\<close>

fun ber_long_length :: "nat \<Rightarrow> int \<Rightarrow> stream \<Rightarrow> (int \<times> int \<times> stream) option" where
  "ber_long_length 0 len s = Some (0, len, s)"
| "ber_long_length (Suc l) len s =
     (if \<not> s_check_rem s 1 then Some (1, len, s)
      else do { (i, s) \<leftarrow> in_uint8 s; ber_long_length l (c_int (push_bit 8 len OR i)) s })"

definition xrdp_mcs_ber_parse_header :: "int \<Rightarrow> stream \<Rightarrow> (int \<times> int \<times> stream) option" where
  "xrdp_mcs_ber_parse_header tag_val s =
     (let n = (if tag_val > 0xff then 2 else 1)
      in if \<not> s_check_rem s n then Some (1, 0, s)
         else do { (tag, s) \<leftarrow> (if tag_val > 0xff then in_uint16_be s else in_uint8 s);
                   if tag \<noteq> tag_val then Some (1, 0, s)
                   else if \<not> s_check_rem s 1 then Some (1, 0, s)
                   else do { (l, s) \<leftarrow> in_uint8 s;
                             if l AND 0x80 \<noteq> 0 then ber_long_length (nat (l AND 0x7f)) 0 s
                             else Some (0, l, s) } })"

definition xrdp_mcs_ber_out_header :: "int \<Rightarrow> int \<Rightarrow> stream \<Rightarrow> stream option" where
  "xrdp_mcs_ber_out_header tag_val len s =
     do { s \<leftarrow> (if tag_val > 0xff then out_uint16_be tag_val s else out_uint8 tag_val s);
          if len \<ge> 0x80
          then do { s \<leftarrow> out_uint8 0x82 s; out_uint16_be len s }
          else out_uint8 len s }"

definition xrdp_mcs_ber_out_int8 :: "int \<Rightarrow> stream \<Rightarrow> stream option" where
  "xrdp_mcs_ber_out_int8 v s = do { s \<leftarrow> xrdp_mcs_ber_out_header BER_TAG_INTEGER 1 s; out_uint8 v s }"

definition xrdp_mcs_ber_out_int24 :: "int \<Rightarrow> stream \<Rightarrow> stream option" where
  "xrdp_mcs_ber_out_int24 v s =
     do { s \<leftarrow> xrdp_mcs_ber_out_header BER_TAG_INTEGER 3 s;
          s \<leftarrow> out_uint8 (drop_bit 16 v) s;
          s \<leftarrow> out_uint8 (drop_bit 8 v) s;
          out_uint8 v s }"

definition xrdp_mcs_out_domain_params :: "int \<Rightarrow> int \<Rightarrow> int \<Rightarrow> int \<Rightarrow> stream \<Rightarrow> stream option" where
  "xrdp_mcs_out_domain_params max_channels max_users max_tokens max_pdu_size s =
     do { s \<leftarrow> xrdp_mcs_ber_out_header MCS_TAG_DOMAIN_PARAMS 26 s;
          s \<leftarrow> xrdp_mcs_ber_out_int8 max_channels s;
          s \<leftarrow> xrdp_mcs_ber_out_int8 max_users s;
          s \<leftarrow> xrdp_mcs_ber_out_int8 max_tokens s;
          s \<leftarrow> xrdp_mcs_ber_out_int8 1 s;
          s \<leftarrow> xrdp_mcs_ber_out_int8 0 s;
          s \<leftarrow> xrdp_mcs_ber_out_int8 1 s;
          s \<leftarrow> xrdp_mcs_ber_out_int24 max_pdu_size s;
          xrdp_mcs_ber_out_int8 2 s }"

subsection \<open>Connect-Initial\<close>

text \<open>A BER field that is skipped; the same steps serve the domain parameters.\<close>

definition skip_ber :: "int \<Rightarrow> stream \<Rightarrow> (int \<times> stream) option" where
  "skip_ber tag_val s =
     do { (rv, len, s) \<leftarrow> xrdp_mcs_ber_parse_header tag_val s;
          if rv \<noteq> 0 then Some (1, s)
          else if len < 0 then Some (1, s)
          else if \<not> s_check_rem s len then Some (1, s)
          else Some (0, in_uint8s (nat len) s) }"

definition xrdp_mcs_parse_domain_params :: "stream \<Rightarrow> (int \<times> stream) option" where
  "xrdp_mcs_parse_domain_params s = skip_ber MCS_TAG_DOMAIN_PARAMS s"

fun skip_fields :: "(stream \<Rightarrow> (int \<times> stream) option) list \<Rightarrow> stream \<Rightarrow> (int \<times> stream) option" where
  "skip_fields [] s = Some (0, s)"
| "skip_fields (f # fs) s = do { (rv, s) \<leftarrow> f s; if rv \<noteq> 0 then Some (1, s) else skip_fields fs s }"

text \<open>What follows the read: the copy of the user data is the last component.\<close>

definition parse_connect_initial :: "(nat \<Rightarrow> byte) \<Rightarrow> stream \<Rightarrow> stream \<Rightarrow> (int \<times> stream \<times> stream) option" where
  "parse_connect_initial junk client_mcs_data s =
     do { (rv, s) \<leftarrow> xrdp_iso_recv s;
          if rv \<noteq> 0 then Some (1, s, client_mcs_data)
          else do { (rv, len, s) \<leftarrow> xrdp_mcs_ber_parse_header MCS_CONNECT_INITIAL s;
          if rv \<noteq> 0 then Some (1, s, client_mcs_data)
          else do { (rv, s) \<leftarrow> skip_fields
                      [skip_ber BER_TAG_OCTET_STRING, skip_ber BER_TAG_OCTET_STRING, skip_ber BER_TAG_BOOLEAN,
                       xrdp_mcs_parse_domain_params, xrdp_mcs_parse_domain_params, xrdp_mcs_parse_domain_params] s;
          if rv \<noteq> 0 then Some (1, s, client_mcs_data)
          else do { (rv, len, s) \<leftarrow> xrdp_mcs_ber_parse_header BER_TAG_OCTET_STRING s;
          if rv \<noteq> 0 then Some (1, s, client_mcs_data)
          else if len \<le> 0 \<or> len > 16 * 1024 then Some (1, s, client_mcs_data)
          else if \<not> s_check_rem s len then Some (1, s, client_mcs_data)
          else do { let d = init_stream junk (nat len) client_mcs_data;
                    (data, s) \<leftarrow> in_uint8a (nat len) s;
                    d \<leftarrow> out_uint8p data (nat len) d;
                    Some (if s_check_end s then 0 else 1, s, s_mark_end d) } } } } }"

definition xrdp_mcs_recv_connect_initial ::
  "(nat \<Rightarrow> byte) \<Rightarrow> socket_answers \<Rightarrow> xrdp_mcs \<Rightarrow> 'x trans \<Rightarrow> (int option \<times> xrdp_mcs \<times> 'x trans) option" where
  "xrdp_mcs_recv_connect_initial junk io self tr =
     do { (rv, tr) \<leftarrow> libxrdp_force_read junk (read_header io) (read_body io) tr;
          if rv \<noteq> Some 0 then Some (rv, self, tr)
          else do { (rv, s, d) \<leftarrow> parse_connect_initial junk (m_client_mcs_data self) (t_in_s tr);
                    Some (Some rv, self\<lparr>m_client_mcs_data := d\<rparr>, tr\<lparr>t_in_s := s\<rparr>) } }"

subsection \<open>Domain PDUs of the connection sequence\<close>

text \<open>The optional field \<^verbatim>\<open>nonStandard\<close>, read into the user id.\<close>

definition recv_non_standard :: "int \<Rightarrow> xrdp_mcs \<Rightarrow> stream \<Rightarrow> (int \<times> xrdp_mcs \<times> stream) option" where
  "recv_non_standard opcode self s =
     (if opcode AND 2 \<noteq> 0
      then if \<not> s_check_rem s 2 then Some (1, self, s)
           else do { (v, s) \<leftarrow> in_uint16_be s; Some (0, self\<lparr>m_userid := v\<rparr>, s) }
      else Some (0, self, s))"

definition parse_edrq :: "xrdp_mcs \<Rightarrow> stream \<Rightarrow> (int \<times> xrdp_mcs \<times> stream) option" where
  "parse_edrq self s =
     do { (rv, s) \<leftarrow> xrdp_iso_recv s;
          if rv \<noteq> 0 then Some (1, self, s)
          else if \<not> s_check_rem s 1 then Some (1, self, s)
          else do { (opcode, s) \<leftarrow> in_uint8 s;
                    if drop_bit 2 opcode \<noteq> MCS_EDRQ then Some (1, self, s)
                    else if \<not> s_check_rem s 4 then Some (1, self, s)
                    else do { let s = in_uint8s 2 (in_uint8s 2 s);
                              (rv, self, s) \<leftarrow> recv_non_standard opcode self s;
                              if rv \<noteq> 0 then Some (1, self, s)
                              else Some (if s_check_end s then 0 else 1, self, s) } } }"

definition parse_aurq :: "xrdp_mcs \<Rightarrow> stream \<Rightarrow> (int \<times> xrdp_mcs \<times> stream) option" where
  "parse_aurq self s =
     do { (rv, s) \<leftarrow> xrdp_iso_recv s;
          if rv \<noteq> 0 then Some (1, self, s)
          else if \<not> s_check_rem s 1 then Some (1, self, s)
          else do { (opcode, s) \<leftarrow> in_uint8 s;
                    if drop_bit 2 opcode \<noteq> MCS_AURQ then Some (1, self, s)
                    else do { (rv, self, s) \<leftarrow> recv_non_standard opcode self s;
                              if rv \<noteq> 0 then Some (1, self, s)
                              else Some (if s_check_end s then 0 else 1, self, s) } } }"

definition recv_parsed ::
  "(xrdp_mcs \<Rightarrow> stream \<Rightarrow> (int \<times> xrdp_mcs \<times> stream) option) \<Rightarrow>
   (nat \<Rightarrow> byte) \<Rightarrow> socket_answers \<Rightarrow> xrdp_mcs \<Rightarrow> 'x trans \<Rightarrow> (int option \<times> xrdp_mcs \<times> 'x trans) option" where
  "recv_parsed parse junk io self tr =
     do { (rv, tr) \<leftarrow> libxrdp_force_read junk (read_header io) (read_body io) tr;
          if rv \<noteq> Some 0 then Some (rv, self, tr)
          else do { (rv, self, s) \<leftarrow> parse self (t_in_s tr); Some (Some rv, self, tr\<lparr>t_in_s := s\<rparr>) } }"

definition xrdp_mcs_recv_edrq ::
  "(nat \<Rightarrow> byte) \<Rightarrow> socket_answers \<Rightarrow> xrdp_mcs \<Rightarrow> 'x trans \<Rightarrow> (int option \<times> xrdp_mcs \<times> 'x trans) option" where
  "xrdp_mcs_recv_edrq = recv_parsed parse_edrq"

definition xrdp_mcs_recv_aurq ::
  "(nat \<Rightarrow> byte) \<Rightarrow> socket_answers \<Rightarrow> xrdp_mcs \<Rightarrow> 'x trans \<Rightarrow> (int option \<times> xrdp_mcs \<times> 'x trans) option" where
  "xrdp_mcs_recv_aurq = recv_parsed parse_aurq"

text \<open>A PDU built in a stream of its own and handed to \<^verbatim>\<open>xrdp_iso_send\<close>.\<close>

definition send_built ::
  "(stream \<Rightarrow> stream option) \<Rightarrow> (nat \<Rightarrow> byte) \<Rightarrow> socket_answers \<Rightarrow> 'x trans \<Rightarrow> (int option \<times> byte list \<times> 'x trans) option" where
  "send_built build junk io tr =
     do { s \<leftarrow> build (xrdp_iso_init junk (init_stream junk 8192 make_stream));
          (rv, taken, s, tr) \<leftarrow> xrdp_iso_send junk (write_waiting io) (write_new io) (s_mark_end s) tr;
          Some (map_option (\<lambda>v. if v \<noteq> 0 then 1 else 0) rv, taken, tr) }"

definition xrdp_mcs_send_cjcf ::
  "(nat \<Rightarrow> byte) \<Rightarrow> socket_answers \<Rightarrow> int \<Rightarrow> int \<Rightarrow> 'x trans \<Rightarrow> (int option \<times> byte list \<times> 'x trans) option" where
  "xrdp_mcs_send_cjcf junk io userid chanid tr =
     send_built (\<lambda>s. do { s \<leftarrow> out_uint8 (push_bit 2 MCS_CJCF OR 2) s;
                          s \<leftarrow> out_uint8 0 s;
                          s \<leftarrow> out_uint16_be userid s;
                          s \<leftarrow> out_uint16_be chanid s;
                          out_uint16_be chanid s }) junk io tr"

definition xrdp_mcs_send_aucf ::
  "(nat \<Rightarrow> byte) \<Rightarrow> socket_answers \<Rightarrow> xrdp_mcs \<Rightarrow> 'x trans \<Rightarrow> (int option \<times> byte list \<times> 'x trans) option" where
  "xrdp_mcs_send_aucf junk io self tr =
     send_built (\<lambda>s. do { s \<leftarrow> out_uint8 (push_bit 2 MCS_AUCF OR 2) s;
                          s \<leftarrow> out_uint8s 1 s;
                          out_uint16_be (m_userid self) s }) junk io tr"

subsection \<open>Server data and Connect-Response\<close>

text \<open>\<^verbatim>\<open>iso_layer->requestedProtocol\<close> counts only if the client negotiated.\<close>

definition out_server_core_data :: "xrdp_iso \<Rightarrow> stream \<Rightarrow> stream option" where
  "out_server_core_data iso_layer s =
     do { let client_requested_protocols = (if rdpNegData iso_layer then requestedProtocol iso_layer else 0);
          s \<leftarrow> out_uint16_le SEC_TAG_SRV_INFO s;
          s \<leftarrow> out_uint16_le 16 s;
          s \<leftarrow> out_uint32_le 0x00080004 s;
          s \<leftarrow> out_uint32_le client_requested_protocols s;
          out_uint32_le 8 s }"

fun out_channel_ids :: "nat \<Rightarrow> nat list \<Rightarrow> stream \<Rightarrow> stream option" where
  "out_channel_ids num_channels [] s = Some s"
| "out_channel_ids num_channels (index # rest) s =
     do { s \<leftarrow> out_uint16_le (if index < num_channels then MCS_GLOBAL_CHANNEL + (int index + 1) else 0) s;
          out_channel_ids num_channels rest s }"

definition out_security_data :: "sec_keys \<Rightarrow> stream \<Rightarrow> stream option" where
  "out_security_data self s =
     (if rsa_key_bytes self = 64 \<or> rsa_key_bytes self = 256
      then let small = (rsa_key_bytes self = 64);
               header_length = (if small then 0x00ec else 0x01ac);
               server_cert_len = (if small then 0xb8 else 0x178);
               public_key_blob_len = (if small then 0x005c else 0x011c);
               key_len = (if small then 0x0048 else 0x0108);
               bit_len = (if small then 512 else 2048);
               data_len = (if small then 63 else 255);
               modulus_len = (if small then 64 else 256)
           in do { s \<leftarrow> out_uint16_le SEC_TAG_SRV_CRYPT s;
                   s \<leftarrow> out_uint16_le header_length s;
                   s \<leftarrow> out_uint32_le (crypt_method self) s;
                   s \<leftarrow> out_uint32_le (crypt_level self) s;
                   s \<leftarrow> out_uint32_le 32 s;
                   s \<leftarrow> out_uint32_le server_cert_len s;
                   s \<leftarrow> out_uint8p (server_random self) 32 s;
                   s \<leftarrow> out_uint32_le 1 s;
                   s \<leftarrow> out_uint32_le 1 s;
                   s \<leftarrow> out_uint32_le 1 s;
                   s \<leftarrow> out_uint16_le SEC_TAG_PUBKEY s;
                   s \<leftarrow> out_uint16_le public_key_blob_len s;
                   s \<leftarrow> out_uint32_le SEC_RSA_MAGIC s;
                   s \<leftarrow> out_uint32_le key_len s;
                   s \<leftarrow> out_uint32_le bit_len s;
                   s \<leftarrow> out_uint32_le data_len s;
                   s \<leftarrow> out_uint8p (pub_exp self) 4 s;
                   s \<leftarrow> out_uint8p (pub_mod self) modulus_len s;
                   s \<leftarrow> out_uint8s 8 s;
                   s \<leftarrow> out_uint16_le SEC_TAG_KEYSIG s;
                   s \<leftarrow> out_uint16_le 72 s;
                   s \<leftarrow> out_uint8p (pub_sig self) 64 s;
                   out_uint8s 8 s }
      else if rsa_key_bytes self = 0
      then do { s \<leftarrow> out_uint16_le SEC_TAG_SRV_CRYPT s;
                s \<leftarrow> out_uint16_le 12 s;
                s \<leftarrow> out_uint32_le (crypt_method self) s;
                out_uint32_le (crypt_level self) s }
      else Some s)"

definition xrdp_mcs_out_gcc_data ::
  "(nat \<Rightarrow> byte) \<Rightarrow> sec_keys \<Rightarrow> xrdp_iso \<Rightarrow> xrdp_mcs \<Rightarrow> xrdp_mcs option" where
  "xrdp_mcs_out_gcc_data junk keys iso_layer self =
     do { let num_channels = length (m_channel_list self);
          let num_channels_even = num_channels + num_channels mod 2;
          let s = init_stream junk 8192 (m_server_mcs_data self);
          s \<leftarrow> out_uint16_be 5 s;
          s \<leftarrow> out_uint16_be 0x14 s;
          s \<leftarrow> out_uint8 0x7c s;
          s \<leftarrow> out_uint16_be 1 s;
          s \<leftarrow> out_uint8 0x2a s;
          s \<leftarrow> out_uint8 0x14 s;
          s \<leftarrow> out_uint8 0x76 s;
          s \<leftarrow> out_uint8 0x0a s;
          s \<leftarrow> out_uint8 1 s;
          s \<leftarrow> out_uint8 1 s;
          s \<leftarrow> out_uint8 0 s;
          s \<leftarrow> out_uint16_le 0xc001 s;
          s \<leftarrow> out_uint8 0 s;
          s \<leftarrow> out_uint8 0x4d s;
          s \<leftarrow> out_uint8 0x63 s;
          s \<leftarrow> out_uint8 0x44 s;
          s \<leftarrow> out_uint8 0x6e s;
          let gcc_size_ptr = s_p s;
          s \<leftarrow> out_uint8s 2 s;
          let ud_ptr = s_p s;
          s \<leftarrow> out_server_core_data iso_layer s;
          s \<leftarrow> out_uint16_le SEC_TAG_SRV_CHANNELS s;
          s \<leftarrow> out_uint16_le (8 + int num_channels_even * 2) s;
          s \<leftarrow> out_uint16_le MCS_GLOBAL_CHANNEL s;
          s \<leftarrow> out_uint16_le (int num_channels) s;
          s \<leftarrow> out_channel_ids num_channels [0..<num_channels_even] s;
          s \<leftarrow> out_security_data keys s;
          let s = s_mark_end s;
          let gcc_size = (int (s_end s) - int ud_ptr) OR 0x8000;
          s \<leftarrow> poke gcc_size_ptr (drop_bit 8 gcc_size) s;
          s \<leftarrow> poke (gcc_size_ptr + 1) gcc_size s;
          Some (self\<lparr>m_server_mcs_data := s\<rparr>) }"

definition connect_response_stream :: "xrdp_mcs \<Rightarrow> stream \<Rightarrow> stream option" where
  "connect_response_stream self s =
     do { let data = contents (m_server_mcs_data self);
          let data_len = int (s_end (m_server_mcs_data self));
          s \<leftarrow> xrdp_mcs_ber_out_header MCS_CONNECT_RESPONSE (if data_len > 0x80 then data_len + 38 else data_len + 36) s;
          s \<leftarrow> xrdp_mcs_ber_out_header BER_TAG_RESULT 1 s;
          s \<leftarrow> out_uint8 0 s;
          s \<leftarrow> xrdp_mcs_ber_out_header BER_TAG_INTEGER 1 s;
          s \<leftarrow> out_uint8 0 s;
          s \<leftarrow> xrdp_mcs_out_domain_params 22 3 0 0xfff8 s;
          s \<leftarrow> xrdp_mcs_ber_out_header BER_TAG_OCTET_STRING data_len s;
          out_uint8p data (nat data_len) s }"

definition xrdp_mcs_send_connect_response ::
  "(nat \<Rightarrow> byte) \<Rightarrow> socket_answers \<Rightarrow> xrdp_mcs \<Rightarrow> 'x trans \<Rightarrow> (int option \<times> byte list \<times> 'x trans) option" where
  "xrdp_mcs_send_connect_response junk io self tr = send_built (connect_response_stream self) junk io tr"

subsection \<open>Data PDUs\<close>

definition get_domain_mcs_pdu_header :: "stream \<Rightarrow> (int \<times> int \<times> stream) option" where
  "get_domain_mcs_pdu_header s =
     do { (rv, s) \<leftarrow> xrdp_iso_recv s;
          if rv \<noteq> 0 then Some (1, 0, s)
          else if \<not> s_check_rem s 1 then Some (1, 0, s)
          else do { (opcode, s) \<leftarrow> in_uint8 s; Some (0, drop_bit 2 opcode, s) } }"

text \<open>
  The channel join requests in a row. The list holds the answers of the socket to one confirm and
  the read that follows it, round by round; when it is used up the loop has not returned. Counting
  the requests only serves a warning.
\<close>

fun handle_channel_join_requests ::
  "(nat \<Rightarrow> byte) \<Rightarrow> socket_answers list \<Rightarrow> int \<Rightarrow> 'x trans \<Rightarrow> (int option \<times> int \<times> byte list \<times> 'x trans) option" where
  "handle_channel_join_requests junk ios appid tr =
     (if appid \<noteq> MCS_CJRQ then Some (Some 0, appid, [], tr)
      else if \<not> s_check_rem (t_in_s tr) 4 then Some (Some 1, appid, [], tr)
      else case ios of
             [] \<Rightarrow> Some (None, appid, [], tr)
           | io # ios \<Rightarrow>
               do { (userid, s) \<leftarrow> in_uint16_be (t_in_s tr);
                    (chanid, s) \<leftarrow> in_uint16_be s;
                    (sent, taken, tr) \<leftarrow> xrdp_mcs_send_cjcf junk io userid chanid (tr\<lparr>t_in_s := s\<rparr>);
                    if sent = None then Some (None, appid, taken, tr)
                    else do { (rv, tr) \<leftarrow> libxrdp_force_read junk (read_header io) (read_body io) tr;
                              if rv \<noteq> Some 0 then Some (rv, appid, taken, tr)
                              else do { (rv, appid', s) \<leftarrow> get_domain_mcs_pdu_header (t_in_s tr);
                                        let tr = tr\<lparr>t_in_s := s\<rparr>;
                                        if rv \<noteq> 0 then Some (Some 1, appid, taken, tr)
                                        else do { (rv, appid', more_taken, tr) \<leftarrow> handle_channel_join_requests junk ios appid' tr;
                                                  Some (rv, appid', taken @ more_taken, tr) } } } })"

declare handle_channel_join_requests.simps [simp del]

text \<open>What follows the header of a data request: the channel it is for.\<close>

definition recv_data_request :: "int \<Rightarrow> stream \<Rightarrow> (int \<times> int \<times> stream) option" where
  "recv_data_request appid s =
     (if appid = MCS_DPUM then Some (1, 0, s)
      else if appid \<noteq> MCS_SDRQ then Some (1, 0, s)
      else if \<not> s_check_rem s 6 then Some (1, 0, s)
      else do { let s = in_uint8s 2 s;
                (chan, s) \<leftarrow> in_uint16_be s;
                let s = in_uint8s 1 s;
                (len, s) \<leftarrow> in_uint8 s;
                if len AND 0xC0 = 0x80
                then if \<not> s_check_rem s 1 then Some (1, chan, s) else Some (0, chan, in_uint8s 1 s)
                else if len AND 0xC0 = 0xC0 then Some (1, chan, s)
                else Some (0, chan, s) })"

definition xrdp_mcs_recv ::
  "(nat \<Rightarrow> byte) \<Rightarrow> socket_answers list \<Rightarrow> xrdp_mcs \<Rightarrow> 'x trans \<Rightarrow> (int option \<times> int \<times> byte list \<times> xrdp_mcs \<times> 'x trans) option" where
  "xrdp_mcs_recv junk ios self tr =
     do { (rv, appid, s) \<leftarrow> get_domain_mcs_pdu_header (t_in_s tr);
          let tr = tr\<lparr>t_in_s := s\<rparr>;
          if rv \<noteq> 0 then Some (Some 1, 0, [], self, tr)
          else do { (rv, appid, taken, self, tr) \<leftarrow>
                      (if m_expecting_channel_join_requests self
                       then do { (rv, appid, taken, tr) \<leftarrow> handle_channel_join_requests junk ios appid tr;
                                 Some (rv, appid, taken,
                                       if rv = Some 0 then self\<lparr>m_expecting_channel_join_requests := False\<rparr> else self, tr) }
                       else Some (Some 0, appid, [], self, tr));
                    if rv \<noteq> Some 0 then Some (rv, 0, taken, self, tr)
                    else do { (rv, chan, s) \<leftarrow> recv_data_request appid (t_in_s tr);
                              Some (Some rv, chan, taken, self, tr\<lparr>t_in_s := s\<rparr>) } } }"

definition xrdp_mcs_init :: "(nat \<Rightarrow> byte) \<Rightarrow> stream \<Rightarrow> stream" where
  "xrdp_mcs_init junk s = s_push_layer_mcs 8 (xrdp_iso_init junk s)"

text \<open>
  Moving everything up one byte reads the byte behind the end of the stream, which must still be
  inside the buffer.
\<close>

definition mcs_send_stream :: "xrdp_mcs \<Rightarrow> int \<Rightarrow> stream \<Rightarrow> stream option" where
  "mcs_send_stream self chan s =
     do { let s = s_pop_layer_mcs s;
          let len = int (s_end s) - int (s_p s) - 8;
          s \<leftarrow> out_uint8 (push_bit 2 MCS_SDIN) s;
          s \<leftarrow> out_uint16_be (m_userid self) s;
          s \<leftarrow> out_uint16_be chan s;
          s \<leftarrow> out_uint8 0x70 s;
          if len \<ge> 128 then out_uint16_be (len OR 0x8000) s
          else do { s \<leftarrow> out_uint8 len s;
                    let lp = s_p s;
                    let d = s_data s;
                    d \<leftarrow> (if lp < s_end s
                         then if s_end s < s_size s
                              then Some (take lp d @ take (s_end s - lp) (drop (lp + 1) d) @ drop (s_end s) d)
                              else None
                         else Some d);
                    Some (s\<lparr>s_data := d, s_end := s_end s - 1\<rparr>) } }"

text \<open>The callback of the session runs after a packet on the global channel; its result is not used.\<close>

definition xrdp_mcs_send ::
  "(nat \<Rightarrow> byte) \<Rightarrow> socket_answers \<Rightarrow> xrdp_mcs \<Rightarrow> int \<Rightarrow> stream \<Rightarrow> 'x trans \<Rightarrow>
   (int option \<times> bool \<times> byte list \<times> stream \<times> 'x trans) option" where
  "xrdp_mcs_send junk io self chan s tr =
     do { s \<leftarrow> mcs_send_stream self chan s;
          (rv, taken, s, tr) \<leftarrow> xrdp_iso_send junk (write_waiting io) (write_new io) s tr;
          Some (map_option (\<lambda>v. if v \<noteq> 0 then 1 else 0) rv, rv = Some 0 \<and> chan = MCS_GLOBAL_CHANNEL, taken, s, tr) }"

text \<open>The disconnect: the ultimatum is sent and the socket closed whatever became of the send.\<close>

definition close_rdp_socket :: "'x trans \<Rightarrow> int list \<times> 'x trans" where
  "close_rdp_socket tr = ([t_sck tr], tr\<lparr>t_sck := -1\<rparr>)"

definition xrdp_mcs_disconnect ::
  "(nat \<Rightarrow> byte) \<Rightarrow> socket_answers \<Rightarrow> 'x trans \<Rightarrow> (int option \<times> byte list \<times> int list \<times> 'x trans) option" where
  "xrdp_mcs_disconnect junk io tr =
     do { (rv, taken, tr) \<leftarrow> send_built (\<lambda>s. do { s \<leftarrow> out_uint8 (push_bit 2 MCS_DPUM OR 1) s; out_uint8 0x80 s }) junk io tr;
          let (closed, tr') = close_rdp_socket tr;
          Some (rv, taken, if rv = None then [] else closed, if rv = None then tr else tr') }"

end
