(* ===== verification/Mcs_Props.thy ===== *)
theory Mcs_Props
  imports Xrdp_Mcs Stream_At
begin

text \<open>
  The MCS layer. BER headers are read back as they were written; data PDUs arrive on their channel
  with their payload; whatever a client sends, the parsers stay inside the buffer; the server's
  answer to Connect-Initial announces exactly the lengths it has.
\<close>

subsection \<open>BER\<close>

lemma le_bytes_small: "le_bytes 1 v = [word_of_int v]" "le_bytes 2 v = [word_of_int v, word_of_int (v div 256)]"
  by (simp_all add: numeral_2_eq_2)

lemma uint_byte: "uint (word_of_int v :: byte) = v mod 256"
  by (simp add: uint_word_of_int)

lemma high_low: "0 \<le> v \<Longrightarrow> v < 65536 \<Longrightarrow> 256 * (v div 256 mod 256) + v mod 256 = (v :: int)"
  by (simp add: mod_pos_pos_trivial)

definition ber_bytes :: "int \<Rightarrow> int \<Rightarrow> byte list" where
  "ber_bytes tag len = (if tag > 0xff then rev (le_bytes 2 tag) else le_bytes 1 tag) @
     (if len \<ge> 0x80 then 0x82 # rev (le_bytes 2 len) else le_bytes 1 len)"

lemma ber_out_header_bytes: "xrdp_mcs_ber_out_header tag len s = out_bytes (ber_bytes tag len) s"
proof -
  have b: "le_bytes 1 0x82 = [0x82]" by simp
  show ?thesis
    unfolding xrdp_mcs_ber_out_header_def ber_bytes_def out_defs b
    by (simp add: out_bytes_append [symmetric] del: le_bytes.simps)
qed

lemma ber_long_length_2:
  "ber_long_length 2 len s =
     (if \<not> s_check_rem s 1 then Some (1, len, s)
      else do { (i, s) \<leftarrow> in_uint8 s;
                if \<not> s_check_rem s 1 then Some (1, c_int (push_bit 8 len OR i), s)
                else do { (j, s) \<leftarrow> in_uint8 s; Some (0, c_int (push_bit 8 (c_int (push_bit 8 len OR i)) OR j), s) } })"
proof -
  have one: "ber_long_length (Suc 0) len s =
      (if \<not> s_check_rem s 1 then Some (1, len, s)
       else do { (i, s) \<leftarrow> in_uint8 s; Some (0, c_int (push_bit 8 len OR i), s) })" for len s
    by (cases "in_uint8 s") auto
  show ?thesis unfolding numeral_2_eq_2 ber_long_length.simps(2) [of "Suc 0"] one by (rule refl)
qed

lemma ber_parse_bytes:
  assumes "in_wf s" "unread s = ber_bytes tag len @ rest" "0 \<le> tag" "tag < 65536" "0 \<le> len" "len < 65536"
  shows "xrdp_mcs_ber_parse_header tag s = Some (0, len, advance (length (ber_bytes tag len)) s)"
proof -
  have l: "0x82 AND 0x80 = (0x80 :: int)" "nat (0x82 AND 0x7f) = 2" by simp_all
  have small: "len < 0x80 \<Longrightarrow> len AND 0x80 = 0"
  proof -
    assume "len < 0x80"
    then have "len < 2 ^ 7" by simp
    then have "take_bit 7 len = len" using assms(5) by (simp add: take_bit_int_eq_self)
    then have "\<not> bit len 7" by (metis bit_take_bit_iff less_irrefl)
    then show ?thesis using and_exp_eq_0_iff_not_bit [of len 7] by simp
  qed
  have c: "c_int v = v" if "0 \<le> v" "v < 65536" for v using that by (simp add: c_int_def signed_take_bit_int_eq_self)
  have d: "0 \<le> len div 256" "len div 256 < 256" using assms(5,6) by auto
  have big: "c_int (push_bit 8 (c_int (push_bit 8 0 OR len div 256 mod 256)) OR len mod 256) = len"
    using d assms(5,6) c [of "len div 256"] by (simp add: high_or_low c)
  have "xrdp_mcs_ber_parse_header tag (advance 0 s) = Some (0, len, advance (length (ber_bytes tag len)) s)"
    using assms d c [of "len div 256"] small
    by (cases "tag > 0xff"; cases "len \<ge> 0x80")
      (simp_all add: xrdp_mcs_ber_parse_header_def ber_bytes_def le_bytes_small at_simps uint_byte high_low ber_long_length_2 Let_def
        high_or_low del: advance_simps(1))
  then show ?thesis by simp
qed

subsection \<open>The server's data\<close>

definition keys_ok :: "sec_keys \<Rightarrow> bool" where
  "keys_ok keys \<longleftrightarrow> length (server_random keys) = 32 \<and> length (pub_exp keys) = 4 \<and> length (pub_mod keys) = 256 \<and> length (pub_sig keys) = 64"

text \<open>A block of user data: its type, its length and its contents.\<close>

definition ud_block :: "int \<Rightarrow> byte list \<Rightarrow> byte list" where
  "ud_block t body = le_bytes 2 t @ le_bytes 2 (int (length body) + 4) @ body"

definition channel_ids :: "nat \<Rightarrow> byte list" where
  "channel_ids n = concat (map (\<lambda>i. le_bytes 2 (MCS_GLOBAL_CHANNEL + 1 + int i)) [0..<n]) @ (if odd n then le_bytes 2 0 else [])"

definition certificate_bytes :: "sec_keys \<Rightarrow> byte list" where
  "certificate_bytes keys =
     (let modulus = take (nat (rsa_key_bytes keys)) (pub_mod keys);
          key = le_bytes 4 SEC_RSA_MAGIC @ le_bytes 4 (int (length modulus) + 8) @ le_bytes 4 (8 * int (length modulus)) @
                le_bytes 4 (int (length modulus) - 1) @ pub_exp keys @ modulus @ replicate 8 0
      in le_bytes 4 1 @ le_bytes 4 1 @ le_bytes 4 1 @
         le_bytes 2 SEC_TAG_PUBKEY @ le_bytes 2 (int (length key)) @ key @
         le_bytes 2 SEC_TAG_KEYSIG @ le_bytes 2 (int (length (pub_sig keys)) + 8) @ pub_sig keys @ replicate 8 0)"

definition security_body :: "sec_keys \<Rightarrow> byte list" where
  "security_body keys =
     le_bytes 4 (crypt_method keys) @ le_bytes 4 (crypt_level keys) @
     (if rsa_key_bytes keys = 0 then []
      else le_bytes 4 (int (length (server_random keys))) @ le_bytes 4 (int (length (certificate_bytes keys))) @
           server_random keys @ certificate_bytes keys)"

definition server_ud :: "sec_keys \<Rightarrow> xrdp_iso \<Rightarrow> nat \<Rightarrow> byte list" where
  "server_ud keys iso_layer n =
     ud_block SEC_TAG_SRV_INFO (le_bytes 4 0x00080004 @ le_bytes 4 (if rdpNegData iso_layer then requestedProtocol iso_layer else 0) @ le_bytes 4 8) @
     ud_block SEC_TAG_SRV_CHANNELS (le_bytes 2 MCS_GLOBAL_CHANNEL @ le_bytes 2 (int n) @ channel_ids n) @
     (if rsa_key_bytes keys \<in> {0, 64, 256} then ud_block SEC_TAG_SRV_CRYPT (security_body keys) else [])"

text \<open>
  The conference response of T.124 around the blocks: it states their length in the two-byte form. The connect data
  around that response is an object identifier, a length byte, which the program fixes to 42 whatever the response, and
  the response.
\<close>

definition conference_response :: "byte list \<Rightarrow> byte list" where
  "conference_response ud =
     [0x14, 0x76, 0x0a, 1, 1, 0, 1, 0xc0, 0, 0x4d, 0x63, 0x44, 0x6e] @ rev (le_bytes 2 (int (length ud) OR 0x8000)) @ ud"

definition connect_data :: "byte \<Rightarrow> byte list \<Rightarrow> byte list" where
  "connect_data len response = [0, 5, 0, 0x14, 0x7c, 0, 1] @ [len] @ response"

definition gcc_bytes :: "byte list \<Rightarrow> byte list" where
  "gcc_bytes ud = connect_data 0x2a (conference_response ud)"

lemma out_channel_ids_bytes:
  "s_p s \<le> s_size s \<Longrightarrow>
     out_channel_ids n is s = out_bytes (concat (map (\<lambda>i. le_bytes 2 (if i < n then MCS_GLOBAL_CHANNEL + (int i + 1) else 0)) is)) s"
proof (induction "is" arbitrary: s)
  case Nil
  then show ?case by (simp add: out_bytes_def)
next
  case (Cons i rest)
  let ?b = "le_bytes 2 (if i < n then MCS_GLOBAL_CHANNEL + (int i + 1) else 0)"
  show ?case
  proof (cases "out_bytes ?b s")
    case None
    then show ?thesis by (simp add: out_uint16_le_def out_bytes_append del: le_bytes.simps)
  next
    case (Some s')
    then have "s_p s' \<le> s_size s'" using Cons.prems by (auto simp: out_bytes_def split: if_splits)
    from Cons.IH [OF this] Some show ?thesis by (simp add: out_uint16_le_def out_bytes_append del: le_bytes.simps)
  qed
qed

lemma channel_ids_even:
  "concat (map (\<lambda>i. le_bytes 2 (if i < n then MCS_GLOBAL_CHANNEL + (int i + 1) else 0)) [0..<n + n mod 2]) = channel_ids n"
proof -
  have m: "map (\<lambda>i. le_bytes 2 (if i < n then MCS_GLOBAL_CHANNEL + (int i + 1) else 0)) [0..<n] =
      map (\<lambda>i. le_bytes 2 (MCS_GLOBAL_CHANNEL + 1 + int i)) [0..<n]"
    by (intro map_cong) (auto simp: algebra_simps)
  show ?thesis
  proof (cases "odd n")
    case True
    then have "[0..<n + n mod 2] = [0..<n] @ [n]" by (simp add: odd_iff_mod_2_eq_one)
    then show ?thesis using True by (simp only: map_append concat_append m) (simp add: channel_ids_def del: le_bytes.simps)
  next
    case False
    then have "n + n mod 2 = n" by simp
    then show ?thesis using False by (simp only: m) (simp add: channel_ids_def del: le_bytes.simps)
  qed
qed

lemma length_channel_ids: "length (channel_ids n) = 2 * (n + n mod 2)"
proof -
  have "sum_list (map (length \<circ> (\<lambda>i. le_bytes 2 (MCS_GLOBAL_CHANNEL + 1 + int i))) [0..<n]) = 2 * n"
    by (induction n) (simp_all del: le_bytes.simps)
  then show ?thesis by (auto simp: channel_ids_def length_concat odd_iff_mod_2_eq_one simp del: le_bytes.simps)
qed

lemma out_take: "n \<le> length v \<Longrightarrow> out_uint8p v n s = out_bytes (take n v) s"
  by (simp add: out_uint8p_def)

lemma out_security_bytes:
  assumes "keys_ok keys" "s_p s \<le> s_size s"
  shows "out_security_data keys s =
    out_bytes (if rsa_key_bytes keys \<in> {0, 64, 256} then ud_block SEC_TAG_SRV_CRYPT (security_body keys) else []) s"
proof -
  have k: "length (server_random keys) = 32" "length (pub_exp keys) = 4" "length (pub_mod keys) = 256" "length (pub_sig keys) = 64"
    using assms(1) by (simp_all add: keys_ok_def)
  have l: "32 \<le> length (server_random keys)" "4 \<le> length (pub_exp keys)" "64 \<le> length (pub_mod keys)" "256 \<le> length (pub_mod keys)"
    "64 \<le> length (pub_sig keys)" using k by simp_all
  have t: "take 32 (server_random keys) = server_random keys" "take 4 (pub_exp keys) = pub_exp keys"
    "take 256 (pub_mod keys) = pub_mod keys" "take 64 (pub_sig keys) = pub_sig keys" using k by simp_all
  consider (none) "rsa_key_bytes keys = 0" | (small) "rsa_key_bytes keys = 64" | (large) "rsa_key_bytes keys = 256"
    | (other) "rsa_key_bytes keys \<notin> {0, 64, 256}" by blast
  then show ?thesis
  proof cases
    case none
    then show ?thesis
      by (simp add: out_security_data_def out_defs [abs_def] out_bytes_append [symmetric] ud_block_def security_body_def
          del: le_bytes.simps)
  next
    case small
    then show ?thesis
      unfolding out_security_data_def out_defs out_take [OF l(1)] out_take [OF l(2)] out_take [OF l(3)] out_take [OF l(4)]
        out_take [OF l(5)] out_uint8s_def Let_def t
      by (simp add: out_take [OF l(3)] out_take [OF l(4)] t out_bytes_append [symmetric] ud_block_def security_body_def certificate_bytes_def Let_def k del: le_bytes.simps)
  next
    case large
    then show ?thesis
      unfolding out_security_data_def out_defs out_take [OF l(1)] out_take [OF l(2)] out_take [OF l(3)] out_take [OF l(4)]
        out_take [OF l(5)] out_uint8s_def Let_def t
      by (simp add: out_take [OF l(3)] out_take [OF l(4)] t out_bytes_append [symmetric] ud_block_def security_body_def certificate_bytes_def Let_def k del: le_bytes.simps)
  next
    case other
    then show ?thesis using assms(2) by (simp add: out_security_data_def out_bytes_def)
  qed
qed

lemma length_server_ud:
  assumes "keys_ok keys"
  shows "length (server_ud keys iso_layer n) = 24 + 2 * (n + n mod 2) +
    (if rsa_key_bytes keys = 0 then 12 else if rsa_key_bytes keys = 64 then 236 else if rsa_key_bytes keys = 256 then 428 else 0)"
  using assms by (simp add: server_ud_def ud_block_def security_body_def certificate_bytes_def Let_def keys_ok_def length_channel_ids del: le_bytes.simps)

text \<open>The length byte of the connect data is the length of what follows for no server.\<close>

lemma connect_length_wrong:
  assumes "keys_ok keys"
  shows "length (conference_response (server_ud keys iso_layer n)) \<noteq> 0x2a"
proof -
  have "even (length (server_ud keys iso_layer n))" by (simp add: length_server_ud [OF assms])
  then have "odd (length (conference_response (server_ud keys iso_layer n)))" by (simp add: conference_response_def del: le_bytes.simps)
  then show ?thesis by auto
qed

definition gcc_prefix :: "byte list" where
  "gcc_prefix = [0, 5, 0, 0x14, 0x7c, 0, 1, 0x2a, 0x14, 0x76, 0x0a, 1, 1, 0, 1, 0xc0, 0, 0x4d, 0x63, 0x44, 0x6e]"

text \<open>A stream that has been written from its start, over a buffer that held \<open>d\<close>.\<close>

definition wrote :: "byte list \<Rightarrow> byte list \<Rightarrow> stream \<Rightarrow> bool" where
  "wrote d bs s \<longleftrightarrow> s_p s = length bs \<and> s_data s = bs @ drop (length bs) d \<and> length bs \<le> length d"

lemma wrote_start: "s_p s = 0 \<Longrightarrow> wrote (s_data s) [] s"
  by (simp add: wrote_def)

lemma wrote_out:
  assumes "wrote d bs s" "length bs + length cs \<le> length d"
  shows "\<exists>s'. out_bytes cs s = Some s' \<and> wrote d (bs @ cs) s'"
  using assms by (simp add: wrote_def out_bytes_def) (simp add: add.commute)

lemma wrote_room: "wrote d bs s \<Longrightarrow> s_p s \<le> s_size s \<and> s_size s = length d"
  by (simp add: wrote_def)

lemma out_gcc_bytes:
  assumes keys: "keys_ok keys" and n: "length (m_channel_list self) \<le> 2000"
  shows "\<exists>s. xrdp_mcs_out_gcc_data junk keys iso_layer self = Some (self\<lparr>m_server_mcs_data := s\<rparr>) \<and>
     contents s = gcc_bytes (server_ud keys iso_layer (length (m_channel_list self))) \<and> s_end s = length (contents s)"
proof -
  let ?n = "length (m_channel_list self)" and ?P = gcc_prefix
  let ?ud = "server_ud keys iso_layer ?n"
  let ?s0 = "init_stream junk 8192 (m_server_mcs_data self)"
  define d where "d = s_data ?s0"
  let ?net = "ud_block SEC_TAG_SRV_INFO (le_bytes 4 0x00080004 @ le_bytes 4 (if rdpNegData iso_layer then requestedProtocol iso_layer else 0) @ le_bytes 4 8) @
     le_bytes 2 SEC_TAG_SRV_CHANNELS @ le_bytes 2 (8 + int (?n + ?n mod 2) * 2) @ le_bytes 2 MCS_GLOBAL_CHANNEL @ le_bytes 2 (int ?n)"
  let ?sec = "if rsa_key_bytes keys \<in> {0, 64, 256} then ud_block SEC_TAG_SRV_CRYPT (security_body keys) else []"
  have P: "length ?P = 21" by (simp add: gcc_prefix_def)
  have ud: "?ud = ?net @ channel_ids ?n @ ?sec"
    by (simp add: server_ud_def ud_block_def length_channel_ids algebra_simps del: le_bytes.simps)
  have "?n mod 2 < 2" by simp
  then have len: "length ?ud \<le> 5000" unfolding length_server_ud [OF keys, of iso_layer ?n] using n by (auto simp del: mod_less_divisor)
  have room: "8192 \<le> length d" by (auto simp: d_def init_stream_def)
  have b: "le_bytes 1 0x7c = [0x7c]" "le_bytes 1 0x2a = [0x2a]" "le_bytes 1 0x14 = [0x14]" "le_bytes 1 0x76 = [0x76]" "le_bytes 1 0x0a = [0x0a]"
    "le_bytes 1 1 = [1]" "le_bytes 1 0 = [0]" "le_bytes 1 0x4d = [0x4d]" "le_bytes 1 0x63 = [0x63]" "le_bytes 1 0x44 = [0x44]" "le_bytes 1 0x6e = [0x6e]"
    "le_bytes 2 0xc001 = [1, 0xc0]" "rev (le_bytes 2 5) = [0, 5]" "rev (le_bytes 2 0x14) = [0, 0x14]" "rev (le_bytes 2 1) = [0, 1]"
    by (simp_all add: le_bytes_small)
  have w0: "wrote d [] ?s0" unfolding d_def by (rule wrote_start) simp
  obtain s1 where s1: "out_bytes ?P ?s0 = Some s1" "wrote d ?P s1" using wrote_out [OF w0, of ?P] room P by auto
  obtain s2 where s2: "out_bytes [0, 0] s1 = Some s2" "wrote d (?P @ [0, 0]) s2" using wrote_out [OF s1(2), of "[0, 0]"] room P by auto
  obtain s3 where s3: "out_bytes ?net s2 = Some s3" "wrote d ((?P @ [0, 0]) @ ?net) s3"
    using wrote_out [OF s2(2), of ?net] room P len ud by (auto simp del: le_bytes.simps)
  obtain s4 where s4: "out_channel_ids ?n [0..<?n + ?n mod 2] s3 = Some s4" "wrote d (((?P @ [0, 0]) @ ?net) @ channel_ids ?n) s4"
    using wrote_out [OF s3(2), of "channel_ids ?n"] wrote_room [OF s3(2)] room P len ud
    by (auto simp: out_channel_ids_bytes channel_ids_even simp del: le_bytes.simps)
  obtain s5 where s5: "out_security_data keys s4 = Some s5" "wrote d ((((?P @ [0, 0]) @ ?net) @ channel_ids ?n) @ ?sec) s5"
    using wrote_out [OF s4(2), of ?sec] wrote_room [OF s4(2)] room P len ud
    by (auto simp: out_security_bytes [OF keys] simp del: le_bytes.simps)
  then have d5: "s_data s5 = ?P @ [0, 0] @ ?ud @ drop (23 + length ?ud) d" "s_p s5 = 23 + length ?ud"
    unfolding ud using P by (simp_all add: wrote_def del: le_bytes.simps)
  have chain: "xrdp_mcs_out_gcc_data junk keys iso_layer self =
      do { s1 \<leftarrow> out_bytes ?P ?s0;
           let gcc_size_ptr = s_p s1;
           s2 \<leftarrow> out_bytes [0, 0] s1;
           let ud_ptr = s_p s2;
           s3 \<leftarrow> out_bytes ?net s2;
           s4 \<leftarrow> out_channel_ids ?n [0..<?n + ?n mod 2] s3;
           s5 \<leftarrow> out_security_data keys s4;
           let s = s_mark_end s5;
           let gcc_size = (int (s_end s) - int ud_ptr) OR 0x8000;
           s \<leftarrow> poke gcc_size_ptr (drop_bit 8 gcc_size) s;
           s \<leftarrow> poke (gcc_size_ptr + 1) gcc_size s;
           Some (self\<lparr>m_server_mcs_data := s\<rparr>) }"
    unfolding xrdp_mcs_out_gcc_data_def out_server_core_data_def out_defs out_uint8s_def b gcc_prefix_def Let_def ud_block_def
    by (simp add: out_merge Option.bind_assoc numeral_2_eq_2 del: le_bytes.simps)
  let ?size = "int (length ?ud) OR 0x8000"
  let ?s6 = "(s_mark_end s5)\<lparr>s_data := ?P @ [word_of_int (drop_bit 8 ?size), word_of_int ?size] @ ?ud @ drop (23 + length ?ud) d\<rparr>"
  have d6: "s_data (s_mark_end s5) = ?P @ [0, 0] @ ?ud @ drop (23 + length ?ud) d" using d5 by simp
  have u: "(?P @ [0, 0] @ r)[21 := a, 22 := b] = ?P @ [a, b] @ r" for a b r
    using P by (simp add: list_update_append)
  have p: "do { s \<leftarrow> poke 21 (drop_bit 8 ?size) (s_mark_end s5); poke 22 ?size s } = Some ?s6"
    using P u [of "?ud @ drop (23 + length ?ud) d" "word_of_int (drop_bit 8 ?size)" "word_of_int ?size"]
    by (simp add: poke_def list_set_def d5(1))
  have "xrdp_mcs_out_gcc_data junk keys iso_layer self =
      do { s \<leftarrow> do { s \<leftarrow> poke 21 (drop_bit 8 ?size) (s_mark_end s5); poke 22 ?size s }; Some (self\<lparr>m_server_mcs_data := s\<rparr>) }"
    unfolding chain s1(1) s2(1) s3(1) s4(1) s5(1) Option.bind.bind_lunit Let_def
    using s1(2) s2(2) d5(2) P by (simp add: wrote_def Option.bind_assoc)
  then have r: "xrdp_mcs_out_gcc_data junk keys iso_layer self = Some (self\<lparr>m_server_mcs_data := ?s6\<rparr>)"
    unfolding p by simp
  have "s_end ?s6 = 23 + length ?ud" using d5(2) by simp
  moreover have g: "gcc_bytes ?ud = ?P @ [word_of_int (drop_bit 8 ?size), word_of_int ?size] @ ?ud"
    unfolding gcc_bytes_def connect_data_def conference_response_def gcc_prefix_def le_bytes_small drop_bit_eq_div by simp
  moreover have "contents ?s6 = gcc_bytes ?ud"
    unfolding g using d5(2) P by (simp add: contents_def)
  moreover have "length (gcc_bytes ?ud) = 23 + length ?ud" by (simp add: gcc_bytes_def connect_data_def conference_response_def)
  ultimately show ?thesis using r by (intro exI [of _ ?s6]) simp
qed

subsection \<open>Sending a PDU\<close>

lemma accounted_in_s: "accounted (t\<lparr>t_status := v\<rparr>) t' \<Longrightarrow> t_in_s t' = t_in_s t"
proof -
  assume "accounted (t\<lparr>t_status := v\<rparr>) t'"
  then have q: "t' = (t\<lparr>t_status := v\<rparr>)\<lparr>t_wait_s := t_wait_s t', t_si := t_si t'\<rparr>" by (simp add: accounted_def same_trans_def)
  show ?thesis by (subst q) simp
qed

lemma xrdp_iso_send_total:
  assumes "trans_ok t" "s_iso_hdr s = 0" "7 \<le> s_end s" "s_end s \<le> s_size s" "s_size s < 2 ^ 31"
  shows "\<exists>rv taken s' t'. xrdp_iso_send junk answers a s t = Some (rv, taken, s', t') \<and> trans_ok t' \<and> t_in_s t' = t_in_s t \<and>
     queued t @ (if rv = Some 0 then tpkt (drop 7 (contents s)) else []) = taken @ queued t'"
proof -
  obtain s2 where s2: "iso_send_stream s = Some s2" "contents s2 = tpkt (drop 7 (contents s))" "s_size s2 = s_size s" "s_end s2 = s_end s"
    using iso_send_stream_ok [of s] assms by auto
  have m: "marked s2" using assms s2 by (simp add: marked_def)
  obtain rv taken t' where w: "trans_write_copy_s junk answers a s2 t = Some (rv, taken, t')" "accounted (t\<lparr>t_status := t_status t'\<rparr>) t'"
    "queued t @ (if rv = Some 0 then contents s2 else []) = taken @ queued t'"
    using write_copy_ok [OF assms(1) m] by blast
  then show ?thesis using s2 accountedD(1) [OF w(2)] accounted_in_s [OF w(2)] by (auto simp: xrdp_iso_send_def)
qed

lemma iso_init_fields:
  "s_p (xrdp_iso_init junk s) = 7" "s_iso_hdr (xrdp_iso_init junk s) = 0" "s_size s \<le> 32768 \<Longrightarrow> s_size (xrdp_iso_init junk s) = 32768"
  by (simp_all add: xrdp_iso_init_def init_stream_def Let_def s_push_layer_iso_def)

lemma send_built_ok:
  assumes build: "\<And>s. 7 \<le> s_p s \<Longrightarrow> s_p s \<le> s_size s \<Longrightarrow> build s = out_bytes bs s" and len: "length bs + 7 \<le> 32768" and t: "trans_ok t"
  shows "\<exists>rv taken t'. send_built build junk io t = Some (rv, taken, t') \<and> trans_ok t' \<and> t_in_s t' = t_in_s t \<and>
     queued t @ (if rv = Some 0 then tpkt bs else []) = taken @ queued t'"
proof -
  let ?s = "xrdp_iso_init junk (init_stream junk 8192 make_stream)"
  have s: "s_p ?s = 7" "s_iso_hdr ?s = 0" "s_size ?s = 32768"
    using iso_init_fields [where junk = junk and s = "init_stream junk 8192 make_stream"] by (simp_all add: make_stream_def)
  have b: "build ?s = out_bytes bs ?s" using s by (intro build) simp_all
  obtain s1 where s1: "out_bytes bs ?s = Some s1" "s_iso_hdr s1 = 0" "s_p s1 = 7 + length bs" "s_size s1 = 32768"
    "drop 7 (contents (s_mark_end s1)) = bs"
    using s len by (simp add: out_bytes_def contents_def del: init_stream_p)
  let ?e = "s_mark_end s1"
  have e: "s_iso_hdr ?e = 0" "7 \<le> s_end ?e" "s_end ?e \<le> s_size ?e" "s_size ?e < 2 ^ 31" using s1 len by simp_all
  obtain rv taken s' t' where w: "xrdp_iso_send junk (write_waiting io) (write_new io) ?e t = Some (rv, taken, s', t')" "trans_ok t'" "t_in_s t' = t_in_s t"
    "queued t @ (if rv = Some 0 then tpkt bs else []) = taken @ queued t'"
    using xrdp_iso_send_total [OF t e, of junk "write_waiting io" "write_new io"] s1(5) by auto
  then show ?thesis using b s1(1) by (auto simp: send_built_def)
qed

subsection \<open>Connect-Response\<close>

definition domain_bytes :: "byte list" where
  "domain_bytes = [0x30, 26, 2, 1, 22, 2, 1, 3, 2, 1, 0, 2, 1, 1, 2, 1, 0, 2, 1, 1, 2, 3, 0, 0xff, 0xf8, 2, 1, 2]"

definition response_body :: "byte list \<Rightarrow> byte list" where
  "response_body d = [10, 1, 0] @ [2, 1, 0] @ domain_bytes @ ber_bytes BER_TAG_OCTET_STRING (int (length d)) @ d"

definition connect_response_bytes :: "byte list \<Rightarrow> byte list" where
  "connect_response_bytes d =
     ber_bytes MCS_CONNECT_RESPONSE (if length d > 0x80 then int (length d) + 38 else int (length d) + 36) @ response_body d"

lemma out_domain_params_bytes: "xrdp_mcs_out_domain_params 22 3 0 0xfff8 s = out_bytes domain_bytes s"
proof -
  have b: "ber_bytes 0x30 26 = [0x30, 26]" "ber_bytes 2 1 = [2, 1]" "ber_bytes 2 3 = [2, 3]"
    by (simp_all add: ber_bytes_def le_bytes_small)
  have w: "(65528 :: byte) = 248" by (simp add: word_uint_eq_iff)
  show ?thesis
    unfolding xrdp_mcs_out_domain_params_def xrdp_mcs_ber_out_int8_def xrdp_mcs_ber_out_int24_def ber_out_header_bytes out_defs [abs_def] b domain_bytes_def
    by (simp add: out_merge out_bytes_append [symmetric] Option.bind_assoc le_bytes_small w)
qed

lemma connect_response_stream_bytes:
  assumes "contents (m_server_mcs_data self) = d" "s_end (m_server_mcs_data self) = length d"
  shows "connect_response_stream self s = out_bytes (connect_response_bytes d) s"
proof -
  have b: "ber_bytes 10 1 = [10, 1]" "ber_bytes 2 1 = [2, 1]" "le_bytes 1 0 = [0]"
    by (simp_all add: ber_bytes_def le_bytes_small)
  have o: "out_uint8p d (length d) = out_bytes d" by (intro ext) (simp add: out_take)
  show ?thesis
    unfolding connect_response_stream_def assms Let_def ber_out_header_bytes [abs_def] out_domain_params_bytes [abs_def] out_defs b
      connect_response_bytes_def response_body_def
    by (simp add: o out_bytes_append [symmetric])
qed

lemma front:
  assumes "in_wf s" "unread s = bs @ rest"
  shows "in_wf (advance (length bs) s)" "unread (advance (length bs) s) = rest"
  using assms by (simp_all add: advance_wf unread_advance)

lemma skip_ber_bytes:
  assumes "in_wf s" "unread s = ber_bytes tag (int (length body)) @ body @ rest" "0 \<le> tag" "tag < 65536" "length body < 65536"
  shows "\<exists>s'. skip_ber tag s = Some (0, s') \<and> in_wf s' \<and> unread s' = rest"
proof -
  have p: "xrdp_mcs_ber_parse_header tag s = Some (0, int (length body), advance (length (ber_bytes tag (int (length body)))) s)"
    using assms by (intro ber_parse_bytes) auto
  note f = front [OF assms(1,2)]
  let ?s = "advance (length (ber_bytes tag (int (length body)))) s"
  note g = front [OF f]
  have "s_check_rem ?s (int (length body))" using f assms(5) by (simp add: s_check_rem_wf)
  moreover have "in_uint8s (length body) ?s = advance (length body) ?s" by (simp add: in_uint8s_def advance_def)
  ultimately show ?thesis using p g by (simp add: skip_ber_def)
qed

definition response_parsed :: "byte list \<Rightarrow> byte list \<Rightarrow> bool" where
  "response_parsed pdu d \<longleftrightarrow>
     (\<forall>s. in_wf s \<and> unread s = pdu \<longrightarrow>
        (\<exists>s1 s2 s3. xrdp_mcs_ber_parse_header MCS_CONNECT_RESPONSE s = Some (0, int (length (unread s1)), s1) \<and>
           skip_fields [skip_ber BER_TAG_RESULT, skip_ber BER_TAG_INTEGER, xrdp_mcs_parse_domain_params] s1 = Some (0, s2) \<and>
           xrdp_mcs_ber_parse_header BER_TAG_OCTET_STRING s2 = Some (0, int (length (unread s3)), s3) \<and> unread s3 = d))"

lemma response_bytes_parsed:
  assumes "length d \<noteq> 0x80" "length d < 60000"
  shows "response_parsed (connect_response_bytes d) d"
  unfolding response_parsed_def
proof (intro allI impI)
  fix s assume "in_wf s \<and> unread s = connect_response_bytes d"
  then have s: "in_wf s" "unread s = connect_response_bytes d" by simp_all
  let ?n = "if length d > 0x80 then int (length d) + 38 else int (length d) + 36"
  have b: "ber_bytes 10 1 = [10, 1]" "ber_bytes 2 1 = [2, 1]" "domain_bytes = ber_bytes 0x30 26 @ drop 2 domain_bytes" "length (drop 2 domain_bytes) = 26"
    by (simp_all add: ber_bytes_def le_bytes_small domain_bytes_def)
  have n: "?n = int (length (response_body d))"
    using assms(1) by (auto simp: response_body_def ber_bytes_def domain_bytes_def)
  have h: "xrdp_mcs_ber_parse_header MCS_CONNECT_RESPONSE s = Some (0, ?n, advance (length (ber_bytes MCS_CONNECT_RESPONSE ?n)) s)"
    using s assms(2) by (intro ber_parse_bytes) (auto simp: connect_response_bytes_def)
  let ?s1 = "advance (length (ber_bytes MCS_CONNECT_RESPONSE ?n)) s"
  note s1 = front [OF s(1) s(2) [unfolded connect_response_bytes_def]]
  obtain s2 where s2: "skip_ber 10 ?s1 = Some (0, s2)" "in_wf s2" "unread s2 = [2, 1, 0] @ domain_bytes @ ber_bytes BER_TAG_OCTET_STRING (int (length d)) @ d"
    using skip_ber_bytes [OF s1(1), of 10 "[0]"] s1(2) b(1) by (auto simp: response_body_def)
  obtain s3 where s3: "skip_ber 2 s2 = Some (0, s3)" "in_wf s3" "unread s3 = domain_bytes @ ber_bytes BER_TAG_OCTET_STRING (int (length d)) @ d"
    using skip_ber_bytes [OF s2(2), of 2 "[0]"] s2(3) b(2) by auto
  have "unread s3 = ber_bytes 0x30 (int (length (drop 2 domain_bytes))) @ drop 2 domain_bytes @ ber_bytes BER_TAG_OCTET_STRING (int (length d)) @ d"
    unfolding s3(3) b(4) using b(3) by simp
  from skip_ber_bytes [OF s3(2) this] b(4)
  obtain s4 where s4: "skip_ber 0x30 s3 = Some (0, s4)" "in_wf s4" "unread s4 = ber_bytes BER_TAG_OCTET_STRING (int (length d)) @ d" by auto
  have o: "xrdp_mcs_ber_parse_header BER_TAG_OCTET_STRING s4 =
      Some (0, int (length d), advance (length (ber_bytes BER_TAG_OCTET_STRING (int (length d)))) s4)"
    using s4 assms(2) by (intro ber_parse_bytes) auto
  note s5 = front [OF s4(2,3)]
  have "skip_fields [skip_ber BER_TAG_RESULT, skip_ber BER_TAG_INTEGER, xrdp_mcs_parse_domain_params] ?s1 = Some (0, s4)"
    using s2 s3 s4 by (simp add: xrdp_mcs_parse_domain_params_def)
  then show "\<exists>s1 s2 s3. xrdp_mcs_ber_parse_header MCS_CONNECT_RESPONSE s = Some (0, int (length (unread s1)), s1) \<and>
           skip_fields [skip_ber BER_TAG_RESULT, skip_ber BER_TAG_INTEGER, xrdp_mcs_parse_domain_params] s1 = Some (0, s2) \<and>
           xrdp_mcs_ber_parse_header BER_TAG_OCTET_STRING s2 = Some (0, int (length (unread s3)), s3) \<and> unread s3 = d"
    using h n s1(2) o s5(2)
    by (intro exI [of _ ?s1] exI [of _ s4] exI [of _ "advance (length (ber_bytes BER_TAG_OCTET_STRING (int (length d)))) s4"]) simp
qed

lemma connect_response_ok:
  assumes "keys_ok keys" and "length (m_channel_list self) \<le> 2000" and "trans_ok t"
  shows "\<exists>self' rv taken t' pdu. xrdp_mcs_out_gcc_data junk keys iso_layer self = Some self' \<and>
     xrdp_mcs_send_connect_response junk io self' t = Some (rv, taken, t') \<and> trans_ok t' \<and>
     queued t @ (if rv = Some 0 then tpkt pdu else []) = taken @ queued t' \<and>
     response_parsed pdu (gcc_bytes (server_ud keys iso_layer (length (m_channel_list self)))) \<and>
     (\<exists>d. self' = self\<lparr>m_server_mcs_data := d\<rparr>) \<and> t_in_s t' = t_in_s t"
proof -
  let ?n = "length (m_channel_list self)"
  let ?d = "gcc_bytes (server_ud keys iso_layer ?n)"
  obtain s where s: "xrdp_mcs_out_gcc_data junk keys iso_layer self = Some (self\<lparr>m_server_mcs_data := s\<rparr>)" "contents s = ?d" "s_end s = length ?d"
    using out_gcc_bytes [OF assms(1,2), of junk iso_layer] by auto
  have len: "length ?d = 23 + length (server_ud keys iso_layer ?n)" by (simp add: gcc_bytes_def connect_data_def conference_response_def)
  have "?n mod 2 < 2" by simp
  then have small: "length ?d \<le> 5000" unfolding len length_server_ud [OF assms(1)] using assms(2) by (auto simp del: mod_less_divisor)
  have "odd (length ?d)" unfolding len length_server_ud [OF assms(1)] by simp
  then have "length ?d \<noteq> 0x80" by auto
  then have parsed: "response_parsed (connect_response_bytes ?d) ?d" using response_bytes_parsed small by simp
  have "length (connect_response_bytes ?d) + 7 \<le> 32768"
    using small by (simp add: connect_response_bytes_def response_body_def ber_bytes_def domain_bytes_def)
  then have fits: "length (connect_response_bytes ?d) + 7 \<le> 32768" .
  have build: "connect_response_stream (self\<lparr>m_server_mcs_data := s\<rparr>) s' = out_bytes (connect_response_bytes ?d) s'" for s'
    by (rule connect_response_stream_bytes) (use s(2,3) in simp_all)
  obtain rv taken t' where "xrdp_mcs_send_connect_response junk io (self\<lparr>m_server_mcs_data := s\<rparr>) t = Some (rv, taken, t')" "trans_ok t'"
    "t_in_s t' = t_in_s t" "queued t @ (if rv = Some 0 then tpkt (connect_response_bytes ?d) else []) = taken @ queued t'"
    using send_built_ok [OF build fits assms(3), of junk io] unfolding xrdp_mcs_send_connect_response_def by blast
  then show ?thesis using s(1) parsed by blast
qed

text \<open>
  C20. The server's answer to Connect-Initial: with up to 2000 channels and any keys, the GCC data is built inside its
  buffer; its blocks and the conference response around them state the length they have; the response that is sent is a
  BER structure whose announced length is the length it has, and the program's own BER reader finds in it a result, a
  connect id, domain parameters and the GCC data, and nothing behind it. One length is not exact: the byte the connect
  data holds for the length of the conference response is always 42, which is not its length for any number of
  channels and any keys.
\<close>

theorem connect_response_exact:
  assumes "keys_ok keys" and "length (m_channel_list self) \<le> 2000" and "trans_ok t"
  shows "\<exists>self' rv taken t' pdu blocks. xrdp_mcs_out_gcc_data junk keys iso_layer self = Some self' \<and>
     blocks = server_ud keys iso_layer (length (m_channel_list self)) \<and> length blocks < 0x4000 \<and>
     xrdp_mcs_send_connect_response junk io self' t = Some (rv, taken, t') \<and> trans_ok t' \<and>
     queued t @ (if rv = Some 0 then tpkt pdu else []) = taken @ queued t' \<and>
     response_parsed pdu (connect_data 42 (conference_response blocks)) \<and> length (conference_response blocks) \<noteq> 42"
proof -
  have "length (server_ud keys iso_layer (length (m_channel_list self))) < 0x4000"
    unfolding length_server_ud [OF assms(1)] using assms(2) mod_less_divisor [of 2 "length (m_channel_list self)"]
    by (auto simp del: mod_less_divisor)
  then show ?thesis
    using connect_response_ok [OF assms, of junk iso_layer io] connect_length_wrong [OF assms(1)] unfolding gcc_bytes_def by fastforce
qed

subsection \<open>Data\<close>

definition per_length :: "int \<Rightarrow> byte list" where
  "per_length n = (if n \<ge> 128 then rev (le_bytes 2 (n OR 0x8000)) else le_bytes 1 n)"

definition data_pdu :: "int \<Rightarrow> int \<Rightarrow> int \<Rightarrow> byte list \<Rightarrow> byte list" where
  "data_pdu op initiator chan payload =
     le_bytes 1 (4 * op) @ rev (le_bytes 2 initiator) @ rev (le_bytes 2 chan) @ [0x70] @ per_length (int (length payload)) @ payload"

lemma mcs_send_stream_ok:
  assumes s: "s_mcs_hdr s = 7" "s_iso_hdr s = 0" "15 \<le> s_end s" "s_end s < s_size s"
  shows "\<exists>s'. mcs_send_stream self chan s = Some s' \<and> s_iso_hdr s' = 0 \<and> s_size s' = s_size s \<and> s_end s' \<le> s_end s \<and>
     7 \<le> s_end s' \<and> drop 7 (contents s') = data_pdu MCS_SDIN (m_userid self) chan (drop 15 (contents s))"
proof -
  define d n where "d = s_data s" and "n = s_end s - 15"
  have n: "s_end s = 15 + n" "15 + n < length d" using s by (auto simp: n_def d_def)
  obtain h where h: "h = le_bytes 1 (4 * MCS_SDIN) @ rev (le_bytes 2 (m_userid self)) @ rev (le_bytes 2 chan) @ [0x70]" "length h = 6" by simp
  have b: "le_bytes 1 (push_bit 2 MCS_SDIN) = le_bytes 1 (4 * MCS_SDIN)" "le_bytes 1 0x70 = [0x70]" by simp_all
  have p: "drop 15 (contents s) = take n (drop 15 d)" "length (take n (drop 15 d)) = n"
    using n by (simp_all add: contents_def d_def drop_take)
  let ?s = "s_pop_layer_mcs s"
  have f: "s_p ?s = 7" "s_data ?s = d" "s_end ?s = 15 + n" "s_iso_hdr ?s = 0" using s n by (simp_all add: d_def)
  have pdu: "data_pdu MCS_SDIN (m_userid self) chan (drop 15 (contents s)) = h @ per_length (int n) @ take n (drop 15 d)"
    unfolding p data_pdu_def h(1) by simp
  have size: "s_size s = length d" by (simp add: d_def)
  show ?thesis
  proof (cases "n \<ge> 128")
    case True
    obtain l where l: "l = rev (le_bytes 2 (int n OR 0x8000))" "length l = 2" by simp
    have "mcs_send_stream self chan s = out_bytes (h @ l) ?s"
      unfolding mcs_send_stream_def out_defs b Let_def h(1) l(1) using True f
      by (simp add: out_bytes_append [symmetric] del: le_bytes.simps)
    also have "\<dots> = Some (?s\<lparr>s_data := take 7 d @ (h @ l) @ drop 15 d, s_p := 15\<rparr>)"
      using n f h(2) l(2) by (simp add: out_bytes_def)
    finally show ?thesis
      unfolding pdu size using True n f(3,4) h(2) l by (simp add: contents_def per_length_def)
  next
    case False
    obtain l where l: "l = le_bytes 1 (int n)" "length l = 1" by simp
    let ?d = "take 7 d @ (h @ l) @ drop 14 d"
    have o: "out_bytes (h @ l) ?s = Some (?s\<lparr>s_data := ?d, s_p := 14\<rparr>)"
      using n f h(2) l(2) by (simp add: out_bytes_def)
    have "mcs_send_stream self chan s = do { s \<leftarrow> out_bytes (h @ l) ?s;
                    let lp = s_p s;
                    let d = s_data s;
                    d \<leftarrow> (if lp < s_end s
                         then if s_end s < s_size s
                              then Some (take lp d @ take (s_end s - lp) (drop (lp + 1) d) @ drop (s_end s) d)
                              else None
                         else Some d);
                    Some (s\<lparr>s_data := d, s_end := s_end s - 1\<rparr>) }"
      unfolding mcs_send_stream_def out_defs b h(1) l(1) using False f by (simp add: out_merge del: le_bytes.simps)
    also have "\<dots> = Some (?s\<lparr>s_data := take 14 ?d @ take (n + 1) (drop 15 ?d) @ drop (15 + n) ?d, s_p := 14, s_end := 14 + n\<rparr>)"
      unfolding o using n f h(2) l(2) by (simp add: Let_def)
    finally show ?thesis
      unfolding pdu size using False n f(3,4) h(2) l by (simp add: contents_def per_length_def)
  qed
qed

lemma length_determinant:
  "0 \<le> v \<Longrightarrow> v < 128 \<Longrightarrow> v AND 0xC0 \<noteq> (0x80 :: int) \<and> v AND 0xC0 \<noteq> 0xC0"
  "0 \<le> v \<Longrightarrow> v < 64 \<Longrightarrow> (0x80 + v) AND 0xC0 = (0x80 :: int)"
  "64 \<le> v \<Longrightarrow> v < 128 \<Longrightarrow> (0x80 + v) AND 0xC0 = (0xC0 :: int)"
proof -
  have "\<forall>v \<in> set [0..127]. v AND 0xC0 \<noteq> (0x80 :: int) \<and> v AND 0xC0 \<noteq> 0xC0" by code_simp
  then show "0 \<le> v \<Longrightarrow> v < 128 \<Longrightarrow> v AND 0xC0 \<noteq> (0x80 :: int) \<and> v AND 0xC0 \<noteq> 0xC0" by simp
  have "\<forall>v \<in> set [0..63]. (0x80 + v) AND 0xC0 = (0x80 :: int)" by code_simp
  then show "0 \<le> v \<Longrightarrow> v < 64 \<Longrightarrow> (0x80 + v) AND 0xC0 = (0x80 :: int)" by simp
  have "\<forall>v \<in> set [64..127]. (0x80 + v) AND 0xC0 = (0xC0 :: int)" by code_simp
  then show "64 \<le> v \<Longrightarrow> v < 128 \<Longrightarrow> (0x80 + v) AND 0xC0 = (0xC0 :: int)" by (simp only: set_upto Ball_def atLeastAtMost_iff) auto
qed

lemma or_0x8000: "0 \<le> n \<Longrightarrow> n < 0x8000 \<Longrightarrow> n OR 0x8000 = n + (0x8000 :: int)"
proof -
  assume n: "0 \<le> n" "n < 0x8000"
  then have "take_bit 15 n = n" by (simp add: take_bit_int_eq_self)
  then have small: "bit n k \<Longrightarrow> k < 15" for k by (metis bit_take_bit_iff)
  have "bit ((2 :: int) ^ 15) k \<longleftrightarrow> k = 15" for k unfolding bit_exp_iff by auto
  then have "bit (0x8000 :: int) k \<longleftrightarrow> k = 15" for k by simp
  then have "n + 0x8000 = n OR 0x8000" by (intro disjunctive_add) (auto dest: small)
  then show ?thesis by simp
qed

lemma front_n:
  "in_wf s \<Longrightarrow> unread s = bs @ rest \<Longrightarrow> length bs = n \<Longrightarrow> in_wf (advance n s) \<and> unread (advance n s) = rest"
  using front [of s bs rest] by auto

lemma recv_data_request_ok:
  assumes "in_wf s" "unread s = rev (le_bytes 2 u) @ rev (le_bytes 2 c) @ [0x70] @ per_length (int (length p)) @ p"
    and "0 \<le> c" "c < 65536" "length p < 0x8000"
  shows "\<exists>s'. recv_data_request MCS_SDRQ s = Some (if length p < 0x4000 then 0 else 1, c, s') \<and> (length p < 0x4000 \<longrightarrow> in_wf s' \<and> unread s' = p)"
proof -
  let ?n = "int (length p)"
  consider (short) "?n < 128" | (long) "128 \<le> ?n" "?n < 0x4000" | (too_long) "0x4000 \<le> ?n" by linarith
  then show ?thesis
  proof cases
    case short
    obtain b where b: "b = (word_of_int ?n :: byte)" by simp
    have ub: "uint b = ?n" using short by (simp only: b uint_byte) simp
    have bytes: "unread s = [word_of_int (u div 256), word_of_int u, word_of_int (c div 256), word_of_int c, 0x70, b] @ p"
      using assms(2) short by (simp add: le_bytes_small per_length_def b)
    have "recv_data_request MCS_SDRQ (advance 0 s) = Some (0, c, advance 6 s)"
      using assms(1,3,4) bytes short length_determinant(1) [of ?n] ub
      by (simp add: recv_data_request_def at_simps uint_byte high_low Let_def eval_nat_numeral del: advance_simps(1))
    then show ?thesis using front_n [OF assms(1) bytes, of 6] short by simp
  next
    case long
    have v: "?n OR 0x8000 = ?n + 0x8000" using long by (intro or_0x8000) simp_all
    have hi: "(?n + 0x8000) div 256 mod 256 = 0x80 + ?n div 256" "?n div 256 < 64" using long by auto
    obtain b b' where b: "b = (word_of_int ((?n + 0x8000) div 256) :: byte)" "b' = (word_of_int (?n + 0x8000) :: byte)" by simp
    have ub: "uint b = 0x80 + ?n div 256" by (simp only: b uint_byte hi)
    have bytes: "unread s = [word_of_int (u div 256), word_of_int u, word_of_int (c div 256), word_of_int c, 0x70, b, b'] @ p"
      using assms(2) long v by (simp add: le_bytes_small per_length_def b)
    have "recv_data_request MCS_SDRQ (advance 0 s) = Some (0, c, advance 7 s)"
      using assms(1,3,4) bytes hi ub length_determinant(2) [of "?n div 256"]
      by (simp add: recv_data_request_def at_simps uint_byte high_low Let_def eval_nat_numeral del: advance_simps(1))
    then show ?thesis using front_n [OF assms(1) bytes, of 7] long by simp
  next
    case too_long
    have n: "?n < 0x8000" using assms(5) by simp
    have v: "?n OR 0x8000 = ?n + 0x8000" using n by (intro or_0x8000) simp_all
    have hi: "(?n + 0x8000) div 256 mod 256 = 0x80 + ?n div 256" "?n div 256 < 128" "64 \<le> ?n div 256" using too_long n by auto
    obtain b b' where b: "b = (word_of_int ((?n + 0x8000) div 256) :: byte)" "b' = (word_of_int (?n + 0x8000) :: byte)" by simp
    have ub: "uint b = 0x80 + ?n div 256" by (simp only: b uint_byte hi)
    have bytes: "unread s = [word_of_int (u div 256), word_of_int u, word_of_int (c div 256), word_of_int c, 0x70, b, b'] @ p"
      using assms(2) too_long v by (simp add: le_bytes_small per_length_def b)
    have "\<exists>s'. recv_data_request MCS_SDRQ (advance 0 s) = Some (1, c, s')"
      using assms(1,3,4) bytes hi ub length_determinant(3) [of "?n div 256"]
      by (simp add: recv_data_request_def at_simps uint_byte high_low Let_def eval_nat_numeral del: advance_simps(1))
    then show ?thesis using too_long by auto
  qed
qed

lemma pdu_header_ok:
  assumes "in_wf s" "unread s = tpkt (le_bytes 1 (4 * op) @ rest)" "0 \<le> op" "op < 64"
  shows "\<exists>s'. get_domain_mcs_pdu_header s = Some (0, op, s') \<and> in_wf s' \<and> unread s' = rest"
proof -
  note r = xrdp_iso_recv_tpkt [OF assms(1,2)]
  have "in_wf (advance 7 s)" using assms(1,2) by (intro advance_wf) simp_all
  obtain b where b: "b = (word_of_int (4 * op) :: byte)" by simp
  have ub: "uint b = 4 * op" using assms(3,4) by (simp only: b uint_byte) simp
  have u: "unread (advance 7 s) = [b] @ rest" using r b by simp
  note f = front [OF \<open>in_wf (advance 7 s)\<close> u]
  have "in_uint8 (advance 0 (advance 7 s)) = Some (4 * op, advance 1 (advance 7 s))"
    using \<open>in_wf (advance 7 s)\<close> u ub by (simp add: at_simps del: advance_simps(1,2))
  moreover have "s_check_rem (advance 7 s) 1" using \<open>in_wf (advance 7 s)\<close> u by (simp add: s_check_rem_wf)
  moreover have "drop_bit 2 (4 * op) = op" by (simp add: drop_bit_eq_div)
  ultimately show ?thesis using r f by (simp add: get_domain_mcs_pdu_header_def)
qed

text \<open>
  C18. Data goes through the MCS layer unchanged in both directions and on its channel. What
  \<^verbatim>\<open>xrdp_mcs_send\<close> hands to the transport is the data PDU of the payload, with a length of one byte
  below 128 and of two bytes otherwise, and the callback runs after a success on the global channel
  only. A data PDU of the client with the same format is read to its payload if that is shorter
  than 16384 bytes and refused otherwise; the size \<^verbatim>\<open>xrdp_mcs_send\<close> can announce ends there, too.
\<close>

theorem mcs_data_exact:
  assumes "s_size s0 \<le> 32768" and "out_bytes payload (xrdp_mcs_init junk s0) = Some s1" and "length payload + 15 < 32768"
    and "trans_ok t" and "0 \<le> chan" and "chan < 65536"
  shows "(\<exists>rv taken s' t'. xrdp_mcs_send junk io self chan (s_mark_end s1) t = Some (rv, rv = Some 0 \<and> chan = MCS_GLOBAL_CHANNEL, taken, s', t') \<and>
            trans_ok t' \<and>
            queued t @ (if rv = Some 0 then tpkt (data_pdu MCS_SDIN (m_userid self) chan payload) else []) = taken @ queued t') \<and>
     (\<forall>self' tr initiator. in_wf (t_in_s tr) \<and> unread (t_in_s tr) = tpkt (data_pdu MCS_SDRQ initiator chan payload) \<longrightarrow>
        (\<exists>s2. xrdp_mcs_recv junk ios self' tr = Some (Some (if length payload < 0x4000 then 0 else 1), chan, [],
                  self'\<lparr>m_expecting_channel_join_requests := False\<rparr>, tr\<lparr>t_in_s := s2\<rparr>) \<and>
                (length payload < 0x4000 \<longrightarrow> unread s2 = payload)))"
proof -
  have i: "s_p (xrdp_mcs_init junk s0) = 15" "s_mcs_hdr (xrdp_mcs_init junk s0) = 7" "s_iso_hdr (xrdp_mcs_init junk s0) = 0"
    "s_size (xrdp_mcs_init junk s0) = 32768"
    using iso_init_fields [where junk = junk and s = s0] assms(1) by (simp_all add: xrdp_mcs_init_def)
  let ?e = "s_mark_end s1"
  have e: "s_mcs_hdr ?e = 7" "s_iso_hdr ?e = 0" "s_end ?e = 15 + length payload" "s_size ?e = 32768" "drop 15 (contents ?e) = payload"
    using assms(2) i by (auto simp: out_bytes_def contents_def split: if_split_asm)
  obtain s' where s': "mcs_send_stream self chan ?e = Some s'" "s_iso_hdr s' = 0" "s_size s' = 32768" "s_end s' \<le> 32768" "7 \<le> s_end s'"
    "drop 7 (contents s') = data_pdu MCS_SDIN (m_userid self) chan payload"
    using mcs_send_stream_ok [of ?e self chan] e assms(3) by auto
  have "s_end s' \<le> s_size s'" "s_size s' < 2 ^ 31" using s' by simp_all
  then obtain rv taken s'' t' where w: "xrdp_iso_send junk (write_waiting io) (write_new io) s' t = Some (rv, taken, s'', t')" "trans_ok t'"
    "queued t @ (if rv = Some 0 then tpkt (drop 7 (contents s')) else []) = taken @ queued t'"
    using xrdp_iso_send_total [OF assms(4) s'(2,5), of junk "write_waiting io" "write_new io"] by blast
  have "xrdp_mcs_send junk io self chan ?e t = Some (map_option (\<lambda>v. if v \<noteq> 0 then 1 else 0) rv, rv = Some 0 \<and> chan = MCS_GLOBAL_CHANNEL, taken, s'', t')"
    using s'(1) w(1) by (simp add: xrdp_mcs_send_def)
  moreover have "map_option (\<lambda>v. if v \<noteq> 0 then 1 else 0) rv = Some (0 :: int) \<longleftrightarrow> rv = Some 0" by (auto split: if_split_asm)
  ultimately have "\<exists>rv taken s' t'. xrdp_mcs_send junk io self chan ?e t = Some (rv, rv = Some 0 \<and> chan = MCS_GLOBAL_CHANNEL, taken, s', t') \<and>
            trans_ok t' \<and>
            queued t @ (if rv = Some 0 then tpkt (data_pdu MCS_SDIN (m_userid self) chan payload) else []) = taken @ queued t'"
    using w(2,3) unfolding s'(6) by (intro exI [of _ "map_option (\<lambda>v. if v \<noteq> 0 then 1 else 0) rv"] exI [of _ taken] exI [of _ s''] exI [of _ t']) simp
  moreover have "\<exists>s2. xrdp_mcs_recv junk ios self' tr = Some (Some (if length payload < 0x4000 then 0 else 1), chan, [],
                  self'\<lparr>m_expecting_channel_join_requests := False\<rparr>, tr\<lparr>t_in_s := s2\<rparr>) \<and>
                (length payload < 0x4000 \<longrightarrow> unread s2 = payload)"
    if q: "in_wf (t_in_s tr)" "unread (t_in_s tr) = tpkt (data_pdu MCS_SDRQ initiator chan payload)" for self' tr initiator
  proof -
    obtain s2 where h: "get_domain_mcs_pdu_header (t_in_s tr) = Some (0, MCS_SDRQ, s2)" "in_wf s2"
      "unread s2 = rev (le_bytes 2 initiator) @ rev (le_bytes 2 chan) @ [0x70] @ per_length (int (length payload)) @ payload"
      using pdu_header_ok [OF q(1), of MCS_SDRQ] q(2) by (auto simp: data_pdu_def)
    obtain s3 where d: "recv_data_request MCS_SDRQ s2 = Some (if length payload < 0x4000 then 0 else 1, chan, s3)"
      "length payload < 0x4000 \<longrightarrow> unread s3 = payload"
      using recv_data_request_ok [OF h(2,3) assms(5,6)] assms(3) by auto
    have "self'\<lparr>m_expecting_channel_join_requests := False\<rparr> = self'" if "\<not> m_expecting_channel_join_requests self'"
      using that by (cases self') simp
    then show ?thesis
      using h(1) d by (auto simp: xrdp_mcs_recv_def handle_channel_join_requests.simps Let_def)
  qed
  ultimately show ?thesis by blast
qed

subsection \<open>Arbitrary input\<close>

lemma xrdp_iso_recv_ok: "in_wf s \<Longrightarrow> \<exists>rv s'. xrdp_iso_recv s = Some (rv, s') \<and> parsed s s'"
proof -
  assume wf: "in_wf s"
  show ?thesis
    by (rule recv_msg_cases [OF wf]) (auto simp: xrdp_iso_recv_def intro: parsed_advance)
qed

lemma in_byte_ok:
  assumes "in_wf s" "s_check_rem s 1"
  shows "\<exists>v. in_uint8 s = Some (v, advance 1 s) \<and> in_wf (advance 1 s) \<and> parsed s (advance 1 s) \<and> 0 \<le> v \<and> v < 256"
proof -
  have l: "0 + 1 \<le> length (unread s)" using assms by (simp add: s_check_rem_wf)
  have "in_uint8 s = Some (uint (unread s ! 0), advance 1 s)"
    using in_uint8_at [OF assms(1) l] by simp
  moreover have "uint (unread s ! 0) < 256" using uint_lt2p [of "unread s ! 0"] by simp
  ultimately show ?thesis using assms(1) l by (auto intro: advance_wf parsed_advance)
qed

lemma in_two_ok:
  assumes "in_wf s" "s_check_rem s 2"
  shows "\<exists>v. in_uint16_be s = Some (v, advance 2 s) \<and> in_wf (advance 2 s) \<and> parsed s (advance 2 s) \<and> 0 \<le> v \<and> v < 65536"
proof -
  have l: "0 + 2 \<le> length (unread s)" using assms by (simp add: s_check_rem_wf)
  have "in_uint16_be s = Some (256 * uint (unread s ! 0) + uint (unread s ! Suc 0), advance 2 s)"
    using in_uint16_be_at [OF assms(1) l] by (simp add: numeral_2_eq_2)
  moreover have "uint (unread s ! 0) < 256" "uint (unread s ! Suc 0) < 256"
    using uint_lt2p [of "unread s ! 0"] uint_lt2p [of "unread s ! Suc 0"] by simp_all
  then have "256 * uint (unread s ! 0) + uint (unread s ! Suc 0) < 65536" by linarith
  ultimately show ?thesis using assms(1) l by (auto intro: advance_wf parsed_advance)
qed

lemma skip_ok:
  assumes "in_wf s" "s_check_rem s (int n)" "n < 2 ^ 31"
  shows "in_wf (in_uint8s n s) \<and> parsed s (in_uint8s n s) \<and> in_uint8s n s = advance n s"
proof -
  have "n \<le> length (unread s)" using assms by (simp add: s_check_rem_wf)
  then show ?thesis using assms(1) by (auto simp: in_uint8s_def advance_def [symmetric] intro: advance_wf parsed_advance)
qed

lemma c_int_less: "c_int v < 2 ^ 31"
  using signed_take_bit_int_less_exp [of 31 v] by (simp add: c_int_def)

lemma ber_long_length_ok:
  "in_wf s \<Longrightarrow> len < 2 ^ 31 \<Longrightarrow> \<exists>rv len' s'. ber_long_length l len s = Some (rv, len', s') \<and> parsed s s' \<and> len' < 2 ^ 31"
proof (induction l arbitrary: len s)
  case 0
  then show ?case by simp
next
  case (Suc l)
  show ?case
  proof (cases "s_check_rem s 1")
    case False
    then show ?thesis using Suc.prems by simp
  next
    case True
    obtain v where v: "in_uint8 s = Some (v, advance 1 s)" "in_wf (advance 1 s)" "parsed s (advance 1 s)"
      using in_byte_ok [OF Suc.prems(1) True] by blast
    obtain rv len' s' where "ber_long_length l (c_int (push_bit 8 len OR v)) (advance 1 s) = Some (rv, len', s')" "parsed (advance 1 s) s'" "len' < 2 ^ 31"
      using Suc.IH [OF v(2) c_int_less] by blast
    then show ?thesis using True v parsed_trans [OF Suc.prems(1) v(3)] by simp
  qed
qed

lemma ber_parse_header_ok:
  assumes "in_wf s"
  shows "\<exists>rv len s'. xrdp_mcs_ber_parse_header tag s = Some (rv, len, s') \<and> parsed s s' \<and> len < 2 ^ 31"
proof -
  let ?n = "if tag > 0xff then 2 else 1 :: nat"
  show ?thesis
  proof (cases "s_check_rem s (int ?n)")
    case False
    then show ?thesis by (auto simp: xrdp_mcs_ber_parse_header_def split: if_split_asm)
  next
    case True
    obtain v s1 where v: "(if tag > 0xff then in_uint16_be s else in_uint8 s) = Some (v, s1)" "in_wf s1" "parsed s s1"
      using in_byte_ok [OF assms] in_two_ok [OF assms] True by (auto split: if_split_asm)
    show ?thesis
    proof (cases "v = tag \<and> s_check_rem s1 1")
      case False
      then show ?thesis using True v by (auto simp: xrdp_mcs_ber_parse_header_def Let_def split: if_split_asm)
    next
      case tag: True
      obtain l where l: "in_uint8 s1 = Some (l, advance 1 s1)" "in_wf (advance 1 s1)" "parsed s1 (advance 1 s1)" "l < 2 ^ 31"
        using in_byte_ok [OF v(2)] tag by fastforce
      obtain rv len s' where r: "ber_long_length (nat (l AND 0x7f)) 0 (advance 1 s1) = Some (rv, len, s')" "parsed (advance 1 s1) s'" "len < 2 ^ 31"
        using ber_long_length_ok [OF l(2), of 0 "nat (l AND 0x7f)"] by auto
      have p: "parsed s (advance 1 s1)" by (rule parsed_trans [OF assms v(3) l(3)])
      then show ?thesis using True v tag l r parsed_trans [OF assms p r(2)]
        by (auto simp: xrdp_mcs_ber_parse_header_def Let_def split: if_split_asm)
    qed
  qed
qed

lemma skip_ber_ok:
  assumes "in_wf s"
  shows "\<exists>rv s'. skip_ber tag s = Some (rv, s') \<and> parsed s s'"
proof -
  obtain rv len s1 where h: "xrdp_mcs_ber_parse_header tag s = Some (rv, len, s1)" "parsed s s1" "len < 2 ^ 31" using ber_parse_header_ok [OF assms] by blast
  note wf = parsed_wf [OF assms h(2)]
  show ?thesis
  proof (cases "rv = 0 \<and> 0 \<le> len \<and> s_check_rem s1 len")
    case False
    then show ?thesis using h by (auto simp: skip_ber_def)
  next
    case True
    have "nat len \<le> length (unread s1)" using True s_check_rem_wf [OF wf, of len] h(3) by simp
    then have "parsed s1 (in_uint8s (nat len) s1)" by (simp add: in_uint8s_def advance_def [symmetric] parsed_advance)
    then show ?thesis using True h parsed_trans [OF assms h(2)] by (simp add: skip_ber_def)
  qed
qed

lemma skip_fields_ok:
  "in_wf s \<Longrightarrow> (\<And>f s. f \<in> set fs \<Longrightarrow> in_wf s \<Longrightarrow> \<exists>rv s'. f s = Some (rv, s') \<and> parsed s s') \<Longrightarrow>
     \<exists>rv s'. skip_fields fs s = Some (rv, s') \<and> parsed s s'"
proof (induction fs arbitrary: s)
  case Nil
  then show ?case by simp
next
  case (Cons f fs)
  obtain rv s1 where f: "f s = Some (rv, s1)" "parsed s s1" using Cons.prems(2) [of f s] Cons.prems(1) by auto
  obtain rv' s2 where r: "skip_fields fs s1 = Some (rv', s2)" "parsed s1 s2"
    using Cons.IH [OF parsed_wf [OF Cons.prems(1) f(2)]] Cons.prems(2) by auto
  then show ?case using f parsed_trans [OF Cons.prems(1) f(2) r(2)] by auto
qed

text \<open>What a Connect-Initial that is accepted leaves: the user data is the end of the PDU.\<close>

lemma parse_connect_initial_ok:
  assumes "in_wf s" "marked d"
  shows "\<exists>rv s' d'. parse_connect_initial junk d s = Some (rv, s', d') \<and> parsed s s' \<and> marked d' \<and>
     (rv = 0 \<longrightarrow> contents d' \<noteq> [] \<and> length (contents d') \<le> 16384 \<and> (\<exists>before. unread s = before @ contents d'))"
proof -
  obtain rv1 s1 where a1: "xrdp_iso_recv s = Some (rv1, s1)" "parsed s s1" using xrdp_iso_recv_ok [OF assms(1)] by blast
  note w1 = parsed_wf [OF assms(1) a1(2)]
  obtain rv2 len2 s2 where a2: "xrdp_mcs_ber_parse_header MCS_CONNECT_INITIAL s1 = Some (rv2, len2, s2)" "parsed s1 s2"
    using ber_parse_header_ok [OF w1] by blast
  note w2 = parsed_wf [OF w1 a2(2)] and p2 = parsed_trans [OF assms(1) a1(2) a2(2)]
  let ?fs = "[skip_ber BER_TAG_OCTET_STRING, skip_ber BER_TAG_OCTET_STRING, skip_ber BER_TAG_BOOLEAN,
                       xrdp_mcs_parse_domain_params, xrdp_mcs_parse_domain_params, xrdp_mcs_parse_domain_params]"
  have "\<exists>rv s'. skip_fields ?fs s2 = Some (rv, s') \<and> parsed s2 s'"
    by (rule skip_fields_ok [OF w2]) (auto simp: xrdp_mcs_parse_domain_params_def skip_ber_ok)
  then obtain rv3 s3 where a3: "skip_fields ?fs s2 = Some (rv3, s3)" "parsed s2 s3" by blast
  note w3 = parsed_wf [OF w2 a3(2)] and p3 = parsed_trans [OF assms(1) p2 a3(2)]
  obtain rv4 len s4 where a4: "xrdp_mcs_ber_parse_header BER_TAG_OCTET_STRING s3 = Some (rv4, len, s4)" "parsed s3 s4" "len < 2 ^ 31"
    using ber_parse_header_ok [OF w3] by blast
  note w4 = parsed_wf [OF w3 a4(2)] and p4 = parsed_trans [OF assms(1) p3 a4(2)]
  show ?thesis
  proof (cases "rv1 = 0 \<and> rv2 = 0 \<and> rv3 = 0 \<and> rv4 = 0 \<and> 0 < len \<and> len \<le> 16 * 1024 \<and> s_check_rem s4 len")
    case False
    then show ?thesis
      using a1(1) a2(1) a3(1) a4(1) a1(2) p2 p3 p4 assms(2) by (auto simp: parse_connect_initial_def simp del: skip_fields.simps)
  next
    case True
    let ?n = "nat len"
    have n: "?n \<le> length (unread s4)" "0 < ?n" "?n \<le> 16384" using True s_check_rem_wf [OF w4, of len] by auto
    let ?data = "take ?n (unread s4)"
    have i: "in_uint8a ?n s4 = Some (?data, advance ?n s4)" using in_uint8a_at [OF w4, of 0 ?n] n by simp
    let ?d0 = "init_stream junk ?n d"
    have size: "?n \<le> s_size ?d0" "s_size ?d0 < 2 ^ 31" using assms(2) n(3) by (auto simp: init_stream_def marked_def)
    have w: "wrote (s_data ?d0) [] ?d0" by (rule wrote_start) simp
    obtain d1 where d1: "out_bytes ?data ?d0 = Some d1" "wrote (s_data ?d0) ?data d1"
      using wrote_out [OF w, of ?data] size n(1) by auto
    have l: "length ?data = ?n" using n(1) by simp
    have c: "contents (s_mark_end d1) = ?data" "marked (s_mark_end d1)"
      using d1(2) size l by (auto simp: wrote_def contents_def marked_def)
    have p5: "parsed s4 (advance ?n s4)" using n(1) by (rule parsed_advance)
    let ?rv = "if s_check_end (advance ?n s4) then 0 else 1 :: int"
    have r: "parse_connect_initial junk d s = Some (?rv, advance ?n s4, s_mark_end d1)"
      using a1(1) a2(1) a3(1) a4(1) True i d1(1) l by (simp add: parse_connect_initial_def out_take Let_def del: skip_fields.simps)
    have e: "unread s4 = ?data" if "?rv = 0"
    proof -
      have "s_check_end (advance ?n s4)" using that by (auto split: if_split_asm)
      then have "?n = length (unread s4)" using s_check_end_at [OF w4 n(1)] by simp
      then show ?thesis by simp
    qed
    obtain k where "s4 = advance k s" "k \<le> length (unread s)" using p4 by (auto simp: parsed_def)
    then have "unread s4 = drop k (unread s)" using assms(1) by (simp add: unread_advance)
    then have "unread s = take k (unread s) @ unread s4" by simp
    then have "\<exists>before. unread s = before @ ?data" if "?rv = 0" using e [OF that] by metis
    moreover have "?data \<noteq> []" "length ?data \<le> 16384" using l n(2,3) by auto
    ultimately show ?thesis using r c parsed_trans [OF assms(1) p4 p5] by (intro exI [of _ ?rv] exI [of _ "advance ?n s4"] exI [of _ "s_mark_end d1"]) simp
  qed
qed

definition mcs_ok :: "xrdp_mcs \<Rightarrow> bool" where
  "mcs_ok self \<longleftrightarrow> 0 \<le> m_userid self \<and> m_userid self < 65536 \<and> marked (m_client_mcs_data self)"

lemma recv_non_standard_ok:
  assumes "in_wf s" "mcs_ok self"
  shows "\<exists>rv self' s'. recv_non_standard opcode self s = Some (rv, self', s') \<and> parsed s s' \<and> mcs_ok self'"
proof (cases "opcode AND 2 \<noteq> 0 \<and> s_check_rem s 2")
  case True
  obtain v where "in_uint16_be s = Some (v, advance 2 s)" "parsed s (advance 2 s)" "0 \<le> v" "v < 65536"
    using in_two_ok [OF assms(1)] True by blast
  then show ?thesis using True assms(2) by (simp add: mcs_ok_def recv_non_standard_def)
next
  case False
  then show ?thesis using assms(2) by (auto simp: recv_non_standard_def)
qed

lemma in_uint8s_advance: "in_uint8s n s = advance n s"
  by (simp add: in_uint8s_def advance_def)

lemma parse_aurq_ok:
  assumes "in_wf s" "mcs_ok self"
  shows "\<exists>rv self' s'. parse_aurq self s = Some (rv, self', s') \<and> parsed s s' \<and> mcs_ok self'"
proof -
  obtain rv1 s1 where a1: "xrdp_iso_recv s = Some (rv1, s1)" "parsed s s1" using xrdp_iso_recv_ok [OF assms(1)] by blast
  note w1 = parsed_wf [OF assms(1) a1(2)]
  show ?thesis
  proof (cases "rv1 = 0 \<and> s_check_rem s1 1")
    case False
    then show ?thesis using a1 assms(2) by (auto simp: parse_aurq_def)
  next
    case True
    obtain v where v: "in_uint8 s1 = Some (v, advance 1 s1)" "in_wf (advance 1 s1)" "parsed s1 (advance 1 s1)"
      using in_byte_ok [OF w1] True by blast
    obtain rv self' s' where u: "recv_non_standard v self (advance 1 s1) = Some (rv, self', s')" "parsed (advance 1 s1) s'" "mcs_ok self'"
      using recv_non_standard_ok [OF v(2) assms(2)] by blast
    have p: "parsed s (advance 1 s1)" by (rule parsed_trans [OF assms(1) a1(2) v(3)])
    have "parse_aurq self s = (if drop_bit 2 v \<noteq> MCS_AURQ then Some (1, self, advance 1 s1)
        else if rv \<noteq> 0 then Some (1, self', s') else Some (if s_check_end s' then 0 else 1, self', s'))"
      using a1(1) v(1) True u(1) by (simp add: parse_aurq_def)
    then show ?thesis using p parsed_trans [OF assms(1) p u(2)] u(3) assms(2) by simp
  qed
qed

lemma parse_edrq_ok:
  assumes "in_wf s" "mcs_ok self"
  shows "\<exists>rv self' s'. parse_edrq self s = Some (rv, self', s') \<and> parsed s s' \<and> mcs_ok self'"
proof -
  obtain rv1 s1 where a1: "xrdp_iso_recv s = Some (rv1, s1)" "parsed s s1" using xrdp_iso_recv_ok [OF assms(1)] by blast
  note w1 = parsed_wf [OF assms(1) a1(2)]
  show ?thesis
  proof (cases "rv1 = 0 \<and> s_check_rem s1 1")
    case False
    then show ?thesis using a1 assms(2) by (auto simp: parse_edrq_def)
  next
    case True
    obtain v where v: "in_uint8 s1 = Some (v, advance 1 s1)" "in_wf (advance 1 s1)" "parsed s1 (advance 1 s1)"
      using in_byte_ok [OF w1] True by blast
    have p: "parsed s (advance 1 s1)" by (rule parsed_trans [OF assms(1) a1(2) v(3)])
    let ?s2 = "in_uint8s 2 (in_uint8s 2 (advance 1 s1))"
    show ?thesis
    proof (cases "drop_bit 2 v = MCS_EDRQ \<and> s_check_rem (advance 1 s1) 4")
      case False
      then show ?thesis using a1(1) v(1) True p assms(2) by (auto simp: parse_edrq_def)
    next
      case body: True
      have l: "4 \<le> length (unread (advance 1 s1))" using body v(2) by (simp add: s_check_rem_wf)
      have s2: "?s2 = advance 4 (advance 1 s1)" by (simp add: in_uint8s_def advance_def)
      have w2: "in_wf ?s2" "parsed (advance 1 s1) ?s2"
        using advance_wf [OF v(2) l] parsed_advance [OF l] by (simp_all only: s2)
      obtain rv self' s' where u: "recv_non_standard v self ?s2 = Some (rv, self', s')" "parsed ?s2 s'" "mcs_ok self'"
        using recv_non_standard_ok [OF w2(1) assms(2)] by blast
      have "parse_edrq self s = (if rv \<noteq> 0 then Some (1, self', s') else Some (if s_check_end s' then 0 else 1, self', s'))"
        using a1(1) v(1) True body u(1) by (simp add: parse_edrq_def Let_def)
      then show ?thesis using parsed_trans [OF assms(1) parsed_trans [OF assms(1) p w2(2)] u(2)] u(3) by simp
    qed
  qed
qed

lemma pdu_header_safe:
  assumes "in_wf s"
  shows "\<exists>rv appid s'. get_domain_mcs_pdu_header s = Some (rv, appid, s') \<and> parsed s s'"
proof -
  obtain rv1 s1 where a1: "xrdp_iso_recv s = Some (rv1, s1)" "parsed s s1" using xrdp_iso_recv_ok [OF assms(1)] by blast
  note w1 = parsed_wf [OF assms(1) a1(2)]
  show ?thesis
  proof (cases "rv1 = 0 \<and> s_check_rem s1 1")
    case False
    then show ?thesis using a1 by (auto simp: get_domain_mcs_pdu_header_def)
  next
    case True
    obtain v where v: "in_uint8 s1 = Some (v, advance 1 s1)" "parsed s1 (advance 1 s1)"
      using in_byte_ok [OF w1] True by blast
    then show ?thesis using a1(1) True parsed_trans [OF assms(1) a1(2) v(2)] by (simp add: get_domain_mcs_pdu_header_def)
  qed
qed

lemma recv_data_request_safe:
  assumes "in_wf s"
  shows "\<exists>rv chan s'. recv_data_request appid s = Some (rv, chan, s') \<and> parsed s s' \<and> 0 \<le> chan \<and> chan < 65536 \<and>
     (rv = 0 \<longrightarrow> appid = MCS_SDRQ)"
proof (cases "appid = MCS_SDRQ \<and> s_check_rem s 6")
  case False
  then show ?thesis by (auto simp: recv_data_request_def)
next
  case True
  have l: "6 \<le> length (unread s)" using assms True by (simp add: s_check_rem_wf)
  let ?s1 = "in_uint8s 2 s"
  have w1: "in_wf ?s1" "parsed s ?s1" "?s1 = advance 2 s" using l assms by (auto simp: in_uint8s_advance intro: advance_wf parsed_advance)
  have "s_check_rem ?s1 2" using w1 l assms by (simp add: s_check_rem_wf unread_advance)
  then obtain c where c: "in_uint16_be ?s1 = Some (c, advance 2 ?s1)" "0 \<le> c" "c < 65536" using in_two_ok [OF w1(1)] by blast
  let ?s3 = "in_uint8s 1 (advance 2 ?s1)"
  have s3: "?s3 = advance 5 s" using w1(3) by (simp add: in_uint8s_def advance_def)
  have w3: "in_wf ?s3" unfolding s3 using l assms by (simp add: advance_wf)
  have "s_check_rem ?s3 1" unfolding s3 using w3 [unfolded s3] l assms by (simp add: s_check_rem_wf unread_advance)
  then obtain v where v: "in_uint8 ?s3 = Some (v, advance 1 ?s3)" using in_byte_ok [OF w3] by blast
  have s4: "advance 1 ?s3 = advance 6 s" unfolding s3 by simp
  have p: "parsed s (advance 6 s)" using l by (rule parsed_advance)
  have w4: "in_wf (advance 6 s)" using l assms by (simp add: advance_wf)
  have p7: "parsed s (in_uint8s 1 (advance 6 s))" if "s_check_rem (advance 6 s) 1"
  proof -
    have "s_check_rem (advance 6 s) (int 1)" using that by simp
    then have "parsed (advance 6 s) (in_uint8s 1 (advance 6 s))" using skip_ok [OF w4] by fastforce
    then show ?thesis by (rule parsed_trans [OF assms p])
  qed
  show ?thesis
    using True c v p p7 unfolding recv_data_request_def Let_def s4 [symmetric] by auto
qed

subsection \<open>Channel joins\<close>

definition join_confirm :: "int \<times> int \<Rightarrow> byte list" where
  "join_confirm j = tpkt ([0x3e, 0] @ rev (le_bytes 2 (fst j)) @ rev (le_bytes 2 (snd j)) @ rev (le_bytes 2 (snd j)))"

lemma send_cjcf_ok:
  assumes "trans_ok t"
  shows "\<exists>rv taken t'. xrdp_mcs_send_cjcf junk io u c t = Some (rv, taken, t') \<and> trans_ok t' \<and> t_in_s t' = t_in_s t \<and>
     queued t @ (if rv = Some 0 then join_confirm (u, c) else []) = taken @ queued t'"
  unfolding xrdp_mcs_send_cjcf_def join_confirm_def
  by (rule send_built_ok)
    (use assms in \<open>simp_all add: out_defs [abs_def] out_bytes_append [symmetric] le_bytes_small\<close>)


lemma join_requests_ok:
  assumes "in_wf (t_in_s tr)" "trans_ok tr"
  shows "\<exists>rv appid' taken tr' joins. handle_channel_join_requests junk ios appid tr = Some (rv, appid', taken, tr') \<and>
     in_wf (t_in_s tr') \<and> trans_ok tr' \<and> queued tr @ concat (map join_confirm joins) = taken @ queued tr' \<and>
     (rv = Some 0 \<longrightarrow> appid' \<noteq> MCS_CJRQ)"
  using assms
proof (induction ios arbitrary: appid tr)
  case Nil
  show ?case
    using Nil by (subst handle_channel_join_requests.simps) (auto intro: exI [of _ "[]"])
next
  case (Cons io ios)
  let ?s = "t_in_s tr"
  show ?case
  proof (cases "appid = MCS_CJRQ \<and> s_check_rem ?s 4")
    case False
    then show ?thesis using Cons.prems by (subst handle_channel_join_requests.simps) (auto intro: exI [of _ "[]"])
  next
    case True
    have l: "4 \<le> length (unread ?s)" using Cons.prems(1) True by (simp add: s_check_rem_wf)
    have "s_check_rem ?s 2" using Cons.prems(1) l by (simp add: s_check_rem_wf)
    then obtain u where u: "in_uint16_be ?s = Some (u, advance 2 ?s)" "in_wf (advance 2 ?s)" using in_two_ok [OF Cons.prems(1)] by blast
    have "s_check_rem (advance 2 ?s) 2" using Cons.prems(1) u(2) l by (simp add: s_check_rem_wf unread_advance)
    then obtain c where c: "in_uint16_be (advance 2 ?s) = Some (c, advance 2 (advance 2 ?s))" "in_wf (advance 2 (advance 2 ?s))"
      using in_two_ok [OF u(2)] by blast
    let ?tr1 = "tr\<lparr>t_in_s := advance 2 (advance 2 ?s)\<rparr>"
    have t1: "trans_ok ?tr1" "queued ?tr1 = queued tr" using Cons.prems(2) by simp_all
    obtain sent taken tr2 where snd: "xrdp_mcs_send_cjcf junk io u c ?tr1 = Some (sent, taken, tr2)" "trans_ok tr2"
      "t_in_s tr2 = advance 2 (advance 2 ?s)" "queued tr @ (if sent = Some 0 then join_confirm (u, c) else []) = taken @ queued tr2"
      using send_cjcf_ok [OF t1(1), of junk io u c] t1(2) by auto
    define j where "j = (if sent = Some 0 then [(u, c)] else [])"
    have q2: "queued tr @ concat (map join_confirm j) = taken @ queued tr2" using snd(4) by (cases "sent = Some 0") (simp_all add: j_def)
    have m: "marked (t_in_s tr2)" using c(2) snd(3) by (simp add: in_wf_def marked_def)
    obtain rv3 tr3 where r: "libxrdp_force_read junk (read_header io) (read_body io) tr2 = Some (rv3, tr3)" "in_wf (t_in_s tr3)" "trans_ok tr3"
      "queued tr3 = queued tr2"
      using force_read_pdu_ok [OF m, of junk "read_header io" "read_body io"] snd(2) by auto
    obtain rv4 appid4 s4 where h: "get_domain_mcs_pdu_header (t_in_s tr3) = Some (rv4, appid4, s4)" "parsed (t_in_s tr3) s4"
      using pdu_header_safe [OF r(2)] by blast
    let ?tr4 = "tr3\<lparr>t_in_s := s4\<rparr>"
    have t4: "in_wf (t_in_s ?tr4)" "trans_ok ?tr4" using parsed_wf [OF r(2) h(2)] r(3) by simp_all
    obtain rv5 appid5 taken5 tr5 joins where ih: "handle_channel_join_requests junk ios appid4 ?tr4 = Some (rv5, appid5, taken5, tr5)"
      "in_wf (t_in_s tr5)" "trans_ok tr5" "queued ?tr4 @ concat (map join_confirm joins) = taken5 @ queued tr5" "rv5 = Some 0 \<longrightarrow> appid5 \<noteq> MCS_CJRQ"
      using Cons.IH [OF t4] by blast
    have step: "handle_channel_join_requests junk (io # ios) appid tr =
        (if sent = None then Some (None, appid, taken, tr2)
         else if rv3 \<noteq> Some 0 then Some (rv3, appid, taken, tr3)
         else if rv4 \<noteq> 0 then Some (Some 1, appid, taken, ?tr4)
         else Some (rv5, appid5, taken @ taken5, tr5))"
      using True u(1) c(1) snd(1) r(1) h(1) ih(1) by (subst handle_channel_join_requests.simps) (simp add: Let_def)
    have stop: "queued tr @ concat (map join_confirm j) = taken @ queued tr3" "queued tr @ concat (map join_confirm j) = taken @ queued ?tr4"
      using q2 r(4) by simp_all
    have more: "queued tr @ concat (map join_confirm (j @ joins)) = (taken @ taken5) @ queued tr5"
    proof -
      have "queued ?tr4 = queued tr2" using r(4) by simp
      with q2 ih(4) show ?thesis by (metis append_assoc map_append concat_append)
    qed
    consider (a) "sent = None" | (b) "sent \<noteq> None" "rv3 \<noteq> Some 0" | (c) "sent \<noteq> None" "rv3 = Some 0" "rv4 \<noteq> 0"
      | (d) "sent \<noteq> None" "rv3 = Some 0" "rv4 = 0" by blast
    then show ?thesis
    proof cases
      case a
      then show ?thesis unfolding step using snd(2,3) c(2) q2 by auto
    next
      case b
      then show ?thesis unfolding step using r(2,3) stop(1) by auto
    next
      case c
      then show ?thesis unfolding step using t4 stop(2) by auto
    next
      case d
      then show ?thesis unfolding step using ih(2,3,5) more by (simp del: map_append concat_append append_assoc) blast
    qed
  qed
qed


lemma recv_connect_initial_typed:
  assumes "mcs_ok self" and "trans_ok tr" and "in_wf (t_in_s tr)"
  shows "\<exists>rv self' tr'. xrdp_mcs_recv_connect_initial junk io self tr = Some (rv, self', tr') \<and> mcs_ok self' \<and> trans_ok tr' \<and> in_wf (t_in_s tr') \<and>
            queued tr' = queued tr \<and>
            (rv = Some 0 \<longrightarrow> contents (m_client_mcs_data self') \<noteq> [] \<and> length (contents (m_client_mcs_data self')) \<le> 16384 \<and>
               (\<exists>before. contents (t_in_s tr') = before @ contents (m_client_mcs_data self')))"
proof -
  have m: "marked (t_in_s tr)" using assms(3) by (simp add: in_wf_def marked_def)
  obtain rv1 tr1 where r: "libxrdp_force_read junk (read_header io) (read_body io) tr = Some (rv1, tr1)" "in_wf (t_in_s tr1)" "trans_ok tr1"
    "queued tr1 = queued tr"
    using force_read_pdu_ok [OF m, of junk "read_header io" "read_body io"] assms(2) by auto
  obtain rv s d where c: "parse_connect_initial junk (m_client_mcs_data self) (t_in_s tr1) = Some (rv, s, d)" "parsed (t_in_s tr1) s" "marked d"
    "rv = 0 \<longrightarrow> contents d \<noteq> [] \<and> length (contents d) \<le> 16384 \<and> (\<exists>before. unread (t_in_s tr1) = before @ contents d)"
    using parse_connect_initial_ok [OF r(2), of "m_client_mcs_data self" junk] assms(1) by (auto simp: mcs_ok_def)
  have "\<exists>before. contents s = before @ contents d" if z: "rv = 0"
  proof -
    obtain before where "unread (t_in_s tr1) = before @ contents d" using c(4) z by blast
    moreover have "contents s = contents (t_in_s tr1)" using c(2) by (auto simp: parsed_def contents_def)
    moreover have "contents (t_in_s tr1) = take (s_p (t_in_s tr1)) (contents (t_in_s tr1)) @ unread (t_in_s tr1)"
      by (simp add: unread_contents)
    ultimately show ?thesis by (metis append_assoc)
  qed
  then show "\<exists>rv self' tr'. xrdp_mcs_recv_connect_initial junk io self tr = Some (rv, self', tr') \<and> mcs_ok self' \<and> trans_ok tr' \<and> in_wf (t_in_s tr') \<and>
            queued tr' = queued tr \<and>
            (rv = Some 0 \<longrightarrow> contents (m_client_mcs_data self') \<noteq> [] \<and> length (contents (m_client_mcs_data self')) \<le> 16384 \<and>
               (\<exists>before. contents (t_in_s tr') = before @ contents (m_client_mcs_data self')))"
    using r c parsed_wf [OF r(2) c(2)] assms(1)
    by (cases "rv1 = Some 0") (simp_all add: xrdp_mcs_recv_connect_initial_def mcs_ok_def)
qed

lemma recv_domain_pdus_typed:
  assumes "mcs_ok self" and "trans_ok tr" and "in_wf (t_in_s tr)"
  shows "\<exists>rv self' tr'. xrdp_mcs_recv_edrq junk io self tr = Some (rv, self', tr') \<and> mcs_ok self' \<and> trans_ok tr' \<and> in_wf (t_in_s tr')"
    and "\<exists>rv self' tr'. xrdp_mcs_recv_aurq junk io self tr = Some (rv, self', tr') \<and> mcs_ok self' \<and> trans_ok tr' \<and> in_wf (t_in_s tr')"
proof -
  have m: "marked (t_in_s tr)" using assms(3) by (simp add: in_wf_def marked_def)
  obtain rv1 tr1 where r: "libxrdp_force_read junk (read_header io) (read_body io) tr = Some (rv1, tr1)" "in_wf (t_in_s tr1)" "trans_ok tr1"
    "queued tr1 = queued tr"
    using force_read_pdu_ok [OF m, of junk "read_header io" "read_body io"] assms(2) by auto
  obtain rv self' s where e: "parse_edrq self (t_in_s tr1) = Some (rv, self', s)" "parsed (t_in_s tr1) s" "mcs_ok self'"
    using parse_edrq_ok [OF r(2) assms(1)] by blast
  then show "\<exists>rv self' tr'. xrdp_mcs_recv_edrq junk io self tr = Some (rv, self', tr') \<and> mcs_ok self' \<and> trans_ok tr' \<and> in_wf (t_in_s tr')"
    using r parsed_wf [OF r(2) e(2)] assms(1) by (cases "rv1 = Some 0") (simp_all add: xrdp_mcs_recv_edrq_def recv_parsed_def)
  obtain rv self' s where a: "parse_aurq self (t_in_s tr1) = Some (rv, self', s)" "parsed (t_in_s tr1) s" "mcs_ok self'"
    using parse_aurq_ok [OF r(2) assms(1)] by blast
  then show "\<exists>rv self' tr'. xrdp_mcs_recv_aurq junk io self tr = Some (rv, self', tr') \<and> mcs_ok self' \<and> trans_ok tr' \<and> in_wf (t_in_s tr')"
    using r parsed_wf [OF r(2) a(2)] assms(1) by (cases "rv1 = Some 0") (simp_all add: xrdp_mcs_recv_aurq_def recv_parsed_def)
qed

lemma mcs_recv_typed:
  assumes "mcs_ok self" and "trans_ok tr" and "in_wf (t_in_s tr)"
  shows "\<exists>rv chan taken self' tr' joins. xrdp_mcs_recv junk ios self tr = Some (rv, chan, taken, self', tr') \<and> mcs_ok self' \<and> trans_ok tr' \<and>
            in_wf (t_in_s tr') \<and> queued tr @ concat (map join_confirm joins) = taken @ queued tr' \<and> 0 \<le> chan \<and> chan < 65536 \<and>
            (\<not> m_expecting_channel_join_requests self \<longrightarrow> joins = []) \<and>
            (rv = Some 0 \<longrightarrow> \<not> m_expecting_channel_join_requests self')"
proof -
  obtain rv2 appid s2 where h: "get_domain_mcs_pdu_header (t_in_s tr) = Some (rv2, appid, s2)" "parsed (t_in_s tr) s2"
    using pdu_header_safe [OF assms(3)] by blast
  let ?tr2 = "tr\<lparr>t_in_s := s2\<rparr>"
  have t2: "in_wf (t_in_s ?tr2)" "trans_ok ?tr2" using parsed_wf [OF assms(3) h(2)] assms(2) by simp_all
  obtain rv3 appid3 taken tr3 joins where j: "handle_channel_join_requests junk ios appid ?tr2 = Some (rv3, appid3, taken, tr3)"
    "in_wf (t_in_s tr3)" "trans_ok tr3" "queued ?tr2 @ concat (map join_confirm joins) = taken @ queued tr3"
    using join_requests_ok [OF t2, of junk ios appid] by blast
  obtain rv4 chan4 s4 where d4: "recv_data_request appid3 (t_in_s tr3) = Some (rv4, chan4, s4)" "parsed (t_in_s tr3) s4" "0 \<le> chan4" "chan4 < 65536"
    using recv_data_request_safe [OF j(2)] by blast
  obtain rv5 chan5 s5 where d5: "recv_data_request appid s2 = Some (rv5, chan5, s5)" "parsed s2 s5" "0 \<le> chan5" "chan5 < 65536"
    using recv_data_request_safe [of s2 appid] t2(1) by auto
  show "\<exists>rv chan taken self' tr' joins. xrdp_mcs_recv junk ios self tr = Some (rv, chan, taken, self', tr') \<and> mcs_ok self' \<and> trans_ok tr' \<and>
            in_wf (t_in_s tr') \<and> queued tr @ concat (map join_confirm joins) = taken @ queued tr' \<and> 0 \<le> chan \<and> chan < 65536 \<and>
            (\<not> m_expecting_channel_join_requests self \<longrightarrow> joins = []) \<and>
            (rv = Some 0 \<longrightarrow> \<not> m_expecting_channel_join_requests self')"
  proof (cases "rv2 = 0")
    case False
    then have "xrdp_mcs_recv junk ios self tr = Some (Some 1, 0, [], self, ?tr2)" using h(1) by (simp add: xrdp_mcs_recv_def Let_def)
    moreover have "queued tr @ concat (map join_confirm []) = [] @ queued ?tr2" by simp
    ultimately show ?thesis using t2 assms(1) by (intro exI [of _ "Some 1"] exI [of _ 0] exI [of _ "[]"] exI [of _ self] exI [of _ ?tr2]) simp
  next
    case ok: True
    show ?thesis
    proof (cases "m_expecting_channel_join_requests self")
      case False
      then have "xrdp_mcs_recv junk ios self tr = Some (Some rv5, chan5, [], self, ?tr2\<lparr>t_in_s := s5\<rparr>)"
        using h(1) ok d5(1) by (simp add: xrdp_mcs_recv_def Let_def)
      moreover have "queued tr @ concat (map join_confirm []) = [] @ queued (?tr2\<lparr>t_in_s := s5\<rparr>)" by simp
      moreover have "in_wf s5" using parsed_wf [OF _ d5(2)] t2(1) by simp
      ultimately show ?thesis using False t2(2) assms(1) d5(3,4)
        by (intro exI [of _ "Some rv5"] exI [of _ chan5] exI [of _ "[]"] exI [of _ self] exI [of _ "?tr2\<lparr>t_in_s := s5\<rparr>"]) simp
    next
      case True
      let ?self = "self\<lparr>m_expecting_channel_join_requests := False\<rparr>"
      have ok3: "mcs_ok ?self" using assms(1) by (simp add: mcs_ok_def)
      have q3: "queued tr @ concat (map join_confirm joins) = taken @ queued tr3" using j(4) by simp
      show ?thesis
      proof (cases "rv3 = Some 0")
        case True
        have "xrdp_mcs_recv junk ios self tr = Some (Some rv4, chan4, taken, ?self, tr3\<lparr>t_in_s := s4\<rparr>)"
          using h(1) ok \<open>m_expecting_channel_join_requests self\<close> j(1) True d4(1) by (simp add: xrdp_mcs_recv_def Let_def)
        then show ?thesis using ok3 j(3) parsed_wf [OF j(2) d4(2)] q3 d4(3,4) \<open>m_expecting_channel_join_requests self\<close>
          by (intro exI [of _ "Some rv4"] exI [of _ chan4] exI [of _ taken] exI [of _ ?self] exI [of _ "tr3\<lparr>t_in_s := s4\<rparr>"] exI [of _ joins]) simp
      next
        case False
        have "xrdp_mcs_recv junk ios self tr = Some (rv3, 0, taken, self, tr3)"
          using h(1) ok \<open>m_expecting_channel_join_requests self\<close> j(1) False by (simp add: xrdp_mcs_recv_def Let_def)
        then show ?thesis using assms(1) j(2,3) q3 False \<open>m_expecting_channel_join_requests self\<close>
          by (intro exI [of _ rv3] exI [of _ 0] exI [of _ taken] exI [of _ self] exI [of _ tr3] exI [of _ joins]) simp
      qed
    qed
  qed
qed

text \<open>
  C19. What a client sends never takes the MCS layer out of its buffers or its state out of its type.
  Each operation that reads a PDU returns for any bytes in any pieces, leaves the transport and
  the input stream well-formed, a user id of 16 bits and the copy of the user data inside its
  buffer. A Connect-Initial is accepted only with a non-empty copy of at most 16384 bytes that is the
  end of the PDU. Every channel join request that could be answered is confirmed once, in
  order, before the next data PDU is looked at, and a PDU is passed on only for a channel of 16 bits.
\<close>

theorem mcs_input_typed:
  assumes "mcs_ok self" and "trans_ok tr" and "in_wf (t_in_s tr)"
  shows "(\<exists>rv self' tr'. xrdp_mcs_recv_connect_initial junk io self tr = Some (rv, self', tr') \<and> mcs_ok self' \<and> trans_ok tr' \<and> in_wf (t_in_s tr') \<and>
            queued tr' = queued tr \<and>
            (rv = Some 0 \<longrightarrow> contents (m_client_mcs_data self') \<noteq> [] \<and> length (contents (m_client_mcs_data self')) \<le> 16384 \<and>
               (\<exists>before. contents (t_in_s tr') = before @ contents (m_client_mcs_data self')))) \<and>
     (\<exists>rv self' tr'. xrdp_mcs_recv_edrq junk io self tr = Some (rv, self', tr') \<and> mcs_ok self' \<and> trans_ok tr' \<and> in_wf (t_in_s tr')) \<and>
     (\<exists>rv self' tr'. xrdp_mcs_recv_aurq junk io self tr = Some (rv, self', tr') \<and> mcs_ok self' \<and> trans_ok tr' \<and> in_wf (t_in_s tr')) \<and>
     (\<exists>rv chan taken self' tr' joins. xrdp_mcs_recv junk ios self tr = Some (rv, chan, taken, self', tr') \<and> mcs_ok self' \<and> trans_ok tr' \<and>
            in_wf (t_in_s tr') \<and> queued tr @ concat (map join_confirm joins) = taken @ queued tr' \<and> 0 \<le> chan \<and> chan < 65536 \<and>
            (\<not> m_expecting_channel_join_requests self \<longrightarrow> joins = []) \<and>
            (rv = Some 0 \<longrightarrow> \<not> m_expecting_channel_join_requests self'))"
  using recv_connect_initial_typed [OF assms] recv_domain_pdus_typed [OF assms] mcs_recv_typed [OF assms] by (intro conjI)

subsection \<open>Witnesses\<close>

definition ex_io :: socket_answers where
  "ex_io = \<lparr>read_header = [\<lparr>r_can = True, r_fail = False, r_data = [3, 0, 0, 8], r_would_block = False, r_term = False\<rparr>],
            read_body = [\<lparr>r_can = True, r_fail = False, r_data = [2, 0xf0, 0x80, 0x28], r_would_block = False, r_term = False\<rparr>],
            write_waiting = [\<lparr>a_can = True, a_sent = 2, a_would_block = False, a_term = False\<rparr>],
            write_new = \<lparr>a_can = True, a_sent = 5, a_would_block = False, a_term = False\<rparr>\<rparr>"

definition ex_keys :: sec_keys where
  "ex_keys = \<lparr>rsa_key_bytes = 64, crypt_method = 2, crypt_level = 2, server_random = replicate 32 7, pub_exp = [1, 0, 1, 0],
              pub_mod = replicate 256 9, pub_sig = replicate 64 5\<rparr>"

definition ex_mcs :: xrdp_mcs where
  "ex_mcs = (xrdp_mcs_create make_stream make_stream)\<lparr>m_channel_list := [\<lparr>ch_name = [114], ch_flags = 0, ch_chanid = 1004, ch_disabled = False\<rparr>]\<rparr>"

lemma ex_mcs_facts: "trans_ok ex_trans" "in_wf (t_in_s ex_trans)" "mcs_ok ex_mcs" "keys_ok ex_keys" "length (m_channel_list ex_mcs) \<le> 2000"
  by (auto simp: trans_ok_def ex_trans_def trans_create_def wait_ok_def in_wf_def unread_def si_ok_def make_stream_def mcs_ok_def ex_mcs_def
      xrdp_mcs_create_def marked_def keys_ok_def ex_keys_def)

lemma connect_response_exact_witness:
  "\<exists>self' rv taken t' pdu.
     xrdp_mcs_out_gcc_data (\<lambda>_. 0) ex_keys \<lparr>rdpNegData = True, requestedProtocol = 3, selectedProtocol = 1, failureCode = 0\<rparr> ex_mcs = Some self' \<and>
     xrdp_mcs_send_connect_response (\<lambda>_. 0) ex_io self' ex_trans = Some (rv, taken, t') \<and>
     queued ex_trans @ (if rv = Some 0 then tpkt pdu else []) = taken @ queued t'"
  using connect_response_exact [OF ex_mcs_facts(4,5,1), of "\<lambda>_. 0" "\<lparr>rdpNegData = True, requestedProtocol = 3, selectedProtocol = 1, failureCode = 0\<rparr>" ex_io]
  by (elim exE conjE) (intro exI conjI)

lemma mcs_data_exact_witness:
  "\<exists>s1 rv taken s' t'. out_bytes [1, 2, 3] (xrdp_mcs_init (\<lambda>_. 0) make_stream) = Some s1 \<and>
     xrdp_mcs_send (\<lambda>_. 0) ex_io ex_mcs 1004 (s_mark_end s1) ex_trans = Some (rv, rv = Some 0 \<and> (1004 :: int) = MCS_GLOBAL_CHANNEL, taken, s', t') \<and>
     queued ex_trans @ (if rv = Some 0 then tpkt (data_pdu MCS_SDIN (m_userid ex_mcs) 1004 [1, 2, 3]) else []) = taken @ queued t'"
proof -
  have s0: "s_size make_stream \<le> 32768" by (simp add: make_stream_def)
  have i: "s_p (xrdp_mcs_init (\<lambda>_. 0) make_stream) = 15" "s_size (xrdp_mcs_init (\<lambda>_. 0) make_stream) = 32768"
    using iso_init_fields [where junk = "\<lambda>_. 0" and s = make_stream] s0 by (simp_all add: xrdp_mcs_init_def)
  then obtain s1 where s1: "out_bytes [1, 2, 3] (xrdp_mcs_init (\<lambda>_. 0) make_stream) = Some s1" by (simp add: out_bytes_def)
  have c: "length [1, 2, 3 :: byte] + 15 < 32768" "(0 :: int) \<le> 1004" "(1004 :: int) < 65536" by simp_all
  show ?thesis
    using mcs_data_exact [OF s0 s1 c(1) ex_mcs_facts(1) c(2,3), of ex_io ex_mcs "[]"] s1
    by (elim exE conjE) (intro exI conjI)
qed

lemma mcs_input_typed_witness:
  "\<exists>rv self' tr'. xrdp_mcs_recv_aurq (\<lambda>_. 0) ex_io ex_mcs ex_trans = Some (rv, self', tr') \<and> mcs_ok self' \<and> trans_ok tr' \<and> in_wf (t_in_s tr')"
  using mcs_input_typed [OF ex_mcs_facts(3,1,2), of "\<lambda>_. 0" ex_io "[]"] by blast

end
