(* ===== verification/Monitors.thy ===== *)
theory Monitors
  imports Stream_At
begin

text \<open>
  \<^verbatim>\<open>libxrdp/libxrdp.c\<close>: the monitor layout a client announces, at connection time (\<^verbatim>\<open>TS_UD_CS_MONITOR\<close>,
  \<^verbatim>\<open>TS_UD_CS_MONITOR_EX\<close>) or later (\<^verbatim>\<open>DISPLAYCONTROL_MONITOR_LAYOUT\<close>), and the description of the virtual
  desktop computed from it. Fields the code declares \<^verbatim>\<open>int\<close> wrap to 32 signed bits, those it
  declares \<^verbatim>\<open>unsigned int\<close> to 32 unsigned bits.
\<close>

abbreviation (input) CLIENT_MONITOR_DATA_MAXIMUM_MONITORS :: int where "CLIENT_MONITOR_DATA_MAXIMUM_MONITORS \<equiv> 16"
abbreviation (input) TS_MONITOR_ATTRIBUTES_SIZE :: int where "TS_MONITOR_ATTRIBUTES_SIZE \<equiv> 20"
abbreviation (input) SEC_PROCESS_MONITORS_ERR :: int where "SEC_PROCESS_MONITORS_ERR \<equiv> 1"
abbreviation (input) SEC_PROCESS_MONITORS_ERR_TOO_MANY_MONITORS :: int where "SEC_PROCESS_MONITORS_ERR_TOO_MANY_MONITORS \<equiv> 2"
abbreviation (input) SEC_PROCESS_MONITORS_ERR_INVALID_DESKTOP :: int where "SEC_PROCESS_MONITORS_ERR_INVALID_DESKTOP \<equiv> 3"
abbreviation (input) SEC_PROCESS_MONITORS_ERR_INVALID_MONITOR :: int where "SEC_PROCESS_MONITORS_ERR_INVALID_MONITOR \<equiv> 4"

record monitor_info =
  mi_left :: int
  mi_top :: int
  mi_right :: int
  mi_bottom :: int
  mi_flags :: int
  mi_physical_width :: int
  mi_physical_height :: int
  mi_orientation :: int
  mi_desktop_scale_factor :: int
  mi_device_scale_factor :: int
  mi_is_primary :: int

definition zero_monitor :: monitor_info where
  "zero_monitor =
     \<lparr>mi_left = 0, mi_top = 0, mi_right = 0, mi_bottom = 0, mi_flags = 0, mi_physical_width = 0, mi_physical_height = 0,
      mi_orientation = 0, mi_desktop_scale_factor = 0, mi_device_scale_factor = 0, mi_is_primary = 0\<rparr>"

record display_size_description =
  ds_monitorCount :: int
  ds_minfo :: "monitor_info list"
  ds_minfo_wm :: "monitor_info list"
  ds_session_width :: int
  ds_session_height :: int

text \<open>The description \<^verbatim>\<open>g_malloc\<close> clears.\<close>

definition zero_description :: display_size_description where
  "zero_description =
     \<lparr>ds_monitorCount = 0, ds_minfo = replicate 16 zero_monitor, ds_minfo_wm = replicate 16 zero_monitor,
      ds_session_width = 0, ds_session_height = 0\<rparr>"

record xrdp_rect =
  r_left :: int
  r_top :: int
  r_right :: int
  r_bottom :: int

subsection \<open>Extended attributes\<close>

definition sanitise_physical_size :: "monitor_info \<Rightarrow> monitor_info" where
  "sanitise_physical_size m =
     (let m = (if mi_physical_width m > 10000 \<or> mi_physical_width m < 10
               then m\<lparr>mi_physical_width := 0, mi_physical_height := 0\<rparr> else m)
      in if mi_physical_height m > 10000 \<or> mi_physical_height m < 10
         then m\<lparr>mi_physical_width := 0, mi_physical_height := 0\<rparr> else m)"

definition sanitise_scale :: "monitor_info \<Rightarrow> monitor_info" where
  "sanitise_scale m =
     (let check_desktop_scale_factor = (mi_desktop_scale_factor m < 100 \<or> mi_desktop_scale_factor m > 500);
          check_device_scale_factor = (mi_device_scale_factor m \<noteq> 100 \<and> mi_device_scale_factor m \<noteq> 140 \<and> mi_device_scale_factor m \<noteq> 180)
      in if check_desktop_scale_factor \<or> check_device_scale_factor
         then m\<lparr>mi_desktop_scale_factor := 100, mi_device_scale_factor := 100\<rparr> else m)"

definition sanitise_extended_monitor_attributes :: "monitor_info \<Rightarrow> monitor_info" where
  "sanitise_extended_monitor_attributes m =
     (if mi_physical_width m = 0 \<and> mi_physical_width m = 0 \<and> mi_orientation m = 0 \<and> mi_desktop_scale_factor m = 0 \<and> mi_device_scale_factor m = 0
      then m\<lparr>mi_orientation := 0, mi_desktop_scale_factor := 100, mi_device_scale_factor := 100\<rparr>
      else let m = sanitise_physical_size m;
               m = (if mi_orientation m \<in> {0, 90, 180, 270} then m else m\<lparr>mi_orientation := 0\<rparr>)
           in sanitise_scale m)"

subsection \<open>The virtual desktop\<close>

definition grow_bounds :: "xrdp_rect option \<Rightarrow> monitor_info \<Rightarrow> xrdp_rect" where
  "grow_bounds bounds m =
     (case bounds of
        None \<Rightarrow> \<lparr>r_left = mi_left m, r_top = mi_top m, r_right = mi_right m, r_bottom = mi_bottom m\<rparr>
      | Some b \<Rightarrow> \<lparr>r_left = min (mi_left m) (r_left b), r_top = min (mi_top m) (r_top b),
                   r_right = max (r_right b) (mi_right m), r_bottom = max (r_bottom b) (mi_bottom m)\<rparr>)"

text \<open>One round of the first loop per monitor; the bounds are \<^term>\<open>None\<close> before the first.\<close>

fun place_monitors :: "xrdp_rect option \<Rightarrow> bool \<Rightarrow> monitor_info list \<Rightarrow> xrdp_rect option \<times> bool \<times> monitor_info list" where
  "place_monitors bounds got_primary [] = (bounds, got_primary, [])"
| "place_monitors bounds got_primary (m # ms) =
     (let m = sanitise_extended_monitor_attributes m;
          bounds = Some (grow_bounds bounds m);
          (m, got_primary) =
            (if mi_is_primary m = 1
             then if got_primary then (m\<lparr>mi_is_primary := 0\<rparr>, got_primary) else (m, True)
             else (m, got_primary));
          (bounds, got_primary, ms) = place_monitors bounds got_primary ms
      in (bounds, got_primary, m # ms))"

fun choose_primary :: "xrdp_rect \<Rightarrow> monitor_info list \<Rightarrow> monitor_info list" where
  "choose_primary b [] = []"
| "choose_primary b (m # ms) =
     (if mi_left m = r_left b \<and> mi_top m = r_top b then m\<lparr>mi_is_primary := 1\<rparr> # ms else m # choose_primary b ms)"

definition to_wm :: "xrdp_rect \<Rightarrow> monitor_info \<Rightarrow> monitor_info" where
  "to_wm b m =
     m\<lparr>mi_left := c_int (mi_left m - r_left b), mi_top := c_int (mi_top m - r_top b),
       mi_right := c_int (mi_right m - r_left b), mi_bottom := c_int (mi_bottom m - r_top b)\<rparr>"

definition libxrdp_init_display_size_description ::
  "monitor_info list \<Rightarrow> display_size_description \<Rightarrow> int \<times> display_size_description" where
  "libxrdp_init_display_size_description monitors description =
     (let num_monitor = length monitors in
      if int num_monitor > CLIENT_MONITOR_DATA_MAXIMUM_MONITORS then (SEC_PROCESS_MONITORS_ERR_TOO_MANY_MONITORS, description)
      else let (bounds, got_primary, placed) = place_monitors None False monitors;
               b = (case bounds of None \<Rightarrow> \<lparr>r_left = 0, r_top = 0, r_right = 0, r_bottom = 0\<rparr> | Some b \<Rightarrow> b);
               placed = (if got_primary then placed else choose_primary b placed);
               description = description\<lparr>ds_monitorCount := int num_monitor,
                                         ds_minfo := placed @ drop num_monitor (ds_minfo description)\<rparr>
           in if \<not> (r_right b > r_left b \<and> r_bottom b > r_top b)
              then (SEC_PROCESS_MONITORS_ERR_INVALID_DESKTOP, description)
              else let description = description\<lparr>ds_session_width := c_uint (r_right b - r_left b + 1),
                                                 ds_session_height := c_uint (r_bottom b - r_top b + 1)\<rparr>
                   in if ds_session_width description > 0x7FFE \<or> ds_session_width description < 0xC8
                         \<or> ds_session_height description > 0x7FFE \<or> ds_session_height description < 0xC8
                      then (SEC_PROCESS_MONITORS_ERR_INVALID_DESKTOP, description)
                      else (0, description\<lparr>ds_minfo_wm := map (to_wm b) placed @ drop num_monitor (ds_minfo_wm description)\<rparr>))"

subsection \<open>Reading a layout\<close>

text \<open>One monitor, after the check that its bytes are there.\<close>

definition read_monitor_def :: "stream \<Rightarrow> (int \<times> monitor_info \<times> stream) option" where
  "read_monitor_def s =
     do { (left, s) \<leftarrow> in_uint32_le s;
          (top, s) \<leftarrow> in_uint32_le s;
          (right, s) \<leftarrow> in_uint32_le s;
          (bottom, s) \<leftarrow> in_uint32_le s;
          (primary, s) \<leftarrow> in_uint32_le s;
          Some (0, zero_monitor\<lparr>mi_left := c_int left, mi_top := c_int top, mi_right := c_int right, mi_bottom := c_int bottom,
                                mi_is_primary := primary\<rparr>, s) }"

definition read_monitor_layout :: "stream \<Rightarrow> (int \<times> monitor_info \<times> stream) option" where
  "read_monitor_layout s =
     do { (flags, s) \<leftarrow> in_uint32_le s;
          (left, s) \<leftarrow> in_uint32_le s;
          (top, s) \<leftarrow> in_uint32_le s;
          (v, s) \<leftarrow> in_uint32_le s;
          let width = c_int v;
          let m = zero_monitor\<lparr>mi_flags := c_int flags, mi_left := c_int left, mi_top := c_int top\<rparr>;
          if width > 0x2000 \<or> width < 0xC8 \<or> width mod 2 \<noteq> 0 then Some (SEC_PROCESS_MONITORS_ERR_INVALID_MONITOR, m, s)
          else do { let m = m\<lparr>mi_right := c_int (mi_left m + width - 1)\<rparr>;
                    (v, s) \<leftarrow> in_uint32_le s;
                    let height = c_int v;
                    if height > 0x2000 \<or> height < 0xC8 then Some (SEC_PROCESS_MONITORS_ERR_INVALID_MONITOR, m, s)
                    else do { let m = m\<lparr>mi_bottom := c_int (mi_top m + height - 1)\<rparr>;
                              (physical_width, s) \<leftarrow> in_uint32_le s;
                              (physical_height, s) \<leftarrow> in_uint32_le s;
                              (orientation, s) \<leftarrow> in_uint32_le s;
                              (desktop_scale_factor, s) \<leftarrow> in_uint32_le s;
                              (device_scale_factor, s) \<leftarrow> in_uint32_le s;
                              Some (0, m\<lparr>mi_physical_width := physical_width, mi_physical_height := physical_height,
                                         mi_orientation := orientation, mi_desktop_scale_factor := desktop_scale_factor,
                                         mi_device_scale_factor := device_scale_factor,
                                         mi_is_primary := (if mi_flags m = 1 then 1 else mi_is_primary m)\<rparr>, s) } } }"

fun read_monitors :: "bool \<Rightarrow> nat \<Rightarrow> stream \<Rightarrow> (int \<times> monitor_info list \<times> stream) option" where
  "read_monitors full_parameters 0 s = Some (0, [], s)"
| "read_monitors full_parameters (Suc n) s =
     (if \<not> s_check_rem s (if full_parameters then 40 else 20) then Some (SEC_PROCESS_MONITORS_ERR, [], s)
      else do { (rv, m, s) \<leftarrow> (if full_parameters then read_monitor_layout s else read_monitor_def s);
                if rv \<noteq> 0 then Some (rv, [m], s)
                else do { (rv, ms, s) \<leftarrow> read_monitors full_parameters n s; Some (rv, m # ms, s) } })"

definition libxrdp_process_monitor_stream ::
  "bool \<Rightarrow> stream \<Rightarrow> display_size_description option \<Rightarrow> (int \<times> display_size_description option \<times> stream) option" where
  "libxrdp_process_monitor_stream full_parameters s description =
     (case description of
        None \<Rightarrow> Some (SEC_PROCESS_MONITORS_ERR, None, s)
      | Some d \<Rightarrow>
          if \<not> s_check_rem s 4 then Some (SEC_PROCESS_MONITORS_ERR, description, s)
          else do { (num_monitor, s) \<leftarrow> in_uint32_le s;
                    if num_monitor \<ge> CLIENT_MONITOR_DATA_MAXIMUM_MONITORS
                    then Some (SEC_PROCESS_MONITORS_ERR_TOO_MANY_MONITORS, description, s)
                    else do { (rv, monitors, s) \<leftarrow> read_monitors full_parameters (nat num_monitor) s;
                              if rv \<noteq> 0 then Some (rv, description, s)
                              else let (rv, d) = libxrdp_init_display_size_description monitors d in Some (rv, Some d, s) } })"

subsection \<open>Reading extended attributes\<close>

fun read_attributes :: "nat \<Rightarrow> nat \<Rightarrow> int \<Rightarrow> monitor_info list \<Rightarrow> stream \<Rightarrow> (int \<times> monitor_info list \<times> stream) option" where
  "read_attributes index 0 attribute_size minfo s = Some (0, minfo, s)"
| "read_attributes index (Suc n) attribute_size minfo s =
     (if \<not> s_check_rem s attribute_size then Some (SEC_PROCESS_MONITORS_ERR, minfo, s)
      else do { m \<leftarrow> list_get minfo index;
                (physical_width, s) \<leftarrow> in_uint32_le s;
                (physical_height, s) \<leftarrow> in_uint32_le s;
                (orientation, s) \<leftarrow> in_uint32_le s;
                (desktop_scale_factor, s) \<leftarrow> in_uint32_le s;
                (device_scale_factor, s) \<leftarrow> in_uint32_le s;
                minfo \<leftarrow> list_set minfo index (sanitise_extended_monitor_attributes
                           (m\<lparr>mi_physical_width := physical_width, mi_physical_height := physical_height, mi_orientation := orientation,
                              mi_desktop_scale_factor := desktop_scale_factor, mi_device_scale_factor := device_scale_factor\<rparr>));
                read_attributes (Suc index) n attribute_size minfo s })"

definition copy_attributes :: "monitor_info \<Rightarrow> monitor_info \<Rightarrow> monitor_info" where
  "copy_attributes src dst =
     dst\<lparr>mi_physical_width := mi_physical_width src, mi_physical_height := mi_physical_height src, mi_orientation := mi_orientation src,
         mi_desktop_scale_factor := mi_desktop_scale_factor src, mi_device_scale_factor := mi_device_scale_factor src\<rparr>"

text \<open>
  The check covers the attribute size, but the number of monitors is read as well. Read or not
  inside the stream, both are inside the buffer or the result is \<^term>\<open>None\<close>.
\<close>

definition libxrdp_process_monitor_ex_stream ::
  "stream \<Rightarrow> display_size_description option \<Rightarrow> (int \<times> display_size_description option \<times> stream) option" where
  "libxrdp_process_monitor_ex_stream s description =
     (case description of
        None \<Rightarrow> Some (SEC_PROCESS_MONITORS_ERR, None, s)
      | Some d \<Rightarrow>
          if \<not> s_check_rem s 4 then Some (SEC_PROCESS_MONITORS_ERR, description, s)
          else do { (attribute_size, s) \<leftarrow> in_uint32_le s;
                    if attribute_size \<noteq> TS_MONITOR_ATTRIBUTES_SIZE then Some (SEC_PROCESS_MONITORS_ERR, description, s)
                    else do { (num_monitor, s) \<leftarrow> in_uint32_le s;
                              if num_monitor \<noteq> ds_monitorCount d then Some (SEC_PROCESS_MONITORS_ERR, description, s)
                              else do { (rv, minfo, s) \<leftarrow> read_attributes 0 (nat num_monitor) attribute_size (ds_minfo d) s;
                                        let d = d\<lparr>ds_minfo := minfo\<rparr>;
                                        if rv \<noteq> 0 then Some (rv, Some d, s)
                                        else do { let n = nat num_monitor;
                                                  let wm = map2 copy_attributes (take n minfo) (take n (ds_minfo_wm d)) @ drop n (ds_minfo_wm d);
                                                  Some (0, Some (d\<lparr>ds_minfo_wm := wm\<rparr>), s) } } } })"

end
