(* ===== verification/Monitors_Props.thy ===== *)
theory Monitors_Props
  imports Monitors
begin

text \<open>
  The virtual desktop is the smallest rectangle around the monitors, each monitor keeps its place in
  it, and at most one is primary. Reading a layout stays inside the stream; reading extended
  attributes does not.
\<close>

definition same_place :: "monitor_info \<Rightarrow> monitor_info \<Rightarrow> bool" where
  "same_place m m' \<longleftrightarrow> mi_left m' = mi_left m \<and> mi_top m' = mi_top m \<and> mi_right m' = mi_right m \<and> mi_bottom m' = mi_bottom m"

text \<open>
  What a monitor is meant to keep of its extended attributes: a physical size if both its sides are in range, one of the
  four orientations, and scale factors if both are admissible.
\<close>

definition size_sane :: "monitor_info \<Rightarrow> bool" where
  "size_sane m \<longleftrightarrow> mi_physical_width m \<in> {10..10000} \<and> mi_physical_height m \<in> {10..10000}"

definition scale_sane :: "monitor_info \<Rightarrow> bool" where
  "scale_sane m \<longleftrightarrow> mi_desktop_scale_factor m \<in> {100..500} \<and> mi_device_scale_factor m \<in> {100, 140, 180}"

definition sane :: "monitor_info \<Rightarrow> monitor_info" where
  "sane m = m\<lparr>mi_physical_width := (if size_sane m then mi_physical_width m else 0),
      mi_physical_height := (if size_sane m then mi_physical_height m else 0),
      mi_orientation := (if mi_orientation m \<in> {0, 90, 180, 270} then mi_orientation m else 0),
      mi_desktop_scale_factor := (if scale_sane m then mi_desktop_scale_factor m else 100),
      mi_device_scale_factor := (if scale_sane m then mi_device_scale_factor m else 100)\<rparr>"

text \<open>
  The first test of the function compares the width twice, so a height that comes without any other attribute slips
  through. For every other monitor the attributes are the ones meant.
\<close>

definition lone_height :: "monitor_info \<Rightarrow> bool" where
  "lone_height m \<longleftrightarrow> mi_physical_height m \<noteq> 0 \<and> mi_physical_width m = 0 \<and> mi_orientation m = 0 \<and>
     mi_desktop_scale_factor m = 0 \<and> mi_device_scale_factor m = 0"

lemma sanitise_parts:
  "sanitise_physical_size m = m\<lparr>mi_physical_width := (if size_sane m then mi_physical_width m else 0),
      mi_physical_height := (if size_sane m then mi_physical_height m else 0)\<rparr>"
  "sanitise_scale m = m\<lparr>mi_desktop_scale_factor := (if scale_sane m then mi_desktop_scale_factor m else 100),
      mi_device_scale_factor := (if scale_sane m then mi_device_scale_factor m else 100)\<rparr>"
  by (cases m; auto simp: sanitise_physical_size_def size_sane_def; fail)
    (cases m; auto simp: sanitise_scale_def scale_sane_def; fail)

lemma sanitise_exact: "sanitise_extended_monitor_attributes m = sane m \<longleftrightarrow> \<not> lone_height m"
proof (cases "mi_physical_width m = 0 \<and> mi_orientation m = 0 \<and> mi_desktop_scale_factor m = 0 \<and> mi_device_scale_factor m = 0")
  case True
  then show ?thesis
    by (cases m) (simp add: sanitise_extended_monitor_attributes_def sane_def size_sane_def scale_sane_def lone_height_def)
next
  case False
  then have "\<not> lone_height m" by (auto simp: lone_height_def)
  moreover have "sanitise_extended_monitor_attributes m = sane m"
  proof -
    have step: "sanitise_extended_monitor_attributes m =
        sanitise_scale (let m = sanitise_physical_size m in if mi_orientation m \<in> {0, 90, 180, 270} then m else m\<lparr>mi_orientation := 0\<rparr>)"
      using False by (simp only: sanitise_extended_monitor_attributes_def Let_def) auto
    have keep: "scale_sane (m\<lparr>mi_physical_width := w, mi_physical_height := h, mi_orientation := r\<rparr>) = scale_sane m" for w h r
      by (simp add: scale_sane_def)
    have "(let m = sanitise_physical_size m in if mi_orientation m \<in> {0, 90, 180, 270} then m else m\<lparr>mi_orientation := 0\<rparr>) =
        m\<lparr>mi_physical_width := (if size_sane m then mi_physical_width m else 0),
          mi_physical_height := (if size_sane m then mi_physical_height m else 0),
          mi_orientation := (if mi_orientation m \<in> {0, 90, 180, 270} then mi_orientation m else 0)\<rparr>"
      unfolding sanitise_parts Let_def by (cases m) simp
    then show ?thesis unfolding step sane_def by (simp only: sanitise_parts(2) keep) simp
  qed
  ultimately show ?thesis by simp
qed

lemma sanitise_keeps [simp]:
  "mi_left (sanitise_extended_monitor_attributes m) = mi_left m" "mi_top (sanitise_extended_monitor_attributes m) = mi_top m"
  "mi_right (sanitise_extended_monitor_attributes m) = mi_right m" "mi_bottom (sanitise_extended_monitor_attributes m) = mi_bottom m"
  "mi_is_primary (sanitise_extended_monitor_attributes m) = mi_is_primary m"
  by (simp_all add: sanitise_extended_monitor_attributes_def sanitise_scale_def sanitise_physical_size_def Let_def)

text \<open>A monitor that is made the primary one, or, if it claims to be, no longer is.\<close>

definition set_primary :: "bool \<Rightarrow> monitor_info \<Rightarrow> monitor_info" where
  "set_primary p m = m\<lparr>mi_is_primary := (if p then 1 else if mi_is_primary m = 1 then 0 else mi_is_primary m)\<rparr>"

lemma set_primary_simps [simp]:
  "mi_left (set_primary p m) = mi_left m" "mi_top (set_primary p m) = mi_top m"
  "mi_right (set_primary p m) = mi_right m" "mi_bottom (set_primary p m) = mi_bottom m" "mi_is_primary (set_primary p m) = 1 \<longleftrightarrow> p"
  by (simp_all add: set_primary_def)

lemma set_primary_same: "(mi_is_primary m = 1 \<longleftrightarrow> p) \<Longrightarrow> set_primary p m = m"
  by (cases m) (auto simp: set_primary_def)

subsection \<open>Bounds\<close>

definition frame :: "monitor_info list \<Rightarrow> xrdp_rect" where
  "frame ms = \<lparr>r_left = Min (mi_left ` set ms), r_top = Min (mi_top ` set ms), r_right = Max (mi_right ` set ms), r_bottom = Max (mi_bottom ` set ms)\<rparr>"

lemma grow_frame: "ms \<noteq> [] \<Longrightarrow> grow_bounds (Some (frame ms)) m = frame (ms @ [m])"
  by (simp add: grow_bounds_def frame_def max.commute)

lemma frame_one: "grow_bounds None m = frame [m]"
  by (simp add: grow_bounds_def frame_def)

definition seen :: "monitor_info list \<Rightarrow> xrdp_rect option" where
  "seen ms = (if ms = [] then None else Some (frame ms))"

lemma grow_seen: "Some (grow_bounds (seen ms) m) = seen (ms @ [m])"
  by (simp add: seen_def grow_frame frame_one)

lemma grow_sanitise [simp]: "grow_bounds b (sanitise_extended_monitor_attributes m) = grow_bounds b m"
  by (cases b) (simp_all add: grow_bounds_def)

lemma seen_sanitise [simp]: "seen (ms @ [sanitise_extended_monitor_attributes m]) = seen (ms @ [m])"
  by (simp add: seen_def frame_def)

definition first_primary :: "monitor_info list \<Rightarrow> nat \<Rightarrow> bool" where
  "first_primary ms i \<longleftrightarrow> mi_is_primary (ms ! i) = 1 \<and> (\<forall>j < i. mi_is_primary (ms ! j) \<noteq> 1)"

lemma place_monitors_ok:
  "place_monitors (seen before) got ms = (b, got', ms') \<Longrightarrow>
     b = seen (before @ ms) \<and> (got' \<longleftrightarrow> got \<or> (\<exists>m \<in> set ms. mi_is_primary m = 1)) \<and> length ms' = length ms \<and>
     (\<forall>i < length ms. ms' ! i = set_primary (\<not> got \<and> first_primary ms i) (sanitise_extended_monitor_attributes (ms ! i)))"
proof (induction ms arbitrary: "before" got ms')
  case Nil
  then show ?case by simp
next
  case (Cons m ms)
  let ?m = "sanitise_extended_monitor_attributes m"
  let ?got = "got \<or> mi_is_primary m = 1"
  let ?m' = "if mi_is_primary m = 1 \<and> got then ?m\<lparr>mi_is_primary := 0\<rparr> else ?m"
  obtain ms2 where r: "place_monitors (seen (before @ [m])) ?got ms = (b, got', ms2)" "ms' = ?m' # ms2"
    using Cons.prems by (auto simp: grow_seen Let_def split: prod.splits if_split_asm)
  note ih = Cons.IH [OF r(1)]
  have first: "?m' = set_primary (\<not> got \<and> mi_is_primary m = 1) ?m"
    using set_primary_same [of ?m "\<not> got \<and> mi_is_primary m = 1"] by (auto simp: set_primary_def)
  have p: "first_primary (m # ms) (Suc i) \<longleftrightarrow> mi_is_primary m \<noteq> 1 \<and> first_primary ms i" for i
    by (auto simp: first_primary_def less_Suc_eq_0_disj)
  have z: "first_primary (m # ms) 0 \<longleftrightarrow> mi_is_primary m = 1" by (simp add: first_primary_def)
  show ?case
  proof (intro conjI allI impI)
    fix i assume i: "i < length (m # ms)"
    show "ms' ! i = set_primary (\<not> got \<and> first_primary (m # ms) i) (sanitise_extended_monitor_attributes ((m # ms) ! i))"
      using i ih first r(2) p z by (cases i) auto
  qed (use ih r(2) in auto)
qed

subsection \<open>The primary monitor\<close>

definition at_corner :: "xrdp_rect \<Rightarrow> monitor_info \<Rightarrow> bool" where
  "at_corner b m \<longleftrightarrow> mi_left m = r_left b \<and> mi_top m = r_top b"

definition first_corner :: "xrdp_rect \<Rightarrow> monitor_info list \<Rightarrow> nat \<Rightarrow> bool" where
  "first_corner b ms i \<longleftrightarrow> at_corner b (ms ! i) \<and> (\<forall>j < i. \<not> at_corner b (ms ! j))"

lemma choose_primary_ok:
  "length (choose_primary b ms) = length ms \<and>
   (\<forall>i < length ms. choose_primary b ms ! i = (if first_corner b ms i then (ms ! i)\<lparr>mi_is_primary := 1\<rparr> else ms ! i))"
proof (induction ms)
  case Nil
  then show ?case by simp
next
  case (Cons m ms)
  have p: "first_corner b (m # ms) (Suc i) \<longleftrightarrow> \<not> at_corner b m \<and> first_corner b ms i" for i
    by (auto simp: first_corner_def less_Suc_eq_0_disj)
  have z: "first_corner b (m # ms) 0 \<longleftrightarrow> at_corner b m" by (simp add: first_corner_def)
  have c: "choose_primary b (m # ms) = (if at_corner b m then m\<lparr>mi_is_primary := 1\<rparr> # ms else m # choose_primary b ms)"
    by (simp add: at_corner_def)
  have "choose_primary b (m # ms) ! i = (if first_corner b (m # ms) i then ((m # ms) ! i)\<lparr>mi_is_primary := 1\<rparr> else (m # ms) ! i)"
    if i: "i < length (m # ms)" for i
    using i Cons p z by (cases i) (auto simp: c simp del: choose_primary.simps)
  then show ?case using Cons c by (simp del: choose_primary.simps)
qed

lemma first_unique:
  "first_primary ms i \<Longrightarrow> first_primary ms j \<Longrightarrow> i = j" "first_corner b ms i \<Longrightarrow> first_corner b ms j \<Longrightarrow> i = j"
  by (auto simp: first_primary_def first_corner_def) (metis linorder_neqE_nat)+

lemma first_exists:
  "(\<exists>m \<in> set ms. mi_is_primary m = 1) \<longleftrightarrow> (\<exists>i < length ms. first_primary ms i)"
  "(\<exists>m \<in> set ms. at_corner b m) \<longleftrightarrow> (\<exists>i < length ms. first_corner b ms i)"
proof -
  have some: "(\<exists>m \<in> set ms. P m) \<longleftrightarrow> (\<exists>i < length ms. P (ms ! i) \<and> (\<forall>j < i. \<not> P (ms ! j)))" for P
  proof
    assume "\<exists>m \<in> set ms. P m"
    then have ex: "\<exists>k. k < length ms \<and> P (ms ! k)" by (auto simp: in_set_conv_nth)
    define i where "i = (LEAST k. k < length ms \<and> P (ms ! k))"
    have "i < length ms \<and> P (ms ! i)" unfolding i_def by (rule LeastI_ex [OF ex])
    moreover have "\<not> P (ms ! j)" if "j < i" for j
      using not_less_Least [OF that [unfolded i_def]] that calculation by auto
    ultimately show "\<exists>i < length ms. P (ms ! i) \<and> (\<forall>j < i. \<not> P (ms ! j))" by blast
  next
    assume "\<exists>i < length ms. P (ms ! i) \<and> (\<forall>j < i. \<not> P (ms ! j))"
    then show "\<exists>m \<in> set ms. P m" using nth_mem by blast
  qed
  show "(\<exists>m \<in> set ms. mi_is_primary m = 1) \<longleftrightarrow> (\<exists>i < length ms. first_primary ms i)"
    unfolding first_primary_def by (rule some)
  show "(\<exists>m \<in> set ms. at_corner b m) \<longleftrightarrow> (\<exists>i < length ms. first_corner b ms i)"
    unfolding first_corner_def by (rule some)
qed

text \<open>The primary monitor is the first that claims to be, or else the first in the top left corner of the frame.\<close>

definition primary_of :: "monitor_info list \<Rightarrow> nat \<Rightarrow> bool" where
  "primary_of ms i \<longleftrightarrow> (if \<exists>m \<in> set ms. mi_is_primary m = 1 then first_primary ms i else first_corner (frame ms) ms i)"

lemma one_primary:
  assumes "\<exists>m \<in> set ms. mi_is_primary m = 1 \<or> at_corner (frame ms) m"
  shows "\<exists>!i. i < length ms \<and> primary_of ms i"
proof -
  have "\<exists>i < length ms. primary_of ms i"
    unfolding primary_of_def using assms first_exists(1) [of ms] first_exists(2) [of ms "frame ms"] by auto
  then show ?thesis unfolding primary_of_def using first_unique by (metis (full_types))
qed

lemma placed_ok:
  assumes "place_monitors None False ms = (b, got, placed)"
  shows "b = seen ms \<and> (let res = (if got then placed else choose_primary (frame ms) placed) in
     length res = length ms \<and>
     (\<forall>i < length ms. res ! i = set_primary (primary_of ms i) (sanitise_extended_monitor_attributes (ms ! i))))"
proof -
  have "place_monitors (seen []) False ms = (b, got, placed)" using assms by (simp add: seen_def)
  note ok = place_monitors_ok [OF this]
  show ?thesis
  proof (cases got)
    case True
    then show ?thesis using ok by (simp add: primary_of_def)
  next
    case False
    have corner: "at_corner (frame ms) (placed ! i) \<longleftrightarrow> at_corner (frame ms) (ms ! i)" if "i < length ms" for i
      using ok that by (simp add: at_corner_def)
    have first: "first_corner (frame ms) placed i \<longleftrightarrow> first_corner (frame ms) ms i" if "i < length ms" for i
      using corner that by (auto simp: first_corner_def)
    have none: "\<not> first_primary ms i" "mi_is_primary (ms ! i) \<noteq> 1" if "i < length ms" for i
      using ok False that by (auto simp: first_primary_def)
    show ?thesis
      using ok False choose_primary_ok [of "frame ms" placed] first none
      by (auto simp: primary_of_def set_primary_def)
  qed
qed

subsection \<open>The description\<close>

definition in_c_int :: "int \<Rightarrow> bool" where
  "in_c_int v \<longleftrightarrow> - (2 ^ 31) \<le> v \<and> v < 2 ^ 31"

definition monitors_typed :: "monitor_info list \<Rightarrow> bool" where
  "monitors_typed ms \<longleftrightarrow> (\<forall>m \<in> set ms. in_c_int (mi_left m) \<and> in_c_int (mi_top m) \<and> in_c_int (mi_right m) \<and> in_c_int (mi_bottom m))"

definition desktop_ok :: "monitor_info list \<Rightarrow> bool" where
  "desktop_ok ms \<longleftrightarrow> ms \<noteq> [] \<and> length ms \<le> 16 \<and>
     r_right (frame ms) - r_left (frame ms) + 1 \<in> {200..32766} \<and> r_bottom (frame ms) - r_top (frame ms) + 1 \<in> {200..32766}"

lemma frame_typed:
  assumes "monitors_typed ms" "ms \<noteq> []"
  shows "in_c_int (r_left (frame ms)) \<and> in_c_int (r_right (frame ms)) \<and> in_c_int (r_top (frame ms)) \<and> in_c_int (r_bottom (frame ms))"
proof -
  have "Min (mi_left ` set ms) \<in> mi_left ` set ms" "Min (mi_top ` set ms) \<in> mi_top ` set ms"
    "Max (mi_right ` set ms) \<in> mi_right ` set ms" "Max (mi_bottom ` set ms) \<in> mi_bottom ` set ms"
    using assms(2) by (auto intro!: Min_in Max_in)
  then show ?thesis using assms(1) unfolding monitors_typed_def frame_def by auto
qed

lemma c_uint_extent:
  assumes "in_c_int l" "in_c_int r" "r > l"
  shows "c_uint (r - l + 1) \<in> {200..32766} \<longleftrightarrow> r - l + 1 \<in> {200..32766}"
    "r - l + 1 \<in> {200..32766} \<Longrightarrow> c_uint (r - l + 1) = r - l + 1"
proof -
  have "c_uint (r - l + 1) = (if r - l + 1 = 2 ^ 32 then 0 else r - l + 1)"
    using assms by (auto simp: c_uint_def in_c_int_def take_bit_eq_mod)
  then show "c_uint (r - l + 1) \<in> {200..32766} \<longleftrightarrow> r - l + 1 \<in> {200..32766}"
    "r - l + 1 \<in> {200..32766} \<Longrightarrow> c_uint (r - l + 1) = r - l + 1" by auto
qed

text \<open>The outcome, with what is placed written as in \<^verbatim>\<open>placed_ok\<close>.\<close>

lemma init_description_cases:
  assumes place: "place_monitors None False ms = (b, got, placed)" and typed: "monitors_typed ms"
    and len: "length (ds_minfo d) = 16" "length (ds_minfo_wm d) = 16"
  defines "res \<equiv> (if got then placed else choose_primary (frame ms) placed)"
  shows "libxrdp_init_display_size_description ms d = (rv, d') \<Longrightarrow>
     rv = (if length ms > 16 then 2 else if desktop_ok ms then 0 else 3) \<and>
     (rv = 0 \<longrightarrow> ds_monitorCount d' = int (length ms) \<and> ds_minfo d' = res @ drop (length ms) (ds_minfo d) \<and>
        ds_minfo_wm d' = map (to_wm (frame ms)) res @ drop (length ms) (ds_minfo_wm d) \<and>
        ds_session_width d' = r_right (frame ms) - r_left (frame ms) + 1 \<and>
        ds_session_height d' = r_bottom (frame ms) - r_top (frame ms) + 1)"
proof -
  assume r: "libxrdp_init_display_size_description ms d = (rv, d')"
  let ?f = "frame ms"
  have b: "b = seen ms" using placed_ok [OF place] by simp
  consider (empty) "ms = []" | (many) "ms \<noteq> []" "length ms > 16" | (flat) "ms \<noteq> []" "length ms \<le> 16" "\<not> (r_right ?f > r_left ?f \<and> r_bottom ?f > r_top ?f)"
    | (good) "ms \<noteq> []" "length ms \<le> 16" "r_right ?f > r_left ?f" "r_bottom ?f > r_top ?f" by linarith
  then show ?thesis
  proof cases
    case empty
    then show ?thesis using r by (auto simp: libxrdp_init_display_size_description_def desktop_ok_def Let_def)
  next
    case many
    then show ?thesis using r by (auto simp: libxrdp_init_display_size_description_def desktop_ok_def Let_def)
  next
    case flat
    then have "rv = 3" using r b place by (auto simp: libxrdp_init_display_size_description_def seen_def Let_def)
    then show ?thesis using flat by (auto simp: desktop_ok_def)
  next
    case good
    note t = frame_typed [OF typed good(1)]
    note w = c_uint_extent [of "r_left ?f" "r_right ?f"] and h = c_uint_extent [of "r_top ?f" "r_bottom ?f"]
    let ?w = "c_uint (r_right ?f - r_left ?f + 1)" and ?h = "c_uint (r_bottom ?f - r_top ?f + 1)"
    have dk: "desktop_ok ms \<longleftrightarrow> \<not> (?w > 0x7FFE \<or> ?w < 0xC8 \<or> ?h > 0x7FFE \<or> ?h < 0xC8)"
    proof -
      have "?w \<in> {200..32766} \<longleftrightarrow> r_right ?f - r_left ?f + 1 \<in> {200..32766}" "?h \<in> {200..32766} \<longleftrightarrow> r_bottom ?f - r_top ?f + 1 \<in> {200..32766}"
        using w(1) h(1) t good(3,4) by blast+
      then show ?thesis unfolding desktop_ok_def using good(1,2) by (simp only: atLeastAtMost_iff not_less de_Morgan_disj) blast
    qed
    have out: "libxrdp_init_display_size_description ms d =
        (let d1 = d\<lparr>ds_monitorCount := int (length ms), ds_minfo := res @ drop (length ms) (ds_minfo d),
                    ds_session_width := c_uint (r_right ?f - r_left ?f + 1), ds_session_height := c_uint (r_bottom ?f - r_top ?f + 1)\<rparr>
         in if desktop_ok ms then (0, d1\<lparr>ds_minfo_wm := map (to_wm ?f) res @ drop (length ms) (ds_minfo_wm d)\<rparr>) else (3, d1))"
      unfolding dk using good b place
      by (simp add: libxrdp_init_display_size_description_def seen_def Let_def res_def)
    show ?thesis
      using r unfolding out by (cases "desktop_ok ms") (use w(2) h(2) t good in \<open>auto simp: Let_def desktop_ok_def\<close>)
  qed
qed

definition in_session :: "display_size_description \<Rightarrow> monitor_info \<Rightarrow> bool" where
  "in_session d w \<longleftrightarrow> 0 \<le> mi_left w \<and> mi_left w \<le> mi_right w \<and> mi_right w < ds_session_width d \<and>
     0 \<le> mi_top w \<and> mi_top w \<le> mi_bottom w \<and> mi_bottom w < ds_session_height d"

definition upright :: "monitor_info \<Rightarrow> bool" where
  "upright m \<longleftrightarrow> mi_left m \<le> mi_right m \<and> mi_top m \<le> mi_bottom m"

lemma to_wm_in_session:
  assumes ok: "desktop_ok ms" and m: "m \<in> set ms" "upright m" "same_place m m'"
    and d: "ds_session_width d = r_right (frame ms) - r_left (frame ms) + 1" "ds_session_height d = r_bottom (frame ms) - r_top (frame ms) + 1"
  shows "to_wm (frame ms) m' = m'\<lparr>mi_left := mi_left m - r_left (frame ms), mi_top := mi_top m - r_top (frame ms),
        mi_right := mi_right m - r_left (frame ms), mi_bottom := mi_bottom m - r_top (frame ms)\<rparr> \<and> in_session d (to_wm (frame ms) m')"
proof -
  have b: "r_left (frame ms) \<le> mi_left m" "mi_right m \<le> r_right (frame ms)" "r_top (frame ms) \<le> mi_top m" "mi_bottom m \<le> r_bottom (frame ms)"
    using m(1) by (auto simp: frame_def)
  have c: "c_int v = v" if "0 \<le> v" "v < 40000" for v using that by (simp add: c_int_def signed_take_bit_int_eq_self)
  have r: "mi_left m' = mi_left m" "mi_top m' = mi_top m" "mi_right m' = mi_right m" "mi_bottom m' = mi_bottom m"
    using m(3) by (simp_all add: same_place_def)
  have s: "0 \<le> mi_left m - r_left (frame ms)" "mi_left m - r_left (frame ms) < 40000" "0 \<le> mi_right m - r_left (frame ms)"
    "mi_right m - r_left (frame ms) < 40000" "0 \<le> mi_top m - r_top (frame ms)" "mi_top m - r_top (frame ms) < 40000"
    "0 \<le> mi_bottom m - r_top (frame ms)" "mi_bottom m - r_top (frame ms) < 40000"
    using b ok m(2) by (auto simp: desktop_ok_def upright_def)
  show ?thesis
    using b m(2) d by (simp add: to_wm_def r c s in_session_def upright_def)
qed

text \<open>
  C21. The virtual desktop of a monitor layout is computed exactly, if no monitor sends a physical height without any
  other attribute and, should no monitor claim to be primary, one lies in the top left corner of the frame, the smallest
  rectangle around the monitors. More than sixteen monitors are refused, and none, or a frame that is
  not 200 to 32766 pixels wide and high; no arithmetic of 32 bits spoils this. Otherwise the frame is the session, and
  every monitor keeps its place and flags and has exactly the attributes it is meant to keep: its physical size if both sides are in range, its
  orientation if it is one of the four, its scale factors if both are admissible, the defaults otherwise. Exactly one
  monitor is primary: the first that claims to be, or else the first in the corner. The copy for the window manager
  is the same monitor moved to the origin of the session, and lies inside the session, if its own rectangle is upright.

  The two conditions are where the code does not do what its comments say: a lone height is kept whatever it is
  (\<open>sanitise_exact\<close>), and without a monitor in the corner no monitor becomes primary (\<open>no_primary_monitor\<close>).
\<close>

theorem monitor_layout_exact:
  assumes "monitors_typed ms" and "length (ds_minfo d) = 16" and "length (ds_minfo_wm d) = 16"
    and heights: "\<forall>m \<in> set ms. \<not> lone_height m" and primary: "\<exists>m \<in> set ms. mi_is_primary m = 1 \<or> at_corner (frame ms) m"
    and "libxrdp_init_display_size_description ms d = (rv, d')"
  shows "rv = (if length ms > 16 then 2 else if desktop_ok ms then 0 else 3) \<and>
     (rv = 0 \<longrightarrow> ds_monitorCount d' = int (length ms) \<and> length (ds_minfo d') = 16 \<and> length (ds_minfo_wm d') = 16 \<and>
        ds_session_width d' = r_right (frame ms) - r_left (frame ms) + 1 \<and> ds_session_height d' = r_bottom (frame ms) - r_top (frame ms) + 1 \<and>
        (\<exists>!i. i < length ms \<and> primary_of ms i) \<and>
        (\<forall>i < length ms. ds_minfo d' ! i = set_primary (primary_of ms i) (sane (ms ! i)) \<and>
           (upright (ms ! i) \<longrightarrow>
              ds_minfo_wm d' ! i = (ds_minfo d' ! i)\<lparr>mi_left := mi_left (ms ! i) - r_left (frame ms), mi_top := mi_top (ms ! i) - r_top (frame ms),
                mi_right := mi_right (ms ! i) - r_left (frame ms), mi_bottom := mi_bottom (ms ! i) - r_top (frame ms)\<rparr> \<and>
              in_session d' (ds_minfo_wm d' ! i))))"
proof -
  obtain b got placed where place: "place_monitors None False ms = (b, got, placed)" by (metis prod_cases3)
  define res where "res = (if got then placed else choose_primary (frame ms) placed)"
  note out = init_description_cases [OF place assms(1-3,6), folded res_def]
  have sane: "sanitise_extended_monitor_attributes (ms ! i) = sane (ms ! i)" if "i < length ms" for i
    using sanitise_exact heights nth_mem [OF that] by blast
  have p: "length res = length ms" "\<forall>i < length ms. res ! i = set_primary (primary_of ms i) (sane (ms ! i))"
    using placed_ok [OF place, folded res_def] sane by (simp_all add: Let_def)
  show ?thesis
  proof (cases "rv = 0")
    case False
    then show ?thesis using out by simp
  next
    case True
    then have ok: "desktop_ok ms" and d': "ds_monitorCount d' = int (length ms)" "ds_minfo d' = res @ drop (length ms) (ds_minfo d)"
      "ds_minfo_wm d' = map (to_wm (frame ms)) res @ drop (length ms) (ds_minfo_wm d)"
      "ds_session_width d' = r_right (frame ms) - r_left (frame ms) + 1" "ds_session_height d' = r_bottom (frame ms) - r_top (frame ms) + 1"
      using out by (auto split: if_split_asm)
    have l: "length ms \<le> 16" using ok by (simp add: desktop_ok_def)
    have n: "ds_minfo d' ! i = res ! i" "ds_minfo_wm d' ! i = to_wm (frame ms) (res ! i)" if "i < length ms" for i
      using that p(1) by (simp_all add: d'(2,3) nth_append)
    have same: "same_place (ms ! i) (res ! i)" if "i < length ms" for i
      using that p(2) by (simp add: same_place_def sane_def)
    have moved: "upright (ms ! i) \<Longrightarrow> ds_minfo_wm d' ! i = (ds_minfo d' ! i)\<lparr>mi_left := mi_left (ms ! i) - r_left (frame ms),
        mi_top := mi_top (ms ! i) - r_top (frame ms), mi_right := mi_right (ms ! i) - r_left (frame ms),
        mi_bottom := mi_bottom (ms ! i) - r_top (frame ms)\<rparr> \<and> in_session d' (ds_minfo_wm d' ! i)" if "i < length ms" for i
      using to_wm_in_session [OF ok nth_mem [OF that] _ same [OF that] d'(4,5)] unfolding n [OF that] by blast
    show ?thesis
    proof (intro conjI impI allI)
      show "rv = (if length ms > 16 then 2 else if desktop_ok ms then 0 else 3)" using out by blast
      show "length (ds_minfo d') = 16" "length (ds_minfo_wm d') = 16" using l p(1) assms(2,3) by (simp_all add: d'(2,3))
      show "\<exists>!i. i < length ms \<and> primary_of ms i" using primary by (rule one_primary)
      show "ds_minfo d' ! i = set_primary (primary_of ms i) (sane (ms ! i))" if "i < length ms" for i
        using that n(1) p(2) by simp
    qed (use d' moved in blast)+
  qed
qed

subsection \<open>Reading a layout\<close>

definition description_ok :: "display_size_description \<Rightarrow> bool" where
  "description_ok d \<longleftrightarrow> length (ds_minfo d) = 16 \<and> length (ds_minfo_wm d) = 16 \<and> 0 \<le> ds_monitorCount d \<and> ds_monitorCount d \<le> 16"

lemma c_int_typed [simp]: "in_c_int (c_int v)"
  using signed_take_bit_int_less_exp [of 31 v] signed_take_bit_int_greater_eq_minus_exp [of 31 v] by (simp add: in_c_int_def c_int_def)

lemma read_monitor_def_ok:
  assumes "in_wf s" "20 \<le> length (unread s)"
  shows "\<exists>m. read_monitor_def s = Some (0, m, advance 20 s) \<and> monitors_typed [m]"
proof -
  have "\<exists>m. read_monitor_def (advance 0 s) = Some (0, m, advance 20 s) \<and> monitors_typed [m]"
    using assms by (simp add: read_monitor_def_def at_simps monitors_typed_def del: advance_simps(1))
  then show ?thesis by simp
qed

lemma read_monitor_layout_ok:
  assumes "in_wf s" "40 \<le> length (unread s)"
  shows "\<exists>rv m k. read_monitor_layout s = Some (rv, m, advance k s) \<and> k \<le> 40 \<and> (rv = 0 \<longrightarrow> monitors_typed [m])"
proof -
  define w h where "w = c_int (le_val (take 4 (drop 12 (unread s))))" and "h = c_int (le_val (take 4 (drop 16 (unread s))))"
  note defs = read_monitor_layout_def at_simps Let_def monitors_typed_def
  consider (width) "w > 0x2000 \<or> w < 0xC8 \<or> w mod 2 \<noteq> 0" | (height) "\<not> (w > 0x2000 \<or> w < 0xC8 \<or> w mod 2 \<noteq> 0)" "h > 0x2000 \<or> h < 0xC8"
    | (fine) "\<not> (w > 0x2000 \<or> w < 0xC8 \<or> w mod 2 \<noteq> 0)" "\<not> (h > 0x2000 \<or> h < 0xC8)" by argo
  then have "\<exists>rv m k. read_monitor_layout (advance 0 s) = Some (rv, m, advance k s) \<and> k \<le> 40 \<and> (rv = 0 \<longrightarrow> monitors_typed [m])"
  proof cases
    case width
    then have "\<exists>m. read_monitor_layout (advance 0 s) = Some (4, m, advance 16 s)"
      using assms by (simp add: defs w_def del: advance_simps(1))
    then show ?thesis by fastforce
  next
    case height
    then have "\<exists>m. read_monitor_layout (advance 0 s) = Some (4, m, advance 20 s)"
      using assms by (simp add: defs w_def h_def del: advance_simps(1))
    then show ?thesis by fastforce
  next
    case fine
    then have "\<exists>m. read_monitor_layout (advance 0 s) = Some (0, m, advance 40 s) \<and> monitors_typed [m]"
      using assms by (simp add: defs w_def h_def del: advance_simps(1))
    then show ?thesis by fastforce
  qed
  then show ?thesis by simp
qed

lemma read_monitors_ok:
  "in_wf s \<Longrightarrow> \<exists>rv ms s'. read_monitors full n s = Some (rv, ms, s') \<and> parsed s s' \<and> (rv = 0 \<longrightarrow> length ms = n \<and> monitors_typed ms)"
proof (induction n arbitrary: s)
  case 0
  then show ?case by (simp add: monitors_typed_def)
next
  case (Suc n)
  let ?k = "if full then 40 else 20 :: nat"
  show ?case
  proof (cases "?k \<le> length (unread s)")
    case False
    then have "\<not> s_check_rem s (if full then 40 else 20)" using Suc.prems by (auto simp: s_check_rem_wf)
    then show ?thesis by simp
  next
    case True
    then have c: "s_check_rem s (if full then 40 else 20)" using Suc.prems by (auto simp: s_check_rem_wf)
    obtain rv m k where one: "(if full then read_monitor_layout s else read_monitor_def s) = Some (rv, m, advance k s)" "k \<le> ?k"
      "rv = 0 \<longrightarrow> monitors_typed [m]"
      using read_monitor_layout_ok [OF Suc.prems] read_monitor_def_ok [OF Suc.prems] True by (cases full) fastforce+
    have p: "parsed s (advance k s)" using one(2) True by (intro parsed_advance) linarith
    obtain rv' ms s' where r: "read_monitors full n (advance k s) = Some (rv', ms, s')" "parsed (advance k s) s'"
      "rv' = 0 \<longrightarrow> length ms = n \<and> monitors_typed ms"
      using Suc.IH [OF parsed_wf [OF Suc.prems p]] by blast
    show ?thesis
      using c one r p parsed_trans [OF Suc.prems p r(2)] by (auto simp: monitors_typed_def simp del: if_split)
  qed
qed

lemma init_description_ok:
  assumes "description_ok d" "libxrdp_init_display_size_description ms d = (rv, d')"
  shows "description_ok d'"
proof -
  obtain b got placed where place: "place_monitors None False ms = (b, got, placed)" by (metis prod_cases3)
  have l: "length placed = length ms" "length (choose_primary b' placed) = length ms" for b'
    using place_monitors_ok [of "[]" False ms] place choose_primary_ok [of b' placed] by (auto simp: seen_def)
  show ?thesis
    using assms place l by (auto simp: libxrdp_init_display_size_description_def description_ok_def Let_def split: if_split_asm)
qed

lemma process_monitor_stream_ok:
  assumes "in_wf s" "description_ok d"
  shows "\<exists>rv d' s'. libxrdp_process_monitor_stream full s (Some d) = Some (rv, Some d', s') \<and> parsed s s' \<and> description_ok d' \<and>
     (rv = 0 \<longrightarrow> ds_monitorCount d' < 16)"
proof (cases "4 \<le> length (unread s)")
  case False
  then show ?thesis using assms by (simp add: libxrdp_process_monitor_stream_def s_check_rem_wf)
next
  case True
  define n where "n = le_val (take 4 (unread s))"
  have n: "in_uint32_le s = Some (n, advance 4 s)" using in_uint32_le_at [OF assms(1), of 0] True by (simp add: n_def)
  have p: "parsed s (advance 4 s)" using True by (rule parsed_advance)
  obtain rv ms s' where r: "read_monitors full (nat n) (advance 4 s) = Some (rv, ms, s')" "parsed (advance 4 s) s'"
    "rv = 0 \<longrightarrow> length ms = nat n \<and> monitors_typed ms"
    using read_monitors_ok [OF parsed_wf [OF assms(1) p]] by blast
  obtain rv' d' where i: "libxrdp_init_display_size_description ms d = (rv', d')" by fastforce
  have cnt: "rv' = 0 \<longrightarrow> ds_monitorCount d' = int (length ms)"
    using i by (auto simp: libxrdp_init_display_size_description_def Let_def split: if_split_asm prod.split_asm)
  have "s_check_rem s 4" using True assms(1) by (simp add: s_check_rem_wf)
  then show ?thesis
    using n p r i cnt assms(2) init_description_ok [OF assms(2) i] parsed_trans [OF assms(1) p r(2)]
    by (auto simp: libxrdp_process_monitor_stream_def)
qed

subsection \<open>Reading extended attributes\<close>

text \<open>Inside the buffer, whether or not inside the stream, four bytes can be read.\<close>

lemma in_uint32_le_buffer: "s_p s + 4 \<le> s_size s \<Longrightarrow> \<exists>v. in_uint32_le s = Some (v, advance 4 s)"
  by (simp add: in_uint32_le_def in_bytes_def advance_def)

lemma read_attributes_buffer:
  assumes "index + n \<le> length minfo" "s_p s + 20 * n \<le> s_size s"
  shows "\<exists>rv minfo' k. read_attributes index n 20 minfo s = Some (rv, minfo', advance k s) \<and> k \<le> 20 * n \<and> length minfo' = length minfo"
  using assms
proof (induction n arbitrary: index minfo s)
  case 0
  show ?case by (auto intro: exI [of _ "0 :: nat"])
next
  case (Suc n)
  show ?case
  proof (cases "s_check_rem s 20")
    case False
    then show ?thesis by (auto intro: exI [of _ "0 :: nat"])
  next
    case True
    obtain a where a: "in_uint32_le s = Some (a, advance 4 s)" using in_uint32_le_buffer [of s] Suc.prems(2) by auto
    obtain b where b: "in_uint32_le (advance 4 s) = Some (b, advance 8 s)" using in_uint32_le_buffer [of "advance 4 s"] Suc.prems(2) by auto
    obtain c where c: "in_uint32_le (advance 8 s) = Some (c, advance 12 s)" using in_uint32_le_buffer [of "advance 8 s"] Suc.prems(2) by auto
    obtain d where d: "in_uint32_le (advance 12 s) = Some (d, advance 16 s)" using in_uint32_le_buffer [of "advance 12 s"] Suc.prems(2) by auto
    obtain e where e: "in_uint32_le (advance 16 s) = Some (e, advance 20 s)" using in_uint32_le_buffer [of "advance 16 s"] Suc.prems(2) by auto
    have i: "index < length minfo" using Suc.prems(1) by simp
    obtain minfo1 where m: "read_attributes index (Suc n) 20 minfo s = read_attributes (Suc index) n 20 minfo1 (advance 20 s)" "length minfo1 = length minfo"
      using True a b c d e i by (simp add: list_get_def list_set_def)
    obtain rv minfo' k where "read_attributes (Suc index) n 20 minfo1 (advance 20 s) = Some (rv, minfo', advance k (advance 20 s))" "k \<le> 20 * n"
      "length minfo' = length minfo1"
      using Suc.IH [of "Suc index" minfo1 "advance 20 s"] Suc.prems m(2) by auto
    then show ?thesis using m by (intro exI [of _ rv] exI [of _ minfo'] exI [of _ "20 + k"]) simp
  qed
qed

lemma read_attributes_ok:
  "in_wf s \<Longrightarrow> index + n \<le> length minfo \<Longrightarrow>
     \<exists>rv minfo' s'. read_attributes index n 20 minfo s = Some (rv, minfo', s') \<and> parsed s s' \<and> length minfo' = length minfo"
proof (induction n arbitrary: index minfo s)
  case 0
  then show ?case by simp
next
  case (Suc n)
  show ?case
  proof (cases "s_check_rem s 20")
    case False
    then show ?thesis by simp
  next
    case True
    then have l: "20 \<le> length (unread s)" using Suc.prems(1) by (simp add: s_check_rem_wf)
    have i: "index + 1 \<le> length minfo" using Suc.prems(2) by simp
    note p = parsed_advance [OF l]
    have w: "in_uint32_le s = Some (le_val (take 4 (unread s)), advance 4 s)"
      "in_uint32_le (advance 4 s) = Some (le_val (take 4 (drop 4 (unread s))), advance 8 s)"
      "in_uint32_le (advance 8 s) = Some (le_val (take 4 (drop 8 (unread s))), advance 12 s)"
      "in_uint32_le (advance 12 s) = Some (le_val (take 4 (drop 12 (unread s))), advance 16 s)"
      "in_uint32_le (advance 16 s) = Some (le_val (take 4 (drop 16 (unread s))), advance 20 s)"
      using l Suc.prems(1) in_uint32_le_at [OF Suc.prems(1), of 0] by (simp_all add: in_uint32_le_at)
    obtain minfo1 where m: "read_attributes index (Suc n) 20 minfo s = read_attributes (Suc index) n 20 minfo1 (advance 20 s)" "length minfo1 = length minfo"
      using True w i by (simp add: list_get_def list_set_def)
    obtain rv minfo' s' where "read_attributes (Suc index) n 20 minfo1 (advance 20 s) = Some (rv, minfo', s')" "parsed (advance 20 s) s'"
      "length minfo' = length minfo1"
      using Suc.IH [OF parsed_wf [OF Suc.prems(1) p], of "Suc index" minfo1] Suc.prems(2) m(2) by auto
    then show ?thesis using m parsed_trans [OF Suc.prems(1) p] by auto
  qed
qed

text \<open>
  With 308 bytes of the buffer in front of it the function returns; with eight bytes of the
  stream it also stays in the stream.
\<close>

lemma monitor_ex_buffer:
  assumes "description_ok d" "ds_monitorCount d < 16" "s_p s + 308 \<le> s_size s"
  shows "\<exists>rv d' s'. libxrdp_process_monitor_ex_stream s (Some d) = Some (rv, Some d', s') \<and> description_ok d' \<and> ds_monitorCount d' < 16 \<and>
     s_data s' = s_data s \<and> s_end s' = s_end s"
proof -
  obtain a where a: "in_uint32_le s = Some (a, advance 4 s)" using in_uint32_le_buffer [of s] assms(3) by auto
  obtain b where b: "in_uint32_le (advance 4 s) = Some (b, advance 8 s)" using in_uint32_le_buffer [of "advance 4 s"] assms(3) by auto
  show ?thesis
  proof (cases "s_check_rem s 4 \<and> a = 20 \<and> b = ds_monitorCount d")
    case False
    then show ?thesis using a b assms by (auto simp: libxrdp_process_monitor_ex_stream_def)
  next
    case True
    have n: "0 + nat b \<le> length (ds_minfo d)" "nat b \<le> 15" using True assms(1,2) by (auto simp: description_ok_def)
    have "s_p (advance 8 s) + 20 * nat b \<le> s_size (advance 8 s)" using n(2) assms(3) by simp
    from read_attributes_buffer [OF n(1) this]
    obtain rv minfo' k where r: "read_attributes 0 (nat b) 20 (ds_minfo d) (advance 8 s) = Some (rv, minfo', advance k (advance 8 s))"
      "length minfo' = length (ds_minfo d)" by blast
    then show ?thesis using True a b assms(1,2) n by (auto simp: libxrdp_process_monitor_ex_stream_def description_ok_def Let_def)
  qed
qed

lemma monitor_ex_ok:
  assumes "description_ok d" "ds_monitorCount d < 16" "in_wf s" "8 \<le> length (unread s) \<or> length (unread s) < 4"
  shows "\<exists>rv d' s'. libxrdp_process_monitor_ex_stream s (Some d) = Some (rv, Some d', s') \<and> parsed s s' \<and> description_ok d' \<and> ds_monitorCount d' < 16"
proof (cases "8 \<le> length (unread s)")
  case False
  then show ?thesis using assms by (simp add: libxrdp_process_monitor_ex_stream_def s_check_rem_wf)
next
  case True
  obtain a b where ab: "in_uint32_le s = Some (a, advance 4 s)" "in_uint32_le (advance 4 s) = Some (b, advance 8 s)"
    using in_uint32_le_at [OF assms(3), of 0] in_uint32_le_at [OF assms(3), of 4] True by auto
  have p: "parsed s (advance 4 s)" "parsed s (advance 8 s)" using True by (auto intro: parsed_advance)
  show ?thesis
  proof (cases "s_check_rem s 4 \<and> a = 20 \<and> b = ds_monitorCount d")
    case False
    then show ?thesis using ab p assms by (auto simp: libxrdp_process_monitor_ex_stream_def)
  next
    case same: True
    have n: "0 + nat b \<le> length (ds_minfo d)" using same assms(1,2) by (auto simp: description_ok_def)
    obtain rv minfo' s' where r: "read_attributes 0 (nat b) 20 (ds_minfo d) (advance 8 s) = Some (rv, minfo', s')" "parsed (advance 8 s) s'"
      "length minfo' = length (ds_minfo d)"
      using read_attributes_ok [OF parsed_wf [OF assms(3) p(2)] n] by blast
    then show ?thesis using same ab assms(1,2) n parsed_trans [OF assms(3) p(2) r(2)]
      by (auto simp: libxrdp_process_monitor_ex_stream_def description_ok_def Let_def)
  qed
qed

text \<open>
  C22. Reading the extended attributes of the monitors leaves the buffer for exactly one kind of
  input. In a stream that fills its buffer, as the copy of a Connect-Initial does, the function reads
  outside the buffer if and only if the block has the right attribute size and ends before the number
  of monitors, which is read without a check; every other block is handled inside the stream.
\<close>

theorem monitor_ex_overrun:
  assumes "in_wf s" and "s_end s = s_size s" and "description_ok d" and "ds_monitorCount d < 16"
  shows "libxrdp_process_monitor_ex_stream s (Some d) = None \<longleftrightarrow> length (unread s) \<in> {4..7} \<and> take 4 (unread s) = [20, 0, 0, 0]"
proof (cases "length (unread s) \<in> {4..7}")
  case False
  then have "8 \<le> length (unread s) \<or> length (unread s) < 4" by auto
  then show ?thesis using False monitor_ex_ok [OF assms(3,4,1)] by auto
next
  case True
  then have l: "4 \<le> length (unread s)" "length (unread s) < 8" by auto
  define a where "a = le_val (take 4 (unread s))"
  have a: "in_uint32_le s = Some (a, advance 4 s)" using in_uint32_le_at [OF assms(1), of 0] l by (simp add: a_def)
  have "s_p s + length (unread s) = s_size s" using assms(1,2) by (simp add: length_unread in_wf_def)
  then have b: "in_uint32_le (advance 4 s) = None" using l by (simp add: in_uint32_le_def in_bytes_def)
  have c: "s_check_rem s 4" using l assms(1) by (simp add: s_check_rem_wf)
  have "length (take 4 (unread s)) = 4" using l by simp
  then have "le_bytes 4 a = take 4 (unread s)" unfolding a_def using le_bytes_le_val [of "take 4 (unread s)"] by simp
  moreover have "le_bytes 4 20 = [20, 0, 0, 0]" by (simp add: eval_nat_numeral)
  ultimately have "a = 20 \<longleftrightarrow> take 4 (unread s) = [20, 0, 0, 0]"
    by (auto simp: a_def)
  then show ?thesis using True a b c by (simp add: libxrdp_process_monitor_ex_stream_def)
qed

text \<open>
  Monitors placed diagonally have none in the corner of their frame, and if none claims to be
  primary none becomes it, although the code means to choose the leftmost.
\<close>

definition diagonal :: "monitor_info list" where
  "diagonal = [zero_monitor\<lparr>mi_left := 0, mi_top := 100, mi_right := 1919, mi_bottom := 1179\<rparr>,
               zero_monitor\<lparr>mi_left := 1920, mi_top := 0, mi_right := 3839, mi_bottom := 1079\<rparr>]"

lemma no_primary_monitor:
  "\<exists>d'. libxrdp_init_display_size_description diagonal zero_description = (0, d') \<and>
     (\<forall>m \<in> set (ds_minfo d'). mi_is_primary m = 0)"
  by (simp add: libxrdp_init_display_size_description_def diagonal_def Let_def grow_bounds_def sanitise_extended_monitor_attributes_def
      zero_monitor_def zero_description_def c_uint_def to_wm_def)

text \<open>A turned monitor with a physical width out of range, left of the primary one.\<close>

definition turned :: "monitor_info list" where
  "turned = [zero_monitor\<lparr>mi_left := - 1080, mi_top := 0, mi_right := - 1, mi_bottom := 1919, mi_physical_width := 5,
                mi_physical_height := 300, mi_orientation := 90, mi_desktop_scale_factor := 150, mi_device_scale_factor := 140\<rparr>,
              zero_monitor\<lparr>mi_left := 0, mi_top := 0, mi_right := 1919, mi_bottom := 1079, mi_is_primary := 1\<rparr>]"

lemma monitor_layout_exact_witness:
  "\<exists>d'. libxrdp_init_display_size_description turned zero_description = (0, d') \<and> ds_session_width d' = 3000 \<and> ds_session_height d' = 1920 \<and>
     ds_minfo d' ! 0 = (turned ! 0)\<lparr>mi_physical_width := 0, mi_physical_height := 0\<rparr> \<and> mi_is_primary (ds_minfo d' ! 1) = 1 \<and>
     mi_desktop_scale_factor (ds_minfo d' ! 1) = 100 \<and> mi_left (ds_minfo_wm d' ! 1) = 1080"
proof -
  obtain rv d' where r: "libxrdp_init_display_size_description turned zero_description = (rv, d')" by fastforce
  have t: "monitors_typed turned" "\<forall>m \<in> set turned. \<not> lone_height m" "\<exists>m \<in> set turned. mi_is_primary m = 1 \<or> at_corner (frame turned) m"
    by (simp_all add: monitors_typed_def turned_def in_c_int_def lone_height_def zero_monitor_def)
  have l: "length (ds_minfo zero_description) = 16" "length (ds_minfo_wm zero_description) = 16" by (simp_all add: zero_description_def)
  have f: "frame turned = \<lparr>r_left = - 1080, r_top = 0, r_right = 1919, r_bottom = 1919\<rparr>" "length turned = 2" "upright (turned ! 1)"
    by (simp_all add: frame_def turned_def upright_def)
  have p: "primary_of turned 1" "\<not> primary_of turned 0"
    by (simp_all add: primary_of_def first_primary_def turned_def zero_monitor_def)
  have "desktop_ok turned" using f by (auto simp: desktop_ok_def)
  note exact = monitor_layout_exact [OF t(1) l t(2,3) r]
  have rv: "rv = 0" using exact \<open>desktop_ok turned\<close> f(2) by simp
  have a: "ds_minfo d' ! 0 = set_primary False (sane (turned ! 0))" "ds_minfo d' ! 1 = set_primary True (sane (turned ! 1))"
    "mi_left (ds_minfo_wm d' ! 1) = mi_left (turned ! 1) + 1080"
    "ds_session_width d' = 3000" "ds_session_height d' = 1920"
    using exact rv f p by auto
  have "set_primary False (sane (turned ! 0)) = (turned ! 0)\<lparr>mi_physical_width := 0, mi_physical_height := 0\<rparr>"
    "mi_desktop_scale_factor (set_primary True (sane (turned ! 1))) = 100"
    by (simp_all add: set_primary_def sane_def size_sane_def scale_sane_def turned_def zero_monitor_def)
  then show ?thesis using r rv a by (simp add: turned_def)
qed

lemma monitor_ex_overrun_witness: "libxrdp_process_monitor_ex_stream (buf [20, 0, 0, 0] 0 4) (Some zero_description) = None"
proof -
  have w: "in_wf (buf [20, 0, 0, 0] 0 4)" by (simp add: in_wf_def)
  have d: "description_ok zero_description" "ds_monitorCount zero_description < 16" by (simp_all add: description_ok_def zero_description_def)
  have e: "s_end (buf [20, 0, 0, 0] 0 4) = s_size (buf [20, 0, 0, 0] 0 4)" by simp
  show ?thesis using monitor_ex_overrun [OF w e d] by (simp add: unread_def)
qed

end
