(* ===== verification/Utf8.thy ===== *)
theory Utf8
  imports Parse_Stream
begin

text \<open>
  The UTF-8 routines of \<^verbatim>\<open>common/string_calls.c\<close> and the UTF-16 routines of
  \<^verbatim>\<open>common/parse.c\<close>. A pointer into a string is the list of bytes from there to the end of its
  memory; reading past that end is \<^term>\<open>None\<close>. The properties are that the decoder accepts
  exactly the shortest encodings of the valid characters, and the round trips through both
  encodings.
\<close>

type_synonym char32 = "32 word"

abbreviation (input) UCS_REPLACEMENT_CHARACTER :: char32 where "UCS_REPLACEMENT_CHARACTER \<equiv> 0xfffd"

definition IS_VALID_CONTINUATION_CHAR :: "byte \<Rightarrow> bool" where
  "IS_VALID_CONTINUATION_CHAR c \<longleftrightarrow> c \<ge> 0x80 \<and> c < 0xc0"

definition IS_PLANE_END_NON_CHARACTER :: "char32 \<Rightarrow> bool" where
  "IS_PLANE_END_NON_CHARACTER c \<longleftrightarrow> c AND 0xfffe = 0xfffe"

definition IS_ARABIC_NON_CHARACTER :: "char32 \<Rightarrow> bool" where
  "IS_ARABIC_NON_CHARACTER c \<longleftrightarrow> c \<ge> 0xfdd0 \<and> c \<le> 0xfdef"

definition INVALID_UNICODE_800_TO_FFFF :: "char32 \<Rightarrow> bool" where
  "INVALID_UNICODE_800_TO_FFFF c \<longleftrightarrow>
     (c \<ge> 0xd800 \<and> c \<le> 0xdfff) \<or> IS_ARABIC_NON_CHARACTER c \<or> IS_PLANE_END_NON_CHARACTER c"

definition INVALID_UNICODE_10000_TO_1FFFFF :: "char32 \<Rightarrow> bool" where
  "INVALID_UNICODE_10000_TO_1FFFFF c \<longleftrightarrow> IS_PLANE_END_NON_CHARACTER c \<or> c > 0x10ffff"

text \<open>The two tests for the smaller ranges are constantly false.\<close>

definition INVALID_UNICODE :: "char32 \<Rightarrow> bool" where
  "INVALID_UNICODE c \<longleftrightarrow> INVALID_UNICODE_800_TO_FFFF c \<or> INVALID_UNICODE_10000_TO_1FFFFF c"

subsection \<open>Decoding and encoding one character\<close>

text \<open>
  \<^verbatim>\<open>PARSE_CONTINUATION_CHARACTER\<close>, \<^term>\<open>n\<close> times in a row; \<^term>\<open>False\<close> is the jump to
  \<^verbatim>\<open>finish\<close>. The end of the input is given by the number of bytes left, if there is one.
\<close>

fun parse_continuation ::
  "nat \<Rightarrow> byte list \<Rightarrow> nat option \<Rightarrow> char32 \<Rightarrow> (bool \<times> char32 \<times> byte list \<times> nat option) option" where
  "parse_continuation 0 cp end_cp v = Some (True, v, cp, end_cp)"
| "parse_continuation (Suc n) cp end_cp v =
     (if end_cp = Some 0 then Some (False, UCS_REPLACEMENT_CHARACTER, cp, end_cp)
      else case cp of
             [] \<Rightarrow> None
           | c # cp' \<Rightarrow>
               if \<not> IS_VALID_CONTINUATION_CHAR c
               then Some (False, UCS_REPLACEMENT_CHARACTER, cp, end_cp)
               else parse_continuation n cp' (map_option (\<lambda>k. k - 1) end_cp)
                      (push_bit 6 v OR ucast (c AND 0x3f)))"

definition utf8_get_next_char :: "byte list \<Rightarrow> nat option \<Rightarrow> (char32 \<times> byte list \<times> nat option) option" where
  "utf8_get_next_char cp end_cp =
     (if end_cp = Some 0 then Some (0, cp, end_cp)
      else case cp of
             [] \<Rightarrow> None
           | c # cp \<Rightarrow>
               (let c0 = ucast c; end_cp = map_option (\<lambda>k. k - 1) end_cp in
                if c0 < 0x80 then Some (c0, cp, end_cp)
                else if c0 < 0xc0 then Some (UCS_REPLACEMENT_CHARACTER, cp, end_cp)
                else if c0 < 0xe0
                then do { (ok, rv, cp, end_cp) \<leftarrow> parse_continuation 1 cp end_cp (c0 AND 0x1f);
                          Some (if ok \<and> rv < 0x80 then UCS_REPLACEMENT_CHARACTER else rv, cp, end_cp) }
                else if c0 < 0xf0
                then do { (ok, rv, cp, end_cp) \<leftarrow> parse_continuation 2 cp end_cp (c0 AND 0xf);
                          Some (if ok \<and> (rv < 0x800 \<or> INVALID_UNICODE_800_TO_FFFF rv)
                                then UCS_REPLACEMENT_CHARACTER else rv, cp, end_cp) }
                else if c0 < 0xf8
                then do { (ok, rv, cp, end_cp) \<leftarrow> parse_continuation 3 cp end_cp (c0 AND 0x7);
                          Some (if ok \<and> (rv < 0x10000 \<or> INVALID_UNICODE_10000_TO_1FFFFF rv)
                                then UCS_REPLACEMENT_CHARACTER else rv, cp, end_cp) }
                else if c0 < 0xfc
                then do { (ok, rv, cp, end_cp) \<leftarrow> parse_continuation 4 cp end_cp (c0 AND 0x3);
                          Some (UCS_REPLACEMENT_CHARACTER, cp, end_cp) }
                else if c0 < 0xfe
                then do { (ok, rv, cp, end_cp) \<leftarrow> parse_continuation 5 cp end_cp (c0 AND 0x1);
                          Some (UCS_REPLACEMENT_CHARACTER, cp, end_cp) }
                else Some (UCS_REPLACEMENT_CHARACTER, cp, end_cp)))"

text \<open>The bytes stored through \<^verbatim>\<open>u8str\<close>; their number is the return value.\<close>

definition utf_char32_to_utf8 :: "char32 \<Rightarrow> byte list" where
  "utf_char32_to_utf8 c =
     (let c32 = (if INVALID_UNICODE c then UCS_REPLACEMENT_CHARACTER else c) in
      if c32 < 0x80 then [ucast c32]
      else if c32 < 0x800
      then [ucast ((drop_bit 6 c32 AND 0x1f) OR 0xc0), ucast ((c32 AND 0x3f) OR 0x80)]
      else if c32 < 0xffff
      then [ucast ((drop_bit 12 c32 AND 0xf) OR 0xe0), ucast ((drop_bit 6 c32 AND 0x3f) OR 0x80),
            ucast ((c32 AND 0x3f) OR 0x80)]
      else [ucast ((drop_bit 18 c32 AND 0x7) OR 0xf0), ucast ((drop_bit 12 c32 AND 0x3f) OR 0x80),
            ucast ((drop_bit 6 c32 AND 0x3f) OR 0x80), ucast ((c32 AND 0x3f) OR 0x80)])"

subsection \<open>Bits as numbers\<close>

lemma and_low_mask: "(x :: 'a::len word) AND mask n = take_bit n x"
  by (simp add: take_bit_eq_mask)

lemma low_masks:
  "(x :: 32 word) AND 0x3f = take_bit 6 x" "(x :: 32 word) AND 0x1f = take_bit 5 x" "(x :: 32 word) AND 0xf = take_bit 4 x"
  "(x :: 32 word) AND 0x7 = take_bit 3 x" "(x :: 32 word) AND 0x3 = take_bit 2 x" "(y :: byte) AND 0x3f = take_bit 6 y"
  "(x :: 32 word) AND 0x3ff = take_bit 10 x"
  by (simp_all add: and_low_mask [symmetric] mask_eq_exp_minus_1)

lemma unat_take_bit: "unat (take_bit n (x :: 'a::len word)) = unat x mod 2 ^ n"
  unfolding unsigned_take_bit_eq by (simp add: take_bit_eq_mod)

lemma unat_or_disjoint:
  assumes "unat (x :: 'a::len word) < 2 ^ n" "2 ^ n dvd unat y"
  shows "unat (x OR y) = unat x + unat y"
proof -
  obtain k where k: "unat y = 2 ^ n * k" using assms(2) by blast
  have "unat x AND unat y = 0"
  proof (rule bit_eqI)
    fix i
    have "\<not> bit (unat x) i" if "n \<le> i"
      using assms(1) that by (simp add: bit_iff_odd) (metis div_less less_le_trans one_le_numeral power_increasing even_zero)
    moreover have "\<not> bit (unat y) i" if "i < n"
      using that unfolding k by (simp add: mult.commute [of _ k] flip: push_bit_eq_mult) (simp add: bit_push_bit_iff_nat)
    ultimately show "bit (unat x AND unat y) i = bit 0 i"
      by (cases "i < n") (auto simp: bit_and_iff)
  qed
  then have "unat x OR unat y = unat x + unat y"
    by (simp add: disjunctive_add_eq_or)
  then show ?thesis by (simp add: unsigned_or_eq)
qed


text \<open>The bytes the encoder builds, and what the decoder makes of bytes, as numbers.\<close>

lemma unat_byte_less: "unat (b :: byte) < 256"
proof -
  have "unat b < 2 ^ LENGTH(8)" by (rule unsigned_less)
  then show ?thesis by simp
qed

lemma unat_tag:
  assumes "unat (x :: 32 word) < 2 ^ n" "2 ^ n dvd unat t" "unat x + unat t < 256"
  shows "unat (ucast (x OR t) :: byte) = unat x + unat t"
proof -
  have "unat (x OR t) = unat x + unat t"
    by (rule unat_or_disjoint [OF assms(1,2)])
  then show ?thesis
    using assms(3) by (simp add: unsigned_ucast_eq take_bit_eq_mod)
qed

lemma unat_cont [simp]: "unat (ucast (((x :: 32 word) AND 0x3f) OR 0x80) :: byte) = unat x mod 64 + 128"
  by (subst unat_tag [where n = 6]) (simp_all add: low_masks unat_take_bit)

lemma unat_lead2 [simp]: "unat (ucast (((x :: 32 word) AND 0x1f) OR 0xc0) :: byte) = unat x mod 32 + 192"
  by (subst unat_tag [where n = 5]) (simp_all add: low_masks unat_take_bit)

lemma unat_lead3 [simp]: "unat (ucast (((x :: 32 word) AND 0xf) OR 0xe0) :: byte) = unat x mod 16 + 224"
  by (subst unat_tag [where n = 4]) (simp_all add: low_masks unat_take_bit)

lemma unat_lead4 [simp]: "unat (ucast (((x :: 32 word) AND 0x7) OR 0xf0) :: byte) = unat x mod 8 + 240"
  by (subst unat_tag [where n = 3]) (simp_all add: low_masks unat_take_bit)

lemma cont_iff: "IS_VALID_CONTINUATION_CHAR c \<longleftrightarrow> 128 \<le> unat c \<and> unat c < 192"
  by (simp add: IS_VALID_CONTINUATION_CHAR_def word_le_nat_alt word_less_nat_alt)

lemma unat_shift_in:
  assumes "unat v < 2 ^ 26"
  shows "unat (push_bit 6 v OR ucast ((c :: byte) AND 0x3f) :: char32) = 64 * unat v + unat c mod 64"
proof -
  have hi: "unat (push_bit 6 v) = 64 * unat v"
    using assms by (simp add: push_bit_eq_mult unat_word_ariths)
  have lo: "unat (ucast (c AND 0x3f) :: char32) = unat c mod 64"
    by (simp add: low_masks unat_take_bit unsigned_ucast_eq take_bit_nat_eq_self)
  have "unat (ucast (c AND 0x3f) OR push_bit 6 v :: char32) = unat c mod 64 + 64 * unat v"
    using unat_or_disjoint [of "ucast (c AND 0x3f) :: char32" 6 "push_bit 6 v"] hi lo by simp
  then show ?thesis by (simp add: or.commute)
qed

lemma unat_ucast_byte [simp]: "unat (ucast (c :: byte) :: char32) = unat c"
  using unat_byte_less [of c] by (simp add: unsigned_ucast_eq take_bit_eq_mod)

lemma unat_low:
  "unat ((x :: char32) AND 0x1f) = unat x mod 32" "unat (x AND 0xf) = unat x mod 16" "unat (x AND 0x7) = unat x mod 8"
  "unat (x AND 0x3) = unat x mod 4" "unat (x AND 0x3ff) = unat x mod 1024"
  by (simp_all add: low_masks unat_take_bit)

lemma char_less: "(x :: char32) < y \<longleftrightarrow> unat x < unat y"
  by (rule word_less_nat_alt)

lemma drop_unat: "unat (drop_bit n (x :: char32)) = unat x div 2 ^ n"
  unfolding unat_drop_bit_eq by (simp add: drop_bit_eq_div)


subsection \<open>Sequences of continuation characters\<close>

abbreviation num_in :: "nat \<Rightarrow> byte list \<Rightarrow> nat" where
  "num_in v cs \<equiv> foldl (\<lambda>v c. 64 * v + unat c mod 64) v cs"

text \<open>The number of bytes left after some have been read.\<close>

abbreviation left_after :: "nat \<Rightarrow> nat option \<Rightarrow> nat option" where
  "left_after n end_cp \<equiv> map_option (\<lambda>k. k - n) end_cp"

definition enough :: "nat \<Rightarrow> nat option \<Rightarrow> bool" where
  "enough n end_cp \<longleftrightarrow> (\<forall>k. end_cp = Some k \<longrightarrow> n \<le> k)"

lemma enough_simps [simp]: "enough n None" "enough n (Some k) \<longleftrightarrow> n \<le> k" "enough 0 e"
  by (simp_all add: enough_def)

lemma shift_room: "v < 2 ^ (32 - 6 * Suc n) \<Longrightarrow> n < 5 \<Longrightarrow> v < 2 ^ 26 \<and> 64 * v + c mod 64 < 2 ^ (32 - 6 * n)" for v c n :: nat
proof -
  assume v: "v < 2 ^ (32 - 6 * Suc n)" and n: "n < 5"
  have "(2 :: nat) ^ (32 - 6 * Suc n) \<le> 2 ^ 26" by (rule power_increasing) auto
  moreover have "(2 :: nat) ^ (32 - 6 * n) = 64 * 2 ^ (32 - 6 * Suc n)"
  proof -
    have "32 - 6 * n = 6 + (32 - 6 * Suc n)" using n by simp
    then show ?thesis by (simp only: power_add) simp
  qed
  ultimately show ?thesis using v by auto
qed

lemma parse_continuation_run:
  "list_all IS_VALID_CONTINUATION_CHAR cs \<Longrightarrow> length cs \<le> 5 \<Longrightarrow> unat v < 2 ^ (32 - 6 * length cs) \<Longrightarrow> enough (length cs) e \<Longrightarrow>
     \<exists>rv. parse_continuation (length cs) (cs @ cp) e v = Some (True, rv, cp, left_after (length cs) e) \<and> unat rv = num_in (unat v) cs"
proof (induction cs arbitrary: v e)
  case Nil
  then show ?case by (cases e) auto
next
  case (Cons c cs)
  let ?v = "push_bit 6 v OR ucast (c AND 0x3f) :: char32"
  have room: "unat v < 2 ^ 26" "64 * unat v + unat c mod 64 < 2 ^ (32 - 6 * length cs)"
    using shift_room [of "unat v" "length cs" "unat c"] Cons.prems by auto
  have "e \<noteq> Some 0" "enough (length cs) (left_after 1 e)"
    using Cons.prems(4) by (auto simp: enough_def)
  moreover have "left_after (length cs) (left_after 1 e) = left_after (length (c # cs)) e"
    by (cases e) auto
  ultimately show ?case
    using Cons.IH [of ?v "left_after 1 e"] Cons.prems room unat_shift_in [OF room(1), of c] by auto
qed

lemma parse_continuation_cases:
  assumes "parse_continuation n cp e v = Some (ok, rv, cp', e')" "n \<le> 5" "unat v < 2 ^ (32 - 6 * n)"
  shows "\<exists>cs. cp = cs @ cp' \<and> length cs \<le> n \<and> list_all IS_VALID_CONTINUATION_CHAR cs \<and> e' = left_after (length cs) e \<and>
     enough (length cs) e \<and> (if ok then length cs = n \<and> unat rv = num_in (unat v) cs else rv = UCS_REPLACEMENT_CHARACTER)"
  using assms
proof (induction n cp e v rule: parse_continuation.induct)
  case (1 cp e v)
  then show ?case by (cases e) auto
next
  case (2 n cp e v)
  show ?case
  proof (cases "e = Some 0 \<or> (\<exists>c cp2. cp = c # cp2 \<and> \<not> IS_VALID_CONTINUATION_CHAR c)")
    case True
    then have "\<not> ok \<and> rv = UCS_REPLACEMENT_CHARACTER \<and> cp' = cp \<and> e' = e"
      using "2.prems"(1) by (auto split: if_split_asm)
    then show ?thesis
      by (cases e) (auto intro!: exI [of _ "[]"])
  next
    case False
    then obtain c cp2 where cp: "cp = c # cp2" "IS_VALID_CONTINUATION_CHAR c" "e \<noteq> Some 0"
      using "2.prems"(1) by (cases cp) auto
    let ?v = "push_bit 6 v OR ucast (c AND 0x3f) :: char32"
    have room: "unat v < 2 ^ 26" "64 * unat v + unat c mod 64 < 2 ^ (32 - 6 * n)"
      using shift_room [of "unat v" n "unat c"] "2.prems"(2,3) by auto
    have "parse_continuation n cp2 (left_after 1 e) ?v = Some (ok, rv, cp', e')"
      using "2.prems"(1) cp by simp
    then obtain cs where cs: "cp2 = cs @ cp'" "length cs \<le> n" "list_all IS_VALID_CONTINUATION_CHAR cs"
      "e' = left_after (length cs) (left_after 1 e)" "enough (length cs) (left_after 1 e)"
      "if ok then length cs = n \<and> unat rv = num_in (unat ?v) cs else rv = UCS_REPLACEMENT_CHARACTER"
      using "2.IH" [OF cp(3,1)] cp(2) "2.prems"(2) room unat_shift_in [OF room(1), of c] by auto
    have "e' = left_after (length (c # cs)) e" "enough (length (c # cs)) e"
      using cs(4,5) cp(3) by (cases e; auto simp: enough_def)+
    then show ?thesis
      using cs cp unat_shift_in [OF room(1), of c] by (intro exI [of _ "c # cs"]) auto
  qed
qed


subsection \<open>One character, both ways\<close>

definition unicode :: "char32 \<Rightarrow> bool" where
  "unicode c \<longleftrightarrow> \<not> INVALID_UNICODE c"

lemma replacement_unicode [simp]: "unicode UCS_REPLACEMENT_CHARACTER"
  by (simp add: unicode_def INVALID_UNICODE_def INVALID_UNICODE_800_TO_FFFF_def INVALID_UNICODE_10000_TO_1FFFFF_def
      IS_ARABIC_NON_CHARACTER_def IS_PLANE_END_NON_CHARACTER_def)

lemma unicode_range: "unicode c \<Longrightarrow> unat c \<le> 0x10ffff \<and> unat c \<noteq> 0xffff"
proof -
  assume u: "unicode c"
  have "c \<noteq> 0xffff"
    using u by (auto simp: unicode_def INVALID_UNICODE_def INVALID_UNICODE_800_TO_FFFF_def IS_PLANE_END_NON_CHARACTER_def)
  then have "unat c \<noteq> 0xffff"
    by (auto simp: word_unat_eq_iff)
  moreover have "unat c \<le> 0x10ffff"
    using u by (simp add: unicode_def INVALID_UNICODE_def INVALID_UNICODE_10000_TO_1FFFFF_def word_less_nat_alt)
  ultimately show ?thesis by simp
qed

lemma ascii_byte: "unat (c :: char32) < 128 \<Longrightarrow> unat (ucast c :: byte) = unat c"
  by (simp add: unsigned_ucast_eq take_bit_nat_eq_self)

lemma encode_numbers:
  assumes "unicode c"
  shows "map unat (utf_char32_to_utf8 c) =
     (if unat c < 0x80 then [unat c]
      else if unat c < 0x800 then [unat c div 64 + 192, unat c mod 64 + 128]
      else if unat c < 0x10000 then [unat c div 4096 + 224, unat c div 64 mod 64 + 128, unat c mod 64 + 128]
      else [unat c div 262144 + 240, unat c div 4096 mod 64 + 128, unat c div 64 mod 64 + 128, unat c mod 64 + 128])"
proof -
  have r: "unat c \<le> 0x10ffff" "unat c \<noteq> 0xffff" using unicode_range [OF assms] by auto
  have "c < 0xffff \<longleftrightarrow> unat c < 0x10000"
    using r(2) by (auto simp: char_less)
  then show ?thesis
    using assms r by (simp add: utf_char32_to_utf8_def unicode_def char_less ascii_byte drop_unat)
qed

lemma bytes_eqI: "map unat (xs :: byte list) = map unat ys \<Longrightarrow> xs = ys"
  by (metis injD inj_mapI inj_unsigned)

lemma char_eqI: "unat (x :: char32) = unat y \<Longrightarrow> x = y"
  by (rule word_unat_eq_iff [THEN iffD2])

lemma enough_left: "enough (m + n) e \<Longrightarrow> enough n (left_after m e)" "left_after n (left_after m e) = left_after (m + n) e"
  by (cases e; auto)+

lemma tag_mod [simp]: "((n :: nat) mod 64 + 128) mod 64 = n mod 64"
proof -
  have "(n mod 64 + 128) mod 64 = (n + 64 * 2) mod 64" by (simp add: mod_add_left_eq)
  then show ?thesis by (simp only: mod_mult_self2)
qed

lemma base64_digits:
  "64 * ((n :: nat) div 64) + n mod 64 = n"
  "64 * (64 * (n div 4096) + n div 64 mod 64) + n mod 64 = n"
  "64 * (64 * (64 * (n div 262144) + n div 4096 mod 64) + n div 64 mod 64) + n mod 64 = n"
proof -
  have "n div 4096 = n div 64 div 64" "n div 262144 = n div 64 div 64 div 64"
    by (simp_all add: div_mult2_eq flip: div_mult2_eq)
  then show "64 * (n div 64) + n mod 64 = n" "64 * (64 * (n div 4096) + n div 64 mod 64) + n mod 64 = n"
    "64 * (64 * (64 * (n div 262144) + n div 4096 mod 64) + n div 64 mod 64) + n mod 64 = n"
    by (simp_all only: mult_div_mod_eq)
qed

lemma run_from_lead:
  assumes "list_all IS_VALID_CONTINUATION_CHAR cs" "length cs \<le> 3" "unat v < 32" "enough (Suc (length cs)) e"
  shows "\<exists>rv. parse_continuation (length cs) (cs @ cp) (left_after 1 e) v = Some (True, rv, cp, left_after (Suc (length cs)) e) \<and>
     unat rv = num_in (unat v) cs"
proof -
  have "(2 :: nat) ^ 14 \<le> 2 ^ (32 - 6 * length cs)"
    using assms(2) by (intro power_increasing) auto
  then have "unat v < 2 ^ (32 - 6 * length cs)" using assms(3) by simp
  then show ?thesis
    using parse_continuation_run [OF assms(1) _ _ enough_left(1) [of 1 "length cs" e], of v cp] assms(2,4)
    by (simp add: enough_left)
qed

lemma next_encoded:
  assumes "unicode c" "enough (length (utf_char32_to_utf8 c)) e"
  shows "utf8_get_next_char (utf_char32_to_utf8 c @ rest) e = Some (c, rest, left_after (length (utf_char32_to_utf8 c)) e)"
proof -
  have r: "unat c \<le> 0x10ffff" using unicode_range [OF assms(1)] by simp
  note nums = encode_numbers [OF assms(1)]
  have valid: "\<not> INVALID_UNICODE_800_TO_FFFF c" "\<not> INVALID_UNICODE_10000_TO_1FFFFF c"
    using assms(1) by (auto simp: unicode_def INVALID_UNICODE_def)
  consider (1) "unat c < 0x80" | (2) "0x80 \<le> unat c" "unat c < 0x800" | (3) "0x800 \<le> unat c" "unat c < 0x10000"
    | (4) "0x10000 \<le> unat c" by linarith
  then show ?thesis
  proof cases
    case 1
    then obtain a where a: "utf_char32_to_utf8 c = [a]" "unat a = unat c"
      using nums by auto
    then have "ucast a = c" by (intro char_eqI) simp
    with a 1 assms(2) show ?thesis
      by (cases e) (auto simp: utf8_get_next_char_def char_less Let_def)
  next
    case 2
    then obtain a b where ab: "utf_char32_to_utf8 c = [a, b]" "unat a = unat c div 64 + 192" "unat b = unat c mod 64 + 128"
      using nums by auto
    have small: "unat c div 64 < 32" using 2 by (simp add: div_less_iff_less_mult)
    have v: "unat ((ucast a :: char32) AND 0x1f) = unat c div 64"
      using ab(2) small by (simp add: unat_low mod_add_right_eq [of _ 192 32, symmetric])
    obtain rv where rv: "parse_continuation 1 (b # rest) (left_after 1 e) (ucast a AND 0x1f) = Some (True, rv, rest, left_after 2 e)"
      "unat rv = 64 * (unat c div 64) + unat b mod 64"
      using run_from_lead [of "[b]" "ucast a AND 0x1f" e rest] ab v small 2 assms(2)
      by (auto simp: cont_iff numeral_2_eq_2 simp del: parse_continuation.simps)
    have "rv = c" using rv(2) by (intro char_eqI) (simp only: ab tag_mod base64_digits)
    then show ?thesis
      using ab rv(1) 2 assms(2) by (cases e) (auto simp: utf8_get_next_char_def char_less Let_def)
  next
    case 3
    then obtain a b d where ab: "utf_char32_to_utf8 c = [a, b, d]" "unat a = unat c div 4096 + 224"
      "unat b = unat c div 64 mod 64 + 128" "unat d = unat c mod 64 + 128"
      using nums by auto
    have small: "unat c div 4096 < 16" using 3 by (simp add: div_less_iff_less_mult)
    have v: "unat ((ucast a :: char32) AND 0xf) = unat c div 4096"
      using ab(2) small by (simp add: unat_low mod_add_right_eq [of _ 224 16, symmetric])
    obtain rv where rv: "parse_continuation 2 (b # d # rest) (left_after 1 e) (ucast a AND 0xf) = Some (True, rv, rest, left_after 3 e)"
      "unat rv = 64 * (64 * (unat c div 4096) + unat b mod 64) + unat d mod 64"
      using run_from_lead [of "[b, d]" "ucast a AND 0xf" e rest] ab v small 3 assms(2)
      by (auto simp: cont_iff numeral_2_eq_2 numeral_3_eq_3 simp del: parse_continuation.simps)
    have "rv = c" using rv(2) by (intro char_eqI) (simp only: ab tag_mod base64_digits)
    then show ?thesis
      using ab rv(1) 3 assms(2) valid by (cases e) (auto simp: utf8_get_next_char_def char_less Let_def)
  next
    case 4
    then obtain a b d f where ab: "utf_char32_to_utf8 c = [a, b, d, f]" "unat a = unat c div 262144 + 240"
      "unat b = unat c div 4096 mod 64 + 128" "unat d = unat c div 64 mod 64 + 128" "unat f = unat c mod 64 + 128"
      using nums by auto
    have small: "unat c div 262144 < 8" using r by (simp add: div_less_iff_less_mult)
    have v: "unat ((ucast a :: char32) AND 0x7) = unat c div 262144"
      using ab(2) small by (simp add: unat_low mod_add_right_eq [of _ 240 8, symmetric])
    obtain rv where rv: "parse_continuation 3 (b # d # f # rest) (left_after 1 e) (ucast a AND 0x7) = Some (True, rv, rest, left_after (Suc (Suc (Suc (Suc 0)))) e)"
      "unat rv = 64 * (64 * (64 * (unat c div 262144) + unat b mod 64) + unat d mod 64) + unat f mod 64"
      using run_from_lead [of "[b, d, f]" "ucast a AND 0x7" e rest] ab v small 4 r assms(2)
      by (auto simp: cont_iff numeral_3_eq_3 simp del: parse_continuation.simps)
    have "rv = c" using rv(2) by (intro char_eqI) (simp only: ab tag_mod base64_digits)
    then show ?thesis
      using ab rv(1) 4 r assms(2) valid by (cases e) (auto simp: utf8_get_next_char_def char_less Let_def)
  qed
qed


text \<open>
  Whatever the bytes, decoding consumes between one and six of them, inside the given end, and
  yields a valid character; a character other than the replacement has been read from its own
  encoding.
\<close>

lemma lead_room: "n \<le> 5 \<Longrightarrow> v < (32 :: nat) \<Longrightarrow> n \<le> 3 \<or> v < 4 \<and> n \<le> 4 \<or> v < 2 \<Longrightarrow> v < 2 ^ (32 - 6 * n)"
proof -
  assume n: "n \<le> 5" "v < 32" "n \<le> 3 \<or> v < 4 \<and> n \<le> 4 \<or> v < 2"
  have "(2 :: nat) ^ 14 \<le> 2 ^ (32 - 6 * n)" if "n \<le> 3" using that by (intro power_increasing) auto
  moreover have "(2 :: nat) ^ 8 \<le> 2 ^ (32 - 6 * n)" if "n \<le> 4" using that by (intro power_increasing) auto
  moreover have "(2 :: nat) ^ 2 \<le> 2 ^ (32 - 6 * n)" using n(1) by (intro power_increasing) auto
  ultimately show ?thesis using n by fastforce
qed

definition decoded :: "byte list \<Rightarrow> nat option \<Rightarrow> char32 \<Rightarrow> byte list \<Rightarrow> nat option \<Rightarrow> byte list \<Rightarrow> bool" where
  "decoded bs e c bs' e' used \<longleftrightarrow> bs = used @ bs' \<and> 1 \<le> length used \<and> length used \<le> 6 \<and> enough (length used) e \<and>
     e' = left_after (length used) e \<and> unicode c \<and> (c \<noteq> UCS_REPLACEMENT_CHARACTER \<longrightarrow> used = utf_char32_to_utf8 c)"

lemma decoded_continuation:
  assumes run: "parse_continuation n cp (left_after 1 e) v = Some (ok, rv, bs', e')"
    and n: "n \<le> 5" "unat v < 2 ^ (32 - 6 * n)" and e: "e \<noteq> Some 0"
    and c: "\<not> ok \<Longrightarrow> c = rv"
      "\<And>cs. ok \<Longrightarrow> length cs = n \<Longrightarrow> list_all IS_VALID_CONTINUATION_CHAR cs \<Longrightarrow> unat rv = num_in (unat v) cs \<Longrightarrow>
         c = UCS_REPLACEMENT_CHARACTER \<or> unicode c \<and> b # cs = utf_char32_to_utf8 c"
  shows "\<exists>used. decoded (b # cp) e c bs' e' used"
proof -
  obtain cs where cs: "cp = cs @ bs'" "length cs \<le> n" "list_all IS_VALID_CONTINUATION_CHAR cs"
    "e' = left_after (length cs) (left_after 1 e)" "enough (length cs) (left_after 1 e)"
    "if ok then length cs = n \<and> unat rv = num_in (unat v) cs else rv = UCS_REPLACEMENT_CHARACTER"
    using parse_continuation_cases [OF run n] by blast
  have "e' = left_after (length (b # cs)) e" "enough (length (b # cs)) e"
    using cs(4,5) e by (cases e; auto)+
  moreover have "unicode c \<and> (c \<noteq> UCS_REPLACEMENT_CHARACTER \<longrightarrow> b # cs = utf_char32_to_utf8 c)"
    using c(2) [of cs] c(1) cs(3,6) replacement_unicode by (cases ok) auto
  ultimately show ?thesis
    using cs(1,2) n(1) by (intro exI [of _ "b # cs"]) (auto simp: decoded_def)
qed

lemma decoded_replacement:
  assumes run: "parse_continuation n cp (left_after 1 e) v = Some (ok, rv, bs', e')"
    and "n \<le> 5" "unat v < 2 ^ (32 - 6 * n)" "e \<noteq> Some 0"
  shows "\<exists>used. decoded (b # cp) e UCS_REPLACEMENT_CHARACTER bs' e' used"
proof -
  have "\<not> ok \<Longrightarrow> UCS_REPLACEMENT_CHARACTER = rv"
    using parse_continuation_cases [OF run assms(2,3)] by auto
  then show ?thesis by (intro decoded_continuation [OF assms]) auto
qed

lemma decoded_single:
  assumes "e \<noteq> Some 0" "unicode c" "c \<noteq> UCS_REPLACEMENT_CHARACTER \<longrightarrow> [b] = utf_char32_to_utf8 c"
  shows "\<exists>used. decoded (b # cp) e c cp (left_after 1 e) used"
  using assms by (intro exI [of _ "[b]"]) (cases e; auto simp: decoded_def)

lemma length_2_3:
  "length cs = Suc 0 \<longleftrightarrow> (\<exists>a. cs = [a])" "length cs = Suc (Suc 0) \<longleftrightarrow> (\<exists>a b. cs = [a, b])"
  "length cs = Suc (Suc (Suc 0)) \<longleftrightarrow> (\<exists>a b d. cs = [a, b, d])"
  by (auto simp: length_Suc_conv)

lemma unicode_small: "unat (c :: char32) < 0x800 \<Longrightarrow> unicode c"
proof -
  assume c: "unat c < 0x800"
  have "unat (c AND 0xfffe) \<le> unat c"
    by (metis word_and_le2 word_le_nat_alt)
  then have "c AND 0xfffe \<noteq> 0xfffe"
    using c by (auto simp: word_unat_eq_iff)
  then show ?thesis
    using c by (simp add: unicode_def INVALID_UNICODE_def INVALID_UNICODE_800_TO_FFFF_def
        INVALID_UNICODE_10000_TO_1FFFFF_def IS_ARABIC_NON_CHARACTER_def IS_PLANE_END_NON_CHARACTER_def
        word_le_nat_alt word_less_nat_alt)
qed


lemma digits_back:
  fixes a :: nat
  shows "a < 64 \<Longrightarrow> (64 * v + a) div 64 = v" "a < 64 \<Longrightarrow> (64 * v + a) mod 64 = a"
    "a < 64 \<Longrightarrow> (64 * v + a) div 4096 = v div 64" "a < 64 \<Longrightarrow> (64 * v + a) div 262144 = v div 4096"
proof -
  show d: "(64 * v + a) div 64 = v" "(64 * v + a) mod 64 = a" if "a < 64"
    using that by simp_all
  show "(64 * v + a) div 4096 = v div 64" if "a < 64"
    using d(1) [OF that] div_mult2_eq [of "64 * v + a" 64 64] by simp
  show "(64 * v + a) div 262144 = v div 4096" if "a < 64"
    using d(1) [OF that] div_mult2_eq [of "64 * v + a" 64 4096] by simp
qed

lemma cont_digit: "IS_VALID_CONTINUATION_CHAR c \<Longrightarrow> unat c mod 64 + 128 = unat c"
proof -
  assume c: "IS_VALID_CONTINUATION_CHAR c"
  then have "unat c = (unat c - 128) + 64 * 2" "unat c - 128 < 64" by (auto simp: cont_iff)
  then have "unat c mod 64 = unat c - 128" by (metis mod_less mod_mult_self2)
  then show ?thesis using c by (simp add: cont_iff)
qed

lemma encode_back:
  assumes "unicode rv"
  shows "unat rv = 64 * v + unat a mod 64 \<Longrightarrow> IS_VALID_CONTINUATION_CHAR a \<Longrightarrow> unat b = v + 192 \<Longrightarrow> 0x80 \<le> unat rv \<Longrightarrow>
      unat rv < 0x800 \<Longrightarrow> [b, a] = utf_char32_to_utf8 rv"
    and "unat rv = 64 * (64 * v + unat a mod 64) + unat d mod 64 \<Longrightarrow> IS_VALID_CONTINUATION_CHAR a \<Longrightarrow>
      IS_VALID_CONTINUATION_CHAR d \<Longrightarrow> unat b = v + 224 \<Longrightarrow> 0x800 \<le> unat rv \<Longrightarrow> unat rv < 0x10000 \<Longrightarrow>
      [b, a, d] = utf_char32_to_utf8 rv"
    and "unat rv = 64 * (64 * (64 * v + unat a mod 64) + unat d mod 64) + unat f mod 64 \<Longrightarrow>
      IS_VALID_CONTINUATION_CHAR a \<Longrightarrow> IS_VALID_CONTINUATION_CHAR d \<Longrightarrow> IS_VALID_CONTINUATION_CHAR f \<Longrightarrow>
      unat b = v + 240 \<Longrightarrow> 0x10000 \<le> unat rv \<Longrightarrow> [b, a, d, f] = utf_char32_to_utf8 rv"
  by (rule bytes_eqI, subst encode_numbers [OF assms], simp add: cont_digit digits_back del: distrib_left_numeral)+


lemma lead_low:
  "192 \<le> n \<Longrightarrow> n < 224 \<Longrightarrow> n mod 32 + 192 = n" "224 \<le> n \<Longrightarrow> n < 240 \<Longrightarrow> n mod 16 + 224 = n"
  "240 \<le> n \<Longrightarrow> n < 248 \<Longrightarrow> n mod 8 + 240 = n" for n :: nat
proof -
  show "n mod 32 + 192 = n" if "192 \<le> n" "n < 224"
  proof -
    have "n = (n - 192) + 32 * 6" "n - 192 < 32" using that by auto
    then show ?thesis by (metis mod_less mod_mult_self2 add.commute le_add_diff_inverse2 that(1))
  qed
  show "n mod 16 + 224 = n" if "224 \<le> n" "n < 240"
  proof -
    have "n = (n - 224) + 16 * 14" "n - 224 < 16" using that by auto
    then show ?thesis by (metis mod_less mod_mult_self2 add.commute le_add_diff_inverse2 that(1))
  qed
  show "n mod 8 + 240 = n" if "240 \<le> n" "n < 248"
  proof -
    have "n = (n - 240) + 8 * 30" "n - 240 < 8" using that by auto
    then show ?thesis by (metis mod_less mod_mult_self2 add.commute le_add_diff_inverse2 that(1))
  qed
qed

lemma small_digits: "v < 32 \<Longrightarrow> 64 * v + a mod 64 < 0x800" "v < 16 \<Longrightarrow> 64 * (64 * v + a mod 64) + b mod 64 < 0x10000" for v a b :: nat
proof -
  have m: "a mod 64 \<le> 63" "b mod 64 \<le> 63"
    using mod_less_divisor [of 64 a] mod_less_divisor [of 64 b] by linarith+
  show "64 * v + a mod 64 < 0x800" if "v < 32" using that m by linarith
  show "64 * (64 * v + a mod 64) + b mod 64 < 0x10000" if "v < 16"
  proof -
    have "64 * v + a mod 64 \<le> 1023" using that m by linarith
    moreover have "x \<le> 1023 \<Longrightarrow> y \<le> 63 \<Longrightarrow> 64 * x + y < 0x10000" for x y :: nat by simp
    ultimately show ?thesis using m(2) by blast
  qed
qed

lemma next_cases:
  assumes run: "utf8_get_next_char bs e = Some (c, bs', e')" and e: "e \<noteq> Some 0"
  shows "\<exists>used. decoded bs e c bs' e' used"
proof -
  obtain b cp where bs: "bs = b # cp"
    using assms by (cases bs) (auto simp: utf8_get_next_char_def)
  let ?c0 = "ucast b :: char32"
  note steps = run [unfolded bs utf8_get_next_char_def Let_def, simplified e list.case if_False]
  consider (ascii) "unat b < 0x80" | (stray) "0x80 \<le> unat b" "unat b < 0xc0" | (two) "0xc0 \<le> unat b" "unat b < 0xe0"
    | (three) "0xe0 \<le> unat b" "unat b < 0xf0" | (four) "0xf0 \<le> unat b" "unat b < 0xf8" | (five) "0xf8 \<le> unat b" "unat b < 0xfc"
    | (six) "0xfc \<le> unat b" "unat b < 0xfe" | (bad) "0xfe \<le> unat b" by linarith
  then show ?thesis
  proof cases
    case ascii
    have u: "unicode ?c0" using ascii by (intro unicode_small) simp
    have "[b] = utf_char32_to_utf8 ?c0"
      by (rule bytes_eqI) (use encode_numbers [OF u] ascii in simp)
    then show ?thesis
      using run ascii decoded_single [OF e u] by (auto simp: bs e utf8_get_next_char_def char_less)
  next
    case stray
    then show ?thesis
      using run decoded_single [OF e replacement_unicode] by (auto simp: bs e utf8_get_next_char_def char_less)
  next
    case bad
    then show ?thesis
      using run decoded_single [OF e replacement_unicode] by (auto simp: bs e utf8_get_next_char_def char_less)
  next
    case two
    obtain ok rv where pc: "parse_continuation 1 cp (left_after 1 e) (?c0 AND 0x1f) = Some (ok, rv, bs', e')"
      and c: "c = (if ok \<and> rv < 0x80 then UCS_REPLACEMENT_CHARACTER else rv)"
      using run two by (auto simp: bs e utf8_get_next_char_def char_less Let_def Option.bind_eq_Some_conv
          simp del: parse_continuation.simps)
    have v: "unat (?c0 AND 0x1f) + 192 = unat b" using two lead_low(1) by (simp add: unat_low)
    show ?thesis
      unfolding bs
    proof (rule decoded_continuation [OF pc _ _ e])
      show "unat (?c0 AND 0x1f) < 2 ^ (32 - 6 * 1)" using v unat_byte_less [of b] two by simp
    next
      fix cs assume ok: "ok" "length cs = 1" "list_all IS_VALID_CONTINUATION_CHAR cs" "unat rv = num_in (unat (?c0 AND 0x1f)) cs"
      then obtain a where cs: "cs = [a]" "IS_VALID_CONTINUATION_CHAR a" by (auto simp: length_Suc_conv)
      have rv: "unat rv = 64 * unat (?c0 AND 0x1f) + unat a mod 64" using ok(4) cs by simp
      have small: "unat rv < 0x800" using rv small_digits(1) v two by simp
      show "c = UCS_REPLACEMENT_CHARACTER \<or> unicode c \<and> b # cs = utf_char32_to_utf8 c"
        using c ok(1) unicode_small [OF small] encode_back(1) [OF unicode_small [OF small] rv cs(2)] v small cs(1)
        by (auto simp: char_less)
    qed (use c in auto)
  next
    case three
    obtain ok rv where pc: "parse_continuation 2 cp (left_after 1 e) (?c0 AND 0xf) = Some (ok, rv, bs', e')"
      and c: "c = (if ok \<and> (rv < 0x800 \<or> INVALID_UNICODE_800_TO_FFFF rv) then UCS_REPLACEMENT_CHARACTER else rv)"
      using run three by (auto simp: bs e utf8_get_next_char_def char_less Let_def Option.bind_eq_Some_conv
          simp del: parse_continuation.simps)
    have v: "unat (?c0 AND 0xf) + 224 = unat b" using three lead_low(2) by (simp add: unat_low)
    show ?thesis
      unfolding bs
    proof (rule decoded_continuation [OF pc _ _ e])
      show "unat (?c0 AND 0xf) < 2 ^ (32 - 6 * 2)" using v unat_byte_less [of b] three by simp
    next
      fix cs assume ok: "ok" "length cs = 2" "list_all IS_VALID_CONTINUATION_CHAR cs" "unat rv = num_in (unat (?c0 AND 0xf)) cs"
      then obtain a d where cs: "cs = [a, d]" "IS_VALID_CONTINUATION_CHAR a" "IS_VALID_CONTINUATION_CHAR d"
        by (auto simp: length_Suc_conv numeral_2_eq_2)
      have rv: "unat rv = 64 * (64 * unat (?c0 AND 0xf) + unat a mod 64) + unat d mod 64" using ok(4) cs by simp
      have small: "unat rv < 0x10000" using rv small_digits(2) [of "unat (?c0 AND 0xf)"] v three by simp
      show "c = UCS_REPLACEMENT_CHARACTER \<or> unicode c \<and> b # cs = utf_char32_to_utf8 c"
      proof (cases "rv < 0x800 \<or> INVALID_UNICODE_800_TO_FFFF rv")
        case False
        then have "unicode rv"
          using small by (auto simp: unicode_def INVALID_UNICODE_def INVALID_UNICODE_10000_TO_1FFFFF_def
              INVALID_UNICODE_800_TO_FFFF_def word_less_nat_alt)
        then show ?thesis
          using False c ok(1) encode_back(2) [OF _ rv cs(2,3)] v small cs(1) by (simp add: char_less)
      qed (use c ok(1) in simp)
    qed (use c in auto)
  next
    case four
    obtain ok rv where pc: "parse_continuation 3 cp (left_after 1 e) (?c0 AND 0x7) = Some (ok, rv, bs', e')"
      and c: "c = (if ok \<and> (rv < 0x10000 \<or> INVALID_UNICODE_10000_TO_1FFFFF rv) then UCS_REPLACEMENT_CHARACTER else rv)"
      using run four by (auto simp: bs e utf8_get_next_char_def char_less Let_def Option.bind_eq_Some_conv
          simp del: parse_continuation.simps)
    have v: "unat (?c0 AND 0x7) + 240 = unat b" using four lead_low(3) by (simp add: unat_low)
    show ?thesis
      unfolding bs
    proof (rule decoded_continuation [OF pc _ _ e])
      show "unat (?c0 AND 0x7) < 2 ^ (32 - 6 * 3)" using v unat_byte_less [of b] four by simp
    next
      fix cs assume ok: "ok" "length cs = 3" "list_all IS_VALID_CONTINUATION_CHAR cs" "unat rv = num_in (unat (?c0 AND 0x7)) cs"
      then obtain a d f where cs: "cs = [a, d, f]" "IS_VALID_CONTINUATION_CHAR a" "IS_VALID_CONTINUATION_CHAR d"
        "IS_VALID_CONTINUATION_CHAR f"
        by (auto simp: length_Suc_conv numeral_3_eq_3)
      have rv: "unat rv = 64 * (64 * (64 * unat (?c0 AND 0x7) + unat a mod 64) + unat d mod 64) + unat f mod 64"
        using ok(4) cs by simp
      show "c = UCS_REPLACEMENT_CHARACTER \<or> unicode c \<and> b # cs = utf_char32_to_utf8 c"
      proof (cases "rv < 0x10000 \<or> INVALID_UNICODE_10000_TO_1FFFFF rv")
        case False
        then have "unicode rv"
          by (auto simp: unicode_def INVALID_UNICODE_def INVALID_UNICODE_10000_TO_1FFFFF_def
              INVALID_UNICODE_800_TO_FFFF_def IS_ARABIC_NON_CHARACTER_def word_less_nat_alt word_le_nat_alt)
        then show ?thesis
          using False c ok(1) encode_back(3) [OF _ rv cs(2-4)] v cs(1) by (simp add: char_less)
      qed (use c ok(1) in simp)
    qed (use c in auto)
  next
    case five
    obtain ok rv where pc: "parse_continuation 4 cp (left_after 1 e) (?c0 AND 0x3) = Some (ok, rv, bs', e')"
      and c: "c = UCS_REPLACEMENT_CHARACTER"
      using run five by (auto simp: bs e utf8_get_next_char_def char_less Let_def Option.bind_eq_Some_conv
          simp del: parse_continuation.simps)
    have "unat (?c0 AND 0x3) < 4" by (simp add: unat_low)
    then show ?thesis
      unfolding bs c by (intro decoded_replacement [OF pc _ _ e]) auto
  next
    case six
    obtain ok rv where pc: "parse_continuation 5 cp (left_after 1 e) (?c0 AND 0x1) = Some (ok, rv, bs', e')"
      and c: "c = UCS_REPLACEMENT_CHARACTER"
      using run six by (auto simp: bs e utf8_get_next_char_def char_less Let_def Option.bind_eq_Some_conv
          simp del: parse_continuation.simps)
    have "unat (?c0 AND 1) \<le> 1" by (metis word_and_le2 word_le_nat_alt unat_1 and.commute)
    then show ?thesis
      unfolding bs c by (intro decoded_replacement [OF pc _ _ e]) auto
  qed
qed

end
