(* ===== verification/Utf8_Text.thy ===== *)
theory Utf8_Text
  imports Utf8
begin

text \<open>
  Operations of \<^verbatim>\<open>common/string_calls.c\<close> on whole UTF-8 strings: counting and editing. A text
  is the encoding of a list of characters; the operations are list operations of it.
\<close>

lemma next_shorter:
  "utf8_get_next_char bs e = Some (c, bs', e') \<Longrightarrow> e \<noteq> Some 0 \<Longrightarrow> length bs' < length bs"
  "utf8_get_next_char bs (Some n) = Some (c, bs', e') \<Longrightarrow> 0 < n \<Longrightarrow> \<exists>m. e' = Some m \<and> m < n"
  using next_cases [of bs e c bs' e'] next_cases [of bs "Some n" c bs' e'] by (auto simp: decoded_def)

function utf8_char_count_loop :: "byte list \<Rightarrow> nat \<Rightarrow> nat option" where
  "utf8_char_count_loop utf8str rv =
     (case utf8_get_next_char utf8str None of
        None \<Rightarrow> None
      | Some (c, utf8str, end_cp) \<Rightarrow> if c \<noteq> 0 then utf8_char_count_loop utf8str (rv + 1) else Some rv)"
  by pat_completeness auto
termination by (relation "measure (\<lambda>(utf8str, rv). length utf8str)") (auto dest: next_shorter)

declare utf8_char_count_loop.simps [simp del]

definition utf8_char_count :: "byte list option \<Rightarrow> nat option" where
  "utf8_char_count utf8str = (case utf8str of None \<Rightarrow> Some 0 | Some s \<Rightarrow> utf8_char_count_loop s 0)"

function utf16_word_count_loop :: "byte list \<Rightarrow> nat option \<Rightarrow> nat \<Rightarrow> nat option" where
  "utf16_word_count_loop utf8str len rv =
     (case len of
        None \<Rightarrow> None
      | Some n \<Rightarrow>
          if n > 0
          then (case utf8_get_next_char utf8str len of
                  None \<Rightarrow> None
                | Some (c, utf8str, len) \<Rightarrow> utf16_word_count_loop utf8str len (rv + (if c \<ge> 0x10000 then 2 else 1)))
          else Some rv)"
  by pat_completeness auto
termination by (relation "measure (\<lambda>(utf8str, len, rv). case len of None \<Rightarrow> 0 | Some n \<Rightarrow> n)") (auto dest: next_shorter)

declare utf16_word_count_loop.simps [simp del]

definition utf8_as_utf16_word_count :: "byte list \<Rightarrow> nat \<Rightarrow> nat option" where
  "utf8_as_utf16_word_count utf8str len = utf16_word_count_loop utf8str (Some len) 0"

text \<open>
  The search for a position: what is left of the index, and the string from there. \<^verbatim>\<open>strlen\<close>
  needs a terminator.
\<close>

fun utf8_seek :: "byte list \<Rightarrow> nat \<Rightarrow> (nat \<times> byte list) option" where
  "utf8_seek p 0 = Some (0, p)"
| "utf8_seek p (Suc index) =
     (case p of
        [] \<Rightarrow> None
      | c # p' \<Rightarrow>
          if c = 0 then Some (Suc index, p)
          else do { (c, p, end_cp) \<leftarrow> utf8_get_next_char p None; utf8_seek p index })"

fun c_strlen :: "byte list \<Rightarrow> nat option" where
  "c_strlen [] = None"
| "c_strlen (c # cs) = (if c = 0 then Some 0 else map_option Suc (c_strlen cs))"

text \<open>The buffer is the memory at \<^verbatim>\<open>utf8str\<close>; a move outside it is undefined.\<close>

definition utf8_add_char_at :: "byte list \<Rightarrow> nat \<Rightarrow> char32 \<Rightarrow> nat \<Rightarrow> (int \<times> byte list) option" where
  "utf8_add_char_at utf8str len c32 index =
     do { let c8 = utf_char32_to_utf8 c32;
          (index, insert_pos) \<leftarrow> utf8_seek utf8str index;
          if index = 0
          then do { n \<leftarrow> c_strlen insert_pos;
                    let bytes_to_move = n + 1;
                    let pos = length utf8str - length insert_pos;
                    if pos + bytes_to_move + length c8 \<le> len
                    then (if pos + bytes_to_move + length c8 \<le> length utf8str
                          then Some (1, take pos utf8str @ c8 @ take bytes_to_move insert_pos @
                                        drop (pos + length c8 + bytes_to_move) utf8str)
                          else None)
                    else Some (0, utf8str) }
          else Some (0, utf8str) }"

definition utf8_remove_char_at :: "byte list \<Rightarrow> nat \<Rightarrow> (char32 \<times> byte list) option" where
  "utf8_remove_char_at utf8str index =
     do { (index, remove_pos) \<leftarrow> utf8_seek utf8str index;
          if index = 0
          then do { (c, after_pos, end_cp) \<leftarrow> utf8_get_next_char remove_pos None;
                    n \<leftarrow> c_strlen after_pos;
                    let pos = length utf8str - length remove_pos;
                    Some (c, take pos utf8str @ take (n + 1) after_pos @ drop (pos + n + 1) utf8str) }
          else Some (0, utf8str) }"

subsection \<open>Texts\<close>

definition encode :: "char32 list \<Rightarrow> byte list" where
  "encode cs = concat (map utf_char32_to_utf8 cs)"

lemma encode_simps [simp]: "encode [] = []" "encode (c # cs) = utf_char32_to_utf8 c @ encode cs" "encode (cs @ ds) = encode cs @ encode ds"
  by (simp_all add: encode_def)

definition text_char :: "char32 \<Rightarrow> bool" where
  "text_char c \<longleftrightarrow> unicode c \<and> c \<noteq> 0"

lemma byte_nonzero: "unat (b :: byte) \<noteq> 0 \<Longrightarrow> b \<noteq> 0"
  by auto

lemma encode_char:
  assumes "unicode c"
  shows "1 \<le> length (utf_char32_to_utf8 c)" "length (utf_char32_to_utf8 c) \<le> 4"
    "c \<noteq> 0 \<Longrightarrow> 0 \<notin> set (utf_char32_to_utf8 c)"
proof -
  have len: "length (utf_char32_to_utf8 c) = length (map unat (utf_char32_to_utf8 c))" by simp
  show "1 \<le> length (utf_char32_to_utf8 c)" "length (utf_char32_to_utf8 c) \<le> 4"
    unfolding len encode_numbers [OF assms] by simp_all
  show "0 \<notin> set (utf_char32_to_utf8 c)" if "c \<noteq> 0"
  proof
    assume "0 \<in> set (utf_char32_to_utf8 c)"
    then have "unat (0 :: byte) \<in> set (map unat (utf_char32_to_utf8 c))" by (metis imageI set_map)
    then show False
      using that unfolding encode_numbers [OF assms] by (auto simp: unat_eq_0 split: if_split_asm)
  qed
qed

lemma next_text:
  "unicode c \<Longrightarrow> utf8_get_next_char (utf_char32_to_utf8 c @ rest) None = Some (c, rest, None)"
  "unicode c \<Longrightarrow> length (utf_char32_to_utf8 c) \<le> n \<Longrightarrow>
     utf8_get_next_char (utf_char32_to_utf8 c @ rest) (Some n) = Some (c, rest, Some (n - length (utf_char32_to_utf8 c)))"
  using next_encoded [of c None] next_encoded [of c "Some n"] by auto

lemma next_nul: "utf8_get_next_char (0 # rest) None = Some (0, rest, None)"
  by (simp add: utf8_get_next_char_def)

lemma char_count_loop_text:
  "\<forall>c \<in> set cs. text_char c \<Longrightarrow> utf8_char_count_loop (encode cs @ 0 # rest) n = Some (n + length cs)"
proof (induction cs arbitrary: n)
  case Nil
  then show ?case by (subst utf8_char_count_loop.simps) (simp add: next_nul)
next
  case (Cons c cs)
  then show ?case
    by (subst utf8_char_count_loop.simps) (simp add: next_text text_char_def)
qed

lemma word_count_loop_text:
  "\<forall>c \<in> set cs. unicode c \<Longrightarrow>
     utf16_word_count_loop (encode cs @ rest) (Some (length (encode cs))) n =
       Some (n + (\<Sum>c\<leftarrow>cs. if c \<ge> 0x10000 then 2 else 1))"
proof (induction cs arbitrary: n)
  case Nil
  then show ?case by (subst utf16_word_count_loop.simps) simp
next
  case (Cons c cs)
  then have "unicode c" "0 < length (utf_char32_to_utf8 c)"
    using encode_char(1) [of c] by auto
  with Cons show ?case
    by (subst utf16_word_count_loop.simps) (simp add: next_text)
qed

lemma c_strlen_text: "0 \<notin> set bs \<Longrightarrow> c_strlen (bs @ 0 # rest) = Some (length bs)"
  by (induction bs) auto

lemma encode_nonzero: "\<forall>c \<in> set cs. text_char c \<Longrightarrow> 0 \<notin> set (encode cs)"
  using encode_char(3) by (induction cs) (auto simp: text_char_def)

lemma seek_text:
  "\<forall>c \<in> set cs. text_char c \<Longrightarrow>
     utf8_seek (encode cs @ 0 # rest) i = Some (i - length cs, encode (drop i cs) @ 0 # rest)"
proof (induction cs arbitrary: i)
  case Nil
  then show ?case by (cases i) auto
next
  case (Cons c cs)
  have u: "unicode c" "c \<noteq> 0" using Cons.prems by (auto simp: text_char_def)
  show ?case
  proof (cases i)
    case (Suc j)
    obtain b bs where enc: "utf_char32_to_utf8 c = b # bs" "b \<noteq> 0"
      using encode_char(1,3) [OF u(1)] u(2) by (cases "utf_char32_to_utf8 c") auto
    then show ?thesis
      using next_text(1) [OF u(1), of "encode cs @ 0 # rest"] Cons Suc by simp
  qed simp
qed


subsection \<open>The claims\<close>

text \<open>
  The bytes one call consumes: the lead byte and, of the continuation bytes it announces, those that are there.
\<close>

definition announced_tail :: "byte \<Rightarrow> nat" where
  "announced_tail b = (if b < 0xc0 then 0 else if b < 0xe0 then 1 else if b < 0xf0 then 2 else if b < 0xf8 then 3
     else if b < 0xfc then 4 else if b < 0xfe then 5 else 0)"

definition upto_end :: "nat \<Rightarrow> nat option \<Rightarrow> nat" where
  "upto_end n e = (case e of None \<Rightarrow> n | Some k \<Rightarrow> min n k)"

definition continuations :: "nat \<Rightarrow> byte list \<Rightarrow> nat option \<Rightarrow> nat" where
  "continuations n cp e = length (takeWhile IS_VALID_CONTINUATION_CHAR (take (upto_end n e) cp))"

definition consumed :: "byte list \<Rightarrow> nat option \<Rightarrow> nat" where
  "consumed bs e = Suc (continuations (announced_tail (hd bs)) (tl bs) (map_option (\<lambda>k. k - 1) e))"

text \<open>The input ends at the given end, or has a terminator.\<close>

definition ends :: "byte list \<Rightarrow> nat option \<Rightarrow> bool" where
  "ends bs e \<longleftrightarrow> (case e of None \<Rightarrow> 0 \<in> set bs | Some n \<Rightarrow> n \<le> length bs)"

lemma continuations_simps:
  "continuations 0 cp e = 0" "e = Some 0 \<Longrightarrow> continuations n cp e = 0"
  "e \<noteq> Some 0 \<Longrightarrow> continuations (Suc n) (c # cp) e =
     (if IS_VALID_CONTINUATION_CHAR c then Suc (continuations n cp (map_option (\<lambda>k. k - 1) e)) else 0)"
proof -
  show "continuations 0 cp e = 0" by (simp add: continuations_def upto_end_def split: option.split)
  show "e = Some 0 \<Longrightarrow> continuations n cp e = 0" by (simp add: continuations_def upto_end_def)
  show "continuations (Suc n) (c # cp) e =
     (if IS_VALID_CONTINUATION_CHAR c then Suc (continuations n cp (map_option (\<lambda>k. k - 1) e)) else 0)" if "e \<noteq> Some 0"
  proof (cases e)
    case (Some k)
    with that obtain m where "e = Some (Suc m)" by (cases k) auto
    then show ?thesis by (simp add: continuations_def upto_end_def)
  qed (simp add: continuations_def upto_end_def)
qed

lemma parse_continuation_ends:
  "ends cp e \<Longrightarrow> \<exists>ok rv. parse_continuation n cp e v =
     Some (ok, rv, drop (continuations n cp e) cp, left_after (continuations n cp e) e)"
proof (induction n cp e v rule: parse_continuation.induct)
  case (1 cp e v)
  then show ?case by (cases e) (auto simp: continuations_simps)
next
  case (2 n cp e v)
  show ?case
  proof (cases "e = Some 0")
    case True
    then show ?thesis by (intro exI [of _ False]) (simp add: continuations_simps)
  next
    case False
    then obtain c cp' where cp: "cp = c # cp'" using "2.prems" by (cases cp) (auto simp: ends_def split: option.splits)
    show ?thesis
    proof (cases "IS_VALID_CONTINUATION_CHAR c")
      case False': False
      then show ?thesis using False cp by (cases e) (auto simp: continuations_simps)
    next
      case True
      then have "c \<noteq> 0" by (auto simp: IS_VALID_CONTINUATION_CHAR_def)
      then have "ends cp' (left_after 1 e)" using "2.prems" cp False by (auto simp: ends_def split: option.splits)
      from "2.IH" [OF False cp _ this] True
      obtain ok rv where "parse_continuation n cp' (left_after 1 e) (push_bit 6 v OR ucast (c AND 0x3f)) =
          Some (ok, rv, drop (continuations n cp' (left_after 1 e)) cp', left_after (continuations n cp' (left_after 1 e)) (left_after 1 e))"
        by auto
      then show ?thesis using False cp True by (cases e) (auto simp: continuations_simps)
    qed
  qed
qed

lemma next_consumes:
  assumes "ends bs e" "bs \<noteq> []" "e \<noteq> Some 0"
  shows "\<exists>c. utf8_get_next_char bs e = Some (c, drop (consumed bs e) bs, left_after (consumed bs e) e)"
proof -
  obtain b cp where bs: "bs = b # cp" using assms(2) by (cases bs) auto
  have ends_tail: "ends cp (left_after 1 e)" if "b \<noteq> 0"
    using assms bs that by (auto simp: ends_def split: option.splits)
  have u: "unat (ucast b :: char32) = unat b" by simp
  have tail: "\<exists>c. do { (ok, rv, cp, end_cp) \<leftarrow> parse_continuation n cp (left_after 1 e) v; Some (f ok rv, cp, end_cp) } =
      Some (c, drop (consumed bs e) bs, left_after (consumed bs e) e)" if "announced_tail b = n" "b \<noteq> 0" for n v and f :: "bool \<Rightarrow> char32 \<Rightarrow> char32"
    using parse_continuation_ends [OF ends_tail [OF that(2)], of n v] bs that(1) assms(3) by (cases e) (auto simp: consumed_def)
  note defs = utf8_get_next_char_def word_less_nat_alt u Let_def announced_tail_def
  consider "unat b < 0xc0 \<or> 0xfe \<le> unat b" | (2) "0xc0 \<le> unat b" "unat b < 0xe0" | (3) "0xe0 \<le> unat b" "unat b < 0xf0"
    | (4) "0xf0 \<le> unat b" "unat b < 0xf8" | (5) "0xf8 \<le> unat b" "unat b < 0xfc" | (6) "0xfc \<le> unat b" "unat b < 0xfe" by linarith
  then show ?thesis
  proof cases
    case 1
    then have "announced_tail b = 0" by (auto simp: announced_tail_def word_less_nat_alt)
    then show ?thesis using assms(3) bs 1 by (cases e) (auto simp: defs consumed_def continuations_simps)
  next
    case 2
    then have "b \<noteq> 0" by auto
    then show ?thesis
      using 2 assms(3) bs tail [of 1 "ucast b AND 0x1f" "\<lambda>ok rv. if ok \<and> unat rv < 128 then UCS_REPLACEMENT_CHARACTER else rv"] by (auto simp: defs simp del: parse_continuation.simps)
  next
    case 3
    then have "b \<noteq> 0" by auto
    then show ?thesis
      using 3 assms(3) bs tail [of 2 "ucast b AND 0xf"
          "\<lambda>ok rv. if ok \<and> (unat rv < 0x800 \<or> INVALID_UNICODE_800_TO_FFFF rv) then UCS_REPLACEMENT_CHARACTER else rv"] by (auto simp: defs simp del: parse_continuation.simps)
  next
    case 4
    then have "b \<noteq> 0" by auto
    then show ?thesis
      using 4 assms(3) bs tail [of 3 "ucast b AND 0x7"
          "\<lambda>ok rv. if ok \<and> (unat rv < 0x10000 \<or> INVALID_UNICODE_10000_TO_1FFFFF rv) then UCS_REPLACEMENT_CHARACTER else rv"] by (auto simp: defs simp del: parse_continuation.simps)
  next
    case 5
    then have "b \<noteq> 0" by auto
    then show ?thesis using 5 assms(3) bs tail [of 4 "ucast b AND 0x3" "\<lambda>ok rv. UCS_REPLACEMENT_CHARACTER"] by (auto simp: defs simp del: parse_continuation.simps)
  next
    case 6
    then have "b \<noteq> 0" by auto
    then show ?thesis using 6 assms(3) bs tail [of 5 "ucast b AND 0x1" "\<lambda>ok rv. UCS_REPLACEMENT_CHARACTER"] by (auto simp: defs simp del: parse_continuation.simps)
  qed
qed

text \<open>
  C29. The UTF-8 decoder recognises exactly the encoder's output, and skips what it does not recognise: on an input that
  ends, it returns, having read the lead byte and those of the continuation bytes it announces that are there before the
  end, no more and no less; if these bytes are the encoding of a valid character it returns that character,
  and otherwise the replacement character. Overlong forms, surrogates, non-characters, truncated and
  stray bytes therefore never yield anything but the replacement character. Whether the input ends or not, a character other than the replacement
  character is returned if and only if it is valid and the bytes read are its encoding.
\<close>

theorem utf8_decode_iff_encoded:
  assumes "e \<noteq> Some 0"
  shows "(c \<noteq> UCS_REPLACEMENT_CHARACTER \<longrightarrow>
       (utf8_get_next_char bs e = Some (c, bs', e') \<longleftrightarrow>
        unicode c \<and> bs = utf_char32_to_utf8 c @ bs' \<and> enough (length (utf_char32_to_utf8 c)) e \<and>
        e' = left_after (length (utf_char32_to_utf8 c)) e)) \<and>
     (ends bs e \<and> bs \<noteq> [] \<longrightarrow>
       (\<exists>d. utf8_get_next_char bs e = Some (d, drop (consumed bs e) bs, left_after (consumed bs e) e) \<and>
          (\<forall>u. unicode u \<and> take (consumed bs e) bs = utf_char32_to_utf8 u \<longrightarrow> d = u) \<and>
          ((\<nexists>u. unicode u \<and> take (consumed bs e) bs = utf_char32_to_utf8 u) \<longrightarrow> d = UCS_REPLACEMENT_CHARACTER)))"
proof (intro conjI impI)
  show "utf8_get_next_char bs e = Some (c, bs', e') \<longleftrightarrow>
        unicode c \<and> bs = utf_char32_to_utf8 c @ bs' \<and> enough (length (utf_char32_to_utf8 c)) e \<and>
        e' = left_after (length (utf_char32_to_utf8 c)) e" if "c \<noteq> UCS_REPLACEMENT_CHARACTER"
    using next_cases [of bs e c bs' e'] next_encoded [of c e bs'] assms that by (auto simp: decoded_def)
  let ?k = "consumed bs e"
  assume "ends bs e \<and> bs \<noteq> []"
  then obtain d where d: "utf8_get_next_char bs e = Some (d, drop ?k bs, left_after ?k e)"
    using next_consumes assms by blast
  then obtain used where used: "decoded bs e d (drop ?k bs) (left_after ?k e) used"
    using next_cases assms by blast
  then have "used @ drop ?k bs = take ?k bs @ drop ?k bs" by (simp add: decoded_def)
  then have "used = take ?k bs" by (simp only: append_same_eq)
  then have k: "used = take ?k bs" "enough (length (take ?k bs)) e" using used by (auto simp: decoded_def)
  have "d = u" if "unicode u" "take ?k bs = utf_char32_to_utf8 u" for u
    using next_encoded [OF that(1), of e "drop ?k bs"] k(2) d that(2) by (metis append_take_drop_id option.inject prod.inject)
  moreover have "d = UCS_REPLACEMENT_CHARACTER" if "\<nexists>u. unicode u \<and> take ?k bs = utf_char32_to_utf8 u"
    using used k(1) that by (auto simp: decoded_def)
  ultimately show "\<exists>d. utf8_get_next_char bs e = Some (d, drop ?k bs, left_after ?k e) \<and>
          (\<forall>u. unicode u \<and> take ?k bs = utf_char32_to_utf8 u \<longrightarrow> d = u) \<and>
          ((\<nexists>u. unicode u \<and> take ?k bs = utf_char32_to_utf8 u) \<longrightarrow> d = UCS_REPLACEMENT_CHARACTER)"
    using d by blast
qed

text \<open>The euro sign; and a lead byte of three whose second continuation byte is missing, of which two bytes are skipped.\<close>

lemma utf8_decode_iff_encoded_witness:
  "utf8_get_next_char [0xe2, 0x82, 0xac, 0x41] (Some 4) = Some (0x20ac, [0x41], Some 1) \<and>
   (\<exists>d. utf8_get_next_char [0xe2, 0x82, 0x41] (Some 3) = Some (d, [0x41], Some 1))"
proof -
  have euro: "utf_char32_to_utf8 0x20ac = [0xe2, 0x82, 0xac]" "unicode 0x20ac"
    by (simp_all add: utf_char32_to_utf8_def unicode_def INVALID_UNICODE_def INVALID_UNICODE_800_TO_FFFF_def
        INVALID_UNICODE_10000_TO_1FFFFF_def IS_ARABIC_NON_CHARACTER_def IS_PLANE_END_NON_CHARACTER_def)
  have bad: "consumed [0xe2, 0x82, 0x41] (Some 3) = 2" "ends [0xe2, 0x82, 0x41] (Some 3)"
    by (simp_all add: consumed_def continuations_def upto_end_def announced_tail_def IS_VALID_CONTINUATION_CHAR_def ends_def)
  show ?thesis
    using utf8_decode_iff_encoded [of "Some 4" "0x20ac" "[0xe2, 0x82, 0xac, 0x41]" "[0x41]" "Some 1"]
      utf8_decode_iff_encoded [of "Some 3" "0x20ac" "[0xe2, 0x82, 0x41]" "[]" None] euro bad by auto
qed

text \<open>Editing a text in its buffer.\<close>

lemma add_char_text:
  assumes "\<forall>c \<in> set cs. text_char c" "len \<le> length (encode cs @ 0 # rest)" "i \<le> length cs"
  shows "utf8_add_char_at (encode cs @ 0 # rest) len c i =
     Some (if length (encode cs) + 1 + length (utf_char32_to_utf8 c) \<le> len
           then (1, encode (take i cs) @ utf_char32_to_utf8 c @ encode (drop i cs) @ 0 # drop (length (utf_char32_to_utf8 c)) rest)
           else (0, encode cs @ 0 # rest))"
proof -
  have split: "encode cs = encode (take i cs) @ encode (drop i cs)"
    by (metis append_take_drop_id encode_simps(3))
  have "0 \<notin> set (encode (drop i cs))"
    using assms(1) by (intro encode_nonzero) (auto dest: in_set_dropD)
  then have "c_strlen (encode (drop i cs) @ 0 # rest) = Some (length (encode (drop i cs)))"
    by (rule c_strlen_text)
  then show ?thesis
    using seek_text [OF assms(1), of rest i] assms(2,3)
    by (simp add: utf8_add_char_at_def Let_def split algebra_simps)
qed

lemma remove_char_text:
  assumes "\<forall>c \<in> set cs. text_char c" "i < length cs"
  shows "\<exists>tail. utf8_remove_char_at (encode cs @ 0 # rest) i =
     Some (cs ! i, encode (take i cs @ drop (Suc i) cs) @ 0 # tail)"
proof -
  have split: "encode cs = encode (take i cs) @ utf_char32_to_utf8 (cs ! i) @ encode (drop (Suc i) cs)"
    by (metis assms(2) id_take_nth_drop encode_simps(2,3))
  have drop: "encode (drop i cs) = utf_char32_to_utf8 (cs ! i) @ encode (drop (Suc i) cs)"
    by (metis assms(2) Cons_nth_drop_Suc encode_simps(2))
  have u: "unicode (cs ! i)" using assms by (simp add: text_char_def)
  have "0 \<notin> set (encode (drop (Suc i) cs))"
    using assms(1) by (intro encode_nonzero) (auto dest: in_set_dropD)
  then have "c_strlen (encode (drop (Suc i) cs) @ 0 # rest) = Some (length (encode (drop (Suc i) cs)))"
    by (rule c_strlen_text)
  then show ?thesis
    using seek_text [OF assms(1), of rest i] assms(2) next_text(1) [OF u, of "encode (drop (Suc i) cs) @ 0 # rest"]
    by (simp add: utf8_remove_char_at_def Let_def split drop)
qed

text \<open>
  Editing a UTF-8 text by character positions: inserting a character at a position of the
  text inserts its encoding there, if it fits the buffer with the terminator, and changes
  nothing otherwise; removing the character at a position deletes it and returns it; a position
  behind the end of the text changes nothing when removing. Removing at the position of the
  terminator itself reads behind the string: with nothing behind the terminator the operation
  is undefined, where the header promises that no character is removed.
\<close>

lemma utf8_editing_correct:
  assumes "\<forall>c \<in> set cs. text_char c" and "text_char c" and "i \<le> length cs"
    and "len \<le> length (encode cs @ 0 # rest)"
  shows "utf8_char_count (Some (encode cs @ 0 # rest)) = Some (length cs) \<and>
     (\<exists>tail. utf8_add_char_at (encode cs @ 0 # rest) len c i =
       Some (if length (encode cs) + 1 + length (utf_char32_to_utf8 c) \<le> len
             then (1, encode (take i cs @ c # drop i cs) @ 0 # tail) else (0, encode cs @ 0 # rest))) \<and>
     (i < length cs \<longrightarrow> (\<exists>tail. utf8_remove_char_at (encode cs @ 0 # rest) i =
        Some (cs ! i, encode (take i cs @ drop (Suc i) cs) @ 0 # tail))) \<and>
     (\<forall>j > length cs. utf8_remove_char_at (encode cs @ 0 # rest) j = Some (0, encode cs @ 0 # rest)) \<and>
     utf8_remove_char_at (encode cs @ [0]) (length cs) = None"
proof (intro conjI)
  show "utf8_char_count (Some (encode cs @ 0 # rest)) = Some (length cs)"
    using char_count_loop_text [OF assms(1), of rest 0] by (simp add: utf8_char_count_def)
  show "\<exists>tail. utf8_add_char_at (encode cs @ 0 # rest) len c i =
       Some (if length (encode cs) + 1 + length (utf_char32_to_utf8 c) \<le> len
             then (1, encode (take i cs @ c # drop i cs) @ 0 # tail) else (0, encode cs @ 0 # rest))"
    unfolding add_char_text [OF assms(1,4,3)] by auto
  show "i < length cs \<longrightarrow> (\<exists>tail. utf8_remove_char_at (encode cs @ 0 # rest) i =
        Some (cs ! i, encode (take i cs @ drop (Suc i) cs) @ 0 # tail))"
    using remove_char_text [OF assms(1)] by blast
  show "\<forall>j > length cs. utf8_remove_char_at (encode cs @ 0 # rest) j = Some (0, encode cs @ 0 # rest)"
    using seek_text [OF assms(1)] by (auto simp: utf8_remove_char_at_def)
  show "utf8_remove_char_at (encode cs @ [0]) (length cs) = None"
    using seek_text [OF assms(1), of "[]" "length cs"] by (simp add: utf8_remove_char_at_def next_nul)
qed

lemma utf8_editing_correct_witness:
  "\<exists>tail. utf8_add_char_at [0xc3, 0xa9, 0x61, 0, 9, 9] 6 0x7a 1 = Some (1, [0xc3, 0xa9, 0x7a, 0x61, 0] @ tail)"
proof -
  have enc: "utf_char32_to_utf8 0xe9 = [0xc3, 0xa9]" "utf_char32_to_utf8 0x61 = [0x61]" "utf_char32_to_utf8 0x7a = [0x7a]"
    and tc: "text_char 0xe9" "text_char 0x61" "text_char 0x7a"
    by (simp_all add: utf_char32_to_utf8_def text_char_def unicode_def INVALID_UNICODE_def INVALID_UNICODE_800_TO_FFFF_def
        INVALID_UNICODE_10000_TO_1FFFFF_def IS_ARABIC_NON_CHARACTER_def IS_PLANE_END_NON_CHARACTER_def)
  show ?thesis
    using utf8_editing_correct [of "[0xe9, 0x61]" "0x7a" 1 6 "[9, 9]"] enc tc by auto
qed

end
