(* ===== verification/Utf16.thy ===== *)
theory Utf16
  imports Utf8_Text
begin

text \<open>
  The UTF-16 routines of \<^verbatim>\<open>common/parse.c\<close>: writing a UTF-8 string to a stream as little-endian
  UTF-16, and reading UTF-16 from a stream into a bounded UTF-8 buffer.
\<close>

type_synonym char16 = "16 word"

definition IS_HIGH_SURROGATE :: "char16 \<Rightarrow> bool" where
  "IS_HIGH_SURROGATE u16 \<longleftrightarrow> u16 AND 0xfc00 = 0xd800"

definition IS_LOW_SURROGATE :: "char16 \<Rightarrow> bool" where
  "IS_LOW_SURROGATE u16 \<longleftrightarrow> u16 AND 0xfc00 = 0xdc00"

definition HIGH_SURROGATE_FROM_C32 :: "char32 \<Rightarrow> char16" where
  "HIGH_SURROGATE_FROM_C32 c32 = ucast ((drop_bit 10 (c32 - 0x10000) AND 0x3ff) OR 0xd800)"

definition LOW_SURROGATE_FROM_C32 :: "char32 \<Rightarrow> char16" where
  "LOW_SURROGATE_FROM_C32 c32 = ucast ((c32 AND 0x3ff) OR 0xdc00)"

definition C32_FROM_SURROGATE_PAIR :: "char16 \<Rightarrow> char16 \<Rightarrow> char32" where
  "C32_FROM_SURROGATE_PAIR low high = push_bit 10 (ucast (high AND 0x3ff)) + ucast (low AND 0x3ff) + 0x10000"

subsection \<open>Writing\<close>

definition out_c16 :: "char16 \<Rightarrow> stream \<Rightarrow> stream option" where
  "out_c16 u s = out_uint16_le (uint u) s"

definition out_c32 :: "char32 \<Rightarrow> stream \<Rightarrow> stream option" where
  "out_c32 c32 s =
     (if c32 < 0x10000 then out_c16 (ucast c32) s
      else do { s \<leftarrow> out_c16 (HIGH_SURROGATE_FROM_C32 c32) s; out_c16 (LOW_SURROGATE_FROM_C32 c32) s })"

function out_utf8_as_utf16_le_proc :: "stream \<Rightarrow> byte list \<Rightarrow> nat option \<Rightarrow> stream option" where
  "out_utf8_as_utf16_le_proc s v vn =
     (case vn of
        None \<Rightarrow> None
      | Some n \<Rightarrow>
          if n > 0
          then (case utf8_get_next_char v vn of
                  None \<Rightarrow> None
                | Some (c32, v, vn) \<Rightarrow>
                    (case out_c32 c32 s of None \<Rightarrow> None | Some s \<Rightarrow> out_utf8_as_utf16_le_proc s v vn))
          else Some s)"
  by pat_completeness auto
termination by (relation "measure (\<lambda>(s, v, vn). case vn of None \<Rightarrow> 0 | Some n \<Rightarrow> n)") (auto dest: next_shorter)

declare out_utf8_as_utf16_le_proc.simps [simp del]

subsection \<open>Reading\<close>

text \<open>
  The test behind a valid pair looks at \<^verbatim>\<open>c32\<close>, which still holds the replacement character,
  and so always succeeds.
\<close>

definition get_c32_from_stream :: "stream \<Rightarrow> (char32 \<times> stream) option" where
  "get_c32_from_stream s =
     do { let c32 = UCS_REPLACEMENT_CHARACTER;
          (w, s) \<leftarrow> in_uint16_le s;
          let w = word_of_int w;
          if IS_HIGH_SURROGATE w
          then (if s_check_rem s 2
                then do { (low, s) \<leftarrow> in_uint16_le s;
                          let low = word_of_int low;
                          Some (if IS_LOW_SURROGATE low
                                then let v = C32_FROM_SURROGATE_PAIR low w
                                     in (if \<not> IS_PLANE_END_NON_CHARACTER c32 then v else c32, s)
                                else (c32, s\<lparr>s_p := s_p s - 2\<rparr>)) }
                else Some (c32, s))
          else Some (if \<not> IS_LOW_SURROGATE w \<and> \<not> IS_PLANE_END_NON_CHARACTER (ucast w) \<and>
                        \<not> IS_ARABIC_NON_CHARACTER (ucast w)
                     then ucast w else c32, s) }"

lemma in_uint16_SomeD: "in_uint16_le s = Some (w, s') \<Longrightarrow> s' = s\<lparr>s_p := s_p s + 2\<rparr> \<and> s_p s + 2 \<le> s_size s"
  by (auto simp: in_defs in_bytes_def Option.bind_eq_Some_conv split: if_split_asm)

lemma get_c32_advances:
  assumes "get_c32_from_stream s = Some (c, s')"
  shows "s_data s' = s_data s \<and> s_p s < s_p s' \<and> s_p s' \<le> s_size s"
proof -
  obtain w s1 where one: "in_uint16_le s = Some (w, s1)"
    using assms by (auto simp: get_c32_from_stream_def Option.bind_eq_Some_conv)
  have "s' = s1 \<or> (\<exists>low s2. in_uint16_le s1 = Some (low, s2) \<and> (s' = s2 \<or> s' = s2\<lparr>s_p := s_p s2 - 2\<rparr>))"
    using assms unfolding get_c32_from_stream_def one
    by (simp add: Let_def Option.bind_eq_Some_conv split: if_split_asm) blast+
  then show ?thesis
    using in_uint16_SomeD [OF one] by (auto dest!: in_uint16_SomeD)
qed

text \<open>
  The output buffer: the bytes stored, and the room left. A character that does not fit fills
  the buffer up, so that no later one gets in.
\<close>

definition put_utf8 :: "byte list \<Rightarrow> byte list \<times> nat \<Rightarrow> byte list \<times> nat" where
  "put_utf8 u8str out =
     (case out of (v, vn) \<Rightarrow>
        if length u8str + 1 \<le> vn then (v @ u8str, vn - length u8str)
        else if vn > 1 then (v, 1) else (v, vn))"

definition finish_utf8 :: "byte list \<times> nat \<Rightarrow> byte list" where
  "finish_utf8 out = (case out of (v, vn) \<Rightarrow> if vn > 0 then v @ [0] else v)"

text \<open>\<^term>\<open>True\<close> stops at a NUL character.\<close>

function in_utf16_loop :: "bool \<Rightarrow> stream \<Rightarrow> nat \<Rightarrow> byte list \<times> nat \<Rightarrow> (nat \<times> (byte list \<times> nat) \<times> stream) option" where
  "in_utf16_loop terminated s rv out =
     (if s_check_rem s 2
      then (case get_c32_from_stream s of
              None \<Rightarrow> None
            | Some (c32, s) \<Rightarrow>
                if terminated \<and> c32 = 0 then Some (rv, out, s)
                else (let u8str = utf_char32_to_utf8 c32
                      in in_utf16_loop terminated s (rv + length u8str) (put_utf8 u8str out)))
      else Some (rv, out, s))"
  by pat_completeness auto
termination by (relation "measure (\<lambda>(t, s, rv, out). s_size s - s_p s)") (auto dest!: get_c32_advances)

declare in_utf16_loop.simps [simp del]

text \<open>
  The results are the bytes needed, terminator included, what was stored in the buffer, and the
  stream. \<^verbatim>\<open>n\<close> counts words; the end of the stream is moved for the duration of the loop.
\<close>

definition in_utf16_le_fixed_as_utf8_proc :: "stream \<Rightarrow> int \<Rightarrow> nat \<Rightarrow> (nat \<times> byte list \<times> stream) option" where
  "in_utf16_le_fixed_as_utf8_proc s n vn =
     (let saved_s_end = s_end s;
          octets = c_int (c_uint (n * 2));
          end' = (if int (s_end s) - int (s_p s) > octets then int (s_p s) + octets else int (s_end s))
      in if end' < 0 then None
         else do { (rv, out, s) \<leftarrow> in_utf16_loop False (s\<lparr>s_end := nat end'\<rparr>) 0 ([], vn);
                   Some (rv + 1, finish_utf8 out, s\<lparr>s_end := saved_s_end\<rparr>) })"

definition in_utf16_le_fixed_as_utf8_length :: "stream \<Rightarrow> int \<Rightarrow> (nat \<times> stream) option" where
  "in_utf16_le_fixed_as_utf8_length s n =
     do { (rv, v, s') \<leftarrow> in_utf16_le_fixed_as_utf8_proc s n 0; Some (rv, s'\<lparr>s_p := s_p s\<rparr>) }"

definition in_utf16_le_terminated_as_utf8 :: "stream \<Rightarrow> nat \<Rightarrow> (nat \<times> byte list \<times> stream) option" where
  "in_utf16_le_terminated_as_utf8 s vn =
     do { (rv, out, s) \<leftarrow> in_utf16_loop True s 0 ([], vn); Some (rv + 1, finish_utf8 out, s) }"

definition in_utf16_le_terminated_as_utf8_length :: "stream \<Rightarrow> (nat \<times> stream) option" where
  "in_utf16_le_terminated_as_utf8_length s =
     do { (rv, v, s') \<leftarrow> in_utf16_le_terminated_as_utf8 s 0; Some (rv, s'\<lparr>s_p := s_p s\<rparr>) }"


subsection \<open>Surrogates as numbers\<close>

lemma unat_c16_less: "unat (u :: char16) < 65536"
proof -
  have "unat u < 2 ^ LENGTH(16)" by (rule unsigned_less)
  then show ?thesis by simp
qed

lemma unat_high_part: "unat ((u :: char16) AND 0xfc00) = 1024 * (unat u div 1024)"
proof -
  have "u AND 0xfc00 = u AND NOT (mask 10)"
    by (rule arg_cong [where f = "(AND) u"]) (simp add: mask_eq_exp_minus_1 word_unat_eq_iff)
  also have "\<dots> = push_bit 10 (drop_bit 10 u)"
    by (rule bit_word_eqI) (auto simp: bit_simps)
  finally have "unat (u AND 0xfc00) = (1024 * (unat u div 1024)) mod 65536"
    by (simp only: push_bit_eq_mult unat_word_ariths unat_drop_bit_eq drop_bit_eq_div [where 'a = nat]) (simp add: mult.commute)
  moreover have "1024 * (unat u div 1024) < 65536"
    using unat_c16_less [of u] by (metis le_less_trans times_div_less_eq_dividend)
  ultimately show ?thesis by simp
qed

lemma surrogate_iff:
  "IS_HIGH_SURROGATE u \<longleftrightarrow> unat u div 1024 = 54" "IS_LOW_SURROGATE u \<longleftrightarrow> unat u div 1024 = 55"
  by (simp_all add: IS_HIGH_SURROGATE_def IS_LOW_SURROGATE_def word_unat_eq_iff unat_high_part)

lemma unat_low10: "unat ((u :: char16) AND 0x3ff) = unat u mod 1024"
proof -
  have "u AND 0x3ff = take_bit 10 u"
    by (simp add: and_low_mask [symmetric] mask_eq_exp_minus_1)
  then show ?thesis by (simp add: unat_take_bit)
qed

lemma unat_tag16:
  assumes "unat (x :: 32 word) < 1024" "unat t = 1024 * k" "k < 64"
  shows "unat (ucast (x OR t) :: char16) = unat x + 1024 * k"
proof -
  have "unat (x OR t) = unat x + unat t"
    using assms by (intro unat_or_disjoint [where n = 10]) auto
  then show ?thesis
    using assms by (simp add: unsigned_ucast_eq take_bit_eq_mod)
qed

lemma surrogates_of:
  assumes "0x10000 \<le> unat (c :: char32)" "unat c \<le> 0x10ffff"
  shows "unat (HIGH_SURROGATE_FROM_C32 c) = (unat c - 0x10000) div 1024 + 1024 * 54"
    "unat (LOW_SURROGATE_FROM_C32 c) = unat c mod 1024 + 1024 * 55"
proof -
  have sub: "unat (c - 0x10000) = unat c - 0x10000"
    using assms by (simp add: unat_sub word_le_nat_alt)
  have "(unat c - 0x10000) div 1024 < 1024"
    using assms(2) by (simp add: div_less_iff_less_mult)
  then have hi: "unat (drop_bit 10 (c - 0x10000) AND 0x3ff) = (unat c - 0x10000) div 1024"
    by (simp add: unat_low drop_unat sub)
  show "unat (HIGH_SURROGATE_FROM_C32 c) = (unat c - 0x10000) div 1024 + 1024 * 54"
    unfolding HIGH_SURROGATE_FROM_C32_def
    using hi \<open>(unat c - 0x10000) div 1024 < 1024\<close> by (subst unat_tag16 [where k = 54]) auto
  show "unat (LOW_SURROGATE_FROM_C32 c) = unat c mod 1024 + 1024 * 55"
    unfolding LOW_SURROGATE_FROM_C32_def by (subst unat_tag16 [where k = 55]) (simp_all add: unat_low)
qed

lemma pair_back:
  assumes "0x10000 \<le> unat c" "unat c \<le> 0x10ffff"
  shows "IS_HIGH_SURROGATE (HIGH_SURROGATE_FROM_C32 c)" "IS_LOW_SURROGATE (LOW_SURROGATE_FROM_C32 c)"
    "C32_FROM_SURROGATE_PAIR (LOW_SURROGATE_FROM_C32 c) (HIGH_SURROGATE_FROM_C32 c) = c"
proof -
  note s = surrogates_of [OF assms]
  let ?h = "(unat c - 0x10000) div 1024"
  have h: "?h < 1024" using assms(2) by (simp add: div_less_iff_less_mult)
  show "IS_HIGH_SURROGATE (HIGH_SURROGATE_FROM_C32 c)" "IS_LOW_SURROGATE (LOW_SURROGATE_FROM_C32 c)"
    unfolding surrogate_iff s using h by simp_all
  have low: "unat (HIGH_SURROGATE_FROM_C32 c) mod 1024 = ?h" "unat (LOW_SURROGATE_FROM_C32 c) mod 1024 = unat c mod 1024"
    unfolding s using h by (metis mod_less mod_mult_self2, simp only: mod_mult_self2 mod_mod_trivial)
  have "unat (ucast (HIGH_SURROGATE_FROM_C32 c AND 0x3ff) :: char32) = ?h"
    using low(1) h by (simp add: unsigned_ucast_eq take_bit_nat_eq_self unat_low10)
  moreover have "unat (ucast (LOW_SURROGATE_FROM_C32 c AND 0x3ff) :: char32) = unat c mod 1024"
    using low(2) by (simp add: unsigned_ucast_eq take_bit_nat_eq_self unat_low10)
  moreover have "1024 * ?h + unat c mod 1024 + 0x10000 = unat c"
  proof -
    have "unat c mod 1024 = (unat c - 0x10000) mod 1024"
      using assms(1) mod_mult_self2 [of "unat c - 0x10000" 1024 64] by simp
    then have "1024 * ?h + unat c mod 1024 = unat c - 0x10000"
      by (simp only: mult_div_mod_eq)
    then show ?thesis using assms(1) by simp
  qed
  ultimately have "unat (C32_FROM_SURROGATE_PAIR (LOW_SURROGATE_FROM_C32 c) (HIGH_SURROGATE_FROM_C32 c)) = unat c"
    using assms(2) h by (simp add: C32_FROM_SURROGATE_PAIR_def push_bit_eq_mult unat_word_ariths)
  then show "C32_FROM_SURROGATE_PAIR (LOW_SURROGATE_FROM_C32 c) (HIGH_SURROGATE_FROM_C32 c) = c"
    by (rule char_eqI)
qed

subsection \<open>One character through a stream\<close>

definition wire16 :: "char32 \<Rightarrow> byte list" where
  "wire16 c = (if c < 0x10000 then le_bytes 2 (uint (ucast c :: char16))
     else le_bytes 2 (uint (HIGH_SURROGATE_FROM_C32 c)) @ le_bytes 2 (uint (LOW_SURROGATE_FROM_C32 c)))"

lemma out_c32_wire: "out_c32 c s = out_bytes (wire16 c) s"
  by (simp add: out_c32_def out_c16_def out_uint16_le_def wire16_def out_bytes_append)

lemma length_wire16: "length (wire16 c) = 2 * (if c \<ge> 0x10000 then 2 else 1)"
  by (auto simp: wire16_def not_less)

lemma read_c16:
  assumes "in_wf s" "unread s = le_bytes 2 (uint (u :: char16)) @ rest"
  shows "in_uint16_le s = Some (uint u, advance 2 s)"
proof -
  have "uint u < 2 ^ LENGTH(16)" by (rule unsigned_less)
  then have "uint u mod 65536 = uint u" by simp
  then show ?thesis
    using in_bytes_prefix [OF assms, of 2] by (simp add: in_defs)
qed

lemma bmp_char:
  assumes "unicode c" "unat c < 0x10000"
  shows "ucast (ucast c :: char16) = c" "\<not> IS_HIGH_SURROGATE (ucast c)" "\<not> IS_LOW_SURROGATE (ucast c)"
    "\<not> IS_PLANE_END_NON_CHARACTER c" "\<not> IS_ARABIC_NON_CHARACTER c"
proof -
  have u: "unat (ucast c :: char16) = unat c"
    using assms(2) by (simp add: unsigned_ucast_eq take_bit_nat_eq_self)
  then show "ucast (ucast c :: char16) = c"
    using assms(2) by (intro char_eqI) (simp add: unsigned_ucast_eq take_bit_nat_eq_self unat_take_bit)
  have "\<not> (0xd800 \<le> unat c \<and> unat c \<le> 0xdfff)"
    using assms(1) by (simp add: unicode_def INVALID_UNICODE_def INVALID_UNICODE_800_TO_FFFF_def word_le_nat_alt)
  then have "unat c div 1024 \<noteq> 54 \<and> unat c div 1024 \<noteq> 55"
    using div_mult_mod_eq [of "unat c" 1024] mod_less_divisor [of 1024 "unat c"] by auto
  then show "\<not> IS_HIGH_SURROGATE (ucast c)" "\<not> IS_LOW_SURROGATE (ucast c)"
    unfolding surrogate_iff u by simp_all
  show "\<not> IS_PLANE_END_NON_CHARACTER c" "\<not> IS_ARABIC_NON_CHARACTER c"
    using assms(1) by (simp_all add: unicode_def INVALID_UNICODE_def INVALID_UNICODE_800_TO_FFFF_def)
qed


lemma get_c32_written:
  assumes "in_wf s" "unread s = wire16 c @ rest" "unicode c"
  shows "get_c32_from_stream s = Some (c, advance (length (wire16 c)) s)"
proof (cases "c < 0x10000")
  case True
  then have c: "unat c < 0x10000" by (simp add: char_less)
  have w: "wire16 c = le_bytes 2 (uint (ucast c :: char16))" using True by (simp add: wire16_def)
  have "in_uint16_le s = Some (uint (ucast c :: char16), advance 2 s)"
    using assms(1,2) w by (intro read_c16) auto
  then show ?thesis
    using bmp_char [OF assms(3) c] w by (simp add: get_c32_from_stream_def)
next
  case False
  then have c: "0x10000 \<le> unat c" "unat c \<le> 0x10ffff"
    using unicode_range [OF assms(3)] by (simp_all add: char_less)
  let ?h = "HIGH_SURROGATE_FROM_C32 c" and ?l = "LOW_SURROGATE_FROM_C32 c"
  have w: "wire16 c = le_bytes 2 (uint ?h) @ le_bytes 2 (uint ?l)" using False by (simp add: wire16_def)
  have un: "unread s = le_bytes 2 (uint ?h) @ le_bytes 2 (uint ?l) @ rest" using assms(2) w by simp
  have one: "in_uint16_le s = Some (uint ?h, advance 2 s)" by (rule read_c16 [OF assms(1) un])
  have wf: "in_wf (advance 2 s)" "unread (advance 2 s) = le_bytes 2 (uint ?l) @ rest"
    using un assms(1) by (auto intro!: advance_wf simp: unread_advance)
  have two: "in_uint16_le (advance 2 s) = Some (uint ?l, advance 4 s)"
    using read_c16 [OF wf] by simp
  have rem: "s_check_rem (advance 2 s) 2"
    using wf by (simp add: s_check_rem_wf)
  have rep: "\<not> IS_PLANE_END_NON_CHARACTER UCS_REPLACEMENT_CHARACTER"
    by (simp add: IS_PLANE_END_NON_CHARACTER_def)
  show ?thesis
    unfolding get_c32_from_stream_def one using two rem rep pair_back [OF c] w by simp
qed

definition wire16s :: "char32 list \<Rightarrow> byte list" where
  "wire16s cs = concat (map wire16 cs)"

lemma wire16s_simps [simp]: "wire16s [] = []" "wire16s (c # cs) = wire16 c @ wire16s cs"
  by (simp_all add: wire16s_def)

lemma length_wire16s: "length (wire16s cs) = 2 * (\<Sum>c\<leftarrow>cs. if c \<ge> 0x10000 then 2 else 1)"
  by (induction cs) (simp_all add: length_wire16)

lemma out_utf8_wire:
  "\<forall>c \<in> set cs. unicode c \<Longrightarrow> out_wf s \<Longrightarrow>
     out_utf8_as_utf16_le_proc s (encode cs @ rest) (Some (length (encode cs))) = out_bytes (wire16s cs) s"
proof (induction cs arbitrary: s)
  case Nil
  then show ?case by (subst out_utf8_as_utf16_le_proc.simps) (simp add: out_bytes_def out_wf_def)
next
  case (Cons c cs)
  then have "unicode c" "0 < length (utf_char32_to_utf8 c)"
    using encode_char(1) [of c] by auto
  with Cons show ?case
    by (subst out_utf8_as_utf16_le_proc.simps)
      (simp add: next_text out_c32_wire out_bytes_append out_bytes_SomeD split: option.split)
qed

text \<open>
  What ends up in the buffer: as many whole characters from the front as fit with a terminator.
\<close>

fun fitting :: "nat \<Rightarrow> char32 list \<Rightarrow> char32 list" where
  "fitting room [] = []"
| "fitting room (c # cs) =
     (if length (utf_char32_to_utf8 c) < room then c # fitting (room - length (utf_char32_to_utf8 c)) cs else [])"

definition put_chars :: "char32 list \<Rightarrow> byte list \<times> nat \<Rightarrow> byte list \<times> nat" where
  "put_chars cs out = fold (\<lambda>c. put_utf8 (utf_char32_to_utf8 c)) cs out"

lemma put_chars_full:
  assumes "\<forall>c \<in> set cs. unicode c" "vn \<le> 1"
  shows "put_chars cs (v, vn) = (v, vn)"
  using assms
proof (induction cs)
  case (Cons c cs)
  then show ?case using encode_char(1) [of c] by (simp add: put_chars_def put_utf8_def)
qed (simp add: put_chars_def)

lemma put_chars_fitting:
  "\<forall>c \<in> set cs. unicode c \<Longrightarrow> finish_utf8 (put_chars cs (v, vn)) = (if 0 < vn then v @ encode (fitting vn cs) @ [0] else v)"
proof (induction cs arbitrary: v vn)
  case Nil
  then show ?case by (simp add: put_chars_def finish_utf8_def)
next
  case (Cons c cs)
  let ?e = "utf_char32_to_utf8 c"
  have u: "\<forall>c \<in> set cs. unicode c" "unicode c" using Cons.prems by auto
  show ?case
  proof (cases "length ?e < vn")
    case True
    then have "put_chars (c # cs) (v, vn) = put_chars cs (v @ ?e, vn - length ?e)"
      by (simp add: put_chars_def put_utf8_def)
    then show ?thesis using Cons.IH [OF u(1)] True by simp
  next
    case False
    then have "put_chars (c # cs) (v, vn) = put_chars cs (v, min vn 1)"
      using encode_char(1) [OF u(2)] by (auto simp: put_chars_def put_utf8_def)
    then show ?thesis
      using put_chars_full [OF u(1), of "min vn 1" v] False by (auto simp: finish_utf8_def)
  qed
qed

lemma fitting_all: "length (encode cs) < vn \<Longrightarrow> fitting vn cs = cs"
  by (induction cs arbitrary: vn) auto

lemma fitting_prefix:
  "\<exists>k. fitting vn cs = take k cs \<and> (0 < vn \<longrightarrow> length (encode (take k cs)) < vn) \<and>
     (k < length cs \<longrightarrow> vn \<le> length (encode (take (Suc k) cs)))"
proof (induction cs arbitrary: vn)
  case (Cons c cs)
  show ?case
  proof (cases "length (utf_char32_to_utf8 c) < vn")
    case True
    obtain k where "fitting (vn - length (utf_char32_to_utf8 c)) cs = take k cs"
      "length (encode (take k cs)) < vn - length (utf_char32_to_utf8 c)"
      "k < length cs \<longrightarrow> vn - length (utf_char32_to_utf8 c) \<le> length (encode (take (Suc k) cs))"
      using Cons.IH [of "vn - length (utf_char32_to_utf8 c)"] True by auto
    then show ?thesis using True by (intro exI [of _ "Suc k"]) auto
  next
    case False
    then show ?thesis by (intro exI [of _ 0]) auto
  qed
qed simp

lemma in_utf16_loop_text:
  "\<forall>c \<in> set cs. unicode c \<and> (t \<longrightarrow> c \<noteq> 0) \<Longrightarrow> in_wf s \<Longrightarrow> unread s = wire16s cs @ rest \<Longrightarrow>
     in_utf16_loop t s rv out =
       in_utf16_loop t (advance (length (wire16s cs)) s) (rv + length (encode cs)) (put_chars cs out)"
proof (induction cs arbitrary: s rv out)
  case (Cons c cs)
  have u: "unicode c" "t \<longrightarrow> c \<noteq> 0" using Cons.prems by auto
  have un: "unread s = wire16 c @ wire16s cs @ rest" using Cons.prems by simp
  have get: "get_c32_from_stream s = Some (c, advance (length (wire16 c)) s)"
    by (rule get_c32_written [OF Cons.prems(2) un u(1)])
  have "s_check_rem s 2"
    using Cons.prems(2) un by (simp add: s_check_rem_wf length_wire16)
  then have "in_utf16_loop t s rv out = in_utf16_loop t (advance (length (wire16 c)) s)
      (rv + length (utf_char32_to_utf8 c)) (put_utf8 (utf_char32_to_utf8 c) out)"
    using get u(2) by (subst in_utf16_loop.simps) (auto simp: Let_def)
  moreover have "in_wf (advance (length (wire16 c)) s)" "unread (advance (length (wire16 c)) s) = wire16s cs @ rest"
    using Cons.prems(2) un by (auto intro!: advance_wf simp: unread_advance)
  ultimately show ?case
    using Cons.IH [of "advance (length (wire16 c)) s"] Cons.prems(1) by (simp add: put_chars_def add.assoc)
qed (simp add: put_chars_def)


lemma fixed_text:
  assumes cs: "\<forall>c \<in> set cs. unicode c" and r: "in_wf r" "unread r = wire16s cs @ rest" and n: "length (wire16s cs) = 2 * n"
  shows "in_utf16_le_fixed_as_utf8_proc r (int n) vn =
     Some (length (encode cs) + 1, if 0 < vn then encode (fitting vn cs) @ [0] else [], advance (2 * n) r)"
proof -
  have len: "s_end r = s_p r + 2 * n + length rest" "s_end r \<le> s_size r" "s_size r < 2 ^ 31"
    using r length_unread [OF r(1)] n by (auto simp: in_wf_def)
  then have oct: "c_int (c_uint (int n * 2)) = 2 * int n" by simp
  let ?r = "r\<lparr>s_end := s_p r + 2 * n\<rparr>"
  have e: "(if int (s_end r) - int (s_p r) > 2 * int n then int (s_p r) + 2 * int n else int (s_end r)) = int (s_p r + 2 * n)"
    using len by auto
  have wf: "in_wf ?r" using len by (auto simp: in_wf_def)
  have "unread ?r = take (2 * n) (unread r)"
    using len by (simp add: unread_def take_drop min_def add.commute)
  then have un: "unread ?r = wire16s cs @ []" using r(2) n by simp
  have wf2: "in_wf (advance (2 * n) ?r)" "unread (advance (2 * n) ?r) = []"
    using advance_wf [OF wf, of "2 * n"] unread_advance [OF wf, of "2 * n"] un n by simp_all
  have "in_utf16_loop False ?r 0 ([], vn) = in_utf16_loop False (advance (2 * n) ?r) (length (encode cs)) (put_chars cs ([], vn))"
    using in_utf16_loop_text [of cs False ?r "[]" 0 "([], vn)"] cs wf un n by simp
  also have "\<dots> = Some (length (encode cs), put_chars cs ([], vn), advance (2 * n) ?r)"
    using wf2 by (subst in_utf16_loop.simps) (simp add: s_check_rem_wf)
  finally show ?thesis
    using put_chars_fitting [OF cs, of "[]" vn] e
      nat_int [of "s_p r + 2 * n"]
    by (simp add: in_utf16_le_fixed_as_utf8_proc_def Let_def oct advance_def)
qed

lemma terminated_text:
  assumes cs: "\<forall>c \<in> set cs. text_char c" and r: "in_wf r" "unread r = wire16s cs @ [0, 0] @ rest"
  shows "in_utf16_le_terminated_as_utf8 r vn =
     Some (length (encode cs) + 1, if 0 < vn then encode (fitting vn cs) @ [0] else [], advance (length (wire16s cs) + 2) r)"
proof -
  let ?r = "advance (length (wire16s cs)) r"
  have u: "\<forall>c \<in> set cs. unicode c \<and> (True \<longrightarrow> c \<noteq> 0)" "\<forall>c \<in> set cs. unicode c" using cs by (auto simp: text_char_def)
  have wf: "in_wf ?r" "unread ?r = [0, 0] @ rest"
    using r by (auto intro!: advance_wf simp: unread_advance)
  have "le_bytes 2 0 = [0, 0]" by (simp add: numeral_2_eq_2)
  then have z: "unicode 0" "wire16 0 = [0, 0]"
    using unicode_small [of 0] by (simp_all add: wire16_def)
  have "get_c32_from_stream ?r = Some (0, advance 2 ?r)"
    using get_c32_written [OF wf(1), of 0 rest] wf(2) z by simp
  moreover have "s_check_rem ?r 2" using wf by (simp add: s_check_rem_wf)
  ultimately have "in_utf16_loop True ?r m out = Some (m, out, advance 2 ?r)" for m out
    by (subst in_utf16_loop.simps) simp
  then have "in_utf16_loop True r 0 ([], vn) = Some (length (encode cs), put_chars cs ([], vn), advance (length (wire16s cs) + 2) r)"
    using in_utf16_loop_text [OF u(1) r, of 0 "([], vn)"] by simp
  then show ?thesis
    using put_chars_fitting [OF u(2), of "[]" vn] by (simp add: in_utf16_le_terminated_as_utf8_def)
qed

subsection \<open>The claim\<close>

text \<open>
  C30. Strings sent in UTF-16: a text written to a stream with enough room takes exactly the number of
  words announced by \<^verbatim>\<open>utf8_as_utf16_word_count\<close>, and whoever reads them back, by that
  number of words or up to a terminator, gets the text: the result is its length with terminator
  whatever the buffer, and the buffer holds as many whole characters as fit, terminated. The
  stream is left behind the last character read.
\<close>

theorem utf16_roundtrip:
  assumes "\<forall>c \<in> set cs. text_char c" and "out_wf s" and "s_p s + length (wire16s cs) \<le> s_size s"
  shows "\<exists>s' bytes n. out_utf8_as_utf16_le_proc s (encode cs @ tail) (Some (length (encode cs))) = Some s' \<and>
     written s' = written s @ bytes \<and> length bytes = 2 * n \<and>
     utf8_as_utf16_word_count (encode cs @ tail) (length (encode cs)) = Some n \<and>
     (\<forall>r rest vn. in_wf r \<and> unread r = bytes @ rest \<longrightarrow>
       (\<exists>k. in_utf16_le_fixed_as_utf8_proc r (int n) vn =
          Some (length (encode cs) + 1, if 0 < vn then encode (take k cs) @ [0] else [], advance (2 * n) r) \<and>
        (0 < vn \<longrightarrow> length (encode (take k cs)) < vn) \<and> (k < length cs \<longrightarrow> vn \<le> length (encode (take (Suc k) cs))))) \<and>
     (\<forall>r rest. in_wf r \<and> unread r = bytes @ [0, 0] @ rest \<longrightarrow>
       in_utf16_le_terminated_as_utf8 r (length (encode cs) + 1) =
         Some (length (encode cs) + 1, encode cs @ [0], advance (2 * n + 2) r))"
proof -
  have u: "\<forall>c \<in> set cs. unicode c" using assms(1) by (simp add: text_char_def)
  define n where "n = (\<Sum>c\<leftarrow>cs. if c \<ge> 0x10000 then 2 else 1 :: nat)"
  have len: "length (wire16s cs) = 2 * n" by (simp add: length_wire16s n_def)
  obtain s' where s': "out_bytes (wire16s cs) s = Some s'" "written s' = written s @ wire16s cs"
    using out_bytes_written [OF assms(2,3)] by blast
  have cnt: "utf8_as_utf16_word_count (encode cs @ tail) (length (encode cs)) = Some n"
    using word_count_loop_text [OF u, of tail 0] by (simp add: utf8_as_utf16_word_count_def n_def)
  have fixed: "\<exists>k. in_utf16_le_fixed_as_utf8_proc r (int n) vn =
          Some (length (encode cs) + 1, if 0 < vn then encode (take k cs) @ [0] else [], advance (2 * n) r) \<and>
        (0 < vn \<longrightarrow> length (encode (take k cs)) < vn) \<and> (k < length cs \<longrightarrow> vn \<le> length (encode (take (Suc k) cs)))"
    if "in_wf r" "unread r = wire16s cs @ rest" for r rest vn
    using fixed_text [OF u that len, of vn] fitting_prefix [of vn cs] by metis
  have trm: "in_utf16_le_terminated_as_utf8 r (length (encode cs) + 1) =
         Some (length (encode cs) + 1, encode cs @ [0], advance (2 * n + 2) r)"
    if "in_wf r" "unread r = wire16s cs @ [0, 0] @ rest" for r rest
    using terminated_text [OF assms(1) that, of "length (encode cs) + 1"] len by (simp add: fitting_all)
  show ?thesis
    using s' len cnt fixed trm out_utf8_wire [OF u assms(2), of tail]
    by (intro exI [of _ s'] exI [of _ "wire16s cs"] exI [of _ n]) auto
qed

lemma utf16_roundtrip_witness:
  "\<exists>s'. out_utf8_as_utf16_le_proc (buf (replicate 8 0) 0 0)
     [0xf0, 0x9f, 0x98, 0x80, 0x41, 0] (Some 5) = Some s'"
proof -
  have enc: "utf_char32_to_utf8 0x1f600 = [0xf0, 0x9f, 0x98, 0x80]" "utf_char32_to_utf8 0x41 = [0x41]"
    and tc: "text_char 0x1f600" "text_char 0x41"
    by (simp_all add: utf_char32_to_utf8_def text_char_def unicode_def INVALID_UNICODE_def INVALID_UNICODE_800_TO_FFFF_def
        INVALID_UNICODE_10000_TO_1FFFFF_def IS_ARABIC_NON_CHARACTER_def IS_PLANE_END_NON_CHARACTER_def)
  let ?s = "(buf (replicate 8 0) 0 0)"
  have "\<forall>c \<in> set [0x1f600, 0x41]. text_char c" "out_wf ?s" "s_p ?s + length (wire16s [0x1f600, 0x41]) \<le> s_size ?s"
    using tc by (simp_all add: out_wf_def length_wire16)
  from utf16_roundtrip [OF this, of "[0]"] obtain s' where
    "out_utf8_as_utf16_le_proc ?s (encode [0x1f600, 0x41] @ [0]) (Some (length (encode [0x1f600, 0x41]))) = Some s'"
    by blast
  moreover have "length (encode [0x1f600, 0x41]) = 5" using enc by simp
  ultimately show ?thesis using enc(1,2) by (intro exI [of _ s']) (simp only: encode_def list.map concat.simps append.simps)
qed

end
