(* ===== verification/Xrdp_Sec.thy ===== *)
theory Xrdp_Sec
  imports Mcs_Props Monitors_Props Utf16
begin

text \<open>
  \<^verbatim>\<open>libxrdp/xrdp_sec.c\<close>, the part that reads the client's GCC data out of Connect-Initial: core data,
  security data, channels and monitors, block by block, into \<^verbatim>\<open>client_info\<close> and the MCS layer; and
  \<^verbatim>\<open>xrdp_mcs_incoming\<close>, the MCS connection sequence, which calls it. A reader of one block returns the
  stream too; the loop then sets the position to the end of the block.
\<close>

abbreviation (input) CRYPT_METHOD_NONE :: int where "CRYPT_METHOD_NONE \<equiv> 0"
abbreviation (input) CRYPT_METHOD_40BIT :: int where "CRYPT_METHOD_40BIT \<equiv> 1"
abbreviation (input) CRYPT_METHOD_128BIT :: int where "CRYPT_METHOD_128BIT \<equiv> 2"
abbreviation (input) CRYPT_METHOD_FIPS :: int where "CRYPT_METHOD_FIPS \<equiv> 0x10"
abbreviation (input) CRYPT_LEVEL_NONE :: int where "CRYPT_LEVEL_NONE \<equiv> 0"
abbreviation (input) CRYPT_LEVEL_LOW :: int where "CRYPT_LEVEL_LOW \<equiv> 1"
abbreviation (input) CRYPT_LEVEL_CLIENT_COMPATIBLE :: int where "CRYPT_LEVEL_CLIENT_COMPATIBLE \<equiv> 2"
abbreviation (input) CRYPT_LEVEL_HIGH :: int where "CRYPT_LEVEL_HIGH \<equiv> 3"
abbreviation (input) CRYPT_LEVEL_FIPS :: int where "CRYPT_LEVEL_FIPS \<equiv> 4"
abbreviation (input) RNS_UD_COLOR_4BPP :: int where "RNS_UD_COLOR_4BPP \<equiv> 0xCA00"
abbreviation (input) RNS_UD_COLOR_8BPP :: int where "RNS_UD_COLOR_8BPP \<equiv> 0xCA01"
abbreviation (input) RNS_UD_COLOR_16BPP_555 :: int where "RNS_UD_COLOR_16BPP_555 \<equiv> 0xCA02"
abbreviation (input) RNS_UD_COLOR_16BPP_565 :: int where "RNS_UD_COLOR_16BPP_565 \<equiv> 0xCA03"
abbreviation (input) RNS_UD_COLOR_24BPP :: int where "RNS_UD_COLOR_24BPP \<equiv> 0xCA04"
abbreviation (input) RNS_UD_32BPP_SUPPORT :: int where "RNS_UD_32BPP_SUPPORT \<equiv> 8"
abbreviation (input) RNS_UD_CS_WANT_32BPP_SESSION :: int where "RNS_UD_CS_WANT_32BPP_SESSION \<equiv> 2"
abbreviation (input) RNS_UD_CS_SUPPORT_DYNVC_GFX_PROTOCOL :: int where "RNS_UD_CS_SUPPORT_DYNVC_GFX_PROTOCOL \<equiv> 0x100"
abbreviation (input) SEC_TAG_CLI_INFO :: int where "SEC_TAG_CLI_INFO \<equiv> 0xc001"
abbreviation (input) SEC_TAG_CLI_CRYPT :: int where "SEC_TAG_CLI_CRYPT \<equiv> 0xc002"
abbreviation (input) SEC_TAG_CLI_CHANNELS :: int where "SEC_TAG_CLI_CHANNELS \<equiv> 0xc003"
abbreviation (input) SEC_TAG_CLI_MONITOR :: int where "SEC_TAG_CLI_MONITOR \<equiv> 0xc005"
abbreviation (input) SEC_TAG_CLI_MONITOR_EX :: int where "SEC_TAG_CLI_MONITOR_EX \<equiv> 0xc008"
abbreviation (input) MAX_STATIC_CHANNELS :: int where "MAX_STATIC_CHANNELS \<equiv> 31"
abbreviation (input) MCS_USERCHANNEL_BASE :: int where "MCS_USERCHANNEL_BASE \<equiv> 1001"

text \<open>The fields of \<^verbatim>\<open>struct xrdp_client_info\<close> this code reads or writes.\<close>

record client_info =
  ci_bpp :: int
  ci_max_bpp :: int
  ci_client_name :: "byte list"
  ci_build :: int
  ci_keylayout :: int
  ci_keyboard_type :: int
  ci_keyboard_subtype :: int
  ci_channels_allowed :: int
  ci_multimon :: int
  ci_display_sizes :: display_size_description
  ci_mcs_connection_type :: int
  ci_mcs_early_capability_flags :: int
  ci_session_physical_width :: int
  ci_session_physical_height :: int
  ci_gfx :: int

text \<open>The security layer with the layers below it that it reaches.\<close>

record xrdp_sec =
  sec_client_info :: client_info
  sec_security :: sec_keys
  sec_mcs_layer :: xrdp_mcs
  sec_iso_layer :: xrdp_iso

subsection \<open>Core data\<close>

definition color_depth_bpp :: "int \<Rightarrow> client_info \<Rightarrow> client_info" where
  "color_depth_bpp depth ci =
     (if depth = RNS_UD_COLOR_4BPP then ci\<lparr>ci_bpp := 4\<rparr>
      else if depth = RNS_UD_COLOR_8BPP then ci\<lparr>ci_bpp := 8\<rparr>
      else ci)"

definition post_beta2_bpp :: "int \<Rightarrow> client_info \<Rightarrow> client_info" where
  "post_beta2_bpp depth ci =
     (if depth = RNS_UD_COLOR_4BPP then ci\<lparr>ci_bpp := 4\<rparr>
      else if depth = RNS_UD_COLOR_8BPP then ci\<lparr>ci_bpp := 8\<rparr>
      else if depth = RNS_UD_COLOR_16BPP_555 then ci\<lparr>ci_bpp := 15\<rparr>
      else if depth = RNS_UD_COLOR_16BPP_565 then ci\<lparr>ci_bpp := 16\<rparr>
      else if depth = RNS_UD_COLOR_24BPP then ci\<lparr>ci_bpp := 24\<rparr>
      else ci)"

definition core_required :: "client_info \<Rightarrow> stream \<Rightarrow> (client_info \<times> stream) option" where
  "core_required ci s =
     do { (version, s) \<leftarrow> in_uint32_le s;
          (session_width, s) \<leftarrow> in_uint16_le s;
          (session_height, s) \<leftarrow> in_uint16_le s;
          (colorDepth, s) \<leftarrow> in_uint16_le s;
          let ci = ci\<lparr>ci_display_sizes := (ci_display_sizes ci)\<lparr>ds_session_width := session_width, ds_session_height := session_height\<rparr>\<rparr>;
          let ci = color_depth_bpp colorDepth ci;
          let s = in_uint8s 2 s;
          (keylayout, s) \<leftarrow> in_uint32_le s;
          (build, s) \<leftarrow> in_uint32_le s;
          (needed, client_name, s) \<leftarrow> in_utf16_le_fixed_as_utf8_proc s 15 46;
          let s = in_uint8s 2 s;
          (keyboard_type, s) \<leftarrow> in_uint32_le s;
          (keyboard_subtype, s) \<leftarrow> in_uint32_le s;
          let s = in_uint8s 64 (in_uint8s 4 s);
          Some (ci\<lparr>ci_keylayout := c_int keylayout, ci_build := c_int build, ci_client_name := client_name,
                   ci_keyboard_type := c_int keyboard_type, ci_keyboard_subtype := c_int keyboard_subtype\<rparr>, s) }"

text \<open>
  The optional fields: each is read if the stream has room for it, and the first that is missing
  ends the block. The room is the rest of the stream, not of the block.
\<close>

definition optional_field ::
  "int \<Rightarrow> (client_info \<Rightarrow> stream \<Rightarrow> (client_info \<times> stream) option) \<Rightarrow> client_info \<Rightarrow> stream \<Rightarrow> (client_info \<times> stream) option" where
  "optional_field n rest ci s = (if s_check_rem s n then rest ci s else Some (ci, s))"

definition want_gfx :: "bool \<Rightarrow> int \<Rightarrow> client_info \<Rightarrow> client_info" where
  "want_gfx rfxcodec earlyCapabilityFlags ci =
     (if rfxcodec \<and> earlyCapabilityFlags AND RNS_UD_CS_SUPPORT_DYNVC_GFX_PROTOCOL \<noteq> 0
      then if ci_bpp ci < 32 then ci
           else if ci_max_bpp ci > 0 \<and> ci_max_bpp ci < 32 then ci
           else ci\<lparr>ci_gfx := 1\<rparr>
      else ci)"

definition physical_dimensions :: "client_info \<Rightarrow> client_info" where
  "physical_dimensions ci =
     (if ci_session_physical_width ci < 10 \<or> ci_session_physical_width ci > 10000
         \<or> ci_session_physical_height ci < 10 \<or> ci_session_physical_height ci > 10000
      then ci\<lparr>ci_session_physical_width := 0, ci_session_physical_height := 0\<rparr> else ci)"

definition core_sizes :: "client_info \<Rightarrow> stream \<Rightarrow> (client_info \<times> stream) option" where
  "core_sizes ci s =
     do { (width, s) \<leftarrow> in_uint32_le s;
          let ci = ci\<lparr>ci_session_physical_width := width\<rparr>;
          if \<not> s_check_rem s 4 then Some (ci\<lparr>ci_session_physical_width := 0\<rparr>, s)
          else do { (height, s) \<leftarrow> in_uint32_le s;
                    let ci = physical_dimensions (ci\<lparr>ci_session_physical_height := height\<rparr>);
                    optional_field 2 (\<lambda>ci s. Some (ci, in_uint8s 2 s)) ci s } }"

definition core_connection_type :: "client_info \<Rightarrow> stream \<Rightarrow> (client_info \<times> stream) option" where
  "core_connection_type ci s =
     do { (connection_type, s) \<leftarrow> in_uint8 s;
          optional_field 1 (\<lambda>ci s.
            optional_field 4 (\<lambda>ci s.
              optional_field 4 core_sizes ci (in_uint8s 4 s)) ci (in_uint8s 1 s))
            (ci\<lparr>ci_mcs_connection_type := connection_type\<rparr>) s }"

definition core_capabilities :: "bool \<Rightarrow> int \<Rightarrow> client_info \<Rightarrow> stream \<Rightarrow> (client_info \<times> stream) option" where
  "core_capabilities rfxcodec supportedColorDepths ci s =
     do { (earlyCapabilityFlags, s) \<leftarrow> in_uint16_le s;
          let ci = ci\<lparr>ci_mcs_early_capability_flags := earlyCapabilityFlags\<rparr>;
          let ci = (if earlyCapabilityFlags AND RNS_UD_CS_WANT_32BPP_SESSION \<noteq> 0 \<and> supportedColorDepths AND RNS_UD_32BPP_SUPPORT \<noteq> 0
                    then ci\<lparr>ci_bpp := 32\<rparr> else ci);
          let ci = want_gfx rfxcodec earlyCapabilityFlags ci;
          optional_field 64 (\<lambda>ci s. optional_field 1 core_connection_type ci (in_uint8s 64 s)) ci s }"

definition core_depths :: "bool \<Rightarrow> client_info \<Rightarrow> stream \<Rightarrow> (client_info \<times> stream) option" where
  "core_depths rfxcodec ci s =
     do { (highColorDepth, s) \<leftarrow> in_uint16_le s;
          let ci = ci\<lparr>ci_bpp := highColorDepth\<rparr>;
          optional_field 2 (\<lambda>ci s.
            do { (supportedColorDepths, s) \<leftarrow> in_uint16_le s;
                 optional_field 2 (core_capabilities rfxcodec supportedColorDepths) ci s }) ci s }"

definition core_optional :: "bool \<Rightarrow> client_info \<Rightarrow> stream \<Rightarrow> (client_info \<times> stream) option" where
  "core_optional rfxcodec ci s =
     do { (postBeta2ColorDepth, s) \<leftarrow> in_uint16_le s;
          optional_field 2 (\<lambda>ci s.
            optional_field 4 (\<lambda>ci s.
              optional_field 2 (core_depths rfxcodec) ci (in_uint8s 4 s)) ci (in_uint8s 2 s))
            (post_beta2_bpp postBeta2ColorDepth ci) s }"

definition xrdp_sec_process_mcs_data_CS_CORE ::
  "bool \<Rightarrow> xrdp_sec \<Rightarrow> stream \<Rightarrow> (int \<times> xrdp_sec \<times> stream) option" where
  "xrdp_sec_process_mcs_data_CS_CORE rfxcodec self s =
     (let ci = (sec_client_info self)\<lparr>ci_session_physical_width := 0, ci_session_physical_height := 0\<rparr>
      in if \<not> s_check_rem s 128 then Some (1, self\<lparr>sec_client_info := ci\<rparr>, s)
         else do { (ci, s) \<leftarrow> core_required ci s;
                   (ci, s) \<leftarrow> optional_field 2 (core_optional rfxcodec) ci s;
                   Some (0, self\<lparr>sec_client_info := ci\<rparr>, s) })"

subsection \<open>Security data\<close>

definition choose_security :: "int \<Rightarrow> int \<Rightarrow> sec_keys \<Rightarrow> sec_keys" where
  "choose_security selected_protocol client_method k =
     (let supports = (\<lambda>m l. crypt_method k AND m \<noteq> 0 \<and> crypt_level k = l \<and> client_method AND m \<noteq> 0)
      in if selected_protocol = PROTOCOL_SSL then k
         else if supports CRYPT_METHOD_FIPS CRYPT_LEVEL_FIPS then k\<lparr>crypt_method := CRYPT_METHOD_FIPS, crypt_level := CRYPT_LEVEL_FIPS\<rparr>
         else if supports CRYPT_METHOD_128BIT CRYPT_LEVEL_HIGH then k\<lparr>crypt_method := CRYPT_METHOD_128BIT, crypt_level := CRYPT_LEVEL_HIGH\<rparr>
         else if supports CRYPT_METHOD_40BIT CRYPT_LEVEL_CLIENT_COMPATIBLE
              then k\<lparr>crypt_method := CRYPT_METHOD_40BIT, crypt_level := CRYPT_LEVEL_CLIENT_COMPATIBLE\<rparr>
         else if supports CRYPT_METHOD_40BIT CRYPT_LEVEL_LOW then k\<lparr>crypt_method := CRYPT_METHOD_40BIT, crypt_level := CRYPT_LEVEL_LOW\<rparr>
         else if crypt_level k = CRYPT_LEVEL_NONE \<and> client_method = CRYPT_METHOD_NONE
              then k\<lparr>crypt_method := CRYPT_METHOD_NONE, crypt_level := CRYPT_LEVEL_NONE\<rparr>
         else k)"

definition xrdp_sec_process_mcs_data_CS_SECURITY :: "xrdp_sec \<Rightarrow> stream \<Rightarrow> (int \<times> xrdp_sec \<times> stream) option" where
  "xrdp_sec_process_mcs_data_CS_SECURITY self s =
     (if \<not> s_check_rem s 4 then Some (1, self, s)
      else do { (client_method, s) \<leftarrow> in_uint32_le s;
                Some (0, self\<lparr>sec_security := choose_security (selectedProtocol (sec_iso_layer self)) (c_int client_method) (sec_security self)\<rparr>, s) })"

subsection \<open>Channels\<close>

text \<open>A definition's own count of channels gives the ids, and what was added stays when a later one is cut short.\<close>

fun read_channels :: "nat \<Rightarrow> int \<Rightarrow> xrdp_mcs \<Rightarrow> stream \<Rightarrow> (int \<times> xrdp_mcs \<times> stream) option" where
  "read_channels 0 next_mcs_channel_id mcs s =
     Some (0, mcs\<lparr>m_chanid := next_mcs_channel_id, m_userid := next_mcs_channel_id - MCS_USERCHANNEL_BASE\<rparr>, s)"
| "read_channels (Suc n) next_mcs_channel_id mcs s =
     (if \<not> s_check_rem s 12 then Some (1, mcs, s)
      else do { (name, s) \<leftarrow> in_uint8a 8 s;
                (flags, s) \<leftarrow> in_uint32_le s;
                let channel_item = \<lparr>ch_name = take 7 name @ [0], ch_flags = c_int flags, ch_chanid = next_mcs_channel_id, ch_disabled = False\<rparr>;
                read_channels n (next_mcs_channel_id + 1) (mcs\<lparr>m_channel_list := m_channel_list mcs @ [channel_item]\<rparr>) s })"

definition xrdp_sec_process_mcs_data_channels :: "xrdp_sec \<Rightarrow> stream \<Rightarrow> (int \<times> xrdp_sec \<times> stream) option" where
  "xrdp_sec_process_mcs_data_channels self s =
     (if ci_channels_allowed (sec_client_info self) = 0 then Some (0, self, s)
      else if \<not> s_check_rem s 4 then Some (1, self, s)
      else do { (num_channels, s) \<leftarrow> in_uint32_le s;
                let num_channels = c_int num_channels;
                if num_channels > MAX_STATIC_CHANNELS then Some (1, self, s)
                else do { (rv, mcs, s) \<leftarrow> read_channels (nat num_channels) (MCS_GLOBAL_CHANNEL + 1) (sec_mcs_layer self) s;
                          Some (rv, self\<lparr>sec_mcs_layer := mcs\<rparr>, s) } })"

subsection \<open>Monitors\<close>

definition xrdp_sec_process_mcs_data_monitors :: "xrdp_sec \<Rightarrow> stream \<Rightarrow> (int \<times> xrdp_sec \<times> stream) option" where
  "xrdp_sec_process_mcs_data_monitors self s =
     (if ci_multimon (sec_client_info self) \<noteq> 1 then Some (0, self, s)
      else if \<not> s_check_rem s 4 then Some (SEC_PROCESS_MONITORS_ERR, self, s)
      else do { (flags, s) \<leftarrow> in_uint32_le s;
                if flags \<noteq> 0 then Some (SEC_PROCESS_MONITORS_ERR, self, s)
                else do { (error, description, s) \<leftarrow> libxrdp_process_monitor_stream False s (Some zero_description);
                          d \<leftarrow> description;
                          Some (error, if error = 0 then self\<lparr>sec_client_info := (sec_client_info self)\<lparr>ci_display_sizes := d\<rparr>\<rparr> else self, s) } })"

definition xrdp_sec_process_mcs_data_monitors_ex :: "xrdp_sec \<Rightarrow> stream \<Rightarrow> (int \<times> xrdp_sec \<times> stream) option" where
  "xrdp_sec_process_mcs_data_monitors_ex self s =
     (if ci_multimon (sec_client_info self) \<noteq> 1 then Some (0, self, s)
      else if \<not> s_check_rem s 4 then Some (SEC_PROCESS_MONITORS_ERR, self, s)
      else do { (flags, s) \<leftarrow> in_uint32_le s;
                if flags \<noteq> 0 then Some (SEC_PROCESS_MONITORS_ERR, self, s)
                else do { (error, description, s) \<leftarrow> libxrdp_process_monitor_ex_stream s (Some (ci_display_sizes (sec_client_info self)));
                          d \<leftarrow> description;
                          Some (error, self\<lparr>sec_client_info := (sec_client_info self)\<lparr>ci_display_sizes := d\<rparr>\<rparr>, s) } })"

subsection \<open>Block by block\<close>

definition process_block :: "bool \<Rightarrow> int \<Rightarrow> xrdp_sec \<Rightarrow> stream \<Rightarrow> (int \<times> xrdp_sec \<times> stream) option" where
  "process_block rfxcodec tag self s =
     (if tag = SEC_TAG_CLI_INFO then xrdp_sec_process_mcs_data_CS_CORE rfxcodec self s
      else if tag = SEC_TAG_CLI_CRYPT then xrdp_sec_process_mcs_data_CS_SECURITY self s
      else if tag = SEC_TAG_CLI_CHANNELS then xrdp_sec_process_mcs_data_channels self s
      else if tag = SEC_TAG_CLI_MONITOR then xrdp_sec_process_mcs_data_monitors self s
      else if tag = SEC_TAG_CLI_MONITOR_EX then xrdp_sec_process_mcs_data_monitors_ex self s
      else Some (0, self, s))"
subsection \<open>The loop\<close>

text \<open>Reading leaves the data as they are, so the loop moves on in the same buffer.\<close>

lemma in_keeps_data:
  "in_bytes n s = Some (bs, s') \<Longrightarrow> s_data s' = s_data s"
  "in_uint8 s = Some (v, s') \<Longrightarrow> s_data s' = s_data s"
  "in_uint16_le s = Some (v, s') \<Longrightarrow> s_data s' = s_data s"
  "in_uint32_le s = Some (v, s') \<Longrightarrow> s_data s' = s_data s"
  "in_uint8a n s = Some (bs, s') \<Longrightarrow> s_data s' = s_data s"
  by (auto simp: in_defs in_bytes_def Option.bind_eq_Some_conv split: if_split_asm)

lemma in_uint8s_data [simp]: "s_data (in_uint8s n s) = s_data s"
  by (simp add: in_uint8s_def)

lemma in_utf16_loop_data: "in_utf16_loop t s rv out = Some (rv', out', s') \<Longrightarrow> s_data s' = s_data s"
proof (induction t s rv out rule: in_utf16_loop.induct)
  case (1 t s rv out)
  then show ?case
    by (subst (asm) in_utf16_loop.simps) (auto simp: Let_def split: option.splits if_split_asm dest!: get_c32_advances)
qed

lemma in_utf16_data: "in_utf16_le_fixed_as_utf8_proc s n vn = Some (rv, out, s') \<Longrightarrow> s_data s' = s_data s"
  by (auto simp: in_utf16_le_fixed_as_utf8_proc_def Let_def Option.bind_eq_Some_conv dest!: in_utf16_loop_data split: if_split_asm)

lemma core_required_data: "core_required ci s = Some (ci', s') \<Longrightarrow> s_data s' = s_data s"
  by (auto simp: core_required_def Let_def Option.bind_eq_Some_conv dest!: in_keeps_data in_utf16_data)

lemma core_sizes_data: "core_sizes ci s = Some (ci', s') \<Longrightarrow> s_data s' = s_data s"
  by (auto simp: core_sizes_def optional_field_def Let_def Option.bind_eq_Some_conv dest!: in_keeps_data split: if_split_asm)

lemma core_connection_type_data: "core_connection_type ci s = Some (ci', s') \<Longrightarrow> s_data s' = s_data s"
  by (auto simp: core_connection_type_def optional_field_def Option.bind_eq_Some_conv dest!: in_keeps_data core_sizes_data split: if_split_asm)

lemma core_capabilities_data: "core_capabilities r d ci s = Some (ci', s') \<Longrightarrow> s_data s' = s_data s"
  by (auto simp: core_capabilities_def optional_field_def Let_def Option.bind_eq_Some_conv
      dest!: in_keeps_data core_connection_type_data split: if_split_asm)

lemma core_depths_data: "core_depths r ci s = Some (ci', s') \<Longrightarrow> s_data s' = s_data s"
  by (auto simp: core_depths_def optional_field_def Let_def Option.bind_eq_Some_conv dest!: in_keeps_data core_capabilities_data split: if_split_asm)

lemma core_optional_data: "core_optional r ci s = Some (ci', s') \<Longrightarrow> s_data s' = s_data s"
  by (auto simp: core_optional_def optional_field_def Let_def Option.bind_eq_Some_conv dest!: in_keeps_data core_depths_data split: if_split_asm)

lemma read_channels_data: "read_channels n i mcs s = Some (rv, mcs', s') \<Longrightarrow> s_data s' = s_data s"
proof (induction n arbitrary: i mcs s rv mcs' s')
  case (Suc n)
  from Suc.prems show ?case
    by (auto simp: Let_def Option.bind_eq_Some_conv split: if_split_asm dest!: Suc.IH in_keeps_data)
qed simp

lemma read_monitors_data: "read_monitors False n s = Some (rv, ms, s') \<Longrightarrow> s_data s' = s_data s"
proof (induction n arbitrary: s rv ms s')
  case (Suc n)
  from Suc.prems show ?case
    by (auto simp: read_monitor_def_def Let_def Option.bind_eq_Some_conv split: if_split_asm dest!: Suc.IH in_keeps_data)
qed simp

lemma read_attributes_data: "read_attributes i n a ms s = Some (rv, ms', s') \<Longrightarrow> s_data s' = s_data s"
proof (induction n arbitrary: i ms s rv ms' s')
  case (Suc n)
  from Suc.prems show ?case
    by (auto simp: Let_def Option.bind_eq_Some_conv split: if_split_asm dest!: Suc.IH in_keeps_data)
qed simp

lemma let_pair: "(case p of (rv, d) \<Rightarrow> Some (rv, Some d, s)) = Some (fst p, Some (snd p), s)"
  by (simp add: split_def)

lemma monitor_streams_data:
  "libxrdp_process_monitor_stream False s d = Some (rv, d', s') \<Longrightarrow> s_data s' = s_data s"
  "libxrdp_process_monitor_ex_stream s d = Some (rv, d', s') \<Longrightarrow> s_data s' = s_data s"
  by (auto simp: libxrdp_process_monitor_stream_def libxrdp_process_monitor_ex_stream_def Let_def let_pair Option.bind_eq_Some_conv
      split: option.splits if_split_asm dest!: in_keeps_data read_monitors_data read_attributes_data)

lemma process_block_data:
  assumes "process_block rfxcodec tag self s = Some (rv, self', s')"
  shows "s_data s' = s_data s"
proof -
  have core: "s_data s' = s_data s" if "xrdp_sec_process_mcs_data_CS_CORE rfxcodec self s = Some (rv, self', s')"
    using that
    by (auto simp: xrdp_sec_process_mcs_data_CS_CORE_def optional_field_def Let_def Option.bind_eq_Some_conv split: if_split_asm
        dest!: core_required_data core_optional_data)
  have rest: "s_data s' = s_data s" if "xrdp_sec_process_mcs_data_CS_SECURITY self s = Some (rv, self', s') \<or>
      xrdp_sec_process_mcs_data_channels self s = Some (rv, self', s') \<or> xrdp_sec_process_mcs_data_monitors self s = Some (rv, self', s') \<or>
      xrdp_sec_process_mcs_data_monitors_ex self s = Some (rv, self', s')"
    using that
    by (auto simp: xrdp_sec_process_mcs_data_CS_SECURITY_def xrdp_sec_process_mcs_data_channels_def xrdp_sec_process_mcs_data_monitors_def
        xrdp_sec_process_mcs_data_monitors_ex_def Let_def Option.bind_eq_Some_conv split: if_split_asm
        dest!: in_keeps_data read_channels_data monitor_streams_data)
  show ?thesis using assms core rest by (auto simp: process_block_def split: if_split_asm)
qed

text \<open>A header that does not fit ends the loop without an error.\<close>

function process_blocks :: "bool \<Rightarrow> xrdp_sec \<Rightarrow> stream \<Rightarrow> (int \<times> xrdp_sec \<times> stream) option" where
  "process_blocks rfxcodec self s =
     (if \<not> s_check_rem s 4 then Some (0, self, s)
      else case (do { let hold_p = s_p s;
                      (tag, s) \<leftarrow> in_uint16_le s;
                      (size, s) \<leftarrow> in_uint16_le s;
                      if size < 4 then Some (0, True, self, s)
                      else if \<not> s_check_rem s (size - 4) then Some (0, True, self, s)
                      else do { (rv, self, s) \<leftarrow> process_block rfxcodec tag self s;
                                if rv \<noteq> 0 then Some (1, True, self, s)
                                else Some (0, False, self, s\<lparr>s_p := hold_p + nat size\<rparr>) } })
           of None \<Rightarrow> None
            | Some (rv, ended, self, s) \<Rightarrow> if ended then Some (rv, self, s) else process_blocks rfxcodec self s)"
  by pat_completeness auto
termination
proof (relation "measure (\<lambda>(r, self, s). s_size s - s_p s)", simp)
  fix rfxcodec :: bool and self :: xrdp_sec and s :: stream and x a x1 b x2 c d
  assume more: "\<not> \<not> s_check_rem s 4"
    and round: "(do { let hold_p = s_p s;
                      (tag, s) \<leftarrow> in_uint16_le s;
                      (size, s) \<leftarrow> in_uint16_le s;
                      if size < 4 then Some (0, True, self, s)
                      else if \<not> s_check_rem s (size - 4) then Some (0, True, self, s)
                      else do { (rv, self, s) \<leftarrow> process_block rfxcodec tag self s;
                                if rv \<noteq> 0 then Some (1, True, self, s)
                                else Some (0, False, self, s\<lparr>s_p := hold_p + nat size\<rparr>) } }) = Some x"
    and x: "(a, x1) = x" "(b, x2) = x1" "(c, d) = x2" "\<not> b"
  have "s_data d = s_data s \<and> s_p s + 4 \<le> s_size s \<and> s_p s + 4 \<le> s_p d"
    using round x by (auto simp: Let_def Option.bind_eq_Some_conv split: if_split_asm dest!: process_block_data in_uint16_SomeD)
  then show "((rfxcodec, c, d), rfxcodec, self, s) \<in> measure (\<lambda>(r, self, s). s_size s - s_p s)" by auto
qed

declare process_blocks.simps [simp del]

definition limit_bpp :: "client_info \<Rightarrow> client_info" where
  "limit_bpp ci = (if ci_max_bpp ci > 0 \<and> ci_bpp ci > ci_max_bpp ci then ci\<lparr>ci_bpp := ci_max_bpp ci\<rparr> else ci)"

definition xrdp_sec_process_mcs_data :: "bool \<Rightarrow> xrdp_sec \<Rightarrow> (int \<times> xrdp_sec) option" where
  "xrdp_sec_process_mcs_data rfxcodec self =
     (let put = (\<lambda>s self. self\<lparr>sec_mcs_layer := (sec_mcs_layer self)\<lparr>m_client_mcs_data := s\<rparr>\<rparr>);
          s = (m_client_mcs_data (sec_mcs_layer self))\<lparr>s_p := 0\<rparr>
      in if \<not> s_check_rem s 23 then Some (1, put s self)
         else do { (rv, self, s) \<leftarrow> process_blocks rfxcodec self (in_uint8s 23 s);
                   if rv \<noteq> 0 then Some (1, put s self)
                   else Some (0, put (s\<lparr>s_p := 0\<rparr>) (self\<lparr>sec_client_info := limit_bpp (sec_client_info self)\<rparr>)) })"

subsection \<open>The MCS connection sequence\<close>

text \<open>
  \<^verbatim>\<open>xrdp_mcs_incoming\<close> of \<^verbatim>\<open>xrdp_mcs.c\<close>. The socket's answers to its three reads and two writes are
  taken from \<^verbatim>\<open>ios\<close> in the order in which they happen. A step that fails ends the sequence with 1.
\<close>

record incoming_answers =
  io_initial :: socket_answers
  io_response :: socket_answers
  io_edrq :: socket_answers
  io_aurq :: socket_answers
  io_aucf :: socket_answers

definition failed :: "int option \<Rightarrow> int option" where "failed rv = map_option (\<lambda>v. 1) rv"

definition xrdp_mcs_incoming ::
  "(nat \<Rightarrow> byte) \<Rightarrow> bool \<Rightarrow> incoming_answers \<Rightarrow> xrdp_sec \<Rightarrow> 'x trans \<Rightarrow> (int option \<times> byte list \<times> xrdp_sec \<times> 'x trans) option" where
  "xrdp_mcs_incoming junk rfxcodec ios sec tr =
     do { let put = (\<lambda>sec self. sec\<lparr>sec_mcs_layer := self\<rparr>);
          (rv, self, tr) \<leftarrow> xrdp_mcs_recv_connect_initial junk (io_initial ios) (sec_mcs_layer sec) tr;
          let sec = put sec self;
          if rv \<noteq> Some 0 then Some (failed rv, [], sec, tr)
          else do { (rv, sec) \<leftarrow> xrdp_sec_process_mcs_data rfxcodec sec;
          if rv \<noteq> 0 then Some (Some 1, [], sec, tr)
          else do { self \<leftarrow> xrdp_mcs_out_gcc_data junk (sec_security sec) (sec_iso_layer sec) (sec_mcs_layer sec);
                    let sec = put sec self;
                    (rv, response, tr) \<leftarrow> xrdp_mcs_send_connect_response junk (io_response ios) self tr;
          if rv \<noteq> Some 0 then Some (failed rv, response, sec, tr)
          else do { (rv, self, tr) \<leftarrow> xrdp_mcs_recv_edrq junk (io_edrq ios) self tr;
                    let sec = put sec self;
          if rv \<noteq> Some 0 then Some (failed rv, response, sec, tr)
          else do { (rv, self, tr) \<leftarrow> xrdp_mcs_recv_aurq junk (io_aurq ios) self tr;
                    let sec = put sec self;
          if rv \<noteq> Some 0 then Some (failed rv, response, sec, tr)
          else do { (rv, confirm, tr) \<leftarrow> xrdp_mcs_send_aucf junk (io_aucf ios) self tr;
          if rv \<noteq> Some 0 then Some (failed rv, response @ confirm, sec, tr)
          else Some (Some 0, response @ confirm, put sec (self\<lparr>m_expecting_channel_join_requests := True\<rparr>), tr) } } } } } }"

end
