(* ===== verification/Sec_Crypto.thy ===== *)
theory Sec_Crypto
  imports Rc4 Xrdp_Sec
begin

text \<open>
  \<^verbatim>\<open>libxrdp/xrdp_sec.c\<close>, standard RDP security: session keys, key updates, signatures and encryption, with RC4
  or, in FIPS mode, triple DES. The functions of OpenSSL are the parameter \<^verbatim>\<open>crypto\<close>: a digest over several
  transforms is the digest of their concatenation. RC4 and the modular exponentiation of \<^verbatim>\<open>ssl_calls.c\<close> are modelled.
\<close>

text \<open>What OpenSSL computes; \<^typ>\<open>'d\<close> is the state of a DES context.\<close>

record 'd crypto =
  sha1 :: "byte list \<Rightarrow> byte list"
  md5 :: "byte list \<Rightarrow> byte list"
  hmac_sha1 :: "byte list \<Rightarrow> byte list \<Rightarrow> byte list"
  des3_encrypt_info_create :: "byte list \<Rightarrow> byte list \<Rightarrow> 'd"
  des3_decrypt_info_create :: "byte list \<Rightarrow> byte list \<Rightarrow> 'd"
  des3_encrypt :: "'d \<Rightarrow> byte list \<Rightarrow> byte list \<times> 'd"
  des3_decrypt :: "'d \<Rightarrow> byte list \<Rightarrow> byte list \<times> 'd"

text \<open>The rest of the crypto fields of \<^verbatim>\<open>struct xrdp_sec\<close>; a NULL context is \<^term>\<open>None\<close>.\<close>

record 'd sec_crypt =
  client_random :: "byte list"
  client_crypt_random :: "byte list"
  decrypt_use_count :: int
  encrypt_use_count :: int
  decrypt_key :: "byte list"
  encrypt_key :: "byte list"
  decrypt_update_key :: "byte list"
  encrypt_update_key :: "byte list"
  rc4_key_len :: nat
  sign_key :: "byte list"
  decrypt_rc4_info :: rc4_data
  encrypt_rc4_info :: rc4_data
  pri_exp :: "byte list"
  fips_encrypt_key :: "byte list"
  fips_decrypt_key :: "byte list"
  fips_sign_key :: "byte list"
  encrypt_fips_info :: "'d option"
  decrypt_fips_info :: "'d option"
  sign_fips_info :: bool

definition g_pad_54 :: "byte list" where "g_pad_54 = replicate 40 54"
definition g_pad_92 :: "byte list" where "g_pad_92 = replicate 48 92"

definition g_fips_reverse_table :: "byte list" where
  "g_fips_reverse_table =
     [
      0x00, 0x80, 0x40, 0xc0, 0x20, 0xa0, 0x60, 0xe0, 0x10, 0x90, 0x50, 0xd0, 0x30, 0xb0, 0x70, 0xf0,
      0x08, 0x88, 0x48, 0xc8, 0x28, 0xa8, 0x68, 0xe8, 0x18, 0x98, 0x58, 0xd8, 0x38, 0xb8, 0x78, 0xf8,
      0x04, 0x84, 0x44, 0xc4, 0x24, 0xa4, 0x64, 0xe4, 0x14, 0x94, 0x54, 0xd4, 0x34, 0xb4, 0x74, 0xf4,
      0x0c, 0x8c, 0x4c, 0xcc, 0x2c, 0xac, 0x6c, 0xec, 0x1c, 0x9c, 0x5c, 0xdc, 0x3c, 0xbc, 0x7c, 0xfc,
      0x02, 0x82, 0x42, 0xc2, 0x22, 0xa2, 0x62, 0xe2, 0x12, 0x92, 0x52, 0xd2, 0x32, 0xb2, 0x72, 0xf2,
      0x0a, 0x8a, 0x4a, 0xca, 0x2a, 0xaa, 0x6a, 0xea, 0x1a, 0x9a, 0x5a, 0xda, 0x3a, 0xba, 0x7a, 0xfa,
      0x06, 0x86, 0x46, 0xc6, 0x26, 0xa6, 0x66, 0xe6, 0x16, 0x96, 0x56, 0xd6, 0x36, 0xb6, 0x76, 0xf6,
      0x0e, 0x8e, 0x4e, 0xce, 0x2e, 0xae, 0x6e, 0xee, 0x1e, 0x9e, 0x5e, 0xde, 0x3e, 0xbe, 0x7e, 0xfe,
      0x01, 0x81, 0x41, 0xc1, 0x21, 0xa1, 0x61, 0xe1, 0x11, 0x91, 0x51, 0xd1, 0x31, 0xb1, 0x71, 0xf1,
      0x09, 0x89, 0x49, 0xc9, 0x29, 0xa9, 0x69, 0xe9, 0x19, 0x99, 0x59, 0xd9, 0x39, 0xb9, 0x79, 0xf9,
      0x05, 0x85, 0x45, 0xc5, 0x25, 0xa5, 0x65, 0xe5, 0x15, 0x95, 0x55, 0xd5, 0x35, 0xb5, 0x75, 0xf5,
      0x0d, 0x8d, 0x4d, 0xcd, 0x2d, 0xad, 0x6d, 0xed, 0x1d, 0x9d, 0x5d, 0xdd, 0x3d, 0xbd, 0x7d, 0xfd,
      0x03, 0x83, 0x43, 0xc3, 0x23, 0xa3, 0x63, 0xe3, 0x13, 0x93, 0x53, 0xd3, 0x33, 0xb3, 0x73, 0xf3,
      0x0b, 0x8b, 0x4b, 0xcb, 0x2b, 0xab, 0x6b, 0xeb, 0x1b, 0x9b, 0x5b, 0xdb, 0x3b, 0xbb, 0x7b, 0xfb,
      0x07, 0x87, 0x47, 0xc7, 0x27, 0xa7, 0x67, 0xe7, 0x17, 0x97, 0x57, 0xd7, 0x37, 0xb7, 0x77, 0xf7,
      0x0f, 0x8f, 0x4f, 0xcf, 0x2f, 0xaf, 0x6f, 0xef, 0x1f, 0x9f, 0x5f, 0xdf, 0x3f, 0xbf, 0x7f, 0xff]"

definition g_fips_oddparity_table :: "byte list" where
  "g_fips_oddparity_table =
     [
      0x01, 0x01, 0x02, 0x02, 0x04, 0x04, 0x07, 0x07, 0x08, 0x08, 0x0b, 0x0b, 0x0d, 0x0d, 0x0e, 0x0e,
      0x10, 0x10, 0x13, 0x13, 0x15, 0x15, 0x16, 0x16, 0x19, 0x19, 0x1a, 0x1a, 0x1c, 0x1c, 0x1f, 0x1f,
      0x20, 0x20, 0x23, 0x23, 0x25, 0x25, 0x26, 0x26, 0x29, 0x29, 0x2a, 0x2a, 0x2c, 0x2c, 0x2f, 0x2f,
      0x31, 0x31, 0x32, 0x32, 0x34, 0x34, 0x37, 0x37, 0x38, 0x38, 0x3b, 0x3b, 0x3d, 0x3d, 0x3e, 0x3e,
      0x40, 0x40, 0x43, 0x43, 0x45, 0x45, 0x46, 0x46, 0x49, 0x49, 0x4a, 0x4a, 0x4c, 0x4c, 0x4f, 0x4f,
      0x51, 0x51, 0x52, 0x52, 0x54, 0x54, 0x57, 0x57, 0x58, 0x58, 0x5b, 0x5b, 0x5d, 0x5d, 0x5e, 0x5e,
      0x61, 0x61, 0x62, 0x62, 0x64, 0x64, 0x67, 0x67, 0x68, 0x68, 0x6b, 0x6b, 0x6d, 0x6d, 0x6e, 0x6e,
      0x70, 0x70, 0x73, 0x73, 0x75, 0x75, 0x76, 0x76, 0x79, 0x79, 0x7a, 0x7a, 0x7c, 0x7c, 0x7f, 0x7f,
      0x80, 0x80, 0x83, 0x83, 0x85, 0x85, 0x86, 0x86, 0x89, 0x89, 0x8a, 0x8a, 0x8c, 0x8c, 0x8f, 0x8f,
      0x91, 0x91, 0x92, 0x92, 0x94, 0x94, 0x97, 0x97, 0x98, 0x98, 0x9b, 0x9b, 0x9d, 0x9d, 0x9e, 0x9e,
      0xa1, 0xa1, 0xa2, 0xa2, 0xa4, 0xa4, 0xa7, 0xa7, 0xa8, 0xa8, 0xab, 0xab, 0xad, 0xad, 0xae, 0xae,
      0xb0, 0xb0, 0xb3, 0xb3, 0xb5, 0xb5, 0xb6, 0xb6, 0xb9, 0xb9, 0xba, 0xba, 0xbc, 0xbc, 0xbf, 0xbf,
      0xc1, 0xc1, 0xc2, 0xc2, 0xc4, 0xc4, 0xc7, 0xc7, 0xc8, 0xc8, 0xcb, 0xcb, 0xcd, 0xcd, 0xce, 0xce,
      0xd0, 0xd0, 0xd3, 0xd3, 0xd5, 0xd5, 0xd6, 0xd6, 0xd9, 0xd9, 0xda, 0xda, 0xdc, 0xdc, 0xdf, 0xdf,
      0xe0, 0xe0, 0xe3, 0xe3, 0xe5, 0xe5, 0xe6, 0xe6, 0xe9, 0xe9, 0xea, 0xea, 0xec, 0xec, 0xef, 0xef,
      0xf1, 0xf1, 0xf2, 0xf2, 0xf4, 0xf4, 0xf7, 0xf7, 0xf8, 0xf8, 0xfb, 0xfb, 0xfd, 0xfd, 0xfe, 0xfe]"

definition g_fips_ivec :: "byte list" where
  "g_fips_ivec = [0x12, 0x34, 0x56, 0x78, 0x90, 0xAB, 0xCD, 0xEF]"

subsection \<open>Key updates and RC4\<close>

definition xrdp_sec_make_40bit :: "byte list \<Rightarrow> byte list" where
  "xrdp_sec_make_40bit key = [0xd1, 0x26, 0x9e] @ drop 3 key"

definition xrdp_sec_update :: "'d crypto \<Rightarrow> byte list \<Rightarrow> byte list \<Rightarrow> nat \<Rightarrow> byte list option" where
  "xrdp_sec_update c key update_key key_len =
     do { let shasig = sha1 c (take key_len update_key @ g_pad_54 @ take key_len key);
          let key = md5 c (take key_len update_key @ g_pad_92 @ shasig);
          rc4_info \<leftarrow> ssl_rc4_set_key key key_len;
          let key = fst (ssl_rc4_crypt rc4_info (take key_len key)) @ drop key_len key;
          Some (if key_len = 8 then xrdp_sec_make_40bit key else key) }"

definition xrdp_sec_decrypt :: "'d crypto \<Rightarrow> 'd sec_crypt \<Rightarrow> byte list \<Rightarrow> (byte list \<times> 'd sec_crypt) option" where
  "xrdp_sec_decrypt c self data =
     do { self \<leftarrow> (if decrypt_use_count self = 4096
                  then do { key \<leftarrow> xrdp_sec_update c (decrypt_key self) (decrypt_update_key self) (rc4_key_len self);
                            info \<leftarrow> ssl_rc4_set_key key (rc4_key_len self);
                            Some (self\<lparr>decrypt_key := key, decrypt_rc4_info := info, decrypt_use_count := 0\<rparr>) }
                  else Some self);
          let (data, info) = ssl_rc4_crypt (decrypt_rc4_info self) data;
          Some (data, self\<lparr>decrypt_rc4_info := info, decrypt_use_count := decrypt_use_count self + 1\<rparr>) }"

definition xrdp_sec_encrypt :: "'d crypto \<Rightarrow> 'd sec_crypt \<Rightarrow> byte list \<Rightarrow> (byte list \<times> 'd sec_crypt) option" where
  "xrdp_sec_encrypt c self data =
     do { self \<leftarrow> (if encrypt_use_count self = 4096
                  then do { key \<leftarrow> xrdp_sec_update c (encrypt_key self) (encrypt_update_key self) (rc4_key_len self);
                            info \<leftarrow> ssl_rc4_set_key key (rc4_key_len self);
                            Some (self\<lparr>encrypt_key := key, encrypt_rc4_info := info, encrypt_use_count := 0\<rparr>) }
                  else Some self);
          let (data, info) = ssl_rc4_crypt (encrypt_rc4_info self) data;
          Some (data, self\<lparr>encrypt_rc4_info := info, encrypt_use_count := encrypt_use_count self + 1\<rparr>) }"

subsection \<open>Triple DES\<close>

text \<open>\<^verbatim>\<open>ssl_des3_encrypt\<close> and \<^verbatim>\<open>ssl_des3_decrypt\<close> leave the data alone when there is no context.\<close>

definition xrdp_sec_fips_decrypt :: "'d crypto \<Rightarrow> 'd sec_crypt \<Rightarrow> byte list \<Rightarrow> byte list \<times> 'd sec_crypt" where
  "xrdp_sec_fips_decrypt c self data =
     (let (data, info) = (case decrypt_fips_info self of
                            None \<Rightarrow> (data, None)
                          | Some d \<Rightarrow> let (data, d) = des3_decrypt c d data in (data, Some d))
      in (data, self\<lparr>decrypt_fips_info := info, decrypt_use_count := decrypt_use_count self + 1\<rparr>))"

definition xrdp_sec_fips_encrypt :: "'d crypto \<Rightarrow> 'd sec_crypt \<Rightarrow> byte list \<Rightarrow> byte list \<times> 'd sec_crypt" where
  "xrdp_sec_fips_encrypt c self data =
     (let (data, info) = (case encrypt_fips_info self of
                            None \<Rightarrow> (data, None)
                          | Some d \<Rightarrow> let (data, d) = des3_encrypt c d data in (data, Some d))
      in (data, self\<lparr>encrypt_fips_info := info, encrypt_use_count := encrypt_use_count self + 1\<rparr>))"

subsection \<open>Signatures\<close>

definition buf_out_uint32 :: "int \<Rightarrow> byte list" where "buf_out_uint32 value = le_bytes 4 value"

text \<open>Without an HMAC context the 20 bytes on the stack are whatever they were.\<close>

definition fips_hmac :: "'d crypto \<Rightarrow> (nat \<Rightarrow> byte) \<Rightarrow> 'd sec_crypt \<Rightarrow> byte list \<Rightarrow> int \<Rightarrow> byte list" where
  "fips_hmac c junk self data use_count =
     (if sign_fips_info self then hmac_sha1 c (fips_sign_key self) (data @ buf_out_uint32 use_count) else map junk [0..<20])"

definition xrdp_sec_fips_sign :: "'d crypto \<Rightarrow> (nat \<Rightarrow> byte) \<Rightarrow> 'd sec_crypt \<Rightarrow> nat \<Rightarrow> byte list \<Rightarrow> byte list" where
  "xrdp_sec_fips_sign c junk self out_len data = take out_len (fips_hmac c junk self data (encrypt_use_count self))"

definition xrdp_sec_fips_check_sig :: "'d crypto \<Rightarrow> (nat \<Rightarrow> byte) \<Rightarrow> 'd sec_crypt \<Rightarrow> byte list \<Rightarrow> byte list \<Rightarrow> bool" where
  "xrdp_sec_fips_check_sig c junk self sig data \<longleftrightarrow>
     take (length sig) (fips_hmac c junk self data (decrypt_use_count self - 1)) = sig"

definition xrdp_sec_sign :: "'d crypto \<Rightarrow> 'd sec_crypt \<Rightarrow> nat \<Rightarrow> byte list \<Rightarrow> byte list" where
  "xrdp_sec_sign c self out_len data =
     (let lenhdr = buf_out_uint32 (int (length data));
          key = take (rc4_key_len self) (sign_key self);
          shasig = sha1 c (key @ g_pad_54 @ lenhdr @ data)
      in take out_len (md5 c (key @ g_pad_92 @ shasig)))"

definition xrdp_sec_check_sig :: "'d crypto \<Rightarrow> 'd sec_crypt \<Rightarrow> byte list \<Rightarrow> byte list \<Rightarrow> bool" where
  "xrdp_sec_check_sig c self sig data \<longleftrightarrow> length sig \<le> 8 \<and> xrdp_sec_sign c self (length sig) data = sig"

subsection \<open>Session keys\<close>

definition xrdp_sec_hash_48 :: "'d crypto \<Rightarrow> byte list \<Rightarrow> byte list \<Rightarrow> byte list \<Rightarrow> byte \<Rightarrow> byte list" where
  "xrdp_sec_hash_48 c inp salt1 salt2 salt =
     concat (map (\<lambda>i. let pad = replicate 4 (salt + of_nat i);
                          sha1_sig = sha1 c (take (i + 1) pad @ take 48 inp @ take 32 salt1 @ take 32 salt2)
                      in md5 c (take 48 inp @ sha1_sig)) [0..<3])"

definition xrdp_sec_hash_16 :: "'d crypto \<Rightarrow> byte list \<Rightarrow> byte list \<Rightarrow> byte list \<Rightarrow> byte list" where
  "xrdp_sec_hash_16 c inp salt1 salt2 = md5 c (take 16 inp @ take 32 salt1 @ take 32 salt2)"

definition xrdp_sec_establish_keys :: "'d crypto \<Rightarrow> sec_keys \<Rightarrow> 'd sec_crypt \<Rightarrow> 'd sec_crypt option" where
  "xrdp_sec_establish_keys c k self =
     (let input = take 24 (client_random self) @ take 24 (server_random k);
          temp_hash = xrdp_sec_hash_48 c input (client_random self) (server_random k) 65;
          session_key = xrdp_sec_hash_48 c temp_hash (client_random self) (server_random k) 88;
          weak = (if crypt_method k = CRYPT_METHOD_40BIT then xrdp_sec_make_40bit else (\<lambda>key. key));
          sign = weak (take 16 session_key);
          encrypt = weak (xrdp_sec_hash_16 c (drop 16 session_key) (client_random self) (server_random k));
          decrypt = weak (xrdp_sec_hash_16 c (drop 32 session_key) (client_random self) (server_random k));
          len = (if crypt_method k = CRYPT_METHOD_40BIT then 8 else 16)
      in do { decrypt_info \<leftarrow> ssl_rc4_set_key decrypt len;
              encrypt_info \<leftarrow> ssl_rc4_set_key encrypt len;
              Some (self\<lparr>sign_key := sign, encrypt_key := encrypt, decrypt_key := decrypt, rc4_key_len := len,
                         decrypt_update_key := decrypt, encrypt_update_key := encrypt,
                         decrypt_rc4_info := decrypt_info, encrypt_rc4_info := encrypt_info\<rparr>) })"

text \<open>
  168 bits are spread over 24 bytes of seven bits each. The bytes of \<^verbatim>\<open>buf\<close> that are not set are \<^term>\<open>junk\<close>; one of
  them is read.
\<close>

definition fips_insert_bits :: "byte list \<Rightarrow> nat \<Rightarrow> byte" where
  "fips_insert_bits bits i =
     (let b = 7 * i;
          p = b div 8;
          r = b mod 8
      in if r = 0 then bits ! p AND 0xfe
         else (push_bit r (bits ! p) OR drop_bit (8 - r) (bits ! (p + 1))) AND 0xfe)"

definition fips_expand_key_bits :: "(nat \<Rightarrow> byte) \<Rightarrow> byte list \<Rightarrow> byte list" where
  "fips_expand_key_bits junk inp =
     (let bits = map (\<lambda>i. g_fips_reverse_table ! unat (inp ! i)) [0..<21] @ map junk [21..<32];
          out = map (fips_insert_bits bits) [0..<24]
      in map (\<lambda>c. g_fips_oddparity_table ! unat (g_fips_reverse_table ! unat c)) out)"

definition xrdp_sec_fips_establish_keys :: "'d crypto \<Rightarrow> (nat \<Rightarrow> byte) \<Rightarrow> sec_keys \<Rightarrow> 'd sec_crypt \<Rightarrow> 'd sec_crypt" where
  "xrdp_sec_fips_establish_keys c junk k self =
     (let server_decrypt_key = sha1 c (take 16 (drop 16 (client_random self)) @ take 16 (drop 16 (server_random k)));
          server_encrypt_key = sha1 c (take 16 (client_random self) @ take 16 (server_random k));
          decrypt = fips_expand_key_bits junk (server_decrypt_key @ take 1 server_decrypt_key);
          encrypt = fips_expand_key_bits junk (server_encrypt_key @ take 1 server_encrypt_key)
      in self\<lparr>fips_decrypt_key := decrypt, fips_encrypt_key := encrypt,
              fips_sign_key := sha1 c (server_encrypt_key @ server_decrypt_key),
              encrypt_fips_info := Some (des3_encrypt_info_create c encrypt g_fips_ivec),
              decrypt_fips_info := Some (des3_decrypt_info_create c decrypt g_fips_ivec),
              sign_fips_info := True\<rparr>)"

subsection \<open>RSA\<close>

text \<open>
  \<^verbatim>\<open>ssl_reverse_it\<close> is \<^term>\<open>rev\<close>. \<^verbatim>\<open>BN_bin2bn\<close> reads and \<^verbatim>\<open>BN_bn2bin\<close> writes big-endian numbers, the latter
  without leading zeros; a modulus of 0 is an error that leaves the result 0.
\<close>

definition bin2bn :: "byte list \<Rightarrow> int" where "bin2bn bs = le_val (rev bs)"

function bn2bin :: "int \<Rightarrow> byte list" where
  "bn2bin v = (if v \<le> 0 then [] else bn2bin (v div 256) @ [word_of_int v])"
  by pat_completeness auto
termination by (relation "measure nat") auto

declare bn2bin.simps [simp del]

definition ssl_mod_exp :: "nat \<Rightarrow> byte list \<Rightarrow> byte list \<Rightarrow> byte list \<Rightarrow> byte list \<Rightarrow> byte list option" where
  "ssl_mod_exp out_len out inp md ex =
     (let lin = bin2bn (rev inp);
          lmod = bin2bn (rev md);
          lexp = bin2bn (rev ex);
          l_out = bn2bin (if lmod = 0 then 0 else lin ^ nat lexp mod lmod)
      in if length l_out \<le> out_len then Some (rev l_out @ replicate (out_len - length l_out) 0 @ drop out_len out) else None)"

definition xrdp_sec_rsa_op :: "nat \<Rightarrow> byte list \<Rightarrow> byte list \<Rightarrow> byte list \<Rightarrow> byte list \<Rightarrow> byte list option" where
  "xrdp_sec_rsa_op key_bytes out inp md ex = ssl_mod_exp key_bytes out inp (take key_bytes md) (take key_bytes ex)"

end
