(* ===== verification/Sec_Crypto_Props.thy ===== *)
theory Sec_Crypto_Props
  imports Sec_Crypto
begin

text \<open>
  Standard RDP security: two ends whose keys agree stay in step through encryption, decryption and key updates,
  message by message; the tables of the FIPS key expansion are bit reversal and odd parity, and the expansion moves
  every bit of the key to its place.
\<close>

subsection \<open>The tables\<close>

definition byte_rev :: "byte \<Rightarrow> byte" where
  "byte_rev b = horner_sum of_bool 2 (map (\<lambda>k. bit b (7 - k)) [0..<8])"

lemma reverse_table: "g_fips_reverse_table = map (\<lambda>n. byte_rev (of_nat n)) [0..<256]"
  by code_simp

definition odd_parity :: "byte \<Rightarrow> byte" where
  "odd_parity b = (b AND 0xfe) OR of_bool (even (length (filter (bit b) [1..<8])))"

lemma oddparity_table: "g_fips_oddparity_table = map (\<lambda>n. odd_parity (of_nat n)) [0..<256]"
  by code_simp


lemma bit_byte_rev: "k < 8 \<Longrightarrow> bit (byte_rev b) k \<longleftrightarrow> bit b (7 - k)"
  by (simp add: byte_rev_def bit_horner_sum_bit_word_iff)

lemma byte_less: "unat (b :: byte) < 256"
  using unsigned_less [of b, where 'a = nat] by simp

lemma reverse_table_nth: "g_fips_reverse_table ! unat b = byte_rev b"
  by (simp add: reverse_table byte_less del: upt.simps)

lemma oddparity_table_nth: "g_fips_oddparity_table ! unat b = odd_parity b"
  by (simp add: oddparity_table byte_less del: upt.simps)

subsection \<open>The key expansion\<close>

definition ones :: "byte \<Rightarrow> nat" where
  "ones b = length (filter (bit b) [0..<8])"

lemma mask_fe: "bit (0xfe :: int) k \<longleftrightarrow> 0 < k \<and> k < 8"
proof -
  have "(0xfe :: int) = push_bit 1 (mask 7)" by (simp add: mask_eq_exp_minus_1 push_bit_eq_mult)
  then show ?thesis by (simp only: bit_simps possible_bit_int) auto
qed

lemma bit_and_fe: "bit (b AND 0xfe :: byte) k \<longleftrightarrow> bit b k \<and> 0 < k"
  using bit_imp_le_length [of b k] by (auto simp: bit_simps mask_fe)

lemma bit_odd_parity: "0 < k \<Longrightarrow> k < 8 \<Longrightarrow> bit (odd_parity b) k \<longleftrightarrow> bit b k"
  by (simp add: odd_parity_def bit_or_iff bit_and_fe bit_of_bool_iff)

lemma ones_odd_parity: "odd (ones (odd_parity b))"
proof -
  have upt: "[0..<8] = 0 # [1..<8]" by (simp add: upt_conv_Cons)
  have z: "bit (odd_parity b) 0 \<longleftrightarrow> even (length (filter (bit b) [1..<8]))"
    by (simp add: odd_parity_def bit_or_iff bit_and_fe bit_of_bool_iff)
  have "filter (bit (odd_parity b)) [1..<8] = filter (bit b) [1..<8]"
    by (rule filter_cong) (auto simp: bit_odd_parity)
  then show ?thesis unfolding ones_def upt filter.simps z by simp
qed

text \<open>The bits of a key, from the lowest of its first byte.\<close>

definition key_bit :: "byte list \<Rightarrow> nat \<Rightarrow> bool" where
  "key_bit key n \<longleftrightarrow> bit (key ! (n div 8)) (n mod 8)"

lemma insert_bits:
  assumes "i < 24" "k < 7" "\<And>p. p < 21 \<Longrightarrow> bits ! p = byte_rev (key ! p)"
  shows "bit (fips_insert_bits bits i) (7 - k) \<longleftrightarrow> key_bit key (7 * i + k)" "\<not> bit (fips_insert_bits bits i) 0"
proof -
  define p r where "p = 7 * i div 8" and "r = 7 * i mod 8"
  have p: "7 * i = 8 * p + r" "r < 8" "p < 21" using assms(1) by (simp_all add: p_def r_def)
  note ins = fips_insert_bits_def [of bits i, unfolded Let_def, folded p_def r_def]
  have c: "bit (push_bit r (x :: byte)) (7 - k) \<longleftrightarrow> r + k < 8 \<and> bit x (7 - k - r)" for x
    using assms(2) by (auto simp: bit_push_bit_iff)
  have h: "\<not> bit (x :: byte) n" if "8 \<le> n" for x n using bit_imp_le_length [of x n] that by auto
  show "bit (fips_insert_bits bits i) (7 - k) \<longleftrightarrow> key_bit key (7 * i + k)"
  proof (cases "r + k < 8")
    case True
    then have d: "(7 * i + k) div 8 = p" "(7 * i + k) mod 8 = r + k" by (simp_all add: p(1) add.assoc)
    have "bit (bits ! p) (7 - k - r) \<longleftrightarrow> bit (key ! p) (r + k)" using assms(3) [OF p(3)] True by (simp add: bit_byte_rev add.commute)
    moreover have "bit (fips_insert_bits bits i) (7 - k) \<longleftrightarrow> bit (bits ! p) (7 - k - r)"
      using True assms(2) p(2) by (auto simp: ins bit_and_fe bit_or_iff c bit_drop_bit_eq h)
    ultimately show ?thesis by (simp add: key_bit_def d)
  next
    case False
    define x where "x = r + k - 8"
    have x: "7 * i + k = 8 * (p + 1) + x" "x < 8" using False p(1,2) assms(2) by (simp_all add: x_def)
    have "(8 * q + x) div 8 = q \<and> (8 * q + x) mod 8 = x" for q using x(2) by simp
    then have d: "(7 * i + k) div 8 = p + 1" and m: "(7 * i + k) mod 8 = r + k - 8" unfolding x(1) x_def by blast+
    have "p + 1 < 21" using False d assms(1,2) by linarith
    then have "bit (bits ! (p + 1)) (15 - k - r) \<longleftrightarrow> bit (key ! (p + 1)) (r + k - 8)"
      using assms(3) [of "p + 1"] False p(2) assms(2) by (simp add: bit_byte_rev add.commute)
    moreover have "r \<noteq> 0" "8 - r + (7 - k) = 15 - k - r" using False assms(2) p(2) by simp_all
    then have "bit (fips_insert_bits bits i) (7 - k) \<longleftrightarrow> bit (bits ! (p + 1)) (15 - k - r)"
      using False assms(2) by (simp add: ins bit_and_fe bit_or_iff c bit_drop_bit_eq add.commute)
    ultimately show ?thesis by (simp add: key_bit_def d m)
  qed
  show "\<not> bit (fips_insert_bits bits i) 0" by (simp add: fips_insert_bits_def Let_def bit_and_fe)
qed

text \<open>
  Each of the 24 bytes has odd parity, its bits 1 to 6 are the key's bits in order, and the highest is 0; the lowest,
  where the parity goes, takes the place of every seventh bit of the key. What the buffer held before does not matter.
\<close>

lemma fips_expand:
  assumes "21 \<le> length key" "i < 24"
  shows "length (fips_expand_key_bits junk key) = 24" "odd (ones (fips_expand_key_bits junk key ! i))"
    "\<not> bit (fips_expand_key_bits junk key ! i) 7"
    "\<And>k. 0 < k \<Longrightarrow> k < 7 \<Longrightarrow> bit (fips_expand_key_bits junk key ! i) k \<longleftrightarrow> key_bit key (7 * i + k)"
proof -
  let ?bits = "map (\<lambda>i. g_fips_reverse_table ! unat (key ! i)) [0..<21] @ map junk [21..<32]"
  have b: "p < 21 \<Longrightarrow> ?bits ! p = byte_rev (key ! p)" for p by (simp add: nth_append reverse_table_nth del: upt.simps)
  have e: "fips_expand_key_bits junk key ! i = odd_parity (byte_rev (fips_insert_bits ?bits i))"
    using assms(2) by (simp add: fips_expand_key_bits_def Let_def reverse_table_nth oddparity_table_nth del: upt.simps)
  show "length (fips_expand_key_bits junk key) = 24" by (simp add: fips_expand_key_bits_def Let_def del: upt.simps)
  show "odd (ones (fips_expand_key_bits junk key ! i))" unfolding e by (rule ones_odd_parity)
  show "\<not> bit (fips_expand_key_bits junk key ! i) 7"
    unfolding e using insert_bits(2) [OF assms(2) _ b, of 0] by (simp add: bit_odd_parity bit_byte_rev)
  show "bit (fips_expand_key_bits junk key ! i) k \<longleftrightarrow> key_bit key (7 * i + k)" if "0 < k" "k < 7" for k
    unfolding e using insert_bits(1) [OF assms(2) that(2) b] that by (simp add: bit_odd_parity bit_byte_rev)
qed


subsection \<open>Two ends in step\<close>

text \<open>Messages one after the other, with the state threaded through.\<close>

fun run_all :: "('s \<Rightarrow> byte list \<Rightarrow> (byte list \<times> 's) option) \<Rightarrow> 's \<Rightarrow> byte list list \<Rightarrow> (byte list list \<times> 's) option" where
  "run_all f a [] = Some ([], a)"
| "run_all f a (m # ms) = do { (x, a) \<leftarrow> f a m; (xs, a) \<leftarrow> run_all f a ms; Some (x # xs, a) }"

text \<open>The contract of a protected channel: what one end seals, the other end, if in step, opens, and both stay in step.\<close>

locale secure_channel =
  fixes seal :: "'a \<Rightarrow> byte list \<Rightarrow> (byte list \<times> 'a) option"
    and unseal :: "'b \<Rightarrow> byte list \<Rightarrow> (byte list \<times> 'b) option"
    and synced :: "'a \<Rightarrow> 'b \<Rightarrow> bool"
    and sendable :: "byte list \<Rightarrow> bool"
  assumes delivered: "synced a b \<Longrightarrow> sendable m \<Longrightarrow> seal a m = Some (ct, a') \<Longrightarrow>
    \<exists>b'. unseal b ct = Some (m, b') \<and> synced a' b'"
begin

lemma all_delivered:
  "synced a b \<Longrightarrow> list_all sendable ms \<Longrightarrow> run_all seal a ms = Some (cts, a') \<Longrightarrow>
     \<exists>b'. run_all unseal b cts = Some (ms, b') \<and> synced a' b'"
proof (induction ms arbitrary: a b cts)
  case (Cons m ms)
  obtain ct a1 cts' where s: "seal a m = Some (ct, a1)" "run_all seal a1 ms = Some (cts', a')" "cts = ct # cts'"
    using Cons.prems(3) by (auto simp: Option.bind_eq_Some_conv)
  obtain b1 where b1: "unseal b ct = Some (m, b1)" "synced a1 b1"
    using delivered [OF Cons.prems(1) _ s(1)] Cons.prems(2) by auto
  obtain b' where "run_all unseal b1 cts' = Some (ms, b')" "synced a' b'"
    using Cons.IH [OF b1(2) _ s(2)] Cons.prems(2) by auto
  then show ?case using b1(1) by (simp add: s(3))
qed auto

end

text \<open>The sending half of one end is the receiving half of the other.\<close>

definition rc4_synced :: "'d sec_crypt \<Rightarrow> 'd sec_crypt \<Rightarrow> bool" where
  "rc4_synced a b \<longleftrightarrow> encrypt_use_count a = decrypt_use_count b \<and> encrypt_key a = decrypt_key b \<and>
     encrypt_update_key a = decrypt_update_key b \<and> rc4_key_len a = rc4_key_len b \<and>
     encrypt_rc4_info a = decrypt_rc4_info b \<and> sign_key a = sign_key b"

lemma rc4_delivered:
  assumes "rc4_synced a b" "xrdp_sec_encrypt c a m = Some (ct, a')"
  shows "\<exists>b'. xrdp_sec_decrypt c b ct = Some (m, b') \<and> rc4_synced a' b'"
  using assms rc4_crypt_twice
  by (fastforce simp: xrdp_sec_encrypt_def xrdp_sec_decrypt_def rc4_synced_def Let_def case_prod_beta Option.bind_eq_Some_conv split: if_split_asm)

interpretation rc4: secure_channel "xrdp_sec_encrypt c" "xrdp_sec_decrypt c" rc4_synced "\<lambda>m. True" for c :: "'d crypto"
  by unfold_locales (rule rc4_delivered)

text \<open>
  What the code relies on in triple DES: a decrypting context that is paired with an encrypting one turns whole blocks
  back, and the two stay paired.
\<close>

definition des3_inverse :: "'d crypto \<Rightarrow> ('d \<Rightarrow> 'd \<Rightarrow> bool) \<Rightarrow> bool" where
  "des3_inverse c paired \<longleftrightarrow>
     (\<forall>e d m. paired e d \<longrightarrow> 8 dvd length m \<longrightarrow>
        length (fst (des3_encrypt c e m)) = length m \<and>
        fst (des3_decrypt c d (fst (des3_encrypt c e m))) = m \<and>
        paired (snd (des3_encrypt c e m)) (snd (des3_decrypt c d (fst (des3_encrypt c e m)))))"

definition fips_synced :: "'d crypto \<Rightarrow> ('d \<Rightarrow> 'd \<Rightarrow> bool) \<Rightarrow> 'd sec_crypt \<Rightarrow> 'd sec_crypt \<Rightarrow> bool" where
  "fips_synced c paired a b \<longleftrightarrow> des3_inverse c paired \<and> encrypt_use_count a = decrypt_use_count b \<and>
     sign_fips_info a \<and> sign_fips_info b \<and> fips_sign_key a = fips_sign_key b \<and>
     (\<exists>e d. encrypt_fips_info a = Some e \<and> decrypt_fips_info b = Some d \<and> paired e d)"

lemma fips_delivered:
  assumes "fips_synced c paired a b" "8 dvd length m" "xrdp_sec_fips_encrypt c a m = (ct, a')"
  shows "length ct = length m" "\<exists>b'. xrdp_sec_fips_decrypt c b ct = (m, b') \<and> fips_synced c paired a' b'"
proof -
  obtain e d where i: "encrypt_fips_info a = Some e" "decrypt_fips_info b = Some d" "paired e d" "des3_inverse c paired"
    using assms(1) by (auto simp: fips_synced_def)
  note law = i(4) [unfolded des3_inverse_def, rule_format, OF i(3) assms(2)]
  have e: "ct = fst (des3_encrypt c e m)" "a' = a\<lparr>encrypt_fips_info := Some (snd (des3_encrypt c e m)), encrypt_use_count := encrypt_use_count a + 1\<rparr>"
    using assms(3) i(1) by (auto simp: xrdp_sec_fips_encrypt_def case_prod_beta)
  show "length ct = length m" using law e by simp
  show "\<exists>b'. xrdp_sec_fips_decrypt c b ct = (m, b') \<and> fips_synced c paired a' b'"
    using law i assms(1) by (simp add: xrdp_sec_fips_decrypt_def case_prod_beta e fips_synced_def)
qed

interpretation fips: secure_channel "\<lambda>a m. Some (xrdp_sec_fips_encrypt c a m)" "\<lambda>b m. Some (xrdp_sec_fips_decrypt c b m)"
  "fips_synced c paired" "\<lambda>m. 8 dvd length m" for c :: "'d crypto" and paired
  by unfold_locales (simp add: fips_delivered)

subsection \<open>Messages before the key exchange\<close>

text \<open>
  A security layer without session keys has a key length of 0. It takes part in encryption all the same: the
  signatures it accepts do not depend on any secret, and the 4097th message makes it update a key of no bytes,
  where the key schedule divides by the key length.
\<close>

lemma decrypt_counted:
  "decrypt_use_count a + int (length ms) \<le> 4096 \<Longrightarrow>
     \<exists>xs b. run_all (xrdp_sec_decrypt c) a ms = Some (xs, b) \<and>
       decrypt_use_count b = decrypt_use_count a + int (length ms) \<and> rc4_key_len b = rc4_key_len a"
proof (induction ms arbitrary: a)
  case (Cons m ms)
  then have "decrypt_use_count a \<noteq> 4096" by auto
  then obtain x a1 where one: "xrdp_sec_decrypt c a m = Some (x, a1)" "decrypt_use_count a1 = decrypt_use_count a + 1"
    "rc4_key_len a1 = rc4_key_len a"
    by (auto simp: xrdp_sec_decrypt_def Let_def case_prod_beta)
  then show ?case using Cons.IH [of a1] Cons.prems by auto
qed simp

lemma keyless_signature: "rc4_key_len a = 0 \<Longrightarrow> rc4_key_len b = 0 \<Longrightarrow> xrdp_sec_check_sig c a = xrdp_sec_check_sig c b"
  by (simp add: fun_eq_iff xrdp_sec_check_sig_def xrdp_sec_sign_def)

lemma keyless_update:
  assumes "rc4_key_len a = 0" "decrypt_use_count a = 0" "length ms = 4096"
  shows "\<exists>xs b. run_all (xrdp_sec_decrypt c) a ms = Some (xs, b) \<and> xrdp_sec_decrypt c b m = None"
proof -
  obtain xs b where "run_all (xrdp_sec_decrypt c) a ms = Some (xs, b)" "decrypt_use_count b = 4096" "rc4_key_len b = 0"
    using decrypt_counted [of a ms c] assms by auto
  then show ?thesis by (auto simp: xrdp_sec_decrypt_def xrdp_sec_update_def ssl_rc4_set_key_def Let_def)
qed

end
