(* ===== verification/Sec_Props.thy ===== *)
theory Sec_Props
  imports Xrdp_Sec
begin

text \<open>
  What the client's GCC data can do: any bytes are handled, the state keeps its type, blocks are
  processed one after the other; and how the counts that are only checked block by block overflow
  the server's answer.
\<close>

subsection \<open>Names in UTF-16\<close>

lemma in_two_le_ok:
  assumes "in_wf s" "2 \<le> length (unread s)"
  shows "\<exists>w. in_uint16_le s = Some (w, advance 2 s) \<and> 0 \<le> w \<and> w < 65536"
proof -
  have l: "0 + 2 \<le> length (unread s)" using assms by simp
  have b: "0 \<le> uint b" "uint b < 256" for b :: byte using uint_lt2p [of b] by simp_all
  show ?thesis using in_uint16_le_at [OF assms(1) l] b [of "unread s ! 0"] b [of "unread s ! Suc 0"]
    by (simp add: numeral_2_eq_2)
qed

lemma in_four_le_ok:
  assumes "in_wf s" "4 \<le> length (unread s)"
  shows "\<exists>w. in_uint32_le s = Some (w, advance 4 s) \<and> 0 \<le> w \<and> w < 2 ^ 32"
proof -
  have l: "0 + 4 \<le> length (unread s)" using assms by simp
  have "length (take 4 (unread s)) = 4" using assms by simp
  then show ?thesis
    using in_uint32_le_at [OF assms(1) l] le_val_less [of "take 4 (unread s)"] le_val_nonneg [of "take 4 (unread s)"] by simp
qed

text \<open>A character takes one or two units, and all of an even number of bytes is taken.\<close>

lemma get_c32_ok:
  assumes "in_wf s" "2 \<le> length (unread s)"
  shows "\<exists>c k. get_c32_from_stream s = Some (c, advance k s) \<and> (k = 2 \<or> k = 4 \<and> 4 \<le> length (unread s))"
proof -
  obtain w where w: "in_uint16_le s = Some (w, advance 2 s)" using in_two_le_ok [OF assms] by blast
  have wf: "in_wf (advance 2 s)" using assms by (simp add: advance_wf)
  show ?thesis
  proof (cases "s_check_rem (advance 2 s) 2")
    case True
    then have "2 \<le> length (unread (advance 2 s))" using wf by (simp add: s_check_rem_wf)
    moreover obtain low where low: "in_uint16_le (advance 2 s) = Some (low, advance 2 (advance 2 s))"
      using in_two_le_ok [OF wf] calculation by blast
    moreover have "advance 2 (advance 2 s) = advance 4 s" by simp
    moreover have "advance 4 s\<lparr>s_p := s_p (advance 4 s) - 2\<rparr> = advance 2 s" by (simp add: advance_def)
    moreover have "4 \<le> length (unread s)" using calculation(1) assms by (simp add: unread_advance)
    ultimately show ?thesis using w True by (auto simp: get_c32_from_stream_def Let_def)
  next
    case False
    then show ?thesis using w by (auto simp: get_c32_from_stream_def Let_def)
  qed
qed

lemma in_utf16_loop_all:
  "in_wf s \<Longrightarrow> even (length (unread s)) \<Longrightarrow>
     \<exists>rv' out'. in_utf16_loop False s rv out = Some (rv', out', advance (length (unread s)) s)"
proof (induction "length (unread s)" arbitrary: s rv out rule: less_induct)
  case less
  show ?case
  proof (cases "2 \<le> length (unread s)")
    case False
    then have z: "length (unread s) = 0" using less.prems(2) by presburger
    then show ?thesis using less.prems(1) False by (subst in_utf16_loop.simps) (simp add: s_check_rem_wf)
  next
    case True
    obtain c k where c: "get_c32_from_stream s = Some (c, advance k s)" "k = 2 \<or> k = 4 \<and> 4 \<le> length (unread s)"
      using get_c32_ok [OF less.prems(1) True] by blast
    have k: "k \<le> length (unread s)" "0 < k" "even k" using c(2) True by auto
    have u: "length (unread (advance k s)) = length (unread s) - k" using k less.prems(1) by (simp add: unread_advance)
    have "in_wf (advance k s)" using k less.prems(1) by (simp add: advance_wf)
    moreover have "length (unread (advance k s)) < length (unread s)" using u k by simp
    moreover have "even (length (unread (advance k s)))" using u k less.prems(2) by simp
    ultimately obtain rv' out' where
      "in_utf16_loop False (advance k s) (rv + length (utf_char32_to_utf8 c)) (put_utf8 (utf_char32_to_utf8 c) out) =
         Some (rv', out', advance (length (unread (advance k s))) (advance k s))"
      using less.hyps by blast
    then show ?thesis using c(1) k u True less.prems(1) by (subst in_utf16_loop.simps) (simp add: s_check_rem_wf Let_def)
  qed
qed

lemma utf16_fixed_ok:
  assumes wf: "in_wf s" and n: "2 * n \<le> length (unread s)" "n < 2 ^ 30"
  shows "\<exists>rv out. in_utf16_le_fixed_as_utf8_proc s (int n) vn = Some (rv, out, advance (2 * n) s)"
proof -
  have len: "s_p s + length (unread s) = s_end s" using wf by (simp add: length_unread in_wf_def)
  let ?s = "s\<lparr>s_end := s_p s + 2 * n\<rparr>"
  have "s_p s + 2 * n \<le> s_end s" using n(1) len by linarith
  then have w: "in_wf ?s" "unread ?s = take (2 * n) (unread s)"
    using wf by (simp_all add: in_wf_def unread_def drop_take min.absorb1)
  have u: "length (unread ?s) = 2 * n" using w(2) n by simp
  have "even (length (unread ?s))" unfolding u by simp
  then obtain rv out where r: "in_utf16_loop False ?s 0 ([], vn) = Some (rv, out, advance (2 * n) ?s)"
    using in_utf16_loop_all [OF w(1), of 0 "([], vn)"] unfolding u by blast
  have o: "c_int (c_uint (int n * 2)) = int (2 * n)" using n(2) by (simp add: c_uint_id c_int_id)
  have e: "nat (if int (s_end s) - int (s_p s) > int (2 * n) then int (s_p s) + int (2 * n) else int (s_end s)) = s_p s + 2 * n"
    using len n(1) by auto
  have "\<not> (if int (s_end s) - int (s_p s) > int (2 * n) then int (s_p s) + int (2 * n) else int (s_end s)) < 0" by simp
  then show ?thesis
    unfolding in_utf16_le_fixed_as_utf8_proc_def Let_def o e using r by (simp add: advance_def)
qed

subsection \<open>Core data\<close>

text \<open>What the core data leave alone: the settings and the monitors.\<close>

definition settings :: "client_info \<Rightarrow> client_info \<Rightarrow> bool" where
  "settings ci ci' \<longleftrightarrow> ci_multimon ci' = ci_multimon ci \<and> ci_channels_allowed ci' = ci_channels_allowed ci \<and> ci_max_bpp ci' = ci_max_bpp ci \<and>
     ds_monitorCount (ci_display_sizes ci') = ds_monitorCount (ci_display_sizes ci) \<and>
     ds_minfo (ci_display_sizes ci') = ds_minfo (ci_display_sizes ci) \<and> ds_minfo_wm (ci_display_sizes ci') = ds_minfo_wm (ci_display_sizes ci)"

lemma settings_refl [simp]: "settings ci ci"
  by (simp add: settings_def)

text \<open>With \<^verbatim>\<open>n\<close> bytes left a reader succeeds inside the stream.\<close>

definition reads :: "nat \<Rightarrow> (client_info \<Rightarrow> stream \<Rightarrow> (client_info \<times> stream) option) \<Rightarrow> bool" where
  "reads n f \<longleftrightarrow> (\<forall>ci s. in_wf s \<longrightarrow> n \<le> length (unread s) \<longrightarrow> (\<exists>ci' s'. f ci s = Some (ci', s') \<and> parsed s s' \<and> settings ci ci'))"

lemma readsI:
  "(\<And>ci s. in_wf s \<Longrightarrow> n \<le> length (unread s) \<Longrightarrow> \<exists>ci' s'. f ci s = Some (ci', s') \<and> parsed s s' \<and> settings ci ci') \<Longrightarrow> reads n f"
  by (simp add: reads_def)

lemma readsD:
  "reads n f \<Longrightarrow> in_wf s \<Longrightarrow> n \<le> length (unread s) \<Longrightarrow> \<exists>ci' s'. f ci s = Some (ci', s') \<and> parsed s s' \<and> settings ci ci'"
  by (simp add: reads_def)

lemma reads_optional: "reads n f \<Longrightarrow> n < 2 ^ 31 \<Longrightarrow> reads 0 (optional_field (int n) f)"
  by (rule readsI) (auto simp: optional_field_def s_check_rem_wf dest: readsD)

lemma reads_skip: "reads 0 f \<Longrightarrow> reads n (\<lambda>ci s. f ci (in_uint8s n s))"
proof (rule readsI)
  fix ci s assume f: "reads 0 f" and s: "in_wf s" "n \<le> length (unread s)"
  have p: "parsed s (advance n s)" using s(2) by (rule parsed_advance)
  obtain ci' s' where "f ci (advance n s) = Some (ci', s')" "parsed (advance n s) s'" "settings ci ci'"
    using readsD [OF f parsed_wf [OF s(1) p]] by blast
  then show "\<exists>ci' s'. f ci (in_uint8s n s) = Some (ci', s') \<and> parsed s s' \<and> settings ci ci'"
    using parsed_trans [OF s(1) p] by (auto simp: in_uint8s_advance)
qed

text \<open>A reader that takes a number first.\<close>

lemma reads_number:
  assumes rd: "\<And>s. in_wf s \<Longrightarrow> n \<le> length (unread s) \<Longrightarrow> \<exists>v. rd s = Some (v, advance n s)"
    and f: "\<And>v. reads 0 (f v)"
    and g: "\<And>v ci. settings ci (g v ci)"
  shows "reads n (\<lambda>ci s. do { (v, s) \<leftarrow> rd s; f v (g v ci) s })"
proof (rule readsI)
  fix ci s assume s: "in_wf s" "n \<le> length (unread s)"
  obtain v where v: "rd s = Some (v, advance n s)" using rd [OF s] by blast
  have p: "parsed s (advance n s)" using s(2) by (rule parsed_advance)
  obtain ci' s' where "f v (g v ci) (advance n s) = Some (ci', s')" "parsed (advance n s) s'" "settings (g v ci) ci'"
    using readsD [OF f parsed_wf [OF s(1) p]] by blast
  then show "\<exists>ci' s'. (do { (v, s) \<leftarrow> rd s; f v (g v ci) s }) = Some (ci', s') \<and> parsed s s' \<and> settings ci ci'"
    using v parsed_trans [OF s(1) p] g [of ci v] by (auto simp: settings_def)
qed

lemma in_one_ok: "in_wf s \<Longrightarrow> 1 \<le> length (unread s) \<Longrightarrow> \<exists>v. in_uint8 s = Some (v, advance 1 s)"
  using in_byte_ok [of s] by (auto simp: s_check_rem_wf)

lemma in_16: "in_wf s \<Longrightarrow> 2 \<le> length (unread s) \<Longrightarrow> \<exists>v. in_uint16_le s = Some (v, advance 2 s)"
  using in_two_le_ok by blast

lemma in_32: "in_wf s \<Longrightarrow> 4 \<le> length (unread s) \<Longrightarrow> \<exists>v. in_uint32_le s = Some (v, advance 4 s)"
  using in_four_le_ok by blast

lemma physical_settings: "settings ci (physical_dimensions (ci\<lparr>ci_session_physical_height := h\<rparr>))"
  by (simp add: physical_dimensions_def settings_def)

lemma reads_sizes: "reads 4 core_sizes"
proof -
  have "reads 0 (optional_field 2 (\<lambda>ci s. Some (ci, in_uint8s 2 s)))"
    using reads_optional [where n = 2] reads_skip [where f = "\<lambda>ci s. Some (ci, s)" and n = 2] by (simp add: reads_def)
  from reads_number [where rd = in_uint32_le and g = "\<lambda>h ci. physical_dimensions (ci\<lparr>ci_session_physical_height := h\<rparr>)" and n = 4,
      OF in_32 this physical_settings]
  have h: "reads 4 (\<lambda>ci s. do { (height, s) \<leftarrow> in_uint32_le s;
      optional_field 2 (\<lambda>ci s. Some (ci, in_uint8s 2 s)) (physical_dimensions (ci\<lparr>ci_session_physical_height := height\<rparr>)) s })" (is "reads 4 ?f") .
  have "reads 0 (\<lambda>ci s. if \<not> s_check_rem s 4 then Some (ci\<lparr>ci_session_physical_width := 0\<rparr>, s) else ?f ci s)"
    by (rule readsI) (use readsD [OF h] in \<open>auto simp: s_check_rem_wf settings_def\<close>)
  from reads_number [where rd = in_uint32_le and g = "\<lambda>w ci. ci\<lparr>ci_session_physical_width := w\<rparr>" and n = 4, OF in_32 this]
  show ?thesis unfolding core_sizes_def [abs_def] Let_def by (simp add: settings_def)
qed

lemma reads_connection_type: "reads 1 core_connection_type"
proof -
  have "reads 0 (optional_field 1 (\<lambda>ci s. optional_field 4 (\<lambda>ci s. optional_field 4 core_sizes ci (in_uint8s 4 s)) ci (in_uint8s 1 s)))"
    using reads_optional [OF reads_skip [OF reads_optional [OF reads_skip [OF reads_optional [OF reads_sizes]]]], of 4 1] by simp
  from reads_number [where rd = in_uint8 and g = "\<lambda>c ci. ci\<lparr>ci_mcs_connection_type := c\<rparr>" and n = 1, OF in_one_ok this]
  show ?thesis by (simp add: core_connection_type_def [abs_def] settings_def)
qed

lemma want_gfx_settings: "settings ci (want_gfx r f ci)"
  by (simp add: want_gfx_def settings_def)

lemma reads_capabilities: "reads 2 (core_capabilities r d)"
proof -
  have "reads 0 (optional_field 64 (\<lambda>ci s. optional_field 1 core_connection_type ci (in_uint8s 64 s)))"
    using reads_optional [OF reads_skip [OF reads_optional [OF reads_connection_type]], of 64] by simp
  moreover have "settings ci (want_gfx r f (if f AND 2 \<noteq> 0 \<and> d AND 8 \<noteq> 0
      then ci\<lparr>ci_mcs_early_capability_flags := f, ci_bpp := 32\<rparr> else ci\<lparr>ci_mcs_early_capability_flags := f\<rparr>))" for ci f
    by (simp add: settings_def want_gfx_def)
  ultimately show ?thesis
    unfolding core_capabilities_def [abs_def] Let_def by (intro reads_number [where rd = in_uint16_le, OF in_16])
qed

lemma reads_depths: "reads 2 (core_depths r)"
proof -
  have "reads 0 (optional_field 2 (core_capabilities r v))" for v
    using reads_optional [OF reads_capabilities] by simp
  from reads_number [where rd = in_uint16_le and g = "\<lambda>c ci. ci" and n = 2, OF in_16 this]
  have "reads 2 (\<lambda>ci s. do { (d, s) \<leftarrow> in_uint16_le s; optional_field 2 (core_capabilities r d) ci s })" by simp
  then have "reads 0 (optional_field 2 (\<lambda>ci s. do { (d, s) \<leftarrow> in_uint16_le s; optional_field 2 (core_capabilities r d) ci s }))"
    using reads_optional [where n = 2] by simp
  from reads_number [where rd = in_uint16_le and g = "\<lambda>c ci. ci\<lparr>ci_bpp := c\<rparr>" and n = 2, OF in_16 this]
  show ?thesis by (simp add: core_depths_def [abs_def] Let_def settings_def)
qed

lemma reads_core_optional: "reads 2 (core_optional r)"
proof -
  have "reads 0 (optional_field 2 (\<lambda>ci s. optional_field 4 (\<lambda>ci s. optional_field 2 (core_depths r) ci (in_uint8s 4 s)) ci (in_uint8s 2 s)))"
    using reads_optional [OF reads_skip [OF reads_optional [OF reads_skip [OF reads_optional [OF reads_depths]]]], of 4 2] by simp
  from reads_number [where rd = in_uint16_le and g = post_beta2_bpp and n = 2, OF in_16 this]
  show ?thesis by (simp add: core_optional_def [abs_def] post_beta2_bpp_def settings_def)
qed

lemma core_required_ok:
  assumes wf: "in_wf s" and n: "128 \<le> length (unread s)"
  shows "\<exists>ci'. core_required ci s = Some (ci', advance 128 s) \<and> settings ci ci'"
proof -
  have w: "in_wf (advance 20 s)" "2 * 15 \<le> length (unread (advance 20 s))" using wf n by (simp_all add: advance_wf unread_advance)
  obtain rv name where name: "in_utf16_le_fixed_as_utf8_proc (advance 20 s) 15 46 = Some (rv, name, advance 50 s)"
    using utf16_fixed_ok [OF w, of 46] by auto
  have "\<exists>ci'. core_required ci (advance 0 s) = Some (ci', advance 128 s) \<and> settings ci ci'"
    using wf n name
    by (simp add: core_required_def at_simps Let_def color_depth_bpp_def settings_def del: advance_simps(1) split del: if_split)
      (simp split: if_split)
  then show ?thesis by simp
qed

subsection \<open>The state\<close>

definition channel_ok :: "mcs_channel_item \<Rightarrow> bool" where
  "channel_ok c \<longleftrightarrow> length (ch_name c) = 8 \<and> last (ch_name c) = 0 \<and> in_c_int (ch_flags c) \<and> ch_chanid c \<in> {1004..1034}"

definition sec_ok :: "xrdp_sec \<Rightarrow> bool" where
  "sec_ok self \<longleftrightarrow> mcs_ok (sec_mcs_layer self) \<and> (\<forall>c \<in> set (m_channel_list (sec_mcs_layer self)). channel_ok c) \<and> keys_ok (sec_security self) \<and>
     description_ok (ci_display_sizes (sec_client_info self)) \<and> ds_monitorCount (ci_display_sizes (sec_client_info self)) < 16"

text \<open>What processing may change: all but the streams of the MCS layer and the settings; the bound is for the channels it adds.\<close>

definition sec_step :: "nat \<Rightarrow> xrdp_sec \<Rightarrow> xrdp_sec \<Rightarrow> bool" where
  "sec_step n self self' \<longleftrightarrow> sec_ok self' \<and> sec_iso_layer self' = sec_iso_layer self \<and>
     m_client_mcs_data (sec_mcs_layer self') = m_client_mcs_data (sec_mcs_layer self) \<and>
     m_server_mcs_data (sec_mcs_layer self') = m_server_mcs_data (sec_mcs_layer self) \<and>
     m_expecting_channel_join_requests (sec_mcs_layer self') = m_expecting_channel_join_requests (sec_mcs_layer self) \<and>
     ci_multimon (sec_client_info self') = ci_multimon (sec_client_info self) \<and> ci_max_bpp (sec_client_info self') = ci_max_bpp (sec_client_info self) \<and>
     ci_channels_allowed (sec_client_info self') = ci_channels_allowed (sec_client_info self) \<and>
     (\<exists>added. m_channel_list (sec_mcs_layer self') = m_channel_list (sec_mcs_layer self) @ added \<and> length added \<le> n \<and>
        (ci_channels_allowed (sec_client_info self) = 0 \<longrightarrow> added = []))"

lemma sec_step_refl [simp]: "sec_ok self \<Longrightarrow> sec_step n self self"
  by (simp add: sec_step_def)

lemma sec_step_settings:
  "sec_ok self \<Longrightarrow> settings (sec_client_info self) ci \<Longrightarrow> sec_step 31 self (self\<lparr>sec_client_info := ci\<rparr>)"
  by (simp add: sec_step_def sec_ok_def settings_def description_ok_def)

text \<open>Reading a block: the stream may be left anywhere in the same buffer.\<close>

definition block_done :: "xrdp_sec \<Rightarrow> stream \<Rightarrow> (int \<times> xrdp_sec \<times> stream) option \<Rightarrow> bool" where
  "block_done self s r \<longleftrightarrow> (\<exists>rv self' s'. r = Some (rv, self', s') \<and> sec_step 31 self self' \<and> s_data s' = s_data s \<and> s_end s' = s_end s)"

lemma core_block:
  assumes "in_wf s" "sec_ok self"
  shows "block_done self s (xrdp_sec_process_mcs_data_CS_CORE r self s)"
proof -
  let ?ci = "(sec_client_info self)\<lparr>ci_session_physical_width := 0, ci_session_physical_height := 0\<rparr>"
  have f: "settings (sec_client_info self) ?ci" by (simp add: settings_def)
  show ?thesis
  proof (cases "128 \<le> length (unread s)")
    case False
    then show ?thesis using assms sec_step_settings [OF assms(2) f]
      by (simp add: block_done_def xrdp_sec_process_mcs_data_CS_CORE_def Let_def s_check_rem_wf)
  next
    case True
    obtain ci1 where c1: "core_required ?ci s = Some (ci1, advance 128 s)" "settings ?ci ci1" using core_required_ok [OF assms(1) True] by blast
    have p: "parsed s (advance 128 s)" using True by (rule parsed_advance)
    have rd: "reads 0 (optional_field 2 (core_optional r))" using reads_optional [OF reads_core_optional] by simp
    obtain ci2 s2 where c2: "optional_field 2 (core_optional r) ci1 (advance 128 s) = Some (ci2, s2)" "parsed (advance 128 s) s2" "settings ci1 ci2"
      using readsD [OF rd parsed_wf [OF assms(1) p]] by blast
    have "settings (sec_client_info self) ci2" using f c1(2) c2(3) by (simp add: settings_def)
    then show ?thesis using True assms c1(1) c2(1) parsed_fields [OF p] parsed_fields [OF c2(2)] sec_step_settings [OF assms(2)]
      by (auto simp: block_done_def xrdp_sec_process_mcs_data_CS_CORE_def Let_def s_check_rem_wf)
  qed
qed

lemma security_block:
  assumes "in_wf s" "sec_ok self"
  shows "block_done self s (xrdp_sec_process_mcs_data_CS_SECURITY self s)"
proof -
  have k: "keys_ok (choose_security p m k) = keys_ok k" for p m k by (simp add: choose_security_def keys_ok_def Let_def)
  show ?thesis
    using assms in_32 [OF assms(1)]
    by (cases "4 \<le> length (unread s)")
      (auto simp: block_done_def xrdp_sec_process_mcs_data_CS_SECURITY_def s_check_rem_wf sec_step_def sec_ok_def k)
qed

lemma read_channels_ok:
  "in_wf s \<Longrightarrow> 1004 \<le> i \<Longrightarrow> i + int n \<le> 1035 \<Longrightarrow> mcs_ok mcs \<Longrightarrow>
     \<exists>rv mcs' s' added. read_channels n i mcs s = Some (rv, mcs', s') \<and> parsed s s' \<and> mcs_ok mcs' \<and> length added \<le> n \<and>
       (\<forall>c \<in> set added. channel_ok c) \<and> m_channel_list mcs' = m_channel_list mcs @ added \<and>
       m_client_mcs_data mcs' = m_client_mcs_data mcs \<and> m_server_mcs_data mcs' = m_server_mcs_data mcs \<and>
       m_expecting_channel_join_requests mcs' = m_expecting_channel_join_requests mcs"
proof (induction n arbitrary: i mcs s)
  case 0
  then show ?case by (simp add: mcs_ok_def)
next
  case (Suc n)
  show ?case
  proof (cases "12 \<le> length (unread s)")
    case False
    then show ?thesis using Suc.prems by (intro exI [of _ 1] exI [of _ mcs] exI [of _ s] exI [of _ "[]"]) (simp add: s_check_rem_wf)
  next
    case True
    let ?s = "advance 12 s"
    define name where "name = take 8 (unread s)"
    have name: "in_uint8a 8 s = Some (name, advance 8 s)" using in_uint8a_at [of s 0 8] True Suc.prems(1) by (simp add: name_def)
    obtain flags where flags: "in_uint32_le (advance 8 s) = Some (flags, ?s)" using in_uint32_le_at [of s 8] True Suc.prems(1) by simp
    let ?c = "\<lparr>ch_name = take 7 name @ [0], ch_flags = c_int flags, ch_chanid = i, ch_disabled = False\<rparr>"
    let ?mcs = "mcs\<lparr>m_channel_list := m_channel_list mcs @ [?c]\<rparr>"
    have c: "channel_ok ?c" using True Suc.prems(2,3) by (simp add: channel_ok_def name_def)
    have p: "parsed s ?s" using True by (rule parsed_advance)
    have m: "mcs_ok ?mcs" using Suc.prems(4) by (simp add: mcs_ok_def)
    obtain rv mcs' s' added where "read_channels n (i + 1) ?mcs ?s = Some (rv, mcs', s')" "parsed ?s s'" "mcs_ok mcs'" "length added \<le> n"
      "\<forall>c \<in> set added. channel_ok c" "m_channel_list mcs' = m_channel_list ?mcs @ added" "m_client_mcs_data mcs' = m_client_mcs_data ?mcs"
      "m_server_mcs_data mcs' = m_server_mcs_data ?mcs" "m_expecting_channel_join_requests mcs' = m_expecting_channel_join_requests ?mcs"
      using Suc.IH [of ?s "i + 1" ?mcs] parsed_wf [OF Suc.prems(1) p] Suc.prems(2,3) m by auto
    then show ?thesis
      using True Suc.prems(1) name flags c parsed_trans [OF Suc.prems(1) p]
      by (intro exI [of _ rv] exI [of _ mcs'] exI [of _ s'] exI [of _ "?c # added"]) (auto simp: s_check_rem_wf)
  qed
qed

lemma channels_block:
  assumes "in_wf s" "sec_ok self"
  shows "block_done self s (xrdp_sec_process_mcs_data_channels self s)"
proof (cases "ci_channels_allowed (sec_client_info self) = 0 \<or> length (unread s) < 4")
  case True
  then show ?thesis using assms by (auto simp: block_done_def xrdp_sec_process_mcs_data_channels_def s_check_rem_wf)
next
  case False
  obtain v where v: "in_uint32_le s = Some (v, advance 4 s)" using in_32 [OF assms(1)] False by auto
  have p: "parsed s (advance 4 s)" using False by (intro parsed_advance) simp
  show ?thesis
  proof (cases "c_int v > 31")
    case True
    then show ?thesis using assms v False by (auto simp: block_done_def xrdp_sec_process_mcs_data_channels_def s_check_rem_wf)
  next
    case small: False
    have n: "1004 + int (nat (c_int v)) \<le> 1035" using small by simp
    have mo: "mcs_ok (sec_mcs_layer self)" using assms(2) by (simp add: sec_ok_def)
    obtain rv mcs' s' added where r: "read_channels (nat (c_int v)) 1004 (sec_mcs_layer self) (advance 4 s) = Some (rv, mcs', s')"
      "parsed (advance 4 s) s'" "mcs_ok mcs'" "length added \<le> nat (c_int v)" "\<forall>c \<in> set added. channel_ok c"
      "m_channel_list mcs' = m_channel_list (sec_mcs_layer self) @ added" "m_client_mcs_data mcs' = m_client_mcs_data (sec_mcs_layer self)"
      "m_server_mcs_data mcs' = m_server_mcs_data (sec_mcs_layer self)"
      "m_expecting_channel_join_requests mcs' = m_expecting_channel_join_requests (sec_mcs_layer self)"
      using read_channels_ok [OF parsed_wf [OF assms(1) p] _ n mo] by auto
    have "sec_step 31 self (self\<lparr>sec_mcs_layer := mcs'\<rparr>)"
      using r small False assms(2) by (auto simp: sec_step_def sec_ok_def)
    then show ?thesis using v r(1) small False assms parsed_fields [OF r(2)]
      by (auto simp: block_done_def xrdp_sec_process_mcs_data_channels_def s_check_rem_wf Let_def)
  qed
qed

lemma zero_description_ok: "description_ok zero_description" "ds_monitorCount zero_description < 16"
  by (simp_all add: description_ok_def zero_description_def)

lemma sec_step_sizes:
  "sec_ok self \<Longrightarrow> description_ok d \<Longrightarrow> ds_monitorCount d < 16 \<Longrightarrow>
     sec_step 31 self (self\<lparr>sec_client_info := (sec_client_info self)\<lparr>ci_display_sizes := d\<rparr>\<rparr>)"
  by (simp add: sec_step_def sec_ok_def)

lemma monitors_block:
  assumes "in_wf s" "sec_ok self"
  shows "block_done self s (xrdp_sec_process_mcs_data_monitors self s)"
proof (cases "ci_multimon (sec_client_info self) \<noteq> 1 \<or> length (unread s) < 4")
  case True
  then show ?thesis using assms by (auto simp: block_done_def xrdp_sec_process_mcs_data_monitors_def s_check_rem_wf)
next
  case False
  obtain v where v: "in_uint32_le s = Some (v, advance 4 s)" using in_32 [OF assms(1)] False by auto
  have p: "parsed s (advance 4 s)" using False by (intro parsed_advance) simp
  obtain rv d s' where m: "libxrdp_process_monitor_stream False (advance 4 s) (Some zero_description) = Some (rv, Some d, s')" "parsed (advance 4 s) s'"
    "description_ok d" "rv = 0 \<longrightarrow> ds_monitorCount d < 16"
    using process_monitor_stream_ok [OF parsed_wf [OF assms(1) p] zero_description_ok(1)] by blast
  show ?thesis
    using False v m assms parsed_fields [OF p] parsed_fields [OF m(2)] sec_step_sizes [OF assms(2), of d]
    by (auto simp: block_done_def xrdp_sec_process_mcs_data_monitors_def s_check_rem_wf)
qed

lemma monitors_ex_block:
  assumes "in_wf s" "sec_ok self" and room: "ci_multimon (sec_client_info self) \<noteq> 1 \<or> s_end s + 308 \<le> s_size s"
  shows "block_done self s (xrdp_sec_process_mcs_data_monitors_ex self s)"
proof (cases "ci_multimon (sec_client_info self) \<noteq> 1 \<or> length (unread s) < 4")
  case True
  then show ?thesis using assms by (auto simp: block_done_def xrdp_sec_process_mcs_data_monitors_ex_def s_check_rem_wf)
next
  case False
  obtain v where v: "in_uint32_le s = Some (v, advance 4 s)" using in_32 [OF assms(1)] False by auto
  have d: "description_ok (ci_display_sizes (sec_client_info self))" "ds_monitorCount (ci_display_sizes (sec_client_info self)) < 16"
    using assms(2) by (simp_all add: sec_ok_def)
  have "s_p s + length (unread s) = s_end s" using assms(1) by (simp add: length_unread in_wf_def)
  then have "s_p (advance 4 s) + 308 \<le> s_size (advance 4 s)" using room False by auto
  from monitor_ex_buffer [OF d this]
  obtain rv d' s' where m: "libxrdp_process_monitor_ex_stream (advance 4 s) (Some (ci_display_sizes (sec_client_info self))) = Some (rv, Some d', s')"
    "description_ok d'" "ds_monitorCount d' < 16" "s_data s' = s_data s" "s_end s' = s_end s"
    by auto
  show ?thesis
    using False v m assms sec_step_sizes [OF assms(2), of d']
    by (auto simp: block_done_def xrdp_sec_process_mcs_data_monitors_ex_def s_check_rem_wf)
qed

lemma sec_step_trans: "sec_step a x y \<Longrightarrow> sec_step b y z \<Longrightarrow> sec_step (a + b) x z"
  by (auto simp: sec_step_def)

lemma sec_step_mono: "sec_step a x y \<Longrightarrow> a \<le> b \<Longrightarrow> sec_step b x y"
  by (auto simp: sec_step_def)

lemma block_ok:
  assumes "in_wf s" "sec_ok self" "ci_multimon (sec_client_info self) \<noteq> 1 \<or> s_end s + 308 \<le> s_size s"
  shows "block_done self s (process_block r tag self s)"
  using core_block [OF assms(1,2)] security_block [OF assms(1,2)] channels_block [OF assms(1,2)] monitors_block [OF assms(1,2)]
    monitors_ex_block [OF assms] assms(2)
  by (simp add: process_block_def) (simp add: block_done_def)

subsection \<open>All blocks\<close>

lemma blocks_ok:
  "in_wf s \<Longrightarrow> sec_ok self \<Longrightarrow> ci_multimon (sec_client_info self) \<noteq> 1 \<or> s_end s + 308 \<le> s_size s \<Longrightarrow>
     \<exists>rv self' s'. process_blocks r self s = Some (rv, self', s') \<and> rv \<in> {0, 1} \<and> s_data s' = s_data s \<and> s_end s' = s_end s \<and>
       sec_step (31 * (length (unread s) div 4)) self self'"
proof (induction "length (unread s)" arbitrary: s self rule: less_induct)
  case less
  show ?case
  proof (cases "4 \<le> length (unread s)")
    case False
    then show ?thesis using less.prems by (subst process_blocks.simps) (simp add: s_check_rem_wf)
  next
    case True
    let ?s = "advance 4 s"
    have p: "parsed s ?s" using True by (rule parsed_advance)
    note wf = parsed_wf [OF less.prems(1) p]
    obtain tag where tag: "in_uint16_le s = Some (tag, advance 2 s)" using in_16 [OF less.prems(1)] True by auto
    have "in_wf (advance 2 s)" "2 \<le> length (unread (advance 2 s))" using less.prems(1) True by (simp_all add: advance_wf unread_advance)
    then obtain size where size: "in_uint16_le (advance 2 s) = Some (size, ?s)" "0 \<le> size" "size < 65536" using in_two_le_ok by fastforce
    note head = True tag size(1) less.prems(1)
    show ?thesis
    proof (cases "size < 4 \<or> \<not> s_check_rem ?s (size - 4)")
      case True
      then show ?thesis using head less.prems(2) by (subst process_blocks.simps) (auto simp: s_check_rem_wf Let_def)
    next
      case False
      then have fits: "nat size \<le> length (unread s)" "4 \<le> nat size"
        using wf True less.prems(1) size by (auto simp: s_check_rem_wf unread_advance)
      have room: "ci_multimon (sec_client_info self) \<noteq> 1 \<or> s_end ?s + 308 \<le> s_size ?s" using less.prems(3) by simp
      obtain rv self1 s1 where b: "process_block r tag self ?s = Some (rv, self1, s1)" "sec_step 31 self self1" "s_data s1 = s_data s" "s_end s1 = s_end s"
        using block_ok [OF wf less.prems(2) room, of r tag] by (auto simp: block_done_def)
      let ?n = "31 * (length (unread s) div 4)"
      have n: "31 \<le> ?n" using True by (simp add: Suc_le_eq div_greater_zero_iff)
      show ?thesis
      proof (cases "rv = 0")
        case False': False
        then show ?thesis using False head b sec_step_mono [OF b(2) n]
          by (subst process_blocks.simps) (auto simp: s_check_rem_wf Let_def)
      next
        case rv: True
        let ?t = "s1\<lparr>s_p := s_p s + nat size\<rparr>"
        have u: "unread ?t = unread (advance (nat size) s)" "in_wf ?t"
          using b(3,4) advance_wf [OF less.prems(1) fits(1)] by (simp_all add: unread_def in_wf_def advance_def)
        then have l: "length (unread ?t) + nat size = length (unread s)" using fits(1) less.prems(1) by (simp add: unread_advance)
        have ok: "sec_ok self1" "ci_multimon (sec_client_info self1) \<noteq> 1 \<or> s_end ?t + 308 \<le> s_size ?t"
          using b(2-4) less.prems(3) by (auto simp: sec_step_def)
        have "length (unread ?t) < length (unread s)" using l fits(2) by simp
        from less.hyps [OF this u(2) ok]
        obtain rv' self' s' where i: "process_blocks r self1 ?t = Some (rv', self', s')" "rv' \<in> {0, 1}" "s_data s' = s_data s1" "s_end s' = s_end s1"
          "sec_step (31 * (length (unread ?t) div 4)) self1 self'" by auto
        have "4 * 1 + length (unread ?t) \<le> length (unread s)" using l fits(2) by simp
        then have "1 + length (unread ?t) div 4 \<le> length (unread s) div 4" by linarith
        then have "31 + 31 * (length (unread ?t) div 4) \<le> ?n" by linarith
        from sec_step_mono [OF sec_step_trans [OF b(2) i(5)] this]
        have step: "sec_step ?n self self'" .
        show ?thesis using step False head b rv i
          by (subst process_blocks.simps) (auto simp: s_check_rem_wf Let_def)
      qed
    qed
  qed
qed

subsection \<open>The whole of the data\<close>

definition client_data_ok :: "xrdp_sec \<Rightarrow> bool" where
  "client_data_ok self \<longleftrightarrow>
     (let s = m_client_mcs_data (sec_mcs_layer self) in ci_multimon (sec_client_info self) \<noteq> 1 \<or> s_end s + 308 \<le> s_size s)"

lemma process_mcs_data_ok:
  assumes "sec_ok self" "client_data_ok self"
  shows "\<exists>rv self'. xrdp_sec_process_mcs_data r self = Some (rv, self') \<and> rv \<in> {0, 1} \<and> sec_ok self' \<and>
     contents (m_client_mcs_data (sec_mcs_layer self')) = contents (m_client_mcs_data (sec_mcs_layer self)) \<and>
     (\<exists>added. m_channel_list (sec_mcs_layer self') = m_channel_list (sec_mcs_layer self) @ added \<and>
        4 * length added \<le> 31 * length (contents (m_client_mcs_data (sec_mcs_layer self))) \<and> (ci_channels_allowed (sec_client_info self) = 0 \<longrightarrow> added = [])) \<and>
     (rv = 0 \<and> 0 < ci_max_bpp (sec_client_info self) \<longrightarrow> ci_bpp (sec_client_info self') \<le> ci_max_bpp (sec_client_info self))"
proof -
  let ?s = "(m_client_mcs_data (sec_mcs_layer self))\<lparr>s_p := 0\<rparr>"
  have m: "marked (m_client_mcs_data (sec_mcs_layer self))" using assms(1) by (simp add: sec_ok_def mcs_ok_def)
  have wf: "in_wf ?s" using m by (simp add: in_wf_def marked_def)
  have l: "length (unread ?s) = length (contents (m_client_mcs_data (sec_mcs_layer self)))" by (simp add: unread_def contents_def)
  have put: "sec_ok (self'\<lparr>sec_mcs_layer := (sec_mcs_layer self')\<lparr>m_client_mcs_data := s'\<rparr>\<rparr>)"
    if "sec_ok self'" "s_data s' = s_data ?s" "s_end s' = s_end ?s" for self' s'
    using that m by (simp add: sec_ok_def mcs_ok_def marked_def)
  show ?thesis
  proof (cases "23 \<le> length (unread ?s)")
    case False
    then show ?thesis using wf put [OF assms(1), of ?s] by (simp add: xrdp_sec_process_mcs_data_def Let_def s_check_rem_wf contents_def)
  next
    case True
    let ?t = "advance 23 ?s"
    have p: "parsed ?s ?t" using True by (rule parsed_advance)
    have room: "ci_multimon (sec_client_info self) \<noteq> 1 \<or> s_end ?t + 308 \<le> s_size ?t" using assms(2) by (simp add: client_data_ok_def Let_def)
    obtain rv self' s' where b: "process_blocks r self ?t = Some (rv, self', s')" "rv \<in> {0, 1}" "s_data s' = s_data ?s" "s_end s' = s_end ?s"
      "sec_step (31 * (length (unread ?t) div 4)) self self'"
      using blocks_ok [OF parsed_wf [OF wf p] assms(1) room, of r] by auto
    let ?n = "length (unread ?t) div 4" and ?c = "length (contents (m_client_mcs_data (sec_mcs_layer self)))"
    have "length (unread ?t) \<le> ?c" using True wf by (simp add: unread_advance flip: l)
    then have "4 * ?n \<le> ?c" by linarith
    then have n: "4 * k \<le> 31 * ?c" if "k \<le> 31 * ?n" for k using that by linarith
    obtain added where a: "m_channel_list (sec_mcs_layer self') = m_channel_list (sec_mcs_layer self) @ added" "length added \<le> 31 * ?n"
      "ci_channels_allowed (sec_client_info self) = 0 \<longrightarrow> added = []"
      using b(5) by (auto simp: sec_step_def)
    have ok: "sec_ok self'" "ci_max_bpp (sec_client_info self') = ci_max_bpp (sec_client_info self)" using b(5) by (auto simp: sec_step_def)
    have lim: "sec_ok (self'\<lparr>sec_client_info := limit_bpp (sec_client_info self')\<rparr>)" using ok(1) by (simp add: sec_ok_def limit_bpp_def)
    show ?thesis
    proof (cases "rv = 0")
      case z: True
      then show ?thesis using True wf b a n [OF a(2)] ok(2) put [OF lim, of "s'\<lparr>s_p := 0\<rparr>"]
        by (simp add: xrdp_sec_process_mcs_data_def Let_def s_check_rem_wf contents_def in_uint8s_advance limit_bpp_def)
    next
      case z: False
      then show ?thesis using True wf b a n [OF a(2)] put [OF ok(1), of s']
        by (simp add: xrdp_sec_process_mcs_data_def Let_def s_check_rem_wf contents_def in_uint8s_advance)
    qed
  qed
qed

text \<open>
  C23. Unless multiple monitors are allowed and less than 308 bytes of the buffer lie behind the data, no GCC data takes
  the reader out of its buffer or the state out of its type. Any bytes
  whatever are processed, to success or to an error: the loop ends, the channels that were added
  have a terminated name and an id from 1004 to 1034, the description of the screen and the keys
  stay well-formed, the colour depth respects the limit of the configuration, and the
  list of channels grows by at most 31 entries for four bytes of the input, and not at all if channels are disallowed.
  The case left out, which \<open>client_data_ok\<close> excludes, is a real one: the copy of a Connect-Initial fills its buffer, and with
  multiple monitors the reader of their extended attributes can then leave it (C22).
\<close>

theorem mcs_data_safe:
  assumes "sec_ok self" and "client_data_ok self"
  shows "\<exists>rv self'. xrdp_sec_process_mcs_data rfxcodec self = Some (rv, self') \<and> rv \<in> {0, 1} \<and> sec_ok self' \<and>
     (\<exists>added. m_channel_list (sec_mcs_layer self') = m_channel_list (sec_mcs_layer self) @ added \<and>
        4 * length added \<le> 31 * length (contents (m_client_mcs_data (sec_mcs_layer self))) \<and> (ci_channels_allowed (sec_client_info self) = 0 \<longrightarrow> added = [])) \<and>
     (rv = 0 \<and> 0 < ci_max_bpp (sec_client_info self) \<longrightarrow> ci_bpp (sec_client_info self') \<le> ci_max_bpp (sec_client_info self))"
  using process_mcs_data_ok [OF assms, of rfxcodec] by blast

subsection \<open>Counts that are checked block by block\<close>

lemma read_channels_full:
  "in_wf s \<Longrightarrow> 12 * n \<le> length (unread s) \<Longrightarrow>
     \<exists>mcs' s'. read_channels n i mcs s = Some (0, mcs', s') \<and> length (m_channel_list mcs') = length (m_channel_list mcs) + n \<and>
       m_server_mcs_data mcs' = m_server_mcs_data mcs \<and> parsed s s'"
proof (induction n arbitrary: i mcs s)
  case (Suc n)
  let ?s = "advance 12 s"
  have l: "12 \<le> length (unread s)" using Suc.prems(2) by simp
  have p: "parsed s ?s" using l by (rule parsed_advance)
  obtain name where name: "in_uint8a 8 s = Some (name, advance 8 s)" using in_uint8a_at [of s 0 8] l Suc.prems(1) by simp
  obtain flags where flags: "in_uint32_le (advance 8 s) = Some (flags, ?s)" using in_uint32_le_at [of s 8] l Suc.prems(1) by simp
  let ?mcs = "mcs\<lparr>m_channel_list := m_channel_list mcs @ [\<lparr>ch_name = take 7 name @ [0], ch_flags = c_int flags, ch_chanid = i, ch_disabled = False\<rparr>]\<rparr>"
  have "12 * n \<le> length (unread ?s)" using Suc.prems l by (simp add: unread_advance)
  from Suc.IH [OF parsed_wf [OF Suc.prems(1) p] this, of "i + 1" ?mcs]
  show ?case using name flags l Suc.prems(1) parsed_trans [OF Suc.prems(1) p] by (auto simp: s_check_rem_wf)
qed simp

definition crowded_block :: "byte list" where
  "crowded_block = [3, 0xc0, 8, 0, 31, 0, 0, 0]"

lemma advance_two: "advance (Suc (Suc 0)) s = advance 2 s"
  by (simp add: numeral_2_eq_2)

lemma crowded_blocks:
  "in_wf s \<Longrightarrow> unread s = concat (replicate n crowded_block) @ replicate 372 0 \<Longrightarrow> ci_channels_allowed (sec_client_info self) \<noteq> 0 \<Longrightarrow>
     \<exists>self' s'. process_blocks r self s = Some (0, self', s') \<and>
       length (m_channel_list (sec_mcs_layer self')) = length (m_channel_list (sec_mcs_layer self)) + 31 * n \<and>
       m_server_mcs_data (sec_mcs_layer self') = m_server_mcs_data (sec_mcs_layer self)"
proof (induction n arbitrary: s self)
  case 0
  then have u: "unread s = replicate 372 0" by simp
  have "in_uint16_le s = Some (0, advance 2 s)" using in_uint16_le_at [of s 0] 0(1) u by (simp add: advance_two)
  moreover have "in_uint16_le (advance 2 s) = Some (0, advance 4 s)" using in_uint16_le_at [of s 2] 0(1) u by simp
  ultimately show ?case using 0(1) u by (subst process_blocks.simps) (simp add: s_check_rem_wf)
next
  case (Suc n)
  let ?b = "advance 4 s" and ?c = "advance 8 s"
  have u: "unread s = crowded_block @ concat (replicate n crowded_block) @ replicate 372 0" using Suc.prems(2) by simp
  then have l: "8 + 372 \<le> length (unread s)" by (simp add: crowded_block_def)
  have w: "in_wf ?b" "in_wf ?c" using Suc.prems(1) l by (simp_all add: advance_wf)
  have rd: "in_uint16_le (advance 0 s) = Some (49155, advance 2 s)" "in_uint16_le (advance 2 s) = Some (8, ?b)" "in_uint32_le ?b = Some (31, ?c)"
    using Suc.prems(1) l by (simp_all add: at_simps u crowded_block_def advance_two del: advance_simps(1))
  have "12 * 31 \<le> length (unread ?c)" using Suc.prems(1) l by (simp add: unread_advance)
  from read_channels_full [OF w(2) this, of 1004 "sec_mcs_layer self"]
  obtain mcs s1 where c: "read_channels 31 1004 (sec_mcs_layer self) ?c = Some (0, mcs, s1)"
    "length (m_channel_list mcs) = length (m_channel_list (sec_mcs_layer self)) + 31"
    "m_server_mcs_data mcs = m_server_mcs_data (sec_mcs_layer self)" "parsed ?c s1"
    by blast
  let ?t = "s1\<lparr>s_p := s_p s + 8\<rparr>" and ?self = "self\<lparr>sec_mcs_layer := mcs\<rparr>"
  have t: "unread ?t = unread ?c" "in_wf ?t" using parsed_fields [OF c(4)] w(2) by (simp_all add: unread_def in_wf_def)
  have "unread ?c = concat (replicate n crowded_block) @ replicate 372 0" using Suc.prems(1) l u by (simp add: unread_advance crowded_block_def)
  then obtain self' s' where i: "process_blocks r ?self ?t = Some (0, self', s')"
    "length (m_channel_list (sec_mcs_layer self')) = length (m_channel_list mcs) + 31 * n"
    "m_server_mcs_data (sec_mcs_layer self') = m_server_mcs_data mcs"
    using Suc.IH [OF t(2), of ?self] t(1) Suc.prems(3) by auto
  have b: "process_block r 49155 self ?b = Some (0, ?self, s1)"
    using rd(3) c(1) w l Suc.prems(1,3) by (simp add: process_block_def xrdp_sec_process_mcs_data_channels_def s_check_rem_wf unread_advance c_int_id)
  have "s_check_rem s 4" "s_check_rem ?b 4" using w Suc.prems(1) l by (simp_all add: s_check_rem_wf unread_advance)
  then have "process_blocks r self s = process_blocks r ?self ?t" using rd(1,2) b by (subst process_blocks.simps) simp
  then show ?case using i c(2,3) by simp
qed

lemma out_channel_ids_room:
  "out_channel_ids m idxs s = Some s' \<Longrightarrow> s_p s' = s_p s + 2 * length idxs \<and> (s_p s \<le> s_size s \<longrightarrow> s_p s' \<le> s_size s) \<and> s_size s' = s_size s"
proof (induction idxs arbitrary: s)
  case (Cons i idxs)
  from Cons.prems show ?case
    by (auto simp: Option.bind_eq_Some_conv out_defs out_bytes_def split: if_split_asm dest!: Cons.IH)
qed simp

definition in_room :: "nat \<Rightarrow> stream \<Rightarrow> bool" where
  "in_room n s \<longleftrightarrow> s_size s = n \<and> s_p s \<le> n"

lemma out_room:
  "out_uint8 v s = Some s' \<Longrightarrow> in_room n s \<Longrightarrow> in_room n s'"
  "out_uint16_le v s = Some s' \<Longrightarrow> in_room n s \<Longrightarrow> in_room n s'"
  "out_uint16_be v s = Some s' \<Longrightarrow> in_room n s \<Longrightarrow> in_room n s'"
  "out_uint32_le v s = Some s' \<Longrightarrow> in_room n s \<Longrightarrow> in_room n s'"
  "out_uint8s k s = Some s' \<Longrightarrow> in_room n s \<Longrightarrow> in_room n s'"
  "out_server_core_data i s = Some s' \<Longrightarrow> in_room n s \<Longrightarrow> in_room n s'"
  by (auto simp: out_server_core_data_def Let_def in_room_def out_defs out_uint8s_def out_bytes_def Option.bind_eq_Some_conv split: if_split_asm)

lemma bind_room_None:
  "in_room n s \<Longrightarrow> (\<And>s'. f s = Some s' \<Longrightarrow> in_room n s \<Longrightarrow> in_room n s') \<Longrightarrow> (\<And>s'. in_room n s' \<Longrightarrow> k s' = None) \<Longrightarrow> Option.bind (f s) k = None"
  by (cases "f s") auto

lemma out_gcc_fails:
  assumes "s_size (m_server_mcs_data self) \<le> 8192" "4096 < length (m_channel_list self)"
  shows "xrdp_mcs_out_gcc_data junk keys iso_layer self = None"
proof -
  let ?l = "length (m_channel_list self)"
  have room: "in_room 8192 (init_stream junk 8192 (m_server_mcs_data self))" using assms(1) by (simp add: in_room_def)
  have ids: "Option.bind (out_channel_ids ?l [0..<?l + ?l mod 2] s) k = None" if "in_room 8192 s" for s k
    using that assms(2) out_channel_ids_room [of ?l "[0..<?l + ?l mod 2]" s]
    by (cases "out_channel_ids ?l [0..<?l + ?l mod 2] s") (auto simp: in_room_def)
  show ?thesis
    unfolding xrdp_mcs_out_gcc_data_def Let_def
    by (rule bind_room_None, rule room, erule out_room, assumption)
      ((rule bind_room_None, assumption, erule out_room, assumption)+, rule ids, assumption)
qed

text \<open>
  C26. The limit of 31 channels holds for one block only. The length of a block of channels is not compared
  with what is read from it, so blocks of eight bytes can each announce 31 channels and find them in the
  blocks that follow. Any number of such blocks is accepted, each adds 31 channels, and with 133 of them, in
  less than 1500 bytes of input, the server's answer leaves its buffer of 8192 bytes.
\<close>

theorem crowded_channel_blocks:
  assumes "contents (m_client_mcs_data (sec_mcs_layer self)) = replicate 23 0 @ concat (replicate n crowded_block) @ replicate 372 0"
    and "marked (m_client_mcs_data (sec_mcs_layer self))" and "ci_channels_allowed (sec_client_info self) \<noteq> 0"
    and "s_size (m_server_mcs_data (sec_mcs_layer self)) \<le> 8192"
  shows "\<exists>self'. xrdp_sec_process_mcs_data rfxcodec self = Some (0, self') \<and>
     length (m_channel_list (sec_mcs_layer self')) = length (m_channel_list (sec_mcs_layer self)) + 31 * n \<and>
     (133 \<le> n \<longrightarrow> xrdp_mcs_out_gcc_data junk keys iso_layer (sec_mcs_layer self') = None)"
proof -
  let ?s = "(m_client_mcs_data (sec_mcs_layer self))\<lparr>s_p := 0\<rparr>"
  have wf: "in_wf ?s" using assms(2) by (simp add: in_wf_def marked_def)
  have u: "unread ?s = replicate 23 0 @ concat (replicate n crowded_block) @ replicate 372 0" using assms(1) by (simp add: unread_def contents_def)
  then have l: "23 \<le> length (unread ?s)" by simp
  have "unread (advance 23 ?s) = concat (replicate n crowded_block) @ replicate 372 0" "in_wf (advance 23 ?s)"
    using wf l u by (simp_all add: unread_advance advance_wf)
  from crowded_blocks [OF this(2,1) assms(3), of rfxcodec]
  obtain self1 s1 where b: "process_blocks rfxcodec self (advance 23 ?s) = Some (0, self1, s1)"
    "length (m_channel_list (sec_mcs_layer self1)) = length (m_channel_list (sec_mcs_layer self)) + 31 * n"
    "m_server_mcs_data (sec_mcs_layer self1) = m_server_mcs_data (sec_mcs_layer self)" by blast
  let ?self = "self1\<lparr>sec_client_info := limit_bpp (sec_client_info self1), sec_mcs_layer := (sec_mcs_layer self1)\<lparr>m_client_mcs_data := s1\<lparr>s_p := 0\<rparr>\<rparr>\<rparr>"
  have "xrdp_sec_process_mcs_data rfxcodec self = Some (0, ?self)"
    using l wf b(1) by (simp add: xrdp_sec_process_mcs_data_def Let_def s_check_rem_wf in_uint8s_advance)
  moreover have "xrdp_mcs_out_gcc_data junk keys iso_layer (sec_mcs_layer ?self) = None" if "133 \<le> n"
    using that b assms(4) by (intro out_gcc_fails) simp_all
  ultimately show ?thesis using b(2) by (intro exI [of _ ?self]) simp
qed

subsection \<open>Well-formed blocks\<close>

datatype client_block =
  Net "(byte list \<times> int) list"
| Security int
| Other int "byte list"

fun block_wire :: "client_block \<Rightarrow> byte list" where
  "block_wire (Net cs) = ud_block SEC_TAG_CLI_CHANNELS (le_bytes 4 (int (length cs)) @ concat (map (\<lambda>(name, flags). name @ le_bytes 4 flags) cs))"
| "block_wire (Security methods) = ud_block SEC_TAG_CLI_CRYPT (le_bytes 4 methods @ le_bytes 4 0)"
| "block_wire (Other tag body) = ud_block tag body"

fun block_valid :: "client_block \<Rightarrow> bool" where
  "block_valid (Net cs) \<longleftrightarrow> length cs \<le> 31 \<and> (\<forall>(name, flags) \<in> set cs. length name = 8 \<and> 0 \<le> flags \<and> flags < 2 ^ 32)"
| "block_valid (Security methods) \<longleftrightarrow> 0 \<le> methods \<and> methods < 2 ^ 32"
| "block_valid (Other tag body) \<longleftrightarrow> 0 \<le> tag \<and> tag < 2 ^ 16 \<and> tag \<notin> {0xc001, 0xc002, 0xc003, 0xc005, 0xc008} \<and> length body < 2 ^ 16 - 4"

fun channel_items :: "int \<Rightarrow> (byte list \<times> int) list \<Rightarrow> mcs_channel_item list" where
  "channel_items i [] = []"
| "channel_items i ((name, flags) # cs) =
     \<lparr>ch_name = take 7 name @ [0], ch_flags = c_int flags, ch_chanid = i, ch_disabled = False\<rparr> # channel_items (i + 1) cs"

text \<open>What a block means, without its encoding.\<close>

fun block_meaning :: "client_block \<Rightarrow> xrdp_sec \<Rightarrow> xrdp_sec" where
  "block_meaning (Net cs) self =
     (if ci_channels_allowed (sec_client_info self) = 0 then self
      else self\<lparr>sec_mcs_layer := (sec_mcs_layer self)\<lparr>m_channel_list := m_channel_list (sec_mcs_layer self) @ channel_items 1004 cs,
                  m_chanid := 1004 + int (length cs), m_userid := 3 + int (length cs)\<rparr>\<rparr>)"
| "block_meaning (Security methods) self =
     self\<lparr>sec_security := choose_security (selectedProtocol (sec_iso_layer self)) (c_int methods) (sec_security self)\<rparr>"
| "block_meaning (Other tag body) self = self"

lemma read_channels_items:
  "in_wf s \<Longrightarrow> unread s = concat (map (\<lambda>(name, flags). name @ le_bytes 4 flags) cs) @ rest \<Longrightarrow>
     \<forall>(name, flags) \<in> set cs. length name = 8 \<and> 0 \<le> flags \<and> flags < 2 ^ 32 \<Longrightarrow>
     \<exists>s'. read_channels (length cs) i mcs s =
       Some (0, mcs\<lparr>m_channel_list := m_channel_list mcs @ channel_items i cs, m_chanid := i + int (length cs),
                    m_userid := i + int (length cs) - MCS_USERCHANNEL_BASE\<rparr>, s') \<and> parsed s s'"
proof (induction cs arbitrary: i mcs s)
  case Nil
  then show ?case by (intro exI [of _ s]) simp
next
  case (Cons c cs)
  obtain name flags where c: "c = (name, flags)" by fastforce
  have v: "length name = 8" "0 \<le> flags" "flags < 2 ^ 32" using Cons.prems(3) c by auto
  let ?s = "advance 12 s" and ?rest = "concat (map (\<lambda>(name, flags). name @ le_bytes 4 flags) cs) @ rest"
  have u: "unread s = name @ le_bytes 4 flags @ ?rest" using Cons.prems(2) c by simp
  have l: "12 \<le> length (unread s)" using u v(1) by (simp del: le_bytes.simps)
  have p: "parsed s ?s" using l by (rule parsed_advance)
  have n: "in_uint8a 8 s = Some (name, advance 8 s)" using in_uint8a_at [of s 0 8] l Cons.prems(1) u v(1) by simp
  have f: "in_uint32_le (advance 8 s) = Some (flags, ?s)"
    using in_uint32_le_at [of s 8] l Cons.prems(1) u v le_val_le_bytes [of 4 flags] by (simp del: le_bytes.simps)
  have u': "unread ?s = ?rest" using Cons.prems(1) l u v(1) by (simp add: unread_advance del: le_bytes.simps)
  let ?mcs = "mcs\<lparr>m_channel_list := m_channel_list mcs @ [\<lparr>ch_name = take 7 name @ [0], ch_flags = c_int flags, ch_chanid = i, ch_disabled = False\<rparr>]\<rparr>"
  have v': "\<forall>(name, flags) \<in> set cs. length name = 8 \<and> 0 \<le> flags \<and> flags < 2 ^ 32" using Cons.prems(3) by simp
  from Cons.IH [OF parsed_wf [OF Cons.prems(1) p] u' v', of "i + 1" ?mcs]
  obtain s' where i: "read_channels (length cs) (i + 1) ?mcs ?s =
      Some (0, ?mcs\<lparr>m_channel_list := m_channel_list ?mcs @ channel_items (i + 1) cs, m_chanid := i + 1 + int (length cs),
                    m_userid := i + 1 + int (length cs) - MCS_USERCHANNEL_BASE\<rparr>, s')" "parsed ?s s'" by blast
  then show ?case using n f l Cons.prems(1) c parsed_trans [OF Cons.prems(1) p i(2)]
    by (simp add: s_check_rem_wf algebra_simps)
qed

lemma one_block:
  assumes wf: "in_wf s" and u: "unread s = ud_block tag body @ rest" and tag: "0 \<le> tag" "tag < 2 ^ 16" and len: "length body < 2 ^ 16 - 4"
    and b: "process_block r tag self (advance 4 s) = Some (0, self', s1)" "parsed (advance 4 s) s1"
  shows "process_blocks r self s = process_blocks r self' (advance (4 + length body) s)"
proof -
  have u': "unread s = le_bytes 2 tag @ le_bytes 2 (int (length body) + 4) @ body @ rest" using u by (simp add: ud_block_def del: le_bytes.simps)
  then have l: "4 + length body \<le> length (unread s)" by (simp del: le_bytes.simps)
  have two: "le_val (le_bytes 2 v) = v" if "0 \<le> v" "v < 2 ^ 16" for v using that by simp
  have rd: "in_uint16_le x = Some (v, advance 2 x)" if "in_wf x" "unread x = le_bytes 2 v @ y" "0 \<le> v" "v < 2 ^ 16" for x v y
    using in_bytes_prefix [OF that(1,2)] two [OF that(3,4)] by (simp add: in_uint16_le_def advance_def del: le_bytes.simps)
  have h1: "in_uint16_le s = Some (tag, advance 2 s)" using rd [OF wf u' tag] .
  have w2: "in_wf (advance 2 s)" "unread (advance 2 s) = le_bytes 2 (int (length body) + 4) @ body @ rest"
    using wf l by (simp_all add: advance_wf unread_advance u' del: le_bytes.simps)
  have h2: "in_uint16_le (advance 2 s) = Some (int (length body) + 4, advance 4 s)" using rd [OF w2] len by simp
  have c: "s_check_rem s 4" "s_check_rem (advance 4 s) (int (length body) + 4 - 4)"
    using l wf len advance_wf [OF wf, of 4] by (simp_all add: s_check_rem_wf unread_advance)
  obtain k where "s1 = advance k (advance 4 s)" using b(2) by (auto simp: parsed_def)
  then have t: "s1\<lparr>s_p := s_p s + nat (int (length body) + 4)\<rparr> = advance (4 + length body) s"
    by (simp add: advance_def nat_add_distrib add.commute)
  show ?thesis using h1 h2 c b(1) t by (subst process_blocks.simps) simp
qed

lemma net_block_meaning:
  assumes "in_wf s" "block_valid (Net cs)"
    and u: "unread s = le_bytes 4 (int (length cs)) @ concat (map (\<lambda>(name, flags). name @ le_bytes 4 flags) cs) @ rest"
  shows "\<exists>s'. xrdp_sec_process_mcs_data_channels self s = Some (0, block_meaning (Net cs) self, s') \<and> parsed s s'"
proof (cases "ci_channels_allowed (sec_client_info self) = 0")
  case True
  then show ?thesis by (simp add: xrdp_sec_process_mcs_data_channels_def)
next
  case False
  have l: "4 \<le> length (unread s)" using u by (simp del: le_bytes.simps)
  have p: "parsed s (advance 4 s)" using l by (rule parsed_advance)
  have n: "in_uint32_le s = Some (int (length cs), advance 4 s)"
    using in_uint32_le_at [of s 0] l assms(1,2) u by (simp del: le_bytes.simps)
  have u4: "unread (advance 4 s) = concat (map (\<lambda>(name, flags). name @ le_bytes 4 flags) cs) @ rest"
    using assms(1) l by (simp add: unread_advance u del: le_bytes.simps)
  obtain s' where r: "read_channels (length cs) 1004 (sec_mcs_layer self) (advance 4 s) =
       Some (0, (sec_mcs_layer self)\<lparr>m_channel_list := m_channel_list (sec_mcs_layer self) @ channel_items 1004 cs, m_chanid := 1004 + int (length cs),
                    m_userid := 1004 + int (length cs) - MCS_USERCHANNEL_BASE\<rparr>, s')" "parsed (advance 4 s) s'"
    using read_channels_items [OF parsed_wf [OF assms(1) p] u4, of 1004 "sec_mcs_layer self"] assms(2) by auto
  have "c_int (int (length cs)) = int (length cs)" using assms(2) by (simp add: c_int_id)
  then show ?thesis using False n l assms(1,2) r(1) parsed_trans [OF assms(1) p r(2)]
    by (simp add: xrdp_sec_process_mcs_data_channels_def s_check_rem_wf)
qed

lemma security_block_meaning:
  assumes "in_wf s" "block_valid (Security methods)" and u: "unread s = le_bytes 4 methods @ rest"
  shows "xrdp_sec_process_mcs_data_CS_SECURITY self s = Some (0, block_meaning (Security methods) self, advance 4 s) \<and> parsed s (advance 4 s)"
proof -
  have l: "4 \<le> length (unread s)" using u by (simp del: le_bytes.simps)
  have "in_uint32_le s = Some (methods, advance 4 s)" using in_uint32_le_at [of s 0] l assms(1,2) u by (simp del: le_bytes.simps)
  then show ?thesis using l assms(1) parsed_advance [OF l] by (simp add: xrdp_sec_process_mcs_data_CS_SECURITY_def s_check_rem_wf)
qed

lemma length_net: "\<forall>(name, flags) \<in> set cs. length name = 8 \<Longrightarrow> length (concat (map (\<lambda>(name, flags). name @ le_bytes 4 flags) cs)) = 12 * length cs"
  by (induction cs) (auto simp del: le_bytes.simps)

lemma block_step:
  assumes "in_wf s" "block_valid b" "unread s = block_wire b @ rest"
  shows "process_blocks r self s = process_blocks r (block_meaning b self) (advance (length (block_wire b)) s)"
proof -
  have w: "in_wf (advance 4 s)" if "4 \<le> length (unread s)" using that assms(1) by (rule advance_wf [rotated])
  have un: "unread (advance 4 s) = body @ rest" if "unread s = ud_block tag body @ rest" for tag body
    using that assms(1) by (simp add: unread_advance ud_block_def del: le_bytes.simps)
  have lw: "length (ud_block tag body) = 4 + length body" for tag body by (simp add: ud_block_def del: le_bytes.simps)
  show ?thesis
  proof (cases b)
    case (Net cs)
    let ?body = "le_bytes 4 (int (length cs)) @ concat (map (\<lambda>(name, flags). name @ le_bytes 4 flags) cs)"
    have u: "unread s = ud_block 0xc003 ?body @ rest" using assms(3) Net by (simp del: le_bytes.simps)
    have "4 \<le> length (unread s)" unfolding u by (simp add: lw del: le_bytes.simps)
    note wf = w [OF this]
    obtain s' where c: "xrdp_sec_process_mcs_data_channels self (advance 4 s) = Some (0, block_meaning (Net cs) self, s')" "parsed (advance 4 s) s'"
      using net_block_meaning [OF wf, of cs rest self] un [OF u] assms(2) Net by (auto simp del: le_bytes.simps block_meaning.simps)
    have "\<forall>(name, flags) \<in> set cs. length name = 8" using assms(2) Net by auto
    then have len: "length ?body < 2 ^ 16 - 4" using length_net [of cs] assms(2) Net by (simp del: le_bytes.simps)
    have "process_block r 0xc003 self (advance 4 s) = Some (0, block_meaning (Net cs) self, s')" using c(1) by (simp add: process_block_def del: block_meaning.simps)
    from one_block [OF assms(1) u _ _ len this c(2)] show ?thesis using Net by (simp add: lw del: le_bytes.simps block_meaning.simps)
  next
    case (Security m)
    let ?body = "le_bytes 4 m @ le_bytes 4 0"
    have u: "unread s = ud_block 0xc002 ?body @ rest" using assms(3) Security by (simp del: le_bytes.simps)
    have "4 \<le> length (unread s)" unfolding u by (simp add: lw del: le_bytes.simps)
    note wf = w [OF this]
    have c: "xrdp_sec_process_mcs_data_CS_SECURITY self (advance 4 s) = Some (0, block_meaning (Security m) self, advance 4 (advance 4 s))"
      "parsed (advance 4 s) (advance 4 (advance 4 s))"
      using security_block_meaning [OF wf, of m "le_bytes 4 0 @ rest" self] un [OF u] assms(2) Security by (auto simp del: le_bytes.simps block_meaning.simps advance_simps)
    have "process_block r 0xc002 self (advance 4 s) = Some (0, block_meaning (Security m) self, advance 4 (advance 4 s))"
      using c(1) by (simp add: process_block_def del: block_meaning.simps)
    from one_block [OF assms(1) u _ _ _ this c(2)] show ?thesis using Security by (simp add: lw del: le_bytes.simps block_meaning.simps)
  next
    case (Other tag body)
    have u: "unread s = ud_block tag body @ rest" using assms(3) Other by simp
    have "process_block r tag self (advance 4 s) = Some (0, self, advance 4 s)" using assms(2) Other by (simp add: process_block_def)
    from one_block [OF assms(1) u _ _ _ this parsed_refl] show ?thesis using Other assms(2) by (simp add: lw)
  qed
qed

lemma blocks_meaning:
  "in_wf s \<Longrightarrow> \<forall>b \<in> set bs. block_valid b \<Longrightarrow> unread s = concat (map block_wire bs) \<Longrightarrow>
     process_blocks r self s = Some (0, fold block_meaning bs self, advance (length (unread s)) s)"
proof (induction bs arbitrary: self s)
  case Nil
  then show ?case by (subst process_blocks.simps) (simp add: s_check_rem_wf)
next
  case (Cons b bs)
  have u: "unread s = block_wire b @ concat (map block_wire bs)" using Cons.prems(3) by simp
  let ?n = "length (block_wire b)"
  have n: "?n \<le> length (unread s)" using u by simp
  have w: "in_wf (advance ?n s)" "unread (advance ?n s) = concat (map block_wire bs)" using Cons.prems(1) n u by (simp_all add: advance_wf unread_advance)
  have v: "\<forall>b \<in> set bs. block_valid b" using Cons.prems(2) by simp
  have "process_blocks r self s = process_blocks r (block_meaning b self) (advance ?n s)"
    using block_step [OF Cons.prems(1) _ u] Cons.prems(2) by simp
  also have "\<dots> = Some (0, fold block_meaning bs (block_meaning b self), advance (length (unread (advance ?n s))) (advance ?n s))"
    by (rule Cons.IH [OF w(1) v w(2)])
  finally show ?case using u w(2) by simp
qed

lemma blocks_applied:
  assumes "marked (m_client_mcs_data (sec_mcs_layer self))" and "length header = 23" and "\<forall>b \<in> set bs. block_valid b"
    and "contents (m_client_mcs_data (sec_mcs_layer self)) = header @ concat (map block_wire bs)"
  shows "xrdp_sec_process_mcs_data rfxcodec self =
     (let meant = fold block_meaning bs self
      in Some (0, meant\<lparr>sec_client_info := limit_bpp (sec_client_info meant),
                        sec_mcs_layer := (sec_mcs_layer meant)\<lparr>m_client_mcs_data := (m_client_mcs_data (sec_mcs_layer self))\<lparr>s_p := 0\<rparr>\<rparr>\<rparr>))"
proof -
  let ?s = "(m_client_mcs_data (sec_mcs_layer self))\<lparr>s_p := 0\<rparr>"
  have wf: "in_wf ?s" using assms(1) by (simp add: in_wf_def marked_def)
  have u: "unread ?s = header @ concat (map block_wire bs)" using assms(4) by (simp add: unread_def contents_def)
  then have l: "23 \<le> length (unread ?s)" using assms(2) by simp
  have "unread (advance 23 ?s) = concat (map block_wire bs)" "in_wf (advance 23 ?s)"
    using wf l u assms(2) by (simp_all add: unread_advance advance_wf)
  from blocks_meaning [OF this(2) assms(3) this(1), of rfxcodec self]
  have b: "process_blocks rfxcodec self (advance 23 ?s) = Some (0, fold block_meaning bs self, advance (length (unread (advance 23 ?s))) (advance 23 ?s))" .
  have z: "(advance k ?s)\<lparr>s_p := 0\<rparr> = ?s" for k by (simp add: advance_def)
  show ?thesis using l wf b z by (simp add: xrdp_sec_process_mcs_data_def Let_def s_check_rem_wf in_uint8s_advance)
qed

text \<open>
  What the blocks ask for: the channels of all blocks of channels, and the methods of all blocks of security data. A level of
  encryption stands for one method, and the two sides agree on it if both have it.
\<close>

fun nets :: "client_block list \<Rightarrow> (byte list \<times> int) list list" where
  "nets [] = []"
| "nets (Net cs # bs) = cs # nets bs"
| "nets (b # bs) = nets bs"

fun methods :: "client_block list \<Rightarrow> int list" where
  "methods [] = []"
| "methods (Security m # bs) = c_int m # methods bs"
| "methods (b # bs) = methods bs"

definition level_method :: "int \<Rightarrow> int" where
  "level_method l = (if l = CRYPT_LEVEL_FIPS then CRYPT_METHOD_FIPS else if l = CRYPT_LEVEL_HIGH then CRYPT_METHOD_128BIT
     else if l \<in> {CRYPT_LEVEL_LOW, CRYPT_LEVEL_CLIENT_COMPATIBLE} then CRYPT_METHOD_40BIT else CRYPT_METHOD_NONE)"

definition agree :: "int \<Rightarrow> int \<Rightarrow> sec_keys \<Rightarrow> sec_keys" where
  "agree selected_protocol client_method k =
     (let m = level_method (crypt_level k);
          both = (if m = CRYPT_METHOD_NONE then crypt_level k = CRYPT_LEVEL_NONE \<and> client_method = CRYPT_METHOD_NONE
                  else crypt_method k AND m \<noteq> 0 \<and> client_method AND m \<noteq> 0)
      in if selected_protocol \<noteq> PROTOCOL_SSL \<and> both then k\<lparr>crypt_method := m\<rparr> else k)"

lemma choose_security_agree: "choose_security p m k = agree p m k"
  by (cases k) (auto simp: choose_security_def agree_def level_method_def)

definition net_meaning :: "(byte list \<times> int) list \<Rightarrow> xrdp_mcs \<Rightarrow> xrdp_mcs" where
  "net_meaning cs mcs = mcs\<lparr>m_channel_list := m_channel_list mcs @ channel_items 1004 cs, m_chanid := 1004 + int (length cs),
     m_userid := 3 + int (length cs)\<rparr>"

lemma fold_meaning:
  "fold block_meaning bs self = self\<lparr>
     sec_security := fold (agree (selectedProtocol (sec_iso_layer self))) (methods bs) (sec_security self),
     sec_mcs_layer := fold net_meaning (if ci_channels_allowed (sec_client_info self) = 0 then [] else nets bs) (sec_mcs_layer self)\<rparr>"
proof (induction bs arbitrary: self)
  case (Cons b bs)
  then show ?case by (cases b) (simp_all add: net_meaning_def choose_security_agree)
qed simp

lemma channel_items_nth:
  "length (channel_items k cs) = length cs"
  "i < length cs \<Longrightarrow> channel_items k cs ! i =
     \<lparr>ch_name = take 7 (fst (cs ! i)) @ [0], ch_flags = c_int (snd (cs ! i)), ch_chanid = k + int i, ch_disabled = False\<rparr>"
proof -
  show "length (channel_items k cs) = length cs" by (induction k cs rule: channel_items.induct) simp_all
  show "i < length cs \<Longrightarrow> channel_items k cs ! i =
     \<lparr>ch_name = take 7 (fst (cs ! i)) @ [0], ch_flags = c_int (snd (cs ! i)), ch_chanid = k + int i, ch_disabled = False\<rparr>"
    by (induction k cs arbitrary: i rule: channel_items.induct) (auto simp: nth_Cons split: nat.splits)
qed

text \<open>
  C25. GCC data made of well-formed blocks of channels, of security data and of types the program does not know means what the
  blocks say, in any order, if at most one is a block of channels and no channel is there before. The channels are exactly the ones of
  that block (none, if the configuration allows none), in its order, with its flags, with its names terminated after
  seven characters, and with the id the mapping of incoming PDUs relies on, the global channel's plus the index plus one;
  the channel of the user follows the last of them. Of the encryption only the method changes, to the one that stands for the
  level of the server, by a block in which the client offers it too and if the connection is not over TLS. But for the limit on the
  colour depth nothing else changes. Blocks of core data and of monitors are not covered, nor is a second block of
  channels, whose ids start again (lemmas \<open>blocks_applied\<close>, \<open>fold_meaning\<close>).
\<close>

theorem client_blocks_exact:
  assumes "marked (m_client_mcs_data (sec_mcs_layer self))" and "length header = 23" and "\<forall>b \<in> set bs. block_valid b"
    and "contents (m_client_mcs_data (sec_mcs_layer self)) = header @ concat (map block_wire bs)"
    and "m_channel_list (sec_mcs_layer self) = []" and "length (nets bs) \<le> 1"
    and cs: "cs = (if ci_channels_allowed (sec_client_info self) = 0 then [] else concat (nets bs))"
  shows "\<exists>self' list chanid userid. xrdp_sec_process_mcs_data rfxcodec self = Some (0, self') \<and>
     self' = self\<lparr>sec_client_info := limit_bpp (sec_client_info self),
       sec_security := fold (agree (selectedProtocol (sec_iso_layer self))) (methods bs) (sec_security self),
       sec_mcs_layer := (sec_mcs_layer self)\<lparr>m_channel_list := list, m_chanid := chanid, m_userid := userid,
         m_client_mcs_data := (m_client_mcs_data (sec_mcs_layer self))\<lparr>s_p := 0\<rparr>\<rparr>\<rparr> \<and>
     length list = length cs \<and>
     (\<forall>i < length cs. list ! i = \<lparr>ch_name = take 7 (fst (cs ! i)) @ [0], ch_flags = c_int (snd (cs ! i)),
        ch_chanid = MCS_GLOBAL_CHANNEL + int i + 1, ch_disabled = False\<rparr>) \<and>
     (if ci_channels_allowed (sec_client_info self) = 0 \<or> nets bs = []
      then chanid = m_chanid (sec_mcs_layer self) \<and> userid = m_userid (sec_mcs_layer self)
      else chanid = MCS_GLOBAL_CHANNEL + int (length cs) + 1 \<and> userid = chanid - MCS_USERCHANNEL_BASE)"
proof (cases "ci_channels_allowed (sec_client_info self) = 0 \<or> nets bs = []")
  case True
  then show ?thesis
    using assms(5) cs unfolding blocks_applied [OF assms(1-4)] fold_meaning by (auto simp: Let_def)
next
  case False
  then have n: "nets bs = [cs]" using assms(6) cs by (cases "nets bs") auto
  then show ?thesis
    using False assms(5) unfolding blocks_applied [OF assms(1-4)] fold_meaning
    by (auto simp: Let_def net_meaning_def channel_items_nth intro!: exI [of _ "channel_items 1004 cs"])
qed

subsection \<open>Witnesses\<close>

definition ex_client_info :: client_info where
  "ex_client_info =
     \<lparr>ci_bpp = 32, ci_max_bpp = 24, ci_client_name = [], ci_build = 0, ci_keylayout = 0, ci_keyboard_type = 0, ci_keyboard_subtype = 0,
      ci_channels_allowed = 1, ci_multimon = 0, ci_display_sizes = zero_description, ci_mcs_connection_type = 0,
      ci_mcs_early_capability_flags = 0, ci_session_physical_width = 0, ci_session_physical_height = 0, ci_gfx = 0\<rparr>"

definition ex_sec :: "byte list \<Rightarrow> xrdp_sec" where
  "ex_sec bs =
     \<lparr>sec_client_info = ex_client_info, sec_security = ex_keys, sec_mcs_layer = xrdp_mcs_create (buf bs 0 (length bs)) make_stream,
      sec_iso_layer = \<lparr>rdpNegData = False, requestedProtocol = 0, selectedProtocol = 0, failureCode = 0\<rparr>\<rparr>"

lemma ex_sec_ok: "length bs < 2 ^ 31 \<Longrightarrow> sec_ok (ex_sec bs) \<and> client_data_ok (ex_sec bs)"
  using ex_mcs_facts(4)
  by (simp add: sec_ok_def ex_sec_def ex_client_info_def zero_description_ok mcs_ok_def xrdp_mcs_create_def marked_def client_data_ok_def)

lemma mcs_data_safe_witness:
  "\<exists>rv self'. xrdp_sec_process_mcs_data True (ex_sec (replicate 30 1)) = Some (rv, self') \<and> sec_ok self'"
  using mcs_data_safe [of "ex_sec (replicate 30 1)" True] ex_sec_ok [of "replicate 30 1"] by auto

lemma crowded_channel_blocks_witness:
  "\<exists>self'. xrdp_sec_process_mcs_data True (ex_sec (replicate 23 0 @ concat (replicate 133 crowded_block) @ replicate 372 0)) = Some (0, self') \<and>
     xrdp_mcs_out_gcc_data (\<lambda>_. 0) ex_keys (sec_iso_layer (ex_sec [])) (sec_mcs_layer self') = None"
proof -
  let ?bs = "replicate 23 0 @ concat (replicate 133 crowded_block) @ replicate 372 0"
  have l: "length ?bs < 2 ^ 31" by (simp add: length_concat sum_list_replicate crowded_block_def)
  have "marked (m_client_mcs_data (sec_mcs_layer (ex_sec ?bs)))" using l by (simp add: ex_sec_def xrdp_mcs_create_def marked_def del: length_append)
  moreover have "contents (m_client_mcs_data (sec_mcs_layer (ex_sec ?bs))) = ?bs" by (simp add: ex_sec_def xrdp_mcs_create_def contents_def)
  ultimately show ?thesis
    using crowded_channel_blocks [of "ex_sec ?bs" 133 True "\<lambda>_. 0" ex_keys "sec_iso_layer (ex_sec [])"]
    by (auto simp: ex_sec_def ex_client_info_def xrdp_mcs_create_def make_stream_def)
qed

definition ex_asked :: xrdp_sec where
  "ex_asked = (ex_sec (replicate 23 0 @ concat (map block_wire [Other 0xc004 [1, 2], Security 3, Net [(replicate 8 65, 1), (replicate 8 66, 2)]])))
     \<lparr>sec_security := ex_keys\<lparr>crypt_method := 3, crypt_level := 3\<rparr>\<rparr>"

lemma client_blocks_exact_witness:
  "\<exists>self'. xrdp_sec_process_mcs_data True ex_asked = Some (0, self') \<and>
     crypt_method (sec_security self') = 2 \<and> ch_chanid (m_channel_list (sec_mcs_layer self') ! 1) = 1005 \<and> m_userid (sec_mcs_layer self') = 5"
proof -
  let ?bs = "[Other 0xc004 [1, 2], Security 3, Net [(replicate 8 65, 1), (replicate 8 66, 2)]]"
  have a: "marked (m_client_mcs_data (sec_mcs_layer ex_asked))" "\<forall>b \<in> set ?bs. block_valid b"
    "contents (m_client_mcs_data (sec_mcs_layer ex_asked)) = replicate 23 0 @ concat (map block_wire ?bs)"
    "m_channel_list (sec_mcs_layer ex_asked) = []" "length (nets ?bs) \<le> 1"
    by (simp_all add: ex_asked_def ex_sec_def xrdp_mcs_create_def marked_def contents_def ud_block_def del: le_bytes.simps)
  have f: "ci_channels_allowed (sec_client_info ex_asked) = 1" "selectedProtocol (sec_iso_layer ex_asked) = 0"
    "sec_security ex_asked = ex_keys\<lparr>crypt_method := 3, crypt_level := 3\<rparr>"
    by (simp_all add: ex_asked_def ex_sec_def ex_client_info_def)
  have m: "methods ?bs = [3]" by (simp add: c_int_def)
  have "crypt_method (agree 0 3 (ex_keys\<lparr>crypt_method := 3, crypt_level := 3\<rparr>)) = 2" by (simp add: agree_def level_method_def ex_keys_def)
  then show ?thesis
    using client_blocks_exact [OF a(1) length_replicate a(2-5) refl, of True] unfolding f m by auto
qed

end
