(* ===== verification/Sec_Sequence.thy ===== *)
theory Sec_Sequence
  imports Sec_Props
begin

text \<open>
  The MCS connection sequence as a whole: \<^verbatim>\<open>xrdp_mcs_incoming\<close> of \<^verbatim>\<open>libxrdp/xrdp_mcs.c\<close>, from the read of the
  Connect-Initial to the confirm of the attached user.
\<close>

subsection \<open>The connection sequence\<close>

text \<open>The reads in the middle of the sequence leave the channels and the output queue alone.\<close>

lemma recv_parsed_keeps:
  assumes "\<forall>s rv self' s'. parse self s = Some (rv, self', s') \<longrightarrow> (\<exists>u. self' = self\<lparr>m_userid := u\<rparr>)"
    and "marked (t_in_s tr)" "trans_ok tr"
    and "recv_parsed parse junk io self tr = Some (rv, self', tr')"
  shows "queued tr' = queued tr \<and> (\<exists>u. self' = self\<lparr>m_userid := u\<rparr>)"
proof -
  obtain rv1 tr1 where r: "libxrdp_force_read junk (read_header io) (read_body io) tr = Some (rv1, tr1)" "queued tr1 = queued tr"
    using force_read_pdu_ok [OF assms(2), of junk "read_header io" "read_body io"] assms(3) by auto
  have i: "\<exists>u. self = self\<lparr>m_userid := u\<rparr>" by (rule exI [of _ "m_userid self"]) simp
  show ?thesis
    using assms(4) r i by (auto simp: recv_parsed_def Option.bind_eq_Some_conv queued_def split: if_split_asm dest!: assms(1) [rule_format])
qed

lemma non_standard_keeps: "recv_non_standard op self s = Some (rv, self', s') \<Longrightarrow> \<exists>u. self' = self\<lparr>m_userid := u\<rparr>"
proof -
  have i: "\<exists>u. self = self\<lparr>m_userid := u\<rparr>" by (rule exI [of _ "m_userid self"]) simp
  show "recv_non_standard op self s = Some (rv, self', s') \<Longrightarrow> ?thesis"
    using i by (auto simp: recv_non_standard_def Option.bind_eq_Some_conv split: if_split_asm)
qed

lemma parse_keeps:
  "parse_edrq self s = Some (rv, self', s') \<Longrightarrow> \<exists>u. self' = self\<lparr>m_userid := u\<rparr>"
  "parse_aurq self s = Some (rv, self', s') \<Longrightarrow> \<exists>u. self' = self\<lparr>m_userid := u\<rparr>"
proof -
  have i: "\<exists>u. self = self\<lparr>m_userid := u\<rparr>" by (rule exI [of _ "m_userid self"]) simp
  show "parse_edrq self s = Some (rv, self', s') \<Longrightarrow> \<exists>u. self' = self\<lparr>m_userid := u\<rparr>"
    using i by (auto simp: parse_edrq_def Let_def Option.bind_eq_Some_conv split: if_split_asm dest!: non_standard_keeps)
  show "parse_aurq self s = Some (rv, self', s') \<Longrightarrow> \<exists>u. self' = self\<lparr>m_userid := u\<rparr>"
    using i by (auto simp: parse_aurq_def Option.bind_eq_Some_conv split: if_split_asm dest!: non_standard_keeps)
qed

lemma recv_domain_pdus_ok:
  assumes "mcs_ok self" "trans_ok tr" "in_wf (t_in_s tr)"
  shows "\<exists>rv u tr'. xrdp_mcs_recv_edrq junk io self tr = Some (rv, self\<lparr>m_userid := u\<rparr>, tr') \<and> mcs_ok (self\<lparr>m_userid := u\<rparr>) \<and> trans_ok tr' \<and>
      in_wf (t_in_s tr') \<and> queued tr' = queued tr"
    and "\<exists>rv u tr'. xrdp_mcs_recv_aurq junk io self tr = Some (rv, self\<lparr>m_userid := u\<rparr>, tr') \<and> mcs_ok (self\<lparr>m_userid := u\<rparr>) \<and> trans_ok tr' \<and>
      in_wf (t_in_s tr') \<and> queued tr' = queued tr"
proof -
  have m: "marked (t_in_s tr)" using assms(3) by (simp add: in_wf_def marked_def)
  obtain rv self' tr' where e: "xrdp_mcs_recv_edrq junk io self tr = Some (rv, self', tr')" "mcs_ok self'" "trans_ok tr'" "in_wf (t_in_s tr')"
    using recv_domain_pdus_typed(1) [OF assms] by blast
  then show "\<exists>rv u tr'. xrdp_mcs_recv_edrq junk io self tr = Some (rv, self\<lparr>m_userid := u\<rparr>, tr') \<and> mcs_ok (self\<lparr>m_userid := u\<rparr>) \<and> trans_ok tr' \<and>
      in_wf (t_in_s tr') \<and> queued tr' = queued tr"
    using recv_parsed_keeps [OF _ m assms(2) e(1) [unfolded xrdp_mcs_recv_edrq_def]] parse_keeps(1) by blast
  obtain rv self' tr' where e: "xrdp_mcs_recv_aurq junk io self tr = Some (rv, self', tr')" "mcs_ok self'" "trans_ok tr'" "in_wf (t_in_s tr')"
    using recv_domain_pdus_typed(2) [OF assms] by blast
  then show "\<exists>rv u tr'. xrdp_mcs_recv_aurq junk io self tr = Some (rv, self\<lparr>m_userid := u\<rparr>, tr') \<and> mcs_ok (self\<lparr>m_userid := u\<rparr>) \<and> trans_ok tr' \<and>
      in_wf (t_in_s tr') \<and> queued tr' = queued tr"
    using recv_parsed_keeps [OF _ m assms(2) e(1) [unfolded xrdp_mcs_recv_aurq_def]] parse_keeps(2) by blast
qed

definition attach_confirm :: "int \<Rightarrow> byte list" where
  "attach_confirm userid = tpkt ([0x2e, 0] @ rev (le_bytes 2 userid))"

lemma send_aucf_ok:
  assumes "trans_ok t"
  shows "\<exists>rv taken t'. xrdp_mcs_send_aucf junk io self t = Some (rv, taken, t') \<and> trans_ok t' \<and> t_in_s t' = t_in_s t \<and>
     queued t @ (if rv = Some 0 then attach_confirm (m_userid self) else []) = taken @ queued t'"
  unfolding xrdp_mcs_send_aucf_def attach_confirm_def
  by (rule send_built_ok)
    (use assms in \<open>simp_all add: out_defs [abs_def] out_uint8s_def [abs_def] out_bytes_append [symmetric] le_bytes_small\<close>)

lemma initial_keeps:
  "xrdp_mcs_recv_connect_initial junk io self tr = Some (rv, self', tr') \<Longrightarrow> \<exists>d. self' = self\<lparr>m_client_mcs_data := d\<rparr>"
proof -
  have i: "\<exists>d. self = self\<lparr>m_client_mcs_data := d\<rparr>" by (rule exI [of _ "m_client_mcs_data self"]) simp
  show "xrdp_mcs_recv_connect_initial junk io self tr = Some (rv, self', tr') \<Longrightarrow> ?thesis"
    using i by (auto simp: xrdp_mcs_recv_connect_initial_def Option.bind_eq_Some_conv split: if_split_asm)
qed

text \<open>
  What the two requests look like: the framing, the operation in the upper bits of its byte, \<open>n\<close> bytes that are skipped,
  and, if the byte says so, two more that become the user id; nothing else.
\<close>

definition domain_request :: "int \<Rightarrow> nat \<Rightarrow> byte list \<Rightarrow> int \<Rightarrow> int \<Rightarrow> bool" where
  "domain_request op n pdu user user' \<longleftrightarrow> 8 + n \<le> length pdu \<and> pdu ! 0 = 3 \<and> pdu ! 4 = 2 \<and> pdu ! 5 = 0xf0 \<and> drop_bit 2 (uint (pdu ! 7)) = op \<and>
     (if uint (pdu ! 7) AND 2 = 0 then length pdu = 8 + n \<and> user' = user
      else length pdu = 10 + n \<and> user' = 256 * uint (pdu ! (8 + n)) + uint (pdu ! (9 + n)))"

lemma iso_recv_shape:
  assumes "in_wf s" "xrdp_iso_recv s = Some (0, s')"
  shows "7 \<le> length (unread s) \<and> unread s ! 0 = 3 \<and> unread s ! 4 = 2 \<and> unread s ! 5 = 0xf0 \<and> s' = advance 7 s"
proof (rule recv_msg_cases [OF assms(1)])
  fix rv code len k
  assume r: "xrdp_iso_recv_msg s = Some (rv, code, len, advance k s)"
    "rv = 0 \<longleftrightarrow> 6 \<le> length (unread s) \<and> unread s ! 0 = 3 \<and> unread s ! 4 \<noteq> 255 \<and> (if unread s ! 5 = 0xf0 then 7 else 11) \<le> length (unread s)"
    "rv = 0 \<Longrightarrow> code = uint (unread s ! 5) \<and> len = uint (unread s ! 4) \<and> k = (if unread s ! 5 = 0xf0 then 7 else 11)"
  have u: "uint (b :: byte) = 2 \<longleftrightarrow> b = 2" "uint b = 0xf0 \<longleftrightarrow> b = 0xf0" for b by (simp_all add: word_uint_eq_iff)
  show ?thesis using assms(2) r u by (auto simp: xrdp_iso_recv_def split: if_split_asm)
qed

lemma parse_aurq_shape:
  assumes wf: "in_wf s" and r: "parse_aurq self s = Some (0, self', s')"
  shows "domain_request MCS_AURQ 0 (unread s) (m_userid self) (m_userid self')"
proof -
  let ?u = "unread s"
  obtain s1 where i: "xrdp_iso_recv s = Some (0, s1)"
    using r by (auto simp: parse_aurq_def Option.bind_eq_Some_conv split: if_split_asm)
  note sh = iso_recv_shape [OF wf i]
  have "8 \<le> length ?u" using r i sh wf by (auto simp: parse_aurq_def at_simps split: if_split_asm)
  then show ?thesis
    using r i sh wf by (auto simp: parse_aurq_def recv_non_standard_def domain_request_def at_simps split: if_split_asm)
qed

lemma parse_edrq_shape:
  assumes wf: "in_wf s" and r: "parse_edrq self s = Some (0, self', s')"
  shows "domain_request MCS_EDRQ 4 (unread s) (m_userid self) (m_userid self')"
proof -
  let ?u = "unread s"
  obtain s1 where i: "xrdp_iso_recv s = Some (0, s1)"
    using r by (auto simp: parse_edrq_def Option.bind_eq_Some_conv split: if_split_asm)
  note sh = iso_recv_shape [OF wf i]
  have "8 \<le> length ?u" using r i sh wf by (auto simp: parse_edrq_def at_simps split: if_split_asm)
  moreover from this have "12 \<le> length ?u" using r i sh wf by (auto simp: parse_edrq_def at_simps split: if_split_asm)
  ultimately show ?thesis
    using r i sh wf by (auto simp: parse_edrq_def recv_non_standard_def domain_request_def at_simps Let_def split: if_split_asm)
qed

lemma force_read_start:
  assumes "marked (t_in_s tr)" "libxrdp_force_read junk r1 r2 tr = Some (Some 0, tr')"
  shows "s_p (t_in_s tr') = 0"
proof -
  let ?tr = "tr\<lparr>t_in_s := init_stream junk (32 * 1024) (t_in_s tr)\<rparr>"
  have m: "marked (t_in_s ?tr)" "s_p (t_in_s ?tr) = 0" using assms(1) by (auto simp: marked_def)
  obtain rv1 tr1 where one: "trans_force_read r1 4 ?tr = Some (rv1, tr1)"
    using trans_force_read_ok [OF m(1), of r1 4] by blast
  note k1 = trans_force_read_keeps [OF m(1) one]
  obtain n where "trans_force_read r2 n tr1 = Some (Some 0, tr')"
    using assms(2) one by (auto simp: libxrdp_force_read_def Let_def Option.bind_eq_Some_conv split: if_split_asm)
  then show ?thesis using trans_force_read_keeps [of tr1 r2 n "Some 0" tr'] k1 m(2) by simp
qed

lemma recv_parsed_shape:
  assumes "marked (t_in_s tr)" "trans_ok tr" "recv_parsed parse junk io self tr = Some (Some 0, self', tr')"
    and "\<And>s s'. in_wf s \<Longrightarrow> parse self s = Some (0, self', s') \<Longrightarrow> P (unread s) \<and> parsed s s'"
  shows "P (contents (t_in_s tr'))"
proof -
  obtain rv1 tr1 where r: "libxrdp_force_read junk (read_header io) (read_body io) tr = Some (rv1, tr1)" "in_wf (t_in_s tr1)"
    using force_read_pdu_ok [OF assms(1), of junk "read_header io" "read_body io"] by auto
  then obtain s' where p: "rv1 = Some 0" "parse self (t_in_s tr1) = Some (0, self', s')" "tr' = tr1\<lparr>t_in_s := s'\<rparr>"
    using assms(3) by (auto simp: recv_parsed_def Option.bind_eq_Some_conv split: if_split_asm)
  have "contents s' = contents (t_in_s tr1)" using parsed_fields [OF conjunct2 [OF assms(4) [OF r(2) p(2)]]] by (simp add: contents_def)
  moreover have "unread (t_in_s tr1) = contents (t_in_s tr1)"
    using force_read_start [OF assms(1)] r(1) p(1) by (simp add: unread_def contents_def)
  ultimately show ?thesis using assms(4) [OF r(2) p(2)] p(3) by simp
qed

lemma domain_pdus_shape:
  assumes "trans_ok tr" "in_wf (t_in_s tr)" "mcs_ok self"
  shows "xrdp_mcs_recv_edrq junk io self tr = Some (Some 0, self', tr') \<Longrightarrow>
      domain_request MCS_EDRQ 4 (contents (t_in_s tr')) (m_userid self) (m_userid self')"
    and "xrdp_mcs_recv_aurq junk io self tr = Some (Some 0, self', tr') \<Longrightarrow>
      domain_request MCS_AURQ 0 (contents (t_in_s tr')) (m_userid self) (m_userid self')"
proof -
  have m: "marked (t_in_s tr)" using assms(2) by (simp add: in_wf_def marked_def)
  have p: "parse_edrq self s = Some (0, self', s') \<Longrightarrow> parsed s s'" "parse_aurq self s = Some (0, self', s') \<Longrightarrow> parsed s s'" if "in_wf s" for s s'
    using parse_edrq_ok [OF that assms(3)] parse_aurq_ok [OF that assms(3)] by auto
  show "domain_request MCS_EDRQ 4 (contents (t_in_s tr')) (m_userid self) (m_userid self')"
    if "xrdp_mcs_recv_edrq junk io self tr = Some (Some 0, self', tr')"
    using that p(1) parse_edrq_shape unfolding xrdp_mcs_recv_edrq_def
    by (intro recv_parsed_shape [OF m assms(1), where parse = parse_edrq and P = "\<lambda>u. domain_request MCS_EDRQ 4 u (m_userid self) (m_userid self')"]) blast+
  show "domain_request MCS_AURQ 0 (contents (t_in_s tr')) (m_userid self) (m_userid self')"
    if "xrdp_mcs_recv_aurq junk io self tr = Some (Some 0, self', tr')"
    using that p(2) parse_aurq_shape unfolding xrdp_mcs_recv_aurq_def
    by (intro recv_parsed_shape [OF m assms(1), where parse = parse_aurq and P = "\<lambda>u. domain_request MCS_AURQ 0 u (m_userid self) (m_userid self')"]) blast+
qed

text \<open>Layers in a state that the answer fits.\<close>

definition sec_put :: "xrdp_sec \<Rightarrow> xrdp_mcs \<Rightarrow> xrdp_sec" where
  "sec_put sec self = sec\<lparr>sec_mcs_layer := self\<rparr>"

lemma sec_put_ok:
  "sec_ok sec \<Longrightarrow> mcs_ok self \<Longrightarrow> m_channel_list self = m_channel_list (sec_mcs_layer sec) \<Longrightarrow> sec_ok (sec_put sec self)"
  by (simp add: sec_ok_def sec_put_def)

lemma sec_put_put [simp]: "sec_put (sec_put sec a) b = sec_put sec b"
  by (simp add: sec_put_def)

text \<open>
  The outcome of the sequence, or of the rest of it: what leaves the transport and what stays in its
  queue are the response as a whole PDU or nothing, and on success the response and the confirm; \<open>done\<close> says what else
  success means.
\<close>

definition responded :: "xrdp_sec \<Rightarrow> byte list \<Rightarrow> bool" where
  "responded sec pdus \<longleftrightarrow> (\<exists>response. pdus = tpkt response \<and>
     response_parsed response (gcc_bytes (server_ud (sec_security sec) (sec_iso_layer sec) (length (m_channel_list (sec_mcs_layer sec))))))"

definition answered :: "xrdp_sec \<Rightarrow> byte list \<Rightarrow> bool" where
  "answered sec pdus \<longleftrightarrow> m_expecting_channel_join_requests (sec_mcs_layer sec) \<and>
     (\<exists>response. responded sec response \<and> pdus = response @ attach_confirm (m_userid (sec_mcs_layer sec)))"

definition sequence_done ::
  "(xrdp_sec \<Rightarrow> 'x trans \<Rightarrow> bool) \<Rightarrow> 'x trans \<Rightarrow> (int option \<times> byte list \<times> xrdp_sec \<times> 'x trans) option \<Rightarrow> bool" where
  "sequence_done success tr res \<longleftrightarrow> (\<exists>rv taken sec' tr' pdus. res = Some (rv, taken, sec', tr') \<and> rv \<in> {None, Some 0, Some 1} \<and> sec_ok sec' \<and>
     trans_ok tr' \<and> in_wf (t_in_s tr') \<and> queued tr @ pdus = taken @ queued tr' \<and>
     (if rv = Some 0 then answered sec' pdus \<and> success sec' tr' else pdus = [] \<or> responded sec' pdus))"

lemma sequence_doneI:
  "sec_ok sec' \<Longrightarrow> trans_ok tr' \<Longrightarrow> in_wf (t_in_s tr') \<Longrightarrow> queued tr @ pdus = taken @ queued tr' \<Longrightarrow> rv \<in> {None, Some 1} \<Longrightarrow>
     pdus = [] \<or> responded sec' pdus \<Longrightarrow> sequence_done success tr (Some (rv, taken, sec', tr'))"
  by (auto simp: sequence_done_def)

text \<open>
  The steps of a success, in their order: what was read at each, and what was done with it.
\<close>

definition rest_read :: "(nat \<Rightarrow> byte) \<Rightarrow> incoming_answers \<Rightarrow> xrdp_sec \<Rightarrow> 'x trans \<Rightarrow> xrdp_sec \<Rightarrow> 'x trans \<Rightarrow> bool" where
  "rest_read junk ios sec tr sec' tr' \<longleftrightarrow> (\<exists>self response tr1 self2 tr2 self3 tr3 confirm.
     xrdp_mcs_out_gcc_data junk (sec_security sec) (sec_iso_layer sec) (sec_mcs_layer sec) = Some self \<and>
     xrdp_mcs_send_connect_response junk (io_response ios) self tr = Some (Some 0, response, tr1) \<and>
     xrdp_mcs_recv_edrq junk (io_edrq ios) self tr1 = Some (Some 0, self2, tr2) \<and>
     domain_request MCS_EDRQ 4 (contents (t_in_s tr2)) (m_userid self) (m_userid self2) \<and>
     xrdp_mcs_recv_aurq junk (io_aurq ios) self2 tr2 = Some (Some 0, self3, tr3) \<and>
     domain_request MCS_AURQ 0 (contents (t_in_s tr3)) (m_userid self2) (m_userid self3) \<and>
     xrdp_mcs_send_aucf junk (io_aucf ios) self3 tr3 = Some (Some 0, confirm, tr') \<and>
     sec' = sec_put sec (self3\<lparr>m_expecting_channel_join_requests := True\<rparr>))"

definition sequence_read ::
  "(nat \<Rightarrow> byte) \<Rightarrow> bool \<Rightarrow> incoming_answers \<Rightarrow> xrdp_sec \<Rightarrow> 'x trans \<Rightarrow> xrdp_sec \<Rightarrow> 'x trans \<Rightarrow> bool" where
  "sequence_read junk rfxcodec ios sec tr sec' tr' \<longleftrightarrow> (\<exists>self tr1 sec1 front.
     xrdp_mcs_recv_connect_initial junk (io_initial ios) (sec_mcs_layer sec) tr = Some (Some 0, self, tr1) \<and>
     contents (m_client_mcs_data self) \<noteq> [] \<and> contents (t_in_s tr1) = front @ contents (m_client_mcs_data self) \<and>
     xrdp_sec_process_mcs_data rfxcodec (sec_put sec self) = Some (0, sec1) \<and> rest_read junk ios sec1 tr1 sec' tr')"

lemma failed_cases: "failed rv \<in> {None, Some 1}"
  by (cases rv) (simp_all add: failed_def)

definition after_data :: "(nat \<Rightarrow> byte) \<Rightarrow> incoming_answers \<Rightarrow> xrdp_sec \<Rightarrow> 'x trans \<Rightarrow> (int option \<times> byte list \<times> xrdp_sec \<times> 'x trans) option" where
  "after_data junk ios sec tr =
     do { self \<leftarrow> xrdp_mcs_out_gcc_data junk (sec_security sec) (sec_iso_layer sec) (sec_mcs_layer sec);
          (rv, response, tr) \<leftarrow> xrdp_mcs_send_connect_response junk (io_response ios) self tr;
          if rv \<noteq> Some 0 then Some (failed rv, response, sec_put sec self, tr)
          else do { (rv, self, tr) \<leftarrow> xrdp_mcs_recv_edrq junk (io_edrq ios) self tr;
          if rv \<noteq> Some 0 then Some (failed rv, response, sec_put sec self, tr)
          else do { (rv, self, tr) \<leftarrow> xrdp_mcs_recv_aurq junk (io_aurq ios) self tr;
          if rv \<noteq> Some 0 then Some (failed rv, response, sec_put sec self, tr)
          else do { (rv, confirm, tr) \<leftarrow> xrdp_mcs_send_aucf junk (io_aucf ios) self tr;
          if rv \<noteq> Some 0 then Some (failed rv, response @ confirm, sec_put sec self, tr)
          else Some (Some 0, response @ confirm, sec_put sec (self\<lparr>m_expecting_channel_join_requests := True\<rparr>), tr) } } } }"

lemma incoming_unfold:
  "xrdp_mcs_incoming junk r ios sec tr =
     do { (rv, self, tr) \<leftarrow> xrdp_mcs_recv_connect_initial junk (io_initial ios) (sec_mcs_layer sec) tr;
          if rv \<noteq> Some 0 then Some (failed rv, [], sec_put sec self, tr)
          else do { (rv, sec) \<leftarrow> xrdp_sec_process_mcs_data r (sec_put sec self);
                    if rv \<noteq> 0 then Some (Some 1, [], sec, tr) else after_data junk ios sec tr } }"
  unfolding xrdp_mcs_incoming_def after_data_def Let_def sec_put_def by (simp cong: if_cong)

lemma after_data_ok:
  assumes "sec_ok sec" "length (m_channel_list (sec_mcs_layer sec)) \<le> 2000" "trans_ok tr" "in_wf (t_in_s tr)"
  shows "sequence_done (rest_read junk ios sec tr) tr (after_data junk ios sec tr)"
proof -
  have keys: "keys_ok (sec_security sec)" and mcs: "mcs_ok (sec_mcs_layer sec)" using assms(1) by (simp_all add: sec_ok_def)
  obtain d rv taken t1 pdu where g: "xrdp_mcs_out_gcc_data junk (sec_security sec) (sec_iso_layer sec) (sec_mcs_layer sec) =
      Some ((sec_mcs_layer sec)\<lparr>m_server_mcs_data := d\<rparr>)"
    "xrdp_mcs_send_connect_response junk (io_response ios) ((sec_mcs_layer sec)\<lparr>m_server_mcs_data := d\<rparr>) tr = Some (rv, taken, t1)"
    "trans_ok t1" "queued tr @ (if rv = Some 0 then tpkt pdu else []) = taken @ queued t1"
    "response_parsed pdu (gcc_bytes (server_ud (sec_security sec) (sec_iso_layer sec) (length (m_channel_list (sec_mcs_layer sec)))))" "t_in_s t1 = t_in_s tr"
    using connect_response_ok [OF keys assms(2,3), of junk "sec_iso_layer sec" "io_response ios"] by auto
  let ?self = "(sec_mcs_layer sec)\<lparr>m_server_mcs_data := d\<rparr>"
  have m1: "mcs_ok ?self" using mcs by (simp add: mcs_ok_def)
  have in1: "in_wf (t_in_s t1)" using g(6) assms(4) by simp
  show ?thesis
  proof (cases "rv = Some 0")
    case False
    then show ?thesis using g in1 sec_put_ok [OF assms(1) m1] failed_cases [of rv]
      by (auto simp: after_data_def intro!: sequence_doneI [where pdus = "[]"])
  next
    case True
    obtain rv2 u2 t2 where e: "xrdp_mcs_recv_edrq junk (io_edrq ios) ?self t1 = Some (rv2, ?self\<lparr>m_userid := u2\<rparr>, t2)" "mcs_ok (?self\<lparr>m_userid := u2\<rparr>)"
      "trans_ok t2" "in_wf (t_in_s t2)" "queued t2 = queued t1"
      using recv_domain_pdus_ok(1) [OF m1 g(3) in1] by blast
    have q2: "queued tr @ tpkt pdu = taken @ queued t2" using g(4) e(5) True by simp
    have resp: "responded (sec_put sec (?self\<lparr>m_userid := u\<rparr>)) (tpkt pdu)" for u using g(5) by (auto simp: responded_def sec_put_def)
    show ?thesis
    proof (cases "rv2 = Some 0")
      case False
      then show ?thesis using True g e q2 sec_put_ok [OF assms(1) e(2)] failed_cases [of rv2]
        by (auto simp: after_data_def intro!: sequence_doneI [where pdus = "tpkt pdu"] resp)
    next
      case two: True
      obtain rv3 u3 t3 where a: "xrdp_mcs_recv_aurq junk (io_aurq ios) (?self\<lparr>m_userid := u2\<rparr>) t2 = Some (rv3, ?self\<lparr>m_userid := u2\<rparr>\<lparr>m_userid := u3\<rparr>, t3)"
        "mcs_ok (?self\<lparr>m_userid := u2\<rparr>\<lparr>m_userid := u3\<rparr>)" "trans_ok t3" "in_wf (t_in_s t3)" "queued t3 = queued t2"
        using recv_domain_pdus_ok(2) [OF e(2-4)] by blast
      let ?self3 = "?self\<lparr>m_userid := u2\<rparr>\<lparr>m_userid := u3\<rparr>"
      show ?thesis
      proof (cases "rv3 = Some 0")
        case False
        then show ?thesis using True two g e a q2 sec_put_ok [OF assms(1) a(2)] failed_cases [of rv3]
          by (auto simp: after_data_def intro!: sequence_doneI [where pdus = "tpkt pdu"] resp)
      next
        case three: True
        obtain rv4 confirm t4 where c: "xrdp_mcs_send_aucf junk (io_aucf ios) ?self3 t3 = Some (rv4, confirm, t4)" "trans_ok t4" "t_in_s t4 = t_in_s t3"
          "queued t3 @ (if rv4 = Some 0 then attach_confirm (m_userid ?self3) else []) = confirm @ queued t4"
          using send_aucf_ok [OF a(3)] by blast
        have q4: "queued tr @ tpkt pdu @ (if rv4 = Some 0 then attach_confirm (m_userid ?self3) else []) = (taken @ confirm) @ queued t4"
          using q2 a(5) c(4) by (metis append_assoc)
        have m4: "mcs_ok (?self3\<lparr>m_expecting_channel_join_requests := b\<rparr>)" for b using a(2) by (simp add: mcs_ok_def)
        show ?thesis
        proof (cases "rv4 = Some 0")
          case False
          then show ?thesis using True two three g e a c q4 sec_put_ok [OF assms(1) a(2)] failed_cases [of rv4]
            by (auto simp: after_data_def intro!: sequence_doneI [where pdus = "tpkt pdu"] resp)
        next
          case four: True
          let ?sec = "sec_put sec (?self3\<lparr>m_expecting_channel_join_requests := True\<rparr>)"
          have r: "after_data junk ios sec tr = Some (Some 0, taken @ confirm, ?sec, t4)"
            using True two three four g e a c by (simp add: after_data_def)
          have "answered ?sec (tpkt pdu @ attach_confirm (m_userid ?self3))"
            using g(5) unfolding answered_def responded_def by (auto simp: sec_put_def)
          moreover have "rest_read junk ios sec tr ?sec t4"
            using g(1,2) e(1) a(1) c(1) True two three four domain_pdus_shape(1) [OF g(3) in1 m1 e(1) [unfolded two]]
              domain_pdus_shape(2) [OF e(3,4,2) a(1) [unfolded three]]
            unfolding rest_read_def by blast
          ultimately show ?thesis
            unfolding sequence_done_def r
            using q4 four c(2,3) a(4) sec_put_ok [OF assms(1) m4 [of True]]
            by (intro exI [of _ "Some 0"] exI [of _ "taken @ confirm"] exI [of _ ?sec] exI [of _ t4]
                exI [of _ "tpkt pdu @ attach_confirm (m_userid ?self3)"]) simp
        qed
      qed
    qed
  qed
qed

text \<open>
  C24. The MCS connection sequence composes. Whatever the client sends, in whatever pieces, the sequence returns or waits
  for the socket, and what it has handed to the transport by then, in order behind what was queued before, is nothing, or the whole
  response, or, on success only, the response and the attach-user confirm. It succeeds only after
  each step has: a Connect-Initial was read whose GCC data, the end of that PDU, was processed
  without error; the response that was sent is the exact one for the channels asked for; the PDUs read next were an erect-domain
  and then an attach-user request, well-formed to their end; the confirm that was sent holds the user id the second left; and
  channel joins are expected. Required are, once the Connect-Initial has been read, that with multiple monitors
  its copy has 308 spare bytes behind it (C22 shows that the program runs out of the buffer otherwise), and that its blocks leave
  at most 2000 channels (C26 shows that they need not).
\<close>

theorem mcs_incoming_sound:
  assumes "sec_ok sec" and "trans_ok tr" and "in_wf (t_in_s tr)"
    and fits: "\<And>self tr'. xrdp_mcs_recv_connect_initial junk (io_initial ios) (sec_mcs_layer sec) tr = Some (Some 0, self, tr') \<Longrightarrow>
       client_data_ok (sec_put sec self) \<and>
       (\<forall>sec'. xrdp_sec_process_mcs_data rfxcodec (sec_put sec self) = Some (0, sec') \<longrightarrow> length (m_channel_list (sec_mcs_layer sec')) \<le> 2000)"
  shows "sequence_done (sequence_read junk rfxcodec ios sec tr) tr (xrdp_mcs_incoming junk rfxcodec ios sec tr)"
proof -
  have m: "mcs_ok (sec_mcs_layer sec)" using assms(1) by (simp add: sec_ok_def)
  obtain rv self tr1 where i: "xrdp_mcs_recv_connect_initial junk (io_initial ios) (sec_mcs_layer sec) tr = Some (rv, self, tr1)"
    "mcs_ok self" "trans_ok tr1" "in_wf (t_in_s tr1)" "queued tr1 = queued tr"
    "rv = Some 0 \<Longrightarrow> contents (m_client_mcs_data self) \<noteq> [] \<and> (\<exists>front. contents (t_in_s tr1) = front @ contents (m_client_mcs_data self))"
    using recv_connect_initial_typed [OF m assms(2,3), of junk "io_initial ios"] by blast
  have ok: "sec_ok (sec_put sec self)" using sec_put_ok [OF assms(1) i(2)] initial_keeps [OF i(1)] by auto
  show ?thesis
  proof (cases "rv = Some 0")
    case False
    then show ?thesis using i ok failed_cases [of rv] unfolding incoming_unfold by (auto intro!: sequence_doneI [where pdus = "[]"])
  next
    case True
    note f = fits [OF i(1) [unfolded True]]
    obtain rv2 sec2 where p: "xrdp_sec_process_mcs_data rfxcodec (sec_put sec self) = Some (rv2, sec2)" "sec_ok sec2"
      using process_mcs_data_ok [OF ok conjunct1 [OF f], of rfxcodec] by blast
    show ?thesis
    proof (cases "rv2 = 0")
      case False
      then show ?thesis using True i p unfolding incoming_unfold by (auto intro!: sequence_doneI [where pdus = "[]"])
    next
      case z: True
      have "sequence_done (rest_read junk ios sec2 tr1) tr1 (after_data junk ios sec2 tr1)" using after_data_ok [OF p(2) _ i(3,4)] f p(1) z by simp
      moreover have "sequence_read junk rfxcodec ios sec tr sec' tr'" if "rest_read junk ios sec2 tr1 sec' tr'" for sec' tr'
        using that i(1) i(6) True p(1) z unfolding sequence_read_def by blast
      ultimately show ?thesis using True z i p unfolding incoming_unfold sequence_done_def by fastforce
    qed
  qed
qed

subsection \<open>A sequence that succeeds\<close>

definition ex_closed :: xrdp_sec where
  "ex_closed = (ex_sec [])\<lparr>sec_client_info := ex_client_info\<lparr>ci_channels_allowed := 0\<rparr>\<rparr>"

text \<open>A read of a PDU that arrives in two pieces, and a write to a socket that is not ready.\<close>

definition delivers :: "byte list \<Rightarrow> socket_answers" where
  "delivers pdu = \<lparr>read_header = [\<lparr>r_can = True, r_fail = False, r_data = take 4 pdu, r_would_block = False, r_term = False\<rparr>],
     read_body = [\<lparr>r_can = True, r_fail = False, r_data = drop 4 pdu, r_would_block = False, r_term = False\<rparr>],
     write_waiting = [\<lparr>a_can = False, a_sent = 0, a_would_block = True, a_term = False\<rparr>],
     write_new = \<lparr>a_can = False, a_sent = 0, a_would_block = True, a_term = False\<rparr>\<rparr>"

lemma force_read_all:
  assumes "marked (t_in_s t)" "t_status t = TRANS_STATUS_UP" "r_data r = bs" "\<not> r_fail r" "bs \<noteq> []" "s_end (t_in_s t) + length bs \<le> s_size (t_in_s t)"
  shows "\<exists>s. trans_force_read [r] (int (length bs)) t = Some (Some 0, t\<lparr>t_in_s := s\<rparr>) \<and> marked s \<and> contents s = contents (t_in_s t) @ bs \<and>
     s_size s = s_size (t_in_s t) \<and> s_p s = s_p (t_in_s t)"
proof -
  obtain s where "store_recv bs (t_in_s t) = Some s" "marked s" "contents s = contents (t_in_s t) @ bs" "s_size s = s_size (t_in_s t)"
    "s_p s = s_p (t_in_s t)"
    using store_recv_ok [OF assms(1,6)] by blast
  then show ?thesis
    using assms
    by (intro exI [of _ s]) (simp add: trans_force_read_def trans_force_read_s_def force_read_loop.simps trans_recv_def)
qed

lemma get_pdu_bytes_tpkt: "libxrdp_get_pdu_bytes ([3, 0, a, b] @ rest) = Some (256 * uint a + uint b)"
  using uint_lt2p [of b] by (simp add: libxrdp_get_pdu_bytes_def list_get_def high_or_low)

lemma force_read_delivers:
  assumes t: "marked (t_in_s t)" "t_status t = TRANS_STATUS_UP"
    and pdu: "take 4 pdu = [3, 0, a, b]" "length pdu = nat (256 * uint a + uint b)" "4 < length pdu" "length pdu \<le> 32768"
  shows "\<exists>s. libxrdp_force_read junk (read_header (delivers pdu)) (read_body (delivers pdu)) t = Some (Some 0, t\<lparr>t_in_s := s\<rparr>) \<and>
     in_wf s \<and> unread s = pdu"
proof -
  let ?t = "t\<lparr>t_in_s := init_stream junk (32 * 1024) (t_in_s t)\<rparr>"
  have m: "marked (t_in_s ?t)" "s_p (t_in_s ?t) = 0" "s_end (t_in_s ?t) = 0" "contents (t_in_s ?t) = []" "32768 \<le> s_size (t_in_s ?t)"
    "t_status ?t = TRANS_STATUS_UP"
    using t by (auto simp: marked_def contents_def init_stream_def)
  obtain s where s: "trans_force_read (read_header (delivers pdu)) 4 ?t = Some (Some 0, ?t\<lparr>t_in_s := s\<rparr>)" "marked s"
    "contents s = take 4 pdu" "s_size s = s_size (t_in_s ?t)" "s_p s = 0"
  proof -
    have l: "length (take 4 pdu) = 4" "take 4 pdu \<noteq> []" "s_end (t_in_s ?t) + length (take 4 pdu) \<le> s_size (t_in_s ?t)" using m(3,5) pdu(3) by auto
    show ?thesis
      using that force_read_all [OF m(1,6), of "hd (read_header (delivers pdu))" "take 4 pdu"] l m(2,4)
      by (simp del: length_take take_eq_Nil add: delivers_def l(1)) blast
  qed
  have e: "s_end s = 4" using s(2,3) marked_length [of s] pdu(1,3) by simp
  have "take 4 (s_data s) = [3, 0, a, b]" using s(3) e pdu(1) by (simp add: contents_def)
  then have "libxrdp_get_pdu_bytes (s_data s) = Some (256 * uint a + uint b)"
  proof -
    have "s_data s = [3, 0, a, b] @ drop 4 (s_data s)" using \<open>take 4 (s_data s) = _\<close> append_take_drop_id [of 4 "s_data s"] by simp
    then show ?thesis using get_pdu_bytes_tpkt [of a b "drop 4 (s_data s)"] by simp
  qed
  moreover have "256 * uint a + uint b = int (length pdu)" using pdu(2) by simp
  moreover obtain s2 where "trans_force_read (read_body (delivers pdu)) (int (length (drop 4 pdu))) (?t\<lparr>t_in_s := s\<rparr>) = Some (Some 0, ?t\<lparr>t_in_s := s2\<rparr>)"
    "marked s2" "contents s2 = pdu" "s_p s2 = 0"
  proof -
    have l: "drop 4 pdu \<noteq> []" "s_end s + length (drop 4 pdu) \<le> s_size s" "take 4 pdu @ drop 4 pdu = pdu" using e s(4) m(5) pdu(3,4) by auto
    show ?thesis
      using that force_read_all [of "?t\<lparr>t_in_s := s\<rparr>" "hd (read_body (delivers pdu))" "drop 4 pdu"] l s(2,3,5) m(6)
      by (simp del: length_drop drop_eq_Nil append_take_drop_id add: delivers_def) blast
  qed
  moreover have "int (length (drop 4 pdu)) = int (length pdu) - 4" using pdu(3) by simp
  ultimately show ?thesis using s(1,4) m(5) pdu(3,4)
    by (intro exI [of _ s2]) (simp add: libxrdp_force_read_def Let_def in_wf_def marked_def unread_def contents_def)
qed

lemma write_waits:
  assumes "t_status t = TRANS_STATUS_UP" "t_si t = None"
  shows "\<exists>w. trans_write_copy_s junk (write_waiting (delivers pdu)) (write_new (delivers pdu)) s t = Some (Some 0, [], t\<lparr>t_wait_s := w\<rparr>)"
proof (cases "contents s = []")
  case True
  then show ?thesis
    using assms by (intro exI [of _ "t_wait_s t"]) (simp add: delivers_def trans_write_copy_s_def trans_send_waiting.simps send_new_def)
next
  case False
  have "\<exists>w. out_uint8p (contents s) (length (contents s)) (init_stream junk (length (contents s)) make_stream) = Some w"
    by (simp add: out_uint8p_def out_bytes_def init_stream_def make_stream_def)
  then obtain w where "out_uint8p (contents s) (length (contents s)) (init_stream junk (length (contents s)) make_stream) = Some w" by blast
  then show ?thesis
    using assms False by (auto simp: delivers_def trans_write_copy_s_def trans_send_waiting.simps send_new_def queue_copy_def Let_def)
qed


lemma send_built_waits:
  assumes "t_status t = TRANS_STATUS_UP" "t_si t = None" "send_built build junk (delivers pdu) t = Some (rv, taken, t')"
  shows "rv = Some 0 \<and> taken = [] \<and> (\<exists>w. t' = t\<lparr>t_wait_s := w\<rparr>)"
proof -
  obtain s s2 where "trans_write_copy_s junk (write_waiting (delivers pdu)) (write_new (delivers pdu)) s2 t = Some (s, taken, t')"
    "rv = map_option (\<lambda>v. if v \<noteq> 0 then 1 else 0) (map_option (\<lambda>v. if v \<noteq> 0 then 1 else 0 :: int) s)"
    using assms(3) by (auto simp: send_built_def xrdp_iso_send_def Option.bind_eq_Some_conv split: if_split_asm)
  then show ?thesis using write_waits [OF assms(1,2), of junk pdu s2] by auto
qed


definition ex_initial :: "byte list" where
  "ex_initial = [3, 0, 0, 47, 2, 0xf0, 0x80, 0x7f, 0x65, 37, 4, 0, 4, 0, 1, 0, 0x30, 0, 0x30, 0, 0x30, 0, 4, 23] @ replicate 23 0"

definition ex_erect :: "byte list" where "ex_erect = [3, 0, 0, 12, 2, 0xf0, 0x80, 4, 0, 0, 0, 0]"
definition ex_attach :: "byte list" where "ex_attach = [3, 0, 0, 8, 2, 0xf0, 0x80, 0x28]"

lemma parse_initial_ex:
  assumes "in_wf s" "unread s = ex_initial"
  shows "\<exists>d s'. parse_connect_initial junk c s = Some (0, s', d) \<and> contents d = replicate 23 0"
proof -
  let ?d = "init_stream junk 23 c"
  have o: "out_uint8p (replicate 23 0) 23 ?d = Some (?d\<lparr>s_data := replicate 23 0 @ drop 23 (s_data ?d), s_p := 23\<rparr>)"
    by (simp add: out_uint8p_def out_bytes_def init_stream_def)
  have "parse_connect_initial junk c (advance 0 s) =
      Some (0, advance 47 s, s_mark_end (?d\<lparr>s_data := replicate 23 0 @ drop 23 (s_data ?d), s_p := 23\<rparr>))"
    using assms o by (simp add: parse_connect_initial_def xrdp_iso_recv_def xrdp_iso_recv_msg_def xrdp_mcs_ber_parse_header_def skip_ber_def
        xrdp_mcs_parse_domain_params_def ex_initial_def at_simps Let_def del: advance_simps(1))
  then show ?thesis by (simp add: contents_def)
qed

lemma parse_erect_ex:
  assumes "in_wf s" "unread s = ex_erect"
  shows "\<exists>s'. parse_edrq self s = Some (0, self, s')"
proof -
  have "parse_edrq self (advance 0 s) = Some (0, self, advance 12 s)"
    using assms by (simp add: parse_edrq_def xrdp_iso_recv_def xrdp_iso_recv_msg_def recv_non_standard_def ex_erect_def at_simps Let_def
        del: advance_simps(1))
  then show ?thesis by simp
qed

lemma parse_attach_ex:
  assumes "in_wf s" "unread s = ex_attach"
  shows "\<exists>s'. parse_aurq self s = Some (0, self, s')"
proof -
  have "parse_aurq self (advance 0 s) = Some (0, self, advance 8 s)"
    using assms by (simp add: parse_aurq_def xrdp_iso_recv_def xrdp_iso_recv_msg_def recv_non_standard_def ex_attach_def at_simps Let_def
        del: advance_simps(1))
  then show ?thesis by simp
qed


text \<open>
  A client that announces nothing but itself: its Connect-Initial has empty parameters and GCC data without blocks.
\<close>

definition ex_client_answers :: incoming_answers where
  "ex_client_answers = \<lparr>io_initial = delivers ex_initial, io_response = delivers [], io_edrq = delivers ex_erect,
     io_aurq = delivers ex_attach, io_aucf = delivers []\<rparr>"

definition ex_up :: "unit trans" where "ex_up = (trans_create (\<lambda>_. 0) 1 8 8)\<lparr>t_status := TRANS_STATUS_UP\<rparr>"

lemma recv_delivers:
  assumes t: "in_wf (t_in_s t)" "t_status t = TRANS_STATUS_UP"
    and pdu: "take 4 pdu = [3, 0, a, b]" "length pdu = nat (256 * uint a + uint b)" "4 < length pdu" "length pdu \<le> 32768"
    and parse: "\<And>s. in_wf s \<Longrightarrow> unread s = pdu \<Longrightarrow> \<exists>s'. parse self s = Some (0, self', s')"
  shows "\<exists>s. recv_parsed parse junk (delivers pdu) self t = Some (Some 0, self', t\<lparr>t_in_s := s\<rparr>)"
proof -
  have m: "marked (t_in_s t)" using t(1) by (simp add: in_wf_def marked_def)
  obtain s where "libxrdp_force_read junk (read_header (delivers pdu)) (read_body (delivers pdu)) t = Some (Some 0, t\<lparr>t_in_s := s\<rparr>)"
    "in_wf s" "unread s = pdu"
    using force_read_delivers [OF m t(2) pdu, of junk] by blast
  then show ?thesis using parse [of s] by (auto simp: recv_parsed_def)
qed

lemma ex_rest:
  assumes "sec_ok sec" "length (m_channel_list (sec_mcs_layer sec)) \<le> 2000" "trans_ok t" "in_wf (t_in_s t)" "t_status t = TRANS_STATUS_UP" "t_si t = None"
  shows "\<exists>taken sec' tr'. after_data junk ex_client_answers sec t = Some (Some 0, taken, sec', tr')"
proof -
  have keys: "keys_ok (sec_security sec)" and mcs: "mcs_ok (sec_mcs_layer sec)" using assms(1) by (simp_all add: sec_ok_def)
  obtain self rv taken t1 where g: "xrdp_mcs_out_gcc_data junk (sec_security sec) (sec_iso_layer sec) (sec_mcs_layer sec) = Some self"
    "xrdp_mcs_send_connect_response junk (delivers []) self t = Some (rv, taken, t1)" "trans_ok t1" "mcs_ok self" "t_in_s t1 = t_in_s t"
    using connect_response_ok [OF keys assms(2,3), of junk "sec_iso_layer sec" "delivers []"] mcs by (auto simp: mcs_ok_def)
  obtain w where w: "rv = Some 0" "t1 = t\<lparr>t_wait_s := w\<rparr>"
    using send_built_waits [OF assms(5,6)] g(2) unfolding xrdp_mcs_send_connect_response_def by blast
  have up: "in_wf (t_in_s t1)" "t_status t1 = TRANS_STATUS_UP" using w(2) assms(4,5) by simp_all
  obtain s where e: "xrdp_mcs_recv_edrq junk (delivers ex_erect) self t1 = Some (Some 0, self, t1\<lparr>t_in_s := s\<rparr>)"
    unfolding xrdp_mcs_recv_edrq_def
    using recv_delivers [OF up, of ex_erect 0 12 parse_edrq self self junk] parse_erect_ex by (auto simp: ex_erect_def)
  have t2: "in_wf s" "trans_ok (t1\<lparr>t_in_s := s\<rparr>)"
    using recv_domain_pdus_ok(1) [OF g(4,3) up(1), of junk "delivers ex_erect"] e by auto
  obtain s3 where a: "xrdp_mcs_recv_aurq junk (delivers ex_attach) self (t1\<lparr>t_in_s := s\<rparr>) = Some (Some 0, self, t1\<lparr>t_in_s := s3\<rparr>)"
    unfolding xrdp_mcs_recv_aurq_def
    using recv_delivers [of "t1\<lparr>t_in_s := s\<rparr>" ex_attach 0 8 parse_aurq self self junk] t2(1) up(2) parse_attach_ex by (auto simp: ex_attach_def)
  then have t3: "trans_ok (t1\<lparr>t_in_s := s3\<rparr>)"
    using recv_domain_pdus_ok(2) [OF g(4) t2(2), of junk "delivers ex_attach"] t2(1) by auto
  obtain rv4 confirm t4 where c: "xrdp_mcs_send_aucf junk (delivers []) self (t1\<lparr>t_in_s := s3\<rparr>) = Some (rv4, confirm, t4)"
    using send_aucf_ok [OF t3, of junk "delivers []" self] by blast
  have "t_status (t1\<lparr>t_in_s := s3\<rparr>) = TRANS_STATUS_UP" "t_si (t1\<lparr>t_in_s := s3\<rparr>) = None" using w(2) assms(5,6) by simp_all
  then have "rv4 = Some 0" using send_built_waits [OF _ _ c [unfolded xrdp_mcs_send_aucf_def]] by blast
  then show ?thesis using g(1,2) w(1) e a c by (simp add: after_data_def ex_client_answers_def)
qed

lemma ex_sequence:
  "\<exists>taken sec' tr'. xrdp_mcs_incoming (\<lambda>_. 0) True ex_client_answers ex_closed ex_up = Some (Some 0, taken, sec', tr')"
proof -
  let ?m = "sec_mcs_layer ex_closed"
  have ok: "sec_ok ex_closed" using ex_sec_ok [of "[]"] by (simp add: sec_ok_def ex_closed_def ex_sec_def ex_client_info_def)
  have t: "trans_ok ex_up" "in_wf (t_in_s ex_up)" "t_status ex_up = TRANS_STATUS_UP" "t_si ex_up = None"
    by (auto simp: trans_ok_def ex_up_def trans_create_def wait_ok_def in_wf_def si_ok_def make_stream_def)
  have m: "marked (t_in_s ex_up)" using t(2) by (simp add: in_wf_def marked_def)
  have pdu: "take 4 ex_initial = [3, 0, 0, 47]" "length ex_initial = nat (256 * uint (0 :: byte) + uint (47 :: byte))" "4 < length ex_initial"
    "length ex_initial \<le> 32768" by (simp_all add: ex_initial_def)
  obtain s where s: "libxrdp_force_read (\<lambda>_. 0) (read_header (delivers ex_initial)) (read_body (delivers ex_initial)) ex_up = Some (Some 0, ex_up\<lparr>t_in_s := s\<rparr>)"
    "in_wf s" "unread s = ex_initial"
    using force_read_delivers [OF m t(3) pdu] by blast
  obtain d s1 where p: "parse_connect_initial (\<lambda>_. 0) (m_client_mcs_data ?m) s = Some (0, s1, d)" "contents d = replicate 23 0"
    using parse_initial_ex [OF s(2,3)] by blast
  let ?self = "?m\<lparr>m_client_mcs_data := d\<rparr>" and ?t = "ex_up\<lparr>t_in_s := s1\<rparr>"
  have i: "xrdp_mcs_recv_connect_initial (\<lambda>_. 0) (delivers ex_initial) ?m ex_up = Some (Some 0, ?self, ?t)"
    using s(1) p(1) by (simp add: xrdp_mcs_recv_connect_initial_def)
  have mo: "mcs_ok ?m" using ok by (simp add: sec_ok_def)
  have i2: "mcs_ok ?self" "trans_ok ?t" "in_wf s1" using recv_connect_initial_typed [OF mo t(1,2), of "\<lambda>_. 0" "delivers ex_initial"] i by auto
  have ok2: "sec_ok (sec_put ex_closed ?self)" using sec_put_ok [OF ok i2(1)] by simp
  let ?d = "d\<lparr>s_p := 0\<rparr>"
  have d: "in_wf ?d" "unread ?d = replicate 23 0" using i2(1) p(2) by (simp_all add: mcs_ok_def in_wf_def marked_def unread_def contents_def)
  have "process_blocks True self (advance 23 ?d) = Some (0, self, advance 23 ?d)" for self
    using d advance_wf [OF d(1), of 23] by (subst process_blocks.simps) (simp add: s_check_rem_wf unread_advance)
  then have "\<exists>sec2. xrdp_sec_process_mcs_data True (sec_put ex_closed ?self) = Some (0, sec2)"
    using d by (simp add: xrdp_sec_process_mcs_data_def sec_put_def Let_def s_check_rem_wf in_uint8s_advance)
  moreover have "client_data_ok (sec_put ex_closed ?self)" "ci_channels_allowed (sec_client_info (sec_put ex_closed ?self)) = 0"
    "m_channel_list (sec_mcs_layer (sec_put ex_closed ?self)) = []"
    by (simp_all add: client_data_ok_def sec_put_def ex_closed_def ex_client_info_def ex_sec_def xrdp_mcs_create_def)
  ultimately obtain sec2 where q: "xrdp_sec_process_mcs_data True (sec_put ex_closed ?self) = Some (0, sec2)" "sec_ok sec2" "m_channel_list (sec_mcs_layer sec2) = []"
    using process_mcs_data_ok [OF ok2, of True] by fastforce
  obtain taken sec' tr' where "after_data (\<lambda>_. 0) ex_client_answers sec2 ?t = Some (Some 0, taken, sec', tr')"
    using ex_rest [OF q(2) _ i2(2)] q(3) i2(3) t(3,4) by fastforce
  then show ?thesis using i q(1) by (simp add: incoming_unfold) (simp add: ex_client_answers_def)
qed


lemma mcs_incoming_sound_witness:
  "\<exists>taken sec' tr'. xrdp_mcs_incoming (\<lambda>_. 0) True ex_client_answers ex_closed ex_up = Some (Some 0, taken, sec', tr') \<and>
     answered sec' (taken @ queued tr') \<and> sequence_read (\<lambda>_. 0) True ex_client_answers ex_closed ex_up sec' tr'"
proof -
  have ok: "sec_ok ex_closed" using ex_sec_ok [of "[]"] by (simp add: sec_ok_def ex_closed_def ex_sec_def ex_client_info_def)
  have t: "trans_ok ex_up" "in_wf (t_in_s ex_up)" "queued ex_up = []"
    by (auto simp: trans_ok_def ex_up_def trans_create_def wait_ok_def in_wf_def si_ok_def make_stream_def queued_def)
  have fits: "client_data_ok (sec_put ex_closed self) \<and>
      (\<forall>sec'. xrdp_sec_process_mcs_data True (sec_put ex_closed self) = Some (0, sec') \<longrightarrow> length (m_channel_list (sec_mcs_layer sec')) \<le> 2000)"
    if r: "xrdp_mcs_recv_connect_initial (\<lambda>_. 0) (io_initial ex_client_answers) (sec_mcs_layer ex_closed) ex_up = Some (Some 0, self, tr')" for self tr'
  proof -
    have "mcs_ok (sec_mcs_layer ex_closed)" using ok by (simp add: sec_ok_def)
    then have m: "mcs_ok self"
      using recv_connect_initial_typed [OF _ t(1,2), of "sec_mcs_layer ex_closed" "\<lambda>_. 0" "io_initial ex_client_answers"] r by auto
    have c: "m_channel_list self = []" using initial_keeps [OF r] by (auto simp: ex_closed_def ex_sec_def xrdp_mcs_create_def)
    then have "sec_ok (sec_put ex_closed self)" using sec_put_ok [OF ok m] by (simp add: ex_closed_def ex_sec_def xrdp_mcs_create_def)
    moreover have d: "client_data_ok (sec_put ex_closed self)" by (simp add: client_data_ok_def sec_put_def ex_closed_def ex_client_info_def)
    ultimately obtain rv self' where "xrdp_sec_process_mcs_data True (sec_put ex_closed self) = Some (rv, self')" "m_channel_list (sec_mcs_layer self') = []"
      using process_mcs_data_ok [of "sec_put ex_closed self" True] c by (auto simp: sec_put_def ex_closed_def ex_client_info_def)
    then show ?thesis using d by auto
  qed
  have "sequence_done (sequence_read (\<lambda>_. 0) True ex_client_answers ex_closed ex_up) ex_up
      (xrdp_mcs_incoming (\<lambda>_. 0) True ex_client_answers ex_closed ex_up)"
    by (rule mcs_incoming_sound [OF ok t(1,2)]) (rule fits)
  then show ?thesis using ex_sequence t(3) by (auto simp: sequence_done_def)
qed

end
