(* ===== verification/Int_Set.thy ===== *)
theory Int_Set
  imports Xrdp_Prelude
begin

text \<open>
  \<^verbatim>\<open>common/set_int.c\<close>: a set of integers in a fixed range, kept as a bitmap of unsigned
  words. The set pointer is an option (\<^term>\<open>None\<close> is NULL); an access outside the bitmap is
  an undefined result.
\<close>

abbreviation (input) BITS_PER_WORD :: nat where "BITS_PER_WORD \<equiv> 32"

record set_int =
  set_min :: int
  set_max :: int
  word_count :: nat
  set_bits :: "32 word list"

definition set_int_remove_all :: "set_int option \<Rightarrow> set_int option" where
  "set_int_remove_all st = map_option (\<lambda>s. s\<lparr>set_bits := replicate (word_count s) 0\<rparr>) st"

definition set_int_add_all :: "set_int option \<Rightarrow> set_int option" where
  "set_int_add_all st = map_option (\<lambda>s. s\<lparr>set_bits := replicate (word_count s) (- 1)\<rparr>) st"

text \<open>The difference \<^verbatim>\<open>max - min\<close> is a C \<^verbatim>\<open>int\<close>; its overflow is undefined.\<close>

definition set_int_init :: "bool \<Rightarrow> int \<Rightarrow> int \<Rightarrow> set_int option option" where
  "set_int_init ok min_v max_v =
     (if max_v < min_v then Some None
      else if max_v - min_v \<ge> 2 ^ 31 then None
      else if \<not> ok then Some None
      else (let wc = nat ((max_v - min_v) div int BITS_PER_WORD) + 1
            in Some (set_int_remove_all
                 (Some \<lparr>set_min = min_v, set_max = max_v, word_count = wc, set_bits = []\<rparr>))))"

definition set_int_add :: "set_int option \<Rightarrow> int \<Rightarrow> set_int option option" where
  "set_int_add st val =
     (case st of
        None \<Rightarrow> Some None
      | Some s \<Rightarrow>
          if val \<ge> set_min s \<and> val \<le> set_max s then
            do { let index = nat (val - set_min s) div BITS_PER_WORD;
                 let b = nat (val - set_min s) mod BITS_PER_WORD;
                 w \<leftarrow> list_get (set_bits s) index;
                 ws \<leftarrow> list_set (set_bits s) index (w OR push_bit b 1);
                 Some (Some (s\<lparr>set_bits := ws\<rparr>)) }
          else Some st)"

definition set_int_remove :: "set_int option \<Rightarrow> int \<Rightarrow> set_int option option" where
  "set_int_remove st val =
     (case st of
        None \<Rightarrow> Some None
      | Some s \<Rightarrow>
          if val \<ge> set_min s \<and> val \<le> set_max s then
            do { let index = nat (val - set_min s) div BITS_PER_WORD;
                 let b = nat (val - set_min s) mod BITS_PER_WORD;
                 w \<leftarrow> list_get (set_bits s) index;
                 ws \<leftarrow> list_set (set_bits s) index (w AND NOT (push_bit b 1));
                 Some (Some (s\<lparr>set_bits := ws\<rparr>)) }
          else Some st)"

definition set_int_contains :: "set_int option \<Rightarrow> int \<Rightarrow> int option" where
  "set_int_contains st val =
     (case st of
        None \<Rightarrow> Some 0
      | Some s \<Rightarrow>
          if val \<ge> set_min s \<and> val \<le> set_max s then
            do { let index = nat (val - set_min s) div BITS_PER_WORD;
                 let b = nat (val - set_min s) mod BITS_PER_WORD;
                 w \<leftarrow> list_get (set_bits s) index;
                 Some (uint (drop_bit b w AND 1)) }
          else Some 0)"

text \<open>
  \<^verbatim>\<open>set_int_get_next\<close>: the search for the next nonzero word (\<^term>\<open>Some None\<close> when the bitmap
  is exhausted) and the search for its lowest set bit, which would not end on a zero word.
\<close>

function next_word :: "32 word list \<Rightarrow> nat \<Rightarrow> nat \<Rightarrow> nat option option" where
  "next_word ws wc index =
     (if Suc index \<ge> wc then Some None
      else case list_get ws (Suc index) of
             None \<Rightarrow> None
           | Some w \<Rightarrow> if w = 0 then next_word ws wc (Suc index) else Some (Some (Suc index)))"
  by pat_completeness auto
termination by (relation "measure (\<lambda>(ws, wc, index). wc - index)") auto

declare next_word.simps [simp del]

partial_function (option) low_bit :: "32 word \<Rightarrow> nat \<Rightarrow> nat option" where
  [code]: "low_bit w b = (if w AND 1 = 0 then low_bit (drop_bit 1 w) (Suc b) else Some b)"

text \<open>The result is the new value of \<^verbatim>\<open>*val\<close> when the function returns 1.\<close>

definition set_int_get_next :: "set_int option \<Rightarrow> int \<Rightarrow> int option option" where
  "set_int_get_next st val =
     (case st of
        None \<Rightarrow> Some None
      | Some s \<Rightarrow>
          if val \<ge> set_max s then Some None
          else
            do { let next = (if val < set_min s then set_min s else val + 1);
                 let index = nat (next - set_min s) div BITS_PER_WORD;
                 let b = nat (next - set_min s) mod BITS_PER_WORD;
                 w0 \<leftarrow> list_get (set_bits s) index;
                 found \<leftarrow> (if drop_bit b w0 = 0
                          then do { i \<leftarrow> next_word (set_bits s) (word_count s) index;
                                    Some (map_option (\<lambda>i. (i, 0)) i) }
                          else Some (Some (index, b)));
                 (case found of
                    None \<Rightarrow> Some None
                  | Some (index, b) \<Rightarrow>
                      do { w \<leftarrow> list_get (set_bits s) index;
                           b \<leftarrow> low_bit (drop_bit b w) b;
                           let next = int (index * BITS_PER_WORD + b) + set_min s;
                           Some (if next \<le> set_max s then Some next else None) }) })"

subsection \<open>Invariant and elements\<close>

definition set_wf :: "set_int \<Rightarrow> bool" where
  "set_wf s \<longleftrightarrow> set_min s \<le> set_max s \<and> set_max s - set_min s < 2 ^ 31 \<and>
     word_count s = nat ((set_max s - set_min s) div int BITS_PER_WORD) + 1 \<and>
     length (set_bits s) = word_count s"

text \<open>Bit \<^term>\<open>k\<close> of the whole bitmap.\<close>

definition map_bit :: "32 word list \<Rightarrow> nat \<Rightarrow> bool" where
  "map_bit ws k \<longleftrightarrow> k div 32 < length ws \<and> bit (ws ! (k div 32)) (k mod 32)"

definition set_elems :: "set_int \<Rightarrow> int set" where
  "set_elems s = {v. set_min s \<le> v \<and> v \<le> set_max s \<and> map_bit (set_bits s) (nat (v - set_min s))}"

lemma map_bit_or:
  "i < length ws \<Longrightarrow> b < 32 \<Longrightarrow>
     map_bit (ws[i := ws ! i OR push_bit b 1]) k \<longleftrightarrow> map_bit ws k \<or> k = 32 * i + b"
proof -
  assume i: "i < length ws" and b: "b < 32"
  have k: "k = 32 * i + b \<longleftrightarrow> k div 32 = i \<and> k mod 32 = b"
    using b by auto
  have "k mod 32 < 32" by simp
  then show ?thesis
    using i b unfolding k by (cases "k div 32 = i") (auto simp: map_bit_def bit_simps)
qed

lemma map_bit_andnot:
  "i < length ws \<Longrightarrow> b < 32 \<Longrightarrow>
     map_bit (ws[i := ws ! i AND NOT (push_bit b 1)]) k \<longleftrightarrow> map_bit ws k \<and> k \<noteq> 32 * i + b"
proof -
  assume i: "i < length ws" and b: "b < 32"
  have k: "k = 32 * i + b \<longleftrightarrow> k div 32 = i \<and> k mod 32 = b"
    using b by auto
  have "k mod 32 < 32" by simp
  then show ?thesis
    using i b unfolding k by (cases "k div 32 = i") (auto simp: map_bit_def bit_simps)
qed

lemma and_1_bit: "(w :: 'a::len word) AND 1 = (if bit w 0 then 1 else 0)"
  by (rule bit_word_eqI) (auto simp: bit_and_iff bit_1_iff simp del: and_one_eq intro!: gr0I)

lemma word_pos: "(x :: nat) < 32 \<Longrightarrow> (i * 32 + x) div 32 = i \<and> (i * 32 + x) mod 32 = x"
  by simp

lemma word_offset:
  "k = i * 32 + b \<Longrightarrow> j = i * 32 + c \<Longrightarrow> k \<le> j \<Longrightarrow> j < i * 32 + (b + m) \<Longrightarrow> (b :: nat) \<le> c \<and> c - b < m"
  by auto

lemma set_index:
  assumes "set_wf s" "set_min s \<le> v" "v \<le> set_max s"
  shows "nat (v - set_min s) div 32 < length (set_bits s)"
proof -
  have "nat (v - set_min s) \<le> nat (set_max s - set_min s)" using assms by simp
  then have "nat (v - set_min s) div 32 \<le> nat (set_max s - set_min s) div 32" by (rule div_le_mono)
  also have "\<dots> < length (set_bits s)"
    using assms(1) by (simp add: set_wf_def nat_div_distrib)
  finally show ?thesis .
qed


lemma set_int_add_ok:
  assumes "set_wf s"
  shows "\<exists>s'. set_int_add (Some s) v = Some (Some s') \<and> set_wf s' \<and> set_min s' = set_min s \<and>
           set_max s' = set_max s \<and>
           set_elems s' = (if set_min s \<le> v \<and> v \<le> set_max s then insert v (set_elems s) else set_elems s)"
proof (cases "set_min s \<le> v \<and> v \<le> set_max s")
  case True
  let ?k = "nat (v - set_min s)"
  let ?ws = "(set_bits s)[?k div 32 := set_bits s ! (?k div 32) OR push_bit (?k mod 32) 1]"
  let ?s = "s\<lparr>set_bits := ?ws\<rparr>"
  have i: "?k div 32 < length (set_bits s)" using assms True by (intro set_index) auto
  have "map_bit ?ws k \<longleftrightarrow> map_bit (set_bits s) k \<or> k = ?k" for k
    using map_bit_or [OF i, of "?k mod 32" k] by simp
  moreover have "nat (u - set_min s) = ?k \<longleftrightarrow> u = v" if "set_min s \<le> u" for u
    using True that by auto
  ultimately have "set_elems ?s = insert v (set_elems s)"
    using True by (auto simp: set_elems_def)
  moreover have "set_wf ?s" using assms by (simp add: set_wf_def)
  ultimately show ?thesis
    using True i by (intro exI [of _ ?s]) (simp add: set_int_add_def Let_def)
qed (use assms in \<open>auto simp: set_int_add_def\<close>)

lemma set_int_remove_ok:
  assumes "set_wf s"
  shows "\<exists>s'. set_int_remove (Some s) v = Some (Some s') \<and> set_wf s' \<and> set_min s' = set_min s \<and>
           set_max s' = set_max s \<and> set_elems s' = set_elems s - {v}"
proof (cases "set_min s \<le> v \<and> v \<le> set_max s")
  case True
  let ?k = "nat (v - set_min s)"
  let ?ws = "(set_bits s)[?k div 32 := set_bits s ! (?k div 32) AND NOT (push_bit (?k mod 32) 1)]"
  let ?s = "s\<lparr>set_bits := ?ws\<rparr>"
  have i: "?k div 32 < length (set_bits s)" using assms True by (intro set_index) auto
  have "map_bit ?ws k \<longleftrightarrow> map_bit (set_bits s) k \<and> k \<noteq> ?k" for k
    using map_bit_andnot [OF i, of "?k mod 32" k] by simp
  moreover have "nat (u - set_min s) = ?k \<longleftrightarrow> u = v" if "set_min s \<le> u" for u
    using True that by auto
  ultimately have "set_elems ?s = set_elems s - {v}"
    by (auto simp: set_elems_def)
  moreover have "set_wf ?s" using assms by (simp add: set_wf_def)
  ultimately show ?thesis
    using True i by (intro exI [of _ ?s]) (simp add: set_int_remove_def Let_def)
next
  case False
  moreover have "v \<notin> set_elems s" using False by (auto simp: set_elems_def)
  ultimately show ?thesis using assms by (auto simp: set_int_remove_def)
qed

lemma set_int_contains_ok:
  assumes "set_wf s"
  shows "set_int_contains (Some s) v = Some (if v \<in> set_elems s then 1 else 0)"
proof (cases "set_min s \<le> v \<and> v \<le> set_max s")
  case True
  let ?k = "nat (v - set_min s)"
  have i: "?k div 32 < length (set_bits s)" using assms True by (intro set_index) auto
  have "uint (drop_bit b w AND 1) = (if bit w b then 1 else 0)" for b and w :: "32 word"
    by (simp add: and_1_bit bit_drop_bit_eq del: and_one_eq)
  then show ?thesis
    using True i by (simp add: set_int_contains_def set_elems_def map_bit_def Let_def del: and_one_eq)
qed (auto simp: set_int_contains_def set_elems_def)

lemma low_bit_ok:
  "bit w j \<Longrightarrow> \<forall>i<j. \<not> bit w i \<Longrightarrow> low_bit w b = Some (b + j)"
proof (induction j arbitrary: w b)
  case 0
  then have "w AND 1 \<noteq> 0"
    by (simp add: and_1_bit del: and_one_eq)
  then show ?case by (subst low_bit.simps) (simp del: and_one_eq)
next
  case (Suc j)
  have "\<not> bit w 0" using Suc.prems(2) by simp
  then have w: "w AND 1 = 0" by (simp add: and_1_bit del: and_one_eq)
  have "bit (drop_bit 1 w) j" "\<forall>i<j. \<not> bit (drop_bit 1 w) i"
    using Suc.prems by (auto simp: bit_drop_bit_eq)
  from Suc.IH [OF this, of "Suc b"] w show ?case
    by (subst low_bit.simps) (simp del: and_one_eq)
qed

lemma next_word_ok:
  "\<exists>r. next_word ws (length ws) i = Some r \<and>
     (case r of
        None \<Rightarrow> \<forall>j. i < j \<and> j < length ws \<longrightarrow> ws ! j = 0
      | Some i' \<Rightarrow> i < i' \<and> i' < length ws \<and> ws ! i' \<noteq> 0 \<and> (\<forall>j. i < j \<and> j < i' \<longrightarrow> ws ! j = 0))"
proof (induction "length ws - i" arbitrary: i)
  case 0
  then show ?case by (subst next_word.simps) auto
next
  case (Suc n)
  show ?case
  proof (cases "Suc i \<ge> length ws")
    case True
    then show ?thesis by (subst next_word.simps) auto
  next
    case False
    show ?thesis
    proof (cases "ws ! Suc i = 0")
      case nz: False
      with False show ?thesis by (subst next_word.simps) auto
    next
      case True
      have n: "n = length ws - Suc i" using Suc.hyps(2) by simp
      obtain r where r: "next_word ws (length ws) (Suc i) = Some r"
        and spec: "case r of None \<Rightarrow> \<forall>j. Suc i < j \<and> j < length ws \<longrightarrow> ws ! j = 0
          | Some i' \<Rightarrow> Suc i < i' \<and> i' < length ws \<and> ws ! i' \<noteq> 0 \<and> (\<forall>j. Suc i < j \<and> j < i' \<longrightarrow> ws ! j = 0)"
        using Suc.hyps(1) [OF n] by blast
      have "next_word ws (length ws) i = Some r"
        using r True False by (subst next_word.simps) simp
      moreover have "i < j \<longleftrightarrow> j = Suc i \<or> Suc i < j" for j by auto
      ultimately show ?thesis
        using spec True by (auto split: option.splits)
    qed
  qed
qed


lemma word_low_bit:
  assumes "(w :: 32 word) \<noteq> 0"
  obtains j where "j < 32" "bit w j" "\<forall>i<j. \<not> bit w i"
proof -
  obtain n where n: "bit w n"
    using assms by (auto simp: bit_eq_iff)
  let ?j = "LEAST i. bit w i"
  have "bit w ?j" using n by (rule LeastI)
  moreover have "?j < 32" using bit_imp_le_length [OF calculation] by simp
  moreover have "\<forall>i<?j. \<not> bit w i" by (auto dest: not_less_Least)
  ultimately show thesis using that by blast
qed

text \<open>The search, starting inside the bitmap, finds the first bit at or after the start.\<close>

definition bit_search :: "32 word list \<Rightarrow> nat \<Rightarrow> nat option option" where
  "bit_search ws k =
     do { w0 \<leftarrow> list_get ws (k div BITS_PER_WORD);
          found \<leftarrow> (if drop_bit (k mod BITS_PER_WORD) w0 = 0
                   then do { i \<leftarrow> next_word ws (length ws) (k div BITS_PER_WORD);
                             Some (map_option (\<lambda>i. (i, 0)) i) }
                   else Some (Some (k div BITS_PER_WORD, k mod BITS_PER_WORD)));
          (case found of
             None \<Rightarrow> Some None
           | Some (index, b) \<Rightarrow>
               do { w \<leftarrow> list_get ws index;
                    b \<leftarrow> low_bit (drop_bit b w) b;
                    Some (Some (index * BITS_PER_WORD + b)) }) }"

lemma bit_search_ok:
  assumes "k div 32 < length ws"
  shows "\<exists>r. bit_search ws k = Some r \<and>
     (case r of
        None \<Rightarrow> \<forall>j\<ge>k. \<not> map_bit ws j
      | Some m \<Rightarrow> k \<le> m \<and> map_bit ws m \<and> (\<forall>j. k \<le> j \<and> j < m \<longrightarrow> \<not> map_bit ws j))"
proof -
  let ?i = "k div 32" and ?b = "k mod 32"
  have rest: "\<not> map_bit ws j" if "drop_bit ?b (ws ! ?i) = 0" "k \<le> j" "j div 32 = ?i" for j
  proof
    assume "map_bit ws j"
    then have "bit (ws ! ?i) (j mod 32)" using that(3) by (simp add: map_bit_def)
    moreover have "?b \<le> j mod 32"
      using that(2,3) by (metis add_le_cancel_left div_mult_mod_eq)
    ultimately have "bit (drop_bit ?b (ws ! ?i)) (j mod 32 - ?b)" by (simp add: bit_drop_bit_eq)
    with that(1) show False by simp
  qed
  have div_mono: "?i \<le> j div 32" if "k \<le> j" for j using that by (rule div_le_mono)
  show ?thesis
  proof (cases "drop_bit ?b (ws ! ?i) = 0")
    case False
    then obtain m where m: "bit (drop_bit ?b (ws ! ?i)) m" "\<forall>i<m. \<not> bit (drop_bit ?b (ws ! ?i)) i"
      by (auto elim: word_low_bit)
    have lt: "?b + m < 32"
      using m(1) bit_imp_le_length [of "ws ! ?i" "?b + m"] by (simp add: bit_drop_bit_eq add.commute)
    have "bit_search ws k = Some (Some (?i * 32 + (?b + m)))"
      using False assms low_bit_ok [OF m, of ?b] by (simp add: bit_search_def)
    moreover have "(?i * 32 + (?b + m)) div 32 = ?i" "(?i * 32 + (?b + m)) mod 32 = ?b + m"
      using word_pos [OF lt, of ?i] by blast+
    then have "map_bit ws (?i * 32 + (?b + m))"
      using assms m(1) by (simp add: map_bit_def bit_drop_bit_eq add.commute)
    moreover have "\<not> map_bit ws j" if j: "k \<le> j" "j < ?i * 32 + (?b + m)" for j
    proof
      assume bit: "map_bit ws j"
      have "j < ?i * 32 + 32" using j(2) add_strict_left_mono [OF lt, of "?i * 32"] by (rule less_trans)
      then have "j < Suc ?i * 32" by (simp only: mult_Suc add.commute)
      then have "j div 32 < Suc ?i" by (rule less_mult_imp_div_less)
      then have ji: "j div 32 = ?i" using div_mono [OF j(1)] by simp
      then have jm: "j = ?i * 32 + j mod 32" by (metis div_mult_mod_eq)
      then have "?b \<le> j mod 32" "j mod 32 - ?b < m"
        using word_offset [OF div_mult_mod_eq [of k 32, symmetric] jm j] by blast+
      then have "\<not> bit (ws ! ?i) (j mod 32)"
        using m(2) by (auto simp: bit_drop_bit_eq)
      with bit ji show False by (simp add: map_bit_def)
    qed
    moreover have "k \<le> ?i * 32 + (?b + m)" by (metis div_mult_mod_eq le_add1 add.assoc)
    ultimately show ?thesis by (intro exI [of _ "Some (?i * 32 + (?b + m))"]) auto
  next
    case True
    obtain r where r: "next_word ws (length ws) ?i = Some r"
      and spec: "case r of None \<Rightarrow> \<forall>j. ?i < j \<and> j < length ws \<longrightarrow> ws ! j = 0
        | Some i' \<Rightarrow> ?i < i' \<and> i' < length ws \<and> ws ! i' \<noteq> 0 \<and> (\<forall>j. ?i < j \<and> j < i' \<longrightarrow> ws ! j = 0)"
      using next_word_ok [of ws ?i] by blast
    have zero: "\<not> map_bit ws j" if "k \<le> j" "ws ! (j div 32) = 0 \<or> j div 32 \<ge> length ws \<or> j div 32 = ?i" for j
      using that rest [OF True, of j] by (auto simp: map_bit_def)
    show ?thesis
    proof (cases r)
      case None
      have "\<not> map_bit ws j" if "k \<le> j" for j
        using zero [OF that] spec None div_mono [OF that]
        by (cases "j div 32 = ?i"; cases "j div 32 < length ws") auto
      then show ?thesis
        using r None assms True by (intro exI [of _ None]) (simp add: bit_search_def)
    next
      case (Some i')
      with spec have i': "?i < i'" "i' < length ws" "ws ! i' \<noteq> 0"
        "\<forall>j. ?i < j \<and> j < i' \<longrightarrow> ws ! j = 0" by simp_all
      obtain m where m: "m < 32" "bit (ws ! i') m" "\<forall>i<m. \<not> bit (ws ! i') i"
        using i'(3) by (rule word_low_bit)
      have "bit_search ws k = Some (Some (i' * 32 + m))"
        using r Some assms True i' low_bit_ok [OF m(2,3), of 0] by (simp add: bit_search_def)
      moreover have "map_bit ws (i' * 32 + m)" using m i' by (simp add: map_bit_def)
      moreover have "k \<le> i' * 32 + m" using i'(1) by linarith
      moreover have "\<not> map_bit ws j" if j: "k \<le> j" "j < i' * 32 + m" for j
      proof (cases "j div 32 = i'")
        case True
        then have "j mod 32 < m" using j by (metis add_less_cancel_left div_mult_mod_eq)
        with True m(3) show ?thesis by (simp add: map_bit_def)
      next
        case False
        then have "j div 32 < i'" using j m(1) by auto
        then have "j div 32 = ?i \<or> ws ! (j div 32) = 0"
          using i'(4) div_mono [OF j(1)] by (metis le_neq_implies_less)
        with zero [OF j(1)] show ?thesis by blast
      qed
      ultimately show ?thesis by (intro exI [of _ "Some (i' * 32 + m)"]) auto
    qed
  qed
qed


lemma set_int_get_next_eq:
  assumes "set_wf s" and "v < set_max s"
  shows "set_int_get_next (Some s) v =
     map_option (\<lambda>r. case r of None \<Rightarrow> None
        | Some m \<Rightarrow> if int m + set_min s \<le> set_max s then Some (int m + set_min s) else None)
       (bit_search (set_bits s) (nat ((if v < set_min s then set_min s else v + 1) - set_min s)))"
proof -
  have wc: "word_count s = length (set_bits s)" "\<not> v \<ge> set_max s"
    using assms by (simp_all add: set_wf_def)
  have map_bind: "map_option f (Option.bind x g) = Option.bind x (\<lambda>y. map_option f (g y))"
    for f :: "nat option \<Rightarrow> int option" and g :: "'b \<Rightarrow> nat option option" and x
    by (cases x) simp_all
  have map_case: "map_option f (case z of None \<Rightarrow> Some None | Some (i, b) \<Rightarrow> g i b) =
      (case z of None \<Rightarrow> Some (f None) | Some (i, b) \<Rightarrow> map_option f (g i b))"
    for f :: "nat option \<Rightarrow> int option" and z :: "(nat \<times> nat) option" and g
    by (auto split: option.split)
  show ?thesis
    unfolding set_int_get_next_def bit_search_def Let_def map_bind map_case option.case
      if_not_P [OF wc(2)] wc(1)
    by (intro arg_cong2 [where f = Option.bind] refl ext) (simp split: option.split)
qed

lemma set_int_get_next_ok:
  assumes "set_wf s"
  shows "\<exists>r. set_int_get_next (Some s) v = Some r \<and>
     (case r of
        None \<Rightarrow> \<forall>u \<in> set_elems s. u \<le> v
      | Some n \<Rightarrow> n \<in> set_elems s \<and> v < n \<and> (\<forall>u \<in> set_elems s. v < u \<longrightarrow> n \<le> u))"
proof (cases "v < set_max s")
  case False
  then show ?thesis
    by (intro exI [of _ None]) (auto simp: set_int_get_next_def set_elems_def)
next
  case True
  let ?start = "if v < set_min s then set_min s else v + 1"
  let ?k = "nat (?start - set_min s)"
  have "?k div 32 < length (set_bits s)"
    using assms True by (intro set_index) (auto simp: set_wf_def)
  from bit_search_ok [OF this] obtain r where r: "bit_search (set_bits s) ?k = Some r"
    and spec: "case r of None \<Rightarrow> \<forall>j\<ge>?k. \<not> map_bit (set_bits s) j
      | Some m \<Rightarrow> ?k \<le> m \<and> map_bit (set_bits s) m \<and> (\<forall>j. ?k \<le> j \<and> j < m \<longrightarrow> \<not> map_bit (set_bits s) j)"
    by blast
  have above: "?k \<le> nat (u - set_min s)" "map_bit (set_bits s) (nat (u - set_min s))"
    "set_min s \<le> u" "u \<le> set_max s"
    if "u \<in> set_elems s" "v < u" for u
    using that by (auto simp: set_elems_def)
  show ?thesis
  proof (cases r)
    case None
    then show ?thesis
      using spec set_int_get_next_eq [OF assms True] r above
      by (intro exI [of _ None]) (auto simp: not_less [symmetric])
  next
    case (Some m)
    let ?n = "int m + set_min s"
    have m: "?k \<le> m" "map_bit (set_bits s) m" "\<forall>j. ?k \<le> j \<and> j < m \<longrightarrow> \<not> map_bit (set_bits s) j"
      using spec Some by simp_all
    have le: "?n \<le> u" if u: "u \<in> set_elems s" "v < u" for u
    proof -
      have "m \<le> nat (u - set_min s)"
        using m(3) above(1,2) [OF u] by (cases "nat (u - set_min s) < m") auto
      then show ?thesis using above(3) [OF u] by linarith
    qed
    show ?thesis
    proof (cases "?n \<le> set_max s")
      case True
      have "?n \<in> set_elems s" "v < ?n"
        using True m by (auto simp: set_elems_def split: if_splits)
      with True le r Some set_int_get_next_eq [OF assms \<open>v < set_max s\<close>] show ?thesis
        by (intro exI [of _ "Some ?n"]) simp
    next
      case False
      then have "\<forall>u \<in> set_elems s. u \<le> v"
        using le by (force simp: set_elems_def)
      with False r Some set_int_get_next_eq [OF assms \<open>v < set_max s\<close>] show ?thesis
        by (intro exI [of _ None]) simp
    qed
  qed
qed


subsection \<open>The set contract and iteration\<close>

text \<open>Iterating from a value below the minimum, as \<^verbatim>\<open>set_int.h\<close> documents it.\<close>

fun set_iterate :: "('s \<Rightarrow> int \<Rightarrow> int option option) \<Rightarrow> nat \<Rightarrow> 's \<Rightarrow> int \<Rightarrow> int list option" where
  "set_iterate nxt 0 s v = None"
| "set_iterate nxt (Suc fuel) s v =
     (case nxt s v of
        None \<Rightarrow> None
      | Some None \<Rightarrow> Some []
      | Some (Some n) \<Rightarrow> map_option ((#) n) (set_iterate nxt fuel s n))"

locale int_set =
  fixes inv :: "'s \<Rightarrow> bool"
    and elems :: "'s \<Rightarrow> int set"
    and lo :: "'s \<Rightarrow> int"
    and hi :: "'s \<Rightarrow> int"
    and add :: "'s \<Rightarrow> int \<Rightarrow> 's option"
    and remove :: "'s \<Rightarrow> int \<Rightarrow> 's option"
    and nxt :: "'s \<Rightarrow> int \<Rightarrow> int option option"
  assumes elems_range: "inv s \<Longrightarrow> v \<in> elems s \<Longrightarrow> lo s \<le> v \<and> v \<le> hi s"
    and add_result: "inv s \<Longrightarrow> \<exists>s'. add s v = Some s' \<and> inv s' \<and> lo s' = lo s \<and> hi s' = hi s \<and>
      elems s' = (if lo s \<le> v \<and> v \<le> hi s then insert v (elems s) else elems s)"
    and remove_result: "inv s \<Longrightarrow> \<exists>s'. remove s v = Some s' \<and> inv s' \<and> lo s' = lo s \<and> hi s' = hi s \<and>
      elems s' = elems s - {v}"
    and nxt_result: "inv s \<Longrightarrow> \<exists>r. nxt s v = Some r \<and>
      (case r of None \<Rightarrow> \<forall>u \<in> elems s. u \<le> v
       | Some n \<Rightarrow> n \<in> elems s \<and> v < n \<and> (\<forall>u \<in> elems s. v < u \<longrightarrow> n \<le> u))"
begin

lemma iterate_from:
  assumes "inv s" and "nat (hi s - v) < fuel"
  shows "\<exists>vs. set_iterate nxt fuel s v = Some vs \<and> sorted_wrt (<) vs \<and> set vs = {u \<in> elems s. v < u}"
  using assms(2)
proof (induction fuel arbitrary: v)
  case (Suc fuel)
  obtain r where r: "nxt s v = Some r"
    and spec: "case r of None \<Rightarrow> \<forall>u \<in> elems s. u \<le> v
       | Some n \<Rightarrow> n \<in> elems s \<and> v < n \<and> (\<forall>u \<in> elems s. v < u \<longrightarrow> n \<le> u)"
    using nxt_result [OF assms(1), of v] by blast
  show ?case
  proof (cases r)
    case None
    with spec r show ?thesis by (intro exI [of _ "[]"]) (auto simp: not_less)
  next
    case (Some n)
    with spec have n: "n \<in> elems s" "v < n" "\<forall>u \<in> elems s. v < u \<longrightarrow> n \<le> u" by simp_all
    have "n \<le> hi s" using elems_range [OF assms(1) n(1)] by simp
    then have "nat (hi s - n) < fuel" using n(2) Suc.prems by linarith
    from Suc.IH [OF this] obtain vs where
      vs: "set_iterate nxt fuel s n = Some vs" "sorted_wrt (<) vs" "set vs = {u \<in> elems s. n < u}" by blast
    have "{u \<in> elems s. v < u} = insert n {u \<in> elems s. n < u}"
      using n by force
    with vs r Some show ?thesis by (intro exI [of _ "n # vs"]) auto
  qed
qed simp

end

text \<open>The bitmap of \<^verbatim>\<open>set_int.c\<close>, reached through a non-NULL pointer, meets the contract.\<close>

definition int_set_add :: "set_int \<Rightarrow> int \<Rightarrow> set_int option" where
  "int_set_add s v = do { s' \<leftarrow> set_int_add (Some s) v; s' }"

definition int_set_remove :: "set_int \<Rightarrow> int \<Rightarrow> set_int option" where
  "int_set_remove s v = do { s' \<leftarrow> set_int_remove (Some s) v; s' }"

definition int_set_next :: "set_int \<Rightarrow> int \<Rightarrow> int option option" where
  "int_set_next s v = set_int_get_next (Some s) v"

interpretation bitmap: int_set set_wf set_elems set_min set_max int_set_add int_set_remove int_set_next
proof unfold_locales
  fix s v
  assume wf: "set_wf s"
  show "v \<in> set_elems s \<Longrightarrow> set_min s \<le> v \<and> v \<le> set_max s"
    by (simp add: set_elems_def)
  show "\<exists>s'. int_set_add s v = Some s' \<and> set_wf s' \<and> set_min s' = set_min s \<and> set_max s' = set_max s \<and>
      set_elems s' = (if set_min s \<le> v \<and> v \<le> set_max s then insert v (set_elems s) else set_elems s)"
    using set_int_add_ok [OF wf, of v] by (auto simp: int_set_add_def)
  show "\<exists>s'. int_set_remove s v = Some s' \<and> set_wf s' \<and> set_min s' = set_min s \<and> set_max s' = set_max s \<and>
      set_elems s' = set_elems s - {v}"
    using set_int_remove_ok [OF wf, of v] by (auto simp: int_set_remove_def)
  show "\<exists>r. int_set_next s v = Some r \<and>
      (case r of None \<Rightarrow> \<forall>u \<in> set_elems s. u \<le> v
       | Some n \<Rightarrow> n \<in> set_elems s \<and> v < n \<and> (\<forall>u \<in> set_elems s. v < u \<longrightarrow> n \<le> u))"
    using set_int_get_next_ok [OF wf, of v] by (simp add: int_set_next_def)
qed

lemma map_bit_zero: "\<not> map_bit (replicate n 0) k"
  by (simp add: map_bit_def)

lemma set_int_init_wf:
  assumes "lo \<le> hi" "hi - lo < 2 ^ 31"
  shows "\<exists>s. set_int_init True lo hi = Some (Some s) \<and> set_wf s \<and> set_min s = lo \<and> set_max s = hi \<and>
           set_elems s = {}"
  using assms
  by (auto simp: set_int_init_def set_int_remove_all_def Let_def set_wf_def set_elems_def
      map_bit_zero simp del: replicate_Suc)

text \<open>
  C28. The bitmap implements a set of integers: a fresh set is empty; adding a value in range
  adds exactly it and a value out of range changes nothing; removing removes exactly it;
  the membership test is exact; no operation touches memory outside the bitmap.
\<close>

theorem set_int_is_set:
  assumes "set_wf s"
  shows "\<exists>a r. set_int_add (Some s) v = Some (Some a) \<and> set_wf a \<and>
       set_elems a = (if set_min s \<le> v \<and> v \<le> set_max s then insert v (set_elems s) else set_elems s) \<and>
     set_int_remove (Some s) v = Some (Some r) \<and> set_wf r \<and> set_elems r = set_elems s - {v} \<and>
     set_int_contains (Some s) v = Some (if v \<in> set_elems s then 1 else 0)"
  using set_int_add_ok [OF assms, of v] set_int_remove_ok [OF assms, of v] set_int_contains_ok [OF assms, of v]
  by auto

lemma set_int_is_set_witness:
  "\<exists>a r. set_int_add (Some \<lparr>set_min = -3, set_max = 40, word_count = 2, set_bits = [5, 0]\<rparr>) 7 = Some (Some a) \<and>
     set_int_remove (Some \<lparr>set_min = -3, set_max = 40, word_count = 2, set_bits = [5, 0]\<rparr>) 7 = Some (Some r) \<and>
     set_elems a = insert 7 (set_elems \<lparr>set_min = -3, set_max = 40, word_count = 2, set_bits = [5, 0]\<rparr>)"
  using set_int_is_set [of "\<lparr>set_min = -3, set_max = 40, word_count = 2, set_bits = [5, 0]\<rparr>" 7]
  by (auto simp: set_wf_def)

text \<open>
  Starting below the minimum, repeated calls of \<^verbatim>\<open>set_int_get_next\<close> end and visit exactly
  the members of the set in strictly increasing order, also after \<^verbatim>\<open>set_int_add_all\<close> has set
  bits beyond the maximum.
\<close>

lemma set_int_iteration:
  assumes "set_wf s" and "nat (set_max s - v) < fuel" and "v < set_min s"
  shows "\<exists>vs. set_iterate (\<lambda>s. set_int_get_next (Some s)) fuel s v = Some vs \<and>
     sorted_wrt (<) vs \<and> set vs = set_elems s"
proof -
  have "{u \<in> set_elems s. v < u} = set_elems s"
    using assms(3) by (auto simp: set_elems_def)
  then show ?thesis
    using bitmap.iterate_from [OF assms(1,2)] by (simp add: int_set_next_def [abs_def])
qed

lemma set_int_iteration_witness:
  "\<exists>vs. set_iterate (\<lambda>s. set_int_get_next (Some s)) 20
       \<lparr>set_min = 1, set_max = 10, word_count = 1, set_bits = [-1]\<rparr> 0 = Some vs \<and>
     sorted_wrt (<) vs \<and> set vs = set_elems \<lparr>set_min = 1, set_max = 10, word_count = 1, set_bits = [-1]\<rparr>"
  by (rule set_int_iteration) (simp_all add: set_wf_def)

end
