(* ===== verification/Libipm_Base.thy ===== *)
theory Libipm_Base
  imports Trans_State "HOL-Library.Multiset"
begin

text \<open>
  \<^verbatim>\<open>libipm/libipm.h\<close>, \<^verbatim>\<open>libipm_private.h\<close> and \<^verbatim>\<open>libipm.c\<close>: status codes, the private class
  data of a libipm transport, its set-up and flags, and the ownership of the file
  descriptors that arrive with a message. Logging has no effect on the state and is left
  out. File descriptors the code closes are returned as a list, in the order of the calls.
\<close>

datatype libipm_status =
    E_LI_SUCCESS | E_LI_PROGRAM_ERROR | E_LI_NO_MEMORY | E_LI_UNSUPPORTED_TYPE
  | E_LI_UNIMPLEMENTED_TYPE | E_LI_UNEXPECTED_TYPE | E_LI_BUFFER_OVERFLOW
  | E_LI_TOO_MANY_FDS | E_LI_BAD_VALUE | E_LI_BAD_HEADER | E_LI_TRANSPORT_ERROR

abbreviation (input) LIBIPM_E_MSG_IN_ERASE_AFTER_USE :: "32 word" where
  "LIBIPM_E_MSG_IN_ERASE_AFTER_USE \<equiv> 1"

abbreviation (input) LIBIPM_MAX_MSG_SIZE :: nat where "LIBIPM_MAX_MSG_SIZE \<equiv> 8192"
abbreviation (input) LIBIPM_VERSION :: int where "LIBIPM_VERSION \<equiv> 2"
abbreviation (input) HEADER_SIZE :: nat where "HEADER_SIZE \<equiv> 12"
abbreviation (input) MAX_FD_PER_MSG :: nat where "MAX_FD_PER_MSG \<equiv> 8"

record libipm_priv =
  facility :: int
  flags :: "32 word"
  out_msgno :: int
  out_param_count :: int
  out_fd_count :: nat
  out_fds :: "int list"
  in_msgno :: int
  in_param_count :: int
  in_fd_index :: nat
  in_fd_count :: nat
  in_fds :: "int list"

type_synonym ipm_trans = "libipm_priv trans"

text \<open>\<^verbatim>\<open>g_new0\<close>: every field zero.\<close>

definition new_priv :: libipm_priv where
  "new_priv = \<lparr>facility = 0, flags = 0, out_msgno = 0, out_param_count = 0, out_fd_count = 0,
     out_fds = replicate MAX_FD_PER_MSG 0, in_msgno = 0, in_param_count = 0, in_fd_index = 0,
     in_fd_count = 0, in_fds = replicate MAX_FD_PER_MSG 0\<rparr>"

subsection \<open>File descriptors of an incoming message\<close>

fun close_fds_from :: "int list \<Rightarrow> nat \<Rightarrow> nat \<Rightarrow> int list option" where
  "close_fds_from fds i 0 = Some []"
| "close_fds_from fds i (Suc n) =
     do { fd \<leftarrow> list_get fds i; rest \<leftarrow> close_fds_from fds (Suc i) n; Some (fd # rest) }"

definition libipm_msg_in_close_file_descriptors ::
  "ipm_trans \<Rightarrow> (int list \<times> ipm_trans) option" where
  "libipm_msg_in_close_file_descriptors self =
     (case t_extra_data self of
        None \<Rightarrow> Some ([], self)
      | Some priv \<Rightarrow>
          do { closed \<leftarrow> close_fds_from (in_fds priv) (in_fd_index priv)
                            (in_fd_count priv - in_fd_index priv);
               Some (closed, self\<lparr>t_extra_data :=
                 Some (priv\<lparr>in_fd_count := 0, in_fd_index := 0\<rparr>)\<rparr>) })"

text \<open>
  \<^verbatim>\<open>g_sck_recv_fd_set\<close> (\<^verbatim>\<open>common/os_calls.c\<close>) once \<^verbatim>\<open>recvmsg\<close> has returned: the descriptors of
  the ancillary data are stored while the caller's array has room, the others are closed.
\<close>

fun store_fds :: "int list \<Rightarrow> nat \<Rightarrow> nat \<Rightarrow> int list \<Rightarrow> (int list \<times> nat \<times> int list) option" where
  "store_fds fds fdcount maxfd [] = Some (fds, fdcount, [])"
| "store_fds fds fdcount maxfd (fd # ancillary) =
     (if fdcount < maxfd
      then do { fds \<leftarrow> list_set fds fdcount fd; store_fds fds (Suc fdcount) maxfd ancillary }
      else do { (fds, n, closed) \<leftarrow> store_fds fds fdcount maxfd ancillary;
                Some (fds, n, fd # closed) })"

definition g_sck_recv_fd_set ::
  "int \<Rightarrow> int list \<Rightarrow> nat \<Rightarrow> int list \<Rightarrow> (int list \<times> nat \<times> int list) option" where
  "g_sck_recv_fd_set rv fds maxfd ancillary =
     (if rv > 0 then store_fds fds 0 maxfd ancillary else Some (fds, 0, []))"

subsection \<open>The transport's receive and send procedures\<close>

text \<open>
  The argument \<^term>\<open>at_start\<close> is the comparison of the buffer pointer with the start of the
  stream's buffer. The result of the socket call \<^term>\<open>rv\<close> and the ancillary descriptors come
  from the operating system.
\<close>

definition libipm_trans_recv_proc ::
  "ipm_trans \<Rightarrow> bool \<Rightarrow> int \<Rightarrow> int list \<Rightarrow> (int \<times> int list \<times> ipm_trans) option" where
  "libipm_trans_recv_proc self at_start rv ancillary =
     (if t_extra_data self \<noteq> None \<and> at_start then
        do { (closed1, self) \<leftarrow>
               (if in_fd_count (the (t_extra_data self)) > 0
                then libipm_msg_in_close_file_descriptors self
                else Some ([], self));
             let priv = the (t_extra_data self);
             (fds, fdcount, closed2) \<leftarrow> g_sck_recv_fd_set rv (in_fds priv) MAX_FD_PER_MSG ancillary;
             let fdcount = min fdcount MAX_FD_PER_MSG;
             Some (rv, closed1 @ closed2,
                   self\<lparr>t_extra_data := Some (priv\<lparr>in_fds := fds, in_fd_count := fdcount\<rparr>)\<rparr>) }
      else Some (rv, [], self))"

datatype send_call =
    Sck_send_fd_set int "byte list" "int list"
  | Sck_send int "byte list"

definition libipm_trans_send_proc :: "ipm_trans \<Rightarrow> bool \<Rightarrow> byte list \<Rightarrow> send_call" where
  "libipm_trans_send_proc self at_start data =
     (case t_extra_data self of
        Some priv \<Rightarrow>
          (if at_start
           then Sck_send_fd_set (t_sck self) data (take (out_fd_count priv) (out_fds priv))
           else Sck_send (t_sck self) data)
      | None \<Rightarrow> Sck_send (t_sck self) data)"

subsection \<open>Resetting the input side\<close>

definition libipm_msg_in_reset ::
  "(nat \<Rightarrow> byte) \<Rightarrow> ipm_trans \<Rightarrow> (int list \<times> ipm_trans) option" where
  "libipm_msg_in_reset junk tr =
     do { (closed, tr) \<leftarrow>
            (case t_extra_data tr of
               None \<Rightarrow> Some ([], tr)
             | Some priv \<Rightarrow>
                 do { (s, priv) \<leftarrow>
                        (if flags priv AND LIBIPM_E_MSG_IN_ERASE_AFTER_USE \<noteq> 0
                         then do { s \<leftarrow> memset_start (s_end (t_in_s tr)) (t_in_s tr);
                                   Some (s, priv\<lparr>flags := flags priv AND
                                              NOT LIBIPM_E_MSG_IN_ERASE_AFTER_USE\<rparr>) }
                         else Some (t_in_s tr, priv));
                      libipm_msg_in_close_file_descriptors
                        (tr\<lparr>t_in_s := s,
                            t_extra_data := Some (priv\<lparr>in_msgno := 0, in_param_count := 0\<rparr>)\<rparr>) });
          Some (closed, tr\<lparr>t_extra_flags := 0, t_header_size := int HEADER_SIZE,
                  t_no_stream_init_on_data_in := 1,
                  t_in_s := init_stream junk LIBIPM_MAX_MSG_SIZE (t_in_s tr)\<rparr>) }"

text \<open>The destructor erases and closes; the class data is freed with it.\<close>

definition libipm_trans_destructor :: "ipm_trans \<Rightarrow> (int list \<times> ipm_trans) option" where
  "libipm_trans_destructor tr =
     do { (closed, tr) \<leftarrow> libipm_msg_in_close_file_descriptors tr;
          (case t_extra_data tr of
             None \<Rightarrow> Some (closed, tr)
           | Some priv \<Rightarrow>
               do { s \<leftarrow> (if flags priv AND LIBIPM_E_MSG_IN_ERASE_AFTER_USE \<noteq> 0
                         then memset_start (s_end (t_in_s tr)) (t_in_s tr) else Some (t_in_s tr));
                    Some (closed, tr\<lparr>t_in_s := s, t_extra_data := None\<rparr>) }) }"

subsection \<open>Set-up, flags and facility\<close>

definition libipm_init_trans ::
  "(nat \<Rightarrow> byte) \<Rightarrow> bool \<Rightarrow> bool \<Rightarrow> ipm_trans \<Rightarrow> int \<Rightarrow> (libipm_status \<times> ipm_trans) option" where
  "libipm_init_trans junk alloc_ok has_destructor tr fac =
     (if t_extra_data tr \<noteq> None \<or> has_destructor then Some (E_LI_PROGRAM_ERROR, tr)
      else if \<not> alloc_ok then Some (E_LI_NO_MEMORY, tr)
      else do { (closed, tr) \<leftarrow> libipm_msg_in_reset junk
                   (tr\<lparr>t_extra_data := Some (new_priv\<lparr>facility := fac\<rparr>)\<rparr>);
                Some (E_LI_SUCCESS, tr) })"

definition libipm_set_flags :: "ipm_trans \<Rightarrow> 32 word \<Rightarrow> ipm_trans" where
  "libipm_set_flags tr fl =
     (case t_extra_data tr of
        None \<Rightarrow> tr
      | Some priv \<Rightarrow> tr\<lparr>t_extra_data := Some (priv\<lparr>flags := flags priv OR fl\<rparr>)\<rparr>)"

definition libipm_clear_flags :: "ipm_trans \<Rightarrow> 32 word \<Rightarrow> ipm_trans" where
  "libipm_clear_flags tr fl =
     (case t_extra_data tr of
        None \<Rightarrow> tr
      | Some priv \<Rightarrow> tr\<lparr>t_extra_data := Some (priv\<lparr>flags := flags priv AND NOT fl\<rparr>)\<rparr>)"

definition libipm_change_facility :: "ipm_trans \<Rightarrow> int \<Rightarrow> int \<Rightarrow> ipm_trans" where
  "libipm_change_facility tr old_facility new_facility =
     (case t_extra_data tr of
        None \<Rightarrow> tr
      | Some priv \<Rightarrow>
          (if facility priv \<noteq> old_facility then tr
           else tr\<lparr>t_extra_data := Some (priv\<lparr>facility := new_facility\<rparr>)\<rparr>))"

subsection \<open>Invariant and descriptor ownership\<close>

definition priv_wf :: "libipm_priv \<Rightarrow> bool" where
  "priv_wf priv \<longleftrightarrow>
     length (out_fds priv) = MAX_FD_PER_MSG \<and> out_fd_count priv \<le> MAX_FD_PER_MSG \<and>
     length (in_fds priv) = MAX_FD_PER_MSG \<and> in_fd_index priv \<le> in_fd_count priv \<and>
     in_fd_count priv \<le> MAX_FD_PER_MSG"

text \<open>The descriptors received and not yet handed to the application.\<close>

definition pending_fds :: "libipm_priv \<Rightarrow> int list" where
  "pending_fds priv = drop (in_fd_index priv) (take (in_fd_count priv) (in_fds priv))"

lemma new_priv_wf [wf_intros]: "priv_wf (new_priv\<lparr>facility := f\<rparr>)"
  by (simp add: priv_wf_def new_priv_def)

lemma close_fds_from_eq:
  "i + n \<le> length fds \<Longrightarrow> close_fds_from fds i n = Some (take n (drop i fds))"
proof (induction fds i n rule: close_fds_from.induct)
  case (2 fds i n)
  then show ?case by (simp add: take_Suc_conv_app_nth Cons_nth_drop_Suc [symmetric])
qed simp

lemma close_fds_pending:
  assumes "priv_wf priv"
  shows "close_fds_from (in_fds priv) (in_fd_index priv) (in_fd_count priv - in_fd_index priv) =
           Some (pending_fds priv)"
  using assms by (simp add: close_fds_from_eq priv_wf_def pending_fds_def drop_take)

lemma close_file_descriptors_eq:
  assumes "t_extra_data tr = Some priv" and "priv_wf priv"
  shows "libipm_msg_in_close_file_descriptors tr =
           Some (pending_fds priv,
                 tr\<lparr>t_extra_data := Some (priv\<lparr>in_fd_count := 0, in_fd_index := 0\<rparr>)\<rparr>)"
  using assms by (simp add: libipm_msg_in_close_file_descriptors_def close_fds_pending)

text \<open>\<^verbatim>\<open>store_fds\<close> keeps what fits and closes the rest, in order.\<close>

lemma store_fds_eq:
  assumes "maxfd \<le> length fds" and "n \<le> maxfd"
  shows "\<exists>fds'. store_fds fds n maxfd anc =
           Some (fds', n + min (length anc) (maxfd - n), drop (maxfd - n) anc) \<and>
         length fds' = length fds \<and>
         take (n + min (length anc) (maxfd - n)) fds' = take n fds @ take (maxfd - n) anc"
  using assms
proof (induction fds n maxfd anc rule: store_fds.induct)
  case (2 fds n maxfd fd anc)
  show ?case
  proof (cases "n < maxfd")
    case True
    then have "list_set fds n fd = Some (fds[n := fd])"
      using "2.prems" by simp
    moreover obtain fds' where "store_fds (fds[n := fd]) (Suc n) maxfd anc =
        Some (fds', Suc n + min (length anc) (maxfd - Suc n), drop (maxfd - Suc n) anc)"
      "length fds' = length fds"
      "take (Suc n + min (length anc) (maxfd - Suc n)) fds' =
         take (Suc n) (fds[n := fd]) @ take (maxfd - Suc n) anc"
      using "2.IH"(1) [OF True calculation] "2.prems" True by auto
    moreover have "n + min (Suc (length anc)) (maxfd - n) = Suc n + min (length anc) (maxfd - Suc n)"
      "maxfd - n = Suc (maxfd - Suc n)"
      using True by auto
    ultimately show ?thesis
      using True "2.prems" by (simp add: take_Suc_update)
  next
    case False
    then show ?thesis using "2.IH"(2) "2.prems" by auto
  qed
qed simp

lemma length_pending: "priv_wf priv \<Longrightarrow> length (pending_fds priv) = in_fd_count priv - in_fd_index priv"
  by (simp add: pending_fds_def priv_wf_def)

lemma pending_fds_Cons:
  assumes "priv_wf priv" and "pending_fds priv = fd # fds2"
  shows "in_fd_index priv < in_fd_count priv" "in_fd_index priv < length (in_fds priv)"
    "in_fds priv ! in_fd_index priv = fd"
    "pending_fds (priv\<lparr>in_fd_index := Suc (in_fd_index priv)\<rparr>) = fds2"
    "priv_wf (priv\<lparr>in_fd_index := Suc (in_fd_index priv)\<rparr>)"
proof -
  show less: "in_fd_index priv < in_fd_count priv"
    using length_pending [OF assms(1)] assms(2) by simp
  then show "in_fd_index priv < length (in_fds priv)"
    using assms(1) by (simp add: priv_wf_def)
  with less have eq: "pending_fds priv = in_fds priv ! in_fd_index priv #
      drop (Suc (in_fd_index priv)) (take (in_fd_count priv) (in_fds priv))"
    by (simp add: pending_fds_def Cons_nth_drop_Suc [symmetric])
  then show "in_fds priv ! in_fd_index priv = fd"
    using assms(2) by simp
  show "pending_fds (priv\<lparr>in_fd_index := Suc (in_fd_index priv)\<rparr>) = fds2"
    using eq assms(2) by (simp add: pending_fds_def)
  show "priv_wf (priv\<lparr>in_fd_index := Suc (in_fd_index priv)\<rparr>)"
    using less assms(1) by (simp add: priv_wf_def)
qed

end
