(* ===== verification/Libipm_Send.thy ===== *)
theory Libipm_Send
  imports Libipm_Base
begin

text \<open>
  \<^verbatim>\<open>libipm/libipm_send.c\<close>: building an output message. A format string is the list of its
  type codes; the variadic arguments are a list of values that \<^verbatim>\<open>va_arg\<close> consumes.
  Reading an argument of the wrong kind, or one too many, is undefined in C and \<^term>\<open>None\<close>
  here, as is a write outside the output buffer. \<^verbatim>\<open>int\<close> is 32 bits wide
  (\<^verbatim>\<open>SIZEOF_INT\<close> is 4).
\<close>

abbreviation T_y :: byte where "T_y \<equiv> 0x79"
abbreviation T_b :: byte where "T_b \<equiv> 0x62"
abbreviation T_n :: byte where "T_n \<equiv> 0x6e"
abbreviation T_q :: byte where "T_q \<equiv> 0x71"
abbreviation T_i :: byte where "T_i \<equiv> 0x69"
abbreviation T_u :: byte where "T_u \<equiv> 0x75"
abbreviation T_x :: byte where "T_x \<equiv> 0x78"
abbreviation T_t :: byte where "T_t \<equiv> 0x74"
abbreviation T_s :: byte where "T_s \<equiv> 0x73"
abbreviation T_d :: byte where "T_d \<equiv> 0x64"
abbreviation T_h :: byte where "T_h \<equiv> 0x68"
abbreviation T_o :: byte where "T_o \<equiv> 0x6f"
abbreviation T_g :: byte where "T_g \<equiv> 0x67"
abbreviation T_B :: byte where "T_B \<equiv> 0x42"

definition libipm_valid_type_chars :: "byte list" where
  "libipm_valid_type_chars = [T_y, T_b, T_n, T_q, T_i, T_u, T_x, T_t, T_s, T_d, T_h, T_o, T_g, T_B]"

text \<open>\<^verbatim>\<open>g_strchr(text, c) != NULL\<close>: the search includes the terminator, as \<^verbatim>\<open>strchr\<close> does.\<close>

definition g_strchr_found :: "byte list \<Rightarrow> byte \<Rightarrow> bool" where
  "g_strchr_found text c \<longleftrightarrow> c \<in> set text \<or> c = 0"

datatype c_arg =
    Arg_int int
  | Arg_32 int
  | Arg_64 int
  | Arg_str "byte list option"
  | Arg_fsb "byte list option"

type_synonym append_result = "(libipm_status \<times> c_arg list \<times> ipm_trans) option"

fun va_arg_int :: "c_arg list \<Rightarrow> (int \<times> c_arg list) option" where
  "va_arg_int (Arg_int i # as) = Some (i, as)"
| "va_arg_int _ = None"

fun va_arg_32 :: "c_arg list \<Rightarrow> (int \<times> c_arg list) option" where
  "va_arg_32 (Arg_32 i # as) = Some (i, as)"
| "va_arg_32 _ = None"

fun va_arg_64 :: "c_arg list \<Rightarrow> (int \<times> c_arg list) option" where
  "va_arg_64 (Arg_64 i # as) = Some (i, as)"
| "va_arg_64 _ = None"

fun va_arg_str :: "c_arg list \<Rightarrow> (byte list option \<times> c_arg list) option" where
  "va_arg_str (Arg_str x # as) = Some (x, as)"
| "va_arg_str _ = None"

fun va_arg_fsb :: "c_arg list \<Rightarrow> (byte list option \<times> c_arg list) option" where
  "va_arg_fsb (Arg_fsb x # as) = Some (x, as)"
| "va_arg_fsb _ = None"

subsection \<open>One function per type\<close>

definition append_bool_type :: "byte \<Rightarrow> ipm_trans \<Rightarrow> c_arg list \<Rightarrow> append_result" where
  "append_bool_type c tr args =
     (let s = t_out_s tr in
      if \<not> s_check_rem_out s (1 + 1) then Some (E_LI_BUFFER_OVERFLOW, args, tr)
      else do { (tmp, args) \<leftarrow> va_arg_int args;
                if tmp < 0 \<or> tmp > 1 then Some (E_LI_BAD_VALUE, args, tr)
                else do { s \<leftarrow> out_uint8 (uint c) s;
                          s \<leftarrow> out_uint8 tmp s;
                          Some (E_LI_SUCCESS, args, tr\<lparr>t_out_s := s\<rparr>) } })"

definition append_int8_type :: "byte \<Rightarrow> ipm_trans \<Rightarrow> c_arg list \<Rightarrow> append_result" where
  "append_int8_type c tr args =
     (let s = t_out_s tr in
      if \<not> s_check_rem_out s (1 + 1) then Some (E_LI_BUFFER_OVERFLOW, args, tr)
      else do { (tmp, args) \<leftarrow> va_arg_int args;
                if tmp < 0 \<or> tmp > 255 then Some (E_LI_BAD_VALUE, args, tr)
                else do { s \<leftarrow> out_uint8 (uint c) s;
                          s \<leftarrow> out_uint8 tmp s;
                          Some (E_LI_SUCCESS, args, tr\<lparr>t_out_s := s\<rparr>) } })"

definition append_int16_type :: "byte \<Rightarrow> ipm_trans \<Rightarrow> c_arg list \<Rightarrow> append_result" where
  "append_int16_type c tr args =
     (let s = t_out_s tr in
      if \<not> s_check_rem_out s (1 + 2) then Some (E_LI_BUFFER_OVERFLOW, args, tr)
      else do { (tmp, args) \<leftarrow> va_arg_int args;
                if (c = T_n \<and> (tmp < - 0x8000 \<or> tmp > 0x7fff)) \<or>
                   (c = T_q \<and> (tmp < 0 \<or> tmp > 0xffff))
                then Some (E_LI_BAD_VALUE, args, tr)
                else do { s \<leftarrow> out_uint8 (uint c) s;
                          s \<leftarrow> out_uint16_le tmp s;
                          Some (E_LI_SUCCESS, args, tr\<lparr>t_out_s := s\<rparr>) } })"

definition append_int32_type :: "byte \<Rightarrow> ipm_trans \<Rightarrow> c_arg list \<Rightarrow> append_result" where
  "append_int32_type c tr args =
     (let s = t_out_s tr in
      if \<not> s_check_rem_out s (1 + 4) then Some (E_LI_BUFFER_OVERFLOW, args, tr)
      else do { (tmp, args) \<leftarrow> va_arg_32 args;
                s \<leftarrow> out_uint8 (uint c) s;
                s \<leftarrow> out_uint32_le tmp s;
                Some (E_LI_SUCCESS, args, tr\<lparr>t_out_s := s\<rparr>) })"

definition append_int64_type :: "byte \<Rightarrow> ipm_trans \<Rightarrow> c_arg list \<Rightarrow> append_result" where
  "append_int64_type c tr args =
     (let s = t_out_s tr in
      if \<not> s_check_rem_out s (1 + 8) then Some (E_LI_BUFFER_OVERFLOW, args, tr)
      else do { (tmp, args) \<leftarrow> va_arg_64 args;
                s \<leftarrow> out_uint8 (uint c) s;
                s \<leftarrow> out_uint64_le tmp s;
                Some (E_LI_SUCCESS, args, tr\<lparr>t_out_s := s\<rparr>) })"

text \<open>A string argument is the bytes before its terminator; the terminator is copied too.\<close>

definition append_char_ptr_type :: "byte \<Rightarrow> ipm_trans \<Rightarrow> c_arg list \<Rightarrow> append_result" where
  "append_char_ptr_type c tr args =
     do { (str, args) \<leftarrow> va_arg_str args;
          let s = t_out_s tr;
          (case str of
             None \<Rightarrow> Some (E_LI_PROGRAM_ERROR, args, tr)
           | Some str \<Rightarrow>
               (let len = length str in
                if len > LIBIPM_MAX_MSG_SIZE - HEADER_SIZE - 1 \<or>
                   \<not> s_check_rem_out s (1 + 1 + int len)
                then Some (E_LI_BUFFER_OVERFLOW, args, tr)
                else do { s \<leftarrow> out_uint8 (uint c) s;
                          s \<leftarrow> out_uint8p (str @ [0]) (len + 1) s;
                          Some (E_LI_SUCCESS, args, tr\<lparr>t_out_s := s\<rparr>) })) }"

definition append_fd_type :: "byte \<Rightarrow> c_arg list \<Rightarrow> ipm_trans \<Rightarrow> append_result" where
  "append_fd_type c args tr =
     do { let s = t_out_s tr;
          priv \<leftarrow> t_extra_data tr;
          (fd, args) \<leftarrow> va_arg_int args;
          if fd < 0 then Some (E_LI_PROGRAM_ERROR, args, tr)
          else if \<not> s_check_rem_out s 1 then Some (E_LI_BUFFER_OVERFLOW, args, tr)
          else if out_fd_count priv \<ge> MAX_FD_PER_MSG then Some (E_LI_TOO_MANY_FDS, args, tr)
          else do { s \<leftarrow> out_uint8 (uint c) s;
                    fds \<leftarrow> list_set (out_fds priv) (out_fd_count priv) fd;
                    Some (E_LI_SUCCESS, args,
                          tr\<lparr>t_out_s := s,
                             t_extra_data := Some (priv\<lparr>out_fds := fds,
                                                       out_fd_count := out_fd_count priv + 1\<rparr>)\<rparr>) } }"

definition append_fsb_type :: "byte \<Rightarrow> ipm_trans \<Rightarrow> c_arg list \<Rightarrow> append_result" where
  "append_fsb_type c tr args =
     do { (fsb, args) \<leftarrow> va_arg_fsb args;
          let s = t_out_s tr;
          (case fsb of
             None \<Rightarrow> Some (E_LI_PROGRAM_ERROR, args, tr)
           | Some data \<Rightarrow>
               (let len = length data in
                if len > LIBIPM_MAX_MSG_SIZE - HEADER_SIZE - 2 \<or>
                   \<not> s_check_rem_out s (1 + 2 + int len)
                then Some (E_LI_BUFFER_OVERFLOW, args, tr)
                else do { s \<leftarrow> out_uint8 (uint c) s;
                          s \<leftarrow> out_uint16_le (int len) s;
                          s \<leftarrow> out_uint8p data len s;
                          Some (E_LI_SUCCESS, args, tr\<lparr>t_out_s := s\<rparr>) })) }"

subsection \<open>The format interpreter\<close>

text \<open>The \<^verbatim>\<open>switch\<close> of \<^verbatim>\<open>libipm_msg_out_appendv\<close>, then its loop over the format.\<close>

definition append_switch :: "byte \<Rightarrow> ipm_trans \<Rightarrow> c_arg list \<Rightarrow> append_result" where
  "append_switch c tr args =
     (if c = T_y then append_int8_type c tr args
      else if c = T_b then append_bool_type c tr args
      else if c = T_n \<or> c = T_q then append_int16_type c tr args
      else if c = T_i \<or> c = T_u then append_int32_type c tr args
      else if c = T_x \<or> c = T_t then append_int64_type c tr args
      else if c = T_s then append_char_ptr_type c tr args
      else if c = T_h then append_fd_type c args tr
      else if c = T_B then append_fsb_type c tr args
      else Some (E_LI_UNIMPLEMENTED_TYPE, args, tr))"

fun libipm_msg_out_appendv :: "ipm_trans \<Rightarrow> byte list \<Rightarrow> c_arg list \<Rightarrow> append_result" where
  "libipm_msg_out_appendv tr [] args = Some (E_LI_SUCCESS, args, tr)"
| "libipm_msg_out_appendv tr (c # cs) args =
     do { priv \<leftarrow> t_extra_data tr;
          let tr = tr\<lparr>t_extra_data :=
                Some (priv\<lparr>out_param_count := c_ushort (out_param_count priv + 1)\<rparr>)\<rparr>;
          if \<not> g_strchr_found libipm_valid_type_chars c
          then Some (E_LI_UNSUPPORTED_TYPE, args, tr)
          else do { (rv, args, tr) \<leftarrow> append_switch c tr args;
                    if rv = E_LI_SUCCESS then libipm_msg_out_appendv tr cs args
                    else Some (rv, args, tr) } }"

text \<open>A NULL format adds nothing.\<close>

definition appendv_opt :: "ipm_trans \<Rightarrow> byte list option \<Rightarrow> c_arg list \<Rightarrow> append_result" where
  "appendv_opt tr format args =
     (case format of None \<Rightarrow> Some (E_LI_SUCCESS, args, tr)
      | Some fmt \<Rightarrow> libipm_msg_out_appendv tr fmt args)"

definition init_output_buffer :: "(nat \<Rightarrow> byte) \<Rightarrow> ipm_trans \<Rightarrow> int \<Rightarrow> ipm_trans option" where
  "init_output_buffer junk tr msgno =
     do { priv \<leftarrow> t_extra_data tr;
          Some (tr\<lparr>t_out_s := s_push_layer_iso HEADER_SIZE
                                (init_stream junk LIBIPM_MAX_MSG_SIZE (t_out_s tr)),
                   t_extra_data := Some (priv\<lparr>out_msgno := msgno, out_param_count := 0,
                                             out_fd_count := 0\<rparr>)\<rparr>) }"

definition libipm_msg_out_init ::
  "(nat \<Rightarrow> byte) \<Rightarrow> ipm_trans \<Rightarrow> int \<Rightarrow> byte list option \<Rightarrow> c_arg list \<Rightarrow> append_result" where
  "libipm_msg_out_init junk tr msgno format args =
     (if t_extra_data tr = None then Some (E_LI_PROGRAM_ERROR, args, tr)
      else do { tr \<leftarrow> init_output_buffer junk tr msgno;
                appendv_opt tr format args })"

definition libipm_msg_out_append :: "ipm_trans \<Rightarrow> byte list option \<Rightarrow> c_arg list \<Rightarrow> append_result" where
  "libipm_msg_out_append tr format args =
     (if t_extra_data tr = None then Some (E_LI_PROGRAM_ERROR, args, tr)
      else appendv_opt tr format args)"

definition libipm_msg_out_mark_end :: "ipm_trans \<Rightarrow> ipm_trans option" where
  "libipm_msg_out_mark_end tr =
     (case t_extra_data tr of
        None \<Rightarrow> Some tr
      | Some priv \<Rightarrow>
          do { let s = s_pop_layer_iso (s_mark_end (t_out_s tr));
               s \<leftarrow> out_uint16_le LIBIPM_VERSION s;
               s \<leftarrow> out_uint16_le (int (s_end s)) s;
               s \<leftarrow> out_uint16_le (facility priv) s;
               s \<leftarrow> out_uint16_le (out_msgno priv) s;
               s \<leftarrow> out_uint32_le 0 s;
               Some (tr\<lparr>t_out_s := s\<lparr>s_p := s_end s\<rparr>\<rparr>) })"

text \<open>
  \<^verbatim>\<open>trans_force_write\<close> is passed in: it returns the transport and whether the write succeeded.
\<close>

definition libipm_msg_out_simple_send ::
  "(ipm_trans \<Rightarrow> (bool \<times> ipm_trans) option) \<Rightarrow> (nat \<Rightarrow> byte) \<Rightarrow> ipm_trans \<Rightarrow> int \<Rightarrow>
   byte list option \<Rightarrow> c_arg list \<Rightarrow> (libipm_status \<times> ipm_trans) option" where
  "libipm_msg_out_simple_send force_write junk tr msgno format args =
     (if t_extra_data tr = None then Some (E_LI_PROGRAM_ERROR, tr)
      else do { tr \<leftarrow> init_output_buffer junk tr msgno;
                (rv, args, tr) \<leftarrow> appendv_opt tr format args;
                if rv = E_LI_SUCCESS
                then do { tr \<leftarrow> libipm_msg_out_mark_end tr;
                          (ok, tr) \<leftarrow> force_write tr;
                          Some (if ok then E_LI_SUCCESS else E_LI_TRANSPORT_ERROR, tr) }
                else Some (rv, tr) })"

definition libipm_msg_out_erase :: "ipm_trans \<Rightarrow> ipm_trans option" where
  "libipm_msg_out_erase tr =
     (let s = t_out_s tr in
      if s_size s > 0 then do { s \<leftarrow> memset_start (s_p s) s; Some (tr\<lparr>t_out_s := s\<rparr>) }
      else Some tr)"

end
