(* ===== verification/Libipm_Recv.thy ===== *)
theory Libipm_Recv
  imports Libipm_Send
begin

text \<open>
  \<^verbatim>\<open>libipm/libipm_recv.c\<close>: recognising and parsing an input message. Each out-pointer of
  the parse call is a value of \<^verbatim>\<open>dest\<close> (for a fixed-size block, the size in the
  caller's descriptor); the values stored through them are returned in order. A read
  outside the input buffer is \<^term>\<open>None\<close>.
\<close>

subsection \<open>Header\<close>

definition validate_msg_header :: "ipm_trans \<Rightarrow> (libipm_status \<times> int \<times> ipm_trans) option" where
  "validate_msg_header tr =
     do { priv \<leftarrow> t_extra_data tr;
          let s = t_in_s tr;
          (version, s) \<leftarrow> in_uint16_le s;
          (size, s) \<leftarrow> in_uint16_le s;
          (fac, s) \<leftarrow> in_uint16_le s;
          (msgno, s) \<leftarrow> in_uint16_le s;
          (reserved, s) \<leftarrow> in_uint32_le s;
          let tr = tr\<lparr>t_in_s := s, t_extra_data := Some (priv\<lparr>in_msgno := msgno\<rparr>)\<rparr>;
          Some (if version \<noteq> LIBIPM_VERSION then E_LI_BAD_HEADER
                else if size < int HEADER_SIZE \<or> size > int LIBIPM_MAX_MSG_SIZE then E_LI_BAD_HEADER
                else if fac \<noteq> facility priv then E_LI_BAD_HEADER
                else if reserved \<noteq> 0 then E_LI_BAD_HEADER
                else E_LI_SUCCESS, size, tr) }"

definition libipm_msg_in_check_available ::
  "ipm_trans \<Rightarrow> (libipm_status \<times> bool \<times> ipm_trans) option" where
  "libipm_msg_in_check_available tr =
     (if t_extra_data tr = None then Some (E_LI_PROGRAM_ERROR, False, tr)
      else if t_status tr \<noteq> TRANS_STATUS_UP then Some (E_LI_PROGRAM_ERROR, False, tr)
      else if c_uint (int (s_end (t_in_s tr))) = t_header_size tr
      then (if t_extra_flags tr = 0
            then do { (rv, size, tr) \<leftarrow> validate_msg_header tr;
                      if rv = E_LI_SUCCESS
                      then Some (rv, size = int HEADER_SIZE,
                                 tr\<lparr>t_extra_flags := 1, t_header_size := size\<rparr>)
                      else Some (rv, False, tr) }
            else Some (E_LI_SUCCESS, True, tr))
      else Some (E_LI_SUCCESS, False, tr))"

definition libipm_msg_in_get_msgno :: "ipm_trans \<Rightarrow> int" where
  "libipm_msg_in_get_msgno tr = (case t_extra_data tr of None \<Rightarrow> 0 | Some priv \<Rightarrow> in_msgno priv)"

text \<open>\<^verbatim>\<open>'?'\<close> is byte 63.\<close>

definition libipm_msg_in_peek_type :: "ipm_trans \<Rightarrow> byte option" where
  "libipm_msg_in_peek_type tr =
     (if s_check_rem (t_in_s tr) 1
      then do { c \<leftarrow> in_uint8_peek (t_in_s tr);
                Some (if g_strchr_found libipm_valid_type_chars c then c else 63) }
      else Some 0)"

subsection \<open>One function per type\<close>

datatype dest = D_int | D_u8 | D_u16 | D_u32 | D_u64 | D_str | D_fsb "nat option"

datatype ipm_value =
    V_int int | V_u8 int | V_u16 int | V_u32 int | V_u64 int
  | V_str "byte list" | V_fsb "byte list"

type_synonym extract_result = "(libipm_status \<times> ipm_value list \<times> dest list \<times> ipm_trans) option"

fun va_dest :: "dest \<Rightarrow> dest list \<Rightarrow> dest list option" where
  "va_dest d (d' # ds) = (if d' = d then Some ds else None)"
| "va_dest d [] = None"

fun va_dest_fsb :: "dest list \<Rightarrow> (nat option \<times> dest list) option" where
  "va_dest_fsb (D_fsb n # ds) = Some (n, ds)"
| "va_dest_fsb _ = None"

definition extract_bool_type :: "ipm_trans \<Rightarrow> dest list \<Rightarrow> extract_result" where
  "extract_bool_type tr ds =
     (let s = t_in_s tr in
      if \<not> s_check_rem s 1 then Some (E_LI_BUFFER_OVERFLOW, [], ds, tr)
      else do { (b, s) \<leftarrow> in_uint8 s;
                let tr = tr\<lparr>t_in_s := s\<rparr>;
                if b < 0 \<or> b > 1 then Some (E_LI_BAD_VALUE, [], ds, tr)
                else do { ds \<leftarrow> va_dest D_int ds; Some (E_LI_SUCCESS, [V_int b], ds, tr) } })"

definition extract_int8_type :: "ipm_trans \<Rightarrow> dest list \<Rightarrow> extract_result" where
  "extract_int8_type tr ds =
     (let s = t_in_s tr in
      if \<not> s_check_rem s 1 then Some (E_LI_BUFFER_OVERFLOW, [], ds, tr)
      else do { ds \<leftarrow> va_dest D_u8 ds;
                (v, s) \<leftarrow> in_uint8 s;
                Some (E_LI_SUCCESS, [V_u8 v], ds, tr\<lparr>t_in_s := s\<rparr>) })"

definition extract_int16_type :: "ipm_trans \<Rightarrow> dest list \<Rightarrow> extract_result" where
  "extract_int16_type tr ds =
     (let s = t_in_s tr in
      if \<not> s_check_rem s 2 then Some (E_LI_BUFFER_OVERFLOW, [], ds, tr)
      else do { ds \<leftarrow> va_dest D_u16 ds;
                (v, s) \<leftarrow> in_uint16_le s;
                Some (E_LI_SUCCESS, [V_u16 v], ds, tr\<lparr>t_in_s := s\<rparr>) })"

definition extract_int32_type :: "ipm_trans \<Rightarrow> dest list \<Rightarrow> extract_result" where
  "extract_int32_type tr ds =
     (let s = t_in_s tr in
      if \<not> s_check_rem s 4 then Some (E_LI_BUFFER_OVERFLOW, [], ds, tr)
      else do { ds \<leftarrow> va_dest D_u32 ds;
                (v, s) \<leftarrow> in_uint32_le s;
                Some (E_LI_SUCCESS, [V_u32 v], ds, tr\<lparr>t_in_s := s\<rparr>) })"

definition extract_int64_type :: "ipm_trans \<Rightarrow> dest list \<Rightarrow> extract_result" where
  "extract_int64_type tr ds =
     (let s = t_in_s tr in
      if \<not> s_check_rem s 8 then Some (E_LI_BUFFER_OVERFLOW, [], ds, tr)
      else do { ds \<leftarrow> va_dest D_u64 ds;
                (v, s) \<leftarrow> in_uint64_le s;
                Some (E_LI_SUCCESS, [V_u64 v], ds, tr\<lparr>t_in_s := s\<rparr>) })"

text \<open>
  \<^verbatim>\<open>g_strnchr\<close> searches the given number of bytes: the offset of the first terminator
  at or after \<^term>\<open>p\<close>, or \<^term>\<open>None\<close> when there is none in range.
\<close>

fun find_byte :: "byte \<Rightarrow> byte list \<Rightarrow> nat option" where
  "find_byte c [] = None"
| "find_byte c (b # bs) = (if b = c then Some 0 else map_option Suc (find_byte c bs))"

definition g_strnchr :: "stream \<Rightarrow> byte \<Rightarrow> int \<Rightarrow> nat option option" where
  "g_strnchr s c len =
     (if len \<le> 0 then Some None
      else if s_p s + nat len \<le> s_size s
      then Some (find_byte c (take (nat len) (drop (s_p s) (s_data s))))
      else None)"

definition extract_char_ptr_type :: "ipm_trans \<Rightarrow> dest list \<Rightarrow> extract_result" where
  "extract_char_ptr_type tr ds =
     (let s = t_in_s tr in
      do { termptr \<leftarrow> g_strnchr s 0 (c_int (int (s_end s) - int (s_p s)));
           (case termptr of
              None \<Rightarrow> Some (E_LI_BAD_VALUE, [], ds, tr)
            | Some k \<Rightarrow>
                do { ds \<leftarrow> va_dest D_str ds;
                     Some (E_LI_SUCCESS, [V_str (take k (drop (s_p s) (s_data s)))], ds,
                           tr\<lparr>t_in_s := s\<lparr>s_p := s_p s + k + 1\<rparr>\<rparr>) }) })"

definition extract_fd_type :: "ipm_trans \<Rightarrow> dest list \<Rightarrow> extract_result" where
  "extract_fd_type tr ds =
     do { priv \<leftarrow> t_extra_data tr;
          if in_fd_index priv \<ge> in_fd_count priv then Some (E_LI_TOO_MANY_FDS, [], ds, tr)
          else do { ds \<leftarrow> va_dest D_int ds;
                    fd \<leftarrow> list_get (in_fds priv) (in_fd_index priv);
                    Some (E_LI_SUCCESS, [V_int fd], ds,
                          tr\<lparr>t_extra_data := Some (priv\<lparr>in_fd_index := in_fd_index priv + 1\<rparr>)\<rparr>) } }"

definition extract_fsb_type :: "ipm_trans \<Rightarrow> dest list \<Rightarrow> extract_result" where
  "extract_fsb_type tr ds =
     do { (fsb, ds) \<leftarrow> va_dest_fsb ds;
          let s = t_in_s tr;
          (case fsb of
             None \<Rightarrow> Some (E_LI_PROGRAM_ERROR, [], ds, tr)
           | Some datalen \<Rightarrow>
               (if \<not> s_check_rem s 2 then Some (E_LI_BUFFER_OVERFLOW, [], ds, tr)
                else do { (len, s) \<leftarrow> in_uint16_le s;
                          let tr = tr\<lparr>t_in_s := s\<rparr>;
                          if len \<noteq> int datalen then Some (E_LI_BAD_VALUE, [], ds, tr)
                          else if \<not> s_check_rem s len then Some (E_LI_BUFFER_OVERFLOW, [], ds, tr)
                          else do { (bs, s) \<leftarrow> in_uint8a (nat len) s;
                                    Some (E_LI_SUCCESS, [V_fsb bs], ds, tr\<lparr>t_in_s := s\<rparr>) } })) }"

subsection \<open>The format interpreter\<close>

definition extract_switch :: "byte \<Rightarrow> ipm_trans \<Rightarrow> dest list \<Rightarrow> extract_result" where
  "extract_switch c tr ds =
     (if c = T_y then extract_int8_type tr ds
      else if c = T_b then extract_bool_type tr ds
      else if c = T_n \<or> c = T_q then extract_int16_type tr ds
      else if c = T_i \<or> c = T_u then extract_int32_type tr ds
      else if c = T_x \<or> c = T_t then extract_int64_type tr ds
      else if c = T_s then extract_char_ptr_type tr ds
      else if c = T_h then extract_fd_type tr ds
      else if c = T_B then extract_fsb_type tr ds
      else Some (E_LI_UNIMPLEMENTED_TYPE, [], ds, tr))"

fun libipm_msg_in_parsev :: "ipm_trans \<Rightarrow> byte list \<Rightarrow> dest list \<Rightarrow> extract_result" where
  "libipm_msg_in_parsev tr [] ds = Some (E_LI_SUCCESS, [], ds, tr)"
| "libipm_msg_in_parsev tr (c # cs) ds =
     do { priv \<leftarrow> t_extra_data tr;
          let tr = tr\<lparr>t_extra_data :=
                Some (priv\<lparr>in_param_count := c_ushort (in_param_count priv + 1)\<rparr>)\<rparr>;
          if \<not> g_strchr_found libipm_valid_type_chars c
          then Some (E_LI_UNSUPPORTED_TYPE, [], ds, tr)
          else if \<not> s_check_rem (t_in_s tr) 1
          then Some (E_LI_BUFFER_OVERFLOW, [], ds, tr)
          else do { (actual_c, s) \<leftarrow> in_uint8 (t_in_s tr);
                    let tr = tr\<lparr>t_in_s := s\<rparr>;
                    if uint c \<noteq> actual_c then Some (E_LI_UNEXPECTED_TYPE, [], ds, tr)
                    else do { (rv, vs, ds, tr) \<leftarrow> extract_switch c tr ds;
                              if rv = E_LI_SUCCESS
                              then do { (rv, vs', ds, tr) \<leftarrow> libipm_msg_in_parsev tr cs ds;
                                        Some (rv, vs @ vs', ds, tr) }
                              else Some (rv, vs, ds, tr) } } }"

definition libipm_msg_in_parse :: "ipm_trans \<Rightarrow> byte list option \<Rightarrow> dest list \<Rightarrow> extract_result" where
  "libipm_msg_in_parse tr format ds =
     (if t_extra_data tr = None then Some (E_LI_PROGRAM_ERROR, [], ds, tr)
      else case format of None \<Rightarrow> Some (E_LI_SUCCESS, [], ds, tr)
           | Some fmt \<Rightarrow> libipm_msg_in_parsev tr fmt ds)"

end
