(* ===== verification/Libipm_Wire.thy ===== *)
theory Libipm_Wire
  imports Libipm_Recv
begin

text \<open>
  The libipm wire format as a specification, and the proof that \<^verbatim>\<open>libipm_send.c\<close> and
  \<^verbatim>\<open>libipm_recv.c\<close> implement it: each parameter is a type letter followed by its value.
\<close>

subsection \<open>The wire format\<close>

fun wire_param :: "byte \<Rightarrow> c_arg \<Rightarrow> byte list" where
  "wire_param c (Arg_int v) =
     (if c = T_h then [c]
      else if c = T_n \<or> c = T_q then c # le_bytes 2 v else c # le_bytes 1 v)"
| "wire_param c (Arg_32 v) = c # le_bytes 4 v"
| "wire_param c (Arg_64 v) = c # le_bytes 8 v"
| "wire_param c (Arg_str str) = c # (case str of None \<Rightarrow> [] | Some bs \<Rightarrow> bs @ [0])"
| "wire_param c (Arg_fsb fsb) =
     c # (case fsb of None \<Rightarrow> [] | Some bs \<Rightarrow> le_bytes 2 (int (length bs)) @ bs)"

text \<open>The values a type letter can carry.\<close>

fun arg_ok :: "byte \<Rightarrow> c_arg \<Rightarrow> bool" where
  "arg_ok c (Arg_int v) \<longleftrightarrow>
     c = T_y \<and> 0 \<le> v \<and> v \<le> 255 \<or> c = T_b \<and> 0 \<le> v \<and> v \<le> 1 \<or>
     c = T_n \<and> - 0x8000 \<le> v \<and> v \<le> 0x7fff \<or> c = T_q \<and> 0 \<le> v \<and> v \<le> 0xffff \<or>
     c = T_h \<and> 0 \<le> v"
| "arg_ok c (Arg_32 v) \<longleftrightarrow> c = T_i \<or> c = T_u"
| "arg_ok c (Arg_64 v) \<longleftrightarrow> c = T_x \<or> c = T_t"
| "arg_ok c (Arg_str str) \<longleftrightarrow>
     c = T_s \<and> (\<exists>bs. str = Some bs \<and> 0 \<notin> set bs \<and> length bs \<le> LIBIPM_MAX_MSG_SIZE - HEADER_SIZE - 1)"
| "arg_ok c (Arg_fsb fsb) \<longleftrightarrow>
     c = T_B \<and> (\<exists>bs. fsb = Some bs \<and> length bs \<le> LIBIPM_MAX_MSG_SIZE - HEADER_SIZE - 2)"

definition param_fds :: "byte \<Rightarrow> c_arg \<Rightarrow> int list" where
  "param_fds c a = (case a of Arg_int v \<Rightarrow> if c = T_h then [v] else [] | _ \<Rightarrow> [])"

text \<open>What the receiving application gets, and the out-pointer it passes.\<close>

fun param_value :: "byte \<Rightarrow> c_arg \<Rightarrow> ipm_value" where
  "param_value c (Arg_int v) =
     (if c = T_y then V_u8 v else if c = T_n \<or> c = T_q then V_u16 (c_ushort v) else V_int v)"
| "param_value c (Arg_32 v) = V_u32 (c_uint v)"
| "param_value c (Arg_64 v) = V_u64 (v mod 2 ^ 64)"
| "param_value c (Arg_str str) = V_str (the str)"
| "param_value c (Arg_fsb fsb) = V_fsb (the fsb)"

fun param_dest :: "byte \<Rightarrow> c_arg \<Rightarrow> dest" where
  "param_dest c (Arg_int v) =
     (if c = T_y then D_u8 else if c = T_n \<or> c = T_q then D_u16 else D_int)"
| "param_dest c (Arg_32 v) = D_u32"
| "param_dest c (Arg_64 v) = D_u64"
| "param_dest c (Arg_str str) = D_str"
| "param_dest c (Arg_fsb fsb) = D_fsb (Some (length (the fsb)))"

abbreviation wire_params :: "(byte \<times> c_arg) list \<Rightarrow> byte list" where
  "wire_params ps \<equiv> concat (map (\<lambda>(c, a). wire_param c a) ps)"

abbreviation params_fds :: "(byte \<times> c_arg) list \<Rightarrow> int list" where
  "params_fds ps \<equiv> concat (map (\<lambda>(c, a). param_fds c a) ps)"

abbreviation params_values :: "(byte \<times> c_arg) list \<Rightarrow> ipm_value list" where
  "params_values ps \<equiv> map (\<lambda>(c, a). param_value c a) ps"

abbreviation params_dests :: "(byte \<times> c_arg) list \<Rightarrow> dest list" where
  "params_dests ps \<equiv> map (\<lambda>(c, a). param_dest c a) ps"

subsection \<open>Sending one parameter\<close>

lemma le_bytes_1_uint [simp]: "le_bytes (Suc 0) (uint (c :: byte)) = [c]"
  by simp

lemma out_uint8p_all [simp]: "out_uint8p v (length v) s = out_bytes v s"
  by (simp add: out_uint8p_def)

lemma out_uint8p_str [simp]: "out_uint8p (str @ [0]) (Suc (length str)) s = out_bytes (str @ [0]) s"
  by (simp add: out_uint8p_def)

fun add_fds :: "int list \<Rightarrow> libipm_priv \<Rightarrow> libipm_priv" where
  "add_fds [] priv = priv"
| "add_fds (fd # new) priv =
     add_fds new (priv\<lparr>out_fds := (out_fds priv)[out_fd_count priv := fd],
                       out_fd_count := Suc (out_fd_count priv)\<rparr>)"

text \<open>One parameter: everything or nothing is written.\<close>

definition sent_param :: "byte \<Rightarrow> c_arg \<Rightarrow> ipm_trans \<Rightarrow> ipm_trans \<Rightarrow> bool" where
  "sent_param c a tr tr' \<longleftrightarrow>
     (\<exists>s priv. t_extra_data tr = Some priv \<and>
        out_bytes (wire_param c a) (t_out_s tr) = Some s \<and>
        tr' = tr\<lparr>t_out_s := s, t_extra_data := Some (add_fds (param_fds c a) priv)\<rparr>)"

text \<open>
  An argument of the kind a type letter consumes; a C string holds no terminator inside.
\<close>

fun arg_kind :: "byte \<Rightarrow> c_arg \<Rightarrow> bool" where
  "arg_kind c (Arg_int v) \<longleftrightarrow> c \<in> {T_y, T_b, T_n, T_q, T_h}"
| "arg_kind c (Arg_32 v) \<longleftrightarrow> c \<in> {T_i, T_u}"
| "arg_kind c (Arg_64 v) \<longleftrightarrow> c \<in> {T_x, T_t}"
| "arg_kind c (Arg_str str) \<longleftrightarrow> c = T_s \<and> (\<forall>bs. str = Some bs \<longrightarrow> 0 \<notin> set bs)"
| "arg_kind c (Arg_fsb fsb) \<longleftrightarrow> c = T_B"

lemma extra_data_id: "t_extra_data tr = Some p \<Longrightarrow> tr\<lparr>t_out_s := s, t_extra_data := Some p\<rparr> = tr\<lparr>t_out_s := s\<rparr>"
  by (cases tr) simp

lemmas append_defs =
  append_int8_type_def append_bool_type_def append_int16_type_def append_int32_type_def
  append_int64_type_def append_char_ptr_type_def append_fd_type_def append_fsb_type_def

text \<open>
  Whether a parameter fits decides the outcome; the bytes written are then those of
  \<^const>\<open>wire_param\<close>.
\<close>

lemma out_bytes_cases:
  obtains (room) s' where "out_bytes bs s = Some s'" and "s_p s + length bs \<le> s_size s"
  | (full) "out_bytes bs s = None" and "\<not> s_p s + length bs \<le> s_size s"
  by (cases "s_p s + length bs \<le> s_size s") (auto simp: out_bytes_def)

lemmas append_simps =
  append_switch_def append_defs Let_def stream_simps sent_param_def out_merge out_defs extra_data_id
  param_fds_def

lemma append_switch_total:
  assumes wf: "out_wf (t_out_s tr)" "t_extra_data tr = Some priv" "priv_wf priv"
    and kind: "arg_kind c a"
  shows "\<exists>rv as' tr'. append_switch c tr (a # as) = Some (rv, as', tr') \<and>
           (if rv = E_LI_SUCCESS then as' = as \<and> arg_ok c a \<and> sent_param c a tr tr' else tr' = tr)"
proof (cases rule: out_bytes_cases [of "wire_param c a" "t_out_s tr"])
  case (room s')
  show ?thesis
  proof (cases a)
    case (Arg_int v)
    with kind consider "c = T_y" | "c = T_b" | "c = T_n" | "c = T_q" | "c = T_h" by auto
    then show ?thesis
      using wf Arg_int room by cases (auto simp: append_simps priv_wf_def)
  next
    case (Arg_32 v)
    with kind consider "c = T_i" | "c = T_u" by auto
    then show ?thesis using wf Arg_32 room by cases (auto simp: append_simps)
  next
    case (Arg_64 v)
    with kind consider "c = T_x" | "c = T_t" by auto
    then show ?thesis using wf Arg_64 room by cases (auto simp: append_simps)
  next
    case (Arg_str str)
    with kind wf room show ?thesis by (cases str) (auto simp: append_simps)
  next
    case (Arg_fsb fsb)
    with kind wf room show ?thesis by (cases fsb) (auto simp: append_simps)
  qed
next
  case full
  show ?thesis
  proof (cases a)
    case (Arg_int v)
    with kind consider "c = T_y" | "c = T_b" | "c = T_n" | "c = T_q" | "c = T_h" by auto
    then show ?thesis
      using wf Arg_int full by cases (auto simp: append_simps)
  next
    case (Arg_str str)
    with kind wf full show ?thesis by (cases str) (auto simp: append_simps)
  next
    case (Arg_fsb fsb)
    with kind wf full show ?thesis by (cases fsb) (auto simp: append_simps)
  qed (use kind wf full in \<open>auto simp: append_simps\<close>)
qed

lemma append_switch_ok:
  assumes wf: "out_wf (t_out_s tr)" "t_extra_data tr = Some priv" "priv_wf priv"
    and ok: "arg_ok c a"
    and room: "s_p (t_out_s tr) + length (wire_param c a) \<le> s_size (t_out_s tr)"
      "out_fd_count priv + length (param_fds c a) \<le> MAX_FD_PER_MSG"
  shows "\<exists>tr'. append_switch c tr (a # as) = Some (E_LI_SUCCESS, as, tr') \<and> sent_param c a tr tr'"
proof -
  obtain s' where s': "out_bytes (wire_param c a) (t_out_s tr) = Some s'"
    using room by (simp add: out_bytes_Some)
  show ?thesis
  proof (cases a)
    case (Arg_int v)
    with ok consider "c = T_y" | "c = T_b" | "c = T_n" | "c = T_q" | "c = T_h" by auto
    then show ?thesis
      using wf Arg_int ok room s' by cases (simp_all add: append_simps priv_wf_def)
  next
    case (Arg_32 v)
    with ok consider "c = T_i" | "c = T_u" by auto
    then show ?thesis using wf Arg_32 room s' by cases (simp_all add: append_simps)
  next
    case (Arg_64 v)
    with ok consider "c = T_x" | "c = T_t" by auto
    then show ?thesis using wf Arg_64 room s' by cases (simp_all add: append_simps)
  next
    case (Arg_str str)
    with ok obtain bs where "str = Some bs" "c = T_s" "length bs \<le> 8179" by auto
    with wf room s' Arg_str show ?thesis by (simp add: append_simps)
  next
    case (Arg_fsb fsb)
    with ok obtain bs where "fsb = Some bs" "c = T_B" "length bs \<le> 8178" by auto
    with wf room s' Arg_fsb show ?thesis by (simp add: append_simps)
  qed
qed

subsection \<open>Sending a list of parameters\<close>

lemma add_fds_append: "add_fds (xs @ ys) priv = add_fds ys (add_fds xs priv)"
  by (induction xs arbitrary: priv) simp_all

lemma add_fds_param_count [simp]:
  "add_fds new (priv\<lparr>out_param_count := k\<rparr>) = (add_fds new priv)\<lparr>out_param_count := k\<rparr>"
proof (induction new arbitrary: priv)
  case (Cons fd new)
  let ?p = "priv\<lparr>out_fds := (out_fds priv)[out_fd_count priv := fd], out_fd_count := Suc (out_fd_count priv)\<rparr>"
  let ?q = "priv\<lparr>out_param_count := k\<rparr>"
  have "?q\<lparr>out_fds := (out_fds ?q)[out_fd_count ?q := fd], out_fd_count := Suc (out_fd_count ?q)\<rparr> =
        ?p\<lparr>out_param_count := k\<rparr>"
    by simp
  then show ?case
    unfolding add_fds.simps by (simp only: Cons.IH [of ?p])
qed simp

lemma add_fds_fields [simp]:
  "facility (add_fds new priv) = facility priv" "flags (add_fds new priv) = flags priv"
  "out_msgno (add_fds new priv) = out_msgno priv"
  "in_fds (add_fds new priv) = in_fds priv" "in_fd_index (add_fds new priv) = in_fd_index priv"
  "in_fd_count (add_fds new priv) = in_fd_count priv" "in_msgno (add_fds new priv) = in_msgno priv"
  "length (out_fds (add_fds new priv)) = length (out_fds priv)"
  "out_fd_count (add_fds new priv) = out_fd_count priv + length new"
  by (induction new arbitrary: priv) simp_all

lemma add_fds_take:
  "out_fd_count priv + length new \<le> length (out_fds priv) \<Longrightarrow>
     take (out_fd_count priv + length new) (out_fds (add_fds new priv)) =
     take (out_fd_count priv) (out_fds priv) @ new"
proof (induction new arbitrary: priv)
  case (Cons fd new)
  let ?p = "priv\<lparr>out_fds := (out_fds priv)[out_fd_count priv := fd], out_fd_count := Suc (out_fd_count priv)\<rparr>"
  have "add_fds (fd # new) priv = add_fds new ?p"
    by simp
  with Cons.IH [of ?p] Cons.prems show ?case
    by (simp add: take_Suc_update)
qed simp

lemma add_fds_wf [wf_intros]:
  "priv_wf priv \<Longrightarrow> out_fd_count priv + length new \<le> MAX_FD_PER_MSG \<Longrightarrow> priv_wf (add_fds new priv)"
  by (simp add: priv_wf_def)

definition sent_params :: "(byte \<times> c_arg) list \<Rightarrow> ipm_trans \<Rightarrow> ipm_trans \<Rightarrow> bool" where
  "sent_params ps tr tr' \<longleftrightarrow>
     (\<exists>s priv k. t_extra_data tr = Some priv \<and>
        out_bytes (wire_params ps) (t_out_s tr) = Some s \<and>
        tr' = tr\<lparr>t_out_s := s,
                 t_extra_data := Some ((add_fds (params_fds ps) priv)\<lparr>out_param_count := k\<rparr>)\<rparr>)"

lemma arg_ok_valid: "arg_ok c a \<Longrightarrow> g_strchr_found libipm_valid_type_chars c"
  by (cases a) (auto simp: g_strchr_found_def libipm_valid_type_chars_def)

lemma appendv_ok:
  assumes "out_wf (t_out_s tr)" "t_extra_data tr = Some priv" "priv_wf priv"
    and "\<forall>(c, a) \<in> set ps. arg_ok c a"
    and "s_p (t_out_s tr) + length (wire_params ps) \<le> s_size (t_out_s tr)"
    and "out_fd_count priv + length (params_fds ps) \<le> MAX_FD_PER_MSG"
  shows "\<exists>tr'. libipm_msg_out_appendv tr (map fst ps) (map snd ps @ as) = Some (E_LI_SUCCESS, as, tr') \<and>
           sent_params ps tr tr'"
  using assms
proof (induction ps arbitrary: tr priv)
  case Nil
  then have "sent_params [] tr tr"
    by (auto simp: sent_params_def out_bytes_def out_wf_def intro: exI [of _ "out_param_count priv"])
  then show ?case by simp
next
  case (Cons p ps)
  obtain c a where p: "p = (c, a)" by (cases p)
  let ?k = "c_ushort (out_param_count priv + 1)"
  let ?tr = "tr\<lparr>t_extra_data := Some (priv\<lparr>out_param_count := ?k\<rparr>)\<rparr>"
  have ok: "arg_ok c a" using Cons.prems p by simp
  have "\<exists>tr1. append_switch c ?tr (a # map snd ps @ as) = Some (E_LI_SUCCESS, map snd ps @ as, tr1) \<and>
          sent_param c a ?tr tr1"
    using Cons.prems p ok by (intro append_switch_ok [of _ "priv\<lparr>out_param_count := ?k\<rparr>"])
      (auto simp: priv_wf_def)
  then obtain tr1 s1 where tr1: "append_switch c ?tr (a # map snd ps @ as) = Some (E_LI_SUCCESS, map snd ps @ as, tr1)"
    and s1: "out_bytes (wire_param c a) (t_out_s tr) = Some s1"
    and eq1: "tr1 = tr\<lparr>t_out_s := s1,
                       t_extra_data := Some ((add_fds (param_fds c a) priv)\<lparr>out_param_count := ?k\<rparr>)\<rparr>"
    by (auto simp: sent_param_def)
  let ?p1 = "(add_fds (param_fds c a) priv)\<lparr>out_param_count := ?k\<rparr>"
  note s1D = out_bytes_SomeD [OF s1 Cons.prems(1)]
  have "priv_wf ?p1"
    using add_fds_wf [of priv "param_fds c a"] Cons.prems p by (simp add: priv_wf_def)
  then have "\<exists>tr'. libipm_msg_out_appendv tr1 (map fst ps) (map snd ps @ as) = Some (E_LI_SUCCESS, as, tr') \<and>
           sent_params ps tr1 tr'"
    using Cons.prems p s1D eq1 by (intro Cons.IH [of _ ?p1]) auto
  then obtain tr' where tr': "libipm_msg_out_appendv tr1 (map fst ps) (map snd ps @ as) = Some (E_LI_SUCCESS, as, tr')"
    and sent: "sent_params ps tr1 tr'" by blast
  have "sent_params (p # ps) tr tr'"
    using sent s1 eq1 Cons.prems(2) p
    by (auto simp: sent_params_def out_bytes_append add_fds_append)
  moreover have "libipm_msg_out_appendv tr (map fst (p # ps)) (map snd (p # ps) @ as) =
      Some (E_LI_SUCCESS, as, tr')"
    using Cons.prems(2) p arg_ok_valid [OF ok] tr1 tr' by (simp add: Let_def)
  ultimately show ?case by blast
qed

subsection \<open>Parsing one parameter\<close>

definition payload :: "byte \<Rightarrow> c_arg \<Rightarrow> byte list" where
  "payload c a = tl (wire_param c a)"

lemma wire_param_payload: "arg_ok c a \<Longrightarrow> wire_param c a = c # payload c a"
  by (cases a) (auto simp: payload_def)

lemma find_byte_first: "c \<notin> set bs \<Longrightarrow> find_byte c (bs @ c # cs) = Some (length bs)"
  by (induction bs) auto

lemma find_byte_less: "find_byte c bs = Some k \<Longrightarrow> k < length bs"
  by (induction bs arbitrary: k) (auto split: if_splits)

lemma g_strnchr_unread:
  assumes "in_wf s"
  shows "g_strnchr s c (c_int (int (s_end s) - int (s_p s))) = Some (find_byte c (unread s))"
proof -
  have b: "s_p s \<le> s_end s" "s_end s \<le> s_size s" "s_size s < 2 ^ 31"
    using assms by (auto simp: in_wf_def)
  then have "c_int (int (s_end s) - int (s_p s)) = int (length (unread s))"
    using length_unread [OF assms] by simp
  moreover have "take (length (unread s)) (drop (s_p s) (s_data s)) = unread s"
    using unread_in_data [OF assms, of "length (unread s)"] by simp
  moreover have "s_p s + length (unread s) \<le> s_size s"
    using b length_unread [OF assms] by simp
  ultimately show ?thesis by (cases "unread s = []") (auto simp: g_strnchr_def)
qed

lemmas extract_defs =
  extract_int8_type_def extract_bool_type_def extract_int16_type_def extract_int32_type_def
  extract_int64_type_def extract_char_ptr_type_def extract_fd_type_def extract_fsb_type_def

lemmas extract_simps = extract_switch_def extract_defs Let_def stream_simps in_defs

text \<open>The state after a parameter: the position and the descriptor index move.\<close>

definition took :: "nat \<Rightarrow> nat \<Rightarrow> ipm_trans \<Rightarrow> ipm_trans" where
  "took n k tr = tr\<lparr>t_in_s := advance n (t_in_s tr),
      t_extra_data := map_option (\<lambda>p. p\<lparr>in_fd_index := in_fd_index p + k\<rparr>) (t_extra_data tr)\<rparr>"

lemma in_fd_index_id [simp]: "(p :: libipm_priv)\<lparr>in_fd_index := in_fd_index p\<rparr> = p"
  by (cases p) simp

lemma in_s_extra_id:
  "t_extra_data tr = Some p \<Longrightarrow> tr\<lparr>t_in_s := s, t_extra_data := Some p\<rparr> = tr\<lparr>t_in_s := s\<rparr>"
  by (cases tr) simp

lemma in_s_id [simp]: "tr\<lparr>t_in_s := t_in_s tr\<rparr> = tr"
  by (cases tr) simp

lemma extract_switch_ok:
  assumes wf: "in_wf (t_in_s tr)" "t_extra_data tr = Some priv" "priv_wf priv"
    and ok: "arg_ok c a"
    and here: "unread (t_in_s tr) = payload c a @ rest"
    and fds: "pending_fds priv = param_fds c a @ fds2"
  shows "extract_switch c tr (param_dest c a # ds) =
           Some (E_LI_SUCCESS, [param_value c a], ds, took (length (payload c a)) (length (param_fds c a)) tr)"
proof (cases a)
  case (Arg_int v)
  with ok consider (y) "c = T_y" | (b) "c = T_b" | (n) "c = T_n" | (q) "c = T_q" | (h) "c = T_h" by auto
  then show ?thesis
  proof cases
    case h
    have "pending_fds priv = v # fds2"
      using fds h Arg_int by (simp add: param_fds_def)
    note fd = pending_fds_Cons [OF wf(3) this]
    with h Arg_int wf here show ?thesis
      using fd
      by (simp add: extract_simps took_def in_s_extra_id payload_def param_fds_def)
  qed (use Arg_int ok wf here in
      \<open>auto simp: extract_simps took_def in_s_extra_id payload_def param_fds_def c_ushort_def
        in_bytes_prefix [where rest = rest]\<close>)
next
  case (Arg_32 v)
  with ok wf here show ?thesis
    by (auto simp: extract_simps took_def in_s_extra_id payload_def param_fds_def c_uint_def
        in_bytes_prefix [where rest = rest])
next
  case (Arg_64 v)
  with ok wf here show ?thesis
    by (auto simp: extract_simps took_def in_s_extra_id payload_def param_fds_def
        in_bytes_prefix [where rest = rest])
next
  case (Arg_str str)
  with ok obtain bs where bs: "str = Some bs" "c = T_s" "0 \<notin> set bs" by auto
  then have un: "unread (t_in_s tr) = bs @ 0 # rest"
    using here Arg_str by (simp add: payload_def)
  have "take (length bs) (drop (s_p (t_in_s tr)) (s_data (t_in_s tr))) = bs"
    using unread_in_data [OF wf(1), of "length bs"] un by simp
  with un bs Arg_str wf show ?thesis
    by (simp add: extract_switch_def extract_char_ptr_type_def Let_def g_strnchr_unread
        find_byte_first took_def in_s_extra_id payload_def param_fds_def advance_def)
next
  case (Arg_fsb fsb)
  with ok obtain bs where bs: "fsb = Some bs" "c = T_B" "length bs \<le> 8178" by auto
  have un: "unread (t_in_s tr) = le_bytes 2 (int (length bs)) @ bs @ rest"
    using here Arg_fsb bs by (simp add: payload_def)
  let ?s = "advance 2 (t_in_s tr)"
  have s: "in_wf ?s" "unread ?s = bs @ rest"
    using wf(1) un advance_wf [of "t_in_s tr" 2] by (simp_all add: unread_advance)
  have "in_bytes (length bs) ?s = Some (bs, advance (length bs) ?s)"
    using s by (rule in_bytes_prefix) simp
  moreover have "in_bytes 2 (t_in_s tr) = Some (le_bytes 2 (int (length bs)), ?s)"
    using wf(1) un by (rule in_bytes_prefix) simp
  ultimately show ?thesis
    using bs Arg_fsb wf un s by (simp add: extract_simps took_def in_s_extra_id payload_def param_fds_def)
qed

end
