(* ===== verification/Libipm_Props.thy ===== *)
theory Libipm_Props
  imports Libipm_Wire
begin

text \<open>
  What libipm promises its callers: a message built by one side and received by the other
  yields the same parameters and descriptors; no input, however malformed, makes the parser
  read outside its buffer; a parameter that does not fit leaves the output untouched; every
  received descriptor is handed over or closed exactly once.
\<close>

subsection \<open>Parsing a list of parameters\<close>

lemma took_simps:
  assumes "t_extra_data tr = Some priv"
  shows "t_in_s (took n k tr) = advance n (t_in_s tr)"
    "t_extra_data (took n k tr) = Some (priv\<lparr>in_fd_index := in_fd_index priv + k\<rparr>)"
  using assms by (simp_all add: took_def)

lemma param_fds_pending:
  assumes "priv_wf priv" and "pending_fds priv = param_fds c a @ fds2"
  shows "priv_wf (priv\<lparr>in_fd_index := in_fd_index priv + length (param_fds c a)\<rparr>)"
    "pending_fds (priv\<lparr>in_fd_index := in_fd_index priv + length (param_fds c a)\<rparr>) = fds2"
  using assms pending_fds_Cons [of priv _ fds2]
  by (auto simp: param_fds_def split: c_arg.splits if_splits)

lemma parsev_ok:
  assumes "in_wf (t_in_s tr)" "t_extra_data tr = Some priv" "priv_wf priv"
    and "\<forall>(c, a) \<in> set ps. arg_ok c a"
    and "unread (t_in_s tr) = wire_params ps @ rest"
    and "pending_fds priv = params_fds ps @ fds2"
  shows "\<exists>tr' priv'. libipm_msg_in_parsev tr (map fst ps) (params_dests ps @ ds) =
             Some (E_LI_SUCCESS, params_values ps, ds, tr') \<and>
           in_wf (t_in_s tr') \<and> unread (t_in_s tr') = rest \<and>
           t_extra_data tr' = Some priv' \<and> priv_wf priv' \<and> pending_fds priv' = fds2 \<and>
           in_msgno priv' = in_msgno priv"
  using assms
proof (induction ps arbitrary: tr priv)
  case (Cons p ps)
  obtain c a where p: "p = (c, a)" by (cases p)
  let ?k = "c_ushort (in_param_count priv + 1)"
  let ?priv = "priv\<lparr>in_param_count := ?k\<rparr>"
  let ?s = "advance 1 (t_in_s tr)"
  let ?tr = "tr\<lparr>t_extra_data := Some ?priv, t_in_s := ?s\<rparr>"
  have ok: "arg_ok c a" using Cons.prems(4) p by simp
  have un: "unread (t_in_s tr) = c # payload c a @ wire_params ps @ rest"
    using Cons.prems(5) p wire_param_payload [OF ok] by simp
  have inb: "in_bytes 1 (t_in_s tr) = Some ([c], ?s)"
    using Cons.prems(1) un by (intro in_bytes_prefix) auto
  have s: "in_wf ?s" "unread ?s = payload c a @ wire_params ps @ rest"
    using Cons.prems(1) un by (auto simp: unread_advance intro: advance_wf)
  have priv: "priv_wf ?priv" "pending_fds ?priv = param_fds c a @ params_fds ps @ fds2"
    using Cons.prems(3,6) p by (simp_all add: priv_wf_def pending_fds_def)
  let ?tr2 = "took (length (payload c a)) (length (param_fds c a)) ?tr"
  have sw: "extract_switch c ?tr (param_dest c a # params_dests ps @ ds) =
      Some (E_LI_SUCCESS, [param_value c a], params_dests ps @ ds, ?tr2)"
    using s priv ok by (intro extract_switch_ok) auto
  let ?priv2 = "?priv\<lparr>in_fd_index := in_fd_index ?priv + length (param_fds c a)\<rparr>"
  have "\<exists>tr' priv'. libipm_msg_in_parsev ?tr2 (map fst ps) (params_dests ps @ ds) =
             Some (E_LI_SUCCESS, params_values ps, ds, tr') \<and>
           in_wf (t_in_s tr') \<and> unread (t_in_s tr') = rest \<and>
           t_extra_data tr' = Some priv' \<and> priv_wf priv' \<and> pending_fds priv' = fds2 \<and>
           in_msgno priv' = in_msgno ?priv2"
    using s advance_wf [OF s(1), of "length (payload c a)"] unread_advance [OF s(1), of "length (payload c a)"]
      param_fds_pending [OF priv] Cons.prems(4) took_simps [of ?tr ?priv]
    by (intro Cons.IH [of _ ?priv2]) auto
  then obtain tr' priv' where rec: "libipm_msg_in_parsev ?tr2 (map fst ps) (params_dests ps @ ds) =
             Some (E_LI_SUCCESS, params_values ps, ds, tr')"
    and res: "in_wf (t_in_s tr')" "unread (t_in_s tr') = rest"
      "t_extra_data tr' = Some priv'" "priv_wf priv'" "pending_fds priv' = fds2"
      "in_msgno priv' = in_msgno priv"
    by auto
  have "libipm_msg_in_parsev tr (map fst (p # ps)) (params_dests (p # ps) @ ds) =
      Some (E_LI_SUCCESS, params_values (p # ps), ds, tr')"
    using Cons.prems(1,2) p un inb sw rec arg_ok_valid [OF ok]
    by (simp add: in_uint8_def stream_simps)
  with res show ?case by blast
qed simp

subsection \<open>Headers\<close>

definition wire_header :: "int \<Rightarrow> int \<Rightarrow> int \<Rightarrow> byte list" where
  "wire_header sz fac msgno =
     le_bytes 2 LIBIPM_VERSION @ le_bytes 2 sz @ le_bytes 2 fac @ le_bytes 2 msgno @ le_bytes 4 0"

lemma length_wire_header [simp]: "length (wire_header sz fac msgno) = 12"
  by (simp add: wire_header_def)

lemma mark_end_ok:
  assumes "t_extra_data tr = Some priv" and "out_wf (t_out_s tr)"
    and "s_iso_hdr (t_out_s tr) = 0" and "HEADER_SIZE \<le> s_p (t_out_s tr)"
  shows "\<exists>s. libipm_msg_out_mark_end tr = Some (tr\<lparr>t_out_s := s\<rparr>) \<and> s_p s = s_end s \<and> out_wf s \<and>
           s_size s = s_size (t_out_s tr) \<and>
           contents s = wire_header (int (s_p (t_out_s tr))) (facility priv) (out_msgno priv) @
                        drop HEADER_SIZE (written (t_out_s tr))"
proof -
  let ?s = "t_out_s tr"
  let ?h = "wire_header (int (s_p ?s)) (facility priv) (out_msgno priv)"
  let ?u = "s_pop_layer_iso (s_mark_end ?s)"
  have s0: "s_p ?u = 0" "s_end ?u = s_p ?s" "s_data ?u = s_data ?s"
    using assms(3) by simp_all
  have le: "12 \<le> s_size ?u" "s_p ?s \<le> s_size ?s" "s_size ?s < 2 ^ 31"
    using assms(2,4) s0 by (auto simp: out_wf_def)
  then obtain s where s: "out_bytes ?h ?u = Some s"
    using s0 by (auto simp: out_bytes_def)
  then have sD: "s_data s = ?h @ drop 12 (s_data ?s)" "s_end s = s_p ?s"
    using s0 by (auto simp: out_bytes_def split: if_splits)
  have "libipm_msg_out_mark_end tr = Some (tr\<lparr>t_out_s := s\<lparr>s_p := s_end s\<rparr>\<rparr>)"
  proof -
    have step: "Option.bind (out_uint16_le 2 ?u) (\<lambda>s. Option.bind (out_uint16_le (int (s_end s)) s) f) =
        Option.bind (out_uint16_le 2 ?u) (\<lambda>s. Option.bind (out_uint16_le (int (s_p ?s)) s) f)" for f
      by (cases "out_uint16_le 2 ?u") (auto simp: s0 out_defs out_bytes_def split: if_splits)
    show ?thesis
      using assms(1) s
      by (simp add: libipm_msg_out_mark_end_def Let_def step)
        (simp add: out_defs out_merge wire_header_def)
  qed
  moreover have "contents (s\<lparr>s_p := s_end s\<rparr>) = ?h @ drop 12 (written ?s)"
    using sD assms(4) le by (simp add: contents_def written_def drop_take)
  moreover have "out_wf (s\<lparr>s_p := s_end s\<rparr>)" "s_size (s\<lparr>s_p := s_end s\<rparr>) = s_size ?s"
    using sD le s0 by (simp_all add: out_wf_def)
  ultimately show ?thesis by (intro exI [of _ "s\<lparr>s_p := s_end s\<rparr>"]) simp
qed

lemma validate_header_ok:
  assumes "t_extra_data tr = Some priv" and "in_wf (t_in_s tr)"
    and "unread (t_in_s tr) = wire_header sz fac msgno @ rest"
    and "0 \<le> sz" "sz < 2 ^ 16" "0 \<le> fac" "fac < 2 ^ 16" "0 \<le> msgno" "msgno < 2 ^ 16"
  shows "validate_msg_header tr =
     Some (if sz < int HEADER_SIZE \<or> sz > int LIBIPM_MAX_MSG_SIZE \<or> fac \<noteq> facility priv
           then E_LI_BAD_HEADER else E_LI_SUCCESS, sz,
           tr\<lparr>t_in_s := advance 12 (t_in_s tr), t_extra_data := Some (priv\<lparr>in_msgno := msgno\<rparr>)\<rparr>)"
proof -
  let ?s = "t_in_s tr"
  have wf: "in_wf (advance n ?s)" "unread (advance n ?s) = drop n (unread ?s)" if "n \<le> 12" for n
    using assms(2,3) that by (auto simp: unread_advance intro: advance_wf)
  have step: "in_bytes m (advance n ?s) = Some (take m (drop n (unread ?s)), advance (n + m) ?s)"
    if "n + m \<le> 12" for n m
    using wf [of n] that assms(3) by (subst in_bytes_unread_eq) auto
  have "in_bytes 2 ?s = Some (take 2 (unread ?s), advance 2 ?s)"
    using step [of 0 2] by (simp del: add_2_eq_Suc add_2_eq_Suc')
  then show ?thesis
    using assms step [of 2 2] step [of 4 2] step [of 6 2] step [of 8 4]
    by (simp add: validate_msg_header_def in_defs wire_header_def Let_def)
qed

subsection \<open>Round trip\<close>

text \<open>A transport that can send, and one waiting for a new message.\<close>

definition sender_ready :: "int \<Rightarrow> ipm_trans \<Rightarrow> bool" where
  "sender_ready fac tr \<longleftrightarrow>
     (\<exists>priv. t_extra_data tr = Some priv \<and> priv_wf priv \<and> facility priv = fac) \<and>
     s_size (t_out_s tr) \<le> LIBIPM_MAX_MSG_SIZE"

definition receiver_ready :: "int \<Rightarrow> ipm_trans \<Rightarrow> bool" where
  "receiver_ready fac tr \<longleftrightarrow>
     (\<exists>priv. t_extra_data tr = Some priv \<and> priv_wf priv \<and> facility priv = fac \<and> in_fd_count priv = 0) \<and>
     t_status tr = TRANS_STATUS_UP \<and> t_extra_flags tr = 0 \<and> t_header_size tr = int HEADER_SIZE \<and>
     s_p (t_in_s tr) = 0 \<and> s_end (t_in_s tr) = 0 \<and>
     LIBIPM_MAX_MSG_SIZE \<le> s_size (t_in_s tr) \<and> s_size (t_in_s tr) < 2 ^ 31"

text \<open>
  The receiving side of one message: the header and the descriptors arrive, then the rest
  of the bytes, and the application parses. Anything but success is \<^term>\<open>None\<close>; the result
  is the message number, the values, the bytes left unread and the descriptors not claimed.
\<close>

definition deliver ::
  "send_call \<Rightarrow> ipm_trans \<Rightarrow> byte list \<Rightarrow> dest list \<Rightarrow>
   (int \<times> ipm_value list \<times> byte list \<times> int list) option" where
  "deliver call rx fmt ds =
     (case call of
        Sck_send sck data \<Rightarrow> None
      | Sck_send_fd_set sck data fds \<Rightarrow>
          do { (n, closed, rx) \<leftarrow> libipm_trans_recv_proc rx True (int HEADER_SIZE) fds;
               rx \<leftarrow> in_s_append (take HEADER_SIZE data) rx;
               (rv, available, rx) \<leftarrow> libipm_msg_in_check_available rx;
               rx \<leftarrow> (if rv = E_LI_SUCCESS \<and> t_header_size rx = int (length data)
                     then in_s_append (drop HEADER_SIZE data) rx else None);
               (rv, available, rx) \<leftarrow> libipm_msg_in_check_available rx;
               if rv \<noteq> E_LI_SUCCESS \<or> \<not> available then None
               else do { (rv, vs, ds, rx) \<leftarrow> libipm_msg_in_parse rx (Some fmt) ds;
                         priv \<leftarrow> t_extra_data rx;
                         if rv \<noteq> E_LI_SUCCESS then None
                         else Some (libipm_msg_in_get_msgno rx, vs, unread (t_in_s rx),
                                    pending_fds priv) } })"

lemma msg_out_init_ok:
  assumes tx: "sender_ready fac tx" and ok: "\<forall>(c, a) \<in> set ps. arg_ok c a"
    and room: "length (wire_params ps) \<le> LIBIPM_MAX_MSG_SIZE - HEADER_SIZE"
      "length (params_fds ps) \<le> MAX_FD_PER_MSG"
  shows "\<exists>tr priv. libipm_msg_out_init junk tx msgno (Some (map fst ps)) (map snd ps) =
             Some (E_LI_SUCCESS, [], tr) \<and>
           t_extra_data tr = Some priv \<and> priv_wf priv \<and> facility priv = fac \<and> out_msgno priv = msgno \<and>
           take (out_fd_count priv) (out_fds priv) = params_fds ps \<and>
           out_wf (t_out_s tr) \<and> s_iso_hdr (t_out_s tr) = 0 \<and>
           s_p (t_out_s tr) = HEADER_SIZE + length (wire_params ps) \<and>
           drop HEADER_SIZE (written (t_out_s tr)) = wire_params ps"
proof -
  obtain priv where priv: "t_extra_data tx = Some priv" "priv_wf priv" "facility priv = fac"
    using tx by (auto simp: sender_ready_def)
  let ?s = "s_push_layer_iso HEADER_SIZE (init_stream junk LIBIPM_MAX_MSG_SIZE (t_out_s tx))"
  let ?priv = "priv\<lparr>out_msgno := msgno, out_param_count := 0, out_fd_count := 0\<rparr>"
  let ?tr = "tx\<lparr>t_out_s := ?s, t_extra_data := Some ?priv\<rparr>"
  have s: "s_size ?s = 8192" "s_p ?s = 12" "s_iso_hdr ?s = 0" "out_wf ?s"
    using tx by (simp_all add: sender_ready_def out_wf_def)
  have wf: "priv_wf ?priv" using priv(2) by (simp add: priv_wf_def)
  have "\<exists>tr'. libipm_msg_out_appendv ?tr (map fst ps) (map snd ps @ []) = Some (E_LI_SUCCESS, [], tr') \<and>
          sent_params ps ?tr tr'"
    using s wf ok room by (intro appendv_ok [of _ ?priv]) auto
  then obtain s' k where run: "libipm_msg_out_appendv ?tr (map fst ps) (map snd ps) =
        Some (E_LI_SUCCESS, [], ?tr\<lparr>t_out_s := s',
          t_extra_data := Some ((add_fds (params_fds ps) ?priv)\<lparr>out_param_count := k\<rparr>)\<rparr>)"
    and s': "out_bytes (wire_params ps) ?s = Some s'"
    by (auto simp: sent_params_def)
  note s'D = out_bytes_SomeD [OF s' s(4)]
  let ?p = "(add_fds (params_fds ps) ?priv)\<lparr>out_param_count := k\<rparr>"
  have init: "libipm_msg_out_init junk tx msgno (Some (map fst ps)) (map snd ps) =
        Some (E_LI_SUCCESS, [], ?tr\<lparr>t_out_s := s', t_extra_data := Some ?p\<rparr>)"
    using run priv by (simp add: libipm_msg_out_init_def init_output_buffer_def appendv_opt_def)
  have p: "priv_wf ?p" "facility ?p = fac" "out_msgno ?p = msgno"
    "take (out_fd_count ?p) (out_fds ?p) = params_fds ps"
    using add_fds_wf [OF wf, of "params_fds ps"] priv room add_fds_take [of ?priv "params_fds ps"] wf
    by (simp_all add: priv_wf_def)
  have "drop 12 (written s') = wire_params ps"
    using s'D s by simp
  with init p s'D s show ?thesis
    by (intro exI [of _ "?tr\<lparr>t_out_s := s', t_extra_data := Some ?p\<rparr>"] exI [of _ ?p]) simp
qed

lemma recv_proc_first:
  assumes "t_extra_data rx = Some priv" "priv_wf priv" "in_fd_count priv = 0" "n > 0"
    and "length fds \<le> MAX_FD_PER_MSG"
  shows "\<exists>priv'. libipm_trans_recv_proc rx True n fds =
             Some (n, [], rx\<lparr>t_extra_data := Some priv'\<rparr>) \<and>
           priv_wf priv' \<and> facility priv' = facility priv \<and> pending_fds priv' = fds"
proof -
  obtain fds' where st: "store_fds (in_fds priv) 0 8 fds = Some (fds', length fds, [])"
    and fds': "length fds' = 8" "take (length fds) fds' = fds"
    using store_fds_eq [of 8 "in_fds priv" 0 fds] assms(2,5) by (auto simp: priv_wf_def)
  let ?p = "priv\<lparr>in_fds := fds', in_fd_count := length fds\<rparr>"
  have idx: "in_fd_index priv = 0"
    using assms(2,3) by (simp add: priv_wf_def)
  have "libipm_trans_recv_proc rx True n fds = Some (n, [], rx\<lparr>t_extra_data := Some ?p\<rparr>)"
    using assms st by (simp add: libipm_trans_recv_proc_def g_sck_recv_fd_set_def Let_def)
  moreover have "priv_wf ?p" "pending_fds ?p = fds"
    using assms(2,5) fds' idx by (simp_all add: priv_wf_def pending_fds_def)
  ultimately show ?thesis by (intro exI [of _ ?p]) simp
qed

lemma check_available_header:
  assumes "t_extra_data tr = Some priv" "t_status tr = TRANS_STATUS_UP" "t_extra_flags tr = 0"
    and "t_header_size tr = int HEADER_SIZE" "s_end (t_in_s tr) = HEADER_SIZE"
    and "in_wf (t_in_s tr)" "unread (t_in_s tr) = wire_header sz (facility priv) msgno"
    and "int HEADER_SIZE \<le> sz" "sz \<le> int LIBIPM_MAX_MSG_SIZE"
    and "0 \<le> facility priv" "facility priv < 2 ^ 16" "0 \<le> msgno" "msgno < 2 ^ 16"
  shows "libipm_msg_in_check_available tr =
     Some (E_LI_SUCCESS, sz = int HEADER_SIZE,
           tr\<lparr>t_in_s := advance 12 (t_in_s tr), t_extra_data := Some (priv\<lparr>in_msgno := msgno\<rparr>),
              t_extra_flags := 1, t_header_size := sz\<rparr>)"
proof -
  have "validate_msg_header tr = Some (E_LI_SUCCESS, sz,
          tr\<lparr>t_in_s := advance 12 (t_in_s tr), t_extra_data := Some (priv\<lparr>in_msgno := msgno\<rparr>)\<rparr>)"
    using validate_header_ok [OF assms(1,6), of sz "facility priv" msgno "[]"] assms(7-13)
    by (simp only: append_Nil2) simp
  then show ?thesis
    by (simp add: libipm_msg_in_check_available_def assms(1-5))
qed

lemma deliver_ok:
  assumes rx: "receiver_ready fac rx"
    and data: "data = wire_header (int (HEADER_SIZE + length (wire_params ps))) fac msgno @ wire_params ps"
    and num: "0 \<le> fac" "fac < 2 ^ 16" "0 \<le> msgno" "msgno < 2 ^ 16"
    and ok: "\<forall>(c, a) \<in> set ps. arg_ok c a"
    and room: "length (wire_params ps) \<le> LIBIPM_MAX_MSG_SIZE - HEADER_SIZE"
      "length (params_fds ps) \<le> MAX_FD_PER_MSG"
  shows "deliver (Sck_send_fd_set sck data (params_fds ps)) rx (map fst ps) (params_dests ps) =
           Some (msgno, params_values ps, [], [])"
proof -
  let ?sz = "int (length data)"
  let ?h = "wire_header ?sz fac msgno"
  have data': "take 12 data = ?h" "drop 12 data = wire_params ps"
    using data by simp_all
  obtain p0 where p0: "t_extra_data rx = Some p0" "priv_wf p0" "facility p0 = fac" "in_fd_count p0 = 0"
    and up: "t_status rx = 1" "t_extra_flags rx = 0" "t_header_size rx = 12"
      "s_p (t_in_s rx) = 0" "s_end (t_in_s rx) = 0" "8192 \<le> s_size (t_in_s rx)" "s_size (t_in_s rx) < 2 ^ 31"
    using rx by (auto simp: receiver_ready_def)
  obtain p1 where r1: "libipm_trans_recv_proc rx True 12 (params_fds ps) =
        Some (12, [], rx\<lparr>t_extra_data := Some p1\<rparr>)"
    and p1: "priv_wf p1" "facility p1 = fac" "pending_fds p1 = params_fds ps"
    using recv_proc_first [OF p0(1,2,4), of 12 "params_fds ps"] room(2) p0(3) by auto
  let ?rx = "rx\<lparr>t_extra_data := Some p1\<rparr>"
  have wf0: "in_wf (t_in_s ?rx)" "unread (t_in_s ?rx) = []"
    using up by (simp_all add: in_wf_def unread_def)
  obtain s1 where a1: "in_s_append ?h ?rx = Some (?rx\<lparr>t_in_s := s1\<rparr>)"
    and s1: "in_wf s1" "unread s1 = ?h" "s_end s1 = 12" "s_p s1 = 0" "s_size s1 = s_size (t_in_s rx)"
    using in_s_append_wf [OF wf0(1), of ?h] wf0(2) up by auto
  let ?p2 = "p1\<lparr>in_msgno := msgno\<rparr>"
  let ?rx2 = "?rx\<lparr>t_in_s := advance 12 s1, t_extra_data := Some ?p2, t_extra_flags := 1, t_header_size := ?sz\<rparr>"
  have c1: "libipm_msg_in_check_available (?rx\<lparr>t_in_s := s1\<rparr>) = Some (E_LI_SUCCESS, ?sz = 12, ?rx2)"
    using s1 p1 up num data room(1)
    by (subst check_available_header [where priv = p1 and msgno = msgno and sz = ?sz]) auto
  have wf2: "in_wf (t_in_s ?rx2)" "unread (t_in_s ?rx2) = []"
    using s1 advance_wf [OF s1(1), of 12] unread_advance [OF s1(1), of 12] by simp_all
  obtain s3 where a3: "in_s_append (wire_params ps) ?rx2 = Some (?rx2\<lparr>t_in_s := s3\<rparr>)"
    and s3: "in_wf s3" "unread s3 = wire_params ps" "s_end s3 = 12 + length (wire_params ps)"
    using in_s_append_wf [OF wf2(1), of "wire_params ps"] wf2(2) s1 up room(1) by auto
  have c3: "libipm_msg_in_check_available (?rx2\<lparr>t_in_s := s3\<rparr>) = Some (E_LI_SUCCESS, True, ?rx2\<lparr>t_in_s := s3\<rparr>)"
    using s3 data room(1) up by (simp add: libipm_msg_in_check_available_def)
  have p2: "priv_wf ?p2" "pending_fds ?p2 = params_fds ps @ []"
    using p1 by (simp_all add: priv_wf_def pending_fds_def)
  obtain tr' priv' where "libipm_msg_in_parsev (?rx2\<lparr>t_in_s := s3\<rparr>) (map fst ps) (params_dests ps @ []) =
        Some (E_LI_SUCCESS, params_values ps, [], tr')"
    and "unread (t_in_s tr') = []" "t_extra_data tr' = Some priv'" "pending_fds priv' = []"
    and "in_msgno priv' = msgno"
    using parsev_ok [of "?rx2\<lparr>t_in_s := s3\<rparr>" ?p2 ps "[]" "[]" "[]"] s3 p2 ok by auto
  then show ?thesis
    using r1 a1 c1 a3 c3 data' by (simp add: deliver_def libipm_msg_in_parse_def libipm_msg_in_get_msgno_def)
qed

end
