(* ===== verification/Libipm_Safety.thy ===== *)
theory Libipm_Safety
  imports Libipm_Props
begin

text \<open>
  \<^verbatim>\<open>libipm_msg_in_parse\<close> on arbitrary bytes: it never reads outside the buffer, whatever the
  peer sent, and when it succeeds the bytes consumed are exactly the encoding of the values
  it returned.
\<close>

subsection \<open>Parsing arbitrary input\<close>

text \<open>The out-pointers the caller must supply for each type letter; reserved letters take none.\<close>

definition dest_kind :: "byte \<Rightarrow> dest \<Rightarrow> bool" where
  "dest_kind c d \<longleftrightarrow>
     (if c = T_y then d = D_u8 else if c = T_b \<or> c = T_h then d = D_int
      else if c = T_n \<or> c = T_q then d = D_u16 else if c = T_i \<or> c = T_u then d = D_u32
      else if c = T_x \<or> c = T_t then d = D_u64 else if c = T_s then d = D_str
      else if c = T_B then (\<exists>n. d = D_fsb n) else False)"

definition takes_arg :: "byte \<Rightarrow> bool" where
  "takes_arg c \<longleftrightarrow> c \<in> {T_y, T_b, T_n, T_q, T_i, T_u, T_x, T_t, T_s, T_h, T_B}"

fun dests_ok :: "byte list \<Rightarrow> dest list \<Rightarrow> bool" where
  "dests_ok [] ds = True"
| "dests_ok (c # cs) ds =
     (takes_arg c \<longrightarrow> (case ds of [] \<Rightarrow> False | d # ds' \<Rightarrow> dest_kind c d \<and> dests_ok cs ds'))"

lemma le_bytes_take:
  "length bs = n \<Longrightarrow> le_bytes n (le_val bs) = bs"
  using le_bytes_le_val [of bs] by simp

lemma in_num_unread:
  assumes "in_wf s" and "n \<le> length (unread s)"
  obtains v where "in_bytes n s = Some (le_bytes n v, advance n s)" and "le_val (le_bytes n v) = v"
    and "take n (unread s) = le_bytes n v" and "0 \<le> v" and "v < 256 ^ n"
proof -
  let ?bs = "take n (unread s)"
  have "le_bytes n (le_val ?bs) = ?bs"
    using assms(2) by (intro le_bytes_take) simp
  moreover have "le_val ?bs < 256 ^ n"
    using le_val_less [of ?bs] assms(2) by (simp add: min_absorb2)
  ultimately show ?thesis
    using that [of "le_val ?bs"] in_bytes_unread_eq [OF assms] le_val_nonneg [of ?bs] by simp
qed

text \<open>
  What one extraction does, whatever the bytes: it moves inside the unread bytes, and when it
  succeeds the bytes it took are the encoding of the value it returns.
\<close>

definition extracted :: "byte \<Rightarrow> ipm_trans \<Rightarrow> libipm_status \<Rightarrow> ipm_value list \<Rightarrow> nat \<Rightarrow> nat \<Rightarrow> bool" where
  "extracted c tr rv vs n k \<longleftrightarrow>
     n \<le> length (unread (t_in_s tr)) \<and> k \<le> length (pending_fds (the (t_extra_data tr))) \<and>
     (rv = E_LI_SUCCESS \<longrightarrow>
        (\<exists>a. vs = [param_value c a] \<and> c # take n (unread (t_in_s tr)) = wire_param c a \<and>
             take k (pending_fds (the (t_extra_data tr))) = param_fds c a)) \<and>
     (rv \<noteq> E_LI_SUCCESS \<longrightarrow> vs = [] \<and> k = 0)"

lemma took_0 [simp]: "took 0 0 tr = tr"
  by (cases "t_extra_data tr"; cases tr) (simp_all add: took_def)

lemma took_0_fd:
  "t_extra_data tr = Some priv \<Longrightarrow> tr\<lparr>t_in_s := advance n (t_in_s tr)\<rparr> = took n 0 tr"
  by (cases tr) (simp add: took_def)

lemma find_byte_split:
  "find_byte c bs = Some k \<Longrightarrow> bs = take k bs @ c # drop (Suc k) bs"
  by (induction bs arbitrary: k) (auto split: if_splits)

lemma extract_num_total:
  assumes "in_wf (t_in_s tr)" "t_extra_data tr = Some priv"
    and "c \<in> {T_y, T_n, T_q, T_i, T_u, T_x, T_t}" and "dest_kind c d"
  shows "\<exists>rv vs ds' n. extract_switch c tr (d # ds) = Some (rv, vs, ds', took n 0 tr) \<and>
           extracted c tr rv vs n 0 \<and> (rv = E_LI_SUCCESS \<longrightarrow> ds' = ds)"
proof -
  have num: "\<exists>rv vs ds' n. (if \<not> s_check_rem (t_in_s tr) (int w) then Some (E_LI_BUFFER_OVERFLOW, [], d # ds, tr)
       else Option.bind (in_bytes w (t_in_s tr))
              (\<lambda>y. Some (E_LI_SUCCESS, [V (le_val (fst y))], ds, tr\<lparr>t_in_s := snd y\<rparr>))) =
        Some (rv, vs, ds', took n 0 tr) \<and>
      extracted c tr rv vs n 0 \<and> (rv = E_LI_SUCCESS \<longrightarrow> ds' = ds)"
    if w: "w \<le> 8" and V: "\<And>v. 0 \<le> v \<Longrightarrow> v < 256 ^ w \<Longrightarrow>
        \<exists>a. V v = param_value c a \<and> c # le_bytes w v = wire_param c a \<and> param_fds c a = []" for w V
  proof (cases "w \<le> length (unread (t_in_s tr))")
    case True
    then obtain v where v: "in_bytes w (t_in_s tr) = Some (le_bytes w v, advance w (t_in_s tr))"
      "le_val (le_bytes w v) = v" "take w (unread (t_in_s tr)) = le_bytes w v" "0 \<le> v" "v < 256 ^ w"
      using in_num_unread [OF assms(1)] by blast
    from V [OF v(4,5)] obtain a where "V v = param_value c a" "c # le_bytes w v = wire_param c a"
      "param_fds c a = []" by blast
    with True v w assms(1,2) show ?thesis
      by (intro exI [of _ E_LI_SUCCESS] exI [of _ "[V v]"] exI [of _ ds] exI [of _ w])
        (auto simp: stream_simps took_0_fd extracted_def)
  next
    case False
    with w assms(1,2) show ?thesis
      by (intro exI [of _ E_LI_BUFFER_OVERFLOW] exI [of _ "[]"] exI [of _ "d # ds"] exI [of _ 0])
        (simp add: stream_simps extracted_def)
  qed
  from assms(3) consider "c = T_y" | "c = T_n \<or> c = T_q" | "c = T_i \<or> c = T_u" | "c = T_x \<or> c = T_t"
    by auto
  then show ?thesis
  proof cases
    case 1
    have "\<exists>a. V_u8 v = param_value c a \<and> c # le_bytes 1 v = wire_param c a \<and> param_fds c a = []"
      if "0 \<le> v" "v < 256 ^ 1" for v
      using 1 by (intro exI [of _ "Arg_int v"]) (simp add: param_fds_def)
    from num [of 1 V_u8, OF _ this] 1 assms(4) show ?thesis
      by (auto simp: extract_switch_def extract_defs Let_def in_defs dest_kind_def split_beta simp del: One_nat_def)
  next
    case 2
    have "\<exists>a. V_u16 v = param_value c a \<and> c # le_bytes 2 v = wire_param c a \<and> param_fds c a = []"
      if "0 \<le> v" "v < 256 ^ 2" for v
      using 2 that by (intro exI [of _ "Arg_int v"]) (auto simp: param_fds_def)
    from num [of 2 V_u16, OF _ this] 2 assms(4) show ?thesis
      by (auto simp: extract_switch_def extract_defs Let_def in_defs dest_kind_def split_beta simp del: One_nat_def)
  next
    case 3
    have "\<exists>a. V_u32 v = param_value c a \<and> c # le_bytes 4 v = wire_param c a \<and> param_fds c a = []"
      if "0 \<le> v" "v < 256 ^ 4" for v
      using 3 that by (intro exI [of _ "Arg_32 v"]) (auto simp: param_fds_def)
    from num [of 4 V_u32, OF _ this] 3 assms(4) show ?thesis
      by (auto simp: extract_switch_def extract_defs Let_def in_defs dest_kind_def split_beta simp del: One_nat_def)
  next
    case 4
    have "\<exists>a. V_u64 v = param_value c a \<and> c # le_bytes 8 v = wire_param c a \<and> param_fds c a = []"
      if "0 \<le> v" "v < 256 ^ 8" for v
      using 4 that by (intro exI [of _ "Arg_64 v"]) (auto simp: param_fds_def)
    from num [of 8 V_u64, OF _ this] 4 assms(4) show ?thesis
      by (elim disjE; cases "s_check_rem (t_in_s tr) 8")
        (simp_all add: extract_switch_def extract_int64_type_def Let_def in_uint64_le_def dest_kind_def split_beta)
  qed
qed


lemma extract_bool_total:
  assumes "in_wf (t_in_s tr)" "t_extra_data tr = Some priv"
  shows "\<exists>rv vs ds' n. extract_switch T_b tr (D_int # ds) = Some (rv, vs, ds', took n 0 tr) \<and>
           extracted T_b tr rv vs n 0 \<and> (rv = E_LI_SUCCESS \<longrightarrow> ds' = ds)"
proof (cases "1 \<le> length (unread (t_in_s tr))")
  case True
  then obtain v where v: "in_bytes 1 (t_in_s tr) = Some (le_bytes 1 v, advance 1 (t_in_s tr))"
    "le_val (le_bytes 1 v) = v" "take 1 (unread (t_in_s tr)) = le_bytes 1 v" "0 \<le> v" "v < 256 ^ 1"
    using in_num_unread [OF assms(1)] by blast
  have run: "extract_switch T_b tr (D_int # ds) =
      Some (if v > 1 then (E_LI_BAD_VALUE, [], D_int # ds, took 1 0 tr)
            else (E_LI_SUCCESS, [V_int v], ds, took 1 0 tr))"
    using True v assms
    by (simp add: extract_switch_def extract_bool_type_def Let_def in_uint8_def stream_simps
        took_0_fd del: le_bytes.simps)
  show ?thesis
  proof (cases "v > 1")
    case True
    with run \<open>1 \<le> length (unread (t_in_s tr))\<close> show ?thesis
      by (intro exI [of _ E_LI_BAD_VALUE] exI [of _ "[]"] exI [of _ "D_int # ds"] exI [of _ 1])
        (simp add: extracted_def)
  next
    case False
    have "extracted T_b tr E_LI_SUCCESS [V_int v] 1 0"
      using True v by (auto simp: extracted_def param_fds_def intro!: exI [of _ "Arg_int v"])
    with run False show ?thesis by auto
  qed
next
  case False
  with assms show ?thesis
    by (intro exI [of _ E_LI_BUFFER_OVERFLOW] exI [of _ "[]"] exI [of _ "D_int # ds"] exI [of _ 0])
      (simp add: extract_switch_def extract_bool_type_def Let_def stream_simps extracted_def)
qed

lemma extract_str_total:
  assumes "in_wf (t_in_s tr)" "t_extra_data tr = Some priv"
  shows "\<exists>rv vs ds' n. extract_switch T_s tr (D_str # ds) = Some (rv, vs, ds', took n 0 tr) \<and>
           extracted T_s tr rv vs n 0 \<and> (rv = E_LI_SUCCESS \<longrightarrow> ds' = ds)"
proof (cases "find_byte 0 (unread (t_in_s tr))")
  case None
  with assms show ?thesis
    by (intro exI [of _ E_LI_BAD_VALUE] exI [of _ "[]"] exI [of _ "D_str # ds"] exI [of _ 0])
      (simp add: extract_switch_def extract_char_ptr_type_def Let_def g_strnchr_unread extracted_def)
next
  case (Some k)
  let ?bs = "take k (unread (t_in_s tr))"
  have k: "k < length (unread (t_in_s tr))"
    using find_byte_less [OF Some] .
  have split: "take (Suc k) (unread (t_in_s tr)) = ?bs @ [0]"
    using find_byte_split [OF Some] k
    by (metis append_Cons append_Nil append_eq_conv_conj append_assoc length_append_singleton
        length_take less_imp_le_nat min_absorb2)
  have "take k (drop (s_p (t_in_s tr)) (s_data (t_in_s tr))) = ?bs"
    using unread_in_data [OF assms(1), of k] k by simp
  then have run: "extract_switch T_s tr (D_str # ds) = Some (E_LI_SUCCESS, [V_str ?bs], ds, took (Suc k) 0 tr)"
    using Some assms
    by (simp add: extract_switch_def extract_char_ptr_type_def Let_def g_strnchr_unread
        took_0_fd [symmetric] advance_def)
  have "extracted T_s tr E_LI_SUCCESS [V_str ?bs] (Suc k) 0"
    using k split by (auto simp: extracted_def param_fds_def intro!: exI [of _ "Arg_str (Some ?bs)"])
  with run show ?thesis by blast
qed

lemma extract_fd_total:
  assumes "in_wf (t_in_s tr)" "t_extra_data tr = Some priv" "priv_wf priv"
  shows "\<exists>rv vs ds' k. extract_switch T_h tr (D_int # ds) = Some (rv, vs, ds', took 0 k tr) \<and>
           extracted T_h tr rv vs 0 k \<and> (rv = E_LI_SUCCESS \<longrightarrow> ds' = ds)"
proof (cases "pending_fds priv")
  case Nil
  then have "in_fd_index priv \<ge> in_fd_count priv"
    using length_pending [OF assms(3)] by simp
  with assms show ?thesis
    by (intro exI [of _ E_LI_TOO_MANY_FDS] exI [of _ "[]"] exI [of _ "D_int # ds"] exI [of _ 0])
      (simp add: extract_switch_def extract_fd_type_def extracted_def)
next
  case (Cons fd fds2)
  note fd = pending_fds_Cons [OF assms(3) Cons]
  have "extracted T_h tr E_LI_SUCCESS [V_int fd] 0 1"
    using Cons assms(2) by (auto simp: extracted_def param_fds_def intro!: exI [of _ "Arg_int fd"])
  moreover have "extract_switch T_h tr (D_int # ds) = Some (E_LI_SUCCESS, [V_int fd], ds, took 0 1 tr)"
    using fd assms(2) by (simp add: extract_switch_def extract_fd_type_def took_def)
  ultimately show ?thesis by blast
qed


lemma extract_fsb_total:
  assumes "in_wf (t_in_s tr)" "t_extra_data tr = Some priv"
  shows "\<exists>rv vs ds' n. extract_switch T_B tr (D_fsb m # ds) = Some (rv, vs, ds', took n 0 tr) \<and>
           extracted T_B tr rv vs n 0 \<and> (rv = E_LI_SUCCESS \<longrightarrow> ds' = ds)"
proof (cases m)
  case None
  then show ?thesis
    by (intro exI [of _ E_LI_PROGRAM_ERROR] exI [of _ "[]"] exI [of _ ds] exI [of _ 0])
      (simp add: extract_switch_def extract_fsb_type_def Let_def extracted_def)
next
  case (Some len)
  let ?s = "t_in_s tr"
  show ?thesis
  proof (cases "2 \<le> length (unread ?s)")
    case False
    with Some assms show ?thesis
      by (intro exI [of _ E_LI_BUFFER_OVERFLOW] exI [of _ "[]"] exI [of _ ds] exI [of _ 0])
        (simp add: extract_switch_def extract_fsb_type_def Let_def stream_simps extracted_def)
  next
    case two: True
    then obtain v where v: "in_bytes 2 ?s = Some (le_bytes 2 v, advance 2 ?s)"
      "le_val (le_bytes 2 v) = v" "take 2 (unread ?s) = le_bytes 2 v" "0 \<le> v" "v < 256 ^ 2"
      using in_num_unread [OF assms(1)] by blast
    have s2: "in_wf (advance 2 ?s)" "unread (advance 2 ?s) = drop 2 (unread ?s)"
      using assms(1) two advance_wf [of ?s 2] by (simp_all add: unread_advance)
    consider (bad) "v \<noteq> int len" | (short) "v = int len" "\<not> len \<le> length (drop 2 (unread ?s))"
      | (ok) "v = int len" "len \<le> length (drop 2 (unread ?s))" by blast
    then show ?thesis
    proof cases
      case bad
      with v Some assms two show ?thesis
        by (intro exI [of _ E_LI_BAD_VALUE] exI [of _ "[]"] exI [of _ ds] exI [of _ 2])
          (simp add: extract_switch_def extract_fsb_type_def Let_def in_uint16_le_def stream_simps
            took_0_fd extracted_def)
    next
      case short
      with v Some assms two s2 show ?thesis
        by (intro exI [of _ E_LI_BUFFER_OVERFLOW] exI [of _ "[]"] exI [of _ ds] exI [of _ 2])
          (simp add: extract_switch_def extract_fsb_type_def Let_def in_uint16_le_def stream_simps
            took_0_fd extracted_def)
    next
      case ok
      let ?bs = "take len (drop 2 (unread ?s))"
      have inb: "in_bytes len (advance 2 ?s) = Some (?bs, advance (2 + len) ?s)"
        using in_bytes_unread_eq [OF s2(1), of len] ok s2(2) by simp
      have run: "extract_switch T_B tr (D_fsb m # ds) = Some (E_LI_SUCCESS, [V_fsb ?bs], ds, took (2 + len) 0 tr)"
        using v Some assms two s2 ok inb
        by (simp add: extract_switch_def extract_fsb_type_def Let_def in_defs stream_simps
            took_0_fd [OF assms(2), symmetric])
      have "take (2 + len) (unread ?s) = le_bytes 2 (int len) @ ?bs"
        unfolding take_add using v(3) ok(1) by simp
      then have "extracted T_B tr E_LI_SUCCESS [V_fsb ?bs] (2 + len) 0"
        using ok two by (auto simp: extracted_def param_fds_def intro!: exI [of _ "Arg_fsb (Some ?bs)"])
      with run show ?thesis by blast
    qed
  qed
qed

lemma extract_switch_total:
  assumes "in_wf (t_in_s tr)" "t_extra_data tr = Some priv" "priv_wf priv" "dest_kind c d"
  shows "\<exists>rv vs ds' n k. extract_switch c tr (d # ds) = Some (rv, vs, ds', took n k tr) \<and>
           extracted c tr rv vs n k \<and> (rv = E_LI_SUCCESS \<longrightarrow> ds' = ds)"
proof -
  consider "c \<in> {T_y, T_n, T_q, T_i, T_u, T_x, T_t}" | "c = T_b" "d = D_int" | "c = T_s" "d = D_str"
    | "c = T_h" "d = D_int" | m where "c = T_B" "d = D_fsb m"
    using assms(4) by (auto simp: dest_kind_def split: if_splits)
  then show ?thesis
  proof cases
    case 1
    show ?thesis using extract_num_total [OF assms(1,2) 1 assms(4)] by blast
  next
    case 2
    show ?thesis unfolding 2 using extract_bool_total [OF assms(1,2), of ds] by blast
  next
    case 3
    show ?thesis unfolding 3 using extract_str_total [OF assms(1,2), of ds] by blast
  next
    case 4
    show ?thesis unfolding 4 using extract_fd_total [OF assms(1,2,3), of ds] by blast
  next
    case 5
    show ?thesis unfolding 5 using extract_fsb_total [OF assms(1,2), of m ds] by blast
  qed
qed

lemma extract_switch_reserved:
  "\<not> takes_arg c \<Longrightarrow> extract_switch c tr ds = Some (E_LI_UNIMPLEMENTED_TYPE, [], ds, tr)"
  by (auto simp: takes_arg_def extract_switch_def)


subsection \<open>The whole parse\<close>

text \<open>
  The outcome of a parse: the parameters read so far are \<^term>\<open>ps\<close>; on success they are all
  that the format asks for.
\<close>

definition parsed ::
  "byte list \<Rightarrow> ipm_trans \<Rightarrow> libipm_status \<Rightarrow> ipm_value list \<Rightarrow> ipm_trans \<Rightarrow> (byte \<times> c_arg) list \<Rightarrow>
   byte list \<Rightarrow> bool" where
  "parsed cs tr rv vs tr' ps skipped \<longleftrightarrow>
     in_wf (t_in_s tr') \<and> s_data (t_in_s tr') = s_data (t_in_s tr) \<and>
     s_end (t_in_s tr') = s_end (t_in_s tr) \<and>
     (\<exists>p p'. t_extra_data tr = Some p \<and> t_extra_data tr' = Some p' \<and> priv_wf p' \<and>
        pending_fds p = params_fds ps @ pending_fds p') \<and>
     map fst ps = take (length ps) cs \<and> vs = params_values ps \<and>
     unread (t_in_s tr) = wire_params ps @ skipped @ unread (t_in_s tr') \<and>
     (rv = E_LI_SUCCESS \<longrightarrow> length ps = length cs \<and> skipped = [])"

lemma took_pending:
  assumes "priv_wf priv" and "k \<le> length (pending_fds priv)"
  shows "priv_wf (priv\<lparr>in_fd_index := in_fd_index priv + k\<rparr>)"
    "pending_fds (priv\<lparr>in_fd_index := in_fd_index priv + k\<rparr>) = drop k (pending_fds priv)"
  using assms length_pending [OF assms(1)] by (auto simp: priv_wf_def pending_fds_def add.commute)

lemma parsed_fail:
  assumes "in_wf (t_in_s tr)" "t_extra_data tr = Some priv" "priv_wf priv"
    and "n \<le> length (unread (t_in_s tr))" "rv \<noteq> E_LI_SUCCESS"
    and "t_in_s tr' = advance n (t_in_s tr)"
    and "t_extra_data tr' = Some (priv\<lparr>in_param_count := q\<rparr>)"
  shows "parsed cs tr rv [] tr' [] (take n (unread (t_in_s tr)))"
  using assms advance_wf [OF assms(1,4)] unread_advance [OF assms(1,4)]
  by (auto simp: parsed_def priv_wf_def pending_fds_def)


lemma parsed_Cons:
  assumes ex: "extracted c tr E_LI_SUCCESS vs n k"
    and tr: "in_wf (t_in_s tr)" "t_extra_data tr = Some priv" "priv_wf priv"
    and start: "unread (t_in_s tr0) = c # unread (t_in_s tr)" "s_data (t_in_s tr) = s_data (t_in_s tr0)"
      "s_end (t_in_s tr) = s_end (t_in_s tr0)"
      "t_extra_data tr0 = Some priv0" "pending_fds priv0 = pending_fds priv"
    and rest: "parsed cs (took n k tr) rv vs' tr' ps skipped"
  obtains a where "parsed (c # cs) tr0 rv (vs @ vs') tr' ((c, a) # ps) skipped"
proof -
  obtain a where a: "vs = [param_value c a]" "c # take n (unread (t_in_s tr)) = wire_param c a"
    "take k (pending_fds priv) = param_fds c a"
    and n: "n \<le> length (unread (t_in_s tr))" and k: "k \<le> length (pending_fds priv)"
    using ex tr(2) by (auto simp: extracted_def)
  obtain p' where p': "t_extra_data tr' = Some p'" "priv_wf p'"
    "drop k (pending_fds priv) = params_fds ps @ pending_fds p'"
    using rest tr(2) took_pending [OF tr(3) k] by (auto simp: parsed_def took_def)
  have "unread (t_in_s (took n k tr)) = drop n (unread (t_in_s tr))"
    using unread_advance [OF tr(1) n] by (simp add: took_def)
  then have un: "unread (t_in_s tr) = take n (unread (t_in_s tr)) @ wire_params ps @ skipped @ unread (t_in_s tr')"
    using rest append_take_drop_id [of n "unread (t_in_s tr)"] by (simp add: parsed_def)
  have un0: "unread (t_in_s tr0) = wire_param c a @ wire_params ps @ skipped @ unread (t_in_s tr')"
    unfolding start(1) a(2) [symmetric] append_Cons un [symmetric] by (rule refl)
  have pend: "pending_fds priv0 = param_fds c a @ params_fds ps @ pending_fds p'"
    using start(5) a(3) p'(3) append_take_drop_id [of k "pending_fds priv"] by simp
  have "parsed (c # cs) tr0 rv (vs @ vs') tr' ((c, a) # ps) skipped"
    using rest a(1) start p' pend un0 by (auto simp: parsed_def took_def)
  then show thesis by (rule that)
qed

lemma parsev_total:
  assumes "in_wf (t_in_s tr)" "t_extra_data tr = Some priv" "priv_wf priv" "dests_ok cs ds"
  shows "\<exists>rv vs ds' tr' ps skipped. libipm_msg_in_parsev tr cs ds = Some (rv, vs, ds', tr') \<and>
           parsed cs tr rv vs tr' ps skipped \<and> (rv = E_LI_SUCCESS \<longrightarrow> ds' = drop (length cs) ds)"
  using assms
proof (induction cs arbitrary: tr priv ds)
  case Nil
  then have "parsed [] tr E_LI_SUCCESS [] tr [] []"
    by (simp add: parsed_def)
  then show ?case by auto
next
  case (Cons c cs)
  let ?k = "c_ushort (in_param_count priv + 1)"
  let ?priv = "priv\<lparr>in_param_count := ?k\<rparr>"
  let ?tr = "tr\<lparr>t_extra_data := Some ?priv\<rparr>"
  let ?s = "advance 1 (t_in_s tr)"
  let ?tr1 = "?tr\<lparr>t_in_s := ?s\<rparr>"
  have priv: "priv_wf ?priv" "pending_fds ?priv = pending_fds priv"
    using Cons.prems(3) by (simp_all add: priv_wf_def pending_fds_def)
  have fail: "\<exists>rv vs ds' tr' ps skipped. libipm_msg_in_parsev tr (c # cs) ds = Some (rv, vs, ds', tr') \<and>
      parsed (c # cs) tr rv vs tr' ps skipped \<and> (rv = E_LI_SUCCESS \<longrightarrow> ds' = drop (length (c # cs)) ds)"
    if "libipm_msg_in_parsev tr (c # cs) ds = Some (e, [], ds1, tr1)" "e \<noteq> E_LI_SUCCESS"
      "n \<le> length (unread (t_in_s tr))" "t_in_s tr1 = advance n (t_in_s tr)" "t_extra_data tr1 = Some ?priv"
    for e ds1 tr1 n
    using that parsed_fail [OF Cons.prems(1-3) that(3,2,4,5)] by blast
  consider (type) "\<not> g_strchr_found libipm_valid_type_chars c"
    | (room) "g_strchr_found libipm_valid_type_chars c" "unread (t_in_s tr) = []"
    | (other) b bs where "g_strchr_found libipm_valid_type_chars c" "unread (t_in_s tr) = b # bs" "b \<noteq> c"
    | (same) bs where "g_strchr_found libipm_valid_type_chars c" "unread (t_in_s tr) = c # bs"
    by (cases "unread (t_in_s tr)") auto
  then show ?case
  proof cases
    case type
    with Cons.prems(2) show ?thesis
      by (intro fail [of E_LI_UNSUPPORTED_TYPE ds ?tr 0]) simp_all
  next
    case room
    with Cons.prems(1,2) show ?thesis
      by (intro fail [of E_LI_BUFFER_OVERFLOW ds ?tr 0]) (simp_all add: stream_simps)
  next
    case other
    have "in_bytes 1 (t_in_s tr) = Some ([b], ?s)"
      using Cons.prems(1) other(2) by (intro in_bytes_prefix) auto
    moreover have "uint c \<noteq> uint b"
      using other(3) by (metis word_uint_eqI)
    ultimately show ?thesis
      using Cons.prems(1,2) other
      by (intro fail [of E_LI_UNEXPECTED_TYPE ds ?tr1 1]) (simp_all add: stream_simps in_uint8_def)
  next
    case same
    have inb: "in_bytes 1 (t_in_s tr) = Some ([c], ?s)"
      using Cons.prems(1) same(2) by (intro in_bytes_prefix) auto
    have s: "in_wf ?s" "unread ?s = bs"
      using Cons.prems(1) same(2) by (auto simp: unread_advance intro: advance_wf)
    have step: "libipm_msg_in_parsev tr (c # cs) ds =
        do { (rv, vs, ds, tr) \<leftarrow> extract_switch c ?tr1 ds;
             if rv = E_LI_SUCCESS
             then do { (rv, vs', ds, tr) \<leftarrow> libipm_msg_in_parsev tr cs ds; Some (rv, vs @ vs', ds, tr) }
             else Some (rv, vs, ds, tr) }"
      using Cons.prems(1,2) same inb by (simp add: stream_simps in_uint8_def)
    show ?thesis
    proof (cases "takes_arg c")
      case False
      with step Cons.prems(1,2) same show ?thesis
        by (intro fail [of E_LI_UNIMPLEMENTED_TYPE ds ?tr1 1]) (simp_all add: extract_switch_reserved)
    next
      case True
      with Cons.prems(4) obtain d ds2 where ds: "ds = d # ds2" "dest_kind c d" "dests_ok cs ds2"
        by (cases ds) auto
      obtain rv vs ds' n k where ex: "extract_switch c ?tr1 (d # ds2) = Some (rv, vs, ds', took n k ?tr1)"
        "extracted c ?tr1 rv vs n k" "rv = E_LI_SUCCESS \<longrightarrow> ds' = ds2"
        using extract_switch_total [of ?tr1 ?priv c d ds2] s(1) priv(1) ds(2) by auto
      show ?thesis
      proof (cases "rv = E_LI_SUCCESS")
        case False
        with ex s have "vs = []" "k = 0" "n \<le> length bs"
          by (simp_all add: extracted_def)
        with ex(1) False step ds same show ?thesis
          by (intro fail [of rv ds' "took n k ?tr1" "1 + n"]) (simp_all add: took_simps)
      next
        case rv: True
        let ?tr2 = "took n k ?tr1"
        let ?p2 = "?priv\<lparr>in_fd_index := in_fd_index ?priv + k\<rparr>"
        have nk: "n \<le> length (unread ?s)" "k \<le> length (pending_fds ?priv)"
          using ex(2) by (simp_all add: extracted_def)
        have "in_wf (t_in_s ?tr2)" "t_extra_data ?tr2 = Some ?p2" "priv_wf ?p2"
          using advance_wf [OF s(1) nk(1)] took_pending(1) [OF priv(1) nk(2)]
          by (simp_all add: took_simps)
        from Cons.IH [OF this ds(3)] obtain rv' vs' ds'' tr' ps skipped where
          rec: "libipm_msg_in_parsev ?tr2 cs ds2 = Some (rv', vs', ds'', tr')"
            "parsed cs ?tr2 rv' vs' tr' ps skipped" "rv' = E_LI_SUCCESS \<longrightarrow> ds'' = drop (length cs) ds2"
          by blast
        obtain a where "parsed (c # cs) tr rv' (vs @ vs') tr' ((c, a) # ps) skipped"
          using ex(2) rv s priv same(2) Cons.prems(2) rec(2)
          by - (rule parsed_Cons [of c ?tr1 vs n k ?priv tr priv cs rv' vs' tr' ps skipped]; simp)
        then show ?thesis
          using step ex(1,3) rv ds(1) rec(1,3) by auto
      qed
    qed
  qed
qed

end
