(* ===== verification/Ipm_Protocol.thy ===== *)
theory Ipm_Protocol
  imports Libipm_Safety
begin

text \<open>
  What the protocols over libipm share: the application types of
  \<^verbatim>\<open>libipm/scp_application_types.h\<close> and \<^verbatim>\<open>common/guid.h\<close>, the environment of a send, and
  access to the values a parse has stored. Each protocol (\<^verbatim>\<open>scp.c\<close>, \<^verbatim>\<open>eicp.c\<close>, \<^verbatim>\<open>ercp.c\<close>) is
  a set of message formats; a send and the matching get use one format.

  A parse stores through its out-pointers in order. A getter returns the status, the
  decoded parameters when the status is success, and the transport.
\<close>

subsection \<open>Application types\<close>

text \<open>The C enumerations are integers on the wire and in the code that tests them.\<close>

abbreviation (input) SCP_SESSION_TYPE_XVNC :: int where "SCP_SESSION_TYPE_XVNC \<equiv> 0"
abbreviation (input) SCP_SESSION_TYPE_XVNC_UDS :: int where "SCP_SESSION_TYPE_XVNC_UDS \<equiv> 1"
abbreviation (input) SCP_SESSION_TYPE_XORG :: int where "SCP_SESSION_TYPE_XORG \<equiv> 2"

definition SCP_SESSION_TYPE_IS_X11 :: "int \<Rightarrow> bool" where
  "SCP_SESSION_TYPE_IS_X11 t \<longleftrightarrow> t \<ge> SCP_SESSION_TYPE_XVNC \<and> t \<le> SCP_SESSION_TYPE_XORG"

abbreviation (input) LIBIPM_FAC_SCP :: int where "LIBIPM_FAC_SCP \<equiv> 1"
abbreviation (input) LIBIPM_FAC_EICP :: int where "LIBIPM_FAC_EICP \<equiv> 2"
abbreviation (input) LIBIPM_FAC_ERCP :: int where "LIBIPM_FAC_ERCP \<equiv> 3"

abbreviation (input) GUID_SIZE :: nat where "GUID_SIZE \<equiv> 16"

type_synonym guid = "byte list"

definition guid_clear :: guid where
  "guid_clear = replicate GUID_SIZE 0"

text \<open>The loop of \<^verbatim>\<open>guid_is_set\<close> over the octets.\<close>

fun guid_scan :: "byte list \<Rightarrow> int" where
  "guid_scan [] = 0"
| "guid_scan (b # bs) = (if b \<noteq> 0 then 1 else guid_scan bs)"

definition guid_is_set :: "guid option \<Rightarrow> int" where
  "guid_is_set g = (case g of None \<Rightarrow> 0 | Some bs \<Rightarrow> guid_scan bs)"

text \<open>
  \<^verbatim>\<open>guid_new\<close>: the octets come from the random source; the variant and version bits of
  RFC 4122 are then forced. \<^verbatim>\<open>memcmp\<close> on two GUIDs is equality of the octets.
\<close>

definition guid_new :: "byte list \<Rightarrow> guid option" where
  "guid_new random =
     do { c \<leftarrow> list_get random 8; g \<leftarrow> list_set random 8 ((c AND NOT 0x40) OR 0x80);
          t \<leftarrow> list_get g 7; list_set g 7 ((t AND NOT 0xf0) OR push_bit 4 4) }"

record scp_session_info =
  i_sid :: int
  i_display :: "byte list option"
  i_type :: int
  i_width :: int
  i_height :: int
  i_bpp :: int
  i_start_time :: int
  i_uid :: int
  i_start_ip_addr :: "byte list option"
  i_client_ip :: "byte list option"
  i_client_name :: "byte list option"
  i_last_connect_disconnect :: int
  i_xrdp_instance_name :: "byte list option"

subsection \<open>Sending and decoding\<close>

text \<open>
  \<^verbatim>\<open>trans_force_write\<close> and the contents of fresh memory are the environment of a send.
\<close>

record ipm_env =
  force_write :: "ipm_trans \<Rightarrow> (bool \<times> ipm_trans) option"
  fresh_mem :: "nat \<Rightarrow> byte"

definition simple_send ::
  "ipm_env \<Rightarrow> ipm_trans \<Rightarrow> int \<Rightarrow> (byte \<times> c_arg) list \<Rightarrow> (libipm_status \<times> ipm_trans) option" where
  "simple_send env tr msgno ps =
     libipm_msg_out_simple_send (force_write env) (fresh_mem env) tr msgno
       (Some (map fst ps)) (map snd ps)"

definition simple_send_empty :: "ipm_env \<Rightarrow> ipm_trans \<Rightarrow> int \<Rightarrow> (libipm_status \<times> ipm_trans) option" where
  "simple_send_empty env tr msgno =
     libipm_msg_out_simple_send (force_write env) (fresh_mem env) tr msgno None []"

text \<open>The value stored through the out-pointer number \<^term>\<open>i\<close>.\<close>

fun num_value :: "ipm_value \<Rightarrow> int option" where
  "num_value (V_int v) = Some v"
| "num_value (V_u8 v) = Some v"
| "num_value (V_u16 v) = Some v"
| "num_value (V_u32 v) = Some v"
| "num_value (V_u64 v) = Some v"
| "num_value _ = None"

fun str_value :: "ipm_value \<Rightarrow> byte list option" where
  "str_value (V_str s) = Some s"
| "str_value _ = None"

fun fsb_value :: "ipm_value \<Rightarrow> byte list option" where
  "fsb_value (V_fsb s) = Some s"
| "fsb_value _ = None"

definition out_num :: "ipm_value list \<Rightarrow> nat \<Rightarrow> int option" where
  "out_num vs i = do { v \<leftarrow> list_get vs i; num_value v }"

definition out_str :: "ipm_value list \<Rightarrow> nat \<Rightarrow> byte list option" where
  "out_str vs i = do { v \<leftarrow> list_get vs i; str_value v }"

definition out_fsb :: "ipm_value list \<Rightarrow> nat \<Rightarrow> byte list option" where
  "out_fsb vs i = do { v \<leftarrow> list_get vs i; fsb_value v }"

text \<open>\<^verbatim>\<open>int32_t\<close> and \<^verbatim>\<open>int64_t\<close> read the stored bits as signed.\<close>

definition c_int64 :: "int \<Rightarrow> int" where
  "c_int64 x = (x + 2 ^ 63) mod 2 ^ 64 - 2 ^ 63"

lemma c_int64_id: "- (2 ^ 63) \<le> x \<Longrightarrow> x < 2 ^ 63 \<Longrightarrow> c_int64 (x mod 2 ^ 64) = x"
  by (simp add: c_int64_def mod_simps)

lemma c_uint_of_int: "c_uint (c_int (c_uint x)) = c_uint x"
  by (simp add: c_int_def c_uint_def mod_simps)

lemmas out_value_defs = out_num_def out_str_def out_fsb_def

subsection \<open>Transports from descriptors\<close>

text \<open>
  \<^verbatim>\<open>scp_init_trans_from_fd\<close> and \<^verbatim>\<open>eicp_init_trans_from_fd\<close>: a new transport (the argument is
  what \<^verbatim>\<open>trans_create\<close> returns) is given the descriptor and set up for the facility.
\<close>

definition init_trans_from_fd ::
  "ipm_env \<Rightarrow> bool \<Rightarrow> ipm_trans option \<Rightarrow> int \<Rightarrow> int \<Rightarrow> int \<Rightarrow> ipm_trans option option" where
  "init_trans_from_fd env alloc_ok created fac fd trans_type =
     (case created of
        None \<Rightarrow> Some None
      | Some tr \<Rightarrow>
          do { (rv, tr) \<leftarrow> libipm_init_trans (fresh_mem env) alloc_ok False
                 (tr\<lparr>t_sck := fd, t_type1 := trans_type, t_status := TRANS_STATUS_UP\<rparr>) fac;
               Some (if rv \<noteq> E_LI_SUCCESS then None else Some tr) })"

end
