(* ===== verification/String_Calls.thy ===== *)
theory String_Calls
  imports Xrdp_Prelude
begin

text \<open>
  \<^verbatim>\<open>common/string_calls.c\<close>: numbers and names in strings, bit masks as text, trimming,
  joining and expanding strings. A C string is the list of its bytes before the terminator;
  a pointer argument that may be NULL is an option. An output buffer is given by its size;
  the result is what the function returned and the string left in the buffer, if the
  terminator was written at all. Character classes are those of the C locale.
\<close>

type_synonym cstr = "byte list"

definition is_digit :: "byte \<Rightarrow> bool" where
  "is_digit c \<longleftrightarrow> 0x30 \<le> c \<and> c \<le> 0x39"

definition is_space :: "byte \<Rightarrow> bool" where
  "is_space c \<longleftrightarrow> c = 0x20 \<or> 0x09 \<le> c \<and> c \<le> 0x0d"

definition c_tolower :: "byte \<Rightarrow> byte" where
  "c_tolower c = (if 0x41 \<le> c \<and> c \<le> 0x5a then c + 0x20 else c)"

definition c_toupper :: "byte \<Rightarrow> byte" where
  "c_toupper c = (if 0x61 \<le> c \<and> c \<le> 0x7a then c - 0x20 else c)"

text \<open>\<^verbatim>\<open>g_snprintf(buff, n, "%s", text)\<close> and the copy of \<^verbatim>\<open>strlcpy\<close> have one effect.\<close>

definition g_snprintf_str :: "nat \<Rightarrow> cstr \<Rightarrow> int \<times> cstr option" where
  "g_snprintf_str n text = (int (length text), if n = 0 then None else Some (take (n - 1) text))"

fun g_strrchr_pos :: "cstr \<Rightarrow> byte \<Rightarrow> nat option" where
  "g_strrchr_pos [] c = None"
| "g_strrchr_pos (b # bs) c =
     (case g_strrchr_pos bs c of Some i \<Rightarrow> Some (Suc i) | None \<Rightarrow> if b = c then Some 0 else None)"

text \<open>
  \<^verbatim>\<open>strlcpy\<close>: the loop copies while room is left and stops after the terminator; the rest of
  the source is then traversed for the return value. The state is the destination so far.
\<close>

fun strlcpy_copy :: "nat \<Rightarrow> cstr \<Rightarrow> cstr \<Rightarrow> nat \<times> cstr \<times> cstr" where
  "strlcpy_copy 0 src dst = (0, src, dst)"
| "strlcpy_copy (Suc nleft) src dst =
     (if nleft = 0 then (0, src, dst)
      else case src of [] \<Rightarrow> (nleft, [], dst) | c # cs \<Rightarrow> strlcpy_copy nleft cs (dst @ [c]))"

definition strlcpy :: "cstr \<Rightarrow> nat \<Rightarrow> nat \<times> cstr option" where
  "strlcpy src dsize =
     (let (nleft, rest, dst) = strlcpy_copy dsize src []
      in (length src, if dsize = 0 then None else Some dst))"

subsection \<open>Numbers\<close>

text \<open>
  \<^verbatim>\<open>atoi\<close>: white space, a sign, digits. A value outside \<^verbatim>\<open>int\<close> is undefined.
\<close>

fun digits_val :: "int \<Rightarrow> cstr \<Rightarrow> int" where
  "digits_val acc [] = acc"
| "digits_val acc (c # cs) = (if is_digit c then digits_val (acc * 10 + (uint c - 48)) cs else acc)"

definition in_int_range :: "int \<Rightarrow> int option" where
  "in_int_range v = (if - (2 ^ 31) \<le> v \<and> v < 2 ^ 31 then Some v else None)"

definition g_atoi :: "cstr option \<Rightarrow> int option" where
  "g_atoi str =
     (case str of
        None \<Rightarrow> Some 0
      | Some s \<Rightarrow>
          (case dropWhile is_space s of
             [] \<Rightarrow> Some 0
           | c # cs \<Rightarrow> in_int_range (if c = 0x2d then - digits_val 0 cs
                                     else if c = 0x2b then digits_val 0 cs
                                     else digits_val 0 (c # cs))))"

text \<open>The conversions \<^verbatim>\<open>%d\<close> of \<^verbatim>\<open>printf\<close>.\<close>

fun dec_digits :: "nat \<Rightarrow> cstr" where
  "dec_digits n = (if n < 10 then [word_of_nat (48 + n)] else dec_digits (n div 10) @ [word_of_nat (48 + n mod 10)])"

declare dec_digits.simps [simp del]

definition dec_str :: "int \<Rightarrow> cstr" where
  "dec_str v = (if v < 0 then 0x2d # dec_digits (nat (- v)) else dec_digits (nat v))"

text \<open>\<^verbatim>\<open>%x\<close>, with lower case digits.\<close>

definition hex_char :: "nat \<Rightarrow> byte" where
  "hex_char d = (if d < 10 then word_of_nat (48 + d) else word_of_nat (87 + d))"

fun hex_digits :: "nat \<Rightarrow> cstr" where
  "hex_digits n = (if n < 16 then [hex_char n] else hex_digits (n div 16) @ [hex_char (n mod 16)])"

declare hex_digits.simps [simp del]

fun g_htoi_loop :: "32 word \<Rightarrow> cstr \<Rightarrow> 32 word" where
  "g_htoi_loop rv [] = rv"
| "g_htoi_loop rv (c # cs) =
     (if 0x30 \<le> c \<and> c \<le> 0x39 then g_htoi_loop (push_bit 4 rv OR ucast (c - 0x30)) cs
      else if 0x41 \<le> c \<and> c \<le> 0x46 then g_htoi_loop (push_bit 4 rv OR ucast (c - 0x41 + 10)) cs
      else if 0x61 \<le> c \<and> c \<le> 0x66 then g_htoi_loop (push_bit 4 rv OR ucast (c - 0x61 + 10)) cs
      else rv)"

definition g_htoi :: "cstr \<Rightarrow> 32 word" where
  "g_htoi str = g_htoi_loop 0 str"

text \<open>
  Each octet is printed by \<^verbatim>\<open>%2.2x\<close> where at least three bytes of the buffer are left, so a
  terminator always fits.
\<close>

fun hexstr_loop :: "byte list \<Rightarrow> int \<Rightarrow> int \<times> cstr" where
  "hexstr_loop [] room = (0, [])"
| "hexstr_loop (b # bs) room =
     (if room < 3 then (0, [])
      else let (rv, out) = hexstr_loop bs (room - 2)
           in (rv + 2, hex_char (unat b div 16) # hex_char (unat b mod 16) # out))"

definition g_bytes_to_hexstr :: "byte list \<Rightarrow> int \<Rightarrow> int \<times> cstr" where
  "g_bytes_to_hexstr bytes bytes_out_str = hexstr_loop bytes bytes_out_str"

subsection \<open>Booleans and display names\<close>

definition g_strcasecmp_eq :: "cstr \<Rightarrow> cstr \<Rightarrow> bool" where
  "g_strcasecmp_eq a b \<longleftrightarrow> map c_tolower a = map c_tolower b"

definition g_bool2text :: "int \<Rightarrow> cstr" where
  "g_bool2text v = (if v \<noteq> 0 then [0x74, 0x72, 0x75, 0x65] else [0x66, 0x61, 0x6c, 0x73, 0x65])"

definition g_text2bool :: "cstr \<Rightarrow> int option" where
  "g_text2bool s =
     do { n \<leftarrow> g_atoi (Some s);
          Some (if n \<noteq> 0 \<or> g_strcasecmp_eq s [0x74, 0x72, 0x75, 0x65] \<or> g_strcasecmp_eq s [0x6f, 0x6e] \<or>
                   g_strcasecmp_eq s [0x79, 0x65, 0x73] then 1 else 0) }"

text \<open>The text after the first \<^verbatim>\<open>':'\<close>, less a second one.\<close>

definition get_display_num_from_display :: "cstr option \<Rightarrow> int option" where
  "get_display_num_from_display display_text =
     (case display_text of
        None \<Rightarrow> Some (- 1)
      | Some s \<Rightarrow>
          (case dropWhile (\<lambda>c. c \<noteq> 0x3a) s of
             [] \<Rightarrow> Some (- 1)
           | _ # p \<Rightarrow>
               (let p = (if p \<noteq> [] \<and> hd p = 0x3a then tl p else p)
                in if p \<noteq> [] \<and> is_digit (hd p) then g_atoi (Some p) else Some (- 1))))"

text \<open>\<^verbatim>\<open>"X11-%d"\<close>\<close>

definition x11_display_name :: "int \<Rightarrow> cstr" where
  "x11_display_name n = [0x58, 0x31, 0x31, 0x2d] @ dec_str n"

definition g_get_display_string_from_x11_display :: "int \<Rightarrow> nat \<Rightarrow> int \<times> cstr option" where
  "g_get_display_string_from_x11_display display_num bufflen =
     (let (res, buff) = g_snprintf_str bufflen (x11_display_name display_num)
      in (if res \<ge> int bufflen then - 1 else 0, buff))"

definition g_get_x11_display_from_display_string :: "cstr option \<Rightarrow> int option" where
  "g_get_x11_display_from_display_string display_str =
     (case display_str of
        Some (c0 # c1 # c2 # c3 # c4 # rest) \<Rightarrow>
          (if c0 = 0x58 \<and> c1 = 0x31 \<and> c2 = 0x31 \<and> c3 = 0x2d \<and> is_digit c4
           then g_atoi (Some (c4 # rest)) else Some (- 1))
      | _ \<Rightarrow> Some (- 1))"

text \<open>The two environment variables are arguments. \<^verbatim>\<open>'/'\<close> is byte 0x2f.\<close>

definition g_get_display_string :: "cstr option \<Rightarrow> cstr option \<Rightarrow> nat \<Rightarrow> (int \<times> cstr option) option" where
  "g_get_display_string wayland display bufflen =
     (case wayland of
        Some str \<Rightarrow>
          (let p = (case g_strrchr_pos str 0x2f of Some i \<Rightarrow> drop (Suc i) str | None \<Rightarrow> str);
               (len, buff) = strlcpy p bufflen
           in Some (if len \<ge> bufflen then - 1 else 0, buff))
      | None \<Rightarrow>
          (case display of
             Some str \<Rightarrow>
               do { n \<leftarrow> get_display_num_from_display (Some str);
                    if n \<ge> 0
                    then (let (res, buff) = g_snprintf_str bufflen (x11_display_name n)
                          in Some (if res \<ge> int bufflen then - 1 else 0, buff))
                    else Some (g_get_display_string_from_x11_display n bufflen) }
           | None \<Rightarrow> Some (- 1, None)))"

subsection \<open>Trimming and joining\<close>

definition trimmable :: "byte \<Rightarrow> bool" where
  "trimmable c \<longleftrightarrow> c \<le> 0x20"

definition trim_left :: "cstr \<Rightarrow> cstr" where
  "trim_left str = dropWhile trimmable str"

definition trim_right :: "cstr \<Rightarrow> cstr" where
  "trim_right str = rev (dropWhile trimmable (rev str))"

definition g_strtrim :: "cstr \<Rightarrow> int \<Rightarrow> int \<times> cstr" where
  "g_strtrim str trim_flags =
     (if trim_flags = 4 then (0, filter (\<lambda>c. \<not> trimmable c) str)
      else if trim_flags = 3 then (0, trim_right (trim_left str))
      else if trim_flags = 2 then (0, trim_right str)
      else if trim_flags = 1 then (0, trim_left str)
      else (1, str))"

text \<open>
  \<^verbatim>\<open>g_strncat\<close> at the end of the string appends what fits. The loop state is the string so
  far; the room is what is left before the last byte of the buffer.
\<close>

fun strnjoin_loop :: "nat \<Rightarrow> cstr \<Rightarrow> cstr list \<Rightarrow> cstr \<Rightarrow> cstr" where
  "strnjoin_loop room joiner [] out = out"
| "strnjoin_loop room joiner [s] out = (if length out < room then out @ take (room - length out) s else out)"
| "strnjoin_loop room joiner (s # t # ss) out =
     (if length out < room
      then let out = out @ take (room - length out) s;
               out = (if length out < room then out @ take (room - length out) joiner else out)
           in strnjoin_loop room joiner (t # ss) out
      else out)"

definition g_strnjoin :: "nat \<Rightarrow> cstr \<Rightarrow> cstr list \<Rightarrow> cstr option" where
  "g_strnjoin dest_len joiner src =
     (if dest_len < 1 then None
      else if src = [] then Some []
      else Some (strnjoin_loop (dest_len - 1) joiner src []))"

subsection \<open>Expansion of a format\<close>

text \<open>The scan of the map; running past its end is undefined.\<close>

fun info_lookup :: "byte \<Rightarrow> (byte \<times> cstr) list \<Rightarrow> cstr option option" where
  "info_lookup ch [] = None"
| "info_lookup ch ((c, v) # m) =
     (if c = 0 then Some None else if ch = c then Some (Some v) else info_lookup ch m)"

text \<open>
  One round of the loop: the text to add and the number of format characters consumed.
\<close>

definition format_step :: "(byte \<times> cstr) list \<Rightarrow> cstr \<Rightarrow> (cstr \<times> nat) option" where
  "format_step m format =
     (if hd format = 0x25
      then (case tl format of
              [] \<Rightarrow> Some ([], 1)
            | ch # _ \<Rightarrow>
                (if ch = 0x25 then Some ([0x25], 2)
                 else do { found \<leftarrow> info_lookup ch m;
                           Some (case found of None \<Rightarrow> ([], 2) | Some v \<Rightarrow> (v, 2)) }))
      else let chunk = takeWhile (\<lambda>c. c \<noteq> 0x25) format in Some (chunk, length chunk))"

function format_loop :: "(byte \<times> cstr) list \<Rightarrow> cstr \<Rightarrow> nat \<Rightarrow> cstr \<Rightarrow> nat \<Rightarrow> (nat \<times> cstr \<times> nat) option" where
  "format_loop m [] len dest result = Some (result, dest, len)"
| "format_loop m (c # cs) len dest result =
     (case format_step m (c # cs) of
        None \<Rightarrow> None
      | Some (text, skip) \<Rightarrow>
          (let result = result + length text;
               copy = (if len > 1 then take (len - 1) text else []);
               rest = drop skip (c # cs)
           in if length rest < length (c # cs)
              then format_loop m rest (len - length copy) (dest @ copy) result else None))"
  by pat_completeness auto
termination by (relation "measure (\<lambda>(m, format, len, dest, result). length format)") auto

definition g_format_info_string :: "nat \<Rightarrow> cstr \<Rightarrow> (byte \<times> cstr) list \<Rightarrow> (nat \<times> cstr option) option" where
  "g_format_info_string len format m =
     do { (result, dest, left) \<leftarrow> format_loop m format len [] 0;
          Some (result, if left > 0 then Some dest else None) }"

end
