(* ===== verification/Item_List.thy ===== *)
theory Item_List
  imports Xrdp_Prelude
begin

text \<open>
  \<^verbatim>\<open>common/list.c\<close> and \<^verbatim>\<open>common/list16.c\<close>: growable arrays of pointers and of 16-bit values.
  The allocated block is a list; an access outside it is undefined. An item of \<^verbatim>\<open>list.c\<close> is
  a pointer (\<^term>\<open>None\<close> is NULL); operations that free items return them. Allocation success
  and the contents of fresh memory are arguments. A loop over an array is a recursion.
\<close>

abbreviation (input) DEFAULT_LIST_SIZE :: nat where "DEFAULT_LIST_SIZE \<equiv> 10"
abbreviation (input) DEFAULT_GROW_BY_SIZE :: nat where "DEFAULT_GROW_BY_SIZE \<equiv> 10"

record 'a xlist =
  items :: "'a option list"
  count :: nat
  alloc_size :: nat
  grow_by :: nat
  auto_free :: bool

text \<open>The environment of an allocation: whether it succeeds, and what the block holds.\<close>

type_synonym 'a alloc = "bool \<times> (nat \<Rightarrow> 'a)"

definition list_create_sized :: "bool \<Rightarrow> 'a option alloc \<Rightarrow> nat \<Rightarrow> 'a xlist option" where
  "list_create_sized ok mem sz =
     (let sz = (if sz < DEFAULT_LIST_SIZE then DEFAULT_LIST_SIZE else sz) in
      if \<not> ok \<or> \<not> fst mem then None
      else Some \<lparr>items = map (snd mem) [0..<sz], count = 0, alloc_size = sz,
                 grow_by = DEFAULT_GROW_BY_SIZE, auto_free = False\<rparr>)"

definition list_create :: "bool \<Rightarrow> 'a option alloc \<Rightarrow> 'a xlist option" where
  "list_create ok mem = list_create_sized ok mem DEFAULT_LIST_SIZE"

text \<open>The freeing loop of \<^verbatim>\<open>list_delete\<close> and \<^verbatim>\<open>list_clear\<close>.\<close>

fun free_items :: "nat \<Rightarrow> 'a option list \<Rightarrow> nat \<Rightarrow> ('a option list \<times> 'a option list) option" where
  "free_items i its 0 = Some ([], its)"
| "free_items i its (Suc n) =
     do { x \<leftarrow> list_get its i; its \<leftarrow> list_set its i None;
          (freed, its) \<leftarrow> free_items (Suc i) its n; Some (x # freed, its) }"

definition list_delete :: "'a xlist option \<Rightarrow> 'a option list option" where
  "list_delete self =
     (case self of
        None \<Rightarrow> Some []
      | Some l \<Rightarrow> if auto_free l
                 then do { (freed, its) \<leftarrow> free_items 0 (items l) (count l); Some freed }
                 else Some [])"

definition grow_list :: "'a option alloc \<Rightarrow> 'a xlist \<Rightarrow> int \<times> 'a xlist" where
  "grow_list mem self =
     (let new_alloc_size = alloc_size self + grow_by self in
      if \<not> fst mem then (0, self)
      else (1, self\<lparr>alloc_size := new_alloc_size,
                    items := items self @ map (snd mem) [alloc_size self..<new_alloc_size]\<rparr>))"

definition list_add_item :: "'a option alloc \<Rightarrow> 'a xlist \<Rightarrow> 'a option \<Rightarrow> (int \<times> 'a xlist) option" where
  "list_add_item mem self item =
     (let (ok, self) = (if count self = alloc_size self then grow_list mem self else (1, self)) in
      if ok = 0 then Some (0, self)
      else do { its \<leftarrow> list_set (items self) (count self) item;
                Some (1, self\<lparr>items := its, count := count self + 1\<rparr>) })"

definition list_get_item :: "'a xlist \<Rightarrow> int \<Rightarrow> 'a option option" where
  "list_get_item self index =
     (if index < 0 \<or> index \<ge> int (count self) then Some None else list_get (items self) (nat index))"

text \<open>
  The result of the shrinking \<^verbatim>\<open>realloc\<close> is stored unchecked: on failure the block is NULL.
\<close>

definition list_clear :: "bool \<Rightarrow> 'a xlist \<Rightarrow> ('a option list \<times> 'a xlist) option" where
  "list_clear realloc_ok self =
     do { (freed, its) \<leftarrow> (if auto_free self then free_items 0 (items self) (count self)
                           else Some ([], items self));
          Some (freed, self\<lparr>count := 0, grow_by := DEFAULT_GROW_BY_SIZE,
                  alloc_size := DEFAULT_LIST_SIZE,
                  items := (if realloc_ok then take DEFAULT_LIST_SIZE its else [])\<rparr>) }"

fun index_loop :: "'b list \<Rightarrow> nat \<Rightarrow> nat \<Rightarrow> 'b \<Rightarrow> int option" where
  "index_loop its i 0 x = Some (- 1)"
| "index_loop its i (Suc n) x =
     do { y \<leftarrow> list_get its i; if y = x then Some (int i) else index_loop its (Suc i) n x }"

definition list_index_of :: "'a xlist \<Rightarrow> 'a option \<Rightarrow> int option" where
  "list_index_of self item = index_loop (items self) 0 (count self) item"

text \<open>\<^verbatim>\<open>for (i = index; i < count - 1; i++) items[i] = items[i + 1]\<close>\<close>

fun shift_down :: "'b list \<Rightarrow> nat \<Rightarrow> nat \<Rightarrow> 'b list option" where
  "shift_down its i 0 = Some its"
| "shift_down its i (Suc n) =
     do { x \<leftarrow> list_get its (i + 1); its \<leftarrow> list_set its i x; shift_down its (Suc i) n }"

definition list_remove_item :: "'a xlist \<Rightarrow> int \<Rightarrow> ('a option list \<times> 'a xlist) option" where
  "list_remove_item self index =
     (if index \<ge> 0 \<and> index < int (count self) then
        do { let i = nat index;
             (freed, its) \<leftarrow> (if auto_free self
                then do { x \<leftarrow> list_get (items self) i; its \<leftarrow> list_set (items self) i None; Some ([x], its) }
                else Some ([], items self));
             its \<leftarrow> shift_down its i (count self - 1 - i);
             Some (freed, self\<lparr>items := its, count := count self - 1\<rparr>) }
      else Some ([], self))"

text \<open>\<^verbatim>\<open>for (i = count; i > index; --i) items[i] = items[i - 1]\<close>\<close>

fun shift_up :: "'b list \<Rightarrow> nat \<Rightarrow> nat \<Rightarrow> 'b list option" where
  "shift_up its i 0 = Some its"
| "shift_up its i (Suc n) =
     do { x \<leftarrow> list_get its (i - 1); its \<leftarrow> list_set its i x; shift_up its (i - 1) n }"

definition list_insert_item ::
  "'a option alloc \<Rightarrow> 'a xlist \<Rightarrow> int \<Rightarrow> 'a option \<Rightarrow> (int \<times> 'a xlist) option" where
  "list_insert_item mem self index item =
     (let index = (if index > int (count self) then int (count self)
                   else if index < 0 then 0 else index);
          (ok, self) = (if count self = alloc_size self then grow_list mem self else (1, self)) in
      if ok = 0 then Some (0, self)
      else do { its \<leftarrow> shift_up (items self) (count self) (count self - nat index);
                its \<leftarrow> list_set its (nat index) item;
                Some (1, self\<lparr>items := its, count := count self + 1\<rparr>) })"

subsection \<open>Lists of duplicated strings\<close>

text \<open>
  A duplicate has the contents of the original; the environment of one call says whether the
  duplication succeeds and how a growth of the list goes.
\<close>

definition list_add_strdup ::
  "bool \<times> 'a option alloc \<Rightarrow> 'a xlist \<Rightarrow> 'a option \<Rightarrow> (int \<times> 'a xlist) option" where
  "list_add_strdup env self str =
     (if str = None then list_add_item (snd env) self None
      else if \<not> fst env then Some (0, self)
      else list_add_item (snd env) self str)"

text \<open>The clean-up loop: \<^verbatim>\<open>while (count > entry_count) list_remove_item(count - 1)\<close>.\<close>

function remove_down_to :: "'a xlist \<Rightarrow> nat \<Rightarrow> ('a option list \<times> 'a xlist) option" where
  "remove_down_to self n =
     (if count self > n then
        (case list_remove_item self (int (count self) - 1) of
           None \<Rightarrow> None
         | Some (freed, self') \<Rightarrow>
             if count self' < count self
             then do { (freed', l) \<leftarrow> remove_down_to self' n; Some (freed @ freed', l) }
             else None)
      else Some ([], self))"
  by pat_completeness auto
termination by (relation "measure (\<lambda>(self, n). count self)") auto

declare remove_down_to.simps [simp del]

fun strdup_loop ::
  "(nat \<Rightarrow> bool \<times> 'a option alloc) \<Rightarrow> nat \<Rightarrow> 'a xlist \<Rightarrow> 'a option list \<Rightarrow> (int \<times> 'a xlist) option" where
  "strdup_loop env k self [] = Some (1, self)"
| "strdup_loop env k self (s # ss) =
     do { (rv, self) \<leftarrow> list_add_strdup (env k) self s;
          if rv = 0 then Some (0, self) else strdup_loop env (Suc k) self ss }"

definition list_add_strdup_multi ::
  "(nat \<Rightarrow> bool \<times> 'a option alloc) \<Rightarrow> 'a xlist \<Rightarrow> 'a option list \<Rightarrow>
   (int \<times> 'a option list \<times> 'a xlist) option" where
  "list_add_strdup_multi env self strs =
     do { let entry_count = count self;
          (rv, self) \<leftarrow> strdup_loop env 0 self strs;
          if rv = 0 then do { (freed, self) \<leftarrow> remove_down_to self entry_count; Some (0, freed, self) }
          else Some (rv, [], self) }"

fun append_loop ::
  "(nat \<Rightarrow> bool \<times> 'a option alloc) \<Rightarrow> 'a xlist \<Rightarrow> 'a xlist \<Rightarrow> nat \<Rightarrow> nat \<Rightarrow> (int \<times> 'a xlist) option" where
  "append_loop env self d index 0 = Some (1, d)"
| "append_loop env self d index (Suc n) =
     do { item \<leftarrow> list_get_item self (int index);
          (rv, d) \<leftarrow> list_add_strdup (env index) d item;
          if rv = 0 then Some (0, d) else append_loop env self d (Suc index) n }"

definition list_append_list_strdup ::
  "(nat \<Rightarrow> bool \<times> 'a option alloc) \<Rightarrow> 'a xlist \<Rightarrow> 'a xlist \<Rightarrow> nat \<Rightarrow>
   (int \<times> 'a option list \<times> 'a xlist) option" where
  "list_append_list_strdup env self d start_index =
     do { let entry_dest_count = count d;
          (rv, d) \<leftarrow> append_loop env self d start_index (count self - start_index);
          if rv = 0 then do { (freed, d) \<leftarrow> remove_down_to d entry_dest_count; Some (0, freed, d) }
          else Some (rv, [], d) }"


subsection \<open>Splitting a string\<close>

text \<open>
  A C string is its bytes without the terminator. \<^verbatim>\<open>g_strchr\<close> gives the offset of the first
  occurrence; a pointer moved past the terminator is undefined.
\<close>

fun g_strchr_pos :: "byte list \<Rightarrow> byte \<Rightarrow> nat option" where
  "g_strchr_pos [] c = (if c = 0 then Some 0 else None)"
| "g_strchr_pos (b # bs) c = (if b = c then Some 0 else map_option Suc (g_strchr_pos bs c))"

text \<open>The fragment ends at \<^term>\<open>n\<close>, or earlier at an unexpected terminator.\<close>

definition split_string_append_fragment ::
  "bool \<times> byte list option alloc \<Rightarrow> byte list \<Rightarrow> nat \<Rightarrow> byte list xlist \<Rightarrow>
   (int \<times> byte list \<times> byte list option list \<times> byte list xlist) option" where
  "split_string_append_fragment env start n l =
     (let frag = takeWhile (\<lambda>b. b \<noteq> 0) (take n start) in
      if \<not> fst env
      then do { freed \<leftarrow> list_delete (Some l); Some (0, start, freed, l) }
      else do { (rv, l) \<leftarrow> list_add_item (snd env) l (Some frag);
                if rv = 0
                then do { freed \<leftarrow> list_delete (Some l); Some (0, start, Some frag # freed, l) }
                else Some (1, drop (length frag + 1) start, [], l) })"

text \<open>The result is the list, or NULL and the items freed on the way out.\<close>

function split_loop ::
  "(nat \<Rightarrow> bool \<times> byte list option alloc) \<Rightarrow> nat \<Rightarrow> byte list \<Rightarrow> byte \<Rightarrow> byte list xlist \<Rightarrow>
   (byte list option list \<times> byte list xlist option) option" where
  "split_loop env k str c l =
     (case g_strchr_pos str c of
        Some n \<Rightarrow>
          if n \<ge> length str then None
          else (case split_string_append_fragment (env k) str n l of
                  None \<Rightarrow> None
                | Some (rv, str', freed, l) \<Rightarrow>
                    if rv = 0 then Some (freed, None)
                    else if length str' < length str then split_loop env (Suc k) str' c l else None)
      | None \<Rightarrow>
          if str \<noteq> []
          then (case split_string_append_fragment (env k) str (length str) l of
                  None \<Rightarrow> None
                | Some (rv, str', freed, l) \<Rightarrow> Some (freed, if rv = 0 then None else Some l))
          else Some ([], Some l))"
  by pat_completeness auto
termination by (relation "measure (\<lambda>(env, k, str, c, l). length str)") auto

declare split_loop.simps [simp del]

definition split_string_into_list ::
  "bool \<Rightarrow> byte list option alloc \<Rightarrow> (nat \<Rightarrow> bool \<times> byte list option alloc) \<Rightarrow>
   byte list option \<Rightarrow> byte \<Rightarrow> (byte list option list \<times> byte list xlist option) option" where
  "split_string_into_list ok mem env str c =
     (case list_create ok mem of
        None \<Rightarrow> Some ([], None)
      | Some l \<Rightarrow>
          (let l = l\<lparr>auto_free := True\<rparr> in
           case str of None \<Rightarrow> Some ([], Some l) | Some s \<Rightarrow> split_loop env 0 s c l))"

subsection \<open>Lists of 16-bit values\<close>

text \<open>
  \<^verbatim>\<open>items\<close> points to the embedded array \<^verbatim>\<open>mitems\<close> of four values until the first growth.
\<close>

record list16 =
  mitems :: "16 word list"
  dyn_items :: "16 word list option"
  count16 :: nat
  max_count16 :: nat

definition items16 :: "list16 \<Rightarrow> 16 word list" where
  "items16 l = (case dyn_items l of None \<Rightarrow> mitems l | Some its \<Rightarrow> its)"

definition set_items16 :: "16 word list \<Rightarrow> list16 \<Rightarrow> list16" where
  "set_items16 its l = (case dyn_items l of None \<Rightarrow> l\<lparr>mitems := its\<rparr> | Some _ \<Rightarrow> l\<lparr>dyn_items := Some its\<rparr>)"

definition list16_init :: list16 where
  "list16_init = \<lparr>mitems = [0, 0, 0, 0], dyn_items = None, count16 = 0, max_count16 = 4\<rparr>"

definition list16_deinit :: "list16 \<Rightarrow> list16" where
  "list16_deinit l = l\<lparr>dyn_items := None\<rparr>"

definition expand_array :: "16 word alloc \<Rightarrow> list16 \<Rightarrow> (int \<times> list16) option" where
  "expand_array mem l =
     (let new_max_count = max_count16 l + 4 in
      if \<not> fst mem then Some (0, l)
      else if max_count16 l > length (items16 l) then None
      else Some (1, l\<lparr>dyn_items := Some (take (max_count16 l) (items16 l) @ replicate 4 0),
                      max_count16 := new_max_count\<rparr>))"

definition list16_room :: "16 word alloc \<Rightarrow> list16 \<Rightarrow> (int \<times> list16) option" where
  "list16_room mem l = (if count16 l \<ge> max_count16 l then expand_array mem l else Some (1, l))"

definition list16_add_item :: "16 word alloc \<Rightarrow> list16 \<Rightarrow> 16 word \<Rightarrow> (int \<times> list16) option" where
  "list16_add_item mem l item =
     do { (ok, l) \<leftarrow> list16_room mem l;
          if ok = 0 then Some (0, l)
          else do { its \<leftarrow> list_set (items16 l) (count16 l) item;
                    Some (1, (set_items16 its l)\<lparr>count16 := count16 l + 1\<rparr>) } }"

definition list16_get_item :: "list16 \<Rightarrow> int \<Rightarrow> 16 word option" where
  "list16_get_item l index =
     (if index < 0 \<or> index \<ge> int (count16 l) then Some 0 else list_get (items16 l) (nat index))"

definition list16_clear :: "list16 \<Rightarrow> list16" where
  "list16_clear l = l\<lparr>dyn_items := None, count16 := 0, max_count16 := 4\<rparr>"

definition list16_index_of :: "list16 \<Rightarrow> 16 word \<Rightarrow> int option" where
  "list16_index_of l item = index_loop (items16 l) 0 (count16 l) item"

definition list16_remove_item :: "list16 \<Rightarrow> int \<Rightarrow> list16 option" where
  "list16_remove_item l index =
     (if index \<ge> 0 \<and> index < int (count16 l) then
        do { its \<leftarrow> shift_down (items16 l) (nat index) (count16 l - 1 - nat index);
             Some ((set_items16 its l)\<lparr>count16 := count16 l - 1\<rparr>) }
      else Some l)"

text \<open>
  The index is not limited to the used part, unlike \<^verbatim>\<open>list_insert_item\<close>: an index past the
  end writes there, and a negative one is outside the array.
\<close>

definition list16_insert_item :: "16 word alloc \<Rightarrow> list16 \<Rightarrow> int \<Rightarrow> 16 word \<Rightarrow> (int \<times> list16) option" where
  "list16_insert_item mem l index item =
     do { (ok, l) \<leftarrow> list16_room mem l;
          if ok = 0 then Some (0, l)
          else if index < 0 then None
          else do { its \<leftarrow> (if index < int (count16 l)
                           then if count16 l < length (items16 l)
                                then Some (take (nat index) (items16 l) @ [items16 l ! nat index] @
                                           drop (nat index) (take (count16 l) (items16 l)) @
                                           drop (count16 l + 1) (items16 l))
                                else None
                           else Some (items16 l));
                    its \<leftarrow> list_set its (nat index) item;
                    Some (1, (set_items16 its l)\<lparr>count16 := count16 l + 1\<rparr>) } }"

end
