(* ===== verification/List_Contract.thy ===== *)
theory List_Contract
  imports Item_List
begin

text \<open>
  The contract shared by \<^verbatim>\<open>list.c\<close> and \<^verbatim>\<open>list16.c\<close> as a locale, its interpretation on both,
  and the properties of string lists and splitting.
\<close>

subsection \<open>The array loops\<close>

lemma shift_down_eq:
  "i + n < length its \<Longrightarrow>
     shift_down its i n = Some (take i its @ take n (drop (Suc i) its) @ drop (i + n) its)"
proof (induction n arbitrary: its i)
  case (Suc n)
  let ?its = "its[i := its ! (i + 1)]"
  have "shift_down its i (Suc n) = shift_down ?its (Suc i) n"
    using Suc.prems by simp
  also have "\<dots> = Some (take (Suc i) ?its @ take n (drop (Suc (Suc i)) ?its) @ drop (Suc i + n) ?its)"
    using Suc.prems by (intro Suc.IH) simp_all
  also have "take (Suc i) ?its = take i its @ [its ! Suc i]"
    using Suc.prems by (simp add: take_Suc_update)
  finally show ?case
    using Suc.prems by (simp add: take_Suc_conv_app_nth Cons_nth_drop_Suc [symmetric, of "Suc i" its])
qed simp

lemma shift_up_eq:
  "i < length its \<Longrightarrow> n \<le> i \<Longrightarrow>
     shift_up its i n = Some (take (i - n) its @ its ! (i - n) # take n (drop (i - n) its) @ drop (Suc i) its)"
proof (induction n arbitrary: its i)
  case 0
  then show ?case by (simp add: id_take_nth_drop [symmetric])
next
  case (Suc n)
  then obtain i' where i': "i = Suc i'" by (cases i) auto
  let ?its = "its[i := its ! i']"
  have "shift_up its i (Suc n) = shift_up ?its i' n"
    using Suc.prems i' by simp
  also have "\<dots> = Some (take (i' - n) ?its @ ?its ! (i' - n) # take n (drop (i' - n) ?its) @ drop (Suc i') ?its)"
    using Suc.prems i' by (intro Suc.IH) simp_all
  also have "drop (Suc i') ?its = its ! i' # drop (Suc i) its"
    using Suc.prems i' by (simp add: Cons_nth_drop_Suc [symmetric])
  also have "take n (drop (i' - n) ?its) = take n (drop (i' - n) its)"
    using Suc.prems i' by (simp add: drop_update_swap take_update_cancel)
  finally show ?case
    using Suc.prems i' by (simp add: take_Suc_conv_app_nth)
qed

lemma index_loop_eq:
  "i + n \<le> length its \<Longrightarrow>
     index_loop its i n x = Some (if x \<in> set (take n (drop i its))
        then int (i + length (takeWhile (\<lambda>y. y \<noteq> x) (take n (drop i its)))) else - 1)"
proof (induction its i n x rule: index_loop.induct)
  case (2 its i n x)
  then have "take (Suc n) (drop i its) = its ! i # take n (drop (Suc i) its)"
    by (simp add: Cons_nth_drop_Suc [symmetric])
  with 2 show ?case by auto
qed simp

lemma free_items_eq:
  "i + n \<le> length its \<Longrightarrow>
     \<exists>its'. free_items i its n = Some (take n (drop i its), its') \<and> length its' = length its"
proof (induction n arbitrary: its i)
  case (Suc n)
  then have d: "take (Suc n) (drop i its) = its ! i # take n (drop (Suc i) its)"
    by (simp add: Cons_nth_drop_Suc [symmetric])
  obtain its' where "free_items (Suc i) (its[i := None]) n = Some (take n (drop (Suc i) its), its')"
    "length its' = length its"
    using Suc.IH [of "Suc i" "its[i := None]"] Suc.prems by auto
  with d Suc.prems show ?case by simp
qed simp


subsection \<open>Invariants and contents\<close>

definition xlist_inv :: "'a xlist \<Rightarrow> bool" where
  "xlist_inv l \<longleftrightarrow> length (items l) = alloc_size l \<and> count l \<le> alloc_size l \<and> 0 < grow_by l"

definition xlist_contents :: "'a xlist \<Rightarrow> 'a option list" where
  "xlist_contents l = take (count l) (items l)"

definition list16_inv :: "list16 \<Rightarrow> bool" where
  "list16_inv l \<longleftrightarrow> length (mitems l) = 4 \<and> length (items16 l) = max_count16 l \<and>
     count16 l \<le> max_count16 l \<and> 4 \<le> max_count16 l"

definition list16_contents :: "list16 \<Rightarrow> 16 word list" where
  "list16_contents l = take (count16 l) (items16 l)"

lemma length_xlist_contents [simp]: "xlist_inv l \<Longrightarrow> length (xlist_contents l) = count l"
  by (simp add: xlist_inv_def xlist_contents_def)

lemma length_list16_contents [simp]: "list16_inv l \<Longrightarrow> length (list16_contents l) = count16 l"
  by (simp add: list16_inv_def list16_contents_def)

text \<open>Room for one more item.\<close>

lemma grow_cases:
  assumes "xlist_inv l"
  obtains ok l' where "(if count l = alloc_size l then grow_list mem l else (1, l)) = (ok, l')"
    "ok = 0 \<and> l' = l \<and> \<not> fst mem \<or>
     ok = 1 \<and> xlist_inv l' \<and> count l' = count l \<and> count l < alloc_size l' \<and> auto_free l' = auto_free l \<and>
       xlist_contents l' = xlist_contents l"
proof (cases "count l = alloc_size l \<and> \<not> fst mem")
  case True
  then show thesis by (intro that [of 0 l]) (simp_all add: grow_list_def)
next
  case False
  show thesis
  proof (cases "count l = alloc_size l")
    case True
    with False assms show thesis
      by (intro that [of 1 "snd (grow_list mem l)"])
        (auto simp: grow_list_def Let_def xlist_inv_def xlist_contents_def)
  next
    case False
    with assms show thesis
      by (intro that [of 1 l]) (auto simp: xlist_inv_def)
  qed
qed

lemma list_add_item_ok:
  assumes "xlist_inv l"
  shows "\<exists>rv l'. list_add_item mem l x = Some (rv, l') \<and> xlist_inv l' \<and> auto_free l' = auto_free l \<and>
     xlist_contents l' = (if rv = 0 then xlist_contents l else xlist_contents l @ [x]) \<and>
     (fst mem \<longrightarrow> rv = 1) \<and> (rv = 0 \<or> rv = 1)"
proof -
  obtain ok l1 where g: "(if count l = alloc_size l then grow_list mem l else (1, l)) = (ok, l1)"
    and cases: "ok = 0 \<and> l1 = l \<and> \<not> fst mem \<or>
     ok = 1 \<and> xlist_inv l1 \<and> count l1 = count l \<and> count l < alloc_size l1 \<and> auto_free l1 = auto_free l \<and>
       xlist_contents l1 = xlist_contents l"
    using grow_cases [OF assms] .
  from cases show ?thesis
  proof (elim disjE conjE)
    assume "ok = 0" "l1 = l" "\<not> fst mem"
    with g assms show ?thesis by (simp add: list_add_item_def)
  next
    assume ok: "ok = 1" "xlist_inv l1" "count l1 = count l" "count l < alloc_size l1"
      "auto_free l1 = auto_free l" "xlist_contents l1 = xlist_contents l"
    let ?l = "l1\<lparr>items := (items l1)[count l1 := x], count := count l1 + 1\<rparr>"
    have "xlist_contents ?l = xlist_contents l1 @ [x]" "xlist_inv ?l"
      using ok by (simp_all add: xlist_contents_def xlist_inv_def take_Suc_update)
    with g ok show ?thesis
      by (intro exI [of _ 1] exI [of _ ?l]) (simp add: list_add_item_def xlist_inv_def)
  qed
qed

lemma list_insert_item_ok:
  assumes "xlist_inv l" and "0 \<le> i" and "i \<le> int (count l)"
  shows "\<exists>rv l'. list_insert_item mem l i x = Some (rv, l') \<and> xlist_inv l' \<and> auto_free l' = auto_free l \<and>
     xlist_contents l' = (if rv = 0 then xlist_contents l
       else take (nat i) (xlist_contents l) @ x # drop (nat i) (xlist_contents l)) \<and>
     (fst mem \<longrightarrow> rv = 1) \<and> (rv = 0 \<or> rv = 1)"
proof -
  obtain ok l1 where g: "(if count l = alloc_size l then grow_list mem l else (1, l)) = (ok, l1)"
    and cases: "ok = 0 \<and> l1 = l \<and> \<not> fst mem \<or>
     ok = 1 \<and> xlist_inv l1 \<and> count l1 = count l \<and> count l < alloc_size l1 \<and> auto_free l1 = auto_free l \<and>
       xlist_contents l1 = xlist_contents l"
    using grow_cases [OF assms(1)] .
  have idx: "(if i > int (count l) then int (count l) else if i < 0 then 0 else i) = i"
    using assms by simp
  from cases show ?thesis
  proof (elim disjE conjE)
    assume "ok = 0" "l1 = l" "\<not> fst mem"
    with g assms idx show ?thesis by (simp add: list_insert_item_def Let_def)
  next
    assume ok: "ok = 1" "xlist_inv l1" "count l1 = count l" "count l < alloc_size l1"
      "auto_free l1 = auto_free l" "xlist_contents l1 = xlist_contents l"
    let ?k = "nat i" and ?n = "count l1"
    have k: "?k \<le> ?n" "?n < length (items l1)" using assms ok by (auto simp: xlist_inv_def)
    let ?s = "take ?k (items l1) @ items l1 ! ?k # take (?n - ?k) (drop ?k (items l1)) @ drop (Suc ?n) (items l1)"
    have sh: "shift_up (items l1) ?n (?n - ?k) = Some ?s"
      using shift_up_eq [OF k(2), of "?n - ?k"] k(1) by simp
    let ?its = "take ?k (items l1) @ x # take (?n - ?k) (drop ?k (items l1)) @ drop (Suc ?n) (items l1)"
    have set: "list_set ?s ?k x = Some ?its"
      using k by (simp add: list_set_def list_update_append)
    let ?l = "l1\<lparr>items := ?its, count := ?n + 1\<rparr>"
    have "take (Suc ?n) ?its = take ?k (items l1) @ x # take (?n - ?k) (drop ?k (items l1))"
      using k by (simp add: Suc_diff_le)
    then have "xlist_contents ?l = take ?k (xlist_contents l1) @ x # drop ?k (xlist_contents l1)"
      using k by (simp add: xlist_contents_def drop_take)
    moreover have "xlist_inv ?l"
      using ok k by (auto simp: xlist_inv_def)
    moreover have "list_insert_item mem l i x = Some (1, ?l)"
      using g ok idx sh set unfolding list_insert_item_def Let_def
      by simp
    ultimately show ?thesis using ok by (intro exI [of _ 1] exI [of _ ?l]) simp
  qed
qed

lemma remove_shift:
  assumes "i < n" and "n \<le> length its"
  shows "\<exists>its'. shift_down its i (n - 1 - i) = Some its' \<and> length its' = length its \<and>
           take (n - 1) its' = take i its @ drop (Suc i) (take n its)"
proof -
  let ?r = "take i its @ take (n - 1 - i) (drop (Suc i) its) @ drop (i + (n - 1 - i)) its"
  have "shift_down its i (n - 1 - i) = Some ?r"
    using assms by (intro shift_down_eq) simp
  moreover have "length ?r = length its" "take (n - 1) ?r = take i its @ drop (Suc i) (take n its)"
    using assms by (simp_all add: drop_take)
  ultimately show ?thesis by blast
qed

lemma list_remove_item_ok:
  assumes "xlist_inv l"
  shows "\<exists>freed l'. list_remove_item l i = Some (freed, l') \<and> xlist_inv l' \<and> auto_free l' = auto_free l \<and>
     (if 0 \<le> i \<and> i < int (count l)
      then xlist_contents l' = take (nat i) (xlist_contents l) @ drop (Suc (nat i)) (xlist_contents l) \<and>
           freed = (if auto_free l then [xlist_contents l ! nat i] else []) \<and> count l' = count l - 1
      else l' = l \<and> freed = [])"
proof (cases "0 \<le> i \<and> i < int (count l)")
  case False
  with assms show ?thesis by (auto simp: list_remove_item_def)
next
  case True
  let ?k = "nat i"
  let ?its = "if auto_free l then (items l)[?k := None] else items l"
  have k: "?k < count l" "count l \<le> length ?its"
    using True assms by (auto simp: xlist_inv_def)
  obtain its' where its': "shift_down ?its ?k (count l - 1 - ?k) = Some its'" "length its' = length ?its"
    "take (count l - 1) its' = take ?k ?its @ drop (Suc ?k) (take (count l) ?its)"
    using remove_shift [OF k] by blast
  have eq: "take ?k ?its @ drop (Suc ?k) (take (count l) ?its) =
      take ?k (xlist_contents l) @ drop (Suc ?k) (xlist_contents l)"
    using k by (simp add: xlist_contents_def drop_take drop_update_cancel)
  let ?l = "l\<lparr>items := its', count := count l - 1\<rparr>"
  have "list_remove_item l i = Some (if auto_free l then [items l ! ?k] else [], ?l)"
    using True k its'(1) assms by (auto simp: list_remove_item_def Let_def xlist_inv_def)
  moreover have "xlist_contents ?l = take ?k (xlist_contents l) @ drop (Suc ?k) (xlist_contents l)"
    using its'(3) eq by (simp add: xlist_contents_def)
  moreover have "xlist_inv ?l" using assms its'(2) by (auto simp: xlist_inv_def)
  moreover have "xlist_contents l ! ?k = items l ! ?k" using k by (simp add: xlist_contents_def)
  ultimately show ?thesis using True by auto
qed


lemma length_items16_set [simp]:
  "items16 (set_items16 its l) = its" "count16 (set_items16 its l) = count16 l"
  "max_count16 (set_items16 its l) = max_count16 l" "items16 (l\<lparr>count16 := n\<rparr>) = items16 l"
  by (auto simp: items16_def set_items16_def split: option.splits)

lemma list16_inv_set:
  "list16_inv l \<Longrightarrow> length its = length (items16 l) \<Longrightarrow> n \<le> max_count16 l \<Longrightarrow>
     list16_inv ((set_items16 its l)\<lparr>count16 := n\<rparr>)"
  by (auto simp: list16_inv_def items16_def set_items16_def split: option.splits)

lemma list16_room_cases:
  assumes "list16_inv l"
  obtains ok l' where "list16_room mem l = Some (ok, l')"
    "ok = 0 \<and> l' = l \<and> \<not> fst mem \<or>
     ok = 1 \<and> list16_inv l' \<and> count16 l' = count16 l \<and> count16 l < max_count16 l' \<and>
       list16_contents l' = list16_contents l"
proof (cases "count16 l \<ge> max_count16 l")
  case True
  with assms have eq: "count16 l = max_count16 l" by (simp add: list16_inv_def)
  show thesis
  proof (cases "fst mem")
    case False
    with True show thesis by (intro that [of 0 l]) (simp_all add: list16_room_def expand_array_def)
  next
    case mem: True
    let ?l = "l\<lparr>dyn_items := Some (items16 l @ replicate 4 0), max_count16 := max_count16 l + 4\<rparr>"
    have "list16_room mem l = Some (1, ?l)"
      using mem eq assms by (simp add: list16_room_def expand_array_def list16_inv_def)
    moreover have "list16_inv ?l" "list16_contents ?l = list16_contents l"
      using assms eq by (auto simp: list16_inv_def list16_contents_def items16_def)
    ultimately show thesis using eq by (intro that [of 1 ?l]) auto
  qed
next
  case False
  with assms show thesis by (intro that [of 1 l]) (auto simp: list16_room_def)
qed

lemma list16_add_item_ok:
  assumes "list16_inv l"
  shows "\<exists>rv l'. list16_add_item mem l x = Some (rv, l') \<and> list16_inv l' \<and>
     list16_contents l' = (if rv = 0 then list16_contents l else list16_contents l @ [x]) \<and>
     (fst mem \<longrightarrow> rv = 1) \<and> (rv = 0 \<or> rv = 1)"
proof -
  obtain ok l1 where g: "list16_room mem l = Some (ok, l1)"
    and cases: "ok = 0 \<and> l1 = l \<and> \<not> fst mem \<or>
     ok = 1 \<and> list16_inv l1 \<and> count16 l1 = count16 l \<and> count16 l < max_count16 l1 \<and>
       list16_contents l1 = list16_contents l"
    using list16_room_cases [OF assms] .
  from cases show ?thesis
  proof (elim disjE conjE)
    assume "ok = 0" "l1 = l" "\<not> fst mem"
    with g assms show ?thesis by (simp add: list16_add_item_def)
  next
    assume ok: "ok = 1" "list16_inv l1" "count16 l1 = count16 l" "count16 l < max_count16 l1"
      "list16_contents l1 = list16_contents l"
    let ?its = "(items16 l1)[count16 l1 := x]"
    let ?l = "(set_items16 ?its l1)\<lparr>count16 := count16 l1 + 1\<rparr>"
    have n: "count16 l1 < length (items16 l1)" using ok by (simp add: list16_inv_def)
    have "list16_contents ?l = list16_contents l1 @ [x]"
      using n by (simp add: list16_contents_def take_Suc_update)
    moreover have "list16_inv ?l" using ok by (intro list16_inv_set) simp_all
    ultimately show ?thesis
      using g ok n by (intro exI [of _ 1] exI [of _ ?l]) (simp add: list16_add_item_def)
  qed
qed

lemma list16_insert_item_ok:
  assumes "list16_inv l" and "0 \<le> i" and "i \<le> int (count16 l)"
  shows "\<exists>rv l'. list16_insert_item mem l i x = Some (rv, l') \<and> list16_inv l' \<and>
     list16_contents l' = (if rv = 0 then list16_contents l
       else take (nat i) (list16_contents l) @ x # drop (nat i) (list16_contents l)) \<and>
     (fst mem \<longrightarrow> rv = 1) \<and> (rv = 0 \<or> rv = 1)"
proof -
  obtain ok l1 where g: "list16_room mem l = Some (ok, l1)"
    and cases: "ok = 0 \<and> l1 = l \<and> \<not> fst mem \<or>
     ok = 1 \<and> list16_inv l1 \<and> count16 l1 = count16 l \<and> count16 l < max_count16 l1 \<and>
       list16_contents l1 = list16_contents l"
    using list16_room_cases [OF assms(1)] .
  from cases show ?thesis
  proof (elim disjE conjE)
    assume "ok = 0" "l1 = l" "\<not> fst mem"
    with g assms show ?thesis by (simp add: list16_insert_item_def)
  next
    assume ok: "ok = 1" "list16_inv l1" "count16 l1 = count16 l" "count16 l < max_count16 l1"
      "list16_contents l1 = list16_contents l"
    let ?k = "nat i" and ?n = "count16 l1" and ?its = "items16 l1"
    have k: "?k \<le> ?n" "?n < length ?its" using assms ok by (auto simp: list16_inv_def)
    let ?m = "if i < int ?n then take ?k ?its @ [?its ! ?k] @ drop ?k (take ?n ?its) @ drop (?n + 1) ?its else ?its"
    have len: "length ?m = length ?its" using k by auto
    have res: "take (Suc ?n) (?m[?k := x]) = take ?k (take ?n ?its) @ x # drop ?k (take ?n ?its)"
    proof (cases "i < int ?n")
      case True
      then have "?k < ?n" using assms(2) by simp
      with True k show ?thesis by (simp add: list_update_append Suc_diff_le)
    next
      case False
      then have "?k = ?n" using assms k by auto
      with False k show ?thesis by (simp add: take_Suc_update)
    qed
    let ?l = "(set_items16 (?m[?k := x]) l1)\<lparr>count16 := ?n + 1\<rparr>"
    have "list16_insert_item mem l i x = Some (1, ?l)"
      using g ok k len assms(2) le_less_trans [OF k] by (auto simp: list16_insert_item_def list_set_def)
    moreover have "list16_inv ?l" using ok len by (intro list16_inv_set) simp_all
    moreover have "list16_contents ?l = take ?k (list16_contents l1) @ x # drop ?k (list16_contents l1)"
      using res by (simp add: list16_contents_def)
    ultimately show ?thesis using ok(5) by (intro exI [of _ 1] exI [of _ ?l]) simp
  qed
qed

lemma list16_remove_item_ok:
  assumes "list16_inv l"
  shows "\<exists>l'. list16_remove_item l i = Some l' \<and> list16_inv l' \<and>
     (if 0 \<le> i \<and> i < int (count16 l)
      then list16_contents l' = take (nat i) (list16_contents l) @ drop (Suc (nat i)) (list16_contents l)
      else l' = l)"
proof (cases "0 \<le> i \<and> i < int (count16 l)")
  case False
  with assms show ?thesis by (auto simp: list16_remove_item_def)
next
  case True
  let ?k = "nat i"
  have k: "?k < count16 l" "count16 l \<le> length (items16 l)"
    using True assms by (auto simp: list16_inv_def)
  obtain its' where its': "shift_down (items16 l) ?k (count16 l - 1 - ?k) = Some its'" "length its' = length (items16 l)"
    "take (count16 l - 1) its' = take ?k (items16 l) @ drop (Suc ?k) (take (count16 l) (items16 l))"
    using remove_shift [OF k] by blast
  let ?l = "(set_items16 its' l)\<lparr>count16 := count16 l - 1\<rparr>"
  have "list16_remove_item l i = Some ?l"
    using True its'(1) by (simp add: list16_remove_item_def)
  moreover have "list16_inv ?l"
    using assms its'(2) by (intro list16_inv_set) (auto simp: list16_inv_def)
  moreover have "list16_contents ?l = take ?k (list16_contents l) @ drop (Suc ?k) (list16_contents l)"
    using its'(3) k by (simp add: list16_contents_def)
  ultimately show ?thesis using True by auto
qed


subsection \<open>The contract of an indexed list\<close>

lemma remove1_take_drop:
  "x \<in> set xs \<Longrightarrow> remove1 x xs = take (length (takeWhile (\<lambda>y. y \<noteq> x) xs)) xs @
     drop (Suc (length (takeWhile (\<lambda>y. y \<noteq> x) xs))) xs"
  by (induction xs) auto

lemma takeWhile_found: "x \<in> set xs \<Longrightarrow> length (takeWhile (\<lambda>y. y \<noteq> x) xs) < length xs"
  by (induction xs) auto

locale indexed_list =
  fixes inv :: "'l \<Rightarrow> bool"
    and contents :: "'l \<Rightarrow> 'a list"
    and add :: "'m \<Rightarrow> 'l \<Rightarrow> 'a \<Rightarrow> (int \<times> 'l) option"
    and insert :: "'m \<Rightarrow> 'l \<Rightarrow> int \<Rightarrow> 'a \<Rightarrow> (int \<times> 'l) option"
    and remove :: "'l \<Rightarrow> int \<Rightarrow> 'l option"
    and index_of :: "'l \<Rightarrow> 'a \<Rightarrow> int option"
  assumes add_result: "inv l \<Longrightarrow> \<exists>rv l'. add m l x = Some (rv, l') \<and> inv l' \<and>
      contents l' = (if rv = 0 then contents l else contents l @ [x])"
    and insert_result: "inv l \<Longrightarrow> 0 \<le> i \<Longrightarrow> i \<le> int (length (contents l)) \<Longrightarrow>
      \<exists>rv l'. insert m l i x = Some (rv, l') \<and> inv l' \<and>
        contents l' = (if rv = 0 then contents l
          else take (nat i) (contents l) @ x # drop (nat i) (contents l))"
    and remove_result: "inv l \<Longrightarrow> \<exists>l'. remove l i = Some l' \<and> inv l' \<and>
      contents l' = (if 0 \<le> i \<and> i < int (length (contents l))
        then take (nat i) (contents l) @ drop (Suc (nat i)) (contents l) else contents l)"
    and index_result: "inv l \<Longrightarrow> index_of l x = Some (if x \<in> set (contents l)
      then int (length (takeWhile (\<lambda>y. y \<noteq> x) (contents l))) else - 1)"
begin

text \<open>Looking an item up and removing what was found removes its first occurrence only.\<close>

lemma remove_found:
  assumes "inv l"
  shows "\<exists>i l'. index_of l x = Some i \<and> remove l i = Some l' \<and> inv l' \<and> contents l' = remove1 x (contents l)"
proof -
  let ?c = "contents l"
  let ?n = "length (takeWhile (\<lambda>y. y \<noteq> x) ?c)"
  show ?thesis
  proof (cases "x \<in> set ?c")
    case False
    obtain l' where "remove l (- 1) = Some l'" "inv l'" "contents l' = ?c"
      using remove_result [OF assms, of "- 1"] by auto
    with False index_result [OF assms, of x] show ?thesis by (simp add: remove1_idem)
  next
    case True
    have n: "?n < length ?c"
      using True by (rule takeWhile_found)
    obtain l' where l': "remove l (int ?n) = Some l'" "inv l'"
      "contents l' = take ?n ?c @ drop (Suc ?n) ?c"
      using remove_result [OF assms, of "int ?n"] n by auto
    have "remove1 x ?c = take ?n ?c @ drop (Suc ?n) ?c"
      using True by (rule remove1_take_drop)
    with True l' index_result [OF assms, of x] show ?thesis by auto
  qed
qed

text \<open>An insertion is undone by removing at the same index.\<close>

lemma insert_remove:
  assumes "inv l" "0 \<le> i" "i \<le> int (length (contents l))" "insert m l i x = Some (1, l1)"
  shows "\<exists>l2. remove l1 i = Some l2 \<and> contents l2 = contents l"
proof -
  have l1: "inv l1" "contents l1 = take (nat i) (contents l) @ x # drop (nat i) (contents l)"
    using insert_result [OF assms(1-3), of m x] assms(4) by auto
  moreover have "nat i \<le> length (contents l)" using assms(3) by simp
  moreover have "i < int (length (contents l1))" using assms(3) l1(2) by simp
  moreover have "drop (Suc (nat i)) (take (nat i) (contents l) @ x # drop (nat i) (contents l)) = drop (nat i) (contents l)"
    using assms(3) by simp
  ultimately show ?thesis
    using remove_result [OF l1(1), of i] assms(2) by auto
qed

end

definition list_remove :: "'a xlist \<Rightarrow> int \<Rightarrow> 'a xlist option" where
  "list_remove l i = map_option snd (list_remove_item l i)"


lemma list_index_of_ok:
  "xlist_inv l \<Longrightarrow> list_index_of l x = Some (if x \<in> set (xlist_contents l)
     then int (length (takeWhile (\<lambda>y. y \<noteq> x) (xlist_contents l))) else - 1)"
  using index_loop_eq [of 0 "count l" "items l" x]
  by (simp add: list_index_of_def xlist_inv_def xlist_contents_def)

lemma list16_index_of_ok:
  "list16_inv l \<Longrightarrow> list16_index_of l x = Some (if x \<in> set (list16_contents l)
     then int (length (takeWhile (\<lambda>y. y \<noteq> x) (list16_contents l))) else - 1)"
  using index_loop_eq [of 0 "count16 l" "items16 l" x]
  by (simp add: list16_index_of_def list16_inv_def list16_contents_def)

interpretation ptr_list: indexed_list xlist_inv xlist_contents list_add_item list_insert_item list_remove list_index_of
proof unfold_locales
  fix l :: "'a xlist" and m x i
  assume inv: "xlist_inv l"
  show "\<exists>rv l'. list_add_item m l x = Some (rv, l') \<and> xlist_inv l' \<and>
      xlist_contents l' = (if rv = 0 then xlist_contents l else xlist_contents l @ [x])"
    using list_add_item_ok [OF inv, of m x] by blast
  show "\<exists>rv l'. list_insert_item m l i x = Some (rv, l') \<and> xlist_inv l' \<and>
      xlist_contents l' = (if rv = 0 then xlist_contents l
        else take (nat i) (xlist_contents l) @ x # drop (nat i) (xlist_contents l))"
    if "0 \<le> i" "i \<le> int (length (xlist_contents l))"
  proof -
    have "i \<le> int (count l)" using that(2) inv by simp
    from list_insert_item_ok [OF inv that(1) this, of m x] show ?thesis by blast
  qed
  show "\<exists>l'. list_remove l i = Some l' \<and> xlist_inv l' \<and>
      xlist_contents l' = (if 0 \<le> i \<and> i < int (length (xlist_contents l))
        then take (nat i) (xlist_contents l) @ drop (Suc (nat i)) (xlist_contents l) else xlist_contents l)"
    using list_remove_item_ok [OF inv, of i] inv by (auto simp: list_remove_def)
  show "list_index_of l x = Some (if x \<in> set (xlist_contents l)
      then int (length (takeWhile (\<lambda>y. y \<noteq> x) (xlist_contents l))) else - 1)"
    using inv by (rule list_index_of_ok)
qed

interpretation short_list: indexed_list list16_inv list16_contents list16_add_item list16_insert_item
  list16_remove_item list16_index_of
proof unfold_locales
  fix l :: list16 and m x i
  assume inv: "list16_inv l"
  show "\<exists>rv l'. list16_add_item m l x = Some (rv, l') \<and> list16_inv l' \<and>
      list16_contents l' = (if rv = 0 then list16_contents l else list16_contents l @ [x])"
    using list16_add_item_ok [OF inv, of m x] by blast
  show "\<exists>rv l'. list16_insert_item m l i x = Some (rv, l') \<and> list16_inv l' \<and>
      list16_contents l' = (if rv = 0 then list16_contents l
        else take (nat i) (list16_contents l) @ x # drop (nat i) (list16_contents l))"
    if "0 \<le> i" "i \<le> int (length (list16_contents l))"
  proof -
    have "i \<le> int (count16 l)" using that(2) inv by simp
    from list16_insert_item_ok [OF inv that(1) this, of m x] show ?thesis by blast
  qed
  show "\<exists>l'. list16_remove_item l i = Some l' \<and> list16_inv l' \<and>
      list16_contents l' = (if 0 \<le> i \<and> i < int (length (list16_contents l))
        then take (nat i) (list16_contents l) @ drop (Suc (nat i)) (list16_contents l) else list16_contents l)"
    using list16_remove_item_ok [OF inv, of i] inv by auto
  show "list16_index_of l x = Some (if x \<in> set (list16_contents l)
      then int (length (takeWhile (\<lambda>y. y \<noteq> x) (list16_contents l))) else - 1)"
    using inv by (rule list16_index_of_ok)
qed

subsection \<open>String lists\<close>

lemma list_add_strdup_ok:
  assumes "xlist_inv l"
  shows "\<exists>rv l'. list_add_strdup env l s = Some (rv, l') \<and> xlist_inv l' \<and> auto_free l' = auto_free l \<and>
     xlist_contents l' = (if rv = 0 then xlist_contents l else xlist_contents l @ [s]) \<and>
     (fst env \<and> fst (snd env) \<longrightarrow> rv = 1) \<and> (rv = 0 \<or> rv = 1)"
proof (cases "s \<noteq> None \<and> \<not> fst env")
  case True
  with assms show ?thesis by (auto simp: list_add_strdup_def)
next
  case False
  then have "list_add_strdup env l s = list_add_item (snd env) l s"
    by (auto simp: list_add_strdup_def)
  with list_add_item_ok [OF assms, of "snd env" s] show ?thesis by metis
qed

lemma strdup_loop_ok:
  "xlist_inv l \<Longrightarrow> \<exists>rv l' n. strdup_loop env k l ss = Some (rv, l') \<and> xlist_inv l' \<and> auto_free l' = auto_free l \<and>
     xlist_contents l' = xlist_contents l @ take n ss \<and> n \<le> length ss \<and>
     (rv = 0 \<or> rv = 1 \<and> n = length ss) \<and> ((\<forall>i. fst (env i) \<and> fst (snd (env i))) \<longrightarrow> rv = 1)"
proof (induction ss arbitrary: k l)
  case Nil
  then show ?case by auto
next
  case (Cons s ss)
  obtain rv l1 where add: "list_add_strdup (env k) l s = Some (rv, l1)" "xlist_inv l1"
    "auto_free l1 = auto_free l"
    "xlist_contents l1 = (if rv = 0 then xlist_contents l else xlist_contents l @ [s])"
    "fst (env k) \<and> fst (snd (env k)) \<longrightarrow> rv = 1" "rv = 0 \<or> rv = 1"
    using list_add_strdup_ok [OF Cons.prems] by blast
  show ?case
  proof (cases "rv = 0")
    case True
    with add show ?thesis by (intro exI [of _ 0] exI [of _ l1] exI [of _ 0]) auto
  next
    case False
    obtain rv' l2 n where rec: "strdup_loop env (Suc k) l1 ss = Some (rv', l2)" "xlist_inv l2"
      "auto_free l2 = auto_free l1" "xlist_contents l2 = xlist_contents l1 @ take n ss" "n \<le> length ss"
      "rv' = 0 \<or> rv' = 1 \<and> n = length ss" "(\<forall>i. fst (env i) \<and> fst (snd (env i))) \<longrightarrow> rv' = 1"
      using Cons.IH [OF add(2)] by blast
    with add False show ?thesis
      by (intro exI [of _ rv'] exI [of _ l2] exI [of _ "Suc n"]) auto
  qed
qed

lemma remove_down_to_ok:
  "xlist_inv l \<Longrightarrow> n \<le> count l \<Longrightarrow>
     \<exists>l'. remove_down_to l n = Some (if auto_free l then rev (drop n (xlist_contents l)) else [], l') \<and>
       xlist_inv l' \<and> auto_free l' = auto_free l \<and> xlist_contents l' = take n (xlist_contents l)"
proof (induction "count l" arbitrary: l)
  case 0
  then show ?case by (subst remove_down_to.simps) (simp add: xlist_contents_def)
next
  case (Suc m)
  show ?case
  proof (cases "n = count l")
    case True
    with Suc.prems show ?thesis by (subst remove_down_to.simps) (simp add: xlist_contents_def)
  next
    case False
    let ?c = "xlist_contents l"
    obtain l1 where rm: "list_remove_item l (int m) = Some (if auto_free l then [?c ! m] else [], l1)"
      "xlist_inv l1" "auto_free l1 = auto_free l" "xlist_contents l1 = take m ?c" "count l1 = m"
      using list_remove_item_ok [OF Suc.prems(1), of "int m"] Suc.hyps(2) Suc.prems(1) by auto
    obtain l' where "remove_down_to l1 n =
        Some (if auto_free l1 then rev (drop n (xlist_contents l1)) else [], l')"
      "xlist_inv l'" "auto_free l' = auto_free l1" "xlist_contents l' = take n (xlist_contents l1)"
      using Suc.hyps(1) [of l1] rm False Suc.prems Suc.hyps(2) by auto
    moreover have "list_remove_item l (int (count l) - 1) = Some (if auto_free l then [?c ! m] else [], l1)"
      using rm(1) Suc.hyps(2) [symmetric] by simp
    moreover have "drop n ?c = drop n (take m ?c) @ [?c ! m]"
    proof -
      have "m < length ?c" "n \<le> m" using Suc.hyps(2) Suc.prems False by simp_all
      then have "?c = take m ?c @ [?c ! m]" "length (take m ?c) = m"
        using Suc.hyps(2) Suc.prems(1) take_Suc_conv_app_nth [of m ?c] by simp_all
      then show ?thesis using \<open>n \<le> m\<close> by (metis diff_is_0_eq drop0 drop_append)
    qed
    ultimately show ?thesis
      using rm(2-) False Suc.prems Suc.hyps(2) by (subst remove_down_to.simps) auto
  qed
qed


lemma append_loop_ok:
  assumes "xlist_inv src"
  shows "xlist_inv d \<Longrightarrow> i + n = count src \<Longrightarrow>
     append_loop env src d i n = strdup_loop (\<lambda>k. env k) i d (drop i (xlist_contents src))"
proof (induction n arbitrary: i d)
  case 0
  then show ?case using assms by simp
next
  case (Suc n)
  have i: "i < count src" "i < length (xlist_contents src)" using Suc.prems assms by simp_all
  then have get: "list_get_item src (int i) = Some (xlist_contents src ! i)"
    using assms by (simp add: list_get_item_def xlist_inv_def xlist_contents_def)
  have d: "drop i (xlist_contents src) = xlist_contents src ! i # drop (Suc i) (xlist_contents src)"
    using i(2) by (simp add: Cons_nth_drop_Suc)
  obtain rv d1 where add: "list_add_strdup (env i) d (xlist_contents src ! i) = Some (rv, d1)" "xlist_inv d1"
    using list_add_strdup_ok [OF Suc.prems(1)] by blast
  show ?case
    using get d add Suc.IH [OF add(2), of "Suc i"] Suc.prems(2) by simp
qed

lemma undo_ok:
  assumes "xlist_inv l" "xlist_inv l1" "auto_free l1 = auto_free l" "xlist_contents l1 = xlist_contents l @ ss"
  shows "\<exists>l2. remove_down_to l1 (count l) = Some (if auto_free l then rev ss else [], l2) \<and> xlist_inv l2 \<and>
      xlist_contents l2 = xlist_contents l"
proof -
  have "length (xlist_contents l1) = count l + length ss" using assms(1,4) by simp
  then have "count l \<le> count l1" using assms(2) by simp
  moreover have "drop (count l) (xlist_contents l1) = ss" "take (count l) (xlist_contents l1) = xlist_contents l"
    using assms(1,4) by simp_all
  ultimately show ?thesis using remove_down_to_ok [OF assms(2), of "count l"] assms(3) by auto
qed

text \<open>
  Adding several strings to a list is all-or-nothing: whichever allocation fails, the list
  has its former contents, and every duplicate already made has been freed if the list owns
  its items; otherwise all strings are appended in order. If no allocation fails, the call
  succeeds.
\<close>

lemma list_add_strdup_multi_atomic:
  assumes "xlist_inv l"
  shows "\<exists>rv freed l' n. list_add_strdup_multi env l strs = Some (rv, freed, l') \<and> xlist_inv l' \<and>
       (if rv = 0 then xlist_contents l' = xlist_contents l \<and>
          freed = (if auto_free l then rev (take n strs) else [])
        else rv = 1 \<and> xlist_contents l' = xlist_contents l @ strs \<and> freed = []) \<and>
       ((\<forall>k. fst (env k) \<and> fst (snd (env k))) \<longrightarrow> rv = 1)"
proof -
  obtain rv l1 n where loop: "strdup_loop env 0 l strs = Some (rv, l1)" "xlist_inv l1" "auto_free l1 = auto_free l"
    "xlist_contents l1 = xlist_contents l @ take n strs"
    "rv = 0 \<or> rv = 1 \<and> n = length strs" "(\<forall>i. fst (env i) \<and> fst (snd (env i))) \<longrightarrow> rv = 1"
    using strdup_loop_ok [OF assms(1), of env 0 strs] by blast
  obtain l2 where undo: "remove_down_to l1 (count l) = Some (if auto_free l then rev (take n strs) else [], l2)"
    "xlist_inv l2" "xlist_contents l2 = xlist_contents l"
    using undo_ok [OF assms loop(2-4)] by blast
  show ?thesis
  proof (cases "rv = 0")
    case True
    with loop undo show ?thesis
      by (intro exI [of _ 0] exI [of _ "if auto_free l then rev (take n strs) else []"] exI [of _ l2] exI [of _ n])
        (auto simp: list_add_strdup_multi_def Let_def)
  next
    case False
    with loop show ?thesis
      by (intro exI [of _ 1] exI [of _ "[]"] exI [of _ l1] exI [of _ n])
        (auto simp: list_add_strdup_multi_def Let_def)
  qed
qed

lemma list_add_strdup_multi_atomic_witness:
  "\<exists>rv freed l' n. list_add_strdup_multi (\<lambda>k. (k < 1, True, \<lambda>i. None))
       \<lparr>items = replicate 10 None, count = 0, alloc_size = 10, grow_by = 10, auto_free = True\<rparr>
       [Some ''a'', Some ''b''] = Some (rv, freed, l') \<and> xlist_inv l' \<and>
     (if rv = 0 then xlist_contents l' =
          xlist_contents \<lparr>items = replicate 10 None, count = 0, alloc_size = 10, grow_by = 10, auto_free = True\<rparr> \<and>
          freed = (if True then rev (take n [Some ''a'', Some ''b'']) else [])
        else rv = 1 \<and> xlist_contents l' =
          xlist_contents \<lparr>items = replicate 10 None, count = 0, alloc_size = 10, grow_by = 10, auto_free = True\<rparr> @
          [Some ''a'', Some ''b''] \<and> freed = [])"
  using list_add_strdup_multi_atomic
    [of "\<lparr>items = replicate 10 None, count = 0, alloc_size = 10, grow_by = 10, auto_free = True\<rparr>"
      "\<lambda>k. (k < 1, True, \<lambda>i. None)" "[Some ''a'', Some ''b'']"]
  by (auto simp: xlist_inv_def)

lemma list_append_list_strdup_ok:
  assumes "xlist_inv l" and "xlist_inv src" and "i \<le> count src"
  shows "\<exists>rv freed l'. list_append_list_strdup env src l i = Some (rv, freed, l') \<and> xlist_inv l' \<and>
       (if rv = 0 then xlist_contents l' = xlist_contents l
        else rv = 1 \<and> xlist_contents l' = xlist_contents l @ drop i (xlist_contents src) \<and> freed = [])"
proof -
  obtain rv l1 n where loop: "strdup_loop env i l (drop i (xlist_contents src)) = Some (rv, l1)" "xlist_inv l1"
    "auto_free l1 = auto_free l"
    "xlist_contents l1 = xlist_contents l @ take n (drop i (xlist_contents src))"
    "rv = 0 \<or> rv = 1 \<and> n = length (drop i (xlist_contents src))"
    using strdup_loop_ok [OF assms(1), of env i "drop i (xlist_contents src)"] by blast
  obtain freed l2 where undo: "remove_down_to l1 (count l) = Some (freed, l2)"
    "xlist_inv l2" "xlist_contents l2 = xlist_contents l"
    using undo_ok [OF assms(1) loop(2-4)] by blast
  have run: "append_loop env src l i (count src - i) = Some (rv, l1)"
    using append_loop_ok [OF assms(2,1), of i "count src - i" env] assms(3) loop(1) by simp
  show ?thesis
    using run loop(2-) undo
    by (cases "rv = 0") (auto simp: list_append_list_strdup_def Let_def)
qed

text \<open>
  Lists of pointers and lists of 16-bit values agree on the index operations: looking an
  item up and removing what was found removes exactly its first occurrence, and leaves the list
  as it was when there is none.
\<close>

lemma list_remove_found:
  assumes "xlist_inv l" and "list16_inv s"
  shows "(\<exists>i l'. list_index_of l x = Some i \<and> list_remove l i = Some l' \<and> xlist_inv l' \<and>
           xlist_contents l' = remove1 x (xlist_contents l)) \<and>
         (\<exists>i s'. list16_index_of s w = Some i \<and> list16_remove_item s i = Some s' \<and> list16_inv s' \<and>
           list16_contents s' = remove1 w (list16_contents s))"
  using ptr_list.remove_found [OF assms(1), of x] short_list.remove_found [OF assms(2), of w] by blast

lemma list_remove_found_witness:
  "\<exists>i s'. list16_index_of \<lparr>mitems = [4, 5, 5, 6], dyn_items = None, count16 = 4, max_count16 = 4\<rparr> 5 = Some i \<and>
     list16_remove_item \<lparr>mitems = [4, 5, 5, 6], dyn_items = None, count16 = 4, max_count16 = 4\<rparr> i = Some s' \<and>
     list16_contents s' = [4, 5, 6]"
  using list_remove_found [of "\<lparr>items = [None], count = 1, alloc_size = 1, grow_by = 10, auto_free = False\<rparr>"
      "\<lparr>mitems = [4, 5, 5, 6], dyn_items = None, count16 = 4, max_count16 = 4\<rparr>" None 5]
  by (auto simp: xlist_inv_def list16_inv_def items16_def list16_contents_def)


subsection \<open>Splitting\<close>

text \<open>The reference: the fragments between separators; a separator at the end adds none.\<close>

fun split_on :: "byte \<Rightarrow> byte list \<Rightarrow> byte list list" where
  "split_on c [] = []"
| "split_on c (b # bs) =
     (if b = c then [] # split_on c bs
      else case split_on c bs of [] \<Rightarrow> [[b]] | f # fs \<Rightarrow> (b # f) # fs)"

lemma split_on_found:
  "g_strchr_pos str c = Some n \<Longrightarrow> c \<noteq> 0 \<Longrightarrow>
     n < length str \<and> split_on c str = take n str # split_on c (drop (Suc n) str)"
  by (induction str arbitrary: n) (auto split: if_splits list.splits)

lemma split_on_none:
  "g_strchr_pos str c = None \<Longrightarrow> split_on c str = (if str = [] then [] else [str])"
  by (induction str) (auto split: if_splits)

lemma split_on_join:
  "str \<noteq> [] \<Longrightarrow> concat (map (\<lambda>f. f @ [c]) (split_on c str)) = (if last str = c then str else str @ [c])"
proof (induction str)
  case (Cons b bs)
  show ?case
  proof (cases "bs = []")
    case False
    then have ne: "split_on c bs \<noteq> []" by (cases bs) (auto split: list.splits)
    with Cons.IH [OF False] False show ?thesis by (cases "split_on c bs") auto
  qed simp
qed simp

lemma split_on_no_sep: "f \<in> set (split_on c str) \<Longrightarrow> c \<notin> set f"
  by (induction str arbitrary: f) (auto split: if_splits list.splits)

lemma append_fragment_ok:
  assumes "xlist_inv l" "auto_free l" "0 \<notin> set str" "n \<le> length str"
  shows "\<exists>rv str' freed l'. split_string_append_fragment env str n l = Some (rv, str', freed, l') \<and>
     (if rv = 0 then \<not> (fst env \<and> fst (snd env)) \<and> set (xlist_contents l) \<subseteq> set freed
      else freed = [] \<and> str' = drop (Suc n) str \<and> xlist_inv l' \<and> auto_free l' \<and>
        xlist_contents l' = xlist_contents l @ [Some (take n str)])"
proof -
  have frag: "takeWhile (\<lambda>b. b \<noteq> 0) (take n str) = take n str"
    using assms(3) by (auto simp: takeWhile_eq_all_conv dest: in_set_takeD)
  have del: "list_delete (Some l) = Some (xlist_contents l)" if "xlist_inv l" "auto_free l" for l :: "byte list xlist"
    using free_items_eq [of 0 "count l" "items l"] that
    by (auto simp: list_delete_def xlist_inv_def xlist_contents_def)
  show ?thesis
  proof (cases "fst env")
    case False
    with del [OF assms(1,2)] show ?thesis by (simp add: split_string_append_fragment_def)
  next
    case True
    obtain rv l1 where add: "list_add_item (snd env) l (Some (take n str)) = Some (rv, l1)" "xlist_inv l1"
      "auto_free l1 = auto_free l"
      "xlist_contents l1 = (if rv = 0 then xlist_contents l else xlist_contents l @ [Some (take n str)])"
      "fst (snd env) \<longrightarrow> rv = 1"
      using list_add_item_ok [OF assms(1), of "snd env" "Some (take n str)"] by blast
    have run: "split_string_append_fragment env str n l =
        (if rv = 0 then Some (0, str, Some (take n str) # xlist_contents l, l1)
         else Some (1, drop (Suc n) str, [], l1))"
      unfolding split_string_append_fragment_def Let_def frag
      using True add del [of l1] assms(2,4) by simp
    show ?thesis unfolding run using add assms(2) by (cases "rv = 0") auto
  qed
qed

lemma split_loop_ok:
  assumes "c \<noteq> 0"
  shows "xlist_inv l \<Longrightarrow> auto_free l \<Longrightarrow> 0 \<notin> set str \<Longrightarrow>
     \<exists>freed res. split_loop env k str c l = Some (freed, res) \<and>
       (case res of
          None \<Rightarrow> set (xlist_contents l) \<subseteq> set freed \<and> \<not> (\<forall>i. fst (env i) \<and> fst (snd (env i)))
        | Some l' \<Rightarrow> freed = [] \<and> xlist_inv l' \<and> auto_free l' \<and>
            xlist_contents l' = xlist_contents l @ map Some (split_on c str))"
proof (induction "length str" arbitrary: str k l rule: less_induct)
  case less
  show ?case
  proof (cases "g_strchr_pos str c")
    case None
    show ?thesis
    proof (cases "str = []")
      case True
      with None less.prems show ?thesis by (subst split_loop.simps) simp
    next
      case False
      obtain rv str' freed l' where
        fr: "split_string_append_fragment (env k) str (length str) l = Some (rv, str', freed, l')"
        "if rv = 0 then \<not> (fst (env k) \<and> fst (snd (env k))) \<and> set (xlist_contents l) \<subseteq> set freed
         else freed = [] \<and> str' = drop (Suc (length str)) str \<and> xlist_inv l' \<and> auto_free l' \<and>
           xlist_contents l' = xlist_contents l @ [Some (take (length str) str)]"
        using append_fragment_ok [OF less.prems, of "length str" "env k"] by auto
      with None False show ?thesis
        by (subst split_loop.simps) (auto simp: split_on_none)
    qed
  next
    case (Some n)
    with split_on_found [OF Some assms] have n: "n < length str"
      "split_on c str = take n str # split_on c (drop (Suc n) str)" by simp_all
    obtain rv str' freed l' where
      fr: "split_string_append_fragment (env k) str n l = Some (rv, str', freed, l')"
      "if rv = 0 then \<not> (fst (env k) \<and> fst (snd (env k))) \<and> set (xlist_contents l) \<subseteq> set freed
       else freed = [] \<and> str' = drop (Suc n) str \<and> xlist_inv l' \<and> auto_free l' \<and>
         xlist_contents l' = xlist_contents l @ [Some (take n str)]"
      using append_fragment_ok [OF less.prems, of n "env k"] n(1) by auto
    show ?thesis
    proof (cases "rv = 0")
      case True
      with fr Some n(1) show ?thesis by (subst split_loop.simps) auto
    next
      case False
      with fr have ok: "freed = []" "str' = drop (Suc n) str" "xlist_inv l'" "auto_free l'"
        "xlist_contents l' = xlist_contents l @ [Some (take n str)]" by simp_all
      have short: "length str' < length str" using ok(2) n(1) by simp
      have "0 \<notin> set str'" using less.prems(3) ok(2) by (auto dest: in_set_dropD)
      from less.hyps [OF short ok(3,4) this, of "Suc k"] obtain freed' res where
        rec: "split_loop env (Suc k) str' c l' = Some (freed', res)"
        "case res of
          None \<Rightarrow> set (xlist_contents l') \<subseteq> set freed' \<and> \<not> (\<forall>i. fst (env i) \<and> fst (snd (env i)))
        | Some l2 \<Rightarrow> freed' = [] \<and> xlist_inv l2 \<and> auto_free l2 \<and>
            xlist_contents l2 = xlist_contents l' @ map Some (split_on c str')" by blast
      have "split_loop env k str c l = Some (freed', res)"
        using Some n(1) fr(1) False short rec(1) by (subst split_loop.simps) simp
      moreover have "set (xlist_contents l) \<subseteq> set freed'" if "set (xlist_contents l') \<subseteq> set freed'"
        using that ok(5) by auto
      ultimately show ?thesis
        using rec(2) ok n(2) by (cases res) auto
    qed
  qed
qed

text \<open>
  Splitting a string computes the reference split: if memory suffices the result is the list
  of its fragments in order, none of them containing the separator, and putting the separators
  back restores the string (up to a separator at the end). If memory runs out the result is
  NULL.
\<close>

lemma split_string_into_list_correct:
  assumes "c \<noteq> 0" and "0 \<notin> set str"
  shows "\<exists>freed res. split_string_into_list ok mem env (Some str) c = Some (freed, res) \<and>
     (case res of
        None \<Rightarrow> \<not> (ok \<and> fst mem \<and> (\<forall>i. fst (env i) \<and> fst (snd (env i))))
      | Some l \<Rightarrow> freed = [] \<and> xlist_contents l = map Some (split_on c str) \<and>
          (\<forall>f \<in> set (split_on c str). c \<notin> set f) \<and>
          concat (map (\<lambda>f. f @ [c]) (split_on c str)) =
            (if str = [] \<or> last str = c then str else str @ [c]))"
proof (cases "ok \<and> fst mem")
  case False
  then show ?thesis
    by (auto simp: split_string_into_list_def list_create_def list_create_sized_def)
next
  case True
  let ?l = "\<lparr>items = map (snd mem) [0..<10], count = 0, alloc_size = 10, grow_by = 10, auto_free = True\<rparr>"
  have l: "xlist_inv ?l" "auto_free ?l" "xlist_contents ?l = []"
    by (simp_all add: xlist_inv_def xlist_contents_def)
  obtain freed res where run: "split_loop env 0 str c ?l = Some (freed, res)"
    and spec: "case res of
          None \<Rightarrow> set (xlist_contents ?l) \<subseteq> set freed \<and> \<not> (\<forall>i. fst (env i) \<and> fst (snd (env i)))
        | Some l' \<Rightarrow> freed = [] \<and> xlist_inv l' \<and> auto_free l' \<and>
            xlist_contents l' = xlist_contents ?l @ map Some (split_on c str)"
    using split_loop_ok [OF assms(1) l(1,2) assms(2)] by blast
  have "split_string_into_list ok mem env (Some str) c = Some (freed, res)"
    using True run by (simp add: split_string_into_list_def list_create_def list_create_sized_def)
  moreover have "concat (map (\<lambda>f. f @ [c]) (split_on c str)) = (if str = [] \<or> last str = c then str else str @ [c])"
    using split_on_join [of str c] by (cases "str = []") auto
  ultimately show ?thesis
    using spec l(3) split_on_no_sep [of _ c str] by (cases res) auto
qed

lemma split_string_into_list_correct_witness:
  "\<exists>freed res. split_string_into_list True (True, \<lambda>i. None) (\<lambda>k. (True, True, \<lambda>i. None))
       (Some [97, 44, 44, 98]) 44 = Some (freed, res) \<and>
     (case res of None \<Rightarrow> False
      | Some l \<Rightarrow> freed = [] \<and> xlist_contents l = [Some [97], Some [], Some [98]])"
  using split_string_into_list_correct [of 44 "[97, 44, 44, 98]" True "(True, \<lambda>i. None)"
      "\<lambda>k. (True, True, \<lambda>i. None)"]
  by (auto split: option.splits)

end
