(* ===== verification/Ptr_Table.thy ===== *)
theory Ptr_Table
  imports List_Contract
begin

text \<open>
  Lists of pointers to items of a store, as sesman keeps its sessions and its connections:
  the pointer list holds distinct addresses of exactly the live items, and does not own
  them. The table is then the list of its items, and a loop over the pointer list is a
  recursion over that list.
\<close>

text \<open>\<^verbatim>\<open>list_get_item\<close> with the item dereferenced: the address and the item.\<close>

definition ptr_at :: "(nat \<Rightarrow> 'i option) \<Rightarrow> nat xlist \<Rightarrow> nat \<Rightarrow> (nat \<times> 'i) option" where
  "ptr_at mem l i = do { p \<leftarrow> list_get_item l (int i); a \<leftarrow> p; x \<leftarrow> mem a; Some (a, x) }"

definition ptr_table :: "nat xlist option \<Rightarrow> (nat \<Rightarrow> 'i option) \<Rightarrow> nat xlist \<Rightarrow> nat list \<Rightarrow> bool" where
  "ptr_table lst mem l as \<longleftrightarrow> lst = Some l \<and> xlist_inv l \<and> \<not> auto_free l \<and>
     xlist_contents l = map Some as \<and> distinct as \<and> dom mem = set as"

definition ptr_view :: "(nat \<Rightarrow> 'i option) \<Rightarrow> nat list \<Rightarrow> (nat \<times> 'i) list" where
  "ptr_view mem as = map (\<lambda>a. (a, the (mem a))) as"

lemma length_view [simp]: "length (ptr_view mem as) = length as"
  by (simp add: ptr_view_def)

lemma ptr_table_count: "ptr_table lst mem l as \<Longrightarrow> count l = length as"
  by (metis length_map length_xlist_contents ptr_table_def)

lemma ptr_table_list: "ptr_table lst mem l as \<Longrightarrow> lst = Some l"
  by (simp add: ptr_table_def)

lemma ptr_view_mem:
  assumes "ptr_table lst mem l as"
  shows "(a, x) \<in> set (ptr_view mem as) \<longleftrightarrow> mem a = Some x"
proof -
  have "a \<in> set as \<longleftrightarrow> (\<exists>y. mem a = Some y)"
    using assms unfolding ptr_table_def by blast
  then show ?thesis
    by (auto simp: ptr_view_def)
qed

lemma list_get_item_ok:
  assumes "xlist_inv l" and "i < count l"
  shows "list_get_item l (int i) = Some (xlist_contents l ! i)"
  using assms by (simp add: list_get_item_def xlist_inv_def xlist_contents_def)

lemma ptr_at_ok:
  assumes "ptr_table lst mem l as" and "i < length as"
  shows "ptr_at mem l i = Some (ptr_view mem as ! i)"
proof -
  have "list_get_item l (int i) = Some (Some (as ! i))"
    using assms ptr_table_count [OF assms(1)] list_get_item_ok [of l i]
    by (simp add: ptr_table_def)
  moreover obtain x where "mem (as ! i) = Some x"
    using assms by (metis domD nth_mem ptr_table_def)
  ultimately show ?thesis
    using assms(2) by (simp add: ptr_at_def ptr_view_def)
qed

text \<open>
  Loops over the table: a loop at position \<^term>\<open>i\<close> with \<^term>\<open>n\<close> rounds to go has the rest of the
  view before it.
\<close>

lemma ptr_loop_induct [consumes 3, case_names stop step]:
  assumes "ptr_table lst mem l as" and "i + n = length as" and "drop i (ptr_view mem as) = xs"
    and "P (length as) 0 []"
    and "\<And>i n a x xs. ptr_at mem l i = Some (a, x) \<Longrightarrow> P (Suc i) n xs \<Longrightarrow> P i (Suc n) ((a, x) # xs)"
  shows "P i n xs"
  using assms(2,3)
proof (induction n arbitrary: i xs)
  case 0
  then show ?case using assms(4) by simp
next
  case (Suc n)
  then have i: "i < length as" by simp
  obtain a x where at: "ptr_view mem as ! i = (a, x)" by fastforce
  then have "xs = (a, x) # drop (Suc i) (ptr_view mem as)"
    using Suc.prems(2) i Cons_nth_drop_Suc [of i "ptr_view mem as"] by simp
  then show ?case
    using assms(5) ptr_at_ok [OF assms(1) i] at Suc.IH [of "Suc i"] Suc.prems(1) by simp
qed

text \<open>Updating an item in place, adding one, removing one.\<close>

lemma ptr_table_update:
  "ptr_table lst mem l as \<Longrightarrow> mem a \<noteq> None \<Longrightarrow> ptr_table lst (mem(a \<mapsto> x)) l as"
  by (auto simp: ptr_table_def)

lemma ptr_table_add:
  assumes "ptr_table lst mem l as" and "mem a = None" and "list_add_item env l (Some a) = Some (rv, l')"
  shows "if rv = 0 then ptr_table (Some l') mem l' as else ptr_table (Some l') (mem(a \<mapsto> x)) l' (as @ [a])"
proof -
  have inv: "xlist_inv l" "a \<notin> set as" "dom mem = set as"
    using assms(1,2) by (auto simp: ptr_table_def)
  have "xlist_inv l'" "auto_free l' = auto_free l"
    "xlist_contents l' = (if rv = 0 then xlist_contents l else xlist_contents l @ [Some a])"
    using list_add_item_ok [OF inv(1), of env "Some a"] assms(3) by auto
  with assms(1) inv show ?thesis
    by (auto simp: ptr_table_def)
qed

lemma ptr_table_remove:
  assumes "ptr_table lst mem l (pre @ a # post)"
  shows "\<exists>l'. list_remove_item l (int (length pre)) = Some ([], l') \<and> count l' < count l \<and>
     ptr_table (Some l') (mem(a := None)) l' (pre @ post)"
proof -
  have t: "xlist_inv l" "xlist_contents l = map Some (pre @ a # post)" "\<not> auto_free l" "count l = Suc (length pre + length post)"
    "a \<notin> set pre" "a \<notin> set post" "dom mem = insert a (set pre \<union> set post)" "distinct (pre @ post)"
    using assms ptr_table_count [OF assms] by (auto simp: ptr_table_def)
  obtain l' where "list_remove_item l (int (length pre)) = Some ([], l')" "xlist_inv l'" "\<not> auto_free l'"
    "xlist_contents l' = map Some (pre @ post)" "count l' < count l"
    using list_remove_item_ok [OF t(1), of "int (length pre)"] t by auto
  then show ?thesis
    using t by (auto simp: ptr_table_def)
qed

end
