(* ===== verification/Session_List.thy ===== *)
theory Session_List
  imports Int_Set Ipm_Protocol String_Calls Ptr_Table
begin

text \<open>
  \<^verbatim>\<open>sesman/session_list.c\<close>: the sessions sesman knows. \<^verbatim>\<open>g_session_list\<close> is a list of pointers
  to session items; an item is a cell of a store, its address a natural number. Transports
  given to \<^verbatim>\<open>trans_delete\<close> are recorded in order. A dereferenced NULL or freed pointer is
  \<^term>\<open>None\<close>. Allocation results are arguments.
\<close>

abbreviation (input) MAX_DISPLAY_NAME_SIZE :: nat where "MAX_DISPLAY_NAME_SIZE \<equiv> 32"
abbreviation (input) MAX_PEER_ADDRSTRLEN :: nat where "MAX_PEER_ADDRSTRLEN \<equiv> 46"
abbreviation (input) MAX_XRDP_INSTANCE_NAMELEN :: nat where "MAX_XRDP_INSTANCE_NAMELEN \<equiv> 80"
abbreviation (input) INFO_CLIENT_NAME_BYTES_UTF8 :: nat where "INFO_CLIENT_NAME_BYTES_UTF8 \<equiv> 46"

datatype session_state = E_SESSION_STARTING | E_SESSION_RUNNING

record session_item =
  si_state :: session_state
  si_sesexec_trans :: "ipm_trans option"
  si_sesexec_pid :: int
  si_display :: cstr
  si_uid :: int
  si_type :: int
  si_start_width :: int
  si_start_height :: int
  si_bpp :: int
  si_guid :: guid
  si_start_ip_addr :: cstr
  si_start_time :: int
  si_client_ip :: cstr
  si_client_name :: cstr
  si_last_connect_disconnect :: int
  si_xrdp_instance_name :: cstr

text \<open>\<^verbatim>\<open>g_new0\<close>: every field zero.\<close>

definition new_session_item :: session_item where
  "new_session_item = \<lparr>si_state = E_SESSION_STARTING, si_sesexec_trans = None, si_sesexec_pid = 0,
     si_display = [], si_uid = 0, si_type = 0, si_start_width = 0, si_start_height = 0, si_bpp = 0,
     si_guid = guid_clear, si_start_ip_addr = [], si_start_time = 0, si_client_ip = [],
     si_client_name = [], si_last_connect_disconnect = 0, si_xrdp_instance_name = []\<rparr>"

text \<open>The part of \<^verbatim>\<open>struct config_sesman\<close> the session code reads.\<close>

abbreviation (input) SESMAN_CFG_SESS_POLICY_DEFAULT :: "32 word" where "SESMAN_CFG_SESS_POLICY_DEFAULT \<equiv> 1"
abbreviation (input) SESMAN_CFG_SESS_POLICY_SEPARATE :: "32 word" where "SESMAN_CFG_SESS_POLICY_SEPARATE \<equiv> 2"
abbreviation (input) SESMAN_CFG_SESS_POLICY_U :: "32 word" where "SESMAN_CFG_SESS_POLICY_U \<equiv> 4"
abbreviation (input) SESMAN_CFG_SESS_POLICY_B :: "32 word" where "SESMAN_CFG_SESS_POLICY_B \<equiv> 8"
abbreviation (input) SESMAN_CFG_SESS_POLICY_D :: "32 word" where "SESMAN_CFG_SESS_POLICY_D \<equiv> 16"
abbreviation (input) SESMAN_CFG_SESS_POLICY_I :: "32 word" where "SESMAN_CFG_SESS_POLICY_I \<equiv> 32"
abbreviation (input) SESMAN_CFG_SESS_POLICY_N :: "32 word" where "SESMAN_CFG_SESS_POLICY_N \<equiv> 64"

record sesman_cfg =
  x11_display_offset :: int
  max_display_number :: int
  max_sessions :: int
  policy :: "32 word"

record session_world =
  g_session_list :: "nat xlist option"
  session_mem :: "nat \<Rightarrow> session_item option"
  deleted_trans :: "ipm_trans list"

definition SESSION_IN_USE :: "session_item \<Rightarrow> bool" where
  "SESSION_IN_USE si \<longleftrightarrow>
     (case si_sesexec_trans si of None \<Rightarrow> False | Some tr \<Rightarrow> t_status tr = TRANS_STATUS_UP)"

text \<open>
  \<^verbatim>\<open>list_get_item\<close> with the item dereferenced: the address and the cell. The list never
  holds NULL (\<^verbatim>\<open>session_list_new\<close> is the only writer), so the NULL test of
  \<^verbatim>\<open>SESSION_IN_USE\<close> is left out and a NULL item would be undefined.
\<close>

abbreviation session_at ::
  "'z session_world_scheme \<Rightarrow> nat xlist \<Rightarrow> nat \<Rightarrow> (nat \<times> session_item) option" where
  "session_at w l i \<equiv> ptr_at (session_mem w) l i"

subsection \<open>Life cycle\<close>

definition session_list_init ::
  "sesman_cfg \<Rightarrow> bool \<Rightarrow> nat option alloc \<Rightarrow> 'z session_world_scheme \<Rightarrow> int \<times> 'z session_world_scheme" where
  "session_list_init cfg ok mem w =
     (case g_session_list w of
        Some l \<Rightarrow> (0, w)
      | None \<Rightarrow>
          (case list_create_sized ok mem (nat (max_sessions cfg)) of
             None \<Rightarrow> (1, w)
           | Some l \<Rightarrow> (0, w\<lparr>g_session_list := Some (l\<lparr>auto_free := False\<rparr>)\<rparr>)))"

definition free_session :: "'z session_world_scheme \<Rightarrow> nat option \<Rightarrow> 'z session_world_scheme option" where
  "free_session w p =
     (case p of
        None \<Rightarrow> Some w
      | Some a \<Rightarrow>
          do { si \<leftarrow> session_mem w a;
               let w = (case si_sesexec_trans si of
                          None \<Rightarrow> w
                        | Some tr \<Rightarrow> w\<lparr>deleted_trans := deleted_trans w @ [tr]\<rparr>);
               Some (w\<lparr>session_mem := (session_mem w)(a := None)\<rparr>) })"

fun cleanup_loop :: "'z session_world_scheme \<Rightarrow> nat xlist \<Rightarrow> nat \<Rightarrow> nat \<Rightarrow> 'z session_world_scheme option" where
  "cleanup_loop w l i 0 = Some w"
| "cleanup_loop w l i (Suc n) =
     do { p \<leftarrow> list_get_item l (int i); w \<leftarrow> free_session w p; cleanup_loop w l (Suc i) n }"

definition session_list_cleanup :: "'z session_world_scheme \<Rightarrow> 'z session_world_scheme option" where
  "session_list_cleanup w =
     (case g_session_list w of
        None \<Rightarrow> Some w
      | Some l \<Rightarrow>
          do { w \<leftarrow> cleanup_loop w l 0 (count l);
               freed \<leftarrow> list_delete (Some l);
               Some (w\<lparr>g_session_list := None\<rparr>) })"

definition session_list_get_count :: "'z session_world_scheme \<Rightarrow> nat" where
  "session_list_get_count w = (case g_session_list w of None \<Rightarrow> 0 | Some l \<Rightarrow> count l)"

fun count_state_loop ::
  "'z session_world_scheme \<Rightarrow> nat xlist \<Rightarrow> session_state \<Rightarrow> nat \<Rightarrow> nat \<Rightarrow> nat \<Rightarrow> nat option" where
  "count_state_loop w l st i 0 result = Some result"
| "count_state_loop w l st i (Suc n) result =
     do { (a, si) \<leftarrow> session_at w l i;
          count_state_loop w l st (Suc i) n (if si_state si = st then result + 1 else result) }"

definition session_list_get_count_by_state :: "'z session_world_scheme \<Rightarrow> session_state \<Rightarrow> nat option" where
  "session_list_get_count_by_state w st =
     do { l \<leftarrow> g_session_list w; count_state_loop w l st 0 (count l) 0 }"

text \<open>The address is what the allocator returns, \<^term>\<open>None\<close> without memory.\<close>

definition session_list_new ::
  "nat option \<Rightarrow> nat option alloc \<Rightarrow> 'z session_world_scheme \<Rightarrow>
   (nat option \<times> 'z session_world_scheme) option" where
  "session_list_new addr mem w =
     (case addr of
        None \<Rightarrow> Some (None, w)
      | Some a \<Rightarrow>
          do { l \<leftarrow> g_session_list w;
               (rv, l) \<leftarrow> list_add_item mem l (Some a);
               if rv = 0 then Some (None, w\<lparr>g_session_list := Some l\<rparr>)
               else Some (Some a, w\<lparr>g_session_list := Some l,
                                   session_mem := (session_mem w)(a \<mapsto> new_session_item)\<rparr>) })"

subsection \<open>Queries\<close>

fun displays_loop ::
  "'z session_world_scheme \<Rightarrow> nat xlist \<Rightarrow> nat \<Rightarrow> nat \<Rightarrow> set_int option \<Rightarrow> set_int option option" where
  "displays_loop w l i 0 alloc_displays = Some alloc_displays"
| "displays_loop w l i (Suc n) alloc_displays =
     do { (a, si) \<leftarrow> session_at w l i;
          alloc_displays \<leftarrow>
            (if SESSION_IN_USE si \<and> SCP_SESSION_TYPE_IS_X11 (si_type si)
             then do { display \<leftarrow> g_get_x11_display_from_display_string (Some (si_display si));
                       if display \<ge> 0 then set_int_add alloc_displays display else Some alloc_displays }
             else Some alloc_displays);
          displays_loop w l (Suc i) n alloc_displays }"

definition session_list_get_session_x11_displays ::
  "'z session_world_scheme \<Rightarrow> set_int option \<Rightarrow> set_int option option" where
  "session_list_get_session_x11_displays w alloc_displays =
     (case g_session_list w of
        None \<Rightarrow> Some alloc_displays
      | Some l \<Rightarrow> displays_loop w l 0 (count l) alloc_displays)"

record session_key =
  k_uid :: int
  k_type :: int
  k_width :: int
  k_height :: int
  k_bpp :: int
  k_ip_addr :: cstr
  k_instance_name :: cstr

text \<open>The tests of the search loop, in order; a failed one moves on to the next session.\<close>

definition session_matches :: "32 word \<Rightarrow> session_key \<Rightarrow> session_item \<Rightarrow> bool" where
  "session_matches pol k si =
     (if \<not> SESSION_IN_USE si then False
      else if si_type si \<noteq> k_type k then False
      else if pol AND SESMAN_CFG_SESS_POLICY_U \<noteq> 0 \<and> k_uid k \<noteq> si_uid si then False
      else if pol AND SESMAN_CFG_SESS_POLICY_B \<noteq> 0 \<and> si_bpp si \<noteq> k_bpp k then False
      else if pol AND SESMAN_CFG_SESS_POLICY_D \<noteq> 0 \<and>
              (si_start_width si \<noteq> k_width k \<or> si_start_height si \<noteq> k_height k) then False
      else if pol AND SESMAN_CFG_SESS_POLICY_I \<noteq> 0 \<and> si_start_ip_addr si \<noteq> k_ip_addr k then False
      else if pol AND SESMAN_CFG_SESS_POLICY_N \<noteq> 0 \<and> si_xrdp_instance_name si \<noteq> k_instance_name k then False
      else True)"

fun bydata_loop ::
  "'z session_world_scheme \<Rightarrow> nat xlist \<Rightarrow> 32 word \<Rightarrow> session_key \<Rightarrow> nat \<Rightarrow> nat \<Rightarrow>
   (nat \<times> session_item) option option" where
  "bydata_loop w l pol k i 0 = Some None"
| "bydata_loop w l pol k i (Suc n) =
     do { (a, si) \<leftarrow> session_at w l i;
          if session_matches pol k si then Some (Some (a, si)) else bydata_loop w l pol k (Suc i) n }"

definition session_list_get_bydata ::
  "sesman_cfg \<Rightarrow> 'z session_world_scheme \<Rightarrow> int \<Rightarrow> int \<Rightarrow> int \<Rightarrow> int \<Rightarrow> int \<Rightarrow> cstr option \<Rightarrow> cstr option \<Rightarrow>
   (nat \<times> session_item) option option" where
  "session_list_get_bydata cfg w uid ty width height bpp ip_addr instance_name =
     (let pol = policy cfg;
          k = \<lparr>k_uid = uid, k_type = ty, k_width = width, k_height = height, k_bpp = bpp,
               k_ip_addr = (case ip_addr of None \<Rightarrow> [] | Some s \<Rightarrow> s),
               k_instance_name = (case instance_name of None \<Rightarrow> [] | Some s \<Rightarrow> s)\<rparr>;
          pol = (if pol AND SESMAN_CFG_SESS_POLICY_DEFAULT \<noteq> 0
                 then SESMAN_CFG_SESS_POLICY_U OR SESMAN_CFG_SESS_POLICY_B else pol)
      in if pol AND SESMAN_CFG_SESS_POLICY_SEPARATE \<noteq> 0 then Some None
         else do { l \<leftarrow> g_session_list w; bydata_loop w l pol k 0 (count l) })"

definition uid_selected :: "int option \<Rightarrow> session_item \<Rightarrow> bool" where
  "uid_selected uid si \<longleftrightarrow> SESSION_IN_USE si \<and> (case uid of None \<Rightarrow> True | Some u \<Rightarrow> u = si_uid si)"

fun byuid_count ::
  "'z session_world_scheme \<Rightarrow> nat xlist \<Rightarrow> int option \<Rightarrow> nat \<Rightarrow> nat \<Rightarrow> nat \<Rightarrow> nat option" where
  "byuid_count w l uid i 0 cnt = Some cnt"
| "byuid_count w l uid i (Suc n) cnt =
     do { (a, si) \<leftarrow> session_at w l i;
          byuid_count w l uid (Suc i) n (if uid_selected uid si then cnt + 1 else cnt) }"

text \<open>
  The strings of one element are duplicated one by one; \<^term>\<open>dup k\<close> tells which of the five
  duplications for element \<^term>\<open>k\<close> succeed.
\<close>

definition session_info :: "(nat \<Rightarrow> bool) \<Rightarrow> session_item \<Rightarrow> scp_session_info" where
  "session_info dup si =
     (let copy = (\<lambda>j s. if dup j then Some s else None)
      in \<lparr>i_sid = si_sesexec_pid si, i_display = copy 0 (si_display si), i_type = si_type si,
          i_width = si_start_width si, i_height = si_start_height si, i_bpp = si_bpp si,
          i_start_time = si_start_time si, i_uid = si_uid si,
          i_start_ip_addr = copy 1 (si_start_ip_addr si), i_client_ip = copy 2 (si_client_ip si),
          i_client_name = copy 3 (si_client_name si),
          i_last_connect_disconnect = si_last_connect_disconnect si,
          i_xrdp_instance_name = copy 4 (si_xrdp_instance_name si)\<rparr>)"

definition info_complete :: "scp_session_info \<Rightarrow> bool" where
  "info_complete info \<longleftrightarrow> i_display info \<noteq> None \<and> i_start_ip_addr info \<noteq> None \<and>
     i_client_ip info \<noteq> None \<and> i_client_name info \<noteq> None \<and> i_xrdp_instance_name info \<noteq> None"

text \<open>
  The strings of the elements below the given count; \<^verbatim>\<open>free(NULL)\<close> has no effect. An index
  past the block is undefined.
\<close>

definition info_strings :: "scp_session_info \<Rightarrow> cstr list" where
  "info_strings info = map the (filter (\<lambda>x. x \<noteq> None)
     [i_display info, i_start_ip_addr info, i_client_ip info, i_client_name info, i_xrdp_instance_name info])"

fun free_infos :: "scp_session_info list \<Rightarrow> nat \<Rightarrow> nat \<Rightarrow> cstr list option" where
  "free_infos infos i 0 = Some []"
| "free_infos infos i (Suc n) =
     do { info \<leftarrow> list_get infos i; rest \<leftarrow> free_infos infos (Suc i) n; Some (info_strings info @ rest) }"

definition free_session_info_list :: "scp_session_info list option \<Rightarrow> nat \<Rightarrow> cstr list option" where
  "free_session_info_list sesslist cnt =
     (case sesslist of None \<Rightarrow> Some [] | Some infos \<Rightarrow> if cnt > 0 then free_infos infos 0 cnt else Some [])"

definition empty_info :: scp_session_info where
  "empty_info = \<lparr>i_sid = 0, i_display = None, i_type = 0, i_width = 0, i_height = 0, i_bpp = 0,
     i_start_time = 0, i_uid = 0, i_start_ip_addr = None, i_client_ip = None, i_client_name = None,
     i_last_connect_disconnect = 0, i_xrdp_instance_name = None\<rparr>"

text \<open>The filling loop: the block, and whether it was completed.\<close>

fun byuid_fill ::
  "'z session_world_scheme \<Rightarrow> nat xlist \<Rightarrow> int option \<Rightarrow> (nat \<Rightarrow> nat \<Rightarrow> bool) \<Rightarrow> nat \<Rightarrow> nat \<Rightarrow> nat \<Rightarrow>
   scp_session_info list \<Rightarrow> (bool \<times> scp_session_info list) option" where
  "byuid_fill w l uid dup i 0 index sess = Some (True, sess)"
| "byuid_fill w l uid dup i (Suc n) index sess =
     do { (a, si) \<leftarrow> session_at w l i;
          if uid_selected uid si
          then do { let info = session_info (dup index) si;
                    sess \<leftarrow> list_set sess index info;
                    if \<not> info_complete info then Some (False, sess)
                    else byuid_fill w l uid dup (Suc i) n (Suc index) sess }
          else byuid_fill w l uid dup (Suc i) n index sess }"

text \<open>
  The result is the block (NULL if there is none), the count stored through \<^verbatim>\<open>cnt\<close>, and the
  strings freed. On a failed duplication the count the caller passed in decides how many
  elements are freed.
\<close>

definition session_list_get_byuid ::
  "bool \<Rightarrow> (nat \<Rightarrow> nat \<Rightarrow> bool) \<Rightarrow> 'z session_world_scheme \<Rightarrow> int option \<Rightarrow> nat \<Rightarrow>
   (scp_session_info list option \<times> nat \<times> cstr list) option" where
  "session_list_get_byuid alloc_ok dup w uid cnt =
     do { l \<leftarrow> g_session_list w;
          n \<leftarrow> byuid_count w l uid 0 (count l) 0;
          if n = 0 then Some (None, 0, [])
          else if \<not> alloc_ok then Some (None, 0, [])
          else do { (ok, sess) \<leftarrow> byuid_fill w l uid dup 0 (count l) 0 (replicate n empty_info);
                    if ok then Some (Some sess, n, [])
                    else do { freed \<leftarrow> free_session_info_list (Some sess) cnt;
                              Some (None, 0, freed) } } }"

fun byguid_loop ::
  "'z session_world_scheme \<Rightarrow> nat xlist \<Rightarrow> guid \<Rightarrow> nat \<Rightarrow> nat \<Rightarrow> (nat \<times> session_item) option option" where
  "byguid_loop w l g i 0 = Some None"
| "byguid_loop w l g i (Suc n) =
     do { (a, si) \<leftarrow> session_at w l i;
          if SESSION_IN_USE si \<and> g = si_guid si then Some (Some (a, si)) else byguid_loop w l g (Suc i) n }"

definition session_list_get_byguid ::
  "'z session_world_scheme \<Rightarrow> guid \<Rightarrow> (nat \<times> session_item) option option" where
  "session_list_get_byguid w g = do { l \<leftarrow> g_session_list w; byguid_loop w l g 0 (count l) }"

subsection \<open>Polling\<close>

fun wait_objs_loop ::
  "'z session_world_scheme \<Rightarrow> nat xlist \<Rightarrow> nat \<Rightarrow> nat \<Rightarrow> int list \<Rightarrow> int list option" where
  "wait_objs_loop w l i 0 robjs = Some robjs"
| "wait_objs_loop w l i (Suc n) robjs =
     do { (a, si) \<leftarrow> session_at w l i;
          wait_objs_loop w l (Suc i) n
            (if SESSION_IN_USE si
             then (case si_sesexec_trans si of None \<Rightarrow> robjs | Some tr \<Rightarrow> robjs @ [t_sck tr])
             else robjs) }"

definition session_list_get_wait_objs :: "'z session_world_scheme \<Rightarrow> int list \<Rightarrow> int list option" where
  "session_list_get_wait_objs w robjs =
     do { l \<leftarrow> g_session_list w; wait_objs_loop w l 0 (count l) robjs }"

text \<open>
  \<^verbatim>\<open>trans_check_wait_objs\<close> reads from the transport and may call back into the session's
  message handler, which works on the session item: it is a function on items that returns
  the status. Each round either advances or shortens the list.
\<close>

definition set_trans_down :: "session_item \<Rightarrow> session_item option" where
  "set_trans_down si =
     do { tr \<leftarrow> si_sesexec_trans si;
          Some (si\<lparr>si_sesexec_trans := Some (tr\<lparr>t_status := TRANS_STATUS_DOWN\<rparr>)\<rparr>) }"

definition poll_session ::
  "(session_item \<Rightarrow> (int \<times> session_item) option) \<Rightarrow> session_item \<Rightarrow> session_item option" where
  "poll_session poll si =
     (if SESSION_IN_USE si
      then do { (rv, si) \<leftarrow> poll si; if rv \<noteq> 0 then set_trans_down si else Some si }
      else Some si)"

function check_wait_objs_loop ::
  "(session_item \<Rightarrow> (int \<times> session_item) option) \<Rightarrow> 'z session_world_scheme \<Rightarrow> nat xlist \<Rightarrow> nat \<Rightarrow>
   'z session_world_scheme option" where
  "check_wait_objs_loop poll w l i =
     (if i < count l then
        (case session_at w l i of
           None \<Rightarrow> None
         | Some (a, si) \<Rightarrow>
             (case poll_session poll si of
                None \<Rightarrow> None
              | Some si \<Rightarrow>
                  (let w = w\<lparr>session_mem := (session_mem w)(a \<mapsto> si)\<rparr> in
                   if SESSION_IN_USE si then check_wait_objs_loop poll w l (Suc i)
                   else (case free_session w (Some a) of
                           None \<Rightarrow> None
                         | Some w \<Rightarrow>
                             (case list_remove_item l (int i) of
                                None \<Rightarrow> None
                              | Some (freed, l') \<Rightarrow>
                                  if count l' < count l
                                  then check_wait_objs_loop poll (w\<lparr>g_session_list := Some l'\<rparr>) l' i
                                  else None)))))
      else Some w)"
  by pat_completeness auto
termination by (relation "measure (\<lambda>(poll, w, l, i). count l - i)") auto

declare check_wait_objs_loop.simps [simp del]

definition session_list_check_wait_objs ::
  "(session_item \<Rightarrow> (int \<times> session_item) option) \<Rightarrow> 'z session_world_scheme \<Rightarrow>
   (int \<times> 'z session_world_scheme) option" where
  "session_list_check_wait_objs poll w =
     do { l \<leftarrow> g_session_list w; w \<leftarrow> check_wait_objs_loop poll w l 0; Some (0, w) }"

end
