(* ===== verification/Libipm_Theorems.thy ===== *)
theory Libipm_Theorems
  imports Libipm_Safety
begin

text \<open>
  The contract of libipm towards the message modules built on it: round trip, all-or-nothing
  appends, memory-safe parsing, exact header checks, descriptor accounting, and the reset of
  the input side.
\<close>

subsection \<open>Appending arbitrary arguments\<close>

text \<open>For each type letter that consumes an argument, one of its kind is supplied.\<close>

fun args_ok :: "byte list \<Rightarrow> c_arg list \<Rightarrow> bool" where
  "args_ok [] as = True"
| "args_ok (c # cs) as =
     (takes_arg c \<longrightarrow> (case as of [] \<Rightarrow> False | a # as' \<Rightarrow> arg_kind c a \<and> args_ok cs as'))"

lemma append_switch_reserved:
  "\<not> takes_arg c \<Longrightarrow> append_switch c tr args = Some (E_LI_UNIMPLEMENTED_TYPE, args, tr)"
  by (auto simp: takes_arg_def append_switch_def)

lemma sent_params_Nil:
  "t_extra_data tr = Some priv \<Longrightarrow> out_wf (t_out_s tr) \<Longrightarrow>
     sent_params [] tr (tr\<lparr>t_extra_data := Some (priv\<lparr>out_param_count := k\<rparr>)\<rparr>)"
  by (cases tr) (auto simp: sent_params_def out_bytes_def out_wf_def)

lemma sent_params_Cons:
  assumes "t_extra_data tr = Some priv"
    and "sent_param c a (tr\<lparr>t_extra_data := Some (priv\<lparr>out_param_count := k\<rparr>)\<rparr>) tr1"
    and "sent_params ps tr1 tr'"
  shows "sent_params ((c, a) # ps) tr tr'"
  using assms by (auto simp: sent_params_def sent_param_def out_bytes_append add_fds_append) blast

lemma sent_param_wf:
  assumes "sent_param c a tr tr'" "out_wf (t_out_s tr)" "t_extra_data tr = Some priv" "priv_wf priv"
    and "out_fd_count priv + length (param_fds c a) \<le> MAX_FD_PER_MSG"
  shows "out_wf (t_out_s tr')" "\<exists>priv'. t_extra_data tr' = Some priv' \<and> priv_wf priv'"
  using assms out_bytes_SomeD [of "wire_param c a" "t_out_s tr"]
  by (auto simp: sent_param_def intro: add_fds_wf)

lemma append_switch_fds:
  assumes "append_switch c tr (a # as) = Some (E_LI_SUCCESS, as', tr')" "t_extra_data tr = Some priv"
  shows "out_fd_count priv + length (param_fds c a) \<le> MAX_FD_PER_MSG \<or> out_fd_count priv > MAX_FD_PER_MSG"
proof (cases "c = T_h \<and> (\<exists>v. a = Arg_int v)")
  case True
  then show ?thesis
    using assms by (auto simp: append_switch_def append_fd_type_def Let_def param_fds_def split: if_splits)
next
  case False
  then show ?thesis by (auto simp: param_fds_def split: c_arg.splits)
qed

lemma appendv_total:
  assumes "out_wf (t_out_s tr)" "t_extra_data tr = Some priv" "priv_wf priv" "args_ok cs as"
  shows "\<exists>rv as' tr' n. libipm_msg_out_appendv tr cs as = Some (rv, as', tr') \<and>
           n \<le> length cs \<and> n \<le> length as \<and> sent_params (zip (take n cs) as) tr tr' \<and>
           (\<forall>(c, a) \<in> set (zip (take n cs) as). arg_ok c a) \<and>
           out_wf (t_out_s tr') \<and> (\<exists>priv'. t_extra_data tr' = Some priv' \<and> priv_wf priv') \<and>
           (rv = E_LI_SUCCESS \<longleftrightarrow> n = length cs)"
  using assms
proof (induction cs arbitrary: tr priv as)
  case Nil
  then have "sent_params [] tr tr"
    using sent_params_Nil [of tr priv "out_param_count priv"] by (cases tr) simp
  with Nil show ?case by auto
next
  case (Cons c cs)
  let ?k = "c_ushort (out_param_count priv + 1)"
  let ?priv = "priv\<lparr>out_param_count := ?k\<rparr>"
  let ?tr = "tr\<lparr>t_extra_data := Some ?priv\<rparr>"
  have priv: "priv_wf ?priv" using Cons.prems(3) by (simp add: priv_wf_def)
  have fail: ?case
    if "libipm_msg_out_appendv tr (c # cs) as = Some (e, as1, ?tr)" "e \<noteq> E_LI_SUCCESS" for e as1
    using that sent_params_Nil [OF Cons.prems(2,1)] Cons.prems(1) priv
    by (intro exI [of _ e] exI [of _ as1] exI [of _ ?tr] exI [of _ 0]) simp
  show ?case
  proof (cases "g_strchr_found libipm_valid_type_chars c \<and> takes_arg c")
    case False
    show ?thesis
    proof (cases "g_strchr_found libipm_valid_type_chars c")
      case True
      with False Cons.prems(2) show ?thesis
        by (intro fail [of E_LI_UNIMPLEMENTED_TYPE as]) (simp_all add: append_switch_reserved)
    next
      case False
      with Cons.prems(2) show ?thesis
        by (intro fail [of E_LI_UNSUPPORTED_TYPE as]) simp_all
    qed
  next
    case True
    with Cons.prems(4) obtain a as2 where as: "as = a # as2" "arg_kind c a" "args_ok cs as2"
      by (cases as) auto
    obtain rv as1 tr1 where sw: "append_switch c ?tr (a # as2) = Some (rv, as1, tr1)"
      "if rv = E_LI_SUCCESS then as1 = as2 \<and> arg_ok c a \<and> sent_param c a ?tr tr1 else tr1 = ?tr"
      using append_switch_total [of ?tr ?priv c a as2] Cons.prems(1) priv as(2) by auto
    show ?thesis
    proof (cases "rv = E_LI_SUCCESS")
      case False
      with sw True as(1) Cons.prems(2) show ?thesis by (intro fail [of rv as1]) simp_all
    next
      case rv: True
      have one: "arg_ok c a" "sent_param c a ?tr tr1" "as1 = as2"
        using sw(2) rv by simp_all
      have "out_fd_count ?priv + length (param_fds c a) \<le> MAX_FD_PER_MSG"
        using append_switch_fds [of c ?tr a as2 as1 tr1 ?priv] sw(1) rv priv
        by (auto simp: priv_wf_def)
      then obtain priv1 where tr1: "out_wf (t_out_s tr1)" "t_extra_data tr1 = Some priv1" "priv_wf priv1"
        using sent_param_wf [OF one(2), of ?priv] Cons.prems(1) priv by auto
      from Cons.IH [OF this as(3)] obtain rv' as' tr' n where
        rec: "libipm_msg_out_appendv tr1 cs as2 = Some (rv', as', tr')" "n \<le> length cs" "n \<le> length as2"
          "sent_params (zip (take n cs) as2) tr1 tr'"
          "\<forall>(c, a) \<in> set (zip (take n cs) as2). arg_ok c a"
          "out_wf (t_out_s tr')" "\<exists>priv'. t_extra_data tr' = Some priv' \<and> priv_wf priv'"
          "rv' = E_LI_SUCCESS \<longleftrightarrow> n = length cs"
        by blast
      have "libipm_msg_out_appendv tr (c # cs) as = Some (rv', as', tr')"
        using True as(1) Cons.prems(2) sw(1) rv one(3) rec(1) by simp
      then show ?thesis
        using rec(2-) one(1) as(1) sent_params_Cons [OF Cons.prems(2) one(2) rec(4)]
        by (intro exI [of _ rv'] exI [of _ as'] exI [of _ tr'] exI [of _ "Suc n"]) auto
    qed
  qed
qed


subsection \<open>Example transports\<close>

text \<open>A transport as \<^verbatim>\<open>trans_create\<close> leaves it, connected, and set up for libipm.\<close>

definition up_trans :: "byte list \<Rightarrow> ipm_trans" where
  "up_trans mem =
     \<lparr>t_sck = 5, t_mode = 1, t_status = 1, t_type1 = 3, t_header_size = 12,
      t_in_s = (buf mem 0 0),
      t_out_s = (buf mem 0 0),
      t_wait_s = [], t_no_stream_init_on_data_in = 1, t_extra_flags = 0,
      t_extra_data = Some (new_priv\<lparr>facility := 1\<rparr>), t_si = None, t_my_source = 0\<rparr>"

lemma up_trans_ready: "sender_ready 1 (up_trans (replicate 8192 0))" "receiver_ready 1 (up_trans (replicate 8192 0))"
  using new_priv_wf [of 1] by (auto simp: sender_ready_def receiver_ready_def up_trans_def) (simp add: new_priv_def)

subsection \<open>Round trip\<close>

text \<open>
  C1. A message built by the sender (initialise, append any list of admissible parameters that
  fits, mark the end) and handed to the receiving transport, header first and then the body,
  is accepted, announced as complete, and parsed by the same format into exactly the values
  sent, file descriptors included; no byte and no descriptor is left over.
\<close>

theorem libipm_roundtrip:
  assumes "sender_ready fac tx" and "receiver_ready fac rx"
    and "0 \<le> fac" "fac < 2 ^ 16" "0 \<le> msgno" "msgno < 2 ^ 16"
    and "\<forall>(c, a) \<in> set ps. arg_ok c a"
    and "length (wire_params ps) \<le> LIBIPM_MAX_MSG_SIZE - HEADER_SIZE"
    and "length (params_fds ps) \<le> MAX_FD_PER_MSG"
  shows "\<exists>sent marked.
     libipm_msg_out_init junk tx msgno (Some (map fst ps)) (map snd ps) = Some (E_LI_SUCCESS, [], sent) \<and>
     libipm_msg_out_mark_end sent = Some marked \<and>
     deliver (libipm_trans_send_proc marked True (contents (t_out_s marked))) rx
       (map fst ps) (params_dests ps) = Some (msgno, params_values ps, [], [])"
proof -
  obtain tr priv where init: "libipm_msg_out_init junk tx msgno (Some (map fst ps)) (map snd ps) =
        Some (E_LI_SUCCESS, [], tr)"
    and priv: "t_extra_data tr = Some priv" "facility priv = fac" "out_msgno priv = msgno"
      "take (out_fd_count priv) (out_fds priv) = params_fds ps"
    and out: "out_wf (t_out_s tr)" "s_iso_hdr (t_out_s tr) = 0"
      "s_p (t_out_s tr) = HEADER_SIZE + length (wire_params ps)"
      "drop HEADER_SIZE (written (t_out_s tr)) = wire_params ps"
    using msg_out_init_ok [OF assms(1,7,8,9), of junk msgno] by blast
  obtain s where mark: "libipm_msg_out_mark_end tr = Some (tr\<lparr>t_out_s := s\<rparr>)"
    and s: "contents s = wire_header (int (s_p (t_out_s tr))) fac msgno @ wire_params ps"
    using mark_end_ok [OF priv(1) out(1,2)] out(3,4) priv(2,3) by auto
  let ?data = "contents s"
  have "deliver (Sck_send_fd_set (t_sck tr) ?data (params_fds ps)) rx (map fst ps) (params_dests ps) =
      Some (msgno, params_values ps, [], [])"
    by (rule deliver_ok [OF assms(2) _ assms(3-9)]) (use s out(3) in simp)
  then show ?thesis
    using init mark priv by (auto simp: libipm_trans_send_proc_def)
qed

lemma libipm_roundtrip_witness:
  "\<exists>sent marked.
     libipm_msg_out_init (\<lambda>i. 7) (up_trans (replicate 8192 0)) 9 (Some [T_s, T_q, T_h])
       [Arg_str (Some [0x75, 0x31]), Arg_int 513, Arg_int 4] = Some (E_LI_SUCCESS, [], sent) \<and>
     libipm_msg_out_mark_end sent = Some marked \<and>
     deliver (libipm_trans_send_proc marked True (contents (t_out_s marked))) (up_trans (replicate 8192 0))
       [T_s, T_q, T_h] [D_str, D_u16, D_int] =
     Some (9, [V_str [0x75, 0x31], V_u16 513, V_int 4], [], [])"
  using libipm_roundtrip [OF up_trans_ready, of 9
      "[(T_s, Arg_str (Some [0x75, 0x31])), (T_q, Arg_int 513), (T_h, Arg_int 4)]" "\<lambda>i. 7"]
  by (simp add: param_fds_def)


subsection \<open>Robustness\<close>

text \<open>
  C2. Parsing is safe on any input: with out-pointers that match the format, no bytes from the
  peer make \<^verbatim>\<open>libipm_msg_in_parse\<close> read outside the received data, and every outcome is
  accounted for. The values stored are those of a prefix of the format's parameters, whose
  encoding is what was consumed (plus the part of a rejected parameter); descriptors leave
  the pending queue only in exchange for a value; success means the whole format was matched.
\<close>

theorem libipm_parse_safe:
  assumes "in_wf (t_in_s tr)" and "t_extra_data tr = Some priv" and "priv_wf priv"
    and "dests_ok fmt ds"
  shows "\<exists>rv vs ds' tr' ps skipped.
     libipm_msg_in_parse tr (Some fmt) ds = Some (rv, vs, ds', tr') \<and>
     parsed fmt tr rv vs tr' ps skipped \<and> (rv = E_LI_SUCCESS \<longrightarrow> ds' = drop (length fmt) ds)"
  using parsev_total [OF assms] assms(2) by (simp add: libipm_msg_in_parse_def)

lemma libipm_parse_safe_witness:
  "\<exists>rv vs ds' tr' ps skipped.
     libipm_msg_in_parse ((up_trans [])\<lparr>t_in_s := (buf [0x73, 0x41] 0 2)\<rparr>)
       (Some [T_s, T_i]) [D_str, D_u32] = Some (rv, vs, ds', tr') \<and>
     parsed [T_s, T_i] ((up_trans [])\<lparr>t_in_s := (buf [0x73, 0x41] 0 2)\<rparr>)
       rv vs tr' ps skipped \<and>
     (rv = E_LI_SUCCESS \<longrightarrow> ds' = drop (length [T_s, T_i]) [D_str, D_u32])"
  by (rule libipm_parse_safe [OF _ _ new_priv_wf [of 1]])
    (simp_all add: in_wf_def up_trans_def dest_kind_def takes_arg_def)

text \<open>
  C3. Appending is all-or-nothing per parameter: with arguments of the kinds the format asks
  for, \<^verbatim>\<open>libipm_msg_out_appendv\<close> never writes outside the output buffer. It appends the
  encodings of the longest prefix of admissible parameters that fit, leaves nothing of the
  parameter it rejects, and reports success exactly when all parameters are in the message.
\<close>

theorem libipm_append_all_or_nothing:
  assumes "out_wf (t_out_s tr)" and "t_extra_data tr = Some priv" and "priv_wf priv"
    and "args_ok fmt args"
  shows "\<exists>rv args' tr' n. libipm_msg_out_append tr (Some fmt) args = Some (rv, args', tr') \<and>
     n \<le> length fmt \<and> sent_params (zip (take n fmt) args) tr tr' \<and>
     (\<forall>(c, a) \<in> set (zip (take n fmt) args). arg_ok c a) \<and>
     out_wf (t_out_s tr') \<and> (rv = E_LI_SUCCESS \<longleftrightarrow> n = length fmt)"
proof -
  obtain rv args' tr' n where "libipm_msg_out_appendv tr fmt args = Some (rv, args', tr')"
    "n \<le> length fmt" "sent_params (zip (take n fmt) args) tr tr'"
    "\<forall>(c, a) \<in> set (zip (take n fmt) args). arg_ok c a" "out_wf (t_out_s tr')"
    "rv = E_LI_SUCCESS \<longleftrightarrow> n = length fmt"
    using appendv_total [OF assms] by blast
  then show ?thesis
    using assms(2) by (auto simp: libipm_msg_out_append_def appendv_opt_def)
qed

lemma libipm_append_all_or_nothing_witness:
  "\<exists>rv args' tr' n.
     libipm_msg_out_append (up_trans (replicate 8192 0)) (Some [T_y, T_b]) [Arg_int 4, Arg_int 2] = Some (rv, args', tr') \<and>
     n \<le> length [T_y, T_b] \<and>
     sent_params (zip (take n [T_y, T_b]) [Arg_int 4, Arg_int 2]) (up_trans (replicate 8192 0)) tr' \<and>
     (\<forall>(c, a) \<in> set (zip (take n [T_y, T_b]) [Arg_int 4, Arg_int 2]). arg_ok c a) \<and>
     out_wf (t_out_s tr') \<and> (rv = E_LI_SUCCESS \<longleftrightarrow> n = length [T_y, T_b])"
  by (rule libipm_append_all_or_nothing [OF _ _ new_priv_wf [of 1]])
    (simp_all add: out_wf_def up_trans_def takes_arg_def)

text \<open>
  C4. A complete header is accepted exactly when its version is 2, its size lies between the
  header size and the maximum message size, its facility is the transport's and its reserved
  field is zero; the message is then available if it has no body, and otherwise the transport
  waits for the announced number of bytes.
\<close>

theorem libipm_header_exact:
  assumes "t_extra_data tr = Some priv" and "t_status tr = TRANS_STATUS_UP"
    and "t_extra_flags tr = 0" and "t_header_size tr = int HEADER_SIZE"
    and "in_wf (t_in_s tr)" and "s_p (t_in_s tr) = 0" and "s_end (t_in_s tr) = HEADER_SIZE"
    and "contents (t_in_s tr) = v @ z @ f @ m @ r"
    and "length v = 2" "length z = 2" "length f = 2" "length m = 2" "length r = 4"
  shows "\<exists>tr'. libipm_msg_in_check_available tr =
     (if le_val v = LIBIPM_VERSION \<and> int HEADER_SIZE \<le> le_val z \<and> le_val z \<le> int LIBIPM_MAX_MSG_SIZE \<and>
         le_val f = facility priv \<and> le_val r = 0
      then Some (E_LI_SUCCESS, le_val z = int HEADER_SIZE, tr'\<lparr>t_extra_flags := 1, t_header_size := le_val z\<rparr>)
      else Some (E_LI_BAD_HEADER, False, tr')) \<and>
     libipm_msg_in_get_msgno tr' = le_val m \<and> t_in_s tr' = advance HEADER_SIZE (t_in_s tr)"
proof -
  let ?s = "t_in_s tr"
  let ?tr = "tr\<lparr>t_in_s := advance 12 ?s, t_extra_data := Some (priv\<lparr>in_msgno := le_val m\<rparr>)\<rparr>"
  have un: "unread ?s = v @ z @ f @ m @ r"
    using assms(6,8) by (simp add: unread_def contents_def)
  have step: "in_bytes k (advance n ?s) = Some (take k (drop n (unread ?s)), advance (n + k) ?s)"
    if "n + k \<le> 12" for n k
    using assms(5,9-13) that un advance_wf [OF assms(5), of n]
    by (subst in_bytes_unread_eq) (auto simp: unread_advance)
  have first: "in_bytes 2 ?s = Some (take 2 (unread ?s), advance 2 ?s)"
    using step [of 0 2] by (simp del: add_2_eq_Suc add_2_eq_Suc')
  have "validate_msg_header tr = Some (if le_val v \<noteq> 2 then E_LI_BAD_HEADER
      else if le_val z < 12 \<or> 8192 < le_val z then E_LI_BAD_HEADER
      else if le_val f \<noteq> facility priv then E_LI_BAD_HEADER
      else if le_val r \<noteq> 0 then E_LI_BAD_HEADER else E_LI_SUCCESS, le_val z, ?tr)"
    using assms(1,9-13) first step [of 2 2] step [of 4 2] step [of 6 2] step [of 8 4] un
    by (simp add: validate_msg_header_def in_defs Let_def)
  then show ?thesis
    using assms(1-4,7)
    by (intro exI [of _ ?tr]) (simp add: libipm_msg_in_check_available_def libipm_msg_in_get_msgno_def)
qed

lemma libipm_header_exact_witness:
  "\<exists>tr'. libipm_msg_in_check_available ((up_trans [])\<lparr>t_in_s :=
       (buf [2, 0, 12, 0, 1, 0, 5, 0, 0, 0, 0, 0] 0 12)\<rparr>) =
     Some (E_LI_SUCCESS, True, tr'\<lparr>t_extra_flags := 1, t_header_size := 12\<rparr>)"
  using libipm_header_exact [of "(up_trans [])\<lparr>t_in_s :=
       (buf [2, 0, 12, 0, 1, 0, 5, 0, 0, 0, 0, 0] 0 12)\<rparr>"
      "new_priv\<lparr>facility := 1\<rparr>" "[2, 0]" "[12, 0]" "[1, 0]" "[5, 0]" "[0, 0, 0, 0]"]
  by (auto simp: up_trans_def in_wf_def contents_def)


subsection \<open>File descriptors and erasure\<close>

text \<open>
  C5. No descriptor is leaked or duplicated on receipt: for a successful read at the start of
  a message, the descriptors closed and those now pending are together exactly those
  pending before and those that arrived, and the first eight that arrived are the pending ones.
\<close>

theorem libipm_recv_fd_accounting:
  assumes "t_extra_data tr = Some priv" and "priv_wf priv" and "rv > 0"
  shows "\<exists>closed tr' priv'. libipm_trans_recv_proc tr True rv ancillary = Some (rv, closed, tr') \<and>
     t_extra_data tr' = Some priv' \<and> priv_wf priv' \<and>
     mset closed + mset (pending_fds priv') = mset (pending_fds priv) + mset ancillary \<and>
     pending_fds priv' = take MAX_FD_PER_MSG ancillary"
proof -
  let ?p = "priv\<lparr>in_fd_count := 0, in_fd_index := 0\<rparr>"
  have start: "(if in_fd_count priv > 0 then libipm_msg_in_close_file_descriptors tr else Some ([], tr)) =
      Some (pending_fds priv, tr\<lparr>t_extra_data := Some ?p\<rparr>)"
  proof (cases "in_fd_count priv > 0")
    case False
    then have "in_fd_count priv = 0" "in_fd_index priv = 0" "pending_fds priv = []"
      using assms(2) by (auto simp: priv_wf_def pending_fds_def)
    then have "?p = priv" "pending_fds priv = []" by (cases priv; simp)+
    with assms(1) False show ?thesis by (cases tr) simp
  qed (simp add: close_file_descriptors_eq [OF assms(1,2)])
  obtain fds' where st: "store_fds (in_fds priv) 0 8 ancillary =
      Some (fds', min (length ancillary) 8, drop 8 ancillary)"
    and fds': "length fds' = 8" "take (min (length ancillary) 8) fds' = take 8 ancillary"
    using store_fds_eq [of 8 "in_fds priv" 0 ancillary] assms(2) by (auto simp: priv_wf_def)
  let ?q = "?p\<lparr>in_fds := fds', in_fd_count := min (length ancillary) 8\<rparr>"
  have "libipm_trans_recv_proc tr True rv ancillary =
      Some (rv, pending_fds priv @ drop 8 ancillary, tr\<lparr>t_extra_data := Some ?q\<rparr>)"
    using assms(1,3) start st by (simp add: libipm_trans_recv_proc_def g_sck_recv_fd_set_def Let_def)
  moreover have "priv_wf ?q" "pending_fds ?q = take 8 ancillary"
    using assms(2) fds' by (simp_all add: priv_wf_def pending_fds_def)
  moreover have "mset ancillary = mset (take 8 ancillary) + mset (drop 8 ancillary)"
    by (metis append_take_drop_id mset_append)
  ultimately show ?thesis
    by (intro exI [of _ "pending_fds priv @ drop 8 ancillary"] exI [of _ "tr\<lparr>t_extra_data := Some ?q\<rparr>"]
        exI [of _ ?q]) simp
qed

lemma libipm_recv_fd_accounting_witness:
  "\<exists>closed tr' priv'. libipm_trans_recv_proc (up_trans []) True 12 [3, 4] = Some (12, closed, tr') \<and>
     t_extra_data tr' = Some priv' \<and> priv_wf priv' \<and>
     mset closed + mset (pending_fds priv') = mset (pending_fds (new_priv\<lparr>facility := 1\<rparr>)) + mset [3, 4] \<and>
     pending_fds priv' = take MAX_FD_PER_MSG [3, 4]"
  by (rule libipm_recv_fd_accounting [OF _ new_priv_wf]) (simp_all add: up_trans_def)

text \<open>
  Resetting the input side closes exactly the descriptors the application did not claim
  and leaves the transport ready for the next message. If the application asked for erasure,
  every byte of the message is zero afterwards and the request is spent; the other flags and
  the facility are kept.
\<close>

lemma libipm_msg_in_reset_correct:
  assumes "t_extra_data tr = Some priv" and "priv_wf priv" and "in_wf (t_in_s tr)"
    and "LIBIPM_MAX_MSG_SIZE \<le> s_size (t_in_s tr)" and "t_status tr = TRANS_STATUS_UP"
  shows "\<exists>tr' priv'. libipm_msg_in_reset junk tr = Some (pending_fds priv, tr') \<and>
     receiver_ready (facility priv) tr' \<and> t_extra_data tr' = Some priv' \<and> pending_fds priv' = [] \<and>
     in_msgno priv' = 0 \<and> flags priv' = flags priv AND NOT LIBIPM_E_MSG_IN_ERASE_AFTER_USE \<and>
     (if flags priv AND LIBIPM_E_MSG_IN_ERASE_AFTER_USE \<noteq> 0
      then take (s_end (t_in_s tr)) (s_data (t_in_s tr')) = replicate (s_end (t_in_s tr)) 0
      else s_data (t_in_s tr') = s_data (t_in_s tr))"
proof -
  let ?s = "t_in_s tr"
  let ?erase = "flags priv AND LIBIPM_E_MSG_IN_ERASE_AFTER_USE \<noteq> 0"
  let ?fl = "flags priv AND NOT LIBIPM_E_MSG_IN_ERASE_AFTER_USE"
  let ?s1 = "if ?erase then ?s\<lparr>s_data := replicate (s_end ?s) 0 @ drop (s_end ?s) (s_data ?s)\<rparr> else ?s"
  have le: "s_end ?s \<le> s_size ?s" "s_size ?s < 2 ^ 31" using assms(3) by (auto simp: in_wf_def)
  have fl: "flags priv = ?fl" if "\<not> ?erase"
    using that and_not_id [of "flags priv" 1] by simp
  have priv_eq: "priv\<lparr>flags := ?fl\<rparr> = priv" if "\<not> ?erase"
    using fl [OF that] by (cases priv) simp
  let ?p = "priv\<lparr>flags := ?fl, in_msgno := 0, in_param_count := 0\<rparr>"
  have step: "(if ?erase then do { s \<leftarrow> memset_start (s_end ?s) ?s; Some (s, priv\<lparr>flags := ?fl\<rparr>) }
       else Some (?s, priv)) = Some (?s1, priv\<lparr>flags := ?fl\<rparr>)"
    using le priv_eq by (auto simp: memset_start_def)
  have p: "priv_wf ?p" "pending_fds ?p = pending_fds priv"
    using assms(2) by (simp_all add: priv_wf_def pending_fds_def)
  let ?tr = "tr\<lparr>t_in_s := ?s1, t_extra_data := Some ?p\<rparr>"
  let ?p' = "?p\<lparr>in_fd_count := 0, in_fd_index := 0\<rparr>"
  let ?tr' = "?tr\<lparr>t_extra_data := Some ?p', t_extra_flags := 0, t_header_size := 12,
      t_no_stream_init_on_data_in := 1, t_in_s := init_stream junk 8192 ?s1\<rparr>"
  have "libipm_msg_in_close_file_descriptors ?tr = Some (pending_fds priv, ?tr\<lparr>t_extra_data := Some ?p'\<rparr>)"
    using close_file_descriptors_eq [of ?tr ?p] p by simp
  then have run: "libipm_msg_in_reset junk tr = Some (pending_fds priv, ?tr')"
    using assms(1) step by (simp add: libipm_msg_in_reset_def)
  have data: "s_data (init_stream junk 8192 ?s1) = s_data ?s1" "s_size ?s1 = s_size ?s"
    using assms(4) le by (simp_all add: init_stream_def Let_def)
  have "receiver_ready (facility priv) ?tr'"
    using assms(2,4,5) le data by (simp add: receiver_ready_def priv_wf_def)
  then show ?thesis
    using run data
    by (cases ?erase; intro exI [of _ ?tr'] exI [of _ ?p']; simp add: pending_fds_def)
qed


lemma libipm_msg_in_reset_correct_witness:
  "\<exists>tr' priv'. libipm_msg_in_reset (\<lambda>i. 0)
       ((up_trans (replicate 8192 7))\<lparr>t_extra_data := Some (new_priv\<lparr>facility := 1, flags := 1\<rparr>)\<rparr>) =
       Some ([], tr') \<and>
     receiver_ready 1 tr' \<and> t_extra_data tr' = Some priv' \<and> pending_fds priv' = [] \<and>
     in_msgno priv' = 0 \<and> flags priv' = 0"
  using libipm_msg_in_reset_correct
    [of "(up_trans (replicate 8192 7))\<lparr>t_extra_data := Some (new_priv\<lparr>facility := 1, flags := 1\<rparr>)\<rparr>"
      "new_priv\<lparr>facility := 1, flags := 1\<rparr>" "\<lambda>i. 0"]
  by (auto simp: up_trans_def in_wf_def priv_wf_def new_priv_def pending_fds_def)

text \<open>
  \<^verbatim>\<open>libipm_msg_in_peek_type\<close> reports the next byte of a message when it is a known type
  code and a question mark for any other byte, except that a zero byte is reported as the end
  of the message.
\<close>

lemma libipm_peek_type:
  assumes "in_wf (t_in_s tr)" and "unread (t_in_s tr) = b # rest"
  shows "libipm_msg_in_peek_type tr =
     Some (if b = 0 then 0 else if b \<in> set libipm_valid_type_chars then b else 63)"
proof -
  have "s_check_rem (t_in_s tr) 1"
    using assms by (simp add: stream_simps)
  moreover have "in_uint8_peek (t_in_s tr) = Some b"
    using unread_in_data [OF assms(1), of 1] assms
    by (cases "s_p (t_in_s tr) < s_size (t_in_s tr)")
      (auto simp: in_uint8_peek_def take_Suc_conv_app_nth hd_drop_conv_nth take_Suc)
  ultimately show ?thesis
    by (simp add: libipm_msg_in_peek_type_def g_strchr_found_def)
qed

lemma libipm_peek_type_witness:
  "libipm_msg_in_peek_type ((up_trans [])\<lparr>t_in_s := (buf [0] 0 1)\<rparr>) = Some 0"
  using libipm_peek_type [of "(up_trans [])\<lparr>t_in_s := (buf [0] 0 1)\<rparr>" 0 "[]"]
  by (simp add: in_wf_def unread_def)

end
