(* ===== verification/Session_Props.thy ===== *)
theory Session_Props
  imports Session_List Libipm_Theorems
begin

text \<open>
  What \<^verbatim>\<open>sesman/session_list.c\<close> promises. The table invariant ties the pointer list to the
  store: the list holds distinct pointers to exactly the live session items, and does not
  own them. Under it the table is the list \<^verbatim>\<open>view\<close> of its items, and every query is a
  standard list function of that view.
\<close>

abbreviation session_table :: "'z session_world_scheme \<Rightarrow> nat xlist \<Rightarrow> nat list \<Rightarrow> bool" where
  "session_table w \<equiv> ptr_table (g_session_list w) (session_mem w)"

abbreviation view :: "'z session_world_scheme \<Rightarrow> nat list \<Rightarrow> (nat \<times> session_item) list" where
  "view w \<equiv> ptr_view (session_mem w)"

subsection \<open>Queries are list functions\<close>

lemma bydata_loop_eq:
  "session_table w l as \<Longrightarrow> i + n = length as \<Longrightarrow> drop i (view w as) = xs \<Longrightarrow>
     bydata_loop w l pol k i n = Some (find (\<lambda>(a, si). session_matches pol k si) xs)"
  by (induction rule: ptr_loop_induct) auto

lemma byguid_loop_eq:
  "session_table w l as \<Longrightarrow> i + n = length as \<Longrightarrow> drop i (view w as) = xs \<Longrightarrow>
     byguid_loop w l g i n = Some (find (\<lambda>(a, si). SESSION_IN_USE si \<and> g = si_guid si) xs)"
  by (induction rule: ptr_loop_induct) auto

lemma byuid_count_eq:
  "session_table w l as \<Longrightarrow> i + n = length as \<Longrightarrow> drop i (view w as) = xs \<Longrightarrow>
     byuid_count w l uid i n c = Some (c + length (filter (uid_selected uid) (map snd xs)))"
  by (induction arbitrary: c rule: ptr_loop_induct) auto

lemma count_state_loop_eq:
  "session_table w l as \<Longrightarrow> i + n = length as \<Longrightarrow> drop i (view w as) = xs \<Longrightarrow>
     count_state_loop w l st i n c = Some (c + length (filter (\<lambda>si. si_state si = st) (map snd xs)))"
  by (induction arbitrary: c rule: ptr_loop_induct) auto

lemma wait_objs_loop_eq:
  "session_table w l as \<Longrightarrow> i + n = length as \<Longrightarrow> drop i (view w as) = xs \<Longrightarrow>
     wait_objs_loop w l i n r = Some (r @ map (\<lambda>si. t_sck (the (si_sesexec_trans si)))
        (filter SESSION_IN_USE (map snd xs)))"
  by (induction arbitrary: r rule: ptr_loop_induct) (auto simp: SESSION_IN_USE_def split: option.splits)

text \<open>The filling loop of \<^verbatim>\<open>session_list_get_byuid\<close> completes exactly when every duplication succeeds.\<close>

fun fill_ok :: "(nat \<Rightarrow> nat \<Rightarrow> bool) \<Rightarrow> nat \<Rightarrow> session_item list \<Rightarrow> bool" where
  "fill_ok dup k [] = True"
| "fill_ok dup k (si # sis) = (info_complete (session_info (dup k) si) \<and> fill_ok dup (Suc k) sis)"

fun infos_from :: "(nat \<Rightarrow> nat \<Rightarrow> bool) \<Rightarrow> nat \<Rightarrow> session_item list \<Rightarrow> scp_session_info list" where
  "infos_from dup k [] = []"
| "infos_from dup k (si # sis) = session_info (dup k) si # infos_from dup (Suc k) sis"

lemma byuid_fill_eq:
  "session_table w l as \<Longrightarrow> i + n = length as \<Longrightarrow> drop i (view w as) = xs \<Longrightarrow>
     length sess = length pre + length (filter (uid_selected uid) (map snd xs)) \<Longrightarrow>
     take (length pre) sess = pre \<Longrightarrow>
     \<exists>sess'. byuid_fill w l uid dup i n (length pre) sess =
        Some (fill_ok dup (length pre) (filter (uid_selected uid) (map snd xs)), sess') \<and>
        length sess' = length sess \<and>
        (fill_ok dup (length pre) (filter (uid_selected uid) (map snd xs)) \<longrightarrow>
         sess' = pre @ infos_from dup (length pre) (filter (uid_selected uid) (map snd xs)))"
proof (induction arbitrary: sess pre rule: ptr_loop_induct)
  case (step i n a si xs)
  show ?case
  proof (cases "uid_selected uid si")
    case True
    let ?k = "length pre"
    let ?info = "session_info (dup ?k) si"
    have k: "?k < length sess" using step.prems(1) True by simp
    define ys where "ys = filter (uid_selected uid) (map snd xs)"
    have ys: "filter (uid_selected uid) (map snd ((a, si) # xs)) = si # ys"
      using True by (simp add: ys_def)
    have t: "take (length (pre @ [?info])) (sess[?k := ?info]) = pre @ [?info]"
      using step.prems(2) k by (simp add: take_Suc_update)
    have len: "length (sess[?k := ?info]) = length (pre @ [?info]) + length ys"
      using step.prems(1) ys by (simp del: filter.simps)
    obtain sess' where
      "byuid_fill w l uid dup (Suc i) n (Suc ?k) (sess[?k := ?info]) = Some (fill_ok dup (Suc ?k) ys, sess')"
      "length sess' = length sess" "fill_ok dup (Suc ?k) ys \<longrightarrow> sess' = pre @ ?info # infos_from dup (Suc ?k) ys"
      using step.IH [of "sess[?k := ?info]" "pre @ [?info]", folded ys_def, OF len t] by auto
    then show ?thesis
      using step.hyps True k unfolding ys by (cases "info_complete ?info") (simp_all add: Let_def)
  next
    case False
    then have "filter (uid_selected uid) (map snd ((a, si) # xs)) = filter (uid_selected uid) (map snd xs)"
      by simp
    then show ?thesis
      using step.IH [of sess pre] step.prems step.hyps False by (simp del: filter.simps)
  qed
qed simp

subsection \<open>The displays in use\<close>

definition item_display :: "session_item \<Rightarrow> int" where
  "item_display si =
     (if SESSION_IN_USE si \<and> SCP_SESSION_TYPE_IS_X11 (si_type si)
      then the (g_get_x11_display_from_display_string (Some (si_display si))) else - 1)"

definition display_defined :: "session_item \<Rightarrow> bool" where
  "display_defined si \<longleftrightarrow> g_get_x11_display_from_display_string (Some (si_display si)) \<noteq> None"

definition displays_in :: "set_int \<Rightarrow> session_item list \<Rightarrow> int set" where
  "displays_in s sis = {d \<in> item_display ` set sis. 0 \<le> d \<and> set_min s \<le> d \<and> d \<le> set_max s}"

lemma displays_loop_ok:
  "session_table w l as \<Longrightarrow> i + n = length as \<Longrightarrow> drop i (view w as) = xs \<Longrightarrow>
     \<forall>si \<in> set (map snd xs). display_defined si \<Longrightarrow> set_wf s \<Longrightarrow>
     \<exists>s'. displays_loop w l i n (Some s) = Some (Some s') \<and> set_wf s' \<and> set_min s' = set_min s \<and>
        set_max s' = set_max s \<and> set_elems s' = set_elems s \<union> displays_in s (map snd xs)"
proof (induction arbitrary: s rule: ptr_loop_induct)
  case stop
  then show ?case by (simp add: displays_in_def)
next
  case (step i n a si xs)
  let ?d = "item_display si"
  have "\<exists>s1. (if SESSION_IN_USE si \<and> SCP_SESSION_TYPE_IS_X11 (si_type si)
      then do { display \<leftarrow> g_get_x11_display_from_display_string (Some (si_display si));
                if display \<ge> 0 then set_int_add (Some s) display else Some (Some s) }
      else Some (Some s)) = Some (Some s1) \<and> set_wf s1 \<and> set_min s1 = set_min s \<and> set_max s1 = set_max s \<and>
      set_elems s1 = set_elems s \<union> displays_in s [si]"
  proof (cases "0 \<le> ?d")
    case True
    then have "SESSION_IN_USE si" "SCP_SESSION_TYPE_IS_X11 (si_type si)"
      "g_get_x11_display_from_display_string (Some (si_display si)) = Some ?d"
      using step.prems(1) by (auto simp: item_display_def display_defined_def split: if_splits)
    then show ?thesis
      using True set_int_add_ok [OF step.prems(2), of ?d] by (auto simp: displays_in_def)
  next
    case False
    then show ?thesis
      using step.prems by (auto simp: displays_in_def item_display_def display_defined_def)
  qed
  then obtain s1 where s1: "displays_loop w l i (Suc n) (Some s) = displays_loop w l (Suc i) n (Some s1)"
    "set_wf s1" "set_min s1 = set_min s" "set_max s1 = set_max s" "set_elems s1 = set_elems s \<union> displays_in s [si]"
    using step.hyps by auto
  moreover have "displays_in s1 (map snd xs) \<union> displays_in s [si] = displays_in s (map snd ((a, si) # xs))"
    using s1(3,4) by (auto simp: displays_in_def)
  ultimately show ?case
    using step.IH [OF _ s1(2)] step.prems(1) by auto
qed

subsection \<open>Life cycle\<close>

lemma session_list_init_ok:
  assumes "g_session_list w = None" and "session_mem w = Map.empty" and "fst mem"
  shows "\<exists>l w'. session_list_init cfg True mem w = (0, w') \<and> session_table w' l []"
proof -
  obtain l where l: "list_create_sized True mem (nat (max_sessions cfg)) = Some l"
    "length (items l) = alloc_size l" "xlist.count l = 0" "grow_by l = 10"
    using assms(3) by (auto simp: list_create_sized_def Let_def)
  then have "session_table (w\<lparr>g_session_list := Some (l\<lparr>auto_free := False\<rparr>)\<rparr>) (l\<lparr>auto_free := False\<rparr>) []"
    using assms(2) by (simp add: ptr_table_def xlist_inv_def xlist_contents_def)
  then show ?thesis
    using assms(1) l(1) by (auto simp: session_list_init_def)
qed

lemma session_list_new_ok:
  assumes "session_table w l as" and "session_mem w a = None"
  shows "\<exists>p w' l'. session_list_new (Some a) mem w = Some (p, w') \<and>
     (if p = None then session_table w' l' as \<and> session_mem w' = session_mem w
      else p = Some a \<and> session_table w' l' (as @ [a]) \<and>
           session_mem w' = (session_mem w)(a \<mapsto> new_session_item)) \<and>
     deleted_trans w' = deleted_trans w \<and> (fst mem \<longrightarrow> p \<noteq> None)"
proof -
  have inv: "xlist_inv l" "a \<notin> set as" "dom (session_mem w) = set as"
    using assms by (auto simp: ptr_table_def)
  obtain rv l' where "list_add_item mem l (Some a) = Some (rv, l')" "xlist_inv l'" "auto_free l' = auto_free l"
    "xlist_contents l' = (if rv = 0 then xlist_contents l else xlist_contents l @ [Some a])"
    "fst mem \<longrightarrow> rv = 1"
    using list_add_item_ok [OF inv(1)] by blast
  with assms(1) inv show ?thesis
    by (cases "rv = 0") (auto simp: session_list_new_def ptr_table_def)
qed

lemma free_session_ok:
  assumes "session_mem w a = Some si"
  shows "\<exists>w'. free_session w (Some a) = Some w' \<and> session_mem w' = (session_mem w)(a := None) \<and>
     g_session_list w' = g_session_list w \<and>
     deleted_trans w' = deleted_trans w @ (case si_sesexec_trans si of None \<Rightarrow> [] | Some tr \<Rightarrow> [tr])"
  using assms by (auto simp: free_session_def Let_def split: option.splits)

definition item_trans :: "session_item \<Rightarrow> ipm_trans list" where
  "item_trans si = (case si_sesexec_trans si of None \<Rightarrow> [] | Some tr \<Rightarrow> [tr])"

lemma cleanup_loop_ok:
  assumes "xlist_inv l" and "xlist_contents l = map Some as" and "distinct as"
  shows "i + n = length as \<Longrightarrow> \<forall>a \<in> set (drop i as). session_mem w a \<noteq> None \<Longrightarrow>
     \<exists>w'. cleanup_loop w l i n = Some w' \<and> g_session_list w' = g_session_list w \<and>
       session_mem w' = (session_mem w) |` (- set (drop i as)) \<and>
       deleted_trans w' = deleted_trans w @ concat (map (\<lambda>a. item_trans (the (session_mem w a))) (drop i as))"
proof (induction n arbitrary: i w)
  case 0
  then show ?case by simp
next
  case (Suc n)
  let ?a = "as ! i"
  have i: "i < length as" "drop i as = ?a # drop (Suc i) as"
    using Suc.prems(1) by (simp_all add: Cons_nth_drop_Suc)
  have notin: "?a \<notin> set (drop (Suc i) as)"
    using assms(3) i by (metis distinct.simps(2) distinct_drop)
  have get: "list_get_item l (int i) = Some (Some ?a)"
    using list_get_item_ok [OF assms(1), of i] length_xlist_contents [OF assms(1)] assms(2) i(1) by simp
  obtain si where si: "session_mem w ?a = Some si"
    using Suc.prems(2) i(2) by auto
  obtain w1 where w1: "free_session w (Some ?a) = Some w1" "session_mem w1 = (session_mem w)(?a := None)"
    "g_session_list w1 = g_session_list w" "deleted_trans w1 = deleted_trans w @ item_trans si"
    using free_session_ok [OF si] by (auto simp: item_trans_def)
  have "\<forall>a \<in> set (drop (Suc i) as). session_mem w1 a \<noteq> None"
    using Suc.prems(2) i(2) w1(2) notin by auto
  then obtain w2 where w2: "cleanup_loop w1 l (Suc i) n = Some w2" "g_session_list w2 = g_session_list w1"
    "session_mem w2 = (session_mem w1) |` (- set (drop (Suc i) as))"
    "deleted_trans w2 = deleted_trans w1 @ concat (map (\<lambda>a. item_trans (the (session_mem w1 a))) (drop (Suc i) as))"
    using Suc.IH [of "Suc i" w1] Suc.prems(1) by auto
  have "concat (map (\<lambda>a. item_trans (the (session_mem w1 a))) (drop (Suc i) as)) =
        concat (map (\<lambda>a. item_trans (the (session_mem w a))) (drop (Suc i) as))"
    using w1(2) notin by (intro arg_cong [where f = concat] map_cong) auto
  moreover have "session_mem w2 = (session_mem w) |` (- set (drop i as))"
    using w2(3) w1(2) i(2) by (auto simp: restrict_map_def)
  ultimately show ?case
    using get w1 w2 i(2) si by simp
qed

lemma session_list_cleanup_ok:
  assumes "session_table w l as"
  shows "\<exists>w'. session_list_cleanup w = Some w' \<and> g_session_list w' = None \<and> session_mem w' = Map.empty \<and>
     deleted_trans w' = deleted_trans w @ concat (map (\<lambda>(a, si). item_trans si) (view w as))"
proof -
  have t: "xlist_inv l" "xlist_contents l = map Some as" "distinct as" "dom (session_mem w) = set as"
    "\<not> auto_free l" "g_session_list w = Some l"
    using assms by (auto simp: ptr_table_def)
  obtain w' where "cleanup_loop w l 0 (xlist.count l) = Some w'"
    "session_mem w' = (session_mem w) |` (- set as)"
    "deleted_trans w' = deleted_trans w @ concat (map (\<lambda>a. item_trans (the (session_mem w a))) as)"
    using cleanup_loop_ok [OF t(1-3), of 0 "xlist.count l" w] t(4) ptr_table_count [OF assms] by auto
  moreover have "(session_mem w) |` (- set as) = Map.empty"
    using t(4) by (intro ext) (auto simp: restrict_map_def dom_def)
  ultimately show ?thesis
    using t by (auto simp: session_list_cleanup_def list_delete_def ptr_view_def comp_def)
qed

subsection \<open>Polling\<close>

definition poll_ok :: "(session_item \<Rightarrow> (int \<times> session_item) option) \<Rightarrow> session_item \<Rightarrow> bool" where
  "poll_ok poll si \<longleftrightarrow> SESSION_IN_USE si \<longrightarrow>
     (\<exists>rv si'. poll si = Some (rv, si') \<and> si_sesexec_trans si' \<noteq> None)"

definition polled :: "(session_item \<Rightarrow> (int \<times> session_item) option) \<Rightarrow> session_item \<Rightarrow> session_item" where
  "polled poll si = the (poll_session poll si)"

lemma poll_session_ok: "poll_ok poll si \<Longrightarrow> poll_session poll si = Some (polled poll si)"
  by (auto simp: poll_ok_def polled_def poll_session_def set_trans_down_def)

definition mem_polled ::
  "(session_item \<Rightarrow> (int \<times> session_item) option) \<Rightarrow> nat set \<Rightarrow> (nat \<Rightarrow> session_item option) \<Rightarrow> nat \<Rightarrow> session_item option" where
  "mem_polled poll A m a =
     (if a \<in> A then (case m a of None \<Rightarrow> None
                     | Some si \<Rightarrow> if SESSION_IN_USE (polled poll si) then Some (polled poll si) else None)
      else m a)"

definition survivors :: "(session_item \<Rightarrow> (int \<times> session_item) option) \<Rightarrow> (nat \<Rightarrow> session_item option) \<Rightarrow> nat list \<Rightarrow> nat list" where
  "survivors poll m as = filter (\<lambda>a. SESSION_IN_USE (polled poll (the (m a)))) as"

definition dead_trans :: "(session_item \<Rightarrow> (int \<times> session_item) option) \<Rightarrow> (nat \<Rightarrow> session_item option) \<Rightarrow> nat list \<Rightarrow> ipm_trans list" where
  "dead_trans poll m as =
     concat (map (\<lambda>a. let si = polled poll (the (m a)) in if SESSION_IN_USE si then [] else item_trans si) as)"

lemma check_loop_ok:
  "session_table w l (pre @ post) \<Longrightarrow> \<forall>a \<in> set post. poll_ok poll (the (session_mem w a)) \<Longrightarrow>
   \<exists>w' l'. check_wait_objs_loop poll w l (length pre) = Some w' \<and>
     session_table w' l' (pre @ survivors poll (session_mem w) post) \<and>
     session_mem w' = mem_polled poll (set post) (session_mem w) \<and>
     deleted_trans w' = deleted_trans w @ dead_trans poll (session_mem w) post"
proof (induction post arbitrary: pre w l)
  case Nil
  then show ?case
    using ptr_table_count [of "g_session_list w" "session_mem w" l pre]
    by (subst check_wait_objs_loop.simps)
      (auto simp: survivors_def dead_trans_def mem_polled_def intro!: exI [of _ w])
next
  case (Cons a post)
  let ?i = "length pre"
  let ?as = "pre @ a # post"
  have t: "xlist_inv l" "xlist_contents l = map Some ?as" "distinct ?as" "dom (session_mem w) = set ?as"
    "\<not> auto_free l" "g_session_list w = Some l" "xlist.count l = length ?as"
    using Cons.prems(1) ptr_table_count [OF Cons.prems(1)] by (auto simp: ptr_table_def)
  obtain si where si: "session_mem w a = Some si"
    using t(4) by (metis domD in_set_conv_decomp)
  let ?si = "polled poll si"
  have at: "session_at w l ?i = Some (a, si)" "poll_session poll si = Some ?si"
    using ptr_at_ok [OF Cons.prems(1), of ?i] si Cons.prems(2) poll_session_ok [of poll si]
    by (auto simp: ptr_view_def nth_append)
  let ?w1 = "w\<lparr>session_mem := (session_mem w)(a \<mapsto> ?si)\<rparr>"
  have other: "b \<in> set post \<Longrightarrow> b \<noteq> a" for b
    using t(3) by auto
  show ?case
  proof (cases "SESSION_IN_USE ?si")
    case True
    have "session_table ?w1 l ((pre @ [a]) @ post)"
      using t by (auto simp: ptr_table_def)
    moreover have "\<forall>b \<in> set post. poll_ok poll (the (session_mem ?w1 b))"
      using Cons.prems(2) other by auto
    ultimately obtain w' l' where w': "check_wait_objs_loop poll ?w1 l (length (pre @ [a])) = Some w'"
      "session_table w' l' ((pre @ [a]) @ survivors poll (session_mem ?w1) post)"
      "session_mem w' = mem_polled poll (set post) (session_mem ?w1)"
      "deleted_trans w' = deleted_trans ?w1 @ dead_trans poll (session_mem ?w1) post"
      using Cons.IH [of ?w1 l "pre @ [a]"] by blast
    have "survivors poll (session_mem w) (a # post) = a # survivors poll (session_mem ?w1) post"
      "dead_trans poll (session_mem w) (a # post) = dead_trans poll (session_mem ?w1) post"
      using True si other by (auto simp: survivors_def dead_trans_def cong: map_cong filter_cong)
    moreover have "mem_polled poll (set post) (session_mem ?w1) = mem_polled poll (set (a # post)) (session_mem w)"
      using True si other by (intro ext) (auto simp: mem_polled_def)
    moreover have "check_wait_objs_loop poll w l ?i = Some w'"
      using w'(1) at t(7) True by (subst check_wait_objs_loop.simps) (simp add: Let_def)
    ultimately show ?thesis
      using w' by (intro exI [of _ w'] exI [of _ l']) simp
  next
    case False
    obtain w2 where w2: "free_session ?w1 (Some a) = Some w2" "session_mem w2 = (session_mem w)(a := None)"
      "g_session_list w2 = Some l" "deleted_trans w2 = deleted_trans w @ item_trans ?si"
      using free_session_ok [of ?w1 a ?si] t(6) by (auto simp: item_trans_def)
    obtain l1 where l1: "list_remove_item l (int ?i) = Some ([], l1)" "xlist_inv l1" "\<not> auto_free l1"
      "xlist_contents l1 = map Some (pre @ post)" "xlist.count l1 < xlist.count l"
      using list_remove_item_ok [OF t(1), of "int ?i"] t by auto
    let ?w3 = "w2\<lparr>g_session_list := Some l1\<rparr>"
    have "session_table ?w3 l1 (pre @ post)"
      using t w2 l1 by (auto simp: ptr_table_def)
    moreover have "\<forall>b \<in> set post. poll_ok poll (the (session_mem ?w3 b))"
      using Cons.prems(2) other w2(2) by auto
    ultimately obtain w' l' where w': "check_wait_objs_loop poll ?w3 l1 ?i = Some w'"
      "session_table w' l' (pre @ survivors poll (session_mem ?w3) post)"
      "session_mem w' = mem_polled poll (set post) (session_mem ?w3)"
      "deleted_trans w' = deleted_trans ?w3 @ dead_trans poll (session_mem ?w3) post"
      using Cons.IH [of ?w3 l1 pre] by blast
    have "survivors poll (session_mem w) (a # post) = survivors poll (session_mem ?w3) post"
      "dead_trans poll (session_mem w) (a # post) = item_trans ?si @ dead_trans poll (session_mem ?w3) post"
      using False si other w2(2)
      by (auto simp: survivors_def dead_trans_def Let_def cong: map_cong filter_cong)
    moreover have "mem_polled poll (set post) (session_mem ?w3) = mem_polled poll (set (a # post)) (session_mem w)"
      using False si other w2(2) by (intro ext) (auto simp: mem_polled_def)
    moreover have "check_wait_objs_loop poll w l ?i = Some w'"
      using w'(1) at t(7) False w2(1) l1 by (subst check_wait_objs_loop.simps) (simp add: Let_def)
    ultimately show ?thesis
      using w' w2(4) by (intro exI [of _ w'] exI [of _ l']) simp
  qed
qed

lemma session_list_get_byuid_ok:
  fixes uid :: "int option"
  assumes "session_table w l as"
  defines "sel \<equiv> filter (uid_selected uid) (map snd (view w as))"
  shows "session_list_get_byuid alloc_ok dup w uid 0 =
     Some (if sel \<noteq> [] \<and> alloc_ok \<and> fill_ok dup 0 sel then (Some (infos_from dup 0 sel), length sel, [])
           else (None, 0, []))"
proof -
  have n: "byuid_count w l uid 0 (xlist.count l) 0 = Some (length sel)"
    using byuid_count_eq [OF assms(1), of 0 "xlist.count l" _ uid 0] ptr_table_count [OF assms(1)]
    by (simp add: sel_def)
  obtain sess where fill: "byuid_fill w l uid dup 0 (xlist.count l) 0 (replicate (length sel) empty_info) =
      Some (fill_ok dup 0 sel, sess)" "fill_ok dup 0 sel \<longrightarrow> sess = infos_from dup 0 sel"
    using byuid_fill_eq [OF assms(1), of 0 "xlist.count l" _ "replicate (length sel) empty_info" "[]" uid dup]
      ptr_table_count [OF assms(1)]
    by (auto simp: sel_def simp del: length_filter_map)
  show ?thesis
    using n fill assms(1)
    by (cases "sel = []") (auto simp: session_list_get_byuid_def ptr_table_def free_session_info_list_def)
qed

lemma session_list_get_byguid_ok:
  "session_table w l as \<Longrightarrow>
     session_list_get_byguid w g = Some (find (\<lambda>(a, si). SESSION_IN_USE si \<and> g = si_guid si) (view w as))"
  using byguid_loop_eq [of w l as 0 "xlist.count l"] ptr_table_count [of "g_session_list w" "session_mem w" l as]
  by (simp add: session_list_get_byguid_def ptr_table_def)

lemma session_list_displays_ok:
  assumes "session_table w l as" and "set_wf s" and "\<forall>si \<in> set (map snd (view w as)). display_defined si"
  shows "\<exists>s'. session_list_get_session_x11_displays w (Some s) = Some (Some s') \<and> set_wf s' \<and>
     set_min s' = set_min s \<and> set_max s' = set_max s \<and>
     set_elems s' = set_elems s \<union> displays_in s (map snd (view w as))"
  using displays_loop_ok [OF assms(1), of 0 "xlist.count l" "view w as" s] ptr_table_count [OF assms(1)] assms
  by (simp add: session_list_get_session_x11_displays_def ptr_table_def)

lemma session_list_count_ok:
  "session_table w l as \<Longrightarrow> session_list_get_count w = length as"
  by (frule ptr_table_count) (simp add: session_list_get_count_def ptr_table_def)

subsection \<open>The claims\<close>

text \<open>The fields a policy asks a session to agree on.\<close>

datatype policy_field = PF_user | PF_bpp | PF_size | PF_ip | PF_name

definition policy_fields :: "32 word \<Rightarrow> policy_field set" where
  "policy_fields pol =
     (if bit pol 0 then {PF_user, PF_bpp}
      else {f. case f of PF_user \<Rightarrow> bit pol 2 | PF_bpp \<Rightarrow> bit pol 3 | PF_size \<Rightarrow> bit pol 4
                       | PF_ip \<Rightarrow> bit pol 5 | PF_name \<Rightarrow> bit pol 6})"

fun agrees :: "session_key \<Rightarrow> session_item \<Rightarrow> policy_field \<Rightarrow> bool" where
  "agrees k si PF_user \<longleftrightarrow> si_uid si = k_uid k"
| "agrees k si PF_bpp \<longleftrightarrow> si_bpp si = k_bpp k"
| "agrees k si PF_size \<longleftrightarrow> si_start_width si = k_width k \<and> si_start_height si = k_height k"
| "agrees k si PF_ip \<longleftrightarrow> si_start_ip_addr si = k_ip_addr k"
| "agrees k si PF_name \<longleftrightarrow> si_xrdp_instance_name si = k_instance_name k"

lemma policy_bits:
  "(pol :: 32 word) AND 1 \<noteq> 0 \<longleftrightarrow> bit pol 0" "pol AND 2 \<noteq> 0 \<longleftrightarrow> bit pol 1" "pol AND 4 \<noteq> 0 \<longleftrightarrow> bit pol 2"
  "pol AND 8 \<noteq> 0 \<longleftrightarrow> bit pol 3" "pol AND 16 \<noteq> 0 \<longleftrightarrow> bit pol 4" "pol AND 32 \<noteq> 0 \<longleftrightarrow> bit pol 5"
  "pol AND 64 \<noteq> 0 \<longleftrightarrow> bit pol 6"
  using and_exp_eq_0_iff_not_bit [of pol 0] and_exp_eq_0_iff_not_bit [of pol 1]
    and_exp_eq_0_iff_not_bit [of pol 2] and_exp_eq_0_iff_not_bit [of pol 3]
    and_exp_eq_0_iff_not_bit [of pol 4] and_exp_eq_0_iff_not_bit [of pol 5]
    and_exp_eq_0_iff_not_bit [of pol 6]
  by simp_all

lemma all_policy_field:
  "(\<forall>f. P f) \<longleftrightarrow> P PF_user \<and> P PF_bpp \<and> P PF_size \<and> P PF_ip \<and> P PF_name"
  by (metis policy_field.exhaust)

lemma session_matches_iff:
  "bit pol 0 \<Longrightarrow> session_matches 12 k si \<longleftrightarrow>
     SESSION_IN_USE si \<and> si_type si = k_type k \<and> (\<forall>f \<in> policy_fields pol. agrees k si f)"
  "\<not> bit pol 0 \<Longrightarrow> session_matches pol k si \<longleftrightarrow>
     SESSION_IN_USE si \<and> si_type si = k_type k \<and> (\<forall>f \<in> policy_fields pol. agrees k si f)"
proof -
  have "bit (12 :: 32 word) 2" "bit (12 :: 32 word) 3" "\<not> bit (12 :: 32 word) 4"
    "\<not> bit (12 :: 32 word) 5" "\<not> bit (12 :: 32 word) 6" by simp_all
  then show "session_matches 12 k si \<longleftrightarrow>
     SESSION_IN_USE si \<and> si_type si = k_type k \<and> (\<forall>f \<in> policy_fields pol. agrees k si f)" if "bit pol 0"
    using that by (simp add: session_matches_def policy_bits policy_fields_def)
  show "session_matches pol k si \<longleftrightarrow>
     SESSION_IN_USE si \<and> si_type si = k_type k \<and> (\<forall>f \<in> policy_fields pol. agrees k si f)" if "\<not> bit pol 0"
    using that by (simp add: session_matches_def policy_bits policy_fields_def Ball_def all_policy_field) metis
qed

lemma session_list_get_bydata_eq:
  assumes "session_table w l as"
  shows "session_list_get_bydata cfg w uid ty width height bpp (Some ip) (Some inst) =
     Some (if \<not> bit (policy cfg) 0 \<and> bit (policy cfg) 1 then None
           else find (\<lambda>(a, si). SESSION_IN_USE si \<and> si_type si = ty \<and>
             (\<forall>f \<in> policy_fields (policy cfg).
                agrees \<lparr>k_uid = uid, k_type = ty, k_width = width, k_height = height, k_bpp = bpp,
                        k_ip_addr = ip, k_instance_name = inst\<rparr> si f)) (view w as))"
proof -
  let ?k = "\<lparr>k_uid = uid, k_type = ty, k_width = width, k_height = height, k_bpp = bpp,
                        k_ip_addr = ip, k_instance_name = inst\<rparr>"
  let ?pol = "if bit (policy cfg) 0 then 12 else policy cfg"
  have "\<not> bit (12 :: 32 word) 1" by simp
  moreover have "g_session_list w = Some l" "xlist.count l = length as"
    using assms ptr_table_count [OF assms] by (auto simp: ptr_table_def)
  moreover have "(\<lambda>(a :: nat, si). session_matches ?pol ?k si) =
      (\<lambda>(a, si). SESSION_IN_USE si \<and> si_type si = ty \<and> (\<forall>f \<in> policy_fields (policy cfg). agrees ?k si f))"
    by (cases "bit (policy cfg) 0") (simp_all add: fun_eq_iff session_matches_iff [of "policy cfg"])
  ultimately show ?thesis
    using bydata_loop_eq [OF assms, of 0 "xlist.count l" "view w as" ?pol ?k]
    by (simp add: session_list_get_bydata_def Let_def policy_bits split: if_splits)
qed

text \<open>Two sessions of different users, the second with a transport that is down.\<close>

definition ex_session :: "int \<Rightarrow> int \<Rightarrow> session_item" where
  "ex_session uid status = new_session_item\<lparr>si_state := E_SESSION_RUNNING,
     si_sesexec_trans := Some ((up_trans [])\<lparr>t_status := status\<rparr>), si_display := x11_display_name 10,
     si_uid := uid, si_type := SCP_SESSION_TYPE_XORG, si_bpp := 24\<rparr>"

definition ex_table :: "nat xlist" where
  "ex_table = \<lparr>items = [Some 7, Some 9], count = 2, alloc_size = 2, grow_by = 10, auto_free = False\<rparr>"

definition ex_world :: session_world where
  "ex_world = \<lparr>g_session_list = Some ex_table,
     session_mem = [7 \<mapsto> ex_session 1000 1, 9 \<mapsto> ex_session 1001 0], deleted_trans = []\<rparr>"

lemma ex_world_table: "session_table ex_world ex_table [7, 9]"
  by (auto simp: ptr_table_def ex_world_def ex_table_def xlist_inv_def xlist_contents_def)

text \<open>
  The search for a session to reuse: it returns the first session of the table, in
  order of creation, that is in use, has the requested type and agrees with the request on
  every field of the configured policy (user and colour depth for the default policy); with
  the policy \<^verbatim>\<open>Separate\<close>, or when no session qualifies, it returns none. It never fails.
\<close>

lemma session_list_get_bydata_correct:
  assumes "session_table w l as"
  shows "session_list_get_bydata cfg w uid ty width height bpp (Some ip) (Some inst) =
     Some (if \<not> bit (policy cfg) 0 \<and> bit (policy cfg) 1 then None
           else find (\<lambda>(a, si). SESSION_IN_USE si \<and> si_type si = ty \<and>
             (\<forall>f \<in> policy_fields (policy cfg).
                agrees \<lparr>k_uid = uid, k_type = ty, k_width = width, k_height = height, k_bpp = bpp,
                        k_ip_addr = ip, k_instance_name = inst\<rparr> si f)) (view w as))"
  by (rule session_list_get_bydata_eq [OF assms])

lemma session_list_get_bydata_correct_witness:
  "session_list_get_bydata \<lparr>x11_display_offset = 10, max_display_number = 63, max_sessions = 50, policy = 1\<rparr>
     ex_world 1000 2 800 600 24 (Some []) (Some []) = Some (Some (7, ex_session 1000 1))"
  using session_list_get_bydata_correct [OF ex_world_table,
      of "\<lparr>x11_display_offset = 10, max_display_number = 63, max_sessions = 50, policy = 1\<rparr>" 1000 2 800 600 24 "[]" "[]"]
  by (simp add: policy_fields_def ptr_view_def ex_world_def ex_session_def SESSION_IN_USE_def up_trans_def)

text \<open>
  C9. Polling the sessions terminates and leaves exactly the sessions still in use, in their
  order, each as its handler left it; every other item is removed from the list, freed, and
  its transport deleted once. The handler may fail or take the transport down, as long as it
  leaves the item a transport.
\<close>

theorem session_list_check_wait_objs_correct:
  assumes "session_table w l as" and "\<forall>a \<in> set as. poll_ok poll (the (session_mem w a))"
  shows "\<exists>w' l'. session_list_check_wait_objs poll w = Some (0, w') \<and>
     session_table w' l' (survivors poll (session_mem w) as) \<and>
     (\<forall>a \<in> set (survivors poll (session_mem w) as).
        session_mem w' a = Some (polled poll (the (session_mem w a)))) \<and>
     deleted_trans w' = deleted_trans w @ dead_trans poll (session_mem w) as"
proof -
  have "g_session_list w = Some l" "\<forall>a \<in> set as. session_mem w a \<noteq> None"
    using assms(1) by (auto simp: ptr_table_def)
  moreover obtain w' l' where "check_wait_objs_loop poll w l 0 = Some w'"
    "session_table w' l' (survivors poll (session_mem w) as)"
    "session_mem w' = mem_polled poll (set as) (session_mem w)"
    "deleted_trans w' = deleted_trans w @ dead_trans poll (session_mem w) as"
    using check_loop_ok [of w l "[]" as poll] assms by auto
  ultimately show ?thesis
    by (intro exI [of _ w'] exI [of _ l'])
      (auto simp: session_list_check_wait_objs_def mem_polled_def survivors_def)
qed

lemma session_list_check_wait_objs_correct_witness:
  "\<exists>w' l'. session_list_check_wait_objs (\<lambda>si. Some (0, si\<lparr>si_bpp := 16\<rparr>)) ex_world = Some (0, w') \<and>
     session_table w' l' [7] \<and> session_mem w' 7 = Some ((ex_session 1000 1)\<lparr>si_bpp := 16\<rparr>) \<and>
     deleted_trans w' = [(up_trans [])\<lparr>t_status := 0\<rparr>]"
proof -
  let ?poll = "\<lambda>si. Some (0, si\<lparr>si_bpp := 16\<rparr>)"
  have ok: "\<forall>a \<in> set [7, 9]. poll_ok ?poll (the (session_mem ex_world a))"
    by (simp add: poll_ok_def ex_world_def ex_session_def)
  have p: "polled ?poll (ex_session 1000 1) = (ex_session 1000 1)\<lparr>si_bpp := 16\<rparr>"
    "polled ?poll (ex_session 1001 0) = ex_session 1001 0"
    by (simp_all add: polled_def poll_session_def SESSION_IN_USE_def ex_session_def up_trans_def)
  have m: "session_mem ex_world 7 = Some (ex_session 1000 1)" "session_mem ex_world 9 = Some (ex_session 1001 0)"
    "deleted_trans ex_world = []"
    by (simp_all add: ex_world_def)
  have u: "SESSION_IN_USE ((ex_session 1000 1)\<lparr>si_bpp := 16\<rparr>)" "\<not> SESSION_IN_USE (ex_session 1001 0)"
    "item_trans (ex_session 1001 0) = [(up_trans [])\<lparr>t_status := 0\<rparr>]"
    by (simp_all add: SESSION_IN_USE_def ex_session_def up_trans_def item_trans_def)
  show ?thesis
    using session_list_check_wait_objs_correct [OF ex_world_table ok]
    by (simp add: survivors_def dead_trans_def m p u Let_def)
qed

end
