(* ===== verification/Eicp.thy ===== *)
theory Eicp
  imports Ipm_Protocol
begin

text \<open>
  \<^verbatim>\<open>libipm/eicp.c\<close>: the protocol that sets up a sesexec process (login and session creation).
\<close>

abbreviation (input) E_EICP_SYS_LOGIN_REQUEST :: int where "E_EICP_SYS_LOGIN_REQUEST \<equiv> 0"
abbreviation (input) E_EICP_SYS_LOGIN_RESPONSE :: int where "E_EICP_SYS_LOGIN_RESPONSE \<equiv> 1"
abbreviation (input) E_EICP_UDS_LOGIN_REQUEST :: int where "E_EICP_UDS_LOGIN_REQUEST \<equiv> 2"
abbreviation (input) E_EICP_LOGOUT_REQUEST :: int where "E_EICP_LOGOUT_REQUEST \<equiv> 3"
abbreviation (input) E_EICP_CREATE_SESSION_REQUEST :: int where "E_EICP_CREATE_SESSION_REQUEST \<equiv> 4"
abbreviation (input) E_EICP_CREATE_SESSION_RESPONSE :: int where "E_EICP_CREATE_SESSION_RESPONSE \<equiv> 5"

text \<open>There is no name for \<^verbatim>\<open>E_EICP_UDS_LOGIN_REQUEST\<close>.\<close>

definition eicp_msgno_str :: "int \<Rightarrow> string option" where
  "eicp_msgno_str n =
     (if n = E_EICP_SYS_LOGIN_REQUEST then Some ''EICP_SYS_LOGIN_REQUEST''
      else if n = E_EICP_SYS_LOGIN_RESPONSE then Some ''EICP_SYS_LOGIN_RESPONSE''
      else if n = E_EICP_LOGOUT_REQUEST then Some ''EICP_LOGOUT_REQUEST''
      else if n = E_EICP_CREATE_SESSION_REQUEST then Some ''EICP_CREATE_SESSION_REQUEST''
      else if n = E_EICP_CREATE_SESSION_RESPONSE then Some ''EICP_CREATE_SESSION_RESPONSE''
      else None)"

definition eicp_init_trans :: "ipm_env \<Rightarrow> bool \<Rightarrow> bool \<Rightarrow> ipm_trans \<Rightarrow> (libipm_status \<times> ipm_trans) option" where
  "eicp_init_trans env alloc_ok has_destructor tr =
     libipm_init_trans (fresh_mem env) alloc_ok has_destructor tr LIBIPM_FAC_EICP"

definition eicp_init_trans_from_fd ::
  "ipm_env \<Rightarrow> bool \<Rightarrow> ipm_trans option \<Rightarrow> int \<Rightarrow> int \<Rightarrow> ipm_trans option option" where
  "eicp_init_trans_from_fd env alloc_ok created fd trans_type =
     init_trans_from_fd env alloc_ok created LIBIPM_FAC_EICP fd trans_type"

definition eicp_msg_in_get_msgno :: "ipm_trans \<Rightarrow> int" where
  "eicp_msg_in_get_msgno tr = libipm_msg_in_get_msgno tr"

subsection \<open>Messages\<close>

text \<open>The output buffer holds a password; it is erased whatever the send returned.\<close>

definition eicp_send_sys_login_request ::
  "ipm_env \<Rightarrow> ipm_trans \<Rightarrow> byte list \<Rightarrow> byte list \<Rightarrow> byte list \<Rightarrow> int \<Rightarrow> (libipm_status \<times> ipm_trans) option" where
  "eicp_send_sys_login_request env tr username password ip_addr scp_fd =
     do { (rv, tr) \<leftarrow> simple_send env tr E_EICP_SYS_LOGIN_REQUEST
            [(T_s, Arg_str (Some username)), (T_s, Arg_str (Some password)),
             (T_s, Arg_str (Some ip_addr)), (T_h, Arg_int scp_fd)];
          tr \<leftarrow> libipm_msg_out_erase tr;
          Some (rv, tr) }"

definition eicp_get_sys_login_request ::
  "ipm_trans \<Rightarrow> (libipm_status \<times> (byte list \<times> byte list \<times> byte list \<times> int) option \<times> ipm_trans) option" where
  "eicp_get_sys_login_request tr =
     do { let tr = libipm_set_flags tr LIBIPM_E_MSG_IN_ERASE_AFTER_USE;
          (rv, vs, ds, tr) \<leftarrow> libipm_msg_in_parse tr (Some [T_s, T_s, T_s, T_h]) [D_str, D_str, D_str, D_int];
          if rv = E_LI_SUCCESS
          then do { u \<leftarrow> out_str vs 0; p \<leftarrow> out_str vs 1; ip \<leftarrow> out_str vs 2; fd \<leftarrow> out_num vs 3;
                    Some (rv, Some (u, p, ip, fd), tr) }
          else Some (rv, None, tr) }"

definition eicp_send_sys_login_response ::
  "ipm_env \<Rightarrow> ipm_trans \<Rightarrow> int \<Rightarrow> int \<Rightarrow> int \<Rightarrow> (libipm_status \<times> ipm_trans) option" where
  "eicp_send_sys_login_response env tr is_logged_in uid scp_fd =
     (if is_logged_in \<noteq> 0
      then simple_send env tr E_EICP_SYS_LOGIN_RESPONSE [(T_b, Arg_int 1), (T_i, Arg_32 uid), (T_h, Arg_int scp_fd)]
      else simple_send env tr E_EICP_SYS_LOGIN_RESPONSE [(T_b, Arg_int 0)])"

text \<open>
  Two parses: a guard, then the rest of the message if the guard is set. \<^verbatim>\<open>(uid_t) -1\<close> is
  $2^{32} - 1$.
\<close>

definition eicp_get_sys_login_response ::
  "ipm_trans \<Rightarrow> (libipm_status \<times> (int \<times> int \<times> int) option \<times> ipm_trans) option" where
  "eicp_get_sys_login_response tr =
     do { (rv, vs, ds, tr) \<leftarrow> libipm_msg_in_parse tr (Some [T_b]) [D_int];
          if rv = E_LI_SUCCESS
          then do { is_logged_in \<leftarrow> out_num vs 0;
                    if is_logged_in \<noteq> 0
                    then do { (rv, vs, ds, tr) \<leftarrow> libipm_msg_in_parse tr (Some [T_i, T_h]) [D_u32, D_int];
                              if rv = E_LI_SUCCESS
                              then do { uid \<leftarrow> out_num vs 0; fd \<leftarrow> out_num vs 1;
                                        Some (rv, Some (is_logged_in, c_uint (c_int uid), fd), tr) }
                              else Some (rv, None, tr) }
                    else Some (rv, Some (is_logged_in, c_uint (- 1), - 1), tr) }
          else Some (rv, None, tr) }"

definition eicp_send_uds_login_request ::
  "ipm_env \<Rightarrow> ipm_trans \<Rightarrow> int \<Rightarrow> (libipm_status \<times> ipm_trans) option" where
  "eicp_send_uds_login_request env tr scp_fd =
     simple_send env tr E_EICP_UDS_LOGIN_REQUEST [(T_h, Arg_int scp_fd)]"

definition eicp_get_uds_login_request :: "ipm_trans \<Rightarrow> (libipm_status \<times> int option \<times> ipm_trans) option" where
  "eicp_get_uds_login_request tr =
     do { (rv, vs, ds, tr) \<leftarrow> libipm_msg_in_parse tr (Some [T_h]) [D_int];
          if rv = E_LI_SUCCESS then do { fd \<leftarrow> out_num vs 0; Some (rv, Some fd, tr) }
          else Some (rv, None, tr) }"

definition eicp_send_logout_request :: "ipm_env \<Rightarrow> ipm_trans \<Rightarrow> (libipm_status \<times> ipm_trans) option" where
  "eicp_send_logout_request env tr = simple_send_empty env tr E_EICP_LOGOUT_REQUEST"

record create_request =
  c_type :: int
  c_width :: int
  c_height :: int
  c_bpp :: int
  c_shell :: "byte list"
  c_directory :: "byte list"
  c_instance_name :: "byte list"

definition create_params :: "create_request \<Rightarrow> (byte \<times> c_arg) list" where
  "create_params c =
     [(T_y, Arg_int (c_type c)), (T_q, Arg_int (c_width c)), (T_q, Arg_int (c_height c)),
      (T_y, Arg_int (c_bpp c)), (T_s, Arg_str (Some (c_shell c))),
      (T_s, Arg_str (Some (c_directory c))), (T_s, Arg_str (Some (c_instance_name c)))]"

definition eicp_send_create_session_request ::
  "ipm_env \<Rightarrow> ipm_trans \<Rightarrow> int \<Rightarrow> create_request \<Rightarrow> (libipm_status \<times> ipm_trans) option" where
  "eicp_send_create_session_request env tr x11_display c =
     simple_send env tr E_EICP_CREATE_SESSION_REQUEST ((T_i, Arg_32 x11_display) # create_params c)"

text \<open>The colour depth of an Xorg session is fixed.\<close>

definition session_bpp :: "int \<Rightarrow> int \<Rightarrow> int" where
  "session_bpp ty bpp = (if ty = SCP_SESSION_TYPE_XORG then 24 else bpp)"

definition eicp_get_create_session_request ::
  "ipm_trans \<Rightarrow> (libipm_status \<times> (int \<times> create_request) option \<times> ipm_trans) option" where
  "eicp_get_create_session_request tr =
     do { (rv, vs, ds, tr) \<leftarrow> libipm_msg_in_parse tr (Some [T_i, T_y, T_q, T_q, T_y, T_s, T_s, T_s])
            [D_u32, D_u8, D_u16, D_u16, D_u8, D_str, D_str, D_str];
          if rv = E_LI_SUCCESS
          then do { x \<leftarrow> out_num vs 0; ty \<leftarrow> out_num vs 1; w \<leftarrow> out_num vs 2; h \<leftarrow> out_num vs 3;
                    bpp \<leftarrow> out_num vs 4; shell \<leftarrow> out_str vs 5; dir \<leftarrow> out_str vs 6; inst \<leftarrow> out_str vs 7;
                    Some (rv, Some (c_int x, \<lparr>c_type = ty, c_width = w, c_height = h,
                       c_bpp = session_bpp ty bpp, c_shell = shell, c_directory = dir,
                       c_instance_name = inst\<rparr>), tr) }
          else Some (rv, None, tr) }"

definition created_params :: "int \<Rightarrow> byte list \<Rightarrow> guid \<Rightarrow> (byte \<times> c_arg) list" where
  "created_params status display guid =
     [(T_i, Arg_32 status), (T_s, Arg_str (Some display)), (T_B, Arg_fsb (Some guid))]"

definition eicp_send_create_session_response ::
  "ipm_env \<Rightarrow> ipm_trans \<Rightarrow> int \<Rightarrow> byte list \<Rightarrow> guid \<Rightarrow> (libipm_status \<times> ipm_trans) option" where
  "eicp_send_create_session_response env tr status display guid =
     simple_send env tr E_EICP_CREATE_SESSION_RESPONSE (created_params status display guid)"

definition eicp_get_create_session_response ::
  "ipm_trans \<Rightarrow> (libipm_status \<times> (int \<times> byte list \<times> guid) option \<times> ipm_trans) option" where
  "eicp_get_create_session_response tr =
     do { (rv, vs, ds, tr) \<leftarrow> libipm_msg_in_parse tr (Some [T_i, T_s, T_B]) [D_u32, D_str, D_fsb (Some GUID_SIZE)];
          if rv = E_LI_SUCCESS
          then do { st \<leftarrow> out_num vs 0; display \<leftarrow> out_str vs 1; guid \<leftarrow> out_fsb vs 2;
                    Some (rv, Some (c_int st, display, guid), tr) }
          else Some (rv, None, tr) }"

end
