(* ===== verification/Scp.thy ===== *)
theory Scp
  imports Eicp String_Calls
begin

text \<open>
  \<^verbatim>\<open>libipm/scp.c\<close>: the protocol between sesman and its clients (xrdp, the session tools).
\<close>

abbreviation (input) E_SCP_SET_PEERNAME_REQUEST :: int where "E_SCP_SET_PEERNAME_REQUEST \<equiv> 1"
abbreviation (input) E_SCP_SYS_LOGIN_REQUEST :: int where "E_SCP_SYS_LOGIN_REQUEST \<equiv> 2"
abbreviation (input) E_SCP_UDS_LOGIN_REQUEST :: int where "E_SCP_UDS_LOGIN_REQUEST \<equiv> 3"
abbreviation (input) E_SCP_LOGIN_RESPONSE :: int where "E_SCP_LOGIN_RESPONSE \<equiv> 4"
abbreviation (input) E_SCP_LOGOUT_REQUEST :: int where "E_SCP_LOGOUT_REQUEST \<equiv> 5"
abbreviation (input) E_SCP_CREATE_SESSION_REQUEST :: int where "E_SCP_CREATE_SESSION_REQUEST \<equiv> 6"
abbreviation (input) E_SCP_CREATE_SESSION_RESPONSE :: int where "E_SCP_CREATE_SESSION_RESPONSE \<equiv> 7"
abbreviation (input) E_SCP_CONNECT_SESSION_REQUEST :: int where "E_SCP_CONNECT_SESSION_REQUEST \<equiv> 8"
abbreviation (input) E_SCP_CONNECT_SESSION_RESPONSE :: int where "E_SCP_CONNECT_SESSION_RESPONSE \<equiv> 9"
abbreviation (input) E_SCP_LIST_SESSIONS_REQUEST :: int where "E_SCP_LIST_SESSIONS_REQUEST \<equiv> 10"
abbreviation (input) E_SCP_LIST_SESSIONS_RESPONSE :: int where "E_SCP_LIST_SESSIONS_RESPONSE \<equiv> 11"
abbreviation (input) E_SCP_CREATE_SOCKDIR_REQUEST :: int where "E_SCP_CREATE_SOCKDIR_REQUEST \<equiv> 12"
abbreviation (input) E_SCP_CREATE_SOCKDIR_RESPONSE :: int where "E_SCP_CREATE_SOCKDIR_RESPONSE \<equiv> 13"
abbreviation (input) E_SCP_CLOSE_CONNECTION_REQUEST :: int where "E_SCP_CLOSE_CONNECTION_REQUEST \<equiv> 14"

abbreviation (input) E_SCP_LOGIN_OK :: int where "E_SCP_LOGIN_OK \<equiv> 0"
abbreviation (input) E_SCP_LOGIN_ALREADY_LOGGED_IN :: int where "E_SCP_LOGIN_ALREADY_LOGGED_IN \<equiv> 1"
abbreviation (input) E_SCP_LOGIN_NO_MEMORY :: int where "E_SCP_LOGIN_NO_MEMORY \<equiv> 2"
abbreviation (input) E_SCP_LOGIN_NOT_AUTHENTICATED :: int where "E_SCP_LOGIN_NOT_AUTHENTICATED \<equiv> 3"
abbreviation (input) E_SCP_LOGIN_NOT_AUTHORIZED :: int where "E_SCP_LOGIN_NOT_AUTHORIZED \<equiv> 4"
abbreviation (input) E_SCP_LOGIN_GENERAL_ERROR :: int where "E_SCP_LOGIN_GENERAL_ERROR \<equiv> 5"

abbreviation (input) E_SCP_SCREATE_OK :: int where "E_SCP_SCREATE_OK \<equiv> 0"
abbreviation (input) E_SCP_SCREATE_NO_MEMORY :: int where "E_SCP_SCREATE_NO_MEMORY \<equiv> 1"
abbreviation (input) E_SCP_SCREATE_NOT_LOGGED_IN :: int where "E_SCP_SCREATE_NOT_LOGGED_IN \<equiv> 2"
abbreviation (input) E_SCP_SCREATE_MAX_REACHED :: int where "E_SCP_SCREATE_MAX_REACHED \<equiv> 3"
abbreviation (input) E_SCP_SCREATE_NO_DISPLAY :: int where "E_SCP_SCREATE_NO_DISPLAY \<equiv> 4"
abbreviation (input) E_SCP_SCREATE_IN_PROGRESS :: int where "E_SCP_SCREATE_IN_PROGRESS \<equiv> 7"
abbreviation (input) E_SCP_SCREATE_GENERAL_ERROR :: int where "E_SCP_SCREATE_GENERAL_ERROR \<equiv> 8"

abbreviation (input) E_SCP_SCONNECT_OK :: int where "E_SCP_SCONNECT_OK \<equiv> 0"
abbreviation (input) E_SCP_SCONNECT_NOT_LOGGED_IN :: int where "E_SCP_SCONNECT_NOT_LOGGED_IN \<equiv> 1"
abbreviation (input) E_SCP_SCONNECT_NO_SUCH_GUID :: int where "E_SCP_SCONNECT_NO_SUCH_GUID \<equiv> 2"
abbreviation (input) E_SCP_SCONNECT_GENERAL_ERROR :: int where "E_SCP_SCONNECT_GENERAL_ERROR \<equiv> 5"

abbreviation (input) E_SCP_LS_SESSION_INFO :: int where "E_SCP_LS_SESSION_INFO \<equiv> 0"
abbreviation (input) E_SCP_LS_END_OF_LIST :: int where "E_SCP_LS_END_OF_LIST \<equiv> 1"
abbreviation (input) E_SCP_LS_NOT_LOGGED_IN :: int where "E_SCP_LS_NOT_LOGGED_IN \<equiv> 100"
abbreviation (input) E_SCP_LS_NO_MEMORY :: int where "E_SCP_LS_NO_MEMORY \<equiv> 101"

abbreviation (input) E_SCP_CS_OK :: int where "E_SCP_CS_OK \<equiv> 0"
abbreviation (input) E_SCP_CS_NOT_LOGGED_IN :: int where "E_SCP_CS_NOT_LOGGED_IN \<equiv> 100"
abbreviation (input) E_SCP_CS_OTHER_ERROR :: int where "E_SCP_CS_OTHER_ERROR \<equiv> 101"

text \<open>The two messages about the socket directory have no name.\<close>

definition scp_msgno_str :: "int \<Rightarrow> string option" where
  "scp_msgno_str n =
     (if n = E_SCP_SET_PEERNAME_REQUEST then Some ''SCP_SET_PEERNAME_REQUEST''
      else if n = E_SCP_SYS_LOGIN_REQUEST then Some ''SCP_SYS_LOGIN_REQUEST''
      else if n = E_SCP_UDS_LOGIN_REQUEST then Some ''SCP_UDS_LOGIN_REQUEST''
      else if n = E_SCP_LOGIN_RESPONSE then Some ''SCP_LOGIN_RESPONSE''
      else if n = E_SCP_LOGOUT_REQUEST then Some ''SCP_LOGOUT_REQUEST''
      else if n = E_SCP_CREATE_SESSION_REQUEST then Some ''SCP_CREATE_SESSION_REQUEST''
      else if n = E_SCP_CREATE_SESSION_RESPONSE then Some ''SCP_CREATE_SESSION_RESPONSE''
      else if n = E_SCP_CONNECT_SESSION_REQUEST then Some ''SCP_CONNECT_SESSION_REQUEST''
      else if n = E_SCP_CONNECT_SESSION_RESPONSE then Some ''SCP_CONNECT_SESSION_RESPONSE''
      else if n = E_SCP_LIST_SESSIONS_REQUEST then Some ''SCP_LIST_SESSIONS_REQUEST''
      else if n = E_SCP_LIST_SESSIONS_RESPONSE then Some ''SCP_LIST_SESSIONS_RESPONSE''
      else if n = E_SCP_CLOSE_CONNECTION_REQUEST then Some ''SCP_CLOSE_CONNECTION_REQUEST''
      else None)"

definition scp_init_trans :: "ipm_env \<Rightarrow> bool \<Rightarrow> bool \<Rightarrow> ipm_trans \<Rightarrow> (libipm_status \<times> ipm_trans) option" where
  "scp_init_trans env alloc_ok has_destructor tr =
     libipm_init_trans (fresh_mem env) alloc_ok has_destructor tr LIBIPM_FAC_SCP"

definition scp_init_trans_from_fd ::
  "ipm_env \<Rightarrow> bool \<Rightarrow> ipm_trans option \<Rightarrow> int \<Rightarrow> int \<Rightarrow> ipm_trans option option" where
  "scp_init_trans_from_fd env alloc_ok created fd trans_type =
     init_trans_from_fd env alloc_ok created LIBIPM_FAC_SCP fd trans_type"

definition scp_msg_in_get_msgno :: "ipm_trans \<Rightarrow> int" where
  "scp_msg_in_get_msgno tr = libipm_msg_in_get_msgno tr"

subsection \<open>Login messages\<close>

definition scp_send_set_peername_request ::
  "ipm_env \<Rightarrow> ipm_trans \<Rightarrow> byte list option \<Rightarrow> (libipm_status \<times> ipm_trans) option" where
  "scp_send_set_peername_request env tr peername =
     simple_send env tr E_SCP_SET_PEERNAME_REQUEST [(T_s, Arg_str peername)]"

definition scp_get_set_peername_request ::
  "ipm_trans \<Rightarrow> (libipm_status \<times> byte list option \<times> ipm_trans) option" where
  "scp_get_set_peername_request tr =
     do { (rv, vs, ds, tr) \<leftarrow> libipm_msg_in_parse tr (Some [T_s]) [D_str];
          if rv = E_LI_SUCCESS then do { s \<leftarrow> out_str vs 0; Some (rv, Some s, tr) }
          else Some (rv, None, tr) }"

definition scp_send_uds_login_request :: "ipm_env \<Rightarrow> ipm_trans \<Rightarrow> (libipm_status \<times> ipm_trans) option" where
  "scp_send_uds_login_request env tr = simple_send_empty env tr E_SCP_UDS_LOGIN_REQUEST"

definition scp_send_sys_login_request ::
  "ipm_env \<Rightarrow> ipm_trans \<Rightarrow> byte list \<Rightarrow> byte list \<Rightarrow> byte list \<Rightarrow> (libipm_status \<times> ipm_trans) option" where
  "scp_send_sys_login_request env tr username password ip_addr =
     do { (rv, tr) \<leftarrow> simple_send env tr E_SCP_SYS_LOGIN_REQUEST
            [(T_s, Arg_str (Some username)), (T_s, Arg_str (Some password)), (T_s, Arg_str (Some ip_addr))];
          tr \<leftarrow> libipm_msg_out_erase tr;
          Some (rv, tr) }"

definition scp_get_sys_login_request ::
  "ipm_trans \<Rightarrow> (libipm_status \<times> (byte list \<times> byte list \<times> byte list) option \<times> ipm_trans) option" where
  "scp_get_sys_login_request tr =
     do { let tr = libipm_set_flags tr LIBIPM_E_MSG_IN_ERASE_AFTER_USE;
          (rv, vs, ds, tr) \<leftarrow> libipm_msg_in_parse tr (Some [T_s, T_s, T_s]) [D_str, D_str, D_str];
          if rv = E_LI_SUCCESS
          then do { u \<leftarrow> out_str vs 0; p \<leftarrow> out_str vs 1; ip \<leftarrow> out_str vs 2;
                    Some (rv, Some (u, p, ip), tr) }
          else Some (rv, None, tr) }"

definition scp_send_login_response ::
  "ipm_env \<Rightarrow> ipm_trans \<Rightarrow> int \<Rightarrow> int \<Rightarrow> int \<Rightarrow> (libipm_status \<times> ipm_trans) option" where
  "scp_send_login_response env tr login_result server_closed uid =
     simple_send env tr E_SCP_LOGIN_RESPONSE
       [(T_i, Arg_32 login_result), (T_b, Arg_int (if server_closed \<noteq> 0 then 1 else 0)), (T_i, Arg_32 uid)]"

text \<open>The two optional out-pointers are replaced by a dummy when NULL; the value is dropped.\<close>

definition scp_get_login_response ::
  "ipm_trans \<Rightarrow> (libipm_status \<times> (int \<times> int \<times> int) option \<times> ipm_trans) option" where
  "scp_get_login_response tr =
     do { (rv, vs, ds, tr) \<leftarrow> libipm_msg_in_parse tr (Some [T_i, T_b, T_i]) [D_u32, D_int, D_u32];
          if rv = E_LI_SUCCESS
          then do { r \<leftarrow> out_num vs 0; closed \<leftarrow> out_num vs 1; uid \<leftarrow> out_num vs 2;
                    Some (rv, Some (c_int r, closed, c_int uid), tr) }
          else Some (rv, None, tr) }"

definition scp_send_logout_request :: "ipm_env \<Rightarrow> ipm_trans \<Rightarrow> (libipm_status \<times> ipm_trans) option" where
  "scp_send_logout_request env tr = simple_send_empty env tr E_SCP_LOGOUT_REQUEST"

subsection \<open>Creating and joining a session\<close>

definition scp_send_create_session_request ::
  "ipm_env \<Rightarrow> ipm_trans \<Rightarrow> create_request \<Rightarrow> (libipm_status \<times> ipm_trans) option" where
  "scp_send_create_session_request env tr c =
     simple_send env tr E_SCP_CREATE_SESSION_REQUEST (create_params c)"

definition scp_get_create_session_request ::
  "ipm_trans \<Rightarrow> (libipm_status \<times> create_request option \<times> ipm_trans) option" where
  "scp_get_create_session_request tr =
     do { (rv, vs, ds, tr) \<leftarrow> libipm_msg_in_parse tr (Some [T_y, T_q, T_q, T_y, T_s, T_s, T_s])
            [D_u8, D_u16, D_u16, D_u8, D_str, D_str, D_str];
          if rv = E_LI_SUCCESS
          then do { ty \<leftarrow> out_num vs 0; w \<leftarrow> out_num vs 1; h \<leftarrow> out_num vs 2; bpp \<leftarrow> out_num vs 3;
                    shell \<leftarrow> out_str vs 4; dir \<leftarrow> out_str vs 5; inst \<leftarrow> out_str vs 6;
                    Some (rv, Some \<lparr>c_type = ty, c_width = w, c_height = h, c_bpp = session_bpp ty bpp,
                       c_shell = shell, c_directory = dir, c_instance_name = inst\<rparr>, tr) }
          else Some (rv, None, tr) }"

definition scp_send_create_session_response ::
  "ipm_env \<Rightarrow> ipm_trans \<Rightarrow> int \<Rightarrow> byte list \<Rightarrow> guid \<Rightarrow> (libipm_status \<times> ipm_trans) option" where
  "scp_send_create_session_response env tr status display guid =
     simple_send env tr E_SCP_CREATE_SESSION_RESPONSE (created_params status display guid)"

definition scp_get_create_session_response ::
  "ipm_trans \<Rightarrow> (libipm_status \<times> (int \<times> byte list \<times> guid) option \<times> ipm_trans) option" where
  "scp_get_create_session_response tr =
     do { (rv, vs, ds, tr) \<leftarrow> libipm_msg_in_parse tr (Some [T_i, T_s, T_B]) [D_u32, D_str, D_fsb (Some GUID_SIZE)];
          if rv = E_LI_SUCCESS
          then do { st \<leftarrow> out_num vs 0; display \<leftarrow> out_str vs 1; guid \<leftarrow> out_fsb vs 2;
                    Some (rv, Some (c_int st, display, guid), tr) }
          else Some (rv, None, tr) }"

definition scp_send_connect_session_request ::
  "ipm_env \<Rightarrow> ipm_trans \<Rightarrow> guid \<Rightarrow> byte list \<Rightarrow> byte list \<Rightarrow> int \<Rightarrow> (libipm_status \<times> ipm_trans) option" where
  "scp_send_connect_session_request env tr guid client_ip client_name fl =
     simple_send env tr E_SCP_CONNECT_SESSION_REQUEST
       [(T_B, Arg_fsb (Some guid)), (T_s, Arg_str (Some client_ip)),
        (T_s, Arg_str (Some client_name)), (T_u, Arg_32 fl)]"

definition scp_get_connect_session_request ::
  "ipm_trans \<Rightarrow> (libipm_status \<times> (guid \<times> byte list \<times> byte list \<times> int) option \<times> ipm_trans) option" where
  "scp_get_connect_session_request tr =
     do { (rv, vs, ds, tr) \<leftarrow> libipm_msg_in_parse tr (Some [T_B, T_s, T_s, T_u])
            [D_fsb (Some GUID_SIZE), D_str, D_str, D_u32];
          if rv = E_LI_SUCCESS
          then do { guid \<leftarrow> out_fsb vs 0; ip \<leftarrow> out_str vs 1; client \<leftarrow> out_str vs 2; fl \<leftarrow> out_num vs 3;
                    Some (rv, Some (guid, ip, client, fl), tr) }
          else Some (rv, None, tr) }"

text \<open>
  The response is built in steps: each of the two descriptors is guarded by a boolean, and
  \<^verbatim>\<open>libipm_msg_out_append\<close> extends the message.
\<close>

definition append_params ::
  "ipm_trans \<Rightarrow> (byte \<times> c_arg) list \<Rightarrow> (libipm_status \<times> ipm_trans) option" where
  "append_params tr ps =
     do { (rv, args, tr) \<leftarrow> libipm_msg_out_append tr (Some (map fst ps)) (map snd ps); Some (rv, tr) }"

definition fd_params :: "int \<Rightarrow> (byte \<times> c_arg) list" where
  "fd_params fd = (if fd \<ge> 0 then [(T_b, Arg_int 1), (T_h, Arg_int fd)] else [(T_b, Arg_int 0)])"

definition scp_send_connect_session_response ::
  "ipm_env \<Rightarrow> ipm_trans \<Rightarrow> int \<Rightarrow> int \<Rightarrow> int \<Rightarrow> (libipm_status \<times> ipm_trans) option" where
  "scp_send_connect_session_response env tr status display_fd chan_fd =
     do { (rv, args, tr) \<leftarrow> libipm_msg_out_init (fresh_mem env) tr E_SCP_CONNECT_SESSION_RESPONSE
            (Some [T_i]) [Arg_32 status];
          (rv, tr) \<leftarrow> (if rv = E_LI_SUCCESS then append_params tr (fd_params display_fd) else Some (rv, tr));
          (rv, tr) \<leftarrow> (if rv = E_LI_SUCCESS then append_params tr (fd_params chan_fd) else Some (rv, tr));
          if rv = E_LI_SUCCESS
          then do { tr \<leftarrow> libipm_msg_out_mark_end tr;
                    (ok, tr) \<leftarrow> force_write env tr;
                    Some (if ok then rv else E_LI_TRANSPORT_ERROR, tr) }
          else Some (rv, tr) }"

text \<open>One guarded descriptor; the out-parameter keeps its old value when none is present.\<close>

definition get_guarded_fd :: "ipm_trans \<Rightarrow> int \<Rightarrow> (libipm_status \<times> int \<times> ipm_trans) option" where
  "get_guarded_fd tr fd =
     do { (rv, vs, ds, tr) \<leftarrow> libipm_msg_in_parse tr (Some [T_b]) [D_int];
          if rv \<noteq> E_LI_SUCCESS then Some (rv, fd, tr)
          else do { fd_present \<leftarrow> out_num vs 0;
                    if fd_present \<noteq> 0
                    then do { (rv, vs, ds, tr) \<leftarrow> libipm_msg_in_parse tr (Some [T_h]) [D_int];
                              if rv \<noteq> E_LI_SUCCESS then Some (rv, fd, tr)
                              else do { fd \<leftarrow> out_num vs 0; Some (rv, fd, tr) } }
                    else Some (rv, fd, tr) } }"

definition get_connect_session_response_fds ::
  "ipm_trans \<Rightarrow> int \<Rightarrow> int \<Rightarrow> (libipm_status \<times> int \<times> int \<times> ipm_trans) option" where
  "get_connect_session_response_fds tr display_fd chan_fd =
     do { (rv, display_fd, tr) \<leftarrow> get_guarded_fd tr display_fd;
          if rv \<noteq> E_LI_SUCCESS then Some (rv, display_fd, chan_fd, tr)
          else do { (rv, chan_fd, tr) \<leftarrow> get_guarded_fd tr chan_fd;
                    Some (rv, display_fd, chan_fd, tr) } }"

text \<open>On failure the descriptors already received are closed: they are the third result.\<close>

definition scp_get_connect_session_response ::
  "ipm_trans \<Rightarrow> (libipm_status \<times> (int option \<times> int \<times> int) \<times> int list \<times> ipm_trans) option" where
  "scp_get_connect_session_response tr =
     do { (rv, vs, ds, tr) \<leftarrow> libipm_msg_in_parse tr (Some [T_i]) [D_u32];
          if rv = E_LI_SUCCESS
          then do { i_status \<leftarrow> out_num vs 0;
                    (rv, display_fd, chan_fd, tr) \<leftarrow> get_connect_session_response_fds tr (- 1) (- 1);
                    if rv = E_LI_SUCCESS
                    then Some (rv, (Some (c_int i_status), display_fd, chan_fd), [], tr)
                    else Some (rv, (None, - 1, - 1),
                               (if display_fd \<ge> 0 then [display_fd] else []) @
                               (if chan_fd \<ge> 0 then [chan_fd] else []), tr) }
          else Some (rv, (None, - 1, - 1), [], tr) }"

subsection \<open>Listing sessions, the socket directory, closing\<close>

definition scp_send_list_sessions_request :: "ipm_env \<Rightarrow> ipm_trans \<Rightarrow> (libipm_status \<times> ipm_trans) option" where
  "scp_send_list_sessions_request env tr = simple_send_empty env tr E_SCP_LIST_SESSIONS_REQUEST"

definition info_params :: "scp_session_info \<Rightarrow> (byte \<times> c_arg) list" where
  "info_params info =
     [(T_i, Arg_32 (i_sid info)), (T_s, Arg_str (i_display info)), (T_y, Arg_int (i_type info)),
      (T_q, Arg_int (i_width info)), (T_q, Arg_int (i_height info)), (T_y, Arg_int (i_bpp info)),
      (T_x, Arg_64 (i_start_time info)), (T_i, Arg_32 (i_uid info)),
      (T_s, Arg_str (i_start_ip_addr info)), (T_s, Arg_str (i_client_ip info)),
      (T_s, Arg_str (i_client_name info)), (T_x, Arg_64 (i_last_connect_disconnect info)),
      (T_s, Arg_str (i_xrdp_instance_name info))]"

definition scp_send_list_sessions_response ::
  "ipm_env \<Rightarrow> ipm_trans \<Rightarrow> int \<Rightarrow> scp_session_info option \<Rightarrow> (libipm_status \<times> ipm_trans) option" where
  "scp_send_list_sessions_response env tr status info =
     (if status \<noteq> E_SCP_LS_SESSION_INFO
      then simple_send env tr E_SCP_LIST_SESSIONS_RESPONSE [(T_i, Arg_32 status)]
      else do { p \<leftarrow> info;
                simple_send env tr E_SCP_LIST_SESSIONS_RESPONSE ((T_i, Arg_32 status) # info_params p) })"

text \<open>
  \<^verbatim>\<open>*status\<close> and \<^verbatim>\<open>*info\<close> once written. The description and the copies of its strings live in
  one block; without memory for it the status becomes \<^verbatim>\<open>E_SCP_LS_NO_MEMORY\<close>.
\<close>

definition scp_get_list_sessions_response ::
  "bool \<Rightarrow> bool \<Rightarrow> ipm_trans \<Rightarrow>
   (libipm_status \<times> int option \<times> scp_session_info option option \<times> ipm_trans) option" where
  "scp_get_list_sessions_response alloc_ok info_ptr tr =
     (if \<not> info_ptr then Some (E_LI_PROGRAM_ERROR, None, None, tr)
      else do { (rv, vs, ds, tr) \<leftarrow> libipm_msg_in_parse tr (Some [T_i]) [D_u32];
                if rv \<noteq> E_LI_SUCCESS then Some (rv, None, None, tr)
                else do { i_status \<leftarrow> out_num vs 0;
                  let status = c_int i_status;
                  if status \<noteq> E_SCP_LS_SESSION_INFO then Some (rv, Some status, Some None, tr)
                  else do { (rv, vs, ds, tr) \<leftarrow> libipm_msg_in_parse tr
                      (Some [T_i, T_s, T_y, T_q, T_q, T_y, T_x, T_i, T_s, T_s, T_s, T_x, T_s])
                      [D_u32, D_str, D_u8, D_u16, D_u16, D_u8, D_u64, D_u32, D_str, D_str, D_str, D_u64, D_str];
                    if rv \<noteq> E_LI_SUCCESS then Some (rv, Some status, Some None, tr)
                    else if \<not> alloc_ok then Some (rv, Some E_SCP_LS_NO_MEMORY, Some None, tr)
                    else do { sid \<leftarrow> out_num vs 0; display \<leftarrow> out_str vs 1; ty \<leftarrow> out_num vs 2;
                      w \<leftarrow> out_num vs 3; h \<leftarrow> out_num vs 4; bpp \<leftarrow> out_num vs 5;
                      start \<leftarrow> out_num vs 6; uid \<leftarrow> out_num vs 7; start_ip \<leftarrow> out_str vs 8;
                      client_ip \<leftarrow> out_str vs 9; client \<leftarrow> out_str vs 10; last \<leftarrow> out_num vs 11;
                      inst \<leftarrow> out_str vs 12;
                      Some (rv, Some status,
                        Some (Some \<lparr>i_sid = c_int sid, i_display = Some display, i_type = ty,
                          i_width = w, i_height = h, i_bpp = bpp, i_start_time = c_int64 start,
                          i_uid = c_uint (c_int uid), i_start_ip_addr = Some start_ip,
                          i_client_ip = Some client_ip, i_client_name = Some client,
                          i_last_connect_disconnect = c_int64 last,
                          i_xrdp_instance_name = Some inst\<rparr>), tr) } } } })"

definition scp_send_create_sockdir_request :: "ipm_env \<Rightarrow> ipm_trans \<Rightarrow> (libipm_status \<times> ipm_trans) option" where
  "scp_send_create_sockdir_request env tr = simple_send_empty env tr E_SCP_CREATE_SOCKDIR_REQUEST"

definition scp_send_create_sockdir_response ::
  "ipm_env \<Rightarrow> ipm_trans \<Rightarrow> int \<Rightarrow> (libipm_status \<times> ipm_trans) option" where
  "scp_send_create_sockdir_response env tr status =
     simple_send env tr E_SCP_CREATE_SOCKDIR_RESPONSE [(T_i, Arg_32 status)]"

definition scp_get_create_sockdir_response ::
  "ipm_trans \<Rightarrow> (libipm_status \<times> int option \<times> ipm_trans) option" where
  "scp_get_create_sockdir_response tr =
     do { (rv, vs, ds, tr) \<leftarrow> libipm_msg_in_parse tr (Some [T_i]) [D_u32];
          if rv = E_LI_SUCCESS then do { st \<leftarrow> out_num vs 0; Some (rv, Some (c_int st), tr) }
          else Some (rv, None, tr) }"

definition scp_send_close_connection_request :: "ipm_env \<Rightarrow> ipm_trans \<Rightarrow> (libipm_status \<times> ipm_trans) option" where
  "scp_send_close_connection_request env tr = simple_send_empty env tr E_SCP_CLOSE_CONNECTION_REQUEST"

subsection \<open>Names of the listening port\<close>

fun is_positive_int :: "byte list \<Rightarrow> int" where
  "is_positive_int [] = 1"
| "is_positive_int (c # cs) = (if \<not> is_digit c then 0 else is_positive_int cs)"

text \<open>The socket directory is set at build time. \<^verbatim>\<open>'/'\<close> is byte 0x2f.\<close>

definition scp_port_to_unix_domain_path ::
  "byte list \<Rightarrow> byte list \<Rightarrow> byte list option \<Rightarrow> nat \<Rightarrow> int \<times> byte list option" where
  "scp_port_to_unix_domain_path root base port bufflen =
     (let port = (case port of None \<Rightarrow> [] | Some p \<Rightarrow> p) in
      if port \<noteq> [] \<and> hd port = 0x2f then g_snprintf_str bufflen port
      else let port = (case g_strrchr_pos port 0x2f of
                         Some i \<Rightarrow> if i \<noteq> 0 then drop (Suc i) port else port
                       | None \<Rightarrow> port);
               port = (if port = [] then base
                       else if is_positive_int port \<noteq> 0 then base else port)
           in g_snprintf_str bufflen (root @ [0x2f] @ port))"

definition scp_port_to_display_string ::
  "byte list \<Rightarrow> byte list option \<Rightarrow> nat \<Rightarrow> int \<times> byte list option" where
  "scp_port_to_display_string base port bufflen =
     (let port = (case port of None \<Rightarrow> [] | Some p \<Rightarrow> p);
          port = (case g_strrchr_pos port 0x2f of Some i \<Rightarrow> drop (Suc i) port | None \<Rightarrow> port);
          port = (if port = [] \<or> port = [0x33, 0x33, 0x35, 0x30] then base else port)
      in g_snprintf_str bufflen port)"

end
