(* ===== verification/Ercp.thy ===== *)
theory Ercp
  imports Ipm_Protocol
begin

text \<open>
  \<^verbatim>\<open>libipm/ercp.c\<close>: the protocol between sesman and a running session's sesexec.
\<close>

abbreviation (input) E_ERCP_SESSION_ANNOUNCE_EVENT :: int where "E_ERCP_SESSION_ANNOUNCE_EVENT \<equiv> 0"
abbreviation (input) E_ERCP_SESSION_FINISHED_EVENT :: int where "E_ERCP_SESSION_FINISHED_EVENT \<equiv> 1"
abbreviation (input) E_ERCP_CONNECT_SESSION_REQUEST :: int where "E_ERCP_CONNECT_SESSION_REQUEST \<equiv> 2"
abbreviation (input) E_ERCP_CLIENT_CONNECT_EVENT :: int where "E_ERCP_CLIENT_CONNECT_EVENT \<equiv> 3"
abbreviation (input) E_ERCP_CLIENT_DISCONNECT_EVENT :: int where "E_ERCP_CLIENT_DISCONNECT_EVENT \<equiv> 4"

definition ercp_msgno_str :: "int \<Rightarrow> string option" where
  "ercp_msgno_str n =
     (if n = E_ERCP_SESSION_ANNOUNCE_EVENT then Some ''ERCP_SESSION_ANNOUNCE_EVENT''
      else if n = E_ERCP_SESSION_FINISHED_EVENT then Some ''ERCP_SESSION_FINISHED_EVENT''
      else if n = E_ERCP_CONNECT_SESSION_REQUEST then Some ''ERCP_CONNECT_SESSION_REQUEST''
      else if n = E_ERCP_CLIENT_CONNECT_EVENT then Some ''ERCP_CLIENT_CONNECT_EVENT''
      else if n = E_ERCP_CLIENT_DISCONNECT_EVENT then Some ''ERCP_CLIENT_DISCONNECT_EVENT''
      else None)"

definition ercp_init_trans :: "ipm_env \<Rightarrow> bool \<Rightarrow> bool \<Rightarrow> ipm_trans \<Rightarrow> (libipm_status \<times> ipm_trans) option" where
  "ercp_init_trans env alloc_ok has_destructor tr =
     libipm_init_trans (fresh_mem env) alloc_ok has_destructor tr LIBIPM_FAC_ERCP"

text \<open>The callback fields are not part of the model's transport.\<close>

definition ercp_trans_from_eicp_trans :: "ipm_trans \<Rightarrow> ipm_trans" where
  "ercp_trans_from_eicp_trans tr = libipm_change_facility tr LIBIPM_FAC_EICP LIBIPM_FAC_ERCP"

definition ercp_msg_in_get_msgno :: "ipm_trans \<Rightarrow> int" where
  "ercp_msg_in_get_msgno tr = libipm_msg_in_get_msgno tr"

subsection \<open>Messages\<close>

record session_announce =
  a_display :: "byte list"
  a_uid :: int
  a_type :: int
  a_start_width :: int
  a_start_height :: int
  a_bpp :: int
  a_guid :: guid
  a_start_ip_addr :: "byte list"
  a_start_time :: int
  a_instance_name :: "byte list"

definition announce_params :: "session_announce \<Rightarrow> (byte \<times> c_arg) list" where
  "announce_params a =
     [(T_s, Arg_str (Some (a_display a))),
      (T_i, Arg_32 (a_uid a)),
      (T_y, Arg_int (a_type a)),
      (T_q, Arg_int (a_start_width a)),
      (T_q, Arg_int (a_start_height a)),
      (T_y, Arg_int (a_bpp a)),
      (T_B, Arg_fsb (Some (a_guid a))),
      (T_s, Arg_str (Some (a_start_ip_addr a))),
      (T_x, Arg_64 (a_start_time a)),
      (T_s, Arg_str (Some (a_instance_name a)))]"

definition ercp_send_session_announce_event ::
  "ipm_env \<Rightarrow> ipm_trans \<Rightarrow> session_announce \<Rightarrow> (libipm_status \<times> ipm_trans) option" where
  "ercp_send_session_announce_event env tr a =
     simple_send env tr E_ERCP_SESSION_ANNOUNCE_EVENT (announce_params a)"

text \<open>
  The GUID is stored as soon as it is parsed, also when a later parameter is rejected: it is
  a result of its own.
\<close>

definition ercp_get_session_announce_event ::
  "ipm_trans \<Rightarrow> (libipm_status \<times> guid option \<times> session_announce option \<times> ipm_trans) option" where
  "ercp_get_session_announce_event tr =
     do { (rv, vs, ds, tr) \<leftarrow> libipm_msg_in_parse tr
            (Some [T_s, T_i, T_y, T_q, T_q, T_y, T_B, T_s, T_x, T_s])
            [D_str, D_u32, D_u8, D_u16, D_u16, D_u8, D_fsb (Some GUID_SIZE), D_str, D_u64, D_str];
          if rv = E_LI_SUCCESS
          then do { display \<leftarrow> out_str vs 0; uid \<leftarrow> out_num vs 1; ty \<leftarrow> out_num vs 2;
                    width \<leftarrow> out_num vs 3; height \<leftarrow> out_num vs 4; bpp \<leftarrow> out_num vs 5;
                    guid \<leftarrow> out_fsb vs 6; start_ip_addr \<leftarrow> out_str vs 7;
                    start_time \<leftarrow> out_num vs 8; instance_name \<leftarrow> out_str vs 9;
                    Some (rv, Some guid,
                      Some \<lparr>a_display = display, a_uid = c_uint (c_int uid), a_type = ty,
                            a_start_width = width, a_start_height = height, a_bpp = bpp,
                            a_guid = guid, a_start_ip_addr = start_ip_addr,
                            a_start_time = c_int64 start_time, a_instance_name = instance_name\<rparr>, tr) }
          else Some (rv, out_fsb vs 6, None, tr) }"

definition ercp_send_session_finished_event :: "ipm_env \<Rightarrow> ipm_trans \<Rightarrow> (libipm_status \<times> ipm_trans) option" where
  "ercp_send_session_finished_event env tr = simple_send_empty env tr E_ERCP_SESSION_FINISHED_EVENT"

definition ercp_send_connect_session_request ::
  "ipm_env \<Rightarrow> ipm_trans \<Rightarrow> int \<Rightarrow> byte list \<Rightarrow> byte list \<Rightarrow> int \<Rightarrow> (libipm_status \<times> ipm_trans) option" where
  "ercp_send_connect_session_request env tr scp_fd client_ip client_name scp_flags =
     simple_send env tr E_ERCP_CONNECT_SESSION_REQUEST
       [(T_h, Arg_int scp_fd), (T_s, Arg_str (Some client_ip)),
        (T_s, Arg_str (Some client_name)), (T_u, Arg_32 scp_flags)]"

definition ercp_get_connect_session_request ::
  "ipm_trans \<Rightarrow> (libipm_status \<times> (int \<times> byte list \<times> byte list \<times> int) option \<times> ipm_trans) option" where
  "ercp_get_connect_session_request tr =
     do { (rv, vs, ds, tr) \<leftarrow> libipm_msg_in_parse tr (Some [T_h, T_s, T_s, T_u]) [D_int, D_str, D_str, D_u32];
          if rv = E_LI_SUCCESS
          then do { fd \<leftarrow> out_num vs 0; ip \<leftarrow> out_str vs 1; client \<leftarrow> out_str vs 2; fl \<leftarrow> out_num vs 3;
                    Some (rv, Some (fd, ip, client, fl), tr) }
          else Some (rv, None, tr) }"

definition ercp_send_client_connect_event ::
  "ipm_env \<Rightarrow> ipm_trans \<Rightarrow> byte list \<Rightarrow> byte list \<Rightarrow> int \<Rightarrow> (libipm_status \<times> ipm_trans) option" where
  "ercp_send_client_connect_event env tr client_ip client_name connect_time =
     simple_send env tr E_ERCP_CLIENT_CONNECT_EVENT
       [(T_s, Arg_str (Some client_ip)), (T_s, Arg_str (Some client_name)), (T_x, Arg_64 connect_time)]"

definition ercp_get_client_connect_event ::
  "ipm_trans \<Rightarrow> (libipm_status \<times> (byte list \<times> byte list \<times> int) option \<times> ipm_trans) option" where
  "ercp_get_client_connect_event tr =
     do { (rv, vs, ds, tr) \<leftarrow> libipm_msg_in_parse tr (Some [T_s, T_s, T_x]) [D_str, D_str, D_u64];
          if rv = E_LI_SUCCESS
          then do { ip \<leftarrow> out_str vs 0; client \<leftarrow> out_str vs 1; t \<leftarrow> out_num vs 2;
                    Some (rv, Some (ip, client, c_int64 t), tr) }
          else Some (rv, None, tr) }"

definition ercp_send_client_disconnect_event ::
  "ipm_env \<Rightarrow> ipm_trans \<Rightarrow> int \<Rightarrow> (libipm_status \<times> ipm_trans) option" where
  "ercp_send_client_disconnect_event env tr disconnect_time =
     simple_send env tr E_ERCP_CLIENT_DISCONNECT_EVENT [(T_x, Arg_64 disconnect_time)]"

definition ercp_get_client_disconnect_event ::
  "ipm_trans \<Rightarrow> (libipm_status \<times> int option \<times> ipm_trans) option" where
  "ercp_get_client_disconnect_event tr =
     do { (rv, vs, ds, tr) \<leftarrow> libipm_msg_in_parse tr (Some [T_x]) [D_u64];
          if rv = E_LI_SUCCESS
          then do { t \<leftarrow> out_num vs 0; Some (rv, Some (c_int64 t), tr) }
          else Some (rv, None, tr) }"

end
