(* ===== verification/Scp_List.thy ===== *)
theory Scp_List
  imports Session_List Scp Ercp
begin

text \<open>
  \<^verbatim>\<open>sesman/scp_list.c\<close>: the connections of sesman with its clients. The state of sesman adds
  the connection list and its items to the session list; the requests and responses sesman
  sends, and the side effects of its handlers outside the process, are recorded in order.
\<close>

datatype sli_login_state = E_SLI_LOGIN_NOT_LOGGED_IN | E_SLI_LOGIN_SYS | E_SLI_LOGIN_UDS

datatype scp_list_dispatcher_action = E_SLD_NONE | E_SLD_REMOVE_CLIENT_TRANS | E_SLD_TERMINATE_SCP_CONN

record scp_list_item =
  sl_client_trans :: "ipm_trans option"
  sl_sesexec_trans :: "ipm_trans option"
  sl_sesexec_pid :: int
  sl_peername :: cstr
  sl_login_state :: sli_login_state
  sl_dispatcher_action :: scp_list_dispatcher_action
  sl_uid :: int
  sl_username :: "cstr option"
  sl_start_ip_addr :: cstr
  sl_is_admin :: int
  sl_create_session_in_progress :: int
  sl_session_x11_display :: int

datatype sesman_call =
    Scp_login_response int int int
  | Scp_create_response int cstr guid
  | Scp_connect_response int
  | Scp_list_response int "scp_session_info option"
  | Scp_sockdir_response int
  | Eicp_sys_login cstr cstr cstr int
  | Eicp_uds_login int
  | Eicp_logout
  | Eicp_create_session int create_request
  | Ercp_connect nat int cstr cstr int
  | Sesexec_start
  | Create_sockdir int

record sesman = session_world +
  g_scp_list :: "nat xlist option"
  scp_mem :: "nat \<Rightarrow> scp_list_item option"
  calls :: "sesman_call list"
  closed_fds :: "int list"

definition log_call :: "sesman_call \<Rightarrow> sesman \<Rightarrow> sesman" where
  "log_call c w = w\<lparr>calls := calls w @ [c]\<rparr>"

text \<open>\<^verbatim>\<open>trans_delete\<close> on a possibly NULL transport.\<close>

definition delete_trans :: "ipm_trans option \<Rightarrow> sesman \<Rightarrow> sesman" where
  "delete_trans tr w = (case tr of None \<Rightarrow> w | Some t \<Rightarrow> w\<lparr>deleted_trans := deleted_trans w @ [t]\<rparr>)"

definition put_sli :: "nat \<Rightarrow> scp_list_item \<Rightarrow> sesman \<Rightarrow> sesman" where
  "put_sli a sli w = w\<lparr>scp_mem := (scp_mem w)(a \<mapsto> sli)\<rparr>"

definition trans_up :: "ipm_trans option \<Rightarrow> bool" where
  "trans_up tr \<longleftrightarrow> (case tr of None \<Rightarrow> False | Some t \<Rightarrow> t_status t = TRANS_STATUS_UP)"

definition SCP_LIST_ITEM_IN_USE :: "scp_list_item \<Rightarrow> bool" where
  "SCP_LIST_ITEM_IN_USE sli \<longleftrightarrow> trans_up (sl_client_trans sli) \<or> trans_up (sl_sesexec_trans sli)"

definition free_scp_list_item :: "sesman \<Rightarrow> nat \<Rightarrow> sesman option" where
  "free_scp_list_item w a =
     do { sli \<leftarrow> scp_mem w a;
          let w = delete_trans (sl_sesexec_trans sli) (delete_trans (sl_client_trans sli) w);
          Some (w\<lparr>scp_mem := (scp_mem w)(a := None)\<rparr>) }"

definition scp_list_init :: "bool \<Rightarrow> nat option alloc \<Rightarrow> nat \<Rightarrow> sesman \<Rightarrow> int \<times> sesman" where
  "scp_list_init ok mem list_size w =
     (case (case g_scp_list w of None \<Rightarrow> list_create_sized ok mem list_size | Some l \<Rightarrow> Some l) of
        None \<Rightarrow> (1, w)
      | Some l \<Rightarrow> (0, w\<lparr>g_scp_list := Some (l\<lparr>auto_free := False\<rparr>)\<rparr>))"

text \<open>The list never holds NULL: \<^verbatim>\<open>scp_list_item_new\<close> is its only writer.\<close>

abbreviation scp_at :: "sesman \<Rightarrow> nat xlist \<Rightarrow> nat \<Rightarrow> (nat \<times> scp_list_item) option" where
  "scp_at w l i \<equiv> ptr_at (scp_mem w) l i"

fun scp_cleanup_loop :: "sesman \<Rightarrow> nat xlist \<Rightarrow> nat \<Rightarrow> nat \<Rightarrow> sesman option" where
  "scp_cleanup_loop w l i 0 = Some w"
| "scp_cleanup_loop w l i (Suc n) =
     do { (a, sli) \<leftarrow> scp_at w l i; w \<leftarrow> free_scp_list_item w a; scp_cleanup_loop w l (Suc i) n }"

definition scp_list_cleanup :: "sesman \<Rightarrow> sesman option" where
  "scp_list_cleanup w =
     (case g_scp_list w of
        None \<Rightarrow> Some w
      | Some l \<Rightarrow>
          do { w \<leftarrow> scp_cleanup_loop w l 0 (count l);
               freed \<leftarrow> list_delete (Some l);
               Some (w\<lparr>g_scp_list := None\<rparr>) })"

definition scp_list_get_count :: "sesman \<Rightarrow> nat option" where
  "scp_list_get_count w = map_option count (g_scp_list w)"

text \<open>\<^verbatim>\<open>g_new0\<close>, then the name \<^verbatim>\<open>"unknown"\<close>, \<^verbatim>\<open>(uid_t) -1\<close> and no display.\<close>

definition new_scp_list_item :: scp_list_item where
  "new_scp_list_item = \<lparr>sl_client_trans = None, sl_sesexec_trans = None, sl_sesexec_pid = 0,
     sl_peername = [0x75, 0x6e, 0x6b, 0x6e, 0x6f, 0x77, 0x6e],
     sl_login_state = E_SLI_LOGIN_NOT_LOGGED_IN, sl_dispatcher_action = E_SLD_NONE,
     sl_uid = c_uint (- 1), sl_username = None, sl_start_ip_addr = [], sl_is_admin = 0,
     sl_create_session_in_progress = 0, sl_session_x11_display = - 1\<rparr>"

definition scp_list_item_new ::
  "nat option \<Rightarrow> nat option alloc \<Rightarrow> sesman \<Rightarrow> (nat option \<times> sesman) option" where
  "scp_list_item_new addr mem w =
     (case addr of
        None \<Rightarrow> Some (None, w)
      | Some a \<Rightarrow>
          do { l \<leftarrow> g_scp_list w;
               (rv, l) \<leftarrow> list_add_item mem l (Some a);
               if rv = 0 then Some (None, w\<lparr>g_scp_list := Some l\<rparr>)
               else Some (Some a, w\<lparr>g_scp_list := Some l,
                                   scp_mem := (scp_mem w)(a \<mapsto> new_scp_list_item)\<rparr>) })"

text \<open>The name field holds 15 characters.\<close>

definition scp_list_set_peername :: "scp_list_item \<Rightarrow> cstr option \<Rightarrow> int \<times> scp_list_item" where
  "scp_list_set_peername sli name =
     (case name of None \<Rightarrow> (1, sli) | Some s \<Rightarrow> (0, sli\<lparr>sl_peername := take 15 s\<rparr>))"

subsection \<open>Polling\<close>

function scp_wait_objs_loop ::
  "sesman \<Rightarrow> nat xlist \<Rightarrow> nat \<Rightarrow> int list \<Rightarrow> (int list \<times> sesman) option" where
  "scp_wait_objs_loop w l i robjs =
     (if i < count l then
        (case scp_at w l i of
           None \<Rightarrow> None
         | Some (a, sli) \<Rightarrow>
             (let socks = (\<lambda>tr. if trans_up tr then [t_sck (the tr)] else []);
                  robjs = robjs @ socks (sl_client_trans sli) @ socks (sl_sesexec_trans sli)
              in if SCP_LIST_ITEM_IN_USE sli then scp_wait_objs_loop w l (Suc i) robjs
                 else (case free_scp_list_item w a of
                         None \<Rightarrow> None
                       | Some w \<Rightarrow>
                           (case list_remove_item l (int i) of
                              None \<Rightarrow> None
                            | Some (freed, l') \<Rightarrow>
                                if count l' < count l
                                then scp_wait_objs_loop (w\<lparr>g_scp_list := Some l'\<rparr>) l' i robjs
                                else None))))
      else Some (robjs, w))"
  by pat_completeness auto
termination by (relation "measure (\<lambda>(w, l, i, robjs). count l - i)") auto

declare scp_wait_objs_loop.simps [simp del]

definition scp_list_get_wait_objs :: "sesman \<Rightarrow> int list \<Rightarrow> (int \<times> int list \<times> sesman) option" where
  "scp_list_get_wait_objs w robjs =
     do { l \<leftarrow> g_scp_list w; (robjs, w) \<leftarrow> scp_wait_objs_loop w l 0 robjs; Some (0, robjs, w) }"

text \<open>
  \<^verbatim>\<open>trans_check_wait_objs\<close> on one of the two transports of an item; its callback is the message
  handler, which works on the item and on the rest of sesman's state, but not on the
  connection list.
\<close>

type_synonym sli_poll = "nat \<Rightarrow> sesman \<Rightarrow> (int \<times> sesman) option"

definition poll_side :: "sli_poll \<Rightarrow> (scp_list_item \<Rightarrow> ipm_trans option) \<Rightarrow> nat \<Rightarrow> sesman \<Rightarrow> sesman option" where
  "poll_side poll side a w =
     do { sli \<leftarrow> scp_mem w a;
          if trans_up (side sli)
          then do { (rv, w) \<leftarrow> poll a w;
                    if rv \<noteq> 0
                    then do { sli \<leftarrow> scp_mem w a;
                              Some (put_sli a (sli\<lparr>sl_dispatcher_action := E_SLD_TERMINATE_SCP_CONN\<rparr>) w) }
                    else Some w }
          else Some w }"

text \<open>The action requested by the handlers, taken and reset.\<close>

definition poll_item :: "sli_poll \<Rightarrow> sli_poll \<Rightarrow> nat \<Rightarrow> sesman \<Rightarrow> (scp_list_dispatcher_action \<times> sesman) option" where
  "poll_item poll_client poll_sesexec a w =
     do { sli \<leftarrow> scp_mem w a;
          if SCP_LIST_ITEM_IN_USE sli
          then do { w \<leftarrow> poll_side poll_client sl_client_trans a w;
                    w \<leftarrow> poll_side poll_sesexec sl_sesexec_trans a w;
                    sli \<leftarrow> scp_mem w a;
                    Some (sl_dispatcher_action sli, put_sli a (sli\<lparr>sl_dispatcher_action := E_SLD_NONE\<rparr>) w) }
          else Some (E_SLD_TERMINATE_SCP_CONN, w) }"

definition remove_client_trans :: "nat \<Rightarrow> sesman \<Rightarrow> sesman option" where
  "remove_client_trans a w =
     do { sli \<leftarrow> scp_mem w a;
          Some (put_sli a (sli\<lparr>sl_client_trans := None\<rparr>) (delete_trans (sl_client_trans sli) w)) }"

function scp_check_loop :: "sli_poll \<Rightarrow> sli_poll \<Rightarrow> sesman \<Rightarrow> nat xlist \<Rightarrow> nat \<Rightarrow> sesman option" where
  "scp_check_loop pc ps w l i =
     (if i < count l then
        (case scp_at w l i of
           None \<Rightarrow> None
         | Some (a, sli) \<Rightarrow>
             (case poll_item pc ps a w of
                None \<Rightarrow> None
              | Some (E_SLD_NONE, w) \<Rightarrow> scp_check_loop pc ps w l (Suc i)
              | Some (E_SLD_REMOVE_CLIENT_TRANS, w) \<Rightarrow>
                  (case remove_client_trans a w of
                     None \<Rightarrow> None
                   | Some w \<Rightarrow> scp_check_loop pc ps w l (Suc i))
              | Some (E_SLD_TERMINATE_SCP_CONN, w) \<Rightarrow>
                  (case free_scp_list_item w a of
                     None \<Rightarrow> None
                   | Some w \<Rightarrow>
                       (case list_remove_item l (int i) of
                          None \<Rightarrow> None
                        | Some (freed, l') \<Rightarrow>
                            if count l' < count l
                            then scp_check_loop pc ps (w\<lparr>g_scp_list := Some l'\<rparr>) l' i
                            else None))))
      else Some w)"
  by pat_completeness auto
termination by (relation "measure (\<lambda>(pc, ps, w, l, i). count l - i)") auto

declare scp_check_loop.simps [simp del]

definition scp_list_check_wait_objs :: "sli_poll \<Rightarrow> sli_poll \<Rightarrow> sesman \<Rightarrow> (int \<times> sesman) option" where
  "scp_list_check_wait_objs pc ps w =
     do { l \<leftarrow> g_scp_list w; w \<leftarrow> scp_check_loop pc ps w l 0; Some (0, w) }"

fun scp_displays_loop :: "sesman \<Rightarrow> nat xlist \<Rightarrow> nat \<Rightarrow> nat \<Rightarrow> set_int option \<Rightarrow> set_int option option" where
  "scp_displays_loop w l i 0 alloc_displays = Some alloc_displays"
| "scp_displays_loop w l i (Suc n) alloc_displays =
     do { (a, sli) \<leftarrow> scp_at w l i;
          alloc_displays \<leftarrow>
            (if SCP_LIST_ITEM_IN_USE sli \<and> sl_create_session_in_progress sli \<noteq> 0 \<and>
                sl_session_x11_display sli \<ge> 0
             then set_int_add alloc_displays (sl_session_x11_display sli) else Some alloc_displays);
          scp_displays_loop w l (Suc i) n alloc_displays }"

definition scp_list_get_create_session_x11_displays ::
  "sesman \<Rightarrow> set_int option \<Rightarrow> set_int option option" where
  "scp_list_get_create_session_x11_displays w alloc_displays =
     do { l \<leftarrow> g_scp_list w; scp_displays_loop w l 0 (count l) alloc_displays }"

end
