(* ===== verification/Scp_Process.thy ===== *)
theory Scp_Process
  imports Scp_List
begin

text \<open>
  \<^verbatim>\<open>sesman/scp_process.c\<close>, \<^verbatim>\<open>sesexec_control.c\<close> and \<^verbatim>\<open>display_utils.c\<close>: the handlers of the
  requests a client sends to sesman. A handler works on one connection item; it is handed
  the item and the rest of the state and returns both. What the operating system, PAM and
  the allocator answer during one call is the environment.
\<close>

record sesexec_env =
  se_executable :: bool
  se_args :: bool
  se_socketpair :: "(int \<times> int) option"
  se_fork :: "int option"
  se_pid :: "int option"
  se_trans :: "ipm_trans option"
  se_trans_alloc :: bool

record sockdir_env =
  sd_group :: "cstr option"
  sd_exists :: bool
  sd_create :: bool
  sd_chmod :: int
  sd_getgroup :: int
  sd_chown :: int

record sesman_env =
  e_ipm :: ipm_env
  e_cfg :: sesman_cfg
  e_strdup :: bool
  e_sesexec :: sesexec_env
  e_peer_cred :: "int \<times> int"
  e_user_name :: "int \<Rightarrow> cstr option"
  e_auth_uds :: "cstr \<Rightarrow> bool \<times> int"
  e_login_allowed :: "cstr \<Rightarrow> bool"
  e_is_admin :: "cstr \<Rightarrow> int"
  e_sockdir :: sockdir_env
  e_set_alloc :: bool
  e_file_exist :: "cstr \<Rightarrow> bool"
  e_tcp_socket :: bool
  e_tcp_bind :: "cstr \<Rightarrow> int"
  e_x11_socket_path :: "int \<Rightarrow> cstr"
  e_info_alloc :: bool
  e_info_dup :: "nat \<Rightarrow> nat \<Rightarrow> bool"
  e_new_addr :: "nat option"
  e_list_mem :: "nat option alloc"
  e_client_trans :: "ipm_trans option"
  e_client_alloc :: bool

type_synonym sli_state = "scp_list_item \<times> sesman"
type_synonym handler_result = "(libipm_status \<times> sli_state) option"

subsection \<open>Starting sesexec\<close>

text \<open>
  The parent's side of the fork. \<^verbatim>\<open>g_fork\<close> returns the child's number (\<^term>\<open>None\<close> is an
  error); sesexec then sends its process number over the socket pair.
\<close>

definition close_fd :: "int \<Rightarrow> sesman \<Rightarrow> sesman" where
  "close_fd fd w = w\<lparr>closed_fds := closed_fds w @ [fd]\<rparr>"

definition sesexec_start :: "sesman_env \<Rightarrow> scp_list_item \<Rightarrow> sesman \<Rightarrow> (int \<times> sli_state) option" where
  "sesexec_start env sli w =
     (let se = e_sesexec env; w = log_call Sesexec_start w in
      if \<not> se_executable se then Some (- 1, sli, w)
      else if \<not> se_args se then Some (- 1, sli, w)
      else (case se_socketpair se of
              None \<Rightarrow> Some (- 1, sli, w)
            | Some (sck0, sck1) \<Rightarrow>
                (case se_fork se of
                   None \<Rightarrow> Some (- 1, sli, close_fd sck1 (close_fd sck0 w))
                 | Some child \<Rightarrow>
                     (let w = close_fd sck1 w in
                      case se_pid se of
                        None \<Rightarrow> Some (- 1, sli, close_fd sck0 w)
                      | Some pid \<Rightarrow>
                          do { t \<leftarrow> eicp_init_trans_from_fd (e_ipm env) (se_trans_alloc se) (se_trans se) sck0
                                 TRANS_TYPE_CLIENT;
                               Some (case t of
                                       None \<Rightarrow> (- 1, sli, close_fd sck0 w)
                                     | Some t \<Rightarrow> (0, sli\<lparr>sl_sesexec_trans := Some t, sl_sesexec_pid := pid\<rparr>, w)) }))))"

subsection \<open>Login\<close>

definition process_set_peername_request :: "scp_list_item \<Rightarrow> sesman \<Rightarrow> handler_result" where
  "process_set_peername_request sli w =
     do { tr \<leftarrow> sl_client_trans sli;
          (rv, peername, tr) \<leftarrow> scp_get_set_peername_request tr;
          let sli = sli\<lparr>sl_client_trans := Some tr\<rparr>;
          if rv = E_LI_SUCCESS then Some (rv, snd (scp_list_set_peername sli peername), w)
          else Some (rv, sli, w) }"

definition send_login_response ::
  "sesman_env \<Rightarrow> int \<Rightarrow> int \<Rightarrow> int \<Rightarrow> scp_list_item \<Rightarrow> sesman \<Rightarrow> handler_result" where
  "send_login_response env status closed uid sli w =
     do { tr \<leftarrow> sl_client_trans sli;
          (rv, tr) \<leftarrow> scp_send_login_response (e_ipm env) tr status closed uid;
          Some (rv, sli\<lparr>sl_client_trans := Some tr\<rparr>, log_call (Scp_login_response status closed uid) w) }"

text \<open>
  The credentials are handed over to a new sesexec; \<^term>\<open>None\<close> means that it answers the client.
\<close>

definition sys_login_handover ::
  "sesman_env \<Rightarrow> cstr \<Rightarrow> cstr \<Rightarrow> cstr \<Rightarrow> scp_list_item \<Rightarrow> sesman \<Rightarrow> (int option \<times> sli_state) option" where
  "sys_login_handover env username password ip_addr sli w =
     (if sl_login_state sli \<noteq> E_SLI_LOGIN_NOT_LOGGED_IN
      then Some (Some E_SCP_LOGIN_ALREADY_LOGGED_IN, sli, w)
      else if \<not> e_strdup env
      then Some (Some E_SCP_LOGIN_NO_MEMORY, sli\<lparr>sl_username := None\<rparr>, w)
      else do { let sli = sli\<lparr>sl_username := Some username,
                            sl_start_ip_addr := take (MAX_PEER_ADDRSTRLEN - 1) ip_addr\<rparr>;
                (started, sli, w) \<leftarrow> sesexec_start env sli w;
                if started \<noteq> 0 then Some (Some E_SCP_LOGIN_GENERAL_ERROR, sli, w)
                else do { ctr \<leftarrow> sl_client_trans sli;
                          str \<leftarrow> sl_sesexec_trans sli;
                          (eicp_stat, str) \<leftarrow>
                            eicp_send_sys_login_request (e_ipm env) str username password ip_addr (t_sck ctr);
                          let w = log_call (Eicp_sys_login username password ip_addr (t_sck ctr)) w;
                          let sli = sli\<lparr>sl_sesexec_trans := Some str\<rparr>;
                          Some (if eicp_stat \<noteq> E_LI_SUCCESS
                                then (Some E_SCP_LOGIN_GENERAL_ERROR, sli, w)
                                else (None, sli\<lparr>sl_dispatcher_action := E_SLD_REMOVE_CLIENT_TRANS\<rparr>, w)) } })"

definition process_sys_login_request :: "sesman_env \<Rightarrow> scp_list_item \<Rightarrow> sesman \<Rightarrow> handler_result" where
  "process_sys_login_request env sli w =
     do { tr \<leftarrow> sl_client_trans sli;
          (rv, msg, tr) \<leftarrow> scp_get_sys_login_request tr;
          let sli = sli\<lparr>sl_client_trans := Some tr\<rparr>;
          (case msg of
             None \<Rightarrow> Some (rv, sli, w)
           | Some (username, password, ip_addr) \<Rightarrow>
               do { (errorcode, sli, w) \<leftarrow> sys_login_handover env username password ip_addr sli w;
                    (case errorcode of
                       None \<Rightarrow> Some (rv, sli, w)
                     | Some e \<Rightarrow>
                         do { (rv, sli, w) \<leftarrow> send_login_response env e 1 (- 1) sli w;
                              Some (rv, sli\<lparr>sl_dispatcher_action := E_SLD_TERMINATE_SCP_CONN\<rparr>, w) }) }) }"

text \<open>
  The status \<^verbatim>\<open>auth_uds\<close> stores and whether it returns authentication data are given by the
  environment.
\<close>

definition authenticate_and_authorize_uds_connection ::
  "sesman_env \<Rightarrow> scp_list_item \<Rightarrow> int \<Rightarrow> cstr \<Rightarrow> int \<times> scp_list_item" where
  "authenticate_and_authorize_uds_connection env sli uid username =
     (let (auth_info, status) = e_auth_uds env username in
      if \<not> auth_info then (status, sli)
      else let status = (if status = E_SCP_LOGIN_OK \<and> \<not> e_login_allowed env username
                         then E_SCP_LOGIN_NOT_AUTHORIZED else status)
           in if status = E_SCP_LOGIN_OK
              then (if \<not> e_strdup env then (E_SCP_LOGIN_NO_MEMORY, sli\<lparr>sl_username := None\<rparr>)
                    else (status, sli\<lparr>sl_username := Some username, sl_login_state := E_SLI_LOGIN_UDS,
                            sl_uid := c_uint uid, sl_start_ip_addr := [],
                            sl_is_admin := e_is_admin env username\<rparr>))
              else (status, sli))"

definition process_uds_login_request :: "sesman_env \<Rightarrow> scp_list_item \<Rightarrow> sesman \<Rightarrow> handler_result" where
  "process_uds_login_request env sli w =
     do { tr \<leftarrow> sl_client_trans sli;
          let (rv, uid) = e_peer_cred env;
          let (errorcode, sli) =
            (if rv \<noteq> 0 then (E_SCP_LOGIN_GENERAL_ERROR, sli)
             else if sl_login_state sli \<noteq> E_SLI_LOGIN_NOT_LOGGED_IN then (E_SCP_LOGIN_ALREADY_LOGGED_IN, sli)
             else (case e_user_name env uid of
                     None \<Rightarrow> (E_SCP_LOGIN_GENERAL_ERROR, sli)
                   | Some username \<Rightarrow> authenticate_and_authorize_uds_connection env sli uid username));
          if errorcode = E_SCP_LOGIN_OK then send_login_response env errorcode 0 uid sli w
          else send_login_response env errorcode 1 (- 1)
                 (sli\<lparr>sl_dispatcher_action := E_SLD_TERMINATE_SCP_CONN\<rparr>) w }"

definition logout_scp_list_item :: "sesman_env \<Rightarrow> scp_list_item \<Rightarrow> sesman \<Rightarrow> sli_state option" where
  "logout_scp_list_item env sli w =
     (if sl_login_state sli \<noteq> E_SLI_LOGIN_NOT_LOGGED_IN
      then do { (sli, w) \<leftarrow>
                  (case sl_sesexec_trans sli of
                     None \<Rightarrow> Some (sli, w)
                   | Some str \<Rightarrow>
                       do { (rv, str) \<leftarrow> eicp_send_logout_request (e_ipm env) str;
                            Some (sli\<lparr>sl_sesexec_trans := None\<rparr>,
                                  delete_trans (Some str) (log_call Eicp_logout w)) });
                Some (sli\<lparr>sl_uid := c_uint (- 1), sl_username := None, sl_start_ip_addr := [],
                          sl_login_state := E_SLI_LOGIN_NOT_LOGGED_IN\<rparr>, w) }
      else Some (sli, w))"

definition process_logout_request :: "sesman_env \<Rightarrow> scp_list_item \<Rightarrow> sesman \<Rightarrow> handler_result" where
  "process_logout_request env sli w =
     (if sl_login_state sli \<noteq> E_SLI_LOGIN_NOT_LOGGED_IN
      then do { (sli, w) \<leftarrow> logout_scp_list_item env sli w; Some (E_LI_SUCCESS, sli, w) }
      else Some (E_LI_SUCCESS, sli, w))"

subsection \<open>Displays and socket directories\<close>

text \<open>
  The directory is made unless it exists, then given its permissions and owner; the group is
  the configured one, if any. The umask is restored in every case.
\<close>

definition create_xrdp_socket_path :: "sesman_env \<Rightarrow> int \<Rightarrow> sesman \<Rightarrow> int \<times> sesman" where
  "create_xrdp_socket_path env uid w =
     (let sd = e_sockdir env in
      (if \<not> sd_exists sd \<and> \<not> sd_create sd then 1
       else if sd_chmod sd \<noteq> 0 then 1
       else if (case sd_group sd of None \<Rightarrow> False | Some g \<Rightarrow> g \<noteq> [] \<and> sd_getgroup sd \<noteq> 0) then 1
       else if sd_chown sd \<noteq> 0 then 1 else 0, log_call (Create_sockdir uid) w))"

text \<open>
  A server runs on a display if its socket or lock file exists or one of its ports cannot be
  bound. \<^verbatim>\<open>"%2.2d"\<close> pads to two digits.
\<close>

definition dec2 :: "int \<Rightarrow> cstr" where
  "dec2 v = (if 0 \<le> v \<and> v < 10 then 0x30 # dec_str v else dec_str v)"

definition port_probe :: "sesman_env \<Rightarrow> cstr \<Rightarrow> int \<Rightarrow> int" where
  "port_probe env port x_running =
     (if x_running = 0 \<and> e_tcp_socket env then e_tcp_bind env port else x_running)"

definition x_server_running_check_ports :: "sesman_env \<Rightarrow> int \<Rightarrow> int" where
  "x_server_running_check_ports env display =
     (let x_running = (if e_file_exist env (e_x11_socket_path env display) then 1 else 0);
          x_running = (if x_running = 0
                       then (if e_file_exist env ([0x2f, 0x74, 0x6d, 0x70, 0x2f, 0x2e, 0x58] @ dec_str display @
                               [0x2d, 0x6c, 0x6f, 0x63, 0x6b]) then 1 else 0) else x_running);
          x_running = port_probe env ([0x35, 0x39] @ dec2 display) x_running;
          x_running = port_probe env ([0x36, 0x30] @ dec2 display) x_running;
          x_running = port_probe env ([0x36, 0x32] @ dec2 display) x_running
      in x_running)"

text \<open>The loop variable is an \<^verbatim>\<open>int\<close> compared as unsigned; its overflow is undefined.\<close>

function free_display_loop :: "sesman_env \<Rightarrow> set_int option \<Rightarrow> int \<Rightarrow> int option" where
  "free_display_loop env alloc display =
     (if display < - (2 ^ 31) \<or> display \<ge> 2 ^ 31 then None
      else if c_uint display \<le> max_display_number (e_cfg env)
      then (case set_int_contains alloc display of
              None \<Rightarrow> None
            | Some c \<Rightarrow>
                if c = 0 \<and> x_server_running_check_ports env display = 0 then Some display
                else free_display_loop env alloc (display + 1))
      else Some (- 1))"
  by pat_completeness auto
termination by (relation "measure (\<lambda>(env, alloc, display). nat (2 ^ 31 - display))") auto

declare free_display_loop.simps [simp del]

definition display_utils_get_free_display :: "sesman_env \<Rightarrow> set_int option \<Rightarrow> int option" where
  "display_utils_get_free_display env alloc =
     free_display_loop env alloc (c_int (x11_display_offset (e_cfg env)))"

definition get_free_display :: "sesman_env \<Rightarrow> sesman \<Rightarrow> int option" where
  "get_free_display env w =
     do { alloc \<leftarrow> set_int_init (e_set_alloc env) (c_int (x11_display_offset (e_cfg env)))
            (c_int (max_display_number (e_cfg env)));
          (case alloc of
             None \<Rightarrow> Some (- 1)
           | Some s \<Rightarrow>
               do { alloc \<leftarrow> session_list_get_session_x11_displays w (Some s);
                    alloc \<leftarrow> scp_list_get_create_session_x11_displays w alloc;
                    display_utils_get_free_display env alloc }) }"

subsection \<open>Creating a session\<close>

text \<open>
  The answer to a create request: a status for the client with the display and GUID of an
  existing session, or \<^term>\<open>None\<close> once the request has been passed to sesexec.
\<close>

definition pass_create_request ::
  "sesman_env \<Rightarrow> create_request \<Rightarrow> bool \<Rightarrow> int \<Rightarrow> scp_list_item \<Rightarrow> sesman \<Rightarrow> (int option \<times> sli_state) option" where
  "pass_create_request env c start_sesexec x11_display sli w =
     do { (started, sli, w) \<leftarrow> (if start_sesexec then sesexec_start env sli w else Some (0, sli, w));
          if started \<noteq> 0 then Some (Some E_SCP_SCREATE_GENERAL_ERROR, sli, w)
          else do {
            (login_stat, sli, w) \<leftarrow>
              (if start_sesexec
               then do { ctr \<leftarrow> sl_client_trans sli; str \<leftarrow> sl_sesexec_trans sli;
                         (st, str) \<leftarrow> eicp_send_uds_login_request (e_ipm env) str (t_sck ctr);
                         Some (st, sli\<lparr>sl_sesexec_trans := Some str\<rparr>, log_call (Eicp_uds_login (t_sck ctr)) w) }
               else Some (E_LI_SUCCESS, sli, w));
            if login_stat \<noteq> E_LI_SUCCESS
            then Some (Some E_SCP_SCREATE_GENERAL_ERROR, sli\<lparr>sl_sesexec_trans := None\<rparr>,
                       delete_trans (sl_sesexec_trans sli) w)
            else do {
              str \<leftarrow> sl_sesexec_trans sli;
              (eicp_stat, str) \<leftarrow> eicp_send_create_session_request (e_ipm env) str x11_display c;
              let w = log_call (Eicp_create_session x11_display c) w;
              let sli = sli\<lparr>sl_sesexec_trans := Some str\<rparr>;
              Some (if eicp_stat \<noteq> E_LI_SUCCESS
                    then (Some E_SCP_SCREATE_GENERAL_ERROR, sli\<lparr>sl_sesexec_trans := None\<rparr>,
                          delete_trans (Some str) w)
                    else (None, sli\<lparr>sl_create_session_in_progress := 1,
                                    sl_session_x11_display := x11_display\<rparr>, w)) } } }"

definition create_new_session ::
  "sesman_env \<Rightarrow> nat \<Rightarrow> create_request \<Rightarrow> bool \<Rightarrow> scp_list_item \<Rightarrow> sesman \<Rightarrow> (int option \<times> sli_state) option" where
  "create_new_session env a c start_sesexec sli w =
     (if max_sessions (e_cfg env) > 0 \<and> int (session_list_get_count w) \<ge> max_sessions (e_cfg env)
      then Some (Some E_SCP_SCREATE_MAX_REACHED, sli, w)
      else do { x11_display \<leftarrow> (if SCP_SESSION_TYPE_IS_X11 (c_type c)
                                then get_free_display env (put_sli a sli w) else Some (- 1));
                if SCP_SESSION_TYPE_IS_X11 (c_type c) \<and> x11_display < 0
                then Some (Some E_SCP_SCREATE_NO_DISPLAY, sli, w)
                else let (rv, w) = create_xrdp_socket_path env (sl_uid sli) w
                     in if rv \<noteq> 0 then Some (Some E_SCP_SCREATE_GENERAL_ERROR, sli, w)
                        else pass_create_request env c start_sesexec x11_display sli w })"

definition send_create_response ::
  "sesman_env \<Rightarrow> int \<Rightarrow> cstr \<Rightarrow> guid \<Rightarrow> scp_list_item \<Rightarrow> sesman \<Rightarrow> handler_result" where
  "send_create_response env status display guid sli w =
     do { tr \<leftarrow> sl_client_trans sli;
          (rv, tr) \<leftarrow> scp_send_create_session_response (e_ipm env) tr status display guid;
          Some (rv, sli\<lparr>sl_client_trans := Some tr\<rparr>, log_call (Scp_create_response status display guid) w) }"

definition process_create_session_request ::
  "sesman_env \<Rightarrow> nat \<Rightarrow> scp_list_item \<Rightarrow> sesman \<Rightarrow> handler_result" where
  "process_create_session_request env a sli w =
     do { let start_sesexec = (sl_sesexec_trans sli = None);
          tr \<leftarrow> sl_client_trans sli;
          (rv, msg, tr) \<leftarrow> scp_get_create_session_request tr;
          let sli = sli\<lparr>sl_client_trans := Some tr\<rparr>;
          (case msg of
             None \<Rightarrow> Some (rv, sli, w)
           | Some c \<Rightarrow>
               if sl_login_state sli = E_SLI_LOGIN_NOT_LOGGED_IN
               then send_create_response env E_SCP_SCREATE_NOT_LOGGED_IN [] guid_clear sli w
               else if sl_create_session_in_progress sli \<noteq> 0
               then send_create_response env E_SCP_SCREATE_IN_PROGRESS [] guid_clear sli w
               else do {
                 found \<leftarrow> session_list_get_bydata (e_cfg env) w (sl_uid sli) (c_type c) (c_width c)
                   (c_height c) (c_bpp c) (Some (sl_start_ip_addr sli)) (Some (c_instance_name c));
                 (case found of
                    Some (s, si) \<Rightarrow> send_create_response env E_SCP_SCREATE_OK (si_display si) (si_guid si) sli w
                  | None \<Rightarrow>
                      do { (status, sli, w) \<leftarrow> create_new_session env a c start_sesexec sli w;
                           (case status of
                              None \<Rightarrow> Some (rv, sli, w)
                            | Some st \<Rightarrow> send_create_response env st [] guid_clear sli w) }) }) }"

subsection \<open>Joining a session\<close>

definition forward_connect ::
  "sesman_env \<Rightarrow> guid \<times> cstr \<times> cstr \<times> int \<Rightarrow> scp_list_item \<Rightarrow> sesman \<Rightarrow> (int \<times> sesman) option" where
  "forward_connect env msg sli w =
     (case msg of (guid, client_ip, client_name, fl) \<Rightarrow>
        if sl_login_state sli = E_SLI_LOGIN_NOT_LOGGED_IN then Some (E_SCP_SCONNECT_NOT_LOGGED_IN, w)
        else do { found \<leftarrow> session_list_get_byguid w guid;
                  (case found of
                     None \<Rightarrow> Some (E_SCP_SCONNECT_NO_SUCH_GUID, w)
                   | Some (s, si) \<Rightarrow>
                       if si_uid si \<noteq> sl_uid sli then Some (E_SCP_SCONNECT_NO_SUCH_GUID, w)
                       else do { str \<leftarrow> si_sesexec_trans si;
                                 ctr \<leftarrow> sl_client_trans sli;
                                 (ercp_stat, str) \<leftarrow> ercp_send_connect_session_request (e_ipm env) str
                                    (t_sck ctr) client_ip client_name fl;
                                 let w = w\<lparr>session_mem := (session_mem w)(s \<mapsto> si\<lparr>si_sesexec_trans := Some str\<rparr>)\<rparr>;
                                 Some (if ercp_stat \<noteq> E_LI_SUCCESS then E_SCP_SCONNECT_GENERAL_ERROR
                                       else E_SCP_SCONNECT_OK,
                                       log_call (Ercp_connect s (t_sck ctr) client_ip client_name fl) w) }) })"

definition send_connect_response :: "sesman_env \<Rightarrow> int \<Rightarrow> scp_list_item \<Rightarrow> sesman \<Rightarrow> handler_result" where
  "send_connect_response env status sli w =
     do { tr \<leftarrow> sl_client_trans sli;
          (rv, tr) \<leftarrow> scp_send_connect_session_response (e_ipm env) tr status (- 1) (- 1);
          Some (rv, sli\<lparr>sl_client_trans := Some tr\<rparr>, log_call (Scp_connect_response status) w) }"

definition process_connect_session_request :: "sesman_env \<Rightarrow> scp_list_item \<Rightarrow> sesman \<Rightarrow> handler_result" where
  "process_connect_session_request env sli w =
     do { tr \<leftarrow> sl_client_trans sli;
          (rv, msg, tr) \<leftarrow> scp_get_connect_session_request tr;
          let sli = sli\<lparr>sl_client_trans := Some tr\<rparr>;
          (rv, sli, w) \<leftarrow>
            (case msg of
               None \<Rightarrow> Some (rv, sli, w)
             | Some m \<Rightarrow>
                 do { (status, w) \<leftarrow> forward_connect env m sli w;
                      if status \<noteq> E_SCP_SCONNECT_OK then send_connect_response env status sli w
                      else Some (rv, sli, w) });
          (sli, w) \<leftarrow> logout_scp_list_item env sli w;
          Some (rv, sli\<lparr>sl_dispatcher_action := E_SLD_TERMINATE_SCP_CONN\<rparr>, w) }"

subsection \<open>Listing, the socket directory, closing\<close>

definition send_list_response ::
  "sesman_env \<Rightarrow> int \<Rightarrow> scp_session_info option \<Rightarrow> scp_list_item \<Rightarrow> sesman \<Rightarrow> handler_result" where
  "send_list_response env status info sli w =
     do { tr \<leftarrow> sl_client_trans sli;
          (rv, tr) \<leftarrow> scp_send_list_sessions_response (e_ipm env) tr status info;
          Some (rv, sli\<lparr>sl_client_trans := Some tr\<rparr>, log_call (Scp_list_response status info) w) }"

fun send_infos :: "sesman_env \<Rightarrow> scp_session_info list \<Rightarrow> scp_list_item \<Rightarrow> sesman \<Rightarrow> handler_result" where
  "send_infos env [] sli w = Some (E_LI_SUCCESS, sli, w)"
| "send_infos env (info # infos) sli w =
     do { (rv, sli, w) \<leftarrow> send_list_response env E_SCP_LS_SESSION_INFO (Some info) sli w;
          if rv = E_LI_SUCCESS then send_infos env infos sli w else Some (rv, sli, w) }"

definition process_list_sessions_request :: "sesman_env \<Rightarrow> scp_list_item \<Rightarrow> sesman \<Rightarrow> handler_result" where
  "process_list_sessions_request env sli w =
     (if sl_login_state sli = E_SLI_LOGIN_NOT_LOGGED_IN
      then send_list_response env E_SCP_LS_NOT_LOGGED_IN None sli w
      else do { (infos, cnt, freed) \<leftarrow> session_list_get_byuid (e_info_alloc env) (e_info_dup env) w
                  (if sl_is_admin sli \<noteq> 0 then None else Some (sl_uid sli)) 0;
                (rv, sli, w) \<leftarrow> send_infos env (case infos of None \<Rightarrow> [] | Some is \<Rightarrow> take cnt is) sli w;
                freed \<leftarrow> free_session_info_list infos cnt;
                if rv = E_LI_SUCCESS then send_list_response env E_SCP_LS_END_OF_LIST None sli w
                else Some (rv, sli, w) })"

definition process_create_sockdir_request :: "sesman_env \<Rightarrow> scp_list_item \<Rightarrow> sesman \<Rightarrow> handler_result" where
  "process_create_sockdir_request env sli w =
     do { let (status, w) =
            (if sl_login_state sli = E_SLI_LOGIN_NOT_LOGGED_IN then (E_SCP_CS_NOT_LOGGED_IN, w)
             else let (rv, w) = create_xrdp_socket_path env (sl_uid sli) w
                  in (if rv = 0 then E_SCP_CS_OK else E_SCP_CS_OTHER_ERROR, w));
          tr \<leftarrow> sl_client_trans sli;
          (rv, tr) \<leftarrow> scp_send_create_sockdir_response (e_ipm env) tr status;
          Some (rv, sli\<lparr>sl_client_trans := Some tr\<rparr>, log_call (Scp_sockdir_response status) w) }"

definition process_close_connection_request :: "sesman_env \<Rightarrow> scp_list_item \<Rightarrow> sesman \<Rightarrow> handler_result" where
  "process_close_connection_request env sli w =
     do { (sli, w) \<leftarrow> (if sl_login_state sli \<noteq> E_SLI_LOGIN_NOT_LOGGED_IN
                       then logout_scp_list_item env sli w else Some (sli, w));
          Some (E_LI_SUCCESS, sli\<lparr>sl_dispatcher_action := E_SLD_TERMINATE_SCP_CONN\<rparr>, w) }"

subsection \<open>The dispatcher\<close>

definition scp_switch :: "sesman_env \<Rightarrow> int \<Rightarrow> nat \<Rightarrow> scp_list_item \<Rightarrow> sesman \<Rightarrow> handler_result" where
  "scp_switch env msgno a sli w =
     (if msgno = E_SCP_SET_PEERNAME_REQUEST then process_set_peername_request sli w
      else if msgno = E_SCP_SYS_LOGIN_REQUEST then process_sys_login_request env sli w
      else if msgno = E_SCP_UDS_LOGIN_REQUEST then process_uds_login_request env sli w
      else if msgno = E_SCP_LOGOUT_REQUEST then process_logout_request env sli w
      else if msgno = E_SCP_CREATE_SESSION_REQUEST then process_create_session_request env a sli w
      else if msgno = E_SCP_CONNECT_SESSION_REQUEST then process_connect_session_request env sli w
      else if msgno = E_SCP_LIST_SESSIONS_REQUEST then process_list_sessions_request env sli w
      else if msgno = E_SCP_CREATE_SOCKDIR_REQUEST then process_create_sockdir_request env sli w
      else if msgno = E_SCP_CLOSE_CONNECTION_REQUEST then process_close_connection_request env sli w
      else Some (E_LI_SUCCESS, sli, w))"

definition scp_process :: "sesman_env \<Rightarrow> nat \<Rightarrow> sesman \<Rightarrow> (libipm_status \<times> sesman) option" where
  "scp_process env a w =
     do { sli \<leftarrow> scp_mem w a;
          tr \<leftarrow> sl_client_trans sli;
          (rv, sli, w) \<leftarrow> scp_switch env (scp_msg_in_get_msgno tr) a sli w;
          Some (rv, put_sli a sli w) }"

end
