(* ===== verification/Sesman_Events.thy ===== *)
theory Sesman_Events
  imports Scp_Process
begin

text \<open>
  \<^verbatim>\<open>sesman/eicp_process.c\<close> and \<^verbatim>\<open>sesman/ercp_process.c\<close>: the handlers of what sesexec sends to
  sesman, and the callbacks of \<^verbatim>\<open>sesman/sesman.c\<close> that run the handlers when a message is
  complete.
\<close>

subsection \<open>Set-up messages from sesexec\<close>

definition process_sys_login_response :: "sesman_env \<Rightarrow> scp_list_item \<Rightarrow> sesman \<Rightarrow> handler_result" where
  "process_sys_login_response env sli w =
     do { str \<leftarrow> sl_sesexec_trans sli;
          (rv, msg, str) \<leftarrow> eicp_get_sys_login_response str;
          let sli = sli\<lparr>sl_sesexec_trans := Some str\<rparr>;
          (case msg of
             None \<Rightarrow> Some (rv, sli, w)
           | Some (is_logged_in, uid, scp_fd) \<Rightarrow>
               if is_logged_in = 0
               then Some (rv, sli\<lparr>sl_dispatcher_action := E_SLD_TERMINATE_SCP_CONN\<rparr>, w)
               else do { ctr \<leftarrow> scp_init_trans_from_fd (e_ipm env) (e_client_alloc env) (e_client_trans env)
                           scp_fd TRANS_TYPE_SERVER;
                         (case ctr of
                            None \<Rightarrow> Some (rv, sli\<lparr>sl_client_trans := None,
                                       sl_dispatcher_action := E_SLD_TERMINATE_SCP_CONN\<rparr>, close_fd scp_fd w)
                          | Some t \<Rightarrow> Some (rv, sli\<lparr>sl_client_trans := Some t, sl_login_state := E_SLI_LOGIN_SYS,
                                       sl_uid := uid, sl_is_admin := 0\<rparr>, w)) }) }"

text \<open>
  The new session takes over the transport to sesexec. The address of the session item, if
  one was made, is returned: it is where the transport now lives.
\<close>

definition new_session_from ::
  "nat \<Rightarrow> cstr \<Rightarrow> guid \<Rightarrow> ipm_trans \<Rightarrow> scp_list_item \<Rightarrow> sesman \<Rightarrow> sesman option" where
  "new_session_from s display guid str sli w =
     do { si \<leftarrow> session_mem w s;
          Some (w\<lparr>session_mem := (session_mem w)(s \<mapsto>
            si\<lparr>si_sesexec_trans := Some (ercp_trans_from_eicp_trans str),
               si_sesexec_pid := sl_sesexec_pid sli, si_guid := guid, si_uid := sl_uid sli,
               si_display := take (MAX_DISPLAY_NAME_SIZE - 1) display\<rparr>)\<rparr>) }"

definition process_create_session_response ::
  "sesman_env \<Rightarrow> scp_list_item \<Rightarrow> sesman \<Rightarrow> (libipm_status \<times> nat option \<times> sli_state) option" where
  "process_create_session_response env sli w =
     do { str \<leftarrow> sl_sesexec_trans sli;
          (rv, msg, str) \<leftarrow> eicp_get_create_session_response str;
          let sli = sli\<lparr>sl_sesexec_trans := Some str\<rparr>;
          (case msg of
             None \<Rightarrow> Some (rv, None, sli, w)
           | Some (status, display, guid) \<Rightarrow>
               do { (s, w) \<leftarrow> (if status = E_SCP_SCREATE_OK
                               then session_list_new (e_new_addr env) (e_list_mem env) w
                               else Some (None, w));
                    let status = (if status = E_SCP_SCREATE_OK \<and> s = None
                                  then E_SCP_SCREATE_NO_MEMORY else status);
                    (display, guid, sli, w) \<leftarrow>
                      (case s of
                         Some s' \<Rightarrow>
                           do { w \<leftarrow> new_session_from s' display guid str sli w;
                                Some (display, guid, sli\<lparr>sl_sesexec_trans := None, sl_sesexec_pid := 0\<rparr>, w) }
                       | None \<Rightarrow> Some ([], guid_clear, sli, w));
                    (rv, sli, w) \<leftarrow> send_create_response env status display guid sli w;
                    Some (rv, s, sli\<lparr>sl_create_session_in_progress := 0, sl_session_x11_display := - 1\<rparr>, w) }) }"

definition eicp_process :: "sesman_env \<Rightarrow> nat \<Rightarrow> sesman \<Rightarrow> (libipm_status \<times> nat option \<times> sesman) option" where
  "eicp_process env a w =
     do { sli \<leftarrow> scp_mem w a;
          str \<leftarrow> sl_sesexec_trans sli;
          let msgno = eicp_msg_in_get_msgno str;
          (rv, s, sli, w) \<leftarrow>
            (if msgno = E_EICP_SYS_LOGIN_RESPONSE
             then do { (rv, sli, w) \<leftarrow> process_sys_login_response env sli w; Some (rv, None, sli, w) }
             else if msgno = E_EICP_CREATE_SESSION_RESPONSE
             then process_create_session_response env sli w
             else Some (E_LI_SUCCESS, None, sli, w));
          Some (rv, s, put_sli a sli w) }"

subsection \<open>Run-time events of a session\<close>

text \<open>
  The out-parameters of the announcement are fields of the session item; the strings are
  copied into fixed-size fields only when the whole message is valid.
\<close>

definition process_session_announce_event :: "session_item \<Rightarrow> (libipm_status \<times> session_item) option" where
  "process_session_announce_event si =
     do { tr \<leftarrow> si_sesexec_trans si;
          (rv, guid, msg, tr) \<leftarrow> ercp_get_session_announce_event tr;
          let si = si\<lparr>si_sesexec_trans := Some tr,
                      si_guid := (case guid of None \<Rightarrow> si_guid si | Some g \<Rightarrow> g)\<rparr>;
          (case msg of
             None \<Rightarrow> Some (rv, si)
           | Some m \<Rightarrow>
               Some (rv, si\<lparr>si_uid := a_uid m, si_type := a_type m, si_start_width := a_start_width m,
                 si_start_height := a_start_height m, si_bpp := a_bpp m, si_start_time := a_start_time m,
                 si_start_ip_addr := take (MAX_PEER_ADDRSTRLEN - 1) (a_start_ip_addr m),
                 si_display := take (MAX_DISPLAY_NAME_SIZE - 1) (a_display m),
                 si_xrdp_instance_name := take (MAX_XRDP_INSTANCE_NAMELEN - 1) (a_instance_name m),
                 si_state := E_SESSION_RUNNING\<rparr>)) }"

definition process_session_finished_event :: "session_item \<Rightarrow> session_item option" where
  "process_session_finished_event si = set_trans_down si"

definition process_client_connect_event :: "session_item \<Rightarrow> (libipm_status \<times> session_item) option" where
  "process_client_connect_event si =
     do { tr \<leftarrow> si_sesexec_trans si;
          (rv, msg, tr) \<leftarrow> ercp_get_client_connect_event tr;
          let si = si\<lparr>si_sesexec_trans := Some tr\<rparr>;
          (case msg of
             None \<Rightarrow> Some (rv, si)
           | Some (client_ip, client_name, connect_time) \<Rightarrow>
               Some (rv, si\<lparr>si_client_ip := take (MAX_PEER_ADDRSTRLEN - 1) client_ip,
                 si_client_name := take (INFO_CLIENT_NAME_BYTES_UTF8 - 1) client_name,
                 si_last_connect_disconnect := connect_time\<rparr>)) }"

definition process_client_disconnect_event :: "session_item \<Rightarrow> (libipm_status \<times> session_item) option" where
  "process_client_disconnect_event si =
     do { tr \<leftarrow> si_sesexec_trans si;
          (rv, msg, tr) \<leftarrow> ercp_get_client_disconnect_event tr;
          let si = si\<lparr>si_sesexec_trans := Some tr\<rparr>;
          (case msg of
             None \<Rightarrow> Some (rv, si)
           | Some t \<Rightarrow> Some (rv, si\<lparr>si_client_ip := [], si_client_name := [],
                                  si_last_connect_disconnect := t\<rparr>)) }"

definition ercp_process :: "session_item \<Rightarrow> (libipm_status \<times> session_item) option" where
  "ercp_process si =
     do { tr \<leftarrow> si_sesexec_trans si;
          let msgno = ercp_msg_in_get_msgno tr;
          if msgno = E_ERCP_SESSION_ANNOUNCE_EVENT then process_session_announce_event si
          else if msgno = E_ERCP_SESSION_FINISHED_EVENT
          then do { si \<leftarrow> process_session_finished_event si; Some (E_LI_SUCCESS, si) }
          else if msgno = E_ERCP_CLIENT_CONNECT_EVENT then process_client_connect_event si
          else if msgno = E_ERCP_CLIENT_DISCONNECT_EVENT then process_client_disconnect_event si
          else Some (E_LI_SUCCESS, si) }"

subsection \<open>Callbacks\<close>

text \<open>
  The callback of a transport with new data: when the message is complete it is handled, and
  the input side is reset afterwards, whatever the handler returned. The descriptors closed by
  the reset are recorded.
\<close>

definition sesman_ercp_data_in ::
  "(nat \<Rightarrow> byte) \<Rightarrow> session_item \<Rightarrow> (libipm_status \<times> int list \<times> session_item) option" where
  "sesman_ercp_data_in junk si =
     do { tr \<leftarrow> si_sesexec_trans si;
          (rv, available, tr) \<leftarrow> libipm_msg_in_check_available tr;
          let si = si\<lparr>si_sesexec_trans := Some tr\<rparr>;
          if rv = E_LI_SUCCESS \<and> available
          then do { (rv, si) \<leftarrow> ercp_process si;
                    tr \<leftarrow> si_sesexec_trans si;
                    (closed, tr) \<leftarrow> libipm_msg_in_reset junk tr;
                    Some (rv, closed, si\<lparr>si_sesexec_trans := Some tr\<rparr>) }
          else Some (rv, [], si) }"

definition reset_side ::
  "ipm_env \<Rightarrow> ipm_trans \<Rightarrow> sesman \<Rightarrow> (ipm_trans \<times> sesman) option" where
  "reset_side ipm tr w =
     do { (closed, tr) \<leftarrow> libipm_msg_in_reset (fresh_mem ipm) tr;
          Some (tr, w\<lparr>closed_fds := closed_fds w @ closed\<rparr>) }"

definition sesman_scp_data_in :: "sesman_env \<Rightarrow> nat \<Rightarrow> sesman \<Rightarrow> (libipm_status \<times> sesman) option" where
  "sesman_scp_data_in env a w =
     do { sli \<leftarrow> scp_mem w a;
          tr \<leftarrow> sl_client_trans sli;
          (rv, available, tr) \<leftarrow> libipm_msg_in_check_available tr;
          let w = put_sli a (sli\<lparr>sl_client_trans := Some tr\<rparr>) w;
          if rv = E_LI_SUCCESS \<and> available
          then do { (rv, w) \<leftarrow> scp_process env a w;
                    sli \<leftarrow> scp_mem w a;
                    tr \<leftarrow> sl_client_trans sli;
                    (tr, w) \<leftarrow> reset_side (e_ipm env) tr w;
                    Some (rv, put_sli a (sli\<lparr>sl_client_trans := Some tr\<rparr>) w) }
          else Some (rv, w) }"

text \<open>The transport to reset is the session's once the session has taken it over.\<close>

definition sesman_eicp_data_in :: "sesman_env \<Rightarrow> nat \<Rightarrow> sesman \<Rightarrow> (libipm_status \<times> sesman) option" where
  "sesman_eicp_data_in env a w =
     do { sli \<leftarrow> scp_mem w a;
          tr \<leftarrow> sl_sesexec_trans sli;
          (rv, available, tr) \<leftarrow> libipm_msg_in_check_available tr;
          let w = put_sli a (sli\<lparr>sl_sesexec_trans := Some tr\<rparr>) w;
          if rv = E_LI_SUCCESS \<and> available
          then do { (rv, s, w) \<leftarrow> eicp_process env a w;
                    (case s of
                       Some s' \<Rightarrow>
                         do { si \<leftarrow> session_mem w s';
                              tr \<leftarrow> si_sesexec_trans si;
                              (tr, w) \<leftarrow> reset_side (e_ipm env) tr w;
                              Some (rv, w\<lparr>session_mem := (session_mem w)(s' \<mapsto> si\<lparr>si_sesexec_trans := Some tr\<rparr>)\<rparr>) }
                     | None \<Rightarrow>
                         do { sli \<leftarrow> scp_mem w a;
                              tr \<leftarrow> sl_sesexec_trans sli;
                              (tr, w) \<leftarrow> reset_side (e_ipm env) tr w;
                              Some (rv, put_sli a (sli\<lparr>sl_sesexec_trans := Some tr\<rparr>) w) }) }
          else Some (rv, w) }"

abbreviation (input) MAX_SCP_LIST_ITEMS :: nat where "MAX_SCP_LIST_ITEMS \<equiv> 16"

text \<open>
  A new connection. The item is made before the transport is set up: when the set-up fails the
  item stays on the list without a transport, and the next poll removes it.
\<close>

definition sesman_listen_conn_in ::
  "sesman_env \<Rightarrow> bool \<Rightarrow> ipm_trans \<Rightarrow> sesman \<Rightarrow> (int \<times> sesman) option" where
  "sesman_listen_conn_in env alloc_ok new_self w =
     do { n \<leftarrow> scp_list_get_count w;
          if n \<ge> MAX_SCP_LIST_ITEMS then Some (0, delete_trans (Some new_self) w)
          else do { (p, w) \<leftarrow> scp_list_item_new (e_new_addr env) (e_list_mem env) w;
                    (case p of
                       None \<Rightarrow> Some (0, delete_trans (Some new_self) w)
                     | Some a \<Rightarrow>
                         do { (rv, tr) \<leftarrow> scp_init_trans (e_ipm env) alloc_ok False new_self;
                              if rv \<noteq> E_LI_SUCCESS then Some (0, delete_trans (Some tr) w)
                              else do { sli \<leftarrow> scp_mem w a;
                                        Some (0, put_sli a (sli\<lparr>sl_client_trans := Some tr\<rparr>) w) } }) } }"

end
