(* ===== verification/Sesman_Safety.thy ===== *)
theory Sesman_Safety
  imports Session_Props Sesman_Events
begin

text \<open>
  What sesman does for a client, and for whom. The calls a handler makes are recorded in
  the state; each of them must be permitted by the login of the connection that caused it.
\<close>

definition logged_in :: "scp_list_item \<Rightarrow> bool" where
  "logged_in sli \<longleftrightarrow> sl_login_state sli \<noteq> E_SLI_LOGIN_NOT_LOGGED_IN"

text \<open>
  What a connection may cause. A session is created, and a socket directory made, only for
  the connection's own user; a session is joined only by its owner; a session is described
  only to its owner, or to an administrator; the client that asks for a session is told of a
  live one only, and of one of its own when the policy compares users.
\<close>

fun permitted :: "sesman_cfg \<Rightarrow> sesman \<Rightarrow> scp_list_item \<Rightarrow> sesman_call \<Rightarrow> bool" where
  "permitted cfg w sli (Create_sockdir uid) \<longleftrightarrow> logged_in sli \<and> uid = sl_uid sli"
| "permitted cfg w sli (Eicp_uds_login fd) \<longleftrightarrow> logged_in sli"
| "permitted cfg w sli (Eicp_create_session d c) \<longleftrightarrow> logged_in sli \<and> sl_create_session_in_progress sli = 0"
| "permitted cfg w sli (Ercp_connect s fd ip client fl) \<longleftrightarrow> logged_in sli \<and>
     (\<exists>si. session_mem w s = Some si \<and> SESSION_IN_USE si \<and> si_uid si = sl_uid sli)"
| "permitted cfg w sli (Scp_list_response st (Some info)) \<longleftrightarrow> logged_in sli \<and>
     (sl_is_admin sli \<noteq> 0 \<or> i_uid info = sl_uid sli)"
| "permitted cfg w sli (Scp_create_response st display guid) \<longleftrightarrow> (st = E_SCP_SCREATE_OK \<longrightarrow> logged_in sli \<and>
     (\<exists>s si. session_mem w s = Some si \<and> SESSION_IN_USE si \<and> display = si_display si \<and> guid = si_guid si \<and>
        (PF_user \<in> policy_fields (policy cfg) \<longrightarrow> si_uid si = sl_uid sli)))"
| "permitted cfg w sli _ \<longleftrightarrow> True"

definition emits :: "(sesman_call \<Rightarrow> bool) \<Rightarrow> sesman \<Rightarrow> sesman \<Rightarrow> bool" where
  "emits P w w' \<longleftrightarrow> (\<exists>new. calls w' = calls w @ new \<and> (\<forall>c \<in> set new. P c))"

named_theorems emits_intros

lemma emits_same [emits_intros]: "calls w' = calls w \<Longrightarrow> emits P w w'"
  by (simp add: emits_def)

lemma emits_log [emits_intros]: "calls w' = calls w @ [c] \<Longrightarrow> P c \<Longrightarrow> emits P w w'"
  by (auto simp: emits_def)

lemma emits_trans: "emits P w w1 \<Longrightarrow> emits P w1 w2 \<Longrightarrow> emits P w w2"
  by (fastforce simp: emits_def)

lemma calls_simps [simp]:
  "calls (log_call c w) = calls w @ [c]" "calls (put_sli a sli w) = calls w"
  "calls (delete_trans tr w) = calls w" "calls (close_fd fd w) = calls w"
  "session_mem (log_call c w) = session_mem w" "session_mem (put_sli a sli w) = session_mem w"
  "session_mem (delete_trans tr w) = session_mem w" "session_mem (close_fd fd w) = session_mem w"
  "g_session_list (log_call c w) = g_session_list w" "g_session_list (put_sli a sli w) = g_session_list w"
  "g_session_list (delete_trans tr w) = g_session_list w" "g_session_list (close_fd fd w) = g_session_list w"
  by (simp_all add: log_call_def put_sli_def delete_trans_def close_fd_def split: option.splits)

text \<open>Two items that differ in their transports and names permit the same.\<close>

lemma permitted_cong:
  assumes "sl_login_state sli' = sl_login_state sli" "sl_uid sli' = sl_uid sli"
    "sl_is_admin sli' = sl_is_admin sli" "sl_create_session_in_progress sli' = sl_create_session_in_progress sli"
  shows "permitted cfg w sli' c = permitted cfg w sli c"
  using assms by (cases "(cfg, w, sli, c)" rule: permitted.cases) (auto simp: logged_in_def)

subsection \<open>Frame of the helpers\<close>

lemmas handler_simps = Option.bind_eq_Some_conv Let_def

lemma sesexec_start_frame:
  assumes "sesexec_start env sli w = Some (rv, sli', w')"
  shows "calls w' = calls w @ [Sesexec_start] \<and> session_mem w' = session_mem w \<and>
     g_session_list w' = g_session_list w \<and> sl_client_trans sli' = sl_client_trans sli \<and>
     sl_login_state sli' = sl_login_state sli \<and> sl_uid sli' = sl_uid sli \<and> sl_is_admin sli' = sl_is_admin sli \<and>
     sl_create_session_in_progress sli' = sl_create_session_in_progress sli \<and>
     (rv = 0 \<longrightarrow> sl_sesexec_trans sli' \<noteq> None)"
  using assms by (auto simp: sesexec_start_def handler_simps split: if_splits option.splits prod.splits)

lemma logout_frame:
  assumes "logout_scp_list_item env sli w = Some (sli', w')"
  shows "emits (permitted cfg w0 sli0) w w' \<and> session_mem w' = session_mem w \<and> g_session_list w' = g_session_list w"
  using assms
  by (auto simp: logout_scp_list_item_def handler_simps emits_def split: if_splits option.splits)

text \<open>The searches only find items of the table.\<close>

lemma find_SomeD: "find P xs = Some x \<Longrightarrow> P x \<and> x \<in> set xs"
  by (auto simp: find_Some_iff)

lemma view_mem: "session_table w l as \<Longrightarrow> (a, si) \<in> set (view w as) \<Longrightarrow> session_mem w a = Some si"
  by (auto simp: ptr_view_def ptr_table_def) (metis domD option.sel)

lemma byguid_found:
  assumes "session_table w l as" and "session_list_get_byguid w g = Some (Some (s, si))"
  shows "session_mem w s = Some si \<and> SESSION_IN_USE si \<and> g = si_guid si"
  using assms session_list_get_byguid_ok [OF assms(1), of g] view_mem [OF assms(1)]
  by (auto dest!: find_SomeD)

lemma bydata_found:
  assumes "session_table w l as"
    and "session_list_get_bydata cfg w uid ty wd ht bpp (Some ip) (Some inst) = Some (Some (s, si))"
  shows "session_mem w s = Some si \<and> SESSION_IN_USE si \<and> si_type si = ty \<and>
     (PF_user \<in> policy_fields (policy cfg) \<longrightarrow> si_uid si = uid)"
  using assms(2) view_mem [OF assms(1)] unfolding session_list_get_bydata_eq [OF assms(1)]
  by (auto dest!: find_SomeD split: if_splits)

lemma infos_from_uid: "info \<in> set (infos_from dup k sis) \<Longrightarrow> \<exists>si \<in> set sis. i_uid info = si_uid si"
  by (induction dup k sis rule: infos_from.induct) (auto simp: session_info_def Let_def)

lemma byuid_found:
  assumes "session_table w l as" and "session_list_get_byuid ok dup w (Some uid) 0 = Some (Some infos, n, freed)"
    and "info \<in> set infos"
  shows "i_uid info = uid"
  using assms(2,3) unfolding session_list_get_byuid_ok [OF assms(1)]
  by (auto dest!: infos_from_uid simp: uid_selected_def split: if_splits)

subsection \<open>Each handler makes permitted calls only\<close>

lemma handover_safe:
  assumes "sys_login_handover env u p ip sli w = Some (e, sli', w')"
  shows "emits (permitted cfg w0 sli0) w w'"
  using assms unfolding sys_login_handover_def
  by (auto simp: handler_simps emits_def dest!: sesexec_start_frame split: if_split_asm)

lemma send_login_calls:
  "send_login_response env st cl uid sli w = Some (rv, sli', w') \<Longrightarrow>
     calls w' = calls w @ [Scp_login_response st cl uid] \<and> session_mem w' = session_mem w"
  by (auto simp: send_login_response_def handler_simps)

lemma sys_login_safe:
  assumes "process_sys_login_request env sli w = Some (rv, sli', w')"
  shows "emits (permitted cfg w sli) w w'"
  using assms unfolding process_sys_login_request_def
  by (auto simp: handler_simps split: option.split_asm intro: emits_intros
      elim!: handover_safe dest!: send_login_calls)
    (metis emits_log emits_trans handover_safe permitted.simps(7))

lemma uds_login_safe:
  assumes "process_uds_login_request env sli w = Some (rv, sli', w')"
  shows "emits (permitted cfg w sli) w w'"
  using assms
  by (auto simp: process_uds_login_request_def send_login_response_def handler_simps emits_def
      split: if_splits option.splits prod.splits)

lemma set_peername_safe:
  assumes "process_set_peername_request sli w = Some (rv, sli', w')"
  shows "emits (permitted cfg w sli) w w'"
  using assms by (auto simp: process_set_peername_request_def handler_simps emits_def split: if_splits)

lemma logout_safe:
  assumes "process_logout_request env sli w = Some (rv, sli', w')"
  shows "emits (permitted cfg w sli) w w'"
  using assms
  by (auto simp: process_logout_request_def handler_simps dest!: logout_frame split: if_splits intro: emits_intros)

lemma close_safe:
  assumes "process_close_connection_request env sli w = Some (rv, sli', w')"
  shows "emits (permitted cfg w sli) w w'"
  using assms
  by (auto simp: process_close_connection_request_def handler_simps dest!: logout_frame split: if_splits intro: emits_intros)

lemma sockdir_frame:
  "create_xrdp_socket_path env uid w = (rv, w') \<Longrightarrow>
     calls w' = calls w @ [Create_sockdir uid] \<and> session_mem w' = session_mem w"
  by (auto simp: create_xrdp_socket_path_def Let_def)

lemma create_sockdir_safe:
  assumes "process_create_sockdir_request env sli w = Some (rv, sli', w')"
  shows "emits (permitted cfg w sli) w w'"
  using assms
  by (auto simp: process_create_sockdir_request_def handler_simps emits_def logged_in_def
      dest!: sockdir_frame split: if_splits prod.splits)

text \<open>The three requests about sessions.\<close>

lemma send_create_calls:
  "send_create_response env st d g sli w = Some (rv, sli', w') \<Longrightarrow>
     calls w' = calls w @ [Scp_create_response st d g] \<and> session_mem w' = session_mem w"
  by (auto simp: send_create_response_def handler_simps)

lemma pass_create_safe:
  assumes "pass_create_request env c start d sli w = Some (st, sli', w')"
    and "\<And>x. P (Eicp_create_session d x)" "\<And>fd. P (Eicp_uds_login fd)" "P Sesexec_start"
  shows "emits P w w'"
  using assms unfolding pass_create_request_def
  by (auto simp: handler_simps emits_def dest!: sesexec_start_frame split: if_split_asm)

lemma pass_create_status: "pass_create_request env c start d sli w = Some (Some st, sli', w') \<Longrightarrow> st \<noteq> E_SCP_SCREATE_OK"
  by (auto simp: pass_create_request_def handler_simps split: if_split_asm)

lemma create_new_safe:
  assumes "create_new_session env a c start sli w = Some (st, sli', w')"
    and "logged_in sli0" "sl_create_session_in_progress sli0 = 0" "sl_uid sli = sl_uid sli0"
  shows "emits (permitted cfg w0 sli0) w w'"
proof -
  have emits_dir: "emits (permitted cfg w0 sli0) w w1" if "create_xrdp_socket_path env (sl_uid sli) w = (rv, w1)" for rv w1
    using sockdir_frame [OF that] assms(2,4) by (auto simp: emits_def)
  have emits_pass: "emits (permitted cfg w0 sli0) w1 w'" if "pass_create_request env c start d sli w1 = Some (st, sli', w')" for w1 d
    using assms(2,3) by (intro pass_create_safe [OF that]) auto
  show ?thesis
    using assms(1) unfolding create_new_session_def
    by (auto simp: handler_simps split: if_split_asm prod.split_asm
        intro: emits_intros emits_dir emits_trans [OF emits_dir emits_pass])
qed

lemma create_new_status: "create_new_session env a c start sli w = Some (Some st, sli', w') \<Longrightarrow> st \<noteq> E_SCP_SCREATE_OK"
  by (auto simp: create_new_session_def handler_simps dest: pass_create_status split: if_split_asm prod.split_asm)

lemma create_session_safe:
  assumes "process_create_session_request env a sli w = Some (rv, sli', w')" and "session_table w l as"
  shows "emits (permitted (e_cfg env) w sli) w w'"
proof -
  let ?P = "permitted (e_cfg env) w sli"
  obtain tr rv0 msg tr' where tr: "sl_client_trans sli = Some tr"
    and get: "scp_get_create_session_request tr = Some (rv0, msg, tr')"
    using assms(1) by (auto simp: process_create_session_request_def handler_simps)
  let ?sli = "sli\<lparr>sl_client_trans := Some tr'\<rparr>"
  have refuse: "emits ?P w1 w'" if "send_create_response env st d g s1 w1 = Some (rv, sli', w')" "st \<noteq> 0" for st d g s1 w1
    using send_create_calls [OF that(1)] that(2) by (auto intro: emits_log)
  show ?thesis
  proof (cases msg)
    case None
    then show ?thesis
      using assms(1) tr get by (auto simp: process_create_session_request_def handler_simps intro: emits_intros)
  next
    case (Some c)
    show ?thesis
    proof (cases "logged_in sli \<and> sl_create_session_in_progress sli = 0")
      case False
      then show ?thesis
        using assms(1) tr get Some refuse [of E_SCP_SCREATE_NOT_LOGGED_IN] refuse [of E_SCP_SCREATE_IN_PROGRESS]
        by (auto simp: process_create_session_request_def logged_in_def Let_def split: if_split_asm)
    next
      case ok: True
      then obtain found where found: "session_list_get_bydata (e_cfg env) w (sl_uid ?sli) (c_type c) (c_width c)
          (c_height c) (c_bpp c) (Some (sl_start_ip_addr ?sli)) (Some (c_instance_name c)) = Some found"
        and rest: "(case found of
            Some (s, si) \<Rightarrow> send_create_response env E_SCP_SCREATE_OK (si_display si) (si_guid si) ?sli w
          | None \<Rightarrow> do { (status, s1, w1) \<leftarrow> create_new_session env a c (sl_sesexec_trans sli = None) ?sli w;
               (case status of None \<Rightarrow> Some (rv0, s1, w1)
                | Some st \<Rightarrow> send_create_response env st [] guid_clear s1 w1) }) = Some (rv, sli', w')"
        using assms(1) tr get Some
        by (auto simp: process_create_session_request_def logged_in_def handler_simps split: if_split_asm)
      show ?thesis
      proof (cases found)
        case None
        then obtain status s1 w1 where new: "create_new_session env a c (sl_sesexec_trans sli = None) ?sli w = Some (status, s1, w1)"
          and fin: "(case status of None \<Rightarrow> Some (rv0, s1, w1)
                | Some st \<Rightarrow> send_create_response env st [] guid_clear s1 w1) = Some (rv, sli', w')"
          using rest by (auto simp: handler_simps)
        have "emits ?P w w1"
          using ok by (intro create_new_safe [OF new]) auto
        then show ?thesis
          using fin new refuse [of _ "[]" guid_clear s1 w1] create_new_status
          by (cases status) (auto intro: emits_trans)
      next
        case (Some p)
        then obtain s si where f: "found = Some (s, si)" by (cases p) auto
        then have si: "session_mem w s = Some si" "SESSION_IN_USE si"
          "PF_user \<in> policy_fields (policy (e_cfg env)) \<longrightarrow> si_uid si = sl_uid sli"
          using bydata_found [OF assms(2), of "e_cfg env"] found by auto
        have "calls w' = calls w @ [Scp_create_response 0 (si_display si) (si_guid si)]"
          using rest f by (auto dest!: send_create_calls)
        moreover have "?P (Scp_create_response 0 (si_display si) (si_guid si))"
          using ok si by auto
        ultimately show ?thesis by (rule emits_log)
      qed
    qed
  qed
qed

lemma forward_connect_safe:
  assumes "forward_connect env m sli w = Some (st, w')" and "session_table w l as"
    and "logged_in sli0 = logged_in sli" "sl_uid sli0 = sl_uid sli"
  shows "emits (permitted cfg w sli0) w w'"
proof -
  obtain g ip cn fl where m: "m = (g, ip, cn, fl)" by (cases m) auto
  show ?thesis
  proof (cases "logged_in sli")
    case False
    then show ?thesis
      using assms(1) by (auto simp: forward_connect_def m logged_in_def intro: emits_intros)
  next
    case True
    then obtain found where found: "session_list_get_byguid w g = Some found"
      using assms(1) by (auto simp: forward_connect_def m logged_in_def handler_simps)
    show ?thesis
    proof (cases found)
      case None
      then show ?thesis
        using assms(1) True found by (auto simp: forward_connect_def m logged_in_def intro: emits_intros)
    next
      case (Some p)
      then obtain s si where f: "found = Some (s, si)" by (cases p) auto
      with found have si: "session_mem w s = Some si \<and> SESSION_IN_USE si"
        using byguid_found [OF assms(2)] by blast
      show ?thesis
      proof (cases "si_uid si = sl_uid sli")
        case False
        then show ?thesis
          using assms(1) True found f by (auto simp: forward_connect_def m logged_in_def intro: emits_intros)
      next
        case own: True
        then obtain fd where "calls w' = calls w @ [Ercp_connect s fd ip cn fl]"
          using assms(1) True found f
          by (auto simp: forward_connect_def m logged_in_def handler_simps)
        with own si True assms(3,4) show ?thesis
          by (intro emits_log) auto
      qed
    qed
  qed
qed

lemma connect_session_safe:
  assumes "process_connect_session_request env sli w = Some (rv, sli', w')" and "session_table w l as"
  shows "emits (permitted cfg w sli) w w'"
proof -
  obtain tr rv0 msg tr' where tr: "sl_client_trans sli = Some tr"
    and get: "scp_get_connect_session_request tr = Some (rv0, msg, tr')"
    using assms(1) by (auto simp: process_connect_session_request_def handler_simps)
  let ?sli = "sli\<lparr>sl_client_trans := Some tr'\<rparr>"
  obtain rv1 s1 w1 w2 where mid: "(case msg of None \<Rightarrow> Some (rv0, ?sli, w)
      | Some m \<Rightarrow> do { (status, w) \<leftarrow> forward_connect env m ?sli w;
           if status \<noteq> E_SCP_SCONNECT_OK then send_connect_response env status ?sli w
           else Some (rv0, ?sli, w) }) = Some (rv1, s1, w1)"
    and out: "logout_scp_list_item env s1 w1 = Some (w2, w')"
    using assms(1) tr get by (auto simp: process_connect_session_request_def handler_simps)
  have send: "emits (permitted cfg w sli) wa wb" if "send_connect_response env st s wa = Some (r, s', wb)" for st s s' wa wb r
    using that by (auto simp: send_connect_response_def handler_simps intro: emits_log)
  have fwd: "emits (permitted cfg w sli) w wa" if "forward_connect env m ?sli w = Some (st, wa)" for m st wa
    using forward_connect_safe [OF that assms(2), of sli] by (simp add: logged_in_def)
  have "emits (permitted cfg w sli) w w1"
    using mid by (auto simp: handler_simps split: option.split_asm if_split_asm
        intro: emits_intros fwd emits_trans [OF fwd send])
  then show ?thesis
    using logout_frame [OF out] emits_trans by blast
qed

lemma send_infos_safe:
  "send_infos env infos sli w = Some (rv, sli', w') \<Longrightarrow>
     \<forall>info \<in> set infos. P (Scp_list_response E_SCP_LS_SESSION_INFO (Some info)) \<Longrightarrow> emits P w w'"
proof (induction env infos sli w rule: send_infos.induct)
  case (2 env info infos sli w)
  then obtain rv1 s1 w1 where one: "send_list_response env E_SCP_LS_SESSION_INFO (Some info) sli w = Some (rv1, s1, w1)"
    and rest: "if rv1 = E_LI_SUCCESS then send_infos env infos s1 w1 = Some (rv, sli', w') else w' = w1"
    by (auto simp: handler_simps split: if_split_asm)
  have "emits P w w1"
    using one "2.prems"(2) by (auto simp: send_list_response_def handler_simps intro: emits_log)
  then show ?case
    using rest "2.IH" [OF one] "2.prems"(2) by (auto split: if_split_asm intro: emits_trans)
qed (auto intro: emits_intros)

lemma send_list_safe:
  "send_list_response env st None sli w = Some (rv, sli', w') \<Longrightarrow> emits (permitted cfg w0 sli0) w w'"
  by (auto simp: send_list_response_def handler_simps intro: emits_log)

lemma list_sessions_safe:
  assumes "process_list_sessions_request env sli w = Some (rv, sli', w')" and "session_table w l as"
  shows "emits (permitted cfg w sli) w w'"
proof (cases "logged_in sli")
  case False
  then show ?thesis
    using assms(1) by (auto simp: process_list_sessions_request_def logged_in_def intro: send_list_safe)
next
  case True
  let ?sel = "if sl_is_admin sli \<noteq> 0 then None else Some (sl_uid sli)"
  obtain infos cnt freed rv1 s1 w1 where get: "session_list_get_byuid (e_info_alloc env) (e_info_dup env) w ?sel 0 =
        Some (infos, cnt, freed)"
    and infos: "send_infos env (case infos of None \<Rightarrow> [] | Some is' \<Rightarrow> take cnt is') sli w = Some (rv1, s1, w1)"
    and rest: "if rv1 = E_LI_SUCCESS then send_list_response env E_SCP_LS_END_OF_LIST None s1 w1 = Some (rv, sli', w')
      else w' = w1"
    using assms(1) True
    by (auto simp: process_list_sessions_request_def logged_in_def handler_simps split: if_split_asm)
  have "emits (permitted cfg w sli) w w1"
  proof (rule send_infos_safe [OF infos], rule ballI)
    fix info
    assume "info \<in> set (case infos of None \<Rightarrow> [] | Some is' \<Rightarrow> take cnt is')"
    then obtain is' where "infos = Some is'" "info \<in> set is'"
      by (auto split: option.split_asm dest: in_set_takeD)
    with get True show "permitted cfg w sli (Scp_list_response E_SCP_LS_SESSION_INFO (Some info))"
      using byuid_found [OF assms(2)] by (auto split: if_split_asm)
  qed
  then show ?thesis
    using rest by (auto split: if_split_asm intro: emits_trans send_list_safe)
qed

end
