(* ===== verification/Ipm_Total.thy ===== *)
theory Ipm_Total
  imports Libipm_Theorems Scp Ercp
begin

text \<open>
  Sending and parsing never fail on a well-formed transport: every send of typed arguments
  and every parse, whatever the bytes, returns a status and a well-formed transport. A parse
  that succeeds yields values of the kinds its format names; strings have no terminator
  inside.
\<close>

definition trans_wf :: "ipm_trans \<Rightarrow> bool" where
  "trans_wf tr \<longleftrightarrow> in_wf (t_in_s tr) \<and> out_wf (t_out_s tr) \<and> s_size (t_out_s tr) \<le> LIBIPM_MAX_MSG_SIZE \<and>
     (\<exists>p. t_extra_data tr = Some p \<and> priv_wf p)"

text \<open>What the environment of a send must guarantee: it returns, and leaves the buffers sound.\<close>

definition force_write_ok :: "ipm_env \<Rightarrow> bool" where
  "force_write_ok env \<longleftrightarrow> (\<forall>tr. \<exists>ok tr'. trans_wf tr \<longrightarrow> force_write env tr = Some (ok, tr') \<and> trans_wf tr')"

lemma force_writeD:
  "force_write_ok env \<Longrightarrow> trans_wf tr \<Longrightarrow> \<exists>ok tr'. force_write env tr = Some (ok, tr') \<and> trans_wf tr'"
  by (auto simp: force_write_ok_def)

subsection \<open>Sending\<close>

text \<open>A message under construction: the header's room is reserved.\<close>

definition msg_open :: "ipm_trans \<Rightarrow> bool" where
  "msg_open tr \<longleftrightarrow> trans_wf tr \<and> s_iso_hdr (t_out_s tr) = 0 \<and> HEADER_SIZE \<le> s_p (t_out_s tr)"

lemma msg_open_wf: "msg_open tr \<Longrightarrow> trans_wf tr"
  by (simp add: msg_open_def)

lemma init_open:
  assumes "trans_wf tr"
  shows "\<exists>tr'. init_output_buffer junk tr msgno = Some tr' \<and> msg_open tr'"
  using assms
  by (auto simp: init_output_buffer_def msg_open_def trans_wf_def priv_wf_def out_wf_def)

lemma appendv_open:
  assumes "msg_open tr" "args_ok f args"
  shows "\<exists>rv as' tr'. libipm_msg_out_appendv tr f args = Some (rv, as', tr') \<and> msg_open tr'"
proof -
  obtain p where p: "out_wf (t_out_s tr)" "t_extra_data tr = Some p" "priv_wf p"
    using assms(1) by (auto simp: msg_open_def trans_wf_def)
  obtain rv as' tr1 n where run: "libipm_msg_out_appendv tr f args = Some (rv, as', tr1)"
    and sent: "sent_params (zip (take n f) args) tr tr1" and wf1: "out_wf (t_out_s tr1)"
      "\<exists>q. t_extra_data tr1 = Some q \<and> priv_wf q"
    using appendv_total [OF p assms(2)] by blast
  obtain s1 where s1: "out_bytes (wire_params (zip (take n f) args)) (t_out_s tr) = Some s1" "t_out_s tr1 = s1"
    "t_in_s tr1 = t_in_s tr"
    using sent by (auto simp: sent_params_def)
  then have "msg_open tr1"
    using wf1 assms(1) out_bytes_SomeD [OF s1(1) p(1)] by (auto simp: msg_open_def trans_wf_def)
  with run show ?thesis by blast
qed

lemma append_opt_open:
  assumes "msg_open tr" "case fmt of None \<Rightarrow> True | Some f \<Rightarrow> args_ok f args"
  shows "\<exists>rv as' tr'. appendv_opt tr fmt args = Some (rv, as', tr') \<and> msg_open tr'"
  using assms appendv_open by (cases fmt) (auto simp: appendv_opt_def)

lemma mark_end_open:
  assumes "msg_open tr"
  shows "\<exists>tr'. libipm_msg_out_mark_end tr = Some tr' \<and> trans_wf tr'"
proof -
  obtain p where p: "t_extra_data tr = Some p" "priv_wf p" "out_wf (t_out_s tr)" "s_iso_hdr (t_out_s tr) = 0"
    "12 \<le> s_p (t_out_s tr)"
    using assms by (auto simp: msg_open_def trans_wf_def)
  obtain s where "libipm_msg_out_mark_end tr = Some (tr\<lparr>t_out_s := s\<rparr>)" "out_wf s" "s_size s = s_size (t_out_s tr)"
    using mark_end_ok [OF p(1,3-5)] by auto
  then show ?thesis
    using assms by (auto simp: msg_open_def trans_wf_def)
qed

text \<open>Closing the message and writing it out.\<close>

lemma finish_open:
  assumes "msg_open tr" "force_write_ok env"
  shows "\<exists>rv tr'. do { tr \<leftarrow> libipm_msg_out_mark_end tr; (ok, tr) \<leftarrow> force_write env tr;
            Some (if ok then E_LI_SUCCESS else E_LI_TRANSPORT_ERROR, tr) } = Some (rv, tr') \<and> trans_wf tr'"
proof -
  obtain tr1 where tr1: "libipm_msg_out_mark_end tr = Some tr1" "trans_wf tr1"
    using mark_end_open [OF assms(1)] by blast
  obtain ok tr2 where "force_write env tr1 = Some (ok, tr2)" "trans_wf tr2"
    using force_writeD [OF assms(2) tr1(2)] by blast
  with tr1 show ?thesis by simp
qed

lemma simple_send_raw:
  assumes "trans_wf tr" "force_write_ok env"
    and "case fmt of None \<Rightarrow> True | Some f \<Rightarrow> args_ok f args"
  shows "\<exists>rv tr'. libipm_msg_out_simple_send (force_write env) (fresh_mem env) tr msgno fmt args = Some (rv, tr') \<and>
     trans_wf tr'"
proof -
  obtain tr0 where init: "init_output_buffer (fresh_mem env) tr msgno = Some tr0" "msg_open tr0"
    using init_open [OF assms(1)] by blast
  obtain rv as' tr1 where run: "appendv_opt tr0 fmt args = Some (rv, as', tr1)" "msg_open tr1"
    using append_opt_open [OF init(2) assms(3)] by blast
  show ?thesis
    using init run finish_open [OF run(2) assms(2)] msg_open_wf [OF run(2)] assms(1)
    by (cases "rv = E_LI_SUCCESS") (auto simp: libipm_msg_out_simple_send_def trans_wf_def)
qed

lemma simple_send_total:
  assumes "trans_wf tr" "force_write_ok env" "args_ok (map fst ps) (map snd ps)"
  shows "\<exists>rv tr'. simple_send env tr msgno ps = Some (rv, tr') \<and> trans_wf tr'"
  using simple_send_raw [OF assms(1,2), where fmt = "Some (map fst ps)" and args = "map snd ps"] assms(3)
  by (simp add: simple_send_def)

lemma simple_send_empty_total:
  "trans_wf tr \<Longrightarrow> force_write_ok env \<Longrightarrow> \<exists>rv tr'. simple_send_empty env tr msgno = Some (rv, tr') \<and> trans_wf tr'"
  using simple_send_raw [of tr env, where fmt = None and args = "[]"] by (simp add: simple_send_empty_def)

lemma out_erase_total: "trans_wf tr \<Longrightarrow> \<exists>tr'. libipm_msg_out_erase tr = Some tr' \<and> trans_wf tr'"
  by (auto simp: libipm_msg_out_erase_def trans_wf_def out_wf_def memset_start_def Let_def)

subsection \<open>Parsing\<close>

fun value_kind :: "byte \<Rightarrow> ipm_value \<Rightarrow> bool" where
  "value_kind c (V_int v) \<longleftrightarrow> c = T_b \<or> c = T_h"
| "value_kind c (V_u8 v) \<longleftrightarrow> c = T_y"
| "value_kind c (V_u16 v) \<longleftrightarrow> c = T_n \<or> c = T_q"
| "value_kind c (V_u32 v) \<longleftrightarrow> c = T_i \<or> c = T_u"
| "value_kind c (V_u64 v) \<longleftrightarrow> c = T_x \<or> c = T_t"
| "value_kind c (V_str s) \<longleftrightarrow> c = T_s \<and> 0 \<notin> set s"
| "value_kind c (V_fsb s) \<longleftrightarrow> c = T_B"

lemma find_byte_before: "find_byte c bs = Some k \<Longrightarrow> c \<notin> set (take k bs)"
  by (induction bs arbitrary: k) (auto split: if_splits)

lemma find_byte_bound: "find_byte c (take n bs) = Some k \<Longrightarrow> c \<notin> set (take k bs)"
proof -
  assume a: "find_byte c (take n bs) = Some k"
  then have "k < length (take n bs)"
    using find_byte_split [OF a] by (metis length_take min.cobounded2 not_less append_Nil2 drop_all take_all list.discI append_self_conv Suc_n_not_le_n le_SucI length_append_singleton nat_le_linear not_Cons_self2)
  then show ?thesis
    using find_byte_before [OF a] by (simp add: min_absorb1)
qed

lemma extract_switch_kind:
  assumes "extract_switch c tr ds = Some (E_LI_SUCCESS, vs, ds', tr')"
  shows "\<exists>v. vs = [v] \<and> value_kind c v"
  using assms
  by (auto simp: extract_switch_def extract_int8_type_def extract_bool_type_def extract_int16_type_def
      extract_int32_type_def extract_int64_type_def extract_char_ptr_type_def extract_fd_type_def
      extract_fsb_type_def g_strnchr_def Let_def Option.bind_eq_Some_conv dest: find_byte_bound
      split: if_split_asm option.split_asm)

lemma extract_switch_frame:
  assumes "extract_switch c tr ds = Some (rv, vs, ds', tr')"
  shows "t_out_s tr' = t_out_s tr \<and> t_sck tr' = t_sck tr \<and> t_status tr' = t_status tr"
  using assms
  by (auto simp: extract_switch_def extract_int8_type_def extract_bool_type_def extract_int16_type_def
      extract_int32_type_def extract_int64_type_def extract_char_ptr_type_def extract_fd_type_def
      extract_fsb_type_def Let_def Option.bind_eq_Some_conv
      split: if_split_asm option.split_asm)

text \<open>One round of the parse loop that ends in success, or leaves at once.\<close>

lemma parsev_Cons_cases:
  assumes "libipm_msg_in_parsev tr (c # cs) ds = Some (rv, vs, ds', tr')"
  obtains (step) tr1 vs1 ds1 tr2 vs2 where "extract_switch c tr1 ds = Some (E_LI_SUCCESS, vs1, ds1, tr2)"
      "libipm_msg_in_parsev tr2 cs ds1 = Some (rv, vs2, ds', tr')" "vs = vs1 @ vs2"
      "t_out_s tr1 = t_out_s tr" "t_sck tr1 = t_sck tr" "t_status tr1 = t_status tr"
  | (leave) "rv \<noteq> E_LI_SUCCESS" "t_out_s tr' = t_out_s tr" "t_sck tr' = t_sck tr" "t_status tr' = t_status tr"
proof -
  obtain p where p: "t_extra_data tr = Some p"
    using assms by (auto simp: Option.bind_eq_Some_conv)
  let ?tr = "tr\<lparr>t_extra_data := Some (p\<lparr>in_param_count := c_ushort (in_param_count p + 1)\<rparr>)\<rparr>"
  show thesis
  proof (cases "g_strchr_found libipm_valid_type_chars c \<and> s_check_rem (t_in_s tr) 1")
    case False
    then have "rv \<noteq> E_LI_SUCCESS \<and> tr' = ?tr"
      using assms p by (auto simp: Let_def split: if_split_asm)
    then show thesis by (intro leave) auto
  next
    case True
    then obtain b s where b: "in_uint8 (t_in_s tr) = Some (b, s)"
      using assms p by (auto simp: Option.bind_eq_Some_conv Let_def)
    let ?tr1 = "?tr\<lparr>t_in_s := s\<rparr>"
    show thesis
    proof (cases "uint c = b")
      case False
      then have "rv \<noteq> E_LI_SUCCESS \<and> tr' = ?tr1"
        using assms p True b by (simp add: Let_def)
      then show thesis by (intro leave) auto
    next
      case eq: True
      then obtain r1 vs1 ds1 tr2 where ex: "extract_switch c ?tr1 ds = Some (r1, vs1, ds1, tr2)"
        and rest: "if r1 = E_LI_SUCCESS
          then (\<exists>vs2. libipm_msg_in_parsev tr2 cs ds1 = Some (rv, vs2, ds', tr') \<and> vs = vs1 @ vs2)
          else r1 = rv \<and> tr2 = tr'"
        using assms p True b by (auto simp: Option.bind_eq_Some_conv Let_def split: if_split_asm)
      show thesis
      proof (cases "r1 = E_LI_SUCCESS")
        case True
        with ex rest show thesis by (auto intro: step)
      next
        case False
        with extract_switch_frame [OF ex] rest show thesis by (intro leave) auto
      qed
    qed
  qed
qed

lemma parsev_kinds:
  "libipm_msg_in_parsev tr cs ds = Some (E_LI_SUCCESS, vs, ds', tr') \<Longrightarrow> list_all2 value_kind cs vs"
proof (induction cs arbitrary: tr ds vs)
  case (Cons c cs)
  show ?case
    using Cons.prems by (cases rule: parsev_Cons_cases) (auto dest!: extract_switch_kind Cons.IH)
qed simp

lemma parsev_frame:
  "libipm_msg_in_parsev tr cs ds = Some (rv, vs, ds', tr') \<Longrightarrow>
     t_out_s tr' = t_out_s tr \<and> t_sck tr' = t_sck tr \<and> t_status tr' = t_status tr"
proof (induction cs arbitrary: tr ds vs)
  case (Cons c cs)
  show ?case
    using Cons.prems by (cases rule: parsev_Cons_cases) (auto dest!: extract_switch_frame Cons.IH)
qed simp

lemma parse_total:
  assumes "trans_wf tr" "dests_ok fmt ds"
  shows "\<exists>rv vs ds' tr'. libipm_msg_in_parse tr (Some fmt) ds = Some (rv, vs, ds', tr') \<and> trans_wf tr' \<and>
     (rv = E_LI_SUCCESS \<longrightarrow> list_all2 value_kind fmt vs)"
proof -
  obtain p where p: "t_extra_data tr = Some p" "priv_wf p" "in_wf (t_in_s tr)"
    using assms(1) by (auto simp: trans_wf_def)
  obtain rv vs ds' tr' ps skipped where run: "libipm_msg_in_parsev tr fmt ds = Some (rv, vs, ds', tr')"
    and parsed: "parsed fmt tr rv vs tr' ps skipped"
    using parsev_total [OF p(3,1,2) assms(2)] by blast
  have "t_out_s tr' = t_out_s tr"
    using parsev_frame [OF run] by simp
  then have "trans_wf tr'"
    using parsed assms(1) by (auto simp: trans_wf_def parsed_def)
  then show ?thesis
    using run p(1) parsev_kinds by (auto simp: libipm_msg_in_parse_def)
qed

subsection \<open>The messages sesman receives\<close>

lemma value_kind_iff:
  "value_kind T_s v \<longleftrightarrow> (\<exists>s. v = V_str s \<and> 0 \<notin> set s)" "value_kind T_B v \<longleftrightarrow> (\<exists>s. v = V_fsb s)"
  "value_kind T_y v \<longleftrightarrow> (\<exists>n. v = V_u8 n)" "value_kind T_q v \<longleftrightarrow> (\<exists>n. v = V_u16 n)"
  "value_kind T_i v \<longleftrightarrow> (\<exists>n. v = V_u32 n)" "value_kind T_u v \<longleftrightarrow> (\<exists>n. v = V_u32 n)"
  "value_kind T_x v \<longleftrightarrow> (\<exists>n. v = V_u64 n)" "value_kind T_b v \<longleftrightarrow> (\<exists>n. v = V_int n)"
  "value_kind T_h v \<longleftrightarrow> (\<exists>n. v = V_int n)"
  by (cases v; simp)+

lemma set_flags_wf [simp]: "trans_wf tr \<Longrightarrow> trans_wf (libipm_set_flags tr fl)"
  by (auto simp: trans_wf_def libipm_set_flags_def priv_wf_def)

lemma set_flags_frame [simp]:
  "t_sck (libipm_set_flags tr fl) = t_sck tr" "t_status (libipm_set_flags tr fl) = t_status tr"
  by (simp_all add: libipm_set_flags_def split: option.splits)

definition nul_free :: "cstr \<Rightarrow> bool" where
  "nul_free s \<longleftrightarrow> 0 \<notin> set s"

lemma nul_free_simps [simp]:
  "nul_free []" "nul_free (c # s) \<longleftrightarrow> c \<noteq> 0 \<and> nul_free s" "nul_free (a @ b) \<longleftrightarrow> nul_free a \<and> nul_free b"
  "nul_free s \<Longrightarrow> nul_free (take n s)"
  by (auto simp: nul_free_def dest: in_set_takeD)

lemmas get_simps = list_all2_Cons1 value_kind_iff out_value_defs list_get_def nul_free_def Let_def

lemma get_set_peername_total:
  assumes "trans_wf tr"
  shows "\<exists>rv msg tr'. scp_get_set_peername_request tr = Some (rv, msg, tr') \<and> trans_wf tr' \<and>
     (rv = E_LI_SUCCESS \<longleftrightarrow> msg \<noteq> None) \<and> (\<forall>s. msg = Some s \<longrightarrow> nul_free s)"
proof -
  obtain rv vs ds' tr' where run: "libipm_msg_in_parse tr (Some [T_s]) [D_str] = Some (rv, vs, ds', tr')" "trans_wf tr'"
    "rv = E_LI_SUCCESS \<longrightarrow> list_all2 value_kind [T_s] vs"
    using parse_total [OF assms, of "[T_s]" "[D_str]"] by (auto simp: dest_kind_def)
  then show ?thesis
    by (cases "rv = E_LI_SUCCESS") (auto simp: scp_get_set_peername_request_def get_simps)
qed

lemma get_sys_login_total:
  assumes "trans_wf tr"
  shows "\<exists>rv msg tr'. scp_get_sys_login_request tr = Some (rv, msg, tr') \<and> trans_wf tr' \<and>
     (\<forall>u p ip. msg = Some (u, p, ip) \<longrightarrow> nul_free u \<and> nul_free p \<and> nul_free ip)"
proof -
  let ?tr = "libipm_set_flags tr 1"
  obtain rv vs ds' tr' where run: "libipm_msg_in_parse ?tr (Some [T_s, T_s, T_s]) [D_str, D_str, D_str] =
      Some (rv, vs, ds', tr')" "trans_wf tr'" "rv = E_LI_SUCCESS \<longrightarrow> list_all2 value_kind [T_s, T_s, T_s] vs"
    using parse_total [of ?tr "[T_s, T_s, T_s]" "[D_str, D_str, D_str]"] assms by (auto simp: dest_kind_def)
  then show ?thesis
    by (cases "rv = E_LI_SUCCESS") (auto simp: scp_get_sys_login_request_def get_simps)
qed

definition create_wf :: "create_request \<Rightarrow> bool" where
  "create_wf c \<longleftrightarrow> nul_free (c_shell c) \<and> nul_free (c_directory c) \<and> nul_free (c_instance_name c)"

lemma get_create_session_total:
  assumes "trans_wf tr"
  shows "\<exists>rv msg tr'. scp_get_create_session_request tr = Some (rv, msg, tr') \<and> trans_wf tr' \<and>
     (\<forall>c. msg = Some c \<longrightarrow> create_wf c)"
proof -
  let ?fmt = "[T_y, T_q, T_q, T_y, T_s, T_s, T_s]"
  let ?ds = "[D_u8, D_u16, D_u16, D_u8, D_str, D_str, D_str]"
  obtain rv vs ds' tr' where run: "libipm_msg_in_parse tr (Some ?fmt) ?ds = Some (rv, vs, ds', tr')" "trans_wf tr'"
    "rv = E_LI_SUCCESS \<longrightarrow> list_all2 value_kind ?fmt vs"
    using parse_total [OF assms, of ?fmt ?ds] by (auto simp: dest_kind_def)
  then show ?thesis
    by (cases "rv = E_LI_SUCCESS") (auto simp: scp_get_create_session_request_def get_simps create_wf_def)
qed

lemma get_connect_session_total:
  assumes "trans_wf tr"
  shows "\<exists>rv msg tr'. scp_get_connect_session_request tr = Some (rv, msg, tr') \<and> trans_wf tr' \<and>
     (\<forall>g ip client fl. msg = Some (g, ip, client, fl) \<longrightarrow> nul_free ip \<and> nul_free client)"
proof -
  let ?fmt = "[T_B, T_s, T_s, T_u]"
  let ?ds = "[D_fsb (Some GUID_SIZE), D_str, D_str, D_u32]"
  obtain rv vs ds' tr' where run: "libipm_msg_in_parse tr (Some ?fmt) ?ds = Some (rv, vs, ds', tr')" "trans_wf tr'"
    "rv = E_LI_SUCCESS \<longrightarrow> list_all2 value_kind ?fmt vs"
    using parse_total [OF assms, of ?fmt ?ds] by (auto simp: dest_kind_def)
  then show ?thesis
    by (cases "rv = E_LI_SUCCESS") (auto simp: scp_get_connect_session_request_def get_simps)
qed

subsection \<open>The messages sesman sends\<close>

lemma takes_args [simp]:
  "takes_arg T_y" "takes_arg T_b" "takes_arg T_q" "takes_arg T_i" "takes_arg T_u" "takes_arg T_x"
  "takes_arg T_s" "takes_arg T_h" "takes_arg T_B"
  by (simp_all add: takes_arg_def)

lemmas send_simps = create_params_def created_params_def info_params_def nul_free_def create_wf_def

lemma scp_sends_total:
  assumes "trans_wf tr" "force_write_ok env"
  shows "\<exists>rv tr'. scp_send_login_response env tr st closed uid = Some (rv, tr') \<and> trans_wf tr'"
    and "nul_free display \<Longrightarrow>
       \<exists>rv tr'. scp_send_create_session_response env tr st display g = Some (rv, tr') \<and> trans_wf tr'"
    and "\<exists>rv tr'. scp_send_create_sockdir_response env tr st = Some (rv, tr') \<and> trans_wf tr'"
  unfolding scp_send_login_response_def scp_send_create_session_response_def scp_send_create_sockdir_response_def
  by (rule simple_send_total [OF assms]; simp add: send_simps)+

definition info_wf :: "scp_session_info \<Rightarrow> bool" where
  "info_wf info \<longleftrightarrow> (\<forall>s. s \<in> {i_display info, i_start_ip_addr info, i_client_ip info, i_client_name info,
     i_xrdp_instance_name info} \<longrightarrow> (\<forall>x. s = Some x \<longrightarrow> nul_free x))"

lemma scp_send_list_total:
  assumes "trans_wf tr" "force_write_ok env" and "st = E_SCP_LS_SESSION_INFO \<longrightarrow> (\<exists>i. info = Some i \<and> info_wf i)"
  shows "\<exists>rv tr'. scp_send_list_sessions_response env tr st info = Some (rv, tr') \<and> trans_wf tr'"
proof (cases "st = E_SCP_LS_SESSION_INFO")
  case True
  then obtain i where i: "info = Some i" "info_wf i" using assms(3) by blast
  have "args_ok (map fst ((T_i, Arg_32 st) # info_params i)) (map snd ((T_i, Arg_32 st) # info_params i))"
    using i(2) by (simp add: send_simps info_wf_def)
  with True i show ?thesis
    using simple_send_total [OF assms(1,2)] by (auto simp: scp_send_list_sessions_response_def)
next
  case False
  then show ?thesis
    using simple_send_total [OF assms(1,2), of "[(T_i, Arg_32 st)]"]
    by (simp add: scp_send_list_sessions_response_def)
qed

lemma eicp_sends_total:
  assumes "trans_wf tr" "force_write_ok env"
  shows "nul_free u \<Longrightarrow> nul_free p \<Longrightarrow> nul_free ip \<Longrightarrow>
       \<exists>rv tr'. eicp_send_sys_login_request env tr u p ip fd = Some (rv, tr') \<and> trans_wf tr'"
    and "\<exists>rv tr'. eicp_send_uds_login_request env tr fd = Some (rv, tr') \<and> trans_wf tr'"
    and "\<exists>rv tr'. eicp_send_logout_request env tr = Some (rv, tr') \<and> trans_wf tr'"
    and "create_wf c \<Longrightarrow> \<exists>rv tr'. eicp_send_create_session_request env tr d c = Some (rv, tr') \<and> trans_wf tr'"
    and "nul_free ip \<Longrightarrow> nul_free client \<Longrightarrow>
       \<exists>rv tr'. ercp_send_connect_session_request env tr fd ip client fl = Some (rv, tr') \<and> trans_wf tr'"
proof -
  show "\<exists>rv tr'. eicp_send_sys_login_request env tr u p ip fd = Some (rv, tr') \<and> trans_wf tr'"
    if nf: "nul_free u" "nul_free p" "nul_free ip"
  proof -
    let ?ps = "[(T_s, Arg_str (Some u)), (T_s, Arg_str (Some p)), (T_s, Arg_str (Some ip)), (T_h, Arg_int fd)]"
    obtain rv tr1 where "simple_send env tr E_EICP_SYS_LOGIN_REQUEST ?ps = Some (rv, tr1)" "trans_wf tr1"
      using simple_send_total [OF assms, of ?ps 0] nf by (auto simp: nul_free_def)
    then show ?thesis
      using out_erase_total [of tr1] by (auto simp: eicp_send_sys_login_request_def)
  qed
  show "\<exists>rv tr'. eicp_send_uds_login_request env tr fd = Some (rv, tr') \<and> trans_wf tr'"
    unfolding eicp_send_uds_login_request_def by (rule simple_send_total [OF assms]) simp
  show "\<exists>rv tr'. eicp_send_logout_request env tr = Some (rv, tr') \<and> trans_wf tr'"
    unfolding eicp_send_logout_request_def by (rule simple_send_empty_total [OF assms])
  show "\<exists>rv tr'. eicp_send_create_session_request env tr d c = Some (rv, tr') \<and> trans_wf tr'" if "create_wf c"
    unfolding eicp_send_create_session_request_def
    by (rule simple_send_total [OF assms]) (use that in \<open>simp add: send_simps\<close>)
  show "\<exists>rv tr'. ercp_send_connect_session_request env tr fd ip client fl = Some (rv, tr') \<and> trans_wf tr'"
    if "nul_free ip" "nul_free client"
    unfolding ercp_send_connect_session_request_def
    by (rule simple_send_total [OF assms]) (use that in \<open>simp add: send_simps\<close>)
qed

lemma append_params_total:
  assumes "msg_open tr" "args_ok (map fst ps) (map snd ps)"
  shows "\<exists>rv tr'. append_params tr ps = Some (rv, tr') \<and> msg_open tr'"
proof -
  obtain rv as' tr' where "libipm_msg_out_appendv tr (map fst ps) (map snd ps) = Some (rv, as', tr')" "msg_open tr'"
    using appendv_open [OF assms] by blast
  moreover have "t_extra_data tr \<noteq> None"
    using assms(1) by (auto simp: msg_open_def trans_wf_def)
  ultimately show ?thesis
    by (auto simp: append_params_def libipm_msg_out_append_def appendv_opt_def)
qed

lemma scp_send_connect_total:
  assumes "trans_wf tr" "force_write_ok env"
  shows "\<exists>rv tr'. scp_send_connect_session_response env tr st fd1 fd2 = Some (rv, tr') \<and> trans_wf tr'"
proof -
  obtain tr0 where init: "init_output_buffer (fresh_mem env) tr E_SCP_CONNECT_SESSION_RESPONSE = Some tr0" "msg_open tr0"
    using init_open [OF assms(1)] by blast
  obtain r1 as1 tr1 where r1: "libipm_msg_out_appendv tr0 [T_i] [Arg_32 st] = Some (r1, as1, tr1)" "msg_open tr1"
    using appendv_open [OF init(2), of "[T_i]" "[Arg_32 st]"] by auto
  have start: "libipm_msg_out_init (fresh_mem env) tr E_SCP_CONNECT_SESSION_RESPONSE (Some [T_i]) [Arg_32 st] =
      Some (r1, as1, tr1)"
    using init(1) r1(1) assms(1) by (auto simp: libipm_msg_out_init_def appendv_opt_def trans_wf_def)
  have fd: "\<exists>r tr'. (if rv = E_LI_SUCCESS then append_params tr (fd_params fd) else Some (rv, tr)) = Some (r, tr') \<and>
      msg_open tr'" if "msg_open tr" for rv tr fd
    using append_params_total [OF that, of "fd_params fd"] that by (auto simp: fd_params_def)
  obtain r2 tr2 where r2: "(if r1 = E_LI_SUCCESS then append_params tr1 (fd_params fd1) else Some (r1, tr1)) = Some (r2, tr2)"
    "msg_open tr2"
    using fd [OF r1(2)] by blast
  obtain r3 tr3 where r3: "(if r2 = E_LI_SUCCESS then append_params tr2 (fd_params fd2) else Some (r2, tr2)) = Some (r3, tr3)"
    "msg_open tr3"
    using fd [OF r2(2)] by blast
  show ?thesis
    using start r2 r3 finish_open [OF r3(2) assms(2)] msg_open_wf [OF r3(2)]
    by (cases "r3 = E_LI_SUCCESS") (auto simp: scp_send_connect_session_response_def)
qed

text \<open>Transports made from a descriptor.\<close>

definition created_ok :: "ipm_trans option \<Rightarrow> bool" where
  "created_ok created \<longleftrightarrow> (\<forall>t. created = Some t \<longrightarrow> t_extra_data t = None \<and> in_wf (t_in_s t) \<and>
     out_wf (t_out_s t) \<and> s_size (t_out_s t) \<le> LIBIPM_MAX_MSG_SIZE)"

lemma init_from_fd_total:
  assumes "created_ok created"
  shows "\<exists>t. init_trans_from_fd env alloc_ok created fac fd ty = Some t \<and> (\<forall>tr. t = Some tr \<longrightarrow> trans_wf tr)"
proof (cases created)
  case None
  then show ?thesis by (simp add: init_trans_from_fd_def)
next
  case (Some t)
  let ?t = "t\<lparr>t_sck := fd, t_type1 := ty, t_status := 1\<rparr>"
  have p: "priv_wf (new_priv\<lparr>facility := fac, in_msgno := 0, in_param_count := 0\<rparr>)"
    using new_priv_wf [of fac] by (simp add: priv_wf_def)
  have "\<exists>rv tr. libipm_init_trans (fresh_mem env) alloc_ok False ?t fac = Some (rv, tr) \<and>
      (rv = E_LI_SUCCESS \<longrightarrow> trans_wf tr)"
  proof (cases alloc_ok)
    case True
    have "flags (new_priv\<lparr>facility := fac\<rparr>) = 0" by (simp add: new_priv_def)
    then show ?thesis
      using True Some assms p
      by (simp add: libipm_init_trans_def libipm_msg_in_reset_def close_file_descriptors_eq created_ok_def
          trans_wf_def priv_wf_def in_wf_def init_stream_def Let_def)
  qed (use Some assms in \<open>simp add: libipm_init_trans_def created_ok_def\<close>)
  then show ?thesis
    using Some by (auto simp: init_trans_from_fd_def)
qed

end
