(* ===== verification/Sesman_Total.thy ===== *)
theory Sesman_Total
  imports Sesman_Safety Ipm_Total
begin

text \<open>
  The invariant of sesman's state and what its environment must guarantee; under them every
  handler returns, whatever the client sent, and keeps the invariant.
\<close>

subsection \<open>The invariant\<close>

definition trans_opt_wf :: "ipm_trans option \<Rightarrow> bool" where
  "trans_opt_wf tr \<longleftrightarrow> (\<forall>t. tr = Some t \<longrightarrow> trans_wf t)"

lemma trans_opt_wf_simps [simp]: "trans_opt_wf None" "trans_opt_wf (Some t) \<longleftrightarrow> trans_wf t"
  by (simp_all add: trans_opt_wf_def)

definition session_ok :: "session_item \<Rightarrow> bool" where
  "session_ok si \<longleftrightarrow> trans_opt_wf (si_sesexec_trans si) \<and> display_defined si \<and>
     list_all nul_free [si_display si, si_start_ip_addr si, si_client_ip si, si_client_name si,
       si_xrdp_instance_name si]"

definition item_ok :: "scp_list_item \<Rightarrow> bool" where
  "item_ok sli \<longleftrightarrow> trans_opt_wf (sl_client_trans sli) \<and> trans_opt_wf (sl_sesexec_trans sli) \<and>
     nul_free (sl_start_ip_addr sli) \<and> nul_free (sl_peername sli)"

abbreviation scp_table :: "sesman \<Rightarrow> nat xlist \<Rightarrow> nat list \<Rightarrow> bool" where
  "scp_table w \<equiv> ptr_table (g_scp_list w) (scp_mem w)"

abbreviation scp_view :: "sesman \<Rightarrow> nat list \<Rightarrow> (nat \<times> scp_list_item) list" where
  "scp_view w \<equiv> ptr_view (scp_mem w)"

definition sesman_ok :: "sesman \<Rightarrow> bool" where
  "sesman_ok w \<longleftrightarrow> (\<exists>l as. session_table w l as) \<and> (\<exists>l as. scp_table w l as) \<and>
     (\<forall>a si. session_mem w a = Some si \<longrightarrow> session_ok si) \<and>
     (\<forall>a sli. scp_mem w a = Some sli \<longrightarrow> item_ok sli)"

text \<open>The configured display range fits an \<^verbatim>\<open>int\<close>, with room for the loop variable's last step.\<close>

definition cfg_ok :: "sesman_cfg \<Rightarrow> bool" where
  "cfg_ok cfg \<longleftrightarrow> 0 \<le> x11_display_offset cfg \<and> x11_display_offset cfg < 2 ^ 31 \<and>
     0 \<le> max_display_number cfg \<and> max_display_number cfg < 2 ^ 31 - 1"

definition env_ok :: "sesman_env \<Rightarrow> bool" where
  "env_ok env \<longleftrightarrow> force_write_ok (e_ipm env) \<and> created_ok (se_trans (e_sesexec env)) \<and>
     created_ok (e_client_trans env) \<and> cfg_ok (e_cfg env)"

text \<open>Steps that leave the invariant alone.\<close>

lemma sesman_ok_log [simp]: "sesman_ok (log_call c w) = sesman_ok w"
  by (simp add: sesman_ok_def log_call_def)

lemma sesman_ok_close [simp]: "sesman_ok (close_fd fd w) = sesman_ok w"
  by (simp add: sesman_ok_def close_fd_def)

lemma sesman_ok_delete [simp]: "sesman_ok (delete_trans tr w) = sesman_ok w"
  by (simp add: sesman_ok_def delete_trans_def split: option.split)

lemma scp_mem_simps [simp]:
  "scp_mem (log_call c w) = scp_mem w" "scp_mem (close_fd fd w) = scp_mem w"
  "scp_mem (delete_trans tr w) = scp_mem w" "scp_mem (put_sli a sli w) = (scp_mem w)(a \<mapsto> sli)"
  by (simp_all add: log_call_def close_fd_def delete_trans_def put_sli_def split: option.split)

lemma tables_update:
  "mem a \<noteq> None \<Longrightarrow> \<exists>l as. ptr_table lst mem l as \<Longrightarrow> \<exists>l as. ptr_table lst (mem(a \<mapsto> x)) l as"
  by (elim exE) (intro exI, erule ptr_table_update, assumption)

lemma sesman_ok_put:
  assumes "sesman_ok w" "scp_mem w a \<noteq> None" "item_ok sli"
  shows "sesman_ok (put_sli a sli w)"
  using assms tables_update [where mem = "scp_mem w" and a = a] by (simp add: sesman_ok_def put_sli_def)

lemma sesman_ok_session:
  assumes "sesman_ok w" "session_mem w s \<noteq> None" "session_ok si"
  shows "sesman_ok (w\<lparr>session_mem := (session_mem w)(s \<mapsto> si)\<rparr>)"
  using assms tables_update [where mem = "session_mem w" and a = s] by (simp add: sesman_ok_def)

subsection \<open>Steps of a handler\<close>

text \<open>
  The item a handler works on is served while it has a client. A step is sound when it
  returns, keeps the invariant and the item sound, and leaves the connection table to its
  caller.
\<close>

definition served :: "scp_list_item \<Rightarrow> bool" where
  "served sli \<longleftrightarrow> item_ok sli \<and> sl_client_trans sli \<noteq> None"

definition sound :: "sesman \<Rightarrow> ('r \<times> sli_state) option \<Rightarrow> bool" where
  "sound w r \<longleftrightarrow> (\<exists>x sli' w'. r = Some (x, sli', w') \<and> served sli' \<and> sesman_ok w' \<and> scp_mem w' = scp_mem w)"

named_theorems sound_intros

lemma sound_Some [sound_intros]:
  "served sli \<Longrightarrow> sesman_ok w' \<Longrightarrow> scp_mem w' = scp_mem w \<Longrightarrow> sound w (Some (x, sli, w'))"
  by (simp add: sound_def)

lemma sound_bind:
  assumes "sound w r"
    and "\<And>x sli w1. r = Some (x, sli, w1) \<Longrightarrow> served sli \<Longrightarrow> sesman_ok w1 \<Longrightarrow> scp_mem w1 = scp_mem w \<Longrightarrow>
       sound w1 (k (x, sli, w1))"
  shows "sound w (r \<bind> k)"
  using assms by (force simp: sound_def)

lemma sound_if [sound_intros]: "(b \<Longrightarrow> sound w r) \<Longrightarrow> (\<not> b \<Longrightarrow> sound w s) \<Longrightarrow> sound w (if b then r else s)"
  by simp

lemma served_client:
  assumes "served sli"
  obtains tr where "sl_client_trans sli = Some tr" "trans_wf tr"
  using assms by (auto simp: served_def item_ok_def)

lemma served_update:
  "served sli \<Longrightarrow> trans_wf tr \<Longrightarrow> served (sli\<lparr>sl_client_trans := Some tr\<rparr>)"
  "served sli \<Longrightarrow> trans_opt_wf t \<Longrightarrow> served (sli\<lparr>sl_sesexec_trans := t\<rparr>)"
  "served sli \<Longrightarrow> served (sli\<lparr>sl_dispatcher_action := act\<rparr>)"
  "served sli \<Longrightarrow> served (sli\<lparr>sl_sesexec_pid := pid\<rparr>)"
  "served sli \<Longrightarrow> served (sli\<lparr>sl_username := u\<rparr>)"
  "served sli \<Longrightarrow> served (sli\<lparr>sl_login_state := st\<rparr>)"
  "served sli \<Longrightarrow> served (sli\<lparr>sl_uid := uid\<rparr>)"
  "served sli \<Longrightarrow> served (sli\<lparr>sl_is_admin := adm\<rparr>)"
  "served sli \<Longrightarrow> served (sli\<lparr>sl_create_session_in_progress := p\<rparr>)"
  "served sli \<Longrightarrow> served (sli\<lparr>sl_session_x11_display := d\<rparr>)"
  "served sli \<Longrightarrow> nul_free ip \<Longrightarrow> served (sli\<lparr>sl_start_ip_addr := ip\<rparr>)"
  "served sli \<Longrightarrow> nul_free n \<Longrightarrow> served (sli\<lparr>sl_peername := n\<rparr>)"
  by (auto simp: served_def item_ok_def)


subsection \<open>Replies\<close>

lemma env_okD:
  "env_ok env \<Longrightarrow> force_write_ok (e_ipm env)" "env_ok env \<Longrightarrow> created_ok (se_trans (e_sesexec env))"
  "env_ok env \<Longrightarrow> created_ok (e_client_trans env)" "env_ok env \<Longrightarrow> cfg_ok (e_cfg env)"
  by (simp_all add: env_ok_def)

lemma send_login_sound:
  assumes "env_ok env" "served sli" "sesman_ok w"
  shows "sound w (send_login_response env st closed uid sli w)"
proof -
  obtain tr where tr: "sl_client_trans sli = Some tr" "trans_wf tr"
    using assms(2) by (rule served_client)
  obtain rv tr' where "scp_send_login_response (e_ipm env) tr st closed uid = Some (rv, tr')" "trans_wf tr'"
    using scp_sends_total(1) [OF tr(2) env_okD(1) [OF assms(1)]] by blast
  then show ?thesis
    using assms tr by (simp add: send_login_response_def sound_Some served_update)
qed

lemma send_create_sound:
  assumes "env_ok env" "served sli" "sesman_ok w" "nul_free display"
  shows "sound w (send_create_response env st display g sli w)"
proof -
  obtain tr where tr: "sl_client_trans sli = Some tr" "trans_wf tr"
    using assms(2) by (rule served_client)
  obtain rv tr' where "scp_send_create_session_response (e_ipm env) tr st display g = Some (rv, tr')" "trans_wf tr'"
    using scp_sends_total(2) [OF tr(2) env_okD(1) [OF assms(1)] assms(4)] by blast
  then show ?thesis
    using assms tr by (simp add: send_create_response_def sound_Some served_update)
qed

lemma send_connect_sound:
  assumes "env_ok env" "served sli" "sesman_ok w"
  shows "sound w (send_connect_response env st sli w)"
proof -
  obtain tr where tr: "sl_client_trans sli = Some tr" "trans_wf tr"
    using assms(2) by (rule served_client)
  obtain rv tr' where "scp_send_connect_session_response (e_ipm env) tr st (- 1) (- 1) = Some (rv, tr')" "trans_wf tr'"
    using scp_send_connect_total [OF tr(2) env_okD(1) [OF assms(1)]] by blast
  then show ?thesis
    using assms tr by (simp add: send_connect_response_def sound_Some served_update)
qed

lemma send_list_sound:
  assumes "env_ok env" "served sli" "sesman_ok w"
    and "st = E_SCP_LS_SESSION_INFO \<longrightarrow> (\<exists>i. info = Some i \<and> info_wf i)"
  shows "sound w (send_list_response env st info sli w)"
proof -
  obtain tr where tr: "sl_client_trans sli = Some tr" "trans_wf tr"
    using assms(2) by (rule served_client)
  obtain rv tr' where "scp_send_list_sessions_response (e_ipm env) tr st info = Some (rv, tr')" "trans_wf tr'"
    using scp_send_list_total [OF tr(2) env_okD(1) [OF assms(1)] assms(4)] by blast
  then show ?thesis
    using assms tr by (simp add: send_list_response_def sound_Some served_update)
qed

subsection \<open>Logging in and out\<close>

lemma sesexec_start_sound:
  assumes "env_ok env" "served sli" "sesman_ok w"
  shows "sound w (sesexec_start env sli w)"
proof -
  let ?se = "e_sesexec env"
  have up: "sound w (do { t \<leftarrow> eicp_init_trans_from_fd (e_ipm env) (se_trans_alloc ?se) (se_trans ?se) fd TRANS_TYPE_CLIENT;
      Some (case t of None \<Rightarrow> (- 1 :: int, sli, close_fd fd w1)
            | Some t \<Rightarrow> (0, sli\<lparr>sl_sesexec_trans := Some t, sl_sesexec_pid := pid\<rparr>, w1)) })"
    if w1: "sesman_ok w1" "scp_mem w1 = scp_mem w" for fd pid w1
  proof -
    obtain t where t: "eicp_init_trans_from_fd (e_ipm env) (se_trans_alloc ?se) (se_trans ?se) fd TRANS_TYPE_CLIENT = Some t"
      "trans_opt_wf t"
      using init_from_fd_total [OF env_okD(2) [OF assms(1)]]
      by (metis eicp_init_trans_from_fd_def trans_opt_wf_def)
    have pid: "served (sli\<lparr>sl_sesexec_trans := t, sl_sesexec_pid := pid\<rparr>)"
      using assms(2) t(2) served_update(4) [OF served_update(2)] by fastforce
    show ?thesis
      using t(1) w1 assms(2) pid by (cases t) (simp_all add: sound_def)
  qed
  show ?thesis
    unfolding sesexec_start_def Let_def
    using assms(2,3) up by (simp add: sound_intros split: option.split)
qed


lemma sesexec_start_up:
  "sesexec_start env sli w = Some (0, sli', w') \<Longrightarrow> served sli' \<Longrightarrow>
     \<exists>ctr str. sl_client_trans sli' = Some ctr \<and> sl_sesexec_trans sli' = Some str \<and> trans_wf str"
  by (auto simp: served_def item_ok_def dest!: sesexec_start_frame)

lemma handover_sound:
  assumes "env_ok env" "served sli" "sesman_ok w" "nul_free u" "nul_free p" "nul_free ip"
  shows "sound w (sys_login_handover env u p ip sli w)"
proof -
  let ?sli = "sli\<lparr>sl_username := Some u, sl_start_ip_addr := take 45 ip\<rparr>"
  have sli: "served ?sli"
    using served_update(11) [OF served_update(5) [OF assms(2)], where ip = "take 45 ip"] assms(6) by simp
  have send: "sound w1 (do { ctr \<leftarrow> sl_client_trans s1; str \<leftarrow> sl_sesexec_trans s1;
      (eicp_stat, str) \<leftarrow> eicp_send_sys_login_request (e_ipm env) str u p ip (t_sck ctr);
      let w = log_call (Eicp_sys_login u p ip (t_sck ctr)) w1;
      let sli = s1\<lparr>sl_sesexec_trans := Some str\<rparr>;
      Some (if eicp_stat \<noteq> E_LI_SUCCESS then (Some E_SCP_LOGIN_GENERAL_ERROR, sli, w)
            else (None, sli\<lparr>sl_dispatcher_action := E_SLD_REMOVE_CLIENT_TRANS\<rparr>, w)) })"
    if st: "sesexec_start env ?sli w = Some (0, s1, w1)" "served s1" "sesman_ok w1" for s1 w1
  proof -
    obtain ctr str where tr: "sl_client_trans s1 = Some ctr" "sl_sesexec_trans s1 = Some str" "trans_wf str"
      using sesexec_start_up [OF st(1,2)] by blast
    obtain rv str' where "eicp_send_sys_login_request (e_ipm env) str u p ip (t_sck ctr) = Some (rv, str')" "trans_wf str'"
      using eicp_sends_total(1) [OF tr(3) env_okD(1) [OF assms(1)] assms(4-6)] by blast
    then show ?thesis
      using st tr by (simp add: Let_def sound_Some served_update)
  qed
  show ?thesis
    unfolding sys_login_handover_def Let_def
    using assms(2,3) sli send
    by (auto intro!: sound_intros sound_bind [OF sesexec_start_sound [OF assms(1)]] simp: served_update Let_def)
qed

lemma set_peername_sound:
  assumes "served sli" "sesman_ok w"
  shows "sound w (process_set_peername_request sli w)"
proof -
  obtain tr where tr: "sl_client_trans sli = Some tr" "trans_wf tr"
    using assms(1) by (rule served_client)
  obtain rv msg tr' where "scp_get_set_peername_request tr = Some (rv, msg, tr')" "trans_wf tr'"
    "\<forall>s. msg = Some s \<longrightarrow> nul_free s"
    using get_set_peername_total [OF tr(2)] by blast
  then show ?thesis
    using assms tr
    by (auto simp: process_set_peername_request_def scp_list_set_peername_def served_update Let_def
        split: option.split intro!: sound_Some)
qed

lemma sys_login_sound:
  assumes "env_ok env" "served sli" "sesman_ok w"
  shows "sound w (process_sys_login_request env sli w)"
proof -
  obtain tr where tr: "sl_client_trans sli = Some tr" "trans_wf tr"
    using assms(2) by (rule served_client)
  obtain rv msg tr' where msg: "scp_get_sys_login_request tr = Some (rv, msg, tr')" "trans_wf tr'"
    "\<forall>u p ip. msg = Some (u, p, ip) \<longrightarrow> nul_free u \<and> nul_free p \<and> nul_free ip"
    using get_sys_login_total [OF tr(2)] by blast
  have sli: "served (sli\<lparr>sl_client_trans := Some tr'\<rparr>)"
    using assms(2) msg(2) by (rule served_update)
  show ?thesis
  proof (cases msg)
    case None
    then show ?thesis
      using tr msg assms sli by (simp add: process_sys_login_request_def sound_Some)
  next
    case (Some m)
    then obtain u p ip where m: "msg = Some (u, p, ip)" by (cases m) auto
    with msg(3) have nf: "nul_free u" "nul_free p" "nul_free ip" by auto
    show ?thesis
      unfolding process_sys_login_request_def
      using tr(1) msg(1) m
      by (auto simp: Let_def served_update split: option.split
          intro!: sound_bind [OF handover_sound [OF assms(1) sli assms(3) nf]] sound_Some
            sound_bind [OF send_login_sound [OF assms(1)]])
  qed
qed

lemma uds_auth_served:
  "served sli \<Longrightarrow> authenticate_and_authorize_uds_connection env sli uid u = (e, sli') \<Longrightarrow> served sli'"
  by (auto simp: authenticate_and_authorize_uds_connection_def Let_def served_update split: prod.split_asm if_split_asm)

lemma uds_login_sound:
  assumes "env_ok env" "served sli" "sesman_ok w"
  shows "sound w (process_uds_login_request env sli w)"
proof -
  obtain tr where tr: "sl_client_trans sli = Some tr"
    using assms(2) by (rule served_client)
  obtain rv uid where cred: "e_peer_cred env = (rv, uid)" by fastforce
  obtain e sli' where auth: "(if rv \<noteq> 0 then (E_SCP_LOGIN_GENERAL_ERROR, sli)
      else if sl_login_state sli \<noteq> E_SLI_LOGIN_NOT_LOGGED_IN then (E_SCP_LOGIN_ALREADY_LOGGED_IN, sli)
      else (case e_user_name env uid of None \<Rightarrow> (E_SCP_LOGIN_GENERAL_ERROR, sli)
            | Some u \<Rightarrow> authenticate_and_authorize_uds_connection env sli uid u)) = (e, sli')"
    by fastforce
  then have "served sli'"
    using assms(2) uds_auth_served by (auto split: if_split_asm option.split_asm)
  then show ?thesis
    using tr auth send_login_sound [OF assms(1) _ assms(3)]
    by (simp add: process_uds_login_request_def cred served_update del: split_paired_All)
qed

text \<open>Logging out returns an item and a state; it has no status.\<close>

lemma logout_sound:
  assumes "env_ok env" "served sli" "sesman_ok w"
  shows "\<exists>sli' w'. logout_scp_list_item env sli w = Some (sli', w') \<and> served sli' \<and> sesman_ok w' \<and> scp_mem w' = scp_mem w"
proof (cases "sl_sesexec_trans sli")
  case None
  then show ?thesis
    using assms(2,3) by (simp add: logout_scp_list_item_def served_update)
next
  case (Some str)
  then have "trans_wf str"
    using assms(2) by (simp add: served_def item_ok_def)
  then obtain rv str' where "eicp_send_logout_request (e_ipm env) str = Some (rv, str')"
    using eicp_sends_total(3) env_okD(1) [OF assms(1)] by blast
  then show ?thesis
    using assms(2,3) Some by (simp add: logout_scp_list_item_def served_update)
qed

lemma logout_close_sound:
  assumes "env_ok env" "served sli" "sesman_ok w"
  shows "sound w (process_logout_request env sli w)" "sound w (process_close_connection_request env sli w)"
  using logout_sound [OF assms] assms(2,3)
  by (auto simp: process_logout_request_def process_close_connection_request_def served_update sound_Some)

lemma sockdir_sound: "sesman_ok w \<Longrightarrow> create_xrdp_socket_path env uid w = (rv, w') \<Longrightarrow> sesman_ok w' \<and> scp_mem w' = scp_mem w"
  by (auto simp: create_xrdp_socket_path_def Let_def)

lemma create_sockdir_sound:
  assumes "env_ok env" "served sli" "sesman_ok w"
  shows "sound w (process_create_sockdir_request env sli w)"
proof -
  obtain tr where tr: "sl_client_trans sli = Some tr" "trans_wf tr"
    using assms(2) by (rule served_client)
  define out where "out =
      (if sl_login_state sli = E_SLI_LOGIN_NOT_LOGGED_IN then (E_SCP_CS_NOT_LOGGED_IN, w)
       else let (rv, w) = create_xrdp_socket_path env (sl_uid sli) w
            in (if rv = 0 then E_SCP_CS_OK else E_SCP_CS_OTHER_ERROR, w))"
  obtain st w1 where out: "out = (st, w1)" by fastforce
  have "sesman_ok w1 \<and> scp_mem w1 = scp_mem w"
  proof (cases "logged_in sli")
    case True
    obtain rv w2 where dir: "create_xrdp_socket_path env (sl_uid sli) w = (rv, w2)" by fastforce
    then have "w1 = w2" using out True by (simp add: out_def logged_in_def)
    then show ?thesis using sockdir_sound [OF assms(3) dir] by simp
  qed (use out assms(3) in \<open>simp add: out_def logged_in_def\<close>)
  moreover obtain rv tr' where "scp_send_create_sockdir_response (e_ipm env) tr st = Some (rv, tr')" "trans_wf tr'"
    using scp_sends_total(3) [OF tr(2) env_okD(1) [OF assms(1)]] by blast
  ultimately show ?thesis
    unfolding process_create_sockdir_request_def out_def [symmetric] out
    using assms(2) tr(1) by (simp add: served_update sound_Some)
qed


subsection \<open>Choosing a display\<close>

definition reserves :: "scp_list_item \<Rightarrow> int \<Rightarrow> bool" where
  "reserves sli d \<longleftrightarrow> SCP_LIST_ITEM_IN_USE sli \<and> sl_create_session_in_progress sli \<noteq> 0 \<and>
     sl_session_x11_display sli = d \<and> 0 \<le> d"

definition reserved_in :: "set_int \<Rightarrow> scp_list_item list \<Rightarrow> int set" where
  "reserved_in s slis = {d. (\<exists>sli \<in> set slis. reserves sli d) \<and> set_min s \<le> d \<and> d \<le> set_max s}"

lemma scp_displays_loop_ok:
  "scp_table w l as \<Longrightarrow> i + n = length as \<Longrightarrow> drop i (scp_view w as) = xs \<Longrightarrow> set_wf s \<Longrightarrow>
     \<exists>s'. scp_displays_loop w l i n (Some s) = Some (Some s') \<and> set_wf s' \<and> set_min s' = set_min s \<and>
        set_max s' = set_max s \<and> set_elems s' = set_elems s \<union> reserved_in s (map snd xs)"
proof (induction arbitrary: s rule: ptr_loop_induct)
  case stop
  then show ?case by (simp add: reserved_in_def)
next
  case (step i n a sli xs)
  let ?d = "sl_session_x11_display sli"
  have "\<exists>s1. (if SCP_LIST_ITEM_IN_USE sli \<and> sl_create_session_in_progress sli \<noteq> 0 \<and> ?d \<ge> 0
      then set_int_add (Some s) ?d else Some (Some s)) = Some (Some s1) \<and> set_wf s1 \<and> set_min s1 = set_min s \<and>
      set_max s1 = set_max s \<and> set_elems s1 = set_elems s \<union> reserved_in s [sli]"
    using step.prems set_int_add_ok [OF step.prems, of ?d]
    by (cases "reserves sli ?d") (auto simp: reserves_def reserved_in_def)
  then obtain s1 where s1: "scp_displays_loop w l i (Suc n) (Some s) = scp_displays_loop w l (Suc i) n (Some s1)"
    "set_wf s1" "set_min s1 = set_min s" "set_max s1 = set_max s"
    "set_elems s1 = set_elems s \<union> reserved_in s [sli]"
    using step.hyps by auto
  have "reserved_in s1 (map snd xs) \<union> reserved_in s [sli] = reserved_in s (map snd ((a, sli) # xs))"
    using s1(3,4) by (auto simp: reserved_in_def)
  with s1 step.IH [OF s1(2)] show ?case by auto
qed

lemma scp_displays_ok:
  assumes "scp_table w l as" and "set_wf s"
  shows "\<exists>s'. scp_list_get_create_session_x11_displays w (Some s) = Some (Some s') \<and> set_wf s' \<and>
     set_min s' = set_min s \<and> set_max s' = set_max s \<and>
     set_elems s' = set_elems s \<union> reserved_in s (map snd (scp_view w as))"
  using scp_displays_loop_ok [OF assms(1), of 0 "xlist.count l" "scp_view w as" s] assms ptr_table_count [OF assms(1)]
    ptr_table_list [OF assms(1)]
  by (simp add: scp_list_get_create_session_x11_displays_def)

lemma c_uint_nonneg: "0 \<le> d \<Longrightarrow> d < 2 ^ 32 \<Longrightarrow> c_uint d = d"
  by (simp add: c_uint_def)

text \<open>The search returns the first display of the range that is free.\<close>

definition display_free :: "sesman_env \<Rightarrow> int set \<Rightarrow> int \<Rightarrow> bool" where
  "display_free env used d \<longleftrightarrow> d \<notin> used \<and> x_server_running_check_ports env d = 0"

lemma free_display_loop_ok:
  assumes "set_wf s" "cfg_ok (e_cfg env)"
  shows "0 \<le> d \<Longrightarrow> d < 2 ^ 31 \<Longrightarrow>
     \<exists>r. free_display_loop env (Some s) d = Some r \<and>
       (if r = - 1 then \<forall>x. d \<le> x \<and> x \<le> max_display_number (e_cfg env) \<longrightarrow> \<not> display_free env (set_elems s) x
        else d \<le> r \<and> r \<le> max_display_number (e_cfg env) \<and> display_free env (set_elems s) r \<and>
          (\<forall>x. d \<le> x \<and> x < r \<longrightarrow> \<not> display_free env (set_elems s) x))"
proof (induction "nat (2 ^ 31 - d)" arbitrary: d rule: less_induct)
  case less
  let ?max = "max_display_number (e_cfg env)"
  have step: "free_display_loop env (Some s) d =
      (if d \<le> ?max then if display_free env (set_elems s) d then Some d else free_display_loop env (Some s) (d + 1)
       else Some (- 1))"
    using less.prems set_int_contains_ok [OF assms(1), of d]
    by (subst free_display_loop.simps) (simp add: c_uint_nonneg display_free_def)
  show ?case
  proof (cases "d \<le> ?max \<and> \<not> display_free env (set_elems s) d")
    case False
    then show ?thesis using less.prems by (auto simp: step)
  next
    case True
    then have d: "d + 1 < 2 ^ 31" using assms(2) by (simp add: cfg_ok_def)
    have before: "d \<le> x \<longleftrightarrow> x = d \<or> d + 1 \<le> x" for x by auto
    have eq: "free_display_loop env (Some s) d = free_display_loop env (Some s) (d + 1)"
      using True by (simp add: step)
    obtain r where "free_display_loop env (Some s) (d + 1) = Some r"
      "if r = - 1 then \<forall>x. d + 1 \<le> x \<and> x \<le> ?max \<longrightarrow> \<not> display_free env (set_elems s) x
        else d + 1 \<le> r \<and> r \<le> ?max \<and> display_free env (set_elems s) r \<and>
          (\<forall>x. d + 1 \<le> x \<and> x < r \<longrightarrow> \<not> display_free env (set_elems s) x)"
      using less.hyps [of "d + 1"] less.prems d by auto
    then show ?thesis
      using True before unfolding eq by (auto split: if_split_asm)
  qed
qed

text \<open>A display in use: by a live X11 session, or kept for a session being created.\<close>

definition used_displays :: "sesman \<Rightarrow> int set" where
  "used_displays w = {d. 0 \<le> d \<and> ((\<exists>a si. session_mem w a = Some si \<and> item_display si = d) \<or>
     (\<exists>a sli. scp_mem w a = Some sli \<and> reserves sli d))}"

lemma view_range:
  assumes "ptr_table lst mem l as"
  shows "x \<in> set (map snd (ptr_view mem as)) \<longleftrightarrow> (\<exists>a. mem a = Some x)"
proof -
  have "x \<in> set (map snd (ptr_view mem as)) \<longleftrightarrow> (\<exists>a. (a, x) \<in> set (ptr_view mem as))"
    by force
  then show ?thesis by (simp only: ptr_view_mem [OF assms])
qed

lemma get_free_display_eq:
  assumes "sesman_ok w" "cfg_ok (e_cfg env)"
  shows "\<exists>r. get_free_display env w = Some r \<and>
     (if r = - 1 then
        \<not> e_set_alloc env \<or> (\<forall>x. x11_display_offset (e_cfg env) \<le> x \<and> x \<le> max_display_number (e_cfg env) \<longrightarrow>
           \<not> display_free env (used_displays w) x)
      else x11_display_offset (e_cfg env) \<le> r \<and> r \<le> max_display_number (e_cfg env) \<and>
        display_free env (used_displays w) r \<and>
        (\<forall>x. x11_display_offset (e_cfg env) \<le> x \<and> x < r \<longrightarrow> \<not> display_free env (used_displays w) x))"
proof -
  let ?lo = "x11_display_offset (e_cfg env)" and ?hi = "max_display_number (e_cfg env)"
  have rng: "0 \<le> ?lo" "?lo < 2 ^ 31" "0 \<le> ?hi" "?hi < 2 ^ 31 - 1" "c_int ?lo = ?lo" "c_int ?hi = ?hi"
    using assms(2) by (auto simp: cfg_ok_def c_int_def)
  show ?thesis
  proof (cases "e_set_alloc env \<and> ?lo \<le> ?hi")
    case False
    then show ?thesis
      using rng by (auto simp: get_free_display_def set_int_init_def)
  next
    case True
    then obtain s where s: "set_int_init True ?lo ?hi = Some (Some s)" "set_wf s" "set_min s = ?lo" "set_max s = ?hi"
      "set_elems s = {}"
      using set_int_init_wf [of ?lo ?hi] rng by auto
    obtain l as l2 as2 where tabs: "session_table w l as" "scp_table w l2 as2"
      using assms(1) by (auto simp: sesman_ok_def)
    have "\<forall>si \<in> set (map snd (view w as)). display_defined si"
      using assms(1) unfolding view_range [OF tabs(1)] Ball_def by (auto simp: sesman_ok_def session_ok_def)
    then obtain s1 where s1: "session_list_get_session_x11_displays w (Some s) = Some (Some s1)" "set_wf s1"
      "set_min s1 = ?lo" "set_max s1 = ?hi" "set_elems s1 = displays_in s (map snd (view w as))"
      using session_list_displays_ok [OF tabs(1) s(2)] s(3-5) by auto
    obtain s2 where s2: "scp_list_get_create_session_x11_displays w (Some s1) = Some (Some s2)" "set_wf s2"
      "set_elems s2 = displays_in s (map snd (view w as)) \<union> reserved_in s1 (map snd (scp_view w as2))"
      using scp_displays_ok [OF tabs(2) s1(2)] s1(5) by auto
    have elems: "x \<in> set_elems s2 \<longleftrightarrow> x \<in> used_displays w" if "?lo \<le> x" "x \<le> ?hi" for x
      unfolding s2(3) used_displays_def displays_in_def reserved_in_def image_def Bex_def
        view_range [OF tabs(1)] view_range [OF tabs(2)]
      using that s(3,4) s1(3,4) rng(1) by auto
    have "get_free_display env w = free_display_loop env (Some s2) ?lo"
      using s(1) s1(1) s2(1) True rng by (simp add: get_free_display_def display_utils_get_free_display_def)
    moreover have "display_free env (set_elems s2) x = display_free env (used_displays w) x" if "?lo \<le> x" "x \<le> ?hi" for x
      using elems [OF that] by (simp add: display_free_def)
    moreover obtain r where "free_display_loop env (Some s2) ?lo = Some r"
      "if r = - 1 then \<forall>x. ?lo \<le> x \<and> x \<le> ?hi \<longrightarrow> \<not> display_free env (set_elems s2) x
       else ?lo \<le> r \<and> r \<le> ?hi \<and> display_free env (set_elems s2) r \<and>
         (\<forall>x. ?lo \<le> x \<and> x < r \<longrightarrow> \<not> display_free env (set_elems s2) x)"
      using free_display_loop_ok [OF s2(2) assms(2) rng(1,2)] by blast
    ultimately show ?thesis
      using rng(1) by (intro exI [of _ r]) auto
  qed
qed


subsection \<open>Creating, joining and listing sessions\<close>

lemma pass_create_sound:
  assumes "env_ok env" "served sli" "sesman_ok w" "create_wf c" "sl_sesexec_trans sli = None \<longrightarrow> start"
  shows "sound w (pass_create_request env c start d sli w)"
proof -
  have up: "\<exists>ctr str. sl_client_trans s1 = Some ctr \<and> sl_sesexec_trans s1 = Some str \<and> trans_wf str"
    if "(if start then sesexec_start env sli w else Some (0, sli, w)) = Some (0, s1, w1)" "served s1" for s1 w1
    using that assms(5) sesexec_start_up by (auto simp: served_def item_ok_def split: if_split_asm)
  have login: "sound w1 (if start
       then do { ctr \<leftarrow> sl_client_trans s1; str \<leftarrow> sl_sesexec_trans s1;
                 (st, str) \<leftarrow> eicp_send_uds_login_request (e_ipm env) str (t_sck ctr);
                 Some (st, s1\<lparr>sl_sesexec_trans := Some str\<rparr>, log_call (Eicp_uds_login (t_sck ctr)) w1) }
       else Some (E_LI_SUCCESS, s1, w1))"
    if s1: "served s1" "sesman_ok w1" "\<exists>ctr str. sl_client_trans s1 = Some ctr \<and> sl_sesexec_trans s1 = Some str \<and> trans_wf str"
    for s1 w1
  proof -
    obtain ctr str where tr: "sl_client_trans s1 = Some ctr" "sl_sesexec_trans s1 = Some str" "trans_wf str"
      using s1(3) by blast
    obtain rv str' where "eicp_send_uds_login_request (e_ipm env) str (t_sck ctr) = Some (rv, str')" "trans_wf str'"
      using eicp_sends_total(2) [OF tr(3) env_okD(1) [OF assms(1)]] by blast
    then show ?thesis using s1 tr by (simp add: sound_Some served_update)
  qed
  have send: "sound w1 (do { str \<leftarrow> sl_sesexec_trans s1;
      (eicp_stat, str) \<leftarrow> eicp_send_create_session_request (e_ipm env) str d c;
      let w = log_call (Eicp_create_session d c) w1;
      let sli = s1\<lparr>sl_sesexec_trans := Some str\<rparr>;
      Some (if eicp_stat \<noteq> E_LI_SUCCESS
            then (Some E_SCP_SCREATE_GENERAL_ERROR, sli\<lparr>sl_sesexec_trans := None\<rparr>, delete_trans (Some str) w)
            else (None, sli\<lparr>sl_create_session_in_progress := 1, sl_session_x11_display := d\<rparr>, w)) })"
    if s1: "served s1" "sesman_ok w1" "sl_sesexec_trans s1 \<noteq> None" for s1 w1
  proof -
    obtain str where tr: "sl_sesexec_trans s1 = Some str" "trans_wf str"
      using s1(1,3) by (auto simp: served_def item_ok_def)
    obtain rv str' where "eicp_send_create_session_request (e_ipm env) str d c = Some (rv, str')" "trans_wf str'"
      using eicp_sends_total(4) [OF tr(2) env_okD(1) [OF assms(1)] assms(4)] by blast
    then show ?thesis using s1 tr by (simp add: sound_def Let_def served_update)
  qed
  have first: "sound w (if start then sesexec_start env sli w else Some (0, sli, w))"
    using sesexec_start_sound [OF assms(1-3)] assms(2,3) by (simp add: sound_Some)
  show ?thesis
    unfolding pass_create_request_def
  proof (rule sound_bind [OF first], goal_cases)
    case (1 started s1 w1)
    show ?case
    proof (cases "started = 0")
      case False
      with 1 show ?thesis by (simp add: sound_Some)
    next
      case True
      have ex: "\<exists>ctr str. sl_client_trans s1 = Some ctr \<and> sl_sesexec_trans s1 = Some str \<and> trans_wf str"
        using up 1 True by blast
      show ?thesis
      proof (simp only: True prod.case simp_thms if_False, rule sound_bind [OF login [OF 1(2,3) ex]], goal_cases)
        case (1 st s2 w2)
        then have "sl_sesexec_trans s2 \<noteq> None"
          using ex by (auto simp: handler_simps split: if_split_asm)
        with 1(2,3) show ?case
          unfolding prod.case by (intro sound_if send sound_Some) (simp_all add: served_update)
      qed
    qed
  qed
qed


lemma create_new_sound:
  assumes "env_ok env" "served sli" "sesman_ok w" "create_wf c" "sl_sesexec_trans sli = None \<longrightarrow> start"
    "scp_mem w a \<noteq> None"
  shows "sound w (create_new_session env a c start sli w)"
proof -
  have "sesman_ok (put_sli a sli w)"
    using assms(2,3,6) sesman_ok_put by (simp add: served_def)
  then obtain d where d: "get_free_display env (put_sli a sli w) = Some d"
    using get_free_display_eq [OF _ env_okD(4) [OF assms(1)]] by blast
  obtain rv w1 where dir: "create_xrdp_socket_path env (sl_uid sli) w = (rv, w1)" by fastforce
  have w1: "sesman_ok w1" "scp_mem w1 = scp_mem w"
    using sockdir_sound [OF assms(3) dir] by auto
  have pass: "sound w (pass_create_request env c start x sli w1)" for x
    using pass_create_sound [OF assms(1,2) w1(1) assms(4,5)] w1(2) by (simp add: sound_def)
  show ?thesis
    unfolding create_new_session_def dir d
    using assms(2,3) w1 pass by (simp add: sound_Some)
qed

lemma create_session_sound:
  assumes "env_ok env" "served sli" "sesman_ok w" "scp_mem w a \<noteq> None"
  shows "sound w (process_create_session_request env a sli w)"
proof -
  obtain tr where tr: "sl_client_trans sli = Some tr" "trans_wf tr"
    using assms(2) by (rule served_client)
  obtain rv msg tr' where msg: "scp_get_create_session_request tr = Some (rv, msg, tr')" "trans_wf tr'"
    "\<forall>c. msg = Some c \<longrightarrow> create_wf c"
    using get_create_session_total [OF tr(2)] by blast
  let ?sli = "sli\<lparr>sl_client_trans := Some tr'\<rparr>"
  have sli: "served ?sli"
    using assms(2) msg(2) by (rule served_update)
  obtain l as where tab: "session_table w l as" using assms(3) by (auto simp: sesman_ok_def)
  show ?thesis
  proof (cases msg)
    case None
    then show ?thesis
      using tr msg assms sli by (simp add: process_create_session_request_def sound_Some)
  next
    case (Some c)
    obtain found where found: "session_list_get_bydata (e_cfg env) w (sl_uid ?sli) (c_type c) (c_width c)
          (c_height c) (c_bpp c) (Some (sl_start_ip_addr ?sli)) (Some (c_instance_name c)) = Some found"
      unfolding session_list_get_bydata_eq [OF tab] by simp
    have ok: "session_mem w s = Some si \<Longrightarrow> nul_free (si_display si)" for s si
      using assms(3) by (auto simp: sesman_ok_def session_ok_def)
    have rest: "sound w (case found of
        Some (s, si) \<Rightarrow> send_create_response env E_SCP_SCREATE_OK (si_display si) (si_guid si) ?sli w
      | None \<Rightarrow> do { (status, sli, w) \<leftarrow> create_new_session env a c (sl_sesexec_trans sli = None) ?sli w;
            (case status of None \<Rightarrow> Some (rv, sli, w)
             | Some st \<Rightarrow> send_create_response env st [] guid_clear sli w) })"
    proof (cases found)
      case None
      have "sound w (create_new_session env a c (sl_sesexec_trans sli = None) ?sli w)"
        using create_new_sound [OF assms(1) sli assms(3) _ _ assms(4)] msg(3) Some by simp
      then show ?thesis
        unfolding None option.case
        by (rule sound_bind) (auto split: option.split intro!: sound_Some send_create_sound assms(1))
    next
      case (Some p)
      with found have "session_mem w (fst p) = Some (snd p)"
        using bydata_found [OF tab] by (metis prod.collapse)
      with Some ok show ?thesis
        by (cases p) (auto intro: send_create_sound [OF assms(1) sli assms(3)])
    qed
    show ?thesis
      unfolding process_create_session_request_def
      using tr(1) msg(1) Some found rest send_create_sound [OF assms(1) sli assms(3)]
      by (simp add: Let_def)
  qed
qed

lemma forward_connect_ok:
  assumes "env_ok env" "served sli" "sesman_ok w" "nul_free ip" "nul_free client"
  shows "\<exists>st w'. forward_connect env (g, ip, client, fl) sli w = Some (st, w') \<and> sesman_ok w' \<and> scp_mem w' = scp_mem w"
proof -
  obtain l as where tab: "session_table w l as" using assms(3) by (auto simp: sesman_ok_def)
  obtain found where found: "session_list_get_byguid w g = Some found"
    using session_list_get_byguid_ok [OF tab] by blast
  show ?thesis
  proof (cases "\<exists>s si. logged_in sli \<and> found = Some (s, si) \<and> si_uid si = sl_uid sli")
    case False
    then show ?thesis
      using assms(3) found by (cases found) (auto simp: forward_connect_def logged_in_def)
  next
    case True
    then obtain s si where f: "logged_in sli" "found = Some (s, si)" "si_uid si = sl_uid sli" by blast
    then have si: "session_mem w s = Some si" "SESSION_IN_USE si"
      using byguid_found [OF tab] found by auto
    then have "session_ok si" using assms(3) by (auto simp: sesman_ok_def)
    with si(2) obtain str where str: "si_sesexec_trans si = Some str" "trans_wf str"
      by (auto simp: SESSION_IN_USE_def session_ok_def split: option.split_asm)
    obtain ctr where ctr: "sl_client_trans sli = Some ctr" using assms(2) by (rule served_client)
    obtain rv str' where "ercp_send_connect_session_request (e_ipm env) str (t_sck ctr) ip client fl = Some (rv, str')"
      "trans_wf str'"
      using eicp_sends_total(5) [OF str(2) env_okD(1) [OF assms(1)] assms(4,5)] by blast
    moreover have "session_ok (si\<lparr>si_sesexec_trans := Some str'\<rparr>)" if "trans_wf str'"
      using \<open>session_ok si\<close> that by (simp add: session_ok_def display_defined_def)
    ultimately show ?thesis
      using f found si str ctr assms(3) sesman_ok_session [OF assms(3)]
      by (auto simp: forward_connect_def logged_in_def Let_def)
  qed
qed

lemma connect_session_sound:
  assumes "env_ok env" "served sli" "sesman_ok w"
  shows "sound w (process_connect_session_request env sli w)"
proof -
  obtain tr where tr: "sl_client_trans sli = Some tr" "trans_wf tr"
    using assms(2) by (rule served_client)
  obtain rv msg tr' where msg: "scp_get_connect_session_request tr = Some (rv, msg, tr')" "trans_wf tr'"
    "\<forall>g ip client fl. msg = Some (g, ip, client, fl) \<longrightarrow> nul_free ip \<and> nul_free client"
    using get_connect_session_total [OF tr(2)] by blast
  let ?sli = "sli\<lparr>sl_client_trans := Some tr'\<rparr>"
  have sli: "served ?sli"
    using assms(2) msg(2) by (rule served_update)
  have mid: "sound w (case msg of None \<Rightarrow> Some (rv, ?sli, w)
      | Some m \<Rightarrow> do { (status, w) \<leftarrow> forward_connect env m ?sli w;
           if status \<noteq> E_SCP_SCONNECT_OK then send_connect_response env status ?sli w
           else Some (rv, ?sli, w) })"
  proof (cases msg)
    case None
    then show ?thesis using sli assms(3) by (simp add: sound_Some)
  next
    case (Some m)
    then obtain g ip client fl where m: "msg = Some (g, ip, client, fl)" by (cases m) auto
    with msg(3) have nf: "nul_free ip" "nul_free client" by auto
    obtain st w1 where f: "forward_connect env (g, ip, client, fl) ?sli w = Some (st, w1)" "sesman_ok w1"
      "scp_mem w1 = scp_mem w"
      using forward_connect_ok [OF assms(1) sli assms(3) nf] by blast
    have "sound w (send_connect_response env st ?sli w1)"
      using send_connect_sound [OF assms(1) sli f(2)] f(3) by (simp add: sound_def)
    then show ?thesis
      using m f sli by (simp add: sound_Some)
  qed
  have out: "sound w1 (do { (sli, w) \<leftarrow> logout_scp_list_item env s1 w1;
      Some (x, sli\<lparr>sl_dispatcher_action := E_SLD_TERMINATE_SCP_CONN\<rparr>, w) })"
    if "served s1" "sesman_ok w1" for s1 w1 and x :: libipm_status
    using logout_sound [OF assms(1) that] by (auto simp: served_update sound_Some)
  show ?thesis
    unfolding process_connect_session_request_def Let_def
    using tr(1) msg(1) by simp (rule sound_bind [OF mid], simp add: out)
qed

lemma session_info_wf: "session_ok si \<Longrightarrow> info_wf (session_info dup si)"
  by (auto simp: session_info_def info_wf_def session_ok_def split: if_split_asm)

lemma infos_from_wf: "\<forall>si \<in> set sis. session_ok si \<Longrightarrow> info \<in> set (infos_from dup k sis) \<Longrightarrow> info_wf info"
  by (induction dup k sis rule: infos_from.induct) (auto intro: session_info_wf)

lemma send_infos_sound:
  assumes "env_ok env"
  shows "served sli \<Longrightarrow> sesman_ok w \<Longrightarrow> \<forall>info \<in> set infos. info_wf info \<Longrightarrow> sound w (send_infos env infos sli w)"
proof (induction infos arbitrary: sli w)
  case (Cons info infos)
  have "sound w (send_list_response env E_SCP_LS_SESSION_INFO (Some info) sli w)"
    using Cons.prems by (intro send_list_sound [OF assms]) auto
  then show ?case
    unfolding send_infos.simps
  proof (rule sound_bind, goal_cases)
    case (1 x s1 w1)
    then show ?case
      using Cons.IH [of s1 w1] Cons.prems(3) by (simp add: sound_Some)
  qed
qed (simp add: sound_Some)

lemma free_infos_ok: "i + n \<le> length infos \<Longrightarrow> \<exists>freed. free_infos infos i n = Some freed"
proof (induction n arbitrary: i)
  case (Suc n)
  then obtain rest where "free_infos infos (Suc i) n = Some rest" by fastforce
  with Suc.prems show ?case by (simp add: list_get_def)
qed simp

lemma length_infos_from: "length (infos_from dup k sis) = length sis"
  by (induction dup k sis rule: infos_from.induct) auto

lemma list_sessions_sound:
  assumes "env_ok env" "served sli" "sesman_ok w"
  shows "sound w (process_list_sessions_request env sli w)"
proof (cases "logged_in sli")
  case False
  then show ?thesis
    using send_list_sound [OF assms] by (simp add: process_list_sessions_request_def logged_in_def)
next
  case True
  obtain l as where tab: "session_table w l as" using assms(3) by (auto simp: sesman_ok_def)
  let ?sel = "if sl_is_admin sli \<noteq> 0 then None else Some (sl_uid sli)"
  obtain infos cnt freed where get: "session_list_get_byuid (e_info_alloc env) (e_info_dup env) w ?sel 0 =
      Some (infos, cnt, freed)"
    using session_list_get_byuid_ok [OF tab] by (metis prod_cases3)
  have infos: "cnt = length is' \<and> (\<forall>info \<in> set is'. info_wf info)" if "infos = Some is'" for is'
  proof -
    define sel where "sel = filter (uid_selected ?sel) (map snd (view w as))"
    have "is' = infos_from (e_info_dup env) 0 sel" "cnt = length sel"
      using get that unfolding session_list_get_byuid_ok [OF tab] sel_def [symmetric]
      by (auto split: if_split_asm)
    moreover have "session_ok si" if si: "si \<in> set sel" for si
    proof -
      from si have "si \<in> set (map snd (view w as))" by (simp add: sel_def)
      then show ?thesis
        using assms(3) unfolding view_range [OF tab] by (auto simp: sesman_ok_def)
    qed
    ultimately show ?thesis
      using infos_from_wf [of sel] by (simp add: length_infos_from)
  qed
  have send: "sound w (send_infos env (case infos of None \<Rightarrow> [] | Some is' \<Rightarrow> take cnt is') sli w)"
    using infos by (intro send_infos_sound assms) (auto split: option.split)
  have freed: "free_session_info_list infos cnt \<noteq> None"
    using infos free_infos_ok [of 0 cnt] by (auto simp: free_session_info_list_def split: option.split)
  have rest: "sound w1 (do { freed \<leftarrow> free_session_info_list infos cnt;
      if x = E_LI_SUCCESS then send_list_response env E_SCP_LS_END_OF_LIST None s1 w1 else Some (x, s1, w1) })"
    if "served s1" "sesman_ok w1" for x s1 w1
    using freed that send_list_sound [OF assms(1) that, of E_SCP_LS_END_OF_LIST None] by (auto simp: sound_Some)
  show ?thesis
    unfolding process_list_sessions_request_def
    using True get by (simp add: logged_in_def) (rule sound_bind [OF send], simp add: rest)
qed

subsection \<open>The dispatcher\<close>

lemma scp_switch_sound:
  assumes "env_ok env" "served sli" "sesman_ok w" "scp_mem w a \<noteq> None"
  shows "sound w (scp_switch env msgno a sli w)"
  unfolding scp_switch_def
  using assms set_peername_sound [OF assms(2,3)] sys_login_sound [OF assms(1-3)] uds_login_sound [OF assms(1-3)]
    logout_close_sound [OF assms(1-3)] create_session_sound [OF assms] connect_session_sound [OF assms(1-3)]
    list_sessions_sound [OF assms(1-3)] create_sockdir_sound [OF assms(1-3)]
  by (simp add: sound_Some)

lemma scp_switch_safe:
  assumes "scp_switch env msgno a sli w = Some (rv, sli', w')" and "session_table w l as"
  shows "emits (permitted (e_cfg env) w sli) w w'"
  using assms(1) set_peername_safe sys_login_safe uds_login_safe logout_safe create_session_safe [OF _ assms(2)]
    connect_session_safe [OF _ assms(2)] list_sessions_safe [OF _ assms(2)] create_sockdir_safe close_safe
  unfolding scp_switch_def by (auto split: if_split_asm intro: emits_same)

text \<open>A request from a client, whatever its bytes.\<close>

lemma scp_process_ok:
  assumes "sesman_ok w" "env_ok env" "scp_mem w a = Some sli" "sl_client_trans sli \<noteq> None"
  shows "\<exists>rv sli' w'. scp_process env a w = Some (rv, w') \<and> sesman_ok w' \<and>
     scp_mem w' = (scp_mem w)(a \<mapsto> sli') \<and> sl_client_trans sli' \<noteq> None \<and>
     emits (permitted (e_cfg env) w sli) w w'"
proof -
  obtain tr where tr: "sl_client_trans sli = Some tr" using assms(4) by blast
  obtain l as where tab: "session_table w l as" using assms(1) by (auto simp: sesman_ok_def)
  have "served sli" using assms(1,3,4) by (auto simp: served_def sesman_ok_def)
  then obtain rv sli' w' where run: "scp_switch env (scp_msg_in_get_msgno tr) a sli w = Some (rv, sli', w')"
    "served sli'" "sesman_ok w'" "scp_mem w' = scp_mem w"
    using scp_switch_sound [OF assms(2) \<open>served sli\<close> assms(1), where a = a and msgno = "scp_msg_in_get_msgno tr"] assms(3)
    by (auto simp: sound_def)
  moreover have "emits (permitted (e_cfg env) w sli) w (put_sli a sli' w')"
    using scp_switch_safe [OF run(1) tab] by (simp add: emits_def)
  moreover have "sesman_ok (put_sli a sli' w')"
    using run assms(3) by (simp add: sesman_ok_put served_def)
  ultimately show ?thesis
    using assms(3) tr by (auto simp: scp_process_def served_def)
qed

end
