(* ===== verification/Sesman_Theorems.thy ===== *)
theory Sesman_Theorems
  imports Sesman_Total
begin

text \<open>
  The claims about sesman as a whole: what happens to the bytes a client sends, how displays
  are handed out, and what an announcement of sesexec does to a session.
\<close>

subsection \<open>From bytes to a handled request\<close>

text \<open>
  A transport between two messages waits for a header, with its read position at the start of
  the buffer.
\<close>

definition framed :: "ipm_trans \<Rightarrow> bool" where
  "framed tr \<longleftrightarrow> (t_extra_flags tr = 0 \<longrightarrow> t_header_size tr = int HEADER_SIZE \<and> s_p (t_in_s tr) = 0)"

lemma validate_total:
  assumes "trans_wf tr" "s_p (t_in_s tr) = 0" "s_end (t_in_s tr) = 12"
  shows "\<exists>rv size tr'. validate_msg_header tr = Some (rv, size, tr') \<and> trans_wf tr'"
proof -
  obtain p where p: "t_extra_data tr = Some p" "priv_wf p" "in_wf (t_in_s tr)"
    using assms(1) by (auto simp: trans_wf_def)
  have len: "length (unread (t_in_s tr)) = 12"
    using p(3) assms(2,3) by (simp add: length_unread)
  then have step: "in_bytes k (advance n (t_in_s tr)) = Some (take k (drop n (unread (t_in_s tr))), advance (n + k) (t_in_s tr))"
    if "n + k \<le> 12" for n k
    using p(3) that assms(2,3) advance_wf [OF p(3), of n]
    by (subst in_bytes_unread_eq) (auto simp: unread_advance)
  have first: "in_bytes 2 (t_in_s tr) = Some (take 2 (unread (t_in_s tr)), advance 2 (t_in_s tr))"
    using step [of 0 2] by (simp del: add_2_eq_Suc add_2_eq_Suc')
  have "in_wf (advance 12 (t_in_s tr))"
    using p(3) len by (intro advance_wf) auto
  then show ?thesis
    using p assms(1) first step [of 2 2] step [of 4 2] step [of 6 2] step [of 8 4]
    by (auto simp: validate_msg_header_def in_defs Let_def trans_wf_def priv_wf_def)
qed

lemma check_total:
  assumes "trans_wf tr" "framed tr"
  shows "\<exists>rv av tr'. libipm_msg_in_check_available tr = Some (rv, av, tr') \<and> trans_wf tr'"
proof (cases "t_status tr = TRANS_STATUS_UP \<and> c_uint (int (s_end (t_in_s tr))) = t_header_size tr \<and> t_extra_flags tr = 0")
  case True
  moreover have "s_end (t_in_s tr) < 2 ^ 32"
    using assms(1) by (auto simp: trans_wf_def in_wf_def)
  ultimately have "s_end (t_in_s tr) = 12" "s_p (t_in_s tr) = 0"
    using assms(2) by (auto simp: framed_def c_uint_def)
  then obtain rv size tr' where "validate_msg_header tr = Some (rv, size, tr')" "trans_wf tr'"
    using validate_total [OF assms(1)] by blast
  then show ?thesis
    using True assms(1) by (auto simp: libipm_msg_in_check_available_def trans_wf_def)
next
  case False
  then show ?thesis
    using assms(1) by (auto simp: libipm_msg_in_check_available_def trans_wf_def)
qed

lemma reset_total:
  assumes "trans_wf tr"
  shows "\<exists>tr'. libipm_msg_in_reset junk tr = Some (pending_fds (the (t_extra_data tr)), tr') \<and> trans_wf tr' \<and> framed tr'"
proof -
  obtain p where p: "t_extra_data tr = Some p" "priv_wf p" "in_wf (t_in_s tr)"
    using assms by (auto simp: trans_wf_def)
  obtain s q where sq: "(if flags p AND LIBIPM_E_MSG_IN_ERASE_AFTER_USE \<noteq> 0
      then do { s \<leftarrow> memset_start (s_end (t_in_s tr)) (t_in_s tr);
                Some (s, p\<lparr>flags := flags p AND NOT LIBIPM_E_MSG_IN_ERASE_AFTER_USE\<rparr>) }
      else Some (t_in_s tr, p)) = Some (s, q)" "in_wf s" "priv_wf q"
    "pending_fds q = pending_fds p"
  proof (cases "flags p AND LIBIPM_E_MSG_IN_ERASE_AFTER_USE \<noteq> 0")
    case True
    have le: "s_end (t_in_s tr) \<le> s_size (t_in_s tr)" using p(3) by (simp add: in_wf_def)
    let ?s = "t_in_s tr\<lparr>s_data := replicate (s_end (t_in_s tr)) 0 @ drop (s_end (t_in_s tr)) (s_data (t_in_s tr))\<rparr>"
    have "in_wf ?s" using p(3) by (simp add: in_wf_def)
    then show ?thesis
      using True p(2) le by (intro that [of ?s "p\<lparr>flags := flags p AND NOT 1\<rparr>"]) (simp_all add: memset_start_def priv_wf_def pending_fds_def)
  qed (use that p in auto)
  let ?tr = "tr\<lparr>t_in_s := s, t_extra_data := Some (q\<lparr>in_msgno := 0, in_param_count := 0\<rparr>)\<rparr>"
  have q: "priv_wf (q\<lparr>in_msgno := 0, in_param_count := 0\<rparr>)"
    using sq(3) by (simp add: priv_wf_def)
  have "pending_fds (q\<lparr>in_msgno := 0, in_param_count := 0\<rparr>) = pending_fds p"
    using sq(4) by (simp add: pending_fds_def)
  moreover have "libipm_msg_in_close_file_descriptors ?tr = Some (pending_fds (q\<lparr>in_msgno := 0, in_param_count := 0\<rparr>),
      ?tr\<lparr>t_extra_data := Some (q\<lparr>in_msgno := 0, in_param_count := 0, in_fd_count := 0, in_fd_index := 0\<rparr>)\<rparr>)"
    using close_file_descriptors_eq [OF _ q, of ?tr] by simp
  ultimately show ?thesis
    using p(1) sq assms
    by (auto simp: libipm_msg_in_reset_def trans_wf_def framed_def priv_wf_def in_wf_def Let_def)
qed

lemma sesman_ok_fds [simp]: "sesman_ok (w\<lparr>closed_fds := fds\<rparr>) = sesman_ok w"
  by (simp add: sesman_ok_def)

lemma permitted_sessions:
  "session_mem w' = session_mem w \<Longrightarrow> permitted cfg w' sli c = permitted cfg w sli c"
  by (cases "(cfg, w, sli, c)" rule: permitted.cases) (auto simp: logged_in_def)

lemma item_ok_client: "item_ok sli \<Longrightarrow> trans_wf tr \<Longrightarrow> item_ok (sli\<lparr>sl_client_trans := Some tr\<rparr>)"
  by (simp add: item_ok_def)

lemma sesman_scp_data_in_ok:
  assumes "sesman_ok w" "env_ok env" "scp_mem w a = Some sli" "sl_client_trans sli = Some tr" "framed tr"
  shows "\<exists>rv w'. sesman_scp_data_in env a w = Some (rv, w') \<and> sesman_ok w' \<and>
     emits (permitted (e_cfg env) w sli) w w'"
proof -
  have item: "item_ok sli" using assms(1,3) by (auto simp: sesman_ok_def)
  then have "trans_wf tr" using assms(4) by (simp add: item_ok_def)
  then obtain rv av tr1 where check: "libipm_msg_in_check_available tr = Some (rv, av, tr1)" "trans_wf tr1"
    using check_total assms(5) by blast
  let ?sli = "sli\<lparr>sl_client_trans := Some tr1\<rparr>"
  let ?w = "put_sli a ?sli w"
  have w: "sesman_ok ?w"
    using assms(1,3) item check(2) by (intro sesman_ok_put item_ok_client) auto
  show ?thesis
  proof (cases "rv = E_LI_SUCCESS \<and> av")
    case False
    then show ?thesis
      using assms(3,4) check(1) w
      by (auto simp: sesman_scp_data_in_def Let_def intro: emits_same)
  next
    case True
    obtain rv2 sli2 w2 where run: "scp_process env a ?w = Some (rv2, w2)" "sesman_ok w2"
      "scp_mem w2 = (scp_mem ?w)(a \<mapsto> sli2)" "sl_client_trans sli2 \<noteq> None"
      "emits (permitted (e_cfg env) ?w ?sli) ?w w2"
      using scp_process_ok [OF w assms(2), of a ?sli] by auto
    obtain tr2 where tr2: "sl_client_trans sli2 = Some tr2" using run(4) by blast
    have mem2: "scp_mem w2 a = Some sli2" by (simp add: run(3))
    then have item2: "item_ok sli2" using run(2) by (auto simp: sesman_ok_def)
    then have "trans_wf tr2" using tr2 by (simp add: item_ok_def)
    then obtain closed tr3 where reset: "libipm_msg_in_reset (fresh_mem (e_ipm env)) tr2 = Some (closed, tr3)" "trans_wf tr3"
      using reset_total by blast
    let ?w3 = "w2\<lparr>closed_fds := closed_fds w2 @ closed\<rparr>"
    let ?w4 = "put_sli a (sli2\<lparr>sl_client_trans := Some tr3\<rparr>) ?w3"
    have "sesman_ok ?w4"
      using run(2) mem2 item2 reset(2) by (intro sesman_ok_put item_ok_client) auto
    moreover have "emits (permitted (e_cfg env) w sli) w ?w4"
    proof -
      have "permitted (e_cfg env) ?w ?sli c = permitted (e_cfg env) w sli c" for c
        using permitted_sessions [of ?w w] permitted_cong [of ?sli sli] by simp
      then show ?thesis using run(5) by (simp add: emits_def)
    qed
    moreover have "sesman_scp_data_in env a w = Some (rv2, ?w4)"
      using assms(3,4) check(1) True run(1) mem2 tr2 reset(1)
      by (simp add: sesman_scp_data_in_def reset_side_def Let_def)
    ultimately show ?thesis by blast
  qed
qed


subsection \<open>The claims\<close>

text \<open>A sesman with no session and one connection, of user 1000, whose client has sent a header.\<close>

definition ex_env :: sesman_env where
  "ex_env = \<lparr>e_ipm = \<lparr>force_write = \<lambda>tr. Some (True, tr), fresh_mem = \<lambda>i. 0\<rparr>,
     e_cfg = \<lparr>x11_display_offset = 10, max_display_number = 63, max_sessions = 50, policy = 1\<rparr>,
     e_strdup = True,
     e_sesexec = \<lparr>se_executable = True, se_args = True, se_socketpair = Some (20, 21), se_fork = Some 100,
       se_pid = Some 100, se_trans = None, se_trans_alloc = True\<rparr>,
     e_peer_cred = (0, 1000), e_user_name = \<lambda>uid. Some [0x61], e_auth_uds = \<lambda>u. (True, 0),
     e_login_allowed = \<lambda>u. True, e_is_admin = \<lambda>u. 0,
     e_sockdir = \<lparr>sd_group = None, sd_exists = True, sd_create = True, sd_chmod = 0, sd_getgroup = 0, sd_chown = 0\<rparr>,
     e_set_alloc = True, e_file_exist = \<lambda>p. False, e_tcp_socket = True, e_tcp_bind = \<lambda>p. 0,
     e_x11_socket_path = \<lambda>d. [], e_info_alloc = True, e_info_dup = \<lambda>i j. True, e_new_addr = None,
     e_list_mem = (True, \<lambda>i. None), e_client_trans = None, e_client_alloc = True\<rparr>"

definition ex_client :: ipm_trans where
  "ex_client = (up_trans [])\<lparr>t_in_s := (buf [2, 0, 12, 0, 1, 0, 12, 0, 0, 0, 0, 0] 0 12)\<rparr>"

definition ex_item :: "int \<Rightarrow> scp_list_item" where
  "ex_item display = new_scp_list_item\<lparr>sl_client_trans := Some ex_client, sl_login_state := E_SLI_LOGIN_UDS,
     sl_uid := 1000, sl_create_session_in_progress := (if 0 \<le> display then 1 else 0),
     sl_session_x11_display := display\<rparr>"

definition ex_list :: "nat option list \<Rightarrow> nat xlist" where
  "ex_list ps = \<lparr>items = ps, count = length ps, alloc_size = length ps, grow_by = 10, auto_free = False\<rparr>"

definition ex_sesman :: "int \<Rightarrow> sesman" where
  "ex_sesman display = \<lparr>g_session_list = Some (ex_list []), session_mem = Map.empty, deleted_trans = [],
     g_scp_list = Some (ex_list [Some 5]), scp_mem = [5 \<mapsto> ex_item display], calls = [], closed_fds = []\<rparr>"

lemma ex_env_ok: "env_ok ex_env"
  by (auto simp: env_ok_def ex_env_def force_write_ok_def created_ok_def cfg_ok_def)

lemma ex_client_wf: "trans_wf ex_client" "framed ex_client"
  by (auto simp: ex_client_def up_trans_def trans_wf_def framed_def in_wf_def out_wf_def priv_wf_def new_priv_def)

lemma ex_sesman_ok: "sesman_ok (ex_sesman display)"
proof -
  have "session_table (ex_sesman display) (ex_list []) []" "scp_table (ex_sesman display) (ex_list [Some 5]) [5]"
    by (auto simp: ptr_table_def ex_sesman_def ex_list_def xlist_inv_def xlist_contents_def)
  moreover have "item_ok (ex_item display)"
    using ex_client_wf by (simp add: item_ok_def ex_item_def new_scp_list_item_def)
  ultimately show ?thesis
    unfolding sesman_ok_def by (auto simp: ex_sesman_def)
qed

text \<open>
  C7. Whatever a client sends, the callback of its connection returns: no byte sequence leads to
  an out-of-bounds access, a NULL dereference or another undefined operation in sesman's
  parsing and handling code. The state stays well-formed, and everything sesman does
  outside its process on behalf of the connection is permitted to the user logged in on
  it: it makes directories and sessions only for that user, joins only a live session of that
  user, describes sessions of other users only to an administrator, and reveals an existing
  session to the client only if it is live (and, where the policy compares users, the user's
  own).
\<close>

theorem sesman_scp_data_in_safe:
  assumes "sesman_ok w" and "env_ok env"
    and "scp_mem w a = Some sli" and "sl_client_trans sli = Some tr" and "framed tr"
  shows "\<exists>rv w'. sesman_scp_data_in env a w = Some (rv, w') \<and> sesman_ok w' \<and>
     emits (permitted (e_cfg env) w sli) w w'"
  using assms by (rule sesman_scp_data_in_ok)

lemma sesman_scp_data_in_safe_witness:
  "\<exists>rv w'. sesman_scp_data_in ex_env 5 (ex_sesman (- 1)) = Some (rv, w') \<and> sesman_ok w' \<and>
     emits (permitted (e_cfg ex_env) (ex_sesman (- 1)) (ex_item (- 1))) (ex_sesman (- 1)) w'"
  by (rule sesman_scp_data_in_safe [OF ex_sesman_ok ex_env_ok _ _ ex_client_wf(2)])
    (simp_all add: ex_sesman_def ex_item_def)

text \<open>
  C8. The display given to a new X11 session is the lowest one of the configured range that no
  live X11 session uses, that is not kept for a session another connection is creating, and on
  which no X server was found running; if there is none (or no memory for the bitmap) the
  result is -1.
\<close>

theorem get_free_display_correct:
  assumes "sesman_ok w" and "cfg_ok (e_cfg env)"
  shows "\<exists>r. get_free_display env w = Some r \<and>
     (if r = - 1 then
        \<not> e_set_alloc env \<or> (\<forall>x. x11_display_offset (e_cfg env) \<le> x \<and> x \<le> max_display_number (e_cfg env) \<longrightarrow>
           \<not> display_free env (used_displays w) x)
      else x11_display_offset (e_cfg env) \<le> r \<and> r \<le> max_display_number (e_cfg env) \<and>
        display_free env (used_displays w) r \<and>
        (\<forall>x. x11_display_offset (e_cfg env) \<le> x \<and> x < r \<longrightarrow> \<not> display_free env (used_displays w) x))"
  using assms by (rule get_free_display_eq)

lemma get_free_display_correct_witness:
  "\<exists>r. get_free_display ex_env (ex_sesman 10) = Some r \<and> (r \<noteq> - 1 \<longrightarrow> 10 < r \<and> r \<le> 63)"
proof -
  have cfg: "cfg_ok (e_cfg ex_env)" using ex_env_ok by (rule env_okD)
  have "10 \<in> used_displays (ex_sesman 10)"
    by (auto simp: used_displays_def reserves_def ex_sesman_def ex_item_def ex_client_def up_trans_def
        SCP_LIST_ITEM_IN_USE_def trans_up_def)
  then have "\<not> display_free ex_env (used_displays (ex_sesman 10)) 10"
    by (simp add: display_free_def)
  moreover obtain r where "get_free_display ex_env (ex_sesman 10) = Some r"
    "r \<noteq> - 1 \<longrightarrow> 10 \<le> r \<and> r \<le> 63 \<and> display_free ex_env (used_displays (ex_sesman 10)) r"
    using get_free_display_correct [OF ex_sesman_ok cfg, of 10]
    by (fastforce simp: ex_env_def split: if_split_asm)
  ultimately show ?thesis by (metis order_le_imp_less_or_eq)
qed

end
