(* ===== verification/Sesman_Announce.thy ===== *)
theory Sesman_Announce
  imports Sesman_Theorems
begin

text \<open>
  One message from sesexec to sesman, end to end: what the sender's function puts on the wire
  is what the receiver's callback acts on.
\<close>

lemma simple_send_wire:
  assumes "sender_ready fac tx" "force_write env = (\<lambda>tr. Some (True, tr))"
    and "\<forall>(c, a) \<in> set ps. arg_ok c a" "length (wire_params ps) \<le> LIBIPM_MAX_MSG_SIZE - HEADER_SIZE"
    and "length (params_fds ps) \<le> MAX_FD_PER_MSG"
  shows "\<exists>tx'. simple_send env tx msgno ps = Some (E_LI_SUCCESS, tx') \<and>
     contents (t_out_s tx') = wire_header (int (HEADER_SIZE + length (wire_params ps))) fac msgno @ wire_params ps"
proof -
  obtain tr priv where init: "libipm_msg_out_init (fresh_mem env) tx msgno (Some (map fst ps)) (map snd ps) =
        Some (E_LI_SUCCESS, [], tr)"
    and priv: "t_extra_data tr = Some priv" "facility priv = fac" "out_msgno priv = msgno"
    and out: "out_wf (t_out_s tr)" "s_iso_hdr (t_out_s tr) = 0"
      "s_p (t_out_s tr) = HEADER_SIZE + length (wire_params ps)"
      "drop HEADER_SIZE (written (t_out_s tr)) = wire_params ps"
    using msg_out_init_ok [OF assms(1,3-5), of "fresh_mem env" msgno] by blast
  obtain s where mark: "libipm_msg_out_mark_end tr = Some (tr\<lparr>t_out_s := s\<rparr>)"
    and s: "contents s = wire_header (int (s_p (t_out_s tr))) fac msgno @ wire_params ps"
    using mark_end_ok [OF priv(1) out(1,2)] out(3,4) priv(2,3) by auto
  have "t_extra_data tx \<noteq> None" using assms(1) by (auto simp: sender_ready_def)
  with init obtain tr0 where "init_output_buffer (fresh_mem env) tx msgno = Some tr0"
    "appendv_opt tr0 (Some (map fst ps)) (map snd ps) = Some (E_LI_SUCCESS, [], tr)"
    by (auto simp: libipm_msg_out_init_def Option.bind_eq_Some_conv)
  then show ?thesis
    using \<open>t_extra_data tx \<noteq> None\<close> mark s out(3) assms(2)
    by (simp add: simple_send_def libipm_msg_out_simple_send_def)
qed

text \<open>A message with a body and no descriptor arrives in two pieces, the header first.\<close>

lemma arrival_ok:
  assumes rx: "receiver_ready fac rx" "trans_wf rx"
    and data: "data = wire_header (int (HEADER_SIZE + length body)) fac msgno @ body"
    and num: "0 \<le> fac" "fac < 2 ^ 16" "0 \<le> msgno" "msgno < 2 ^ 16"
    and body: "0 < length body" "length body \<le> LIBIPM_MAX_MSG_SIZE - HEADER_SIZE"
  shows "\<exists>rx1 rx2 rx3 p. in_s_append (take HEADER_SIZE data) rx = Some rx1 \<and>
     libipm_msg_in_check_available rx1 = Some (E_LI_SUCCESS, False, rx2) \<and>
     in_s_append (drop HEADER_SIZE data) rx2 = Some rx3 \<and>
     libipm_msg_in_check_available rx3 = Some (E_LI_SUCCESS, True, rx3) \<and>
     trans_wf rx3 \<and> unread (t_in_s rx3) = body \<and> t_extra_data rx3 = Some p \<and> in_msgno p = msgno \<and> pending_fds p = []"
proof -
  let ?sz = "int (length data)"
  let ?h = "wire_header ?sz fac msgno"
  have data': "take 12 data = ?h" "drop 12 data = body" using data by simp_all
  obtain p where p: "t_extra_data rx = Some p" "priv_wf p" "facility p = fac" "in_fd_count p = 0"
    and up: "t_status rx = 1" "t_extra_flags rx = 0" "t_header_size rx = 12"
      "s_p (t_in_s rx) = 0" "s_end (t_in_s rx) = 0" "8192 \<le> s_size (t_in_s rx)" "s_size (t_in_s rx) < 2 ^ 31"
    using rx(1) by (auto simp: receiver_ready_def)
  have wf0: "in_wf (t_in_s rx)" "unread (t_in_s rx) = []"
    using up by (simp_all add: in_wf_def unread_def)
  obtain s1 where a1: "in_s_append ?h rx = Some (rx\<lparr>t_in_s := s1\<rparr>)"
    and s1: "in_wf s1" "unread s1 = ?h" "s_end s1 = 12" "s_p s1 = 0" "s_size s1 = s_size (t_in_s rx)"
    using in_s_append_wf [OF wf0(1), of ?h] wf0(2) up by auto
  let ?p = "p\<lparr>in_msgno := msgno\<rparr>"
  let ?rx2 = "rx\<lparr>t_in_s := advance 12 s1, t_extra_data := Some ?p, t_extra_flags := 1, t_header_size := ?sz\<rparr>"
  have c1: "libipm_msg_in_check_available (rx\<lparr>t_in_s := s1\<rparr>) = Some (E_LI_SUCCESS, False, ?rx2)"
    using s1 p up num data body
    by (subst check_available_header [where priv = p and msgno = msgno and sz = ?sz]) auto
  have wf2: "in_wf (t_in_s ?rx2)" "unread (t_in_s ?rx2) = []"
    using s1 advance_wf [OF s1(1), of 12] unread_advance [OF s1(1), of 12] by simp_all
  obtain s3 where a3: "in_s_append body ?rx2 = Some (?rx2\<lparr>t_in_s := s3\<rparr>)"
    and s3: "in_wf s3" "unread s3 = body" "s_end s3 = 12 + length body"
    using in_s_append_wf [OF wf2(1), of body] wf2(2) s1 up body by auto
  have c3: "libipm_msg_in_check_available (?rx2\<lparr>t_in_s := s3\<rparr>) = Some (E_LI_SUCCESS, True, ?rx2\<lparr>t_in_s := s3\<rparr>)"
    using s3 data body up by (simp add: libipm_msg_in_check_available_def)
  have "trans_wf (?rx2\<lparr>t_in_s := s3\<rparr>)" "pending_fds ?p = []"
    using rx(2) s3(1) p by (auto simp: trans_wf_def priv_wf_def pending_fds_def)
  then show ?thesis
    using a1 c1 a3 c3 s3 data' by (intro exI [of _ "rx\<lparr>t_in_s := s1\<rparr>"] exI [of _ ?rx2] exI [of _ "?rx2\<lparr>t_in_s := s3\<rparr>"] exI [of _ ?p]) simp
qed

text \<open>The values of such a message, as the receiver's parse call returns them.\<close>

lemma parse_params:
  assumes "trans_wf tr" "t_extra_data tr = Some p" "unread (t_in_s tr) = wire_params ps" "params_fds ps = []"
    and "pending_fds p = []" "\<forall>(c, a) \<in> set ps. arg_ok c a"
  shows "\<exists>tr' p'. libipm_msg_in_parse tr (Some (map fst ps)) (params_dests ps) =
       Some (E_LI_SUCCESS, params_values ps, [], tr') \<and> trans_wf tr' \<and> t_extra_data tr' = Some p' \<and> pending_fds p' = []"
proof -
  have wf: "in_wf (t_in_s tr)" "priv_wf p" using assms(1,2) by (auto simp: trans_wf_def)
  obtain tr' p' where run: "libipm_msg_in_parsev tr (map fst ps) (params_dests ps @ []) =
      Some (E_LI_SUCCESS, params_values ps, [], tr')"
    and tr': "in_wf (t_in_s tr')" "t_extra_data tr' = Some p'" "priv_wf p'" "pending_fds p' = []"
    using parsev_ok [OF wf(1) assms(2) wf(2) assms(6), of "[]" "[]" "[]"] assms(3-5) by auto
  have "t_out_s tr' = t_out_s tr"
    using parsev_frame [OF run] by simp
  then have "trans_wf tr'" using tr' assms(1) by (auto simp: trans_wf_def)
  then show ?thesis
    using run tr' assms(2) by (auto simp: libipm_msg_in_parse_def)
qed


subsection \<open>Announcing a session\<close>

definition announce_ok :: "session_announce \<Rightarrow> bool" where
  "announce_ok a \<longleftrightarrow> nul_free (a_display a) \<and> nul_free (a_start_ip_addr a) \<and> nul_free (a_instance_name a) \<and>
     0 \<le> a_uid a \<and> a_uid a < 2 ^ 32 \<and> 0 \<le> a_type a \<and> a_type a \<le> 255 \<and> 0 \<le> a_bpp a \<and> a_bpp a \<le> 255 \<and>
     0 \<le> a_start_width a \<and> a_start_width a \<le> 0xffff \<and> 0 \<le> a_start_height a \<and> a_start_height a \<le> 0xffff \<and>
     - (2 ^ 63) \<le> a_start_time a \<and> a_start_time a < 2 ^ 63 \<and> length (a_guid a) = GUID_SIZE \<and>
     length (wire_params (announce_params a)) \<le> LIBIPM_MAX_MSG_SIZE - HEADER_SIZE"

text \<open>The two reads of sesman's main loop that complete the message.\<close>

definition session_receives ::
  "(nat \<Rightarrow> byte) \<Rightarrow> byte list \<Rightarrow> session_item \<Rightarrow> (libipm_status \<times> int list \<times> session_item) option" where
  "session_receives junk data si =
     do { tr \<leftarrow> si_sesexec_trans si;
          tr \<leftarrow> in_s_append (take HEADER_SIZE data) tr;
          (rv, closed, si) \<leftarrow> sesman_ercp_data_in junk (si\<lparr>si_sesexec_trans := Some tr\<rparr>);
          if rv \<noteq> E_LI_SUCCESS then None
          else do { tr \<leftarrow> si_sesexec_trans si;
                    tr \<leftarrow> in_s_append (drop HEADER_SIZE data) tr;
                    sesman_ercp_data_in junk (si\<lparr>si_sesexec_trans := Some tr\<rparr>) } }"

definition announced :: "session_announce \<Rightarrow> session_item \<Rightarrow> session_item" where
  "announced a si = si\<lparr>si_state := E_SESSION_RUNNING, si_display := take 31 (a_display a), si_uid := a_uid a,
     si_type := a_type a, si_start_width := a_start_width a, si_start_height := a_start_height a,
     si_bpp := a_bpp a, si_guid := a_guid a, si_start_ip_addr := take 45 (a_start_ip_addr a),
     si_start_time := a_start_time a, si_xrdp_instance_name := take 79 (a_instance_name a)\<rparr>"

lemma wire_str_bound: "length s \<le> length (wire_param T_s (Arg_str (Some s)))"
  by simp

lemma announce_args_ok:
  assumes "announce_ok a"
  shows "\<forall>(c, x) \<in> set (announce_params a). arg_ok c x" "params_fds (announce_params a) = []"
    "0 < length (wire_params (announce_params a))"
  using assms by (auto simp: announce_ok_def announce_params_def nul_free_def param_fds_def)

lemma get_announce:
  assumes "announce_ok a" "trans_wf rx" "unread (t_in_s rx) = wire_params (announce_params a)"
    and "t_extra_data rx = Some p" "pending_fds p = []"
  shows "\<exists>rx' p'. ercp_get_session_announce_event rx = Some (E_LI_SUCCESS, Some (a_guid a), Some a, rx') \<and>
     trans_wf rx' \<and> t_extra_data rx' = Some p' \<and> pending_fds p' = []"
proof -
  obtain rx' p' where "libipm_msg_in_parse rx (Some (map fst (announce_params a))) (params_dests (announce_params a)) =
       Some (E_LI_SUCCESS, params_values (announce_params a), [], rx')"
    "trans_wf rx'" "t_extra_data rx' = Some p'" "pending_fds p' = []"
    using parse_params [OF assms(2,4,3) announce_args_ok(2) [OF assms(1)] assms(5) announce_args_ok(1) [OF assms(1)]]
    by blast
  moreover have "length (a_guid a) = 16" using assms(1) by (simp add: announce_ok_def)
  moreover have "c_uint (c_int (c_uint (a_uid a))) = a_uid a"
    using assms(1) by (simp only: c_uint_of_int) (simp add: announce_ok_def c_uint_def)
  moreover have "c_int64 (a_start_time a mod 2 ^ 64) = a_start_time a"
    using assms(1) by (intro c_int64_id) (simp_all add: announce_ok_def)
  moreover have "c_ushort (a_start_width a) = a_start_width a" "c_ushort (a_start_height a) = a_start_height a"
    using assms(1) by (simp_all add: announce_ok_def c_ushort_def)
  ultimately show ?thesis
    by (simp add: ercp_get_session_announce_event_def announce_params_def out_value_defs list_get_def)
qed

lemma announce_event_ok:
  assumes "announce_ok a" "sender_ready LIBIPM_FAC_ERCP tx" "force_write env = (\<lambda>tr. Some (True, tr))"
    and "si_sesexec_trans si = Some rx" "receiver_ready LIBIPM_FAC_ERCP rx" "trans_wf rx"
  shows "\<exists>tx' rx'. ercp_send_session_announce_event env tx a = Some (E_LI_SUCCESS, tx') \<and>
     session_receives junk (contents (t_out_s tx')) si =
       Some (E_LI_SUCCESS, [], (announced a si)\<lparr>si_sesexec_trans := Some rx'\<rparr>) \<and> trans_wf rx' \<and> framed rx'"
proof -
  let ?ps = "announce_params a"
  note args = announce_args_ok [OF assms(1)]
  have size: "length (wire_params ?ps) \<le> 8180" using assms(1) by (simp add: announce_ok_def)
  obtain tx' where tx': "simple_send env tx 0 ?ps = Some (E_LI_SUCCESS, tx')"
    "contents (t_out_s tx') = wire_header (int (12 + length (wire_params ?ps))) 3 0 @ wire_params ?ps"
    using simple_send_wire [OF assms(2,3) args(1), of 0] size args(2) by auto
  let ?data = "contents (t_out_s tx')"
  obtain rx1 rx2 rx3 p where rx: "in_s_append (take 12 ?data) rx = Some rx1"
    "libipm_msg_in_check_available rx1 = Some (E_LI_SUCCESS, False, rx2)"
    "in_s_append (drop 12 ?data) rx2 = Some rx3"
    "libipm_msg_in_check_available rx3 = Some (E_LI_SUCCESS, True, rx3)"
    and rx3: "trans_wf rx3" "unread (t_in_s rx3) = wire_params ?ps" "t_extra_data rx3 = Some p" "in_msgno p = 0" "pending_fds p = []"
    using arrival_ok [OF assms(5,6) tx'(2)] args(3) size by auto
  obtain rx4 q where rx4: "ercp_get_session_announce_event rx3 = Some (E_LI_SUCCESS, Some (a_guid a), Some a, rx4)"
    "trans_wf rx4" "t_extra_data rx4 = Some q" "pending_fds q = []"
    using get_announce [OF assms(1) rx3(1-3,5)] by blast
  obtain rx5 where rx5: "libipm_msg_in_reset junk rx4 = Some ([], rx5)" "trans_wf rx5" "framed rx5"
    using reset_total [OF rx4(2), of junk] rx4(3,4) by auto
  have msgno: "ercp_msg_in_get_msgno rx3 = 0"
    using rx3(3,4) by (simp add: ercp_msg_in_get_msgno_def libipm_msg_in_get_msgno_def)
  have "session_receives junk ?data si = Some (E_LI_SUCCESS, [], (announced a si)\<lparr>si_sesexec_trans := Some rx5\<rparr>)"
    using assms(4) rx rx4(1) rx5(1) msgno
    by (simp add: session_receives_def sesman_ercp_data_in_def ercp_process_def process_session_announce_event_def
        announced_def)
  with tx'(1) rx5 show ?thesis
    by (auto simp: ercp_send_session_announce_event_def)
qed


text \<open>
  C6. When sesexec announces its session, sesman's record of the session becomes exactly what was
  announced: the read of the header waits for the body, the read of the body is
  accepted and leaves no descriptor over, the session is running, numbers arrive unchanged, strings are cut to the room of
  their field, and the transport waits for the next message.
\<close>

theorem session_announce_end_to_end:
  assumes "announce_ok a" and "sender_ready LIBIPM_FAC_ERCP tx" and "force_write env = (\<lambda>tr. Some (True, tr))"
    and "si_sesexec_trans si = Some rx" and "receiver_ready LIBIPM_FAC_ERCP rx" and "trans_wf rx"
  shows "\<exists>tx' rx'. ercp_send_session_announce_event env tx a = Some (E_LI_SUCCESS, tx') \<and>
     session_receives junk (contents (t_out_s tx')) si =
       Some (E_LI_SUCCESS, [], (announced a si)\<lparr>si_sesexec_trans := Some rx'\<rparr>) \<and> trans_wf rx' \<and> framed rx'"
  using assms by (rule announce_event_ok)

definition ex_announce :: session_announce where
  "ex_announce = \<lparr>a_display = [0x58, 0x31, 0x31, 0x2d, 0x31, 0x30], a_uid = 1000, a_type = SCP_SESSION_TYPE_XORG,
     a_start_width = 1024, a_start_height = 768, a_bpp = 24, a_guid = replicate 16 7,
     a_start_ip_addr = [], a_start_time = 1700000000, a_instance_name = []\<rparr>"

definition ex_ercp_trans :: ipm_trans where
  "ex_ercp_trans = (up_trans (replicate 8192 0))\<lparr>t_extra_data := Some (new_priv\<lparr>facility := 3\<rparr>)\<rparr>"

lemma session_announce_end_to_end_witness:
  "\<exists>tx' rx'. ercp_send_session_announce_event (e_ipm ex_env) ex_ercp_trans ex_announce = Some (E_LI_SUCCESS, tx') \<and>
     session_receives (\<lambda>i. 0) (contents (t_out_s tx')) (new_session_item\<lparr>si_sesexec_trans := Some ex_ercp_trans\<rparr>) =
       Some (E_LI_SUCCESS, [], (announced ex_announce new_session_item)\<lparr>si_sesexec_trans := Some rx'\<rparr>)"
proof -
  have ann: "announce_ok ex_announce"
    by (simp add: announce_ok_def ex_announce_def announce_params_def)
  have tr: "sender_ready 3 ex_ercp_trans" "receiver_ready 3 ex_ercp_trans" "trans_wf ex_ercp_trans"
    using new_priv_wf [of 3]
    by (auto simp: sender_ready_def receiver_ready_def trans_wf_def in_wf_def out_wf_def ex_ercp_trans_def up_trans_def)
      (simp_all add: new_priv_def)
  show ?thesis
    using session_announce_end_to_end [OF ann tr(1) _ _ tr(2,3), of "e_ipm ex_env"
        "new_session_item\<lparr>si_sesexec_trans := Some ex_ercp_trans\<rparr>" "\<lambda>i. 0"]
    by (auto simp: ex_env_def announced_def)
qed

end
