(* ===== verification/Sesman_Pending.thy ===== *)
theory Sesman_Pending
  imports Sesman_Announce
begin

text \<open>
  A logout while a session is being created. The flag that a creation is under way belongs to the connection; the
  step relation below is everything a client can have done on the connection since, message after message.
\<close>

lemma logout_keeps_pending:
  assumes "logout_scp_list_item env sli w = Some (sli', w')" and "logged_in sli"
  shows "sl_sesexec_trans sli' = None \<and> \<not> logged_in sli' \<and>
     sl_create_session_in_progress sli' = sl_create_session_in_progress sli"
  using assms
  by (auto simp: logout_scp_list_item_def logged_in_def handler_simps split: option.split_asm)

lemma uds_auth_keeps_pending:
  "authenticate_and_authorize_uds_connection env sli uid u = (e, sli') \<Longrightarrow>
     sl_create_session_in_progress sli' = sl_create_session_in_progress sli"
  by (auto simp: authenticate_and_authorize_uds_connection_def Let_def split: prod.split_asm if_split_asm)

lemma logout_item_keeps_pending:
  "logout_scp_list_item env sli w = Some (sli', w') \<Longrightarrow> sl_create_session_in_progress sli' = sl_create_session_in_progress sli"
  by (auto simp: logout_scp_list_item_def handler_simps split: option.split_asm if_split_asm)

lemma send_infos_keeps_pending:
  "send_infos env infos sli w = Some (rv, sli', w') \<Longrightarrow> sl_create_session_in_progress sli' = sl_create_session_in_progress sli"
proof (induction infos arbitrary: sli w)
  case (Cons info infos)
  then show ?case by (fastforce simp: send_list_response_def handler_simps split: if_split_asm)
qed simp

lemma handover_keeps_pending:
  "sys_login_handover env u p ip sli w = Some (e, sli', w') \<Longrightarrow> sl_create_session_in_progress sli' = sl_create_session_in_progress sli"
  unfolding sys_login_handover_def Let_def
  by (auto simp: Option.bind_eq_Some_conv split: if_split_asm dest!: sesexec_start_frame)

text \<open>No handler but the one for creations changes the flag.\<close>

lemma keeps_pending:
  "process_set_peername_request sli w = Some (rv, sli', w') \<Longrightarrow> sl_create_session_in_progress sli' = sl_create_session_in_progress sli"
  "process_sys_login_request env sli w = Some (rv, sli', w') \<Longrightarrow> sl_create_session_in_progress sli' = sl_create_session_in_progress sli"
  "process_uds_login_request env sli w = Some (rv, sli', w') \<Longrightarrow> sl_create_session_in_progress sli' = sl_create_session_in_progress sli"
  "process_logout_request env sli w = Some (rv, sli', w') \<Longrightarrow> sl_create_session_in_progress sli' = sl_create_session_in_progress sli"
  "process_connect_session_request env sli w = Some (rv, sli', w') \<Longrightarrow> sl_create_session_in_progress sli' = sl_create_session_in_progress sli"
  "process_list_sessions_request env sli w = Some (rv, sli', w') \<Longrightarrow> sl_create_session_in_progress sli' = sl_create_session_in_progress sli"
  "process_create_sockdir_request env sli w = Some (rv, sli', w') \<Longrightarrow> sl_create_session_in_progress sli' = sl_create_session_in_progress sli"
  "process_close_connection_request env sli w = Some (rv, sli', w') \<Longrightarrow> sl_create_session_in_progress sli' = sl_create_session_in_progress sli"
  subgoal by (auto simp: process_set_peername_request_def scp_list_set_peername_def handler_simps split: if_split_asm option.split_asm)
  subgoal by (auto simp: process_sys_login_request_def send_login_response_def Option.bind_eq_Some_conv Let_def
        dest!: handover_keeps_pending split: option.split_asm)
  subgoal by (auto simp: process_uds_login_request_def send_login_response_def handler_simps
        dest!: uds_auth_keeps_pending split: if_split_asm option.split_asm prod.split_asm)
  subgoal by (auto simp: process_logout_request_def handler_simps dest!: logout_item_keeps_pending split: if_split_asm)
  subgoal by (auto simp: process_connect_session_request_def send_connect_response_def handler_simps
        dest!: logout_item_keeps_pending split: if_split_asm option.split_asm prod.split_asm)
  subgoal by (auto simp: process_list_sessions_request_def send_list_response_def handler_simps
        dest!: send_infos_keeps_pending split: if_split_asm)
  subgoal by (auto simp: process_create_sockdir_request_def handler_simps split: if_split_asm prod.split_asm)
  subgoal by (auto simp: process_close_connection_request_def handler_simps dest!: logout_item_keeps_pending split: if_split_asm)
  done

text \<open>A request to create that can be read is refused, and the connection stays as it is.\<close>

lemma create_refused_while_pending:
  assumes "scp_get_create_session_request tr = Some (rv, Some c, tr')" "sl_client_trans sli = Some tr" "sl_create_session_in_progress sli \<noteq> 0"
  shows "process_create_session_request env a sli w =
     send_create_response env (if logged_in sli then E_SCP_SCREATE_IN_PROGRESS else E_SCP_SCREATE_NOT_LOGGED_IN) [] guid_clear
       (sli\<lparr>sl_client_trans := Some tr'\<rparr>) w"
  using assms by (auto simp: process_create_session_request_def logged_in_def)

lemma create_keeps_pending:
  assumes "process_create_session_request env a sli w = Some (rv, sli', w')" "sl_create_session_in_progress sli \<noteq> 0"
  shows "sl_create_session_in_progress sli' \<noteq> 0"
  using assms by (auto simp: process_create_session_request_def send_create_response_def handler_simps split: if_split_asm option.split_asm)

lemma switch_keeps_pending:
  assumes "scp_switch env msgno a sli w = Some (rv, sli', w')" "sl_create_session_in_progress sli \<noteq> 0"
  shows "sl_create_session_in_progress sli' \<noteq> 0"
  using assms create_keeps_pending keeps_pending unfolding scp_switch_def by (metis option.inject prod.inject)

text \<open>
  What can become of a connection by the messages of its client, each of which is handled by the dispatcher, and by the
  answers of sesexec to its system logins, with whatever the two transports, the rest of sesman and the system have
  become in the meantime.
\<close>

inductive handled :: "scp_list_item \<Rightarrow> scp_list_item \<Rightarrow> bool" for sli :: scp_list_item where
  none: "handled sli sli"
| message: "handled sli sli1 \<Longrightarrow>
    scp_switch env msgno a (sli1\<lparr>sl_client_trans := Some tr, sl_sesexec_trans := map_option io (sl_sesexec_trans sli1)\<rparr>) w =
      Some (rv, sli2, w') \<Longrightarrow> handled sli sli2"
| login_answer: "handled sli sli1 \<Longrightarrow>
    process_sys_login_response env (sli1\<lparr>sl_sesexec_trans := map_option io (sl_sesexec_trans sli1)\<rparr>) w =
      Some (rv, sli2, w') \<Longrightarrow> handled sli sli2"

lemma login_answer_keeps_pending:
  "process_sys_login_response env sli w = Some (rv, sli', w') \<Longrightarrow> sl_create_session_in_progress sli' = sl_create_session_in_progress sli"
  by (auto simp: process_sys_login_response_def Let_def
      split: Option.bind_split_asm option.split_asm prod.split_asm if_split_asm)

lemma handled_keeps_pending:
  "handled sli sli' \<Longrightarrow> sl_create_session_in_progress sli \<noteq> 0 \<Longrightarrow> sl_create_session_in_progress sli' \<noteq> 0"
  by (induction rule: handled.induct) (auto dest!: switch_keeps_pending login_answer_keeps_pending)

text \<open>
  C10. A client that logs out while its session is being created gives up the sesexec that was asked for it, but the
  connection stays marked as creating a session: whatever messages its client sends after that, other logins included,
  and whatever sesexec answers to its system logins, the mark stays, and a request to create a session that can be
  read is answered with \<^verbatim>\<open>IN_PROGRESS\<close> to a client that is logged in (\<^verbatim>\<open>NOT_LOGGED_IN\<close> otherwise); nothing else is
  done for it. (What clears the mark is the answer of a sesexec to a creation, and no sesexec the connection can have
  from then on is asked for one.)
\<close>

theorem logout_leaves_creation_pending:
  assumes "env_ok env" "served sli" "sesman_ok w"
    and "logged_in sli" "sl_create_session_in_progress sli \<noteq> 0"
  shows "\<exists>sli1 w1. process_logout_request env sli w = Some (E_LI_SUCCESS, sli1, w1) \<and>
     sl_sesexec_trans sli1 = None \<and> \<not> logged_in sli1 \<and>
     (\<forall>sli2. handled sli1 sli2 \<longrightarrow> sl_create_session_in_progress sli2 \<noteq> 0 \<and>
        (\<forall>env2 a w2 tr rv c tr'. scp_get_create_session_request tr = Some (rv, Some c, tr') \<longrightarrow>
           process_create_session_request env2 a (sli2\<lparr>sl_client_trans := Some tr\<rparr>) w2 =
             send_create_response env2 (if logged_in sli2 then E_SCP_SCREATE_IN_PROGRESS else E_SCP_SCREATE_NOT_LOGGED_IN) [] guid_clear
               (sli2\<lparr>sl_client_trans := Some tr'\<rparr>) w2))"
proof -
  obtain sli1 w1 where out: "logout_scp_list_item env sli w = Some (sli1, w1)"
    using logout_sound [OF assms(1-3)] by blast
  note pending = logout_keeps_pending [OF out assms(4)]
  have "process_logout_request env sli w = Some (E_LI_SUCCESS, sli1, w1)"
    using out assms(4) by (simp add: process_logout_request_def logged_in_def)
  moreover have "sl_create_session_in_progress sli2 \<noteq> 0" if "handled sli1 sli2" for sli2
    using handled_keeps_pending [OF that] pending assms(5) by simp
  ultimately show ?thesis
    using pending create_refused_while_pending [of _ _ _ _ "_\<lparr>sl_client_trans := Some _\<rparr>"]
    by (intro exI [of _ sli1] exI [of _ w1]) (auto simp: logged_in_def)
qed

text \<open>User 1000 logs out during a creation, logs in again and asks for a session.\<close>

definition ex_create :: create_request where
  "ex_create = \<lparr>c_type = SCP_SESSION_TYPE_XORG, c_width = 1024, c_height = 768, c_bpp = 24, c_shell = [], c_directory = [],
     c_instance_name = []\<rparr>"

definition ex_asking :: ipm_trans where
  "ex_asking = (up_trans [])\<lparr>t_in_s := (buf (wire_params (create_params ex_create)) 0 (length (wire_params (create_params ex_create))))\<rparr>"

lemma ex_asking_read: "\<exists>tr' c. scp_get_create_session_request ex_asking = Some (E_LI_SUCCESS, Some c, tr')"
proof -
  have "trans_wf ex_asking" "t_extra_data ex_asking = Some (new_priv\<lparr>facility := 1\<rparr>)"
    "unread (t_in_s ex_asking) = wire_params (create_params ex_create)"
    using new_priv_wf [of 1]
    by (auto simp: trans_wf_def in_wf_def out_wf_def ex_asking_def up_trans_def unread_def ex_create_def create_params_def)
  moreover have "params_fds (create_params ex_create) = []" "\<forall>(c, a) \<in> set (create_params ex_create). arg_ok c a"
    by (auto simp: ex_create_def create_params_def param_fds_def)
  ultimately obtain tr' where "libipm_msg_in_parse ex_asking (Some (map fst (create_params ex_create)))
      (params_dests (create_params ex_create)) = Some (E_LI_SUCCESS, params_values (create_params ex_create), [], tr')"
    using parse_params [of ex_asking "new_priv\<lparr>facility := 1\<rparr>" "create_params ex_create"]
    by (auto simp: pending_fds_def new_priv_def)
  then show ?thesis
    by (auto simp: scp_get_create_session_request_def create_params_def ex_create_def out_value_defs)
qed

lemma ex_login:
  assumes "\<not> logged_in sli" "sl_sesexec_trans sli = None"
  shows "\<exists>sli2. handled sli sli2 \<and> logged_in sli2"
proof -
  obtain rv tr where send: "scp_send_login_response (e_ipm ex_env) ex_client E_SCP_LOGIN_OK 0 1000 = Some (rv, tr)"
    using scp_sends_total(1) [OF ex_client_wf(1) env_okD(1) [OF ex_env_ok]] by blast
  let ?sli = "sli\<lparr>sl_client_trans := Some ex_client, sl_sesexec_trans := map_option id (sl_sesexec_trans sli)\<rparr>"
  obtain sli2 w2 where "scp_switch ex_env E_SCP_UDS_LOGIN_REQUEST 5 ?sli (ex_sesman 10) = Some (rv, sli2, w2)" "logged_in sli2"
    using assms send
    by (auto simp: scp_switch_def process_uds_login_request_def authenticate_and_authorize_uds_connection_def
        send_login_response_def ex_env_def logged_in_def)
  then show ?thesis
    using handled.message [OF handled.none] by blast
qed

lemma logout_leaves_creation_pending_witness:
  "\<exists>sli1 w1 sli2 tr'. process_logout_request ex_env (ex_item 10) (ex_sesman 10) = Some (E_LI_SUCCESS, sli1, w1) \<and>
     handled sli1 sli2 \<and> logged_in sli2 \<and>
     process_create_session_request ex_env 5 (sli2\<lparr>sl_client_trans := Some ex_asking\<rparr>) w1 =
       send_create_response ex_env E_SCP_SCREATE_IN_PROGRESS [] guid_clear (sli2\<lparr>sl_client_trans := Some tr'\<rparr>) w1"
proof -
  have "served (ex_item 10)" "logged_in (ex_item 10)" "sl_create_session_in_progress (ex_item 10) \<noteq> 0"
    using ex_client_wf by (simp_all add: served_def item_ok_def ex_item_def new_scp_list_item_def logged_in_def)
  from logout_leaves_creation_pending [OF ex_env_ok this(1) ex_sesman_ok [of 10] this(2,3)]
  obtain sli1 w1 where out: "process_logout_request ex_env (ex_item 10) (ex_sesman 10) = Some (E_LI_SUCCESS, sli1, w1)"
    "sl_sesexec_trans sli1 = None" "\<not> logged_in sli1"
    and refused: "\<And>sli2 env2 a w2 tr rv c tr'. handled sli1 sli2 \<Longrightarrow> scp_get_create_session_request tr = Some (rv, Some c, tr') \<Longrightarrow>
        process_create_session_request env2 a (sli2\<lparr>sl_client_trans := Some tr\<rparr>) w2 =
          send_create_response env2 (if logged_in sli2 then E_SCP_SCREATE_IN_PROGRESS else E_SCP_SCREATE_NOT_LOGGED_IN) []
            guid_clear (sli2\<lparr>sl_client_trans := Some tr'\<rparr>) w2"
    by blast
  obtain sli2 where sli2: "handled sli1 sli2" "logged_in sli2"
    using ex_login out(2,3) by blast
  show ?thesis
    using ex_asking_read refused [OF sli2(1)] out(1) sli2 by fastforce
qed

end
