(* ===== verification/Planar.thy ===== *)
theory Planar
  imports Parse_Stream
begin

text \<open>
  \<^verbatim>\<open>libxrdp/xrdp_bitmap32_compress.c\<close>: the planar codec of RDP 6.0 for 32-bit bitmaps. A block of lines is
  split into planes of one colour component, each plane is turned into differences between lines and each line
  is packed into segments of literal bytes and runs. The work buffers are modelled as the lists of what has been
  written to them; reading the image or a plane outside is \<^term>\<open>None\<close>.
\<close>

abbreviation (input) FLAGS_RLE :: int where "FLAGS_RLE \<equiv> 0x10"
abbreviation (input) FLAGS_NOALPHA :: int where "FLAGS_NOALPHA \<equiv> 0x20"

type_synonym pixel = "32 word"

text \<open>A read of \<^verbatim>\<open>*ptr32\<close>, on a little-endian machine.\<close>

definition pixel_at :: "byte list \<Rightarrow> nat \<Rightarrow> pixel option" where
  "pixel_at in_data off = (if off + 4 \<le> length in_data then Some (word_of_int (le_val (take 4 (drop off in_data)))) else None)"

subsection \<open>Splitting into planes\<close>

text \<open>A shift to the right, to the left if negative.\<close>

definition shift_right :: "int \<Rightarrow> pixel \<Rightarrow> pixel" where
  "shift_right n p = (if n \<ge> 0 then drop_bit (nat n) p else push_bit (nat (- n)) p)"

text \<open>
  \<^verbatim>\<open>rp\<close>, \<^verbatim>\<open>gp\<close>, \<^verbatim>\<open>bp\<close> and \<^verbatim>\<open>ap\<close>: four pixels at a time, the component at bit \<^term>\<open>sh\<close> of each
  moved to its byte of one word.
\<close>

definition pack_four :: "nat \<Rightarrow> pixel \<Rightarrow> pixel \<Rightarrow> pixel \<Rightarrow> pixel \<Rightarrow> byte list" where
  "pack_four sh p0 p1 p2 p3 =
     le_bytes 4 (uint ((shift_right (int sh) p0 AND 0x000000ff) OR (shift_right (int sh - 8) p1 AND 0x0000ff00) OR
                       (shift_right (int sh - 16) p2 AND 0x00ff0000) OR (shift_right (int sh - 24) p3 AND 0xff000000)))"

definition pack_one :: "nat \<Rightarrow> pixel \<Rightarrow> byte list" where
  "pack_one sh p = [ucast (drop_bit sh p)]"

text \<open>One line, over the planes at the bits \<^term>\<open>shs\<close>: by fours, and then one by one.\<close>

function split_pixels :: "nat list \<Rightarrow> byte list \<Rightarrow> nat \<Rightarrow> nat \<Rightarrow> byte list list \<Rightarrow> byte list list option" where
  "split_pixels shs in_data ptr32 n planes =
     (if 4 \<le> n
      then do { p0 \<leftarrow> pixel_at in_data ptr32;
                p1 \<leftarrow> pixel_at in_data (ptr32 + 4);
                p2 \<leftarrow> pixel_at in_data (ptr32 + 8);
                p3 \<leftarrow> pixel_at in_data (ptr32 + 12);
                split_pixels shs in_data (ptr32 + 16) (n - 4) (map2 (\<lambda>sh plane. plane @ pack_four sh p0 p1 p2 p3) shs planes) }
      else if 0 < n
      then do { p \<leftarrow> pixel_at in_data ptr32;
                split_pixels shs in_data (ptr32 + 4) (n - 1) (map2 (\<lambda>sh plane. plane @ pack_one sh p) shs planes) }
      else Some planes)"
  by pat_completeness auto
termination by (relation "measure (\<lambda>(shs, d, p, n, planes). n)") auto

declare split_pixels.simps [simp del]

text \<open>The last pixel of the line is repeated to fill it up.\<close>

definition extend :: "nat \<Rightarrow> byte list \<Rightarrow> byte list option" where
  "extend e plane = (if e = 0 then Some plane else if plane = [] then None else Some (plane @ replicate e (last plane)))"

fun extend_all :: "nat \<Rightarrow> byte list list \<Rightarrow> byte list list option" where
  "extend_all e [] = Some []"
| "extend_all e (plane # planes) = do { plane \<leftarrow> extend e plane; planes \<leftarrow> extend_all e planes; Some (plane # planes) }"

text \<open>
  Line after line, upwards from \<^verbatim>\<open>start_line\<close>, until the next might not fit the buffers of 4096 bytes; the
  number given is \<^verbatim>\<open>start_line + 1\<close>. A first line that does not fit is \<^term>\<open>None\<close>.
\<close>

fun split_lines :: "nat list \<Rightarrow> byte list \<Rightarrow> nat \<Rightarrow> nat \<Rightarrow> nat \<Rightarrow> nat \<Rightarrow> byte list list \<Rightarrow> (nat \<times> byte list list) option" where
  "split_lines shs in_data 0 width e cy planes = Some (cy, planes)"
| "split_lines shs in_data (Suc start_line) width e cy planes =
     do { planes \<leftarrow> split_pixels shs in_data (start_line * width * 4) width planes;
          planes \<leftarrow> extend_all e planes;
          let cy = cy + 1;
          if cy * (width + e) > 4 * 1024 then None
          else if cy * (width + e) + width + e > 64 * 64 then Some (cy, planes)
          else split_lines shs in_data start_line width e cy planes }"

definition fsplit3 :: "byte list \<Rightarrow> int \<Rightarrow> nat \<Rightarrow> nat \<Rightarrow> (nat \<times> byte list list) option" where
  "fsplit3 in_data start_line width e = split_lines [16, 8, 0] in_data (nat (start_line + 1)) width e 0 [[], [], []]"

definition fsplit4 :: "byte list \<Rightarrow> int \<Rightarrow> nat \<Rightarrow> nat \<Rightarrow> (nat \<times> byte list list) option" where
  "fsplit4 in_data start_line width e = split_lines [24, 16, 8, 0] in_data (nat (start_line + 1)) width e 0 [[], [], [], []]"

subsection \<open>Differences between lines\<close>

definition delta_one :: "byte \<Rightarrow> byte \<Rightarrow> byte" where
  "delta_one up here =
     (let delta = here - up;
          is_neg = drop_bit 7 delta AND 1
      in push_bit 1 ((delta XOR (- is_neg)) + is_neg) - is_neg)"

definition fdelta :: "byte list \<Rightarrow> nat \<Rightarrow> nat \<Rightarrow> byte list option" where
  "fdelta in_plane cx cy =
     (if cx * cy \<le> length in_plane
      then Some (take cx in_plane @ map (\<lambda>i. delta_one (in_plane ! i) (in_plane ! (cx + i))) [0..<cx * cy - cx])
      else None)"

subsection \<open>Packing\<close>

text \<open>Literals while there are more than 13 of them; what is left over is returned.\<close>

function fout_literals :: "nat \<Rightarrow> byte list \<Rightarrow> stream \<Rightarrow> (nat \<times> byte list \<times> stream) option" where
  "fout_literals collen colptr s =
     (if collen > 13
      then do { let lcollen = (if collen > 15 then 15 else collen);
                s \<leftarrow> out_uint8 (push_bit 4 (int lcollen)) s;
                s \<leftarrow> out_uint8p colptr lcollen s;
                fout_literals (collen - lcollen) (drop lcollen colptr) s }
      else Some (collen, colptr, s))"
  by pat_completeness auto
termination by (relation "measure (\<lambda>(collen, colptr, s). collen)") (auto split: if_split_asm)

declare fout_literals.simps [simp del]

text \<open>The rest of the literals with the first run, and runs until nothing is left; the caller has something to write.\<close>

function fout_runs :: "nat \<Rightarrow> nat \<Rightarrow> byte list \<Rightarrow> stream \<Rightarrow> stream option" where
  "fout_runs collen replen colptr s =
     (if collen = 0 \<and> replen > 15
      then do { let lreplen = (if replen > 47 then 47 else replen);
                s \<leftarrow> out_uint8 (push_bit 4 (int lreplen AND 0xF) OR drop_bit 4 (int lreplen AND 0xF0)) s;
                if replen - lreplen > 0 then fout_runs 0 (replen - lreplen) (drop lreplen colptr) s else Some s }
      else do { let lreplen = (if replen > 15 then 15 else replen);
                let rest = replen - lreplen;
                let (collen, lreplen) = (if lreplen < 3 then (collen + lreplen, 0) else (collen, lreplen));
                s \<leftarrow> out_uint8 (push_bit 4 (int collen) OR int lreplen) s;
                s \<leftarrow> out_uint8p colptr collen s;
                if rest > 0 then fout_runs 0 rest (drop (collen + lreplen) colptr) s else Some s })"
  by pat_completeness auto
termination by (relation "measure (\<lambda>(collen, replen, colptr, s). replen)") (auto split: if_split_asm)

declare fout_runs.simps [simp del]

definition fout :: "nat \<Rightarrow> nat \<Rightarrow> byte list \<Rightarrow> stream \<Rightarrow> stream option" where
  "fout collen replen colptr s =
     do { (collen, colptr, s) \<leftarrow> fout_literals collen colptr s;
          if collen > 0 \<or> replen > 0 then fout_runs collen replen colptr s else Some s }"

text \<open>
  The scan of a line: \<^term>\<open>n\<close> bytes are left after the one at \<^verbatim>\<open>ptr8\<close>; \<^verbatim>\<open>colptr\<close> is where the
  segment starts that is being collected.
\<close>

fun pack_scan :: "byte list \<Rightarrow> nat \<Rightarrow> nat \<Rightarrow> nat \<Rightarrow> nat \<Rightarrow> nat \<Rightarrow> stream \<Rightarrow> stream option" where
  "pack_scan plane 0 ptr8 colptr collen replen s = fout collen replen (drop colptr plane) s"
| "pack_scan plane (Suc n) ptr8 colptr collen replen s =
     do { a \<leftarrow> list_get plane ptr8;
          b \<leftarrow> list_get plane (ptr8 + 1);
          if a = b then pack_scan plane n (ptr8 + 1) colptr collen (replen + 1) s
          else if replen > 0
          then if replen < 3 then pack_scan plane n (ptr8 + 1) colptr (collen + replen + 1) 0 s
               else do { s \<leftarrow> fout collen replen (drop colptr plane) s;
                         pack_scan plane n (ptr8 + 1) (ptr8 + 1) 1 0 s }
          else pack_scan plane n (ptr8 + 1) colptr (collen + 1) 0 s }"

definition pack_line :: "byte list \<Rightarrow> nat \<Rightarrow> nat \<Rightarrow> stream \<Rightarrow> stream option" where
  "pack_line plane start cx s =
     do { first \<leftarrow> list_get plane start;
          if first = 0 then pack_scan plane (cx - 1) start start 0 1 s else pack_scan plane (cx - 1) start start 1 0 s }"

fun pack_lines :: "byte list \<Rightarrow> nat \<Rightarrow> nat \<Rightarrow> nat \<Rightarrow> stream \<Rightarrow> stream option" where
  "pack_lines plane cx jndex 0 s = Some s"
| "pack_lines plane cx jndex (Suc n) s = do { s \<leftarrow> pack_line plane (jndex * cx) cx s; pack_lines plane cx (jndex + 1) n s }"

definition fpack :: "byte list \<Rightarrow> nat \<Rightarrow> nat \<Rightarrow> stream \<Rightarrow> (nat \<times> stream) option" where
  "fpack plane cx cy s = do { let holdp = s_p s; s \<leftarrow> pack_lines plane cx 0 cy s; Some (s_p s - holdp, s) }"

subsection \<open>The compressor\<close>

fun out_planes :: "nat \<Rightarrow> byte list list \<Rightarrow> stream \<Rightarrow> stream option" where
  "out_planes bytes [] s = Some s"
| "out_planes bytes (plane # planes) s = do { s \<leftarrow> out_uint8p plane bytes s; out_planes bytes planes s }"

text \<open>\<^verbatim>\<open>foutraw3\<close> and \<^verbatim>\<open>foutraw4\<close>.\<close>

definition foutraw :: "nat \<Rightarrow> int \<Rightarrow> byte list list \<Rightarrow> stream \<Rightarrow> stream option" where
  "foutraw bytes header planes s =
     do { s \<leftarrow> out_uint8 header s;
          s \<leftarrow> out_planes bytes planes s;
          out_uint8 0 s }"

fun fpack_all :: "byte list list \<Rightarrow> nat \<Rightarrow> nat \<Rightarrow> stream \<Rightarrow> (nat \<times> stream) option" where
  "fpack_all [] cx cy s = Some (0, s)"
| "fpack_all (plane # planes) cx cy s =
     do { (bytes, s) \<leftarrow> fpack plane cx cy s;
          (total_bytes, s) \<leftarrow> fpack_all planes cx cy s;
          Some (bytes + total_bytes, s) }"

fun fdelta_all :: "byte list list \<Rightarrow> nat \<Rightarrow> nat \<Rightarrow> byte list list option" where
  "fdelta_all [] cx cy = Some []"
| "fdelta_all (plane # planes) cx cy = do { d \<leftarrow> fdelta plane cx cy; ds \<leftarrow> fdelta_all planes cx cy; Some (d # ds) }"

text \<open>
  The attempts, with one line less each time. \<^term>\<open>raw_header\<close> is the header of an uncompressed block; the
  number of planes is the factor in \<^verbatim>\<open>max_bytes\<close>.
\<close>

fun rle_attempts :: "int \<Rightarrow> int \<Rightarrow> byte list list \<Rightarrow> byte list list \<Rightarrow> nat \<Rightarrow> int \<Rightarrow> nat \<Rightarrow> nat \<Rightarrow> stream \<Rightarrow> (nat \<times> stream) option" where
  "rle_attempts header raw_header raw planes cx byte_limit hold_p 0 s = Some (0, s)"
| "rle_attempts header raw_header raw planes cx byte_limit hold_p (Suc cy) s =
     do { let s = s\<lparr>s_p := hold_p\<rparr>;
          s \<leftarrow> out_uint8 header s;
          (total_bytes, s) \<leftarrow> fpack_all planes cx (Suc cy) s;
          let max_bytes = cx * Suc cy * length raw;
          if total_bytes > max_bytes \<and> 2 + int max_bytes \<le> byte_limit
          then do { s \<leftarrow> foutraw (cx * Suc cy) raw_header raw (s\<lparr>s_p := hold_p\<rparr>); Some (Suc cy, s) }
          else if 1 + int total_bytes \<le> byte_limit then Some (Suc cy, s)
          else rle_attempts header raw_header raw planes cx byte_limit hold_p cy s }"

fun raw_attempts :: "int \<Rightarrow> byte list list \<Rightarrow> nat \<Rightarrow> int \<Rightarrow> nat \<Rightarrow> nat \<Rightarrow> stream \<Rightarrow> (nat \<times> stream) option" where
  "raw_attempts raw_header raw cx byte_limit hold_p 0 s = Some (0, s)"
| "raw_attempts raw_header raw cx byte_limit hold_p (Suc cy) s =
     (let max_bytes = cx * Suc cy * length raw
      in if 2 + int max_bytes \<le> byte_limit
         then do { s \<leftarrow> foutraw (cx * Suc cy) raw_header raw (s\<lparr>s_p := hold_p\<rparr>); Some (Suc cy, s) }
         else raw_attempts raw_header raw cx byte_limit hold_p cy s)"

text \<open>The result is the number of lines compressed; of \<^verbatim>\<open>temp_s\<close> only the size is looked at.\<close>

definition xrdp_bitmap32_compress ::
  "byte list \<Rightarrow> nat \<Rightarrow> stream \<Rightarrow> int \<Rightarrow> int \<Rightarrow> nat \<Rightarrow> nat \<Rightarrow> int \<Rightarrow> (nat \<times> stream) option" where
  "xrdp_bitmap32_compress in_data width s byte_limit start_line temp_size e flags =
     (let max_bytes = 4 * 1024
      in if max_bytes * 8 > temp_size then Some (0, s)
         else do { let header = flags AND 0xFF;
                   let cx = width + e;
                   let hold_p = s_p s;
                   let noalpha = (header AND FLAGS_NOALPHA \<noteq> 0);
                   let raw_header = (if noalpha then FLAGS_NOALPHA else 0);
                   (cy, raw) \<leftarrow> (if noalpha then fsplit3 in_data start_line width e else fsplit4 in_data start_line width e);
                   if header AND FLAGS_RLE \<noteq> 0
                   then do { planes \<leftarrow> fdelta_all raw cx cy;
                             rle_attempts header raw_header raw planes cx byte_limit hold_p cy s }
                   else raw_attempts raw_header raw cx byte_limit hold_p cy s })"

end
