(* ===== verification/Planar_Props.thy ===== *)
theory Planar_Props
  imports Planar
begin

text \<open>
  The planar codec against a reference decoder: the optimised splitting gives the colour components, the
  differences can be added up again, what is packed is unpacked to the same line, and a whole compressed
  block decodes to the image. The room it takes is bounded line by line.
\<close>

subsection \<open>Splitting\<close>

lemma le_bytes_word: "le_bytes 4 (uint (w :: pixel)) = [ucast w, ucast (drop_bit 8 w), ucast (drop_bit 16 w), ucast (drop_bit 24 w)]"
proof -
  have d: "word_of_int (drop_bit n (uint w)) = (ucast (drop_bit n w) :: byte)" for n
    by (rule bit_word_eqI) (auto simp: bit_simps bit_uint_iff)
  show ?thesis using d [of 0] d [of 8] d [of 16] d [of 24] by (simp add: numeral_eq_Suc drop_bit_eq_div flip: zdiv_zmult2_eq)
qed

lemma pack_four_bytes:
  assumes "sh \<in> {0, 8, 16, 24}"
  shows "pack_four sh p0 p1 p2 p3 = map (\<lambda>p. ucast (drop_bit sh p)) [p0, p1, p2, p3]"
proof -
  let ?w = "(shift_right (int sh) p0 AND 0x000000ff) OR (shift_right (int sh - 8) p1 AND 0x0000ff00) OR
            (shift_right (int sh - 16) p2 AND 0x00ff0000) OR (shift_right (int sh - 24) p3 AND 0xff000000)"
  have m: "(0x000000ff :: pixel) = mask 8" "(0x0000ff00 :: pixel) = push_bit 8 (mask 8)" "(0x00ff0000 :: pixel) = push_bit 16 (mask 8)"
    "(0xff000000 :: pixel) = push_bit 24 (mask 8)"
    by (simp_all add: mask_eq_exp_minus_1 push_bit_eq_mult)
  have "(ucast ?w :: byte) = ucast (drop_bit sh p0)" "(ucast (drop_bit 8 ?w) :: byte) = ucast (drop_bit sh p1)"
    "(ucast (drop_bit 16 ?w) :: byte) = ucast (drop_bit sh p2)" "(ucast (drop_bit 24 ?w) :: byte) = ucast (drop_bit sh p3)"
    unfolding m using assms by (auto simp: shift_right_def bit_simps intro!: bit_word_eqI)
  then show ?thesis unfolding pack_four_def le_bytes_word by simp
qed

lemma pixel_bytes:
  assumes "off + 4 \<le> length d"
  shows "\<exists>p. pixel_at d off = Some p \<and> (\<forall>sh \<in> {0, 8, 16, 24}. ucast (drop_bit sh p) = d ! (off + sh div 8))"
proof -
  define bs where "bs = take 4 (drop off d)"
  have l: "length bs = 4" using assms by (simp add: bs_def)
  define p :: pixel where "p = word_of_int (le_val bs)"
  have "le_val bs < 2 ^ 32" "0 \<le> le_val bs" using le_val_less [of bs] le_val_nonneg [of bs] l by simp_all
  then have "uint p = le_val bs" by (simp add: p_def unsigned_of_int take_bit_eq_mod)
  then have "le_bytes 4 (uint p) = bs" using le_bytes_le_val [of bs] l by simp
  then have b: "[ucast p, ucast (drop_bit 8 p), ucast (drop_bit 16 p), ucast (drop_bit 24 p)] = bs" by (simp add: le_bytes_word)
  have n: "bs ! k = d ! (off + k)" if "k < 4" for k using that assms by (simp add: bs_def)
  have "ucast p = d ! off" "ucast (drop_bit 8 p) = d ! (off + 1)" "ucast (drop_bit 16 p) = d ! (off + 2)" "ucast (drop_bit 24 p) = d ! (off + 3)"
    using n [of 0] n [of 1] n [of 2] n [of 3] by (simp_all flip: b)
  then show ?thesis using assms by (auto simp: pixel_at_def p_def bs_def)
qed

lemma map2_map2: "map2 f xs (map2 g xs ys) = map2 (\<lambda>x y. f x (g x y)) xs ys"
  by (induction xs ys rule: list_induct2') auto

lemma map2_cong: "(\<And>x y. x \<in> set xs \<Longrightarrow> f x y = g x y) \<Longrightarrow> map2 f xs ys = map2 g xs ys"
  by (induction xs ys rule: list_induct2') auto

text \<open>The components of a line, as bytes of the image.\<close>

definition components :: "byte list \<Rightarrow> nat \<Rightarrow> nat \<Rightarrow> nat \<Rightarrow> byte list" where
  "components d ptr n sh = map (\<lambda>i. d ! (ptr + 4 * i + sh div 8)) [0..<n]"

lemma components_4: "components d ptr (4 + n) sh = map (\<lambda>i. d ! (ptr + i * 4 + sh div 8)) [0, 1, 2, 3] @ components d (ptr + 16) n sh"
proof -
  have "[0..<4 + n] = [0, 1, 2, 3] @ map (\<lambda>i. i + 4) [0..<n]" 
    using upt_add_eq_append [of 0 4 n] by (simp add: map_add_upt upt_conv_Cons add.commute)
  then show ?thesis by (simp add: components_def algebra_simps)
qed

lemma components_1: "components d ptr (Suc n) sh = d ! (ptr + sh div 8) # components d (ptr + 4) n sh"
proof -
  have "[0..<Suc n] = 0 # map Suc [0..<n]" by (metis map_Suc_upt upt_conv_Cons zero_less_Suc)
  then show ?thesis by (simp add: components_def algebra_simps)
qed

lemma split_pixels_ok:
  "set shs \<subseteq> {0, 8, 16, 24} \<Longrightarrow> length planes = length shs \<Longrightarrow> ptr + 4 * n \<le> length d \<Longrightarrow>
     split_pixels shs d ptr n planes = Some (map2 (\<lambda>sh plane. plane @ components d ptr n sh) shs planes)"
proof (induction n arbitrary: ptr planes rule: less_induct)
  case (less n)
  consider (four) m where "n = 4 + m" | (one) m where "n = Suc m" "n < 4" | (none) "n = 0"
    by (metis less_iff_Suc_add not_less0 not_less_eq le_add_diff_inverse not_less neq0_conv Suc_pred')
  then show ?case
  proof cases
    case four
    obtain p0 p1 p2 p3 where p: "pixel_at d ptr = Some p0" "pixel_at d (ptr + 4) = Some p1" "pixel_at d (ptr + 8) = Some p2" "pixel_at d (ptr + 12) = Some p3"
      "\<forall>sh \<in> {0, 8, 16, 24}. map (\<lambda>p. ucast (drop_bit sh p)) [p0, p1, p2, p3] = map (\<lambda>i. d ! (ptr + i * 4 + sh div 8)) [0, 1, 2, 3]"
      using pixel_bytes [of ptr d] pixel_bytes [of "ptr + 4" d] pixel_bytes [of "ptr + 8" d] pixel_bytes [of "ptr + 12" d] less.prems(3) four by auto
    let ?planes = "map2 (\<lambda>sh plane. plane @ pack_four sh p0 p1 p2 p3) shs planes"
    have "split_pixels shs d ptr n planes = split_pixels shs d (ptr + 16) m ?planes"
      using p four by (subst split_pixels.simps) simp
    also have "\<dots> = Some (map2 (\<lambda>sh plane. plane @ components d (ptr + 16) m sh) shs ?planes)"
      using less.prems four by (intro less.IH) auto
    also have "map2 (\<lambda>sh plane. plane @ components d (ptr + 16) m sh) shs ?planes = map2 (\<lambda>sh plane. plane @ components d ptr n sh) shs planes"
      unfolding map2_map2 using less.prems(1) p(5) four by (intro map2_cong) (auto simp: pack_four_bytes components_4)
    finally show ?thesis .
  next
    case one
    obtain p where p: "pixel_at d ptr = Some p" "\<forall>sh \<in> {0, 8, 16, 24}. ucast (drop_bit sh p) = d ! (ptr + sh div 8)"
      using pixel_bytes [of ptr d] less.prems(3) one by auto
    let ?planes = "map2 (\<lambda>sh plane. plane @ pack_one sh p) shs planes"
    have "split_pixels shs d ptr n planes = split_pixels shs d (ptr + 4) m ?planes"
      using p one by (subst split_pixels.simps) simp
    also have "\<dots> = Some (map2 (\<lambda>sh plane. plane @ components d (ptr + 4) m sh) shs ?planes)"
      using less.prems one by (intro less.IH) auto
    also have "map2 (\<lambda>sh plane. plane @ components d (ptr + 4) m sh) shs ?planes = map2 (\<lambda>sh plane. plane @ components d ptr n sh) shs planes"
      unfolding map2_map2 using less.prems(1) p(2) one(1) by (intro map2_cong) (auto simp: pack_one_def components_1)
    finally show ?thesis .
  next
    case none
    have "map2 (\<lambda>sh plane. plane) shs planes = planes" using less.prems(2) by (induction shs planes rule: list_induct2') auto
    then show ?thesis using none by (subst split_pixels.simps) (simp add: components_def)
  qed
qed

text \<open>What a block of lines should give: each line filled up with its last component.\<close>

definition line_components :: "byte list \<Rightarrow> nat \<Rightarrow> nat \<Rightarrow> nat \<Rightarrow> nat \<Rightarrow> byte list" where
  "line_components d width e line sh = (let c = components d (line * width * 4) width sh in c @ replicate e (last c))"

fun block_components :: "byte list \<Rightarrow> nat \<Rightarrow> nat \<Rightarrow> nat \<Rightarrow> nat \<Rightarrow> nat \<Rightarrow> byte list" where
  "block_components d width e (Suc line) (Suc cy) sh = line_components d width e line sh @ block_components d width e line cy sh"
| "block_components d width e line cy sh = []"

lemma extend_all_ok: "(\<forall>p \<in> set planes. p \<noteq> []) \<Longrightarrow> extend_all e planes = Some (map (\<lambda>p. p @ replicate e (last p)) planes)"
  by (induction planes) (auto simp: extend_def)

lemma length_components [simp]: "length (components d ptr n sh) = n"
  by (simp add: components_def)

lemma length_line [simp]: "length (line_components d width e line sh) = width + e"
  by (simp add: line_components_def Let_def)

lemma length_block: "cy \<le> line \<Longrightarrow> length (block_components d width e line cy sh) = cy * (width + e)"
  by (induction d width e line cy sh rule: block_components.induct) simp_all

lemma split_lines_ok:
  assumes shs: "set shs \<subseteq> {0, 8, 16, 24}" and w: "0 < width"
  shows "length planes = length shs \<Longrightarrow> lines * width * 4 \<le> length d \<Longrightarrow> lines = 0 \<or> (cy + 1) * (width + e) \<le> 4096 \<Longrightarrow>
     \<exists>m \<le> lines. split_lines shs d lines width e cy planes = Some (cy + m, map2 (\<lambda>sh plane. plane @ block_components d width e lines m sh) shs planes) \<and>
       (0 < lines \<longrightarrow> 0 < m) \<and> (0 < m \<longrightarrow> (cy + m) * (width + e) \<le> 4096)"
proof (induction lines arbitrary: cy planes)
  case 0
  have "map2 (\<lambda>sh plane. plane) shs planes = planes" using 0(1) by (induction shs planes rule: list_induct2') auto
  then show ?case by simp
next
  case (Suc line)
  let ?c = "\<lambda>sh plane. plane @ components d (line * width * 4) width sh"
  let ?l = "\<lambda>sh plane. plane @ line_components d width e line sh"
  have s: "split_pixels shs d (line * width * 4) width planes = Some (map2 ?c shs planes)"
    using Suc.prems by (intro split_pixels_ok shs) (simp_all add: algebra_simps)
  have ne: "components d ptr width sh \<noteq> []" for ptr sh using w by (simp add: components_def)
  have "extend_all e (map2 ?c shs planes) = Some (map (\<lambda>p. p @ replicate e (last p)) (map2 ?c shs planes))"
    by (rule extend_all_ok) (auto simp: ne)
  also have "map (\<lambda>p. p @ replicate e (last p)) (map2 ?c shs planes) = map2 ?l shs planes"
    by (simp add: line_components_def Let_def ne comp_def case_prod_unfold)
  finally have x: "extend_all e (map2 ?c shs planes) = Some (map2 ?l shs planes)" .
  have fits: "\<not> (cy + 1) * (width + e) > 4 * 1024" using Suc.prems(3) by simp
  show ?case
  proof (cases "(cy + 1) * (width + e) + width + e > 64 * 64")
    case True
    have "block_components d width e line 0 sh = []" for sh by (cases line) simp_all
    then have "split_lines shs d (Suc line) width e cy planes = Some (cy + 1, map2 (\<lambda>sh plane. plane @ block_components d width e (Suc line) 1 sh) shs planes)"
      using s x fits True by (simp add: Let_def)
    then show ?thesis using fits by (intro exI [of _ 1]) simp
  next
    case False
    let ?p = "map2 ?l shs planes"
    have r: "split_lines shs d (Suc line) width e cy planes = split_lines shs d line width e (cy + 1) ?p"
      using s x fits False by (simp add: Let_def)
    obtain m where m: "m \<le> line" "split_lines shs d line width e (cy + 1) ?p = Some (cy + 1 + m, map2 (\<lambda>sh plane. plane @ block_components d width e line m sh) shs ?p)"
      "0 < line \<longrightarrow> 0 < m" "0 < m \<longrightarrow> (cy + 1 + m) * (width + e) \<le> 4096"
      using Suc.IH [of ?p "cy + 1"] Suc.prems False by (auto simp: algebra_simps)
    have "map2 (\<lambda>sh plane. plane @ block_components d width e line m sh) shs ?p = map2 (\<lambda>sh plane. plane @ block_components d width e (Suc line) (Suc m) sh) shs planes"
      unfolding map2_map2 by simp
    then have "split_lines shs d (Suc line) width e cy planes =
        Some (cy + Suc m, map2 (\<lambda>sh plane. plane @ block_components d width e (Suc line) (Suc m) sh) shs planes)"
      using r m(2) by (simp only: add_Suc_right add_Suc add_0_right One_nat_def)
    moreover have "(cy + Suc m) * (width + e) \<le> 4096" using m(4) fits by (cases "m = 0") (simp_all del: mult_Suc)
    ultimately show ?thesis using m(1) by (intro exI [of _ "Suc m"] conjI) simp_all
  qed
qed

subsection \<open>Differences\<close>

text \<open>The decoder's side: the lowest bit is the sign.\<close>

definition undelta_one :: "byte \<Rightarrow> byte \<Rightarrow> byte" where
  "undelta_one up v = up + (if bit v 0 then - (drop_bit 1 v) - 1 else drop_bit 1 v)"

fun undelta_from :: "nat \<Rightarrow> byte list \<Rightarrow> byte list \<Rightarrow> byte list" where
  "undelta_from cx acc [] = acc"
| "undelta_from cx acc (v # vs) = undelta_from cx (acc @ [undelta_one (acc ! (length acc - cx)) v]) vs"

definition undelta :: "nat \<Rightarrow> byte list \<Rightarrow> byte list" where
  "undelta cx vs = undelta_from cx (take cx vs) (drop cx vs)"

lemma bytes_upto: "(b :: byte) \<in> set (map word_of_nat [0..<256])"
proof -
  have "unat b < 2 ^ LENGTH(8)" by (rule unsigned_less)
  then show ?thesis by (auto intro!: image_eqI [of _ _ "unat b"])
qed

lemma undelta_all: "\<forall>v \<in> set (map word_of_nat [0..<256] :: byte list). undelta_one 0 (delta_one 0 v) = v"
  by code_simp

lemma undelta_one_delta: "undelta_one up (delta_one up here) = here"
proof -
  have "undelta_one up (delta_one up here) = up + undelta_one 0 (delta_one 0 (here - up))"
    by (simp add: undelta_one_def delta_one_def Let_def)
  then show ?thesis using bspec [OF undelta_all bytes_upto [of "here - up"]] by simp
qed

lemma undelta_from_prefix:
  "0 < cx \<Longrightarrow> cx \<le> k \<Longrightarrow> k + n \<le> length p \<Longrightarrow>
     undelta_from cx (take k p) (map (\<lambda>i. delta_one (p ! (i - cx)) (p ! i)) [k..<k + n]) = take (k + n) p"
proof (induction n arbitrary: k)
  case (Suc n)
  have u: "[k..<k + Suc n] = k # [Suc k..<Suc k + n]" by (simp add: upt_conv_Cons)
  have "take k p @ [p ! k] = take (Suc k) p" using Suc.prems by (simp add: take_Suc_conv_app_nth)
  moreover have "take k p ! (length (take k p) - cx) = p ! (k - cx)" using Suc.prems by (simp add: min_def)
  ultimately have "take k p @ [undelta_one (take k p ! (length (take k p) - cx)) (delta_one (p ! (k - cx)) (p ! k))] = take (Suc k) p"
    by (simp add: undelta_one_delta)
  then show ?case using Suc.IH [of "Suc k"] Suc.prems unfolding u by simp
qed simp

lemma fdelta_ok:
  assumes "cx * cy \<le> length p" "0 < cx"
  shows "\<exists>q. fdelta p cx cy = Some q \<and> (0 < cy \<longrightarrow> length q = cx * cy) \<and> (\<forall>m \<le> cy. 0 < m \<longrightarrow> undelta cx (take (cx * m) q) = take (cx * m) p)"
proof -
  let ?d = "\<lambda>n. map (\<lambda>i. delta_one (p ! (i - cx)) (p ! i)) [cx..<cx + n]"
  define n where "n = cx * cy - cx"
  have "map (\<lambda>i. delta_one (p ! i) (p ! (cx + i))) [0..<n] = map (\<lambda>i. delta_one (p ! (i - cx)) (p ! i)) (map (\<lambda>i. i + cx) [0..<n])"
    by (simp add: add.commute)
  also have "\<dots> = ?d n" unfolding map_add_upt by (simp add: add.commute)
  finally have q: "fdelta p cx cy = Some (take cx p @ ?d n)" using assms(1) by (simp add: fdelta_def n_def)
  have l: "length (take cx p) = cx \<and> cx + n = cx * cy" if "0 < cy" using that assms(1) by (cases cy) (simp_all add: n_def)
  have "undelta cx (take (cx * m) (take cx p @ ?d n)) = take (cx * m) p" if m: "m \<le> cy" "0 < m" for m
  proof -
    define k where "k = cx * m - cx"
    have "cx \<le> cx * m" "cx * m \<le> cx * cy" using m by simp_all
    then have k: "cx * m = cx + k" "k \<le> n" unfolding k_def n_def by linarith+
    have c: "length (take cx p) = cx" "cx + n = cx * cy" using l m by auto
    have "take k (?d n) = ?d k" using k(2) by (simp add: take_map take_upt)
    then have "take (cx * m) (take cx p @ ?d n) = take cx p @ ?d k" using c(1) k(1) by simp
    then have "undelta cx (take (cx * m) (take cx p @ ?d n)) = undelta_from cx (take cx p) (?d k)" using c(1) by (simp add: undelta_def)
    also have "\<dots> = take (cx + k) p" using assms c(2) k(2) by (intro undelta_from_prefix) simp_all
    finally show ?thesis using k(1) by simp
  qed
  then show ?thesis using q l by (intro exI [of _ "take cx p @ ?d n"]) simp
qed

subsection \<open>Packing\<close>

text \<open>
  The decoder of a line: a segment is a byte with the number of literals and the length of the run that
  repeats the last of them; the run lengths 1 and 2 announce a run alone, of 16 or 32 and more.
\<close>

definition segment_lengths :: "byte \<Rightarrow> nat \<times> nat" where
  "segment_lengths c =
     (let raw = unat c div 16; run = unat c mod 16
      in if run = 1 then (0, raw + 16) else if run = 2 then (0, raw + 32) else (raw, run))"

function unpack_line :: "nat \<Rightarrow> byte \<Rightarrow> byte list \<Rightarrow> (byte list \<times> byte list) option" where
  "unpack_line n last_value bs =
     (if n = 0 then Some ([], bs)
      else case bs of
             [] \<Rightarrow> None
           | c # bs \<Rightarrow>
               let (raw, run) = segment_lengths c
               in if raw + run > n \<or> raw > length bs then None
                  else let literals = take raw bs; last_value = last (last_value # literals)
                       in map_option (\<lambda>(line, rest). (literals @ replicate run last_value @ line, rest))
                            (unpack_line (n - raw - run) last_value (drop raw bs)))"
  by pat_completeness auto
termination by (relation "measure (\<lambda>(n, v, bs). length bs)") auto

declare unpack_line.simps [simp del]

text \<open>Bytes that stand for a part of a line, whatever follows.\<close>

definition emits :: "byte \<Rightarrow> byte list \<Rightarrow> byte list \<Rightarrow> bool" where
  "emits v bs part \<longleftrightarrow> (\<forall>n rest. length part \<le> n \<longrightarrow>
     unpack_line n v (bs @ rest) = map_option (\<lambda>(line, rest). (part @ line, rest)) (unpack_line (n - length part) (last (v # part)) rest))"

lemma emits_Nil: "emits v [] []"
proof -
  have "map_option (\<lambda>(line, rest). (line, rest)) x = x" for x :: "(byte list \<times> byte list) option" by (cases x) auto
  then show ?thesis by (simp add: emits_def)
qed

lemma last_append_Cons: "last (v # p @ q) = last (last (v # p) # q)"
  by (cases q) (simp_all add: last_append)

lemma emits_append: "emits v bs p \<Longrightarrow> emits (last (v # p)) cs q \<Longrightarrow> emits v (bs @ cs) (p @ q)"
  by (auto simp: emits_def last_append_Cons option.map_comp comp_def case_prod_unfold simp del: last.simps)

lemma emits_segment:
  assumes "segment_lengths c = (length literals, run)" "0 < length literals + run"
  shows "emits v (c # literals) (literals @ replicate run (last (v # literals)))"
proof -
  have l: "last (v # literals @ replicate run (last (v # literals))) = last (v # literals)" by (cases run) (simp_all add: last_append)
  have "unpack_line n v ((c # literals) @ rest) =
      map_option (\<lambda>(line, rest). ((literals @ replicate run (last (v # literals))) @ line, rest))
        (unpack_line (n - length (literals @ replicate run (last (v # literals)))) (last (v # literals @ replicate run (last (v # literals)))) rest)"
    if "length (literals @ replicate run (last (v # literals))) \<le> n" for n rest
    unfolding l using that assms by (subst unpack_line.simps) (auto simp: Let_def)
  then show ?thesis by (simp add: emits_def)
qed

lemma code_lengths:
  "\<forall>c \<in> set [0..<16]. \<forall>l \<in> set [0..<16]. l \<noteq> 1 \<longrightarrow> l \<noteq> 2 \<longrightarrow> map segment_lengths (le_bytes 1 (push_bit 4 (int c) OR int l)) = [(c, l)]"
  by code_simp

lemma run_lengths:
  "\<forall>l \<in> set [16..<48]. map segment_lengths (le_bytes 1 (push_bit 4 (int l AND 0xF) OR drop_bit 4 (int l AND 0xF0))) = [(0, l)]"
  by code_simp

lemma map_single: "map f xs = [y] \<Longrightarrow> \<exists>x. xs = [x] \<and> f x = y"
  by (cases xs) auto

lemma segment_code:
  assumes "c < 16" "l < 16" "l \<noteq> 1" "l \<noteq> 2"
  shows "\<exists>b. le_bytes 1 (push_bit 4 (int c) OR int l) = [b] \<and> segment_lengths b = (c, l)"
proof -
  have "c \<in> set [0..<16]" "l \<in> set [0..<16]" using assms by (simp_all only: set_upt atLeastLessThan_iff le0 simp_thms)
  then show ?thesis using bspec [OF bspec [OF code_lengths]] assms(3,4) by (intro map_single) blast
qed

lemma run_code:
  assumes "16 \<le> l" "l < 48"
  shows "\<exists>b. le_bytes 1 (push_bit 4 (int l AND 0xF) OR drop_bit 4 (int l AND 0xF0)) = [b] \<and> segment_lengths b = (0, l)"
proof -
  have "l \<in> set [16..<48]" using assms by (simp only: set_upt atLeastLessThan_iff simp_thms)
  then show ?thesis using bspec [OF run_lengths] by (intro map_single) blast
qed

lemma out_bytes_Nil: "s_p s \<le> s_size s \<Longrightarrow> out_bytes [] s = Some s"
  by (simp add: out_bytes_def)

lemma out_bytes_pos: "out_bytes bs s = Some s' \<Longrightarrow> s_p s' \<le> s_size s'"
  by (auto simp: out_bytes_def split: if_split_asm)

lemma out_literals:
  assumes "le_bytes 1 v = [b]" "n \<le> length p"
  shows "do { s \<leftarrow> out_uint8 v s; s \<leftarrow> out_uint8p p n s; f s } = do { s \<leftarrow> out_bytes (b # take n p) s; f s }"
  using assms out_bytes_append [of "[b]" "take n p" s] by (simp add: out_uint8_def out_uint8p_def Option.bind_assoc del: le_bytes.simps)

lemma take_split: "take (a + b) p = take a p @ take b (drop a p)"
  by (simp add: take_add)

lemma fout_literals_ok:
  "c \<le> length ptr \<Longrightarrow> \<exists>k bs. k \<le> c \<and> c - k \<le> 13 \<and>
     (\<forall>s. s_p s \<le> s_size s \<longrightarrow> fout_literals c ptr s = do { s \<leftarrow> out_bytes bs s; Some (c - k, drop k ptr, s) }) \<and>
     emits v bs (take k ptr) \<and> 15 * length bs \<le> 16 * k + 1"
proof (induction c arbitrary: v ptr rule: less_induct)
  case (less c)
  show ?case
  proof (cases "c > 13")
    case False
    then show ?thesis
      by (intro exI [of _ 0] exI [of _ "[]"]) (subst fout_literals.simps, simp add: out_bytes_Nil emits_Nil)
  next
    case True
    define l where "l = (if c > 15 then 15 else c)"
    have l: "14 \<le> l" "l \<le> 15" "l \<le> c" "c - l < c" using True by (auto simp: l_def)
    obtain b where b: "le_bytes 1 (push_bit 4 (int l)) = [b]" "segment_lengths b = (l, 0)"
      using segment_code [of l 0] l by auto
    have "c - l \<le> length (drop l ptr)" using less.prems by simp
    from less.IH [OF l(4) this, of "last (v # take l ptr)"]
    obtain k bs where k: "k \<le> c - l" "c - l - k \<le> 13"
      "\<forall>s. s_p s \<le> s_size s \<longrightarrow> fout_literals (c - l) (drop l ptr) s = do { s \<leftarrow> out_bytes bs s; Some (c - l - k, drop k (drop l ptr), s) }"
      "emits (last (v # take l ptr)) bs (take k (drop l ptr))" "15 * length bs \<le> 16 * k + 1" by blast
    have "emits v (b # take l ptr) (take l ptr)" using emits_segment [of b "take l ptr" 0 v] b(2) l less.prems by (simp add: min_def)
    then have e: "emits v ((b # take l ptr) @ bs) (take (l + k) ptr)" unfolding take_split using k(4) by (rule emits_append)
    have "fout_literals c ptr s = do { s \<leftarrow> out_bytes ((b # take l ptr) @ bs) s; Some (c - (l + k), drop (l + k) ptr, s) }" if "s_p s \<le> s_size s" for s
    proof -
      have "fout_literals c ptr s = do { s \<leftarrow> out_uint8 (push_bit 4 (int l)) s; s \<leftarrow> out_uint8p ptr l s; fout_literals (c - l) (drop l ptr) s }"
        using True by (subst fout_literals.simps) (simp add: l_def Let_def)
      also have "\<dots> = do { s \<leftarrow> out_bytes (b # take l ptr) s; fout_literals (c - l) (drop l ptr) s }"
        using l less.prems by (intro out_literals b) simp
      also have "\<dots> = do { s \<leftarrow> out_bytes ((b # take l ptr) @ bs) s; Some (c - (l + k), drop (l + k) ptr, s) }"
        unfolding out_bytes_append using k(3) out_bytes_pos [of "b # take l ptr" s]
        by (cases "out_bytes (b # take l ptr) s") (simp_all add: add.commute)
      finally show ?thesis .
    qed
    moreover have "15 * length ((b # take l ptr) @ bs) \<le> 16 * (l + k) + 1"
    proof (cases "l = 15")
      case True
      then show ?thesis using k(5) less.prems l by (simp add: min_def)
    next
      case False
      then have "l = 14" "c = 14" using l by (auto simp: l_def split: if_split_asm)
      then have k0: "k = 0" using k(1) by simp
      then have "bs = []" using k(5) by (cases bs) auto
      then show ?thesis using \<open>l = 14\<close> k0 by simp
    qed
    ultimately show ?thesis using e k(1,2) l by (intro exI [of _ "l + k"] exI [of _ "(b # take l ptr) @ bs"]) simp
  qed
qed

text \<open>A run repeats the byte before it, or the decoder's last value.\<close>

definition run_of :: "byte \<Rightarrow> nat \<Rightarrow> nat \<Rightarrow> byte list \<Rightarrow> bool" where
  "run_of v c r ptr \<longleftrightarrow> c + r \<le> length ptr \<and> take (c + r) ptr = take c ptr @ replicate r (last (v # take c ptr))"

lemma run_drop: "run_of v 0 r ptr \<Longrightarrow> l \<le> r \<Longrightarrow> take l ptr = replicate l v \<and> run_of v 0 (r - l) (drop l ptr)"
proof -
  assume r: "run_of v 0 r ptr" and l: "l \<le> r"
  have t: "take r ptr = replicate r v" using r by (simp add: run_of_def)
  have "take l ptr = take l (take r ptr)" using l by (simp add: min_def)
  moreover have "take (r - l) (drop l ptr) = drop l (take r ptr)" by (simp add: drop_take)
  ultimately show ?thesis using r l by (auto simp: t run_of_def)
qed

lemma last_replicate_Cons: "last (v # replicate l v) = v"
  by (induction l) simp_all

lemma fout_runs_ok:
  "c \<le> 13 \<Longrightarrow> 0 < c + r \<Longrightarrow> run_of v c r ptr \<Longrightarrow>
     \<exists>bs. (\<forall>s. fout_runs c r ptr s = out_bytes bs s) \<and> emits v bs (take (c + r) ptr) \<and>
       15 * length bs + 1 \<le> 16 * (c + r) + 15 \<and> (3 \<le> r \<longrightarrow> 15 * length bs + 1 \<le> 16 * (c + r))"
proof (induction r arbitrary: c v ptr rule: less_induct)
  case (less r)
  show ?case
  proof (cases "c = 0 \<and> r > 15")
    case True
    define l where "l = (if r > 47 then 47 else r)"
    have l: "16 \<le> l" "l < 48" "l \<le> r" "r - l < r" using True by (auto simp: l_def)
    obtain b where b: "le_bytes 1 (push_bit 4 (int l AND 0xF) OR drop_bit 4 (int l AND 0xF0)) = [b]" "segment_lengths b = (0, l)"
      using run_code [OF l(1,2)] by blast
    have p: "take l ptr = replicate l v" "run_of v 0 (r - l) (drop l ptr)" using run_drop less.prems(3) True l by blast+
    have e: "emits v [b] (take l ptr)" using emits_segment [of b "[]" l v] b(2) l p(1) by simp
    have u: "fout_runs c r ptr s = do { s \<leftarrow> out_bytes [b] s; if r - l > 0 then fout_runs 0 (r - l) (drop l ptr) s else Some s }" for s
      using True b(1) by (subst fout_runs.simps) (simp add: l_def Let_def out_uint8_def del: le_bytes.simps)
    show ?thesis
    proof (cases "r - l = 0")
      case z: True
      then show ?thesis using u e l True by (intro exI [of _ "[b]"]) auto
    next
      case False
      then obtain bs where i: "\<forall>s. fout_runs 0 (r - l) (drop l ptr) s = out_bytes bs s" "emits v bs (take (r - l) (drop l ptr))"
        "15 * length bs + 1 \<le> 16 * (r - l) + 15"
        using less.IH [OF l(4) _ _ p(2)] by auto
      have "emits v ([b] @ bs) (take l ptr @ take (r - l) (drop l ptr))"
        using emits_append [OF e] i(2) by (simp add: p(1) last_replicate_Cons del: last.simps)
      then have "emits v ([b] @ bs) (take (c + r) ptr)" using True l by (simp flip: take_split)
      moreover have "fout_runs c r ptr s = out_bytes ([b] @ bs) s" for s
        unfolding u out_bytes_append using False i(1) by (simp add: out_bytes_append [abs_def] fun_eq_iff)
      moreover have "15 * length ([b] @ bs) + 1 \<le> 16 * (c + r)" using i(3) l by simp
      ultimately show ?thesis by (intro exI [of _ "[b] @ bs"]) simp
    qed
  next
    case False
    define l where "l = (if r > 15 then 15 else r)"
    define c' where "c' = (if l < 3 then c + l else c)"
    define l' where "l' = (if l < 3 then 0 else l)"
    have l: "l \<le> r" "l \<le> 15" "c' < 16" "l' < 16" "l' \<noteq> 1" "l' \<noteq> 2" "c' + l' = c + l" "c + l \<le> length ptr" "0 < c' + l'"
      using less.prems False by (auto simp: l_def c'_def l'_def run_of_def split: if_split_asm)
    obtain b where b: "le_bytes 1 (push_bit 4 (int c') OR int l') = [b]" "segment_lengths b = (c', l')"
      using segment_code [OF l(3-6)] by blast
    have t: "take (c + l) ptr = take c ptr @ replicate l (last (v # take c ptr))"
    proof -
      have "take (c + l) ptr = take (c + l) (take (c + r) ptr)" using l(1) by (simp add: min_def)
      also have "\<dots> = take c ptr @ replicate l (last (v # take c ptr))" using less.prems(3) l(1) by (simp add: run_of_def)
      finally show ?thesis .
    qed
    have e: "emits v (b # take c' ptr) (take (c + l) ptr)"
    proof (cases "l < 3")
      case True
      then show ?thesis using emits_segment [of b "take c' ptr" 0 v] b(2) l by (simp add: c'_def l'_def min_def)
    next
      case False
      then show ?thesis using emits_segment [of b "take c' ptr" l' v] b(2) l t by (simp add: c'_def l'_def min_def)
    qed
    have u: "fout_runs c r ptr s = do { s \<leftarrow> out_bytes (b # take c' ptr) s; if r - l > 0 then fout_runs 0 (r - l) (drop (c + l) ptr) s else Some s }" for s
    proof -
      have "fout_runs c r ptr s = do { s \<leftarrow> out_uint8 (push_bit 4 (int c') OR int l') s; s \<leftarrow> out_uint8p ptr c' s;
          if r - l > 0 then fout_runs 0 (r - l) (drop (c + l) ptr) s else Some s }"
        using False l(7) by (subst fout_runs.simps) (auto simp: l_def c'_def l'_def Let_def)
      also have "\<dots> = do { s \<leftarrow> out_bytes (b # take c' ptr) s; if r - l > 0 then fout_runs 0 (r - l) (drop (c + l) ptr) s else Some s }"
        using l by (intro out_literals [OF b(1)]) simp
      finally show ?thesis .
    qed
    have size: "length (b # take c' ptr) = 1 + c'" using l by simp
    show ?thesis
    proof (cases "r - l = 0")
      case True
      then have "l = r" using l by simp
      then show ?thesis using u e size l True unfolding c'_def l'_def
        by (intro exI [of _ "b # take c' ptr"]) (auto simp: c'_def split: if_split_asm)
    next
      case more: False
      then have fifteen: "l = 15" by (simp add: l_def split: if_split_asm)
      have rr: "run_of (last (v # take (c + l) ptr)) 0 (r - l) (drop (c + l) ptr)"
      proof -
        have "take (c + l) ptr @ take (r - l) (drop (c + l) ptr) = take (c + r) ptr" using l(1) by (simp flip: take_split)
        also have "\<dots> = take (c + l) ptr @ replicate (r - l) (last (v # take c ptr))"
          using less.prems(3) l(1) unfolding t by (simp add: run_of_def flip: replicate_add)
        finally have "take (r - l) (drop (c + l) ptr) = replicate (r - l) (last (v # take c ptr))" by simp
        moreover have "last (v # take (c + l) ptr) = last (v # take c ptr)" unfolding t by (simp add: last_append_Cons last_replicate_Cons del: last.simps)
        moreover have "c + r \<le> length ptr" using less.prems(3) by (simp add: run_of_def)
        ultimately show ?thesis using l(1) by (simp add: run_of_def last_ConsL)
      qed
      have "r - l < r" using l fifteen more by simp
      from less.IH [OF this _ _ rr] more
      obtain bs where i: "\<forall>s. fout_runs 0 (r - l) (drop (c + l) ptr) s = out_bytes bs s"
        "emits (last (v # take (c + l) ptr)) bs (take (r - l) (drop (c + l) ptr))" "15 * length bs + 1 \<le> 16 * (r - l) + 15" by auto
      have "emits v ((b # take c' ptr) @ bs) (take (c + r) ptr)"
        using emits_append [OF e i(2)] l(1) by (simp flip: take_split)
      moreover have "fout_runs c r ptr s = out_bytes ((b # take c' ptr) @ bs) s" for s
        unfolding u out_bytes_append using more i(1) by (simp add: fun_eq_iff)
      moreover have "15 * length ((b # take c' ptr) @ bs) + 1 \<le> 16 * (c + r)"
        using i(3) size l fifteen less.prems(1) by (simp add: c'_def)
      ultimately show ?thesis by (intro exI [of _ "(b # take c' ptr) @ bs"]) simp
    qed
  qed
qed

lemma fout_ok:
  assumes "0 < c + r" "run_of v c r ptr"
  shows "\<exists>bs. (\<forall>s. s_p s \<le> s_size s \<longrightarrow> fout c r ptr s = out_bytes bs s) \<and> emits v bs (take (c + r) ptr) \<and>
     15 * length bs \<le> 16 * (c + r) + 15 \<and> (3 \<le> r \<longrightarrow> 15 * length bs \<le> 16 * (c + r))"
proof -
  have l: "c + r \<le> length ptr" using assms(2) by (simp add: run_of_def)
  then have "c \<le> length ptr" by simp
  from fout_literals_ok [OF this, of v]
  obtain k bs where k: "k \<le> c" "c - k \<le> 13"
    "\<forall>s. s_p s \<le> s_size s \<longrightarrow> fout_literals c ptr s = do { s \<leftarrow> out_bytes bs s; Some (c - k, drop k ptr, s) }"
    "emits v bs (take k ptr)" "15 * length bs \<le> 16 * k + 1" by blast
  show ?thesis
  proof (cases "c - k = 0 \<and> r = 0")
    case True
    then have "fout c r ptr s = out_bytes bs s" if "s_p s \<le> s_size s" for s
      using k(3) that by (cases "out_bytes bs s") (simp_all add: fout_def)
    then show ?thesis using True k by (intro exI [of _ bs]) simp
  next
    case False
    have t: "take (c + r) ptr = take k ptr @ take (c - k + r) (drop k ptr)" using k(1) by (simp flip: take_split)
    have tc: "take c ptr = take k ptr @ take (c - k) (drop k ptr)" using k(1) by (simp flip: take_split)
    have "take (c - k + r) (drop k ptr) = take (c - k) (drop k ptr) @ replicate r (last (v # take c ptr))"
      using assms(2) unfolding run_of_def t tc by simp
    then have rn: "run_of (last (v # take k ptr)) (c - k) r (drop k ptr)"
      using l k(1) unfolding run_of_def tc by (simp add: last_append_Cons del: last.simps)
    have pos: "0 < c - k + r" using False by linarith
    obtain cs where cs: "\<forall>s. fout_runs (c - k) r (drop k ptr) s = out_bytes cs s" "emits (last (v # take k ptr)) cs (take (c - k + r) (drop k ptr))"
      "15 * length cs + 1 \<le> 16 * (c - k + r) + 15" "3 \<le> r \<longrightarrow> 15 * length cs + 1 \<le> 16 * (c - k + r)"
      using fout_runs_ok [OF k(2) pos rn] by blast
    have "fout c r ptr s = out_bytes (bs @ cs) s" if "s_p s \<le> s_size s" for s
      using k(3) that pos cs(1) unfolding out_bytes_append by (cases "out_bytes bs s") (auto simp: fout_def)
    moreover have "emits v (bs @ cs) (take (c + r) ptr)" unfolding t using k(4) cs(2) by (rule emits_append)
    ultimately show ?thesis using k(1,5) cs(3,4) by (intro exI [of _ "bs @ cs"]) auto
  qed
qed

lemma run_grow:
  assumes "run_of v c r ptr" "0 < c + r" "c + r < length ptr" "ptr ! (c + r) = ptr ! (c + r - 1)"
  shows "run_of v c (r + 1) ptr"
proof -
  let ?w = "last (v # take c ptr)"
  have t: "take (c + r) ptr = take c ptr @ replicate r ?w" using assms(1) by (simp add: run_of_def)
  have l: "length (take (c + r) ptr) = c + r" using assms(3) by simp
  then have "take (c + r) ptr \<noteq> []" using assms(2) by (metis less_irrefl list.size(3))
  then have "last (take (c + r) ptr) = ptr ! (c + r - 1)" using l assms(2) by (simp add: last_conv_nth)
  then have "ptr ! (c + r - 1) = last (take (c + r) ptr)" by simp
  also have "\<dots> = ?w" unfolding t using assms(2,3) by (cases "r = 0") (auto simp: last_append)
  finally have "ptr ! (c + r) = ?w" using assms(4) by simp
  then have "take (c + (r + 1)) ptr = take c ptr @ replicate (r + 1) ?w"
    using t assms(3) by (simp add: take_Suc_conv_app_nth replicate_append_same)
  then show ?thesis using assms(3) by (simp add: run_of_def)
qed

lemma run_none: "c \<le> length ptr \<Longrightarrow> run_of v c 0 ptr"
  by (simp add: run_of_def)

lemma pack_scan_ok:
  "ptr8 + 1 = colptr + collen + replen \<Longrightarrow> ptr8 + n < length plane \<Longrightarrow> 0 < collen + replen \<Longrightarrow> run_of v collen replen (drop colptr plane) \<Longrightarrow>
     \<exists>bs. (\<forall>s. s_p s \<le> s_size s \<longrightarrow> pack_scan plane n ptr8 colptr collen replen s = out_bytes bs s) \<and>
       emits v bs (take (collen + replen + n) (drop colptr plane)) \<and> 15 * length bs \<le> 16 * (collen + replen + n) + 15"
proof (induction n arbitrary: v ptr8 colptr collen replen)
  case 0
  then show ?case using fout_ok [OF 0(3,4)] by auto
next
  case (Suc n)
  obtain a b where ab: "list_get plane ptr8 = Some a" "list_get plane (ptr8 + 1) = Some b" "a = plane ! ptr8" "b = plane ! (ptr8 + 1)"
    using Suc.prems(2) list_get_Some [of ptr8 plane] list_get_Some [of "ptr8 + 1" plane] by auto
  have ix: "drop colptr plane ! (collen + replen) = b" "drop colptr plane ! (collen + replen - 1) = a" "collen + replen < length (drop colptr plane)"
  proof -
    have i: "colptr + (collen + replen) = ptr8 + 1" "colptr + (collen + replen - 1) = ptr8" using Suc.prems(1,3) by linarith+
    show "drop colptr plane ! (collen + replen) = b" "drop colptr plane ! (collen + replen - 1) = a" "collen + replen < length (drop colptr plane)"
      using Suc.prems(1,2) by (simp_all add: i ab(3,4) del: One_nat_def)
  qed
  have len: "collen + replen + Suc n = collen + replen + 1 + n" by simp
  consider (same) "a = b" | (short) "a \<noteq> b" "replen < 3" | (run) "a \<noteq> b" "3 \<le> replen" by linarith
  then show ?case
  proof cases
    case same
    have "run_of v collen (replen + 1) (drop colptr plane)" using run_grow [OF Suc.prems(4,3) ix(3)] ix(1,2) same by simp
    from Suc.IH [OF _ _ _ this, of "ptr8 + 1"] show ?thesis using Suc.prems(1,2) ab same by (simp add: algebra_simps)
  next
    case short
    have "run_of v (collen + replen + 1) 0 (drop colptr plane)" using ix(3) by (intro run_none) simp
    from Suc.IH [OF _ _ _ this, of "ptr8 + 1"] show ?thesis
      using Suc.prems(1,2) ab(1,2) short by (cases "replen = 0") (simp_all add: algebra_simps)
  next
    case run
    from fout_ok [OF Suc.prems(3,4)] run
    obtain bs where bs: "\<forall>s. s_p s \<le> s_size s \<longrightarrow> fout collen replen (drop colptr plane) s = out_bytes bs s"
      "emits v bs (take (collen + replen) (drop colptr plane))" "15 * length bs \<le> 16 * (collen + replen)" by auto
    let ?v = "last (v # take (collen + replen) (drop colptr plane))"
    have c: "ptr8 + 1 = colptr + (collen + replen)" using Suc.prems(1) by simp
    have "run_of ?v 1 0 (drop (ptr8 + 1) plane)" using Suc.prems(2) by (intro run_none) simp
    from Suc.IH [OF _ _ _ this] Suc.prems(2)
    obtain cs where cs: "\<forall>s. s_p s \<le> s_size s \<longrightarrow> pack_scan plane n (ptr8 + 1) (ptr8 + 1) 1 0 s = out_bytes cs s"
      "emits ?v cs (take (1 + n) (drop (ptr8 + 1) plane))" "15 * length cs \<le> 16 * (1 + n) + 15" by auto
    have "pack_scan plane (Suc n) ptr8 colptr collen replen s = out_bytes (bs @ cs) s" if "s_p s \<le> s_size s" for s
      using that ab(1,2) run bs(1) cs(1) out_bytes_pos [of bs s] unfolding out_bytes_append by (cases "out_bytes bs s") simp_all
    moreover have "emits v (bs @ cs) (take (collen + replen + Suc n) (drop colptr plane))"
    proof -
      have "take (collen + replen + (1 + n)) (drop colptr plane) =
          take (collen + replen) (drop colptr plane) @ take (1 + n) (drop (ptr8 + 1) plane)"
        unfolding take_split [of "collen + replen"] c drop_drop by (simp add: add.commute)
      then show ?thesis using emits_append [OF bs(2) cs(2)] by simp
    qed
    ultimately show ?thesis using bs(3) cs(3) by (intro exI [of _ "bs @ cs"]) simp
  qed
qed

lemma pack_line_ok:
  assumes "0 < cx" "start + cx \<le> length plane"
  shows "\<exists>bs. (\<forall>s. s_p s \<le> s_size s \<longrightarrow> pack_line plane start cx s = out_bytes bs s) \<and> emits 0 bs (take cx (drop start plane)) \<and>
     15 * length bs \<le> 16 * cx + 15"
proof -
  have f: "list_get plane start = Some (plane ! start)" using assms by (intro list_get_Some) simp
  have n: "cx = 1 + (cx - 1)" using assms by simp
  show ?thesis
  proof (cases "plane ! start = 0")
    case True
    have "take 1 (drop start plane) = [0]" using assms True by (simp add: take_Suc_conv_app_nth)
    then have "run_of 0 0 1 (drop start plane)" using assms by (simp add: run_of_def)
    from pack_scan_ok [OF _ _ _ this, of start "cx - 1"] show ?thesis using assms f True by (simp add: pack_line_def)
  next
    case False
    have "run_of 0 1 0 (drop start plane)" using assms by (intro run_none) simp
    from pack_scan_ok [OF _ _ _ this, of start "cx - 1"] show ?thesis using assms f False by (simp add: pack_line_def)
  qed
qed

subsection \<open>Planes\<close>

fun unpack_lines :: "nat \<Rightarrow> nat \<Rightarrow> byte list \<Rightarrow> (byte list \<times> byte list) option" where
  "unpack_lines cx 0 bs = Some ([], bs)"
| "unpack_lines cx (Suc cy) bs = do { (line, bs) \<leftarrow> unpack_line cx 0 bs; (plane, bs) \<leftarrow> unpack_lines cx cy bs; Some (line @ plane, bs) }"

fun unpack_planes :: "nat \<Rightarrow> nat \<Rightarrow> nat \<Rightarrow> byte list \<Rightarrow> (byte list list \<times> byte list) option" where
  "unpack_planes 0 cx cy bs = Some ([], bs)"
| "unpack_planes (Suc n) cx cy bs =
     do { (plane, bs) \<leftarrow> unpack_lines cx cy bs; (planes, bs) \<leftarrow> unpack_planes n cx cy bs; Some (undelta cx plane # planes, bs) }"

fun raw_planes :: "nat \<Rightarrow> nat \<Rightarrow> byte list \<Rightarrow> byte list list" where
  "raw_planes 0 k bs = []"
| "raw_planes (Suc n) k bs = take k bs # raw_planes n k (drop k bs)"

text \<open>The reference decoder of a block of \<^term>\<open>cy\<close> lines; nothing may be left over.\<close>

definition unplanar :: "nat \<Rightarrow> nat \<Rightarrow> byte list \<Rightarrow> byte list list option" where
  "unplanar cx cy bs =
     (case bs of
        [] \<Rightarrow> None
      | header # bs \<Rightarrow>
          let n = (if uint header AND FLAGS_NOALPHA \<noteq> 0 then 3 else 4)
          in if uint header AND FLAGS_RLE \<noteq> 0
             then do { (planes, rest) \<leftarrow> unpack_planes n cx cy bs; if rest = [] then Some planes else None }
             else if length bs = n * (cx * cy) + 1 then Some (raw_planes n (cx * cy) bs) else None)"

lemma emits_line: "emits 0 bs line \<Longrightarrow> unpack_line (length line) 0 (bs @ rest) = Some (line, rest)"
  unfolding emits_def by (subst (asm) (2) unpack_line.simps) simp

lemma pack_lines_ok:
  "0 < cx \<Longrightarrow> (j + n) * cx \<le> length plane \<Longrightarrow>
     \<exists>bs. (\<forall>s. s_p s \<le> s_size s \<longrightarrow> pack_lines plane cx j n s = out_bytes bs s) \<and>
       (\<forall>rest. unpack_lines cx n (bs @ rest) = Some (take (n * cx) (drop (j * cx) plane), rest)) \<and> 15 * length bs \<le> n * (16 * cx + 15)"
proof (induction n arbitrary: j)
  case 0
  then show ?case by (intro exI [of _ "[]"]) (simp add: out_bytes_Nil)
next
  case (Suc n)
  have "j * cx + cx \<le> length plane" using Suc.prems(2) by (simp add: algebra_simps)
  from pack_line_ok [OF Suc.prems(1) this]
  obtain bs where bs: "\<forall>s. s_p s \<le> s_size s \<longrightarrow> pack_line plane (j * cx) cx s = out_bytes bs s" "emits 0 bs (take cx (drop (j * cx) plane))"
    "15 * length bs \<le> 16 * cx + 15" by blast
  have "(j + 1 + n) * cx \<le> length plane" using Suc.prems(2) by simp
  from Suc.IH [OF Suc.prems(1) this]
  obtain cs where cs: "\<forall>s. s_p s \<le> s_size s \<longrightarrow> pack_lines plane cx (j + 1) n s = out_bytes cs s"
    "\<forall>rest. unpack_lines cx n (cs @ rest) = Some (take (n * cx) (drop ((j + 1) * cx) plane), rest)" "15 * length cs \<le> n * (16 * cx + 15)" by blast
  have "pack_lines plane cx j (Suc n) s = out_bytes (bs @ cs) s" if "s_p s \<le> s_size s" for s
    using that bs(1) cs(1) out_bytes_pos [of bs s] unfolding out_bytes_append by (cases "out_bytes bs s") simp_all
  moreover have "unpack_lines cx (Suc n) ((bs @ cs) @ rest) = Some (take (Suc n * cx) (drop (j * cx) plane), rest)" for rest
  proof -
    have "length (take cx (drop (j * cx) plane)) = cx" using \<open>j * cx + cx \<le> length plane\<close> by simp
    then have "unpack_line cx 0 (bs @ cs @ rest) = Some (take cx (drop (j * cx) plane), cs @ rest)" using emits_line [OF bs(2), of "cs @ rest"] by simp
    moreover have "take (Suc n * cx) (drop (j * cx) plane) = take cx (drop (j * cx) plane) @ take (n * cx) (drop ((j + 1) * cx) plane)"
      by (simp add: take_add add.commute)
    ultimately show ?thesis using cs(2) by simp
  qed
  ultimately show ?case using bs(3) cs(3) by (intro exI [of _ "bs @ cs"]) (simp add: algebra_simps)
qed

lemma fpack_ok:
  assumes "0 < cx" "cx * cy \<le> length plane"
  shows "\<exists>bs. (\<forall>s. s_p s \<le> s_size s \<longrightarrow> fpack plane cx cy s = do { s \<leftarrow> out_bytes bs s; Some (length bs, s) }) \<and>
     (\<forall>rest. unpack_lines cx cy (bs @ rest) = Some (take (cx * cy) plane, rest)) \<and> 15 * length bs \<le> cy * (16 * cx + 15)"
proof -
  have "(0 + cy) * cx \<le> length plane" using assms(2) by (simp add: mult.commute)
  from pack_lines_ok [OF assms(1) this]
  obtain bs where bs: "\<forall>s. s_p s \<le> s_size s \<longrightarrow> pack_lines plane cx 0 cy s = out_bytes bs s"
    "\<forall>rest. unpack_lines cx cy (bs @ rest) = Some (take (cy * cx) (drop (0 * cx) plane), rest)" "15 * length bs \<le> cy * (16 * cx + 15)" by blast
  have "fpack plane cx cy s = do { s \<leftarrow> out_bytes bs s; Some (length bs, s) }" if "s_p s \<le> s_size s" for s
    using bs(1) that by (auto simp: fpack_def Let_def out_bytes_def)
  then show ?thesis using bs by (intro exI [of _ bs]) (simp add: mult.commute)
qed

lemma fpack_all_ok:
  "0 < cx \<Longrightarrow> \<forall>plane \<in> set planes. cx * cy \<le> length plane \<Longrightarrow>
     \<exists>bs. (\<forall>s. s_p s \<le> s_size s \<longrightarrow> fpack_all planes cx cy s = do { s \<leftarrow> out_bytes bs s; Some (length bs, s) }) \<and>
       (\<forall>rest. unpack_planes (length planes) cx cy (bs @ rest) = Some (map (\<lambda>plane. undelta cx (take (cx * cy) plane)) planes, rest)) \<and>
       15 * length bs \<le> length planes * (cy * (16 * cx + 15))"
proof (induction planes)
  case Nil
  then show ?case by (intro exI [of _ "[]"]) (simp add: out_bytes_Nil)
next
  case (Cons plane planes)
  obtain bs where bs: "\<forall>s. s_p s \<le> s_size s \<longrightarrow> fpack plane cx cy s = do { s \<leftarrow> out_bytes bs s; Some (length bs, s) }"
    "\<forall>rest. unpack_lines cx cy (bs @ rest) = Some (take (cx * cy) plane, rest)" "15 * length bs \<le> cy * (16 * cx + 15)"
    using fpack_ok [OF Cons.prems(1), of cy plane] Cons.prems(2) by auto
  obtain cs where cs: "\<forall>s. s_p s \<le> s_size s \<longrightarrow> fpack_all planes cx cy s = do { s \<leftarrow> out_bytes cs s; Some (length cs, s) }"
    "\<forall>rest. unpack_planes (length planes) cx cy (cs @ rest) = Some (map (\<lambda>plane. undelta cx (take (cx * cy) plane)) planes, rest)"
    "15 * length cs \<le> length planes * (cy * (16 * cx + 15))"
    using Cons.IH Cons.prems by auto
  have "fpack_all (plane # planes) cx cy s = do { s \<leftarrow> out_bytes (bs @ cs) s; Some (length (bs @ cs), s) }" if "s_p s \<le> s_size s" for s
    using that bs(1) cs(1) out_bytes_pos [of bs s] unfolding out_bytes_append by (cases "out_bytes bs s") (auto simp: bind_eq_None_conv split: Option.bind_splits)
  then show ?case using bs cs by (intro exI [of _ "bs @ cs"]) simp
qed

lemma out_planes_ok:
  "\<forall>plane \<in> set planes. k \<le> length plane \<Longrightarrow> s_p s \<le> s_size s \<Longrightarrow> out_planes k planes s = out_bytes (concat (map (take k) planes)) s"
proof (induction planes arbitrary: s)
  case (Cons plane planes)
  then show ?case
    unfolding list.map concat.simps out_bytes_append using out_bytes_pos [of "take k plane" s]
    by (cases "out_bytes (take k plane) s") (auto simp: out_uint8p_def)
qed (simp add: out_bytes_Nil)

lemma raw_planes_ok: "\<forall>plane \<in> set planes. k \<le> length plane \<Longrightarrow> raw_planes (length planes) k (concat (map (take k) planes) @ rest) = map (take k) planes"
  by (induction planes) auto

lemma length_raw: "\<forall>plane \<in> set planes. k \<le> length plane \<Longrightarrow> length (concat (map (take k) planes)) = length planes * k"
  by (induction planes) auto

lemma foutraw_ok:
  assumes "\<forall>plane \<in> set planes. k \<le> length plane" "s_p s \<le> s_size s"
  shows "foutraw k h planes s = out_bytes (word_of_int h # concat (map (take k) planes) @ [0]) s"
proof -
  have "out_bytes ([word_of_int h] @ concat (map (take k) planes) @ [0]) s =
      do { s \<leftarrow> out_bytes [word_of_int h] s; s \<leftarrow> out_planes k planes s; out_bytes [0] s }"
    unfolding out_bytes_append [of "[word_of_int h]"] out_bytes_append [of "concat (map (take k) planes)"]
    using out_planes_ok [OF assms(1)] out_bytes_pos [of "[word_of_int h]" s] by (cases "out_bytes [word_of_int h] s") simp_all
  then show ?thesis by (simp add: foutraw_def out_uint8_def)
qed

subsection \<open>A block\<close>

lemma fdelta_all_ok:
  "0 < cx \<Longrightarrow> \<forall>plane \<in> set planes. cx * cy \<le> length plane \<Longrightarrow>
     \<exists>ds. fdelta_all planes cx cy = Some ds \<and> length ds = length planes \<and> (0 < cy \<longrightarrow> (\<forall>d \<in> set ds. length d = cx * cy)) \<and>
       (\<forall>m \<le> cy. 0 < m \<longrightarrow> map (\<lambda>d. undelta cx (take (cx * m) d)) ds = map (take (cx * m)) planes)"
proof (induction planes)
  case (Cons plane planes)
  obtain d where d: "fdelta plane cx cy = Some d" "0 < cy \<longrightarrow> length d = cx * cy" "\<forall>m \<le> cy. 0 < m \<longrightarrow> undelta cx (take (cx * m) d) = take (cx * m) plane"
    using fdelta_ok [of cx cy plane] Cons.prems by auto
  obtain ds where "fdelta_all planes cx cy = Some ds" "length ds = length planes" "0 < cy \<longrightarrow> (\<forall>d \<in> set ds. length d = cx * cy)"
    "\<forall>m \<le> cy. 0 < m \<longrightarrow> map (\<lambda>d. undelta cx (take (cx * m) d)) ds = map (take (cx * m)) planes"
    using Cons.IH Cons.prems by auto
  then show ?case using d by (intro exI [of _ "d # ds"]) simp
qed simp

text \<open>What an attempt leaves behind the position \<^term>\<open>p\<close>.\<close>

definition encoded :: "nat \<Rightarrow> byte list list \<Rightarrow> int \<Rightarrow> byte list \<Rightarrow> nat \<Rightarrow> stream \<Rightarrow> bool" where
  "encoded cx raw byte_limit before n s \<longleftrightarrow>
     (\<exists>bs. written s = before @ bs \<and> int (length bs) \<le> byte_limit \<and> unplanar cx n bs = Some (map (take (cx * n)) raw))"

lemma out_bytes_at:
  assumes "take p (s_data s) = before" "p + length bs \<le> s_size s"
  shows "\<exists>s'. out_bytes bs (s\<lparr>s_p := p\<rparr>) = Some s' \<and> written s' = before @ bs \<and> take p (s_data s') = before \<and> s_size s' = s_size s"
  using assms by (cases bs) (auto simp: out_bytes_def written_def min_def)

lemma raw_encoded:
  assumes "\<forall>plane \<in> set raw. cx * n \<le> length plane" "length raw = (if h AND FLAGS_NOALPHA \<noteq> 0 then 3 else 4)" "h \<in> {0, 32}"
    and "take p (s_data s) = before" "p + 2 + cx * n * length raw \<le> s_size s" "2 + int (cx * n * length raw) \<le> byte_limit"
  shows "\<exists>s'. foutraw (cx * n) h raw (s\<lparr>s_p := p\<rparr>) = Some s' \<and> encoded cx raw byte_limit before n s'"
proof -
  let ?bs = "word_of_int h # concat (map (take (cx * n)) raw) @ [0]"
  have l: "length ?bs = 2 + cx * n * length raw" using length_raw [OF assms(1)] by (simp add: mult.commute)
  obtain s' where s': "out_bytes ?bs (s\<lparr>s_p := p\<rparr>) = Some s'" "written s' = before @ ?bs" using out_bytes_at [OF assms(4), of ?bs] assms(5) l by auto
  have "uint (word_of_int h :: byte) = h" using assms(3) by auto
  then have "unplanar cx n ?bs = Some (map (take (cx * n)) raw)"
    using assms(2,3) raw_planes_ok [OF assms(1), of "[0]"] length_raw [OF assms(1)] by (auto simp: unplanar_def Let_def)
  then show ?thesis using s' l assms(6) foutraw_ok [OF assms(1), of "s\<lparr>s_p := p\<rparr>" h] assms(5) by (auto simp: encoded_def)
qed

lemma rle_attempts_ok:
  assumes cx: "0 < cx" and h: "0 \<le> h" "h < 256" "h AND FLAGS_RLE \<noteq> 0" "length raw = (if h AND FLAGS_NOALPHA \<noteq> 0 then 3 else 4)"
    "rh = (if h AND FLAGS_NOALPHA \<noteq> 0 then FLAGS_NOALPHA else 0)"
    and planes: "length planes = length raw" "\<forall>d \<in> set planes. cx * cy \<le> length d" "\<forall>plane \<in> set raw. cx * cy \<le> length plane"
    and undo: "\<forall>m \<le> cy. 0 < m \<longrightarrow> map (\<lambda>d. undelta cx (take (cx * m) d)) planes = map (take (cx * m)) raw"
  shows "k \<le> cy \<Longrightarrow> take p (s_data s) = before \<Longrightarrow> p + 1 \<le> s_size s \<Longrightarrow> length raw * (k * (16 * cx + 15)) \<le> 15 * (s_size s - p - 1) \<Longrightarrow>
     \<exists>n s'. rle_attempts h rh raw planes cx byte_limit p k s = Some (n, s') \<and> n \<le> k \<and> (0 < n \<longrightarrow> encoded cx raw byte_limit before n s') \<and>
       (0 < k \<and> 2 + int (cx * length raw) \<le> byte_limit \<longrightarrow> 0 < n)"
proof (induction k arbitrary: s)
  case 0
  then show ?case by simp
next
  case (Suc k)
  let ?n = "Suc k"
  have len: "\<forall>d \<in> set planes. cx * ?n \<le> length d" "\<forall>d \<in> set raw. cx * ?n \<le> length d"
  proof -
    have "cx * ?n \<le> cx * cy" using Suc.prems(1) by (rule mult_le_mono2)
    then show "\<forall>d \<in> set planes. cx * ?n \<le> length d" "\<forall>d \<in> set raw. cx * ?n \<le> length d" using planes(2,3) le_trans by blast+
  qed
  obtain bs where bs: "\<forall>s. s_p s \<le> s_size s \<longrightarrow> fpack_all planes cx ?n s = do { s \<leftarrow> out_bytes bs s; Some (length bs, s) }"
    "\<forall>rest. unpack_planes (length planes) cx ?n (bs @ rest) = Some (map (\<lambda>plane. undelta cx (take (cx * ?n) plane)) planes, rest)"
    "15 * length bs \<le> length planes * (?n * (16 * cx + 15))"
    using fpack_all_ok [OF cx len(1)] by blast
  let ?bs = "word_of_int h # bs"
  have "15 * length bs \<le> 15 * (s_size s - p - 1)" using bs(3) planes(1) Suc.prems(4) by (simp only: le_trans)
  then have "p + length ?bs \<le> s_size s" using Suc.prems(3) by simp
  from out_bytes_at [OF Suc.prems(2) this]
  obtain s1 where s1: "out_bytes ?bs (s\<lparr>s_p := p\<rparr>) = Some s1" "written s1 = before @ ?bs" "take p (s_data s1) = before" "s_size s1 = s_size s" by blast
  have "uint (word_of_int h :: byte) = h" using h(1,2) by (simp add: unsigned_of_int take_bit_eq_mod)
  then have dec: "unplanar cx ?n ?bs = Some (map (take (cx * ?n)) raw)"
    using h(3,4) bs(2) [rule_format, of "[]"] undo [rule_format, OF Suc.prems(1)] planes(1) by (simp add: unplanar_def Let_def split: if_split_asm)
  have "do { s \<leftarrow> out_uint8 h (s\<lparr>s_p := p\<rparr>); fpack_all planes cx ?n s } = do { s \<leftarrow> out_bytes ([word_of_int h] @ bs) (s\<lparr>s_p := p\<rparr>); Some (length bs, s) }"
    unfolding out_bytes_append using bs(1) out_bytes_pos [of "[word_of_int h]" "s\<lparr>s_p := p\<rparr>"]
    by (cases "out_bytes [word_of_int h] (s\<lparr>s_p := p\<rparr>)") (simp_all add: out_uint8_def)
  then have first: "do { s \<leftarrow> out_uint8 h (s\<lparr>s_p := p\<rparr>); fpack_all planes cx ?n s } = Some (length bs, s1)" using s1(1) by simp
  let ?max = "cx * ?n * length raw"
  have step: "rle_attempts h rh raw planes cx byte_limit p ?n s =
      (if length bs > ?max \<and> 2 + int ?max \<le> byte_limit
       then do { s \<leftarrow> foutraw (cx * ?n) rh raw (s1\<lparr>s_p := p\<rparr>); Some (?n, s) }
       else if 1 + int (length bs) \<le> byte_limit then Some (?n, s1)
       else rle_attempts h rh raw planes cx byte_limit p k s1)"
  proof -
    have "rle_attempts h rh raw planes cx byte_limit p ?n s =
        do { (total_bytes, s) \<leftarrow> do { s \<leftarrow> out_uint8 h (s\<lparr>s_p := p\<rparr>); fpack_all planes cx ?n s };
             if total_bytes > ?max \<and> 2 + int ?max \<le> byte_limit
             then do { s \<leftarrow> foutraw (cx * ?n) rh raw (s\<lparr>s_p := p\<rparr>); Some (?n, s) }
             else if 1 + int total_bytes \<le> byte_limit then Some (?n, s)
             else rle_attempts h rh raw planes cx byte_limit p k s }"
      by (simp only: rle_attempts.simps Let_def Option.bind_assoc)
    then show ?thesis unfolding first by (simp only: Option.bind.simps prod.case)
  qed
  consider (raw) "length bs > ?max \<and> 2 + int ?max \<le> byte_limit" | (fits) "\<not> (length bs > ?max \<and> 2 + int ?max \<le> byte_limit)" "1 + int (length bs) \<le> byte_limit"
    | (less) "\<not> (length bs > ?max \<and> 2 + int ?max \<le> byte_limit)" "\<not> 1 + int (length bs) \<le> byte_limit" by blast
  then show ?case
  proof cases
    case raw
    then have room: "p + 2 + ?max \<le> s_size s1" using \<open>p + length ?bs \<le> s_size s\<close> s1(4) by simp
    have rh: "length raw = (if rh AND FLAGS_NOALPHA \<noteq> 0 then 3 else 4)" "rh \<in> {0, 32}" using h(4,5) by auto
    obtain s' where "foutraw (cx * ?n) rh raw (s1\<lparr>s_p := p\<rparr>) = Some s'" "encoded cx raw byte_limit before ?n s'"
      using raw_encoded [OF len(2) rh s1(3) room conjunct2 [OF raw]] by blast
    then show ?thesis using step raw by (intro exI [of _ ?n] exI [of _ s']) simp
  next
    case fits
    then show ?thesis using step s1(2) dec by (intro exI [of _ ?n] exI [of _ s1]) (auto simp: encoded_def)
  next
    case less
    have "length raw * (k * (16 * cx + 15)) \<le> length raw * (?n * (16 * cx + 15))" by simp
    then have "length raw * (k * (16 * cx + 15)) \<le> 15 * (s_size s1 - p - 1)" using Suc.prems(4) s1(4) by linarith
    from Suc.IH [OF _ s1(3) _ this] Suc.prems(1,3) s1(4)
    obtain n s' where i: "rle_attempts h rh raw planes cx byte_limit p k s1 = Some (n, s')" "n \<le> k" "0 < n \<longrightarrow> encoded cx raw byte_limit before n s'"
      "0 < k \<and> 2 + int (cx * length raw) \<le> byte_limit \<longrightarrow> 0 < n" by auto
    have "0 < n" if "2 + int (cx * length raw) \<le> byte_limit"
    proof (cases "k = 0")
      case True
      then show ?thesis using less that by (auto simp: not_less)
    next
      case False
      then show ?thesis using i(4) that by simp
    qed
    then show ?thesis using step less i by (intro exI [of _ n] exI [of _ s']) auto
  qed
qed

lemma raw_attempts_ok:
  assumes rh: "length raw = (if rh AND FLAGS_NOALPHA \<noteq> 0 then 3 else 4)" "rh \<in> {0, 32}" and raw: "\<forall>plane \<in> set raw. cx * cy \<le> length plane"
  shows "k \<le> cy \<Longrightarrow> take p (s_data s) = before \<Longrightarrow> p + 2 + cx * k * length raw \<le> s_size s \<Longrightarrow>
     \<exists>n s'. raw_attempts rh raw cx byte_limit p k s = Some (n, s') \<and> n \<le> k \<and> (0 < n \<longrightarrow> encoded cx raw byte_limit before n s') \<and>
       (0 < k \<and> 2 + int (cx * length raw) \<le> byte_limit \<longrightarrow> 0 < n)"
proof (induction k)
  case (Suc k)
  show ?case
  proof (cases "2 + int (cx * Suc k * length raw) \<le> byte_limit")
    case True
    have "cx * Suc k \<le> cx * cy" using Suc.prems(1) by (rule mult_le_mono2)
    then have len: "\<forall>plane \<in> set raw. cx * Suc k \<le> length plane" using raw le_trans by blast
    obtain s' where "foutraw (cx * Suc k) rh raw (s\<lparr>s_p := p\<rparr>) = Some s'" "encoded cx raw byte_limit before (Suc k) s'"
      using raw_encoded [OF len rh Suc.prems(2,3) True] by blast
    then show ?thesis using True by (intro exI [of _ "Suc k"] exI [of _ s']) (simp add: Let_def)
  next
    case False
    have "p + 2 + cx * k * length raw \<le> s_size s" using Suc.prems(3) by (simp add: algebra_simps)
    then obtain n s' where i: "raw_attempts rh raw cx byte_limit p k s = Some (n, s')" "n \<le> k" "0 < n \<longrightarrow> encoded cx raw byte_limit before n s'"
      "0 < k \<and> 2 + int (cx * length raw) \<le> byte_limit \<longrightarrow> 0 < n" using Suc.IH Suc.prems by auto
    have "0 < n" if "2 + int (cx * length raw) \<le> byte_limit" using that i(4) False by (cases "k = 0") auto
    then show ?thesis using False i by (intro exI [of _ n] exI [of _ s']) (auto simp: Let_def)
  qed
qed simp

lemma block_prefix: "n \<le> m \<Longrightarrow> m \<le> line \<Longrightarrow> take ((width + e) * n) (block_components d width e line m sh) = block_components d width e line n sh"
proof (induction d width e line m sh arbitrary: n rule: block_components.induct)
  case (1 d width e line cy sh)
  then show ?case by (cases n) (simp_all add: algebra_simps)
qed simp_all

lemma map2_nil: "map2 (\<lambda>sh plane. plane @ f sh) shs (replicate (length shs) []) = map f shs"
  by (induction shs) simp_all

text \<open>
  C27. What the planar codec produces is what it was given. For an image that is there, a first line
  that fits the work buffers and room for the packed lines, the compressor returns; a result of
  \<^term>\<open>n\<close> lines means that what was appended to the stream is at most \<^term>\<open>byte_limit\<close> bytes, and that
  the decoder of the protocol turns these bytes into exactly the colour components of \<^term>\<open>n\<close> lines, upwards
  from the start line and each filled up with its last pixel, whether they were packed or left raw. At least one line is
  compressed whenever one raw line fits the limit.
\<close>

theorem planar_roundtrip:
  assumes image: "0 < width" "(line + 1) * width * 4 \<le> length d" and work: "width + e \<le> 4096" "4096 * 8 \<le> temp_size"
    and n: "shs = (if flags AND FLAGS_NOALPHA \<noteq> 0 then [16, 8, 0] else [24, 16, 8, 0])"
    and room: "s_p s + 2 \<le> s_size s" "length shs * (min (line + 1) (4096 div (width + e)) * (16 * (width + e) + 15)) \<le> 15 * (s_size s - s_p s - 2)"
  shows "\<exists>n s'. xrdp_bitmap32_compress d width s byte_limit (int line) temp_size e flags = Some (n, s') \<and> n \<le> line + 1 \<and>
     (0 < n \<longrightarrow> (\<exists>bs. written s' = written s @ bs \<and> int (length bs) \<le> byte_limit \<and>
        unplanar (width + e) n bs = Some (map (block_components d width e (line + 1) n) shs))) \<and>
     (2 + int ((width + e) * length shs) \<le> byte_limit \<longrightarrow> 0 < n)"
proof -
  let ?cx = "width + e" and ?h = "flags AND 0xFF" and ?rh = "if flags AND FLAGS_NOALPHA \<noteq> 0 then FLAGS_NOALPHA else 0"
  have "?h = flags mod 256" using take_bit_eq_mask [of 8 flags] take_bit_eq_mod [of 8 flags] by (simp add: mask_eq_exp_minus_1)
  then have h: "0 \<le> ?h" "?h < 256" by simp_all
  have hf: "?h AND FLAGS_NOALPHA = flags AND FLAGS_NOALPHA" "?h AND FLAGS_RLE = flags AND FLAGS_RLE" by (simp_all add: and.assoc)
  have shs: "set shs \<subseteq> {0, 8, 16, 24}" "length shs = (if flags AND FLAGS_NOALPHA \<noteq> 0 then 3 else 4)" using n by auto
  obtain m where m: "m \<le> line + 1" "split_lines shs d (line + 1) width e 0 (replicate (length shs) []) =
      Some (m, map (block_components d width e (line + 1) m) shs)" "0 < m" "m * ?cx \<le> 4096"
    using split_lines_ok [OF shs(1) image(1), of "replicate (length shs) []" "line + 1" d 0 e] image(2) work(1) by (auto simp: map2_nil simp del: split_lines.simps)
  let ?raw = "map (block_components d width e (line + 1) m) shs"
  have split: "(if flags AND FLAGS_NOALPHA \<noteq> 0 then fsplit3 d (int line) width e else fsplit4 d (int line) width e) = Some (m, ?raw)"
    using m(2) unfolding n by (auto simp: fsplit3_def fsplit4_def nat_add_distrib numeral_eq_Suc simp del: split_lines.simps)
  have cx: "0 < ?cx" using image(1) by simp
  have len: "\<forall>plane \<in> set ?raw. ?cx * m \<le> length plane" using length_block [OF m(1)] by (auto simp: mult.commute)
  have "m \<le> 4096 div ?cx" using m(4) cx by (simp add: less_eq_div_iff_mult_less_eq)
  then have mm: "m \<le> min (line + 1) (4096 div ?cx)" using m(1) by simp
  have "m * (16 * ?cx + 15) \<le> min (line + 1) (4096 div ?cx) * (16 * ?cx + 15)" using mm by (rule mult_le_mono1)
  then have "length shs * (m * (16 * ?cx + 15)) \<le> length shs * (min (line + 1) (4096 div ?cx) * (16 * ?cx + 15))" by (rule mult_le_mono2)
  then have fits: "length ?raw * (m * (16 * ?cx + 15)) \<le> 15 * (s_size s - s_p s - 2)" unfolding length_map using room(2) by (rule order_trans)
  have take: "map (take (?cx * k)) ?raw = map (block_components d width e (line + 1) k) shs" if "k \<le> m" for k
    using that m(1) block_prefix by simp
  have before: "take (s_p s) (s_data s) = written s" by (simp add: written_def)
  define res where "res = xrdp_bitmap32_compress d width s byte_limit (int line) temp_size e flags"
  have rh: "length ?raw = (if ?rh AND FLAGS_NOALPHA \<noteq> 0 then 3 else 4)" "?rh \<in> {0, 32}" using shs(2) by auto
  have "\<exists>n s'. res = Some (n, s') \<and> n \<le> m \<and> (0 < n \<longrightarrow> encoded ?cx ?raw byte_limit (written s) n s') \<and>
      (0 < m \<and> 2 + int (?cx * length ?raw) \<le> byte_limit \<longrightarrow> 0 < n)"
  proof (cases "flags AND FLAGS_RLE \<noteq> 0")
    case True
    obtain ds where ds: "fdelta_all ?raw ?cx m = Some ds" "length ds = length ?raw" "\<forall>d \<in> set ds. ?cx * m \<le> length d"
      "\<forall>k \<le> m. 0 < k \<longrightarrow> map (\<lambda>d. undelta ?cx (take (?cx * k) d)) ds = map (take (?cx * k)) ?raw"
      using fdelta_all_ok [OF cx len] m(3) by auto
    have r: "res = rle_attempts ?h ?rh ?raw ds ?cx byte_limit (s_p s) m s"
      using work(2) split ds(1) True by (simp add: res_def xrdp_bitmap32_compress_def Let_def hf)
    have "?h AND FLAGS_RLE \<noteq> 0" "length ?raw = (if ?h AND FLAGS_NOALPHA \<noteq> 0 then 3 else 4)" "?rh = (if ?h AND FLAGS_NOALPHA \<noteq> 0 then FLAGS_NOALPHA else 0)"
      using True shs(2) by (simp_all add: hf)
    note a = rle_attempts_ok [OF cx h this ds(2,3) len ds(4) order_refl before]
    have "15 * (s_size s - s_p s - 2) \<le> 15 * (s_size s - s_p s - 1)" by simp
    then have "length ?raw * (m * (16 * ?cx + 15)) \<le> 15 * (s_size s - s_p s - 1)" using fits by linarith
    then show ?thesis using a room(1) unfolding r by simp
  next
    case False
    have r: "res = raw_attempts ?rh ?raw ?cx byte_limit (s_p s) m s"
      using work(2) split False by (simp add: res_def xrdp_bitmap32_compress_def Let_def hf)
    have "15 * (m * ?cx) \<le> m * (16 * ?cx + 15)" by (simp add: algebra_simps)
    then have "length ?raw * (15 * (m * ?cx)) \<le> length ?raw * (m * (16 * ?cx + 15))" by (rule mult_le_mono2)
    also have "\<dots> \<le> 15 * (s_size s - s_p s - 2)" by (rule fits)
    finally have "15 * (?cx * m * length ?raw) \<le> 15 * (s_size s - s_p s - 2)" by (simp only: mult.commute mult.left_commute)
    then have "s_p s + 2 + ?cx * m * length ?raw \<le> s_size s" using room(1) by linarith
    from raw_attempts_ok [OF rh len order_refl before this] show ?thesis unfolding r .
  qed
  then obtain n' s' where "res = Some (n', s')" "n' \<le> m" "0 < n' \<longrightarrow> encoded ?cx ?raw byte_limit (written s) n' s'"
    "2 + int (?cx * length shs) \<le> byte_limit \<longrightarrow> 0 < n'" using m(3) by auto
  then show ?thesis using m(1) take [of n'] unfolding encoded_def res_def by auto
qed


theorem planar_roundtrip_witness:
  "\<exists>n s'. xrdp_bitmap32_compress [3, 2, 1, 0, 9, 8, 7, 0] 2 (buf (replicate 24 0) 0 0) 100 0 32768 1 0x30 = Some (n, s') \<and> n \<le> 1 \<and>
     (0 < n \<longrightarrow> (\<exists>bs. written s' = written (buf (replicate 24 0) 0 0) @ bs \<and> int (length bs) \<le> 100 \<and>
        unplanar 3 n bs = Some (map (block_components [3, 2, 1, 0, 9, 8, 7, 0] 2 1 1 n) [16, 8, 0]))) \<and> 0 < n"
  using planar_roundtrip [of 2 0 "[3, 2, 1, 0, 9, 8, 7, 0]" 1 32768 "[16, 8, 0]" "0x30" "buf (replicate 24 0) 0 0" 100]
  by simp

end
