(* ===== verification/Trans_Connect.thy ===== *)
theory Trans_Connect
  imports Trans_IO
begin

text \<open>
  \<^verbatim>\<open>common/trans.c\<close>: opening a transport. Connecting retries until it succeeds, the time is up or the
  program terminates; listening creates and binds a socket. The answers of the system are inputs,
  one record per round; what is done to sockets and files is recorded as a list of actions.
\<close>

abbreviation (input) TRANS_MODE_TCP :: int where "TRANS_MODE_TCP \<equiv> 1"
abbreviation (input) TRANS_MODE_UNIX :: int where "TRANS_MODE_UNIX \<equiv> 2"
abbreviation (input) TRANS_MODE_VSOCK :: int where "TRANS_MODE_VSOCK \<equiv> 3"
abbreviation (input) TRANS_MODE_TCP4 :: int where "TRANS_MODE_TCP4 \<equiv> 4"
abbreviation (input) TRANS_MODE_TCP6 :: int where "TRANS_MODE_TCP6 \<equiv> 6"
abbreviation (input) CONNECT_TERM_POLL_MS :: int where "CONNECT_TERM_POLL_MS \<equiv> 3000"
abbreviation (input) CONNECT_DELAY_ON_FAIL_MS :: int where "CONNECT_DELAY_ON_FAIL_MS \<equiv> 2000"

datatype sck_action = Open int | Close int | Poll int | Sleep int | Delete_file string | Chmod string

subsection \<open>Connecting\<close>

record poll_answer =
  q_can :: bool
  q_socket_ok :: bool
  q_term :: bool
  q_now :: int

record connect_answer =
  c_term :: bool
  c_sck :: int
  c_error :: int
  c_would_block :: bool
  c_poll_start :: int
  c_polls :: "poll_answer list"
  c_now :: int

text \<open>\<^verbatim>\<open>timeout - (int)(g_get_elapsed_ms() - start_time)\<close>; the clock is unsigned and wraps around.\<close>

definition ms_left :: "int \<Rightarrow> int \<Rightarrow> int \<Rightarrow> int" where
  "ms_left timeout start now = c_int (timeout - c_int (c_uint (now - start)))"

text \<open>\<^term>\<open>has_term\<close> tells whether \<^verbatim>\<open>is_term\<close> is set; the first result is \<^term>\<open>None\<close> if the answers end too early.\<close>

fun poll_for_async_connect ::
  "bool \<Rightarrow> int \<Rightarrow> int \<Rightarrow> int \<Rightarrow> poll_answer list \<Rightarrow> int option \<times> sck_action list" where
  "poll_for_async_connect has_term timeout start ms_remaining answers =
     (if ms_remaining > 0
      then let poll_time = (if ms_remaining < 100 then 100 else ms_remaining);
               poll_time = (if has_term \<and> poll_time > CONNECT_TERM_POLL_MS then CONNECT_TERM_POLL_MS else poll_time)
           in case answers of
                [] \<Rightarrow> (None, [Poll poll_time])
              | q # answers \<Rightarrow>
                  if q_can q then (Some (if q_socket_ok q then 0 else 1), [Poll poll_time])
                  else if has_term \<and> q_term q then (Some 1, [Poll poll_time])
                  else let (rv, acts) = poll_for_async_connect has_term timeout start (ms_left timeout start (q_now q)) answers
                       in (rv, Poll poll_time # acts)
      else (Some 1, []))"

declare poll_for_async_connect.simps [simp del]

text \<open>The loop: the error and the socket it ends with.\<close>

fun connect_loop ::
  "bool \<Rightarrow> int \<Rightarrow> int \<Rightarrow> int \<Rightarrow> connect_answer list \<Rightarrow> int option \<times> int \<times> sck_action list" where
  "connect_loop has_term timeout start sck [] = (None, sck, [])"
| "connect_loop has_term timeout start sck (c # answers) =
     (if has_term \<and> c_term c then (Some 1, sck, [])
      else let acts = (if sck \<ge> 0 then [Close sck] else []); sck = c_sck c
           in if sck < 0 then (Some 1, sck, acts)
              else if c_error c = 0 then (Some 0, sck, acts @ [Open sck])
              else let (polled, pacts) =
                         (if c_would_block c
                          then poll_for_async_connect has_term timeout start (ms_left timeout start (c_poll_start c)) (c_polls c)
                          else (Some 1, []));
                       acts = acts @ Open sck # pacts
                   in if polled = None then (None, sck, acts)
                      else if c_would_block c \<and> polled = Some 0 then (Some 0, sck, acts)
                      else let delay = (if c_would_block c then 0 else CONNECT_DELAY_ON_FAIL_MS);
                               left = ms_left timeout start (c_now c)
                           in if left \<le> 0 then (Some 1, sck, acts)
                              else let sleep = (if delay > 0 then [Sleep (min delay left)] else []);
                                       (rv, sck, acts') = connect_loop has_term timeout start sck answers
                                   in (rv, sck, acts @ sleep @ acts'))"

definition trans_connect ::
  "bool \<Rightarrow> int \<Rightarrow> int \<Rightarrow> connect_answer list \<Rightarrow> 'x trans \<Rightarrow> int option \<times> 'x trans \<times> sck_action list" where
  "trans_connect has_term timeout start answers self =
     (if t_mode self \<noteq> TRANS_MODE_TCP \<and> t_mode self \<noteq> TRANS_MODE_UNIX then (Some 1, self, [])
      else case connect_loop has_term timeout start (t_sck self) answers of
             (None, sck, acts) \<Rightarrow> (None, self\<lparr>t_sck := sck\<rparr>, acts)
           | (Some error, sck, acts) \<Rightarrow>
               if error \<noteq> 0
               then (Some error,
                     if sck \<ge> 0 then self\<lparr>t_sck := -1, t_status := TRANS_STATUS_DOWN\<rparr>
                     else self\<lparr>t_sck := sck, t_status := TRANS_STATUS_DOWN\<rparr>,
                     acts @ (if sck \<ge> 0 then [Close sck] else []))
               else (Some error, self\<lparr>t_sck := sck, t_status := TRANS_STATUS_UP, t_type1 := TRANS_TYPE_CLIENT\<rparr>, acts))"

text \<open>Every socket opened is closed again, but for the one a successful connect leaves.\<close>

definition open_scks :: "int list \<Rightarrow> sck_action list \<Rightarrow> int list" where
  "open_scks = foldl (\<lambda>scks a. case a of Open s \<Rightarrow> scks @ [s] | Close s \<Rightarrow> remove1 s scks | _ \<Rightarrow> scks)"

definition held :: "int \<Rightarrow> int list" where
  "held sck = (if sck \<ge> 0 then [sck] else [])"

lemma open_scks_simps [simp]:
  "open_scks scks [] = scks" "open_scks scks (Open s # acts) = open_scks (scks @ [s]) acts"
  "open_scks scks (Close s # acts) = open_scks (remove1 s scks) acts" "open_scks scks (Poll n # acts) = open_scks scks acts"
  "open_scks scks (Sleep n # acts) = open_scks scks acts"
  by (simp_all add: open_scks_def)

lemma open_scks_append [simp]: "open_scks scks (xs @ ys) = open_scks (open_scks scks xs) ys"
  by (simp add: open_scks_def)

lemma poll_scks: "poll_for_async_connect b timeout start ms qs = (rv, acts) \<Longrightarrow> open_scks scks acts = scks"
proof (induction qs arbitrary: ms rv acts)
  case (Cons q qs)
  then show ?case
    by (subst (asm) poll_for_async_connect.simps) (auto simp: Let_def split: if_split_asm prod.split_asm)
qed (auto simp: poll_for_async_connect.simps Let_def split: if_split_asm)

lemma connect_loop_scks:
  "connect_loop b timeout start sck cs = (rv, sck', acts) \<Longrightarrow> open_scks (held sck) acts = held sck' \<and> (rv = Some 0 \<longrightarrow> sck' \<ge> 0)"
proof (induction cs arbitrary: sck rv sck' acts)
  case (Cons c cs)
  obtain polled pacts where p: "(if c_would_block c
      then poll_for_async_connect b timeout start (ms_left timeout start (c_poll_start c)) (c_polls c)
      else (Some 1, [])) = (polled, pacts)" by fastforce
  have pacts: "open_scks scks pacts = scks" for scks
    using p poll_scks by (cases "c_would_block c") auto
  show ?case
    using Cons.prems p Cons.IH [of "c_sck c"]
    by (auto simp: Let_def pacts held_def split: if_split_asm prod.split_asm)
qed simp

text \<open>
  A connect leaves no socket behind: after success exactly the transport's socket is open and the
  transport is up, after failure none is open and, for the modes that can connect, it is down.
\<close>

lemma trans_connect_no_leak:
  assumes "trans_connect has_term timeout start answers t = (Some rv, t', acts)" and "t_mode t = TRANS_MODE_TCP \<or> t_mode t = TRANS_MODE_UNIX"
  shows "open_scks (held (t_sck t)) acts = held (t_sck t') \<and>
     (if rv = 0 then t_sck t' \<ge> 0 \<and> t_status t' = TRANS_STATUS_UP \<and> t_type1 t' = TRANS_TYPE_CLIENT
      else held (t_sck t') = [] \<and> t_status t' = TRANS_STATUS_DOWN)"
proof -
  obtain err sck as where l: "connect_loop has_term timeout start (t_sck t) answers = (Some err, sck, as)"
    using assms by (auto simp: trans_connect_def split: prod.split_asm option.split_asm)
  note connect_loop_scks [OF l]
  then show ?thesis using assms l by (auto simp: trans_connect_def held_def split: if_split_asm)
qed

subsection \<open>Listening\<close>

record listen_answer =
  l_sck :: int
  l_bind :: int
  l_listen :: int

text \<open>
  The branches differ in the functions called, not in what they do to the transport, except that a
  UNIX socket removes the old file first, keeps its name and sets its permissions. Results are the
  return value, \<^verbatim>\<open>listen_filename\<close>, the transport and the actions.
\<close>

definition trans_listen_address ::
  "string \<Rightarrow> listen_answer \<Rightarrow> string option \<Rightarrow> 'x trans \<Rightarrow> int \<times> string option \<times> 'x trans \<times> sck_action list" where
  "trans_listen_address port a filename self =
     (let acts = (if t_sck self \<ge> 0 then [Close (t_sck self)] else []); m = t_mode self
      in if m = TRANS_MODE_TCP \<or> m = TRANS_MODE_VSOCK \<or> m = TRANS_MODE_TCP4 \<or> m = TRANS_MODE_TCP6
         then if l_sck a < 0 then (1, filename, self\<lparr>t_sck := l_sck a\<rparr>, acts)
              else if l_bind a = 0 \<and> l_listen a = 0
              then (0, filename, self\<lparr>t_sck := l_sck a, t_status := TRANS_STATUS_UP, t_type1 := TRANS_TYPE_LISTENER\<rparr>, acts @ [Open (l_sck a)])
              else (1, filename, self\<lparr>t_sck := l_sck a\<rparr>, acts @ [Open (l_sck a)])
         else if m = TRANS_MODE_UNIX
         then let acts = acts @ [Delete_file port]
              in if l_sck a < 0 then (1, None, self\<lparr>t_sck := l_sck a\<rparr>, acts)
                 else if l_bind a = 0
                 then if l_listen a = 0
                      then (0, Some port, self\<lparr>t_sck := l_sck a, t_status := TRANS_STATUS_UP, t_type1 := TRANS_TYPE_LISTENER\<rparr>,
                            acts @ [Open (l_sck a), Chmod port])
                      else (1, Some port, self\<lparr>t_sck := l_sck a\<rparr>, acts @ [Open (l_sck a)])
                 else (1, None, self\<lparr>t_sck := l_sck a\<rparr>, acts @ [Open (l_sck a)])
         else (1, filename, self, acts))"

definition trans_listen ::
  "string \<Rightarrow> listen_answer \<Rightarrow> string option \<Rightarrow> 'x trans \<Rightarrow> int \<times> string option \<times> 'x trans \<times> sck_action list" where
  "trans_listen port a filename self = trans_listen_address port a filename self"

subsection \<open>TLS\<close>

text \<open>
  Which functions a transport sends and receives with. The TLS layer itself is OpenSSL: whether a
  context can be made, what the handshake and the disconnect return, are inputs.
\<close>

datatype io_calls = Tcp_calls | Tls_calls

record 'tls tls_part =
  tp_tls :: "'tls option"
  tp_calls :: io_calls
  tp_protocol :: string
  tp_cipher :: string

definition trans_set_tls_mode ::
  "'tls option \<Rightarrow> ('tls \<Rightarrow> int) \<Rightarrow> ('tls \<Rightarrow> string) \<Rightarrow> ('tls \<Rightarrow> string) \<Rightarrow> 'tls tls_part \<Rightarrow> int \<times> 'tls tls_part" where
  "trans_set_tls_mode created accept get_version get_cipher self =
     (let self = self\<lparr>tp_tls := created\<rparr>
      in case created of
           None \<Rightarrow> (1, self)
         | Some tls \<Rightarrow>
             if accept tls \<noteq> 0 then (1, self)
             else (0, self\<lparr>tp_calls := Tls_calls, tp_protocol := get_version tls, tp_cipher := get_cipher tls\<rparr>))"

definition trans_shutdown_tls_mode :: "('tls \<Rightarrow> int) \<Rightarrow> 'tls tls_part \<Rightarrow> int \<times> 'tls tls_part" where
  "trans_shutdown_tls_mode disconnect self =
     (case tp_tls self of
        Some tls \<Rightarrow> (disconnect tls, self)
      | None \<Rightarrow> (0, self\<lparr>tp_calls := Tcp_calls\<rparr>))"

text \<open>
  A transport in TLS mode therefore stays in TLS mode when it is shut down: the code that would
  restore the plain functions only runs when there is no TLS context.
\<close>

lemma shutdown_keeps_tls:
  assumes "trans_set_tls_mode created accept v c p = (0, p')" and "trans_shutdown_tls_mode disconnect p' = (rv, p'')"
  shows "p'' = p' \<and> tp_calls p'' = Tls_calls"
  using assms by (auto simp: trans_set_tls_mode_def trans_shutdown_tls_mode_def Let_def split: option.split_asm if_split_asm)

end
