(* ===== verification/Trans_Net.thy ===== *)
theory Trans_Net
  imports Trans_Queue
begin

text \<open>
  Flow control between the transports of a program: the shared \<^verbatim>\<open>source_info\<close> charges every source
  of input with the bytes its processing has left waiting on other transports, and a charged source
  is not read. The theory follows the charges through all interleavings of polling and output.
\<close>

definition net_ok :: "'x net \<Rightarrow> bool" where
  "net_ok w \<longleftrightarrow> finite (dom (n_trans w)) \<and> si_ok (n_si w) \<and> (\<forall>i t. net_get i w = Some t \<longrightarrow> trans_ok t)"

definition waiting_for :: "nat \<Rightarrow> 'x net \<Rightarrow> int" where
  "waiting_for k w = (\<Sum>i \<in> dom (n_trans w). charge k (t_wait_s (the (n_trans w i))))"

definition net_balance :: "nat \<Rightarrow> 'x net \<Rightarrow> int" where
  "net_balance k w = source (n_si w) ! k - waiting_for k w - charge k (n_leaked w)"

definition keeps :: "'x net \<Rightarrow> 'x net \<Rightarrow> bool" where
  "keeps w w' \<longleftrightarrow> net_ok w' \<and> (\<forall>k < XRDP_SOURCE_MAX_COUNT. net_balance k w' = net_balance k w) \<and>
     (\<exists>more. n_leaked w' = n_leaked w @ more)"

lemma keeps_refl: "net_ok w \<Longrightarrow> keeps w w"
  by (simp add: keeps_def)

lemma keeps_trans: "keeps w w' \<Longrightarrow> keeps w' w'' \<Longrightarrow> keeps w w''"
  by (auto simp: keeps_def)

lemma keepsD: "keeps w w' \<Longrightarrow> net_ok w'"
  by (simp add: keeps_def)

lemma waiting_split:
  "finite (dom (n_trans w)) \<Longrightarrow>
     waiting_for k w = (case n_trans w i of None \<Rightarrow> 0 | Some t \<Rightarrow> charge k (t_wait_s t)) +
       (\<Sum>j \<in> dom (n_trans w) - {i}. charge k (t_wait_s (the (n_trans w j))))"
  by (cases "n_trans w i") (auto simp: waiting_for_def sum.remove [of "dom (n_trans w)" i] domIff)

lemma net_get_iff:
  "net_get i w = Some t \<longleftrightarrow> (\<exists>t0. n_trans w i = Some t0 \<and> t = (if t_si t0 = None then t0 else t0\<lparr>t_si := Some (n_si w)\<rparr>))"
  by (simp only: net_get_def map_option_eq_Some eq_commute [of t])

lemma net_get_si: "net_get i w = Some t \<Longrightarrow> t_si t = None \<or> t_si t = Some (n_si w)"
  by (cases "n_trans w i") (simp_all add: net_get_def, cases "t_si (the (n_trans w i))", auto)

lemma net_put_parts [simp]:
  "n_trans (net_put i bs t w) = (n_trans w)(i := Some t)" "n_leaked (net_put i bs t w) = n_leaked w"
  "n_si (net_put i bs t w) = (case t_si t of None \<Rightarrow> n_si w | Some si \<Rightarrow> si)"
  by (simp_all add: net_put_def)

lemma trans_ok_si: "trans_ok t \<Longrightarrow> si_ok si \<Longrightarrow> trans_ok (if t_si t = None then t else t\<lparr>t_si := Some si\<rparr>)"
  by (auto simp: trans_ok_def)

lemma net_put_ok:
  assumes w: "net_ok w" and t: "trans_ok t"
  shows "net_ok (net_put i bs t w)"
proof -
  have si: "si_ok (case t_si t of None \<Rightarrow> n_si w | Some si \<Rightarrow> si)"
    using w t by (auto simp: net_ok_def trans_ok_def split: option.splits)
  have "trans_ok t'" if get: "net_get j (net_put i bs t w) = Some t'" for j t'
  proof (cases "j = i")
    case True
    then show ?thesis using get t trans_ok_si [OF t si] by (auto simp: net_get_iff)
  next
    case False
    obtain t0 where t0: "n_trans w j = Some t0" "t' = (if t_si t0 = None then t0 else t0\<lparr>t_si := Some (case t_si t of None \<Rightarrow> n_si w | Some si \<Rightarrow> si)\<rparr>)"
      using get False by (auto simp: net_get_iff)
    have "trans_ok (if t_si t0 = None then t0 else t0\<lparr>t_si := Some (n_si w)\<rparr>)"
      using w t0(1) unfolding net_ok_def net_get_iff by blast
    then show ?thesis using t0(2) si by (auto simp: trans_ok_def)
  qed
  then show ?thesis using w si by (auto simp: net_ok_def)
qed

lemma charge_none: "\<forall>ws \<in> set wss. w_source ws \<noteq> Some k \<Longrightarrow> charge k wss = 0"
  by (induction wss) simp_all

lemma no_charge: "trans_ok t \<Longrightarrow> t_si t = None \<Longrightarrow> charge k (t_wait_s t) = 0"
  by (rule charge_none) (auto simp: trans_ok_def)

lemma net_put_charges:
  assumes w: "net_ok w" and get: "net_get i w = Some t" and t': "trans_ok t'"
    and bal: "\<And>k. k < XRDP_SOURCE_MAX_COUNT \<Longrightarrow>
      source (n_si (net_put i bs t' w)) ! k - charge k (t_wait_s t') = source (n_si w) ! k - charge k (t_wait_s t)"
  shows "keeps w (net_put i bs t' w)"
proof -
  obtain t0 where t0: "n_trans w i = Some t0" "t_wait_s t = t_wait_s t0" using get by (auto simp: net_get_iff)
  let ?w = "net_put i bs t' w"
  have fin: "finite (dom (n_trans w))" "finite (dom (n_trans ?w))" using w by (simp_all add: net_ok_def)
  have "net_balance k ?w = net_balance k w" if k: "k < XRDP_SOURCE_MAX_COUNT" for k
  proof -
    have others: "(\<Sum>j \<in> dom (n_trans ?w) - {i}. charge k (t_wait_s (the (n_trans ?w j)))) =
        (\<Sum>j \<in> dom (n_trans w) - {i}. charge k (t_wait_s (the (n_trans w j))))"
      by (rule sum.cong) auto
    then show ?thesis
      using waiting_split [OF fin(1), of k i] waiting_split [OF fin(2), of k i] t0 bal [OF k] by (simp add: net_balance_def)
  qed
  then show ?thesis using net_put_ok [OF w t'] by (simp add: keeps_def)
qed

lemma net_put_keeps:
  assumes w: "net_ok w" and get: "net_get i w = Some t" and t': "trans_ok t'"
    and si: "t_si t' = None \<longleftrightarrow> t_si t = None" and bal: "\<forall>k < XRDP_SOURCE_MAX_COUNT. balance k t' = balance k t"
  shows "keeps w (net_put i bs t' w)"
proof (rule net_put_charges [OF w get t'])
  fix k :: nat
  assume k: "k < XRDP_SOURCE_MAX_COUNT"
  have ok: "trans_ok t" using w get by (simp add: net_ok_def)
  show "source (n_si (net_put i bs t' w)) ! k - charge k (t_wait_s t') = source (n_si w) ! k - charge k (t_wait_s t)"
  proof (cases "t_si t")
    case None
    then show ?thesis using si no_charge [OF ok None] no_charge [OF t'] by simp
  next
    case (Some s)
    then obtain s' where "t_si t' = Some s'" "s = n_si w" using si net_get_si [OF get] by auto
    then show ?thesis using bal k Some by (simp add: balance_def)
  qed
qed

lemma net_new_keeps:
  assumes w: "net_ok w" and new: "n_trans w i = None" and t: "t_wait_s t = []" "t_my_source t < XRDP_SOURCE_MAX_COUNT"
    and si: "t_si t = None \<or> t_si t = Some (n_si w)"
  shows "keeps w (net_put i bs t w)"
proof -
  have ok: "trans_ok t" using w t si by (auto simp: trans_ok_def net_ok_def)
  have same: "n_si (net_put i bs t w) = n_si w" using si by auto
  have fin: "finite (dom (n_trans w))" "finite (dom (n_trans (net_put i bs t w)))" using w by (simp_all add: net_ok_def)
  have others: "(\<Sum>j \<in> dom (n_trans (net_put i bs t w)) - {i}. charge k (t_wait_s (the (n_trans (net_put i bs t w) j)))) =
      (\<Sum>j \<in> dom (n_trans w) - {i}. charge k (t_wait_s (the (n_trans w j))))" for k
    by (rule sum.cong) auto
  have "net_balance k (net_put i bs t w) = net_balance k w" for k
    using waiting_split [OF fin(1), of k i] waiting_split [OF fin(2), of k i] new t others [of k] same by (simp add: net_balance_def)
  then show ?thesis using net_put_ok [OF w ok] by (simp add: keeps_def)
qed

lemma trans_delete_keeps:
  assumes w: "net_ok w" and d: "\<And>t. t_wait_s (d t) = t_wait_s t"
  shows "keeps w (trans_delete d i w)"
proof (cases "net_get i w")
  case None
  then show ?thesis using w by (simp add: trans_delete_def keeps_refl)
next
  case (Some t)
  obtain t0 where t0: "n_trans w i = Some t0" "t_wait_s t = t_wait_s t0" using Some by (auto simp: net_get_iff)
  let ?w = "trans_delete d i w"
  have parts: "n_si ?w = n_si w" "n_trans ?w = (n_trans w)(i := None)" "n_leaked ?w = n_leaked w @ t_wait_s t0"
    using Some t0 d by (simp_all add: trans_delete_def Let_def)
  have fin: "finite (dom (n_trans w))" "finite (dom (n_trans ?w))" using w parts by (simp_all add: net_ok_def)
  have others: "(\<Sum>j \<in> dom (n_trans ?w) - {i}. charge k (t_wait_s (the (n_trans ?w j)))) =
      (\<Sum>j \<in> dom (n_trans w) - {i}. charge k (t_wait_s (the (n_trans w j))))" for k
    unfolding parts by (rule sum.cong) auto
  have "net_balance k ?w = net_balance k w" for k
    using waiting_split [OF fin(1), of k i] waiting_split [OF fin(2), of k i] t0 others [of k] parts by (simp add: net_balance_def)
  moreover have "net_ok ?w"
    using w parts by (auto simp: net_ok_def net_get_iff split: if_split_asm)
  ultimately show ?thesis using parts by (simp add: keeps_def)
qed

subsection \<open>Steps\<close>

text \<open>
  What a program does with its transports outside of polling, and what the callbacks of polling do:
  output, deletion, creation, joining the flow control, and changes of its own to the fields that
  \<^verbatim>\<open>trans.c\<close> leaves to the caller (header size, input stream, status).
\<close>

inductive act :: "(nat \<Rightarrow> byte) \<Rightarrow> 'x net \<Rightarrow> 'x net \<Rightarrow> bool" for junk where
  act_output: "net_get i w = Some t \<Longrightarrow> op_admissible op \<Longrightarrow> do_output junk op t = Some (rv, taken, t') \<Longrightarrow>
     act junk w (net_put i taken t' w)"
| act_delete: "(\<And>t. t_wait_s (d t) = t_wait_s t) \<Longrightarrow> act junk w (trans_delete d i w)"
| act_create: "n_trans w i = None \<Longrightarrow> act junk w (net_put i [] (trans_create junk mode in_size out_size) w)"
| act_join: "net_get i w = Some t \<Longrightarrow> t_si t = None \<Longrightarrow> k < XRDP_SOURCE_MAX_COUNT \<Longrightarrow>
     act junk w (net_put i [] (t\<lparr>t_si := Some (n_si w), t_my_source := k\<rparr>) w)"
| act_local: "net_get i w = Some t \<Longrightarrow> t_wait_s t' = t_wait_s t \<Longrightarrow> t_si t' = t_si t \<Longrightarrow> t_my_source t' = t_my_source t \<Longrightarrow>
     act junk w (net_put i [] t' w)"

inductive_cases act_cases: "act junk w w'"

definition acts :: "(nat \<Rightarrow> byte) \<Rightarrow> 'x net \<Rightarrow> 'x net \<Rightarrow> bool" where
  "acts junk = rtranclp (act junk)"

inductive net_step :: "(nat \<Rightarrow> byte) \<Rightarrow> 'x net \<Rightarrow> 'x net \<Rightarrow> bool" for junk where
  net_act: "act junk w w' \<Longrightarrow> net_step junk w w'"
| net_poll: "trans_check_wait_objs junk data_in conn_in d self new a w = Some (rv, w') \<Longrightarrow> n_trans w new = None \<Longrightarrow>
     (\<And>t. t_wait_s (d t) = t_wait_s t) \<Longrightarrow>
     (\<And>f w r w'. data_in = Some f \<Longrightarrow> f self w = Some (r, w') \<Longrightarrow> acts junk w w') \<Longrightarrow>
     (\<And>f w r w'. conn_in = Some f \<Longrightarrow> f self new w = Some (r, w') \<Longrightarrow> acts junk w w') \<Longrightarrow>
     net_step junk w w'"

lemma accounted_balance:
  "accounted (t\<lparr>t_status := v\<rparr>) t' \<Longrightarrow>
     trans_ok t' \<and> (t_si t' = None \<longleftrightarrow> t_si t = None) \<and> (\<forall>k < XRDP_SOURCE_MAX_COUNT. balance k t' = balance k t)"
  by (auto simp: accounted_def same_trans_def balance_def)

lemma accounted_keeps:
  assumes w: "net_ok w" and get: "net_get i w = Some t" and acc: "accounted (t\<lparr>t_status := v\<rparr>) t'"
  shows "keeps w (net_put i bs t' w)"
  using net_put_keeps [OF w get] accounted_balance [OF acc] by simp

lemma local_keeps:
  assumes w: "net_ok w" and get: "net_get i w = Some t"
    and t': "t_wait_s t' = t_wait_s t" "t_my_source t' = t_my_source t" "t_si t' = t_si t"
  shows "keeps w (net_put i bs t' w)"
proof -
  have "trans_ok t" using w get by (simp add: net_ok_def)
  then have "trans_ok t'" using t' by (simp add: trans_ok_def)
  then show ?thesis using net_put_keeps [OF w get] t' by (simp add: balance_def)
qed

lemma act_keeps:
  assumes "act junk w w'" and w: "net_ok w"
  shows "keeps w w'"
  using assms(1)
proof cases
  case (act_output i t op rv taken t')
  have "trans_ok t" using w act_output(2) by (simp add: net_ok_def)
  then have "accounted (t\<lparr>t_status := t_status t'\<rparr>) t'"
    using do_output_ok [of t op junk] act_output(3,4) by auto
  then show ?thesis using accounted_keeps [OF w act_output(2)] act_output(1) by blast
next
  case (act_delete d i)
  then show ?thesis using trans_delete_keeps [OF w] by blast
next
  case (act_create i mode in_size out_size)
  let ?t = "trans_create junk mode in_size out_size :: 'a trans"
  have t: "t_wait_s ?t = []" "t_my_source ?t < XRDP_SOURCE_MAX_COUNT" "t_si ?t = None" by (simp_all add: trans_create_def)
  then show ?thesis using net_new_keeps [OF w act_create(2) t(1,2)] act_create(1) by blast
next
  case (act_join i t k)
  have ok: "trans_ok t" "si_ok (n_si w)" using w act_join(2) by (simp_all add: net_ok_def)
  let ?t = "t\<lparr>t_si := Some (n_si w), t_my_source := k\<rparr>"
  have "trans_ok ?t" using ok act_join(4) by (auto simp: trans_ok_def)
  then have "keeps w (net_put i [] ?t w)"
    by (rule net_put_charges [OF w act_join(2)]) simp
  then show ?thesis using act_join(1) by simp
next
  case (act_local i t t')
  then show ?thesis using local_keeps [OF w] by blast
qed

lemma acts_keeps: "acts junk w w' \<Longrightarrow> net_ok w \<Longrightarrow> keeps w w'"
  unfolding acts_def
  by (induction rule: rtranclp_induct) (use keeps_refl keeps_trans keepsD act_keeps in blast)+

lemma set_cur_keeps:
  assumes w: "net_ok w" and get: "net_get i w = Some t" and k: "k < XRDP_SOURCE_MAX_COUNT"
    and t': "t_wait_s t' = t_wait_s t" "t_my_source t' = t_my_source t" "t_si t' = map_option (\<lambda>si. si\<lparr>cur_source := k\<rparr>) (t_si t)"
  shows "keeps w (net_put i bs t' w)"
proof -
  have "trans_ok t" using w get by (simp add: net_ok_def)
  then have "trans_ok t'" using t' k by (auto simp: trans_ok_def si_ok_def)
  then show ?thesis using net_put_keeps [OF w get] t' by (simp add: balance_def split: option.splits)
qed

definition old_source :: "'x trans \<Rightarrow> nat" where
  "old_source t = (case t_si t of None \<Rightarrow> XRDP_SOURCE_NONE | Some si \<Rightarrow> cur_source si)"

lemma read_part_cases:
  assumes "read_part r t = Some (res, t')"
  obtains (down) "res = Inl 1" "t' = t\<lparr>t_status := TRANS_STATUS_DOWN\<rparr>"
  | (failed) "res = Inl 1" "t' = set_cur_source (old_source t) ((set_cur_source (t_my_source t) t)\<lparr>t_status := TRANS_STATUS_DOWN\<rparr>)"
  | (stored) s where "res = Inr (old_source t)" "t' = (set_cur_source (t_my_source t) t)\<lparr>t_in_s := s\<rparr>"
proof -
  let ?t = "set_cur_source (t_my_source t) t"
  have id: "?t = ?t\<lparr>t_in_s := t_in_s ?t\<rparr>" by simp
  show thesis
    using assms stored [of "t_in_s ?t"] stored down failed id
    unfolding read_part_def old_source_def [symmetric] Let_def case_prod_beta
    by (simp only: Option.bind_eq_Some_conv option.inject prod.inject split: if_split_asm) metis+
qed

lemma source_less: "net_ok w \<Longrightarrow> net_get i w = Some t \<Longrightarrow> t_my_source t < XRDP_SOURCE_MAX_COUNT \<and> old_source t < XRDP_SOURCE_MAX_COUNT"
  by (auto simp: net_ok_def trans_ok_def si_ok_def old_source_def split: option.split)

lemma same_si: "map_option (\<lambda>si. si\<lparr>cur_source := k\<rparr>) (map_option (\<lambda>si. si\<lparr>cur_source := j\<rparr>) x) = map_option (\<lambda>si. si\<lparr>cur_source := k\<rparr>) x"
  by (cases x) simp_all

lemma read_part_keeps:
  assumes w: "net_ok w" and get: "net_get i w = Some t" and part: "read_part r t = Some (res, t')"
  shows "keeps w (net_put i [] t' w)"
  using part
proof (cases rule: read_part_cases)
  case down
  show ?thesis unfolding down(2) by (rule local_keeps [OF w get]) simp_all
next
  case failed
  show ?thesis unfolding failed(2)
    by (rule set_cur_keeps [OF w get, of "old_source t"]) (use source_less [OF w get] in \<open>simp_all add: set_cur_source_def same_si\<close>)
next
  case (stored s)
  show ?thesis unfolding stored(2)
    by (rule set_cur_keeps [OF w get, of "t_my_source t"]) (use source_less [OF w get] in \<open>simp_all add: set_cur_source_def\<close>)
qed

lemma call_data_in_keeps:
  assumes w: "net_ok w" and call: "call_data_in junk data_in self w = Some (rv, w')"
    and cb: "\<And>f w r w'. data_in = Some f \<Longrightarrow> f self w = Some (r, w') \<Longrightarrow> acts junk w w'"
  shows "keeps w w'"
proof (cases "w' = w")
  case True
  then show ?thesis using keeps_refl [OF w] by simp
next
  case False
  then obtain f r w1 t where f: "data_in = Some f" "f self w = Some (r, w1)" "net_get self w1 = Some t"
    "w' = net_put self [] (if t_no_stream_init_on_data_in t = 0 then t\<lparr>t_in_s := init_stream junk 0 (t_in_s t)\<rparr> else t) w1"
    using call by (auto simp: call_data_in_def Option.bind_eq_Some_conv Let_def split: if_split_asm option.split_asm)
  have one: "keeps w w1" by (rule acts_keeps [OF cb [OF f(1,2)] w])
  have "keeps w1 w'" unfolding f(4) by (rule local_keeps [OF keepsD [OF one] f(3)]) simp_all
  then show ?thesis by (rule keeps_trans [OF one])
qed

lemma check_input_keeps:
  assumes w: "net_ok w" and check: "check_input junk data_in self a w = Some (rv, w')"
    and cb: "\<And>f w r w'. data_in = Some f \<Longrightarrow> f self w = Some (r, w') \<Longrightarrow> acts junk w w'"
  shows "keeps w w'"
proof -
  obtain t blocked where t: "net_get self w = Some t" "source_blocked t = Some blocked"
    using check by (auto simp: check_input_def Option.bind_eq_Some_conv)
  show ?thesis
  proof (cases "blocked \<or> \<not> p_can a")
    case True
    then show ?thesis using check t w by (auto simp: check_input_def intro: keeps_refl)
  next
    case False
    obtain res t1 where part: "read_part (p_recv a) t = Some (res, t1)"
      using check t False by (auto simp: check_input_def Option.bind_eq_Some_conv)
    let ?w1 = "net_put self [] t1 w"
    have one: "keeps w ?w1" by (rule read_part_keeps [OF w t(1) part])
    show ?thesis
    proof (cases res)
      case (Inl v)
      then show ?thesis using check t False part one by (simp add: check_input_def)
    next
      case (Inr cur)
      then have cur: "cur < XRDP_SOURCE_MAX_COUNT" using part source_less [OF w t(1)] by (auto elim: read_part_cases)
      obtain r w2 t2 where two: "call_data_in junk data_in self ?w1 = Some (r, w2)" "net_get self w2 = Some t2"
        "w' = net_put self [] (set_cur_source cur t2) w2"
        using check t False part Inr by (auto simp: check_input_def Option.bind_eq_Some_conv)
      have k2: "keeps ?w1 w2" by (rule call_data_in_keeps [OF keepsD [OF one] two(1) cb])
      have "keeps w2 w'" unfolding two(3)
        by (rule set_cur_keeps [OF keepsD [OF k2] two(2) cur]) (simp_all add: set_cur_source_def)
      then show ?thesis using keeps_trans [OF one] keeps_trans [OF k2] by blast
    qed
  qed
qed

lemma flush_waiting_keeps:
  assumes w: "net_ok w" and flush: "flush_waiting self v answers w = Some (rv, w')"
  shows "keeps w w'"
proof -
  obtain t where t: "net_get self w = Some t" using flush by (auto simp: flush_waiting_def Option.bind_eq_Some_conv)
  have ok: "trans_ok t" using w t by (simp add: net_ok_def)
  obtain r taken t1 as1 where s: "trans_send_waiting False answers t = Some (r, taken, t1, as1)" "accounted t t1"
    using send_waiting_ok [OF ok] by blast
  have "w' = net_put self taken t1 w \<or> w' = net_put self taken (t1\<lparr>t_status := TRANS_STATUS_DOWN\<rparr>) w"
    using flush t s(1) by (simp add: flush_waiting_def split: option.split_asm if_split_asm)
  moreover have "keeps w (net_put self taken t1 w)"
    using accounted_keeps [OF w t accounted_status [OF s(2), of "t_status t1"]] by simp
  ultimately show ?thesis using accounted_keeps [OF w t accounted_status [OF s(2)]] by auto
qed

lemma check_listener_keeps:
  assumes w: "net_ok w" and check: "check_listener junk conn_in d self new a w = Some (rv, w')" and new: "n_trans w new = None"
    and d: "\<And>t. t_wait_s (d t) = t_wait_s t"
    and cb: "\<And>f w r w'. conn_in = Some f \<Longrightarrow> f self new w = Some (r, w') \<Longrightarrow> acts junk w w'"
  shows "keeps w w'"
proof -
  obtain t where t: "net_get self w = Some t" using check by (auto simp: check_listener_def Option.bind_eq_Some_conv)
  let ?t = "(trans_create junk (t_mode t) (s_size (t_in_s t)) (s_size (t_out_s t)) :: 'a trans)
     \<lparr>t_sck := p_accept a, t_type1 := TRANS_TYPE_SERVER, t_status := TRANS_STATUS_UP\<rparr>"
  consider (same) "w' = w" | (down) "w' = net_put self [] (t\<lparr>t_status := TRANS_STATUS_DOWN\<rparr>) w"
    | (closed) "w' = w\<lparr>n_closed := n_closed w @ [p_accept a]\<rparr>"
    | (call) f r w1 where "conn_in = Some f" "f self new (net_put new [] ?t w) = Some (r, w1)"
      "w' = (if r \<noteq> 0 then trans_delete d new w1 else w1)"
    using check t unfolding check_listener_def
    by (auto simp: Option.bind_eq_Some_conv Let_def split: if_split_asm option.split_asm)
  then show ?thesis
  proof cases
    case same
    then show ?thesis using keeps_refl [OF w] by simp
  next
    case down
    then show ?thesis using local_keeps [OF w t] by simp
  next
    case closed
    have "net_ok w'" "waiting_for k w' = waiting_for k w" for k
      using w unfolding closed by (simp_all add: net_ok_def net_get_iff waiting_for_def)
    then show ?thesis unfolding closed by (simp add: keeps_def net_balance_def)
  next
    case (call f r w1)
    have "t_wait_s ?t = []" "t_my_source ?t < XRDP_SOURCE_MAX_COUNT" "t_si ?t = None" by (simp_all add: trans_create_def)
    then have k1: "keeps w (net_put new [] ?t w)" using net_new_keeps [OF w new, of ?t] by blast
    have k2: "keeps w w1" by (rule keeps_trans [OF k1 acts_keeps [OF cb [OF call(1,2)] keepsD [OF k1]]])
    have "keeps w1 w'"
      using trans_delete_keeps [OF keepsD [OF k2], of d new] d keeps_refl [OF keepsD [OF k2]] call(3) by simp
    then show ?thesis by (rule keeps_trans [OF k2])
  qed
qed

lemma net_step_keeps:
  assumes "net_step junk w w'" and w: "net_ok w"
  shows "keeps w w'"
  using assms(1)
proof cases
  case net_act
  then show ?thesis using act_keeps w by blast
next
  case (net_poll data_in conn_in d self new a rv)
  note poll = net_poll
  show ?thesis
  proof (cases "net_get self w")
    case None
    then show ?thesis using poll(1) keeps_refl [OF w] by (simp add: trans_check_wait_objs_def)
  next
    case (Some t)
    consider (same) "w' = w" | (listen) r where "check_listener junk conn_in d self new a w = Some (r, w')"
      | (early) v where "check_input junk data_in self a w = Some (Inl v, w')"
      | (flush) v w1 where "check_input junk data_in self a w = Some (Inr v, w1)" "flush_waiting self v (p_answers a) w1 = Some (rv, w')"
      using poll(1) Some unfolding trans_check_wait_objs_def
      by (auto split: if_split_asm sum.split_asm Option.bind_split_asm)
    then show ?thesis
    proof cases
      case same
      then show ?thesis using keeps_refl [OF w] by simp
    next
      case listen
      then show ?thesis using check_listener_keeps [OF w _ poll(2,3)] poll(5) by blast
    next
      case early
      then show ?thesis using check_input_keeps [OF w] poll(4) by blast
    next
      case (flush v w1)
      have k1: "keeps w w1" using check_input_keeps [OF w flush(1)] poll(4) by blast
      show ?thesis by (rule keeps_trans [OF k1 flush_waiting_keeps [OF keepsD [OF k1] flush(2)]])
    qed
  qed
qed

lemma net_steps_keep: "rtranclp (net_step junk) w w' \<Longrightarrow> net_ok w \<Longrightarrow> keeps w w'"
  by (induction rule: rtranclp_induct) (use keeps_refl keeps_trans keepsD net_step_keeps in blast)+

subsection \<open>Charges are exact, and a lost charge blocks for ever\<close>

text \<open>The state of a program before it has any transport.\<close>

definition net_start :: "'x net" where
  "net_start = \<lparr>n_si = \<lparr>cur_source = XRDP_SOURCE_NONE, source = replicate XRDP_SOURCE_MAX_COUNT 0\<rparr>,
     n_trans = (\<lambda>_. None), n_sent = (\<lambda>_. []), n_closed = [], n_leaked = []\<rparr>"

lemma net_start_ok: "net_ok net_start" "k < XRDP_SOURCE_MAX_COUNT \<Longrightarrow> net_balance k net_start = 0"
  by (simp_all add: net_ok_def net_start_def si_ok_def net_get_def net_balance_def waiting_for_def)

lemma net_reachable:
  assumes "rtranclp (net_step junk) net_start w" and "k < XRDP_SOURCE_MAX_COUNT"
  shows "net_ok w \<and> source (n_si w) ! k = waiting_for k w + charge k (n_leaked w)"
proof -
  have k: "keeps net_start w" by (rule net_steps_keep [OF assms(1) net_start_ok(1)])
  then have "net_balance k w = 0" using net_start_ok(2) [OF assms(2)] assms(2) by (auto simp: keeps_def)
  then show ?thesis using keepsD [OF k] by (simp add: net_balance_def)
qed

lemma waiting_nonneg: "0 \<le> waiting_for k w"
  by (simp add: waiting_for_def sum_nonneg)

lemma source_blocked_iff:
  "net_ok w \<Longrightarrow> net_get i w = Some t \<Longrightarrow> t_si t \<noteq> None \<Longrightarrow>
     source_blocked t = Some (0 < source (n_si w) ! t_my_source t)"
  using net_get_si [of i w t] by (auto simp: source_blocked_def net_ok_def trans_ok_def si_ok_def list_get_def)


text \<open>
  C13. Deleting a transport while bytes wait on it leaves their charge behind for good: whatever
  happens afterwards, a transport of that source is never offered for reading again, and polling
  it reads nothing.
\<close>

theorem deleted_charge_blocks:
  assumes "rtranclp (net_step junk) net_start w" and "k < XRDP_SOURCE_MAX_COUNT" and "0 < charge k (n_leaked w)"
    and "rtranclp (net_step junk) w w'" and "net_get i w' = Some t" and "t_si t \<noteq> None" and "t_my_source t = k"
  shows "source_blocked t = Some True \<and> check_input junk data_in i a w' = Some (Inr 0, w') \<and>
     (\<forall>robjs wobjs rv robjs' wobjs'. trans_get_wait_objs_rw (Some t) robjs wobjs = Some (rv, robjs', wobjs') \<longrightarrow> robjs' = robjs)"
proof -
  have ok: "net_ok w" using net_reachable [OF assms(1,2)] by simp
  have "rtranclp (net_step junk) net_start w'" using assms(1,4) by simp
  then have r: "net_ok w'" "source (n_si w') ! k = waiting_for k w' + charge k (n_leaked w')"
    using net_reachable assms(2) by blast+
  obtain more where "n_leaked w' = n_leaked w @ more" using net_steps_keep [OF assms(4) ok] by (auto simp: keeps_def)
  then have "0 < source (n_si w') ! k"
    using r(2) assms(3) waiting_nonneg [of k w'] charge_nonneg [of k more] by (simp del: charge_nonneg)
  then have b: "source_blocked t = Some True" using source_blocked_iff [OF r(1) assms(5,6)] assms(7) by simp
  then show ?thesis
    using assms(5) by (auto simp: check_input_def trans_get_wait_objs_rw_def split: if_split_asm)
qed

subsection \<open>A concrete program\<close>

text \<open>
  A client transport (handle 0, source 1) and a channel transport (handle 1, source 3) whose socket
  is busy: processing client input leaves two bytes waiting, then the channel transport is deleted.
\<close>

definition ex_busy :: attempt where
  "ex_busy = \<lparr>a_can = False, a_sent = 0, a_would_block = False, a_term = False\<rparr>"

definition ex_out :: stream where
  "ex_out = (buf [7, 8] 0 2)"

definition ex_data_in :: "nat \<Rightarrow> unit net \<Rightarrow> (int \<times> unit net) option" where
  "ex_data_in self w =
     do { t \<leftarrow> net_get 1 w;
          (rv, taken, t) \<leftarrow> do_output (\<lambda>_. 0) (Copy [] ex_busy ex_out) t;
          Some (0, net_put 1 taken t w) }"

definition ex_make :: "nat \<Rightarrow> nat \<Rightarrow> unit net \<Rightarrow> unit net" where
  "ex_make i k w =
     (let t = trans_create (\<lambda>_. 0) 2 0 0; w = net_put i [] t w;
          t = t\<lparr>t_si := Some (n_si w), t_my_source := k\<rparr>; w = net_put i [] t w
      in net_put i [] (t\<lparr>t_status := TRANS_STATUS_UP\<rparr>) w)"

definition ex_poll :: poll where
  "ex_poll = \<lparr>p_can = True, p_accept = -1,
     p_recv = \<lparr>r_can = False, r_fail = False, r_data = [], r_would_block = False, r_term = False\<rparr>, p_answers = []\<rparr>"

lemma ex_make_steps:
  assumes "n_trans w i = None" and "k < XRDP_SOURCE_MAX_COUNT"
  shows "rtranclp (net_step (\<lambda>_. 0)) w (ex_make i k w)"
proof -
  let ?t = "trans_create (\<lambda>_. 0) 2 0 0 :: unit trans"
  let ?w1 = "net_put i [] ?t w"
  let ?t2 = "?t\<lparr>t_si := Some (n_si ?w1), t_my_source := k\<rparr>"
  let ?w2 = "net_put i [] ?t2 ?w1"
  have si: "t_si ?t = None" by (simp add: trans_create_def)
  have "net_step (\<lambda>_. 0) w ?w1"
    using act_create [where junk = "\<lambda>_. 0"] assms(1) by (blast intro: net_act)
  moreover have "net_get i ?w1 = Some ?t" using si by (simp add: net_get_def)
  then have "net_step (\<lambda>_. 0) ?w1 ?w2"
    using act_join [where junk = "\<lambda>_. 0"] si assms(2) by (blast intro: net_act)
  moreover have "net_get i ?w2 = Some ?t2" by (simp add: net_get_def)
  then have "net_step (\<lambda>_. 0) ?w2 (net_put i [] (?t2\<lparr>t_status := TRANS_STATUS_UP\<rparr>) ?w2)"
    by (intro net_act act_local [where t = ?t2]) simp_all
  ultimately show ?thesis by (simp add: ex_make_def Let_def)
qed

definition ex_net :: "unit net" where
  "ex_net = ex_make 1 3 (ex_make 0 1 net_start)"

lemma ex_data_in_acts: "ex_data_in self w = Some (r, w') \<Longrightarrow> acts (\<lambda>_. 0) w w'"
proof -
  assume "ex_data_in self w = Some (r, w')"
  then obtain t rv taken t' where "net_get 1 w = Some t" "do_output (\<lambda>_. 0) (Copy [] ex_busy ex_out) t = Some (rv, taken, t')"
    "w' = net_put 1 taken t' w"
    by (auto simp: ex_data_in_def Option.bind_eq_Some_conv simp del: do_output.simps)
  moreover have "op_admissible (Copy [] ex_busy ex_out)" by (simp add: marked_def ex_out_def)
  ultimately have "act (\<lambda>_. 0) w w'" using act_output by metis
  then show ?thesis by (simp add: acts_def)
qed

definition ex_polled :: "unit net option" where
  "ex_polled = map_option snd (trans_check_wait_objs (\<lambda>_. 0) (Some ex_data_in) None id 0 2 ex_poll ex_net)"

lemma ex_polled_eval:
  "map_option (\<lambda>w. (source (n_si w), charge 1 (n_leaked (trans_delete id 1 w)),
      map_option (\<lambda>t. (t_si t \<noteq> None, t_my_source t)) (net_get 0 (trans_delete id 1 w)))) ex_polled =
     Some ([0, 2, 0, 0, 0, 0, 0], 2, Some (True, 1))"
  by code_simp

lemma ex_net_free: "n_trans ex_net 2 = None"
  by (simp add: ex_net_def ex_make_def net_start_def Let_def)

lemma ex_reachable:
  obtains w :: "unit net" where "rtranclp (net_step (\<lambda>_. 0)) net_start w" "source (n_si w) = [0, 2, 0, 0, 0, 0, 0]"
    "charge 1 (n_leaked (trans_delete id 1 w)) = 2" "\<exists>t. net_get 0 (trans_delete id 1 w) = Some t \<and> t_si t \<noteq> None \<and> t_my_source t = 1"
proof -
  obtain w where w: "ex_polled = Some w" "source (n_si w) = [0, 2, 0, 0, 0, 0, 0]" "charge 1 (n_leaked (trans_delete id 1 w)) = 2"
    "\<exists>t. net_get 0 (trans_delete id 1 w) = Some t \<and> t_si t \<noteq> None \<and> t_my_source t = 1"
    using ex_polled_eval by auto
  then obtain rv where "trans_check_wait_objs (\<lambda>_. 0) (Some ex_data_in) None id 0 2 ex_poll ex_net = Some (rv, w)"
    by (auto simp: ex_polled_def)
  then have "net_step (\<lambda>_. 0) ex_net w"
    by (rule net_poll) (use ex_net_free ex_data_in_acts in auto)
  moreover have "rtranclp (net_step (\<lambda>_. 0)) net_start ex_net"
    unfolding ex_net_def
    by (rule rtranclp_trans [OF ex_make_steps ex_make_steps]) (simp_all add: net_start_def ex_make_def Let_def)
  ultimately show ?thesis using that [of w] w(2-4) by (metis rtranclp.rtrancl_into_rtrancl)
qed


lemma deleted_charge_blocks_witness:
  "\<exists>(w :: unit net) t. rtranclp (net_step (\<lambda>_. 0)) net_start w \<and> net_get 0 w = Some t \<and> t_my_source t = 1 \<and> source_blocked t = Some True \<and>
     n_trans w 1 = None"
proof -
  obtain w :: "unit net" where w: "rtranclp (net_step (\<lambda>_. 0)) net_start w" "charge 1 (n_leaked (trans_delete id 1 w)) = 2"
    "\<exists>t. net_get 0 (trans_delete id 1 w) = Some t \<and> t_si t \<noteq> None \<and> t_my_source t = 1" by (rule ex_reachable)
  then obtain t where t: "net_get 0 (trans_delete id 1 w) = Some t" "t_si t \<noteq> None" "t_my_source t = 1" by blast
  have "net_step (\<lambda>_. 0) w (trans_delete id 1 w)"
    by (rule net_act, rule act_delete) simp
  then have r: "rtranclp (net_step (\<lambda>_. 0)) net_start (trans_delete id 1 w)" using w(1) by simp
  have "source_blocked t = Some True"
    using deleted_charge_blocks [OF r _ _ rtranclp.rtrancl_refl t] w(2) by simp
  moreover have "n_trans (trans_delete id 1 w) 1 = None"
    by (simp add: trans_delete_def Let_def net_get_def split: option.splits)
  ultimately show ?thesis using r t by blast
qed

end
