(* ===== verification/Fifo.thy ===== *)
theory Fifo
  imports Xrdp_Prelude
begin

text \<open>
  \<^verbatim>\<open>common/fifo.c\<close>: an unbounded queue of item pointers in a chain of fixed-size chunks. The
  chain from \<^verbatim>\<open>first_chunk\<close> to \<^verbatim>\<open>last_chunk\<close> is a list of arrays, never empty, so that
  \<^verbatim>\<open>first_chunk != last_chunk\<close> says that it has more than one element. An item pointer and
  the queue pointer are options (\<^term>\<open>None\<close> is NULL); allocation may fail, and fresh memory
  holds arbitrary pointers (\<^term>\<open>junk\<close>).
\<close>

abbreviation (input) ITEMS_PER_CHUNK :: nat where "ITEMS_PER_CHUNK \<equiv> 31"

record 'a fifo =
  chunks :: "'a option list list"
  writer :: nat
  reader :: nat

definition new_chunk :: "(nat \<Rightarrow> 'a option) \<Rightarrow> 'a option list" where
  "new_chunk junk = map junk [0..<ITEMS_PER_CHUNK]"

definition fifo_create :: "bool \<Rightarrow> bool \<Rightarrow> (nat \<Rightarrow> 'a option) \<Rightarrow> 'a fifo option" where
  "fifo_create ok1 ok2 junk =
     (if ok1 \<and> ok2 then Some \<lparr>chunks = [new_chunk junk], writer = 0, reader = 0\<rparr> else None)"

text \<open>
  The items the destructor is called on, in order; a read outside a chunk or past the end of
  the chain is \<^term>\<open>None\<close>. The loop ends at \<^verbatim>\<open>last_chunk\<close>, the only chunk with no successor.
\<close>

function destroy_chunks :: "'a option list list \<Rightarrow> nat \<Rightarrow> nat \<Rightarrow> 'a option list option" where
  "destroy_chunks [] i w = None"
| "destroy_chunks [last_chunk] i w =
     (if i < w
      then do { it \<leftarrow> list_get last_chunk i; rest \<leftarrow> destroy_chunks [last_chunk] (Suc i) w;
                Some (it # rest) }
      else Some [])"
| "destroy_chunks (c # c' # cs) i w =
     do { it \<leftarrow> list_get c i;
          rest \<leftarrow> (if Suc i = ITEMS_PER_CHUNK then destroy_chunks (c' # cs) 0 w
                  else if i < ITEMS_PER_CHUNK then destroy_chunks (c # c' # cs) (Suc i) w
                  else None);
          Some (it # rest) }"
  by pat_completeness auto
termination
  by (relation "measures [\<lambda>(cs, i, w). length cs,
        \<lambda>(cs, i, w). if length cs = 1 then w - i else ITEMS_PER_CHUNK - i]") auto

declare destroy_chunks.simps(2,3) [simp del]

definition call_item_destructor :: "bool \<Rightarrow> 'a fifo \<Rightarrow> 'a option list option" where
  "call_item_destructor has_destructor q =
     (if has_destructor then destroy_chunks (chunks q) (reader q) (writer q) else Some [])"

definition fifo_delete :: "bool \<Rightarrow> 'a fifo option \<Rightarrow> 'a option list option" where
  "fifo_delete has_destructor self =
     (case self of None \<Rightarrow> Some [] | Some q \<Rightarrow> call_item_destructor has_destructor q)"

definition fifo_clear :: "bool \<Rightarrow> 'a fifo option \<Rightarrow> ('a option list \<times> 'a fifo option) option" where
  "fifo_clear has_destructor self =
     (case self of
        None \<Rightarrow> Some ([], None)
      | Some q \<Rightarrow>
          do { destroyed \<leftarrow> call_item_destructor has_destructor q;
               Some (destroyed, Some \<lparr>chunks = [last (chunks q)], writer = 0, reader = 0\<rparr>) })"

definition fifo_add_item ::
  "bool \<Rightarrow> (nat \<Rightarrow> 'a option) \<Rightarrow> 'a fifo option \<Rightarrow> 'a option \<Rightarrow> (int \<times> 'a fifo option) option" where
  "fifo_add_item ok junk self item =
     (case self of
        None \<Rightarrow> Some (0, None)
      | Some q \<Rightarrow>
          if item = None then Some (0, self)
          else if writer q = ITEMS_PER_CHUNK \<and> \<not> ok then Some (0, self)
          else do { let q = (if writer q = ITEMS_PER_CHUNK
                            then q\<lparr>chunks := chunks q @ [new_chunk junk], writer := 0\<rparr> else q);
                    c \<leftarrow> list_set (last (chunks q)) (writer q) item;
                    Some (1, Some (q\<lparr>chunks := butlast (chunks q) @ [c], writer := writer q + 1\<rparr>)) })"

definition fifo_remove_item :: "'a fifo option \<Rightarrow> ('a option \<times> 'a fifo option) option" where
  "fifo_remove_item self =
     (case self of
        None \<Rightarrow> Some (None, None)
      | Some q \<Rightarrow>
          if length (chunks q) > 1 then
            do { it \<leftarrow> list_get (hd (chunks q)) (reader q);
                 let q = q\<lparr>reader := reader q + 1\<rparr>;
                 Some (it, Some (if reader q = ITEMS_PER_CHUNK
                                 then q\<lparr>chunks := tl (chunks q), reader := 0\<rparr> else q)) }
          else if reader q < writer q then
            do { it \<leftarrow> list_get (hd (chunks q)) (reader q);
                 let q = q\<lparr>reader := reader q + 1\<rparr>;
                 Some (it, Some (if reader q = writer q then q\<lparr>reader := 0, writer := 0\<rparr> else q)) }
          else Some (None, Some q))"

definition fifo_is_empty :: "'a fifo option \<Rightarrow> bool" where
  "fifo_is_empty self =
     (case self of None \<Rightarrow> True | Some q \<Rightarrow> length (chunks q) = 1 \<and> reader q = writer q)"

subsection \<open>Contents and invariant\<close>

definition fifo_slots :: "'a fifo \<Rightarrow> 'a option list" where
  "fifo_slots q = drop (reader q) (concat (butlast (chunks q)) @ take (writer q) (last (chunks q)))"

definition fifo_items :: "'a fifo \<Rightarrow> 'a list" where
  "fifo_items q = map the (fifo_slots q)"

text \<open>
  Every chunk is a full array; the reader is inside the first chunk, and behind the writer when
  that is the last chunk too. A chain of several chunks is not empty, and an emptied queue of
  one chunk has its positions reset.
\<close>

definition fifo_inv :: "'a fifo \<Rightarrow> bool" where
  "fifo_inv q \<longleftrightarrow>
     chunks q \<noteq> [] \<and> (\<forall>c \<in> set (chunks q). length c = ITEMS_PER_CHUNK) \<and>
     writer q \<le> ITEMS_PER_CHUNK \<and> reader q < ITEMS_PER_CHUNK \<and>
     (if length (chunks q) = 1 then reader q \<le> writer q else 0 < writer q) \<and>
     None \<notin> set (fifo_slots q)"


lemma fifo_slots_parts:
  "chunks q = bs @ [l] \<Longrightarrow> fifo_slots q = drop (reader q) (concat bs @ take (writer q) l)"
  by (simp add: fifo_slots_def)

lemma fifo_chunks_parts:
  assumes "fifo_inv q"
  obtains bs l where "chunks q = bs @ [l]" "length l = ITEMS_PER_CHUNK"
    "\<forall>c \<in> set bs. length c = ITEMS_PER_CHUNK"
    "reader q \<le> length (concat bs) + writer q"
proof -
  obtain bs l where cs: "chunks q = bs @ [l]"
    using assms by (cases "chunks q" rule: rev_cases) (auto simp: fifo_inv_def)
  have "reader q \<le> length (concat bs) + writer q"
  proof (cases bs)
    case Nil
    then show ?thesis using assms cs by (simp add: fifo_inv_def)
  next
    case (Cons b bs')
    then show ?thesis using assms cs by (simp add: fifo_inv_def)
  qed
  with cs assms show thesis by (intro that) (auto simp: fifo_inv_def)
qed

lemma new_chunk_length [simp]: "length (new_chunk junk) = 31"
  by (simp add: new_chunk_def)

lemma fifo_add_ok:
  assumes "fifo_inv q" and "writer q = ITEMS_PER_CHUNK \<longrightarrow> ok"
  shows "\<exists>q'. fifo_add_item ok junk (Some q) (Some x) = Some (1, Some q') \<and> fifo_inv q' \<and>
           fifo_items q' = fifo_items q @ [x]"
proof -
  obtain bs l where cs: "chunks q = bs @ [l]" "length l = 31" "\<forall>c \<in> set bs. length c = 31"
    "reader q \<le> length (concat bs) + writer q"
    using fifo_chunks_parts [OF assms(1)] .
  note slots = fifo_slots_parts [OF cs(1)]
  have w: "writer q \<le> 31" "reader q < 31" "None \<notin> set (fifo_slots q)"
    using assms(1) by (auto simp: fifo_inv_def)
  show ?thesis
  proof (cases "writer q = 31")
    case True
    let ?q = "q\<lparr>chunks := (bs @ [l]) @ [(new_chunk junk)[0 := Some x]], writer := 1\<rparr>"
    have first: "take (Suc 0) ((new_chunk junk)[0 := Some x]) = [Some x]"
      by (subst take_Suc_update) simp_all
    have "fifo_slots ?q = fifo_slots q @ [Some x]"
      using fifo_slots_parts [of ?q "bs @ [l]" "(new_chunk junk)[0 := Some x]"] slots True cs
      by (simp add: first)
    then show ?thesis
      using True assms cs w
      by (intro exI [of _ ?q]) (auto simp: fifo_add_item_def Let_def fifo_inv_def fifo_items_def butlast_append)
  next
    case False
    let ?q = "q\<lparr>chunks := bs @ [l[writer q := Some x]], writer := writer q + 1\<rparr>"
    have "fifo_slots ?q = fifo_slots q @ [Some x]"
      using fifo_slots_parts [of ?q bs "l[writer q := Some x]"] slots False cs w
      by (simp add: take_Suc_update)
    then show ?thesis
      using False assms cs w by (intro exI [of _ ?q]) (auto simp: fifo_add_item_def Let_def fifo_inv_def fifo_items_def)
  qed
qed

lemma fifo_add_fail:
  "fifo_add_item False junk (Some q) (Some x) =
     (if writer q = ITEMS_PER_CHUNK then Some (0, Some q) else fifo_add_item True junk (Some q) (Some x))"
  by (simp add: fifo_add_item_def)

lemma fifo_slots_empty:
  assumes "fifo_inv q"
  shows "fifo_slots q = [] \<longleftrightarrow> fifo_is_empty (Some q)"
proof -
  obtain bs l where cs: "chunks q = bs @ [l]" "length l = 31" "\<forall>c \<in> set bs. length c = 31"
    using fifo_chunks_parts [OF assms] .
  show ?thesis
  proof (cases bs)
    case Nil
    with assms cs fifo_slots_parts [OF cs(1)] show ?thesis
      by (auto simp: fifo_is_empty_def fifo_inv_def)
  next
    case (Cons b bs')
    with assms cs fifo_slots_parts [OF cs(1)] show ?thesis
      by (auto simp: fifo_is_empty_def fifo_inv_def)
  qed
qed

lemma fifo_remove_ok:
  assumes "fifo_inv q" and "fifo_items q = x # xs"
  shows "\<exists>q'. fifo_remove_item (Some q) = Some (Some x, Some q') \<and> fifo_inv q' \<and> fifo_items q' = xs"
proof -
  obtain bs l where cs: "chunks q = bs @ [l]" "length l = 31" "\<forall>c \<in> set bs. length c = 31"
    using fifo_chunks_parts [OF assms(1)] .
  have w: "writer q \<le> 31" "reader q < 31" "None \<notin> set (fifo_slots q)"
    using assms(1) by (auto simp: fifo_inv_def)
  obtain ys where slots: "fifo_slots q = Some x # ys" "map the ys = xs" "None \<notin> set ys"
    using assms(2) w(3) by (auto simp: fifo_items_def)
  have sl: "drop (reader q) (concat bs @ take (writer q) l) = Some x # ys"
    using fifo_slots_parts [OF cs(1)] slots by simp
  have tl: "drop (Suc (reader q)) (concat bs @ take (writer q) l) = ys"
    using sl by (metis drop_Suc list.sel(3) tl_drop)
  have hd: "(concat bs @ take (writer q) l) ! reader q = Some x"
    using sl by (metis hd_drop_conv_nth list.distinct(1) list.sel(1) drop_all not_le)
  show ?thesis
  proof (cases bs)
    case Nil
    have less: "reader q < writer q"
      using sl Nil by (cases "reader q < writer q") auto
    then have r: "reader q < writer q" "l ! reader q = Some x"
      using hd Nil by simp_all
    let ?q = "if Suc (reader q) = writer q then q\<lparr>reader := 0, writer := 0\<rparr> else q\<lparr>reader := Suc (reader q)\<rparr>"
    have "fifo_slots ?q = ys"
      using tl Nil cs r by (auto simp: fifo_slots_def)
    then show ?thesis
      using Nil cs r w slots
      by (intro exI [of _ ?q]) (auto simp: fifo_remove_item_def Let_def fifo_inv_def fifo_items_def)
  next
    case (Cons b bs')
    have b: "length b = 31" "b ! reader q = Some x"
      using Cons cs hd w by (auto simp: nth_append)
    let ?q = "if Suc (reader q) = 31 then q\<lparr>chunks := bs' @ [l], reader := 0\<rparr> else q\<lparr>reader := Suc (reader q)\<rparr>"
    have "fifo_slots ?q = ys"
    proof (cases "Suc (reader q) = 31")
      case True
      then show ?thesis
        using tl Cons b fifo_slots_parts [of ?q bs' l] by simp
    next
      case False
      then show ?thesis
        using tl Cons b fifo_slots_parts [of ?q bs l] cs by simp
    qed
    moreover have "0 < writer q" using assms(1) Cons cs by (simp add: fifo_inv_def)
    ultimately show ?thesis
      using Cons cs b w slots
      by (intro exI [of _ ?q]) (auto simp: fifo_remove_item_def Let_def fifo_inv_def fifo_items_def)
  qed
qed


lemma fifo_remove_empty:
  assumes "fifo_inv q" and "fifo_items q = []"
  shows "fifo_remove_item (Some q) = Some (None, Some q)"
proof -
  have "fifo_is_empty (Some q)"
    using assms fifo_slots_empty [OF assms(1)] by (simp add: fifo_items_def)
  then show ?thesis by (simp add: fifo_is_empty_def fifo_remove_item_def)
qed

subsection \<open>The destructor loop\<close>

lemma destroy_last_chunk:
  "w \<le> length l \<Longrightarrow> destroy_chunks [l] i w = Some (drop i (take w l))"
proof (induction "w - i" arbitrary: i)
  case (Suc n)
  then have "i < w" by simp
  with Suc.hyps(1) [of "Suc i"] Suc.hyps(2) Suc.prems show ?case
    by (simp add: destroy_chunks.simps(2) Cons_nth_drop_Suc [symmetric, of i "take w l"])
qed (simp add: destroy_chunks.simps(2))

lemma destroy_chunk:
  "i < 31 \<Longrightarrow> length c = 31 \<Longrightarrow> destroy_chunks (c' # cs) 0 w = Some rest \<Longrightarrow>
     destroy_chunks (c # c' # cs) i w = Some (drop i c @ rest)"
proof (induction "31 - i" arbitrary: i)
  case (Suc n)
  have d: "drop i c = c ! i # drop (Suc i) c"
    using Suc.prems by (simp add: Cons_nth_drop_Suc)
  show ?case
  proof (cases "Suc i = 31")
    case True
    with Suc.prems d show ?thesis
      by (subst destroy_chunks.simps(3)) (simp del: destroy_chunks.simps)
  next
    case False
    then have "destroy_chunks (c # c' # cs) (Suc i) w = Some (drop (Suc i) c @ rest)"
      using Suc.hyps(2) Suc.prems by (intro Suc.hyps(1)) (simp_all del: destroy_chunks.simps)
    with False Suc.prems d show ?thesis
      by (subst destroy_chunks.simps(3)) (simp del: destroy_chunks.simps(3))
  qed
qed simp

lemma destroy_chunks_eq:
  "\<forall>c \<in> set bs. length c = 31 \<Longrightarrow> w \<le> length l \<Longrightarrow> i < 31 \<Longrightarrow>
     destroy_chunks (bs @ [l]) i w = Some (drop i (concat bs @ take w l))"
proof (induction bs arbitrary: i)
  case Nil
  then show ?case by (simp add: destroy_last_chunk)
next
  case (Cons b bs)
  then have rest: "destroy_chunks (bs @ [l]) 0 w = Some (concat bs @ take w l)"
    using Cons.IH [of 0] by simp
  show ?case
  proof (cases bs)
    case Nil
    then show ?thesis using Cons.prems rest destroy_chunk [of i b l "[]" w] by simp
  next
    case (Cons b' bs')
    then show ?thesis using Cons.prems rest destroy_chunk [of i b b' "bs' @ [l]" w] by simp
  qed
qed

lemma call_item_destructor_eq:
  assumes "fifo_inv q"
  shows "call_item_destructor True q = Some (map Some (fifo_items q))"
proof -
  obtain bs l where cs: "chunks q = bs @ [l]" "length l = 31" "\<forall>c \<in> set bs. length c = 31"
    using fifo_chunks_parts [OF assms] .
  have "map Some (fifo_items q) = fifo_slots q"
    using assms unfolding fifo_items_def fifo_inv_def
    by (auto simp: comp_def intro!: map_idI split: option.splits) (metis not_None_eq option.sel)
  then show ?thesis
    using destroy_chunks_eq [of bs "writer q" l "reader q"] cs fifo_slots_parts [OF cs(1)] assms
    by (simp add: call_item_destructor_def fifo_inv_def)
qed

subsection \<open>The queue contract\<close>

text \<open>
  What a user of a queue relies on. An insertion takes an environment (whether memory is
  available, and what fresh memory holds) and reports success with a nonzero result.
\<close>

datatype ('m, 'a) queue_op = Put 'm 'a | Get

text \<open>A history of operations: the items accepted and the items delivered, in order.\<close>

fun queue_run ::
  "('m \<Rightarrow> 'q \<Rightarrow> 'a \<Rightarrow> (int \<times> 'q) option) \<Rightarrow> ('q \<Rightarrow> ('a option \<times> 'q) option) \<Rightarrow>
   ('m, 'a) queue_op list \<Rightarrow> 'q \<Rightarrow> ('a list \<times> 'a list \<times> 'q) option" where
  "queue_run put get [] q = Some ([], [], q)"
| "queue_run put get (Put m x # ops) q =
     do { (rv, q) \<leftarrow> put m q x;
          (acc, out, q) \<leftarrow> queue_run put get ops q;
          Some (if rv = 0 then acc else x # acc, out, q) }"
| "queue_run put get (Get # ops) q =
     do { (x, q) \<leftarrow> get q;
          (acc, out, q) \<leftarrow> queue_run put get ops q;
          Some (acc, (case x of None \<Rightarrow> out | Some x \<Rightarrow> x # out), q) }"

locale queue =
  fixes inv :: "'q \<Rightarrow> bool"
    and items :: "'q \<Rightarrow> 'a list"
    and put :: "'m \<Rightarrow> 'q \<Rightarrow> 'a \<Rightarrow> (int \<times> 'q) option"
    and get :: "'q \<Rightarrow> ('a option \<times> 'q) option"
  assumes put_result: "inv q \<Longrightarrow> \<exists>rv q'. put m q x = Some (rv, q') \<and> inv q' \<and>
      items q' = (if rv = 0 then items q else items q @ [x])"
    and get_empty: "inv q \<Longrightarrow> items q = [] \<Longrightarrow> \<exists>q'. get q = Some (None, q') \<and> inv q' \<and> items q' = []"
    and get_item: "inv q \<Longrightarrow> items q = x # xs \<Longrightarrow> \<exists>q'. get q = Some (Some x, q') \<and> inv q' \<and> items q' = xs"
begin

lemma run_order:
  "inv q \<Longrightarrow> \<exists>acc out q'. queue_run put get ops q = Some (acc, out, q') \<and> inv q' \<and>
     items q @ acc = out @ items q'"
proof (induction ops arbitrary: q)
  case Nil
  then show ?case by simp
next
  case (Cons op ops)
  show ?case
  proof (cases op)
    case (Put m x)
    obtain rv q1 where "put m q x = Some (rv, q1)" "inv q1"
      "items q1 = (if rv = 0 then items q else items q @ [x])"
      using put_result [OF Cons.prems] by blast
    with Cons.IH [of q1] Put show ?thesis by auto
  next
    case Get
    show ?thesis
    proof (cases "items q")
      case Nil
      obtain q1 where "get q = Some (None, q1)" "inv q1" "items q1 = []"
        using get_empty [OF Cons.prems Nil] by blast
      with Cons.IH [of q1] Get Nil show ?thesis by auto
    next
      case (Cons x xs)
      obtain q1 where "get q = Some (Some x, q1)" "inv q1" "items q1 = xs"
        using get_item [OF \<open>inv q\<close> Cons] by blast
      with Cons.IH [of q1] Get Cons show ?thesis by auto
    qed
  qed
qed

lemma drain:
  assumes "inv q" and "n = length (items q)"
  shows "\<exists>q'. queue_run put get (replicate n Get) q = Some ([], items q, q') \<and> inv q' \<and> items q' = []"
  using assms
proof (induction n arbitrary: q)
  case (Suc n)
  then obtain x xs where xs: "items q = x # xs" by (cases "items q") auto
  obtain q1 where "get q = Some (Some x, q1)" "inv q1" "items q1 = xs"
    using get_item [OF Suc.prems(1) xs] by blast
  with Suc.IH [of q1] Suc.prems xs show ?case by auto
qed simp

end

text \<open>The queue of \<^verbatim>\<open>fifo.c\<close> meets the contract.\<close>

definition fifo_put :: "bool \<times> (nat \<Rightarrow> 'a option) \<Rightarrow> 'a fifo option \<Rightarrow> 'a \<Rightarrow> (int \<times> 'a fifo option) option" where
  "fifo_put env self x = fifo_add_item (fst env) (snd env) self (Some x)"

definition fifo_ok :: "'a fifo option \<Rightarrow> bool" where
  "fifo_ok self = (case self of None \<Rightarrow> False | Some q \<Rightarrow> fifo_inv q)"

definition fifo_contents :: "'a fifo option \<Rightarrow> 'a list" where
  "fifo_contents self = (case self of None \<Rightarrow> [] | Some q \<Rightarrow> fifo_items q)"

lemma fifo_put_result:
  assumes "fifo_ok self"
  shows "\<exists>rv self'. fifo_put env self x = Some (rv, self') \<and> fifo_ok self' \<and>
      fifo_contents self' = (if rv = 0 then fifo_contents self else fifo_contents self @ [x])"
proof -
  obtain q where q: "self = Some q" "fifo_inv q"
    using assms by (auto simp: fifo_ok_def split: option.splits)
  show ?thesis
  proof (cases "writer q = ITEMS_PER_CHUNK \<and> \<not> fst env")
    case True
    with q show ?thesis by (auto simp: fifo_put_def fifo_add_item_def fifo_ok_def)
  next
    case False
    then obtain q' where "fifo_add_item (fst env) (snd env) (Some q) (Some x) = Some (1, Some q')"
      "fifo_inv q'" "fifo_items q' = fifo_items q @ [x]"
      using fifo_add_ok [OF q(2), of "fst env" "snd env" x] by auto
    with q show ?thesis by (auto simp: fifo_put_def fifo_ok_def fifo_contents_def)
  qed
qed

interpretation fifo: queue fifo_ok fifo_contents fifo_put fifo_remove_item
proof unfold_locales
  fix self :: "'a fifo option" and env x xs
  assume ok: "fifo_ok self"
  then obtain q where q: "self = Some q" "fifo_inv q"
    by (auto simp: fifo_ok_def split: option.splits)
  show "\<exists>rv self'. fifo_put env self x = Some (rv, self') \<and> fifo_ok self' \<and>
      fifo_contents self' = (if rv = 0 then fifo_contents self else fifo_contents self @ [x])"
    using ok by (rule fifo_put_result)
  show "\<exists>q'. fifo_remove_item self = Some (None, q') \<and> fifo_ok q' \<and> fifo_contents q' = []"
    if "fifo_contents self = []"
    using q that fifo_remove_empty [of q] by (simp add: fifo_ok_def fifo_contents_def)
  show "\<exists>q'. fifo_remove_item self = Some (Some x, q') \<and> fifo_ok q' \<and> fifo_contents q' = xs"
    if "fifo_contents self = x # xs"
    using q that fifo_remove_ok [of q x xs] by (auto simp: fifo_ok_def fifo_contents_def)
qed

text \<open>
  The queue is first-in, first-out, whatever the memory allocator does: for any history of
  insertions and removals on a well-formed queue no operation fails, and the items it held,
  followed by those accepted, are the items delivered, followed by those it still holds.
\<close>

lemma fifo_order:
  assumes "fifo_inv q"
  shows "\<exists>acc out q'. queue_run fifo_put fifo_remove_item ops (Some q) = Some (acc, out, Some q') \<and>
     fifo_inv q' \<and> fifo_items q @ acc = out @ fifo_items q'"
  using fifo.run_order [of "Some q" ops] assms
  by (auto simp: fifo_ok_def fifo_contents_def split: option.splits)

lemma fifo_order_witness:
  "\<exists>acc out q'. queue_run fifo_put fifo_remove_item
       [Put (True, \<lambda>i. None) (7 :: nat), Get, Get, Put (False, \<lambda>i. None) 8]
       (Some \<lparr>chunks = [replicate 31 None], writer = 0, reader = 0\<rparr>) = Some (acc, out, Some q') \<and>
     fifo_inv q' \<and>
     fifo_items (\<lparr>chunks = [replicate 31 None], writer = 0, reader = 0\<rparr> :: nat fifo) @ acc = out @ fifo_items q'"
  by (rule fifo_order) (simp add: fifo_inv_def fifo_slots_def)

text \<open>
  Clearing or deleting a queue calls the item destructor exactly once on every item still
  queued, in queue order, across all chunks; a cleared queue is empty and well-formed.
\<close>

lemma fifo_clear_destroys_all:
  assumes "fifo_inv q"
  shows "\<exists>q'. fifo_clear True (Some q) = Some (map Some (fifo_items q), Some q') \<and> fifo_inv q' \<and>
      fifo_is_empty (Some q') \<and> fifo_items q' = [] \<and>
      fifo_delete True (Some q) = Some (map Some (fifo_items q))"
proof -
  let ?q = "\<lparr>chunks = [last (chunks q)], writer = 0, reader = 0\<rparr>"
  have "fifo_inv ?q" "fifo_is_empty (Some ?q)" "fifo_items ?q = []"
    using assms by (auto simp: fifo_inv_def fifo_slots_def fifo_is_empty_def fifo_items_def)
  then show ?thesis
    using call_item_destructor_eq [OF assms]
    by (intro exI [of _ ?q]) (simp add: fifo_clear_def fifo_delete_def)
qed

lemma fifo_clear_destroys_all_witness:
  "\<exists>q'. fifo_clear True (Some \<lparr>chunks = [(replicate 31 None)[0 := Some (5 :: nat)]], writer = 1, reader = 0\<rparr>) =
     Some ([Some 5], Some q') \<and> fifo_inv q'"
  using fifo_clear_destroys_all
    [of "\<lparr>chunks = [(replicate 31 None)[0 := Some (5 :: nat)]], writer = 1, reader = 0\<rparr>"]
  by (auto simp: fifo_inv_def fifo_slots_def fifo_items_def take_Suc numeral_eq_Suc)

end
