(* ===== verification/Dechunker.thy ===== *)
theory Dechunker
  imports Parse_Stream
begin

text \<open>
  \<^verbatim>\<open>common/dechunker.c\<close>: reassembly of PDUs from the chunks of static and dynamic virtual
  channels. The pointer \<^verbatim>\<open>reassembly_s\<close> is one of: NULL, a stream whose buffer could not
  be allocated (its \<^verbatim>\<open>data\<close> is NULL but its size is set), or a stream. The arguments
  \<^term>\<open>mem\<close> and \<^term>\<open>junk\<close> say whether the two allocations succeed and what a fresh buffer
  holds. Writing to a NULL or full buffer is undefined (\<^term>\<open>None\<close>). Logging is left out.
\<close>

datatype reassembly = No_stream | Null_data nat | Reasm stream

datatype vc_dechunker_state = E_NO_DATA | E_READING | E_DATA | E_SKIPPING

datatype vc_chunk_type = CT_INTERMEDIATE | CT_FIRST | CT_LAST | CT_FIRST_LAST

datatype vc_dechunker_status = E_VC_INLINE_CHUNK | E_VC_IN_PROGRESS | E_VC_READY | E_VC_ERROR

datatype dyn_dechunker_status = E_DYN_INLINE_CHUNK | E_DYN_IN_PROGRESS | E_DYN_READY | E_DYN_ERROR

record vc_dechunker =
  vc_name :: "byte list"
  max_chunk_size :: int
  vc_state :: vc_dechunker_state
  vc_reassembly_s :: reassembly

record dyn_dechunker =
  dyn_name :: "byte list"
  dyn_reassembly_s :: reassembly

abbreviation (input) E_MAX_VC_CHUNK_SIZE_LOWER_LIMIT :: int where
  "E_MAX_VC_CHUNK_SIZE_LOWER_LIMIT \<equiv> 50"

text \<open>\<^verbatim>\<open>(enum vc_chunk_type)(flags & 3)\<close>\<close>

definition chunk_type :: "int \<Rightarrow> vc_chunk_type" where
  "chunk_type fl = (if fl mod 4 = 0 then CT_INTERMEDIATE else if fl mod 4 = 1 then CT_FIRST
     else if fl mod 4 = 2 then CT_LAST else CT_FIRST_LAST)"

text \<open>\<^verbatim>\<open>make_stream\<close> followed by \<^verbatim>\<open>init_stream\<close> for a new reassembly buffer.\<close>

definition new_reassembly :: "bool \<times> bool \<Rightarrow> (nat \<Rightarrow> byte) \<Rightarrow> nat \<Rightarrow> reassembly" where
  "new_reassembly mem junk n =
     (if \<not> fst mem then No_stream
      else if \<not> snd mem then Null_data n
      else Reasm (init_stream junk n make_stream))"

text \<open>Copying the rest of a chunk to the reassembly buffer: \<^verbatim>\<open>out_uint8p\<close>, \<^verbatim>\<open>in_uint8s\<close>.\<close>

definition copy_chunk :: "stream \<Rightarrow> stream \<Rightarrow> int \<Rightarrow> (stream \<times> stream) option" where
  "copy_chunk r s chunk_size =
     do { (bs, s) \<leftarrow> in_uint8a (nat chunk_size) s;
          r \<leftarrow> out_uint8p bs (nat chunk_size) r;
          Some (r, s) }"

subsection \<open>Static virtual channels\<close>

definition vc_dechunker_init :: "bool \<Rightarrow> byte list option \<Rightarrow> int \<Rightarrow> vc_dechunker option" where
  "vc_dechunker_init ok chan_name max_size =
     (case chan_name of
        None \<Rightarrow> None
      | Some name \<Rightarrow>
          if max_size < E_MAX_VC_CHUNK_SIZE_LOWER_LIMIT then None
          else if \<not> ok then None
          else Some \<lparr>vc_name = take 63 name, max_chunk_size = max_size, vc_state = E_NO_DATA,
                     vc_reassembly_s = No_stream\<rparr>)"

definition vc_dechunker_reset :: "vc_dechunker \<Rightarrow> vc_dechunker" where
  "vc_dechunker_reset self = self\<lparr>vc_reassembly_s := No_stream, vc_state := E_NO_DATA\<rparr>"

definition log_unexpected_vc_chunk_type :: "vc_dechunker \<Rightarrow> vc_dechunker" where
  "log_unexpected_vc_chunk_type self = self\<lparr>vc_state := E_SKIPPING\<rparr>"

definition handle_no_data_state ::
  "bool \<times> bool \<Rightarrow> (nat \<Rightarrow> byte) \<Rightarrow> vc_dechunker \<Rightarrow> stream \<Rightarrow> int \<Rightarrow> int \<Rightarrow> vc_chunk_type \<Rightarrow>
   (vc_dechunker_status \<times> vc_dechunker \<times> stream) option" where
  "handle_no_data_state mem junk self s chunk_size total_size ct =
     (case ct of
        CT_FIRST \<Rightarrow>
          if total_size \<le> max_chunk_size self then Some (E_VC_ERROR, self\<lparr>vc_state := E_SKIPPING\<rparr>, s)
          else if chunk_size \<ge> total_size then Some (E_VC_ERROR, self\<lparr>vc_state := E_SKIPPING\<rparr>, s)
          else (case new_reassembly mem junk (nat total_size) of
                  Reasm r \<Rightarrow>
                    do { (r, s) \<leftarrow> copy_chunk r s chunk_size;
                         Some (E_VC_IN_PROGRESS, self\<lparr>vc_reassembly_s := Reasm r, vc_state := E_READING\<rparr>, s) }
                | r \<Rightarrow> Some (E_VC_ERROR, self\<lparr>vc_reassembly_s := r, vc_state := E_SKIPPING\<rparr>, s))
      | CT_FIRST_LAST \<Rightarrow> Some (E_VC_INLINE_CHUNK, self, s)
      | _ \<Rightarrow> Some (E_VC_ERROR, (log_unexpected_vc_chunk_type self)\<lparr>vc_state := E_SKIPPING\<rparr>, s))"

definition handle_reading_state ::
  "vc_dechunker \<Rightarrow> stream \<Rightarrow> int \<Rightarrow> int \<Rightarrow> vc_chunk_type \<Rightarrow>
   (vc_dechunker_status \<times> vc_dechunker \<times> stream) option" where
  "handle_reading_state self s chunk_size total_size ct =
     (if ct = CT_INTERMEDIATE \<or> ct = CT_LAST then
        (case vc_reassembly_s self of
           Reasm r \<Rightarrow>
             if chunk_size > s_rem_out r then Some (E_VC_ERROR, self\<lparr>vc_state := E_SKIPPING\<rparr>, s)
             else do { (r, s) \<leftarrow> copy_chunk r s chunk_size;
                       if ct = CT_LAST then
                         (if s_rem_out r = 0
                          then (let r = (s_mark_end r)\<lparr>s_p := 0\<rparr> in
                                Some (E_VC_READY, self\<lparr>vc_reassembly_s := Reasm r, vc_state := E_DATA\<rparr>, s))
                          else Some (E_VC_ERROR, self\<lparr>vc_reassembly_s := Reasm r, vc_state := E_SKIPPING\<rparr>, s))
                       else Some (E_VC_IN_PROGRESS, self\<lparr>vc_reassembly_s := Reasm r\<rparr>, s) }
         | _ \<Rightarrow> None)
      else Some (E_VC_ERROR, log_unexpected_vc_chunk_type self, s))"

definition vc_dechunker_process_chunk ::
  "bool \<times> bool \<Rightarrow> (nat \<Rightarrow> byte) \<Rightarrow> vc_dechunker option \<Rightarrow> stream option \<Rightarrow> int \<Rightarrow> int \<Rightarrow>
   (vc_dechunker_status \<times> vc_dechunker option \<times> stream option) option" where
  "vc_dechunker_process_chunk mem junk self_p s_p' fl total_size =
     (let ct = chunk_type fl;
          chunk_size = (case s_p' of None \<Rightarrow> 0 | Some s \<Rightarrow> s_rem s) in
      case (self_p, s_p') of
        (Some self, Some s) \<Rightarrow>
          if total_size < 0 then Some (E_VC_ERROR, Some (self\<lparr>vc_state := E_SKIPPING\<rparr>), s_p')
          else if chunk_size > max_chunk_size self
          then Some (E_VC_ERROR, Some (self\<lparr>vc_state := E_SKIPPING\<rparr>), s_p')
          else
            do { let self = (if vc_state self = E_SKIPPING \<and> (ct = CT_FIRST \<or> ct = CT_FIRST_LAST)
                             then vc_dechunker_reset self else self);
                 (rv, self, s) \<leftarrow>
                   (case vc_state self of
                      E_NO_DATA \<Rightarrow> handle_no_data_state mem junk self s chunk_size total_size ct
                    | E_READING \<Rightarrow> handle_reading_state self s chunk_size total_size ct
                    | E_DATA \<Rightarrow> Some (E_VC_ERROR, self, s)
                    | E_SKIPPING \<Rightarrow> Some (E_VC_IN_PROGRESS, self, s));
                 Some (rv, Some self, Some s) }
      | _ \<Rightarrow> Some (E_VC_ERROR, self_p, s_p'))"

definition vc_dechunker_get_stream :: "vc_dechunker option \<Rightarrow> reassembly \<times> vc_dechunker option" where
  "vc_dechunker_get_stream self_p =
     (case self_p of
        None \<Rightarrow> (No_stream, None)
      | Some self \<Rightarrow>
          if vc_state self \<noteq> E_DATA then (No_stream, self_p)
          else (vc_reassembly_s self, Some (vc_dechunker_reset (self\<lparr>vc_reassembly_s := No_stream\<rparr>))))"

subsection \<open>Dynamic virtual channels\<close>

definition dyn_dechunker_init :: "bool \<Rightarrow> byte list option \<Rightarrow> dyn_dechunker option" where
  "dyn_dechunker_init ok chan_name =
     (case chan_name of
        None \<Rightarrow> None
      | Some name \<Rightarrow> if \<not> ok then None else Some \<lparr>dyn_name = take 63 name, dyn_reassembly_s = No_stream\<rparr>)"

definition dyn_dechunker_process_first_chunk ::
  "bool \<times> bool \<Rightarrow> (nat \<Rightarrow> byte) \<Rightarrow> dyn_dechunker option \<Rightarrow> stream option \<Rightarrow> int \<Rightarrow>
   (dyn_dechunker_status \<times> dyn_dechunker option \<times> stream option) option" where
  "dyn_dechunker_process_first_chunk mem junk self_p s_p' total_size =
     (let frag_size = (case s_p' of None \<Rightarrow> 0 | Some s \<Rightarrow> s_rem s) in
      case (self_p, s_p') of
        (Some self, Some s) \<Rightarrow>
          if total_size \<le> 1590 \<or> frag_size > total_size then Some (E_DYN_ERROR, self_p, s_p')
          else if dyn_reassembly_s self \<noteq> No_stream then Some (E_DYN_ERROR, self_p, s_p')
          else if frag_size = total_size then Some (E_DYN_INLINE_CHUNK, self_p, s_p')
          else (case new_reassembly mem junk (nat total_size) of
                  Reasm r \<Rightarrow>
                    do { (r, s) \<leftarrow> copy_chunk r s frag_size;
                         Some (E_DYN_IN_PROGRESS, Some (self\<lparr>dyn_reassembly_s := Reasm r\<rparr>), Some s) }
                | r \<Rightarrow> Some (E_DYN_ERROR, Some (self\<lparr>dyn_reassembly_s := r\<rparr>), s_p'))
      | _ \<Rightarrow> Some (E_DYN_ERROR, self_p, s_p'))"

text \<open>
  A reassembly stream with a NULL buffer passes the room check, as its size is set; the copy
  of a non-empty fragment to it is undefined.
\<close>

definition dyn_dechunker_process_data_chunk ::
  "dyn_dechunker option \<Rightarrow> stream option \<Rightarrow>
   (dyn_dechunker_status \<times> dyn_dechunker option \<times> stream option) option" where
  "dyn_dechunker_process_data_chunk self_p s_p' =
     (case (self_p, s_p') of
        (Some self, Some s) \<Rightarrow>
          (let frag_size = s_rem s in
           case dyn_reassembly_s self of
             No_stream \<Rightarrow> Some (E_DYN_INLINE_CHUNK, self_p, s_p')
           | Null_data n \<Rightarrow>
               if \<not> c_size_t frag_size \<le> int n then Some (E_DYN_ERROR, self_p, s_p')
               else if frag_size \<noteq> 0 then None
               else Some (if n = 0 then E_DYN_READY else E_DYN_IN_PROGRESS, self_p, s_p')
           | Reasm r \<Rightarrow>
               if \<not> s_check_rem_out r frag_size then Some (E_DYN_ERROR, self_p, s_p')
               else do { (r, s) \<leftarrow> copy_chunk r s frag_size;
                         if s_rem_out r = 0
                         then (let r = (s_mark_end r)\<lparr>s_p := 0\<rparr> in
                               Some (E_DYN_READY, Some (self\<lparr>dyn_reassembly_s := Reasm r\<rparr>), Some s))
                         else Some (E_DYN_IN_PROGRESS, Some (self\<lparr>dyn_reassembly_s := Reasm r\<rparr>), Some s) })
      | _ \<Rightarrow> Some (E_DYN_ERROR, self_p, s_p'))"

definition dyn_dechunker_get_stream :: "dyn_dechunker option \<Rightarrow> reassembly \<times> dyn_dechunker option" where
  "dyn_dechunker_get_stream self_p =
     (case self_p of
        None \<Rightarrow> (No_stream, None)
      | Some self \<Rightarrow>
          (case dyn_reassembly_s self of
             Reasm r \<Rightarrow> if s_end r = 0 then (No_stream, self_p)
                        else (Reasm r, Some (self\<lparr>dyn_reassembly_s := No_stream\<rparr>))
           | _ \<Rightarrow> (No_stream, self_p)))"

definition dyn_dechunker_pending :: "dyn_dechunker option \<Rightarrow> bool" where
  "dyn_dechunker_pending self_p =
     (case self_p of None \<Rightarrow> False | Some self \<Rightarrow> dyn_reassembly_s self \<noteq> No_stream)"

end
