(* ===== verification/Dechunker_Props.thy ===== *)
theory Dechunker_Props
  imports Dechunker
begin

text \<open>
  The dechunkers refine an abstract reassembly machine, whatever chunks arrive; from it follow
  the reassembly of any correctly chunked PDU and the recovery after errors.
\<close>

lemma copy_chunk_ok:
  assumes "in_wf s" "out_wf r" "s_p r + length (unread s) \<le> s_size r"
  shows "\<exists>r' s'. copy_chunk r s (int (length (unread s))) = Some (r', s') \<and> out_wf r' \<and>
           written r' = written r @ unread s \<and> s_size r' = s_size r \<and>
           s_p r' = s_p r + length (unread s) \<and> s_end r' = s_end r \<and> in_wf s' \<and> unread s' = []"
proof -
  let ?n = "length (unread s)"
  obtain s' where s': "in_bytes ?n s = Some (unread s, s')" "in_wf s'" "unread s' = []"
    using in_bytes_unread [OF assms(1), of ?n] by auto
  obtain r' where r': "out_bytes (unread s) r = Some r'" "out_wf r'" "written r' = written r @ unread s"
    "s_size r' = s_size r" "s_p r' = s_p r + ?n" "s_end r' = s_end r"
    using out_bytes_written [OF assms(2,3)] by blast
  have "copy_chunk r s (int ?n) = Some (r', s')"
    using s'(1) r'(1) by (simp add: copy_chunk_def in_uint8a_def out_uint8p_def)
  with s' r' show ?thesis by blast
qed

lemma new_stream:
  "n < 2 ^ 31 \<Longrightarrow> out_wf (init_stream junk n make_stream) \<and> written (init_stream junk n make_stream) = [] \<and>
     s_size (init_stream junk n make_stream) = n \<and> s_p (init_stream junk n make_stream) = 0"
  by (simp add: out_wf_def written_def make_stream_def init_stream_def Let_def)

lemma written_full:
  "out_wf r \<Longrightarrow> s_p r = s_size r \<Longrightarrow> contents ((s_mark_end r)\<lparr>s_p := 0\<rparr>) = written r"
  by (simp add: contents_def written_def)

lemma read_full:
  "out_wf r \<Longrightarrow> s_p r = s_size r \<Longrightarrow> in_wf ((s_mark_end r)\<lparr>s_p := 0\<rparr>) \<and> unread ((s_mark_end r)\<lparr>s_p := 0\<rparr>) = written r"
  by (simp add: in_wf_def out_wf_def unread_def written_def)

subsection \<open>Static channels: the abstract machine\<close>

datatype vc_spec = Idle | Collecting nat "byte list" | Ready "byte list" | Skipping

text \<open>
  The machine promises nothing for a chunk that arrives while a finished PDU waits to be fetched
  (the caller has to fetch it first), hence the option: there the result is None. In every other
  state an error leads to skipping, and the next first chunk ends the skipping.
\<close>

definition vc_spec_step ::
  "bool \<Rightarrow> int \<Rightarrow> vc_spec \<Rightarrow> vc_chunk_type \<Rightarrow> int \<Rightarrow> byte list \<Rightarrow> (vc_dechunker_status \<times> vc_spec) option" where
  "vc_spec_step mem mx st ct total_size bs =
     (let oversize = (total_size < 0 \<or> int (length bs) > mx); failed = Some (E_VC_ERROR, Skipping)
      in case (if st = Skipping \<and> ct \<in> {CT_FIRST, CT_FIRST_LAST} \<and> \<not> oversize then Idle else st) of
        Ready pdu \<Rightarrow> None
      | Idle \<Rightarrow>
          (if oversize then failed
           else if ct = CT_FIRST then
             (if total_size \<le> mx \<or> int (length bs) \<ge> total_size \<or> \<not> mem then failed
              else Some (E_VC_IN_PROGRESS, Collecting (nat total_size) bs))
           else if ct = CT_FIRST_LAST then Some (E_VC_INLINE_CHUNK, Idle)
           else failed)
      | Collecting n got \<Rightarrow>
          (if oversize \<or> ct \<in> {CT_FIRST, CT_FIRST_LAST} \<or> length got + length bs > n then failed
           else if ct = CT_INTERMEDIATE then Some (E_VC_IN_PROGRESS, Collecting n (got @ bs))
           else if length got + length bs = n then Some (E_VC_READY, Ready (got @ bs))
           else failed)
      | Skipping \<Rightarrow> (if oversize then failed else Some (E_VC_IN_PROGRESS, Skipping)))"

definition vc_abs :: "vc_dechunker \<Rightarrow> vc_spec" where
  "vc_abs self =
     (case vc_state self of
        E_NO_DATA \<Rightarrow> Idle
      | E_READING \<Rightarrow> (case vc_reassembly_s self of Reasm r \<Rightarrow> Collecting (s_size r) (written r) | _ \<Rightarrow> Skipping)
      | E_DATA \<Rightarrow> (case vc_reassembly_s self of Reasm r \<Rightarrow> Ready (unread r) | _ \<Rightarrow> Skipping)
      | E_SKIPPING \<Rightarrow> Skipping)"

definition vc_inv :: "vc_dechunker \<Rightarrow> bool" where
  "vc_inv self \<longleftrightarrow>
     (case vc_state self of
        E_NO_DATA \<Rightarrow> vc_reassembly_s self = No_stream
      | E_READING \<Rightarrow> (\<exists>r. vc_reassembly_s self = Reasm r \<and> out_wf r)
      | E_DATA \<Rightarrow> (\<exists>r. vc_reassembly_s self = Reasm r \<and> in_wf r)
      | E_SKIPPING \<Rightarrow> True)"

lemma no_data_refines:
  assumes "vc_inv self" "vc_state self = E_NO_DATA" "in_wf s" "0 \<le> total_size" "total_size < 2 ^ 31"
    and "int (length (unread s)) \<le> max_chunk_size self"
  shows "\<exists>rv self' s'. handle_no_data_state mem junk self s (int (length (unread s))) total_size ct = Some (rv, self', s') \<and>
     vc_inv self' \<and> max_chunk_size self' = max_chunk_size self \<and>
     Some (rv, vc_abs self') = vc_spec_step (fst mem \<and> snd mem) (max_chunk_size self) Idle ct total_size (unread s)"
proof (cases "ct = CT_FIRST \<and> \<not> total_size \<le> max_chunk_size self \<and> \<not> int (length (unread s)) \<ge> total_size \<and> fst mem \<and> snd mem")
  case True
  let ?r = "init_stream junk (nat total_size) make_stream"
  have r: "out_wf ?r" "written ?r = []" "s_size ?r = nat total_size" "s_p ?r = 0"
    using new_stream [of "nat total_size" junk] assms(5) by simp_all
  have len: "length (unread s) \<le> nat total_size" using True by linarith
  obtain r' s' where "copy_chunk ?r s (int (length (unread s))) = Some (r', s')" "out_wf r'"
    "written r' = unread s" "s_size r' = nat total_size"
    using copy_chunk_ok [OF assms(3) r(1)] r len by auto
  with True assms show ?thesis
    by (auto simp: handle_no_data_state_def new_reassembly_def vc_inv_def vc_abs_def vc_spec_step_def Let_def)
next
  case False
  with assms show ?thesis
    by (cases ct) (auto simp: handle_no_data_state_def new_reassembly_def vc_inv_def vc_abs_def vc_spec_step_def Let_def
        log_unexpected_vc_chunk_type_def)
qed

lemma reading_refines:
  assumes "vc_state self = E_READING" "vc_reassembly_s self = Reasm r" "out_wf r" "in_wf s" "0 \<le> total_size"
    and "int (length (unread s)) \<le> max_chunk_size self"
  shows "\<exists>rv self' s'. handle_reading_state self s (int (length (unread s))) total_size ct = Some (rv, self', s') \<and>
     vc_inv self' \<and> max_chunk_size self' = max_chunk_size self \<and>
     Some (rv, vc_abs self') = vc_spec_step mem (max_chunk_size self) (Collecting (s_size r) (written r)) ct total_size (unread s)"
proof -
  have rem: "s_rem_out r = int (s_size r) - int (s_p r)" "length (written r) = s_p r" "s_p r \<le> s_size r"
    using assms(3) by (simp_all add: stream_simps out_wf_def)
  consider (type) "ct = CT_FIRST \<or> ct = CT_FIRST_LAST"
    | (over) "ct = CT_INTERMEDIATE \<or> ct = CT_LAST" "s_p r + length (unread s) > s_size r"
    | (fits) "ct = CT_INTERMEDIATE \<or> ct = CT_LAST" "s_p r + length (unread s) \<le> s_size r"
    by (cases ct; cases "s_p r + length (unread s) \<le> s_size r") auto
  then show ?thesis
  proof cases
    case type
    with assms show ?thesis
      by (auto simp: handle_reading_state_def vc_inv_def vc_abs_def vc_spec_step_def Let_def log_unexpected_vc_chunk_type_def)
  next
    case over
    then have "int (length (unread s)) > s_rem_out r" using rem by simp
    with over assms rem(2) show ?thesis
      by (auto simp: handle_reading_state_def vc_inv_def vc_abs_def vc_spec_step_def Let_def)
  next
    case fits
    obtain r' s' where c: "copy_chunk r s (int (length (unread s))) = Some (r', s')" "out_wf r'"
      "written r' = written r @ unread s" "s_size r' = s_size r" "s_p r' = s_p r + length (unread s)"
      using copy_chunk_ok [OF assms(4,3) fits(2)] by blast
    have rem': "s_rem_out r' = int (s_size r) - int (s_p r + length (unread s))"
      using c by (simp add: stream_simps)
    have le: "\<not> int (length (unread s)) > s_rem_out r" using fits(2) rem by simp
    show ?thesis
    proof (cases "ct = CT_LAST \<and> s_p r + length (unread s) = s_size r")
      case True
      let ?r = "(s_mark_end r')\<lparr>s_p := 0\<rparr>"
      have "in_wf ?r" "unread ?r = written r @ unread s"
        using read_full [of r'] c True by simp_all
      with True c rem' le assms rem show ?thesis
        by (auto simp: handle_reading_state_def vc_inv_def vc_abs_def vc_spec_step_def Let_def)
    next
      case False
      with fits c rem' le assms rem show ?thesis
        by (auto simp: handle_reading_state_def vc_inv_def vc_abs_def vc_spec_step_def Let_def)
    qed
  qed
qed

lemma vc_abs_not_ready: "vc_inv self \<Longrightarrow> vc_state self \<noteq> E_DATA \<Longrightarrow> \<forall>pdu. vc_abs self \<noteq> Ready pdu"
  by (auto simp: vc_abs_def vc_inv_def split: vc_dechunker_state.splits)

lemma vc_abs_skipping: "vc_inv self \<Longrightarrow> vc_abs self = Skipping \<Longrightarrow> vc_state self = E_SKIPPING"
  by (auto simp: vc_abs_def vc_inv_def split: vc_dechunker_state.splits)

lemma spec_step_defined: "\<forall>pdu. st \<noteq> Ready pdu \<Longrightarrow> vc_spec_step mem mx st ct n bs \<noteq> None"
  by (cases st) (auto simp: vc_spec_step_def Let_def)

lemma spec_step_error: "vc_spec_step mem mx st ct n bs = Some (E_VC_ERROR, st') \<Longrightarrow> st' = Skipping"
  by (cases st) (auto simp: vc_spec_step_def Let_def split: if_splits)

lemma vc_dechunker_refines_step:
  assumes "vc_inv self" and "in_wf s" and "total_size < 2 ^ 31"
  shows "\<exists>rv self' s'. vc_dechunker_process_chunk mem junk (Some self) (Some s) fl total_size = Some (rv, Some self', Some s') \<and>
     vc_inv self' \<and> max_chunk_size self' = max_chunk_size self \<and>
     vc_spec_step (fst mem \<and> snd mem) (max_chunk_size self) (vc_abs self) (chunk_type fl) total_size (unread s)
       \<in> {None, Some (rv, vc_abs self')}"
proof -
  have rem: "s_rem s = int (length (unread s))" using assms(2) by (simp add: stream_simps)
  show ?thesis
  proof (cases "total_size < 0 \<or> int (length (unread s)) > max_chunk_size self")
    case True
    then have "vc_spec_step m (max_chunk_size self) (vc_abs self) (chunk_type fl) total_size (unread s)
        \<in> {None, Some (E_VC_ERROR, Skipping)}" for m
      by (cases "vc_abs self") (auto simp: vc_spec_step_def Let_def)
    moreover have "vc_inv (self\<lparr>vc_state := E_SKIPPING\<rparr>)" "vc_abs (self\<lparr>vc_state := E_SKIPPING\<rparr>) = Skipping"
      by (simp_all add: vc_inv_def vc_abs_def)
    moreover have "vc_dechunker_process_chunk mem junk (Some self) (Some s) fl total_size =
        Some (E_VC_ERROR, Some (self\<lparr>vc_state := E_SKIPPING\<rparr>), Some s)"
      using True rem by (auto simp: vc_dechunker_process_chunk_def Let_def)
    ultimately show ?thesis by simp
  next
    case False
    let ?self = "if vc_state self = E_SKIPPING \<and> (chunk_type fl = CT_FIRST \<or> chunk_type fl = CT_FIRST_LAST)
                 then vc_dechunker_reset self else self"
    have inv: "vc_inv ?self" "max_chunk_size ?self = max_chunk_size self"
      using assms(1) by (auto simp: vc_inv_def vc_dechunker_reset_def)
    have abs: "vc_abs ?self = (if vc_abs self = Skipping \<and> chunk_type fl \<in> {CT_FIRST, CT_FIRST_LAST} then Idle else vc_abs self)"
      using assms(1)
      by (auto simp: vc_abs_def vc_dechunker_reset_def vc_inv_def split: vc_dechunker_state.splits)
    have spec: "vc_spec_step m (max_chunk_size self) (vc_abs self) (chunk_type fl) total_size (unread s) =
        vc_spec_step m (max_chunk_size self) (vc_abs ?self) (chunk_type fl) total_size (unread s)" for m
      unfolding abs using False by (simp add: vc_spec_step_def Let_def)
    let ?step = "case vc_state ?self of
          E_NO_DATA \<Rightarrow> handle_no_data_state mem junk ?self s (int (length (unread s))) total_size (chunk_type fl)
        | E_READING \<Rightarrow> handle_reading_state ?self s (int (length (unread s))) total_size (chunk_type fl)
        | E_DATA \<Rightarrow> Some (E_VC_ERROR, ?self, s)
        | E_SKIPPING \<Rightarrow> Some (E_VC_IN_PROGRESS, ?self, s)"
    have ex: "\<exists>rv self' s'. ?step = Some (rv, self', s') \<and> vc_inv self' \<and> max_chunk_size self' = max_chunk_size self \<and>
        vc_spec_step (fst mem \<and> snd mem) (max_chunk_size self) (vc_abs ?self) (chunk_type fl) total_size (unread s)
          \<in> {None, Some (rv, vc_abs self')}"
    proof (cases "vc_state ?self")
      case E_NO_DATA
      then have "vc_abs ?self = Idle" by (simp add: vc_abs_def)
      moreover obtain rv self' s' where
        "handle_no_data_state mem junk ?self s (int (length (unread s))) total_size (chunk_type fl) = Some (rv, self', s')"
        "vc_inv self'" "max_chunk_size self' = max_chunk_size self"
        "Some (rv, vc_abs self') = vc_spec_step (fst mem \<and> snd mem) (max_chunk_size self) Idle (chunk_type fl) total_size (unread s)"
        using no_data_refines [OF inv(1) E_NO_DATA assms(2) _ assms(3), of mem junk "chunk_type fl"] False inv(2)
        by (metis not_le)
      ultimately show ?thesis using E_NO_DATA by (metis insertI1 insertI2 vc_dechunker_state.case(1))
    next
      case E_READING
      then obtain r where r: "vc_reassembly_s ?self = Reasm r" "out_wf r"
        using inv(1) by (auto simp: vc_inv_def)
      then have "vc_abs ?self = Collecting (s_size r) (written r)" using E_READING by (simp add: vc_abs_def)
      moreover obtain rv self' s' where
        "handle_reading_state ?self s (int (length (unread s))) total_size (chunk_type fl) = Some (rv, self', s')"
        "vc_inv self'" "max_chunk_size self' = max_chunk_size self"
        "Some (rv, vc_abs self') = vc_spec_step (fst mem \<and> snd mem) (max_chunk_size self) (Collecting (s_size r) (written r)) (chunk_type fl) total_size (unread s)"
        using reading_refines [OF E_READING r assms(2), of total_size "chunk_type fl" "fst mem \<and> snd mem"] False inv(2)
        by (metis not_le)
      ultimately show ?thesis using E_READING by (metis insertI1 insertI2 vc_dechunker_state.case(2))
    next
      case E_DATA
      then obtain r where r: "vc_reassembly_s ?self = Reasm r" using inv(1) by (auto simp: vc_inv_def)
      then have "vc_abs ?self = Ready (unread r)" using E_DATA by (simp add: vc_abs_def)
      with E_DATA False inv show ?thesis by (simp add: vc_spec_step_def Let_def)
    next
      case E_SKIPPING
      then have "vc_abs ?self = Skipping" by (simp add: vc_abs_def)
      moreover have "\<not> (chunk_type fl = CT_FIRST \<or> chunk_type fl = CT_FIRST_LAST)"
        using E_SKIPPING by (auto simp: vc_dechunker_reset_def split: if_splits)
      ultimately show ?thesis using E_SKIPPING False inv by (simp add: vc_spec_step_def Let_def)
    qed
    from ex obtain rv self' s' where step: "?step = Some (rv, self', s')"
      and res: "vc_inv self'" "max_chunk_size self' = max_chunk_size self"
        "vc_spec_step (fst mem \<and> snd mem) (max_chunk_size self) (vc_abs ?self) (chunk_type fl) total_size (unread s)
          \<in> {None, Some (rv, vc_abs self')}"
      by blast
    have "vc_dechunker_process_chunk mem junk (Some self) (Some s) fl total_size = Some (rv, Some self', Some s')"
      unfolding vc_dechunker_process_chunk_def Let_def option.case prod.case rem
      using False by (simp only: if_False simp_thms de_Morgan_disj step Option.bind.simps prod.case)
    with res show ?thesis unfolding spec by blast
  qed
qed


text \<open>
  C32. The dechunker of a static virtual channel refines the abstract reassembly machine: for any
  chunk, flags, announced size and allocation outcome the call never touches memory outside its
  buffers and keeps the invariant and the chunk size limit, in every state. Unless a finished PDU
  still waits to be fetched (a case the machine leaves open), it returns the status and reaches
  the state the machine prescribes; in particular every error then leaves the dechunker skipping,
  until a first chunk of acceptable size arrives.
\<close>

theorem vc_dechunker_refines:
  assumes "vc_inv self" and "in_wf s" and "total_size < 2 ^ 31"
  shows "\<exists>rv self' s'. vc_dechunker_process_chunk mem junk (Some self) (Some s) fl total_size = Some (rv, Some self', Some s') \<and>
     vc_inv self' \<and> max_chunk_size self' = max_chunk_size self \<and>
     (vc_state self \<noteq> E_DATA \<longrightarrow>
        vc_spec_step (fst mem \<and> snd mem) (max_chunk_size self) (vc_abs self) (chunk_type fl) total_size (unread s) =
          Some (rv, vc_abs self') \<and>
        (rv = E_VC_ERROR \<longrightarrow> vc_state self' = E_SKIPPING))"
proof -
  obtain rv self' s' where one: "vc_dechunker_process_chunk mem junk (Some self) (Some s) fl total_size = Some (rv, Some self', Some s')"
    "vc_inv self'" "max_chunk_size self' = max_chunk_size self"
    and spec: "vc_spec_step (fst mem \<and> snd mem) (max_chunk_size self) (vc_abs self) (chunk_type fl) total_size (unread s)
       \<in> {None, Some (rv, vc_abs self')}"
    using vc_dechunker_refines_step [OF assms, of mem junk fl] by blast
  have exact: "vc_spec_step (fst mem \<and> snd mem) (max_chunk_size self) (vc_abs self) (chunk_type fl) total_size (unread s) =
       Some (rv, vc_abs self')" if "vc_state self \<noteq> E_DATA"
    using spec spec_step_defined [OF vc_abs_not_ready [OF assms(1) that]] by blast
  show ?thesis
    using one exact spec_step_error vc_abs_skipping [OF one(2)] by blast
qed

lemma vc_dechunker_refines_witness:
  "\<exists>rv self' s'. vc_dechunker_process_chunk (True, True) (\<lambda>i. 0)
       (Some \<lparr>vc_name = [], max_chunk_size = 50, vc_state = E_READING,
          vc_reassembly_s = Reasm (buf (replicate 60 1) 50 0)\<rparr>)
       (Some (buf [1, 2] 0 2)) 2 60 = Some (rv, Some self', Some s') \<and>
     rv = E_VC_ERROR \<and> vc_abs self' = Skipping"
  using vc_dechunker_refines [of "\<lparr>vc_name = [], max_chunk_size = 50, vc_state = E_READING,
          vc_reassembly_s = Reasm (buf (replicate 60 1) 50 0)\<rparr>"
      "(buf [1, 2] 0 2)" 60 "(True, True)" "\<lambda>i. 0" 2]
  by (auto simp: vc_inv_def out_wf_def in_wf_def vc_abs_def written_def unread_def vc_spec_step_def chunk_type_def)

subsection \<open>Sequences of chunks\<close>

text \<open>A received chunk: a stream positioned at the start of the chunk data.\<close>

definition chunk_stream :: "byte list \<Rightarrow> stream" where
  "chunk_stream bs = (buf bs 0 (length bs))"

lemma chunk_stream_ok: "length bs < 2 ^ 31 \<Longrightarrow> in_wf (chunk_stream bs) \<and> unread (chunk_stream bs) = bs"
  by (simp add: chunk_stream_def in_wf_def unread_def)

fun vc_run ::
  "(nat \<Rightarrow> byte) \<Rightarrow> vc_dechunker \<Rightarrow> (int \<times> int \<times> byte list) list \<Rightarrow> (vc_dechunker_status list \<times> vc_dechunker) option" where
  "vc_run junk self [] = Some ([], self)"
| "vc_run junk self ((fl, n, bs) # cs) =
     (case vc_dechunker_process_chunk (True, True) junk (Some self) (Some (chunk_stream bs)) fl n of
        Some (rv, Some self, _) \<Rightarrow> do { (rvs, self) \<leftarrow> vc_run junk self cs; Some (rv # rvs, self) }
      | _ \<Rightarrow> None)"

fun vc_spec_run :: "int \<Rightarrow> vc_spec \<Rightarrow> (int \<times> int \<times> byte list) list \<Rightarrow> (vc_dechunker_status list \<times> vc_spec) option" where
  "vc_spec_run mx st [] = Some ([], st)"
| "vc_spec_run mx st ((fl, n, bs) # cs) =
     do { (rv, st) \<leftarrow> vc_spec_step True mx st (chunk_type fl) n bs;
          (rvs, st) \<leftarrow> vc_spec_run mx st cs;
          Some (rv # rvs, st) }"

lemma vc_run_refines:
  assumes "vc_inv self" and "\<forall>(fl, n, bs) \<in> set cs. n < 2 ^ 31 \<and> length bs < 2 ^ 31"
  shows "\<exists>rvs self'. vc_run junk self cs = Some (rvs, self') \<and> vc_inv self' \<and>
     max_chunk_size self' = max_chunk_size self \<and>
     vc_spec_run (max_chunk_size self) (vc_abs self) cs \<in> {None, Some (rvs, vc_abs self')}"
  using assms
proof (induction cs arbitrary: self)
  case (Cons c cs)
  obtain fl n bs where c: "c = (fl, n, bs)" by (cases c)
  have s: "in_wf (chunk_stream bs)" "unread (chunk_stream bs) = bs" "n < 2 ^ 31"
    using Cons.prems(2) c chunk_stream_ok [of bs] by simp_all
  obtain rv self1 s1 where one: "vc_dechunker_process_chunk (True, True) junk (Some self) (Some (chunk_stream bs)) fl n =
        Some (rv, Some self1, Some s1)" "vc_inv self1" "max_chunk_size self1 = max_chunk_size self"
      "vc_spec_step True (max_chunk_size self) (vc_abs self) (chunk_type fl) n bs \<in> {None, Some (rv, vc_abs self1)}"
    using vc_dechunker_refines_step [OF Cons.prems(1) s(1,3), of "(True, True)" junk fl] s(2) by auto
  obtain rvs self2 where "vc_run junk self1 cs = Some (rvs, self2)" "vc_inv self2"
    "max_chunk_size self2 = max_chunk_size self1"
    "vc_spec_run (max_chunk_size self1) (vc_abs self1) cs \<in> {None, Some (rvs, vc_abs self2)}"
    using Cons.IH [OF one(2)] Cons.prems(2) by auto
  with one c show ?case by (auto split: prod.splits)
qed simp

lemma spec_run_intermediate:
  "\<forall>bs \<in> set mids. int (length bs) \<le> mx \<Longrightarrow> 0 \<le> tot \<Longrightarrow> length got + length (concat mids) \<le> n \<Longrightarrow>
     vc_spec_run mx (Collecting n got) (map (\<lambda>bs. (0, tot, bs)) mids @ rest) =
       do { (rvs, st) \<leftarrow> vc_spec_run mx (Collecting n (got @ concat mids)) rest;
            Some (replicate (length mids) E_VC_IN_PROGRESS @ rvs, st) }"
  by (induction mids arbitrary: got)
    (auto simp: vc_spec_step_def Let_def chunk_type_def split: prod.splits bind_splits)

text \<open>
  C31. A PDU split into chunks as the protocol prescribes (a first chunk, any number of
  intermediate chunks and a last chunk, each within the chunk size limit, together longer than
  one chunk) is reassembled: every chunk but the last reports progress, the last one that a PDU
  is ready, and the stream then handed over holds exactly the concatenated data, leaving the
  dechunker ready for the next PDU. The dechunker may be idle or recovering from an error.
\<close>

theorem vc_dechunker_reassembles:
  assumes "vc_inv self" and "vc_state self = E_NO_DATA \<or> vc_state self = E_SKIPPING"
    and "pdu = first @ concat mids @ final"
    and "\<forall>bs \<in> set (first # mids @ [final]). int (length bs) \<le> max_chunk_size self"
    and "max_chunk_size self < int (length pdu)" and "length pdu < 2 ^ 31"
  shows "\<exists>self' r self''.
     vc_run junk self ((1, int (length pdu), first) # map (\<lambda>bs. (0, int (length pdu), bs)) mids @
        [(2, int (length pdu), final)]) =
       Some (replicate (Suc (length mids)) E_VC_IN_PROGRESS @ [E_VC_READY], self') \<and>
     vc_dechunker_get_stream (Some self') = (Reasm r, Some self'') \<and> in_wf r \<and> unread r = pdu \<and>
     vc_inv self'' \<and> vc_state self'' = E_NO_DATA"
proof -
  let ?n = "int (length pdu)"
  let ?cs = "(1, ?n, first) # map (\<lambda>bs. (0, ?n, bs)) mids @ [(2, ?n, final)]"
  let ?mx = "max_chunk_size self"
  have lt: "length bs < 2 ^ 31" if "bs \<in> set (first # mids @ [final])" for bs
    using assms(4,5,6) that by fastforce
  then have small: "\<forall>(fl, n, bs) \<in> set ?cs. n < 2 ^ 31 \<and> length bs < 2 ^ 31"
    using assms(6) by auto
  obtain rvs self' where run: "vc_run junk self ?cs = Some (rvs, self')" "vc_inv self'"
    "vc_spec_run ?mx (vc_abs self) ?cs \<in> {None, Some (rvs, vc_abs self')}"
    using vc_run_refines [OF assms(1) small] by blast
  have start: "vc_abs self = Idle \<or> vc_abs self = Skipping"
    using assms(2) by (auto simp: vc_abs_def)
  have len: "length first + length (concat mids) + length final = length pdu"
    using assms(3) by simp
  have "int (length first) < ?n" using assms(4,5) by fastforce
  then have one: "vc_spec_step True ?mx (vc_abs self) CT_FIRST ?n first = Some (E_VC_IN_PROGRESS, Collecting (length pdu) first)"
    using start assms(4,5) by (auto simp: vc_spec_step_def Let_def)
  have last: "vc_spec_step True ?mx (Collecting (length pdu) (first @ concat mids)) CT_LAST ?n final = Some (E_VC_READY, Ready pdu)"
    using assms(3,4) by (auto simp: vc_spec_step_def Let_def)
  have "vc_spec_run ?mx (vc_abs self) ?cs =
      Some (replicate (Suc (length mids)) E_VC_IN_PROGRESS @ [E_VC_READY], Ready pdu)"
    using one last assms(4) len spec_run_intermediate [of mids ?mx ?n first "length pdu" "[(2, ?n, final)]"]
    by (simp add: chunk_type_def)
  with run(3) have rvs: "rvs = replicate (Suc (length mids)) E_VC_IN_PROGRESS @ [E_VC_READY]"
    and ready: "vc_abs self' = Ready pdu" by simp_all
  obtain r where r: "vc_state self' = E_DATA" "vc_reassembly_s self' = Reasm r" "unread r = pdu" "in_wf r"
    using ready run(2) by (auto simp: vc_abs_def vc_inv_def split: vc_dechunker_state.splits reassembly.splits)
  then show ?thesis
    using run(1) rvs
    by (auto simp: vc_dechunker_get_stream_def vc_dechunker_reset_def vc_inv_def)
qed

lemma vc_dechunker_reassembles_witness:
  "\<exists>self' r self''.
     vc_run (\<lambda>i. 0) \<lparr>vc_name = [], max_chunk_size = 50, vc_state = E_NO_DATA, vc_reassembly_s = No_stream\<rparr>
       [(1, 60, replicate 50 7), (0, 60, [1, 2, 3]), (2, 60, replicate 7 9)] =
       Some ([E_VC_IN_PROGRESS, E_VC_IN_PROGRESS, E_VC_READY], self') \<and>
     vc_dechunker_get_stream (Some self') = (Reasm r, Some self'') \<and> in_wf r \<and>
     unread r = replicate 50 7 @ [1, 2, 3] @ replicate 7 9 \<and>
     vc_inv self'' \<and> vc_state self'' = E_NO_DATA"
  using vc_dechunker_reassembles [of "\<lparr>vc_name = [], max_chunk_size = 50, vc_state = E_NO_DATA, vc_reassembly_s = No_stream\<rparr>"
      "replicate 50 7 @ concat [[1, 2, 3]] @ replicate 7 9" "replicate 50 7" "[[1, 2, 3]]" "replicate 7 9" "\<lambda>i. 0"]
  by (simp add: vc_inv_def)

text \<open>
  A completed PDU that has not been fetched yet is lost when a chunk with a negative length
  or larger than the limit arrives: the dechunker leaves the data state and no longer hands
  the PDU over.
\<close>

lemma vc_dechunker_drops_ready_pdu:
  assumes "vc_state self = E_DATA" and "n < 0"
  shows "\<exists>self'. vc_dechunker_process_chunk mem junk (Some self) (Some s) fl n = Some (E_VC_ERROR, Some self', Some s) \<and>
     vc_state self' = E_SKIPPING \<and> vc_dechunker_get_stream (Some self') = (No_stream, Some self')"
  using assms by (simp add: vc_dechunker_process_chunk_def Let_def vc_dechunker_get_stream_def)

lemma vc_dechunker_drops_ready_pdu_witness:
  "\<exists>self'. vc_dechunker_process_chunk (True, True) (\<lambda>i. 0)
       (Some \<lparr>vc_name = [], max_chunk_size = 50, vc_state = E_DATA,
          vc_reassembly_s = Reasm (chunk_stream (replicate 60 1))\<rparr>) (Some (chunk_stream [1])) 3 (-1) =
       Some (E_VC_ERROR, Some self', Some (chunk_stream [1])) \<and>
     vc_state self' = E_SKIPPING \<and> vc_dechunker_get_stream (Some self') = (No_stream, Some self')"
  by (rule vc_dechunker_drops_ready_pdu) simp_all

subsection \<open>Dynamic channels\<close>

lemma dyn_data_step:
  assumes "dyn_reassembly_s self = Reasm r" "out_wf r" "in_wf s"
    and "s_p r + length (unread s) \<le> s_size r"
  shows "\<exists>r' s'. dyn_dechunker_process_data_chunk (Some self) (Some s) =
      Some (if s_p r + length (unread s) = s_size r then E_DYN_READY else E_DYN_IN_PROGRESS,
            Some (self\<lparr>dyn_reassembly_s := Reasm (if s_p r + length (unread s) = s_size r
              then (s_mark_end r')\<lparr>s_p := 0\<rparr> else r')\<rparr>), Some s') \<and>
      out_wf r' \<and> written r' = written r @ unread s \<and> s_size r' = s_size r \<and>
      s_p r' = s_p r + length (unread s)"
proof -
  obtain r' s' where c: "copy_chunk r s (int (length (unread s))) = Some (r', s')" "out_wf r'"
    "written r' = written r @ unread s" "s_size r' = s_size r" "s_p r' = s_p r + length (unread s)"
    using copy_chunk_ok [OF assms(3,2,4)] by blast
  have "length (unread s) < 2 ^ 31" using assms(2,4) by (auto simp: out_wf_def)
  then have room: "s_check_rem_out r (int (length (unread s)))"
    using assms(2,4) by (simp add: stream_simps)
  show ?thesis
    using c room assms(1) by (auto simp: dyn_dechunker_process_data_chunk_def Let_def stream_simps assms(3))
qed

fun dyn_run :: "dyn_dechunker \<Rightarrow> byte list list \<Rightarrow> (dyn_dechunker_status list \<times> dyn_dechunker) option" where
  "dyn_run self [] = Some ([], self)"
| "dyn_run self (bs # cs) =
     (case dyn_dechunker_process_data_chunk (Some self) (Some (chunk_stream bs)) of
        Some (rv, Some self, _) \<Rightarrow> do { (rvs, self) \<leftarrow> dyn_run self cs; Some (rv # rvs, self) }
      | _ \<Rightarrow> None)"

lemma dyn_run_collect:
  assumes "dyn_reassembly_s self = Reasm r" "out_wf r"
    and "s_p r + length (concat mids) + length final = s_size r" "final \<noteq> []"
  shows "\<exists>r' self'. dyn_run self (mids @ [final]) =
       Some (replicate (length mids) E_DYN_IN_PROGRESS @ [E_DYN_READY], self') \<and>
     dyn_reassembly_s self' = Reasm r' \<and> in_wf r' \<and> unread r' = written r @ concat mids @ final \<and>
     s_end r' = s_size r"
  using assms
proof (induction mids arbitrary: self r)
  case Nil
  have s: "in_wf (chunk_stream final)" "unread (chunk_stream final) = final"
    using Nil.prems(2,3) chunk_stream_ok [of final] by (auto simp: out_wf_def)
  obtain r' s' where step: "dyn_dechunker_process_data_chunk (Some self) (Some (chunk_stream final)) =
      Some (E_DYN_READY, Some (self\<lparr>dyn_reassembly_s := Reasm ((s_mark_end r')\<lparr>s_p := 0\<rparr>)\<rparr>), Some s')"
      "out_wf r'" "written r' = written r @ final" "s_size r' = s_size r" "s_p r' = s_size r"
    using dyn_data_step [OF Nil.prems(1,2) s(1)] s(2) Nil.prems(3) by auto
  then show ?case using read_full [of r'] by auto
next
  case (Cons bs mids)
  have s: "in_wf (chunk_stream bs)" "unread (chunk_stream bs) = bs"
    using Cons.prems(2,3) chunk_stream_ok [of bs] by (auto simp: out_wf_def)
  have lt: "s_p r + length bs < s_size r"
    using Cons.prems(3,4) by (cases final) auto
  obtain r1 s' where step: "dyn_dechunker_process_data_chunk (Some self) (Some (chunk_stream bs)) =
      Some (E_DYN_IN_PROGRESS, Some (self\<lparr>dyn_reassembly_s := Reasm r1\<rparr>), Some s')"
      "out_wf r1" "written r1 = written r @ bs" "s_size r1 = s_size r" "s_p r1 = s_p r + length bs"
    using dyn_data_step [OF Cons.prems(1,2) s(1)] s(2) lt by auto
  obtain r' self' where "dyn_run (self\<lparr>dyn_reassembly_s := Reasm r1\<rparr>) (mids @ [final]) =
       Some (replicate (length mids) E_DYN_IN_PROGRESS @ [E_DYN_READY], self')"
     "dyn_reassembly_s self' = Reasm r'" "in_wf r'" "unread r' = written r1 @ concat mids @ final"
     "s_end r' = s_size r1"
    using Cons.IH [of "self\<lparr>dyn_reassembly_s := Reasm r1\<rparr>" r1] step Cons.prems(3,4) by auto
  with step show ?case by auto
qed

text \<open>
  A PDU on a dynamic channel, announced by a first chunk that holds part of it and continued
  in any number of data chunks, is reassembled exactly: the stream handed over when the last
  chunk arrives holds the concatenated data, and the dechunker is idle again.
\<close>

lemma dyn_dechunker_reassembles:
  assumes "dyn_reassembly_s self = No_stream"
    and "pdu = first @ concat mids @ final" and "final \<noteq> []"
    and "1590 < length pdu" and "length pdu < 2 ^ 31"
  shows "\<exists>self' s' self'' r self3.
     dyn_dechunker_process_first_chunk (True, True) junk (Some self) (Some (chunk_stream first)) (int (length pdu)) =
       Some (E_DYN_IN_PROGRESS, Some self', Some s') \<and>
     dyn_run self' (mids @ [final]) = Some (replicate (length mids) E_DYN_IN_PROGRESS @ [E_DYN_READY], self'') \<and>
     dyn_dechunker_get_stream (Some self'') = (Reasm r, Some self3) \<and> in_wf r \<and> unread r = pdu \<and>
     \<not> dyn_dechunker_pending (Some self3)"
proof -
  let ?r = "init_stream junk (length pdu) make_stream"
  have r: "out_wf ?r" "written ?r = []" "s_size ?r = length pdu" "s_p ?r = 0"
    using new_stream [OF assms(5)] by auto
  have lt: "length first < length pdu" using assms(2,3) by simp
  then have s: "in_wf (chunk_stream first)" "unread (chunk_stream first) = first"
    using chunk_stream_ok [of first] assms(5) by simp_all
  obtain r1 s1 where c: "copy_chunk ?r (chunk_stream first) (int (length first)) = Some (r1, s1)" "out_wf r1"
    "written r1 = first" "s_size r1 = length pdu" "s_p r1 = length first"
    using copy_chunk_ok [OF s(1) r(1)] r s(2) lt by auto
  let ?self = "self\<lparr>dyn_reassembly_s := Reasm r1\<rparr>"
  have one: "dyn_dechunker_process_first_chunk (True, True) junk (Some self) (Some (chunk_stream first)) (int (length pdu)) =
      Some (E_DYN_IN_PROGRESS, Some ?self, Some s1)"
    using c lt assms(1,4) s by (simp add: dyn_dechunker_process_first_chunk_def stream_simps new_reassembly_def)
  obtain r' self' where fin: "dyn_run ?self (mids @ [final]) =
       Some (replicate (length mids) E_DYN_IN_PROGRESS @ [E_DYN_READY], self')"
     "dyn_reassembly_s self' = Reasm r'" "in_wf r'" "unread r' = pdu" "s_end r' = length pdu"
    using dyn_run_collect [of ?self r1 mids final] c assms(2,3) by auto
  then have "dyn_dechunker_get_stream (Some self') = (Reasm r', Some (self'\<lparr>dyn_reassembly_s := No_stream\<rparr>))"
    using assms(4) by (auto simp: dyn_dechunker_get_stream_def)
  with one fin show ?thesis by (auto simp: dyn_dechunker_pending_def)
qed

lemma dyn_dechunker_reassembles_witness:
  "\<exists>self' s' self'' r self3.
     dyn_dechunker_process_first_chunk (True, True) (\<lambda>i. 0) (Some \<lparr>dyn_name = [], dyn_reassembly_s = No_stream\<rparr>)
       (Some (chunk_stream (replicate 1590 1))) 1593 = Some (E_DYN_IN_PROGRESS, Some self', Some s') \<and>
     dyn_run self' ([[2]] @ [[3, 4]]) = Some ([E_DYN_IN_PROGRESS, E_DYN_READY], self'') \<and>
     dyn_dechunker_get_stream (Some self'') = (Reasm r, Some self3) \<and> in_wf r \<and>
     unread r = replicate 1590 1 @ [2, 3, 4] \<and> \<not> dyn_dechunker_pending (Some self3)"
  using dyn_dechunker_reassembles [of "\<lparr>dyn_name = [], dyn_reassembly_s = No_stream\<rparr>"
      "replicate 1590 1 @ [2, 3, 4]" "replicate 1590 1" "[[2]]" "[3, 4]" "\<lambda>i. 0"]
  by simp

text \<open>
  When the buffer for a dynamic PDU cannot be allocated the first chunk is rejected, but the
  reassembly stream stays set with a NULL buffer: the next non-empty data chunk that fits the
  announced size is copied to it, which is undefined behaviour.
\<close>

lemma dyn_dechunker_oom_write:
  assumes "dyn_reassembly_s self = No_stream" and "1590 < n" and "n < 2 ^ 31"
    and "length first < n" and "bs \<noteq> []" and "length bs \<le> n"
  shows "\<exists>self'. dyn_dechunker_process_first_chunk (True, False) junk (Some self) (Some (chunk_stream first)) (int n) =
       Some (E_DYN_ERROR, Some self', Some (chunk_stream first)) \<and>
     dyn_dechunker_process_data_chunk (Some self') (Some (chunk_stream bs)) = None"
proof -
  have s: "in_wf (chunk_stream first)" "unread (chunk_stream first) = first"
    "in_wf (chunk_stream bs)" "unread (chunk_stream bs) = bs"
    using chunk_stream_ok [of first] chunk_stream_ok [of bs] assms(3-6) by simp_all
  then show ?thesis
    using assms
    by (simp add: dyn_dechunker_process_first_chunk_def dyn_dechunker_process_data_chunk_def stream_simps
        new_reassembly_def)
qed

lemma dyn_dechunker_oom_write_witness:
  "\<exists>self'. dyn_dechunker_process_first_chunk (True, False) (\<lambda>i. 0) (Some \<lparr>dyn_name = [], dyn_reassembly_s = No_stream\<rparr>)
       (Some (chunk_stream [1])) (int 2000) = Some (E_DYN_ERROR, Some self', Some (chunk_stream [1])) \<and>
     dyn_dechunker_process_data_chunk (Some self') (Some (chunk_stream [2])) = None"
  by (rule dyn_dechunker_oom_write) simp_all

end
