(* ===== verification/XFS_Model.thy ===== *)
theory XFS_Model
  imports Xrdp_Prelude
begin

text \<open>
  \<^verbatim>\<open>sesman/chansrv/chansrv_xfs.c\<close>: the in-memory file system behind the FUSE mount of
  redirected drives. A pointer to an inode is the inode's number, which is its index in
  \<^verbatim>\<open>inode_table\<close>; \<^term>\<open>None\<close> is NULL. Following a pointer to an inode that is not in the
  table (freed memory) or NULL is undefined. The free list is the used part of its array, the
  next free number last. A loop along pointers may not end on a malformed structure:
  such loops are partial functions, and not ending is \<^term>\<open>None\<close> too.
\<close>

abbreviation (input) FUSE_ROOT_ID :: nat where "FUSE_ROOT_ID \<equiv> 1"
abbreviation (input) DELETE_PENDING_ID :: nat where "DELETE_PENDING_ID \<equiv> 2"
abbreviation (input) S_IFDIR :: "32 word" where "S_IFDIR \<equiv> 0x4000"
abbreviation (input) S_IFREG :: "32 word" where "S_IFREG \<equiv> 0x8000"
abbreviation (input) XFS_MAXFILENAMELEN :: nat where "XFS_MAXFILENAMELEN \<equiv> 1023"
abbreviation (input) INODE_TABLE_ALLOCATION_INITIAL :: nat where "INODE_TABLE_ALLOCATION_INITIAL \<equiv> 4096"
abbreviation (input) INODE_TABLE_ALLOCATION_GRANULARITY :: nat where "INODE_TABLE_ALLOCATION_GRANULARITY \<equiv> 100"

text \<open>\<^verbatim>\<open>XFS_INODE\<close>, then the private part of \<^verbatim>\<open>XFS_INODE_ALL\<close>.\<close>

record xfs_inode =
  inum :: nat
  mode :: "32 word"
  uid :: int
  gid :: int
  fsize :: int
  atime :: int
  mtime :: int
  ctime :: int
  name :: "byte list"
  generation :: "32 word"
  is_redirected :: int
  device_id :: int
  lindex :: int

record inode_all = xfs_inode +
  parent :: "nat option"
  next_i :: "nat option"
  prev_i :: "nat option"
  dir_begin :: "nat option"
  dir_end :: "nat option"
  open_count :: "32 word"

record xfs_fs =
  inode_table :: "inode_all option list"
  free_list :: "nat list"
  fs_generation :: "32 word"

record xfs_dir_handle =
  h_inum :: nat
  h_generation :: "32 word"

abbreviation inode_count :: "xfs_fs \<Rightarrow> nat" where "inode_count xfs \<equiv> length (inode_table xfs)"

definition tbl :: "xfs_fs \<Rightarrow> nat \<Rightarrow> inode_all option" where
  "tbl xfs i = (if i < inode_count xfs then inode_table xfs ! i else None)"

definition set_tbl :: "nat \<Rightarrow> inode_all option \<Rightarrow> xfs_fs \<Rightarrow> xfs_fs" where
  "set_tbl i x xfs = xfs\<lparr>inode_table := (inode_table xfs)[i := x]\<rparr>"

text \<open>Writing through a pointer.\<close>

definition mod_ino :: "nat \<Rightarrow> (inode_all \<Rightarrow> inode_all) \<Rightarrow> xfs_fs \<Rightarrow> xfs_fs option" where
  "mod_ino i f xfs = (case tbl xfs i of None \<Rightarrow> None | Some x \<Rightarrow> Some (set_tbl i (Some (f x)) xfs))"

definition is_dir :: "inode_all \<Rightarrow> bool" where "is_dir x \<longleftrightarrow> mode x AND S_IFDIR \<noteq> 0"
definition is_reg :: "inode_all \<Rightarrow> bool" where "is_reg x \<longleftrightarrow> mode x AND S_IFREG \<noteq> 0"

subsection \<open>Directory lists\<close>

partial_function (option) find_predecessor :: "xfs_fs \<Rightarrow> nat \<Rightarrow> nat option \<Rightarrow> nat option option" where
  [code]: "find_predecessor xfs n pred =
     (case pred of
        None \<Rightarrow> Some None
      | Some p \<Rightarrow> (case tbl xfs p of
                   None \<Rightarrow> None
                 | Some x \<Rightarrow> if inum x > n then find_predecessor xfs n (prev_i x) else Some (Some p)))"

definition add_inode_to_list :: "nat \<Rightarrow> nat \<Rightarrow> xfs_fs \<Rightarrow> xfs_fs option" where
  "add_inode_to_list d y xfs =
     do { x \<leftarrow> tbl xfs y;
          dx \<leftarrow> tbl xfs d;
          predecessor \<leftarrow> find_predecessor xfs (inum x) (dir_end dx);
          (case predecessor of
             None \<Rightarrow>
               do { xfs \<leftarrow> mod_ino y (\<lambda>x. x\<lparr>next_i := dir_begin dx, prev_i := None\<rparr>) xfs;
                    xfs \<leftarrow> (case dir_begin dx of
                              None \<Rightarrow> mod_ino d (\<lambda>x. x\<lparr>dir_end := Some y\<rparr>) xfs
                            | Some b \<Rightarrow> mod_ino b (\<lambda>x. x\<lparr>prev_i := Some y\<rparr>) xfs);
                    mod_ino d (\<lambda>x. x\<lparr>dir_begin := Some y\<rparr>) xfs }
           | Some p \<Rightarrow>
               do { px \<leftarrow> tbl xfs p;
                    xfs \<leftarrow> mod_ino y (\<lambda>x. x\<lparr>next_i := next_i px, prev_i := Some p\<rparr>) xfs;
                    xfs \<leftarrow> (case next_i px of
                              None \<Rightarrow> mod_ino d (\<lambda>x. x\<lparr>dir_end := Some y\<rparr>) xfs
                            | Some n \<Rightarrow> mod_ino n (\<lambda>x. x\<lparr>prev_i := Some y\<rparr>) xfs);
                    mod_ino p (\<lambda>x. x\<lparr>next_i := Some y\<rparr>) xfs }) }"

definition remove_inode_from_list :: "nat \<Rightarrow> nat \<Rightarrow> xfs_fs \<Rightarrow> xfs_fs option" where
  "remove_inode_from_list d y xfs =
     do { x \<leftarrow> tbl xfs y;
          xfs \<leftarrow> (case prev_i x of
                    None \<Rightarrow> mod_ino d (\<lambda>z. z\<lparr>dir_begin := next_i x\<rparr>) xfs
                  | Some p \<Rightarrow> mod_ino p (\<lambda>z. z\<lparr>next_i := next_i x\<rparr>) xfs);
          (case next_i x of
             None \<Rightarrow> mod_ino d (\<lambda>z. z\<lparr>dir_end := prev_i x\<rparr>) xfs
           | Some n \<Rightarrow> mod_ino n (\<lambda>z. z\<lparr>prev_i := prev_i x\<rparr>) xfs) }"

definition link_inode_into_directory_node :: "nat \<Rightarrow> nat \<Rightarrow> xfs_fs \<Rightarrow> xfs_fs option" where
  "link_inode_into_directory_node d y xfs =
     do { xfs \<leftarrow> mod_ino y (\<lambda>x. x\<lparr>parent := Some d\<rparr>) xfs; add_inode_to_list d y xfs }"

definition unlink_inode_from_parent :: "nat \<Rightarrow> xfs_fs \<Rightarrow> xfs_fs option" where
  "unlink_inode_from_parent y xfs =
     do { x \<leftarrow> tbl xfs y;
          d \<leftarrow> parent x;
          xfs \<leftarrow> remove_inode_from_list d y xfs;
          mod_ino y (\<lambda>x. x\<lparr>next_i := None, prev_i := None, parent := None\<rparr>) xfs }"

subsection \<open>Creation and growth\<close>

text \<open>Outcomes of the two allocations of \<^verbatim>\<open>grow_xfs\<close>, of the inode and of the name.\<close>

record xfs_mem =
  m_table :: bool
  m_free :: bool
  m_inode :: bool
  m_name :: bool

definition grow_xfs :: "xfs_mem \<Rightarrow> xfs_fs \<Rightarrow> nat \<Rightarrow> bool \<times> xfs_fs" where
  "grow_xfs m xfs extra_inodes =
     (let new_count = inode_count xfs + extra_inodes in
      if m_table m \<and> m_free m
      then (True, xfs\<lparr>inode_table := inode_table xfs @ replicate extra_inodes None,
                      free_list := free_list xfs @ rev [inode_count xfs..<new_count]\<rparr>)
      else (False, xfs))"

definition new_inode :: inode_all where
  "new_inode = \<lparr>inum = 0, mode = 0, uid = 0, gid = 0, fsize = 0, atime = 0, mtime = 0, ctime = 0,
     name = [], generation = 0, is_redirected = 0, device_id = 0, lindex = 0, parent = None,
     next_i = None, prev_i = None, dir_begin = None, dir_end = None, open_count = 0\<rparr>"

definition special_dir :: "nat \<Rightarrow> byte list \<Rightarrow> 32 word \<Rightarrow> int \<Rightarrow> int \<Rightarrow> int \<Rightarrow> inode_all" where
  "special_dir n nm umask u g now =
     new_inode\<lparr>inum := n, mode := (S_IFDIR OR 0x1ff) AND NOT umask, uid := u, gid := g,
       fsize := 0, atime := now, mtime := now, ctime := now, name := nm, generation := 1,
       is_redirected := 0, device_id := 0\<rparr>"

text \<open>The names are \<^verbatim>\<open>"."\<close> and \<^verbatim>\<open>".delete-pending"\<close>.\<close>

definition xfs_create_xfs_fs :: "bool \<Rightarrow> xfs_mem \<Rightarrow> 32 word \<Rightarrow> int \<Rightarrow> int \<Rightarrow> int \<Rightarrow> xfs_fs option" where
  "xfs_create_xfs_fs ok m umask u g now =
     (if \<not> ok then None
      else (let xfs = \<lparr>inode_table = [], free_list = [], fs_generation = 1\<rparr>;
                (grown, xfs) = grow_xfs m xfs INODE_TABLE_ALLOCATION_INITIAL in
            if \<not> grown \<or> \<not> m_inode m \<or> \<not> m_name m \<or> length (free_list xfs) < 3 then None
            else Some
              (set_tbl DELETE_PENDING_ID
                 (Some (special_dir DELETE_PENDING_ID [46, 100, 101, 108, 101, 116, 101, 45, 112, 101, 110, 100, 105, 110, 103]
                          umask u g now))
                 (set_tbl FUSE_ROOT_ID (Some (special_dir FUSE_ROOT_ID [46] umask u g now))
                   (set_tbl 0 None
                     (xfs\<lparr>free_list := take (length (free_list xfs) - 3) (free_list xfs)\<rparr>))))))"

subsection \<open>Queries\<close>

partial_function (option) lookup_loop :: "xfs_fs \<Rightarrow> byte list \<Rightarrow> nat option \<Rightarrow> nat option option" where
  [code]: "lookup_loop xfs nm p =
     (case p of
        None \<Rightarrow> Some None
      | Some i \<Rightarrow> (case tbl xfs i of
                   None \<Rightarrow> None
                 | Some x \<Rightarrow> if name x = nm then Some (Some i) else lookup_loop xfs nm (next_i x)))"

definition xfs_lookup_in_dir :: "xfs_fs \<Rightarrow> nat \<Rightarrow> byte list \<Rightarrow> nat option option" where
  "xfs_lookup_in_dir xfs n nm =
     (case tbl xfs n of
        None \<Rightarrow> Some None
      | Some x \<Rightarrow> if is_dir x then lookup_loop xfs nm (dir_begin x) else Some None)"

definition xfs_get :: "xfs_fs \<Rightarrow> nat \<Rightarrow> nat option" where
  "xfs_get xfs n = (case tbl xfs n of None \<Rightarrow> None | Some x \<Rightarrow> Some n)"

text \<open>The path is built from the end; the loop stops at the root or at an inode without parent.\<close>

partial_function (option) path_loop :: "xfs_fs \<Rightarrow> nat option \<Rightarrow> byte list \<Rightarrow> byte list option" where
  [code]: "path_loop xfs p acc =
     (case p of
        None \<Rightarrow> Some acc
      | Some i \<Rightarrow> (case tbl xfs i of
                   None \<Rightarrow> None
                 | Some x \<Rightarrow> if inum x = FUSE_ROOT_ID then Some acc
                             else path_loop xfs (parent x) (0x2f # name x @ acc)))"

definition xfs_get_full_path :: "bool \<Rightarrow> xfs_fs \<Rightarrow> nat \<Rightarrow> byte list option option" where
  "xfs_get_full_path ok xfs n =
     (case tbl xfs n of
        None \<Rightarrow> Some None
      | Some x \<Rightarrow>
          if inum x = FUSE_ROOT_ID then Some (if ok then Some [0x2f] else None)
          else do { path \<leftarrow> path_loop xfs (Some n) []; Some (if ok then Some path else None) })"

definition xfs_is_dir_empty :: "xfs_fs \<Rightarrow> nat \<Rightarrow> bool" where
  "xfs_is_dir_empty xfs n =
     (case tbl xfs n of None \<Rightarrow> False | Some x \<Rightarrow> is_dir x \<and> dir_begin x = None)"

partial_function (option) under_loop :: "xfs_fs \<Rightarrow> nat \<Rightarrow> nat option \<Rightarrow> nat \<Rightarrow> nat option" where
  [code]: "under_loop xfs d e cnt =
     (case e of
        None \<Rightarrow> Some 0
      | Some i \<Rightarrow> if i = d then Some cnt
                  else (case tbl xfs i of None \<Rightarrow> None | Some x \<Rightarrow> under_loop xfs d (parent x) (Suc cnt)))"

definition xfs_is_under :: "xfs_fs \<Rightarrow> nat \<Rightarrow> nat \<Rightarrow> nat option" where
  "xfs_is_under xfs d e =
     (case (tbl xfs d, tbl xfs e) of
        (Some dx, Some ex) \<Rightarrow> if is_dir dx then under_loop xfs d (Some e) 0 else Some 0
      | _ \<Rightarrow> Some 0)"

subsection \<open>Adding an entry\<close>

text \<open>
  The result is the number of the new inode. \<^term>\<open>now\<close> is the time of day.
\<close>

definition xfs_add_entry ::
  "xfs_mem \<Rightarrow> int \<Rightarrow> xfs_fs \<Rightarrow> nat \<Rightarrow> byte list \<Rightarrow> 32 word \<Rightarrow> (nat option \<times> xfs_fs) option" where
  "xfs_add_entry m now xfs parent_inum nm md =
     (case tbl xfs parent_inum of
        None \<Rightarrow> Some (None, xfs)
      | Some px \<Rightarrow>
          if \<not> is_dir px \<or> parent_inum = DELETE_PENDING_ID \<or> length nm > XFS_MAXFILENAMELEN
          then Some (None, xfs)
          else
            do { existing \<leftarrow> xfs_lookup_in_dir xfs parent_inum nm;
                 if existing \<noteq> None then Some (None, xfs)
                 else
                   (let md = (if md AND S_IFDIR \<noteq> 0 then (md AND 0x1ff) OR S_IFDIR else (md AND 0x1ff) OR S_IFREG);
                        (space, xfs) = (if free_list xfs \<noteq> [] then (True, xfs)
                                        else grow_xfs m xfs INODE_TABLE_ALLOCATION_GRANULARITY) in
                    if \<not> space then Some (None, xfs)
                    else if \<not> m_inode m \<or> \<not> m_name m then Some (None, xfs)
                    else if last (free_list xfs) \<ge> inode_count xfs then None
                    else
                      do { let n = last (free_list xfs);
                           let xfs = xfs\<lparr>free_list := butlast (free_list xfs)\<rparr>;
                           let xfs = set_tbl n (Some (new_inode\<lparr>inum := n, mode := md, uid := uid px, gid := gid px,
                                 fsize := (if md AND S_IFDIR \<noteq> 0 then 4096 else 0),
                                 atime := now, mtime := now, ctime := now, name := nm,
                                 generation := fs_generation xfs, is_redirected := is_redirected px,
                                 device_id := device_id px, lindex := 0\<rparr>)) xfs;
                           xfs \<leftarrow> link_inode_into_directory_node parent_inum n xfs;
                           Some (Some n, xfs) }) })"

subsection \<open>Removing an entry\<close>

text \<open>
  \<^verbatim>\<open>xfs_remove_entry\<close> and the loop of \<^verbatim>\<open>xfs_remove_directory_contents\<close> call each other. The
  first argument bounds the number of nested calls and loop rounds; running out is
  \<^term>\<open>None\<close>, as is not ending.
\<close>

definition free_inode :: "nat \<Rightarrow> xfs_fs \<Rightarrow> xfs_fs option" where
  "free_inode n xfs =
     (if length (free_list xfs) < inode_count xfs
      then Some (set_tbl n None (xfs\<lparr>free_list := free_list xfs @ [n], fs_generation := fs_generation xfs + 1\<rparr>))
      else None)"

fun rem_entry :: "nat \<Rightarrow> xfs_fs \<Rightarrow> nat \<Rightarrow> xfs_fs option"
  and rem_loop :: "nat \<Rightarrow> xfs_fs \<Rightarrow> nat \<Rightarrow> xfs_fs option" where
  "rem_entry 0 xfs n = None"
| "rem_entry (Suc k) xfs n =
     (case tbl xfs n of
        None \<Rightarrow> Some xfs
      | Some x \<Rightarrow>
          do { xfs \<leftarrow> (if is_dir x then rem_loop k xfs n else Some xfs);
               xfs \<leftarrow> unlink_inode_from_parent n xfs;
               x \<leftarrow> tbl xfs n;
               if is_reg x \<and> open_count x > 0 then link_inode_into_directory_node DELETE_PENDING_ID n xfs
               else free_inode n xfs })"
| "rem_loop 0 xfs n = None"
| "rem_loop (Suc k) xfs n =
     do { x \<leftarrow> tbl xfs n;
          (case dir_end x of
             None \<Rightarrow> Some xfs
           | Some e \<Rightarrow> do { ex \<leftarrow> tbl xfs e; xfs \<leftarrow> rem_entry k xfs (inum ex); rem_loop k xfs n }) }"

definition xfs_fuel :: "xfs_fs \<Rightarrow> nat" where
  "xfs_fuel xfs = 2 * inode_count xfs + 2"

definition xfs_remove_entry :: "xfs_fs \<Rightarrow> nat \<Rightarrow> xfs_fs option" where
  "xfs_remove_entry xfs n = rem_entry (xfs_fuel xfs) xfs n"

definition xfs_remove_directory_contents :: "xfs_fs \<Rightarrow> nat \<Rightarrow> xfs_fs option" where
  "xfs_remove_directory_contents xfs n =
     (case tbl xfs n of
        None \<Rightarrow> Some xfs
      | Some x \<Rightarrow> if is_dir x then rem_loop (xfs_fuel xfs) xfs n else Some xfs)"

subsection \<open>Enumerating a directory\<close>

definition xfs_opendir :: "bool \<Rightarrow> xfs_fs \<Rightarrow> nat \<Rightarrow> xfs_dir_handle option" where
  "xfs_opendir ok xfs n =
     (case tbl xfs n of
        None \<Rightarrow> None
      | Some x \<Rightarrow> if is_dir x \<and> ok then Some \<lparr>h_inum = inum x, h_generation = generation x\<rparr> else None)"

definition child_of :: "xfs_fs \<Rightarrow> nat \<Rightarrow> nat \<Rightarrow> bool" where
  "child_of xfs d i = (case tbl xfs i of None \<Rightarrow> False | Some x \<Rightarrow> parent x = Some d)"

text \<open>The result is the inode found and the new offset; the offset \<^term>\<open>-1\<close> is the end.\<close>

definition xfs_readdir :: "xfs_fs \<Rightarrow> xfs_dir_handle \<Rightarrow> int \<Rightarrow> (nat option \<times> int) option" where
  "xfs_readdir xfs handle off =
     do { let r = (case tbl xfs (h_inum handle) of
                     None \<Rightarrow> None
                   | Some dx \<Rightarrow>
                       if is_dir dx \<and> h_generation handle = generation dx then
                         (if off = - 1 then None
                          else if off = 0 then dir_begin dx
                          else if child_of xfs (h_inum handle) (nat (off mod 2 ^ 64)) then Some (nat (off mod 2 ^ 64))
                          else List.find (child_of xfs (h_inum handle)) [nat (off mod 2 ^ 64) + 1..<inode_count xfs])
                       else None);
          (case r of
             None \<Rightarrow> Some (None, - 1)
           | Some i \<Rightarrow>
               do { x \<leftarrow> tbl xfs i;
                    (case next_i x of
                       None \<Rightarrow> Some (Some i, - 1)
                     | Some j \<Rightarrow> do { y \<leftarrow> tbl xfs j; Some (Some i, int (inum y)) }) }) }"

subsection \<open>Open counts\<close>

definition xfs_increment_file_open_count :: "xfs_fs \<Rightarrow> nat \<Rightarrow> xfs_fs" where
  "xfs_increment_file_open_count xfs n =
     (case tbl xfs n of
        None \<Rightarrow> xfs
      | Some x \<Rightarrow> if is_reg x then set_tbl n (Some (x\<lparr>open_count := open_count x + 1\<rparr>)) xfs else xfs)"

definition xfs_decrement_file_open_count :: "xfs_fs \<Rightarrow> nat \<Rightarrow> xfs_fs option" where
  "xfs_decrement_file_open_count xfs n =
     (case tbl xfs n of
        None \<Rightarrow> Some xfs
      | Some x \<Rightarrow>
          if is_reg x then
            (let x = (if open_count x > 0 then x\<lparr>open_count := open_count x - 1\<rparr> else x);
                 xfs = set_tbl n (Some x) xfs in
             if open_count x = 0 \<and> parent x = Some DELETE_PENDING_ID then xfs_remove_entry xfs n else Some xfs)
          else Some xfs)"

definition xfs_get_file_open_count :: "xfs_fs \<Rightarrow> nat \<Rightarrow> 32 word" where
  "xfs_get_file_open_count xfs n =
     (case tbl xfs n of None \<Rightarrow> 0 | Some x \<Rightarrow> if is_reg x then open_count x else 0)"

text \<open>The two loops over the inode table.\<close>

definition on_device :: "int \<Rightarrow> inode_all \<Rightarrow> bool" where
  "on_device dev x \<longleftrightarrow> is_redirected x \<noteq> 0 \<and> device_id x = dev"

fun zero_counts :: "int \<Rightarrow> nat list \<Rightarrow> xfs_fs \<Rightarrow> xfs_fs" where
  "zero_counts dev [] xfs = xfs"
| "zero_counts dev (i # is) xfs =
     zero_counts dev is
       (case tbl xfs i of
          None \<Rightarrow> xfs
        | Some x \<Rightarrow> if on_device dev x \<and> is_reg x then set_tbl i (Some (x\<lparr>open_count := 0\<rparr>)) xfs else xfs)"

fun remove_device :: "int \<Rightarrow> nat list \<Rightarrow> xfs_fs \<Rightarrow> xfs_fs option" where
  "remove_device dev [] xfs = Some xfs"
| "remove_device dev (i # is) xfs =
     do { xfs \<leftarrow> (case tbl xfs i of
                    None \<Rightarrow> Some xfs
                  | Some x \<Rightarrow> if on_device dev x then xfs_remove_entry xfs (inum x) else Some xfs);
          remove_device dev is xfs }"

definition xfs_delete_redirected_entries_with_device_id :: "xfs_fs \<Rightarrow> int \<Rightarrow> xfs_fs option" where
  "xfs_delete_redirected_entries_with_device_id xfs dev =
     (let is = [FUSE_ROOT_ID..<inode_count xfs] in remove_device dev is (zero_counts dev is xfs))"

subsection \<open>Moving an entry\<close>

definition xfs_check_move_entry :: "xfs_fs \<Rightarrow> nat \<Rightarrow> nat \<Rightarrow> byte list \<Rightarrow> bool option" where
  "xfs_check_move_entry xfs n new_parent nm =
     (if length nm > XFS_MAXFILENAMELEN \<or> tbl xfs n = None \<or> new_parent = DELETE_PENDING_ID then Some False
      else case tbl xfs new_parent of
             None \<Rightarrow> Some False
           | Some px \<Rightarrow> if \<not> is_dir px then Some False
                       else do { u \<leftarrow> xfs_is_under xfs n new_parent; Some (u = 0) })"

text \<open>\<^verbatim>\<open>EINVAL\<close> is 22 and \<^verbatim>\<open>ENOMEM\<close> 12. The inode may be gone when its target has been removed.\<close>

definition xfs_move_entry :: "bool \<Rightarrow> xfs_fs \<Rightarrow> nat \<Rightarrow> nat \<Rightarrow> byte list \<Rightarrow> (int \<times> xfs_fs) option" where
  "xfs_move_entry ok xfs n new_parent nm =
     (if \<not> ok then Some (12, xfs)
      else
        do { allowed \<leftarrow> xfs_check_move_entry xfs n new_parent nm;
             if \<not> allowed then Some (22, xfs)
             else
               do { x \<leftarrow> tbl xfs n;
                    if parent x \<noteq> Some new_parent then
                      do { dest \<leftarrow> xfs_lookup_in_dir xfs new_parent nm;
                           xfs \<leftarrow> (case dest of None \<Rightarrow> Some xfs | Some t \<Rightarrow> xfs_remove_entry xfs t);
                           xfs \<leftarrow> unlink_inode_from_parent n xfs;
                           xfs \<leftarrow> link_inode_into_directory_node new_parent n xfs;
                           xfs \<leftarrow> mod_ino n (\<lambda>x. x\<lparr>name := nm\<rparr>) xfs;
                           Some (0, xfs) }
                    else if name x \<noteq> nm then
                      do { dest \<leftarrow> xfs_lookup_in_dir xfs new_parent nm;
                           xfs \<leftarrow> (case dest of None \<Rightarrow> Some xfs | Some t \<Rightarrow> xfs_remove_entry xfs t);
                           xfs \<leftarrow> mod_ino n (\<lambda>x. x\<lparr>name := nm\<rparr>) xfs;
                           Some (0, xfs) }
                    else Some (0, xfs) } })"

end
