(* ===== verification/XFS_Links.thy ===== *)
theory XFS_Links
  imports XFS_Model
begin

text \<open>
  The doubly linked directory lists: a list predicate over the inode table, and what the
  insertion and removal routines do to it.
\<close>

definition first_of :: "nat list \<Rightarrow> nat option \<Rightarrow> nat option" where
  "first_of xs n = (case xs of [] \<Rightarrow> n | x # _ \<Rightarrow> Some x)"

definition last_of :: "nat option \<Rightarrow> nat list \<Rightarrow> nat option" where
  "last_of p xs = (if xs = [] then p else Some (last xs))"

lemma first_last_simps [simp]:
  "first_of [] n = n" "first_of (x # xs) n = Some x" "last_of p [] = p" "last_of p (xs @ [x]) = Some x"
  "last_of p (x # xs) = last_of (Some x) xs" "last_of p (xs @ x # ys) = last_of (Some x) ys"
  by (auto simp: first_of_def last_of_def)

lemma first_of_append: "first_of (xs @ ys) n = first_of xs (first_of ys n)"
  by (cases xs) auto

text \<open>A segment of a list: the links of its nodes, given what precedes and follows it.\<close>

fun dllseg :: "(nat \<Rightarrow> inode_all option) \<Rightarrow> nat option \<Rightarrow> nat list \<Rightarrow> nat option \<Rightarrow> bool" where
  "dllseg h p [] n = True"
| "dllseg h p (x # xs) n =
     ((\<exists>i. h x = Some i \<and> prev_i i = p \<and> next_i i = first_of xs n) \<and> dllseg h (Some x) xs n)"

lemma dllseg_append:
  "dllseg h p (xs @ ys) n \<longleftrightarrow> dllseg h p xs (first_of ys n) \<and> dllseg h (last_of p xs) ys n"
  by (induction xs arbitrary: p) (auto simp: first_of_append)

definition links :: "inode_all option \<Rightarrow> (nat option \<times> nat option) option" where
  "links x = map_option (\<lambda>i. (prev_i i, next_i i)) x"

lemma dllseg_cong:
  "(\<And>x. x \<in> set xs \<Longrightarrow> links (h x) = links (h' x)) \<Longrightarrow> dllseg h p xs n \<longleftrightarrow> dllseg h' p xs n"
proof (induction xs arbitrary: p)
  case (Cons x xs)
  have "links (h x) = links (h' x)" using Cons.prems by simp
  then have "(\<exists>i. h x = Some i \<and> prev_i i = p \<and> next_i i = first_of xs n) \<longleftrightarrow>
      (\<exists>i. h' x = Some i \<and> prev_i i = p \<and> next_i i = first_of xs n)"
    by (cases "h x"; cases "h' x") (auto simp: links_def)
  with Cons show ?case by simp
qed simp

lemma dllseg_upd_other [simp]:
  "y \<notin> set xs \<Longrightarrow> dllseg (h(y := v)) p xs n = dllseg h p xs n"
  by (rule dllseg_cong) auto

text \<open>The last node's successor and the first node's predecessor can be redirected.\<close>

lemma dllseg_set_next:
  "dllseg h p (xs @ [a]) n \<Longrightarrow> a \<notin> set xs \<Longrightarrow> h a = Some i \<Longrightarrow>
     dllseg (h(a \<mapsto> i\<lparr>next_i := m\<rparr>)) p (xs @ [a]) m"
  by (auto simp: dllseg_append)

lemma dllseg_set_prev:
  "dllseg h p (a # xs) n \<Longrightarrow> a \<notin> set xs \<Longrightarrow> h a = Some i \<Longrightarrow>
     dllseg (h(a \<mapsto> i\<lparr>prev_i := q\<rparr>)) q (a # xs) n"
  by auto

lemma dllseg_node:
  "dllseg h p xs n \<Longrightarrow> x \<in> set xs \<Longrightarrow> \<exists>i. h x = Some i"
  by (induction xs arbitrary: p) auto

text \<open>The list of a directory.\<close>

definition dirlist :: "(nat \<Rightarrow> inode_all option) \<Rightarrow> nat \<Rightarrow> nat list \<Rightarrow> bool" where
  "dirlist h d xs \<longleftrightarrow>
     (\<exists>dx. h d = Some dx \<and> dir_begin dx = first_of xs None \<and> dir_end dx = last_of None xs) \<and>
     dllseg h None xs None"

text \<open>What a list operation may change: the list ends of the directory, the links of its members.\<close>

definition relinked :: "nat \<Rightarrow> nat set \<Rightarrow> (nat \<Rightarrow> inode_all option) \<Rightarrow> (nat \<Rightarrow> inode_all option) \<Rightarrow> bool" where
  "relinked d S h h' \<longleftrightarrow>
     (\<forall>i. i \<noteq> d \<and> i \<notin> S \<longrightarrow> h' i = h i) \<and>
     (\<forall>i \<in> S. \<exists>x a b. h i = Some x \<and> h' i = Some (x\<lparr>next_i := a, prev_i := b\<rparr>)) \<and>
     (\<exists>dx a b. h d = Some dx \<and> h' d = Some (dx\<lparr>dir_begin := a, dir_end := b\<rparr>))"

text \<open>The table after a write through a pointer.\<close>

lemma tbl_less: "tbl xfs i = Some x \<Longrightarrow> i < inode_count xfs"
  by (auto simp: tbl_def split: if_splits)

lemma tbl_set_tbl [simp]:
  "i < inode_count xfs \<Longrightarrow> tbl (set_tbl i v xfs) = (tbl xfs)(i := v)"
  by (rule ext) (auto simp: tbl_def set_tbl_def)

lemma set_tbl_fields [simp]:
  "inode_count (set_tbl i v xfs) = inode_count xfs" "free_list (set_tbl i v xfs) = free_list xfs"
  "fs_generation (set_tbl i v xfs) = fs_generation xfs"
  by (simp_all add: set_tbl_def)

lemma mod_ino_ok:
  "tbl xfs i = Some x \<Longrightarrow>
     mod_ino i f xfs = Some (set_tbl i (Some (f x)) xfs) \<and>
     tbl (set_tbl i (Some (f x)) xfs) = (tbl xfs)(i \<mapsto> f x)"
  by (simp add: mod_ino_def tbl_less)

text \<open>What stays: the counters and the free list.\<close>

definition same_rest :: "xfs_fs \<Rightarrow> xfs_fs \<Rightarrow> bool" where
  "same_rest xfs xfs' \<longleftrightarrow> inode_count xfs' = inode_count xfs \<and> free_list xfs' = free_list xfs \<and>
     fs_generation xfs' = fs_generation xfs"

lemma mod_inoE:
  assumes "tbl xfs i = Some x"
  obtains xfs' where "mod_ino i f xfs = Some xfs'" "tbl xfs' = (tbl xfs)(i \<mapsto> f x)" "same_rest xfs xfs'"
  using mod_ino_ok [OF assms, of f] by (simp add: same_rest_def)

lemma same_rest_trans: "same_rest a b \<Longrightarrow> same_rest b c \<Longrightarrow> same_rest a c"
  by (simp add: same_rest_def)

lemma relinked_trans:
  assumes "relinked d S h h1" "relinked d S h1 h2"
  shows "relinked d S h h2"
proof -
  have "\<exists>x a b. h i = Some x \<and> h2 i = Some (x\<lparr>next_i := a, prev_i := b\<rparr>)" if i: "i \<in> S" for i
  proof -
    obtain x a b where x: "h i = Some x" "h1 i = Some (x\<lparr>next_i := a, prev_i := b\<rparr>)"
      using assms(1) i by (auto simp: relinked_def)
    moreover obtain y a' b' where "h1 i = Some y" "h2 i = Some (y\<lparr>next_i := a', prev_i := b'\<rparr>)"
      using assms(2) i by (auto simp: relinked_def)
    ultimately show ?thesis by auto
  qed
  moreover have "\<exists>x a b. h d = Some x \<and> h2 d = Some (x\<lparr>dir_begin := a, dir_end := b\<rparr>)"
  proof -
    obtain x a b where x: "h d = Some x" "h1 d = Some (x\<lparr>dir_begin := a, dir_end := b\<rparr>)"
      using assms(1) by (auto simp: relinked_def)
    moreover obtain y a' b' where "h1 d = Some y" "h2 d = Some (y\<lparr>dir_begin := a', dir_end := b'\<rparr>)"
      using assms(2) by (auto simp: relinked_def)
    ultimately show ?thesis by auto
  qed
  ultimately show ?thesis using assms by (auto simp: relinked_def)
qed

text \<open>
  A directory list cut in two: the left part leads to \<^term>\<open>r\<close>, the right part back to
  \<^term>\<open>q\<close>. The routines redirect the two pointers at the cut.
\<close>

definition left_part :: "(nat \<Rightarrow> inode_all option) \<Rightarrow> nat \<Rightarrow> nat list \<Rightarrow> nat option \<Rightarrow> bool" where
  "left_part h d as r \<longleftrightarrow> (\<exists>dx. h d = Some dx \<and> dir_begin dx = first_of as r) \<and> dllseg h None as r"

definition right_part :: "(nat \<Rightarrow> inode_all option) \<Rightarrow> nat \<Rightarrow> nat option \<Rightarrow> nat list \<Rightarrow> bool" where
  "right_part h d q bs \<longleftrightarrow> (\<exists>dx. h d = Some dx \<and> dir_end dx = last_of q bs) \<and> dllseg h q bs None"

lemma last_of_append: "last_of p (xs @ ys) = last_of (last_of p xs) ys"
  by (simp add: last_of_def)

lemma dirlist_cut:
  "dirlist h d (as @ bs) \<longleftrightarrow> left_part h d as (first_of bs None) \<and> right_part h d (last_of None as) bs"
  by (auto simp: dirlist_def left_part_def right_part_def dllseg_append first_of_append last_of_append)

lemma dirlist_cut_node:
  "dirlist h d (as @ y # bs) \<longleftrightarrow>
     left_part h d as (Some y) \<and> right_part h d (Some y) bs \<and>
     (\<exists>x. h y = Some x \<and> prev_i x = last_of None as \<and> next_i x = first_of bs None)"
  by (auto simp: dirlist_def left_part_def right_part_def dllseg_append first_of_append last_of_append)

definition set_fwd :: "nat \<Rightarrow> nat option \<Rightarrow> nat option \<Rightarrow> xfs_fs \<Rightarrow> xfs_fs option" where
  "set_fwd d p v xfs = (case p of None \<Rightarrow> mod_ino d (\<lambda>z. z\<lparr>dir_begin := v\<rparr>) xfs
     | Some p \<Rightarrow> mod_ino p (\<lambda>z. z\<lparr>next_i := v\<rparr>) xfs)"

definition set_back :: "nat \<Rightarrow> nat option \<Rightarrow> nat option \<Rightarrow> xfs_fs \<Rightarrow> xfs_fs option" where
  "set_back d n v xfs = (case n of None \<Rightarrow> mod_ino d (\<lambda>z. z\<lparr>dir_end := v\<rparr>) xfs
     | Some n \<Rightarrow> mod_ino n (\<lambda>z. z\<lparr>prev_i := v\<rparr>) xfs)"

lemma self_upd: "x\<lparr>next_i := next_i x, prev_i := v\<rparr> = x\<lparr>prev_i := v\<rparr>"
  "x\<lparr>next_i := v, prev_i := prev_i x\<rparr> = x\<lparr>next_i := v\<rparr>"
  "x\<lparr>dir_begin := v, dir_end := dir_end x\<rparr> = x\<lparr>dir_begin := v\<rparr>"
  "x\<lparr>dir_begin := dir_begin x, dir_end := v\<rparr> = x\<lparr>dir_end := v\<rparr>"
  "x\<lparr>next_i := next_i x, prev_i := prev_i x\<rparr> = (x :: inode_all)"
  "x\<lparr>dir_begin := dir_begin x, dir_end := dir_end x\<rparr> = (x :: inode_all)"
  by simp_all

lemma relinked_member:
  assumes "\<forall>a \<in> S. \<exists>i. h a = Some i" "h d = Some dx" "d \<notin> S" "p \<in> S" "h p = Some x"
  shows "relinked d S h (h(p \<mapsto> x\<lparr>next_i := a, prev_i := b\<rparr>))"
  using assms unfolding relinked_def by (metis fun_upd_apply self_upd(5,6))

lemma relinked_dir:
  assumes "\<forall>a \<in> S. \<exists>i. h a = Some i" "h d = Some dx" "d \<notin> S"
  shows "relinked d S h (h(d \<mapsto> dx\<lparr>dir_begin := a, dir_end := b\<rparr>))"
  using assms unfolding relinked_def by (metis fun_upd_apply self_upd(5,6))

lemma set_fwd_ok:
  assumes "left_part (tbl xfs) d as r" "right_part (tbl xfs) d q bs"
    and "distinct (as @ bs)" "d \<notin> set (as @ bs)"
  shows "\<exists>xfs'. set_fwd d (last_of None as) r' xfs = Some xfs' \<and> left_part (tbl xfs') d as r' \<and>
     right_part (tbl xfs') d q bs \<and> relinked d (set (as @ bs)) (tbl xfs) (tbl xfs') \<and> same_rest xfs xfs'"
proof -
  obtain dx where dx: "tbl xfs d = Some dx" "dir_begin dx = first_of as r"
    and seg: "dllseg (tbl xfs) None as r"
    using assms(1) by (auto simp: left_part_def)
  have nodes: "\<forall>a \<in> set (as @ bs). \<exists>i. tbl xfs a = Some i"
    using dllseg_node [OF seg] dllseg_node [of "tbl xfs" q bs None] assms(2) by (auto simp: right_part_def)
  show ?thesis
  proof (cases as rule: rev_cases)
    case Nil
    obtain xfs' where "mod_ino d (\<lambda>z. z\<lparr>dir_begin := r'\<rparr>) xfs = Some xfs'"
      "tbl xfs' = (tbl xfs)(d \<mapsto> dx\<lparr>dir_begin := r'\<rparr>)" "same_rest xfs xfs'"
      using dx(1) by (rule mod_inoE)
    moreover have "relinked d (set (as @ bs)) (tbl xfs) ((tbl xfs)(d \<mapsto> dx\<lparr>dir_begin := r'\<rparr>))"
      using relinked_dir [OF nodes dx(1) assms(4), where a = r' and b = "dir_end dx"] by (simp only: self_upd)
    ultimately show ?thesis
      using Nil dx assms(2,4) by (auto simp: set_fwd_def left_part_def right_part_def)
  next
    case (snoc as' p)
    obtain x where x: "tbl xfs p = Some x" using nodes snoc by auto
    obtain xfs' where "mod_ino p (\<lambda>z. z\<lparr>next_i := r'\<rparr>) xfs = Some xfs'"
      "tbl xfs' = (tbl xfs)(p \<mapsto> x\<lparr>next_i := r'\<rparr>)" "same_rest xfs xfs'"
      using x by (rule mod_inoE)
    moreover have "relinked d (set (as @ bs)) (tbl xfs) ((tbl xfs)(p \<mapsto> x\<lparr>next_i := r'\<rparr>))"
      using relinked_member [OF nodes dx(1) assms(4) _ x, where a = r' and b = "prev_i x"] snoc by (simp add: self_upd)
    moreover have "dllseg ((tbl xfs)(p \<mapsto> x\<lparr>next_i := r'\<rparr>)) None as r'"
      using seg x snoc assms(3) by (simp add: dllseg_set_next)
    moreover have "p \<notin> set bs" "p \<noteq> d" using snoc assms(3,4) by auto
    ultimately show ?thesis
      using snoc dx assms(2) by (auto simp: set_fwd_def left_part_def right_part_def first_of_append)
  qed
qed

lemma set_back_ok:
  assumes "left_part (tbl xfs) d as r" "right_part (tbl xfs) d q bs"
    and "distinct (as @ bs)" "d \<notin> set (as @ bs)"
  shows "\<exists>xfs'. set_back d (first_of bs None) q' xfs = Some xfs' \<and> left_part (tbl xfs') d as r \<and>
     right_part (tbl xfs') d q' bs \<and> relinked d (set (as @ bs)) (tbl xfs) (tbl xfs') \<and> same_rest xfs xfs'"
proof -
  obtain dx where dx: "tbl xfs d = Some dx" "dir_end dx = last_of q bs"
    and seg: "dllseg (tbl xfs) q bs None"
    using assms(2) by (auto simp: right_part_def)
  have nodes: "\<forall>a \<in> set (as @ bs). \<exists>i. tbl xfs a = Some i"
    using dllseg_node [OF seg] dllseg_node [of "tbl xfs" None as r] assms(1) by (auto simp: left_part_def)
  show ?thesis
  proof (cases bs)
    case Nil
    obtain xfs' where "mod_ino d (\<lambda>z. z\<lparr>dir_end := q'\<rparr>) xfs = Some xfs'"
      "tbl xfs' = (tbl xfs)(d \<mapsto> dx\<lparr>dir_end := q'\<rparr>)" "same_rest xfs xfs'"
      using dx(1) by (rule mod_inoE)
    moreover have "relinked d (set (as @ bs)) (tbl xfs) ((tbl xfs)(d \<mapsto> dx\<lparr>dir_end := q'\<rparr>))"
      using relinked_dir [OF nodes dx(1) assms(4), where a = "dir_begin dx" and b = q'] by (simp only: self_upd)
    ultimately show ?thesis
      using Nil dx assms(1,4) by (auto simp: set_back_def left_part_def right_part_def)
  next
    case (Cons n bs')
    obtain x where x: "tbl xfs n = Some x" using nodes Cons by auto
    obtain xfs' where "mod_ino n (\<lambda>z. z\<lparr>prev_i := q'\<rparr>) xfs = Some xfs'"
      "tbl xfs' = (tbl xfs)(n \<mapsto> x\<lparr>prev_i := q'\<rparr>)" "same_rest xfs xfs'"
      using x by (rule mod_inoE)
    moreover have "relinked d (set (as @ bs)) (tbl xfs) ((tbl xfs)(n \<mapsto> x\<lparr>prev_i := q'\<rparr>))"
      using relinked_member [OF nodes dx(1) assms(4) _ x, where a = "next_i x" and b = q'] Cons by (simp add: self_upd)
    moreover have "dllseg ((tbl xfs)(n \<mapsto> x\<lparr>prev_i := q'\<rparr>)) q' bs None"
      using seg x Cons assms(3) by (simp add: dllseg_set_prev)
    moreover have "n \<notin> set as" "n \<noteq> d" using Cons assms(3,4) by auto
    ultimately show ?thesis
      using Cons dx assms(1) by (auto simp: set_back_def left_part_def right_part_def)
  qed
qed

lemma remove_inode_from_list_ok:
  assumes "dirlist (tbl xfs) d (as @ y # bs)" "distinct (as @ y # bs)" "d \<notin> set (as @ y # bs)"
  shows "\<exists>xfs'. remove_inode_from_list d y xfs = Some xfs' \<and> dirlist (tbl xfs') d (as @ bs) \<and>
     relinked d (set (as @ bs)) (tbl xfs) (tbl xfs') \<and> same_rest xfs xfs'"
proof -
  obtain x where parts: "left_part (tbl xfs) d as (Some y)" "right_part (tbl xfs) d (Some y) bs"
    and x: "tbl xfs y = Some x" "prev_i x = last_of None as" "next_i x = first_of bs None"
    using assms(1) by (auto simp: dirlist_cut_node)
  have dist: "distinct (as @ bs)" "d \<notin> set (as @ bs)" using assms(2,3) by auto
  obtain xfs1 where s1: "set_fwd d (last_of None as) (first_of bs None) xfs = Some xfs1"
    "left_part (tbl xfs1) d as (first_of bs None)" "right_part (tbl xfs1) d (Some y) bs"
    "relinked d (set (as @ bs)) (tbl xfs) (tbl xfs1)" "same_rest xfs xfs1"
    using set_fwd_ok [OF parts dist] by blast
  obtain xfs2 where s2: "set_back d (first_of bs None) (last_of None as) xfs1 = Some xfs2"
    "left_part (tbl xfs2) d as (first_of bs None)" "right_part (tbl xfs2) d (last_of None as) bs"
    "relinked d (set (as @ bs)) (tbl xfs1) (tbl xfs2)" "same_rest xfs1 xfs2"
    using set_back_ok [OF s1(2,3) dist] by blast
  have "remove_inode_from_list d y xfs = Some xfs2"
    using s1(1) s2(1)
    unfolding remove_inode_from_list_def set_fwd_def set_back_def x(1) Option.bind.simps x(2,3) by simp
  with s2 relinked_trans [OF s1(4) s2(4)] same_rest_trans [OF s1(5) s2(5)] show ?thesis
    by (auto simp: dirlist_cut)
qed

subsection \<open>Sorted insertion\<close>

definition inum_ok :: "xfs_fs \<Rightarrow> bool" where
  "inum_ok xfs \<longleftrightarrow> (\<forall>i x. tbl xfs i = Some x \<longrightarrow> inum x = i)"

lemma find_predecessor_ok:
  assumes "inum_ok xfs" and "\<forall>a \<in> set as. a < n"
  shows "dllseg (tbl xfs) None (as @ bs) m \<Longrightarrow> \<forall>b \<in> set bs. n < b \<Longrightarrow>
     find_predecessor xfs n (last_of None (as @ bs)) = Some (last_of None as)"
proof (induction bs arbitrary: m rule: rev_induct)
  case Nil
  show ?case
  proof (cases as rule: rev_cases)
    case Nil
    then show ?thesis by (subst find_predecessor.simps) simp
  next
    case (snoc as' p)
    then obtain x where "tbl xfs p = Some x" using dllseg_node [OF Nil.prems(1), of p] by auto
    moreover have "inum x = p" using assms(1) calculation by (simp add: inum_ok_def)
    ultimately show ?thesis using snoc assms(2) by (subst find_predecessor.simps) auto
  qed
next
  case (snoc b bs)
  have seg: "dllseg (tbl xfs) None (as @ bs) (Some b)" and
    b: "\<exists>x. tbl xfs b = Some x \<and> prev_i x = last_of None (as @ bs)"
    using snoc.prems(1) by (auto simp: dllseg_append last_of_append first_of_append)
  then obtain x where x: "tbl xfs b = Some x" "prev_i x = last_of None (as @ bs)" by blast
  have "inum x = b" using assms(1) x(1) by (simp add: inum_ok_def)
  have "last_of None (as @ bs @ [b]) = Some b"
    by (simp add: last_of_def)
  then have "find_predecessor xfs n (last_of None (as @ bs @ [b])) = find_predecessor xfs n (last_of None (as @ bs))"
    using x \<open>inum x = b\<close> snoc.prems(2) by (subst find_predecessor.simps) simp
  with snoc.IH [OF seg] snoc.prems(2) show ?case by simp
qed

lemma relinked_mono:
  assumes "relinked d S h h'" "S \<subseteq> T" "\<forall>i \<in> T. \<exists>x. h i = Some x" "d \<notin> T"
  shows "relinked d T h h'"
proof -
  have "\<exists>x a b. h i = Some x \<and> h' i = Some (x\<lparr>next_i := a, prev_i := b\<rparr>)" if "i \<in> T" for i
  proof (cases "i \<in> S")
    case True
    with assms(1) show ?thesis by (simp add: relinked_def)
  next
    case False
    obtain x where x: "h i = Some x" using assms(3) \<open>i \<in> T\<close> by blast
    have "i \<noteq> d" using assms(4) \<open>i \<in> T\<close> by auto
    with False assms(1) have "h' i = h i" by (simp add: relinked_def)
    with x have "h' i = Some (x\<lparr>next_i := next_i x, prev_i := prev_i x\<rparr>)" by simp
    with x show ?thesis by blast
  qed
  with assms(1,2) show ?thesis unfolding relinked_def by blast
qed

lemma add_inode_to_list_ok:
  assumes "inum_ok xfs" "dirlist (tbl xfs) d (as @ bs)" "distinct (as @ y # bs)" "d \<notin> set (as @ y # bs)"
    and "\<forall>a \<in> set as. a < y" "\<forall>b \<in> set bs. y < b" "tbl xfs y = Some x"
  shows "\<exists>xfs'. add_inode_to_list d y xfs = Some xfs' \<and> dirlist (tbl xfs') d (as @ y # bs) \<and>
     relinked d (set (as @ y # bs)) (tbl xfs) (tbl xfs') \<and> same_rest xfs xfs'"
proof -
  have y: "y \<noteq> d" "y \<notin> set as" "y \<notin> set bs" and dist: "distinct (as @ bs)" "d \<notin> set (as @ bs)"
    using assms(3,4) by auto
  have inum: "inum x = y" using assms(1,7) by (simp add: inum_ok_def)
  obtain dx where dx: "tbl xfs d = Some dx" "dir_end dx = last_of None (as @ bs)"
    "dir_begin dx = first_of (as @ bs) None" and seg: "dllseg (tbl xfs) None (as @ bs) None"
    using assms(2) by (auto simp: dirlist_def)
  have parts: "left_part (tbl xfs) d as (first_of bs None)" "right_part (tbl xfs) d (last_of None as) bs"
    using assms(2) by (auto simp: dirlist_cut)
  have pred: "find_predecessor xfs (inum x) (dir_end dx) = Some (last_of None as)"
    using find_predecessor_ok [OF assms(1,5) seg assms(6)] dx(2) inum by simp
  let ?x = "x\<lparr>next_i := first_of bs None, prev_i := last_of None as\<rparr>"
  let ?f = "\<lambda>x :: inode_all. x\<lparr>next_i := first_of bs None, prev_i := last_of None as\<rparr>"
  have nodes: "\<forall>a \<in> set (as @ y # bs). \<exists>i. tbl xfs a = Some i"
    using dllseg_node [OF seg] assms(7) by auto
  obtain xfs0 where s0: "mod_ino y ?f xfs = Some xfs0" "tbl xfs0 = (tbl xfs)(y \<mapsto> ?x)" "same_rest xfs xfs0"
    using assms(7) by (rule mod_inoE)
  have rel0: "relinked d (set (as @ y # bs)) (tbl xfs) (tbl xfs0)"
    unfolding s0(2) using relinked_member [OF nodes dx(1) assms(4) _ assms(7)] by simp
  have parts0: "left_part (tbl xfs0) d as (first_of bs None)" "right_part (tbl xfs0) d (last_of None as) bs"
    using parts y s0(2) by (auto simp: left_part_def right_part_def)
  have nodes0: "\<forall>a \<in> set (as @ y # bs). \<exists>i. tbl xfs0 a = Some i" using nodes s0(2) by auto
  obtain xfs1 where s1: "set_back d (first_of bs None) (Some y) xfs0 = Some xfs1"
    "left_part (tbl xfs1) d as (first_of bs None)" "right_part (tbl xfs1) d (Some y) bs"
    "relinked d (set (as @ bs)) (tbl xfs0) (tbl xfs1)" "same_rest xfs0 xfs1"
    using set_back_ok [OF parts0 dist] by blast
  have y1: "tbl xfs1 y = Some ?x" using s1(4) s0(2) y by (simp add: relinked_def)
  have nodes1: "\<forall>a \<in> set (as @ y # bs). \<exists>i. tbl xfs1 a = Some i"
    using nodes0 s1(4) y1 by (auto simp: relinked_def)
  obtain xfs2 where s2: "set_fwd d (last_of None as) (Some y) xfs1 = Some xfs2"
    "left_part (tbl xfs2) d as (Some y)" "right_part (tbl xfs2) d (Some y) bs"
    "relinked d (set (as @ bs)) (tbl xfs1) (tbl xfs2)" "same_rest xfs1 xfs2"
    using set_fwd_ok [OF s1(2,3) dist] by blast
  have y2: "tbl xfs2 y = Some ?x" using s2(4) y1 y by (simp add: relinked_def)
  have run: "add_inode_to_list d y xfs = Some xfs2"
  proof (cases as rule: rev_cases)
    case Nil
    then have "dir_begin dx = first_of bs None" using dx(3) by simp
    then show ?thesis
      using Nil assms(7) dx(1) pred s0(1) s1(1) s2(1)
      by (simp add: add_inode_to_list_def set_back_def set_fwd_def)
  next
    case (snoc as' p)
    obtain px where px: "tbl xfs p = Some px" "next_i px = first_of bs None"
      using seg snoc by (auto simp: dllseg_append first_of_append)
    show ?thesis
      using snoc assms(7) dx(1) pred s0(1) s1(1) s2(1) px
      by (simp add: add_inode_to_list_def set_back_def set_fwd_def)
  qed
  have sub: "set (as @ bs) \<subseteq> set (as @ y # bs)" by auto
  have "relinked d (set (as @ y # bs)) (tbl xfs) (tbl xfs2)"
    using rel0 relinked_mono [OF s1(4) sub nodes0 assms(4)] relinked_mono [OF s2(4) sub nodes1 assms(4)]
    by (blast intro: relinked_trans)
  moreover have "dirlist (tbl xfs2) d (as @ y # bs)"
    using s2(2,3) y2 by (auto simp: dirlist_cut_node)
  ultimately show ?thesis
    using run same_rest_trans [OF s0(3) same_rest_trans [OF s1(5) s2(5)]] by blast
qed

end
