(* ===== verification/XFS_Invariant.thy ===== *)
theory XFS_Invariant
  imports XFS_Links
begin

text \<open>
  The flat view of a file system - the inode table without its list pointers, each inode knowing
  only its parent - and the invariant: the flat table is a forest with the shape the operations
  need, and the lists of each directory are exactly its children in ascending order.
\<close>

type_synonym ftable = "nat \<Rightarrow> inode_all option"

definition strip :: "inode_all \<Rightarrow> inode_all" where
  "strip x = x\<lparr>next_i := None, prev_i := None, dir_begin := None, dir_end := None\<rparr>"

lemma strip_simps [simp]:
  "inum (strip x) = inum x" "mode (strip x) = mode x" "name (strip x) = name x" "parent (strip x) = parent x"
  "open_count (strip x) = open_count x" "is_redirected (strip x) = is_redirected x" "device_id (strip x) = device_id x"
  "is_dir (strip x) = is_dir x" "is_reg (strip x) = is_reg x"
  "generation (strip x) = generation x" "uid (strip x) = uid x" "gid (strip x) = gid x"
  "strip (strip x) = strip x"
  by (simp_all add: strip_def is_dir_def is_reg_def)

lemma strip_relink [simp]:
  "strip (x\<lparr>next_i := a, prev_i := b\<rparr>) = strip x" "strip (x\<lparr>dir_begin := a, dir_end := b\<rparr>) = strip x"
  "strip (x\<lparr>next_i := a, prev_i := b, parent := p\<rparr>) = (strip x)\<lparr>parent := p\<rparr>"
  "strip (x\<lparr>parent := p\<rparr>) = (strip x)\<lparr>parent := p\<rparr>" "strip (x\<lparr>name := nm\<rparr>) = (strip x)\<lparr>name := nm\<rparr>"
  "strip (x\<lparr>open_count := c\<rparr>) = (strip x)\<lparr>open_count := c\<rparr>"
  by (simp_all add: strip_def)

definition flat :: "xfs_fs \<Rightarrow> ftable" where
  "flat xfs = (\<lambda>i. map_option strip (tbl xfs i))"

definition kid :: "ftable \<Rightarrow> nat \<Rightarrow> nat \<Rightarrow> bool" where
  "kid a d i \<longleftrightarrow> (\<exists>x. a i = Some x \<and> parent x = Some d)"

definition dir_at :: "ftable \<Rightarrow> nat \<Rightarrow> bool" where
  "dir_at a d \<longleftrightarrow> (\<exists>x. a d = Some x \<and> is_dir x)"

definition ch :: "xfs_fs \<Rightarrow> nat \<Rightarrow> nat list" where
  "ch xfs d = filter (child_of xfs d) [0..<inode_count xfs]"

definition lists_ok :: "xfs_fs \<Rightarrow> bool" where
  "lists_ok xfs \<longleftrightarrow> (\<forall>d dx. tbl xfs d = Some dx \<and> is_dir dx \<longrightarrow> dirlist (tbl xfs) d (ch xfs d))"

lemma flat_Some: "tbl xfs i = Some x \<Longrightarrow> flat xfs i = Some (strip x)"
  by (simp add: flat_def)

lemma flat_SomeE:
  assumes "flat xfs i = Some y"
  obtains x where "tbl xfs i = Some x" "y = strip x"
  using assms by (auto simp: flat_def)

lemma flat_None: "flat xfs i = None \<longleftrightarrow> tbl xfs i = None"
  by (simp add: flat_def)

lemma child_of_flat: "child_of xfs d i = kid (flat xfs) d i"
  by (auto simp: child_of_def kid_def flat_def split: option.splits)

lemma child_of_less: "child_of xfs d i \<Longrightarrow> i < inode_count xfs"
  by (auto simp: child_of_def dest: tbl_less split: option.splits)

lemma dir_at_flat: "tbl xfs d = Some x \<Longrightarrow> dir_at (flat xfs) d = is_dir x"
  by (simp add: dir_at_def flat_def)

lemma ch_set: "set (ch xfs d) = {i. kid (flat xfs) d i}"
  by (auto simp: ch_def child_of_flat dest: child_of_less [unfolded child_of_flat])

lemma ch_sorted: "sorted (ch xfs d)" "distinct (ch xfs d)"
  by (simp_all add: ch_def sorted_filter [where f = id, simplified] sorted_wrt_filter)

lemma ch_flat: "ch xfs d = filter (kid (flat xfs) d) [0..<inode_count xfs]"
  by (simp add: ch_def child_of_flat [abs_def])

subsection \<open>What relinking leaves alone\<close>

definition ends :: "inode_all option \<Rightarrow> (nat option \<times> nat option) option" where
  "ends x = map_option (\<lambda>i. (dir_begin i, dir_end i)) x"

lemma dirlist_cong:
  assumes "\<And>i. i \<in> set xs \<Longrightarrow> links (h i) = links (h' i)" "ends (h d) = ends (h' d)"
  shows "dirlist h d xs = dirlist h' d xs"
proof -
  have "dllseg h None xs None = dllseg h' None xs None" using assms(1) by (rule dllseg_cong)
  moreover have "(\<exists>dx. h d = Some dx \<and> dir_begin dx = first_of xs None \<and> dir_end dx = last_of None xs) =
      (\<exists>dx. h' d = Some dx \<and> dir_begin dx = first_of xs None \<and> dir_end dx = last_of None xs)"
    using assms(2) by (cases "h d"; cases "h' d") (auto simp: ends_def)
  ultimately show ?thesis by (simp add: dirlist_def)
qed

lemma relinked_links:
  assumes "relinked d S h h'" "i \<notin> S"
  shows "links (h' i) = links (h i)"
proof (cases "i = d")
  case True
  with assms(1) obtain dx a b where "h d = Some dx" "h' d = Some (dx\<lparr>dir_begin := a, dir_end := b\<rparr>)"
    unfolding relinked_def by blast
  with True show ?thesis by (simp add: links_def)
qed (use assms in \<open>simp add: relinked_def\<close>)

lemma relinked_ends:
  assumes "relinked d S h h'" "i \<noteq> d"
  shows "ends (h' i) = ends (h i)"
proof (cases "i \<in> S")
  case True
  with assms(1) obtain x a b where "h i = Some x" "h' i = Some (x\<lparr>next_i := a, prev_i := b\<rparr>)"
    unfolding relinked_def by blast
  then show ?thesis by (simp add: ends_def)
qed (use assms in \<open>simp add: relinked_def\<close>)

lemma relinked_flat:
  assumes "relinked d S h h'"
  shows "map_option strip (h' i) = map_option strip (h i)"
proof (cases "i \<in> S")
  case True
  with assms obtain x a b where "h i = Some x" "h' i = Some (x\<lparr>next_i := a, prev_i := b\<rparr>)"
    unfolding relinked_def by blast
  then show ?thesis by simp
next
  case False
  show ?thesis
  proof (cases "i = d")
    case True
    with assms obtain dx a b where "h d = Some dx" "h' d = Some (dx\<lparr>dir_begin := a, dir_end := b\<rparr>)"
      unfolding relinked_def by blast
    with True show ?thesis by simp
  qed (use assms False in \<open>simp add: relinked_def\<close>)
qed

lemma same_rest_ch:
  assumes "same_rest xfs xfs'" "\<And>i. kid (flat xfs') d i = kid (flat xfs) d i"
  shows "ch xfs' d = ch xfs d"
  using assms by (simp add: ch_flat same_rest_def cong: filter_cong)

subsection \<open>Taking an inode off its list and putting it on one\<close>

lemma unlink_ok:
  assumes "lists_ok xfs" "tbl xfs y = Some x" "parent x = Some d" "tbl xfs d = Some dx" "is_dir dx"
    and "y \<noteq> d" "parent dx \<noteq> Some d"
  shows "\<exists>xfs'. unlink_inode_from_parent y xfs = Some xfs' \<and> lists_ok xfs' \<and> same_rest xfs xfs' \<and>
     flat xfs' = (flat xfs)(y \<mapsto> (strip x)\<lparr>parent := None\<rparr>)"
proof -
  have "y \<in> set (ch xfs d)" using assms(2,3) by (simp add: ch_set kid_def flat_def)
  then obtain as bs where asbs: "ch xfs d = as @ y # bs" by (meson split_list)
  have notin: "d \<notin> set (as @ y # bs)"
    using assms(4,7) asbs by (auto simp: ch_set kid_def flat_def simp flip: asbs)
  have dist: "distinct (as @ y # bs)" using ch_sorted(2) [of xfs d] by (simp only: asbs)
  have dl: "dirlist (tbl xfs) d (as @ y # bs)" using assms(1,4,5) unfolding lists_ok_def asbs [symmetric] by blast
  obtain xfs1 where x1: "remove_inode_from_list d y xfs = Some xfs1" "dirlist (tbl xfs1) d (as @ bs)"
    "relinked d (set (as @ bs)) (tbl xfs) (tbl xfs1)" "same_rest xfs xfs1"
    using remove_inode_from_list_ok [OF dl dist notin] by blast
  have y: "y \<notin> set (as @ bs)" using dist by auto
  have t1: "tbl xfs1 y = Some x" using x1(3) y assms(2,6) by (simp add: relinked_def)
  obtain xfs2 where x2: "mod_ino y (\<lambda>x. x\<lparr>next_i := None, prev_i := None, parent := None\<rparr>) xfs1 = Some xfs2"
    "tbl xfs2 = (tbl xfs1)(y \<mapsto> x\<lparr>next_i := None, prev_i := None, parent := None\<rparr>)" "same_rest xfs1 xfs2"
    using t1 by (rule mod_inoE)
  have rest: "same_rest xfs xfs2" using x1(4) x2(3) by (rule same_rest_trans)
  have fl: "flat xfs2 = (flat xfs)(y \<mapsto> (strip x)\<lparr>parent := None\<rparr>)"
    using relinked_flat [OF x1(3)] by (simp add: flat_def x2(2) fun_eq_iff)
  have lists: "dirlist (tbl xfs2) c (ch xfs2 c)" if c: "tbl xfs2 c = Some cx" "is_dir cx" for c cx
  proof (cases "c = d")
    case True
    have "ch xfs2 d = filter (\<lambda>i. i \<noteq> y) (ch xfs d)"
      using rest unfolding ch_flat fl filter_filter same_rest_def
      by (intro filter_cong) (auto simp: kid_def)
    also have "\<dots> = as @ bs"
    proof -
      have "filter (\<lambda>i. i \<noteq> y) as = as" "filter (\<lambda>i. i \<noteq> y) bs = bs"
        using y by (auto intro!: filter_True)
      then show ?thesis unfolding asbs by simp
    qed
    finally have "ch xfs2 d = as @ bs" .
    moreover have "dirlist (tbl xfs1) d (as @ bs) = dirlist (tbl xfs2) d (as @ bs)"
      by (rule dirlist_cong) (use y assms(6) x2(2) in auto)
    ultimately show ?thesis using x1(2) True by simp
  next
    case False
    have same: "ch xfs2 c = ch xfs c"
      by (rule same_rest_ch [OF rest]) (use False assms(3) flat_Some [OF assms(2)] in \<open>auto simp: fl kid_def\<close>)
    have "dir_at (flat xfs2) c" using c dir_at_flat by blast
    then have "dir_at (flat xfs) c" using flat_Some [OF assms(2)] by (auto simp: fl dir_at_def is_dir_def split: if_splits)
    then have old: "dirlist (tbl xfs) c (ch xfs c)"
      using assms(1) by (auto simp: dir_at_def lists_ok_def elim!: flat_SomeE)
    have "dirlist (tbl xfs) c (ch xfs c) = dirlist (tbl xfs2) c (ch xfs c)"
    proof (rule dirlist_cong)
      fix i assume "i \<in> set (ch xfs c)"
      then have "kid (flat xfs) c i" by (simp add: ch_set)
      with False have "i \<notin> set (ch xfs d)" by (auto simp: ch_set kid_def)
      then have "i \<notin> set (as @ bs)" "i \<noteq> y" using asbs by auto
      then show "links (tbl xfs i) = links (tbl xfs2 i)"
        using relinked_links [OF x1(3), of i] x2(2) by simp
    next
      show "ends (tbl xfs c) = ends (tbl xfs2 c)"
        using relinked_ends [OF x1(3) False] x2(2) t1 assms(2) by (auto simp: ends_def)
    qed
    with old same show ?thesis by simp
  qed
  have "unlink_inode_from_parent y xfs = Some xfs2"
    by (simp add: unlink_inode_from_parent_def assms(2,3) x1(1) x2(1))
  with fl rest lists show ?thesis unfolding lists_ok_def by blast
qed

lemma upt_split_at: "(y :: nat) < n \<Longrightarrow> [0..<n] = [0..<y] @ y # [Suc y..<n]"
  using upt_add_eq_append [of 0 y "n - y"] upt_conv_Cons [of y n] by simp

lemma link_ok:
  assumes "lists_ok xfs" "inum_ok xfs" "tbl xfs y = Some x" "parent x = None" "tbl xfs d = Some dx" "is_dir dx"
    and "y \<noteq> d" "parent dx \<noteq> Some d"
  shows "\<exists>xfs'. link_inode_into_directory_node d y xfs = Some xfs' \<and> lists_ok xfs' \<and> same_rest xfs xfs' \<and>
     flat xfs' = (flat xfs)(y \<mapsto> (strip x)\<lparr>parent := Some d\<rparr>)"
proof -
  obtain xfs0 where x0: "mod_ino y (\<lambda>x. x\<lparr>parent := Some d\<rparr>) xfs = Some xfs0"
    "tbl xfs0 = (tbl xfs)(y \<mapsto> x\<lparr>parent := Some d\<rparr>)" "same_rest xfs xfs0"
    using assms(3) by (rule mod_inoE)
  have inum0: "inum_ok xfs0" using assms(2,3) by (auto simp: inum_ok_def x0(2))
  have less: "y < inode_count xfs" using assms(3) by (rule tbl_less)
  let ?P = "kid (flat xfs) d"
  have notP: "\<not> ?P y" using assms(3,4) by (simp add: kid_def flat_def)
  define as where "as = filter ?P [0..<y]"
  define bs where "bs = filter ?P [Suc y..<inode_count xfs]"
  have chd: "ch xfs d = as @ bs"
    using notP by (simp add: ch_flat upt_split_at [OF less] as_def bs_def)
  have "\<not> ?P d" using assms(5,8) by (simp add: kid_def flat_def)
  then have notin: "d \<notin> set (as @ y # bs)" using assms(7) by (auto simp: as_def bs_def)
  have dist: "distinct (as @ y # bs)" by (auto simp: as_def bs_def)
  have y: "y \<notin> set (as @ bs)" using dist by auto
  have dl: "dirlist (tbl xfs0) d (as @ bs)"
  proof -
    have "dirlist (tbl xfs) d (as @ bs)" using assms(1,5,6) unfolding lists_ok_def chd [symmetric] by blast
    moreover have "dirlist (tbl xfs) d (as @ bs) = dirlist (tbl xfs0) d (as @ bs)"
      by (rule dirlist_cong) (use y assms(7) x0(2) in auto)
    ultimately show ?thesis by simp
  qed
  have ord: "\<forall>a \<in> set as. a < y" "\<forall>b \<in> set bs. y < b" by (auto simp: as_def bs_def)
  have t0: "tbl xfs0 y = Some (x\<lparr>parent := Some d\<rparr>)" using x0(2) by simp
  obtain xfs1 where x1: "add_inode_to_list d y xfs0 = Some xfs1" "dirlist (tbl xfs1) d (as @ y # bs)"
    "relinked d (set (as @ y # bs)) (tbl xfs0) (tbl xfs1)" "same_rest xfs0 xfs1"
    using add_inode_to_list_ok [OF inum0 dl dist notin ord t0] by blast
  have rest: "same_rest xfs xfs1" using x0(3) x1(4) by (rule same_rest_trans)
  have fl: "flat xfs1 = (flat xfs)(y \<mapsto> (strip x)\<lparr>parent := Some d\<rparr>)"
    using relinked_flat [OF x1(3)] by (simp add: flat_def x0(2) fun_eq_iff)
  have lists: "dirlist (tbl xfs1) c (ch xfs1 c)" if c: "tbl xfs1 c = Some cx" "is_dir cx" for c cx
  proof (cases "c = d")
    case True
    have count: "inode_count xfs1 = inode_count xfs" using rest by (simp add: same_rest_def)
    have "ch xfs1 d = filter (kid (flat xfs1) d) [0..<y] @ y # filter (kid (flat xfs1) d) [Suc y..<inode_count xfs]"
      unfolding ch_flat count upt_split_at [OF less] by (simp add: fl kid_def)
    also have "filter (kid (flat xfs1) d) [0..<y] = as"
      unfolding as_def by (rule filter_cong) (auto simp: fl kid_def)
    also have "filter (kid (flat xfs1) d) [Suc y..<inode_count xfs] = bs"
      unfolding bs_def by (rule filter_cong) (auto simp: fl kid_def)
    finally show ?thesis using x1(2) True by simp
  next
    case False
    have same: "ch xfs1 c = ch xfs c"
      by (rule same_rest_ch [OF rest]) (use False assms(4) flat_Some [OF assms(3)] in \<open>auto simp: fl kid_def\<close>)
    have "dir_at (flat xfs1) c" using c dir_at_flat by blast
    then have "dir_at (flat xfs) c" using flat_Some [OF assms(3)] by (auto simp: fl dir_at_def is_dir_def split: if_splits)
    then have old: "dirlist (tbl xfs) c (ch xfs c)"
      using assms(1) by (auto simp: dir_at_def lists_ok_def elim!: flat_SomeE)
    have "dirlist (tbl xfs) c (ch xfs c) = dirlist (tbl xfs1) c (ch xfs c)"
    proof (rule dirlist_cong)
      fix i assume "i \<in> set (ch xfs c)"
      then have k: "kid (flat xfs) c i" by (simp add: ch_set)
      then have "i \<noteq> y" using assms(3,4) by (auto simp: kid_def flat_def)
      moreover have "i \<notin> set (ch xfs d)" using k False by (auto simp: ch_set kid_def)
      ultimately have "i \<notin> set (as @ y # bs)" using chd by auto
      then show "links (tbl xfs i) = links (tbl xfs1 i)"
        using relinked_links [OF x1(3), of i] x0(2) \<open>i \<noteq> y\<close> by simp
    next
      show "ends (tbl xfs c) = ends (tbl xfs1 c)"
        using relinked_ends [OF x1(3) False] x0(2) assms(3) by (auto simp: ends_def)
    qed
    with old same show ?thesis by simp
  qed
  have "link_inode_into_directory_node d y xfs = Some xfs1"
    by (simp add: link_inode_into_directory_node_def x0(1) x1(1))
  with fl rest lists show ?thesis unfolding lists_ok_def by blast
qed

subsection \<open>The invariant\<close>

text \<open>The flat table is a forest of two trees, the root's and the delete-pending directory's.\<close>

definition ranked :: "ftable \<Rightarrow> bool" where
  "ranked a \<longleftrightarrow> (\<exists>rank :: nat \<Rightarrow> nat. \<forall>i d. kid a d i \<longrightarrow> rank d < rank i)"

definition names_ok :: "ftable \<Rightarrow> bool" where
  "names_ok a \<longleftrightarrow> (\<forall>i x. a i = Some x \<longrightarrow> length (name x) \<le> XFS_MAXFILENAMELEN) \<and>
     (\<forall>i j x y d. a i = Some x \<and> a j = Some y \<and> parent x = Some d \<and> parent y = Some d \<and>
        d \<noteq> DELETE_PENDING_ID \<and> name x = name y \<longrightarrow> i = j)"

definition tree_ok :: "ftable \<Rightarrow> bool" where
  "tree_ok a \<longleftrightarrow>
     a 0 = None \<and>
     (\<exists>x. a FUSE_ROOT_ID = Some x \<and> is_dir x \<and> parent x = None) \<and>
     (\<exists>x. a DELETE_PENDING_ID = Some x \<and> is_dir x \<and> parent x = None) \<and>
     (\<forall>i x. a i = Some x \<longrightarrow> is_reg x = (\<not> is_dir x)) \<and>
     (\<forall>i x. a i = Some x \<and> i \<noteq> FUSE_ROOT_ID \<and> i \<noteq> DELETE_PENDING_ID \<longrightarrow>
        (\<exists>d. parent x = Some d \<and> dir_at a d)) \<and>
     names_ok a \<and> ranked a"

text \<open>The files of the delete-pending directory are open.\<close>

definition pend_ok :: "ftable \<Rightarrow> bool" where
  "pend_ok a \<longleftrightarrow> (\<forall>i x. a i = Some x \<and> parent x = Some DELETE_PENDING_ID \<longrightarrow> is_reg x \<and> open_count x > 0)"

definition free_ok :: "xfs_fs \<Rightarrow> bool" where
  "free_ok xfs \<longleftrightarrow> distinct (free_list xfs) \<and>
     set (free_list xfs) = {i. 3 \<le> i \<and> i < inode_count xfs \<and> tbl xfs i = None}"

definition xfs_base :: "xfs_fs \<Rightarrow> bool" where
  "xfs_base xfs \<longleftrightarrow> inum_ok xfs \<and> free_ok xfs \<and> lists_ok xfs \<and> tree_ok (flat xfs)"

definition xfs_inv :: "xfs_fs \<Rightarrow> bool" where
  "xfs_inv xfs \<longleftrightarrow> xfs_base xfs \<and> pend_ok (flat xfs)"

lemma tree_okI:
  assumes "a 0 = None" "\<exists>x. a FUSE_ROOT_ID = Some x \<and> is_dir x \<and> parent x = None"
    "\<exists>x. a DELETE_PENDING_ID = Some x \<and> is_dir x \<and> parent x = None"
    "\<And>i x. a i = Some x \<Longrightarrow> i \<noteq> FUSE_ROOT_ID \<Longrightarrow> i \<noteq> DELETE_PENDING_ID \<Longrightarrow> \<exists>d. parent x = Some d \<and> dir_at a d"
    "\<And>i x. a i = Some x \<Longrightarrow> is_reg x \<longleftrightarrow> \<not> is_dir x" "names_ok a" "ranked a"
  shows "tree_ok a"
proof -
  have 1: "\<forall>i x. a i = Some x \<longrightarrow> is_reg x = (\<not> is_dir x)" using assms(5) by blast
  have 2: "\<forall>i x. a i = Some x \<and> i \<noteq> FUSE_ROOT_ID \<and> i \<noteq> DELETE_PENDING_ID \<longrightarrow>
      (\<exists>d. parent x = Some d \<and> dir_at a d)" using assms(4) by blast
  show ?thesis unfolding tree_ok_def by (intro conjI 1 2 assms(1,2,3,6,7))
qed

lemma tree_okD:
  assumes "tree_ok a"
  shows "a 0 = None" "dir_at a FUSE_ROOT_ID" "dir_at a DELETE_PENDING_ID" "\<not> kid a d FUSE_ROOT_ID" "\<not> kid a d DELETE_PENDING_ID"
    "a i = Some x \<Longrightarrow> is_reg x \<longleftrightarrow> \<not> is_dir x"
    "a i = Some x \<Longrightarrow> i \<noteq> FUSE_ROOT_ID \<Longrightarrow> i \<noteq> DELETE_PENDING_ID \<Longrightarrow> \<exists>d. parent x = Some d \<and> dir_at a d"
    "names_ok a" "ranked a"
proof -
  note t = assms [unfolded tree_ok_def]
  show "a 0 = None" "dir_at a FUSE_ROOT_ID" "dir_at a DELETE_PENDING_ID" using t unfolding dir_at_def by blast+
  show "\<not> kid a d FUSE_ROOT_ID" "\<not> kid a d DELETE_PENDING_ID"
    using t unfolding kid_def by (metis option.distinct(1) option.inject)+
  show "a i = Some x \<Longrightarrow> is_reg x \<longleftrightarrow> \<not> is_dir x"
    "a i = Some x \<Longrightarrow> i \<noteq> FUSE_ROOT_ID \<Longrightarrow> i \<noteq> DELETE_PENDING_ID \<Longrightarrow> \<exists>d. parent x = Some d \<and> dir_at a d"
    "names_ok a" "ranked a"
    using t by blast+
qed

lemma ranked_irrefl: "ranked a \<Longrightarrow> \<not> kid a i i" "ranked a \<Longrightarrow> kid a d i \<Longrightarrow> \<not> kid a i d"
  unfolding ranked_def by (metis less_irrefl less_asym)+

lemma kid_dir: "tree_ok a \<Longrightarrow> kid a d i \<Longrightarrow> dir_at a d"
  using tree_okD(4,5,7) by (metis kid_def option.inject)

subsection \<open>Subtrees, and what removing them leaves\<close>

definition edges :: "ftable \<Rightarrow> (nat \<times> nat) set" where
  "edges a = {(i, d). kid a d i}"

definition below :: "ftable \<Rightarrow> nat \<Rightarrow> nat set" where
  "below a n = {i. (i, n) \<in> (edges a)\<^sup>+}"

definition prune :: "ftable \<Rightarrow> nat set \<Rightarrow> ftable" where
  "prune a S = (\<lambda>i. if i \<in> S
     then (case a i of None \<Rightarrow> None
           | Some x \<Rightarrow> if is_reg x \<and> open_count x > 0 then Some (x\<lparr>parent := Some DELETE_PENDING_ID\<rparr>) else None)
     else a i)"

lemma is_dir_parent [simp]: "is_dir (x\<lparr>parent := p\<rparr>) = is_dir x" "is_reg (x\<lparr>parent := p\<rparr>) = is_reg x"
  by (simp_all add: is_dir_def is_reg_def)

lemma prune_prune: "prune (prune a S) T = prune a (S \<union> T)"
  by (auto simp: prune_def fun_eq_iff split: option.splits)

lemma prune_empty [simp]: "prune a {} = a"
  by (simp add: prune_def)

lemma prune_other: "i \<notin> S \<Longrightarrow> prune a S i = a i"
  by (simp add: prune_def)

lemma prune_SomeE:
  assumes "prune a S i = Some x"
  obtains "i \<notin> S" "a i = Some x"
  | y where "i \<in> S" "a i = Some y" "is_reg y" "open_count y > 0" "x = y\<lparr>parent := Some DELETE_PENDING_ID\<rparr>"
  using assms by (auto simp: prune_def split: if_splits option.splits)

lemma kid_prune: "kid (prune a S) d i \<Longrightarrow> kid a d i \<and> i \<notin> S \<or> d = DELETE_PENDING_ID \<and> i \<in> S"
  by (auto simp: kid_def prune_def split: if_splits option.splits)

definition closed_below :: "ftable \<Rightarrow> nat set \<Rightarrow> bool" where
  "closed_below a S \<longleftrightarrow> (\<forall>i d. kid a d i \<and> d \<in> S \<longrightarrow> i \<in> S)"

lemma closed_insert_below: "closed_below a (insert n (below a n))" "closed_below a (below a n)"
  by (auto simp: closed_below_def below_def edges_def intro: trancl_into_trancl2)

lemma prune_dir_at: "d \<notin> S \<Longrightarrow> dir_at (prune a S) d = dir_at a d"
  by (simp add: dir_at_def prune_def)

lemma ranked_prune:
  assumes "ranked a" "\<And>d. \<not> kid a d DELETE_PENDING_ID" "DELETE_PENDING_ID \<notin> S"
  shows "ranked (prune a S)"
proof -
  obtain rank :: "nat \<Rightarrow> nat" where r: "\<And>i d. kid a d i \<Longrightarrow> rank d < rank i"
    using assms(1) by (auto simp: ranked_def)
  have "(if d = DELETE_PENDING_ID then 0 else Suc (rank d)) < (if i = DELETE_PENDING_ID then 0 else Suc (rank i))"
    if "kid (prune a S) d i" for i d
    using kid_prune [OF that] r [of d i] assms(2,3) by auto
  then show ?thesis unfolding ranked_def by (intro exI [of _ "\<lambda>i. if i = DELETE_PENDING_ID then 0 else Suc (rank i)"]) blast
qed

lemma names_prune: "names_ok a \<Longrightarrow> names_ok (prune a S)"
  unfolding names_ok_def prune_def by (auto split: if_splits option.splits)

lemma tree_ok_prune:
  assumes "tree_ok a" "closed_below a S" "FUSE_ROOT_ID \<notin> S" "DELETE_PENDING_ID \<notin> S"
  shows "tree_ok (prune a S)"
proof -
  have par: "\<exists>d. parent x = Some d \<and> dir_at (prune a S) d"
    if x: "prune a S i = Some x" "i \<noteq> FUSE_ROOT_ID" "i \<noteq> DELETE_PENDING_ID" for i x
  proof (cases "i \<in> S")
    case True
    then have "parent x = Some DELETE_PENDING_ID" using x(1) by (auto simp: prune_def split: option.splits if_splits)
    with prune_dir_at [OF assms(4)] tree_okD(3) [OF assms(1)] show ?thesis by blast
  next
    case False
    with x(1) have a: "a i = Some x" by (simp add: prune_def)
    then obtain d where d: "parent x = Some d" "dir_at a d" using tree_okD(7) [OF assms(1)] x(2,3) by blast
    then have "d \<notin> S" using assms(2) False a by (auto simp: closed_below_def kid_def)
    with d prune_dir_at show ?thesis by blast
  qed
  have modes: "is_reg x = (\<not> is_dir x)" if "prune a S i = Some x" for i x
    using that by (cases rule: prune_SomeE) (use tree_okD(6) [OF assms(1)] in simp_all)
  have rk: "ranked (prune a S)"
    using ranked_prune [OF tree_okD(9) [OF assms(1)] tree_okD(5) [OF assms(1)] assms(4)] .
  have zero: "prune a S 0 = None" using tree_okD(1) [OF assms(1)] by (simp add: prune_def)
  have roots: "\<exists>x. prune a S FUSE_ROOT_ID = Some x \<and> is_dir x \<and> parent x = None"
    "\<exists>x. prune a S DELETE_PENDING_ID = Some x \<and> is_dir x \<and> parent x = None"
    using assms(1) unfolding tree_ok_def prune_other [OF assms(3)] prune_other [OF assms(4)] by blast+
  show ?thesis
    using zero roots par modes names_prune [OF tree_okD(8) [OF assms(1)]] rk by (rule tree_okI)
qed

end
