(* ===== verification/XFS_Remove.thy ===== *)
theory XFS_Remove
  imports XFS_Invariant
begin

text \<open>
  Removing an entry: with the fuel of the model the mutually recursive routines always return,
  keep the invariant, and what they leave is the flat table without the removed subtree, whose
  open files are in the delete-pending directory.
\<close>

subsection \<open>One inode without children\<close>

definition detach :: "nat \<Rightarrow> xfs_fs \<Rightarrow> xfs_fs option" where
  "detach n xfs =
     do { xfs \<leftarrow> unlink_inode_from_parent n xfs;
          x \<leftarrow> tbl xfs n;
          if is_reg x \<and> open_count x > 0 then link_inode_into_directory_node DELETE_PENDING_ID n xfs
          else free_inode n xfs }"

lemma free_list_short:
  assumes "free_ok xfs" "tbl xfs n = Some x"
  shows "length (free_list xfs) < inode_count xfs"
proof -
  have n: "n < inode_count xfs" using assms(2) by (rule tbl_less)
  have "set (free_list xfs) \<subseteq> {..<inode_count xfs} - {n}"
  proof
    fix i assume "i \<in> set (free_list xfs)"
    then have "tbl xfs i = None" "i < inode_count xfs" using assms(1) unfolding free_ok_def by blast+
    then show "i \<in> {..<inode_count xfs} - {n}" using assms(2) by auto
  qed
  then have "card (set (free_list xfs)) \<le> card ({..<inode_count xfs} - {n})" by (intro card_mono) auto
  also have "\<dots> < inode_count xfs" using n by simp
  finally show ?thesis using assms(1) unfolding free_ok_def by (metis distinct_card)
qed

lemma free_inode_ok:
  assumes "inum_ok xfs" "free_ok xfs" "lists_ok xfs" "tbl xfs n = Some x" "parent x = None" "3 \<le> n"
  shows "\<exists>xfs'. free_inode n xfs = Some xfs' \<and> inum_ok xfs' \<and> free_ok xfs' \<and> lists_ok xfs' \<and>
     inode_count xfs' = inode_count xfs \<and> fs_generation xfs' = fs_generation xfs + 1 \<and> flat xfs' = (flat xfs)(n := None)"
proof -
  let ?x = "xfs\<lparr>free_list := free_list xfs @ [n], fs_generation := fs_generation xfs + 1\<rparr>"
  define xfs' where "xfs' = set_tbl n None ?x"
  have n: "n < inode_count xfs" using assms(4) by (rule tbl_less)
  have t: "tbl xfs' = (tbl xfs)(n := None)" "inode_count xfs' = inode_count xfs"
    "free_list xfs' = free_list xfs @ [n]" "fs_generation xfs' = fs_generation xfs + 1"
    using n by (auto simp: xfs'_def fun_eq_iff tbl_def set_tbl_def)
  have fl: "flat xfs' = (flat xfs)(n := None)" by (simp add: flat_def t fun_eq_iff)
  have "inum_ok xfs'" using assms(1) by (simp add: inum_ok_def t)
  moreover have "free_ok xfs'"
    using assms(2,4,6) n unfolding free_ok_def t by auto
  moreover have "lists_ok xfs'" unfolding lists_ok_def
  proof (intro allI impI, elim conjE)
    fix c cx assume c: "tbl xfs' c = Some cx" "is_dir cx"
    have k: "\<not> kid (flat xfs) c n" using flat_Some [OF assms(4)] assms(5) by (simp add: kid_def)
    then have same: "ch xfs' c = ch xfs c"
      unfolding ch_flat t fl by (intro filter_cong) (auto simp: kid_def)
    have "n \<notin> set (ch xfs c)" using k by (simp add: ch_set)
    moreover have "c \<noteq> n" using c t by auto
    ultimately have "dirlist (tbl xfs) c (ch xfs c) = dirlist (tbl xfs') c (ch xfs c)"
      by (intro dirlist_cong) (auto simp: t)
    with assms(3) c t \<open>c \<noteq> n\<close> same show "dirlist (tbl xfs') c (ch xfs' c)" by (simp add: lists_ok_def)
  qed
  moreover have "free_inode n xfs = Some xfs'"
    using free_list_short [OF assms(2,4)] by (simp add: free_inode_def xfs'_def)
  ultimately show ?thesis using t fl by blast
qed

lemma inv_parent:
  assumes "xfs_base xfs" "tbl xfs n = Some x" "n \<noteq> FUSE_ROOT_ID" "n \<noteq> DELETE_PENDING_ID"
  obtains d dx where "parent x = Some d" "tbl xfs d = Some dx" "is_dir dx" "n \<noteq> d" "parent dx \<noteq> Some d" "3 \<le> n"
proof -
  have tree: "tree_ok (flat xfs)" using assms(1) by (simp add: xfs_base_def)
  obtain d where d: "parent x = Some d" "dir_at (flat xfs) d"
    using tree_okD(7) [OF tree flat_Some [OF assms(2)] assms(3,4)] by auto
  then obtain dx where dx: "tbl xfs d = Some dx" "is_dir dx" by (auto simp: dir_at_def elim!: flat_SomeE)
  have k: "kid (flat xfs) d n" using flat_Some [OF assms(2)] d(1) by (simp add: kid_def)
  then have "n \<noteq> d" using ranked_irrefl(1) [OF tree_okD(9) [OF tree]] by auto
  moreover have "parent dx \<noteq> Some d"
    using ranked_irrefl(1) [OF tree_okD(9) [OF tree], of d] flat_Some [OF dx(1)] by (auto simp: kid_def)
  moreover have "tbl xfs 0 = None" using tree_okD(1) [OF tree] by (simp add: flat_None)
  then have "n \<noteq> 0" using assms(2) by (intro notI) simp
  then have "3 \<le> n" using assms(3,4) by linarith
  ultimately show ?thesis using that d dx by blast
qed

lemma inum_ok_flat: "inum_ok xfs \<longleftrightarrow> (\<forall>i x. flat xfs i = Some x \<longrightarrow> inum x = i)"
proof
  assume "inum_ok xfs"
  then show "\<forall>i x. flat xfs i = Some x \<longrightarrow> inum x = i" by (auto simp: inum_ok_def elim!: flat_SomeE)
next
  assume h: "\<forall>i x. flat xfs i = Some x \<longrightarrow> inum x = i"
  show "inum_ok xfs" unfolding inum_ok_def
  proof (intro allI impI)
    fix i x assume "tbl xfs i = Some x"
    with h flat_Some have "inum (strip x) = i" by blast
    then show "inum x = i" by simp
  qed
qed

lemma free_ok_flat:
  "free_ok xfs \<longleftrightarrow> distinct (free_list xfs) \<and>
     set (free_list xfs) = {i. 3 \<le> i \<and> i < inode_count xfs \<and> flat xfs i = None}"
  by (simp add: free_ok_def flat_None)

lemma free_ok_upd:
  assumes "free_ok xfs" "same_rest xfs xfs'" "flat xfs' = (flat xfs)(n \<mapsto> z)" "tbl xfs n = Some x"
  shows "free_ok xfs'"
proof -
  have "flat xfs' i = None \<longleftrightarrow> flat xfs i = None" for i
    using flat_Some [OF assms(4)] by (simp add: assms(3))
  then show ?thesis using assms(1,2) by (simp add: free_ok_flat same_rest_def)
qed

lemma inum_ok_upd:
  assumes "inum_ok xfs" "flat xfs' = (flat xfs)(n \<mapsto> z)" "inum z = n"
  shows "inum_ok xfs'"
  using assms(1,3) unfolding inum_ok_flat assms(2) by simp

lemma unlinked:
  assumes "xfs_base xfs" "tbl xfs n = Some x" "n \<noteq> FUSE_ROOT_ID" "n \<noteq> DELETE_PENDING_ID"
  shows "\<exists>xfs' x'. unlink_inode_from_parent n xfs = Some xfs' \<and> lists_ok xfs' \<and> inum_ok xfs' \<and> free_ok xfs' \<and>
     same_rest xfs xfs' \<and> flat xfs' = (flat xfs)(n \<mapsto> (strip x)\<lparr>parent := None\<rparr>) \<and>
     tbl xfs' n = Some x' \<and> strip x' = (strip x)\<lparr>parent := None\<rparr>"
proof -
  obtain d dx where d: "parent x = Some d" "tbl xfs d = Some dx" "is_dir dx" "n \<noteq> d" "parent dx \<noteq> Some d"
    using assms by (rule inv_parent)
  have "lists_ok xfs" using assms(1) by (simp add: xfs_base_def)
  from unlink_ok [OF this assms(2) d] obtain xfs1 where
    x1: "unlink_inode_from_parent n xfs = Some xfs1" "lists_ok xfs1" "same_rest xfs xfs1"
    "flat xfs1 = (flat xfs)(n \<mapsto> (strip x)\<lparr>parent := None\<rparr>)" by blast
  have "flat xfs1 n = Some ((strip x)\<lparr>parent := None\<rparr>)" using x1(4) by simp
  then obtain x' where "tbl xfs1 n = Some x'" "strip x' = (strip x)\<lparr>parent := None\<rparr>" by (metis flat_SomeE)
  moreover have "inum_ok xfs1"
    using assms(1,2) by (intro inum_ok_upd [OF _ x1(4)]) (auto simp: xfs_base_def inum_ok_def)
  moreover have "free_ok xfs1"
    using assms(1) by (intro free_ok_upd [OF _ x1(3,4) assms(2)]) (simp add: xfs_base_def)
  ultimately show ?thesis using x1 by blast
qed

lemma strip_parent:
  assumes "strip x' = (strip x)\<lparr>parent := p\<rparr>"
  shows "parent x' = p" "is_dir x' = is_dir x" "is_reg x' = is_reg x" "open_count x' = open_count x" "name x' = name x"
proof -
  show "parent x' = p" using arg_cong [OF assms, of parent] by simp
  show "is_dir x' = is_dir x" using arg_cong [OF assms, of is_dir] by simp
  show "is_reg x' = is_reg x" using arg_cong [OF assms, of is_reg] by simp
  show "open_count x' = open_count x" using arg_cong [OF assms, of open_count] by simp
  show "name x' = name x" using arg_cong [OF assms, of name] by simp
qed

lemma detach_ok:
  assumes "xfs_base xfs" "tbl xfs n = Some x" "n \<noteq> FUSE_ROOT_ID" "n \<noteq> DELETE_PENDING_ID"
    and "\<And>i. \<not> kid (flat xfs) n i"
  shows "\<exists>xfs'. detach n xfs = Some xfs' \<and> xfs_base xfs' \<and> flat xfs' = prune (flat xfs) {n} \<and>
     inode_count xfs' = inode_count xfs"
proof -
  have tree: "tree_ok (flat xfs)" using assms(1) by (simp add: xfs_base_def)
  have n: "3 \<le> n" using assms(1-4) by (rule inv_parent)
  have tree': "tree_ok (prune (flat xfs) {n})"
    using tree by (rule tree_ok_prune) (use assms(3-5) in \<open>auto simp: closed_below_def\<close>)
  from unlinked [OF assms(1-4)] obtain xfs1 x' where x1: "unlink_inode_from_parent n xfs = Some xfs1"
    "lists_ok xfs1" "inum_ok xfs1" "free_ok xfs1" "same_rest xfs xfs1"
    "flat xfs1 = (flat xfs)(n \<mapsto> (strip x)\<lparr>parent := None\<rparr>)"
    and x': "tbl xfs1 n = Some x'" "strip x' = (strip x)\<lparr>parent := None\<rparr>" by blast
  have count: "inode_count xfs1 = inode_count xfs" using x1(5) by (simp add: same_rest_def)
  note px = strip_parent [OF x'(2)]
  show ?thesis
  proof (cases "is_reg x \<and> open_count x > 0")
    case False
    from free_inode_ok [OF x1(3,4,2) x'(1) px(1) n] obtain xfs2 where
      x2: "free_inode n xfs1 = Some xfs2" "inum_ok xfs2" "free_ok xfs2" "lists_ok xfs2"
        "inode_count xfs2 = inode_count xfs1" "flat xfs2 = (flat xfs1)(n := None)" by blast
    have "detach n xfs = Some xfs2" using False px(3,4) by (auto simp: detach_def x1(1) x'(1) x2(1))
    moreover have "flat xfs2 = prune (flat xfs) {n}"
      using flat_Some [OF assms(2)] False by (auto simp: x2(6) x1(6) prune_def fun_eq_iff)
    ultimately show ?thesis using x2 tree' count by (auto simp: xfs_base_def)
  next
    case True
    obtain px where p: "tbl xfs DELETE_PENDING_ID = Some px" "is_dir px" "parent px = None"
      using tree by (auto simp: tree_ok_def elim!: flat_SomeE)
    have "flat xfs1 DELETE_PENDING_ID = Some (strip px)" using flat_Some [OF p(1)] assms(4) by (simp add: x1(6))
    then obtain py where py: "tbl xfs1 DELETE_PENDING_ID = Some py" "strip py = strip px" by (metis flat_SomeE)
    have "is_dir py" "parent py = None" using arg_cong [OF py(2), of is_dir] arg_cong [OF py(2), of parent] p by simp_all
    then have "parent py \<noteq> Some DELETE_PENDING_ID" by simp
    from link_ok [OF x1(2,3) x'(1) px(1) py(1) \<open>is_dir py\<close> assms(4) this] obtain xfs2 where
      x2: "link_inode_into_directory_node DELETE_PENDING_ID n xfs1 = Some xfs2" "lists_ok xfs2" "same_rest xfs1 xfs2"
        "flat xfs2 = (flat xfs1)(n \<mapsto> (strip x')\<lparr>parent := Some DELETE_PENDING_ID\<rparr>)" by blast
    have "detach n xfs = Some xfs2" using True \<open>is_reg x' = is_reg x\<close> \<open>open_count x' = open_count x\<close>
      by (simp add: detach_def x1(1) x'(1) x2(1))
    moreover have fl: "flat xfs2 = prune (flat xfs) {n}"
      using flat_Some [OF assms(2)] True x'(2) by (auto simp: x2(4) x1(6) prune_def fun_eq_iff)
    moreover have "inum_ok xfs2"
      using x1(3) x'(1) by (intro inum_ok_upd [OF x1(3) x2(4)]) (simp add: inum_ok_def)
    moreover have "free_ok xfs2" using x1(4) x2(3,4) x'(1) by (rule free_ok_upd)
    ultimately show ?thesis using x2 tree' count by (auto simp: xfs_base_def same_rest_def)
  qed
qed

subsection \<open>Subtrees after a removal\<close>

lemma edges_prune:
  "(i, d) \<in> edges (prune a S) \<Longrightarrow> (i, d) \<in> edges a \<and> i \<notin> S \<or> d = DELETE_PENDING_ID \<and> i \<in> S"
  by (simp add: edges_def kid_prune)

lemma edges_prune_other: "i \<notin> S \<Longrightarrow> (i, d) \<in> edges (prune a S) \<longleftrightarrow> (i, d) \<in> edges a"
  by (simp add: edges_def kid_def prune_def)

lemma pending_no_edge: "tree_ok a \<Longrightarrow> (DELETE_PENDING_ID, d) \<notin> edges a"
  using tree_okD(5) by (simp add: edges_def)

lemma pending_not_below: "tree_ok a \<Longrightarrow> DELETE_PENDING_ID \<notin> below a n"
  using pending_no_edge unfolding below_def by (blast dest: tranclD)

lemma root_not_below: "tree_ok a \<Longrightarrow> FUSE_ROOT_ID \<notin> below a n"
  using tree_okD(4) unfolding below_def edges_def by (blast dest: tranclD)

lemma below_prune_sub:
  assumes "tree_ok a" "tree_ok (prune a S)" "n \<noteq> DELETE_PENDING_ID" "i \<in> below (prune a S) n"
  shows "i \<in> below a n \<and> i \<notin> S"
proof -
  have "(i, n) \<in> (edges (prune a S))\<^sup>+" using assms(4) by (simp add: below_def)
  then have "(i, n) \<in> (edges a)\<^sup>+ \<and> i \<notin> S"
  proof (induction rule: converse_trancl_induct)
    case (base y)
    with edges_prune [OF base] assms(3) show ?case by auto
  next
    case (step y z)
    have "z \<noteq> DELETE_PENDING_ID"
    proof
      assume "z = DELETE_PENDING_ID"
      with step.hyps(2) have "DELETE_PENDING_ID \<in> below (prune a S) n" by (simp add: below_def)
      with pending_not_below [OF assms(2)] show False by blast
    qed
    with edges_prune [OF step.hyps(1)] have "(y, z) \<in> edges a" "y \<notin> S" by auto
    with step.IH show ?case by (auto intro: trancl_into_trancl2)
  qed
  then show ?thesis by (simp add: below_def)
qed

lemma below_prune_sup:
  assumes "closed_below a S" "i \<in> below a n"
  shows "i \<in> S \<or> i \<in> below (prune a S) n"
proof -
  have "(i, n) \<in> (edges a)\<^sup>+" using assms(2) by (simp add: below_def)
  then have "i \<in> S \<or> (i, n) \<in> (edges (prune a S))\<^sup>+"
  proof (induction rule: converse_trancl_induct)
    case (base y)
    then show ?case using edges_prune_other by (cases "y \<in> S") auto
  next
    case (step y z)
    show ?case
    proof (cases "y \<in> S")
      case False
      then have "z \<notin> S" using assms(1) step.hyps(1) by (auto simp: closed_below_def edges_def)
      with step False show ?thesis using edges_prune_other [OF False] by (auto intro: trancl_into_trancl2)
    qed simp
  qed
  then show ?thesis by (simp add: below_def)
qed

lemma below_kid: "kid a n e \<Longrightarrow> insert e (below a e) \<subseteq> below a n"
  by (auto simp: below_def edges_def intro: trancl_into_trancl)

lemma below_rank: "ranked a \<Longrightarrow> i \<in> below a n \<Longrightarrow> n \<notin> insert i (below a i)"
proof -
  assume "ranked a" "i \<in> below a n"
  obtain rank :: "nat \<Rightarrow> nat" where r: "\<And>i d. (i, d) \<in> edges a \<Longrightarrow> rank d < rank i"
    using \<open>ranked a\<close> by (auto simp: ranked_def edges_def)
  have up: "rank d < rank i" if "(i, d) \<in> (edges a)\<^sup>+" for i d
    using that by (induction rule: trancl_induct) (auto dest!: r)
  from up [of i n] up [of n i] \<open>i \<in> below a n\<close> show ?thesis by (auto simp: below_def)
qed

lemma below_tbl: "below (flat xfs) n \<subseteq> {..<inode_count xfs}"
proof
  fix i assume "i \<in> below (flat xfs) n"
  then obtain d where "kid (flat xfs) d i" by (auto simp: below_def edges_def dest: tranclD)
  then show "i \<in> {..<inode_count xfs}" using child_of_less [unfolded child_of_flat] by auto
qed

lemma finite_below [simp]: "finite (below (flat xfs) n)"
  using below_tbl finite_lessThan by (rule finite_subset)

lemma below_empty: "(\<And>i. \<not> kid a n i) \<Longrightarrow> below a n = {}"
  unfolding below_def edges_def by (auto elim: tranclE)

lemma below_split:
  assumes "tree_ok a" "kid a n e" "n \<noteq> DELETE_PENDING_ID"
  defines "S \<equiv> insert e (below a e)"
  assumes "tree_ok (prune a S)"
  shows "S \<union> below (prune a S) n = below a n" "S \<inter> below (prune a S) n = {}"
proof -
  have "S \<subseteq> below a n" using below_kid [OF assms(2)] by (simp add: S_def)
  moreover have "closed_below a S" unfolding S_def by (rule closed_insert_below)
  ultimately show "S \<union> below (prune a S) n = below a n"
    using below_prune_sub [OF assms(1,5,3)] below_prune_sup [of a S _ n] by blast
  show "S \<inter> below (prune a S) n = {}" using below_prune_sub [OF assms(1,5,3)] by blast
qed

subsection \<open>The two routines\<close>

definition removed :: "nat set \<Rightarrow> xfs_fs \<Rightarrow> xfs_fs \<Rightarrow> bool" where
  "removed S xfs xfs' \<longleftrightarrow> xfs_base xfs' \<and> flat xfs' = prune (flat xfs) S \<and> inode_count xfs' = inode_count xfs"

lemma dir_end_kids:
  assumes "xfs_base xfs" "tbl xfs n = Some x" "is_dir x"
  shows "case dir_end x of None \<Rightarrow> (\<forall>i. \<not> kid (flat xfs) n i) | Some e \<Rightarrow> kid (flat xfs) n e"
proof -
  have "dirlist (tbl xfs) n (ch xfs n)" using assms by (simp add: xfs_base_def lists_ok_def)
  then have "dir_end x = last_of None (ch xfs n)" using assms(2) by (auto simp: dirlist_def)
  then show ?thesis using ch_set [of xfs n]
    by (auto simp: last_of_def dest!: last_in_set split: if_splits)
qed

definition entry_ok :: "nat \<Rightarrow> bool" where
  "entry_ok k \<longleftrightarrow> (\<forall>xfs n x. xfs_base xfs \<and> tbl xfs n = Some x \<and> n \<noteq> FUSE_ROOT_ID \<and> n \<noteq> DELETE_PENDING_ID \<and>
     2 * card (below (flat xfs) n) + 2 \<le> k \<longrightarrow>
     (\<exists>xfs'. rem_entry k xfs n = Some xfs' \<and> removed (insert n (below (flat xfs) n)) xfs xfs'))"

definition loop_ok :: "nat \<Rightarrow> bool" where
  "loop_ok k \<longleftrightarrow> (\<forall>xfs n x. xfs_base xfs \<and> tbl xfs n = Some x \<and> is_dir x \<and> n \<noteq> DELETE_PENDING_ID \<and>
     2 * card (below (flat xfs) n) + 1 \<le> k \<longrightarrow>
     (\<exists>xfs'. rem_loop k xfs n = Some xfs' \<and> removed (below (flat xfs) n) xfs xfs'))"

lemma entry_step:
  assumes "loop_ok k"
  shows "entry_ok (Suc k)"
  unfolding entry_ok_def
proof (intro allI impI, elim conjE)
  fix xfs n x
  assume inv: "xfs_base xfs" and x: "tbl xfs n = Some x" and n: "n \<noteq> FUSE_ROOT_ID" "n \<noteq> DELETE_PENDING_ID"
    and fuel: "2 * card (below (flat xfs) n) + 2 \<le> Suc k"
  let ?S = "below (flat xfs) n"
  have tree: "tree_ok (flat xfs)" using inv by (simp add: xfs_base_def)
  have "\<exists>xfs1. (if is_dir x then rem_loop k xfs n else Some xfs) = Some xfs1 \<and> removed ?S xfs xfs1"
  proof (cases "is_dir x")
    case True
    with assms inv x n(2) fuel show ?thesis unfolding loop_ok_def by simp
  next
    case False
    have "\<not> kid (flat xfs) n i" for i
      using kid_dir [OF tree, of n i] dir_at_flat [OF x] False by blast
    then have "?S = {}" by (rule below_empty)
    with False inv show ?thesis by (simp add: removed_def)
  qed
  then obtain xfs1 where x1: "(if is_dir x then rem_loop k xfs n else Some xfs) = Some xfs1" "removed ?S xfs xfs1"
    by blast
  have notS: "n \<notin> ?S" using below_rank [OF tree_okD(9) [OF tree], of n n] by blast
  then have "flat xfs1 n = Some (strip x)" using x1(2) flat_Some [OF x] by (simp add: removed_def prune_def)
  then obtain x1' where x1': "tbl xfs1 n = Some x1'" by (metis flat_SomeE)
  have nokid: "\<not> kid (flat xfs1) n i" for i
  proof
    assume "kid (flat xfs1) n i"
    then have "kid (prune (flat xfs) ?S) n i" using x1(2) by (simp add: removed_def)
    from kid_prune [OF this] n(2) have "kid (flat xfs) n i" "i \<notin> ?S" by auto
    then show False by (auto simp: below_def edges_def)
  qed
  have inv1: "xfs_base xfs1" using x1(2) by (simp add: removed_def)
  from detach_ok [OF inv1 x1' n nokid] obtain xfs2 where x2: "detach n xfs1 = Some xfs2" "xfs_base xfs2"
    "flat xfs2 = prune (flat xfs1) {n}" "inode_count xfs2 = inode_count xfs1" by blast
  have "rem_entry (Suc k) xfs n = Some xfs2"
    using x1(1) x2(1) by (simp add: x detach_def)
  moreover have "removed (insert n ?S) xfs xfs2"
    using x1(2) x2 by (simp add: removed_def prune_prune)
  ultimately show "\<exists>xfs'. rem_entry (Suc k) xfs n = Some xfs' \<and> removed (insert n ?S) xfs xfs'" by blast
qed

lemma loop_step:
  assumes "entry_ok k" "loop_ok k"
  shows "loop_ok (Suc k)"
  unfolding loop_ok_def
proof (intro allI impI, elim conjE)
  fix xfs n x
  assume inv: "xfs_base xfs" and x: "tbl xfs n = Some x" "is_dir x" and n: "n \<noteq> DELETE_PENDING_ID"
    and fuel: "2 * card (below (flat xfs) n) + 1 \<le> Suc k"
  let ?B = "below (flat xfs) n"
  have tree: "tree_ok (flat xfs)" using inv by (simp add: xfs_base_def)
  note ends = dir_end_kids [OF inv x]
  show "\<exists>xfs'. rem_loop (Suc k) xfs n = Some xfs' \<and> removed ?B xfs xfs'"
  proof (cases "dir_end x")
    case None
    then have "?B = {}" using ends by (intro below_empty) simp
    with None x inv show ?thesis by (simp add: removed_def)
  next
    case (Some e)
    let ?S = "insert e (below (flat xfs) e)"
    have e: "kid (flat xfs) n e" using ends Some by simp
    then obtain ex where ex: "tbl xfs e = Some ex" "parent ex = Some n" by (auto simp: kid_def elim!: flat_SomeE)
    have e12: "e \<noteq> FUSE_ROOT_ID" "e \<noteq> DELETE_PENDING_ID" using e tree_okD(4,5) [OF tree] by metis+
    have inum: "inum ex = e" using inv ex(1) by (simp add: xfs_base_def inum_ok_def)
    have sub: "?S \<subseteq> ?B" using below_kid [OF e] .
    have notin: "e \<notin> below (flat xfs) e" using below_rank [OF tree_okD(9) [OF tree], of e e] by blast
    have "card ?S \<le> card ?B" using sub by (intro card_mono) simp_all
    then have le: "2 * card (below (flat xfs) e) + 2 \<le> k" using fuel notin by simp
    obtain xfs1 where x1: "rem_entry k xfs e = Some xfs1" "removed ?S xfs xfs1"
      using assms(1) inv ex(1) e12 le unfolding entry_ok_def by blast
    have inv1: "xfs_base xfs1" and fl1: "flat xfs1 = prune (flat xfs) ?S" using x1(2) by (simp_all add: removed_def)
    have tree1: "tree_ok (prune (flat xfs) ?S)" using inv1 fl1 by (simp add: xfs_base_def)
    note split = below_split [OF tree e n tree1]
    have "n \<notin> ?S" using below_rank [OF tree_okD(9) [OF tree], of e n] e by (auto simp: below_def edges_def)
    then have "flat xfs1 n = Some (strip x)" using flat_Some [OF x(1)] by (simp add: fl1 prune_def)
    then obtain x' where x': "tbl xfs1 n = Some x'" "strip x = strip x'" by (metis flat_SomeE)
    have dir': "is_dir x'" using arg_cong [OF x'(2), of is_dir] x(2) by simp
    have "below (flat xfs1) n \<subset> ?B" using split unfolding fl1 by blast
    then have "card (below (flat xfs1) n) < card ?B" by (intro psubset_card_mono) simp_all
    then have "2 * card (below (flat xfs1) n) + 1 \<le> k" using fuel by linarith
    then obtain xfs2 where x2: "rem_loop k xfs1 n = Some xfs2" "removed (below (flat xfs1) n) xfs1 xfs2"
      using assms(2) inv1 x'(1) dir' n unfolding loop_ok_def by blast
    have "rem_loop (Suc k) xfs n = Some xfs2" by (simp add: x Some ex(1) inum x1(1) x2(1))
    moreover have "removed ?B xfs xfs2"
      using x1(2) x2(2) split(1) unfolding removed_def fl1 prune_prune by simp
    ultimately show ?thesis by blast
  qed
qed

lemma rem_ok: "entry_ok k \<and> loop_ok k"
proof (induction k)
  case 0
  show ?case by (simp add: entry_ok_def loop_ok_def)
next
  case (Suc k)
  then show ?case using entry_step loop_step by blast
qed

lemma fuel_enough: "2 * card (below (flat xfs) n) + 2 \<le> xfs_fuel xfs"
  using card_mono [OF finite_lessThan below_tbl, of xfs n] by (simp add: xfs_fuel_def)

lemma remove_entry_step:
  assumes "xfs_base xfs" "tbl xfs n = Some x" "n \<noteq> FUSE_ROOT_ID" "n \<noteq> DELETE_PENDING_ID"
  shows "\<exists>xfs'. xfs_remove_entry xfs n = Some xfs' \<and> removed (insert n (below (flat xfs) n)) xfs xfs'"
  using rem_ok [of "xfs_fuel xfs"] assms fuel_enough [of xfs n]
  unfolding entry_ok_def xfs_remove_entry_def by blast

lemma remove_contents_step:
  assumes "xfs_base xfs" "tbl xfs n = Some x" "is_dir x" "n \<noteq> DELETE_PENDING_ID"
  shows "\<exists>xfs'. xfs_remove_directory_contents xfs n = Some xfs' \<and> removed (below (flat xfs) n) xfs xfs'"
proof -
  have "2 * card (below (flat xfs) n) + 1 \<le> xfs_fuel xfs" using fuel_enough [of xfs n] by simp
  then show ?thesis
    using rem_ok [of "xfs_fuel xfs"] assms unfolding loop_ok_def xfs_remove_directory_contents_def by simp
qed

end
