(* ===== verification/XFS_Ops.thy ===== *)
theory XFS_Ops
  imports XFS_Remove
begin

text \<open>
  What the other operations do to the flat view: creation, lookup, adding, moving, enumerating
  and the open counts.
\<close>

lemma pend_ok_prune:
  "(\<And>i x. i \<notin> S \<Longrightarrow> a i = Some x \<Longrightarrow> parent x = Some DELETE_PENDING_ID \<Longrightarrow> is_reg x \<and> open_count x > 0) \<Longrightarrow>
     pend_ok (prune a S)"
  unfolding pend_ok_def by (auto elim!: prune_SomeE)

lemma removed_inv: "xfs_inv xfs \<Longrightarrow> removed S xfs xfs' \<Longrightarrow> xfs_inv xfs'"
  by (auto simp: xfs_inv_def removed_def intro!: pend_ok_prune) (auto simp: pend_ok_def)

lemma base_tree: "xfs_base xfs \<Longrightarrow> tree_ok (flat xfs)"
  by (simp add: xfs_base_def)

lemma inv_base: "xfs_inv xfs \<Longrightarrow> xfs_base xfs"
  by (simp add: xfs_inv_def)

subsection \<open>Lookup\<close>

definition named :: "ftable \<Rightarrow> nat \<Rightarrow> byte list \<Rightarrow> nat \<Rightarrow> bool" where
  "named a d nm i \<longleftrightarrow> (\<exists>x. a i = Some x \<and> parent x = Some d \<and> name x = nm)"

lemma lookup_loop_ok:
  "dllseg (tbl xfs) p xs None \<Longrightarrow>
     lookup_loop xfs nm (first_of xs None) = Some (List.find (\<lambda>i. map_option name (tbl xfs i) = Some nm) xs)"
proof (induction xs arbitrary: p)
  case Nil
  show ?case by (subst lookup_loop.simps) simp
next
  case (Cons i xs)
  then show ?case by (subst lookup_loop.simps) auto
qed

lemma lookup_step:
  assumes "xfs_base xfs" "tbl xfs d = Some dx" "is_dir dx"
  shows "\<exists>r. xfs_lookup_in_dir xfs d nm = Some r \<and>
     (case r of None \<Rightarrow> \<forall>i. \<not> named (flat xfs) d nm i | Some i \<Rightarrow> named (flat xfs) d nm i)"
proof -
  let ?r = "List.find (\<lambda>i. map_option name (tbl xfs i) = Some nm) (ch xfs d)"
  have dl: "dirlist (tbl xfs) d (ch xfs d)" using assms by (simp add: xfs_base_def lists_ok_def)
  then have "dir_begin dx = first_of (ch xfs d) None" "dllseg (tbl xfs) None (ch xfs d) None"
    using assms(2) by (auto simp: dirlist_def)
  then have "xfs_lookup_in_dir xfs d nm = Some ?r"
    using assms(2,3) lookup_loop_ok by (simp add: xfs_lookup_in_dir_def)
  moreover have "case ?r of None \<Rightarrow> \<forall>i. \<not> named (flat xfs) d nm i | Some i \<Rightarrow> named (flat xfs) d nm i"
  proof (cases ?r)
    case None
    then have "\<And>i. i \<in> set (ch xfs d) \<Longrightarrow> map_option name (tbl xfs i) \<noteq> Some nm"
      by (auto simp: find_None_iff)
    moreover have "i \<in> set (ch xfs d) \<and> map_option name (tbl xfs i) = Some nm" if "named (flat xfs) d nm i" for i
      using that by (auto simp: named_def ch_set kid_def flat_def)
    ultimately have "\<forall>i. \<not> named (flat xfs) d nm i" by blast
    with None show ?thesis by simp
  next
    case (Some i)
    then have "i \<in> set (ch xfs d)" "map_option name (tbl xfs i) = Some nm"
      by (auto simp: find_Some_iff)
    with Some show ?thesis by (auto simp: named_def ch_set kid_def flat_def)
  qed
  ultimately show ?thesis by blast
qed

lemma named_unique:
  "tree_ok a \<Longrightarrow> d \<noteq> DELETE_PENDING_ID \<Longrightarrow> named a d nm i \<Longrightarrow> named a d nm j \<Longrightarrow> i = j"
  using tree_okD(8) unfolding names_ok_def named_def by blast

subsection \<open>Creation and growth\<close>

lemma grow_step:
  assumes "xfs_base xfs" "grow_xfs m xfs k = (ok, xfs')"
  shows "xfs_base xfs' \<and> flat xfs' = flat xfs \<and> (ok \<longrightarrow> 0 < k \<longrightarrow> free_list xfs' \<noteq> []) \<and> (m_table m \<and> m_free m \<longrightarrow> ok)"
proof (cases "m_table m \<and> m_free m")
  case False
  with assms show ?thesis by (auto simp: grow_xfs_def)
next
  case True
  let ?c = "inode_count xfs"
  have xfs': "ok" "inode_table xfs' = inode_table xfs @ replicate k None" "free_list xfs' = free_list xfs @ rev [?c..<?c + k]"
    using assms(2) True by (auto simp: grow_xfs_def Let_def)
  have t: "tbl xfs' = tbl xfs" by (auto simp: tbl_def fun_eq_iff xfs'(2) nth_append)
  have fl: "flat xfs' = flat xfs" by (simp add: flat_def t)
  have "dir_at (flat xfs) DELETE_PENDING_ID" using tree_okD(3) base_tree assms(1) by blast
  then obtain px where "tbl xfs 2 = Some px" by (auto simp: dir_at_def elim!: flat_SomeE)
  then have big: "2 < ?c" by (rule tbl_less)
  have free: "free_ok xfs'"
  proof -
    have old: "distinct (free_list xfs)" "set (free_list xfs) = {i. 3 \<le> i \<and> i < ?c \<and> tbl xfs i = None}"
      using assms(1) by (auto simp: xfs_base_def free_ok_def)
    have oldi: "i \<in> set (free_list xfs) \<longleftrightarrow> 3 \<le> i \<and> i < ?c \<and> tbl xfs i = None" for i using old(2) by blast
    have "i \<in> set (free_list xfs') \<longleftrightarrow> 3 \<le> i \<and> i < inode_count xfs' \<and> tbl xfs i = None" for i
    proof (cases "i < ?c")
      case True
      then show ?thesis by (simp add: xfs'(2,3) oldi)
    next
      case False
      then have "tbl xfs i = None" by (simp add: tbl_def)
      with False big show ?thesis by (simp add: xfs'(2,3) oldi)
    qed
    moreover have "distinct (free_list xfs')" using old(1) by (auto simp: xfs'(3) oldi)
    ultimately show ?thesis unfolding free_ok_def t by blast
  qed
  have "ch xfs' d = ch xfs d" for d
  proof -
    have "filter (kid (flat xfs) d) [?c..<?c + k] = []"
      using child_of_less [unfolded child_of_flat, of xfs d] by (fastforce simp: filter_empty_conv)
    then show ?thesis unfolding ch_flat fl xfs'(2) by (simp add: upt_add_eq_append [of 0 ?c k])
  qed
  then have "lists_ok xfs'" using assms(1) by (simp add: xfs_base_def lists_ok_def t)
  moreover have "inum_ok xfs'" using assms(1) by (simp add: xfs_base_def inum_ok_def t)
  ultimately show ?thesis using assms(1) free fl xfs' by (auto simp: xfs_base_def)
qed

subsection \<open>Putting an inode into a directory\<close>

lemma ranked_put:
  assumes "ranked a" "parent z = Some d" "d \<notin> insert n (below a n)"
  shows "ranked (a(n \<mapsto> z))"
proof -
  obtain rank :: "nat \<Rightarrow> nat" where r: "\<And>i d. kid a d i \<Longrightarrow> rank d < rank i"
    using assms(1) by (auto simp: ranked_def)
  let ?S = "insert n (below a n)"
  let ?rank = "\<lambda>i. if i \<in> ?S then rank i + rank d + 1 else rank i"
  have "?rank e < ?rank i" if k: "kid (a(n \<mapsto> z)) e i" for e i
  proof (cases "i = n")
    case True
    then have "e = d" using k assms(2) by (simp add: kid_def)
    with True assms(3) show ?thesis by simp
  next
    case False
    then have old: "kid a e i" using k by (simp add: kid_def)
    have "e \<in> ?S \<longrightarrow> i \<in> ?S" using closed_insert_below(1) [of a n] old by (auto simp: closed_below_def)
    with r [OF old] show ?thesis by auto
  qed
  then show ?thesis unfolding ranked_def by (intro exI [of _ ?rank]) blast
qed

lemma names_put:
  assumes "names_ok a" "parent z = Some d" "length (name z) \<le> XFS_MAXFILENAMELEN"
    and "\<And>i. d \<noteq> DELETE_PENDING_ID \<Longrightarrow> named a d (name z) i \<Longrightarrow> i = n"
  shows "names_ok (a(n \<mapsto> z))"
proof -
  have "i = j" if h: "(a(n \<mapsto> z)) i = Some x" "(a(n \<mapsto> z)) j = Some y" "parent x = Some e" "parent y = Some e"
    "e \<noteq> DELETE_PENDING_ID" "name x = name y" for i j x y e
  proof -
    have clash: "k = n" if "a k = Some w" "parent w = parent z" "name w = name z" "parent z \<noteq> Some DELETE_PENDING_ID" for k w
      using that assms(2,4) by (auto simp: named_def)
    show ?thesis
    proof (cases "i = n")
      case True
      then show ?thesis using h clash [of j y] by (cases "j = n") auto
    next
      case i: False
      show ?thesis
      proof (cases "j = n")
        case True
        then show ?thesis using h i clash [of i x] by auto
      next
        case False
        with i h have "a i = Some x" "a j = Some y" by simp_all
        with h(3-6) assms(1) show ?thesis unfolding names_ok_def by blast
      qed
    qed
  qed
  moreover have "length (name x) \<le> XFS_MAXFILENAMELEN" if "(a(n \<mapsto> z)) i = Some x" for i x
    using that assms(1,3) by (auto simp: names_ok_def split: if_splits)
  ultimately show ?thesis unfolding names_ok_def by blast
qed

lemma tree_ok_put:
  assumes tree: "tree_ok a" and n: "n \<noteq> 0" "n \<noteq> FUSE_ROOT_ID" "n \<noteq> DELETE_PENDING_ID" and d: "dir_at a d" "d \<notin> insert n (below a n)"
    and z: "parent z = Some d" "is_reg z \<longleftrightarrow> \<not> is_dir z" "length (name z) \<le> XFS_MAXFILENAMELEN"
    and uniq: "\<And>i. d \<noteq> DELETE_PENDING_ID \<Longrightarrow> named a d (name z) i \<Longrightarrow> i = n" and kids: "\<And>i. kid a n i \<Longrightarrow> is_dir z"
  shows "tree_ok (a(n \<mapsto> z))"
proof (rule tree_okI)
  show "(a(n \<mapsto> z)) 0 = None" using tree_okD(1) [OF tree] n(1) by simp
  show "\<exists>x. (a(n \<mapsto> z)) FUSE_ROOT_ID = Some x \<and> is_dir x \<and> parent x = None"
    "\<exists>x. (a(n \<mapsto> z)) DELETE_PENDING_ID = Some x \<and> is_dir x \<and> parent x = None"
    using tree n by (simp_all add: tree_ok_def)
  show "is_reg x \<longleftrightarrow> \<not> is_dir x" if "(a(n \<mapsto> z)) i = Some x" for i x
    using that z(2) tree_okD(6) [OF tree, of i x] by (auto split: if_splits)
  show "names_ok (a(n \<mapsto> z))" using tree_okD(8) [OF tree] z(1,3) uniq by (rule names_put)
  show "ranked (a(n \<mapsto> z))" using tree_okD(9) [OF tree] z(1) d(2) by (rule ranked_put)
  show "\<exists>e. parent x = Some e \<and> dir_at (a(n \<mapsto> z)) e"
    if x: "(a(n \<mapsto> z)) i = Some x" "i \<noteq> FUSE_ROOT_ID" "i \<noteq> DELETE_PENDING_ID" for i x
  proof (cases "i = n")
    case True
    with x(1) z(1) d show ?thesis by (auto simp: dir_at_def)
  next
    case False
    with x(1) have a: "a i = Some x" by simp
    then obtain e where e: "parent x = Some e" "dir_at a e" using tree_okD(7) [OF tree] x(2,3) by blast
    have "dir_at (a(n \<mapsto> z)) e" using e a kids [of i] by (auto simp: dir_at_def kid_def)
    with e show ?thesis by blast
  qed
qed

lemma pend_ok_put:
  "pend_ok a \<Longrightarrow> (parent z = Some DELETE_PENDING_ID \<Longrightarrow> is_reg z \<and> open_count z > 0) \<Longrightarrow> pend_ok (a(n \<mapsto> z))"
  by (auto simp: pend_ok_def)

subsection \<open>Adding an entry\<close>

lemma and_bit14: "w AND S_IFDIR = 0 \<longleftrightarrow> \<not> bit (w :: 32 word) 14"
  using and_exp_eq_0_iff_not_bit [of w 14] by simp

lemma and_bit15: "w AND S_IFREG = 0 \<longleftrightarrow> \<not> bit (w :: 32 word) 15"
  using and_exp_eq_0_iff_not_bit [of w 15] by simp

definition clean_mode :: "32 word \<Rightarrow> 32 word" where
  "clean_mode md = (if md AND S_IFDIR \<noteq> 0 then (md AND 0x1ff) OR S_IFDIR else (md AND 0x1ff) OR S_IFREG)"

lemma clean_mode_bits:
  "clean_mode md AND S_IFDIR \<noteq> 0 \<longleftrightarrow> md AND S_IFDIR \<noteq> 0" "clean_mode md AND S_IFREG \<noteq> 0 \<longleftrightarrow> md AND S_IFDIR = 0"
  by (simp_all add: clean_mode_def and_bit14 and_bit15 bit_simps)

definition may_add :: "ftable \<Rightarrow> nat \<Rightarrow> byte list \<Rightarrow> bool" where
  "may_add a p nm \<longleftrightarrow> dir_at a p \<and> p \<noteq> DELETE_PENDING_ID \<and> length nm \<le> XFS_MAXFILENAMELEN \<and> (\<forall>i. \<not> named a p nm i)"

definition new_entry :: "int \<Rightarrow> 32 word \<Rightarrow> inode_all \<Rightarrow> nat \<Rightarrow> byte list \<Rightarrow> 32 word \<Rightarrow> inode_all" where
  "new_entry now gen px n nm md = new_inode\<lparr>inum := n, mode := clean_mode md, uid := uid px, gid := gid px,
     fsize := (if md AND S_IFDIR \<noteq> 0 then 4096 else 0), atime := now, mtime := now, ctime := now, name := nm,
     generation := gen, is_redirected := is_redirected px, device_id := device_id px, lindex := 0\<rparr>"

lemma new_entry_simps [simp]:
  "inum (new_entry now gen px n nm md) = n" "name (new_entry now gen px n nm md) = nm"
  "parent (new_entry now gen px n nm md) = None" "strip (new_entry now gen px n nm md) = new_entry now gen px n nm md"
  "dir_begin (new_entry now gen px n nm md) = None" "dir_end (new_entry now gen px n nm md) = None"
  "open_count (new_entry now gen px n nm md) = 0"
  "is_dir (new_entry now gen px n nm md) \<longleftrightarrow> md AND S_IFDIR \<noteq> 0"
  "is_reg (new_entry now gen px n nm md) \<longleftrightarrow> md AND S_IFDIR = 0"
  by (simp_all add: new_entry_def new_inode_def strip_def is_dir_def is_reg_def clean_mode_bits)

lemma last_free:
  assumes "free_ok xfs" "free_list xfs \<noteq> []"
  shows "3 \<le> last (free_list xfs)" "last (free_list xfs) < inode_count xfs" "tbl xfs (last (free_list xfs)) = None"
proof -
  have "last (free_list xfs) \<in> {i. 3 \<le> i \<and> i < inode_count xfs \<and> tbl xfs i = None}"
    using assms last_in_set unfolding free_ok_def by blast
  then show "3 \<le> last (free_list xfs)" "last (free_list xfs) < inode_count xfs"
    "tbl xfs (last (free_list xfs)) = None" by simp_all
qed

lemma no_kids_of_free: "xfs_base xfs \<Longrightarrow> tbl xfs n = None \<Longrightarrow> \<not> kid (flat xfs) n i"
  using kid_dir [OF base_tree, of xfs n i] by (auto simp: dir_at_def elim!: flat_SomeE)

lemma alloc_ok:
  assumes "xfs_base xfs" "free_list xfs \<noteq> []" "n = last (free_list xfs)"
    and "inum z = n" "parent z = None" "dir_begin z = None" "dir_end z = None"
    and "xfs' = set_tbl n (Some z) (xfs\<lparr>free_list := butlast (free_list xfs)\<rparr>)"
  shows "lists_ok xfs'" "inum_ok xfs'" "tbl xfs' = (tbl xfs)(n \<mapsto> z)" "inode_count xfs' = inode_count xfs"
    "set (free_list xfs') = set (free_list xfs) - {n}" "distinct (free_list xfs')"
proof -
  have free: "free_ok xfs" using assms(1) by (simp add: xfs_base_def)
  note n = last_free [OF free assms(2), folded assms(3)]
  let ?x = "xfs\<lparr>free_list := butlast (free_list xfs)\<rparr>"
  have "tbl ?x = tbl xfs" by (simp add: tbl_def fun_eq_iff)
  then show t: "tbl xfs' = (tbl xfs)(n \<mapsto> z)" using n(2) by (simp add: assms(8))
  show c: "inode_count xfs' = inode_count xfs" by (simp add: assms(8))
  have "free_list xfs = butlast (free_list xfs) @ [n]" using assms(2,3) by simp
  moreover have "distinct (free_list xfs)" using free by (simp add: free_ok_def)
  ultimately have "distinct (butlast (free_list xfs) @ [n])" by simp
  then show "distinct (free_list xfs')" by (simp add: assms(8))
  show "set (free_list xfs') = set (free_list xfs) - {n}"
    using \<open>distinct (butlast (free_list xfs) @ [n])\<close> arg_cong [OF \<open>free_list xfs = butlast (free_list xfs) @ [n]\<close>, of set]
    by (auto simp: assms(8))
  show "inum_ok xfs'" using assms(1,4) by (simp add: inum_ok_def t xfs_base_def)
  have nokid: "\<not> kid (flat xfs) n i" for i using no_kids_of_free [OF assms(1) n(3)] .
  have kids: "kid (flat xfs') d i = kid (flat xfs) d i" for d i
    using n(3) assms(5) by (auto simp: kid_def flat_def t)
  have same: "ch xfs' d = ch xfs d" for d by (simp add: ch_flat c kids [abs_def])
  show "lists_ok xfs'" unfolding lists_ok_def
  proof (intro allI impI, elim conjE)
    fix d dx assume d: "tbl xfs' d = Some dx" "is_dir dx"
    show "dirlist (tbl xfs') d (ch xfs' d)"
    proof (cases "d = n")
      case True
      then have "ch xfs' d = []" using nokid same by (simp add: ch_flat)
      with True d t assms(6,7) show ?thesis by (simp add: dirlist_def)
    next
      case False
      have "\<not> kid (flat xfs) d n" using n(3) by (simp add: kid_def flat_def)
      then have "n \<notin> set (ch xfs d)" by (simp add: ch_set)
      then have "dirlist (tbl xfs) d (ch xfs d) = dirlist (tbl xfs') d (ch xfs d)"
        using False by (intro dirlist_cong) (auto simp: t)
      with assms(1) d t False same show ?thesis by (simp add: xfs_base_def lists_ok_def)
    qed
  qed
qed

lemma place_ok:
  assumes "xfs_base xfs" "free_list xfs \<noteq> []" "n = last (free_list xfs)" "tbl xfs p = Some px" "may_add (flat xfs) p nm"
    and "z = new_entry now gen px n nm md"
  shows "\<exists>xfs'. link_inode_into_directory_node p n (set_tbl n (Some z) (xfs\<lparr>free_list := butlast (free_list xfs)\<rparr>)) =
      Some xfs' \<and> xfs_base xfs' \<and> flat xfs' = (flat xfs)(n \<mapsto> z\<lparr>parent := Some p\<rparr>)"
proof -
  let ?x1 = "set_tbl n (Some z) (xfs\<lparr>free_list := butlast (free_list xfs)\<rparr>)"
  have z: "inum z = n" "parent z = None" "dir_begin z = None" "dir_end z = None" "strip z = z" "name z = nm"
    "is_reg z \<longleftrightarrow> \<not> is_dir z" by (simp_all add: assms(6))
  note tree = base_tree [OF assms(1)]
  have free: "free_ok xfs" using assms(1) by (simp add: xfs_base_def)
  note n = last_free [OF free assms(2), folded assms(3)]
  note alloc = alloc_ok [OF assms(1-3) z(1-4) refl]
  have p: "is_dir px" "p \<noteq> DELETE_PENDING_ID" "length nm \<le> XFS_MAXFILENAMELEN" "\<And>i. \<not> named (flat xfs) p nm i"
    using assms(4,5) dir_at_flat by (auto simp: may_add_def)
  have np: "n \<noteq> p" using n(3) assms(4) by auto
  have "parent px \<noteq> Some p"
    using ranked_irrefl(1) [OF tree_okD(9) [OF tree], of p] flat_Some [OF assms(4)] by (auto simp: kid_def)
  moreover have "tbl ?x1 p = Some px" "tbl ?x1 n = Some z" using alloc(3) assms(4) np by simp_all
  ultimately obtain xfs2 where x2: "link_inode_into_directory_node p n ?x1 = Some xfs2" "lists_ok xfs2"
    "same_rest ?x1 xfs2" "flat xfs2 = (flat ?x1)(n \<mapsto> (strip z)\<lparr>parent := Some p\<rparr>)"
    using link_ok [OF alloc(1,2) _ z(2) _ p(1) np] by blast
  have fl: "flat xfs2 = (flat xfs)(n \<mapsto> z\<lparr>parent := Some p\<rparr>)"
    using x2(4) z(5) alloc(3) by (simp add: flat_def fun_eq_iff)
  have "inum_ok xfs2" by (rule inum_ok_upd [OF alloc(2) x2(4)]) (simp add: z(1))
  moreover have "free_ok xfs2"
  proof -
    have "i \<in> set (free_list xfs2) \<longleftrightarrow> 3 \<le> i \<and> i < inode_count xfs2 \<and> flat xfs2 i = None" for i
    proof -
      have "i \<in> set (free_list xfs) \<longleftrightarrow> 3 \<le> i \<and> i < inode_count xfs \<and> tbl xfs i = None"
        using free unfolding free_ok_def by blast
      then show ?thesis using alloc(4,5) x2(3) by (auto simp: same_rest_def fl flat_None)
    qed
    then show ?thesis using alloc(6) x2(3) unfolding free_ok_flat same_rest_def by auto
  qed
  moreover have "tree_ok (flat xfs2)"
    unfolding fl
  proof (rule tree_ok_put [OF tree])
    have nk: "\<not> kid (flat xfs) n i" for i using no_kids_of_free [OF assms(1) n(3)] .
    then show "p \<notin> insert n (below (flat xfs) n)" using np below_empty by auto
    show "is_dir (z\<lparr>parent := Some p\<rparr>)" if "kid (flat xfs) n i" for i using that nk by blast
    show "dir_at (flat xfs) p" using assms(4) p(1) dir_at_flat by blast
  qed (use n(1) z p in auto)
  ultimately show ?thesis using x2(1,2) fl by (auto simp: xfs_base_def)
qed

definition add_result :: "int \<Rightarrow> xfs_fs \<Rightarrow> nat \<Rightarrow> byte list \<Rightarrow> 32 word \<Rightarrow> nat option \<Rightarrow> xfs_fs \<Rightarrow> bool" where
  "add_result now xfs p nm md r xfs' \<longleftrightarrow>
     (case r of
        None \<Rightarrow> flat xfs' = flat xfs
      | Some n \<Rightarrow> 3 \<le> n \<and> flat xfs n = None \<and> may_add (flat xfs) p nm \<and>
          (\<exists>px. tbl xfs p = Some px \<and>
             flat xfs' = (flat xfs)(n \<mapsto> (new_entry now (fs_generation xfs) px n nm md)\<lparr>parent := Some p\<rparr>)))"

lemma grow_generation: "grow_xfs m xfs k = (ok, xfs') \<Longrightarrow> fs_generation xfs' = fs_generation xfs"
  by (auto simp: grow_xfs_def Let_def split: if_splits)

lemma flat_parent_eq:
  assumes "flat xfs' = flat xfs" "tbl xfs p = Some px"
  obtains py where "tbl xfs' p = Some py" "uid py = uid px" "gid py = gid px" "is_redirected py = is_redirected px"
    "device_id py = device_id px" "is_dir py = is_dir px"
proof -
  have "flat xfs' p = Some (strip px)" using assms flat_Some by simp
  then obtain py where py: "tbl xfs' p = Some py" "strip px = strip py" by (metis flat_SomeE)
  show thesis using that [OF py(1)] arg_cong [OF py(2), of uid] arg_cong [OF py(2), of gid]
      arg_cong [OF py(2), of is_redirected] arg_cong [OF py(2), of device_id] arg_cong [OF py(2), of is_dir] by simp
qed

lemma new_entry_cong:
  "uid py = uid px \<Longrightarrow> gid py = gid px \<Longrightarrow> is_redirected py = is_redirected px \<Longrightarrow> device_id py = device_id px \<Longrightarrow>
     new_entry now gen py n nm md = new_entry now gen px n nm md"
  by (simp add: new_entry_def)

lemma add_entry_step:
  assumes "xfs_base xfs"
  shows "\<exists>r xfs'. xfs_add_entry m now xfs p nm md = Some (r, xfs') \<and> xfs_base xfs' \<and> add_result now xfs p nm md r xfs' \<and>
     (may_add (flat xfs) p nm \<and> m_table m \<and> m_free m \<and> m_inode m \<and> m_name m \<longrightarrow> r \<noteq> None)"
proof (cases "tbl xfs p")
  case None
  then have "\<not> may_add (flat xfs) p nm" by (simp add: may_add_def dir_at_def flat_def)
  with None assms show ?thesis by (simp add: xfs_add_entry_def add_result_def)
next
  case (Some px)
  show ?thesis
  proof (cases "is_dir px \<and> p \<noteq> DELETE_PENDING_ID \<and> length nm \<le> XFS_MAXFILENAMELEN")
    case False
    then have "\<not> may_add (flat xfs) p nm" using dir_at_flat [OF Some] by (auto simp: may_add_def)
    with False Some assms show ?thesis by (auto simp: xfs_add_entry_def add_result_def)
  next
    case True
    obtain r where r: "xfs_lookup_in_dir xfs p nm = Some r"
      "case r of None \<Rightarrow> \<forall>i. \<not> named (flat xfs) p nm i | Some i \<Rightarrow> named (flat xfs) p nm i"
      using lookup_step [OF assms Some] True by blast
    have may: "may_add (flat xfs) p nm \<longleftrightarrow> r = None"
      using r(2) True dir_at_flat [OF Some] by (auto simp: may_add_def split: option.splits)
    show ?thesis
    proof (cases r)
      case (Some i)
      with r True \<open>tbl xfs p = Some px\<close> assms may show ?thesis by (auto simp: xfs_add_entry_def add_result_def)
    next
      case None
      obtain ok xfs1 where g: "(if free_list xfs \<noteq> [] then (True, xfs)
          else grow_xfs m xfs INODE_TABLE_ALLOCATION_GRANULARITY) = (ok, xfs1)" by fastforce
      have g': "xfs_base xfs1" "flat xfs1 = flat xfs" "ok \<longrightarrow> free_list xfs1 \<noteq> []" "m_table m \<and> m_free m \<longrightarrow> ok"
        "fs_generation xfs1 = fs_generation xfs"
        using g assms grow_step [OF assms, of m 100 ok xfs1] grow_generation [of m xfs 100 ok xfs1]
        by (auto split: if_splits)
      have run: "xfs_add_entry m now xfs p nm md =
          (if \<not> ok then Some (None, xfs1) else if \<not> m_inode m \<or> \<not> m_name m then Some (None, xfs1)
           else if last (free_list xfs1) \<ge> inode_count xfs1 then None
           else do { xfs2 \<leftarrow> link_inode_into_directory_node p (last (free_list xfs1))
                       (set_tbl (last (free_list xfs1)) (Some (new_entry now (fs_generation xfs1) px (last (free_list xfs1)) nm md))
                         (xfs1\<lparr>free_list := butlast (free_list xfs1)\<rparr>));
                     Some (Some (last (free_list xfs1)), xfs2) })"
        using True Some r(1) None g
        by (simp add: xfs_add_entry_def Let_def new_entry_def clean_mode_def [symmetric] clean_mode_bits)
      show ?thesis
      proof (cases "ok \<and> m_inode m \<and> m_name m")
        case False
        with run g' show ?thesis by (auto simp: add_result_def)
      next
        case ok: True
        let ?n = "last (free_list xfs1)"
        have ne: "free_list xfs1 \<noteq> []" using g'(3) ok by blast
        have "free_ok xfs1" using g'(1) by (simp add: xfs_base_def)
        note n = last_free [OF this ne]
        obtain py where py: "tbl xfs1 p = Some py" "uid py = uid px" "gid py = gid px"
          "is_redirected py = is_redirected px" "device_id py = device_id px" "is_dir py = is_dir px"
          using g'(2) Some by (rule flat_parent_eq)
        note same = new_entry_cong [OF py(2-5), of now "fs_generation xfs1" ?n nm md]
        have may1: "may_add (flat xfs1) p nm" using may None g'(2) by simp
        obtain xfs2 where x2: "link_inode_into_directory_node p ?n
             (set_tbl ?n (Some (new_entry now (fs_generation xfs1) px ?n nm md)) (xfs1\<lparr>free_list := butlast (free_list xfs1)\<rparr>)) = Some xfs2"
          "xfs_base xfs2" "flat xfs2 = (flat xfs1)(?n \<mapsto> (new_entry now (fs_generation xfs1) px ?n nm md)\<lparr>parent := Some p\<rparr>)"
          using place_ok [OF g'(1) ne refl py(1) may1 refl, where now = now and gen = "fs_generation xfs1" and md = md] same by auto
        have "xfs_add_entry m now xfs p nm md = Some (Some ?n, xfs2)"
          unfolding run using ok n(2) x2(1) by simp
        moreover have "flat xfs ?n = None" using n(3) g'(2) by (metis flat_None)
        ultimately show ?thesis using x2 n(1) may None Some g'(2,5) by (auto simp: add_result_def)
      qed
    qed
  qed
qed

lemma add_entry_pend:
  assumes "add_result now xfs p nm md r xfs'" "pend_ok (flat xfs)"
  shows "pend_ok (flat xfs')"
proof (cases r)
  case (Some n)
  then obtain px where px: "p \<noteq> DELETE_PENDING_ID"
    "flat xfs' = (flat xfs)(n \<mapsto> (new_entry now (fs_generation xfs) px n nm md)\<lparr>parent := Some p\<rparr>)"
    using assms(1) by (auto simp: add_result_def may_add_def)
  show ?thesis unfolding px(2) by (rule pend_ok_put [OF assms(2)]) (use px(1) in simp)
qed (use assms in \<open>simp add: add_result_def\<close>)

subsection \<open>Writing a field that is not a link\<close>

lemma lists_ok_field:
  assumes "lists_ok xfs" "tbl xfs n = Some x" "tbl xfs' = (tbl xfs)(n \<mapsto> y)" "inode_count xfs' = inode_count xfs"
    and "next_i y = next_i x" "prev_i y = prev_i x" "dir_begin y = dir_begin x" "dir_end y = dir_end x"
    and "parent y = parent x" "is_dir y = is_dir x"
  shows "lists_ok xfs'"
  unfolding lists_ok_def
proof (intro allI impI, elim conjE)
  fix d dx assume d: "tbl xfs' d = Some dx" "is_dir dx"
  have "kid (flat xfs') c i = kid (flat xfs) c i" for c i
    using assms(2,9) by (auto simp: kid_def flat_def assms(3))
  then have same: "ch xfs' d = ch xfs d" by (simp add: ch_flat assms(4) cong: filter_cong)
  have "links (tbl xfs' i) = links (tbl xfs i)" "ends (tbl xfs' i) = ends (tbl xfs i)" for i
    using assms(2,5-8) by (simp_all add: assms(3) links_def ends_def)
  then have "dirlist (tbl xfs) d (ch xfs d) = dirlist (tbl xfs') d (ch xfs d)"
    by (intro dirlist_cong) simp_all
  moreover have "dirlist (tbl xfs) d (ch xfs d)"
    using assms(1,2,10) d by (cases "d = n") (auto simp: assms(3) lists_ok_def)
  ultimately show "dirlist (tbl xfs') d (ch xfs' d)" using same by simp
qed

lemma field_ok:
  assumes "lists_ok xfs" "inum_ok xfs" "free_ok xfs" "tbl xfs n = Some x"
    and "next_i (f x) = next_i x" "prev_i (f x) = prev_i x" "dir_begin (f x) = dir_begin x" "dir_end (f x) = dir_end x"
    and "parent (f x) = parent x" "is_dir (f x) = is_dir x" "inum (f x) = inum x"
  shows "\<exists>xfs'. mod_ino n f xfs = Some xfs' \<and> xfs' = set_tbl n (Some (f x)) xfs \<and> lists_ok xfs' \<and> inum_ok xfs' \<and>
     free_ok xfs' \<and> flat xfs' = (flat xfs)(n \<mapsto> strip (f x)) \<and> inode_count xfs' = inode_count xfs"
proof -
  let ?x = "set_tbl n (Some (f x)) xfs"
  have run: "mod_ino n f xfs = Some ?x" and t: "tbl ?x = (tbl xfs)(n \<mapsto> f x)"
    using mod_ino_ok [OF assms(4)] by auto
  have fl: "flat ?x = (flat xfs)(n \<mapsto> strip (f x))" by (simp add: flat_def t fun_eq_iff)
  have rest: "same_rest xfs ?x" by (simp add: same_rest_def)
  have "lists_ok ?x" using assms(1,4) t _ assms(5-10) by (rule lists_ok_field) simp
  moreover have "inum_ok ?x"
    using assms(2,4,11) by (intro inum_ok_upd [OF assms(2) fl]) (simp add: inum_ok_def)
  moreover have "free_ok ?x" using assms(3) rest fl assms(4) by (rule free_ok_upd)
  ultimately show ?thesis using run fl by simp
qed

subsection \<open>Moving an entry\<close>

lemma relink_ok:
  assumes "xfs_base xfs" "tbl xfs n = Some x" "n \<noteq> FUSE_ROOT_ID" "n \<noteq> DELETE_PENDING_ID" "n \<noteq> d"
    and "tbl xfs d = Some dx" "is_dir dx"
  shows "\<exists>xfs1 xfs2. unlink_inode_from_parent n xfs = Some xfs1 \<and> link_inode_into_directory_node d n xfs1 = Some xfs2 \<and>
     lists_ok xfs2 \<and> inum_ok xfs2 \<and> free_ok xfs2 \<and> flat xfs2 = (flat xfs)(n \<mapsto> (strip x)\<lparr>parent := Some d\<rparr>)"
proof -
  note tree = base_tree [OF assms(1)]
  from unlinked [OF assms(1-4)] obtain xfs1 x' where x1: "unlink_inode_from_parent n xfs = Some xfs1"
    "lists_ok xfs1" "inum_ok xfs1" "free_ok xfs1"
    "flat xfs1 = (flat xfs)(n \<mapsto> (strip x)\<lparr>parent := None\<rparr>)"
    and x': "tbl xfs1 n = Some x'" "strip x' = (strip x)\<lparr>parent := None\<rparr>" by blast
  note px = strip_parent [OF x'(2)]
  have "flat xfs1 d = Some (strip dx)" using flat_Some [OF assms(6)] assms(5) by (simp add: x1(5))
  then obtain dy where dy: "tbl xfs1 d = Some dy" "strip dx = strip dy" by (metis flat_SomeE)
  have "is_dir dy" "parent dy = parent dx" using arg_cong [OF dy(2), of is_dir] arg_cong [OF dy(2), of parent] assms(7) by simp_all
  moreover have "parent dx \<noteq> Some d"
    using ranked_irrefl(1) [OF tree_okD(9) [OF tree], of d] flat_Some [OF assms(6)] by (auto simp: kid_def)
  ultimately obtain xfs2 where
    x2: "link_inode_into_directory_node d n xfs1 = Some xfs2" "lists_ok xfs2" "same_rest xfs1 xfs2"
      "flat xfs2 = (flat xfs1)(n \<mapsto> (strip x')\<lparr>parent := Some d\<rparr>)"
    using link_ok [OF x1(2,3) x'(1) px(1) dy(1) _ assms(5)] by auto
  have "inum_ok xfs2" using x1(3) x'(1) by (intro inum_ok_upd [OF x1(3) x2(4)]) (simp add: inum_ok_def)
  moreover have "free_ok xfs2" using x1(4) x2(3,4) x'(1) by (rule free_ok_upd)
  moreover have "flat xfs2 = (flat xfs)(n \<mapsto> (strip x)\<lparr>parent := Some d\<rparr>)" using x'(2) by (simp add: x2(4) x1(5))
  ultimately show ?thesis using x1(1) x2(1,2) by blast
qed

text \<open>\<^term>\<open>under_loop\<close> counts the steps up to \<^term>\<open>d\<close>.\<close>

lemma under_loop_ok:
  assumes "tree_ok (flat xfs)" "tbl xfs e = Some ex"
  shows "\<exists>k. under_loop xfs d (Some e) c = Some k \<and>
     (if e = d then k = c else if e \<in> below (flat xfs) d then k > c else k = 0)"
proof -
  obtain rank :: "nat \<Rightarrow> nat" where r: "\<And>i d. kid (flat xfs) d i \<Longrightarrow> rank d < rank i"
    using tree_okD(9) [OF assms(1)] by (auto simp: ranked_def)
  show ?thesis using assms(2)
  proof (induction "rank e" arbitrary: e ex c rule: less_induct)
    case less
    show ?case
    proof (cases "e = d")
      case True
      then show ?thesis by (subst under_loop.simps) simp
    next
      case False
      have run: "under_loop xfs d (Some e) c = under_loop xfs d (parent ex) (Suc c)"
        using False less.prems by (subst under_loop.simps) simp
      show ?thesis
      proof (cases "parent ex")
        case None
        then have "\<not> kid (flat xfs) q e" for q using flat_Some [OF less.prems] by (simp add: kid_def)
        then have "e \<notin> below (flat xfs) d" by (auto simp: below_def edges_def dest: tranclD)
        moreover have "under_loop xfs d None (Suc c) = Some 0" by (subst under_loop.simps) simp
        ultimately show ?thesis using False run None by simp
      next
        case (Some q)
        have k: "kid (flat xfs) q e" using Some flat_Some [OF less.prems] by (simp add: kid_def)
        obtain qx where qx: "tbl xfs q = Some qx"
          using kid_dir [OF assms(1) k] by (auto simp: dir_at_def elim!: flat_SomeE)
        have only: "kid (flat xfs) q' e \<Longrightarrow> q' = q" for q' using k by (auto simp: kid_def)
        have "e \<in> below (flat xfs) d \<longleftrightarrow> q = d \<or> q \<in> below (flat xfs) d"
        proof
          assume "e \<in> below (flat xfs) d"
          then obtain q' where "(e, q') \<in> edges (flat xfs)" "(q', d) \<in> (edges (flat xfs))\<^sup>*"
            by (auto simp: below_def dest: tranclD)
          then show "q = d \<or> q \<in> below (flat xfs) d" using only [of q'] by (auto simp: below_def edges_def rtrancl_eq_or_trancl)
        next
          assume "q = d \<or> q \<in> below (flat xfs) d"
          then show "e \<in> below (flat xfs) d" using k by (auto simp: below_def edges_def intro: trancl_into_trancl2)
        qed
        with less.hyps [OF r [OF k] qx, of "Suc c"] run Some False show ?thesis by (auto split: if_splits)
      qed
    qed
  qed
qed

lemma is_under_step:
  assumes "tree_ok (flat xfs)"
  shows "\<exists>k. xfs_is_under xfs d e = Some k \<and> (k > 0 \<longleftrightarrow> e \<in> below (flat xfs) d)"
proof (cases "\<exists>dx ex. tbl xfs d = Some dx \<and> tbl xfs e = Some ex \<and> is_dir dx")
  case True
  then obtain dx ex where x: "tbl xfs d = Some dx" "tbl xfs e = Some ex" "is_dir dx" by blast
  then have "xfs_is_under xfs d e = under_loop xfs d (Some e) 0" by (simp add: xfs_is_under_def)
  moreover have "e = d \<Longrightarrow> e \<notin> below (flat xfs) d" using below_rank [OF tree_okD(9) [OF assms], of e d] by auto
  ultimately show ?thesis using under_loop_ok [OF assms x(2), of d 0] by (auto split: if_splits)
next
  case False
  have "e \<notin> below (flat xfs) d"
  proof
    assume "e \<in> below (flat xfs) d"
    then obtain q q' where q: "kid (flat xfs) q e" "kid (flat xfs) d q'"
      using tranclD [of e d "edges (flat xfs)"] tranclD2 [of e d "edges (flat xfs)"]
      unfolding below_def edges_def by blast
    from q(1) have "tbl xfs e \<noteq> None" by (auto simp: kid_def flat_def)
    moreover from kid_dir [OF assms q(2)] obtain dx where "tbl xfs d = Some dx" "is_dir dx"
      by (auto simp: dir_at_def elim!: flat_SomeE)
    ultimately show False using False by auto
  qed
  moreover have "xfs_is_under xfs d e = Some 0" using False by (auto simp: xfs_is_under_def split: option.splits)
  ultimately show ?thesis by simp
qed

text \<open>What a move removes: the entry that has the new name, with all that is below it.\<close>

definition gone :: "ftable \<Rightarrow> nat \<Rightarrow> nat \<Rightarrow> byte list \<Rightarrow> nat set" where
  "gone a n p nm = {i. \<exists>t. named a p nm t \<and> t \<noteq> n \<and> i \<in> insert t (below a t)}"

lemma gone_closed: "closed_below a (gone a n p nm)"
  using closed_insert_below(1) by (fastforce simp: closed_below_def gone_def)

lemma drop_target:
  assumes "xfs_base xfs" "tbl xfs p = Some px" "is_dir px" "p \<noteq> DELETE_PENDING_ID" "\<not> named (flat xfs) p nm n"
  shows "\<exists>xfs'. do { dest \<leftarrow> xfs_lookup_in_dir xfs p nm;
        (case dest of None \<Rightarrow> Some xfs | Some t \<Rightarrow> xfs_remove_entry xfs t) } = Some xfs' \<and>
     removed (gone (flat xfs) n p nm) xfs xfs'"
proof -
  note tree = base_tree [OF assms(1)]
  obtain r where r: "xfs_lookup_in_dir xfs p nm = Some r"
    "case r of None \<Rightarrow> \<forall>i. \<not> named (flat xfs) p nm i | Some i \<Rightarrow> named (flat xfs) p nm i"
    using lookup_step [OF assms(1-3)] by blast
  show ?thesis
  proof (cases r)
    case None
    then have "gone (flat xfs) n p nm = {}" using r(2) by (simp add: gone_def)
    with None r(1) assms(1) show ?thesis by (simp add: removed_def)
  next
    case (Some t)
    then have t: "named (flat xfs) p nm t" using r(2) by simp
    then have "t \<noteq> n" using assms(5) by auto
    then have "gone (flat xfs) n p nm = insert t (below (flat xfs) t)"
      using t named_unique [OF tree assms(4)] by (auto simp: gone_def)
    moreover have "kid (flat xfs) p t" using t by (auto simp: named_def kid_def)
    then have "t \<noteq> FUSE_ROOT_ID" "t \<noteq> DELETE_PENDING_ID" using tree_okD(4,5) [OF tree] by metis+
    moreover obtain tx where "tbl xfs t = Some tx" using t by (auto simp: named_def elim!: flat_SomeE)
    ultimately show ?thesis using remove_entry_step [OF assms(1)] r(1) Some by simp
  qed
qed

text \<open>When a move is allowed, and does not lose the entry itself.\<close>

definition may_move :: "ftable \<Rightarrow> nat \<Rightarrow> nat \<Rightarrow> byte list \<Rightarrow> bool" where
  "may_move a n p nm \<longleftrightarrow> length nm \<le> XFS_MAXFILENAMELEN \<and> p \<noteq> DELETE_PENDING_ID \<and> dir_at a p \<and> p \<notin> below a n"

definition safe_move :: "ftable \<Rightarrow> nat \<Rightarrow> nat \<Rightarrow> byte list \<Rightarrow> bool" where
  "safe_move a n p nm \<longleftrightarrow> p \<noteq> n \<and> n \<notin> gone a n p nm"

lemma check_move_step:
  assumes "tree_ok (flat xfs)" "tbl xfs n = Some x"
  shows "xfs_check_move_entry xfs n p nm = Some (may_move (flat xfs) n p nm)"
proof -
  obtain k where k: "xfs_is_under xfs n p = Some k" "k > 0 \<longleftrightarrow> p \<in> below (flat xfs) n"
    using is_under_step [OF assms(1)] by blast
  show ?thesis
    using assms(2) k dir_at_flat [of xfs p]
    by (cases "tbl xfs p") (auto simp: xfs_check_move_entry_def may_move_def dir_at_def flat_def)
qed

lemma move_tree:
  assumes "xfs_base xfs" "tbl xfs n = Some x" "n \<noteq> FUSE_ROOT_ID" "n \<noteq> DELETE_PENDING_ID"
    and "may_move (flat xfs) n p nm" "safe_move (flat xfs) n p nm" "removed (gone (flat xfs) n p nm) xfs xfs1"
  shows "tree_ok ((flat xfs1)(n \<mapsto> (strip x)\<lparr>parent := Some p, name := nm\<rparr>))" "flat xfs1 n = Some (strip x)"
    "dir_at (flat xfs1) p"
proof -
  note tree = base_tree [OF assms(1)]
  let ?G = "gone (flat xfs) n p nm"
  let ?z = "(strip x)\<lparr>parent := Some p, name := nm\<rparr>"
  have may: "length nm \<le> XFS_MAXFILENAMELEN" "p \<noteq> DELETE_PENDING_ID" "dir_at (flat xfs) p" "p \<notin> below (flat xfs) n"
    using assms(5) by (simp_all add: may_move_def)
  have fl: "flat xfs1 = prune (flat xfs) ?G" and tree1: "tree_ok (flat xfs1)"
    using assms(7) base_tree [of xfs1] by (simp_all add: removed_def)
  have nG: "n \<notin> ?G" "p \<noteq> n" using assms(6) by (simp_all add: safe_move_def)
  show n1: "flat xfs1 n = Some (strip x)" using nG(1) flat_Some [OF assms(2)] by (simp add: fl prune_def)
  have "p \<notin> ?G"
  proof
    assume "p \<in> ?G"
    then obtain t where t: "named (flat xfs) p nm t" "p \<in> insert t (below (flat xfs) t)" by (auto simp: gone_def)
    then have "t \<in> below (flat xfs) p" by (auto simp: named_def below_def edges_def kid_def)
    with below_rank [OF tree_okD(9) [OF tree]] t(2) show False by blast
  qed
  then show dir1: "dir_at (flat xfs1) p" using may(3) by (simp add: fl prune_dir_at)
  have "3 \<le> n" using assms(1-4) by (rule inv_parent)
  have z: "is_dir ?z = is_dir x" "is_reg ?z = is_reg x" by (simp_all add: is_dir_def is_reg_def)
  show "tree_ok ((flat xfs1)(n \<mapsto> ?z))"
  proof (rule tree_ok_put [OF tree1])
    show "p \<notin> insert n (below (flat xfs1) n)"
      using nG(2) may(4) below_prune_sub [OF tree tree1 [unfolded fl] assms(4)] unfolding fl by blast
    show "is_reg ?z \<longleftrightarrow> \<not> is_dir ?z" using tree_okD(6) [OF tree flat_Some [OF assms(2)]] z by simp
    show "is_dir ?z" if "kid (flat xfs1) n i" for i
      using kid_dir [OF tree1 that] n1 z by (simp add: dir_at_def)
    show "i = n" if nm: "named (flat xfs1) p (name ?z) i" for i
    proof (rule ccontr)
      assume "i \<noteq> n"
      obtain y where y: "flat xfs1 i = Some y" "parent y = Some p" "name y = nm" using nm by (auto simp: named_def)
      from y(1) show False unfolding fl
      proof (cases rule: prune_SomeE)
        case 1
        then have "named (flat xfs) p nm i" using y by (auto simp: named_def)
        with \<open>i \<noteq> n\<close> 1(1) show False by (auto simp: gone_def)
      next
        case (2 w)
        with y(2) may(2) show False by simp
      qed
    qed
  qed (use \<open>3 \<le> n\<close> dir1 may(1) in auto)
qed

lemma strip_inv:
  assumes "strip y = strip x"
  shows "parent y = parent x" "name y = name x" "is_dir y = is_dir x" "inum y = inum x"
  using arg_cong [OF assms, of parent] arg_cong [OF assms, of name] arg_cong [OF assms, of is_dir]
    arg_cong [OF assms, of inum] by simp_all

lemma rename_ok:
  assumes "lists_ok xfs" "inum_ok xfs" "free_ok xfs" "tbl xfs n = Some y"
    and "tree_ok ((flat xfs)(n \<mapsto> (strip y)\<lparr>name := nm\<rparr>))"
  shows "\<exists>xfs'. mod_ino n (\<lambda>x. x\<lparr>name := nm\<rparr>) xfs = Some xfs' \<and> xfs_base xfs' \<and>
     flat xfs' = (flat xfs)(n \<mapsto> (strip y)\<lparr>name := nm\<rparr>)"
proof -
  obtain xfs' where "mod_ino n (\<lambda>x. x\<lparr>name := nm\<rparr>) xfs = Some xfs'" "lists_ok xfs'" "inum_ok xfs'" "free_ok xfs'"
    "flat xfs' = (flat xfs)(n \<mapsto> strip (y\<lparr>name := nm\<rparr>))"
    using field_ok [OF assms(1-4), of "\<lambda>x. x\<lparr>name := nm\<rparr>"] by (auto simp: is_dir_def)
  with assms(5) show ?thesis by (simp add: xfs_base_def)
qed

lemma bind_assoc_case:
  "Option.bind (Option.bind m f) g = Option.bind m (\<lambda>x. Option.bind (f x) g)"
  by (cases m) simp_all

lemma gone_self: "gone a n p nm = {}" if "tree_ok a" "p \<noteq> DELETE_PENDING_ID" "named a p nm n"
  using that named_unique by (auto simp: gone_def)

lemma move_entry_step:
  assumes "xfs_base xfs" "tbl xfs n = Some x" "n \<noteq> FUSE_ROOT_ID" "n \<noteq> DELETE_PENDING_ID"
    and "may_move (flat xfs) n p nm" "safe_move (flat xfs) n p nm"
  shows "\<exists>xfs'. xfs_move_entry True xfs n p nm = Some (0, xfs') \<and> xfs_base xfs' \<and>
     flat xfs' = (prune (flat xfs) (gone (flat xfs) n p nm))(n \<mapsto> (strip x)\<lparr>parent := Some p, name := nm\<rparr>)"
proof -
  note tree = base_tree [OF assms(1)]
  let ?z = "(strip x)\<lparr>parent := Some p, name := nm\<rparr>"
  have check: "xfs_check_move_entry xfs n p nm = Some True"
    using check_move_step [OF tree assms(2)] assms(5) by simp
  have may: "p \<noteq> DELETE_PENDING_ID" "p \<noteq> n" using assms(5,6) by (auto simp: may_move_def safe_move_def)
  obtain px where px: "tbl xfs p = Some px" "is_dir px"
    using assms(5) by (auto simp: may_move_def dir_at_def elim!: flat_SomeE)
  have flx: "flat xfs n = Some (strip x)" using assms(2) by (rule flat_Some)
  show ?thesis
  proof (cases "parent x = Some p \<and> name x = nm")
    case True
    then have "gone (flat xfs) n p nm = {}" using gone_self [OF tree may(1)] flx by (simp add: named_def)
    moreover have "?z = strip x" using True by (intro inode_all.equality) simp_all
    ultimately show ?thesis using True check assms(1,2) flx by (auto simp: xfs_move_entry_def)
  next
    case False
    then have "\<not> named (flat xfs) p nm n" using flx by (simp add: named_def)
    then obtain xfs1 where x1: "do { dest \<leftarrow> xfs_lookup_in_dir xfs p nm;
        (case dest of None \<Rightarrow> Some xfs | Some t \<Rightarrow> xfs_remove_entry xfs t) } = Some xfs1"
      and rem: "removed (gone (flat xfs) n p nm) xfs xfs1"
      using drop_target [OF assms(1) px may(1)] by blast
    then obtain dest where dest: "xfs_lookup_in_dir xfs p nm = Some dest"
      "(case dest of None \<Rightarrow> Some xfs | Some t \<Rightarrow> xfs_remove_entry xfs t) = Some xfs1"
      by (cases "xfs_lookup_in_dir xfs p nm") auto
    note after = move_tree [OF assms rem]
    have base1: "xfs_base xfs1" and fl1: "flat xfs1 = prune (flat xfs) (gone (flat xfs) n p nm)"
      using rem by (simp_all add: removed_def)
    obtain y where y: "tbl xfs1 n = Some y" "strip x = strip y" using after(2) by (metis flat_SomeE)
    note sy = strip_inv [OF y(2) [symmetric]]
    show ?thesis
    proof (cases "parent x = Some p")
      case True
      have eq: "?z = (strip y)\<lparr>name := nm\<rparr>"
        using y(2) True by (simp add: sy(1) [symmetric] strip_def)
      obtain xfs2 where x2: "mod_ino n (\<lambda>x. x\<lparr>name := nm\<rparr>) xfs1 = Some xfs2" "xfs_base xfs2"
        "flat xfs2 = (flat xfs1)(n \<mapsto> (strip y)\<lparr>name := nm\<rparr>)"
        using rename_ok [OF _ _ _ y(1)] base1 after(1) unfolding eq xfs_base_def by blast
      have "xfs_move_entry True xfs n p nm = Some (0, xfs2)"
        using True False by (simp add: xfs_move_entry_def check assms(2) dest x2(1))
      with x2 eq fl1 show ?thesis by simp
    next
      case other: False
      obtain py where py: "tbl xfs1 p = Some py" "is_dir py" using after(3) by (auto simp: dir_at_def elim!: flat_SomeE)
      obtain xfs2 xfs3 where x3: "unlink_inode_from_parent n xfs1 = Some xfs2"
        "link_inode_into_directory_node p n xfs2 = Some xfs3" "lists_ok xfs3" "inum_ok xfs3" "free_ok xfs3"
        "flat xfs3 = (flat xfs1)(n \<mapsto> (strip y)\<lparr>parent := Some p\<rparr>)"
        using relink_ok [OF base1 y(1) assms(3,4) not_sym [OF may(2)] py] by blast
      have "flat xfs3 n = Some ((strip y)\<lparr>parent := Some p\<rparr>)" using x3(6) by simp
      then obtain w where w: "tbl xfs3 n = Some w" "strip w = (strip y)\<lparr>parent := Some p\<rparr>" by (metis flat_SomeE)
      have eq: "(flat xfs3)(n \<mapsto> (strip w)\<lparr>name := nm\<rparr>) = (flat xfs1)(n \<mapsto> ?z)"
        by (simp add: w(2) x3(6) y(2))
      then obtain xfs4 where x4: "mod_ino n (\<lambda>x. x\<lparr>name := nm\<rparr>) xfs3 = Some xfs4" "xfs_base xfs4"
        "flat xfs4 = (flat xfs1)(n \<mapsto> ?z)"
        using rename_ok [OF x3(3-5) w(1)] after(1) by metis
      have "xfs_move_entry True xfs n p nm = Some (0, xfs4)"
        using other by (simp add: xfs_move_entry_def check assms(2) dest x3(1,2) x4(1))
      with x4 fl1 show ?thesis by simp
    qed
  qed
qed

end
