(* ===== verification/XFS_Queries.thy ===== *)
theory XFS_Queries
  imports XFS_Ops
begin

text \<open>
  Enumerating a directory, paths, open counts, the removal of a device and creation.
\<close>

subsection \<open>Enumerating a directory\<close>

text \<open>What one call returns: the first child not below the offset, and the number of the next.\<close>

definition readdir_spec :: "nat list \<Rightarrow> nat \<Rightarrow> nat option \<times> int" where
  "readdir_spec cs k =
     (case filter (\<lambda>i. k \<le> i) cs of
        [] \<Rightarrow> (None, - 1)
      | [i] \<Rightarrow> (Some i, - 1)
      | i # j # _ \<Rightarrow> (Some i, int j))"

lemma ch_from: "filter (\<lambda>i. k \<le> i) (ch xfs d) = filter (child_of xfs d) [k..<inode_count xfs]"
proof (cases "k \<le> inode_count xfs")
  case True
  then have "[0..<inode_count xfs] = [0..<k] @ [k..<inode_count xfs]"
    using upt_add_eq_append [of 0 k "inode_count xfs - k"] by simp
  moreover have "filter (\<lambda>i. k \<le> i \<and> child_of xfs d i) [0..<k] = []" by (simp add: filter_empty_conv)
  moreover have "filter (\<lambda>i. k \<le> i \<and> child_of xfs d i) [k..<inode_count xfs] = filter (child_of xfs d) [k..<inode_count xfs]"
    by (rule filter_cong) auto
  ultimately show ?thesis unfolding ch_def filter_filter by (simp add: conj_commute)
next
  case False
  then show ?thesis by (auto simp: ch_def filter_empty_conv)
qed

lemma find_first: "List.find P xs = first_of (filter P xs) None"
  by (induction xs) auto

lemma sorted_from:
  "sorted xs \<Longrightarrow> xs = filter (\<lambda>i. i < k) xs @ filter (\<lambda>i. (k :: nat) \<le> i) xs"
proof (induction xs)
  case (Cons x xs)
  show ?case
  proof (cases "x < k")
    case True
    with Cons show ?thesis by simp
  next
    case False
    then have "filter (\<lambda>i. i < k) xs = []" using Cons.prems by (auto simp: filter_empty_conv)
    moreover have "filter (\<lambda>i. k \<le> i) xs = xs" using Cons.prems False by (auto simp: filter_id_conv)
    ultimately show ?thesis using False by simp
  qed
qed simp

definition start_of :: "xfs_fs \<Rightarrow> nat \<Rightarrow> inode_all \<Rightarrow> nat \<Rightarrow> nat option" where
  "start_of xfs d dx k =
     (if k = 0 then dir_begin dx else if child_of xfs d k then Some k
      else List.find (child_of xfs d) [k + 1..<inode_count xfs])"

lemma start_of_ok:
  assumes "dirlist (tbl xfs) d (ch xfs d)" "tbl xfs d = Some dx"
  shows "start_of xfs d dx k = first_of (filter (\<lambda>i. k \<le> i) (ch xfs d)) None"
proof (cases "k = 0")
  case True
  then show ?thesis using assms by (simp add: start_of_def dirlist_def)
next
  case False
  show ?thesis
  proof (cases "k < inode_count xfs")
    case True
    then have "[k..<inode_count xfs] = k # [k + 1..<inode_count xfs]" by (simp add: upt_conv_Cons)
    then show ?thesis unfolding ch_from using False by (simp add: start_of_def find_first)
  next
    case big: False
    then have "\<not> child_of xfs d k" using child_of_less by blast
    with False big show ?thesis unfolding ch_from by (simp add: start_of_def find_first)
  qed
qed

lemma readdir_start:
  assumes "tbl xfs (h_inum h) = Some dx" "is_dir dx" "h_generation h = generation dx" "k < 2 ^ 64"
  shows "xfs_readdir xfs h (int k) =
     (case start_of xfs (h_inum h) dx k of
        None \<Rightarrow> Some (None, - 1)
      | Some i \<Rightarrow>
          do { x \<leftarrow> tbl xfs i;
               (case next_i x of None \<Rightarrow> Some (Some i, - 1) | Some j \<Rightarrow> do { y \<leftarrow> tbl xfs j; Some (Some i, int (inum y)) }) })"
proof -
  have k: "nat (int k mod 2 ^ 64) = k" using assms(4)
    by (metis nat_int of_nat_mod of_nat_numeral of_nat_power mod_less)
  have zero: "int k = 0 \<longleftrightarrow> k = 0" and neg: "int k \<noteq> - 1" by simp_all
  show ?thesis
    unfolding xfs_readdir_def Let_def k zero assms(1) option.case start_of_def using assms(2,3) neg by simp
qed

lemma readdir_step:
  assumes "xfs_base xfs" "tbl xfs (h_inum h) = Some dx" "is_dir dx" "h_generation h = generation dx"
    and "k < 2 ^ 64"
  shows "xfs_readdir xfs h (int k) = Some (readdir_spec (ch xfs (h_inum h)) k)"
proof -
  let ?d = "h_inum h" let ?cs = "ch xfs (h_inum h)" let ?from = "filter (\<lambda>i. k \<le> i) (ch xfs (h_inum h))"
  have dl: "dirlist (tbl xfs) ?d ?cs" using assms(1-3) by (simp add: xfs_base_def lists_ok_def)
  note start = readdir_start [OF assms(2-5)] start_of_ok [OF dl assms(2), of k]
  show ?thesis
  proof (cases ?from)
    case Nil
    with start show ?thesis by (simp add: readdir_spec_def)
  next
    case (Cons i rest)
    have "sorted ?cs" by (rule ch_sorted)
    then have split: "?cs = filter (\<lambda>i. i < k) ?cs @ i # rest" using sorted_from [of ?cs k] Cons by simp
    have seg: "dllseg (tbl xfs) None ?cs None" using dl by (simp add: dirlist_def)
    have "\<exists>x. tbl xfs i = Some x \<and> next_i x = first_of rest None"
      using seg by (subst (asm) split) (auto simp: dllseg_append)
    then obtain x where x: "tbl xfs i = Some x" "next_i x = first_of rest None" by blast
    have run: "xfs_readdir xfs h (int k) =
        (case next_i x of None \<Rightarrow> Some (Some i, - 1) | Some j \<Rightarrow> do { y \<leftarrow> tbl xfs j; Some (Some i, int (inum y)) })"
      using start Cons x(1) by simp
    show ?thesis
    proof (cases rest)
      case Nil
      then show ?thesis using run x(2) Cons by (simp add: readdir_spec_def)
    next
      case (Cons j rest')
      have "j \<in> set ?cs" by (subst split) (simp add: Cons)
      then obtain y where y: "tbl xfs j = Some y" using dllseg_node [OF seg] by blast
      moreover have "inum y = j" using assms(1) y by (simp add: xfs_base_def inum_ok_def)
      ultimately show ?thesis using run x(2) \<open>?from = i # rest\<close> Cons by (simp add: readdir_spec_def)
    qed
  qed
qed

text \<open>A scan of a directory during which the file system changes: one call per state.\<close>

fun readdir_run :: "xfs_dir_handle \<Rightarrow> int \<Rightarrow> xfs_fs list \<Rightarrow> (nat list \<times> int) option" where
  "readdir_run h off [] = Some ([], off)"
| "readdir_run h off (xfs # rest) =
     do { r \<leftarrow> xfs_readdir xfs h off;
          (case fst r of
             None \<Rightarrow> Some ([], Product_Type.snd r)
           | Some i \<Rightarrow> do { r' \<leftarrow> readdir_run h (Product_Type.snd r) rest; Some (i # fst r', Product_Type.snd r') }) }"

definition open_on :: "xfs_dir_handle \<Rightarrow> xfs_fs \<Rightarrow> bool" where
  "open_on h xfs \<longleftrightarrow> xfs_base xfs \<and> inode_count xfs \<le> 2 ^ 64 \<and>
     (\<exists>dx. tbl xfs (h_inum h) = Some dx \<and> is_dir dx \<and> h_generation h = generation dx)"

lemma readdir_end: "xfs_readdir xfs h (- 1) = Some (None, - 1)"
  by (simp add: xfs_readdir_def split: option.splits)

lemma readdir_run_end: "readdir_run h (- 1) xss = Some ([], - 1)"
  by (cases xss) (simp_all add: readdir_end)

lemma readdir_spec_cases:
  assumes "sorted cs" "distinct cs"
  obtains "readdir_spec cs k = (None, - 1)" "\<forall>c \<in> set cs. c < k"
  | i where "readdir_spec cs k = (Some i, - 1)" "i \<in> set cs" "k \<le> i" "\<forall>c \<in> set cs. k \<le> c \<longrightarrow> c = i"
  | i j where "readdir_spec cs k = (Some i, int j)" "i \<in> set cs" "j \<in> set cs" "k \<le> i" "i < j"
      "\<forall>c \<in> set cs. k \<le> c \<longrightarrow> c = i \<or> j \<le> c"
proof (cases "filter (\<lambda>i. k \<le> i) cs")
  case Nil
  then have "\<forall>c \<in> set cs. c < k" by (auto simp: filter_empty_conv)
  with Nil show thesis using that(1) by (simp add: readdir_spec_def)
next
  case (Cons i rest)
  have mem: "set (i # rest) = {c \<in> set cs. k \<le> c}" using arg_cong [OF Cons, of set] by simp
  have ord: "sorted (i # rest)" "distinct (i # rest)"
    using assms sorted_filter [of id cs "\<lambda>i. k \<le> i"] distinct_filter [of cs "\<lambda>i. k \<le> i"] Cons by simp_all
  have memD: "c \<in> set (i # rest)" if "c \<in> set cs" "k \<le> c" for c unfolding mem using that by simp
  have memI: "c \<in> set cs \<and> k \<le> c" if "c \<in> set (i # rest)" for c using that unfolding mem by simp
  show thesis
  proof (cases rest)
    case Nil
    show thesis
    proof (rule that(2) [of i])
      show "readdir_spec cs k = (Some i, - 1)" using Cons Nil by (simp add: readdir_spec_def)
      show "i \<in> set cs" "k \<le> i" using memI [of i] by simp_all
      show "\<forall>c \<in> set cs. k \<le> c \<longrightarrow> c = i" using memD Nil by auto
    qed
  next
    case (Cons j rest')
    have "readdir_spec cs k = (Some i, int j)"
      using \<open>filter (\<lambda>i. k \<le> i) cs = i # rest\<close> Cons by (simp add: readdir_spec_def)
    moreover have "i < j" using ord Cons by auto
    moreover have "i \<in> set cs" "k \<le> i" "j \<in> set cs" using memI [of i] memI [of j] Cons by simp_all
    moreover have "c = i \<or> j \<le> c" if "c \<in> set cs" "k \<le> c" for c
      using memD [OF that] ord(1) Cons by auto
    ultimately show thesis using that(3) [of i j] by blast
  qed
qed

lemma readdir_run_ok:
  assumes "k < 2 ^ 64" "\<forall>xfs \<in> set xss. open_on h xfs"
  shows "\<exists>is off. readdir_run h (int k) xss = Some (is, off) \<and> sorted_wrt (<) is \<and> (\<forall>i \<in> set is. k \<le> i) \<and>
     (off = - 1 \<longrightarrow> (\<forall>c. k \<le> c \<and> (\<forall>xfs \<in> set xss. kid (flat xfs) (h_inum h) c) \<longrightarrow> c \<in> set is))"
  using assms
proof (induction xss arbitrary: k)
  case Nil
  then show ?case by simp
next
  case (Cons xfs rest)
  have on: "open_on h xfs" using Cons.prems by simp
  let ?cs = "ch xfs (h_inum h)"
  have step: "xfs_readdir xfs h (int k) = Some (readdir_spec ?cs k)"
    using on readdir_step [OF _ _ _ _ Cons.prems(1)] by (auto simp: open_on_def)
  have kids: "c \<in> set ?cs \<longleftrightarrow> kid (flat xfs) (h_inum h) c" for c by (simp add: ch_set)
  show ?case
  proof (rule readdir_spec_cases [OF ch_sorted, of xfs "h_inum h" k])
    assume none: "readdir_spec ?cs k = (None, - 1)" "\<forall>c \<in> set ?cs. c < k"
    then have "\<not> (k \<le> c \<and> kid (flat xfs) (h_inum h) c)" for c using kids [of c] by (meson not_le)
    with none(1) step show ?thesis by auto
  next
    fix i assume one: "readdir_spec ?cs k = (Some i, - 1)" "i \<in> set ?cs" "k \<le> i" "\<forall>c \<in> set ?cs. k \<le> c \<longrightarrow> c = i"
    then have "k \<le> c \<and> kid (flat xfs) (h_inum h) c \<Longrightarrow> c = i" for c using kids by blast
    then have "\<forall>c. k \<le> c \<and> (\<forall>xfs \<in> set (xfs # rest). kid (flat xfs) (h_inum h) c) \<longrightarrow> c \<in> set [i]" by auto
    moreover have "readdir_run h (int k) (xfs # rest) = Some ([i], - 1)" using one(1) step by (simp add: readdir_run_end)
    ultimately show ?thesis using one(3) by auto
  next
    fix i j assume two: "readdir_spec ?cs k = (Some i, int j)" "i \<in> set ?cs" "j \<in> set ?cs" "k \<le> i" "i < j"
      "\<forall>c \<in> set ?cs. k \<le> c \<longrightarrow> c = i \<or> j \<le> c"
    have "j < inode_count xfs" using two(3) child_of_less by (auto simp: ch_def)
    then have "j < 2 ^ 64" using on by (auto simp: open_on_def)
    then obtain ys off where r: "readdir_run h (int j) rest = Some (ys, off)" "sorted_wrt (<) ys" "\<forall>i \<in> set ys. j \<le> i"
      "off = - 1 \<longrightarrow> (\<forall>c. j \<le> c \<and> (\<forall>xfs \<in> set rest. kid (flat xfs) (h_inum h) c) \<longrightarrow> c \<in> set ys)"
      using Cons.IH [of j] Cons.prems(2) by auto
    have "readdir_run h (int k) (xfs # rest) = Some (i # ys, off)" using step two(1) r(1) by simp
    moreover have "sorted_wrt (<) (i # ys)" "\<forall>c \<in> set (i # ys). k \<le> c" using r(2,3) two(4,5) by fastforce+
    moreover have "c \<in> set (i # ys)"
      if "off = - 1" "k \<le> c" "\<forall>xfs \<in> set (xfs # rest). kid (flat xfs) (h_inum h) c" for c
    proof -
      have "c = i \<or> j \<le> c" using two(6) that(2,3) kids [of c] by simp
      with r(4) that show ?thesis by auto
    qed
    ultimately show ?thesis by blast
  qed
qed

subsection \<open>Paths\<close>

fun walk :: "xfs_fs \<Rightarrow> nat \<Rightarrow> byte list list \<Rightarrow> nat option option" where
  "walk xfs d [] = Some (Some d)"
| "walk xfs d (c # cs) =
     do { r \<leftarrow> xfs_lookup_in_dir xfs d c; (case r of None \<Rightarrow> Some None | Some e \<Rightarrow> walk xfs e cs) }"

lemma walk_append:
  "walk xfs d cs = Some (Some e) \<Longrightarrow> xfs_lookup_in_dir xfs e c = Some (Some i) \<Longrightarrow> walk xfs d (cs @ [c]) = Some (Some i)"
  by (induction cs arbitrary: d) (auto split: option.splits Option.bind_splits)

definition show_path :: "byte list list \<Rightarrow> byte list" where
  "show_path cs = concat (map (Cons 0x2f) cs)"

lemma kid_dirE:
  assumes "tree_ok (flat xfs)" "kid (flat xfs) d i"
  obtains dx where "tbl xfs d = Some dx" "is_dir dx"
proof -
  obtain y where "flat xfs d = Some y" "is_dir y" using kid_dir [OF assms] by (auto simp: dir_at_def)
  then show thesis using that by (auto elim!: flat_SomeE)
qed

lemma lookup_named:
  assumes "xfs_base xfs" "d \<noteq> DELETE_PENDING_ID" "named (flat xfs) d nm i"
  shows "xfs_lookup_in_dir xfs d nm = Some (Some i)"
proof -
  note tree = base_tree [OF assms(1)]
  have "kid (flat xfs) d i" using assms(3) by (auto simp: named_def kid_def)
  then obtain dx where "tbl xfs d = Some dx" "is_dir dx"
    by (rule kid_dirE [OF tree])
  then obtain r where r: "xfs_lookup_in_dir xfs d nm = Some r"
    "case r of None \<Rightarrow> \<forall>i. \<not> named (flat xfs) d nm i | Some i \<Rightarrow> named (flat xfs) d nm i"
    using lookup_step [OF assms(1)] by blast
  with assms(3) obtain j where "r = Some j" "named (flat xfs) d nm j" by (cases r) auto
  with r named_unique [OF tree assms(2,3)] show ?thesis by blast
qed

lemma path_loop_ok:
  assumes "xfs_base xfs" "tbl xfs i = Some x"
  shows "\<exists>cs. (\<forall>acc. path_loop xfs (Some i) acc = Some (show_path cs @ acc)) \<and>
     (i = FUSE_ROOT_ID \<or> i \<in> below (flat xfs) FUSE_ROOT_ID \<longrightarrow> walk xfs FUSE_ROOT_ID cs = Some (Some i)) \<and>
     (cs = [] \<longleftrightarrow> i = FUSE_ROOT_ID)"
proof -
  note tree = base_tree [OF assms(1)]
  obtain rank :: "nat \<Rightarrow> nat" where r: "\<And>i d. kid (flat xfs) d i \<Longrightarrow> rank d < rank i"
    using tree_okD(9) [OF tree] by (auto simp: ranked_def)
  show ?thesis using assms(2)
  proof (induction "rank i" arbitrary: i x rule: less_induct)
    case less
    have inum: "inum x = i" using assms(1) less.prems by (simp add: xfs_base_def inum_ok_def)
    show ?case
    proof (cases "i = FUSE_ROOT_ID")
      case True
      then have "path_loop xfs (Some i) acc = Some acc" for acc
        using inum less.prems by (subst path_loop.simps) simp
      with True show ?thesis by (intro exI [of _ "[]"]) (simp add: show_path_def)
    next
      case False
      have run: "path_loop xfs (Some i) acc = path_loop xfs (parent x) (0x2f # name x @ acc)" for acc
        using False inum less.prems by (subst path_loop.simps) simp
      show ?thesis
      proof (cases "parent x")
        case None
        have nobelow: "i \<notin> below (flat xfs) FUSE_ROOT_ID"
          using None flat_Some [OF less.prems] by (auto simp: below_def edges_def kid_def dest: tranclD)
        have "path_loop xfs None acc = Some acc" for acc by (subst path_loop.simps) simp
        with run None nobelow False show ?thesis by (intro exI [of _ "[name x]"]) (simp add: show_path_def)
      next
        case (Some d)
        have k: "kid (flat xfs) d i" using Some flat_Some [OF less.prems] by (simp add: kid_def)
        obtain dx where dx: "tbl xfs d = Some dx"
          by (rule kid_dirE [OF tree k])
        obtain cs where cs: "\<And>acc. path_loop xfs (Some d) acc = Some (show_path cs @ acc)"
          "d = FUSE_ROOT_ID \<or> d \<in> below (flat xfs) FUSE_ROOT_ID \<longrightarrow> walk xfs FUSE_ROOT_ID cs = Some (Some d)"
          using less.hyps [OF r [OF k] dx] by blast
        have "path_loop xfs (Some i) acc = Some (show_path (cs @ [name x]) @ acc)" for acc
          using run Some cs(1) by (simp add: show_path_def)
        moreover have "walk xfs FUSE_ROOT_ID (cs @ [name x]) = Some (Some i)" if b: "i \<in> below (flat xfs) FUSE_ROOT_ID"
        proof -
          obtain q where "(i, q) \<in> edges (flat xfs)" "(q, FUSE_ROOT_ID) \<in> (edges (flat xfs))\<^sup>*"
            using b by (auto simp: below_def dest: tranclD)
          moreover have "q = d" using calculation(1) k by (auto simp: edges_def kid_def)
          ultimately have under: "d = FUSE_ROOT_ID \<or> d \<in> below (flat xfs) FUSE_ROOT_ID"
            by (auto simp: below_def rtrancl_eq_or_trancl)
          then have "d \<noteq> DELETE_PENDING_ID" using pending_not_below [OF tree] by auto
          moreover have "named (flat xfs) d (name x) i" using Some flat_Some [OF less.prems] by (simp add: named_def)
          ultimately have "xfs_lookup_in_dir xfs d (name x) = Some (Some i)" by (rule lookup_named [OF assms(1)])
          with cs(2) under show ?thesis by (blast intro: walk_append)
        qed
        ultimately show ?thesis using False by (intro exI [of _ "cs @ [name x]"]) simp
      qed
    qed
  qed
qed

subsection \<open>Open counts\<close>

lemma own_parent:
  assumes "tree_ok a" "a n = Some x" "n \<noteq> FUSE_ROOT_ID" "n \<noteq> DELETE_PENDING_ID"
  obtains d where "parent x = Some d" "dir_at a d" "d \<notin> insert n (below a n)"
proof -
  obtain d where d: "parent x = Some d" "dir_at a d" using tree_okD(7) [OF assms] by blast
  then have "n \<in> below a d" using assms(2) by (auto simp: below_def edges_def kid_def)
  from below_rank [OF tree_okD(9) [OF assms(1)] this] that d show thesis by blast
qed

lemma reg_not_root:
  assumes "tree_ok a" "a n = Some x" "is_reg x"
  shows "n \<noteq> FUSE_ROOT_ID" "n \<noteq> DELETE_PENDING_ID" "n \<noteq> 0" "\<not> is_dir x" "below a n = {}"
proof -
  show dir: "\<not> is_dir x" using tree_okD(6) [OF assms(1,2)] assms(3) by simp
  show "n \<noteq> FUSE_ROOT_ID" "n \<noteq> DELETE_PENDING_ID"
    using tree_okD(2,3) [OF assms(1)] assms(2) dir by (auto simp: dir_at_def)
  show "n \<noteq> 0" using tree_okD(1) [OF assms(1)] assms(2) by (metis option.distinct(1))
  have "\<not> kid a n i" for i using kid_dir [OF assms(1), of n i] assms(2) dir by (auto simp: dir_at_def)
  then show "below a n = {}" by (rule below_empty)
qed

lemma tree_ok_count:
  assumes "tree_ok a" "a n = Some x" "is_reg x"
  shows "tree_ok (a(n \<mapsto> x\<lparr>open_count := c\<rparr>))"
proof -
  note n = reg_not_root [OF assms]
  obtain d where d: "parent x = Some d" "dir_at a d" "d \<notin> insert n (below a n)"
    using own_parent [OF assms(1,2) n(1,2)] .
  have same: "is_dir (x\<lparr>open_count := c\<rparr>) = is_dir x" "is_reg (x\<lparr>open_count := c\<rparr>) = is_reg x"
    by (simp_all add: is_dir_def is_reg_def)
  show ?thesis
  proof (rule tree_ok_put [OF assms(1) n(3,1,2) d(2,3)])
    show "is_reg (x\<lparr>open_count := c\<rparr>) \<longleftrightarrow> \<not> is_dir (x\<lparr>open_count := c\<rparr>)" using same n(4) assms(3) by simp
    show "length (name (x\<lparr>open_count := c\<rparr>)) \<le> XFS_MAXFILENAMELEN"
      using tree_okD(8) [OF assms(1)] assms(2) by (auto simp: names_ok_def)
    show "i = n" if "d \<noteq> DELETE_PENDING_ID" "named a d (name (x\<lparr>open_count := c\<rparr>)) i" for i
    proof -
      have "named a d (name x) n" using assms(2) d(1) by (simp add: named_def)
      with named_unique [OF assms(1) that(1)] that(2) show ?thesis by simp
    qed
    show "is_dir (x\<lparr>open_count := c\<rparr>)" if "kid a n i" for i
      using that n(5) by (auto simp: below_def edges_def)
  qed (simp add: d(1))
qed

lemma count_ok:
  assumes "xfs_base xfs" "tbl xfs n = Some x" "is_reg x"
  shows "xfs_base (set_tbl n (Some (x\<lparr>open_count := c\<rparr>)) xfs)"
    "flat (set_tbl n (Some (x\<lparr>open_count := c\<rparr>)) xfs) = (flat xfs)(n \<mapsto> (strip x)\<lparr>open_count := c\<rparr>)"
proof -
  have "lists_ok xfs" "inum_ok xfs" "free_ok xfs" using assms(1) by (simp_all add: xfs_base_def)
  note ok = field_ok [OF this assms(2), of "\<lambda>x. x\<lparr>open_count := c\<rparr>"]
  show fl: "flat (set_tbl n (Some (x\<lparr>open_count := c\<rparr>)) xfs) = (flat xfs)(n \<mapsto> (strip x)\<lparr>open_count := c\<rparr>)"
    using ok by (simp add: is_dir_def)
  have "tree_ok ((flat xfs)(n \<mapsto> (strip x)\<lparr>open_count := c\<rparr>))"
    using tree_ok_count [OF base_tree [OF assms(1)] flat_Some [OF assms(2)]] assms(3) by simp
  then show "xfs_base (set_tbl n (Some (x\<lparr>open_count := c\<rparr>)) xfs)"
    using ok fl by (simp add: is_dir_def xfs_base_def)
qed

lemma decrement_step:
  assumes "xfs_inv xfs" "tbl xfs n = Some x" "is_reg x"
  defines "c \<equiv> (if open_count x > 0 then open_count x - 1 else 0)"
  shows "\<exists>xfs'. xfs_decrement_file_open_count xfs n = Some xfs' \<and> xfs_inv xfs' \<and>
     flat xfs' = (flat xfs)(n := if c = 0 \<and> parent x = Some DELETE_PENDING_ID then None else Some ((strip x)\<lparr>open_count := c\<rparr>))"
proof -
  have base: "xfs_base xfs" and pend: "pend_ok (flat xfs)" using assms(1) by (simp_all add: xfs_inv_def)
  have xc: "(if open_count x > 0 then x\<lparr>open_count := open_count x - 1\<rparr> else x) = x\<lparr>open_count := c\<rparr>"
    by (auto simp: c_def word_gt_0)
  let ?x1 = "set_tbl n (Some (x\<lparr>open_count := c\<rparr>)) xfs"
  note ok = count_ok [OF base assms(2,3), of c]
  have run: "xfs_decrement_file_open_count xfs n =
      (if c = 0 \<and> parent x = Some DELETE_PENDING_ID then xfs_remove_entry ?x1 n else Some ?x1)"
    using assms(2,3) by (simp add: xfs_decrement_file_open_count_def Let_def xc)
  show ?thesis
  proof (cases "c = 0 \<and> parent x = Some DELETE_PENDING_ID")
    case False
    have "pend_ok (flat ?x1)" unfolding ok(2)
      using pend assms(2,3) False by (intro pend_ok_put) (auto simp: is_reg_def word_gt_0)
    then have "xfs_inv ?x1" using ok(1) by (simp add: xfs_inv_def)
    moreover have "xfs_decrement_file_open_count xfs n = Some ?x1" using run False by (simp only: if_False)
    ultimately show ?thesis using ok(2) False by (simp only: if_False) blast
  next
    case True
    have n1: "flat ?x1 n = Some ((strip x)\<lparr>open_count := c\<rparr>)" by (simp add: ok(2))
    have r1: "is_reg ((strip x)\<lparr>open_count := c\<rparr>)" using assms(3) by (simp add: is_reg_def strip_def)
    note n = reg_not_root [OF base_tree [OF ok(1)] n1 r1]
    obtain y where y: "tbl ?x1 n = Some y" using n1 by (metis flat_SomeE)
    obtain xfs' where x': "xfs_remove_entry ?x1 n = Some xfs'" "removed {n} ?x1 xfs'"
      using remove_entry_step [OF ok(1) y n(1,2)] n(5) by auto
    have fl: "flat xfs' = (flat xfs)(n := None)"
    proof -
      have "flat xfs' = prune ((flat xfs)(n \<mapsto> (strip x)\<lparr>open_count := c\<rparr>)) {n}"
        using x'(2) unfolding removed_def ok(2) by blast
      then show ?thesis using True by (auto simp: prune_def fun_eq_iff)
    qed
    have "pend_ok (flat xfs')" using pend unfolding fl by (auto simp: pend_ok_def)
    with x' run True fl show ?thesis by (auto simp: xfs_inv_def removed_def)
  qed
qed

lemma increment_step:
  assumes "xfs_inv xfs" "tbl xfs n = Some x" "is_reg x"
    and "parent x = Some DELETE_PENDING_ID \<longrightarrow> open_count x \<noteq> - 1"
  shows "xfs_inv (xfs_increment_file_open_count xfs n)"
    "flat (xfs_increment_file_open_count xfs n) = (flat xfs)(n \<mapsto> (strip x)\<lparr>open_count := open_count x + 1\<rparr>)"
proof -
  have base: "xfs_base xfs" and pend: "pend_ok (flat xfs)" using assms(1) by (simp_all add: xfs_inv_def)
  have run: "xfs_increment_file_open_count xfs n = set_tbl n (Some (x\<lparr>open_count := open_count x + 1\<rparr>)) xfs"
    using assms(2,3) by (simp add: xfs_increment_file_open_count_def)
  note ok = count_ok [OF base assms(2,3), of "open_count x + 1"]
  show fl: "flat (xfs_increment_file_open_count xfs n) = (flat xfs)(n \<mapsto> (strip x)\<lparr>open_count := open_count x + 1\<rparr>)"
    using ok(2) run by simp
  have "open_count x + 1 \<noteq> 0" if "parent x = Some DELETE_PENDING_ID"
    using assms(4) that by (metis add.commute add_eq_0_iff)
  then have "pend_ok ((flat xfs)(n \<mapsto> (strip x)\<lparr>open_count := open_count x + 1\<rparr>))"
    using assms(3) by (intro pend_ok_put [OF pend]) (auto simp: is_reg_def word_gt_0)
  then show "xfs_inv (xfs_increment_file_open_count xfs n)" using ok run by (simp add: xfs_inv_def)
qed

subsection \<open>Removing a device\<close>

definition zeroed :: "int \<Rightarrow> ftable \<Rightarrow> ftable" where
  "zeroed dev a = (\<lambda>i. map_option (\<lambda>x. if on_device dev x \<and> is_reg x then x\<lparr>open_count := 0\<rparr> else x) (a i))"

lemma on_device_simps [simp]: "on_device dev (strip x) = on_device dev x"
  "on_device dev (x\<lparr>parent := p\<rparr>) = on_device dev x" "on_device dev (x\<lparr>open_count := c\<rparr>) = on_device dev x"
  by (simp_all add: on_device_def)

lemma zero_counts_step:
  "xfs_base xfs \<Longrightarrow> xfs_base (zero_counts dev js xfs) \<and> inode_count (zero_counts dev js xfs) = inode_count xfs \<and>
     flat (zero_counts dev js xfs) = (\<lambda>i. if i \<in> set js then zeroed dev (flat xfs) i else flat xfs i)"
proof (induction js arbitrary: xfs)
  case Nil
  then show ?case by simp
next
  case (Cons j js)
  let ?x1 = "case tbl xfs j of None \<Rightarrow> xfs
     | Some x \<Rightarrow> if on_device dev x \<and> is_reg x then set_tbl j (Some (x\<lparr>open_count := 0\<rparr>)) xfs else xfs"
  have one: "xfs_base ?x1 \<and> inode_count ?x1 = inode_count xfs \<and> flat ?x1 = (flat xfs)(j := zeroed dev (flat xfs) j)"
  proof (cases "tbl xfs j")
    case None
    then show ?thesis using Cons.prems by (auto simp: zeroed_def flat_def fun_eq_iff)
  next
    case (Some x)
    have z: "zeroed dev (flat xfs) j =
        Some (if on_device dev x \<and> is_reg x then (strip x)\<lparr>open_count := 0\<rparr> else strip x)"
      using flat_Some [OF Some] by (simp add: zeroed_def)
    show ?thesis
    proof (cases "on_device dev x \<and> is_reg x")
      case True
      with count_ok [OF Cons.prems Some, of 0] Some z show ?thesis by simp
    next
      case False
      then have "zeroed dev (flat xfs) j = flat xfs j" using z flat_Some [OF Some] by auto
      then have "(flat xfs)(j := zeroed dev (flat xfs) j) = flat xfs" by simp
      moreover have "?x1 = xfs" using False Some by auto
      ultimately show ?thesis using Cons.prems by simp
    qed
  qed
  have idem: "zeroed dev ((flat xfs)(j := zeroed dev (flat xfs) j)) i = zeroed dev (flat xfs) i" for i
    by (cases "flat xfs i") (auto simp: zeroed_def is_reg_def)
  show ?case
  proof -
    define x1 where "x1 = ?x1"
    have x1: "xfs_base x1" "inode_count x1 = inode_count xfs" "flat x1 = (flat xfs)(j := zeroed dev (flat xfs) j)"
      using one by (simp_all only: x1_def)
    have fl: "flat (zero_counts dev js x1) = (\<lambda>i. if i \<in> set js then zeroed dev (flat x1) i else flat x1 i)"
      using Cons.IH [OF x1(1)] by blast
    have "(if i \<in> set js then zeroed dev (flat x1) i else flat x1 i) =
        (if i \<in> set (j # js) then zeroed dev (flat xfs) i else flat xfs i)" for i
      unfolding x1(3) idem by simp
    then have "flat (zero_counts dev js x1) = (\<lambda>i. if i \<in> set (j # js) then zeroed dev (flat xfs) i else flat xfs i)"
      unfolding fl by (rule ext)
    moreover have "zero_counts dev (j # js) xfs = zero_counts dev js x1" by (simp add: x1_def)
    ultimately show ?thesis using Cons.IH [OF x1(1)] x1(2) by simp
  qed
qed

definition on_dev_set :: "int \<Rightarrow> ftable \<Rightarrow> nat set \<Rightarrow> nat set" where
  "on_dev_set dev a J = {i. \<exists>t x. t \<in> J \<and> a t = Some x \<and> on_device dev x \<and> i \<in> insert t (below a t)}"

lemma on_dev_closed: "closed_below a (on_dev_set dev a J)"
  unfolding closed_below_def on_dev_set_def
proof (intro allI impI, elim conjE)
  fix i d assume k: "kid a d i" and "d \<in> {i. \<exists>t x. t \<in> J \<and> a t = Some x \<and> on_device dev x \<and> i \<in> insert t (below a t)}"
  then obtain t x where t: "t \<in> J" "a t = Some x" "on_device dev x" "d \<in> insert t (below a t)" by blast
  have "i \<in> insert t (below a t)" using closed_insert_below(1) [of a t] t(4) k by (auto simp: closed_below_def)
  with t show "i \<in> {i. \<exists>t x. t \<in> J \<and> a t = Some x \<and> on_device dev x \<and> i \<in> insert t (below a t)}" by blast
qed

lemma on_dev_insert:
  "on_dev_set dev a (insert i J) =
     on_dev_set dev a J \<union> (if \<exists>x. a i = Some x \<and> on_device dev x then insert i (below a i) else {})"
  by (auto simp: on_dev_set_def)

lemma closed_absorbs:
  assumes "closed_below a S" "i \<in> S"
  shows "insert i (below a i) \<subseteq> S"
proof
  fix j assume "j \<in> insert i (below a i)"
  then have "(j, i) \<in> (edges a)\<^sup>*" by (auto simp: below_def)
  then show "j \<in> S" using assms(2)
    by (induction rule: converse_rtrancl_induct) (use assms(1) in \<open>auto simp: closed_below_def edges_def\<close>)
qed

lemma below_pruned:
  assumes "tree_ok a" "tree_ok (prune a S)" "closed_below a S" "i \<noteq> DELETE_PENDING_ID"
  shows "S \<union> insert i (below (prune a S) i) = S \<union> insert i (below a i)"
  using below_prune_sub [OF assms(1,2,4)] below_prune_sup [OF assms(3)] by blast

definition roots_off :: "int \<Rightarrow> ftable \<Rightarrow> bool" where
  "roots_off dev a \<longleftrightarrow> (\<forall>r \<in> {FUSE_ROOT_ID, DELETE_PENDING_ID}. \<forall>x. a r = Some x \<longrightarrow> \<not> on_device dev x)"

lemma remove_device_round:
  assumes "tree_ok a" "xfs_base xfs" "flat xfs = prune a (on_dev_set dev a J)"
    and "roots_off dev a"
  shows "\<exists>xfs'. (case tbl xfs i of None \<Rightarrow> Some xfs
       | Some x \<Rightarrow> if on_device dev x then xfs_remove_entry xfs (inum x) else Some xfs) = Some xfs' \<and>
     xfs_base xfs' \<and> flat xfs' = prune a (on_dev_set dev a (insert i J)) \<and> inode_count xfs' = inode_count xfs"
proof -
  let ?U = "on_dev_set dev a J"
  note closed = on_dev_closed [of a dev J]
  have absorbed: "on_dev_set dev a (insert i J) = ?U \<union> (if i \<in> ?U then insert i (below a i) else {})"
    if "i \<notin> ?U \<longrightarrow> (\<forall>x. a i = Some x \<longrightarrow> \<not> on_device dev x)"
    using that closed_absorbs [OF closed, of i] unfolding on_dev_insert by auto
  have same: "on_dev_set dev a (insert i J) = ?U" if "i \<notin> ?U \<longrightarrow> (\<forall>x. a i = Some x \<longrightarrow> \<not> on_device dev x)"
    using absorbed [OF that] closed_absorbs [OF closed, of i] by auto
  show ?thesis
  proof (cases "\<exists>x. tbl xfs i = Some x \<and> on_device dev x")
    case False
    have "i \<notin> ?U \<longrightarrow> (\<forall>x. a i = Some x \<longrightarrow> \<not> on_device dev x)"
    proof (intro impI allI notI)
      fix x assume "i \<notin> ?U" "a i = Some x" "on_device dev x"
      then have "flat xfs i = Some x" by (simp add: assms(3) prune_def)
      with \<open>on_device dev x\<close> False show False by (auto elim!: flat_SomeE)
    qed
    from same [OF this] False assms(2,3) show ?thesis by (auto split: option.splits)
  next
    case True
    then obtain x where x: "tbl xfs i = Some x" "on_device dev x" by blast
    have inum: "inum x = i" using assms(2) x(1) by (simp add: xfs_base_def inum_ok_def)
    have "flat xfs i = Some (strip x)" using x(1) by (rule flat_Some)
    then have "prune a ?U i = Some (strip x)" by (simp add: assms(3))
    then obtain y where y: "a i = Some y" "on_device dev y"
      using x(2) by (cases rule: prune_SomeE) (use on_device_simps in \<open>metis\<close>)+
    then have i: "i \<noteq> FUSE_ROOT_ID" "i \<noteq> DELETE_PENDING_ID" using assms(4) by (auto simp: roots_off_def)
    obtain xfs' where x': "xfs_remove_entry xfs i = Some xfs'" "removed (insert i (below (flat xfs) i)) xfs xfs'"
      using remove_entry_step [OF assms(2) x(1) i] by blast
    have "tree_ok (prune a ?U)" using base_tree [OF assms(2)] by (simp add: assms(3))
    note bp = below_pruned [OF assms(1) this closed i(2)]
    have "flat xfs' = prune a (?U \<union> insert i (below (prune a ?U) i))"
      using x'(2) unfolding removed_def assms(3) prune_prune by blast
    also have "\<dots> = prune a (on_dev_set dev a (insert i J))"
      unfolding bp on_dev_insert using y by auto
    finally show ?thesis using x x' inum by (auto simp: removed_def)
  qed
qed

lemma remove_device_step:
  assumes "tree_ok a" "xfs_base xfs" "flat xfs = prune a (on_dev_set dev a J)"
    and "roots_off dev a"
  shows "\<exists>xfs'. remove_device dev js xfs = Some xfs' \<and> xfs_base xfs' \<and>
     flat xfs' = prune a (on_dev_set dev a (J \<union> set js)) \<and> inode_count xfs' = inode_count xfs"
  using assms(2,3)
proof (induction js arbitrary: xfs J)
  case Nil
  then show ?case by simp
next
  case (Cons i js)
  obtain xfs1 where x1: "(case tbl xfs i of None \<Rightarrow> Some xfs
       | Some x \<Rightarrow> if on_device dev x then xfs_remove_entry xfs (inum x) else Some xfs) = Some xfs1"
    "xfs_base xfs1" "flat xfs1 = prune a (on_dev_set dev a (insert i J))" "inode_count xfs1 = inode_count xfs"
    using remove_device_round [OF assms(1) Cons.prems(1,2) assms(4)] by blast
  obtain xfs' where "remove_device dev js xfs1 = Some xfs'" "xfs_base xfs'"
    "flat xfs' = prune a (on_dev_set dev a (insert i J \<union> set js))" "inode_count xfs' = inode_count xfs1"
    using Cons.IH [OF x1(2,3)] by blast
  with x1 show ?case by simp
qed

text \<open>The two loops together.\<close>

lemma delete_device_step:
  fixes dev :: int
  assumes "xfs_inv xfs"
    and "\<And>r x. r \<in> {FUSE_ROOT_ID, DELETE_PENDING_ID} \<Longrightarrow> tbl xfs r = Some x \<Longrightarrow> is_redirected x = 0"
  defines "a \<equiv> zeroed dev (flat xfs)"
  shows "\<exists>xfs'. xfs_delete_redirected_entries_with_device_id xfs dev = Some xfs' \<and> xfs_inv xfs' \<and>
     flat xfs' = prune a (on_dev_set dev a UNIV)"
proof -
  let ?js = "[FUSE_ROOT_ID..<inode_count xfs]" let ?x0 = "zero_counts dev ?js xfs"
  have base: "xfs_base xfs" and pend: "pend_ok (flat xfs)" using assms(1) by (simp_all add: xfs_inv_def)
  have none: "flat xfs i = None" if "i \<notin> set ?js" for i
  proof (cases "i = 0")
    case True
    then show ?thesis using tree_okD(1) [OF base_tree [OF base]] by simp
  next
    case False
    with that show ?thesis by (auto simp: flat_def tbl_def)
  qed
  have "(if i \<in> set ?js then zeroed dev (flat xfs) i else flat xfs i) = a i" for i
    using none [of i] by (auto simp: a_def zeroed_def)
  then have x0: "xfs_base ?x0" "inode_count ?x0 = inode_count xfs" "flat ?x0 = a"
    using zero_counts_step [OF base, of dev ?js] by auto
  have dev: "a i = Some y \<Longrightarrow> \<exists>x. tbl xfs i = Some x \<and> on_device dev y = on_device dev x" for i y
    by (auto simp: a_def zeroed_def flat_def)
  have roots: "roots_off dev a" unfolding roots_off_def
  proof (intro ballI allI impI)
    fix r x assume r: "r \<in> {FUSE_ROOT_ID, DELETE_PENDING_ID}" "a r = Some x"
    show "\<not> on_device dev x" using dev [OF r(2)] assms(2) [OF r(1)] by (auto simp: on_device_def)
  qed
  have "on_dev_set dev a {} = {}" by (simp add: on_dev_set_def)
  then have start: "flat ?x0 = prune a (on_dev_set dev a {})" using x0(3) by simp
  obtain xfs' where x': "remove_device dev ?js ?x0 = Some xfs'" "xfs_base xfs'"
    "flat xfs' = prune a (on_dev_set dev a ({} \<union> set ?js))"
    using remove_device_step [OF base_tree [OF x0(1), unfolded x0(3)] x0(1) start roots] by blast
  have all: "on_dev_set dev a ({} \<union> set ?js) = on_dev_set dev a UNIV"
  proof -
    have "t \<in> set ?js" if "a t = Some x" for t x
      using that none [of t] by (cases "t \<in> set ?js") (auto simp: a_def zeroed_def)
    then show ?thesis unfolding on_dev_set_def by blast
  qed
  have "pend_ok (flat xfs')"
    unfolding x'(3) all
  proof (rule pend_ok_prune)
    fix i y assume i: "i \<notin> on_dev_set dev a UNIV" "a i = Some y" "parent y = Some DELETE_PENDING_ID"
    have "\<not> on_device dev y"
    proof
      assume "on_device dev y"
      with i(2) have "i \<in> on_dev_set dev a UNIV" unfolding on_dev_set_def by blast
      with i(1) show False ..
    qed
    obtain x where x: "flat xfs i = Some x" "y = (if on_device dev x \<and> is_reg x then x\<lparr>open_count := 0\<rparr> else x)"
      using i(2) by (auto simp: a_def zeroed_def)
    have "\<not> (on_device dev x \<and> is_reg x)"
    proof
      assume "on_device dev x \<and> is_reg x"
      with x(2) have "on_device dev y" by simp
      with \<open>\<not> on_device dev y\<close> show False ..
    qed
    then have "y = x" using x(2) by (simp only: if_False)
    with x(1) i(3) pend show "is_reg y \<and> open_count y > 0" unfolding pend_ok_def by blast
  qed
  with x' all show ?thesis
    by (auto simp: xfs_delete_redirected_entries_with_device_id_def x0(2) xfs_inv_def)
qed

subsection \<open>Creation\<close>

lemma special_dir_simps [simp]:
  "inum (special_dir n nm um u g now) = n" "name (special_dir n nm um u g now) = nm"
  "parent (special_dir n nm um u g now) = None" "strip (special_dir n nm um u g now) = special_dir n nm um u g now"
  "dir_begin (special_dir n nm um u g now) = None" "dir_end (special_dir n nm um u g now) = None"
  "is_redirected (special_dir n nm um u g now) = 0" "\<not> is_reg (special_dir n nm um u g now)"
  by (simp_all add: special_dir_def new_inode_def strip_def is_reg_def and_bit15 bit_simps)

lemma special_dir_dir: "um AND S_IFDIR = 0 \<Longrightarrow> is_dir (special_dir n nm um u g now)"
  by (simp add: special_dir_def is_dir_def and_bit14 bit_simps)

lemma create_step:
  assumes "um AND S_IFDIR = 0" "m_table m \<and> m_free m \<and> m_inode m \<and> m_name m"
  shows "\<exists>xfs. xfs_create_xfs_fs True m um u g now = Some xfs \<and> xfs_inv xfs \<and> inode_count xfs = 4096 \<and>
     dom (flat xfs) = {FUSE_ROOT_ID, DELETE_PENDING_ID} \<and> (\<forall>i x. flat xfs i = Some x \<longrightarrow> is_redirected x = 0)"
proof -
  let ?root = "special_dir FUSE_ROOT_ID [46] um u g now"
  let ?dp = "special_dir DELETE_PENDING_ID [46, 100, 101, 108, 101, 116, 101, 45, 112, 101, 110, 100, 105, 110, 103] um u g now"
  obtain k where k: "(4096 :: nat) = k" by simp
  then have k3: "3 \<le> k" by simp
  define xfs where "xfs = \<lparr>inode_table = ((replicate k None)[0 := None, FUSE_ROOT_ID := Some ?root])[DELETE_PENDING_ID := Some ?dp],
    free_list = rev [3..<k], fs_generation = 1\<rparr>"
  have take3: "take (k - 3) (rev [0..<k]) = rev [3..<k]" using k3 by (simp add: take_rev)
  have "grow_xfs m \<lparr>inode_table = [], free_list = [], fs_generation = 1\<rparr> k =
      (True, \<lparr>inode_table = replicate k None, free_list = rev [0..<k], fs_generation = 1\<rparr>)"
    using assms(2) by (simp add: grow_xfs_def)
  then have "xfs_create_xfs_fs True m um u g now = Some xfs"
    using assms(2) take3 k3 unfolding xfs_create_xfs_fs_def k by (simp add: set_tbl_def xfs_def)
  moreover have count: "inode_count xfs = k" by (simp add: xfs_def)
  have t: "tbl xfs i = (if i = FUSE_ROOT_ID then Some ?root else if i = DELETE_PENDING_ID then Some ?dp else None)" for i
    using k3 by (simp add: tbl_def xfs_def nth_list_update)
  have fl: "flat xfs i = (if i = FUSE_ROOT_ID then Some ?root else if i = DELETE_PENDING_ID then Some ?dp else None)" for i
    by (simp add: flat_def t)
  have nokid: "\<not> kid (flat xfs) d i" for d i by (simp add: kid_def fl)
  then have "ch xfs d = []" for d by (simp add: ch_flat)
  then have "lists_ok xfs" by (auto simp: lists_ok_def dirlist_def t split: if_splits)
  moreover have "inum_ok xfs" by (auto simp: inum_ok_def t split: if_splits)
  moreover have "free_ok xfs"
  proof -
    have "free_list xfs = rev [3..<k]" by (simp add: xfs_def)
    then show ?thesis unfolding free_ok_def count t by auto
  qed
  moreover have "tree_ok (flat xfs)"
  proof (rule tree_okI)
    show "names_ok (flat xfs)" by (auto simp: names_ok_def fl split: if_splits)
    show "ranked (flat xfs)" using nokid by (simp add: ranked_def)
  qed (use special_dir_dir [OF assms(1)] in \<open>auto simp: fl split: if_splits\<close>)
  moreover have "pend_ok (flat xfs)" by (auto simp: pend_ok_def fl split: if_splits)
  moreover have "dom (flat xfs) = {FUSE_ROOT_ID, DELETE_PENDING_ID}" by (auto simp: dom_def fl split: if_splits)
  moreover have "\<forall>i x. flat xfs i = Some x \<longrightarrow> is_redirected x = 0" by (auto simp: fl split: if_splits)
  ultimately show ?thesis using count unfolding k xfs_inv_def xfs_base_def by blast
qed

end
