(* ===== verification/XFS_Theorems.thy ===== *)
theory XFS_Theorems
  imports XFS_Queries
begin

text \<open>
  The properties of the in-memory file system. Every state reachable through its operations
  satisfies the invariant; in such a state each operation returns, never follows a stale
  pointer, and does to the flat table what its interface says.
\<close>

subsection \<open>Reachable states\<close>

definition roots_plain :: "ftable \<Rightarrow> bool" where
  "roots_plain a \<longleftrightarrow> (\<forall>r \<in> {FUSE_ROOT_ID, DELETE_PENDING_ID}. \<forall>x. a r = Some x \<longrightarrow> is_redirected x = 0)"

definition good :: "xfs_fs \<Rightarrow> bool" where
  "good xfs \<longleftrightarrow> xfs_inv xfs \<and> roots_plain (flat xfs)"

text \<open>
  One call of the interface. Not covered are calls on the two special directories where the
  code has no check, a move into the inode itself or onto a name whose removal takes the inode
  with it (\<^const>\<open>safe_move\<close> excludes both), and an open count that wraps around.
\<close>

inductive xfs_step :: "xfs_fs \<Rightarrow> xfs_fs \<Rightarrow> bool" where
  add: "xfs_add_entry m now xfs p nm md = Some (r, xfs') \<Longrightarrow> xfs_step xfs xfs'"
| remove: "n \<noteq> FUSE_ROOT_ID \<Longrightarrow> n \<noteq> DELETE_PENDING_ID \<Longrightarrow> xfs_remove_entry xfs n = Some xfs' \<Longrightarrow> xfs_step xfs xfs'"
| contents: "n \<noteq> DELETE_PENDING_ID \<Longrightarrow> xfs_remove_directory_contents xfs n = Some xfs' \<Longrightarrow> xfs_step xfs xfs'"
| increment: "(\<And>x. tbl xfs n = Some x \<Longrightarrow> open_count x \<noteq> - 1) \<Longrightarrow> xfs_step xfs (xfs_increment_file_open_count xfs n)"
| decrement: "xfs_decrement_file_open_count xfs n = Some xfs' \<Longrightarrow> xfs_step xfs xfs'"
| device: "xfs_delete_redirected_entries_with_device_id xfs dev = Some xfs' \<Longrightarrow> xfs_step xfs xfs'"
| move: "n \<noteq> FUSE_ROOT_ID \<Longrightarrow> n \<noteq> DELETE_PENDING_ID \<Longrightarrow> safe_move (flat xfs) n p nm \<Longrightarrow>
     xfs_move_entry ok xfs n p nm = Some (rc, xfs') \<Longrightarrow> xfs_step xfs xfs'"

inductive_cases xfs_stepE: "xfs_step xfs xfs'"

inductive xfs_reach :: "xfs_fs \<Rightarrow> bool" where
  create: "um AND S_IFDIR = 0 \<Longrightarrow> xfs_create_xfs_fs ok m um u g now = Some xfs \<Longrightarrow> xfs_reach xfs"
| step: "xfs_reach xfs \<Longrightarrow> xfs_step xfs xfs' \<Longrightarrow> xfs_reach xfs'"

lemma roots_plain_eq:
  "roots_plain a \<Longrightarrow> b FUSE_ROOT_ID = a FUSE_ROOT_ID \<Longrightarrow> b DELETE_PENDING_ID = a DELETE_PENDING_ID \<Longrightarrow> roots_plain b"
  by (simp add: roots_plain_def)

lemma roots_plain_prune:
  "roots_plain a \<Longrightarrow> FUSE_ROOT_ID \<notin> S \<Longrightarrow> DELETE_PENDING_ID \<notin> S \<Longrightarrow> roots_plain (prune a S)"
  by (rule roots_plain_eq) (simp_all add: prune_def)

lemma roots_plain_upd:
  "roots_plain a \<Longrightarrow> n \<noteq> FUSE_ROOT_ID \<Longrightarrow> n \<noteq> DELETE_PENDING_ID \<Longrightarrow> roots_plain (a(n := z))"
  by (rule roots_plain_eq) simp_all

lemma removed_good:
  assumes "good xfs" "removed S xfs xfs'" "FUSE_ROOT_ID \<notin> S" "DELETE_PENDING_ID \<notin> S"
  shows "good xfs'"
  using assms removed_inv [of xfs S xfs'] roots_plain_prune [of "flat xfs" S] by (simp add: good_def removed_def)

lemma good_tree: "good xfs \<Longrightarrow> tree_ok (flat xfs)"
  by (simp add: good_def xfs_inv_def xfs_base_def)

lemma good_base: "good xfs \<Longrightarrow> xfs_base xfs"
  by (simp add: good_def xfs_inv_def)

lemma step_good_add:
  assumes "good xfs" "xfs_add_entry m now xfs p nm md = Some (r, xfs')"
  shows "good xfs'"
proof -
  have res: "xfs_base xfs'" "add_result now xfs p nm md r xfs'"
    using add_entry_step [OF good_base [OF assms(1)], of m now p nm md] assms(2) by auto
  then have "xfs_inv xfs'" using add_entry_pend [OF res(2)] assms(1) by (simp add: good_def xfs_inv_def)
  moreover have "roots_plain (flat xfs')"
  proof (cases r)
    case None
    then show ?thesis using res(2) assms(1) by (simp add: add_result_def good_def)
  next
    case (Some n)
    then obtain z where z: "3 \<le> n" "flat xfs' = (flat xfs)(n \<mapsto> z)"
      using res(2) by (auto simp: add_result_def)
    show ?thesis unfolding z(2)
      by (rule roots_plain_upd) (use assms(1) z(1) in \<open>simp_all add: good_def\<close>)
  qed
  ultimately show ?thesis by (simp add: good_def)
qed

lemma step_good_remove:
  assumes "good xfs" "n \<noteq> FUSE_ROOT_ID" "n \<noteq> DELETE_PENDING_ID" "xfs_remove_entry xfs n = Some xfs'"
  shows "good xfs'"
proof (cases "tbl xfs n")
  case None
  then have "xfs_remove_entry xfs n = Some xfs" by (simp add: xfs_remove_entry_def xfs_fuel_def)
  with assms show ?thesis by simp
next
  case (Some x)
  note tree = good_tree [OF assms(1)]
  have "removed (insert n (below (flat xfs) n)) xfs xfs'"
    using remove_entry_step [OF good_base [OF assms(1)] Some assms(2,3)] assms(4) by auto
  then show ?thesis
    by (rule removed_good [OF assms(1)])
      (use assms(2,3) root_not_below [OF tree, of n] pending_not_below [OF tree, of n] in simp_all)
qed

lemma step_good_contents:
  assumes "good xfs" "n \<noteq> DELETE_PENDING_ID" "xfs_remove_directory_contents xfs n = Some xfs'"
  shows "good xfs'"
proof (cases "\<exists>x. tbl xfs n = Some x \<and> is_dir x")
  case False
  then have "xfs_remove_directory_contents xfs n = Some xfs"
    by (auto simp: xfs_remove_directory_contents_def split: option.splits)
  with assms show ?thesis by simp
next
  case True
  note tree = good_tree [OF assms(1)]
  from True have "removed (below (flat xfs) n) xfs xfs'"
    using remove_contents_step [OF good_base [OF assms(1)] _ _ assms(2)] assms(3) by auto
  then show ?thesis
    by (rule removed_good [OF assms(1)])
      (use root_not_below [OF tree, of n] pending_not_below [OF tree, of n] in simp_all)
qed

lemma step_good_count:
  assumes "good xfs" "tbl xfs n = Some x" "is_reg x" "flat xfs' = (flat xfs)(n := z)" "xfs_inv xfs'"
  shows "good xfs'"
proof -
  have r: "is_reg (strip x)" using assms(3) by simp
  have "roots_plain (flat xfs)" using assms(1) by (simp add: good_def)
  then have "roots_plain (flat xfs')" unfolding assms(4)
    by (rule roots_plain_upd) (use reg_not_root [OF good_tree [OF assms(1)] flat_Some [OF assms(2)] r] in simp_all)
  with assms(5) show ?thesis by (simp add: good_def)
qed

lemma step_good_move:
  assumes "good xfs" "n \<noteq> FUSE_ROOT_ID" "n \<noteq> DELETE_PENDING_ID" "safe_move (flat xfs) n p nm"
    and "xfs_move_entry ok xfs n p nm = Some (rc, xfs')"
  shows "good xfs'"
proof (cases "ok \<and> may_move (flat xfs) n p nm \<and> tbl xfs n \<noteq> None")
  case False
  have "xfs_move_entry ok xfs n p nm = Some (if ok then 22 else 12, xfs)"
  proof (cases "tbl xfs n")
    case None
    then show ?thesis by (simp add: xfs_move_entry_def xfs_check_move_entry_def)
  next
    case (Some x)
    then show ?thesis using False check_move_step [OF good_tree [OF assms(1)] Some, of p nm]
      by (simp add: xfs_move_entry_def)
  qed
  with assms(1,5) show ?thesis by simp
next
  case True
  then obtain x where x: "tbl xfs n = Some x" by auto
  note tree = good_tree [OF assms(1)]
  let ?z = "(strip x)\<lparr>parent := Some p, name := nm\<rparr>" let ?G = "gone (flat xfs) n p nm"
  from True have may: "may_move (flat xfs) n p nm" by simp
  have x': "xfs_base xfs'" "flat xfs' = (prune (flat xfs) ?G)(n \<mapsto> ?z)"
    using move_entry_step [OF good_base [OF assms(1)] x assms(2,3) may assms(4)] assms(5) True by auto
  have pend: "pend_ok (flat xfs)" using assms(1) by (simp add: good_def xfs_inv_def)
  have "pend_ok (prune (flat xfs) ?G)"
    by (rule pend_ok_prune) (use pend in \<open>auto simp: pend_ok_def\<close>)
  then have "pend_ok (flat xfs')" unfolding x'(2)
    by (rule pend_ok_put) (use may in \<open>simp add: may_move_def\<close>)
  moreover have "FUSE_ROOT_ID \<notin> ?G" "DELETE_PENDING_ID \<notin> ?G"
    using tree_okD(4,5) [OF tree] root_not_below [OF tree] pending_not_below [OF tree]
    by (auto simp: gone_def named_def kid_def)
  then have "roots_plain (prune (flat xfs) ?G)"
    using assms(1) roots_plain_prune by (simp add: good_def)
  then have "roots_plain (flat xfs')" unfolding x'(2) using assms(2,3) by (rule roots_plain_upd)
  ultimately show ?thesis using x'(1) by (simp add: good_def xfs_inv_def)
qed

lemma step_good_increment:
  assumes "good xfs" "\<And>x. tbl xfs n = Some x \<Longrightarrow> open_count x \<noteq> - 1"
  shows "good (xfs_increment_file_open_count xfs n)"
proof (cases "\<exists>x. tbl xfs n = Some x \<and> is_reg x")
  case False
  then have "xfs_increment_file_open_count xfs n = xfs"
    by (auto simp: xfs_increment_file_open_count_def split: option.splits)
  with assms(1) show ?thesis by simp
next
  case True
  then obtain x where x: "tbl xfs n = Some x" "is_reg x" by blast
  have inv: "xfs_inv xfs" using assms(1) by (simp add: good_def)
  have "parent x = Some DELETE_PENDING_ID \<longrightarrow> open_count x \<noteq> - 1" using assms(2) [OF x(1)] by simp
  note inc = increment_step [OF inv x this]
  show ?thesis using assms(1) x inc(2,1) by (rule step_good_count)
qed

lemma step_good_decrement:
  assumes "good xfs" "xfs_decrement_file_open_count xfs n = Some xfs'"
  shows "good xfs'"
proof (cases "\<exists>x. tbl xfs n = Some x \<and> is_reg x")
  case False
  then have "xfs_decrement_file_open_count xfs n = Some xfs"
    by (auto simp: xfs_decrement_file_open_count_def split: option.splits)
  with assms show ?thesis by simp
next
  case True
  then obtain x where x: "tbl xfs n = Some x" "is_reg x" by blast
  have inv: "xfs_inv xfs" using assms(1) by (simp add: good_def)
  from decrement_step [OF inv x] assms(2) obtain z where
    "xfs_inv xfs'" "flat xfs' = (flat xfs)(n := z)" by auto
  with step_good_count [OF assms(1) x] show ?thesis by blast
qed

lemma step_good_device:
  assumes "good xfs" "xfs_delete_redirected_entries_with_device_id xfs dev = Some xfs'"
  shows "good xfs'"
proof -
  have inv: "xfs_inv xfs" and plain: "roots_plain (flat xfs)" using assms(1) by (simp_all add: good_def)
  have off: "is_redirected x = 0" if "r \<in> {FUSE_ROOT_ID, DELETE_PENDING_ID}" "tbl xfs r = Some x" for r x
  proof -
    have "is_redirected (strip x) = 0" using plain that(1) flat_Some [OF that(2)] unfolding roots_plain_def by blast
    then show ?thesis by simp
  qed
  let ?a = "zeroed dev (flat xfs)" let ?U = "on_dev_set dev ?a UNIV"
  have x': "xfs_inv xfs'" "flat xfs' = prune ?a ?U"
    using delete_device_step [OF inv off, where dev = dev] assms(2) by auto
  note tree = good_tree [OF assms(1)]
  have plain_a: "roots_plain ?a" unfolding roots_plain_def
  proof (intro ballI allI impI)
    fix r x assume r: "r \<in> {FUSE_ROOT_ID, DELETE_PENDING_ID}" "?a r = Some x"
    then obtain y where y: "flat xfs r = Some y" "is_redirected x = is_redirected y" by (auto simp: zeroed_def)
    with plain r(1) show "is_redirected x = 0" unfolding roots_plain_def by auto
  qed
  have "r \<notin> ?U" if r: "r \<in> {FUSE_ROOT_ID, DELETE_PENDING_ID}" for r
  proof
    assume "r \<in> ?U"
    then obtain t x where t: "?a t = Some x" "on_device dev x" "r \<in> insert t (below ?a t)" by (auto simp: on_dev_set_def)
    have "\<not> kid (flat xfs) d r" for d using tree_okD(4,5) [OF tree] r by auto
    then have "\<not> kid ?a d r" for d by (auto simp: kid_def zeroed_def split: if_splits)
    then have "r \<notin> below ?a t" by (auto simp: below_def edges_def dest: tranclD)
    with t(3) have "r = t" by simp
    with t(1) r plain_a have "is_redirected x = 0" unfolding roots_plain_def by blast
    with t(2) show False by (simp add: on_device_def)
  qed
  then have "roots_plain (flat xfs')" unfolding x'(2) by (intro roots_plain_prune plain_a) simp_all
  with x'(1) show ?thesis by (simp add: good_def)
qed

lemma step_good:
  assumes "xfs_step xfs xfs'" "good xfs"
  shows "good xfs'"
  using assms(1)
proof (rule xfs_stepE, goal_cases add remove contents increment decrement device move)
  case add then show ?case by (intro step_good_add [OF assms(2)])
next
  case (remove n) then show ?case using step_good_remove [OF assms(2), of n] by simp
next
  case contents then show ?case by (intro step_good_contents [OF assms(2)])
next
  case (increment n) then show ?case using step_good_increment [OF assms(2), of n] by simp
next
  case decrement then show ?case by (intro step_good_decrement [OF assms(2)])
next
  case device then show ?case by (intro step_good_device [OF assms(2)])
next
  case (move n p nm ok rc) then show ?case using step_good_move [OF assms(2), of n p nm ok rc] by simp
qed

lemma create_good:
  assumes "um AND S_IFDIR = 0" "xfs_create_xfs_fs ok m um u g now = Some xfs"
  shows "good xfs"
proof -
  have "ok" "m_table m \<and> m_free m \<and> m_inode m \<and> m_name m"
    using assms(2) by (auto simp: xfs_create_xfs_fs_def grow_xfs_def Let_def split: if_splits)
  with create_step [OF assms(1), of m u g now] assms(2)
  have "xfs_inv xfs" "\<forall>i x. flat xfs i = Some x \<longrightarrow> is_redirected x = 0" by auto
  then show ?thesis by (simp add: good_def roots_plain_def)
qed

lemma reach_good: "xfs_reach xfs \<Longrightarrow> good xfs"
  by (induction rule: xfs_reach.induct) (auto intro: create_good step_good)

subsection \<open>A concrete file system\<close>

text \<open>
  The root holds the directory 3 (name d) and the file 5 (name f), the directory 3 holds the
  file 4 (name x), which is open once; 6 and 7 are free. The file 5 is on device 9.
\<close>

definition ex_node :: "nat \<Rightarrow> 32 word \<Rightarrow> byte list \<Rightarrow> nat option \<Rightarrow> nat option \<Rightarrow> nat option \<Rightarrow> nat option \<Rightarrow> nat option \<Rightarrow>
    32 word \<Rightarrow> int \<Rightarrow> inode_all" where
  "ex_node n md nm par nx pv b e oc dev = new_inode\<lparr>inum := n, mode := md, name := nm, parent := par, next_i := nx,
     prev_i := pv, dir_begin := b, dir_end := e, open_count := oc, generation := 1,
     is_redirected := (if dev = 0 then 0 else 1), device_id := dev\<rparr>"

definition ex_fs :: xfs_fs where
  "ex_fs = \<lparr>inode_table = [None,
     Some (ex_node 1 0x41ff [46] None None None (Some 3) (Some 5) 0 0),
     Some (ex_node 2 0x41ff [46] None None None None None 0 0),
     Some (ex_node 3 0x41ff [100] (Some 1) (Some 5) None (Some 4) (Some 4) 0 0),
     Some (ex_node 4 0x81ff [120] (Some 3) None None None None 1 0),
     Some (ex_node 5 0x81ff [102] (Some 1) None (Some 3) None None 0 9), None, None],
     free_list = [7, 6], fs_generation = 1\<rparr>"

lemma ex_tbl: "tbl ex_fs i =
  (if i = 1 then Some (ex_node 1 0x41ff [46] None None None (Some 3) (Some 5) 0 0)
   else if i = 2 then Some (ex_node 2 0x41ff [46] None None None None None 0 0)
   else if i = 3 then Some (ex_node 3 0x41ff [100] (Some 1) (Some 5) None (Some 4) (Some 4) 0 0)
   else if i = 4 then Some (ex_node 4 0x81ff [120] (Some 3) None None None None 1 0)
   else if i = 5 then Some (ex_node 5 0x81ff [102] (Some 1) None (Some 3) None None 0 9) else None)"
proof (cases "i < 8")
  case True
  then have "i \<in> {0, 1, 2, 3, 4, 5, 6, 7}" by auto
  then show ?thesis by (elim insertE emptyE) (simp_all add: ex_fs_def tbl_def)
qed (simp add: ex_fs_def tbl_def)

lemma ex_node_simps [simp]:
  "inum (ex_node n md nm par nx pv b e oc dev) = n" "name (ex_node n md nm par nx pv b e oc dev) = nm"
  "parent (ex_node n md nm par nx pv b e oc dev) = par" "next_i (ex_node n md nm par nx pv b e oc dev) = nx"
  "prev_i (ex_node n md nm par nx pv b e oc dev) = pv" "dir_begin (ex_node n md nm par nx pv b e oc dev) = b"
  "dir_end (ex_node n md nm par nx pv b e oc dev) = e" "open_count (ex_node n md nm par nx pv b e oc dev) = oc"
  "generation (ex_node n md nm par nx pv b e oc dev) = 1" "mode (ex_node n md nm par nx pv b e oc dev) = md"
  "is_redirected (ex_node n md nm par nx pv b e oc dev) = (if dev = 0 then 0 else 1)"
  "device_id (ex_node n md nm par nx pv b e oc dev) = dev"
  "is_dir (ex_node n 0x41ff nm par nx pv b e oc dev)" "\<not> is_reg (ex_node n 0x41ff nm par nx pv b e oc dev)"
  "\<not> is_dir (ex_node n 0x81ff nm par nx pv b e oc dev)" "is_reg (ex_node n 0x81ff nm par nx pv b e oc dev)"
  by (simp_all add: ex_node_def is_dir_def is_reg_def)

lemma ex_flat: "flat ex_fs i = map_option strip (tbl ex_fs i)"
  by (simp add: flat_def)

lemma ex_kid: "kid (flat ex_fs) d i \<longleftrightarrow> (d, i) \<in> {(1, 3), (1, 5), (3, 4)}"
  by (auto simp: kid_def ex_flat ex_tbl split: if_splits)

lemma ex_dir_at: "dir_at (flat ex_fs) d \<longleftrightarrow> d \<in> {1, 2, 3}"
  by (simp add: dir_at_def ex_flat ex_tbl)

lemma ex_count: "inode_count ex_fs = 8" "free_list ex_fs = [7, 6]"
  by (simp_all add: ex_fs_def)

lemma upt8: "[0..<8] = [0, 1, 2, 3, 4, 5, 6, 7 :: nat]"
  by code_simp

lemma ex_ch: "ch ex_fs d = (if d = 1 then [3, 5] else if d = 3 then [4] else [])"
  unfolding ch_flat ex_count upt8 by (simp add: ex_kid)

lemma ex_inv: "xfs_inv ex_fs"
proof -
  have "lists_ok ex_fs" by (auto simp: lists_ok_def dirlist_def ex_tbl ex_ch split: if_splits)
  moreover have "inum_ok ex_fs" by (auto simp: inum_ok_def ex_tbl split: if_splits)
  moreover have "free_ok ex_fs" by (auto simp: free_ok_def ex_tbl ex_count)
  moreover have "tree_ok (flat ex_fs)"
  proof (rule tree_okI)
    show "names_ok (flat ex_fs)" by (auto simp: names_ok_def ex_flat ex_tbl split: if_splits)
    show "ranked (flat ex_fs)" unfolding ranked_def by (rule exI [of _ id]) (auto simp: ex_kid)
  qed (auto simp: ex_flat ex_tbl ex_dir_at split: if_splits)
  moreover have "pend_ok (flat ex_fs)" by (auto simp: pend_ok_def ex_flat ex_tbl split: if_splits)
  ultimately show ?thesis by (simp add: xfs_inv_def xfs_base_def)
qed

lemma ex_below: "below (flat ex_fs) 3 = {4}" "below (flat ex_fs) 4 = {}" "below (flat ex_fs) 5 = {}"
proof -
  have k: "\<not> kid (flat ex_fs) 4 i" "\<not> kid (flat ex_fs) 5 i" for i by (simp_all add: ex_kid)
  then show "below (flat ex_fs) 4 = {}" "below (flat ex_fs) 5 = {}" by (simp_all add: below_empty)
  have "i = 4" if "i \<in> below (flat ex_fs) 3" for i
    using that unfolding below_def mem_Collect_eq
    by (induction rule: converse_trancl_induct) (auto simp: edges_def ex_kid)
  moreover have "4 \<in> below (flat ex_fs) 3" by (auto simp: below_def edges_def ex_kid)
  ultimately show "below (flat ex_fs) 3 = {4}" by blast
qed

subsection \<open>The properties\<close>

text \<open>
  C33. Take a file system created with a umask of permission bits only, and any sequence of calls
  that add entries, remove entries or the contents of directories, open and close files, remove
  devices and move entries, except the following, for which the code has no check: a move of a
  directory into itself or of an entry onto the name of one of its ancestors; removal or move of
  the root or of the delete-pending directory, and removal of the contents of the latter; an open
  that wraps the open count around. Then the directory lists are doubly linked, sorted by number
  and hold exactly the children, the parents form a forest, names are unique in a directory, the
  free list is exactly the unused numbers, and only open files are in the delete-pending
  directory. (A directory moved into itself becomes its own parent, so the exception is needed.)
\<close>

theorem xfs_reachable_inv:
  assumes "xfs_reach xfs"
  shows "xfs_inv xfs"
  using reach_good [OF assms] by (simp add: good_def)

definition all_mem :: xfs_mem where
  "all_mem = \<lparr>m_table = True, m_free = True, m_inode = True, m_name = True\<rparr>"

theorem xfs_reachable_inv_witness:
  "\<exists>xfs0 xfs1 xfs2 xfs4 d f x.
     xfs_create_xfs_fs True all_mem 0x12 7 8 100 = Some xfs0 \<and>
     xfs_add_entry all_mem 101 xfs0 FUSE_ROOT_ID [100] (S_IFDIR OR 0x1ed) = Some (Some d, xfs1) \<and>
     xfs_add_entry all_mem 102 xfs1 d [102] 0x1a4 = Some (Some f, xfs2) \<and>
     xfs_remove_entry (xfs_increment_file_open_count xfs2 f) d = Some xfs4 \<and>
     flat xfs4 d = None \<and> flat xfs4 f = Some x \<and> parent x = Some DELETE_PENDING_ID \<and> xfs_inv xfs4"
proof -
  obtain xfs0 where x0: "xfs_create_xfs_fs True all_mem 0x12 7 8 100 = Some xfs0" "xfs_inv xfs0"
    "dom (flat xfs0) = {FUSE_ROOT_ID, DELETE_PENDING_ID}"
    using create_step [where um = "0x12" and m = all_mem and u = 7 and g = 8 and now = 100] by (auto simp: all_mem_def)
  have r0: "xfs_reach xfs0" using x0 by (intro xfs_reach.create [of "0x12"]) simp_all
  note tree = tree_okD [OF base_tree [OF inv_base [OF x0(2)]]]
  have "\<not> named (flat xfs0) FUSE_ROOT_ID [100] i" for i
  proof
    assume n: "named (flat xfs0) FUSE_ROOT_ID [100] i"
    then have "i \<in> dom (flat xfs0)" by (auto simp: named_def)
    moreover have "kid (flat xfs0) FUSE_ROOT_ID i" using n by (auto simp: named_def kid_def)
    ultimately show False using x0(3) tree(4,5) by auto
  qed
  then have "may_add (flat xfs0) FUSE_ROOT_ID [100]" using tree(2) by (simp add: may_add_def)
  then obtain d px xfs1 where x1: "xfs_add_entry all_mem 101 xfs0 FUSE_ROOT_ID [100] (S_IFDIR OR 0x1ed) = Some (Some d, xfs1)"
    "3 \<le> d" "flat xfs0 d = None"
    "flat xfs1 = (flat xfs0)(d \<mapsto> (new_entry 101 (fs_generation xfs0) px d [100] (S_IFDIR OR 0x1ed))\<lparr>parent := Some FUSE_ROOT_ID\<rparr>)"
    using add_entry_step [OF inv_base [OF x0(2)], of all_mem 101 FUSE_ROOT_ID "[100]" "S_IFDIR OR 0x1ed"]
    by (auto simp: all_mem_def add_result_def)
  have r1: "xfs_reach xfs1" using r0 xfs_step.add [OF x1(1)] by (rule xfs_reach.step)
  have i1: "xfs_inv xfs1" using reach_good [OF r1] by (simp add: good_def)
  have "\<not> named (flat xfs1) d [102] i" for i
  proof
    assume "named (flat xfs1) d [102] i"
    then obtain x where x: "flat xfs0 i = Some x" "parent x = Some d"
      using x1(2,4) by (auto simp: named_def split: if_splits)
    then have "i \<in> dom (flat xfs0)" "kid (flat xfs0) d i" by (auto simp: kid_def)
    then show False using x0(3) tree(4,5) by auto
  qed
  then have "may_add (flat xfs1) d [102]"
    using x1(2,4) by (simp add: may_add_def dir_at_def)
  then obtain f py xfs2 where x2: "xfs_add_entry all_mem 102 xfs1 d [102] 0x1a4 = Some (Some f, xfs2)"
    "3 \<le> f" "flat xfs1 f = None"
    "flat xfs2 = (flat xfs1)(f \<mapsto> (new_entry 102 (fs_generation xfs1) py f [102] 0x1a4)\<lparr>parent := Some d\<rparr>)"
    using add_entry_step [OF inv_base [OF i1], of all_mem 102 d "[102]" "0x1a4"]
    by (auto simp: all_mem_def add_result_def)
  have r2: "xfs_reach xfs2" using r1 xfs_step.add [OF x2(1)] by (rule xfs_reach.step)
  have i2: "xfs_inv xfs2" using reach_good [OF r2] by (simp add: good_def)
  obtain y where y: "tbl xfs2 f = Some y" "strip y = (new_entry 102 (fs_generation xfs1) py f [102] 0x1a4)\<lparr>parent := Some d\<rparr>"
    using x2(4) by (metis flat_SomeE fun_upd_same)
  let ?xfs3 = "xfs_increment_file_open_count xfs2 f"
  have "open_count (strip y) = 0" "is_reg (strip y)" using y(2) by simp_all
  then have cnt: "open_count y = 0" "is_reg y" by simp_all
  have r3: "xfs_reach ?xfs3" using r2 by (rule xfs_reach.step) (rule xfs_step.increment, use y cnt in simp)
  have i3: "xfs_inv ?xfs3" using reach_good [OF r3] by (simp add: good_def)
  have fl: "flat ?xfs3 = (flat xfs2)(f \<mapsto> (strip y)\<lparr>open_count := 1\<rparr>)"
    using increment_step(2) [OF i2 y(1)] cnt by simp
  have fd: "f \<noteq> d" using x1(4) x2(3) by auto
  then have dir: "flat ?xfs3 d = flat xfs1 d" using fl x2(4) by simp
  then obtain z where z: "tbl ?xfs3 d = Some z" using x1(4) by (metis flat_SomeE fun_upd_same)
  obtain xfs4 where x4: "xfs_remove_entry ?xfs3 d = Some xfs4"
    "flat xfs4 = prune (flat ?xfs3) (insert d (below (flat ?xfs3) d))"
    using remove_entry_step [OF inv_base [OF i3] z] x1(2) by (auto simp: removed_def)
  have "xfs_reach xfs4" using r3 by (rule xfs_reach.step) (rule xfs_step.remove [OF _ _ x4(1)], use x1(2) in simp_all)
  then have "xfs_inv xfs4" by (rule xfs_reachable_inv)
  moreover have "flat xfs4 d = None"
    using x4(2) dir x1(4) by (simp add: prune_def)
  moreover have "\<exists>x. flat xfs4 f = Some x \<and> parent x = Some DELETE_PENDING_ID"
  proof -
    have "f \<in> below (flat ?xfs3) d"
      using fl y(2) by (auto simp: below_def edges_def kid_def intro!: r_into_trancl)
    moreover have "is_reg ((strip y)\<lparr>open_count := 1\<rparr>)" using cnt by (simp add: is_reg_def)
    ultimately show ?thesis using x4(2) fl cnt by (simp add: prune_def)
  qed
  ultimately show ?thesis using x0(1) x1(1) x2(1) x4(1) by blast
qed

text \<open>
  C34. Removing an entry always returns. The entry and all that is below it are gone, except
  that open files among them are now in the delete-pending directory; every other inode is
  untouched, and the invariant is kept.
\<close>

theorem xfs_remove_entry_correct:
  assumes "xfs_inv xfs" "tbl xfs n = Some x" "n \<noteq> FUSE_ROOT_ID" "n \<noteq> DELETE_PENDING_ID"
  shows "\<exists>xfs'. xfs_remove_entry xfs n = Some xfs' \<and> xfs_inv xfs' \<and>
    flat xfs' = (\<lambda>i. if i = n \<or> i \<in> below (flat xfs) n
      then (case flat xfs i of None \<Rightarrow> None
            | Some y \<Rightarrow> if is_reg y \<and> open_count y > 0 then Some (y\<lparr>parent := Some DELETE_PENDING_ID\<rparr>) else None)
      else flat xfs i)"
proof -
  obtain xfs' where x': "xfs_remove_entry xfs n = Some xfs'" "removed (insert n (below (flat xfs) n)) xfs xfs'"
    using remove_entry_step [OF inv_base [OF assms(1)] assms(2-4)] by blast
  with removed_inv [OF assms(1) x'(2)] show ?thesis by (simp add: removed_def prune_def)
qed

theorem xfs_remove_entry_correct_witness:
  "\<exists>xfs'. xfs_remove_entry ex_fs 3 = Some xfs' \<and> xfs_inv xfs' \<and> flat xfs' 3 = None \<and>
     flat xfs' 5 = flat ex_fs 5 \<and> (\<exists>y. flat xfs' 4 = Some y \<and> parent y = Some 2)"
proof -
  obtain x where "tbl ex_fs 3 = Some x" by (simp add: ex_tbl)
  from xfs_remove_entry_correct [OF ex_inv this] show ?thesis
    by (auto simp: ex_below ex_flat ex_tbl)
qed

text \<open>
  C35. Adding an entry always returns and keeps the invariant. With enough memory it succeeds
  exactly when the parent is a directory other than the delete-pending one, the name is not too
  long and not in use there; then the new inode has an unused number and is the only change,
  and looking the name up finds it. Otherwise the table is unchanged.
\<close>

theorem xfs_add_entry_correct:
  assumes "xfs_inv xfs"
  shows "\<exists>r xfs'. xfs_add_entry m now xfs p nm md = Some (r, xfs') \<and> xfs_inv xfs' \<and>
    (r = None \<longrightarrow> flat xfs' = flat xfs) \<and>
    (m = all_mem \<longrightarrow> (r \<noteq> None \<longleftrightarrow> may_add (flat xfs) p nm)) \<and>
    (\<forall>n. r = Some n \<longrightarrow> flat xfs n = None \<and> xfs_lookup_in_dir xfs' p nm = Some (Some n) \<and>
       (\<exists>y. flat xfs' = (flat xfs)(n \<mapsto> y) \<and> inum y = n \<and> name y = nm \<and> parent y = Some p \<and>
          is_dir y = (md AND S_IFDIR \<noteq> 0) \<and> is_reg y = (md AND S_IFDIR = 0) \<and> open_count y = 0))"
proof -
  note base = inv_base [OF assms]
  obtain r xfs' where x': "xfs_add_entry m now xfs p nm md = Some (r, xfs')" "xfs_base xfs'"
    "add_result now xfs p nm md r xfs'"
    "may_add (flat xfs) p nm \<and> m_table m \<and> m_free m \<and> m_inode m \<and> m_name m \<longrightarrow> r \<noteq> None"
    using add_entry_step [OF base, of m now p nm md] by blast
  have inv: "xfs_inv xfs'" using x'(2) add_entry_pend [OF x'(3)] assms by (simp add: xfs_inv_def)
  have may: "m = all_mem \<longrightarrow> (r \<noteq> None \<longleftrightarrow> may_add (flat xfs) p nm)"
    using x'(3,4) by (auto simp: add_result_def all_mem_def)
  have new: "flat xfs n = None \<and> xfs_lookup_in_dir xfs' p nm = Some (Some n) \<and>
       (\<exists>y. flat xfs' = (flat xfs)(n \<mapsto> y) \<and> inum y = n \<and> name y = nm \<and> parent y = Some p \<and>
          is_dir y = (md AND S_IFDIR \<noteq> 0) \<and> is_reg y = (md AND S_IFDIR = 0) \<and> open_count y = 0)"
    if rn: "r = Some n" for n
  proof -
    obtain px where px: "flat xfs n = None" "p \<noteq> DELETE_PENDING_ID"
      "flat xfs' = (flat xfs)(n \<mapsto> (new_entry now (fs_generation xfs) px n nm md)\<lparr>parent := Some p\<rparr>)"
      using x'(3) rn by (auto simp: add_result_def may_add_def)
    have "named (flat xfs') p nm n" by (simp add: named_def px(3))
    with px show ?thesis using lookup_named [OF x'(2) px(2)] by auto
  qed
  have "r = None \<longrightarrow> flat xfs' = flat xfs" using x'(3) by (auto simp: add_result_def)
  with x'(1) inv may new show ?thesis by blast
qed

theorem xfs_add_entry_correct_witness:
  "(\<exists>n xfs'. xfs_add_entry all_mem 50 ex_fs 3 [97] 0x1a4 = Some (Some n, xfs') \<and> xfs_inv xfs') \<and>
   (\<exists>xfs'. xfs_add_entry all_mem 50 ex_fs 3 [120] 0x1a4 = Some (None, xfs') \<and> flat xfs' = flat ex_fs)"
proof -
  have named: "named (flat ex_fs) 3 nm i \<longleftrightarrow> i = 4 \<and> nm = [120]" for nm i
    by (auto simp: named_def ex_flat ex_tbl split: if_splits)
  have "may_add (flat ex_fs) 3 [97]" "\<not> may_add (flat ex_fs) 3 [120]"
    by (auto simp: may_add_def named ex_dir_at)
  with xfs_add_entry_correct [OF ex_inv, of all_mem 50 3 "[97]" "0x1a4"]
    xfs_add_entry_correct [OF ex_inv, of all_mem 50 3 "[120]" "0x1a4"] show ?thesis
    by (metis option.exhaust)
qed

text \<open>
  C36. A scan of a directory with \<^verbatim>\<open>xfs_readdir\<close> always returns, while the file system changes
  arbitrarily between the calls as long as the directory stays: the entries come in ascending
  order, so none comes twice, and when the scan has ended no entry that was there all the time
  has been left out.
\<close>

theorem xfs_readdir_stable:
  assumes "\<forall>xfs \<in> set xss. xfs_inv xfs \<and> inode_count xfs \<le> 2 ^ 64 \<and>
     (\<exists>dx. tbl xfs (h_inum h) = Some dx \<and> is_dir dx \<and> h_generation h = generation dx)"
  shows "\<exists>seen off. readdir_run h 0 xss = Some (seen, off) \<and> sorted_wrt (<) seen \<and>
     (off = - 1 \<longrightarrow> (\<forall>c. (\<forall>xfs \<in> set xss. child_of xfs (h_inum h) c) \<longrightarrow> c \<in> set seen))"
proof -
  have "\<forall>xfs \<in> set xss. open_on h xfs" using assms by (auto simp: open_on_def xfs_inv_def)
  from readdir_run_ok [OF _ this, of 0] show ?thesis by (auto simp: child_of_flat)
qed

theorem xfs_readdir_stable_witness:
  "\<exists>seen. readdir_run \<lparr>h_inum = 1, h_generation = 1\<rparr> 0 [ex_fs, ex_fs] = Some (seen, - 1) \<and> 3 \<in> set seen \<and> 5 \<in> set seen"
proof -
  let ?h = "\<lparr>h_inum = 1, h_generation = 1\<rparr>"
  have "open_on ?h ex_fs" using ex_inv by (simp add: open_on_def xfs_inv_def ex_tbl ex_count)
  then have step: "xfs_readdir ex_fs ?h (int k) = Some (readdir_spec [3, 5] k)" if "k < 2 ^ 64" for k
    using readdir_step [of ex_fs ?h _ k] that by (auto simp: open_on_def ex_ch)
  have run: "readdir_run ?h 0 [ex_fs, ex_fs] = Some ([3, 5], - 1)"
    using step [of 0] step [of 5] by (simp add: readdir_spec_def)
  have kids: "\<forall>xfs \<in> set [ex_fs, ex_fs]. child_of xfs 1 3" "\<forall>xfs \<in> set [ex_fs, ex_fs]. child_of xfs 1 5"
    by (simp_all add: child_of_flat ex_kid)
  have "\<forall>xfs \<in> set [ex_fs, ex_fs]. xfs_inv xfs \<and> inode_count xfs \<le> 2 ^ 64 \<and>
     (\<exists>dx. tbl xfs (h_inum ?h) = Some dx \<and> is_dir dx \<and> h_generation ?h = generation dx)"
    using ex_inv by (simp add: ex_tbl ex_count)
  from xfs_readdir_stable [OF this] run kids show ?thesis by auto
qed

text \<open>
  C37. The full path of an entry under the root is a list of names, each after a slash, and
  looking these names up one after the other from the root leads back to the entry.
\<close>

theorem xfs_full_path_resolves:
  assumes "xfs_inv xfs" "n \<in> below (flat xfs) FUSE_ROOT_ID"
  shows "\<exists>cs. xfs_get_full_path True xfs n = Some (Some (concat (map (Cons 0x2f) cs))) \<and>
     walk xfs FUSE_ROOT_ID cs = Some (Some n)"
proof -
  note base = inv_base [OF assms(1)]
  have ne: "n \<noteq> FUSE_ROOT_ID" using assms(2) root_not_below [OF base_tree [OF base]] by auto
  have "\<exists>d. kid (flat xfs) d n" using assms(2) by (auto simp: below_def edges_def dest: tranclD)
  then obtain x where x: "tbl xfs n = Some x" by (auto simp: kid_def elim!: flat_SomeE)
  obtain cs where cs: "path_loop xfs (Some n) [] = Some (show_path cs)"
    "walk xfs FUSE_ROOT_ID cs = Some (Some n)"
    using path_loop_ok [OF base x] assms(2) by fastforce
  have "inum x = n" using base x by (simp add: xfs_base_def inum_ok_def)
  then have "xfs_get_full_path True xfs n = Some (Some (show_path cs))"
    using x ne cs(1) by (simp add: xfs_get_full_path_def)
  with cs(2) show ?thesis by (auto simp: show_path_def)
qed

theorem xfs_full_path_resolves_witness:
  "\<exists>cs. xfs_get_full_path True ex_fs 4 = Some (Some (concat (map (Cons 0x2f) cs))) \<and>
     walk ex_fs 1 cs = Some (Some 4)"
proof -
  have "(4, 3) \<in> edges (flat ex_fs)" "(3, 1) \<in> edges (flat ex_fs)" by (simp_all add: edges_def ex_kid)
  then have "4 \<in> below (flat ex_fs) 1" by (auto simp: below_def)
  from xfs_full_path_resolves [OF ex_inv this] show ?thesis .
qed

text \<open>
  C38. Moving an entry to a directory that is neither the entry nor below it, under a name whose
  holder is not an ancestor of the entry, succeeds: the former holder of the name is removed as
  by \<^verbatim>\<open>xfs_remove_entry\<close>, the entry has the new parent and name, nothing else changes and the
  invariant is kept.
\<close>

theorem xfs_move_entry_correct:
  assumes "xfs_inv xfs" "tbl xfs n = Some x" "n \<noteq> FUSE_ROOT_ID" "n \<noteq> DELETE_PENDING_ID"
    and "length nm \<le> XFS_MAXFILENAMELEN" "p \<noteq> DELETE_PENDING_ID" "dir_at (flat xfs) p" "p \<noteq> n" "p \<notin> below (flat xfs) n"
    and "\<And>t. named (flat xfs) p nm t \<Longrightarrow> n \<notin> below (flat xfs) t"
  shows "\<exists>xfs'. xfs_move_entry True xfs n p nm = Some (0, xfs') \<and> xfs_inv xfs' \<and>
    flat xfs' = (prune (flat xfs) {i. \<exists>t. t \<noteq> n \<and> named (flat xfs) p nm t \<and> (i = t \<or> i \<in> below (flat xfs) t)})
      (n \<mapsto> (strip x)\<lparr>parent := Some p, name := nm\<rparr>)"
proof -
  let ?G = "gone (flat xfs) n p nm"
  have G: "{i. \<exists>t. t \<noteq> n \<and> named (flat xfs) p nm t \<and> (i = t \<or> i \<in> below (flat xfs) t)} = ?G"
    by (auto simp: gone_def)
  have may: "may_move (flat xfs) n p nm" "safe_move (flat xfs) n p nm"
    using assms(5-10) by (auto simp: may_move_def safe_move_def gone_def)
  obtain xfs' where x': "xfs_move_entry True xfs n p nm = Some (0, xfs')" "xfs_base xfs'"
    "flat xfs' = (prune (flat xfs) ?G)(n \<mapsto> (strip x)\<lparr>parent := Some p, name := nm\<rparr>)"
    using move_entry_step [OF inv_base [OF assms(1)] assms(2-4) may] by blast
  have "pend_ok (flat xfs)" using assms(1) by (simp add: xfs_inv_def)
  then have "pend_ok (prune (flat xfs) ?G)" by (intro pend_ok_prune) (auto simp: pend_ok_def)
  then have "pend_ok (flat xfs')" unfolding x'(3) by (rule pend_ok_put) (use assms(6) in simp)
  with x' show ?thesis unfolding G by (simp add: xfs_inv_def)
qed

theorem xfs_move_entry_correct_witness:
  "\<exists>xfs'. xfs_move_entry True ex_fs 4 1 [102] = Some (0, xfs') \<and> xfs_inv xfs' \<and> flat xfs' 5 = None \<and>
     (\<exists>y. flat xfs' 4 = Some y \<and> parent y = Some 1 \<and> name y = [102])"
proof -
  have named: "named (flat ex_fs) 1 [102] t \<longleftrightarrow> t = 5" for t
    by (auto simp: named_def ex_flat ex_tbl split: if_splits)
  obtain x where x: "tbl ex_fs 4 = Some x" by (simp add: ex_tbl)
  have safe: "4 \<notin> below (flat ex_fs) t" if "named (flat ex_fs) 1 [102] t" for t
    using that named ex_below by simp
  have "\<exists>xfs'. xfs_move_entry True ex_fs 4 1 [102] = Some (0, xfs') \<and> xfs_inv xfs' \<and>
    flat xfs' = (prune (flat ex_fs) {i. \<exists>t. t \<noteq> 4 \<and> named (flat ex_fs) 1 [102] t \<and> (i = t \<or> i \<in> below (flat ex_fs) t)})
      (4 \<mapsto> (strip x)\<lparr>parent := Some 1, name := [102]\<rparr>)"
    by (rule xfs_move_entry_correct [OF ex_inv x]) (use safe in \<open>simp_all add: ex_below ex_dir_at\<close>)
  then show ?thesis unfolding named by (auto simp: ex_below prune_def ex_flat ex_tbl)
qed

text \<open>
  Moving an entry onto the name of one of its own ancestors passes the check, and then
  follows a freed pointer: the holder of the name is removed with all that is below it, the
  moved entry (a directory or a closed file) included, and then the entry is relinked.
\<close>

lemma xfs_move_onto_ancestor_undefined:
  assumes "xfs_inv xfs" "tbl xfs n = Some x" "open_count x = 0 \<or> is_dir x"
    and "length nm \<le> XFS_MAXFILENAMELEN" "p \<noteq> DELETE_PENDING_ID" "p \<notin> below (flat xfs) n"
    and "named (flat xfs) p nm t" "n \<in> below (flat xfs) t"
  shows "xfs_check_move_entry xfs n p nm = Some True \<and> xfs_move_entry True xfs n p nm = None"
proof -
  note base = inv_base [OF assms(1)]
  note tree = base_tree [OF base]
  have kid: "kid (flat xfs) p t" using assms(7) by (auto simp: named_def kid_def)
  obtain px where px: "tbl xfs p = Some px" "is_dir px" by (rule kid_dirE [OF tree kid])
  have "may_move (flat xfs) n p nm"
    using assms(4-6) px dir_at_flat by (auto simp: may_move_def)
  then have check: "xfs_check_move_entry xfs n p nm = Some True"
    using check_move_step [OF tree assms(2)] by simp
  have nt: "n \<noteq> t" using below_rank [OF tree_okD(9) [OF tree] assms(8)] by auto
  have other: "parent x \<noteq> Some p"
  proof
    assume "parent x = Some p"
    then have k: "kid (flat xfs) p n" using flat_Some [OF assms(2)] by (simp add: kid_def)
    obtain q where q: "(n, q) \<in> edges (flat xfs)" "(q, t) \<in> (edges (flat xfs))\<^sup>*"
      using assms(8) by (auto simp: below_def dest: tranclD)
    then have "q = p" using k by (auto simp: edges_def kid_def)
    then have "p \<in> insert t (below (flat xfs) t)" using q(2) by (auto simp: below_def rtrancl_eq_or_trancl)
    moreover have "t \<in> below (flat xfs) p" using kid by (auto simp: below_def edges_def)
    ultimately show False using below_rank [OF tree_okD(9) [OF tree]] by blast
  qed
  have "\<not> named (flat xfs) p nm n" using other flat_Some [OF assms(2)] by (simp add: named_def)
  from drop_target [OF base px assms(5) this] obtain xfs1 where
    x1: "do { dest \<leftarrow> xfs_lookup_in_dir xfs p nm;
        (case dest of None \<Rightarrow> Some xfs | Some t \<Rightarrow> xfs_remove_entry xfs t) } = Some xfs1"
      "removed (gone (flat xfs) n p nm) xfs xfs1" by blast
  obtain dest where dest: "xfs_lookup_in_dir xfs p nm = Some dest"
    "(case dest of None \<Rightarrow> Some xfs | Some t \<Rightarrow> xfs_remove_entry xfs t) = Some xfs1"
    using x1(1) by (cases "xfs_lookup_in_dir xfs p nm") auto
  have "n \<in> gone (flat xfs) n p nm" using assms(7,8) nt by (auto simp: gone_def)
  moreover have "\<not> (is_reg x \<and> open_count x > 0)"
    using assms(3) tree_okD(6) [OF tree flat_Some [OF assms(2)]] by auto
  ultimately have "flat xfs1 n = None"
    using x1(2) flat_Some [OF assms(2)] by (simp add: removed_def prune_def)
  then have "unlink_inode_from_parent n xfs1 = None" by (simp add: unlink_inode_from_parent_def flat_None)
  then have "xfs_move_entry True xfs n p nm = None"
    using other by (simp add: xfs_move_entry_def check assms(2) dest)
  with check show ?thesis by simp
qed

theorem xfs_move_onto_ancestor_undefined_witness:
  "\<exists>xfs. xfs_inv xfs \<and> xfs_check_move_entry xfs 4 1 [100] = Some True \<and> xfs_move_entry True xfs 4 1 [100] = None"
proof -
  obtain x where x: "tbl ex_fs 4 = Some x" "is_reg x" by (simp add: ex_tbl)
  obtain xfs' where x': "xfs_inv xfs'" "flat xfs' = (flat ex_fs)(4 \<mapsto> (strip x)\<lparr>open_count := 0\<rparr>)"
    using decrement_step [OF ex_inv x] x(1) by (auto simp: ex_tbl)
  have fl: "flat xfs' i = (if i = 4 then Some ((strip x)\<lparr>open_count := 0\<rparr>) else flat ex_fs i)" for i
    by (simp add: x'(2))
  have "flat xfs' 4 = Some ((strip x)\<lparr>open_count := 0\<rparr>)" by (simp add: fl)
  then obtain y where y: "tbl xfs' 4 = Some y" "strip y = (strip x)\<lparr>open_count := 0\<rparr>" by (metis flat_SomeE)
  have oc: "open_count y = 0" using arg_cong [OF y(2), of open_count] by simp
  have kid: "kid (flat xfs') d i \<longleftrightarrow> kid (flat ex_fs) d i" for d i
    using x(1) by (auto simp: kid_def fl ex_flat ex_tbl)
  have "(1, 4) \<notin> (edges (flat xfs'))\<^sup>+"
    by (auto dest!: tranclD simp: edges_def kid ex_kid)
  then have "1 \<notin> below (flat xfs') 4" by (simp add: below_def)
  moreover have "4 \<in> below (flat xfs') 3" by (auto simp: below_def edges_def kid ex_kid)
  moreover have "named (flat xfs') 1 [100] 3" by (simp add: named_def fl ex_flat ex_tbl)
  ultimately show ?thesis
    using xfs_move_onto_ancestor_undefined [OF x'(1) y(1), of "[100]" 1 3] oc x'(1) by auto
qed

text \<open>
  The check also accepts to move a directory into itself, although it is meant to prevent
  loops: only the directories strictly below it are refused.
\<close>

lemma xfs_check_move_into_itself:
  assumes "xfs_inv xfs" "tbl xfs n = Some x" "is_dir x" "n \<noteq> DELETE_PENDING_ID" "length nm \<le> XFS_MAXFILENAMELEN"
  shows "xfs_check_move_entry xfs n n nm = Some True \<and>
    (\<forall>p. p \<in> below (flat xfs) n \<longrightarrow> xfs_check_move_entry xfs n p nm = Some False)"
proof -
  note tree = base_tree [OF inv_base [OF assms(1)]]
  have "n \<notin> below (flat xfs) n" using below_rank [OF tree_okD(9) [OF tree], of n n] by auto
  then show ?thesis
    using check_move_step [OF tree assms(2)] assms(3-5) dir_at_flat [OF assms(2)] by (auto simp: may_move_def)
qed

theorem xfs_check_move_into_itself_witness:
  "xfs_check_move_entry ex_fs 3 3 [97] = Some True"
proof -
  obtain x where "tbl ex_fs 3 = Some x" "is_dir x" by (simp add: ex_tbl)
  from xfs_check_move_into_itself [OF ex_inv this, of "[97]"] show ?thesis by simp
qed

lemma word_le_one: "(w :: 32 word) \<le> 1 \<longleftrightarrow> w = 0 \<or> w = 1"
proof -
  have "w \<le> 1 \<longleftrightarrow> unat w \<le> 1" by (simp add: word_le_nat_alt)
  also have "\<dots> \<longleftrightarrow> unat w = unat (0 :: 32 word) \<or> unat w = unat (1 :: 32 word)" by auto
  also have "\<dots> \<longleftrightarrow> w = 0 \<or> w = 1" by (simp only: word_unat_eq_iff)
  finally show ?thesis .
qed

text \<open>
  Closing a file returns and keeps the invariant. The count never goes below zero; when it
  reaches zero in the delete-pending directory the inode is released, otherwise only the count
  of this file changes.
\<close>

lemma xfs_decrement_releases:
  assumes "xfs_inv xfs" "tbl xfs n = Some x" "is_reg x"
  shows "\<exists>xfs'. xfs_decrement_file_open_count xfs n = Some xfs' \<and> xfs_inv xfs' \<and>
    flat xfs' = (flat xfs)(n :=
      (if open_count x \<le> 1 \<and> parent x = Some DELETE_PENDING_ID then None
       else Some ((strip x)\<lparr>open_count := (if open_count x = 0 then 0 else open_count x - 1)\<rparr>)))"
proof -
  have cond: "(if open_count x > 0 then open_count x - 1 else 0) = 0 \<longleftrightarrow> open_count x \<le> 1"
    using word_le_one [of "open_count x"] by (auto simp: word_gt_0)
  have val: "(if open_count x > 0 then open_count x - 1 else 0) = (if open_count x = 0 then 0 else open_count x - 1)"
    by (simp add: word_gt_0)
  show ?thesis using decrement_step [OF assms] unfolding cond unfolding val .
qed

theorem xfs_decrement_releases_witness:
  "\<exists>xfs' xfs''. xfs_remove_entry ex_fs 3 = Some xfs' \<and> xfs_decrement_file_open_count xfs' 4 = Some xfs'' \<and>
     flat xfs' 4 \<noteq> None \<and> flat xfs'' 4 = None"
proof -
  obtain x where x: "tbl ex_fs 3 = Some x" by (simp add: ex_tbl)
  obtain xfs' where x': "xfs_remove_entry ex_fs 3 = Some xfs'" "removed {3, 4} ex_fs xfs'"
    using remove_entry_step [OF inv_base [OF ex_inv] x] by (auto simp: ex_below)
  note inv = removed_inv [OF ex_inv x'(2)]
  obtain y where y: "flat xfs' 4 = Some y" "parent y = Some 2" "open_count y = 1" "is_reg y"
    using x'(2) by (auto simp: removed_def prune_def ex_flat ex_tbl)
  then obtain z where z: "tbl xfs' 4 = Some z" "strip z = y" by (metis flat_SomeE)
  then have "parent z = Some 2" "open_count z = 1" "is_reg z" using y(2-4) by auto
  then obtain xfs'' where "xfs_decrement_file_open_count xfs' 4 = Some xfs''" "flat xfs'' = (flat xfs')(4 := None)"
    using xfs_decrement_releases [OF inv z(1)] by auto
  then have "xfs_decrement_file_open_count xfs' 4 = Some xfs'' \<and> flat xfs'' 4 = None" by simp
  with x'(1) y(1) show ?thesis by blast
qed

lemma zeroed_kid: "kid (zeroed dev a) d i = kid a d i"
  by (cases "a i") (auto simp: kid_def zeroed_def)

lemma zeroed_below: "below (zeroed dev a) n = below a n"
  by (simp add: below_def edges_def zeroed_kid)

text \<open>
  C39. When a device goes away every inode of it is released, open or not; what is neither on
  the device nor below an inode of it is untouched, and the invariant is kept.
\<close>

theorem xfs_delete_device_complete:
  assumes "xfs_inv xfs"
    and "\<forall>r \<in> {FUSE_ROOT_ID, DELETE_PENDING_ID}. \<forall>x. tbl xfs r = Some x \<longrightarrow> is_redirected x = 0"
  shows "\<exists>xfs'. xfs_delete_redirected_entries_with_device_id xfs dev = Some xfs' \<and> xfs_inv xfs' \<and>
    (\<forall>i x. tbl xfs' i = Some x \<longrightarrow> \<not> on_device dev x) \<and>
    (\<forall>i. (\<forall>t x. tbl xfs t = Some x \<and> on_device dev x \<longrightarrow> i \<noteq> t \<and> i \<notin> below (flat xfs) t) \<longrightarrow> flat xfs' i = flat xfs i)"
proof -
  let ?a = "zeroed dev (flat xfs)" let ?U = "on_dev_set dev ?a UNIV"
  obtain xfs' where x': "xfs_delete_redirected_entries_with_device_id xfs dev = Some xfs'" "xfs_inv xfs'"
    "flat xfs' = prune ?a ?U"
    using delete_device_step [OF assms(1), where dev = dev] assms(2) by blast
  have "\<not> on_device dev x" if x: "tbl xfs' i = Some x" for i x
  proof
    assume dev: "on_device dev x"
    have "prune ?a ?U i = Some (strip x)" using flat_Some [OF x] x'(3) by simp
    then show False
    proof (cases rule: prune_SomeE)
      case 1
      moreover have "on_device dev (strip x)" using dev by simp
      ultimately show False unfolding on_dev_set_def by blast
    next
      case (2 y)
      have "on_device dev y" using dev 2(5) on_device_simps by metis
      moreover obtain z where "y = (if on_device dev z \<and> is_reg z then z\<lparr>open_count := 0\<rparr> else z)"
        using 2(2) by (auto simp: zeroed_def)
      then have "\<not> (on_device dev y \<and> is_reg y \<and> open_count y > 0)" by (cases "on_device dev z \<and> is_reg z") auto
      ultimately show False using 2(3,4) by blast
    qed
  qed
  moreover have "flat xfs' i = flat xfs i"
    if i: "\<forall>t x. tbl xfs t = Some x \<and> on_device dev x \<longrightarrow> i \<noteq> t \<and> i \<notin> below (flat xfs) t" for i
  proof -
    have "i \<notin> ?U"
    proof
      assume "i \<in> ?U"
      then obtain t y where t: "?a t = Some y" "on_device dev y" "i \<in> insert t (below (flat xfs) t)"
        by (auto simp: on_dev_set_def zeroed_below)
      obtain z where z: "flat xfs t = Some z" "y = (if on_device dev z \<and> is_reg z then z\<lparr>open_count := 0\<rparr> else z)"
        using t(1) by (auto simp: zeroed_def)
      have "on_device dev z" using t(2) z(2) by (cases "on_device dev z \<and> is_reg z") simp_all
      moreover obtain x where "tbl xfs t = Some x" "z = strip x" using z(1) by (rule flat_SomeE)
      ultimately show False using i t(3) by simp
    qed
    then have "flat xfs' i = ?a i" using x'(3) by (simp add: prune_def)
    also have "\<dots> = flat xfs i"
    proof (cases "tbl xfs i")
      case None
      then show ?thesis by (simp add: zeroed_def flat_def)
    next
      case (Some x)
      with i have "\<not> on_device dev x" by auto
      with Some show ?thesis by (simp add: zeroed_def flat_def)
    qed
    finally show ?thesis .
  qed
  ultimately show ?thesis using x'(1,2) by blast
qed

theorem xfs_delete_device_complete_witness:
  "\<exists>xfs'. xfs_delete_redirected_entries_with_device_id ex_fs 9 = Some xfs' \<and> tbl xfs' 5 = None \<and>
     flat xfs' 4 = flat ex_fs 4"
proof -
  have roots: "\<forall>r \<in> {FUSE_ROOT_ID, DELETE_PENDING_ID}. \<forall>x. tbl ex_fs r = Some x \<longrightarrow> is_redirected x = 0"
    by (simp add: ex_tbl)
  have dev: "tbl ex_fs t = Some x \<and> on_device 9 x \<Longrightarrow> t = 5" for t x
    by (auto simp: ex_tbl on_device_def split: if_splits)
  obtain xfs' where x': "xfs_delete_redirected_entries_with_device_id ex_fs 9 = Some xfs'"
    "\<forall>i x. tbl xfs' i = Some x \<longrightarrow> \<not> on_device 9 x"
    "\<forall>i. (\<forall>t x. tbl ex_fs t = Some x \<and> on_device 9 x \<longrightarrow> i \<noteq> t \<and> i \<notin> below (flat ex_fs) t) \<longrightarrow> flat xfs' i = flat ex_fs i"
    using xfs_delete_device_complete [OF ex_inv roots, of 9] by blast
  have "4 \<noteq> t \<and> 4 \<notin> below (flat ex_fs) t" if "tbl ex_fs t = Some x \<and> on_device 9 x" for t x
    using dev [OF that] ex_below(3) by simp
  then have "flat xfs' 4 = flat ex_fs 4" using x'(3) by blast
  moreover have "tbl xfs' 5 = None"
  proof -
    let ?a = "zeroed 9 (flat ex_fs)"
    obtain y where y: "?a 5 = Some y" "on_device 9 y" "open_count y = 0"
      by (simp add: zeroed_def ex_flat ex_tbl on_device_def)
    have "flat xfs' = prune ?a (on_dev_set 9 ?a UNIV)"
      using delete_device_step [OF ex_inv, where dev = 9] roots x'(1) by force
    moreover have "5 \<in> on_dev_set 9 ?a UNIV" using y(1,2) unfolding on_dev_set_def by blast
    ultimately have "flat xfs' 5 = None" using y(1,3) by (simp add: prune_def)
    then show ?thesis by (simp add: flat_None)
  qed
  ultimately show ?thesis using x'(1) by blast
qed

end
