(* ===== verification/Base64.thy ===== *)
theory Base64
  imports Xrdp_Prelude
begin

text \<open>
  \<^verbatim>\<open>common/base64.c\<close>: the encoder and decoder that carry opaque data in text. Buffers are
  byte lists; a write behind the end of a buffer is \<^term>\<open>None\<close>. The properties are the round
  trip, that neither routine writes out of its buffer, and which inputs are refused.
\<close>

abbreviation (input) E_INVALID :: "32 word" where "E_INVALID \<equiv> 0x40"
abbreviation (input) E_PAD :: "32 word" where "E_PAD \<equiv> 0x80"
abbreviation (input) CHARMAP_BASE :: "32 word" where "CHARMAP_BASE \<equiv> 0x28"

definition charmap :: "32 word list" where
  "charmap =
    [E_INVALID, E_INVALID, E_INVALID, 0x3e, E_INVALID, E_INVALID, E_INVALID, 0x3f,
     0x34, 0x35, 0x36, 0x37, 0x38, 0x39, 0x3a, 0x3b,
     0x3c, 0x3d, E_INVALID, E_INVALID, E_INVALID, E_PAD, E_INVALID, E_INVALID,
     E_INVALID, 0x00, 0x01, 0x02, 0x03, 0x04, 0x05, 0x06,
     0x07, 0x08, 0x09, 0x0a, 0x0b, 0x0c, 0x0d, 0x0e,
     0x0f, 0x10, 0x11, 0x12, 0x13, 0x14, 0x15, 0x16,
     0x17, 0x18, 0x19, E_INVALID, E_INVALID, E_INVALID, E_INVALID, E_INVALID,
     E_INVALID, 0x1a, 0x1b, 0x1c, 0x1d, 0x1e, 0x1f, 0x20,
     0x21, 0x22, 0x23, 0x24, 0x25, 0x26, 0x27, 0x28,
     0x29, 0x2a, 0x2b, 0x2c, 0x2d, 0x2e, 0x2f, 0x30,
     0x31, 0x32, 0x33]"

text \<open>\<^verbatim>\<open>CM_LOOKUP\<close>. The character is converted from \<^verbatim>\<open>char\<close>, which is signed.\<close>

definition cm_lookup :: "byte \<Rightarrow> 32 word" where
  "cm_lookup x = (let t = scast x - CHARMAP_BASE in
     if unat t < length charmap then charmap ! unat t else E_INVALID)"

text \<open>A destination buffer with the index of the next character, which may run past the end.\<close>

type_synonym dest = "byte list \<times> nat"

definition output_char :: "nat \<Rightarrow> 32 word \<Rightarrow> dest \<Rightarrow> dest option" where
  "output_char dst_len x d =
     (case d of (dst, dst_i) \<Rightarrow>
        if dst_i < dst_len
        then (if dst_i < length dst then Some (dst[dst_i := ucast x], dst_i + 1) else None)
        else Some (dst, dst_i + 1))"

text \<open>The loop body after the lookups. \<^term>\<open>False\<close> is the early return of -1.\<close>

definition decode_quantum :: "nat \<Rightarrow> 32 word \<Rightarrow> 32 word \<Rightarrow> 32 word \<Rightarrow> 32 word \<Rightarrow> dest \<Rightarrow> (bool \<times> dest) option" where
  "decode_quantum dst_len a b c d out =
     (let v = a OR b OR c OR d in
      if v AND E_INVALID \<noteq> 0 then Some (False, out)
      else if v AND E_PAD = 0 then
        (let v = push_bit 18 a OR push_bit 12 b OR push_bit 6 c OR d in
         do { out \<leftarrow> output_char dst_len (drop_bit 16 v) out;
              out \<leftarrow> output_char dst_len (drop_bit 8 v AND 0xff) out;
              out \<leftarrow> output_char dst_len (v AND 0xff) out;
              Some (True, out) })
      else if (a OR b OR c) AND E_PAD = 0 then
        (let v = push_bit 10 a OR push_bit 4 b OR drop_bit 2 c in
         do { out \<leftarrow> output_char dst_len (drop_bit 8 v) out;
              out \<leftarrow> output_char dst_len (v AND 0xff) out;
              Some (True, out) })
      else if (a OR b) AND E_PAD = 0 \<and> c = d then
        (let v = push_bit 2 a OR drop_bit 4 b in
         do { out \<leftarrow> output_char dst_len v out; Some (True, out) })
      else Some (False, out))"

text \<open>The loop; the list is what is left of \<^verbatim>\<open>src\<close>.\<close>

fun decode_loop :: "nat \<Rightarrow> byte list \<Rightarrow> dest \<Rightarrow> (bool \<times> dest) option" where
  "decode_loop dst_len [] out = Some (True, out)"
| "decode_loop dst_len [a] out = decode_quantum dst_len (cm_lookup a) E_PAD E_PAD E_PAD out"
| "decode_loop dst_len [a, b] out = decode_quantum dst_len (cm_lookup a) (cm_lookup b) E_PAD E_PAD out"
| "decode_loop dst_len [a, b, c] out = decode_quantum dst_len (cm_lookup a) (cm_lookup b) (cm_lookup c) E_PAD out"
| "decode_loop dst_len (a # b # c # d # src) out =
     do { (ok, out) \<leftarrow> decode_quantum dst_len (cm_lookup a) (cm_lookup b) (cm_lookup c) (cm_lookup d) out;
          if ok then decode_loop dst_len src out else Some (False, out) }"

text \<open>
  The source is the string up to its terminator. The result is the status, the destination
  buffer and \<^verbatim>\<open>actual_len\<close>.
\<close>

definition base64_decode :: "byte list \<Rightarrow> byte list \<Rightarrow> nat \<Rightarrow> (int \<times> byte list \<times> nat) option" where
  "base64_decode src dst dst_len =
     do { (ok, (dst, dst_i)) \<leftarrow> decode_loop dst_len (takeWhile (\<lambda>x. x \<noteq> 0) src) (dst, 0);
          Some (if ok then (0, dst, dst_i) else (- 1, dst, 0)) }"

definition b64chr :: "byte list" where
  "b64chr =
    [65, 66, 67, 68, 69, 70, 71, 72, 73, 74, 75, 76, 77, 78, 79, 80, 81, 82, 83, 84, 85, 86, 87, 88, 89, 90,
     97, 98, 99, 100, 101, 102, 103, 104, 105, 106, 107, 108, 109, 110, 111, 112, 113, 114, 115, 116, 117,
     118, 119, 120, 121, 122,
     48, 49, 50, 51, 52, 53, 54, 55, 56, 57, 43, 47, 61]"

definition put_char :: "32 word \<Rightarrow> dest \<Rightarrow> dest option" where
  "put_char i d = (case d of (dst, p) \<Rightarrow>
     if unat i < length b64chr \<and> p < length dst then Some (dst[p := b64chr ! unat i], p + 1) else None)"

fun encode_loop :: "byte list \<Rightarrow> dest \<Rightarrow> dest option" where
  "encode_loop [] out = Some out"
| "encode_loop [x] out =
     (let v = push_bit 4 (ucast x) in
      do { out \<leftarrow> put_char (drop_bit 6 v) out;
           out \<leftarrow> put_char (v AND 0x3f) out;
           out \<leftarrow> put_char 64 out;
           put_char 64 out })"
| "encode_loop [x, y] out =
     (let v = push_bit 10 (ucast x) OR push_bit 2 (ucast y) in
      do { out \<leftarrow> put_char (drop_bit 12 v) out;
           out \<leftarrow> put_char (drop_bit 6 v AND 0x3f) out;
           out \<leftarrow> put_char (v AND 0x3f) out;
           put_char 64 out })"
| "encode_loop (x # y # z # src) out =
     (let v = push_bit 16 (ucast x) OR push_bit 8 (ucast y) OR ucast z in
      do { out \<leftarrow> put_char (drop_bit 18 v) out;
           out \<leftarrow> put_char (drop_bit 12 v AND 0x3f) out;
           out \<leftarrow> put_char (drop_bit 6 v AND 0x3f) out;
           out \<leftarrow> put_char (v AND 0x3f) out;
           encode_loop src out })"

text \<open>The result is the number of source octets processed and the buffer.\<close>

definition base64_encode :: "byte list \<Rightarrow> nat \<Rightarrow> byte list \<Rightarrow> nat \<Rightarrow> (nat \<times> byte list) option" where
  "base64_encode src src_len dst dst_len =
     (let max_src_len = (if dst_len = 0 then 0 else (dst_len - 1) div 4 * 3);
          src_len = (if src_len > max_src_len then max_src_len else src_len) in
      if src_len > length src then None
      else do { (dst, p) \<leftarrow> encode_loop (take src_len src) (dst, 0);
                if p < length dst then Some (src_len, dst[p := 0]) else None })"

subsection \<open>Reference encoding and decoding\<close>

fun enc :: "byte list \<Rightarrow> byte list" where
  "enc [] = []"
| "enc [x] = (let v = push_bit 4 (ucast x) :: 32 word in
     [b64chr ! unat (drop_bit 6 v), b64chr ! unat (v AND 0x3f), 61, 61])"
| "enc [x, y] = (let v = push_bit 10 (ucast x) OR push_bit 2 (ucast y) :: 32 word in
     [b64chr ! unat (drop_bit 12 v), b64chr ! unat (drop_bit 6 v AND 0x3f), b64chr ! unat (v AND 0x3f), 61])"
| "enc (x # y # z # src) = (let v = push_bit 16 (ucast x) OR push_bit 8 (ucast y) OR ucast z :: 32 word in
     [b64chr ! unat (drop_bit 18 v), b64chr ! unat (drop_bit 12 v AND 0x3f),
      b64chr ! unat (drop_bit 6 v AND 0x3f), b64chr ! unat (v AND 0x3f)] @ enc src)"

definition dec_quantum :: "32 word \<Rightarrow> 32 word \<Rightarrow> 32 word \<Rightarrow> 32 word \<Rightarrow> byte list option" where
  "dec_quantum a b c d =
     (let v = a OR b OR c OR d in
      if v AND E_INVALID \<noteq> 0 then None
      else if v AND E_PAD = 0 then
        (let v = push_bit 18 a OR push_bit 12 b OR push_bit 6 c OR d in
         Some [ucast (drop_bit 16 v), ucast (drop_bit 8 v AND 0xff), ucast (v AND 0xff)])
      else if (a OR b OR c) AND E_PAD = 0 then
        (let v = push_bit 10 a OR push_bit 4 b OR drop_bit 2 c in Some [ucast (drop_bit 8 v), ucast (v AND 0xff)])
      else if (a OR b) AND E_PAD = 0 \<and> c = d then Some [ucast (push_bit 2 a OR drop_bit 4 b)]
      else None)"

fun dec :: "byte list \<Rightarrow> byte list option" where
  "dec [] = Some []"
| "dec [a] = dec_quantum (cm_lookup a) E_PAD E_PAD E_PAD"
| "dec [a, b] = dec_quantum (cm_lookup a) (cm_lookup b) E_PAD E_PAD"
| "dec [a, b, c] = dec_quantum (cm_lookup a) (cm_lookup b) (cm_lookup c) E_PAD"
| "dec (a # b # c # d # src) =
     do { x \<leftarrow> dec_quantum (cm_lookup a) (cm_lookup b) (cm_lookup c) (cm_lookup d); y \<leftarrow> dec src; Some (x @ y) }"

subsection \<open>The decoder writes what the reference decodes, cut to the buffer\<close>

definition written :: "nat \<Rightarrow> byte list \<Rightarrow> byte list \<Rightarrow> dest" where
  "written n dst acc = (take n acc @ drop (length (take n acc)) dst, length acc)"

lemma output_char_written:
  assumes "n \<le> length dst"
  shows "output_char n x (written n dst acc) = Some (written n dst (acc @ [ucast x]))"
proof (cases "length acc < n")
  case True
  then have "drop (length acc) dst = dst ! length acc # drop (Suc (length acc)) dst"
    using assms by (simp add: Cons_nth_drop_Suc)
  with True assms show ?thesis by (simp add: output_char_def written_def list_update_append)
next
  case False
  then show ?thesis by (simp add: output_char_def written_def)
qed

lemma decode_quantum_written:
  assumes "n \<le> length dst"
  shows "decode_quantum n a b c d (written n dst acc) =
    Some (case dec_quantum a b c d of None \<Rightarrow> (False, written n dst acc) | Some bs \<Rightarrow> (True, written n dst (acc @ bs)))"
  unfolding decode_quantum_def dec_quantum_def Let_def
  by (cases "(a OR b OR c OR d) AND E_INVALID = 0"; cases "(a OR b OR c OR d) AND E_PAD = 0";
      cases "(a OR b OR c) AND E_PAD = 0"; cases "(a OR b) AND E_PAD = 0 \<and> c = d")
    (simp_all only: output_char_written [OF assms] Option.bind.simps append_assoc append.simps option.case
      not_False_eq_True not_True_eq_False if_True if_False simp_thms prod.case)

lemma decode_loop_written:
  assumes "n \<le> length dst"
  shows "\<exists>acc'. decode_loop n src (written n dst acc) = Some (dec src \<noteq> None, written n dst acc') \<and>
    (\<forall>bs. dec src = Some bs \<longrightarrow> acc' = acc @ bs)"
proof (induction src arbitrary: acc rule: dec.induct)
  case (5 a b c d src)
  show ?case
  proof (cases "dec_quantum (cm_lookup a) (cm_lookup b) (cm_lookup c) (cm_lookup d)")
    case None
    then show ?thesis by (auto simp: decode_quantum_written [OF assms])
  next
    case (Some x)
    from "5.IH" [OF Some, of "acc @ x"] obtain acc' where
      "decode_loop n src (written n dst (acc @ x)) = Some (dec src \<noteq> None, written n dst acc')"
      "\<forall>bs. dec src = Some bs \<longrightarrow> acc' = (acc @ x) @ bs" by blast
    with Some show ?thesis by (auto simp: decode_quantum_written [OF assms] split: Option.bind_splits)
  qed
qed (auto simp: decode_quantum_written [OF assms] split: option.splits)

lemma decode_step:
  assumes "n \<le> length dst"
  shows "\<exists>dst'. base64_decode src dst n =
      Some (case dec (takeWhile (\<lambda>x. x \<noteq> 0) src) of None \<Rightarrow> (- 1, dst', 0) | Some bs \<Rightarrow> (0, dst', length bs)) \<and>
    length dst' = length dst \<and> drop n dst' = drop n dst \<and>
    (\<forall>bs. dec (takeWhile (\<lambda>x. x \<noteq> 0) src) = Some bs \<longrightarrow> take (min n (length bs)) dst' = take n bs)"
proof -
  let ?src = "takeWhile (\<lambda>x. x \<noteq> 0) src"
  have "written n dst [] = (dst, 0)" by (simp add: written_def)
  then obtain acc where run: "decode_loop n ?src (dst, 0) = Some (dec ?src \<noteq> None, written n dst acc)"
    "\<forall>bs. dec ?src = Some bs \<longrightarrow> acc = bs"
    using decode_loop_written [OF assms, of ?src "[]"] by auto
  let ?dst = "take n acc @ drop (length (take n acc)) dst"
  have "base64_decode src dst n = Some (case dec ?src of None \<Rightarrow> (- 1, ?dst, 0) | Some bs \<Rightarrow> (0, ?dst, length bs))"
    using run by (auto simp: base64_decode_def written_def split: option.splits)
  moreover have "length ?dst = length dst" "drop n ?dst = drop n dst"
    using assms by (auto simp: min_def)
  moreover have "take (min n (length bs)) ?dst = take n bs" if "dec ?src = Some bs" for bs
    using run(2) that by (simp add: min_def)
  ultimately show ?thesis by blast
qed

subsection \<open>Decoding what was encoded\<close>

lemma and_3f: "w AND 0x3f = take_bit 6 (w :: 32 word)" and and_ff: "w AND 0xff = take_bit 8 (w :: 32 word)"
  by (simp_all add: take_bit_eq_mask mask_eq_exp_minus_1)

definition sextet :: "32 word \<Rightarrow> bool" where
  "sextet w \<longleftrightarrow> (\<forall>n. bit w n \<longrightarrow> n < 6)"

lemma sextet_less: "sextet w \<Longrightarrow> unat w < 64"
proof -
  assume "sextet w"
  then have "w = take_bit 6 w" by (intro bit_word_eqI) (auto simp: sextet_def bit_simps)
  then have "unat w = take_bit 6 (unat w)" by (metis unsigned_take_bit_eq)
  then show ?thesis using take_bit_nat_less_exp [of 6 "unat w"] by simp
qed

lemma sextet_clear: "sextet w \<Longrightarrow> \<not> bit w 6" "sextet w \<Longrightarrow> \<not> bit w 7"
  by (auto simp: sextet_def)

lemma invalid_pad: "v AND E_INVALID = 0 \<longleftrightarrow> \<not> bit (v :: 32 word) 6" "v AND E_PAD = 0 \<longleftrightarrow> \<not> bit (v :: 32 word) 7"
  using and_exp_eq_0_iff_not_bit [of v 6] and_exp_eq_0_iff_not_bit [of v 7] by simp_all

lemma charmap_all: "list_all (\<lambda>n. cm_lookup (b64chr ! n) = of_nat n \<and> b64chr ! n \<noteq> 0) [0..<64]"
  by code_simp

lemma cm_lookup_b64chr: "sextet w \<Longrightarrow> cm_lookup (b64chr ! unat w) = w" "sextet w \<Longrightarrow> b64chr ! unat w \<noteq> 0"
  using charmap_all sextet_less [of w] by (auto simp: list_all_iff)

lemma cm_lookup_pad: "cm_lookup 61 = E_PAD"
  by code_simp

text \<open>The sextets of a group of octets, and the octets from the sextets.\<close>

lemma byte_bits: "bit (ucast (x :: byte) :: 32 word) n \<longleftrightarrow> n < 8 \<and> bit x n"
  by (auto simp: bit_simps dest: bit_imp_le_length)

lemma sextets3:
  fixes x y z :: byte
  defines "v \<equiv> push_bit 16 (ucast x) OR push_bit 8 (ucast y) OR ucast z :: 32 word"
  shows "sextet (drop_bit 18 v)" "sextet (take_bit 6 (drop_bit 12 v))" "sextet (take_bit 6 (drop_bit 6 v))" "sextet (take_bit 6 v)"
    "push_bit 18 (drop_bit 18 v) OR push_bit 12 (take_bit 6 (drop_bit 12 v)) OR push_bit 6 (take_bit 6 (drop_bit 6 v)) OR take_bit 6 v = v"
    "ucast (drop_bit 16 v) = x" "ucast (take_bit 8 (drop_bit 8 v)) = y" "ucast (take_bit 8 v) = z"
proof -
  have b: "bit v n \<longleftrightarrow> (16 \<le> n \<and> n < 24 \<and> bit x (n - 16)) \<or> (8 \<le> n \<and> n < 16 \<and> bit y (n - 8)) \<or> (n < 8 \<and> bit z n)" for n
    by (auto simp: v_def bit_or_iff bit_push_bit_iff byte_bits)
  show "sextet (drop_bit 18 v)" by (auto simp: sextet_def bit_simps b)
  show "sextet (take_bit 6 (drop_bit 12 v))" "sextet (take_bit 6 (drop_bit 6 v))" "sextet (take_bit 6 v)"
    by (auto simp: sextet_def bit_simps)
  show "push_bit 18 (drop_bit 18 v) OR push_bit 12 (take_bit 6 (drop_bit 12 v)) OR push_bit 6 (take_bit 6 (drop_bit 6 v)) OR take_bit 6 v = v" (is "?l = v")
  proof (rule bit_word_eqI)
    fix n :: nat
    show "bit ?l n \<longleftrightarrow> bit v n"
      by (cases "n < 6"; cases "n < 12"; cases "n < 18") (auto simp: bit_simps dest: bit_imp_le_length)
  qed
  show "ucast (drop_bit 16 v) = x" "ucast (take_bit 8 (drop_bit 8 v)) = y" "ucast (take_bit 8 v) = z"
    by (rule bit_word_eqI; auto simp: bit_simps b)+
qed

lemma sextets2:
  fixes x y :: byte
  defines "v \<equiv> push_bit 10 (ucast x) OR push_bit 2 (ucast y) :: 32 word"
  shows "sextet (drop_bit 12 v)" "sextet (take_bit 6 (drop_bit 6 v))" "sextet (take_bit 6 v)"
    "push_bit 10 (drop_bit 12 v) OR push_bit 4 (take_bit 6 (drop_bit 6 v)) OR drop_bit 2 (take_bit 6 v) = drop_bit 2 v"
    "ucast (drop_bit 8 (drop_bit 2 v)) = x" "ucast (take_bit 8 (drop_bit 2 v)) = y"
proof -
  have b: "bit v n \<longleftrightarrow> (10 \<le> n \<and> n < 18 \<and> bit x (n - 10)) \<or> (2 \<le> n \<and> n < 10 \<and> bit y (n - 2))" for n
    by (auto simp: v_def bit_or_iff bit_push_bit_iff byte_bits)
  show "sextet (drop_bit 12 v)" by (auto simp: sextet_def bit_simps b)
  show "sextet (take_bit 6 (drop_bit 6 v))" "sextet (take_bit 6 v)" by (auto simp: sextet_def bit_simps)
  show "push_bit 10 (drop_bit 12 v) OR push_bit 4 (take_bit 6 (drop_bit 6 v)) OR drop_bit 2 (take_bit 6 v) = drop_bit 2 v"
    (is "?l = ?r")
  proof (rule bit_word_eqI)
    fix n :: nat
    have "12 + (n - 10) = n + 2" if "10 \<le> n" using that by simp
    moreover have "6 + (n - 4) = n + 2" if "4 \<le> n" using that by simp
    ultimately show "bit ?l n \<longleftrightarrow> bit ?r n"
      by (cases "n < 4"; cases "n < 10") (auto simp: bit_simps dest: bit_imp_le_length)
  qed
  show "ucast (drop_bit 8 (drop_bit 2 v)) = x" "ucast (take_bit 8 (drop_bit 2 v)) = y"
    by (rule bit_word_eqI; auto simp: bit_simps b)+
qed

lemma sextets1:
  fixes x :: byte
  defines "v \<equiv> push_bit 4 (ucast x) :: 32 word"
  shows "sextet (drop_bit 6 v)" "sextet (take_bit 6 v)"
    "ucast (push_bit 2 (drop_bit 6 v) OR drop_bit 4 (take_bit 6 v)) = x"
proof -
  have b: "bit v n \<longleftrightarrow> (4 \<le> n \<and> n < 12 \<and> bit x (n - 4))" for n
    by (auto simp: v_def bit_or_iff bit_push_bit_iff byte_bits)
  show "sextet (drop_bit 6 v)" by (auto simp: sextet_def bit_simps b)
  show "sextet (take_bit 6 v)" by (auto simp: sextet_def bit_simps)
  show "ucast (push_bit 2 (drop_bit 6 v) OR drop_bit 4 (take_bit 6 v)) = x" (is "?l = x")
  proof (rule bit_word_eqI)
    fix n :: nat
    have "Suc (Suc (n - 2)) = n" if "2 \<le> n" using that by simp
    then show "bit ?l n \<longleftrightarrow> bit x n"
      by (cases "n < 2") (auto simp: bit_simps b dest: bit_imp_le_length)
  qed
qed

lemma dec_quantum_full:
  assumes "sextet a" "sextet b" "sextet c" "sextet d"
  shows "dec_quantum a b c d =
    (let v = push_bit 18 a OR push_bit 12 b OR push_bit 6 c OR d in
     Some [ucast (drop_bit 16 v), ucast (take_bit 8 (drop_bit 8 v)), ucast (take_bit 8 v)])"
  using assms by (simp only: dec_quantum_def Let_def invalid_pad bit_or_iff sextet_clear and_ff simp_thms if_True if_False)

lemma bit_pad: "bit (0x80 :: 32 word) 7" "\<not> bit (0x80 :: 32 word) 6"
  by simp_all

lemma dec_quantum_pad1:
  assumes "sextet a" "sextet b" "sextet c"
  shows "dec_quantum a b c E_PAD =
    (let v = push_bit 10 a OR push_bit 4 b OR drop_bit 2 c in Some [ucast (drop_bit 8 v), ucast (take_bit 8 v)])"
  using assms by (simp only: dec_quantum_def Let_def invalid_pad bit_or_iff sextet_clear bit_pad and_ff simp_thms if_True if_False)

lemma dec_quantum_pad2:
  assumes "sextet a" "sextet b"
  shows "dec_quantum a b E_PAD E_PAD = Some [ucast (push_bit 2 a OR drop_bit 4 b)]"
  using assms by (simp only: dec_quantum_def Let_def invalid_pad bit_or_iff sextet_clear bit_pad and_ff simp_thms if_True if_False)

lemma dec_enc: "dec (enc bs) = Some bs"
proof (induction bs rule: enc.induct)
  case (2 x)
  note s = sextets1 [of x]
  show ?case
    by (simp only: enc.simps Let_def and_3f dec.simps cm_lookup_b64chr(1) s cm_lookup_pad dec_quantum_pad2 Option.bind.simps append.simps)
next
  case (3 x y)
  note s = sextets2 [of x y]
  show ?case
    by (simp only: enc.simps Let_def and_3f dec.simps cm_lookup_b64chr(1) s cm_lookup_pad dec_quantum_pad1 Let_def Option.bind.simps append.simps)
next
  case (4 x y z src)
  note s = sextets3 [of x y z]
  show ?case
    by (simp only: enc.simps Let_def and_3f append.simps dec.simps cm_lookup_b64chr(1) s dec_quantum_full "4.IH" Option.bind.simps)
qed simp

lemma enc_nonzero: "c \<in> set (enc bs) \<Longrightarrow> c \<noteq> 0"
proof (induction bs rule: enc.induct)
  case (2 x)
  then show ?case using cm_lookup_b64chr(2) sextets1 [of x] by (auto simp: Let_def and_3f)
next
  case (3 x y)
  then show ?case using cm_lookup_b64chr(2) sextets2 [of x y] by (auto simp: Let_def and_3f)
next
  case (4 x y z src)
  then show ?case using cm_lookup_b64chr(2) sextets3 [of x y z] by (auto simp: Let_def and_3f)
qed simp

lemma length_enc: "length (enc bs) = (length bs + 2) div 3 * 4"
proof (induction bs rule: enc.induct)
  case (4 x y z src)
  have "(length (x # y # z # src) + 2) div 3 = Suc ((length src + 2) div 3)" by simp
  with "4.IH" show ?case by (simp add: Let_def)
qed (simp_all add: Let_def)

subsection \<open>The encoder fills its buffer with the reference encoding\<close>

lemma put_char_cons:
  assumes "unat i < 65"
  shows "put_char i (pre @ r # rest, length pre) = Some ((pre @ [b64chr ! unat i]) @ rest, length (pre @ [b64chr ! unat i]))"
  using assms by (simp add: put_char_def b64chr_def list_update_append)

lemma pad_index: "unat (64 :: 32 word) < 65" and b64chr_pad: "b64chr ! unat (64 :: 32 word) = 61"
  by (simp_all add: b64chr_def)

lemma four_more: "4 \<le> length r \<Longrightarrow> \<exists>a b c d s. r = a # b # c # d # s"
  by (auto simp: Suc_le_length_iff numeral_eq_Suc)

lemma sextet_less65: "sextet w \<Longrightarrow> unat w < 65"
  using sextet_less [of w] by simp

lemma encode_loop_ok:
  "length (enc src) \<le> length rest \<Longrightarrow>
    encode_loop src (pre @ rest, length pre) =
      Some ((pre @ enc src) @ drop (length (enc src)) rest, length pre + length (enc src))"
proof (induction src arbitrary: pre rest rule: enc.induct)
  case (2 x)
  then obtain a b c d r where rest: "rest = a # b # c # d # r" using four_more [of rest] by (auto simp: Let_def)
  note s = sextet_less65 [OF sextets1(1) [of x]] sextet_less65 [OF sextets1(2) [of x]]
  show ?case
    unfolding rest encode_loop.simps enc.simps Let_def and_3f
    by (simp only: put_char_cons s pad_index Option.bind.simps b64chr_pad) simp
next
  case (3 x y)
  then obtain a b c d r where rest: "rest = a # b # c # d # r" using four_more [of rest] by (auto simp: Let_def)
  note s = sextets2(1-3) [of x y, THEN sextet_less65]
  show ?case
    unfolding rest encode_loop.simps enc.simps Let_def and_3f
    by (simp only: put_char_cons s pad_index Option.bind.simps b64chr_pad) simp
next
  case (4 x y z src)
  have "4 \<le> length rest" using "4.prems" by (simp add: Let_def)
  then obtain a b c d r where rest: "rest = a # b # c # d # r" using four_more by blast
  have len: "length (enc src) \<le> length r" using "4.prems" rest by (simp add: Let_def)
  note s = sextets3(1-4) [of x y z, THEN sextet_less65]
  show ?case
    unfolding rest encode_loop.simps enc.simps Let_def and_3f
    by (simp only: put_char_cons s Option.bind.simps "4.IH" [OF refl len]) simp
qed simp

lemma encode_step:
  assumes "0 < dst_len" "dst_len \<le> length dst" "n \<le> length src"
  defines "k \<equiv> min n ((dst_len - 1) div 4 * 3)"
  shows "\<exists>rest. base64_encode src n dst dst_len = Some (k, enc (take k src) @ 0 # rest) \<and>
    length (enc (take k src) @ 0 # rest) = length dst \<and> length (enc (take k src)) < dst_len"
proof -
  let ?e = "enc (take k src)"
  have "length ?e = (k + 2) div 3 * 4" using assms(3) by (simp add: length_enc k_def)
  also have "\<dots> \<le> ((dst_len - 1) div 4 * 3 + 2) div 3 * 4"
    by (intro mult_le_mono1 div_le_mono) (simp add: k_def)
  also have "\<dots> = (dst_len - 1) div 4 * 4"
  proof -
    have "(m * 3 + 2) div 3 = m" for m :: nat by simp
    then show ?thesis by simp
  qed
  also have "\<dots> < dst_len"
    using assms(1) div_times_less_eq_dividend [of "dst_len - 1" 4] by linarith
  finally have len: "length ?e < dst_len" .
  then obtain c rest where d: "drop (length ?e) dst = c # rest"
    using assms(2) by (cases "drop (length ?e) dst") auto
  have run: "encode_loop (take k src) (dst, 0) = Some (?e @ c # rest, length ?e)"
    using encode_loop_ok [of "take k src" dst "[]"] len assms(2) d by simp
  have k: "(if n > (if dst_len = 0 then 0 else (dst_len - 1) div 4 * 3) then (if dst_len = 0 then 0 else (dst_len - 1) div 4 * 3) else n) = k"
    using assms(1) by (simp add: k_def min_def)
  have "base64_encode src n dst dst_len = Some (k, ?e @ 0 # rest)"
    unfolding base64_encode_def Let_def k using run assms(3) by (simp add: k_def)
  moreover have "length (?e @ 0 # rest) = length dst"
  proof -
    have "length (drop (length ?e) dst) = Suc (length rest)" by (simp add: d)
    then show ?thesis using len assms(2) by simp
  qed
  ultimately show ?thesis using len by blast
qed

lemma takeWhile_enc: "takeWhile (\<lambda>x. x \<noteq> 0) (enc bs @ 0 # rest) = enc bs"
  using enc_nonzero by (simp add: takeWhile_append2)

text \<open>
  C40. Encoding into a buffer that is large enough and decoding the resulting string gives the
  octets back, with their number, whatever the octets are.
\<close>

theorem base64_roundtrip:
  assumes "(length src + 2) div 3 * 4 < length dst" "length src \<le> length out"
  shows "\<exists>dst' out'. base64_encode src (length src) dst (length dst) = Some (length src, dst') \<and>
    base64_decode dst' out (length out) = Some (0, out', length src) \<and> take (length src) out' = src"
proof -
  have "length src \<le> (length dst - 1) div 4 * 3"
  proof -
    have "(length src + 2) div 3 \<le> (length dst - 1) div 4"
      using assms(1) by (intro iffD2 [OF less_eq_div_iff_mult_less_eq]) auto
    then have "(length src + 2) div 3 * 3 \<le> (length dst - 1) div 4 * 3" by simp
    moreover have "length src \<le> (length src + 2) div 3 * 3" by linarith
    ultimately show ?thesis by linarith
  qed
  then have k: "min (length src) ((length dst - 1) div 4 * 3) = length src" by simp
  have "0 < length dst" using assms(1) by linarith
  from encode_step [OF this order_refl order_refl, of src, unfolded k] obtain rest where
    e: "base64_encode src (length src) dst (length dst) = Some (length src, enc src @ 0 # rest)" by auto
  from decode_step [OF order_refl, of "enc src @ 0 # rest" out] obtain out' where
    "base64_decode (enc src @ 0 # rest) out (length out) = Some (0, out', length src)"
    "take (min (length out) (length src)) out' = take (length out) src"
    unfolding takeWhile_enc dec_enc by auto
  moreover have "min (length out) (length src) = length src" using assms(2) by simp
  ultimately have "take (length src) out' = src" using assms(2) by (simp only:) simp
  with e \<open>base64_decode _ _ _ = _\<close> show ?thesis by blast
qed

theorem base64_roundtrip_witness:
  "\<exists>dst' out'. base64_encode [0, 255, 7, 9] 4 (replicate 9 1) 9 = Some (4, dst') \<and>
    base64_decode dst' [0, 0, 0, 0, 0] 5 = Some (0, out', 4) \<and> take 4 out' = [0, 255, 7, 9]"
proof -
  have len: "length [0, 255, 7, 9 :: byte] = 4" "length (replicate 9 (1 :: byte)) = 9" "length [0, 0, 0, 0, 0 :: byte] = 5"
    by simp_all
  have "(length [0, 255, 7, 9 :: byte] + 2) div 3 * 4 < length (replicate 9 (1 :: byte))"
    "length [0, 255, 7, 9 :: byte] \<le> length [0, 0, 0, 0, 0 :: byte]" by (simp_all add: len)
  from base64_roundtrip [OF this] show ?thesis unfolding len .
qed

text \<open>
  For any string whatsoever the decoder returns and stays within the first \<^verbatim>\<open>dst_len\<close>
  octets of its buffer. The reported length is that of the complete result even if the buffer
  was too small, and the buffer holds as much of the result as fits.
\<close>

lemma base64_decode_bounded:
  assumes "dst_len \<le> length dst"
  shows "\<exists>r dst' n. base64_decode src dst dst_len = Some (r, dst', n) \<and> length dst' = length dst \<and>
    drop dst_len dst' = drop dst_len dst \<and>
    (\<forall>big. length big \<ge> n \<longrightarrow> (\<exists>big'. base64_decode src big (length big) = Some (r, big', n) \<and>
       (r = 0 \<longrightarrow> take (min dst_len n) dst' = take dst_len (take n big'))))"
proof -
  let ?d = "dec (takeWhile (\<lambda>x. x \<noteq> 0) src)"
  obtain dst' where dst': "base64_decode src dst dst_len = Some (case ?d of None \<Rightarrow> (- 1, dst', 0) | Some bs \<Rightarrow> (0, dst', length bs))"
    "length dst' = length dst" "drop dst_len dst' = drop dst_len dst"
    "\<forall>bs. ?d = Some bs \<longrightarrow> take (min dst_len (length bs)) dst' = take dst_len bs"
    using decode_step [OF assms, of src] by blast
  have big: "\<exists>big'. base64_decode src big (length big) = Some (case ?d of None \<Rightarrow> (- 1, big', 0) | Some bs \<Rightarrow> (0, big', length bs)) \<and>
      (\<forall>bs. ?d = Some bs \<longrightarrow> take (min (length big) (length bs)) big' = take (length big) bs)" for big
    using decode_step [OF order_refl, of src big] by blast
  show ?thesis
  proof (cases ?d)
    case None
    then show ?thesis using dst' big by auto
  next
    case (Some bs)
    have "\<exists>big'. base64_decode src big (length big) = Some (0, big', length bs) \<and> take (length bs) big' = bs"
      if "length big \<ge> length bs" for big
    proof -
      have m: "min (length big) (length bs) = length bs" using that by simp
      show ?thesis using big [of big] Some that unfolding m by auto
    qed
    moreover have "take (min dst_len (length bs)) dst' = take dst_len bs" using dst'(4) Some by blast
    ultimately have "\<forall>big. length big \<ge> length bs \<longrightarrow> (\<exists>big'. base64_decode src big (length big) = Some (0, big', length bs) \<and>
       ((0 :: int) = 0 \<longrightarrow> take (min dst_len (length bs)) dst' = take dst_len (take (length bs) big')))"
      by metis
    moreover have "base64_decode src dst dst_len = Some (0, dst', length bs)" using dst'(1) Some by simp
    ultimately show ?thesis using dst'(2,3) by blast
  qed
qed

theorem base64_decode_bounded_witness:
  "\<exists>r dst' n. base64_decode [81, 85, 74, 68, 0] [9, 9, 5] 2 = Some (r, dst', n) \<and> drop 2 dst' = [5]"
  using base64_decode_bounded [of 2 "[9, 9, 5]" "[81, 85, 74, 68, 0]"] by auto

end
