(* ===== verification/Spec2Isabelle.thy ===== *)
theory Spec2Isabelle
  imports Sec_Crypto_Props Sec_Sequence Sesman_Pending Sec_Crypto Rc4 Planar_Props Planar Sec_Props Xrdp_Sec Monitors_Props Monitors Mcs_Props Xrdp_Mcs Iso_Props Xrdp_Iso Stream_At Trans_Connect Trans_Read Trans_Net Trans_Queue Trans_IO Utf16 Utf8_Text Utf8 Libipm_Theorems Fifo Int_Set List_Contract Dechunker_Props XFS_Theorems Base64 Sesman_Announce
begin

text \<open>
  A verification library for xrdp, the remote desktop server.

  \<^bold>\<open>The program.\<close> A client's connection is served by the process \<^verbatim>\<open>xrdp\<close>: the protocol layers of
  \<^verbatim>\<open>libxrdp/\<close> talk to the client over a transport of \<^verbatim>\<open>common/trans.c\<close>; for a session the process
  asks \<^verbatim>\<open>sesman\<close>, which starts a \<^verbatim>\<open>sesexec\<close> per session; in the session runs \<^verbatim>\<open>chansrv\<close>, which serves
  the virtual channels. Processes talk through \<^verbatim>\<open>libipm/\<close>, three message protocols (SCP, EICP, ERCP)
  over one wire format. All of them build their messages in the streams of \<^verbatim>\<open>common/parse.h\<close>.

  \<^bold>\<open>Theories.\<close> Each models the source file its own header names, and each definition has the name
  of its function; a loop or a branch with a name of its own is a part of the function the manifest gives.

  \<^item> Shared: \<^verbatim>\<open>Xrdp_Prelude\<close> (bytes, C integers, little-endian encodings, rule collections),
    \<^verbatim>\<open>Parse_Stream\<close> (\<^verbatim>\<open>parse.h\<close>: the data as a byte list, pointers as offsets), \<^verbatim>\<open>Stream_At\<close> (parsing at
    known offsets), \<^verbatim>\<open>Ptr_Table\<close> (lists of pointers to live items).
  \<^item> Containers: \<^verbatim>\<open>Fifo\<close>, \<^verbatim>\<open>Int_Set\<close>, \<^verbatim>\<open>Item_List\<close> and \<^verbatim>\<open>List_Contract\<close> (\<^verbatim>\<open>list.c\<close> and \<^verbatim>\<open>list16.c\<close> under one
    locale). Text: \<^verbatim>\<open>String_Calls\<close>, \<^verbatim>\<open>Utf8\<close>, \<^verbatim>\<open>Utf8_Text\<close>, \<^verbatim>\<open>Utf16\<close>, \<^verbatim>\<open>Base64\<close>.
  \<^item> Transports: \<^verbatim>\<open>Trans_State\<close> and \<^verbatim>\<open>Trans_IO\<close> (the code), \<^verbatim>\<open>Trans_Queue\<close> (output order), \<^verbatim>\<open>Trans_Net\<close>
    (a step relation over all transports of a process and the flow control between them),
    \<^verbatim>\<open>Trans_Read\<close> (input), \<^verbatim>\<open>Trans_Connect\<close> (connecting, listening, TLS mode).
  \<^item> RDP: \<^verbatim>\<open>Xrdp_Iso\<close> (the code of \<^verbatim>\<open>xrdp_iso.c\<close>), \<^verbatim>\<open>Iso_Props\<close>, \<^verbatim>\<open>Xrdp_Mcs\<close> (\<^verbatim>\<open>xrdp_mcs.c\<close>), \<^verbatim>\<open>Mcs_Props\<close>,
    \<^verbatim>\<open>Monitors\<close> (the monitor layouts of \<^verbatim>\<open>libxrdp.c\<close>), \<^verbatim>\<open>Monitors_Props\<close>,
    \<^verbatim>\<open>Xrdp_Sec\<close> (the client's GCC data, of \<^verbatim>\<open>xrdp_sec.c\<close>, and the MCS connection sequence), \<^verbatim>\<open>Sec_Props\<close>
    (the data), \<^verbatim>\<open>Sec_Sequence\<close> (the sequence), \<^verbatim>\<open>Rc4\<close> and \<^verbatim>\<open>Sec_Crypto\<close> (keys, signatures and encryption of
    \<^verbatim>\<open>xrdp_sec.c\<close>, over OpenSSL as a parameter), \<^verbatim>\<open>Sec_Crypto_Props\<close> (both ends stay in step),
    \<^verbatim>\<open>Planar\<close> (the planar bitmap codec of \<^verbatim>\<open>xrdp_bitmap32_compress.c\<close>), \<^verbatim>\<open>Planar_Props\<close> (its decoder).
  \<^item> Inter-process messages: \<^verbatim>\<open>Libipm_Base\<close>, \<^verbatim>\<open>Libipm_Send\<close>, \<^verbatim>\<open>Libipm_Recv\<close> (the code), \<^verbatim>\<open>Libipm_Wire\<close>
    (the wire format as a specification), \<^verbatim>\<open>Libipm_Safety\<close>, \<^verbatim>\<open>Libipm_Props\<close>, \<^verbatim>\<open>Libipm_Theorems\<close>;
    \<^verbatim>\<open>Ipm_Protocol\<close>, \<^verbatim>\<open>Scp\<close>, \<^verbatim>\<open>Eicp\<close>, \<^verbatim>\<open>Ercp\<close> (the three protocols), \<^verbatim>\<open>Ipm_Total\<close> (they never get stuck).
  \<^item> Session manager: \<^verbatim>\<open>Session_List\<close>, \<^verbatim>\<open>Scp_List\<close>, \<^verbatim>\<open>Scp_Process\<close>, \<^verbatim>\<open>Sesman_Events\<close> (the code),
    \<^verbatim>\<open>Session_Props\<close>, \<^verbatim>\<open>Sesman_Total\<close>, \<^verbatim>\<open>Sesman_Safety\<close>, \<^verbatim>\<open>Sesman_Theorems\<close>,
    \<^verbatim>\<open>Sesman_Pending\<close> (a connection whose session creation stays pending), and \<^verbatim>\<open>Sesman_Announce\<close> (a
    message from sesexec to sesman across all layers).
  \<^item> Channels: \<^verbatim>\<open>Dechunker\<close>, \<^verbatim>\<open>Dechunker_Props\<close> (reassembly), and \<^verbatim>\<open>XFS_Model\<close>, the in-memory file system of
    redirected drives, with \<^verbatim>\<open>XFS_Links\<close>, \<^verbatim>\<open>XFS_Invariant\<close>, \<^verbatim>\<open>XFS_Ops\<close>, \<^verbatim>\<open>XFS_Remove\<close>, \<^verbatim>\<open>XFS_Queries\<close>,
    \<^verbatim>\<open>XFS_Theorems\<close>.

  \<^bold>\<open>Conventions.\<close> A function that changes a structure takes it and returns it; a C return value comes
  first. \<^term>\<open>None\<close> is undefined behaviour: an access outside a buffer, a NULL or stale pointer, a
  variadic argument of the wrong type. A safety theorem is thus that the result is \<^term>\<open>Some\<close>. C
  integers are words where the code's arithmetic is bitwise or wraps, and \<^typ>\<open>int\<close> with the
  conversions \<^verbatim>\<open>c_int\<close>, \<^verbatim>\<open>c_uint\<close> otherwise. Log messages are left out. Memory that \<^verbatim>\<open>malloc\<close> does not
  clear is a function \<^verbatim>\<open>junk\<close> of the caller's choice, and an allocation that can fail takes a flag.

  \<^bold>\<open>Environment.\<close> What the code gets from outside is an input of the definitions: the answers of
  sockets (\<^verbatim>\<open>attempt\<close> and \<^verbatim>\<open>recv_attempt\<close> in \<^verbatim>\<open>Trans_IO\<close>; when a list of answers is used up the call
  has not returned yet, which is the return value \<^term>\<open>None\<close> inside \<^term>\<open>Some\<close>), the clock, PAM and the
  process table (records of \<^verbatim>\<open>Scp_Process\<close>), and the settings of \<^verbatim>\<open>client_info\<close> (\<^verbatim>\<open>iso_config\<close>).

  \<^bold>\<open>Fuel.\<close> Loops are structural or have a measure. The mutually recursive removal of \<^verbatim>\<open>XFS_Model\<close> takes
  fuel \<^verbatim>\<open>2 * inode_count + 2\<close>, and \<^verbatim>\<open>XFS_Remove\<close> shows that it suffices whenever the invariant holds.

  \<^bold>\<open>What the lemmas show.\<close> Wire formats: what is sent is parsed back, and arbitrary input is
  parsed without leaving the buffer. State: the invariants of the queues, tables, lists and
  directory trees hold in every state that the calls named in the theorem reach. Function: the hand-optimised routines agree
  with a reference (bitmaps with sets, buffers with character lists, reassembly with an abstract
  machine, linked directories with a flat forest). Errors: an operation that fails leaves the
  state as it was or says how it does not. Some theorems state a defect of the code precisely; the
  manifest lists these under its findings.

  \<^bold>\<open>Not modelled.\<close> Drawing, encoders and window management of \<^verbatim>\<open>xrdp/\<close>; the remaining layers of
  \<^verbatim>\<open>libxrdp/\<close> (the security headers and licensing of \<^verbatim>\<open>xrdp_sec.c\<close>, capabilities, fast-path, drawing orders); the channel handlers of \<^verbatim>\<open>chansrv\<close> over X11, FUSE, PulseAudio and PC/SC;
  the back ends \<^verbatim>\<open>vnc/\<close>, \<^verbatim>\<open>xup/\<close>, \<^verbatim>\<open>neutrinordp/\<close>; process control of \<^verbatim>\<open>sesexec\<close>; the wrappers of system
  calls, OpenSSL and threads; vendored code (pixman, tomlc99); configuration parsing, tools and tests.
\<close>

end
